(* ===== verification/Prelude.thy ===== *)
theory Prelude
  imports Main "HOL-Library.Word" "HOL-Library.Multiset"
begin

text \<open>
  Vocabulary shared by every component theory: identifiers and instants, results that carry
  an exception, the loop over a list that stops at the first exception, the text form of a
  UUID, and sums of a finite table.  The component theories import this one and contribute
  to the collections declared here.
\<close>

named_theorems res_simps \<open>rewriting of results: binding, guards, loops\<close>
named_theorems op_defs \<open>definitions of the operations, for evaluating closed terms\<close>

section \<open>Identifiers and instants\<close>

text \<open>
  \<open>uuid.UUID\<close> is a 128-bit number; its order is the order of that number.  Instants are
  microseconds since the epoch and durations are microseconds, the resolution of Python's
  \<open>datetime\<close>.
\<close>

type_synonym uuid = "128 word"
type_synonym instant = int

abbreviation (input) seconds :: "int \<Rightarrow> int" where
  "seconds n \<equiv> n * 1000000"

abbreviation (input) minutes :: "int \<Rightarrow> int" where
  "minutes n \<equiv> n * 60000000"

abbreviation (input) days :: "int \<Rightarrow> int" where
  "days n \<equiv> n * 86400000000"

section \<open>Results\<close>

text \<open>
  An operation either raises (\<open>Inl\<close>) or returns (\<open>Inr\<close>).  Operations on the database return
  the new state with their value; an exception carries no state, because the session that ran
  the operation is rolled back by whoever catches it.
\<close>

definition bindR :: "'e + 'a \<Rightarrow> ('a \<Rightarrow> 'e + 'b) \<Rightarrow> 'e + 'b" where
  "bindR m f = (case m of Inl e \<Rightarrow> Inl e | Inr a \<Rightarrow> f a)"

definition guardR :: "bool \<Rightarrow> 'e \<Rightarrow> 'e + unit" where
  "guardR c e = (if c then Inr () else Inl e)"

definition optR :: "'e \<Rightarrow> 'a option \<Rightarrow> 'e + 'a" where
  "optR e x = (case x of None \<Rightarrow> Inl e | Some a \<Rightarrow> Inr a)"

lemma bindR_simps [simp, res_simps]:
  "bindR (Inl e) f = Inl e"
  "bindR (Inr a) f = f a"
  by (simp_all add: bindR_def)

lemma bindR_Inr_iff [res_simps]: "bindR m f = Inr y \<longleftrightarrow> (\<exists>x. m = Inr x \<and> f x = Inr y)"
  by (cases m) auto

lemma bindR_Inl_iff [res_simps]:
  "bindR m f = Inl e \<longleftrightarrow> m = Inl e \<or> (\<exists>x. m = Inr x \<and> f x = Inl e)"
  by (cases m) auto

lemma bindR_InrE [elim!]:
  assumes "bindR m f = Inr y"
  obtains x where "m = Inr x" and "f x = Inr y"
  using assms by (auto simp: bindR_Inr_iff)

lemma guardR_simps [simp, res_simps]:
  "guardR True e = Inr ()"
  "guardR False e = Inl e"
  "guardR c e = Inr u \<longleftrightarrow> c"
  "guardR c e = Inl e' \<longleftrightarrow> \<not> c \<and> e' = e"
  by (auto simp: guardR_def)

lemma optR_simps [simp, res_simps]:
  "optR e None = Inl e"
  "optR e (Some a) = Inr a"
  "optR e x = Inr a \<longleftrightarrow> x = Some a"
  "optR e x = Inl e' \<longleftrightarrow> x = None \<and> e' = e"
  by (auto simp: optR_def split: option.splits)

text \<open>A \<open>for\<close> loop whose body may raise; the state is threaded through.\<close>

fun foldR :: "('x \<Rightarrow> 's \<Rightarrow> 'e + 's) \<Rightarrow> 'x list \<Rightarrow> 's \<Rightarrow> 'e + 's" where
  "foldR f [] s = Inr s"
| "foldR f (x # xs) s = bindR (f x s) (foldR f xs)"

lemma foldR_inv:
  assumes "foldR f xs s = Inr s'" and "I s"
    and "\<And>x s s'. x \<in> set xs \<Longrightarrow> I s \<Longrightarrow> f x s = Inr s' \<Longrightarrow> I s'"
  shows "I s'"
  using assms
proof (induction xs arbitrary: s)
  case Nil
  then show ?case by simp
next
  case (Cons x xs)
  from Cons.prems(1) obtain t where t: "f x s = Inr t" "foldR f xs t = Inr s'"
    by auto
  have "I t" using Cons.prems(3)[of x s t] Cons.prems(2) t(1) by simp
  then show ?case
    by (rule Cons.IH[OF t(2)]) (rule Cons.prems(3); simp)
qed

lemma foldR_rel:
  assumes "foldR f xs s = Inr s'" and "\<And>s. R s s" and "\<And>a b c. R a b \<Longrightarrow> R b c \<Longrightarrow> R a c"
    and "\<And>x s s'. x \<in> set xs \<Longrightarrow> f x s = Inr s' \<Longrightarrow> R s s'"
  shows "R s s'"
  using assms
proof (induction xs arbitrary: s)
  case Nil
  then show ?case by simp
next
  case (Cons x xs)
  from Cons.prems(1) obtain t where t: "f x s = Inr t" "foldR f xs t = Inr s'"
    by auto
  have "R s t" using Cons.prems(4)[of x s t] t(1) by simp
  moreover have "R t s'"
    by (rule Cons.IH[OF t(2) Cons.prems(2,3)]) (assumption | rule Cons.prems(4); simp)+
  ultimately show ?case using Cons.prems(3) by blast
qed

section \<open>White space\<close>

text \<open>White space of Python's \<open>str.strip\<close> and of \<open>\s\<close>, among the first 256 characters.\<close>

definition py_space :: "char \<Rightarrow> bool" where
  "py_space c \<longleftrightarrow> (let n = of_char c :: nat in (9 \<le> n \<and> n \<le> 13) \<or> (28 \<le> n \<and> n \<le> 32) \<or> n = 133 \<or> n = 160)"

definition py_rstrip :: "string \<Rightarrow> string" where
  "py_rstrip t = rev (dropWhile py_space (rev t))"

definition py_strip :: "string \<Rightarrow> string" where
  "py_strip t = py_rstrip (dropWhile py_space t)"

section \<open>Decimal numbers\<close>

text \<open>\<open>str(n)\<close>, and \<open>f"{n:0wd}"\<close> with its least width.\<close>

fun dec_str :: "nat \<Rightarrow> string" where
  "dec_str n = (if n < 10 then [''0123456789'' ! n] else dec_str (n div 10) @ [''0123456789'' ! (n mod 10)])"

declare dec_str.simps [simp del]

definition zero_padded :: "nat \<Rightarrow> nat \<Rightarrow> string" where
  "zero_padded w n = (let t = dec_str n in replicate (w - length t) (CHR ''0'') @ t)"

lemma dec_digit_inj: "a < 10 \<Longrightarrow> b < 10 \<Longrightarrow> ''0123456789'' ! a = ''0123456789'' ! b \<Longrightarrow> a = b"
  using nth_eq_iff_index_eq[of "''0123456789''" a b] by simp

lemma dec_str_nonempty [simp]: "dec_str n \<noteq> []"
  by (subst dec_str.simps) simp

lemma dec_str_inj [simp]: "dec_str a = dec_str b \<longleftrightarrow> a = b"
proof
  show "dec_str a = dec_str b \<Longrightarrow> a = b"
  proof (induction a arbitrary: b rule: dec_str.induct)
    case (1 a)
    show ?case
    proof (cases "a < 10")
      case True
      then have a: "dec_str a = [''0123456789'' ! a]" by (subst dec_str.simps) (rule if_P)
      have "b < 10"
      proof (rule ccontr)
        assume "\<not> b < 10"
        then have "dec_str b = dec_str (b div 10) @ [''0123456789'' ! (b mod 10)]" by (subst dec_str.simps) (rule if_not_P)
        with a 1(2) have "[''0123456789'' ! a] = dec_str (b div 10) @ [''0123456789'' ! (b mod 10)]" by metis
        then show False by (cases "dec_str (b div 10)") simp_all
      qed
      then have "dec_str b = [''0123456789'' ! b]" by (subst dec_str.simps) (rule if_P)
      with a 1(2) True \<open>b < 10\<close> show ?thesis by (intro dec_digit_inj) simp_all
    next
      case False
      then have a: "dec_str a = dec_str (a div 10) @ [''0123456789'' ! (a mod 10)]" by (subst dec_str.simps) (rule if_not_P)
      have "\<not> b < 10"
      proof
        assume "b < 10"
        then have "dec_str b = [''0123456789'' ! b]" by (subst dec_str.simps) (rule if_P)
        with a 1(2) have "dec_str (a div 10) @ [''0123456789'' ! (a mod 10)] = [''0123456789'' ! b]" by metis
        then show False by (cases "dec_str (a div 10)") simp_all
      qed
      then have "dec_str b = dec_str (b div 10) @ [''0123456789'' ! (b mod 10)]" by (subst dec_str.simps) (rule if_not_P)
      with a 1(2) have "dec_str (a div 10) = dec_str (b div 10)" "''0123456789'' ! (a mod 10) = ''0123456789'' ! (b mod 10)"
        by simp_all
      then have "a div 10 = b div 10" "a mod 10 = b mod 10"
        using 1(1)[OF False] dec_digit_inj[of "a mod 10" "b mod 10"] by simp_all
      then show ?thesis by (metis div_mult_mod_eq)
    qed
  qed
qed simp

section \<open>The text of a UUID\<close>

text \<open>
  \<open>str(u)\<close> is the number in 32 lower-case hexadecimal digits, cut 8-4-4-4-12 by hyphens.
  Reference keys, cache keys and JSON payloads embed it, so what the components need is that
  it is injective and of constant length.
\<close>

definition hex_digit :: "nat \<Rightarrow> char" where
  "hex_digit d = ''0123456789abcdef'' ! d"

fun hex_fixed :: "nat \<Rightarrow> nat \<Rightarrow> string" where
  "hex_fixed 0 v = []"
| "hex_fixed (Suc w) v = hex_fixed w (v div 16) @ [hex_digit (v mod 16)]"

definition uuid_str :: "uuid \<Rightarrow> string" where
  "uuid_str u =
     (let h = hex_fixed 32 (unat u)
      in take 8 h @ ''-'' @ take 4 (drop 8 h) @ ''-'' @ take 4 (drop 12 h) @ ''-''
           @ take 4 (drop 16 h) @ ''-'' @ drop 20 h)"

lemma hex_digit_inj:
  assumes "a < 16" "b < 16" "hex_digit a = hex_digit b"
  shows "a = b"
proof -
  have "distinct ''0123456789abcdef''" by simp
  moreover have "length ''0123456789abcdef'' = 16" by simp
  ultimately show ?thesis
    using assms nth_eq_iff_index_eq[of "''0123456789abcdef''" a b] by (simp only: hex_digit_def)
qed

lemma length_hex_fixed [simp]: "length (hex_fixed w v) = w"
  by (induction w arbitrary: v) auto

lemma hex_fixed_inj:
  "a < 16 ^ w \<Longrightarrow> b < 16 ^ w \<Longrightarrow> hex_fixed w a = hex_fixed w b \<Longrightarrow> a = b"
proof (induction w arbitrary: a b)
  case 0
  then show ?case by simp
next
  case (Suc w)
  have "a div 16 < 16 ^ w" "b div 16 < 16 ^ w"
    using Suc.prems(1,2) by (simp_all add: less_mult_imp_div_less)
  moreover have "hex_fixed w (a div 16) = hex_fixed w (b div 16)"
    using Suc.prems(3) by simp
  ultimately have "a div 16 = b div 16" by (rule Suc.IH)
  moreover have "a mod 16 = b mod 16"
    using Suc.prems(3) by (intro hex_digit_inj) simp_all
  ultimately show ?case by (metis div_mult_mod_eq)
qed

lemma length_uuid_str [simp]: "length (uuid_str u) = 36"
  by (simp add: uuid_str_def Let_def)

lemma uuid_str_inj [simp]: "uuid_str u = uuid_str v \<longleftrightarrow> u = v"
proof
  assume eq: "uuid_str u = uuid_str v"
  define h g where "h = hex_fixed 32 (unat u)" and "g = hex_fixed 32 (unat v)"
  have len: "length h = 32" "length g = 32" by (simp_all add: h_def g_def)
  have join: "take 8 x @ take 4 (drop 8 x) @ take 4 (drop 12 x) @ take 4 (drop 16 x) @ drop 20 x = x"
    for x :: string
  proof -
    have "drop n x = take k (drop n x) @ drop (n + k) x" for n k
      by (metis append_take_drop_id drop_drop add.commute)
    from this[of 8 4] this[of 12 4] this[of 16 4] show ?thesis
      by (metis append_take_drop_id add_num_simps numeral_plus_numeral semiring_norm(2-10)
          arith_simps(1-3))
  qed
  have "take 8 h = take 8 g \<and> take 4 (drop 8 h) = take 4 (drop 8 g)
      \<and> take 4 (drop 12 h) = take 4 (drop 12 g) \<and> take 4 (drop 16 h) = take 4 (drop 16 g)
      \<and> drop 20 h = drop 20 g"
    using eq len by (simp add: uuid_str_def Let_def flip: h_def g_def)
  then have "h = g" using join[of h] join[of g] by metis
  then have "unat u = unat v"
    unfolding h_def g_def
    by (rule hex_fixed_inj[rotated 2]) (use unsigned_less[of u, where ?'a = nat] unsigned_less[of v, where ?'a = nat] in simp_all)
  then show "u = v" by (rule unsigned_word_eqI)
qed simp

lemma uuid_str_append_inj [simp]: "uuid_str u @ x = uuid_str v @ y \<longleftrightarrow> u = v \<and> x = y"
  by (simp add: append_eq_append_conv)

section \<open>Sums over a table\<close>

text \<open>
  A table is a finite map from primary keys to rows; \<open>tsum f t\<close> adds \<open>f\<close> up over its rows.
\<close>

definition tsum :: "('r \<Rightarrow> int) \<Rightarrow> ('k \<rightharpoonup> 'r) \<Rightarrow> int" where
  "tsum f t = (\<Sum>k\<in>dom t. f (the (t k)))"

lemma tsum_empty [simp]: "tsum f Map.empty = 0"
  by (simp add: tsum_def)

lemma tsum_insert:
  assumes "finite (dom t)" and "t k = None"
  shows "tsum f (t(k \<mapsto> r)) = tsum f t + f r"
proof -
  have "(\<Sum>j\<in>dom t. f (the ((t(k \<mapsto> r)) j))) = (\<Sum>j\<in>dom t. f (the (t j)))"
    using assms(2) by (intro sum.cong) auto
  moreover have "k \<notin> dom t" using assms(2) by auto
  ultimately show ?thesis using assms(1) by (simp add: tsum_def)
qed

lemma tsum_update:
  assumes "finite (dom t)" and "t k = Some q"
  shows "tsum f (t(k \<mapsto> r)) = tsum f t - f q + f r"
proof -
  have dom: "dom t = insert k (dom t - {k})" using assms(2) by auto
  have "tsum f t = f q + (\<Sum>j\<in>dom t - {k}. f (the (t j)))"
    unfolding tsum_def by (subst dom, subst sum.insert) (use assms in auto)
  moreover have "tsum f (t(k \<mapsto> r)) = f r + (\<Sum>j\<in>dom t - {k}. f (the ((t(k \<mapsto> r)) j)))"
    unfolding tsum_def using assms sum.remove[of "dom t" k "\<lambda>j. f (the ((t(k \<mapsto> r)) j))"]
    by (simp add: insert_absorb domI del: fun_upd_apply) simp
  moreover have "(\<Sum>j\<in>dom t - {k}. f (the ((t(k \<mapsto> r)) j))) = (\<Sum>j\<in>dom t - {k}. f (the (t j)))"
    by (intro sum.cong) auto
  ultimately show ?thesis by simp
qed

section \<open>Searching\<close>

lemma find_snoc: "find P xs = Some x \<Longrightarrow> find P (xs @ ys) = Some x"
  by (induction xs) (auto split: if_splits)

end
