(* ===== verification/Errors.thy ===== *)
theory Errors
  imports Prelude
begin

unbundle bit_operations_syntax

text \<open>
  The error codes of the service (\<open>core/err.py\<close> and the \<open>errors.py\<close> of every module), the
  registry that gives each its HTTP status, the translation of unique-constraint violations,
  the translation of exceptions to responses, and the session boundary that rolls a request
  back when it raises (\<open>core/db/session.py\<close>).  Messages are left out: only codes and statuses
  are modelled.
\<close>

section \<open>Error codes\<close>

text \<open>One datatype per \<open>ErrCode\<close> enumeration, wrapped by a constructor named like its class.\<close>

datatype common_err =
    OK
  | INVALID_INPUT
  | FORBIDDEN
  | INTERNAL_ERROR
  | MFA_REQUIRED
  | UNAVAILABLE
  | TIMEOUT
  | VERSION_CONFLICT
  | UNAUTHORIZED
  | NOT_FOUND
  | BAD_REQUEST
  | CONFLICT

datatype auth_err =
    ALREADY_REGISTERED
  | INVALID_CREDENTIALS
  | USER_NOT_FOUND
  | ACCOUNT_LOCKED
  | ACCOUNT_LEVEL_INSUFFICIENT
  | VERIFICATION_CODE_INVALID
  | VERIFICATION_CODE_EXPIRED
  | VERIFICATION_CODE_RATE_LIMIT
  | TOKEN_EXPIRED
  | TOKEN_INVALID
  | REFRESH_TOKEN_REVOKED
  | TOTP_NOT_ENABLED
  | TOTP_ALREADY_ENABLED
  | TOTP_SETUP_REQUIRED
  | TOTP_CODE_INVALID
  | RECOVERY_CODE_INVALID
  | RECOVERY_CODE_USED
  | OAUTH_CANCELED
  | OAUTH_PROVIDER_ERROR
  | OAUTH_EMAIL_TAKEN
  | PASSKEY_REGISTRATION_FAILED
  | PASSKEY_VERIFICATION_FAILED
  | RECOVERY_NOT_SUPPORTED
  | RECOVERY_METHOD_UNAVAILABLE
  | OAUTH_EMAIL_ALREADY_REGISTERED
  | TOO_LARGE
  | AVATAR_NOT_FOUND
  | EMAIL_TAKEN
  | USERNAME_TAKEN
  | ADMISSION_PENDING
  | ADMISSION_REJECTED

datatype column_err =
    APPLICATION_NOT_FOUND
  | NOT_FOUND
  | POST_NOT_FOUND
  | APPLICATION_ALREADY_REVIEWED
  | APPLICATION_PENDING_EXISTS
  | APPLICATION_COOLDOWN

datatype blog_err =
    SERIES_NOT_FOUND
  | COMMENT_NOT_FOUND
  | GIT_ERROR
  | FILE_NOT_FOUND
  | REPO_NAME_TAKEN

datatype file_err =
    NOT_FOUND
  | STORE_ERROR
  | TOO_LARGE
  | INVALID_STATUS
  | NOT_PENDING
  | NOT_APPROVED
  | UPLOAD_NOT_FOUND
  | UPLOAD_EXPIRED
  | NOT_OWNER
  | INVALID_PROJECT
  | UNSAFE_CONTENT
  | SCAN_UNAVAILABLE
  | PREVIEW_UNAVAILABLE

datatype starhope_err =
    NOT_FOUND
  | INVALID_ENTITY

datatype article_err =
    NOT_FOUND
  | COMMENT_NOT_FOUND
  | COMMENT_PARENT_MISMATCH
  | SLUG_CONFLICT
  | CATEGORY_NOT_FOUND
  | INVALID_STATUS_TRANSITION
  | CANNOT_HARD_DELETE_PUBLISHED

datatype storage_err =
    NOT_FOUND
  | STORE_ERROR
  | TOO_LARGE

datatype exam_err =
    EXAM_NOT_FOUND
  | QUESTION_NOT_FOUND
  | ATTEMPT_NOT_FOUND
  | ATTEMPT_ALREADY_SUBMITTED
  | EXAM_NOT_PUBLISHED
  | EXAM_ALREADY_PASSED
  | ALREADY_REGISTERED
  | EXAM_NOT_OPEN
  | CERTIFICATE_NOT_FOUND

datatype board_err =
    BOARD_NOT_FOUND
  | SLUG_CONFLICT
  | APPLICATION_NOT_FOUND
  | APPLICATION_ALREADY_REVIEWED
  | NOT_BOARD_OWNER
  | BOARD_BANNED
  | BOARD_NOT_PUBLIC
  | DAILY_POST_LIMIT_REACHED
  | CERTIFICATION_REQUIRED
  | ALREADY_BANNED
  | BOARD_INACTIVE
  | APPLICATION_PENDING_EXISTS
  | APPLICATION_COOLDOWN

datatype points_err =
    INSUFFICIENT_BALANCE
  | DUPLICATE_REWARD
  | NO_BALANCE_RECORD
  | INVALID_PERIOD

datatype qa_err =
    QUESTION_NOT_FOUND
  | ANSWER_NOT_FOUND
  | QUESTION_NOT_OPEN
  | NOT_ASKER
  | BOUNTY_EXHAUSTED
  | CERTIFICATION_REQUIRED
  | SELF_ACCEPT_FORBIDDEN
  | BOUNTY_EXPIRED
  | SELF_ANSWER_FORBIDDEN

datatype project_err =
    PROJECT_NOT_FOUND
  | APPLICATION_NOT_FOUND
  | APPLICATION_ALREADY_REVIEWED
  | DUPLICATE_APPLICATION
  | MEMBER_USER_NOT_FOUND

datatype follow_err =
    CANNOT_FOLLOW_SELF
  | TARGET_NOT_FOUND
  | DUPLICATE_FOLLOW

datatype moderation_err =
    RULE_NOT_FOUND
  | INVALID_ACTION
  | INVALID_SCOPE

datatype content_err =
    CONTENT_NOT_FOUND
  | BOARD_NOT_FOUND
  | COLUMN_NOT_FOUND
  | UNSUPPORTED_TYPE
  | SLUG_TAKEN

datatype comment_err =
    COMMENT_NOT_FOUND

datatype interaction_err =
    CONTENT_NOT_FOUND
  | DUPLICATE_LIKE

datatype notification_err =
    NOTIFICATION_NOT_FOUND
  | INVALID_TYPE
  | DUPLICATE_TOKEN

datatype search_err =
    EMPTY_QUERY

datatype errcode =
    CommonErr common_err
  | AuthErr auth_err
  | ColumnErr column_err
  | BlogErr blog_err
  | FileErr file_err
  | StarHopeErr starhope_err
  | ArticleErr article_err
  | StorageErr storage_err
  | ExamErr exam_err
  | BoardErr board_err
  | PointsErr points_err
  | QaErr qa_err
  | ProjectErr project_err
  | FollowErr follow_err
  | ModerationErr moderation_err
  | ContentErr content_err
  | CommentErr comment_err
  | InteractionErr interaction_err
  | NotificationErr notification_err
  | SearchErr search_err

section \<open>Code numbers\<close>

text \<open>\<open>Namespace.err\<close>: the module's number above bit 16, the local number below.\<close>

definition ns_err :: "nat \<Rightarrow> nat \<Rightarrow> nat" where
  "ns_err ns_id local_no = (push_bit 16 ns_id OR local_no)"

fun common_err_local :: "common_err \<Rightarrow> nat" where
  "common_err_local common_err.OK = 0"
| "common_err_local common_err.INVALID_INPUT = 1"
| "common_err_local common_err.FORBIDDEN = 2"
| "common_err_local common_err.INTERNAL_ERROR = 3"
| "common_err_local common_err.MFA_REQUIRED = 4"
| "common_err_local common_err.UNAVAILABLE = 5"
| "common_err_local common_err.TIMEOUT = 6"
| "common_err_local common_err.VERSION_CONFLICT = 7"
| "common_err_local common_err.UNAUTHORIZED = 8"
| "common_err_local common_err.NOT_FOUND = 9"
| "common_err_local common_err.BAD_REQUEST = 10"
| "common_err_local common_err.CONFLICT = 11"

fun auth_err_local :: "auth_err \<Rightarrow> nat" where
  "auth_err_local auth_err.ALREADY_REGISTERED = 1"
| "auth_err_local auth_err.INVALID_CREDENTIALS = 2"
| "auth_err_local auth_err.USER_NOT_FOUND = 3"
| "auth_err_local auth_err.ACCOUNT_LOCKED = 4"
| "auth_err_local auth_err.ACCOUNT_LEVEL_INSUFFICIENT = 5"
| "auth_err_local auth_err.VERIFICATION_CODE_INVALID = 6"
| "auth_err_local auth_err.VERIFICATION_CODE_EXPIRED = 7"
| "auth_err_local auth_err.VERIFICATION_CODE_RATE_LIMIT = 8"
| "auth_err_local auth_err.TOKEN_EXPIRED = 9"
| "auth_err_local auth_err.TOKEN_INVALID = 10"
| "auth_err_local auth_err.REFRESH_TOKEN_REVOKED = 11"
| "auth_err_local auth_err.TOTP_NOT_ENABLED = 12"
| "auth_err_local auth_err.TOTP_ALREADY_ENABLED = 13"
| "auth_err_local auth_err.TOTP_SETUP_REQUIRED = 14"
| "auth_err_local auth_err.TOTP_CODE_INVALID = 15"
| "auth_err_local auth_err.RECOVERY_CODE_INVALID = 16"
| "auth_err_local auth_err.RECOVERY_CODE_USED = 17"
| "auth_err_local auth_err.OAUTH_CANCELED = 18"
| "auth_err_local auth_err.OAUTH_PROVIDER_ERROR = 19"
| "auth_err_local auth_err.OAUTH_EMAIL_TAKEN = 20"
| "auth_err_local auth_err.PASSKEY_REGISTRATION_FAILED = 21"
| "auth_err_local auth_err.PASSKEY_VERIFICATION_FAILED = 22"
| "auth_err_local auth_err.RECOVERY_NOT_SUPPORTED = 23"
| "auth_err_local auth_err.RECOVERY_METHOD_UNAVAILABLE = 24"
| "auth_err_local auth_err.OAUTH_EMAIL_ALREADY_REGISTERED = 25"
| "auth_err_local auth_err.TOO_LARGE = 26"
| "auth_err_local auth_err.AVATAR_NOT_FOUND = 27"
| "auth_err_local auth_err.EMAIL_TAKEN = 28"
| "auth_err_local auth_err.USERNAME_TAKEN = 29"
| "auth_err_local auth_err.ADMISSION_PENDING = 30"
| "auth_err_local auth_err.ADMISSION_REJECTED = 31"

fun column_err_local :: "column_err \<Rightarrow> nat" where
  "column_err_local column_err.APPLICATION_NOT_FOUND = 1"
| "column_err_local column_err.NOT_FOUND = 2"
| "column_err_local column_err.POST_NOT_FOUND = 3"
| "column_err_local column_err.APPLICATION_ALREADY_REVIEWED = 4"
| "column_err_local column_err.APPLICATION_PENDING_EXISTS = 5"
| "column_err_local column_err.APPLICATION_COOLDOWN = 6"

fun blog_err_local :: "blog_err \<Rightarrow> nat" where
  "blog_err_local blog_err.SERIES_NOT_FOUND = 1"
| "blog_err_local blog_err.COMMENT_NOT_FOUND = 2"
| "blog_err_local blog_err.GIT_ERROR = 3"
| "blog_err_local blog_err.FILE_NOT_FOUND = 4"
| "blog_err_local blog_err.REPO_NAME_TAKEN = 5"

fun file_err_local :: "file_err \<Rightarrow> nat" where
  "file_err_local file_err.NOT_FOUND = 1"
| "file_err_local file_err.STORE_ERROR = 2"
| "file_err_local file_err.TOO_LARGE = 3"
| "file_err_local file_err.INVALID_STATUS = 4"
| "file_err_local file_err.NOT_PENDING = 5"
| "file_err_local file_err.NOT_APPROVED = 6"
| "file_err_local file_err.UPLOAD_NOT_FOUND = 7"
| "file_err_local file_err.UPLOAD_EXPIRED = 8"
| "file_err_local file_err.NOT_OWNER = 9"
| "file_err_local file_err.INVALID_PROJECT = 10"
| "file_err_local file_err.UNSAFE_CONTENT = 11"
| "file_err_local file_err.SCAN_UNAVAILABLE = 12"
| "file_err_local file_err.PREVIEW_UNAVAILABLE = 13"

fun starhope_err_local :: "starhope_err \<Rightarrow> nat" where
  "starhope_err_local starhope_err.NOT_FOUND = 1"
| "starhope_err_local starhope_err.INVALID_ENTITY = 2"

fun article_err_local :: "article_err \<Rightarrow> nat" where
  "article_err_local article_err.NOT_FOUND = 1"
| "article_err_local article_err.COMMENT_NOT_FOUND = 2"
| "article_err_local article_err.COMMENT_PARENT_MISMATCH = 3"
| "article_err_local article_err.SLUG_CONFLICT = 21"
| "article_err_local article_err.CATEGORY_NOT_FOUND = 22"
| "article_err_local article_err.INVALID_STATUS_TRANSITION = 23"
| "article_err_local article_err.CANNOT_HARD_DELETE_PUBLISHED = 24"

fun storage_err_local :: "storage_err \<Rightarrow> nat" where
  "storage_err_local storage_err.NOT_FOUND = 1"
| "storage_err_local storage_err.STORE_ERROR = 2"
| "storage_err_local storage_err.TOO_LARGE = 3"

fun exam_err_local :: "exam_err \<Rightarrow> nat" where
  "exam_err_local exam_err.EXAM_NOT_FOUND = 1"
| "exam_err_local exam_err.QUESTION_NOT_FOUND = 2"
| "exam_err_local exam_err.ATTEMPT_NOT_FOUND = 3"
| "exam_err_local exam_err.ATTEMPT_ALREADY_SUBMITTED = 4"
| "exam_err_local exam_err.EXAM_NOT_PUBLISHED = 5"
| "exam_err_local exam_err.EXAM_ALREADY_PASSED = 6"
| "exam_err_local exam_err.ALREADY_REGISTERED = 7"
| "exam_err_local exam_err.EXAM_NOT_OPEN = 8"
| "exam_err_local exam_err.CERTIFICATE_NOT_FOUND = 9"

fun board_err_local :: "board_err \<Rightarrow> nat" where
  "board_err_local board_err.BOARD_NOT_FOUND = 1"
| "board_err_local board_err.SLUG_CONFLICT = 2"
| "board_err_local board_err.APPLICATION_NOT_FOUND = 3"
| "board_err_local board_err.APPLICATION_ALREADY_REVIEWED = 4"
| "board_err_local board_err.NOT_BOARD_OWNER = 5"
| "board_err_local board_err.BOARD_BANNED = 6"
| "board_err_local board_err.BOARD_NOT_PUBLIC = 7"
| "board_err_local board_err.DAILY_POST_LIMIT_REACHED = 8"
| "board_err_local board_err.CERTIFICATION_REQUIRED = 9"
| "board_err_local board_err.ALREADY_BANNED = 10"
| "board_err_local board_err.BOARD_INACTIVE = 11"
| "board_err_local board_err.APPLICATION_PENDING_EXISTS = 12"
| "board_err_local board_err.APPLICATION_COOLDOWN = 13"

fun points_err_local :: "points_err \<Rightarrow> nat" where
  "points_err_local points_err.INSUFFICIENT_BALANCE = 1"
| "points_err_local points_err.DUPLICATE_REWARD = 2"
| "points_err_local points_err.NO_BALANCE_RECORD = 3"
| "points_err_local points_err.INVALID_PERIOD = 4"

fun qa_err_local :: "qa_err \<Rightarrow> nat" where
  "qa_err_local qa_err.QUESTION_NOT_FOUND = 1"
| "qa_err_local qa_err.ANSWER_NOT_FOUND = 2"
| "qa_err_local qa_err.QUESTION_NOT_OPEN = 3"
| "qa_err_local qa_err.NOT_ASKER = 4"
| "qa_err_local qa_err.BOUNTY_EXHAUSTED = 5"
| "qa_err_local qa_err.CERTIFICATION_REQUIRED = 6"
| "qa_err_local qa_err.SELF_ACCEPT_FORBIDDEN = 7"
| "qa_err_local qa_err.BOUNTY_EXPIRED = 8"
| "qa_err_local qa_err.SELF_ANSWER_FORBIDDEN = 9"

fun project_err_local :: "project_err \<Rightarrow> nat" where
  "project_err_local project_err.PROJECT_NOT_FOUND = 1"
| "project_err_local project_err.APPLICATION_NOT_FOUND = 2"
| "project_err_local project_err.APPLICATION_ALREADY_REVIEWED = 3"
| "project_err_local project_err.DUPLICATE_APPLICATION = 4"
| "project_err_local project_err.MEMBER_USER_NOT_FOUND = 5"

fun follow_err_local :: "follow_err \<Rightarrow> nat" where
  "follow_err_local follow_err.CANNOT_FOLLOW_SELF = 1"
| "follow_err_local follow_err.TARGET_NOT_FOUND = 2"
| "follow_err_local follow_err.DUPLICATE_FOLLOW = 3"

fun moderation_err_local :: "moderation_err \<Rightarrow> nat" where
  "moderation_err_local moderation_err.RULE_NOT_FOUND = 1"
| "moderation_err_local moderation_err.INVALID_ACTION = 2"
| "moderation_err_local moderation_err.INVALID_SCOPE = 3"

fun content_err_local :: "content_err \<Rightarrow> nat" where
  "content_err_local content_err.CONTENT_NOT_FOUND = 1"
| "content_err_local content_err.BOARD_NOT_FOUND = 3"
| "content_err_local content_err.COLUMN_NOT_FOUND = 4"
| "content_err_local content_err.UNSUPPORTED_TYPE = 5"
| "content_err_local content_err.SLUG_TAKEN = 6"

fun comment_err_local :: "comment_err \<Rightarrow> nat" where
  "comment_err_local comment_err.COMMENT_NOT_FOUND = 2"

fun interaction_err_local :: "interaction_err \<Rightarrow> nat" where
  "interaction_err_local interaction_err.CONTENT_NOT_FOUND = 1"
| "interaction_err_local interaction_err.DUPLICATE_LIKE = 2"

fun notification_err_local :: "notification_err \<Rightarrow> nat" where
  "notification_err_local notification_err.NOTIFICATION_NOT_FOUND = 1"
| "notification_err_local notification_err.INVALID_TYPE = 2"
| "notification_err_local notification_err.DUPLICATE_TOKEN = 3"

fun search_err_local :: "search_err \<Rightarrow> nat" where
  "search_err_local search_err.EMPTY_QUERY = 1"

fun errcode_ns :: "errcode \<Rightarrow> nat" where
  "errcode_ns (CommonErr _) = 0"
| "errcode_ns (AuthErr _) = 1"
| "errcode_ns (ColumnErr _) = 2"
| "errcode_ns (BlogErr _) = 3"
| "errcode_ns (FileErr _) = 5"
| "errcode_ns (StarHopeErr _) = 7"
| "errcode_ns (ArticleErr _) = 8"
| "errcode_ns (StorageErr _) = 9"
| "errcode_ns (ExamErr _) = 10"
| "errcode_ns (BoardErr _) = 11"
| "errcode_ns (PointsErr _) = 12"
| "errcode_ns (QaErr _) = 13"
| "errcode_ns (ProjectErr _) = 14"
| "errcode_ns (FollowErr _) = 15"
| "errcode_ns (ModerationErr _) = 16"
| "errcode_ns (ContentErr _) = 17"
| "errcode_ns (CommentErr _) = 17"
| "errcode_ns (InteractionErr _) = 18"
| "errcode_ns (NotificationErr _) = 19"
| "errcode_ns (SearchErr _) = 20"

fun errcode_local :: "errcode \<Rightarrow> nat" where
  "errcode_local (CommonErr e) = common_err_local e"
| "errcode_local (AuthErr e) = auth_err_local e"
| "errcode_local (ColumnErr e) = column_err_local e"
| "errcode_local (BlogErr e) = blog_err_local e"
| "errcode_local (FileErr e) = file_err_local e"
| "errcode_local (StarHopeErr e) = starhope_err_local e"
| "errcode_local (ArticleErr e) = article_err_local e"
| "errcode_local (StorageErr e) = storage_err_local e"
| "errcode_local (ExamErr e) = exam_err_local e"
| "errcode_local (BoardErr e) = board_err_local e"
| "errcode_local (PointsErr e) = points_err_local e"
| "errcode_local (QaErr e) = qa_err_local e"
| "errcode_local (ProjectErr e) = project_err_local e"
| "errcode_local (FollowErr e) = follow_err_local e"
| "errcode_local (ModerationErr e) = moderation_err_local e"
| "errcode_local (ContentErr e) = content_err_local e"
| "errcode_local (CommentErr e) = comment_err_local e"
| "errcode_local (InteractionErr e) = interaction_err_local e"
| "errcode_local (NotificationErr e) = notification_err_local e"
| "errcode_local (SearchErr e) = search_err_local e"

definition err_value :: "errcode \<Rightarrow> nat" where
  "err_value c = ns_err (errcode_ns c) (errcode_local c)"

section \<open>The registrations\<close>

text \<open>
  What each module hands to \<open>register\<close> when it is imported: its codes with their statuses.
\<close>

definition common_err_rows :: "(errcode \<times> nat) list" where
  "common_err_rows =
    [(CommonErr common_err.OK, 200),
     (CommonErr common_err.INVALID_INPUT, 422),
     (CommonErr common_err.FORBIDDEN, 403),
     (CommonErr common_err.INTERNAL_ERROR, 500),
     (CommonErr common_err.MFA_REQUIRED, 401),
     (CommonErr common_err.UNAVAILABLE, 503),
     (CommonErr common_err.TIMEOUT, 504),
     (CommonErr common_err.VERSION_CONFLICT, 409),
     (CommonErr common_err.UNAUTHORIZED, 401),
     (CommonErr common_err.NOT_FOUND, 404),
     (CommonErr common_err.BAD_REQUEST, 400),
     (CommonErr common_err.CONFLICT, 409)]"

definition auth_err_rows :: "(errcode \<times> nat) list" where
  "auth_err_rows =
    [(AuthErr auth_err.ALREADY_REGISTERED, 409),
     (AuthErr auth_err.INVALID_CREDENTIALS, 401),
     (AuthErr auth_err.USER_NOT_FOUND, 401),
     (AuthErr auth_err.ACCOUNT_LOCKED, 423),
     (AuthErr auth_err.ACCOUNT_LEVEL_INSUFFICIENT, 403),
     (AuthErr auth_err.VERIFICATION_CODE_INVALID, 400),
     (AuthErr auth_err.VERIFICATION_CODE_EXPIRED, 400),
     (AuthErr auth_err.VERIFICATION_CODE_RATE_LIMIT, 429),
     (AuthErr auth_err.TOKEN_EXPIRED, 401),
     (AuthErr auth_err.TOKEN_INVALID, 401),
     (AuthErr auth_err.REFRESH_TOKEN_REVOKED, 401),
     (AuthErr auth_err.TOTP_NOT_ENABLED, 400),
     (AuthErr auth_err.TOTP_ALREADY_ENABLED, 400),
     (AuthErr auth_err.TOTP_SETUP_REQUIRED, 400),
     (AuthErr auth_err.TOTP_CODE_INVALID, 400),
     (AuthErr auth_err.RECOVERY_CODE_INVALID, 400),
     (AuthErr auth_err.RECOVERY_CODE_USED, 400),
     (AuthErr auth_err.OAUTH_CANCELED, 400),
     (AuthErr auth_err.OAUTH_PROVIDER_ERROR, 502),
     (AuthErr auth_err.OAUTH_EMAIL_TAKEN, 409),
     (AuthErr auth_err.PASSKEY_REGISTRATION_FAILED, 400),
     (AuthErr auth_err.PASSKEY_VERIFICATION_FAILED, 400),
     (AuthErr auth_err.RECOVERY_NOT_SUPPORTED, 400),
     (AuthErr auth_err.RECOVERY_METHOD_UNAVAILABLE, 400),
     (AuthErr auth_err.OAUTH_EMAIL_ALREADY_REGISTERED, 409),
     (AuthErr auth_err.TOO_LARGE, 413),
     (AuthErr auth_err.AVATAR_NOT_FOUND, 404),
     (AuthErr auth_err.EMAIL_TAKEN, 409),
     (AuthErr auth_err.USERNAME_TAKEN, 409),
     (AuthErr auth_err.ADMISSION_PENDING, 403),
     (AuthErr auth_err.ADMISSION_REJECTED, 403)]"

definition column_err_rows :: "(errcode \<times> nat) list" where
  "column_err_rows =
    [(ColumnErr column_err.APPLICATION_NOT_FOUND, 404),
     (ColumnErr column_err.NOT_FOUND, 404),
     (ColumnErr column_err.POST_NOT_FOUND, 404),
     (ColumnErr column_err.APPLICATION_ALREADY_REVIEWED, 409),
     (ColumnErr column_err.APPLICATION_PENDING_EXISTS, 409),
     (ColumnErr column_err.APPLICATION_COOLDOWN, 429)]"

definition blog_err_rows :: "(errcode \<times> nat) list" where
  "blog_err_rows =
    [(BlogErr blog_err.SERIES_NOT_FOUND, 404),
     (BlogErr blog_err.COMMENT_NOT_FOUND, 404),
     (BlogErr blog_err.GIT_ERROR, 500),
     (BlogErr blog_err.FILE_NOT_FOUND, 404),
     (BlogErr blog_err.REPO_NAME_TAKEN, 409)]"

definition file_err_rows :: "(errcode \<times> nat) list" where
  "file_err_rows =
    [(FileErr file_err.NOT_FOUND, 404),
     (FileErr file_err.STORE_ERROR, 500),
     (FileErr file_err.TOO_LARGE, 413),
     (FileErr file_err.INVALID_STATUS, 400),
     (FileErr file_err.NOT_PENDING, 409),
     (FileErr file_err.NOT_APPROVED, 403),
     (FileErr file_err.UPLOAD_NOT_FOUND, 409),
     (FileErr file_err.UPLOAD_EXPIRED, 410),
     (FileErr file_err.NOT_OWNER, 403),
     (FileErr file_err.INVALID_PROJECT, 400),
     (FileErr file_err.UNSAFE_CONTENT, 422),
     (FileErr file_err.SCAN_UNAVAILABLE, 503),
     (FileErr file_err.PREVIEW_UNAVAILABLE, 415)]"

definition starhope_err_rows :: "(errcode \<times> nat) list" where
  "starhope_err_rows =
    [(StarHopeErr starhope_err.NOT_FOUND, 404),
     (StarHopeErr starhope_err.INVALID_ENTITY, 422)]"

definition article_err_rows :: "(errcode \<times> nat) list" where
  "article_err_rows =
    [(ArticleErr article_err.NOT_FOUND, 404),
     (ArticleErr article_err.COMMENT_NOT_FOUND, 404),
     (ArticleErr article_err.COMMENT_PARENT_MISMATCH, 400),
     (ArticleErr article_err.SLUG_CONFLICT, 409),
     (ArticleErr article_err.CATEGORY_NOT_FOUND, 404),
     (ArticleErr article_err.INVALID_STATUS_TRANSITION, 409),
     (ArticleErr article_err.CANNOT_HARD_DELETE_PUBLISHED, 409)]"

definition storage_err_rows :: "(errcode \<times> nat) list" where
  "storage_err_rows =
    [(StorageErr storage_err.NOT_FOUND, 404),
     (StorageErr storage_err.STORE_ERROR, 500),
     (StorageErr storage_err.TOO_LARGE, 413)]"

definition exam_err_rows :: "(errcode \<times> nat) list" where
  "exam_err_rows =
    [(ExamErr exam_err.EXAM_NOT_FOUND, 404),
     (ExamErr exam_err.QUESTION_NOT_FOUND, 404),
     (ExamErr exam_err.ATTEMPT_NOT_FOUND, 404),
     (ExamErr exam_err.ATTEMPT_ALREADY_SUBMITTED, 409),
     (ExamErr exam_err.EXAM_NOT_PUBLISHED, 403),
     (ExamErr exam_err.EXAM_ALREADY_PASSED, 409),
     (ExamErr exam_err.ALREADY_REGISTERED, 409),
     (ExamErr exam_err.EXAM_NOT_OPEN, 403),
     (ExamErr exam_err.CERTIFICATE_NOT_FOUND, 404)]"

definition board_err_rows :: "(errcode \<times> nat) list" where
  "board_err_rows =
    [(BoardErr board_err.BOARD_NOT_FOUND, 404),
     (BoardErr board_err.SLUG_CONFLICT, 409),
     (BoardErr board_err.APPLICATION_NOT_FOUND, 404),
     (BoardErr board_err.APPLICATION_ALREADY_REVIEWED, 409),
     (BoardErr board_err.NOT_BOARD_OWNER, 403),
     (BoardErr board_err.BOARD_BANNED, 403),
     (BoardErr board_err.BOARD_NOT_PUBLIC, 403),
     (BoardErr board_err.DAILY_POST_LIMIT_REACHED, 429),
     (BoardErr board_err.CERTIFICATION_REQUIRED, 403),
     (BoardErr board_err.ALREADY_BANNED, 409),
     (BoardErr board_err.BOARD_INACTIVE, 403),
     (BoardErr board_err.APPLICATION_PENDING_EXISTS, 409),
     (BoardErr board_err.APPLICATION_COOLDOWN, 429)]"

definition points_err_rows :: "(errcode \<times> nat) list" where
  "points_err_rows =
    [(PointsErr points_err.INSUFFICIENT_BALANCE, 409),
     (PointsErr points_err.DUPLICATE_REWARD, 409),
     (PointsErr points_err.NO_BALANCE_RECORD, 404),
     (PointsErr points_err.INVALID_PERIOD, 400)]"

definition qa_err_rows :: "(errcode \<times> nat) list" where
  "qa_err_rows =
    [(QaErr qa_err.QUESTION_NOT_FOUND, 404),
     (QaErr qa_err.ANSWER_NOT_FOUND, 404),
     (QaErr qa_err.QUESTION_NOT_OPEN, 409),
     (QaErr qa_err.NOT_ASKER, 403),
     (QaErr qa_err.BOUNTY_EXHAUSTED, 409),
     (QaErr qa_err.CERTIFICATION_REQUIRED, 403),
     (QaErr qa_err.SELF_ACCEPT_FORBIDDEN, 403),
     (QaErr qa_err.BOUNTY_EXPIRED, 409),
     (QaErr qa_err.SELF_ANSWER_FORBIDDEN, 403)]"

definition project_err_rows :: "(errcode \<times> nat) list" where
  "project_err_rows =
    [(ProjectErr project_err.PROJECT_NOT_FOUND, 404),
     (ProjectErr project_err.APPLICATION_NOT_FOUND, 404),
     (ProjectErr project_err.APPLICATION_ALREADY_REVIEWED, 409),
     (ProjectErr project_err.DUPLICATE_APPLICATION, 409),
     (ProjectErr project_err.MEMBER_USER_NOT_FOUND, 404)]"

definition follow_err_rows :: "(errcode \<times> nat) list" where
  "follow_err_rows =
    [(FollowErr follow_err.CANNOT_FOLLOW_SELF, 400),
     (FollowErr follow_err.TARGET_NOT_FOUND, 404),
     (FollowErr follow_err.DUPLICATE_FOLLOW, 409)]"

definition moderation_err_rows :: "(errcode \<times> nat) list" where
  "moderation_err_rows =
    [(ModerationErr moderation_err.RULE_NOT_FOUND, 404),
     (ModerationErr moderation_err.INVALID_ACTION, 422),
     (ModerationErr moderation_err.INVALID_SCOPE, 422)]"

definition content_err_rows :: "(errcode \<times> nat) list" where
  "content_err_rows =
    [(ContentErr content_err.CONTENT_NOT_FOUND, 404),
     (ContentErr content_err.BOARD_NOT_FOUND, 404),
     (ContentErr content_err.COLUMN_NOT_FOUND, 404),
     (ContentErr content_err.UNSUPPORTED_TYPE, 400),
     (ContentErr content_err.SLUG_TAKEN, 409)]"

definition comment_err_rows :: "(errcode \<times> nat) list" where
  "comment_err_rows =
    [(CommentErr comment_err.COMMENT_NOT_FOUND, 404)]"

definition interaction_err_rows :: "(errcode \<times> nat) list" where
  "interaction_err_rows =
    [(InteractionErr interaction_err.CONTENT_NOT_FOUND, 404),
     (InteractionErr interaction_err.DUPLICATE_LIKE, 409)]"

definition notification_err_rows :: "(errcode \<times> nat) list" where
  "notification_err_rows =
    [(NotificationErr notification_err.NOTIFICATION_NOT_FOUND, 404),
     (NotificationErr notification_err.INVALID_TYPE, 422),
     (NotificationErr notification_err.DUPLICATE_TOKEN, 409)]"

definition search_err_rows :: "(errcode \<times> nat) list" where
  "search_err_rows =
    [(SearchErr search_err.EMPTY_QUERY, 422)]"

section \<open>Exceptions\<close>

text \<open>
  The exceptions the modelled code raises or lets through: \<open>BizError\<close> with its code, request
  validation, the Python errors, a database integrity error (is it a unique violation, and of
  which constraint), and any other.
\<close>

datatype exc =
    BizError errcode
  | RequestValidationError
  | ValueError
  | TypeError
  | AssertionError
  | IntegrityError bool "string option"
  | OtherException

section \<open>The registry\<close>

text \<open>
  \<open>register\<close> checks the whole batch against the table before it writes any of it.  The table
  is keyed by the code's number, the hash of an \<open>IntEnum\<close>.
\<close>

type_synonym errtable = "nat \<rightharpoonup> nat"

definition register :: "(errcode \<times> nat) list \<Rightarrow> errtable \<Rightarrow> exc + errtable" where
  "register errors t =
     (if list_ex (\<lambda>(c, _). t (err_value c) \<noteq> None) errors then Inl ValueError
      else Inr (foldl (\<lambda>t (c, st). t(err_value c \<mapsto> st)) t errors))"

text \<open>
  The batches in the order the assembled service imports them: \<open>core.err\<close> itself, then the
  \<open>ERROR_MODULES\<close> of the manifests (top-level modules first, sub-packages after), then storage.
\<close>

definition boot_registrations :: "(errcode \<times> nat) list list" where
  "boot_registrations =
     [common_err_rows, auth_err_rows, blog_err_rows, column_err_rows, comment_err_rows,
      content_err_rows, exam_err_rows, file_err_rows,
      interaction_err_rows @ follow_err_rows, notification_err_rows, points_err_rows,
      project_err_rows, qa_err_rows, search_err_rows, starhope_err_rows,
      moderation_err_rows, article_err_rows, board_err_rows, storage_err_rows]"

definition boot_errtable :: "exc + errtable" where
  "boot_errtable = foldR register boot_registrations Map.empty"

definition err_info :: "errtable \<Rightarrow> errcode \<Rightarrow> nat" where
  "err_info t c =
     (case t (err_value c) of
        Some st \<Rightarrow> st
      | None \<Rightarrow> (case t (err_value (CommonErr INTERNAL_ERROR)) of Some st \<Rightarrow> st | None \<Rightarrow> 500))"

section \<open>Unique constraints\<close>

text \<open>
  The registry of constraint-name fragments is a dict in insertion order; the first fragment
  contained in the lower-cased constraint name wins.
\<close>

definition lower_char :: "char \<Rightarrow> char" where
  "lower_char c = (let n = of_char c :: nat in if 65 \<le> n \<and> n \<le> 90 then char_of (n + 32) else c)"

definition lower :: "string \<Rightarrow> string" where
  "lower s = map lower_char s"

fun starts_with :: "string \<Rightarrow> string \<Rightarrow> bool" where
  "starts_with [] s = True"
| "starts_with (c # p) [] = False"
| "starts_with (c # p) (d # s) = (c = d \<and> starts_with p s)"

fun str_contains :: "string \<Rightarrow> string \<Rightarrow> bool" where
  "str_contains p [] = (p = [])"
| "str_contains p (d # s) = (starts_with p (d # s) \<or> str_contains p s)"

definition register_unique_constraint ::
    "string \<Rightarrow> errcode \<Rightarrow> (string \<times> errcode) list \<Rightarrow> (string \<times> errcode) list" where
  "register_unique_constraint name_fragment c reg =
     (if lower name_fragment \<in> fst ` set reg then reg else reg @ [(lower name_fragment, c)])"

definition unique_constraint_errcode ::
    "(string \<times> errcode) list \<Rightarrow> string option \<Rightarrow> errcode option" where
  "unique_constraint_errcode reg constraint_name =
     (case constraint_name of
        None \<Rightarrow> None
      | Some n \<Rightarrow>
          if n = '''' then None
          else map_option snd (find (\<lambda>(fragment, _). str_contains fragment (lower n)) reg))"

definition unique_violation_errcode ::
    "(string \<times> errcode) list \<Rightarrow> string option \<Rightarrow> errcode" where
  "unique_violation_errcode reg constraint_name =
     (case unique_constraint_errcode reg constraint_name of
        Some c \<Rightarrow> c
      | None \<Rightarrow> CommonErr CONFLICT)"

section \<open>Exceptions and responses\<close>

fun map_err :: "errtable \<Rightarrow> exc \<Rightarrow> nat \<times> errcode" where
  "map_err t (BizError c) = (err_info t c, c)"
| "map_err t RequestValidationError =
     (err_info t (CommonErr INVALID_INPUT), CommonErr INVALID_INPUT)"
| "map_err t _ = (err_info t (CommonErr INTERNAL_ERROR), CommonErr INTERNAL_ERROR)"

text \<open>\<open>resp_json\<close>: the status and the headers, with \<open>Retry-After\<close> added to 429 and 503.\<close>

definition resp_json :: "errtable \<Rightarrow> errcode \<Rightarrow> (string \<times> string) list \<Rightarrow> nat \<times> (string \<times> string) list" where
  "resp_json t c headers =
     (let status = err_info t c
      in (status,
          if (status = 429 \<or> status = 503)
             \<and> \<not> list_ex (\<lambda>(k, _). lower k = ''retry-after'') headers
          then headers @ [(''Retry-After'', ''60'')] else headers))"

text \<open>
  \<open>get_session\<close>: the request's work runs on the session; it is committed when it returns and
  rolled back when it raises, a unique violation being raised again as its semantic code.
\<close>

fun session_exc :: "(string \<times> errcode) list \<Rightarrow> exc \<Rightarrow> exc" where
  "session_exc reg (IntegrityError unique name) =
     (if unique then BizError (unique_violation_errcode reg name) else IntegrityError unique name)"
| "session_exc reg e = e"

definition with_session ::
    "(string \<times> errcode) list \<Rightarrow> ('s \<Rightarrow> exc + 'a \<times> 's) \<Rightarrow> 's \<Rightarrow> (exc + 'a) \<times> 's" where
  "with_session reg work db =
     (case work db of
        Inr (a, db') \<Rightarrow> (Inr a, db')
      | Inl e \<Rightarrow> (Inl (session_exc reg e), db))"

section \<open>Properties\<close>

lemma ns_err_eq:
  assumes "l < 65536"
  shows "ns_err n l = n * 2 ^ 16 + l"
proof -
  have "push_bit 16 n AND l = 0"
  proof (rule bit_eqI)
    fix i
    have "\<not> bit l i" if "16 \<le> i"
    proof -
      have "(2 :: nat) ^ 16 \<le> 2 ^ i" using that by (rule power_increasing) simp
      then have "l < 2 ^ i" using assms by simp
      then show ?thesis by (simp add: bit_iff_odd)
    qed
    then show "bit (push_bit 16 n AND l) i \<longleftrightarrow> bit (0 :: nat) i"
      by (auto simp: bit_and_iff bit_push_bit_iff_nat)
  qed
  then have "push_bit 16 n OR l = push_bit 16 n + l"
    by (simp add: disjunctive_add_eq_or)
  then show ?thesis by (simp add: ns_err_def push_bit_eq_mult)
qed

lemma common_err_local: "common_err_local a < 65536" "common_err_local a = common_err_local b \<Longrightarrow> a = b"
  by (cases a, simp_all) (cases a; cases b; simp)

lemma auth_err_local: "auth_err_local a < 65536" "auth_err_local a = auth_err_local b \<Longrightarrow> a = b"
  by (cases a, simp_all) (cases a; cases b; simp)

lemma column_err_local: "column_err_local a < 65536" "column_err_local a = column_err_local b \<Longrightarrow> a = b"
  by (cases a, simp_all) (cases a; cases b; simp)

lemma blog_err_local: "blog_err_local a < 65536" "blog_err_local a = blog_err_local b \<Longrightarrow> a = b"
  by (cases a, simp_all) (cases a; cases b; simp)

lemma file_err_local: "file_err_local a < 65536" "file_err_local a = file_err_local b \<Longrightarrow> a = b"
  by (cases a, simp_all) (cases a; cases b; simp)

lemma starhope_err_local: "starhope_err_local a < 65536" "starhope_err_local a = starhope_err_local b \<Longrightarrow> a = b"
  by (cases a, simp_all) (cases a; cases b; simp)

lemma article_err_local: "article_err_local a < 65536" "article_err_local a = article_err_local b \<Longrightarrow> a = b"
  by (cases a, simp_all) (cases a; cases b; simp)

lemma storage_err_local: "storage_err_local a < 65536" "storage_err_local a = storage_err_local b \<Longrightarrow> a = b"
  by (cases a, simp_all) (cases a; cases b; simp)

lemma exam_err_local: "exam_err_local a < 65536" "exam_err_local a = exam_err_local b \<Longrightarrow> a = b"
  by (cases a, simp_all) (cases a; cases b; simp)

lemma board_err_local: "board_err_local a < 65536" "board_err_local a = board_err_local b \<Longrightarrow> a = b"
  by (cases a, simp_all) (cases a; cases b; simp)

lemma points_err_local: "points_err_local a < 65536" "points_err_local a = points_err_local b \<Longrightarrow> a = b"
  by (cases a, simp_all) (cases a; cases b; simp)

lemma qa_err_local: "qa_err_local a < 65536" "qa_err_local a = qa_err_local b \<Longrightarrow> a = b"
  by (cases a, simp_all) (cases a; cases b; simp)

lemma project_err_local: "project_err_local a < 65536" "project_err_local a = project_err_local b \<Longrightarrow> a = b"
  by (cases a, simp_all) (cases a; cases b; simp)

lemma follow_err_local: "follow_err_local a < 65536" "follow_err_local a = follow_err_local b \<Longrightarrow> a = b"
  by (cases a, simp_all) (cases a; cases b; simp)

lemma moderation_err_local: "moderation_err_local a < 65536" "moderation_err_local a = moderation_err_local b \<Longrightarrow> a = b"
  by (cases a, simp_all) (cases a; cases b; simp)

lemma content_err_local: "content_err_local a < 65536" "content_err_local a = content_err_local b \<Longrightarrow> a = b"
  by (cases a, simp_all) (cases a; cases b; simp)

lemma comment_err_local: "comment_err_local a < 65536" "comment_err_local a = comment_err_local b \<Longrightarrow> a = b"
  by (cases a, simp_all) (cases a; cases b; simp)

lemma interaction_err_local: "interaction_err_local a < 65536" "interaction_err_local a = interaction_err_local b \<Longrightarrow> a = b"
  by (cases a, simp_all) (cases a; cases b; simp)

lemma notification_err_local: "notification_err_local a < 65536" "notification_err_local a = notification_err_local b \<Longrightarrow> a = b"
  by (cases a, simp_all) (cases a; cases b; simp)

lemma search_err_local: "search_err_local a < 65536" "search_err_local a = search_err_local b \<Longrightarrow> a = b"
  by (cases a, simp_all) (cases a; cases b; simp)

lemmas local_facts = common_err_local auth_err_local column_err_local blog_err_local file_err_local starhope_err_local article_err_local storage_err_local exam_err_local board_err_local points_err_local qa_err_local project_err_local follow_err_local moderation_err_local content_err_local comment_err_local interaction_err_local notification_err_local search_err_local

lemma errcode_local_less: "errcode_local c < 65536"
  by (cases c) (simp_all add: local_facts)

text \<open>The content and the comment module share one namespace; their local numbers differ.\<close>

lemma content_comment_local: "content_err_local a \<noteq> comment_err_local b"
  by (cases a; cases b; simp)

lemma errcode_numbers_inj:
  assumes "errcode_ns c = errcode_ns d" and "errcode_local c = errcode_local d"
  shows "c = d"
  using assms
  by (cases c; cases d;
      simp add: content_comment_local content_comment_local[symmetric];
      blast intro: local_facts(2,4,6,8,10,12,14,16,18,20,22,24,26,28,30,32,34,36,38,40))

lemma err_value_eq_iff: "err_value c = err_value d \<longleftrightarrow> c = d"
proof
  assume "err_value c = err_value d"
  then have eq: "errcode_ns c * 2 ^ 16 + errcode_local c = errcode_ns d * 2 ^ 16 + errcode_local d"
    by (simp add: err_value_def ns_err_eq errcode_local_less)
  have "errcode_ns c = (errcode_ns c * 2 ^ 16 + errcode_local c) div 2 ^ 16"
    "errcode_ns d = (errcode_ns d * 2 ^ 16 + errcode_local d) div 2 ^ 16"
    using errcode_local_less[of c] errcode_local_less[of d] by simp_all
  with eq have "errcode_ns c = errcode_ns d" by metis
  with eq show "c = d" by (intro errcode_numbers_inj) simp_all
qed simp

text \<open>Registering: what one batch, and a list of batches, does to the table.\<close>

lemma foldl_update:
  "distinct (map fst es) \<Longrightarrow>
   foldl (\<lambda>t (c, st). t(err_value c \<mapsto> st)) t es (err_value c) =
     (case map_of es c of Some st \<Rightarrow> Some st | None \<Rightarrow> t (err_value c))"
proof (induction es arbitrary: t)
  case Nil
  then show ?case by simp
next
  case (Cons e es)
  obtain d st where e: "e = (d, st)" by (cases e)
  have "map_of es d = None" using Cons.prems e by (simp add: map_of_eq_None_iff)
  with Cons e show ?case
    by (auto simp: err_value_eq_iff split: option.splits)
qed

lemma register_fresh:
  assumes "distinct (map fst es)" and "\<forall>c \<in> fst ` set es. t (err_value c) = None"
  shows "\<exists>t'. register es t = Inr t' \<and> (\<forall>c. t' (err_value c) =
           (case map_of es c of Some st \<Rightarrow> Some st | None \<Rightarrow> t (err_value c)))"
proof -
  have "\<not> list_ex (\<lambda>(c, _). t (err_value c) \<noteq> None) es"
    using assms(2) by (force simp: list_ex_iff)
  then show ?thesis using foldl_update[OF assms(1)] by (auto simp: register_def)
qed

lemma foldR_register:
  assumes "distinct (map fst (concat bs))" and "\<forall>c \<in> fst ` set (concat bs). t (err_value c) = None"
  shows "\<exists>t'. foldR register bs t = Inr t' \<and> (\<forall>c. t' (err_value c) =
           (case map_of (concat bs) c of Some st \<Rightarrow> Some st | None \<Rightarrow> t (err_value c)))"
  using assms
proof (induction bs arbitrary: t)
  case Nil
  then show ?case by simp
next
  case (Cons b bs)
  have fresh: "\<forall>c \<in> fst ` set b. t (err_value c) = None"
    and db: "distinct (map fst b)" "distinct (map fst (concat bs))"
    and disj: "fst ` set b \<inter> fst ` set (concat bs) = {}"
    using Cons.prems by auto
  obtain t1 where t1: "register b t = Inr t1"
    and look: "\<And>c. t1 (err_value c) = (case map_of b c of Some st \<Rightarrow> Some st | None \<Rightarrow> t (err_value c))"
    using register_fresh[OF db(1) fresh] by blast
  have "\<forall>c \<in> fst ` set (concat bs). t1 (err_value c) = None"
  proof
    fix c assume c: "c \<in> fst ` set (concat bs)"
    then have "map_of b c = None" using disj by (auto simp: map_of_eq_None_iff)
    with c Cons.prems(2) show "t1 (err_value c) = None" by (auto simp: look)
  qed
  then obtain t2 where t2: "foldR register bs t1 = Inr t2"
    and look2: "\<And>c. t2 (err_value c) =
      (case map_of (concat bs) c of Some st \<Rightarrow> Some st | None \<Rightarrow> t1 (err_value c))"
    using Cons.IH[OF db(2)] by blast
  have "t2 (err_value c) =
      (case map_of (concat (b # bs)) c of Some st \<Rightarrow> Some st | None \<Rightarrow> t (err_value c))" for c
  proof -
    have "map_of b c = None \<or> map_of (concat bs) c = None"
      using disj by (metis disjoint_iff map_of_eq_None_iff)
    then show ?thesis by (auto simp: look look2 map_add_def split: option.splits)
  qed
  with t1 t2 show ?case by simp
qed

lemmas rows_defs = common_err_rows_def auth_err_rows_def blog_err_rows_def column_err_rows_def
  comment_err_rows_def content_err_rows_def exam_err_rows_def file_err_rows_def
  interaction_err_rows_def follow_err_rows_def notification_err_rows_def points_err_rows_def
  project_err_rows_def qa_err_rows_def search_err_rows_def starhope_err_rows_def
  moderation_err_rows_def article_err_rows_def board_err_rows_def storage_err_rows_def

text \<open>Each module's rows: no code twice, every code of its enumeration, no code of another's.\<close>

fun errcode_class :: "errcode \<Rightarrow> nat" where
  "errcode_class (CommonErr _) = 0"
| "errcode_class (AuthErr _) = 1"
| "errcode_class (ColumnErr _) = 2"
| "errcode_class (BlogErr _) = 3"
| "errcode_class (FileErr _) = 4"
| "errcode_class (StarHopeErr _) = 5"
| "errcode_class (ArticleErr _) = 6"
| "errcode_class (StorageErr _) = 7"
| "errcode_class (ExamErr _) = 8"
| "errcode_class (BoardErr _) = 9"
| "errcode_class (PointsErr _) = 10"
| "errcode_class (QaErr _) = 11"
| "errcode_class (ProjectErr _) = 12"
| "errcode_class (FollowErr _) = 13"
| "errcode_class (ModerationErr _) = 14"
| "errcode_class (ContentErr _) = 15"
| "errcode_class (CommentErr _) = 16"
| "errcode_class (InteractionErr _) = 17"
| "errcode_class (NotificationErr _) = 18"
| "errcode_class (SearchErr _) = 19"

lemma common_err_rows_facts:
  "distinct (map fst common_err_rows)" "fst ` set common_err_rows \<subseteq> errcode_class -` {0}"
  "CommonErr e \<in> fst ` set common_err_rows"
  by (simp_all add: common_err_rows_def) (cases e; simp)

lemma auth_err_rows_facts:
  "distinct (map fst auth_err_rows)" "fst ` set auth_err_rows \<subseteq> errcode_class -` {1}"
  "AuthErr e \<in> fst ` set auth_err_rows"
  by (simp_all add: auth_err_rows_def) (cases e; simp)

lemma column_err_rows_facts:
  "distinct (map fst column_err_rows)" "fst ` set column_err_rows \<subseteq> errcode_class -` {2}"
  "ColumnErr e \<in> fst ` set column_err_rows"
  by (simp_all add: column_err_rows_def) (cases e; simp)

lemma blog_err_rows_facts:
  "distinct (map fst blog_err_rows)" "fst ` set blog_err_rows \<subseteq> errcode_class -` {3}"
  "BlogErr e \<in> fst ` set blog_err_rows"
  by (simp_all add: blog_err_rows_def) (cases e; simp)

lemma file_err_rows_facts:
  "distinct (map fst file_err_rows)" "fst ` set file_err_rows \<subseteq> errcode_class -` {4}"
  "FileErr e \<in> fst ` set file_err_rows"
  by (simp_all add: file_err_rows_def) (cases e; simp)

lemma starhope_err_rows_facts:
  "distinct (map fst starhope_err_rows)" "fst ` set starhope_err_rows \<subseteq> errcode_class -` {5}"
  "StarHopeErr e \<in> fst ` set starhope_err_rows"
  by (simp_all add: starhope_err_rows_def) (cases e; simp)

lemma article_err_rows_facts:
  "distinct (map fst article_err_rows)" "fst ` set article_err_rows \<subseteq> errcode_class -` {6}"
  "ArticleErr e \<in> fst ` set article_err_rows"
  by (simp_all add: article_err_rows_def) (cases e; simp)

lemma storage_err_rows_facts:
  "distinct (map fst storage_err_rows)" "fst ` set storage_err_rows \<subseteq> errcode_class -` {7}"
  "StorageErr e \<in> fst ` set storage_err_rows"
  by (simp_all add: storage_err_rows_def) (cases e; simp)

lemma exam_err_rows_facts:
  "distinct (map fst exam_err_rows)" "fst ` set exam_err_rows \<subseteq> errcode_class -` {8}"
  "ExamErr e \<in> fst ` set exam_err_rows"
  by (simp_all add: exam_err_rows_def) (cases e; simp)

lemma board_err_rows_facts:
  "distinct (map fst board_err_rows)" "fst ` set board_err_rows \<subseteq> errcode_class -` {9}"
  "BoardErr e \<in> fst ` set board_err_rows"
  by (simp_all add: board_err_rows_def) (cases e; simp)

lemma points_err_rows_facts:
  "distinct (map fst points_err_rows)" "fst ` set points_err_rows \<subseteq> errcode_class -` {10}"
  "PointsErr e \<in> fst ` set points_err_rows"
  by (simp_all add: points_err_rows_def) (cases e; simp)

lemma qa_err_rows_facts:
  "distinct (map fst qa_err_rows)" "fst ` set qa_err_rows \<subseteq> errcode_class -` {11}"
  "QaErr e \<in> fst ` set qa_err_rows"
  by (simp_all add: qa_err_rows_def) (cases e; simp)

lemma project_err_rows_facts:
  "distinct (map fst project_err_rows)" "fst ` set project_err_rows \<subseteq> errcode_class -` {12}"
  "ProjectErr e \<in> fst ` set project_err_rows"
  by (simp_all add: project_err_rows_def) (cases e; simp)

lemma follow_err_rows_facts:
  "distinct (map fst follow_err_rows)" "fst ` set follow_err_rows \<subseteq> errcode_class -` {13}"
  "FollowErr e \<in> fst ` set follow_err_rows"
  by (simp_all add: follow_err_rows_def) (cases e; simp)

lemma moderation_err_rows_facts:
  "distinct (map fst moderation_err_rows)" "fst ` set moderation_err_rows \<subseteq> errcode_class -` {14}"
  "ModerationErr e \<in> fst ` set moderation_err_rows"
  by (simp_all add: moderation_err_rows_def) (cases e; simp)

lemma content_err_rows_facts:
  "distinct (map fst content_err_rows)" "fst ` set content_err_rows \<subseteq> errcode_class -` {15}"
  "ContentErr e \<in> fst ` set content_err_rows"
  by (simp_all add: content_err_rows_def) (cases e; simp)

lemma comment_err_rows_facts:
  "distinct (map fst comment_err_rows)" "fst ` set comment_err_rows \<subseteq> errcode_class -` {16}"
  "CommentErr e \<in> fst ` set comment_err_rows"
  by (simp_all add: comment_err_rows_def) (cases e; simp)

lemma interaction_err_rows_facts:
  "distinct (map fst interaction_err_rows)" "fst ` set interaction_err_rows \<subseteq> errcode_class -` {17}"
  "InteractionErr e \<in> fst ` set interaction_err_rows"
  by (simp_all add: interaction_err_rows_def) (cases e; simp)

lemma notification_err_rows_facts:
  "distinct (map fst notification_err_rows)" "fst ` set notification_err_rows \<subseteq> errcode_class -` {18}"
  "NotificationErr e \<in> fst ` set notification_err_rows"
  by (simp_all add: notification_err_rows_def) (cases e; simp)

lemma search_err_rows_facts:
  "distinct (map fst search_err_rows)" "fst ` set search_err_rows \<subseteq> errcode_class -` {19}"
  "SearchErr e \<in> fst ` set search_err_rows"
  by (simp_all add: search_err_rows_def) (cases e; simp)

lemmas rows_facts = common_err_rows_facts
  auth_err_rows_facts
  column_err_rows_facts
  blog_err_rows_facts
  file_err_rows_facts
  starhope_err_rows_facts
  article_err_rows_facts
  storage_err_rows_facts
  exam_err_rows_facts
  board_err_rows_facts
  points_err_rows_facts
  qa_err_rows_facts
  project_err_rows_facts
  follow_err_rows_facts
  moderation_err_rows_facts
  content_err_rows_facts
  comment_err_rows_facts
  interaction_err_rows_facts
  notification_err_rows_facts
  search_err_rows_facts

lemmas rows_distinct = rows_facts(1,4,7,10,13,16,19,22,25,28,31,34,37,40,43,46,49,52,55,58)
lemmas rows_class = rows_facts(2,5,8,11,14,17,20,23,26,29,32,35,38,41,44,47,50,53,56,59)
lemmas rows_cover = rows_facts(3,6,9,12,15,18,21,24,27,30,33,36,39,42,45,48,51,54,57,60)

lemma class_disjoint:
  "A \<subseteq> f -` {k} \<Longrightarrow> B \<subseteq> f -` {l} \<Longrightarrow> k \<noteq> l \<Longrightarrow> A \<inter> B = {}"
  by blast

lemma boot_rows_distinct: "distinct (map fst (concat boot_registrations))"
  unfolding boot_registrations_def
  by (simp add: rows_distinct image_Un Int_Un_distrib Int_Un_distrib2)
     (intro conjI; rule class_disjoint, rule rows_class, rule rows_class, simp)

lemma boot_rows_cover: "c \<in> fst ` set (concat boot_registrations)"
  unfolding boot_registrations_def
  by (cases c) (simp_all add: image_Un rows_cover)

lemma session_rolls_back:
  "with_session reg work db = (Inl e, db') \<Longrightarrow> db' = db"
  by (auto simp: with_session_def split: sum.splits prod.splits)

section \<open>Properties of the registry\<close>

lemma boot_lookup:
  obtains t where "boot_errtable = Inr t" and "\<And>c. t (err_value c) = map_of (concat boot_registrations) c"
proof -
  have "(case map_of es c of Some st \<Rightarrow> Some st | None \<Rightarrow> Map.empty (err_value c)) = map_of es c"
    for es :: "(errcode \<times> nat) list" and c
    by (simp split: option.splits)
  with foldR_register[OF boot_rows_distinct, of Map.empty] that show thesis
    unfolding boot_errtable_def by fastforce
qed

text \<open>The error codes of all the modules never collide, although namespaces are shared by several
  enums, and start-up registers every one of them: the registration of all the modules succeeds, each
  code has exactly one status, and answering with the code uses that status, never the fallback of an
  unknown code.\<close>

theorem boot_registers_all:
  "(\<forall>c d. err_value c = err_value d \<longleftrightarrow> c = d)
   \<and> (\<exists>t. boot_errtable = Inr t \<and> (\<forall>c. \<exists>!st. (c, st) \<in> set (concat boot_registrations)
      \<and> err_info t c = st \<and> fst (map_err t (BizError c)) = st))"
proof -
  obtain t where t: "boot_errtable = Inr t"
    and look: "\<And>c. t (err_value c) = map_of (concat boot_registrations) c"
    by (rule boot_lookup, rule that)
  have "\<exists>!st. (c, st) \<in> set (concat boot_registrations) \<and> err_info t c = st
      \<and> fst (map_err t (BizError c)) = st" for c
  proof -
    from boot_rows_cover[of c] obtain st where st: "(c, st) \<in> set (concat boot_registrations)"
      by (metis imageE prod.collapse)
    then have "map_of (concat boot_registrations) c = Some st"
      using boot_rows_distinct by (simp only: map_of_eq_Some_iff)
    then have "err_info t c = st" by (simp only: err_info_def look option.case)
    with st show ?thesis by (intro ex1I[of _ st]) simp_all
  qed
  with t err_value_eq_iff show ?thesis by blast
qed

end
