(* ===== verification/Event_Contract.thy ===== *)
theory Event_Contract
  imports Errors
begin

text \<open>
  The topology of the message bus (\<open>core/bus/topics.py\<close>) and the contract every event obeys
  (\<open>core/event_contract.py\<close>, \<open>core/bus/contracts.py\<close>): which routing keys exist and which topic
  each goes to, which subscription consumes which key, which function names may travel on which
  key and with which arguments, and when a publication has failed for good.
\<close>

section \<open>Values on the wire\<close>

text \<open>
  A payload before encoding: the JSON values, and the one kind of Python value that JSON cannot
  express and the producers use, a UUID object.  A float is kept as mantissa and exponent.
  Objects are association lists with distinct keys, in insertion order.
\<close>

datatype (discs_sels) json =
    JNull
  | JBool bool
  | JInt int
  | JFloat int int
  | JStr string
  | JList "json list"
  | JObj "(string \<times> json) list"
  | JUuid uuid

section \<open>Routing keys, topics, subscriptions\<close>

definition RKEY_SEND_CODE :: string where "RKEY_SEND_CODE = ''event.send_code''"
definition RKEY_SEND_MAGIC :: string where "RKEY_SEND_MAGIC = ''event.send_magic_link''"
definition RKEY_NOTIFY :: string where "RKEY_NOTIFY = ''event.notify_upload''"
definition RKEY_POINTS :: string where "RKEY_POINTS = ''event.apply_point''"
definition RKEY_USER_UPDATED :: string where "RKEY_USER_UPDATED = ''event.user.updated''"
definition RKEY_USER_BANNED :: string where "RKEY_USER_BANNED = ''event.user.banned''"
definition RKEY_USER_SESSION_REVOKE :: string where "RKEY_USER_SESSION_REVOKE = ''event.user.session_revoke''"
definition RKEY_CLEANUP :: string where "RKEY_CLEANUP = ''cron.cleanup''"
definition RKEY_RECONCILE :: string where "RKEY_RECONCILE = ''cron.reconcile''"
definition RKEY_ANALYTICS :: string where "RKEY_ANALYTICS = ''cron.analytics_export''"
definition RKEY_OPS_DAILY :: string where "RKEY_OPS_DAILY = ''cron.ops_daily''"
definition RKEY_BLOOM_SEED :: string where "RKEY_BLOOM_SEED = ''cron.bloom_seed''"
definition RKEY_REVIEW_DIGEST :: string where "RKEY_REVIEW_DIGEST = ''cron.review_digest''"
definition RKEY_CONTENT_PUBLISHED :: string where "RKEY_CONTENT_PUBLISHED = ''event.content.published''"
definition RKEY_CONTENT_UPDATED :: string where "RKEY_CONTENT_UPDATED = ''event.content.updated''"
definition RKEY_CONTENT_DELETED :: string where "RKEY_CONTENT_DELETED = ''event.content.deleted''"
definition RKEY_FILE_CHANGED :: string where "RKEY_FILE_CHANGED = ''event.file.changed''"
definition RKEY_AUDIT_LOGIN_FAIL :: string where "RKEY_AUDIT_LOGIN_FAIL = ''audit.login_fail''"
definition RKEY_AUDIT_PERMISSION_CHANGE :: string where "RKEY_AUDIT_PERMISSION_CHANGE = ''audit.permission_change''"

lemmas rkey_defs = RKEY_SEND_CODE_def RKEY_SEND_MAGIC_def RKEY_NOTIFY_def RKEY_POINTS_def RKEY_USER_UPDATED_def RKEY_USER_BANNED_def RKEY_USER_SESSION_REVOKE_def RKEY_CLEANUP_def RKEY_RECONCILE_def RKEY_ANALYTICS_def RKEY_OPS_DAILY_def RKEY_BLOOM_SEED_def RKEY_REVIEW_DIGEST_def RKEY_CONTENT_PUBLISHED_def RKEY_CONTENT_UPDATED_def RKEY_CONTENT_DELETED_def RKEY_FILE_CHANGED_def RKEY_AUDIT_LOGIN_FAIL_def RKEY_AUDIT_PERMISSION_CHANGE_def

definition NAMESPACES :: "string list" where
  "NAMESPACES = [''auth'', ''biz'', ''system'']"

text \<open>The tenant is a setting; \<open>_topic\<close> refuses an unknown namespace.\<close>

definition topic_name :: "string \<Rightarrow> string \<Rightarrow> string \<Rightarrow> string" where
  "topic_name tenant namespace name =
     ''persistent://'' @ tenant @ ''/'' @ namespace @ ''/'' @ name"

definition topic_checked :: "string \<Rightarrow> string \<Rightarrow> string \<Rightarrow> exc + string" where
  "topic_checked tenant namespace name =
     (if namespace \<notin> set NAMESPACES then Inl ValueError
      else Inr (topic_name tenant namespace name))"

text \<open>Python's \<open>str.split\<close> with a one-character separator.\<close>

fun py_split :: "char \<Rightarrow> string \<Rightarrow> string list" where
  "py_split c [] = [[]]"
| "py_split c (x # xs) =
     (if x = c then [] # py_split c xs
      else (case py_split c xs of w # ws \<Rightarrow> (x # w) # ws | [] \<Rightarrow> [[x]]))"

definition namespace_of :: "string \<Rightarrow> exc + string" where
  "namespace_of topic =
     (let parts = py_split (CHR ''/'') topic
      in if length parts < 5 \<or> parts ! 0 \<noteq> ''persistent:'' \<or> parts ! 1 \<noteq> [] then Inl ValueError
         else Inr (parts ! 3))"

definition TOPIC_EMAIL :: "string \<Rightarrow> string" where "TOPIC_EMAIL tenant = topic_name tenant ''auth'' ''email''"
definition TOPIC_USER_EVENTS :: "string \<Rightarrow> string" where "TOPIC_USER_EVENTS tenant = topic_name tenant ''auth'' ''user.events''"
definition TOPIC_AUDIT_LOGIN_FAIL :: "string \<Rightarrow> string" where "TOPIC_AUDIT_LOGIN_FAIL tenant = topic_name tenant ''auth'' ''audit.login_fail''"
definition TOPIC_AUDIT_PERMISSION_CHANGE :: "string \<Rightarrow> string" where "TOPIC_AUDIT_PERMISSION_CHANGE tenant = topic_name tenant ''auth'' ''audit.permission_change''"
definition TOPIC_NOTIFY :: "string \<Rightarrow> string" where "TOPIC_NOTIFY tenant = topic_name tenant ''biz'' ''notify.upload''"
definition TOPIC_POINTS :: "string \<Rightarrow> string" where "TOPIC_POINTS tenant = topic_name tenant ''biz'' ''points.apply''"
definition TOPIC_CONTENT :: "string \<Rightarrow> string" where "TOPIC_CONTENT tenant = topic_name tenant ''biz'' ''content.events''"
definition TOPIC_CRON :: "string \<Rightarrow> string" where "TOPIC_CRON tenant = topic_name tenant ''system'' ''cron''"
definition TOPIC_DLQ :: "string \<Rightarrow> string" where "TOPIC_DLQ tenant = topic_name tenant ''system'' ''dlq''"

lemmas topic_defs = TOPIC_EMAIL_def TOPIC_USER_EVENTS_def TOPIC_AUDIT_LOGIN_FAIL_def TOPIC_AUDIT_PERMISSION_CHANGE_def TOPIC_NOTIFY_def TOPIC_POINTS_def TOPIC_CONTENT_def TOPIC_CRON_def TOPIC_DLQ_def

definition ROUTING_KEY_TOPICS :: "string \<Rightarrow> (string \<times> string) list" where
  "ROUTING_KEY_TOPICS tenant =
    [(RKEY_SEND_CODE, TOPIC_EMAIL tenant),
     (RKEY_SEND_MAGIC, TOPIC_EMAIL tenant),
     (RKEY_USER_UPDATED, TOPIC_USER_EVENTS tenant),
     (RKEY_USER_BANNED, TOPIC_USER_EVENTS tenant),
     (RKEY_USER_SESSION_REVOKE, TOPIC_USER_EVENTS tenant),
     (RKEY_AUDIT_LOGIN_FAIL, TOPIC_AUDIT_LOGIN_FAIL tenant),
     (RKEY_AUDIT_PERMISSION_CHANGE, TOPIC_AUDIT_PERMISSION_CHANGE tenant),
     (RKEY_NOTIFY, TOPIC_NOTIFY tenant),
     (RKEY_POINTS, TOPIC_POINTS tenant),
     (RKEY_CONTENT_PUBLISHED, TOPIC_CONTENT tenant),
     (RKEY_CONTENT_UPDATED, TOPIC_CONTENT tenant),
     (RKEY_CONTENT_DELETED, TOPIC_CONTENT tenant),
     (RKEY_FILE_CHANGED, TOPIC_CONTENT tenant),
     (RKEY_CLEANUP, TOPIC_CRON tenant),
     (RKEY_RECONCILE, TOPIC_CRON tenant),
     (RKEY_ANALYTICS, TOPIC_CRON tenant),
     (RKEY_OPS_DAILY, TOPIC_CRON tenant),
     (RKEY_BLOOM_SEED, TOPIC_CRON tenant),
     (RKEY_REVIEW_DIGEST, TOPIC_CRON tenant)]"

record subscription =
  sub_name :: string
  sub_topic :: string
  sub_keys :: "string list"

definition SUB_SEND :: "string \<Rightarrow> subscription" where
  "SUB_SEND tenant = \<lparr>sub_name = ''send'', sub_topic = TOPIC_EMAIL tenant,
     sub_keys = [RKEY_SEND_CODE, RKEY_SEND_MAGIC]\<rparr>"

definition SUB_NOTIFY :: "string \<Rightarrow> subscription" where
  "SUB_NOTIFY tenant = \<lparr>sub_name = ''notify'', sub_topic = TOPIC_NOTIFY tenant,
     sub_keys = [RKEY_NOTIFY]\<rparr>"

definition SUB_POINTS_REWARD :: "string \<Rightarrow> subscription" where
  "SUB_POINTS_REWARD tenant = \<lparr>sub_name = ''points-reward'', sub_topic = TOPIC_POINTS tenant,
     sub_keys = [RKEY_POINTS]\<rparr>"

definition SUB_POINTS_STATS :: "string \<Rightarrow> subscription" where
  "SUB_POINTS_STATS tenant = \<lparr>sub_name = ''points-stats'', sub_topic = TOPIC_POINTS tenant,
     sub_keys = [RKEY_POINTS]\<rparr>"

definition SUB_POINTS_TASKS :: "string \<Rightarrow> subscription" where
  "SUB_POINTS_TASKS tenant = \<lparr>sub_name = ''points-tasks'', sub_topic = TOPIC_POINTS tenant,
     sub_keys = [RKEY_POINTS]\<rparr>"

definition SUB_NOTIFICATION :: "string \<Rightarrow> subscription" where
  "SUB_NOTIFICATION tenant = \<lparr>sub_name = ''notification'', sub_topic = TOPIC_POINTS tenant,
     sub_keys = [RKEY_POINTS]\<rparr>"

definition SUB_USER_INVALIDATE :: "string \<Rightarrow> subscription" where
  "SUB_USER_INVALIDATE tenant = \<lparr>sub_name = ''user-invalidate'', sub_topic = TOPIC_USER_EVENTS tenant,
     sub_keys = [RKEY_USER_UPDATED, RKEY_USER_BANNED, RKEY_USER_SESSION_REVOKE]\<rparr>"

definition SUB_JOBS :: "string \<Rightarrow> subscription" where
  "SUB_JOBS tenant = \<lparr>sub_name = ''jobs'', sub_topic = TOPIC_CRON tenant,
     sub_keys = [RKEY_CLEANUP, RKEY_RECONCILE, RKEY_ANALYTICS, RKEY_OPS_DAILY, RKEY_BLOOM_SEED, RKEY_REVIEW_DIGEST]\<rparr>"

definition SUB_CONTENT_INDEX :: "string \<Rightarrow> subscription" where
  "SUB_CONTENT_INDEX tenant = \<lparr>sub_name = ''content-index'', sub_topic = TOPIC_CONTENT tenant,
     sub_keys = [RKEY_CONTENT_PUBLISHED, RKEY_CONTENT_UPDATED, RKEY_CONTENT_DELETED, RKEY_FILE_CHANGED]\<rparr>"

definition SUB_DLQ :: "string \<Rightarrow> subscription" where
  "SUB_DLQ tenant = \<lparr>sub_name = ''dlq-persist'', sub_topic = TOPIC_DLQ tenant,
     sub_keys = []\<rparr>"

definition SUB_AUDIT :: "string \<Rightarrow> subscription" where
  "SUB_AUDIT tenant = \<lparr>sub_name = ''audit'', sub_topic = TOPIC_AUDIT_LOGIN_FAIL tenant,
     sub_keys = [RKEY_AUDIT_LOGIN_FAIL]\<rparr>"

definition SUB_AUDIT_PERMISSION :: "string \<Rightarrow> subscription" where
  "SUB_AUDIT_PERMISSION tenant = \<lparr>sub_name = ''audit-permission'', sub_topic = TOPIC_AUDIT_PERMISSION_CHANGE tenant,
     sub_keys = [RKEY_AUDIT_PERMISSION_CHANGE]\<rparr>"

lemmas sub_defs = SUB_SEND_def SUB_NOTIFY_def SUB_POINTS_REWARD_def SUB_POINTS_STATS_def SUB_POINTS_TASKS_def SUB_NOTIFICATION_def SUB_USER_INVALIDATE_def SUB_JOBS_def SUB_CONTENT_INDEX_def SUB_DLQ_def SUB_AUDIT_def SUB_AUDIT_PERMISSION_def

definition SUBSCRIPTIONS :: "string \<Rightarrow> subscription list" where
  "SUBSCRIPTIONS tenant =
    [SUB_SEND tenant, SUB_NOTIFY tenant, SUB_POINTS_REWARD tenant, SUB_POINTS_STATS tenant, SUB_POINTS_TASKS tenant, SUB_NOTIFICATION tenant, SUB_USER_INVALIDATE tenant, SUB_JOBS tenant, SUB_CONTENT_INDEX tenant, SUB_AUDIT tenant, SUB_AUDIT_PERMISSION tenant, SUB_DLQ tenant]"

text \<open>
  The check made at start-up: every topic lies in a known namespace, and every subscription
  names only known keys, whose topic is the subscription's own.
\<close>

definition check_key_topic :: "string \<times> string \<Rightarrow> unit \<Rightarrow> exc + unit" where
  "check_key_topic kt _ =
     bindR (namespace_of (snd kt)) (\<lambda>ns. guardR (ns \<in> set NAMESPACES) ValueError)"

definition check_sub_key ::
    "(string \<times> string) list \<Rightarrow> subscription \<Rightarrow> string \<Rightarrow> string \<Rightarrow> unit \<Rightarrow> exc + unit" where
  "check_sub_key topics sub sub_ns routing_key _ =
     (case map_of topics routing_key of
        None \<Rightarrow> Inl ValueError
      | Some topic \<Rightarrow>
          bindR (namespace_of topic) (\<lambda>ns.
          bindR (guardR (ns = sub_ns) ValueError) (\<lambda>_.
          guardR (topic = sub_topic sub) ValueError)))"

definition check_subscription ::
    "(string \<times> string) list \<Rightarrow> subscription \<Rightarrow> unit \<Rightarrow> exc + unit" where
  "check_subscription topics sub _ =
     bindR (namespace_of (sub_topic sub)) (\<lambda>sub_ns.
     bindR (guardR (sub_ns \<in> set NAMESPACES) ValueError) (\<lambda>_.
     foldR (check_sub_key topics sub sub_ns) (sub_keys sub) ()))"

definition validate_namespace_isolation ::
    "(string \<times> string) list \<Rightarrow> subscription list \<Rightarrow> exc + unit" where
  "validate_namespace_isolation topics subs =
     bindR (foldR check_key_topic topics ()) (\<lambda>_.
     foldR (check_subscription topics) subs ())"

section \<open>Contracts\<close>

datatype arg = Arg (arg_name: string) (kind: string) (nullable: bool) (optional: bool)

datatype event_contract =
  EventContract (fn: string) (routing_keys: "string list") (contract_args: "arg list")

definition required_args :: "event_contract \<Rightarrow> nat" where
  "required_args c = length (filter (\<lambda>a. \<not> optional a) (contract_args c))"

definition maximum_args :: "event_contract \<Rightarrow> nat" where
  "maximum_args c = length (contract_args c)"

definition cron_contract :: "string \<Rightarrow> string \<Rightarrow> event_contract" where
  "cron_contract f routing_key = EventContract f [routing_key] []"

definition contract_list :: "event_contract list" where
  "contract_list =
    [EventContract ''send_code'' [RKEY_SEND_CODE]
       [Arg ''channel_key'' ''str'' False False,
        Arg ''contact'' ''str'' False False,
        Arg ''code'' ''str'' False False],
     EventContract ''send_magic_link'' [RKEY_SEND_MAGIC]
       [Arg ''email'' ''str'' False False,
        Arg ''link'' ''str'' False False],
     EventContract ''invalidate_user_snap'' [RKEY_USER_UPDATED, RKEY_USER_BANNED, RKEY_USER_SESSION_REVOKE]
       [Arg ''user_id'' ''str'' False False],
     EventContract ''record_audit_event'' [RKEY_AUDIT_LOGIN_FAIL, RKEY_AUDIT_PERMISSION_CHANGE]
       [Arg ''user_id'' ''str'' True False,
        Arg ''action'' ''str'' False False,
        Arg ''detail'' ''str'' False True],
     EventContract ''notify_upload'' [RKEY_NOTIFY]
       [Arg ''upload_id'' ''str'' False False],
     EventContract ''apply_point_event'' [RKEY_POINTS]
       [Arg ''user_id'' ''str'' False False,
        Arg ''event'' ''str'' False False,
        Arg ''ref_id'' ''str'' False False],
     EventContract ''apply_content_event'' [RKEY_CONTENT_PUBLISHED, RKEY_CONTENT_UPDATED, RKEY_CONTENT_DELETED]
       [Arg ''item_id'' ''str'' False False,
        Arg ''action'' ''str'' False False],
     EventContract ''apply_file_event'' [RKEY_FILE_CHANGED]
       [Arg ''file_id'' ''str'' False False],
     cron_contract ''cleanup_expired_uploads'' RKEY_CLEANUP,
     cron_contract ''archive_cold_files'' RKEY_CLEANUP,
     cron_contract ''backup_approved_files'' RKEY_CLEANUP,
     cron_contract ''flush_content_counters'' RKEY_CLEANUP,
     cron_contract ''purge_revoked_access_tokens'' RKEY_CLEANUP,
     cron_contract ''purge_stale_view_logs'' RKEY_CLEANUP,
     cron_contract ''fanout_feed_items'' RKEY_RECONCILE,
     cron_contract ''reconcile_blog_repos'' RKEY_RECONCILE,
     cron_contract ''reconcile_content_counts'' RKEY_RECONCILE,
     cron_contract ''reconcile_content_counts_full'' RKEY_RECONCILE,
     cron_contract ''expire_qa_bounties'' RKEY_CLEANUP,
     cron_contract ''reconcile_user_dim'' RKEY_RECONCILE,
     cron_contract ''export_analytics_clickhouse'' RKEY_ANALYTICS,
     cron_contract ''run_ops_daily'' RKEY_OPS_DAILY,
     cron_contract ''seed_user_id_bloom'' RKEY_BLOOM_SEED,
     cron_contract ''send_review_digest'' RKEY_REVIEW_DIGEST]"

definition EVENT_CONTRACTS :: "(string \<times> event_contract) list" where
  "EVENT_CONTRACTS = map (\<lambda>c. (fn c, c)) contract_list"

definition WIRE_KINDS :: "string list" where
  "WIRE_KINDS = [''str'', ''int'', ''float'', ''bool'', ''list'', ''dict'']"

text \<open>The loop over the arguments carries \<open>seen_optional\<close>.\<close>

fun check_args :: "bool \<Rightarrow> arg list \<Rightarrow> exc + unit" where
  "check_args seen_optional [] = Inr ()"
| "check_args seen_optional (a # as) =
     (if kind a \<notin> set WIRE_KINDS then Inl ValueError
      else if optional a then check_args True as
      else if seen_optional then Inl ValueError
      else check_args seen_optional as)"

definition check_contract ::
    "(string \<times> string) list \<Rightarrow> string \<times> event_contract \<Rightarrow> unit \<Rightarrow> exc + unit" where
  "check_contract topics entry _ =
     (let (key, c) = entry in
      if key \<noteq> fn c then Inl ValueError
      else if routing_keys c = [] then Inl ValueError
      else if list_ex (\<lambda>rk. map_of topics rk = None) (routing_keys c) then Inl ValueError
      else check_args False (contract_args c))"

definition validate_registry ::
    "(string \<times> string) list \<Rightarrow> (string \<times> event_contract) list \<Rightarrow> exc + unit" where
  "validate_registry topics contracts = foldR (check_contract topics) contracts ()"

definition value_matches :: "json \<Rightarrow> arg \<Rightarrow> bool" where
  "value_matches v a =
     (if v = JNull then nullable a
      else if kind a = ''str'' then is_JStr v
      else if kind a = ''int'' then is_JInt v
      else if kind a = ''float'' then is_JInt v \<or> is_JFloat v
      else if kind a = ''bool'' then is_JBool v
      else if kind a = ''list'' then is_JList v
      else is_JObj v)"

datatype violation =
    Payload_not_object
  | Unknown_envelope_keys "string list"
  | Fn_missing
  | Fn_unregistered string
  | Routing_key_not_allowed string
  | Args_not_array
  | Too_few_args nat nat
  | Too_many_args nat nat
  | Arg_mismatch nat
  | Event_id_not_string

definition ENVELOPE_KEYS :: "string list" where
  "ENVELOPE_KEYS = [''fn'', ''args'', ''event_id'']"

text \<open>Whether the arguments fit: too few, too many, or the positions whose value does not.\<close>

definition args_violations :: "event_contract \<Rightarrow> json list \<Rightarrow> violation list" where
  "args_violations c args =
     (if length args < required_args c then [Too_few_args (length args) (required_args c)]
      else if maximum_args c < length args then [Too_many_args (length args) (maximum_args c)]
      else map (\<lambda>(i, _). Arg_mismatch i)
             (filter (\<lambda>(_, v, a). \<not> value_matches v a)
                (zip [0..<length args] (zip args (contract_args c)))))"

definition event_id_violations :: "(string \<times> json) list \<Rightarrow> violation list" where
  "event_id_violations kvs =
     (case map_of kvs ''event_id'' of
        None \<Rightarrow> []
      | Some JNull \<Rightarrow> []
      | Some (JStr _) \<Rightarrow> []
      | Some _ \<Rightarrow> [Event_id_not_string])"

definition envelope_violations :: "(string \<times> json) list \<Rightarrow> string option \<Rightarrow> violation list" where
  "envelope_violations kvs routing_key =
     (let extra = filter (\<lambda>k. k \<notin> set ENVELOPE_KEYS) (map fst kvs);
          problems = (if extra = [] then [] else [Unknown_envelope_keys extra])
      in case map_of kvs ''fn'' of
           Some (JStr f) \<Rightarrow>
             if f = [] then problems @ [Fn_missing]
             else (case map_of EVENT_CONTRACTS f of
                     None \<Rightarrow> problems @ [Fn_unregistered f]
                   | Some c \<Rightarrow>
                       let problems = problems @
                             (case routing_key of
                                Some rk \<Rightarrow> if rk \<in> set (routing_keys c) then []
                                           else [Routing_key_not_allowed rk]
                              | None \<Rightarrow> [])
                       in case map_of kvs ''args'' of
                            None \<Rightarrow> problems @ args_violations c [] @ event_id_violations kvs
                          | Some (JList args) \<Rightarrow>
                              problems @ args_violations c args @ event_id_violations kvs
                          | Some _ \<Rightarrow> problems @ [Args_not_array])
         | _ \<Rightarrow> problems @ [Fn_missing])"

definition payload_violations :: "json \<Rightarrow> string option \<Rightarrow> violation list" where
  "payload_violations payload routing_key =
     (case payload of
        JObj kvs \<Rightarrow> envelope_violations kvs routing_key
      | _ \<Rightarrow> [Payload_not_object])"

text \<open>
  Metrics label, and the arity check made when a handler is registered.  A handler is given by
  its positional parameters (those without a default, all of them), whether it takes
  \<open>*args\<close>, and its keyword-only parameters without a default, which the check does not look at.
\<close>

definition violation_label :: "json \<Rightarrow> string" where
  "violation_label v =
     (case v of
        JStr f \<Rightarrow> if map_of EVENT_CONTRACTS f \<noteq> None then f else ''<unknown>''
      | _ \<Rightarrow> ''<unknown>'')"

datatype handler_problem =
    Handler_unregistered
  | Handler_requires_too_many
  | Handler_takes_too_few

record handler_sig =
  n_required :: nat
  n_positional :: nat
  var_positional :: bool
  n_keyword_required :: nat

definition handler_violation :: "string \<Rightarrow> handler_sig \<Rightarrow> handler_problem option" where
  "handler_violation f h =
     (case map_of EVENT_CONTRACTS f of
        None \<Rightarrow> Some Handler_unregistered
      | Some c \<Rightarrow>
          if var_positional h then None
          else if required_args c < n_required h then Some Handler_requires_too_many
          else if n_positional h < maximum_args c then Some Handler_takes_too_few
          else None)"

section \<open>Permanent failures\<close>

text \<open>
  \<open>_encode_event\<close> is \<open>json.dumps\<close>: it fails on a value that is not JSON.  Of the values that
  occur here only a UUID object is not.
\<close>

fun encodable :: "json \<Rightarrow> bool" where
  "encodable (JList xs) = list_all encodable xs"
| "encodable (JObj kvs) = list_all (\<lambda>(_, v). encodable v) kvs"
| "encodable (JUuid _) = False"
| "encodable _ = True"

definition contract_violations :: "string \<Rightarrow> (string \<times> json) list \<Rightarrow> violation list" where
  "contract_violations routing_key payload =
     (if encodable (JObj payload) then payload_violations (JObj payload) (Some routing_key) else [])"

datatype failure_reason =
    Unknown_routing_key
  | Not_encodable
  | Contract_violation "violation list"

definition permanent_failure_reason ::
    "string list \<Rightarrow> string \<Rightarrow> (string \<times> json) list \<Rightarrow> failure_reason option" where
  "permanent_failure_reason known_keys routing_key payload =
     (if routing_key \<notin> set known_keys then Some Unknown_routing_key
      else if \<not> encodable (JObj payload) then Some Not_encodable
      else (let problems = contract_violations routing_key payload
            in if problems \<noteq> [] then Some (Contract_violation problems) else None))"

section \<open>The topology is consistent\<close>

lemma py_split_segment: "c \<notin> set w \<Longrightarrow> py_split c (w @ c # rest) = w # py_split c rest"
  by (induction w) auto

lemma py_split_last: "c \<notin> set w \<Longrightarrow> py_split c w = [w]"
  by (induction w) auto

text \<open>A topic built with a tenant that contains no slash is read back into its namespace.\<close>

lemma namespace_of_topic_name:
  assumes "CHR ''/'' \<notin> set tenant" and "CHR ''/'' \<notin> set ns" and "CHR ''/'' \<notin> set name"
  shows "namespace_of (topic_name tenant ns name) = Inr ns"
proof -
  have "py_split (CHR ''/'') (topic_name tenant ns name) = [''persistent:'', [], tenant, ns, name]"
    using assms by (simp add: topic_name_def py_split_segment py_split_last)
  then show ?thesis by (simp add: namespace_of_def)
qed

lemma topic_name_inj:
  assumes "CHR ''/'' \<notin> set ns" and "CHR ''/'' \<notin> set ns'"
  shows "topic_name tenant ns name = topic_name tenant ns' name' \<longleftrightarrow> ns = ns' \<and> name = name'"
proof
  assume "topic_name tenant ns name = topic_name tenant ns' name'"
  then have eq: "ns @ CHR ''/'' # name = ns' @ CHR ''/'' # name'"
    by (simp add: topic_name_def)
  then show "ns = ns' \<and> name = name'"
    using assms by (auto simp: append_eq_append_conv2 append_eq_Cons_conv Cons_eq_append_conv)
qed simp

lemma foldR_unit: "(\<And>x. x \<in> set xs \<Longrightarrow> f x () = Inr ()) \<Longrightarrow> foldR f xs () = Inr ()"
  by (induction xs) simp_all

lemma foldR_unit_iff: "foldR f xs () = Inr () \<longleftrightarrow> (\<forall>x \<in> set xs. f x () = Inr ())"
  by (induction xs) (auto simp: bindR_Inr_iff)

lemma topics_namespace:
  assumes "CHR ''/'' \<notin> set tenant"
  shows
  "namespace_of (TOPIC_EMAIL tenant) = Inr ''auth''"
  "namespace_of (TOPIC_USER_EVENTS tenant) = Inr ''auth''"
  "namespace_of (TOPIC_AUDIT_LOGIN_FAIL tenant) = Inr ''auth''"
  "namespace_of (TOPIC_AUDIT_PERMISSION_CHANGE tenant) = Inr ''auth''"
  "namespace_of (TOPIC_NOTIFY tenant) = Inr ''biz''"
  "namespace_of (TOPIC_POINTS tenant) = Inr ''biz''"
  "namespace_of (TOPIC_CONTENT tenant) = Inr ''biz''"
  "namespace_of (TOPIC_CRON tenant) = Inr ''system''"
  "namespace_of (TOPIC_DLQ tenant) = Inr ''system''"
  using assms by (simp_all add: topic_defs namespace_of_topic_name)

lemma key_topics_ok:
  assumes "CHR ''/'' \<notin> set tenant"
  shows "foldR check_key_topic (ROUTING_KEY_TOPICS tenant) () = Inr ()"
  by (simp add: ROUTING_KEY_TOPICS_def check_key_topic_def topics_namespace[OF assms]
      NAMESPACES_def)

lemma key_topic_lookup:
  "map_of (ROUTING_KEY_TOPICS tenant) RKEY_SEND_CODE = Some (TOPIC_EMAIL tenant)"
  "map_of (ROUTING_KEY_TOPICS tenant) RKEY_SEND_MAGIC = Some (TOPIC_EMAIL tenant)"
  "map_of (ROUTING_KEY_TOPICS tenant) RKEY_USER_UPDATED = Some (TOPIC_USER_EVENTS tenant)"
  "map_of (ROUTING_KEY_TOPICS tenant) RKEY_USER_BANNED = Some (TOPIC_USER_EVENTS tenant)"
  "map_of (ROUTING_KEY_TOPICS tenant) RKEY_USER_SESSION_REVOKE = Some (TOPIC_USER_EVENTS tenant)"
  "map_of (ROUTING_KEY_TOPICS tenant) RKEY_AUDIT_LOGIN_FAIL = Some (TOPIC_AUDIT_LOGIN_FAIL tenant)"
  "map_of (ROUTING_KEY_TOPICS tenant) RKEY_AUDIT_PERMISSION_CHANGE =
     Some (TOPIC_AUDIT_PERMISSION_CHANGE tenant)"
  "map_of (ROUTING_KEY_TOPICS tenant) RKEY_NOTIFY = Some (TOPIC_NOTIFY tenant)"
  "map_of (ROUTING_KEY_TOPICS tenant) RKEY_POINTS = Some (TOPIC_POINTS tenant)"
  "map_of (ROUTING_KEY_TOPICS tenant) RKEY_CONTENT_PUBLISHED = Some (TOPIC_CONTENT tenant)"
  "map_of (ROUTING_KEY_TOPICS tenant) RKEY_CONTENT_UPDATED = Some (TOPIC_CONTENT tenant)"
  "map_of (ROUTING_KEY_TOPICS tenant) RKEY_CONTENT_DELETED = Some (TOPIC_CONTENT tenant)"
  "map_of (ROUTING_KEY_TOPICS tenant) RKEY_FILE_CHANGED = Some (TOPIC_CONTENT tenant)"
  "map_of (ROUTING_KEY_TOPICS tenant) RKEY_CLEANUP = Some (TOPIC_CRON tenant)"
  "map_of (ROUTING_KEY_TOPICS tenant) RKEY_RECONCILE = Some (TOPIC_CRON tenant)"
  "map_of (ROUTING_KEY_TOPICS tenant) RKEY_ANALYTICS = Some (TOPIC_CRON tenant)"
  "map_of (ROUTING_KEY_TOPICS tenant) RKEY_OPS_DAILY = Some (TOPIC_CRON tenant)"
  "map_of (ROUTING_KEY_TOPICS tenant) RKEY_BLOOM_SEED = Some (TOPIC_CRON tenant)"
  "map_of (ROUTING_KEY_TOPICS tenant) RKEY_REVIEW_DIGEST = Some (TOPIC_CRON tenant)"
  by (simp_all add: ROUTING_KEY_TOPICS_def rkey_defs)

lemma isolation_holds:
  assumes "CHR ''/'' \<notin> set tenant"
  shows "validate_namespace_isolation (ROUTING_KEY_TOPICS tenant) (SUBSCRIPTIONS tenant) = Inr ()"
  by (simp add: validate_namespace_isolation_def key_topics_ok[OF assms] SUBSCRIPTIONS_def
      check_subscription_def check_sub_key_def sub_defs topics_namespace[OF assms] NAMESPACES_def
      key_topic_lookup)

section \<open>The contracts are well formed, and what conforming to one means\<close>

lemma contract_fns_distinct: "distinct (map fn contract_list)"
  by (simp add: contract_list_def cron_contract_def)

lemma contract_lookup:
  "map_of EVENT_CONTRACTS f = Some c \<longleftrightarrow> c \<in> set contract_list \<and> fn c = f"
proof -
  have d: "distinct (map fst EVENT_CONTRACTS)"
    using contract_fns_distinct by (simp add: EVENT_CONTRACTS_def comp_def)
  show ?thesis
    unfolding map_of_eq_Some_iff[OF d] by (auto simp: EVENT_CONTRACTS_def)
qed

lemma registry_valid: "validate_registry (ROUTING_KEY_TOPICS tenant) EVENT_CONTRACTS = Inr ()"
  unfolding validate_registry_def EVENT_CONTRACTS_def contract_list_def cron_contract_def
  by (simp add: check_contract_def key_topic_lookup WIRE_KINDS_def)

text \<open>A checked registry has its optional arguments last.\<close>

lemma check_args_optional_last:
  assumes "check_args b as = Inr ()" and "i < length as" and "optional (as ! i)"
    and "i \<le> j" and "j < length as"
  shows "optional (as ! j)"
proof -
  have seen: "check_args True bs = Inr () \<Longrightarrow> a \<in> set bs \<Longrightarrow> optional a" for bs a
    by (induction bs) (auto split: if_splits)
  show ?thesis using assms
  proof (induction as arbitrary: b i j)
    case Nil
    then show ?case by simp
  next
    case (Cons a as)
    show ?case
    proof (cases i)
      case 0
      with Cons.prems have "check_args True as = Inr ()" by (simp split: if_splits)
      then have "\<forall>a' \<in> set as. optional a'" using seen by blast
      with Cons.prems 0 show ?thesis by (cases j) auto
    next
      case (Suc i')
      with Cons.prems obtain j' where j: "j = Suc j'" "i' \<le> j'" by (cases j) auto
      from Cons.prems(1) obtain b' where "check_args b' as = Inr ()" by (simp split: if_splits)
      with Cons Suc j show ?thesis by auto
    qed
  qed
qed

definition conforms :: "event_contract \<Rightarrow> json list \<Rightarrow> bool" where
  "conforms c args \<longleftrightarrow> required_args c \<le> length args \<and> length args \<le> maximum_args c
     \<and> (\<forall>i < length args. value_matches (args ! i) (contract_args c ! i))"

lemma args_violations_empty: "args_violations c args = [] \<longleftrightarrow> conforms c args"
proof -
  let ?n = "length args" and ?as = "contract_args c"
  have "filter (\<lambda>(_, v, a). \<not> value_matches v a) (zip [0..<?n] (zip args ?as)) = []
      \<longleftrightarrow> (\<forall>i < ?n. value_matches (args ! i) (?as ! i))" (is "?l \<longleftrightarrow> ?r") if "?n \<le> length ?as"
  proof -
    have "?l \<longleftrightarrow> (\<forall>i < ?n. case zip [0..<?n] (zip args ?as) ! i of (_, v, a) \<Rightarrow> value_matches v a)"
      using that by (simp add: filter_empty_conv all_set_conv_all_nth split_def)
    also have "\<dots> \<longleftrightarrow> ?r" using that by simp
    finally show ?thesis .
  qed
  then show ?thesis
    by (auto simp: args_violations_def conforms_def maximum_args_def not_less)
qed

lemma event_id_violations_empty:
  "event_id_violations kvs = [] \<longleftrightarrow>
     (case map_of kvs ''event_id'' of None \<Rightarrow> True | Some v \<Rightarrow> v = JNull \<or> is_JStr v)"
  by (auto simp: event_id_violations_def split: option.splits json.splits)

text \<open>
  A handler takes \<open>k\<close> positional arguments and nothing else when Python would not raise \<open>TypeError\<close>: \<open>dispatch\<close> is
  \<open>handler(*args)\<close>.
\<close>

definition takes :: "handler_sig \<Rightarrow> nat \<Rightarrow> bool" where
  "takes h k \<longleftrightarrow> n_required h \<le> k \<and> (var_positional h \<or> k \<le> n_positional h) \<and> n_keyword_required h = 0"

lemma accepted_handler_fits:
  assumes "handler_violation (fn c) h = None" and "c \<in> set contract_list" and "conforms c args"
    and "\<not> var_positional h"
  shows "n_required h \<le> length args \<and> length args \<le> n_positional h"
proof -
  have "map_of EVENT_CONTRACTS (fn c) = Some c" using assms(2) by (simp add: contract_lookup)
  with assms show ?thesis
    by (auto simp: handler_violation_def conforms_def split: if_splits)
qed

lemma no_permanent_failure:
  "permanent_failure_reason keys rk payload = None \<longleftrightarrow>
     rk \<in> set keys \<and> encodable (JObj payload) \<and> envelope_violations payload (Some rk) = []"
  by (auto simp: permanent_failure_reason_def contract_violations_def payload_violations_def Let_def
      simp del: encodable.simps)

text \<open>The arguments an event carries: none when the key is missing.\<close>

definition args_of :: "(string \<times> json) list \<Rightarrow> json list option" where
  "args_of kvs = (case map_of kvs ''args'' of None \<Rightarrow> Some [] | Some (JList a) \<Rightarrow> Some a | _ \<Rightarrow> None)"

lemma permanent_failure_iff:
  "permanent_failure_reason keys rk payload = None \<longleftrightarrow>
     rk \<in> set keys \<and> encodable (JObj payload) \<and> fst ` set payload \<subseteq> set ENVELOPE_KEYS
     \<and> (\<exists>c \<in> set contract_list. \<exists>args. map_of payload ''fn'' = Some (JStr (fn c))
          \<and> rk \<in> set (routing_keys c) \<and> args_of payload = Some args \<and> conforms c args)
     \<and> event_id_violations payload = []"
proof -
  have ne: "fn c \<noteq> []" if "c \<in> set contract_list" for c
    using that by (auto simp: contract_list_def cron_contract_def)
  have lk: "map_of EVENT_CONTRACTS (fn c) = Some c" if "c \<in> set contract_list" for c
    using that by (simp add: contract_lookup)
  have ex: "filter (\<lambda>k. k \<notin> set ENVELOPE_KEYS) (map fst payload) = []
      \<longleftrightarrow> fst ` set payload \<subseteq> set ENVELOPE_KEYS"
    by (auto simp: filter_empty_conv)
  have "envelope_violations payload (Some rk) = [] \<longleftrightarrow> fst ` set payload \<subseteq> set ENVELOPE_KEYS
     \<and> (\<exists>c \<in> set contract_list. \<exists>args. map_of payload ''fn'' = Some (JStr (fn c))
          \<and> rk \<in> set (routing_keys c) \<and> args_of payload = Some args \<and> conforms c args)
     \<and> event_id_violations payload = []" (is "?l \<longleftrightarrow> ?x \<and> ?c \<and> ?e")
  proof
    assume l: ?l
    then have ?x
      by (auto simp: envelope_violations_def Let_def ex[symmetric] split: option.splits json.splits if_splits)
    moreover from l have ?c
      by (auto simp: envelope_violations_def Let_def contract_lookup args_violations_empty args_of_def
          split: option.splits json.splits if_splits)
    moreover from l have ?e
      by (auto simp: envelope_violations_def Let_def split: option.splits json.splits if_splits)
    ultimately show "?x \<and> ?c \<and> ?e" by blast
  next
    assume r: "?x \<and> ?c \<and> ?e"
    then obtain c args where "c \<in> set contract_list" "map_of payload ''fn'' = Some (JStr (fn c))"
        "rk \<in> set (routing_keys c)" "args_of payload = Some args" "conforms c args" by blast
    with r show ?l
      by (auto simp: envelope_violations_def Let_def ex lk ne args_violations_empty args_of_def
          split: option.splits json.splits)
  qed
  then show ?thesis by (auto simp: no_permanent_failure)
qed

section \<open>Properties\<close>

text \<open>For every tenant name without a slash, the start-up check of the topology succeeds:
  each topic is in a known namespace, and each subscription names only known routing keys, all of
  them carried by the subscription's own topic.\<close>

theorem topology_is_isolated:
  assumes "CHR ''/'' \<notin> set tenant"
  shows "validate_namespace_isolation (ROUTING_KEY_TOPICS tenant) (SUBSCRIPTIONS tenant) = Inr ()
    \<and> (\<forall>sub rk. sub \<in> set (SUBSCRIPTIONS tenant) \<and> rk \<in> set (sub_keys sub)
          \<longrightarrow> map_of (ROUTING_KEY_TOPICS tenant) rk = Some (sub_topic sub))"
proof (intro conjI allI impI)
  show "validate_namespace_isolation (ROUTING_KEY_TOPICS tenant) (SUBSCRIPTIONS tenant) = Inr ()"
    using assms by (rule isolation_holds)
next
  fix sub rk assume "sub \<in> set (SUBSCRIPTIONS tenant) \<and> rk \<in> set (sub_keys sub)"
  then show "map_of (ROUTING_KEY_TOPICS tenant) rk = Some (sub_topic sub)"
    by (auto simp: SUBSCRIPTIONS_def sub_defs key_topic_lookup)
qed

lemma topology_is_isolated_witness:
  "validate_namespace_isolation (ROUTING_KEY_TOPICS ''lkm'') (SUBSCRIPTIONS ''lkm'') = Inr ()"
  using topology_is_isolated[of "''lkm''"] by simp

text \<open>The check the relay makes before publishing is exact.  An event is not a permanent
  failure if and only if its routing key is known, it can be encoded, its envelope has no other key
  than fn, args and event_id, its function has a contract that allows the key, its arguments (none
  when the key is missing) conform to the contract in number and kind, and its event id is absent,
  null or a string.\<close>

theorem permanent_failure_exact:
  "permanent_failure_reason keys rk payload = None \<longleftrightarrow>
     rk \<in> set keys \<and> encodable (JObj payload) \<and> fst ` set payload \<subseteq> set ENVELOPE_KEYS
     \<and> (\<exists>c \<in> set contract_list. \<exists>args. map_of payload ''fn'' = Some (JStr (fn c))
          \<and> rk \<in> set (routing_keys c) \<and> args_of payload = Some args \<and> conforms c args)
     \<and> event_id_violations payload = []"
  by (rule permanent_failure_iff)

text \<open>C1: When a handler that the registry accepted can be called.  Take a handler accepted for a function, and an event of that
  function that is no permanent failure.  Calling the handler with the arguments of the event raises no \<open>TypeError\<close> exactly
  when the handler has no required keyword-only parameter and, if it takes \<open>*args\<close>, no more required parameters than the event
  has arguments.  So a handler without either is never called with arguments that do not fit.\<close>

theorem accepted_handler_never_misfits:
  assumes "permanent_failure_reason keys rk payload = None"
    and "map_of payload ''fn'' = Some (JStr f)" and "args_of payload = Some args"
    and "handler_violation f h = None"
  shows "takes h (length args) \<longleftrightarrow> n_keyword_required h = 0 \<and> (var_positional h \<longrightarrow> n_required h \<le> length args)"
proof -
  from assms(1) have "envelope_violations payload (Some rk) = []" by (simp add: no_permanent_failure)
  with assms(2,3) obtain c where c: "c \<in> set contract_list" "fn c = f" "conforms c args"
    by (auto simp: envelope_violations_def Let_def contract_lookup args_violations_empty args_of_def
        split: option.splits json.splits if_splits)
  show ?thesis
  proof (cases "var_positional h")
    case True
    then show ?thesis by (auto simp: takes_def)
  next
    case False
    with assms(4) c accepted_handler_fits[of c h args] show ?thesis by (auto simp: takes_def)
  qed
qed

lemma accepted_handler_never_misfits_witness:
  "takes \<lparr>n_required = 1, n_positional = 2, var_positional = False, n_keyword_required = 0\<rparr> (length [JStr ''42''])
   \<and> \<not> takes \<lparr>n_required = 1, n_positional = 1, var_positional = False, n_keyword_required = 1\<rparr> (length [JStr ''42''])"
proof -
  let ?p = "[(''fn'', JStr ''notify_upload''), (''args'', JList [JStr ''42''])]"
  have c: "map_of EVENT_CONTRACTS ''notify_upload'' =
      Some (EventContract ''notify_upload'' [RKEY_NOTIFY] [Arg ''upload_id'' ''str'' False False])"
    by (simp add: EVENT_CONTRACTS_def contract_list_def cron_contract_def)
  have p: "permanent_failure_reason [RKEY_NOTIFY] RKEY_NOTIFY ?p = None"
    by (simp add: no_permanent_failure envelope_violations_def ENVELOPE_KEYS_def c args_violations_def
        required_args_def maximum_args_def value_matches_def event_id_violations_def Let_def)
  have h: "handler_violation ''notify_upload'' \<lparr>n_required = 1, n_positional = 2, var_positional = False, n_keyword_required = 0\<rparr> = None"
    "handler_violation ''notify_upload'' \<lparr>n_required = 1, n_positional = 1, var_positional = False, n_keyword_required = 1\<rparr> = None"
    by (simp_all add: handler_violation_def c required_args_def maximum_args_def)
  show ?thesis
    using accepted_handler_never_misfits[OF p _ _ h(1)] accepted_handler_never_misfits[OF p _ _ h(2)] by (simp add: args_of_def)
qed

text \<open>Two kinds of handlers pass the check and cannot be called.  With \<open>*args\<close> it returns before it looks at the required
  parameters, so \<open>def h(a, *rest)\<close> is accepted for a function whose events carry no argument.  And it never looks at keyword-only
  parameters, so \<open>def h(*, db)\<close> is accepted too.  Every event of the function makes either call raise \<open>TypeError\<close>.\<close>

theorem varargs_handler_can_misfit:
  "\<exists>h g payload. handler_violation ''expire_qa_bounties'' h = None \<and> handler_violation ''expire_qa_bounties'' g = None
     \<and> n_keyword_required h = 0 \<and> \<not> var_positional g
     \<and> permanent_failure_reason [RKEY_CLEANUP] RKEY_CLEANUP payload = None
     \<and> map_of payload ''fn'' = Some (JStr ''expire_qa_bounties'')
     \<and> args_of payload = Some [] \<and> \<not> takes h (length ([] :: json list)) \<and> \<not> takes g (length ([] :: json list))"
proof (intro exI conjI)
  let ?h = "\<lparr>n_required = 1, n_positional = 1, var_positional = True, n_keyword_required = 0\<rparr>"
  let ?g = "\<lparr>n_required = 0, n_positional = 0, var_positional = False, n_keyword_required = 1\<rparr>"
  let ?p = "[(''fn'', JStr ''expire_qa_bounties'')]"
  have c: "map_of EVENT_CONTRACTS ''expire_qa_bounties'' =
      Some (EventContract ''expire_qa_bounties'' [RKEY_CLEANUP] [])"
    by (simp add: EVENT_CONTRACTS_def contract_list_def cron_contract_def)
  show "handler_violation ''expire_qa_bounties'' ?h = None"
    by (simp add: handler_violation_def c)
  show "handler_violation ''expire_qa_bounties'' ?g = None"
    by (simp add: handler_violation_def c required_args_def maximum_args_def)
  show "permanent_failure_reason [RKEY_CLEANUP] RKEY_CLEANUP ?p = None"
    by (simp add: no_permanent_failure envelope_violations_def ENVELOPE_KEYS_def c args_violations_def
        required_args_def maximum_args_def event_id_violations_def Let_def)
  show "args_of ?p = Some []" by (simp add: args_of_def)
  show "map_of ?p ''fn'' = Some (JStr ''expire_qa_bounties'')" by simp
  show "\<not> takes ?h (length ([] :: json list))" "\<not> takes ?g (length ([] :: json list))" by (simp_all add: takes_def)
  show "n_keyword_required ?h = 0" "\<not> var_positional ?g" by simp_all
qed

end
