(* ===== verification/Outbox_Store.thy ===== *)
theory Outbox_Store
  imports Event_Contract
begin

text \<open>
  The transactional outbox (\<open>core/db/outbox.py\<close>), its archive of failed publications
  (\<open>core/db/event_failure.py\<close>), the dead letters (\<open>core/worker_dlq.py\<close>) and the producers of
  events.  The record \<open>core_db\<close> is the part of the database every component shares; the records
  of the modules extend it, and the operations here work on every extension.
\<close>

section \<open>Tables\<close>

definition OUTBOX_PENDING :: string where "OUTBOX_PENDING = ''pending''"
definition OUTBOX_PUBLISHED :: string where "OUTBOX_PUBLISHED = ''published''"
definition OUTBOX_FAILED :: string where "OUTBOX_FAILED = ''failed''"
definition MAX_TRIES :: int where "MAX_TRIES = 5"
definition BACKOFF_CAP_S :: int where "BACKOFF_CAP_S = 3600"

lemmas outbox_status_defs = OUTBOX_PENDING_def OUTBOX_PUBLISHED_def OUTBOX_FAILED_def

lemma outbox_status_distinct [simp]:
  "OUTBOX_PENDING \<noteq> OUTBOX_PUBLISHED" "OUTBOX_PUBLISHED \<noteq> OUTBOX_PENDING"
  by (simp_all add: outbox_status_defs)

type_synonym payload = "(string \<times> json) list"

record outbox_message =
  om_id :: uuid
  om_event_id :: string
  om_routing_key :: string
  om_payload :: payload
  om_status :: string
  om_attempt_count :: int
  om_created_at :: instant
  om_next_retry_at :: instant
  om_published_at :: "instant option"
  om_locked_at :: "instant option"
  om_locked_by :: "string option"

record outbox_archived =
  oa_event_id :: string
  oa_routing_key :: string
  oa_payload :: payload
  oa_attempt_count :: int
  oa_created_at :: instant
  oa_published_at :: "instant option"
  oa_archived_at :: instant

text \<open>The text in the column \<open>reason\<close> is kept as the value it is printed from.\<close>

datatype fold_reason = Permanent failure_reason | Max_tries_reached

record event_failure =
  ef_id :: uuid
  ef_event_id :: string
  ef_routing_key :: string
  ef_payload :: payload
  ef_attempt_count :: int
  ef_reason :: fold_reason
  ef_folded_at :: instant
  ef_replayed_at :: "instant option"

record dlq_message =
  dm_id :: uuid
  dm_routing_key :: string
  dm_payload_json :: payload
  dm_exchange :: string
  dm_attempts :: int
  dm_reason :: string
  dm_status :: string
  dm_created_at :: instant
  dm_requeued_at :: "instant option"
  dm_source_message_id :: "string option"

text \<open>
  \<open>now\<close> is the clock read by \<open>now_iso()\<close>; \<open>pks\<close> and \<open>hexes\<close> are what \<open>uuid_generate_v7()\<close> and
  \<open>uuid4().hex\<close> will return, with the number of values already drawn.  \<open>cache_fx\<close> is the list of
  cache invalidations issued so far, oldest first.
\<close>

datatype cache_effect = Bump string | Invalidate string "string list" | Delete_key string

record core_db =
  now :: instant
  message_bus_enabled :: bool
  pks :: "nat \<Rightarrow> uuid"
  pk_ix :: nat
  hexes :: "nat \<Rightarrow> string"
  hex_ix :: nat
  event_keys :: "string set"
  outbox_events :: "outbox_message list"
  outbox_archive :: "outbox_archived list"
  event_failures :: "event_failure list"
  dlq_messages :: "dlq_message list"
  cache_fx :: "cache_effect list"

definition fresh_pk :: "'s core_db_scheme \<Rightarrow> uuid \<times> 's core_db_scheme" where
  "fresh_pk s = (pks s (pk_ix s), s\<lparr>pk_ix := Suc (pk_ix s)\<rparr>)"

definition fresh_hex :: "'s core_db_scheme \<Rightarrow> string \<times> 's core_db_scheme" where
  "fresh_hex s = (hexes s (hex_ix s), s\<lparr>hex_ix := Suc (hex_ix s)\<rparr>)"

definition emit_fx :: "cache_effect \<Rightarrow> 's core_db_scheme \<Rightarrow> 's core_db_scheme" where
  "emit_fx e s = s\<lparr>cache_fx := cache_fx s @ [e]\<rparr>"

section \<open>Enqueueing\<close>

definition backoff_seconds :: "nat \<Rightarrow> int" where
  "backoff_seconds attempt = min (2 ^ attempt) BACKOFF_CAP_S"

text \<open>\<open>{**d, k: v}\<close>: the value of an existing key is replaced in place, a new key goes last.\<close>

fun dict_set :: "payload \<Rightarrow> string \<Rightarrow> json \<Rightarrow> payload" where
  "dict_set [] k v = [(k, v)]"
| "dict_set ((k', v') # d) k v = (if k' = k then (k, v) # d else (k', v') # dict_set d k v)"

fun jsonable :: "json \<Rightarrow> json" where
  "jsonable (JUuid u) = JStr (uuid_str u)"
| "jsonable (JObj kvs) = JObj (map (\<lambda>(k, v). (k, jsonable v)) kvs)"
| "jsonable (JList vs) = JList (map jsonable vs)"
| "jsonable v = v"

definition jsonable_dict :: "payload \<Rightarrow> payload" where
  "jsonable_dict = map (\<lambda>(k, v). (k, jsonable v))"

definition legacy_event_exists :: "string \<Rightarrow> 's core_db_scheme \<Rightarrow> bool" where
  "legacy_event_exists eid s \<longleftrightarrow>
     list_ex (\<lambda>m. om_event_id m = eid) (outbox_events s)
     \<or> list_ex (\<lambda>m. oa_event_id m = eid) (outbox_archive s)
     \<or> list_ex (\<lambda>m. ef_event_id m = eid) (event_failures s)"

definition pending_event :: "string \<Rightarrow> 's core_db_scheme \<Rightarrow> bool" where
  "pending_event eid s \<longleftrightarrow>
     list_ex (\<lambda>m. om_event_id m = eid \<and> om_status m = OUTBOX_PENDING) (outbox_events s)"

text \<open>
  The row is flushed with its defaults.  The table has the primary key \<open>(id, created_at)\<close> and is
  unique in \<open>(event_id, created_at)\<close>.
\<close>

definition insert_outbox :: "outbox_message \<Rightarrow> 's core_db_scheme \<Rightarrow> exc + 's core_db_scheme" where
  "insert_outbox row s =
     (if list_ex (\<lambda>m. om_created_at m = om_created_at row
                      \<and> (om_id m = om_id row \<or> om_event_id m = om_event_id row)) (outbox_events s)
      then Inl (IntegrityError True None)
      else Inr (s\<lparr>outbox_events := outbox_events s @ [row]\<rparr>))"

definition new_outbox_row :: "uuid \<Rightarrow> string \<Rightarrow> string \<Rightarrow> payload \<Rightarrow> instant \<Rightarrow> outbox_message" where
  "new_outbox_row i eid rk payload t =
     \<lparr>om_id = i, om_event_id = eid, om_routing_key = rk, om_payload = jsonable_dict payload,
      om_status = OUTBOX_PENDING, om_attempt_count = 0, om_created_at = t, om_next_retry_at = t,
      om_published_at = None, om_locked_at = None, om_locked_by = None\<rparr>"

definition add_outbox :: "string \<Rightarrow> string \<Rightarrow> payload \<Rightarrow> 's core_db_scheme \<Rightarrow> exc + bool \<times> 's core_db_scheme" where
  "add_outbox eid rk payload s =
     (let (i, s) = fresh_pk s in
      bindR (insert_outbox (new_outbox_row i eid rk payload (now s)) s) (\<lambda>s. Inr (True, s)))"

definition enqueue_outbox ::
    "string \<Rightarrow> payload \<Rightarrow> string option \<Rightarrow> bool \<Rightarrow> 's core_db_scheme \<Rightarrow> exc + bool \<times> 's core_db_scheme" where
  "enqueue_outbox routing_key payload event_id replay s =
     (if \<not> message_bus_enabled s then Inr (False, s)
      else
        let (eid, s) = (case event_id of
                          Some e \<Rightarrow> if e \<noteq> [] then (e, s) else fresh_hex s
                        | None \<Rightarrow> fresh_hex s)
        in if replay \<and> event_id = None then Inl ValueError
        else
          let inserted = (eid \<notin> event_keys s);
              s = s\<lparr>event_keys := insert eid (event_keys s)\<rparr>
          in if \<not> inserted \<and> \<not> replay then Inr (False, s)
          else if inserted \<and> event_id \<noteq> None \<and> \<not> replay \<and> legacy_event_exists eid s
            then Inr (False, s)
          else if replay \<and> pending_event eid s then Inr (False, s)
          else add_outbox eid routing_key payload s)"

section \<open>Producers\<close>

definition enqueue_points_event ::
    "uuid \<Rightarrow> string \<Rightarrow> string \<Rightarrow> 's core_db_scheme \<Rightarrow> exc + 's core_db_scheme" where
  "enqueue_points_event user_id event ref_id s =
     bindR (enqueue_outbox RKEY_POINTS
              [(''fn'', JStr ''apply_point_event''),
               (''args'', JList [JUuid user_id, JStr event, JStr ref_id])] None False s)
       (\<lambda>(_, s). Inr s)"

definition CONTENT_ACTION_PUBLISHED :: string where "CONTENT_ACTION_PUBLISHED = ''published''"
definition CONTENT_ACTION_UPDATED :: string where "CONTENT_ACTION_UPDATED = ''updated''"
definition CONTENT_ACTION_DELETED :: string where "CONTENT_ACTION_DELETED = ''deleted''"
definition CONTENT_EVENT_FN :: string where "CONTENT_EVENT_FN = ''apply_content_event''"

definition ACTION_RKEYS :: "(string \<times> string) list" where
  "ACTION_RKEYS =
     [(CONTENT_ACTION_PUBLISHED, RKEY_CONTENT_PUBLISHED),
      (CONTENT_ACTION_UPDATED, RKEY_CONTENT_UPDATED),
      (CONTENT_ACTION_DELETED, RKEY_CONTENT_DELETED)]"

text \<open>Of the content item the event needs the identifier and the status.\<close>

definition enqueue_content_event ::
    "bool \<Rightarrow> uuid \<Rightarrow> string \<Rightarrow> string option \<Rightarrow> 's core_db_scheme \<Rightarrow> exc + bool \<times> 's core_db_scheme" where
  "enqueue_content_event content_events_enabled item_id item_status action s =
     (if \<not> content_events_enabled then Inr (False, s)
      else if action = None \<and> item_status \<noteq> ''published'' then Inr (False, s)
      else
        let resolved = (case action of None \<Rightarrow> CONTENT_ACTION_PUBLISHED | Some a \<Rightarrow> a)
        in (case map_of ACTION_RKEYS resolved of
              None \<Rightarrow> Inl ValueError
            | Some rkey \<Rightarrow>
                enqueue_outbox rkey
                  [(''fn'', JStr CONTENT_EVENT_FN), (''args'', JList [JUuid item_id, JStr resolved])]
                  None False s))"

definition enqueue_file_change ::
    "bool \<Rightarrow> uuid \<Rightarrow> 's core_db_scheme \<Rightarrow> exc + 's core_db_scheme" where
  "enqueue_file_change search_sync_enabled file_id s =
     (if search_sync_enabled then
        bindR (enqueue_outbox RKEY_FILE_CHANGED
                 [(''fn'', JStr ''apply_file_event''), (''args'', JList [JStr (uuid_str file_id)])]
                 None False s)
          (\<lambda>(_, s). Inr s)
      else Inr s)"

text \<open>\<open>_enqueue_upload\<close> has a session of its own; an exception rolls it back and is logged.\<close>

definition enqueue_upload :: "string \<Rightarrow> 's core_db_scheme \<Rightarrow> 's core_db_scheme" where
  "enqueue_upload upload_id s =
     (if \<not> message_bus_enabled s then s
      else (case enqueue_outbox RKEY_NOTIFY
                   [(''fn'', JStr ''notify_upload''), (''args'', JList [JStr upload_id])] None False s of
              Inl _ \<Rightarrow> s
            | Inr (_, s') \<Rightarrow> s'))"

section \<open>Replaying failures and dead letters\<close>

fun update_first :: "('a \<Rightarrow> bool) \<Rightarrow> ('a \<Rightarrow> 'a) \<Rightarrow> 'a list \<Rightarrow> 'a list" where
  "update_first P f [] = []"
| "update_first P f (x # xs) = (if P x then f x # xs else x # update_first P f xs)"

definition replay_failure ::
    "string list \<Rightarrow> uuid \<Rightarrow> string option \<Rightarrow> payload option \<Rightarrow> 's core_db_scheme
      \<Rightarrow> exc + bool \<times> 's core_db_scheme" where
  "replay_failure keys failure_id routing_key payload s =
     (case find (\<lambda>r. ef_id r = failure_id) (event_failures s) of
        None \<Rightarrow> Inr (False, s)
      | Some row \<Rightarrow>
          if ef_replayed_at row \<noteq> None then Inr (False, s)
          else if \<not> message_bus_enabled s then Inr (False, s)
          else
            let rk = (case routing_key of None \<Rightarrow> ef_routing_key row | Some k \<Rightarrow> k);
                body = (case payload of None \<Rightarrow> ef_payload row | Some p \<Rightarrow> p)
            in if permanent_failure_reason keys rk
                    (dict_set body ''event_id'' (JStr (ef_event_id row))) \<noteq> None
               then Inr (False, s)
            else
              bindR (enqueue_outbox rk body (Some (ef_event_id row)) True s) (\<lambda>(queued, s).
              if \<not> queued \<and> \<not> pending_event (ef_event_id row) s then Inr (False, s)
              else Inr (True, s\<lparr>event_failures :=
                     update_first (\<lambda>r. ef_id r = failure_id)
                       (\<lambda>r. r\<lparr>ef_replayed_at := Some (now s)\<rparr>) (event_failures s)\<rparr>)))"

text \<open>\<open>m.id.hex\<close> is the identifier in 32 hexadecimal digits without hyphens.\<close>

definition uuid_hex :: "uuid \<Rightarrow> string" where
  "uuid_hex u = hex_fixed 32 (unat u)"

definition requeue ::
    "string list \<Rightarrow> uuid \<Rightarrow> string option \<Rightarrow> payload option \<Rightarrow> 's core_db_scheme
      \<Rightarrow> exc + bool \<times> 's core_db_scheme" where
  "requeue keys dlq_id routing_key payload s =
     (case find (\<lambda>m. dm_id m = dlq_id) (dlq_messages s) of
        None \<Rightarrow> Inr (False, s)
      | Some m \<Rightarrow>
          if dm_status m \<noteq> ''pending'' then Inr (False, s)
          else
            (case (case payload of
                     None \<Rightarrow> map_of (dm_payload_json m) ''payload''
                   | Some p \<Rightarrow> Some (JObj p)) of
               Some (JObj parsed) \<Rightarrow>
                 if \<not> message_bus_enabled s then Inr (False, s)
                 else
                   let rk = (case routing_key of None \<Rightarrow> dm_routing_key m | Some k \<Rightarrow> k)
                   in if permanent_failure_reason keys rk parsed \<noteq> None then Inr (False, s)
                   else
                     let event_id = (case map_of parsed ''event_id'' of
                                       Some (JStr e) \<Rightarrow> if e \<noteq> [] then e else uuid_hex (dm_id m)
                                     | _ \<Rightarrow> uuid_hex (dm_id m))
                     in bindR (enqueue_outbox rk parsed (Some event_id) True s) (\<lambda>(queued, s).
                        if \<not> queued \<and> \<not> pending_event event_id s then Inr (False, s)
                        else Inr (True, s\<lparr>dlq_messages :=
                               update_first (\<lambda>r. dm_id r = dlq_id)
                                 (\<lambda>r. r\<lparr>dm_status := ''requeued'', dm_requeued_at := Some (now s)\<rparr>)
                                 (dlq_messages s)\<rparr>))
             | _ \<Rightarrow> Inr (False, s)))"

section \<open>Payloads\<close>

lemma encodable_jsonable [simp]: "encodable (jsonable v)"
  by (induction v rule: jsonable.induct) (auto simp: list_all_iff)

lemma jsonable_fixed: "encodable v \<Longrightarrow> jsonable v = v"
  by (induction v rule: jsonable.induct) (auto simp: list_all_iff intro!: map_idI)

lemma encodable_jsonable_dict [simp]: "encodable (JObj (jsonable_dict p))"
  by (auto simp: jsonable_dict_def list_all_iff)

lemma encodable_dict_set:
  "encodable (JObj d) \<Longrightarrow> encodable v \<Longrightarrow> encodable (JObj (dict_set d k v))"
  by (induction d k v rule: dict_set.induct) auto

lemma map_of_dict_set [simp]: "map_of (dict_set d k v) = (map_of d)(k \<mapsto> v)"
  by (induction d k v rule: dict_set.induct) auto

lemma keys_dict_set [simp]: "fst ` set (dict_set d k v) = insert k (fst ` set d)"
  by (induction d k v rule: dict_set.induct) auto

section \<open>The rest of the database\<close>

text \<open>\<open>core_db.more\<close> is what a module adds to the database.\<close>

lemma enqueue_outbox_more:
  assumes "enqueue_outbox rk p e r s = Inr (b, s')"
  shows "core_db.more s' = core_db.more s" "now s' = now s"
proof -
  have "core_db.more s' = core_db.more s \<and> now s' = now s"
    using assms
    by (auto simp: enqueue_outbox_def Let_def add_outbox_def insert_outbox_def fresh_pk_def fresh_hex_def
        split: if_splits option.splits)
  then show "core_db.more s' = core_db.more s" "now s' = now s" by simp_all
qed

section \<open>What one call of enqueue does\<close>

definition event_ids :: "'s core_db_scheme \<Rightarrow> string set" where
  "event_ids s = om_event_id ` set (outbox_events s) \<union> oa_event_id ` set (outbox_archive s)
     \<union> ef_event_id ` set (event_failures s)"

lemma legacy_event_exists_iff: "legacy_event_exists eid s \<longleftrightarrow> eid \<in> event_ids s"
  by (auto simp: legacy_event_exists_def event_ids_def list_ex_iff)

lemma pending_event_iff:
  "pending_event eid s \<longleftrightarrow>
     (\<exists>m \<in> set (outbox_events s). om_event_id m = eid \<and> om_status m = OUTBOX_PENDING)"
  by (auto simp: pending_event_def list_ex_iff)

lemma pending_event_ids: "pending_event eid s \<Longrightarrow> eid \<in> event_ids s"
  by (auto simp: pending_event_iff event_ids_def)

text \<open>Identifiers from before the ledger of keys are not drawn again by \<open>uuid4()\<close>.\<close>

definition legacy_apart :: "'s core_db_scheme \<Rightarrow> bool" where
  "legacy_apart s \<longleftrightarrow>
     (\<forall>n \<ge> hex_ix s. hexes s n \<in> event_ids s \<longrightarrow> hexes s n \<in> event_keys s)"

lemma new_outbox_row_simps [simp]:
  "om_id (new_outbox_row i eid rk p t) = i"
  "om_event_id (new_outbox_row i eid rk p t) = eid"
  "om_routing_key (new_outbox_row i eid rk p t) = rk"
  "om_payload (new_outbox_row i eid rk p t) = jsonable_dict p"
  "om_status (new_outbox_row i eid rk p t) = OUTBOX_PENDING"
  "om_attempt_count (new_outbox_row i eid rk p t) = 0"
  "om_created_at (new_outbox_row i eid rk p t) = t"
  "om_next_retry_at (new_outbox_row i eid rk p t) = t"
  "om_published_at (new_outbox_row i eid rk p t) = None"
  "om_locked_at (new_outbox_row i eid rk p t) = None"
  "om_locked_by (new_outbox_row i eid rk p t) = None"
  by (simp_all add: new_outbox_row_def)

text \<open>Either nothing is queued, or exactly one row is appended under a key it now owns.\<close>

definition same_queue :: "'s core_db_scheme \<Rightarrow> 's core_db_scheme \<Rightarrow> bool" where
  "same_queue s s' \<longleftrightarrow> outbox_archive s' = outbox_archive s \<and> event_failures s' = event_failures s
     \<and> dlq_messages s' = dlq_messages s \<and> hexes s' = hexes s \<and> hex_ix s \<le> hex_ix s'
     \<and> now s' = now s \<and> message_bus_enabled s' = message_bus_enabled s
     \<and> pks s' = pks s \<and> cache_fx s' = cache_fx s \<and> pk_ix s \<le> pk_ix s'"

lemma enqueue_outbox_cases:
  assumes "enqueue_outbox rk p e r s = Inr (b, s')"
  obtains
    (skip) "\<not> b" "outbox_events s' = outbox_events s" "event_keys s \<subseteq> event_keys s'" "same_queue s s'"
  | (add) i eid where "b" "message_bus_enabled s"
      "outbox_events s' = outbox_events s @ [new_outbox_row i eid rk p (now s)]"
      "event_keys s' = insert eid (event_keys s)" "same_queue s s'"
      "\<forall>m \<in> set (outbox_events s). om_created_at m = now s \<longrightarrow> om_id m \<noteq> i \<and> om_event_id m \<noteq> eid"
      "legacy_apart s \<Longrightarrow> \<not> pending_event eid s"
      "\<not> r \<Longrightarrow> eid \<notin> event_keys s"
      "\<And>x. e = Some x \<Longrightarrow> x \<noteq> [] \<Longrightarrow> eid = x"
proof -
  have pe: "pending_event eid (s\<lparr>event_keys := K\<rparr>) = pending_event eid s"
    "legacy_event_exists eid (s\<lparr>event_keys := K\<rparr>) = legacy_event_exists eid s"
    "pending_event eid (s\<lparr>hex_ix := k, event_keys := K\<rparr>) = pending_event eid s"
    "legacy_event_exists eid (s\<lparr>hex_ix := k, event_keys := K\<rparr>) = legacy_event_exists eid s"
    "pending_event eid (s\<lparr>hex_ix := k\<rparr>) = pending_event eid s"
    "legacy_event_exists eid (s\<lparr>hex_ix := k\<rparr>) = legacy_event_exists eid s"
    for eid K k and s :: "'a core_db_scheme"
    by (simp_all add: pending_event_def legacy_event_exists_def)
  have la: "legacy_apart s \<Longrightarrow> hexes s (hex_ix s) \<notin> event_keys s \<Longrightarrow> \<not> pending_event (hexes s (hex_ix s)) s"
    using pending_event_ids by (fastforce simp: legacy_apart_def)
  have le: "\<not> legacy_event_exists x s \<Longrightarrow> \<not> pending_event x s" for x
    using pending_event_ids by (auto simp: legacy_event_exists_iff)
  show ?thesis
  proof (cases b)
    case False
    with assms show ?thesis
      by (intro skip) (auto simp: enqueue_outbox_def fresh_hex_def add_outbox_def Let_def same_queue_def
          split: option.splits if_splits prod.splits)
  next
    case True
    from assms have en: "message_bus_enabled s" and rn: "\<not> (r \<and> e = None)"
      using True by (auto simp: enqueue_outbox_def Let_def fresh_hex_def split: if_splits option.splits)
    show ?thesis
    proof (cases "\<exists>x. e = Some x \<and> x \<noteq> []")
      case True
      then obtain x where x: "e = Some x" "x \<noteq> []" by blast
      show ?thesis
      proof (rule add[of "pks s (pk_ix s)" x])
        show "legacy_apart s \<Longrightarrow> \<not> pending_event x s"
          using assms \<open>b\<close> x en le pending_event_ids[of x s]
          by (auto simp: enqueue_outbox_def Let_def pe legacy_apart_def split: if_splits)
      qed (use assms \<open>b\<close> x en in \<open>auto simp: enqueue_outbox_def add_outbox_def insert_outbox_def
            Let_def fresh_pk_def pe same_queue_def list_ex_iff split: if_splits\<close>)
    next
      case False
      then have eid: "(case e of Some e \<Rightarrow> if e \<noteq> [] then (e, s) else fresh_hex s | None \<Rightarrow> fresh_hex s) = fresh_hex s"
        by (auto split: option.splits)
      show ?thesis
      proof (rule add[of "pks s (pk_ix s)" "hexes s (hex_ix s)"])
        show "legacy_apart s \<Longrightarrow> \<not> pending_event (hexes s (hex_ix s)) s"
          using assms \<open>b\<close> en la
          by (auto simp: enqueue_outbox_def eid fresh_hex_def Let_def pe split: if_splits)
      qed (use assms \<open>b\<close> en False in \<open>auto simp: enqueue_outbox_def eid fresh_hex_def add_outbox_def insert_outbox_def
            Let_def fresh_pk_def pe same_queue_def list_ex_iff split: if_splits\<close>)
    qed
  qed
qed

section \<open>The invariant of the outbox\<close>

definition pending_rows :: "outbox_message list \<Rightarrow> outbox_message list" where
  "pending_rows = filter (\<lambda>m. om_status m = OUTBOX_PENDING)"

definition row_ok :: "outbox_message \<Rightarrow> bool" where
  "row_ok m \<longleftrightarrow> encodable (JObj (om_payload m)) \<and> 0 \<le> om_attempt_count m \<and> om_attempt_count m < MAX_TRIES
     \<and> om_status m \<in> {OUTBOX_PENDING, OUTBOX_PUBLISHED}
     \<and> (om_status m = OUTBOX_PUBLISHED \<longleftrightarrow> om_published_at m \<noteq> None)"

definition outbox_ok :: "'s core_db_scheme \<Rightarrow> bool" where
  "outbox_ok s \<longleftrightarrow>
     distinct (map (\<lambda>m. (om_id m, om_created_at m)) (outbox_events s))
     \<and> distinct (map om_event_id (pending_rows (outbox_events s)))
     \<and> (\<forall>m \<in> set (outbox_events s). row_ok m)
     \<and> legacy_apart s"

lemma pending_rows_append [simp]: "pending_rows (xs @ ys) = pending_rows xs @ pending_rows ys"
  by (simp add: pending_rows_def)

lemma set_pending_rows: "m \<in> set (pending_rows xs) \<longleftrightarrow> m \<in> set xs \<and> om_status m = OUTBOX_PENDING"
  by (auto simp: pending_rows_def)

lemma pending_event_rows: "pending_event eid s \<longleftrightarrow> eid \<in> om_event_id ` set (pending_rows (outbox_events s))"
  by (auto simp: pending_event_iff set_pending_rows)

lemma row_ok_new [simp]: "row_ok (new_outbox_row i eid rk p t)"
  by (simp add: row_ok_def MAX_TRIES_def del: encodable.simps)

lemma event_ids_queue:
  "same_queue s s' \<Longrightarrow> event_ids s' =
     om_event_id ` set (outbox_events s') \<union> (oa_event_id ` set (outbox_archive s) \<union> ef_event_id ` set (event_failures s))"
  by (auto simp: event_ids_def same_queue_def)

lemma legacy_apart_mono:
  assumes "legacy_apart s" and "same_queue s s'" and "event_keys s \<subseteq> event_keys s'"
    and "om_event_id ` set (outbox_events s') \<subseteq> om_event_id ` set (outbox_events s) \<union> event_keys s'"
  shows "legacy_apart s'"
  unfolding legacy_apart_def
proof (intro allI impI)
  fix n assume n: "hex_ix s' \<le> n" "hexes s' n \<in> event_ids s'"
  have n': "hex_ix s \<le> n" "hexes s' n = hexes s n" using assms(2) n by (auto simp: same_queue_def)
  have "event_ids s' \<subseteq> event_ids s \<union> event_keys s'"
    using assms(2,4) by (auto simp: event_ids_def same_queue_def)
  with n n' assms(1,3) show "hexes s' n \<in> event_keys s'"
    by (auto simp: legacy_apart_def)
qed

lemma outbox_ok_enqueue:
  assumes "enqueue_outbox rk p e r s = Inr (b, s')" and "outbox_ok s"
  shows "outbox_ok s'"
  using assms(1)
proof (cases rule: enqueue_outbox_cases)
  case skip
  with assms(2) show ?thesis by (auto simp: outbox_ok_def intro: legacy_apart_mono)
next
  case (add i eid)
  have "legacy_apart s'"
    using assms(2) add by (intro legacy_apart_mono[of s s']) (auto simp: outbox_ok_def)
  moreover have "eid \<notin> om_event_id ` set (pending_rows (outbox_events s))"
    using add assms(2) by (auto simp: outbox_ok_def pending_event_rows)
  moreover have "(i, now s) \<notin> (\<lambda>m. (om_id m, om_created_at m)) ` set (outbox_events s)"
    using add by auto
  ultimately show ?thesis
    using assms(2) add by (auto simp: outbox_ok_def pending_rows_def)
qed

lemma update_first_same:
  "(\<And>x. x \<in> set xs \<Longrightarrow> g (f x) = g x) \<Longrightarrow> map g (update_first P f xs) = map g xs"
  by (induction xs) auto

lemma event_ids_marked [simp]:
  "event_ids (s\<lparr>event_failures := update_first P (\<lambda>r. r\<lparr>ef_replayed_at := t\<rparr>) (event_failures s)\<rparr>) = event_ids s"
  "event_ids (s\<lparr>dlq_messages := D\<rparr>) = event_ids s"
proof -
  have "map ef_event_id (update_first P (\<lambda>r. r\<lparr>ef_replayed_at := t\<rparr>) (event_failures s))
      = map ef_event_id (event_failures s)" by (rule update_first_same) simp
  then have "ef_event_id ` set (update_first P (\<lambda>r. r\<lparr>ef_replayed_at := t\<rparr>) (event_failures s))
      = ef_event_id ` set (event_failures s)" by (metis set_map)
  then show "event_ids (s\<lparr>event_failures := update_first P (\<lambda>r. r\<lparr>ef_replayed_at := t\<rparr>) (event_failures s)\<rparr>) = event_ids s"
    by (simp add: event_ids_def)
qed (simp add: event_ids_def)

lemma outbox_ok_marked [simp]:
  "outbox_ok (s\<lparr>event_failures := update_first P (\<lambda>r. r\<lparr>ef_replayed_at := t\<rparr>) (event_failures s)\<rparr>) = outbox_ok s"
  "outbox_ok (s\<lparr>dlq_messages := D\<rparr>) = outbox_ok s"
  by (simp_all add: outbox_ok_def legacy_apart_def)

lemma replay_failure_cases:
  assumes "replay_failure keys i rk p s = Inr (b, s')"
  obtains
    (refused) "\<not> b" "s' = s"
  | (stuck) rk' p' e where "\<not> b" "enqueue_outbox rk' p' (Some e) True s = Inr (False, s')"
  | (queued) row rk' p' q s1 where "b" "find (\<lambda>r. ef_id r = i) (event_failures s) = Some row"
      "ef_replayed_at row = None"
      "rk' = (case rk of None \<Rightarrow> ef_routing_key row | Some k \<Rightarrow> k)"
      "p' = (case p of None \<Rightarrow> ef_payload row | Some x \<Rightarrow> x)"
      "permanent_failure_reason keys rk' (dict_set p' ''event_id'' (JStr (ef_event_id row))) = None"
      "enqueue_outbox rk' p' (Some (ef_event_id row)) True s = Inr (q, s1)"
      "q \<or> pending_event (ef_event_id row) s1"
      "s' = s1\<lparr>event_failures := update_first (\<lambda>r. ef_id r = i)
                  (\<lambda>r. r\<lparr>ef_replayed_at := Some (now s1)\<rparr>) (event_failures s1)\<rparr>"
proof (cases "find (\<lambda>r. ef_id r = i) (event_failures s)")
  case None
  with assms show ?thesis by (intro refused) (simp_all add: replay_failure_def)
next
  case (Some row)
  define rk' p' where "rk' = (case rk of None \<Rightarrow> ef_routing_key row | Some k \<Rightarrow> k)"
    and "p' = (case p of None \<Rightarrow> ef_payload row | Some x \<Rightarrow> x)"
  note eq = assms[unfolded replay_failure_def Some option.case Let_def, folded rk'_def p'_def]
  show ?thesis
  proof (cases "ef_replayed_at row = None \<and> message_bus_enabled s
      \<and> permanent_failure_reason keys rk' (dict_set p' ''event_id'' (JStr (ef_event_id row))) = None")
    case False
    with eq show ?thesis by (intro refused) (auto split: if_splits)
  next
    case True
    with eq obtain q s1 where q: "enqueue_outbox rk' p' (Some (ef_event_id row)) True s = Inr (q, s1)"
      "(if \<not> q \<and> \<not> pending_event (ef_event_id row) s1 then Inr (False, s1)
        else Inr (True, s1\<lparr>event_failures := update_first (\<lambda>r. ef_id r = i)
                  (\<lambda>r. r\<lparr>ef_replayed_at := Some (now s1)\<rparr>) (event_failures s1)\<rparr>)) = (Inr (b, s') :: exc + _)"
      by (auto split: prod.splits)
    show ?thesis
    proof (cases "\<not> q \<and> \<not> pending_event (ef_event_id row) s1")
      case True
      with q show ?thesis by (intro stuck[of rk' p' "ef_event_id row"]) auto
    next
      case False
      with q True Some rk'_def p'_def show ?thesis by (intro queued[of row rk' p' q s1]) auto
    qed
  qed
qed

lemma outbox_ok_replay:
  assumes "replay_failure keys i rk p s = Inr (b, s')" and "outbox_ok s"
  shows "outbox_ok s'"
  using assms(1) by (cases rule: replay_failure_cases) (use assms(2) outbox_ok_enqueue in auto)

lemma requeue_cases:
  assumes "requeue keys i rk p s = Inr (b, s')"
  obtains
    (refused) "\<not> b" "s' = s"
  | (stuck) rk' p' e where "\<not> b" "enqueue_outbox rk' p' (Some e) True s = Inr (False, s')"
  | (queued) m rk' p' e q s1 where "b" "find (\<lambda>r. dm_id r = i) (dlq_messages s) = Some m"
      "dm_status m = ''pending''" "permanent_failure_reason keys rk' p' = None"
      "enqueue_outbox rk' p' (Some e) True s = Inr (q, s1)" "q \<or> pending_event e s1"
      "s' = s1\<lparr>dlq_messages := update_first (\<lambda>r. dm_id r = i)
             (\<lambda>r. r\<lparr>dm_status := ''requeued'', dm_requeued_at := Some (now s1)\<rparr>) (dlq_messages s1)\<rparr>"
proof (cases "find (\<lambda>r. dm_id r = i) (dlq_messages s)")
  case None
  with assms show ?thesis by (intro refused) (simp_all add: requeue_def)
next
  case (Some m)
  define rk' where "rk' = (case rk of None \<Rightarrow> dm_routing_key m | Some k \<Rightarrow> k)"
  define src where "src = (case p of None \<Rightarrow> map_of (dm_payload_json m) ''payload'' | Some p \<Rightarrow> Some (JObj p))"
  note eq = assms[unfolded requeue_def Some option.case Let_def, folded rk'_def src_def]
  show ?thesis
  proof (cases "dm_status m = ''pending'' \<and> message_bus_enabled s \<and> (\<exists>p'. src = Some (JObj p')
      \<and> permanent_failure_reason keys rk' p' = None)")
    case False
    with eq show ?thesis by (intro refused) (auto split: if_splits option.splits json.splits)
  next
    case True
    then obtain p' where p': "src = Some (JObj p')" "permanent_failure_reason keys rk' p' = None" by blast
    define e where "e = (case map_of p' ''event_id'' of
        Some (JStr e) \<Rightarrow> if e \<noteq> [] then e else uuid_hex (dm_id m) | _ \<Rightarrow> uuid_hex (dm_id m))"
    from eq True p' obtain q s1 where q: "enqueue_outbox rk' p' (Some e) True s = Inr (q, s1)"
      "(if \<not> q \<and> \<not> pending_event e s1 then Inr (False, s1)
        else Inr (True, s1\<lparr>dlq_messages := update_first (\<lambda>r. dm_id r = i)
             (\<lambda>r. r\<lparr>dm_status := ''requeued'', dm_requeued_at := Some (now s1)\<rparr>) (dlq_messages s1)\<rparr>))
        = (Inr (b, s') :: exc + _)"
      by (auto simp flip: e_def split: prod.splits)
    show ?thesis
    proof (cases "\<not> q \<and> \<not> pending_event e s1")
      case True
      with q show ?thesis by (intro stuck[of rk' p' e]) auto
    next
      case False
      with q True p' Some show ?thesis by (intro queued[of m rk' p' e q s1]) auto
    qed
  qed
qed

lemma outbox_ok_requeue:
  assumes "requeue keys i rk p s = Inr (b, s')" and "outbox_ok s"
  shows "outbox_ok s'"
  using assms(1) by (cases rule: requeue_cases) (use assms(2) outbox_ok_enqueue in auto)

lemma find_update_first:
  "(\<And>x. P (f x) = P x) \<Longrightarrow> find P (update_first P f xs) = map_option f (find P xs)"
  by (induction xs) auto

section \<open>What the relay will publish\<close>

definition relay_payload :: "outbox_message \<Rightarrow> payload" where
  "relay_payload m = dict_set (om_payload m) ''event_id'' (JStr (om_event_id m))"

definition publishable :: "string list \<Rightarrow> outbox_message \<Rightarrow> bool" where
  "publishable keys m \<longleftrightarrow> permanent_failure_reason keys (om_routing_key m) (relay_payload m) = None"

definition all_publishable :: "string list \<Rightarrow> 's core_db_scheme \<Rightarrow> bool" where
  "all_publishable keys s \<longleftrightarrow> (\<forall>m \<in> set (outbox_events s). publishable keys m)"

lemma args_of_dict_set [simp]: "k \<noteq> ''args'' \<Longrightarrow> args_of (dict_set p k v) = args_of p"
  by (simp add: args_of_def)

lemma jsonable_dict_fixed: "encodable (JObj p) \<Longrightarrow> jsonable_dict p = p"
  using jsonable_fixed[of "JObj p"] by (simp add: jsonable_dict_def)

lemma dict_set_event_id_clean:
  assumes "permanent_failure_reason keys rk p = None"
  shows "permanent_failure_reason keys rk (dict_set p ''event_id'' (JStr e)) = None"
  using assms encodable_dict_set[of p "JStr e" "''event_id''"]
  unfolding permanent_failure_iff
  by (auto simp: event_id_violations_def ENVELOPE_KEYS_def simp del: encodable.simps(2))

lemma dict_set_twice: "dict_set (dict_set p k v) k w = dict_set p k w"
  by (induction p k v rule: dict_set.induct) auto

text \<open>A payload that passes the check, once its identifiers are text, yields a publishable row.\<close>

lemma publishable_new:
  assumes "permanent_failure_reason keys rk (dict_set (jsonable_dict p) ''event_id'' (JStr e)) = None"
  shows "publishable keys (new_outbox_row i e rk p t)"
  using assms by (simp add: publishable_def relay_payload_def)

lemma all_publishable_enqueue:
  assumes "enqueue_outbox rk p e r s = Inr (b, s')" and "all_publishable keys s"
    and "\<And>eid. (\<And>x. e = Some x \<Longrightarrow> x \<noteq> [] \<Longrightarrow> eid = x) \<Longrightarrow>
       permanent_failure_reason keys rk (dict_set (jsonable_dict p) ''event_id'' (JStr eid)) = None"
  shows "all_publishable keys s'"
  using assms(1)
proof (cases rule: enqueue_outbox_cases)
  case skip
  with assms(2) show ?thesis by (simp add: all_publishable_def)
next
  case (add i eid)
  have "publishable keys (new_outbox_row i eid rk p (now s))"
    by (intro publishable_new assms(3) add(9))
  with add assms(2) show ?thesis by (simp add: all_publishable_def)
qed

lemma clean_event:
  assumes "rk \<in> set keys" and "c \<in> set contract_list" and "rk \<in> set (routing_keys c)"
    and "conforms c (map jsonable args)"
  shows "permanent_failure_reason keys rk
    (dict_set (jsonable_dict [(''fn'', JStr (fn c)), (''args'', JList args)]) ''event_id'' (JStr e)) = None"
  using assms unfolding permanent_failure_iff
  by (auto simp: jsonable_dict_def ENVELOPE_KEYS_def event_id_violations_def args_of_def list_all_iff)

lemma producer_contracts:
  "EventContract ''apply_point_event'' [RKEY_POINTS]
     [Arg ''user_id'' ''str'' False False, Arg ''event'' ''str'' False False,
      Arg ''ref_id'' ''str'' False False] \<in> set contract_list"
  "EventContract ''apply_content_event''
     [RKEY_CONTENT_PUBLISHED, RKEY_CONTENT_UPDATED, RKEY_CONTENT_DELETED]
     [Arg ''item_id'' ''str'' False False, Arg ''action'' ''str'' False False] \<in> set contract_list"
  "EventContract ''apply_file_event'' [RKEY_FILE_CHANGED]
     [Arg ''file_id'' ''str'' False False] \<in> set contract_list"
  "EventContract ''notify_upload'' [RKEY_NOTIFY]
     [Arg ''upload_id'' ''str'' False False] \<in> set contract_list"
  by (simp_all add: contract_list_def)

lemma producer_events_clean:
  "RKEY_POINTS \<in> set keys \<Longrightarrow> permanent_failure_reason keys RKEY_POINTS
     (dict_set (jsonable_dict [(''fn'', JStr ''apply_point_event''),
        (''args'', JList [JUuid u, JStr ev, JStr ref])]) ''event_id'' (JStr e)) = None"
  "rk \<in> set keys \<Longrightarrow> rk \<in> {RKEY_CONTENT_PUBLISHED, RKEY_CONTENT_UPDATED, RKEY_CONTENT_DELETED} \<Longrightarrow>
     permanent_failure_reason keys rk
     (dict_set (jsonable_dict [(''fn'', JStr CONTENT_EVENT_FN),
        (''args'', JList [JUuid u, JStr ev])]) ''event_id'' (JStr e)) = None"
  "RKEY_FILE_CHANGED \<in> set keys \<Longrightarrow> permanent_failure_reason keys RKEY_FILE_CHANGED
     (dict_set (jsonable_dict [(''fn'', JStr ''apply_file_event''),
        (''args'', JList [JStr ev])]) ''event_id'' (JStr e)) = None"
  "RKEY_NOTIFY \<in> set keys \<Longrightarrow> permanent_failure_reason keys RKEY_NOTIFY
     (dict_set (jsonable_dict [(''fn'', JStr ''notify_upload''),
        (''args'', JList [JStr ev])]) ''event_id'' (JStr e)) = None"
  using clean_event[OF _ producer_contracts(1), of RKEY_POINTS keys "[JUuid u, JStr ev, JStr ref]" e]
    clean_event[OF _ producer_contracts(2), of rk keys "[JUuid u, JStr ev]" e]
    clean_event[OF _ producer_contracts(3), of RKEY_FILE_CHANGED keys "[JStr ev]" e]
    clean_event[OF _ producer_contracts(4), of RKEY_NOTIFY keys "[JStr ev]" e]
  by (simp_all add: conforms_def required_args_def maximum_args_def value_matches_def All_less_Suc
      CONTENT_EVENT_FN_def)


text \<open>Every transaction of the program that queues an event.\<close>

inductive queues :: "string list \<Rightarrow> core_db \<Rightarrow> core_db \<Rightarrow> bool" for keys where
  points: "enqueue_points_event u ev ref s = Inr s' \<Longrightarrow> queues keys s s'"
| content: "enqueue_content_event on i st act s = Inr (b, s') \<Longrightarrow> queues keys s s'"
| file_change: "enqueue_file_change on f s = Inr s' \<Longrightarrow> queues keys s s'"
| upload: "queues keys s (enqueue_upload up s)"
| replay: "replay_failure keys i rk p s = Inr (b, s') \<Longrightarrow> queues keys s s'"
| requeued: "requeue keys i rk p s = Inr (b, s') \<Longrightarrow> queues keys s s'"

lemma all_publishable_skip:
  assumes "enqueue_outbox rk p e r s = Inr (False, s')"
  shows "all_publishable keys s' = all_publishable keys s"
  using assms by (cases rule: enqueue_outbox_cases) (simp_all add: all_publishable_def)

lemma jsonable_dict_set: "jsonable_dict (dict_set p k (JStr e)) = dict_set (jsonable_dict p) k (JStr e)"
  by (induction p k "JStr e" rule: dict_set.induct) (auto simp: jsonable_dict_def)

lemma clean_any_event_id:
  assumes "permanent_failure_reason keys rk (dict_set p ''event_id'' (JStr e)) = None"
  shows "permanent_failure_reason keys rk (dict_set (jsonable_dict p) ''event_id'' (JStr e')) = None"
proof -
  have "encodable (JObj (dict_set p ''event_id'' (JStr e)))"
    using assms unfolding permanent_failure_iff by blast
  then have "dict_set (jsonable_dict p) ''event_id'' (JStr e) = dict_set p ''event_id'' (JStr e)"
    by (simp only: jsonable_dict_fixed flip: jsonable_dict_set)
  then have "dict_set (jsonable_dict p) ''event_id'' (JStr e')
      = dict_set (dict_set p ''event_id'' (JStr e)) ''event_id'' (JStr e')"
    by (metis dict_set_twice)
  then show ?thesis using dict_set_event_id_clean[OF assms] by simp
qed

lemma all_publishable_marked [simp]:
  "all_publishable keys (s\<lparr>event_failures := F\<rparr>) = all_publishable keys s"
  "all_publishable keys (s\<lparr>dlq_messages := D\<rparr>) = all_publishable keys s"
  by (simp_all add: all_publishable_def)

lemma all_publishable_replay:
  assumes "replay_failure keys i rk p s = Inr (b, s')" and "all_publishable keys s"
  shows "all_publishable keys s'"
  using assms(1)
proof (cases rule: replay_failure_cases)
  case (queued row rk' p' q s1)
  have "all_publishable keys s1"
    using queued(7) assms(2) by (rule all_publishable_enqueue) (rule clean_any_event_id[OF queued(6)])
  with queued(9) show ?thesis by simp
qed (use assms(2) in \<open>auto dest: all_publishable_skip[where keys = keys]\<close>)

lemma all_publishable_requeue:
  assumes "requeue keys i rk p s = Inr (b, s')" and "all_publishable keys s"
  shows "all_publishable keys s'"
  using assms(1)
proof (cases rule: requeue_cases)
  case (queued m rk' p' e q s1)
  have "all_publishable keys s1"
    using queued(5) assms(2)
    by (rule all_publishable_enqueue) (rule clean_any_event_id[OF dict_set_event_id_clean[OF queued(4)]])
  with queued(7) show ?thesis by simp
qed (use assms(2) in \<open>auto dest: all_publishable_skip[where keys = keys]\<close>)

lemma content_rkey:
  "map_of ACTION_RKEYS a = Some rk \<Longrightarrow> rk \<in> {RKEY_CONTENT_PUBLISHED, RKEY_CONTENT_UPDATED, RKEY_CONTENT_DELETED}"
  by (auto simp: ACTION_RKEYS_def split: if_splits)

lemma all_publishable_producers:
  assumes keys: "fst ` set (ROUTING_KEY_TOPICS tenant) \<subseteq> set keys" and ok: "all_publishable keys s"
  shows "enqueue_points_event u ev ref s = Inr s' \<Longrightarrow> all_publishable keys s'"
    and "enqueue_content_event on i st act s = Inr (b, s') \<Longrightarrow> all_publishable keys s'"
    and "enqueue_file_change on f s = Inr s' \<Longrightarrow> all_publishable keys s'"
    and "all_publishable keys (enqueue_upload up s)"
proof -
  have k: "RKEY_POINTS \<in> set keys" "RKEY_FILE_CHANGED \<in> set keys" "RKEY_NOTIFY \<in> set keys"
    "RKEY_CONTENT_PUBLISHED \<in> set keys" "RKEY_CONTENT_UPDATED \<in> set keys" "RKEY_CONTENT_DELETED \<in> set keys"
    using keys by (auto simp: ROUTING_KEY_TOPICS_def)
  show "all_publishable keys s'" if "enqueue_points_event u ev ref s = Inr s'"
  proof -
    from that obtain b where "enqueue_outbox RKEY_POINTS [(''fn'', JStr ''apply_point_event''),
        (''args'', JList [JUuid u, JStr ev, JStr ref])] None False s = Inr (b, s')"
      by (auto simp: enqueue_points_event_def bindR_Inr_iff)
    then show ?thesis by (rule all_publishable_enqueue) (rule ok producer_events_clean k)+
  qed
  show "all_publishable keys s'" if "enqueue_content_event on i st act s = Inr (b, s')"
  proof (cases "enqueue_content_event on i st act s = Inr (False, s)")
    case True
    with that ok show ?thesis by simp
  next
    case False
    with that obtain a rk where a: "map_of ACTION_RKEYS a = Some rk"
      and q: "enqueue_outbox rk [(''fn'', JStr CONTENT_EVENT_FN), (''args'', JList [JUuid i, JStr a])]
           None False s = Inr (b, s')"
      by (auto simp: enqueue_content_event_def Let_def split: if_splits option.splits)
    have "rk \<in> set keys" using content_rkey[OF a] k by auto
    then show ?thesis
      by (intro all_publishable_enqueue[OF q ok] producer_events_clean(2) content_rkey[OF a])
  qed
  show "all_publishable keys s'" if "enqueue_file_change on f s = Inr s'"
  proof (cases on)
    case True
    with that obtain b where "enqueue_outbox RKEY_FILE_CHANGED [(''fn'', JStr ''apply_file_event''),
        (''args'', JList [JStr (uuid_str f)])] None False s = Inr (b, s')"
      by (auto simp: enqueue_file_change_def bindR_Inr_iff)
    then show ?thesis by (rule all_publishable_enqueue) (rule ok producer_events_clean k)+
  next
    case False
    with that ok show ?thesis by (simp add: enqueue_file_change_def)
  qed
  show "all_publishable keys (enqueue_upload up s)"
  proof (cases "message_bus_enabled s \<and> (\<exists>b t. enqueue_outbox RKEY_NOTIFY
      [(''fn'', JStr ''notify_upload''), (''args'', JList [JStr up])] None False s = Inr (b, t))")
    case True
    then obtain b t where q: "enqueue_outbox RKEY_NOTIFY
        [(''fn'', JStr ''notify_upload''), (''args'', JList [JStr up])] None False s = Inr (b, t)" by blast
    then have "all_publishable keys t" by (rule all_publishable_enqueue) (rule ok producer_events_clean k)+
    with True q show ?thesis by (simp add: enqueue_upload_def)
  next
    case False
    with ok show ?thesis by (auto simp: enqueue_upload_def split: sum.splits prod.splits)
  qed
qed

section \<open>Properties\<close>

text \<open>No event the program queues is ever folded as a permanent failure.  If all rows of the
  outbox pass the relay's check before a transaction that queues an event (points, content, file or
  upload events, the replay of a failure, the requeueing of a dead letter with arbitrary corrections
  by an administrator), they all pass it afterwards.\<close>

theorem queued_events_are_publishable:
  assumes "fst ` set (ROUTING_KEY_TOPICS tenant) \<subseteq> set keys" and "all_publishable keys s"
    and "queues keys s s'"
  shows "all_publishable keys s'"
  using assms(3)
proof cases
  case upload
  then show ?thesis using all_publishable_producers(4)[OF assms(1,2)] by simp
qed (rule all_publishable_producers(1-3)[OF assms(1,2)] all_publishable_replay[OF _ assms(2)]
    all_publishable_requeue[OF _ assms(2)], assumption)+

definition db0 :: core_db where
  "db0 = \<lparr>now = 0, message_bus_enabled = True, pks = of_nat, pk_ix = 0,
     hexes = (\<lambda>n. ''h'' @ hex_fixed 31 n), hex_ix = 0, event_keys = {}, outbox_events = [],
     outbox_archive = [], event_failures = [], dlq_messages = [], cache_fx = []\<rparr>"

lemma queued_events_are_publishable_witness:
  "all_publishable (map fst (ROUTING_KEY_TOPICS ''lkm'')) (enqueue_upload ''7'' db0)"
  by (rule queued_events_are_publishable[where tenant = "''lkm''", OF _ _ queues.upload])
     (simp_all add: all_publishable_def db0_def)

text \<open>Queueing under an explicit event identifier is idempotent.  Once an event has been queued
  under a non-empty identifier, every later attempt in any state that keeps the ledger of keys queues
  nothing and leaves the tables as they are, whatever routing key and payload it carries.\<close>

theorem enqueue_idempotent:
  assumes "enqueue_outbox rk p (Some e) False s = Inr (True, s1)" and "e \<noteq> []"
    and "event_keys s1 \<subseteq> event_keys t" and "message_bus_enabled t"
  shows "enqueue_outbox rk' p' (Some e) False t = Inr (False, t)"
proof -
  from assms(1) have "e \<in> event_keys s1"
    by (cases rule: enqueue_outbox_cases) (use assms(2) in auto)
  with assms show ?thesis
    by (auto simp: enqueue_outbox_def Let_def insert_absorb subset_iff)
qed

lemma enqueue_idempotent_witness:
  "\<exists>s1. enqueue_outbox RKEY_NOTIFY [] (Some ''e1'') False db0 = Inr (True, s1)
     \<and> enqueue_outbox RKEY_POINTS [] (Some ''e1'') False s1 = Inr (False, s1)"
proof -
  obtain s1 where s1: "enqueue_outbox RKEY_NOTIFY [] (Some ''e1'') False db0 = Inr (True, s1)"
      "message_bus_enabled s1"
    by (simp add: enqueue_outbox_def db0_def legacy_event_exists_def add_outbox_def fresh_pk_def
        insert_outbox_def Let_def)
  from enqueue_idempotent[OF s1(1) _ subset_refl s1(2)] s1 show ?thesis by auto
qed

text \<open>A successful replay of a failed publication leaves exactly one pending row for its event,
  marks the failure as replayed now and changes nothing else in the archive of failures, and the
  failure cannot be replayed a second time.\<close>

theorem replay_is_single:
  assumes "outbox_ok s" and "replay_failure keys i rk p s = Inr (True, s')"
  shows "\<exists>row. find (\<lambda>r. ef_id r = i) (event_failures s) = Some row \<and> ef_replayed_at row = None
      \<and> event_failures s' = update_first (\<lambda>r. ef_id r = i)
          (\<lambda>r. r\<lparr>ef_replayed_at := Some (now s)\<rparr>) (event_failures s)
      \<and> (ef_event_id row \<noteq> [] \<longrightarrow>
           length (filter (\<lambda>m. om_event_id m = ef_event_id row) (pending_rows (outbox_events s'))) = 1)
      \<and> replay_failure keys i rk2 p2 s' = Inr (False, s')"
  using assms(2)
proof (cases rule: replay_failure_cases)
  case (queued row rk' p' q s1)
  have ok: "outbox_ok s1" using outbox_ok_enqueue[OF queued(7) assms(1)] .
  have F: "event_failures s1 = event_failures s" "now s1 = now s"
    using queued(7) by (cases rule: enqueue_outbox_cases; simp add: same_queue_def)+
  have pend: "ef_event_id row \<noteq> [] \<Longrightarrow> pending_event (ef_event_id row) s1"
    using queued(7,8) by (cases rule: enqueue_outbox_cases) (auto simp: pending_event_iff)
  have one: "length (filter (\<lambda>m. om_event_id m = ef_event_id row) (pending_rows (outbox_events s1))) = 1"
    if "ef_event_id row \<noteq> []"
  proof -
    have d: "distinct (map om_event_id (pending_rows (outbox_events s1)))"
      using ok by (simp add: outbox_ok_def)
    have "length (filter (\<lambda>m. om_event_id m = e) xs) = 1"
      if "distinct (map om_event_id xs)" "e \<in> om_event_id ` set xs" for xs and e :: string
      using that by (induction xs) (auto simp: filter_empty_conv image_iff)
    with d pend[OF that] show ?thesis by (simp add: pending_event_rows)
  qed
  have "find (\<lambda>r. ef_id r = i) (event_failures s')
      = Some (row\<lparr>ef_replayed_at := Some (now s)\<rparr>)"
    using queued(2,9) F by (simp add: find_update_first)
  then have "replay_failure keys i rk2 p2 s' = Inr (False, s')"
    by (simp add: replay_failure_def)
  with queued(2,3,9) F one show ?thesis by simp
qed auto

lemma replay_is_single_witness:
  "\<exists>(s :: core_db) s' row. find (\<lambda>r. ef_id r = 5) (event_failures s) = Some row
      \<and> replay_failure [RKEY_NOTIFY] 5 None None s = Inr (True, s')
      \<and> replay_failure [RKEY_NOTIFY] 5 None None s' = Inr (False, s')"
proof -
  let ?f = "\<lparr>ef_id = 5, ef_event_id = ''e1'', ef_routing_key = RKEY_NOTIFY,
     ef_payload = [(''fn'', JStr ''notify_upload''), (''args'', JList [JStr ''7''])],
     ef_attempt_count = 5, ef_reason = Max_tries_reached, ef_folded_at = 0, ef_replayed_at = None\<rparr>"
  let ?s = "db0\<lparr>event_failures := [?f], event_keys := {''e1''}\<rparr>"
  have ok: "outbox_ok ?s"
    by (simp add: outbox_ok_def legacy_apart_def event_ids_def db0_def pending_rows_def)
  have clean: "permanent_failure_reason [RKEY_NOTIFY] RKEY_NOTIFY
      [(''fn'', JStr ''notify_upload''), (''args'', JList [JStr ''7'']), (''event_id'', JStr ''e1'')] = None"
    using producer_events_clean(4)[of "[RKEY_NOTIFY]" "''7''" "''e1''"] by (simp add: jsonable_dict_def)
  then obtain s' where s': "replay_failure [RKEY_NOTIFY] 5 None None ?s = Inr (True, s')"
    by (simp add: replay_failure_def enqueue_outbox_def db0_def pending_event_def add_outbox_def
        fresh_pk_def insert_outbox_def Let_def)
  have "replay_failure [RKEY_NOTIFY] 5 None None s' = Inr (False, s')"
    using replay_is_single[OF ok s'] by blast
  with s' show ?thesis by (intro exI[of _ ?s] exI[of _ s'] exI[of _ ?f]) simp
qed

end
