(* ===== verification/Outbox_Relay.thy ===== *)
theory Outbox_Relay
  imports Outbox_Store
begin

text \<open>
  The relay (\<open>core/outbox_relay.py\<close>): it claims due rows one by one with a fencing token,
  publishes them and settles the claim; several relays may run at once and any of them may stop at
  any point.  The leader lease decides who polls.  Each function below is one transaction of the
  code; the step relation interleaves them with the rest of the system.
\<close>

section \<open>Claiming\<close>

text \<open>Settings in microseconds: \<open>outbox_lock_ttl_s\<close> and \<open>pulsar_operation_timeout_s\<close>.\<close>

record relay_cfg =
  lock_ttl :: int
  operation_timeout :: int

definition stale_window :: "relay_cfg \<Rightarrow> int" where
  "stale_window c = max (lock_ttl c) (operation_timeout c + seconds 10)"

definition publish_timeout :: "relay_cfg \<Rightarrow> int" where
  "publish_timeout c = min (operation_timeout c + seconds 5) (max 100000 (lock_ttl c div 2))"

definition claimable :: "relay_cfg \<Rightarrow> instant \<Rightarrow> outbox_message \<Rightarrow> bool" where
  "claimable c t m \<longleftrightarrow>
     om_status m = OUTBOX_PENDING \<and> om_next_retry_at m \<le> t
     \<and> (case om_locked_at m of None \<Rightarrow> True | Some l \<Rightarrow> l < t - stale_window c)"

text \<open>\<open>ORDER BY attempt_count, id LIMIT 1\<close>.\<close>

definition claims_before :: "outbox_message \<Rightarrow> outbox_message \<Rightarrow> bool" where
  "claims_before a b \<longleftrightarrow>
     om_attempt_count a < om_attempt_count b
     \<or> om_attempt_count a = om_attempt_count b \<and> om_id a \<le> om_id b"

fun pick_first :: "outbox_message list \<Rightarrow> outbox_message option" where
  "pick_first [] = None"
| "pick_first (m # ms) =
     (case pick_first ms of
        None \<Rightarrow> Some m
      | Some n \<Rightarrow> if claims_before m n then Some m else Some n)"

text \<open>Rows are addressed by their primary key \<open>(id, created_at)\<close>.\<close>

definition same_row :: "outbox_message \<Rightarrow> outbox_message \<Rightarrow> bool" where
  "same_row m m' \<longleftrightarrow> om_id m' = om_id m \<and> om_created_at m' = om_created_at m"

definition find_row :: "outbox_message \<Rightarrow> 's core_db_scheme \<Rightarrow> outbox_message option" where
  "find_row m s = find (same_row m) (outbox_events s)"

definition set_row ::
    "outbox_message \<Rightarrow> (outbox_message \<Rightarrow> outbox_message) \<Rightarrow> 's core_db_scheme \<Rightarrow> 's core_db_scheme" where
  "set_row m f s = s\<lparr>outbox_events := update_first (same_row m) f (outbox_events s)\<rparr>"

definition delete_row :: "outbox_message \<Rightarrow> 's core_db_scheme \<Rightarrow> 's core_db_scheme" where
  "delete_row m s = s\<lparr>outbox_events := filter (\<lambda>x. \<not> same_row m x) (outbox_events s)\<rparr>"

definition clear_lock :: "outbox_message \<Rightarrow> outbox_message" where
  "clear_lock m = m\<lparr>om_locked_at := None, om_locked_by := None\<rparr>"

definition relay_claim ::
    "relay_cfg \<Rightarrow> string \<Rightarrow> 's core_db_scheme \<Rightarrow> (outbox_message \<times> 's core_db_scheme) option" where
  "relay_claim c claim_id s =
     (case pick_first (filter (claimable c (now s)) (outbox_events s)) of
        None \<Rightarrow> None
      | Some m \<Rightarrow>
          let m' = m\<lparr>om_locked_at := Some (now s), om_locked_by := Some claim_id\<rparr>
          in Some (m', set_row m (\<lambda>_. m') s))"

text \<open>The leadership was lost after the claim: it is given back if it is still ours.\<close>

definition relay_release :: "outbox_message \<Rightarrow> string \<Rightarrow> 's core_db_scheme \<Rightarrow> 's core_db_scheme" where
  "relay_release m claim_id s =
     (case find_row m s of
        None \<Rightarrow> s
      | Some owned \<Rightarrow> if om_locked_by owned = Some claim_id then set_row m clear_lock s else s)"

section \<open>Settling\<close>

definition fold_failure ::
    "outbox_message \<Rightarrow> fold_reason \<Rightarrow> 's core_db_scheme \<Rightarrow> 's core_db_scheme" where
  "fold_failure m reason s =
     (let (i, s) = fresh_pk s;
          f = \<lparr>ef_id = i, ef_event_id = om_event_id m, ef_routing_key = om_routing_key m,
               ef_payload = om_payload m, ef_attempt_count = om_attempt_count m, ef_reason = reason,
               ef_folded_at = now s, ef_replayed_at = None\<rparr>
      in delete_row m (s\<lparr>event_failures := event_failures s @ [f]\<rparr>))"

text \<open>
  \<open>reason\<close> and \<open>ok\<close> are what the attempt of the claimed snapshot gave.  The value says whether the
  row counts as published in this round.
\<close>

definition relay_settle ::
    "outbox_message \<Rightarrow> string \<Rightarrow> failure_reason option \<Rightarrow> bool \<Rightarrow> 's core_db_scheme
      \<Rightarrow> bool \<times> 's core_db_scheme" where
  "relay_settle m claim_id reason ok s =
     (case find_row m s of
        None \<Rightarrow> (False, s)
      | Some current \<Rightarrow>
          if om_locked_by current \<noteq> Some claim_id then (False, s)
          else
            (case reason of
               Some r \<Rightarrow> (False, fold_failure current (Permanent r) s)
             | None \<Rightarrow>
                 if ok then
                   (True, set_row m (\<lambda>x. (clear_lock x)\<lparr>om_status := OUTBOX_PUBLISHED,
                                                     om_published_at := Some (now s)\<rparr>) s)
                 else
                   let n = om_attempt_count current + 1;
                       current = (clear_lock current)\<lparr>om_attempt_count := n\<rparr>
                   in if MAX_TRIES \<le> n then (False, fold_failure current Max_tries_reached s)
                      else (False, set_row m (\<lambda>_. current\<lparr>om_next_retry_at :=
                              now s + seconds (min (2 ^ nat n) BACKOFF_CAP_S)\<rparr>) s)))"

section \<open>One round\<close>

text \<open>
  What the environment answers in the \<open>k\<close>-th iteration: whether this process may still publish
  before the claim and after it, the hexadecimal part of the claim's token, what other processes and
  the clock do to the database before the claim is published and before it is settled, and whether
  the broker confirmed the publication in time.
\<close>

record 's relay_env =
  may_claim :: "nat \<Rightarrow> bool"
  may_publish :: "nat \<Rightarrow> bool"
  claim_token :: "nat \<Rightarrow> string"
  others_claimed :: "nat \<Rightarrow> 's \<Rightarrow> 's"
  others_published :: "nat \<Rightarrow> 's \<Rightarrow> 's"
  publish_ok :: "nat \<Rightarrow> string \<Rightarrow> payload \<Rightarrow> bool"

definition last_chars :: "nat \<Rightarrow> string \<Rightarrow> string" where
  "last_chars n w = drop (length w - n) w"

fun relay_rounds ::
    "relay_cfg \<Rightarrow> string list \<Rightarrow> string \<Rightarrow> 's core_db_scheme relay_env \<Rightarrow> nat \<Rightarrow> nat \<Rightarrow> nat
      \<Rightarrow> 's core_db_scheme \<Rightarrow> nat \<times> 's core_db_scheme" where
  "relay_rounds c keys instance_id env k 0 succeeded s = (succeeded, s)"
| "relay_rounds c keys instance_id env k (Suc n) succeeded s =
     (if \<not> may_claim env k then (succeeded, s)
      else
        let claim_id = last_chars 64 (instance_id @ '':'' @ claim_token env k)
        in (case relay_claim c claim_id s of
              None \<Rightarrow> (succeeded, s)
            | Some (m, s) \<Rightarrow>
                let s = others_claimed env k s
                in if \<not> may_publish env k then (succeeded, relay_release m claim_id s)
                else
                  let payload = dict_set (om_payload m) ''event_id'' (JStr (om_event_id m));
                      reason = permanent_failure_reason keys (om_routing_key m) payload;
                      ok = (reason = None \<and> publish_ok env k (om_routing_key m) payload);
                      s = others_published env k s;
                      (done, s) = relay_settle m claim_id reason ok s
                  in relay_rounds c keys instance_id env (Suc k) n
                       (if done then Suc succeeded else succeeded) s))"

definition relay_poll ::
    "relay_cfg \<Rightarrow> string list \<Rightarrow> string \<Rightarrow> 's core_db_scheme relay_env \<Rightarrow> nat
      \<Rightarrow> 's core_db_scheme \<Rightarrow> nat \<times> 's core_db_scheme" where
  "relay_poll c keys instance_id env batch s = relay_rounds c keys instance_id env 0 batch 0 s"

section \<open>Archiving\<close>

definition archive_due :: "instant \<Rightarrow> outbox_message \<Rightarrow> bool" where
  "archive_due cutoff m \<longleftrightarrow>
     om_status m = OUTBOX_PUBLISHED \<and> (case om_published_at m of None \<Rightarrow> False | Some t \<Rightarrow> t < cutoff)"

definition archived_copy :: "instant \<Rightarrow> outbox_message \<Rightarrow> outbox_archived" where
  "archived_copy t m =
     \<lparr>oa_event_id = om_event_id m, oa_routing_key = om_routing_key m, oa_payload = om_payload m,
      oa_attempt_count = om_attempt_count m, oa_created_at = om_created_at m,
      oa_published_at = om_published_at m, oa_archived_at = t\<rparr>"

definition archive_published :: "int \<Rightarrow> nat \<Rightarrow> 's core_db_scheme \<Rightarrow> nat \<times> 's core_db_scheme" where
  "archive_published retention limit s =
     (let rows = take limit (sort_key om_id
                   (filter (archive_due (now s - retention)) (outbox_events s)))
      in if rows = [] then (0, s)
         else
           let s = s\<lparr>outbox_archive := outbox_archive s @ map (archived_copy (now s)) rows\<rparr>;
               s = fold delete_row rows s
           in (length rows, s))"

section \<open>Rows and keys\<close>

abbreviation row_key :: "outbox_message \<Rightarrow> uuid \<times> instant" where
  "row_key m \<equiv> (om_id m, om_created_at m)"

lemma same_row_key: "same_row m x \<longleftrightarrow> row_key x = row_key m"
  by (auto simp: same_row_def)

lemma update_first_map:
  "distinct (map row_key xs) \<Longrightarrow>
     update_first (same_row m) f xs = map (\<lambda>x. if row_key x = row_key m then f x else x) xs"
proof (induction xs)
  case (Cons x xs)
  have "row_key x \<notin> row_key ` set xs" using Cons.prems by simp
  then have "map (\<lambda>y. if row_key y = row_key x then f y else y) xs = xs"
    by (intro map_idI) (auto simp: image_iff)
  with Cons show ?case by (auto simp: same_row_key)
qed simp

lemma find_row_Some:
  "find_row m s = Some x \<Longrightarrow> x \<in> set (outbox_events s) \<and> row_key x = row_key m"
  by (auto simp: find_row_def same_row_key find_Some_iff)

lemma key_eq_row:
  "distinct (map row_key xs) \<Longrightarrow> x \<in> set xs \<Longrightarrow> y \<in> set xs \<Longrightarrow> row_key x = row_key y \<Longrightarrow> x = y"
  by (meson distinct_map inj_onD)

lemma find_row_in:
  assumes "distinct (map row_key (outbox_events s))" and "m \<in> set (outbox_events s)"
  shows "find_row m s = Some m"
proof -
  from assms(2) have "find_row m s \<noteq> None"
    by (auto simp: find_row_def find_None_iff same_row_def)
  then obtain x where x: "find_row m s = Some x" by blast
  with find_row_Some[OF x] key_eq_row[OF assms(1)] assms(2) show ?thesis by metis
qed

lemma outbox_ok_keys: "outbox_ok s \<Longrightarrow> distinct (map row_key (outbox_events s))"
  by (simp add: outbox_ok_def)

lemma pick_first_in: "pick_first xs = Some m \<Longrightarrow> m \<in> set xs"
  by (induction xs arbitrary: m) (auto split: option.splits if_splits)

lemma pick_first_None [simp]: "pick_first xs = None \<longleftrightarrow> xs = []"
  by (cases xs) (auto split: option.splits)

lemma claims_before_trans: "claims_before a b \<Longrightarrow> claims_before b c \<Longrightarrow> claims_before a c"
  by (auto simp: claims_before_def)

lemma claims_before_total: "\<not> claims_before a b \<Longrightarrow> claims_before b a"
  by (auto simp: claims_before_def)

lemma pick_first_least: "pick_first xs = Some m \<Longrightarrow> x \<in> set xs \<Longrightarrow> claims_before m x"
proof (induction xs arbitrary: m x)
  case (Cons y ys)
  show ?case
  proof (cases "pick_first ys")
    case None
    with Cons.prems show ?thesis by (auto simp: claims_before_def)
  next
    case (Some n)
    with Cons.prems Cons.IH[OF Some] show ?thesis
      by (auto simp: claims_before_def[of m m] split: if_splits
          intro: claims_before_trans claims_before_total)
  qed
qed simp

lemma relay_claim_Some:
  assumes "relay_claim c t s = Some (m, s')" and "outbox_ok s"
  obtains r where "r \<in> set (outbox_events s)" "claimable c (now s) r"
    "m = r\<lparr>om_locked_at := Some (now s), om_locked_by := Some t\<rparr>"
    "\<And>x. x \<in> set (outbox_events s) \<Longrightarrow> claimable c (now s) x \<Longrightarrow> claims_before r x"
    "s' = s\<lparr>outbox_events := map (\<lambda>x. if row_key x = row_key r then m else x) (outbox_events s)\<rparr>"
proof -
  from assms(1) obtain r where r: "pick_first (filter (claimable c (now s)) (outbox_events s)) = Some r"
    "m = r\<lparr>om_locked_at := Some (now s), om_locked_by := Some t\<rparr>" "s' = set_row m (\<lambda>_. m) s"
    by (auto simp: relay_claim_def Let_def set_row_def same_row_def[abs_def] split: option.splits)
  show ?thesis
  proof (rule that[of r])
    show "s' = s\<lparr>outbox_events := map (\<lambda>x. if row_key x = row_key r then m else x) (outbox_events s)\<rparr>"
      using r(2,3) outbox_ok_keys[OF assms(2)] by (simp add: set_row_def update_first_map)
  qed (use pick_first_in[OF r(1)] pick_first_least[OF r(1)] r(2) in auto)
qed

section \<open>The outbox stays well formed\<close>

text \<open>Rows may be replaced by rows with the same keys that are well formed and no newly pending.\<close>

lemma legacy_apart_subset:
  assumes "legacy_apart s" and "event_ids s' \<subseteq> event_ids s" and "hexes s' = hexes s"
    and "hex_ix s' = hex_ix s" and "event_keys s' = event_keys s"
  shows "legacy_apart s'"
  using assms by (auto simp: legacy_apart_def subset_iff)

lemma pending_map:
  assumes "\<And>x. om_event_id (f x) = om_event_id x"
    and "\<And>x. om_status (f x) = OUTBOX_PENDING \<Longrightarrow> om_status x = OUTBOX_PENDING"
    and "distinct (map om_event_id (pending_rows xs))"
  shows "distinct (map om_event_id (pending_rows (map f xs)))"
proof -
  have sub: "om_event_id ` set (pending_rows (map f ys)) \<subseteq> om_event_id ` set (pending_rows ys)" for ys
    using assms(1,2) by (induction ys) (auto simp: pending_rows_def)
  show ?thesis using assms(3)
  proof (induction xs)
    case (Cons x xs)
    have "om_event_id x \<notin> om_event_id ` set (pending_rows (map f xs))"
      if "om_status (f x) = OUTBOX_PENDING"
      using Cons.prems assms(2)[OF that] sub[of xs] by (auto simp: pending_rows_def)
    with Cons assms(1) show ?case by (auto simp: pending_rows_def split: if_splits)
  qed (simp add: pending_rows_def)
qed

lemma pending_filter:
  "distinct (map om_event_id (pending_rows xs)) \<Longrightarrow> distinct (map om_event_id (pending_rows (filter P xs)))"
proof -
  have "pending_rows (filter P xs) = filter P (pending_rows xs)"
    by (simp add: pending_rows_def conj_commute)
  then show "distinct (map om_event_id (pending_rows xs)) \<Longrightarrow>
      distinct (map om_event_id (pending_rows (filter P xs)))"
    by (simp add: distinct_map_filter)
qed

lemma outbox_ok_map:
  assumes "outbox_ok s"
    and "\<And>x. om_event_id (f x) = om_event_id x" and "\<And>x. row_key (f x) = row_key x"
    and "\<And>x. om_status (f x) = OUTBOX_PENDING \<Longrightarrow> om_status x = OUTBOX_PENDING"
    and "\<And>x. x \<in> set (outbox_events s) \<Longrightarrow> row_ok (f x)"
  shows "outbox_ok (s\<lparr>outbox_events := map f (outbox_events s)\<rparr>)"
proof -
  have "map row_key (map f (outbox_events s)) = map row_key (outbox_events s)" using assms(3) by simp
  moreover have "legacy_apart (s\<lparr>outbox_events := map f (outbox_events s)\<rparr>)"
    by (rule legacy_apart_subset[of s]) (use assms(1,2) in \<open>auto simp: outbox_ok_def event_ids_def\<close>)
  ultimately show ?thesis
    using assms(1,5) pending_map[of f, OF assms(2,4)]
    by (auto simp: outbox_ok_def simp del: map_map)
qed

text \<open>Deleting rows while their events go to one of the two archives.\<close>

lemma outbox_ok_delete:
  assumes "outbox_ok s"
    and "om_event_id ` set (outbox_events s) \<inter> X \<subseteq> event_ids s"
    and "outbox_events s' = filter P (outbox_events s)" and "event_ids s' \<subseteq> event_ids s"
    and "hexes s' = hexes s" "hex_ix s' = hex_ix s" "event_keys s' = event_keys s"
  shows "outbox_ok s'"
  using assms legacy_apart_subset[OF _ assms(4-7)]
  by (auto simp: outbox_ok_def pending_filter distinct_map_filter)

lemma row_ok_update [simp]:
  "row_ok (m\<lparr>om_locked_at := l, om_locked_by := b\<rparr>) = row_ok m"
  "row_ok (clear_lock m) = row_ok m"
  by (simp_all add: row_ok_def clear_lock_def)

lemma clear_lock_simps [simp]:
  "om_id (clear_lock m) = om_id m" "om_created_at (clear_lock m) = om_created_at m"
  "om_event_id (clear_lock m) = om_event_id m" "om_status (clear_lock m) = om_status m"
  "om_routing_key (clear_lock m) = om_routing_key m" "om_payload (clear_lock m) = om_payload m"
  "om_attempt_count (clear_lock m) = om_attempt_count m"
  "om_published_at (clear_lock m) = om_published_at m" "om_locked_by (clear_lock m) = None"
  "om_locked_at (clear_lock m) = None"
  by (simp_all add: clear_lock_def)

lemma outbox_ok_claim:
  assumes "relay_claim c t s = Some (m, s')" and "outbox_ok s"
  shows "outbox_ok s'"
  using assms
proof (rule relay_claim_Some)
  fix r assume r: "r \<in> set (outbox_events s)" "m = r\<lparr>om_locked_at := Some (now s), om_locked_by := Some t\<rparr>"
    "s' = s\<lparr>outbox_events := map (\<lambda>x. if row_key x = row_key r then m else x) (outbox_events s)\<rparr>"
  let ?f = "\<lambda>x. if row_key x = row_key r then x\<lparr>om_locked_at := Some (now s), om_locked_by := Some t\<rparr> else x"
  have "map (\<lambda>x. if row_key x = row_key r then m else x) (outbox_events s) = map ?f (outbox_events s)"
    using key_eq_row[OF outbox_ok_keys[OF assms(2)]] r(1,2) by auto
  moreover have "outbox_ok (s\<lparr>outbox_events := map ?f (outbox_events s)\<rparr>)"
    using assms(2) by (rule outbox_ok_map) (use assms(2) in \<open>auto simp: outbox_ok_def split: if_splits\<close>)
  ultimately show "outbox_ok s'" unfolding r(3) by (simp only:)
qed

lemma outbox_ok_release: "outbox_ok s \<Longrightarrow> outbox_ok (relay_release m t s)"
  by (auto simp: relay_release_def set_row_def update_first_map[OF outbox_ok_keys]
      split: option.splits intro!: outbox_ok_map) (auto simp: outbox_ok_def split: if_splits)

text \<open>What settling does: nothing, or one of four changes of the row that still carries the claim.\<close>

lemma relay_settle_cases:
  assumes "outbox_ok s" and "relay_settle m t reason ok s = (b, s')"
  obtains
    (lost) "\<not> b" "s' = s" "\<And>x. x \<in> set (outbox_events s) \<Longrightarrow> row_key x = row_key m \<Longrightarrow> om_locked_by x \<noteq> Some t"
  | (folded) x r n where "\<not> b" "x \<in> set (outbox_events s)" "row_key x = row_key m" "om_locked_by x = Some t"
      "s' = fold_failure (x\<lparr>om_attempt_count := n\<rparr>) r s"
      "(\<exists>e. r = Permanent e \<and> reason = Some e \<and> n = om_attempt_count x)
        \<or> r = Max_tries_reached \<and> reason = None \<and> \<not> ok \<and> n = om_attempt_count x + 1 \<and> n = MAX_TRIES"
  | (published) x where "b" "reason = None" "ok" "x \<in> set (outbox_events s)" "row_key x = row_key m"
      "om_locked_by x = Some t"
      "s' = s\<lparr>outbox_events := map (\<lambda>y. if row_key y = row_key m
               then (clear_lock y)\<lparr>om_status := OUTBOX_PUBLISHED, om_published_at := Some (now s)\<rparr> else y)
               (outbox_events s)\<rparr>"
  | (retried) x n where "\<not> b" "reason = None" "\<not> ok" "x \<in> set (outbox_events s)" "row_key x = row_key m"
      "om_locked_by x = Some t" "n = om_attempt_count x + 1" "n < MAX_TRIES"
      "s' = s\<lparr>outbox_events := map (\<lambda>y. if row_key y = row_key m
               then (clear_lock y)\<lparr>om_attempt_count := n,
                      om_next_retry_at := now s + seconds (min (2 ^ nat n) BACKOFF_CAP_S)\<rparr> else y)
               (outbox_events s)\<rparr>"
proof (cases "find_row m s")
  case None
  then have "\<And>x. x \<in> set (outbox_events s) \<Longrightarrow> row_key x \<noteq> row_key m"
    by (auto simp: find_row_def find_None_iff same_row_key)
  with None assms show ?thesis by (intro lost) (auto simp: relay_settle_def)
next
  case (Some x)
  note K = outbox_ok_keys[OF assms(1)]
  have x: "x \<in> set (outbox_events s)" "row_key x = row_key m" using find_row_Some[OF Some] by auto
  have upd: "map (\<lambda>y. if row_key y = row_key m then f x else y) (outbox_events s)
      = map (\<lambda>y. if row_key y = row_key m then f y else y) (outbox_events s)" for f
    using key_eq_row[OF K _ x(1)] x(2) by auto
  show ?thesis
  proof (cases "om_locked_by x = Some t")
    case False
    have "om_locked_by y \<noteq> Some t" if "y \<in> set (outbox_events s)" "row_key y = row_key m" for y
      using key_eq_row[OF K that(1) x(1)] that(2) x(2) False by auto
    with False Some assms show ?thesis by (intro lost) (auto simp: relay_settle_def)
  next
    case True
    have fold: "fold_failure (clear_lock x\<lparr>om_attempt_count := n\<rparr>) r s
        = fold_failure (x\<lparr>om_attempt_count := n\<rparr>) r s" for n r
      by (simp add: fold_failure_def delete_row_def same_row_def[abs_def] Let_def fresh_pk_def)
    have att: "om_attempt_count x < MAX_TRIES"
      using assms(1) x(1) by (auto simp: outbox_ok_def row_ok_def)
    show ?thesis
    proof (cases reason)
      case (Some e)
      have "x = x\<lparr>om_attempt_count := om_attempt_count x\<rparr>" by simp
      with Some True x assms(2) \<open>find_row m s = Some x\<close> show ?thesis
        by (intro folded[of x "om_attempt_count x" "Permanent e"]) (auto simp: relay_settle_def)
    next
      case None
      show ?thesis
      proof (cases "ok")
        case ok: True
        with True None x assms(2) Some show ?thesis
          by (intro published[of x]) (auto simp: relay_settle_def set_row_def update_first_map[OF K])
      next
        case notok: False
        show ?thesis
        proof (cases "MAX_TRIES \<le> om_attempt_count x + 1")
          case True
          with notok \<open>om_locked_by x = Some t\<close> None x assms(2) Some att show ?thesis
            by (intro folded[of x "om_attempt_count x + 1" Max_tries_reached])
               (auto simp: relay_settle_def Let_def fold)
        next
          case False
          let ?n = "om_attempt_count x + 1"
          let ?f = "\<lambda>y. (clear_lock y)\<lparr>om_attempt_count := ?n,
             om_next_retry_at := now s + seconds (min (2 ^ nat ?n) BACKOFF_CAP_S)\<rparr>"
          have "s' = s\<lparr>outbox_events := map (\<lambda>y. if row_key y = row_key m then ?f x else y) (outbox_events s)\<rparr>"
            using False notok \<open>om_locked_by x = Some t\<close> None assms(2) Some
            by (simp add: relay_settle_def Let_def set_row_def update_first_map[OF K])
          with upd[of ?f] have "s' = s\<lparr>outbox_events := map (\<lambda>y. if row_key y = row_key m then ?f y else y) (outbox_events s)\<rparr>"
            by (simp only:)
          moreover have "\<not> b"
            using False notok \<open>om_locked_by x = Some t\<close> None assms(2) Some
            by (auto simp: relay_settle_def Let_def)
          ultimately show ?thesis
            using False notok \<open>om_locked_by x = Some t\<close> None x
            by (intro retried[of x ?n]) (assumption | simp)+
        qed
      qed
    qed
  qed
qed

lemma fold_failure_simps:
  "outbox_events (fold_failure x r s) = filter (\<lambda>y. row_key y \<noteq> row_key x) (outbox_events s)"
  "event_failures (fold_failure x r s) = event_failures s @
     [\<lparr>ef_id = pks s (pk_ix s), ef_event_id = om_event_id x, ef_routing_key = om_routing_key x,
       ef_payload = om_payload x, ef_attempt_count = om_attempt_count x, ef_reason = r,
       ef_folded_at = now s, ef_replayed_at = None\<rparr>]"
  "outbox_archive (fold_failure x r s) = outbox_archive s"
  "hexes (fold_failure x r s) = hexes s" "hex_ix (fold_failure x r s) = hex_ix s"
  "event_keys (fold_failure x r s) = event_keys s" "now (fold_failure x r s) = now s"
  by (simp_all add: fold_failure_def delete_row_def fresh_pk_def Let_def same_row_key)

lemma event_ids_fold_failure:
  assumes "outbox_ok s" and "x \<in> set (outbox_events s)"
  shows "event_ids (fold_failure (x\<lparr>om_attempt_count := n\<rparr>) r s) = event_ids s"
proof -
  have "y = x" if "y \<in> set (outbox_events s)" "row_key y = row_key x" for y
    using key_eq_row[OF outbox_ok_keys[OF assms(1)] that(1) assms(2) that(2)] .
  with assms(2) show ?thesis by (auto simp: event_ids_def fold_failure_simps)
qed

lemma outbox_ok_settle:
  assumes "outbox_ok s" and "relay_settle m t reason ok s = (b, s')"
  shows "outbox_ok s'"
  using assms
proof (cases rule: relay_settle_cases)
  case (folded x r n)
  show ?thesis unfolding folded(5)
    by (rule outbox_ok_delete[OF assms(1), where X = "{}"])
       (use event_ids_fold_failure[OF assms(1) folded(2)] in \<open>simp_all add: fold_failure_simps\<close>)
next
  case (published x)
  show ?thesis unfolding published(7)
    by (rule outbox_ok_map[OF assms(1)])
       (use assms(1) in \<open>auto simp: outbox_ok_def row_ok_def split: if_splits\<close>)
next
  case (retried x n)
  have st: "om_status x = OUTBOX_PENDING \<or> om_status x = OUTBOX_PUBLISHED" "0 \<le> om_attempt_count x"
    using assms(1) retried(4) by (auto simp: outbox_ok_def row_ok_def)
  show ?thesis unfolding retried(9)
    by (rule outbox_ok_map[OF assms(1)])
       (use assms(1) st retried(7,8) in \<open>auto simp: outbox_ok_def row_ok_def split: if_splits\<close>)
qed (use assms(1) in simp)

lemma fold_delete_rows:
  "outbox_events (fold delete_row rows s) = filter (\<lambda>x. row_key x \<notin> row_key ` set rows) (outbox_events s)"
  "outbox_archive (fold delete_row rows s) = outbox_archive s"
  "event_failures (fold delete_row rows s) = event_failures s"
  "hexes (fold delete_row rows s) = hexes s" "hex_ix (fold delete_row rows s) = hex_ix s"
  "event_keys (fold delete_row rows s) = event_keys s" "now (fold delete_row rows s) = now s"
  by (induction rows arbitrary: s)
     (auto simp: delete_row_def same_row_key intro!: filter_cong)

definition archive_rows :: "int \<Rightarrow> nat \<Rightarrow> 's core_db_scheme \<Rightarrow> outbox_message list" where
  "archive_rows retention limit s = take limit (sort_key om_id
     (filter (archive_due (now s - retention)) (outbox_events s)))"

lemma archive_rows_in:
  "x \<in> set (archive_rows ret lim s) \<Longrightarrow> x \<in> set (outbox_events s) \<and> om_status x = OUTBOX_PUBLISHED"
  unfolding archive_rows_def by (drule in_set_takeD) (auto simp: archive_due_def)

lemma archive_published_eq:
  assumes "outbox_ok s" and "archive_published ret lim s = (n, s')"
  shows "n = length (archive_rows ret lim s)"
    and "outbox_events s' = filter (\<lambda>x. x \<notin> set (archive_rows ret lim s)) (outbox_events s)"
    and "outbox_archive s' = outbox_archive s @ map (archived_copy (now s)) (archive_rows ret lim s)"
    and "event_failures s' = event_failures s"
    and "hexes s' = hexes s" "hex_ix s' = hex_ix s" "event_keys s' = event_keys s" "now s' = now s"
    and "event_ids s' = event_ids s"
proof -
  have "row_key x \<in> row_key ` set (archive_rows ret lim s) \<longleftrightarrow> x \<in> set (archive_rows ret lim s)"
    if "x \<in> set (outbox_events s)" for x
    using key_eq_row[OF outbox_ok_keys[OF assms(1)] that] archive_rows_in[of _ ret lim s] by (auto simp: image_iff)
  then have f: "filter (\<lambda>x. row_key x \<notin> row_key ` set (archive_rows ret lim s)) (outbox_events s)
      = filter (\<lambda>x. x \<notin> set (archive_rows ret lim s)) (outbox_events s)"
    by (intro filter_cong) auto
  have e: "archive_published ret lim s = (if archive_rows ret lim s = [] then (0, s)
       else (length (archive_rows ret lim s), fold delete_row (archive_rows ret lim s)
         (s\<lparr>outbox_archive := outbox_archive s @ map (archived_copy (now s)) (archive_rows ret lim s)\<rparr>)))"
    by (simp add: archive_published_def archive_rows_def Let_def)
  show "n = length (archive_rows ret lim s)"
    "outbox_events s' = filter (\<lambda>x. x \<notin> set (archive_rows ret lim s)) (outbox_events s)"
    "outbox_archive s' = outbox_archive s @ map (archived_copy (now s)) (archive_rows ret lim s)"
    "event_failures s' = event_failures s"
    "hexes s' = hexes s" "hex_ix s' = hex_ix s" "event_keys s' = event_keys s" "now s' = now s"
    using assms(2) f unfolding e by (auto simp: fold_delete_rows split: if_splits)
  note facts = this
  have sub: "set (archive_rows ret lim s) \<subseteq> set (outbox_events s)"
    using archive_rows_in[of _ ret lim s] by blast
  have evs: "set (outbox_events s') = set (outbox_events s) - set (archive_rows ret lim s)"
    using facts(2) by auto
  have arch: "oa_event_id ` set (outbox_archive s')
      = oa_event_id ` set (outbox_archive s) \<union> om_event_id ` set (archive_rows ret lim s)"
    using facts(3) by (simp add: image_Un image_image archived_copy_def)
  show "event_ids s' = event_ids s"
    unfolding event_ids_def evs arch facts(4) using sub by blast
qed

lemma outbox_ok_archive:
  assumes "outbox_ok s" and "archive_published ret lim s = (n, s')"
  shows "outbox_ok s'"
  by (rule outbox_ok_delete[OF assms(1), where X = "{}"])
     (use archive_published_eq[OF assms] in simp_all)

section \<open>Several relays at once\<close>

text \<open>
  A relay is idle, holds a claim on the row it read, or has made its attempt on it.  \<open>bus\<close> is what
  the broker has received and \<open>tokens\<close> are the claim tokens drawn so far.  A publication that is
  confirmed was received; one that is not confirmed (a timeout) may have been received as well.
\<close>

datatype relay_proc =
    Idle
  | Claimed outbox_message string
  | Attempted outbox_message string "failure_reason option" bool

record relay_sys =
  sys_db :: core_db
  procs :: "nat \<Rightarrow> relay_proc"
  bus :: "(string \<times> payload) list"
  tokens :: "string set"

definition reason_of :: "string list \<Rightarrow> outbox_message \<Rightarrow> failure_reason option" where
  "reason_of keys m = permanent_failure_reason keys (om_routing_key m) (relay_payload m)"

inductive relay_step :: "relay_cfg \<Rightarrow> string list \<Rightarrow> relay_sys \<Rightarrow> relay_sys \<Rightarrow> bool" for c keys where
  tick: "0 \<le> d \<Longrightarrow> relay_step c keys S (S\<lparr>sys_db := (sys_db S)\<lparr>now := now (sys_db S) + d\<rparr>\<rparr>)"
| enqueue: "enqueue_outbox rk p e False (sys_db S) = Inr (b, s') \<Longrightarrow>
    relay_step c keys S (S\<lparr>sys_db := s'\<rparr>)"
| replay: "replay_failure keys i rk p (sys_db S) = Inr (b, s') \<Longrightarrow>
    relay_step c keys S (S\<lparr>sys_db := s'\<rparr>)"
| requeue: "requeue keys i rk p (sys_db S) = Inr (b, s') \<Longrightarrow>
    relay_step c keys S (S\<lparr>sys_db := s'\<rparr>)"
| claim: "procs S p = Idle \<Longrightarrow> t \<notin> tokens S \<Longrightarrow> relay_claim c t (sys_db S) = Some (m, s') \<Longrightarrow>
    relay_step c keys S (S\<lparr>sys_db := s', procs := (procs S)(p := Claimed m t), tokens := insert t (tokens S)\<rparr>)"
| release: "procs S p = Claimed m t \<Longrightarrow>
    relay_step c keys S (S\<lparr>sys_db := relay_release m t (sys_db S), procs := (procs S)(p := Idle)\<rparr>)"
| attempt: "procs S p = Claimed m t \<Longrightarrow> reason_of keys m = reason \<Longrightarrow>
    (received \<Longrightarrow> reason = None) \<Longrightarrow> (ok \<Longrightarrow> received) \<Longrightarrow>
    relay_step c keys S
      (S\<lparr>procs := (procs S)(p := Attempted m t reason ok),
         bus := bus S @ (if received then [(om_routing_key m, relay_payload m)] else [])\<rparr>)"
| settle: "procs S p = Attempted m t reason ok \<Longrightarrow> relay_settle m t reason ok (sys_db S) = (b, s') \<Longrightarrow>
    relay_step c keys S (S\<lparr>sys_db := s', procs := (procs S)(p := Idle)\<rparr>)"
| crash: "relay_step c keys S (S\<lparr>procs := (procs S)(p := Idle)\<rparr>)"
| archive: "archive_published ret lim (sys_db S) = (n, s') \<Longrightarrow>
    relay_step c keys S (S\<lparr>sys_db := s'\<rparr>)"

inductive_cases relay_stepE: "relay_step c keys S S'"

fun claim_of :: "relay_proc \<Rightarrow> (outbox_message \<times> string) option" where
  "claim_of Idle = None"
| "claim_of (Claimed m t) = Some (m, t)"
| "claim_of (Attempted m t _ _) = Some (m, t)"

text \<open>
  The invariant.  A token is held by at most one relay, and the row that carries a token, if there
  still is one, is exactly the row its holder read; published and archived rows were received by the
  broker; a failure has the reason it was given for.
\<close>

definition rows_ok :: "relay_sys \<Rightarrow> bool" where
  "rows_ok S \<longleftrightarrow> (\<forall>m \<in> set (outbox_events (sys_db S)).
      (\<forall>t. om_locked_by m = Some t \<longrightarrow> t \<in> tokens S \<and> om_status m = OUTBOX_PENDING)
      \<and> (om_status m = OUTBOX_PUBLISHED \<longrightarrow> (om_routing_key m, relay_payload m) \<in> set (bus S)))"

definition archive_ok :: "relay_sys \<Rightarrow> bool" where
  "archive_ok S \<longleftrightarrow> (\<forall>a \<in> set (outbox_archive (sys_db S)).
      (oa_routing_key a, dict_set (oa_payload a) ''event_id'' (JStr (oa_event_id a))) \<in> set (bus S))"

definition failures_ok :: "string list \<Rightarrow> relay_sys \<Rightarrow> bool" where
  "failures_ok keys S \<longleftrightarrow> (\<forall>f \<in> set (event_failures (sys_db S)).
      (case ef_reason f of
         Max_tries_reached \<Rightarrow> ef_attempt_count f = MAX_TRIES
       | Permanent r \<Rightarrow> ef_attempt_count f < MAX_TRIES \<and> permanent_failure_reason keys (ef_routing_key f)
             (dict_set (ef_payload f) ''event_id'' (JStr (ef_event_id f))) = Some r))"

definition procs_ok :: "string list \<Rightarrow> relay_sys \<Rightarrow> bool" where
  "procs_ok keys S \<longleftrightarrow>
     (\<forall>p m t. claim_of (procs S p) = Some (m, t) \<longrightarrow>
        t \<in> tokens S \<and> om_locked_by m = Some t
        \<and> (\<forall>x \<in> set (outbox_events (sys_db S)). om_locked_by x = Some t \<longrightarrow> x = m)
        \<and> (\<forall>q n. claim_of (procs S q) = Some (n, t) \<longrightarrow> q = p))
     \<and> (\<forall>p m t reason ok. procs S p = Attempted m t reason ok \<longrightarrow>
        reason = reason_of keys m
        \<and> (ok \<longrightarrow> reason = None \<and> (om_routing_key m, relay_payload m) \<in> set (bus S)))"

definition relay_inv :: "string list \<Rightarrow> relay_sys \<Rightarrow> bool" where
  "relay_inv keys S \<longleftrightarrow> outbox_ok (sys_db S) \<and> rows_ok S \<and> archive_ok S \<and> failures_ok keys S \<and> procs_ok keys S"

lemma relay_payload_eqI:
  "om_payload a = om_payload b \<Longrightarrow> om_event_id a = om_event_id b \<Longrightarrow> relay_payload a = relay_payload b"
  by (simp add: relay_payload_def)

text \<open>Steps that leave claims alone: new rows are unclaimed and pending.\<close>

lemma relay_inv_queue:
  assumes "relay_inv keys S" and "outbox_ok s'"
    and "\<And>m. m \<in> set (outbox_events s') \<Longrightarrow> m \<in> set (outbox_events (sys_db S))
         \<or> om_locked_by m = None \<and> om_status m = OUTBOX_PENDING"
    and "outbox_archive s' = outbox_archive (sys_db S)"
    and "map (\<lambda>f. (ef_reason f, ef_attempt_count f, ef_routing_key f, ef_payload f, ef_event_id f)) (event_failures s')
       = map (\<lambda>f. (ef_reason f, ef_attempt_count f, ef_routing_key f, ef_payload f, ef_event_id f)) (event_failures (sys_db S))"
  shows "relay_inv keys (S\<lparr>sys_db := s'\<rparr>)"
proof -
  let ?g = "\<lambda>f. (ef_reason f, ef_attempt_count f, ef_routing_key f, ef_payload f, ef_event_id f)"
  have "failures_ok keys (S\<lparr>sys_db := s'\<rparr>)"
    unfolding failures_ok_def
  proof
    fix f assume "f \<in> set (event_failures (sys_db (S\<lparr>sys_db := s'\<rparr>)))"
    then have "?g f \<in> ?g ` set (event_failures (sys_db S))"
      using arg_cong[OF assms(5), of set] by auto
    then obtain h where "h \<in> set (event_failures (sys_db S))" "?g f = ?g h" by blast
    with assms(1) show "case ef_reason f of
         Max_tries_reached \<Rightarrow> ef_attempt_count f = MAX_TRIES
       | Permanent r \<Rightarrow> ef_attempt_count f < MAX_TRIES \<and> permanent_failure_reason keys (ef_routing_key f)
             (dict_set (ef_payload f) ''event_id'' (JStr (ef_event_id f))) = Some r"
      by (auto simp: relay_inv_def failures_ok_def split: fold_reason.splits)
  qed
  moreover have "rows_ok (S\<lparr>sys_db := s'\<rparr>)"
    using assms(1,3) by (fastforce simp: relay_inv_def rows_ok_def)
  moreover have "archive_ok (S\<lparr>sys_db := s'\<rparr>)"
    using assms(1,4) by (simp add: relay_inv_def archive_ok_def)
  moreover have "procs_ok keys (S\<lparr>sys_db := s'\<rparr>)"
    using assms(1,3) by (fastforce simp: relay_inv_def procs_ok_def)
  ultimately show ?thesis using assms(2) by (simp add: relay_inv_def)
qed

lemma enqueue_rows:
  assumes "enqueue_outbox rk p e r s = Inr (b, s')"
  shows "m \<in> set (outbox_events s') \<Longrightarrow> m \<in> set (outbox_events s)
         \<or> om_locked_by m = None \<and> om_status m = OUTBOX_PENDING"
    and "outbox_archive s' = outbox_archive s" and "event_failures s' = event_failures s"
    and "set (outbox_events s) \<subseteq> set (outbox_events s')"
  using assms by (cases rule: enqueue_outbox_cases; auto simp: same_queue_def)+

lemma relay_inv_enqueue:
  assumes "relay_inv keys S" and "enqueue_outbox rk p e r (sys_db S) = Inr (b, s')"
  shows "relay_inv keys (S\<lparr>sys_db := s'\<rparr>)"
  using assms(1) outbox_ok_enqueue[OF assms(2)] enqueue_rows[OF assms(2)]
  by (intro relay_inv_queue) (auto simp: relay_inv_def)

lemma relay_inv_replay:
  assumes "relay_inv keys S" and "replay_failure keys i rk p (sys_db S) = Inr (b, s')"
  shows "relay_inv keys (S\<lparr>sys_db := s'\<rparr>)"
  using assms(2)
proof (cases rule: replay_failure_cases)
  case (queued row rk' p' q s1)
  have ok: "outbox_ok s'" using outbox_ok_replay[OF assms(2)] assms(1) by (simp add: relay_inv_def)
  show ?thesis unfolding queued(9)
    by (rule relay_inv_queue[OF assms(1)])
       (use ok queued(9) enqueue_rows[OF queued(7)] in \<open>auto simp: update_first_same\<close>)
qed (use assms(1) relay_inv_enqueue[OF assms(1)] in auto)

lemma relay_inv_requeue:
  assumes "relay_inv keys S" and "requeue keys i rk p (sys_db S) = Inr (b, s')"
  shows "relay_inv keys (S\<lparr>sys_db := s'\<rparr>)"
  using assms(2)
proof (cases rule: requeue_cases)
  case (queued m rk' p' e q s1)
  have ok: "outbox_ok s'" using outbox_ok_requeue[OF assms(2)] assms(1) by (simp add: relay_inv_def)
  show ?thesis unfolding queued(7)
    by (rule relay_inv_queue[OF assms(1)])
       (use ok queued(7) enqueue_rows[OF queued(5)] in auto)
qed (use assms(1) relay_inv_enqueue[OF assms(1)] in auto)

text \<open>Steps of the relays.\<close>

lemma procs_ok_idle:
  assumes "procs_ok keys S"
  shows "procs_ok keys (S\<lparr>procs := (procs S)(p := Idle)\<rparr>)"
  using assms unfolding procs_ok_def
  by (auto split: if_splits)

lemma procs_ok_rows:
  assumes "procs_ok keys S"
    and "\<And>x t. x \<in> set (outbox_events s') \<Longrightarrow> om_locked_by x = Some t \<Longrightarrow> x \<in> set (outbox_events (sys_db S))"
  shows "procs_ok keys (S\<lparr>sys_db := s'\<rparr>)"
  using assms unfolding procs_ok_def by fastforce

lemma relay_inv_crash: "relay_inv keys S \<Longrightarrow> relay_inv keys (S\<lparr>procs := (procs S)(p := Idle)\<rparr>)"
  using procs_ok_idle[of keys S p]
  by (auto simp: relay_inv_def rows_ok_def archive_ok_def failures_ok_def)

lemma relay_inv_tick: "relay_inv keys S \<Longrightarrow> relay_inv keys (S\<lparr>sys_db := (sys_db S)\<lparr>now := t\<rparr>\<rparr>)"
  by (rule relay_inv_queue) (auto simp: relay_inv_def outbox_ok_def legacy_apart_def event_ids_def)

lemma relay_inv_claim:
  assumes "relay_inv keys S" and "procs S p = Idle" and "t \<notin> tokens S"
    and "relay_claim c t (sys_db S) = Some (m, s')"
  shows "relay_inv keys (S\<lparr>sys_db := s', procs := (procs S)(p := Claimed m t), tokens := insert t (tokens S)\<rparr>)"
    (is "relay_inv keys ?S'")
proof -
  have ok: "outbox_ok (sys_db S)" using assms(1) by (simp add: relay_inv_def)
  obtain r where r: "r \<in> set (outbox_events (sys_db S))" "claimable c (now (sys_db S)) r"
    "m = r\<lparr>om_locked_at := Some (now (sys_db S)), om_locked_by := Some t\<rparr>"
    "s' = sys_db S\<lparr>outbox_events := map (\<lambda>x. if row_key x = row_key r then m else x) (outbox_events (sys_db S))\<rparr>"
    by (rule relay_claim_Some[OF assms(4) ok])
  have rows: "x \<in> set (outbox_events s') \<Longrightarrow> x = m \<or> x \<in> set (outbox_events (sys_db S))" for x
    using r(4) by (auto split: if_splits)
  have m: "om_status m = OUTBOX_PENDING" "om_locked_by m = Some t"
    using r(2,3) by (auto simp: claimable_def)
  have old: "x \<in> set (outbox_events (sys_db S)) \<Longrightarrow> om_locked_by x \<noteq> Some t" for x
    using assms(1,3) by (auto simp: relay_inv_def rows_ok_def)
  have fresh: "claim_of (procs S q) \<noteq> Some (n, t)" for q n
    using assms(1,3) by (auto simp: relay_inv_def procs_ok_def)
  have holders: "u \<in> tokens ?S' \<and> om_locked_by n = Some u
        \<and> (\<forall>x\<in>set (outbox_events (sys_db ?S')). om_locked_by x = Some u \<longrightarrow> x = n)
        \<and> (\<forall>q' n'. claim_of (procs ?S' q') = Some (n', u) \<longrightarrow> q' = q)"
    if q: "claim_of (procs ?S' q) = Some (n, u)" for q n u
  proof (cases "q = p")
      case True
      with q m rows old fresh show ?thesis by (auto split: if_splits)
    next
      case False
      with q have q': "claim_of (procs S q) = Some (n, u)" by simp
      with assms(1) have u: "u \<in> tokens S" "om_locked_by n = Some u"
        "\<And>x. x \<in> set (outbox_events (sys_db S)) \<Longrightarrow> om_locked_by x = Some u \<Longrightarrow> x = n"
        "\<And>q' n'. claim_of (procs S q') = Some (n', u) \<Longrightarrow> q' = q"
        by (auto simp: relay_inv_def procs_ok_def)
      have "x = n" if "x \<in> set (outbox_events s')" "om_locked_by x = Some u" for x
        using rows[OF that(1)] that(2) m(2) u(1,3) assms(3) by auto
      with u assms(3) show ?thesis by (auto split: if_splits)
    qed
  have "procs_ok keys ?S'"
    unfolding procs_ok_def
  proof (intro conjI)
    show "\<forall>p m t reason ok. procs ?S' p = Attempted m t reason ok \<longrightarrow>
        reason = reason_of keys m
        \<and> (ok \<longrightarrow> reason = None \<and> (om_routing_key m, relay_payload m) \<in> set (bus ?S'))"
      using assms(1) by (auto simp: relay_inv_def procs_ok_def split: if_splits)
  qed (use holders in blast)
  moreover have "rows_ok ?S'"
    using assms(1) m rows by (fastforce simp: relay_inv_def rows_ok_def)
  moreover have "archive_ok ?S'" "failures_ok keys ?S'"
    using assms(1) r(4) by (auto simp: relay_inv_def archive_ok_def failures_ok_def)
  ultimately show ?thesis using outbox_ok_claim[OF assms(4) ok] by (simp add: relay_inv_def)
qed

lemma relay_inv_release:
  assumes "relay_inv keys S"
  shows "relay_inv keys (S\<lparr>sys_db := relay_release m t (sys_db S), procs := (procs S)(p := Idle)\<rparr>)"
proof -
  have ok: "outbox_ok (sys_db S)" using assms by (simp add: relay_inv_def)
  let ?S = "S\<lparr>sys_db := relay_release m t (sys_db S)\<rparr>"
  consider (same) "relay_release m t (sys_db S) = sys_db S"
    | (cleared) x where "x \<in> set (outbox_events (sys_db S))" "row_key x = row_key m" "om_locked_by x = Some t"
      "relay_release m t (sys_db S) = sys_db S\<lparr>outbox_events :=
         map (\<lambda>y. if row_key y = row_key m then clear_lock y else y) (outbox_events (sys_db S))\<rparr>"
  proof (cases "\<exists>x. find_row m (sys_db S) = Some x \<and> om_locked_by x = Some t")
    case True
    then obtain x where x: "find_row m (sys_db S) = Some x" "om_locked_by x = Some t" by blast
    with find_row_Some[OF x(1)] show ?thesis
      by (intro cleared[of x])
         (simp_all add: relay_release_def set_row_def update_first_map[OF outbox_ok_keys[OF ok]])
  next
    case False
    then show ?thesis by (intro same) (auto simp: relay_release_def split: option.splits)
  qed
  then have "relay_inv keys ?S"
  proof cases
    case same
    with assms show ?thesis by simp
  next
    case (cleared x)
    have st: "om_status x = OUTBOX_PENDING" "\<And>y. y \<in> set (outbox_events (sys_db S)) \<Longrightarrow> row_key y = row_key m \<Longrightarrow> y = x"
      using assms cleared(1-3) key_eq_row[OF outbox_ok_keys[OF ok]]
      by (auto simp: relay_inv_def rows_ok_def)
    show ?thesis
      by (rule relay_inv_queue[OF assms outbox_ok_release[OF ok]])
         (use cleared(4) st in \<open>auto split: if_splits\<close>)
  qed
  from relay_inv_crash[OF this, of p] show ?thesis by simp
qed

lemma relay_inv_attempt:
  assumes "relay_inv keys S" and "procs S p = Claimed m t" and "reason_of keys m = reason"
    and "received \<Longrightarrow> reason = None" and "ok \<Longrightarrow> received"
  shows "relay_inv keys (S\<lparr>procs := (procs S)(p := Attempted m t reason ok),
         bus := bus S @ (if received then [(om_routing_key m, relay_payload m)] else [])\<rparr>)" (is "relay_inv keys ?S'")
proof -
  have claims: "claim_of (procs ?S' q) = claim_of (procs S q)" for q using assms(2) by simp
  have sub: "set (bus S) \<subseteq> set (bus ?S')" by auto
  have "procs_ok keys ?S'"
    unfolding procs_ok_def claims
  proof (intro conjI)
    show "\<forall>q n u. claim_of (procs S q) = Some (n, u) \<longrightarrow> u \<in> tokens ?S' \<and> om_locked_by n = Some u
        \<and> (\<forall>x\<in>set (outbox_events (sys_db ?S')). om_locked_by x = Some u \<longrightarrow> x = n)
        \<and> (\<forall>q' n'. claim_of (procs S q') = Some (n', u) \<longrightarrow> q' = q)"
      using assms(1) by (simp add: relay_inv_def procs_ok_def)
    show "\<forall>q n u reason ok. procs ?S' q = Attempted n u reason ok \<longrightarrow>
        reason = reason_of keys n \<and> (ok \<longrightarrow> reason = None \<and> (om_routing_key n, relay_payload n) \<in> set (bus ?S'))"
      using assms(1,3-5) by (auto simp: relay_inv_def procs_ok_def)
  qed
  moreover have "rows_ok ?S'" "archive_ok ?S'" "failures_ok keys ?S'"
    using assms(1) sub by (auto simp: relay_inv_def rows_ok_def archive_ok_def failures_ok_def)
  ultimately show ?thesis using assms(1) by (simp add: relay_inv_def)
qed

lemma relay_inv_archive:
  assumes "relay_inv keys S" and "archive_published ret lim (sys_db S) = (n, s')"
  shows "relay_inv keys (S\<lparr>sys_db := s'\<rparr>)"
proof -
  have ok: "outbox_ok (sys_db S)" using assms(1) by (simp add: relay_inv_def)
  note eq = archive_published_eq[OF ok assms(2)]
  have "(om_routing_key m, relay_payload m) \<in> set (bus S)" if "m \<in> set (archive_rows ret lim (sys_db S))" for m
    using assms(1) archive_rows_in[OF that] by (auto simp: relay_inv_def rows_ok_def)
  then have "archive_ok (S\<lparr>sys_db := s'\<rparr>)"
    using assms(1) eq(3) by (auto simp: relay_inv_def archive_ok_def archived_copy_def relay_payload_def)
  moreover have "rows_ok (S\<lparr>sys_db := s'\<rparr>)" "failures_ok keys (S\<lparr>sys_db := s'\<rparr>)"
    using assms(1) eq(2,4) by (auto simp: relay_inv_def rows_ok_def failures_ok_def)
  moreover have "procs_ok keys (S\<lparr>sys_db := s'\<rparr>)"
    by (rule procs_ok_rows) (use assms(1) eq(2) in \<open>auto simp: relay_inv_def\<close>)
  ultimately show ?thesis using outbox_ok_archive[OF ok assms(2)] by (simp add: relay_inv_def)
qed

lemma relay_inv_settle:
  assumes "relay_inv keys S" and "procs S p = Attempted m t reason ok"
    and "relay_settle m t reason ok (sys_db S) = (b, s')"
  shows "relay_inv keys (S\<lparr>sys_db := s', procs := (procs S)(p := Idle)\<rparr>)"
proof -
  have good: "outbox_ok (sys_db S)" using assms(1) by (simp add: relay_inv_def)
  have mine: "x = m" if "x \<in> set (outbox_events (sys_db S))" "om_locked_by x = Some t" for x
  proof -
    have "claim_of (procs S p) = Some (m, t)" using assms(2) by simp
    with assms(1) that show ?thesis unfolding relay_inv_def procs_ok_def by blast
  qed
  have att: "reason = reason_of keys m" "ok \<Longrightarrow> (om_routing_key m, relay_payload m) \<in> set (bus S)"
    using assms(1,2) by (auto simp: relay_inv_def procs_ok_def)
  note ok' = outbox_ok_settle[OF good assms(3)]
  have row: "y = m" if "x \<in> set (outbox_events (sys_db S))" "om_locked_by x = Some t"
      "row_key x = row_key m" "y \<in> set (outbox_events (sys_db S))" "row_key y = row_key m" for x y
    using mine[OF that(1,2)] key_eq_row[OF outbox_ok_keys[OF good] that(4,1)] that(3,5) by simp
  have "relay_inv keys (S\<lparr>sys_db := s'\<rparr>)"
    using good assms(3)
  proof (cases rule: relay_settle_cases)
    case lost
    with assms(1) show ?thesis by simp
  next
    case (folded x r n)
    have x: "x = m" using mine folded(2,4) by blast
    have m: "om_attempt_count m < MAX_TRIES"
      using good folded(2) x by (auto simp: outbox_ok_def row_ok_def)
    let ?S = "S\<lparr>sys_db := s'\<rparr>"
    have "failures_ok keys ?S"
      using assms(1) folded(6) x m att(1) unfolding folded(5)
      by (auto simp: relay_inv_def failures_ok_def fold_failure_simps reason_of_def relay_payload_def)
    moreover have "rows_ok ?S" "archive_ok ?S"
      using assms(1) unfolding folded(5)
      by (auto simp: relay_inv_def rows_ok_def archive_ok_def fold_failure_simps)
    moreover have "procs_ok keys ?S"
      by (rule procs_ok_rows) (use assms(1) folded(5) in \<open>auto simp: relay_inv_def fold_failure_simps\<close>)
    ultimately show ?thesis using ok' by (simp add: relay_inv_def)
  next
    case (published x)
    let ?S = "S\<lparr>sys_db := s'\<rparr>"
    let ?f = "\<lambda>y. (clear_lock y)\<lparr>om_status := OUTBOX_PUBLISHED, om_published_at := Some (now (sys_db S))\<rparr>"
    have rows: "y \<in> set (outbox_events s') \<Longrightarrow> y \<in> set (outbox_events (sys_db S)) \<or> y = ?f m" for y
      using row[OF published(4,6,5)] published(7) by (auto split: if_splits)
    have pay: "relay_payload (?f m) = relay_payload m" by (rule relay_payload_eqI) simp_all
    have "rows_ok ?S"
      unfolding rows_ok_def
    proof
      fix y assume "y \<in> set (outbox_events (sys_db ?S))"
      then have "y \<in> set (outbox_events (sys_db S)) \<or> y = ?f m" using rows by simp
      then show "(\<forall>t. om_locked_by y = Some t \<longrightarrow> t \<in> tokens ?S \<and> om_status y = OUTBOX_PENDING)
        \<and> (om_status y = OUTBOX_PUBLISHED \<longrightarrow> (om_routing_key y, relay_payload y) \<in> set (bus ?S))"
        using assms(1) att(2) published(3) pay by (auto simp: relay_inv_def rows_ok_def)
    qed
    moreover have "archive_ok ?S" "failures_ok keys ?S"
      using assms(1) published(7) by (auto simp: relay_inv_def archive_ok_def failures_ok_def)
    moreover have "procs_ok keys ?S"
    proof (rule procs_ok_rows)
      show "procs_ok keys S" using assms(1) by (simp add: relay_inv_def)
      fix y u assume y: "y \<in> set (outbox_events s')" "om_locked_by y = Some u"
      have "om_locked_by (?f m) = None" by simp
      with rows[OF y(1)] y(2) show "y \<in> set (outbox_events (sys_db S))" by auto
    qed
    ultimately show ?thesis using ok' by (simp add: relay_inv_def)
  next
    case (retried x n)
    let ?f = "\<lambda>y. (clear_lock y)\<lparr>om_attempt_count := n,
       om_next_retry_at := now (sys_db S) + seconds (min (2 ^ nat n) BACKOFF_CAP_S)\<rparr>"
    have st: "om_status m = OUTBOX_PENDING"
      using assms(1) mine[OF retried(4,6)] retried(4,6) by (auto simp: relay_inv_def rows_ok_def)
    have rows: "y \<in> set (outbox_events s') \<Longrightarrow> y \<in> set (outbox_events (sys_db S)) \<or> y = ?f m" for y
      using row[OF retried(4,6,5)] retried(9) by (auto split: if_splits)
    show ?thesis
    proof (rule relay_inv_queue[OF assms(1) ok'])
      fix y assume "y \<in> set (outbox_events s')"
      moreover have "om_locked_by (?f m) = None" "om_status (?f m) = OUTBOX_PENDING" using st by simp_all
      ultimately show "y \<in> set (outbox_events (sys_db S)) \<or> om_locked_by y = None \<and> om_status y = OUTBOX_PENDING"
        using rows by metis
    qed (use retried(9) in simp_all)
  qed
  from relay_inv_crash[OF this, of p] show ?thesis by simp
qed

lemma relay_inv_step:
  assumes "relay_step c keys S S'" and "relay_inv keys S"
  shows "relay_inv keys S'"
  using assms(1)
proof cases
  case (claim p t m s')
  show ?thesis unfolding claim(1) by (rule relay_inv_claim[OF assms(2) claim(2-4)])
next
  case (attempt p m t reason received ok)
  from relay_inv_attempt[OF assms(2) attempt(2,3,4,5)] show ?thesis unfolding attempt(1) .
next
  case (settle p m t reason ok b s')
  show ?thesis unfolding settle(1) by (rule relay_inv_settle[OF assms(2) settle(2,3)])
next
  case (tick d)
  show ?thesis unfolding tick(1) by (rule relay_inv_tick[OF assms(2)])
next
  case (enqueue rk p e b s')
  show ?thesis unfolding enqueue(1) by (rule relay_inv_enqueue[OF assms(2) enqueue(2)])
next
  case (replay i rk p b s')
  show ?thesis unfolding replay(1) by (rule relay_inv_replay[OF assms(2) replay(2)])
next
  case (requeue i rk p b s')
  show ?thesis unfolding requeue(1) by (rule relay_inv_requeue[OF assms(2) requeue(2)])
next
  case (release p m t)
  show ?thesis unfolding release(1) by (rule relay_inv_release[OF assms(2)])
next
  case (crash p)
  show ?thesis unfolding crash(1) by (rule relay_inv_crash[OF assms(2)])
next
  case (archive ret lim n s')
  show ?thesis unfolding archive(1) by (rule relay_inv_archive[OF assms(2) archive(2)])
qed

text \<open>No step makes an event disappear.\<close>

lemma event_ids_map:
  "(\<And>x. om_event_id (f x) = om_event_id x) \<Longrightarrow>
     event_ids (s\<lparr>outbox_events := map f (outbox_events s)\<rparr>) = event_ids s"
  by (auto simp: event_ids_def image_image)

lemma event_ids_enqueue: "enqueue_outbox rk p e r s = Inr (b, s') \<Longrightarrow> event_ids s \<subseteq> event_ids s'"
  using enqueue_rows[of rk p e r s b s'] by (auto simp: event_ids_def)

lemma event_ids_settle:
  assumes "outbox_ok s" and "relay_settle m t reason ok s = (b, s')"
  shows "event_ids s' = event_ids s"
  using assms
proof (cases rule: relay_settle_cases)
  case (folded x r n)
  then show ?thesis using event_ids_fold_failure[OF assms(1)] by simp
qed (simp_all add: event_ids_map)

lemma event_ids_claim:
  assumes "relay_claim c t s = Some (m, s')" and "outbox_ok s"
  shows "event_ids s' = event_ids s"
  using assms
proof (rule relay_claim_Some)
  fix r assume r: "r \<in> set (outbox_events s)" "m = r\<lparr>om_locked_at := Some (now s), om_locked_by := Some t\<rparr>"
    "s' = s\<lparr>outbox_events := map (\<lambda>x. if row_key x = row_key r then m else x) (outbox_events s)\<rparr>"
  have "om_event_id (if row_key x = row_key r then m else x) = om_event_id x" if "x \<in> set (outbox_events s)" for x
    using key_eq_row[OF outbox_ok_keys[OF assms(2)] that r(1)] r(2) by auto
  then have "map om_event_id (outbox_events s') = map om_event_id (outbox_events s)"
    using r(3) by simp
  then have "om_event_id ` set (outbox_events s') = om_event_id ` set (outbox_events s)"
    by (metis list.set_map)
  then show "event_ids s' = event_ids s" using r(3) by (simp add: event_ids_def)
qed

lemma event_ids_release: "outbox_ok s \<Longrightarrow> event_ids (relay_release m t s) = event_ids s"
  by (auto simp: relay_release_def set_row_def update_first_map[OF outbox_ok_keys]
      split: option.splits intro!: event_ids_map)

lemma event_ids_replay:
  assumes "replay_failure keys i rk p s = Inr (b, s')"
  shows "event_ids s \<subseteq> event_ids s'"
  using assms by (cases rule: replay_failure_cases) (auto dest: event_ids_enqueue)

lemma event_ids_requeue:
  assumes "requeue keys i rk p s = Inr (b, s')"
  shows "event_ids s \<subseteq> event_ids s'"
  using assms by (cases rule: requeue_cases) (auto dest: event_ids_enqueue)

lemma event_ids_now [simp]: "event_ids (s\<lparr>now := t\<rparr>) = event_ids s"
  by (simp add: event_ids_def)

lemma event_ids_step: "relay_step c keys S S' \<Longrightarrow> relay_inv keys S \<Longrightarrow> event_ids (sys_db S) \<subseteq> event_ids (sys_db S')"
proof (induction rule: relay_step.induct)
  case (archive ret lim S n s')
  then show ?case using archive_published_eq(9)[of "sys_db S"] by (auto simp: relay_inv_def)
next
  case (settle S p m t reason ok b s')
  then show ?case using event_ids_settle[of "sys_db S"] by (auto simp: relay_inv_def)
next
  case (claim S p t m s')
  then show ?case using event_ids_claim[of c t "sys_db S"] by (auto simp: relay_inv_def)
next
  case (release S p m t)
  then show ?case using event_ids_release[of "sys_db S"] by (auto simp: relay_inv_def)
qed (auto dest: event_ids_enqueue event_ids_replay event_ids_requeue)

section \<open>A round with nobody else around\<close>

definition quiet :: "'s core_db_scheme relay_env \<Rightarrow> bool" where
  "quiet env \<longleftrightarrow> (\<forall>k. may_claim env k \<and> may_publish env k
     \<and> others_claimed env k = id \<and> others_published env k = id)
     \<and> (\<forall>k rk p. publish_ok env k rk p)"

definition due :: "relay_cfg \<Rightarrow> 's core_db_scheme \<Rightarrow> outbox_message list" where
  "due c s = filter (claimable c (now s)) (outbox_events s)"

text \<open>One iteration takes the first due row and publishes or folds it; the others stay as they are.\<close>

lemma quiet_iteration:
  assumes ok: "outbox_ok s" and cl: "relay_claim c t s = Some (m, s1)"
    and st: "relay_settle m t (reason_of keys m) (reason_of keys m = None) s1 = (b, s2)"
  shows "outbox_ok s2" and "now s2 = now s"
    and "\<exists>r \<in> set (due c s). reason_of keys r = reason_of keys m \<and> due c s2 = filter (\<lambda>x. x \<noteq> r) (due c s)"
    and "b \<longleftrightarrow> reason_of keys m = None"
proof -
  have ok1: "outbox_ok s1" using outbox_ok_claim[OF cl ok] .
  show "outbox_ok s2" using outbox_ok_settle[OF ok1 st] .
  obtain r where r: "r \<in> set (outbox_events s)" "claimable c (now s) r"
    "m = r\<lparr>om_locked_at := Some (now s), om_locked_by := Some t\<rparr>"
    "s1 = s\<lparr>outbox_events := map (\<lambda>x. if row_key x = row_key r then m else x) (outbox_events s)\<rparr>"
    by (rule relay_claim_Some[OF cl ok])
  note K = outbox_ok_keys[OF ok]
  have m1: "m \<in> set (outbox_events s1)" using r by force
  have key: "row_key m = row_key r" "om_locked_by m = Some t" using r(3) by simp_all
  have uniq: "x = r" if "x \<in> set (outbox_events s)" "row_key x = row_key r" for x
    using key_eq_row[OF K that(1) r(1) that(2)] .
  have rest: "filter (claimable c (now s)) (map g (outbox_events s)) = filter (\<lambda>x. x \<noteq> r) (due c s)"
    if g: "\<not> claimable c (now s) (g r)" "\<And>x. x \<in> set (outbox_events s) \<Longrightarrow> x \<noteq> r \<Longrightarrow> g x = x" for g
  proof -
    have "filter (claimable c (now s)) (map g xs) = filter (\<lambda>x. x \<noteq> r) (filter (claimable c (now s)) xs)"
      if "set xs \<subseteq> set (outbox_events s)" for xs
      using that
    proof (induction xs)
      case (Cons x xs)
      then show ?case using g(1) g(2)[of x] by (cases "x = r") auto
    qed simp
    then show ?thesis by (simp add: due_def)
  qed
  have "now s2 = now s \<and> due c s2 = filter (\<lambda>x. x \<noteq> r) (due c s) \<and> (b \<longleftrightarrow> reason_of keys m = None)"
    using ok1 st
  proof (cases rule: relay_settle_cases)
    case lost
    with m1 key show ?thesis by blast
  next
    case (folded x f n)
    have x: "row_key x = row_key r" using folded(3) key(1) by simp
    have "outbox_events s2 = filter (\<lambda>y. row_key y \<noteq> row_key r)
        (map (\<lambda>y. if row_key y = row_key r then m else y) (outbox_events s))"
      using x r(4) folded(5) by (simp add: fold_failure_simps)
    also have "\<dots> = filter (\<lambda>y. y \<noteq> r) (outbox_events s)"
    proof -
      have "filter (\<lambda>y. row_key y \<noteq> row_key r) (map (\<lambda>y. if row_key y = row_key r then m else y) xs)
          = filter (\<lambda>y. y \<noteq> r) xs" if "set xs \<subseteq> set (outbox_events s)" for xs
        using that uniq key(1) by (induction xs) auto
      then show ?thesis by simp
    qed
    finally have "due c s2 = filter (\<lambda>x. x \<noteq> r) (due c s)"
      using folded(5) r(4) by (simp add: due_def fold_failure_simps conj_commute)
    then show ?thesis using folded r(4) by (auto simp: fold_failure_simps)
  next
    case (published x)
    let ?g = "\<lambda>y. if row_key y = row_key r then
        (clear_lock m)\<lparr>om_status := OUTBOX_PUBLISHED, om_published_at := Some (now s)\<rparr> else y"
    have ev: "outbox_events s2 = map ?g (outbox_events s)" and nw: "now s2 = now s"
      using published(7) r(4) key(1) by auto
    have "due c s2 = filter (\<lambda>x. x \<noteq> r) (due c s)"
      unfolding due_def[of c s2] ev nw
      by (rule rest) (use uniq in \<open>auto simp: claimable_def\<close>)
    with nw published(1,2) show ?thesis by simp
  next
    case (retried x n)
    then show ?thesis by simp
  qed
  moreover have "r \<in> set (due c s)" using r(1,2) by (simp add: due_def)
  moreover have "reason_of keys r = reason_of keys m" using r(3) by (simp add: reason_of_def relay_payload_def)
  ultimately show "now s2 = now s" "b \<longleftrightarrow> reason_of keys m = None"
    "\<exists>r \<in> set (due c s). reason_of keys r = reason_of keys m \<and> due c s2 = filter (\<lambda>x. x \<noteq> r) (due c s)"
    by auto
qed

lemma quiet_rounds:
  assumes "quiet env" and "outbox_ok s" and "length (due c s) \<le> n"
    and "relay_rounds c keys inst env k n g s = (g', s')"
  shows "due c s' = [] \<and> g' = g + length (filter (\<lambda>m. reason_of keys m = None) (due c s))"
  using assms(2-4)
proof (induction n arbitrary: k g s)
  case 0
  then show ?case by simp
next
  case (Suc n)
  let ?t = "last_chars 64 (inst @ '':'' @ claim_token env k)"
  show ?case
  proof (cases "relay_claim c ?t s")
    case None
    then have "due c s = []" by (auto simp: relay_claim_def due_def Let_def split: option.splits)
    with None Suc.prems(3) assms(1) show ?thesis by (simp add: quiet_def Let_def)
  next
    case (Some ms)
    obtain m s1 where ms: "ms = (m, s1)" by (cases ms)
    obtain b s2 where st: "relay_settle m ?t (reason_of keys m) (reason_of keys m = None) s1 = (b, s2)"
      by (metis surj_pair)
    note it = quiet_iteration[OF Suc.prems(1) Some[unfolded ms] st]
    have run: "relay_rounds c keys inst env (Suc k) n (if b then Suc g else g) s2 = (g', s')"
      using Suc.prems(3) assms(1) Some ms st
      by (simp add: quiet_def Let_def reason_of_def relay_payload_def)
    from it(3) obtain r where r: "r \<in> set (due c s)" "reason_of keys r = reason_of keys m"
      "due c s2 = filter (\<lambda>x. x \<noteq> r) (due c s)" by blast
    have d: "distinct (due c s)"
      using outbox_ok_keys[OF Suc.prems(1)] by (simp add: due_def distinct_map)
    have rem: "due c s2 = remove1 r (due c s)"
      using r(3) d by (simp add: distinct_remove1_removeAll removeAll_filter_not_eq eq_commute)
    have "length (due c s2) \<le> n"
      using Suc.prems(2) r(1) rem by (simp add: length_remove1)
    from Suc.IH[OF it(1) this run] have
      "due c s' = [] \<and> g' = (if b then Suc g else g) + length (filter (\<lambda>m. reason_of keys m = None) (due c s2))" .
    moreover have "length (filter P xs) = (if P r then 1 else 0) + length (filter P (remove1 r xs))"
      if "r \<in> set xs" for P :: "outbox_message \<Rightarrow> bool" and xs
      using that by (induction xs) auto
    ultimately show ?thesis using it(4) r(1,2) rem by auto
  qed
qed

section \<open>Properties\<close>

definition relay_start :: "core_db \<Rightarrow> relay_sys" where
  "relay_start d = \<lparr>sys_db = d, procs = (\<lambda>_. Idle), bus = [], tokens = {}\<rparr>"

lemma relay_inv_start:
  "outbox_ok d \<Longrightarrow> outbox_events d = [] \<Longrightarrow> outbox_archive d = [] \<Longrightarrow> event_failures d = []
     \<Longrightarrow> relay_inv keys (relay_start d)"
  by (simp add: relay_inv_def relay_start_def rows_ok_def archive_ok_def failures_ok_def procs_ok_def)

lemma relay_inv_reachable: "(relay_step c keys)\<^sup>*\<^sup>* S S' \<Longrightarrow> relay_inv keys S \<Longrightarrow> relay_inv keys S'"
  by (induction rule: rtranclp_induct) (auto intro: relay_inv_step)

lemma outbox_ok_db0 [simp]: "outbox_ok db0"
  by (simp add: outbox_ok_def legacy_apart_def event_ids_def db0_def pending_rows_def)

lemma db0_empty: "outbox_events db0 = []" "outbox_archive db0 = []" "event_failures db0 = []"
  by (simp_all add: db0_def)

text \<open>C2: Whatever the interleaving of business transactions, administrators, archiving and any
  number of relays that may stop at any point: every event marked published or archived was received
  by the broker on its own routing key with its own payload and identifier; every event folded as
  exhausted has failed exactly five times and every event folded as permanent fails the relay's check
  for the recorded reason; and no event has two pending rows.\<close>

theorem relay_delivery:
  assumes "outbox_ok d" and "outbox_events d = []" and "outbox_archive d = []" and "event_failures d = []"
    and "(relay_step c keys)\<^sup>*\<^sup>* (relay_start d) S"
  shows "(\<forall>m. m \<in> set (outbox_events (sys_db S)) \<and> om_status m = OUTBOX_PUBLISHED
            \<longrightarrow> (om_routing_key m, relay_payload m) \<in> set (bus S))
    \<and> (\<forall>a. a \<in> set (outbox_archive (sys_db S))
            \<longrightarrow> (oa_routing_key a, dict_set (oa_payload a) ''event_id'' (JStr (oa_event_id a))) \<in> set (bus S))
    \<and> (\<forall>f. f \<in> set (event_failures (sys_db S)) \<longrightarrow>
          (case ef_reason f of
             Max_tries_reached \<Rightarrow> ef_attempt_count f = 5
           | Permanent r \<Rightarrow> permanent_failure_reason keys (ef_routing_key f)
               (dict_set (ef_payload f) ''event_id'' (JStr (ef_event_id f))) = Some r))
    \<and> distinct (map om_event_id (pending_rows (outbox_events (sys_db S))))"
proof -
  have "relay_inv keys S"
    using relay_inv_reachable[OF assms(5) relay_inv_start[OF assms(1-4)]] .
  then show ?thesis
    by (auto simp: relay_inv_def rows_ok_def archive_ok_def failures_ok_def outbox_ok_def MAX_TRIES_def
        split: fold_reason.splits)
qed

lemma relay_delivery_witness:
  "\<exists>s1. enqueue_outbox RKEY_NOTIFY [] (Some ''e1'') False db0 = Inr (True, s1)
     \<and> distinct (map om_event_id (pending_rows (outbox_events s1)))"
proof -
  let ?c = "\<lparr>lock_ttl = seconds 300, operation_timeout = seconds 30\<rparr>"
  obtain s1 where s1: "enqueue_outbox RKEY_NOTIFY [] (Some ''e1'') False db0 = Inr (True, s1)"
    by (simp add: enqueue_outbox_def db0_def legacy_event_exists_def add_outbox_def fresh_pk_def
        insert_outbox_def Let_def)
  then have "relay_step ?c [RKEY_NOTIFY] (relay_start db0) ((relay_start db0)\<lparr>sys_db := s1\<rparr>)"
    by (intro relay_step.enqueue[where b = True]) (simp add: relay_start_def)
  then have "(relay_step ?c [RKEY_NOTIFY])\<^sup>*\<^sup>* (relay_start db0) ((relay_start db0)\<lparr>sys_db := s1\<rparr>)"
    by (rule r_into_rtranclp)
  from relay_delivery[OF outbox_ok_db0 db0_empty this] s1 show ?thesis by auto
qed

text \<open>C3: No event is ever lost: an event identifier that is in the outbox, in the archive or among
  the failures stays in one of them in every continuation of the run.\<close>

theorem relay_no_loss:
  assumes "relay_inv keys S" and "(relay_step c keys)\<^sup>*\<^sup>* S S'"
  shows "event_ids (sys_db S) \<subseteq> event_ids (sys_db S')"
  using assms(2,1)
proof (induction rule: rtranclp_induct)
  case (step T U)
  then show ?case using event_ids_step[OF step(2)] relay_inv_reachable[OF step(1)] by blast
qed simp

lemma relay_no_loss_witness:
  "event_ids (sys_db (relay_start db0)) \<subseteq> event_ids (sys_db ((relay_start db0)\<lparr>procs := (procs (relay_start db0))(3 := Idle)\<rparr>))"
  by (rule relay_no_loss[of "[]" _ "\<lparr>lock_ttl = 1, operation_timeout = 1\<rparr>"])
     (rule relay_inv_start outbox_ok_db0 db0_empty r_into_rtranclp relay_step.crash)+

text \<open>C4: Claims are fenced.  If two relays have both made an attempt at the same row, at most one
  of them can change the database when it settles: as soon as settling would change anything for one,
  the other one finds its claim gone and leaves the database as it is.\<close>

theorem relay_fencing:
  assumes "relay_inv keys S" and "p \<noteq> q"
    and "procs S p = Attempted m t r ok" and "procs S q = Attempted n u r' ok'"
    and "row_key m = row_key n" and "snd (relay_settle m t r ok (sys_db S)) \<noteq> sys_db S"
  shows "relay_settle n u r' ok' (sys_db S) = (False, sys_db S)"
proof -
  have good: "outbox_ok (sys_db S)" using assms(1) by (simp add: relay_inv_def)
  have c: "claim_of (procs S p) = Some (m, t)" "claim_of (procs S q) = Some (n, u)"
    using assms(3,4) by simp_all
  have tu: "t \<noteq> u"
    using assms(1,2) c unfolding relay_inv_def procs_ok_def by metis
  obtain b s' where st: "relay_settle m t r ok (sys_db S) = (b, s')" by (metis surj_pair)
  from good st obtain x where x: "x \<in> set (outbox_events (sys_db S))" "row_key x = row_key m" "om_locked_by x = Some t"
    by (cases rule: relay_settle_cases) (use st assms(6) in auto)
  obtain b2 s2 where st2: "relay_settle n u r' ok' (sys_db S) = (b2, s2)" by (metis surj_pair)
  have no: False if "y \<in> set (outbox_events (sys_db S))" "row_key y = row_key n" "om_locked_by y = Some u" for y
    using key_eq_row[OF outbox_ok_keys[OF good] that(1) x(1)] that(2,3) x(2,3) assms(5) tu by auto
  from good st2 show ?thesis
    by (cases rule: relay_settle_cases) (use st2 no in auto)
qed

text \<open>A run in which relay 1 lost its claim on the row to relay 0.\<close>

definition row7 :: "string \<Rightarrow> outbox_message" where
  "row7 t = (new_outbox_row 7 ''e7'' RKEY_NOTIFY [] 0)\<lparr>om_locked_at := Some 0, om_locked_by := Some t\<rparr>"

definition contested :: relay_sys where
  "contested = \<lparr>sys_db = db0\<lparr>outbox_events := [row7 ''a''], event_keys := {''e7''}\<rparr>,
     procs = (\<lambda>p. if p = 0 then Attempted (row7 ''a'') ''a'' (reason_of [] (row7 ''a'')) False
                  else if p = 1 then Attempted (row7 ''b'') ''b'' (reason_of [] (row7 ''b'')) False else Idle),
     bus = [], tokens = {''a'', ''b''}\<rparr>"

lemma relay_inv_contested: "relay_inv [] contested"
proof -
  have "outbox_ok (sys_db contested)"
    by (simp add: contested_def outbox_ok_def legacy_apart_def event_ids_def db0_def row7_def
        pending_rows_def row_ok_def MAX_TRIES_def jsonable_dict_def)
  then show ?thesis
    by (auto simp: relay_inv_def rows_ok_def archive_ok_def failures_ok_def procs_ok_def contested_def
        row7_def db0_def split: if_splits)
qed

lemma relay_fencing_witness:
  "relay_settle (row7 ''b'') ''b'' (reason_of [] (row7 ''b'')) False (sys_db contested) = (False, sys_db contested)"
proof (rule relay_fencing[OF relay_inv_contested, of 0 1])
  have r: "reason_of [] (row7 ''a'') = Some Unknown_routing_key"
    by (simp add: reason_of_def permanent_failure_reason_def)
  show "snd (relay_settle (row7 ''a'') ''a'' (reason_of [] (row7 ''a'')) False (sys_db contested)) \<noteq> sys_db contested"
    unfolding r by (auto simp: relay_settle_def find_row_def contested_def same_row_def row7_def
        fold_failure_def fresh_pk_def delete_row_def db0_def Let_def dest!: arg_cong[of _ _ outbox_events])
qed (simp_all add: contested_def row7_def)

text \<open>A claimed row cannot be claimed again while its holder may still be publishing it: up to the
  publication timeout after the claim, the row is not due, whatever the two settings are.\<close>

theorem claim_outlives_publication:
  assumes "relay_claim c t s = Some (m, s')" and "d \<le> publish_timeout c"
  shows "\<not> claimable c (now s + d) m"
  using assms by (auto simp: relay_claim_def Let_def claimable_def publish_timeout_def stale_window_def
      split: option.splits)

lemma claim_outlives_publication_witness:
  "\<exists>m s'. relay_claim \<lparr>lock_ttl = seconds 300, operation_timeout = seconds 30\<rparr> ''t''
       (db0\<lparr>outbox_events := [new_outbox_row 7 ''e7'' RKEY_NOTIFY [] 0]\<rparr>) = Some (m, s')
     \<and> \<not> claimable \<lparr>lock_ttl = seconds 300, operation_timeout = seconds 30\<rparr> (seconds 35) m"
proof -
  let ?c = "\<lparr>lock_ttl = seconds 300, operation_timeout = seconds 30\<rparr>"
  let ?s = "db0\<lparr>outbox_events := [new_outbox_row 7 ''e7'' RKEY_NOTIFY [] 0]\<rparr>"
  obtain m s' where c: "relay_claim ?c ''t'' ?s = Some (m, s')"
    by (simp add: relay_claim_def claimable_def db0_def Let_def)
  from claim_outlives_publication[OF c, of "seconds 35"] c show ?thesis
    by (simp add: publish_timeout_def db0_def)
qed

text \<open>C5: A round drains the outbox.  When nobody else interferes, the broker confirms every
  publication and the batch is at least as large as the number of due rows, then after the round no
  row is due and the value returned is the number of due rows that pass the relay's check.\<close>

theorem relay_poll_drains:
  assumes "quiet env" and "outbox_ok s" and "length (due c s) \<le> batch"
    and "relay_poll c keys inst env batch s = (n, s')"
  shows "due c s' = [] \<and> n = length (filter (\<lambda>m. reason_of keys m = None) (due c s))"
  using quiet_rounds[OF assms(1-3) assms(4)[unfolded relay_poll_def]] by simp

lemma relay_poll_drains_witness:
  "\<exists>s'. relay_poll \<lparr>lock_ttl = seconds 300, operation_timeout = seconds 30\<rparr> [] ''host:1''
     \<lparr>may_claim = (\<lambda>_. True), may_publish = (\<lambda>_. True), claim_token = (\<lambda>_. []),
       others_claimed = (\<lambda>_. id), others_published = (\<lambda>_. id), publish_ok = (\<lambda>_ _ _. True)\<rparr> 100
     (sys_db contested\<lparr>now := seconds 400\<rparr>) = (0, s')"
proof -
  let ?c = "\<lparr>lock_ttl = seconds 300, operation_timeout = seconds 30\<rparr>"
  let ?e = "\<lparr>may_claim = (\<lambda>_. True), may_publish = (\<lambda>_. True), claim_token = (\<lambda>_. []),
       others_claimed = (\<lambda>_. id), others_published = (\<lambda>_. id), publish_ok = (\<lambda>_ _ _. True)\<rparr>"
  let ?s = "sys_db contested\<lparr>now := seconds 400\<rparr>"
  obtain n s' where r: "relay_poll ?c [] ''host:1'' ?e 100 ?s = (n, s')" by (metis surj_pair)
  have "outbox_ok ?s"
    using relay_inv_tick[OF relay_inv_contested, of "seconds 400"] by (simp add: relay_inv_def)
  moreover have "due ?c ?s = [row7 ''a'']"
    by (simp add: due_def contested_def claimable_def row7_def stale_window_def)
  moreover have "reason_of [] (row7 ''a'') \<noteq> None"
    by (simp add: reason_of_def permanent_failure_reason_def)
  ultimately have "n = 0"
    using relay_poll_drains[of ?e ?s ?c 100 "[]" "''host:1''" n s'] r by (simp add: quiet_def)
  with r show ?thesis by simp
qed

end
