(* ===== verification/Worker.thy ===== *)
theory Worker
  imports Outbox_Store
begin

text \<open>
  The consuming side of the bus: the registry of task handlers (\<open>core/task_registry.py\<close>), the
  worker that dispatches a message to its handler once per subscription (\<open>core/worker.py\<close>,
  \<open>core/db/event_processed.py\<close>, \<open>core/bus/consumer.py\<close>), and the consumer that stores dead
  letters (\<open>core/worker_dlq.py\<close>, \<open>core/db/dlq.py\<close>).
\<close>

section \<open>Publishing\<close>

text \<open>
  \<open>publish\<close> never raises.  \<open>transport\<close> is the injected transport, if any, and \<open>broker\<close> the real one:
  whether the topic took the event.
\<close>

definition publish ::
    "(string \<times> string) list \<Rightarrow> bool \<Rightarrow> (string \<Rightarrow> payload \<Rightarrow> bool) option \<Rightarrow> bool \<Rightarrow> (string \<Rightarrow> payload \<Rightarrow> bool)
      \<Rightarrow> string \<Rightarrow> payload \<Rightarrow> bool" where
  "publish topics closed transport bus_enabled broker routing_key payload =
     (case map_of topics routing_key of
        None \<Rightarrow> False
      | Some topic \<Rightarrow>
          if closed then False
          else if \<not> encodable (JObj payload) then False
          else if payload_violations (JObj payload) (Some routing_key) \<noteq> [] then False
          else (case transport of
                  Some send \<Rightarrow> send topic payload
                | None \<Rightarrow> bus_enabled \<and> broker topic payload))"

section \<open>The registry\<close>

record cron_job =
  job_id :: string
  cron :: string
  job_routing_key :: string
  job_fn :: string
  job_enabled :: bool

text \<open>Handlers are kept with their signature; \<open>'h\<close> is what a handler does.\<close>

record 'h registry =
  task_handlers :: "string \<rightharpoonup> (string \<rightharpoonup> handler_sig \<times> 'h)"
  cron_job_list :: "cron_job list"
  task_modules :: "string list"

definition register_cron_job :: "cron_job \<Rightarrow> 'h registry \<Rightarrow> exc + 'h registry" where
  "register_cron_job job r =
     (case map_of EVENT_CONTRACTS (job_fn job) of
        None \<Rightarrow> Inl ValueError
      | Some c \<Rightarrow>
          if contract_args c \<noteq> [] then Inl ValueError
          else if job_routing_key job \<notin> set (routing_keys c) then Inl ValueError
          else if list_ex (\<lambda>j. job_id j = job_id job) (cron_job_list r) then
            Inr (r\<lparr>cron_job_list := update_first (\<lambda>j. job_id j = job_id job) (\<lambda>_. job) (cron_job_list r)\<rparr>)
          else Inr (r\<lparr>cron_job_list := cron_job_list r @ [job]\<rparr>))"

definition register_module :: "string \<Rightarrow> 'h registry \<Rightarrow> 'h registry" where
  "register_module path r =
     (if path \<in> set (task_modules r) then r else r\<lparr>task_modules := task_modules r @ [path]\<rparr>)"

definition assert_subscription_carries :: "subscription list \<Rightarrow> string \<Rightarrow> string \<Rightarrow> exc + unit" where
  "assert_subscription_carries subs sub f =
     (case find (\<lambda>x. sub_name x = sub) subs of
        None \<Rightarrow> Inl ValueError
      | Some x \<Rightarrow>
          (case map_of EVENT_CONTRACTS f of
             None \<Rightarrow> Inl OtherException
           | Some c \<Rightarrow> guardR (list_ex (\<lambda>k. k \<in> set (sub_keys x)) (routing_keys c)) ValueError))"

definition handlers_for :: "string \<Rightarrow> 'h registry \<Rightarrow> (string \<rightharpoonup> handler_sig \<times> 'h)" where
  "handlers_for sub r = (case task_handlers r sub of None \<Rightarrow> Map.empty | Some t \<Rightarrow> t)"

definition register_task ::
    "subscription list \<Rightarrow> string \<Rightarrow> string \<Rightarrow> handler_sig \<Rightarrow> 'h \<Rightarrow> 'h registry \<Rightarrow> exc + 'h registry" where
  "register_task subs sub f sg h r =
     (if handler_violation f sg \<noteq> None then Inl ValueError
      else bindR (assert_subscription_carries subs sub f) (\<lambda>_.
        Inr (r\<lparr>task_handlers := (task_handlers r)(sub \<mapsto> (handlers_for sub r)(f \<mapsto> (sg, h)))\<rparr>)))"

section \<open>Dispatch\<close>

text \<open>
  \<open>'d\<close> is the rest of the database, changed by the handlers in sessions of their own: a handler
  that raises may have changed it already.
\<close>

record 'd worker_db =
  event_processed :: "(string \<times> string) set"
  data :: 'd

type_synonym 'd task = "json list \<Rightarrow> 'd \<Rightarrow> exc option \<times> 'd"

definition DEFAULT_SCOPE :: string where "DEFAULT_SCOPE = ''default''"

definition already_processed :: "string \<Rightarrow> string \<Rightarrow> 'd worker_db \<Rightarrow> bool" where
  "already_processed scope event_id s \<longleftrightarrow> (scope, event_id) \<in> event_processed s"

text \<open>A conflict on the primary key is rolled back and reported as not added.\<close>

definition record_processed :: "string \<Rightarrow> string \<Rightarrow> 'd worker_db \<Rightarrow> bool \<times> 'd worker_db" where
  "record_processed scope event_id s =
     (if (scope, event_id) \<in> event_processed s then (False, s)
      else (True, s\<lparr>event_processed := insert (scope, event_id) (event_processed s)\<rparr>))"

definition run_task :: "'d task \<Rightarrow> json list \<Rightarrow> 'd worker_db \<Rightarrow> exc option \<times> 'd worker_db" where
  "run_task h args s = (let (e, d) = h args (data s) in (e, s\<lparr>data := d\<rparr>))"

definition dispatch_with_dedup ::
    "string \<Rightarrow> payload \<Rightarrow> 'd task \<Rightarrow> json list \<Rightarrow> 'd worker_db \<Rightarrow> exc option \<times> 'd worker_db" where
  "dispatch_with_dedup scope payload h args s =
     (case map_of payload ''event_id'' of
        Some (JStr eid) \<Rightarrow>
          if eid = [] then run_task h args s
          else if already_processed scope eid s then (None, s)
          else (case run_task h args s of
                  (Some e, s) \<Rightarrow> (Some e, s)
                | (None, s) \<Rightarrow> (None, snd (record_processed scope eid s)))
      | _ \<Rightarrow> run_task h args s)"

text \<open>\<open>handlers\<close> is the table of the subscription at the time its consumer started.\<close>

definition on_payload ::
    "(string \<rightharpoonup> handler_sig \<times> 'd task) \<Rightarrow> string \<Rightarrow> payload \<Rightarrow> string option \<Rightarrow> 'd worker_db
      \<Rightarrow> exc option \<times> 'd worker_db" where
  "on_payload handlers scope payload routing_key s =
     (if envelope_violations payload routing_key \<noteq> [] then (Some ValueError, s)
      else (case map_of payload ''fn'' of
              Some (JStr f) \<Rightarrow>
                (case handlers f of
                   None \<Rightarrow> (Some ValueError, s)
                 | Some (sg, h) \<Rightarrow>
                     dispatch_with_dedup scope payload h
                       (case map_of payload ''args'' of Some (JList a) \<Rightarrow> a | _ \<Rightarrow> []) s)
            | _ \<Rightarrow> (Some OtherException, s)))"

section \<open>One message of a subscription\<close>

text \<open>
  \<open>json.loads\<close> of the raw bytes is given as \<open>decoded\<close>, \<open>None\<close> when it raises; \<open>raw64\<close> is the
  base64 text of the bytes.  The value says whether the message is acknowledged.
\<close>

record message =
  decoded :: "json option"
  raw64 :: string
  msg_routing_key :: "string option"
  redelivery_count :: int
  message_id :: "string option"

definition RAW_MESSAGE_KEY :: string where "RAW_MESSAGE_KEY = ''_raw_message_base64''"

definition message_payload :: "string \<Rightarrow> message \<Rightarrow> payload option" where
  "message_payload sub m =
     (case decoded m of
        Some (JObj kvs) \<Rightarrow> Some kvs
      | _ \<Rightarrow> if sub \<noteq> ''dlq-persist'' then None else Some [(RAW_MESSAGE_KEY, JStr (raw64 m))])"

definition handle_message ::
    "string \<Rightarrow> (payload \<Rightarrow> message \<Rightarrow> 's \<Rightarrow> exc option \<times> 's) \<Rightarrow> message \<Rightarrow> 's \<Rightarrow> bool \<times> 's" where
  "handle_message sub handler m s =
     (case message_payload sub m of
        None \<Rightarrow> (False, s)
      | Some p \<Rightarrow> let (e, s) = handler p m s in (e = None, s))"

definition consume ::
    "(string \<rightharpoonup> handler_sig \<times> 'd task) \<Rightarrow> string \<Rightarrow> message \<Rightarrow> 'd worker_db \<Rightarrow> bool \<times> 'd worker_db" where
  "consume handlers sub m s =
     handle_message sub (\<lambda>p m. on_payload handlers sub p (msg_routing_key m)) m s"

section \<open>Dead letters\<close>

definition make_model :: "string \<Rightarrow> payload \<Rightarrow> int \<Rightarrow> string \<Rightarrow> string \<Rightarrow> string \<Rightarrow> string option \<Rightarrow> uuid
      \<Rightarrow> instant \<Rightarrow> dlq_message" where
  "make_model routing_key payload attempts reason status topic source_message_id i t =
     \<lparr>dm_id = i, dm_routing_key = (if routing_key = [] then ''unknown'' else routing_key),
      dm_payload_json = [(''payload'', JObj payload)], dm_exchange = topic, dm_attempts = attempts,
      dm_reason = take 255 reason, dm_status = status, dm_created_at = t, dm_requeued_at = None,
      dm_source_message_id = source_message_id\<rparr>"

text \<open>
  The row is inserted in a transaction of its own.  A conflict is accepted when the message is
  already stored, that is when it has a source identifier that some row carries.
\<close>

definition persist :: "dlq_message \<Rightarrow> 's core_db_scheme \<Rightarrow> exc option \<times> 's core_db_scheme" where
  "persist model s =
     (if list_ex (\<lambda>r. dm_id r = dm_id model
                      \<or> dm_source_message_id r \<noteq> None
                        \<and> dm_source_message_id r = dm_source_message_id model) (dlq_messages s)
      then
        (if dm_source_message_id model = None
            \<or> \<not> list_ex (\<lambda>r. dm_source_message_id r = dm_source_message_id model) (dlq_messages s)
         then (Some (IntegrityError True None), s)
         else (None, s))
      else (None, s\<lparr>dlq_messages := dlq_messages s @ [model]\<rparr>))"

definition on_dlq :: "string \<Rightarrow> payload \<Rightarrow> message \<Rightarrow> 's core_db_scheme \<Rightarrow> exc option \<times> 's core_db_scheme" where
  "on_dlq topic payload m s =
     (let (i, s) = fresh_pk s
      in persist (make_model (case msg_routing_key m of None \<Rightarrow> [] | Some k \<Rightarrow> k) payload
           (redelivery_count m)
           (if RAW_MESSAGE_KEY \<in> fst ` set payload then ''invalid envelope'' else ''dead-lettered'')
           ''pending'' topic (message_id m) i (now s)) s)"

definition consume_dlq :: "string \<Rightarrow> message \<Rightarrow> 's core_db_scheme \<Rightarrow> bool \<times> 's core_db_scheme" where
  "consume_dlq topic m s = handle_message ''dlq-persist'' (on_dlq topic) m s"

section \<open>The registry\<close>

text \<open>Every job that was registered can be published.\<close>

definition job_ok :: "cron_job \<Rightarrow> bool" where
  "job_ok j \<longleftrightarrow> (\<exists>c. map_of EVENT_CONTRACTS (job_fn j) = Some c \<and> contract_args c = []
     \<and> job_routing_key j \<in> set (routing_keys c))"

definition cron_ok :: "'h registry \<Rightarrow> bool" where
  "cron_ok r \<longleftrightarrow> distinct (map job_id (cron_job_list r)) \<and> list_all job_ok (cron_job_list r)"

lemma map_update_first_same: "(\<And>x. P x \<Longrightarrow> g (f x) = g x) \<Longrightarrow> map g (update_first P f xs) = map g xs"
  by (induction xs) auto

lemma set_update_first: "x \<in> set (update_first P f xs) \<Longrightarrow> x \<in> set xs \<or> (\<exists>y \<in> set xs. P y \<and> x = f y)"
  by (induction xs) (auto split: if_splits)

lemma cron_ok_register:
  assumes "register_cron_job job r = Inr r'" and "cron_ok r"
  shows "cron_ok r'"
proof -
  from assms(1) have job: "job_ok job"
    by (auto simp: register_cron_job_def job_ok_def split: option.splits if_splits)
  consider "r' = r\<lparr>cron_job_list := update_first (\<lambda>j. job_id j = job_id job) (\<lambda>_. job) (cron_job_list r)\<rparr>"
    | "\<not> list_ex (\<lambda>j. job_id j = job_id job) (cron_job_list r)" "r' = r\<lparr>cron_job_list := cron_job_list r @ [job]\<rparr>"
    using assms(1) by (auto simp: register_cron_job_def split: option.splits if_splits)
  then show ?thesis
  proof cases
    case 1
    have "map job_id (cron_job_list r') = map job_id (cron_job_list r)"
      unfolding 1 by simp (rule map_update_first_same, simp)
    moreover have "list_all job_ok (cron_job_list r')"
      using assms(2) job unfolding 1 cron_ok_def list_all_iff by (auto dest: set_update_first)
    ultimately show ?thesis using assms(2) by (simp add: cron_ok_def)
  next
    case 2
    with assms(2) job show ?thesis by (auto simp: cron_ok_def list_ex_iff)
  qed
qed

lemma job_publishable:
  assumes "job_ok j" and "job_routing_key j \<in> set keys"
  shows "permanent_failure_reason keys (job_routing_key j) [(''fn'', JStr (job_fn j))] = None"
proof -
  from assms(1) obtain c where "c \<in> set contract_list" "fn c = job_fn j" "contract_args c = []"
    "job_routing_key j \<in> set (routing_keys c)"
    by (auto simp: job_ok_def contract_lookup)
  with assms(2) show ?thesis
    unfolding permanent_failure_iff
    by (auto simp: ENVELOPE_KEYS_def event_id_violations_def args_of_def conforms_def required_args_def
        maximum_args_def intro!: bexI[of _ c])
qed

section \<open>Dead letters\<close>

definition dlq_ok :: "'s core_db_scheme \<Rightarrow> bool" where
  "dlq_ok s \<longleftrightarrow> (\<forall>i. length (filter (\<lambda>r. dm_source_message_id r = Some i) (dlq_messages s)) \<le> 1)"

lemma dlq_ok_persist:
  assumes "persist m s = (e, s')" and "dlq_ok s"
  shows "dlq_ok s'"
proof -
  have "filter (\<lambda>r. dm_source_message_id r = Some i) (dlq_messages s) = []"
    if "\<not> list_ex (\<lambda>r. dm_source_message_id r \<noteq> None \<and> dm_source_message_id r = dm_source_message_id m) (dlq_messages s)"
      "dm_source_message_id m = Some i" for i
    using that by (auto simp: list_ex_iff filter_empty_conv)
  with assms show ?thesis
    by (auto simp: persist_def dlq_ok_def list_ex_iff split: if_splits)
qed

lemma persist_stored:
  assumes "persist m s = (None, s')" and "dm_source_message_id m = Some i"
  shows "\<exists>r \<in> set (dlq_messages s'). dm_source_message_id r = Some i"
  using assms by (auto simp: persist_def list_ex_iff split: if_splits)

lemma persist_again:
  assumes "r \<in> set (dlq_messages s)" and "dm_source_message_id r = Some i" and "dm_source_message_id m = Some i"
  shows "persist m s = (None, s)"
  using assms by (force simp: persist_def list_ex_iff)

lemma make_model_source [simp]: "dm_source_message_id (make_model k p a r st tp src i t) = src"
  by (simp add: make_model_def)

section \<open>Properties\<close>

text \<open>Only events that honour their contract reach the bus: if \<open>publish\<close> reports success, the event
  was not a permanent failure.\<close>

theorem publish_only_clean:
  assumes "publish topics closed transport enabled broker rk payload"
  shows "permanent_failure_reason (map fst topics) rk payload = None"
proof -
  from assms have "rk \<in> fst ` set topics"
    by (force simp: publish_def dest: map_of_SomeD split: option.splits)
  with assms show ?thesis
    by (auto simp: publish_def permanent_failure_reason_def contract_violations_def
        simp del: encodable.simps split: option.splits if_splits)
qed

lemma publish_only_clean_witness:
  "permanent_failure_reason [RKEY_NOTIFY] RKEY_NOTIFY
     [(''fn'', JStr ''notify_upload''), (''args'', JList [JStr ''7'']), (''event_id'', JStr ''e'')] = None"
proof -
  let ?p = "[(''fn'', JStr ''notify_upload''), (''args'', JList [JStr ''7'']), (''event_id'', JStr ''e'')]"
  have "payload_violations (JObj ?p) (Some RKEY_NOTIFY) = []"
    using producer_events_clean(4)[of "[RKEY_NOTIFY]" "''7''" "''e''"]
    by (simp add: jsonable_dict_def no_permanent_failure payload_violations_def)
  then have "publish [(RKEY_NOTIFY, ''t'')] False None True (\<lambda>_ _. True) RKEY_NOTIFY ?p"
    by (simp add: publish_def)
  from publish_only_clean[OF this] show ?thesis by simp
qed

text \<open>Every scheduled job of a registry built by successful registrations can be published: the
  message the scheduler sends, just the function name on the job's routing key, is never a permanent
  failure.  Job identifiers stay unique: registering one again replaces the job.\<close>

theorem cron_jobs_publishable:
  assumes "foldR register_cron_job jobs r = Inr r'" and "cron_job_list r = []"
    and "j \<in> set (cron_job_list r')" and "job_routing_key j \<in> set keys"
  shows "permanent_failure_reason keys (job_routing_key j) [(''fn'', JStr (job_fn j))] = None
    \<and> distinct (map job_id (cron_job_list r'))"
proof -
  have "cron_ok r'"
    by (rule foldR_inv[OF assms(1)]) (use assms(2) cron_ok_register in \<open>auto simp: cron_ok_def\<close>)
  with assms(3,4) show ?thesis by (auto simp: cron_ok_def list_all_iff intro: job_publishable)
qed

lemma cron_jobs_publishable_witness:
  "permanent_failure_reason [RKEY_CLEANUP] RKEY_CLEANUP [(''fn'', JStr ''expire_qa_bounties'')] = None"
proof -
  let ?j = "\<lparr>job_id = ''qa'', cron = ''0 * * * *'', job_routing_key = RKEY_CLEANUP,
     job_fn = ''expire_qa_bounties'', job_enabled = True\<rparr>"
  let ?r = "\<lparr>task_handlers = Map.empty, cron_job_list = [], task_modules = []\<rparr>"
  have "map_of EVENT_CONTRACTS ''expire_qa_bounties'' =
      Some (EventContract ''expire_qa_bounties'' [RKEY_CLEANUP] [])"
    by (simp add: EVENT_CONTRACTS_def contract_list_def cron_contract_def)
  then have "foldR register_cron_job [?j] ?r = Inr (?r\<lparr>cron_job_list := [?j]\<rparr>)"
    by (simp add: register_cron_job_def)
  from cron_jobs_publishable[OF this, of ?j "[RKEY_CLEANUP]"] show ?thesis by simp
qed

text \<open>A message that carries an event identifier takes effect at most once per subscription: after
  it was dispatched without an error, dispatching a message with the same identifier in the same
  scope changes nothing and succeeds, in every later state that keeps the ledger; and the dispatch
  does not mark the event as processed in any other scope.\<close>

theorem processed_once:
  assumes "dispatch_with_dedup scope p h args s = (None, s1)" and "map_of p ''event_id'' = Some (JStr eid)"
    and "eid \<noteq> []" and "event_processed s1 \<subseteq> event_processed t"
    and "map_of p' ''event_id'' = Some (JStr eid)"
  shows "dispatch_with_dedup scope p' h' args' t = (None, t)
    \<and> (scope' \<noteq> scope \<longrightarrow> already_processed scope' e s1 = already_processed scope' e s)"
proof -
  have "(scope, eid) \<in> event_processed s1"
    and "scope' \<noteq> scope \<Longrightarrow> (scope', e) \<in> event_processed s1 \<longleftrightarrow> (scope', e) \<in> event_processed s"
    using assms(1-3)
    by (auto simp: dispatch_with_dedup_def record_processed_def already_processed_def run_task_def
        Let_def split: if_splits prod.splits option.splits)
  with assms(3-5) show ?thesis
    by (auto simp: dispatch_with_dedup_def already_processed_def)
qed

lemma processed_once_witness:
  "dispatch_with_dedup ''jobs'' [(''event_id'', JStr ''e'')] (\<lambda>_ n. (None, n + 1)) []
     \<lparr>event_processed = {(''jobs'', ''e'')}, data = 1 :: int\<rparr>
   = (None, \<lparr>event_processed = {(''jobs'', ''e'')}, data = 1\<rparr>)"
proof -
  have "dispatch_with_dedup ''jobs'' [(''event_id'', JStr ''e'')] (\<lambda>_ n. (None, n + 1)) []
     \<lparr>event_processed = {}, data = 0 :: int\<rparr> = (None, \<lparr>event_processed = {(''jobs'', ''e'')}, data = 1\<rparr>)"
    by (simp add: dispatch_with_dedup_def already_processed_def run_task_def record_processed_def)
  from processed_once[OF this _ _ subset_refl, of "''e''" "[(''event_id'', JStr ''e'')]" "\<lambda>_ n. (None, n + 1)" "[]" "[]"]
  show ?thesis by simp
qed

text \<open>C6: A message is acknowledged only when its work is done: it was a JSON object without contract
  violations whose function has a handler in the subscription, and either its event had been
  processed in this subscription before, and nothing changed, or the handler ran to its end.\<close>

theorem acknowledged_is_done:
  assumes "consume handlers sub m s = (True, s')" and "sub \<noteq> ''dlq-persist''"
  shows "\<exists>p f sg h args. decoded m = Some (JObj p) \<and> envelope_violations p (msg_routing_key m) = []
     \<and> map_of p ''fn'' = Some (JStr f) \<and> handlers f = Some (sg, h) \<and> args_of p = Some args
     \<and> ((\<exists>eid. map_of p ''event_id'' = Some (JStr eid) \<and> already_processed sub eid s \<and> s' = s)
        \<or> fst (h args (data s)) = None \<and> data s' = snd (h args (data s)))"
proof -
  from assms obtain p where p: "decoded m = Some (JObj p)"
    "on_payload handlers sub p (msg_routing_key m) s = (None, s')"
    by (auto simp: consume_def handle_message_def message_payload_def Let_def
        split: option.splits json.splits prod.splits)
  then have v: "envelope_violations p (msg_routing_key m) = []"
    by (auto simp: on_payload_def split: if_splits)
  with p(2) obtain f sg h where f: "map_of p ''fn'' = Some (JStr f)" "handlers f = Some (sg, h)"
    by (auto simp: on_payload_def split: option.splits json.splits)
  from v f(1) obtain args where args: "args_of p = Some args"
    "(case map_of p ''args'' of Some (JList a) \<Rightarrow> a | _ \<Rightarrow> []) = args"
    by (auto simp: envelope_violations_def args_of_def Let_def split: option.splits json.splits if_splits)
  with p(2) v f have "dispatch_with_dedup sub p h args s = (None, s')"
    by (simp add: on_payload_def)
  then have "(\<exists>eid. map_of p ''event_id'' = Some (JStr eid) \<and> already_processed sub eid s \<and> s' = s)
        \<or> fst (h args (data s)) = None \<and> data s' = snd (h args (data s))"
    by (auto simp: dispatch_with_dedup_def run_task_def record_processed_def Let_def
        split: option.splits json.splits if_splits prod.splits)
  with p(1) v f args(1) show ?thesis by blast
qed

lemma acknowledged_is_done_witness:
  "\<exists>f. map_of [(''fn'', JStr ''expire_qa_bounties'')] ''fn'' = Some (JStr f)
     \<and> f = ''expire_qa_bounties''"
proof -
  let ?m = "\<lparr>decoded = Some (JObj [(''fn'', JStr ''expire_qa_bounties'')]), raw64 = [],
     msg_routing_key = Some RKEY_CLEANUP, redelivery_count = 0, message_id = None\<rparr>"
  let ?h = "[''expire_qa_bounties'' \<mapsto> (\<lparr>n_required = 0, n_positional = 0, var_positional = False, n_keyword_required = 0\<rparr>, \<lambda>_ n. (None, n + 1))]"
  have c: "map_of EVENT_CONTRACTS ''expire_qa_bounties'' =
      Some (EventContract ''expire_qa_bounties'' [RKEY_CLEANUP] [])"
    by (simp add: EVENT_CONTRACTS_def contract_list_def cron_contract_def)
  have "consume ?h ''jobs'' ?m \<lparr>event_processed = {}, data = 0 :: int\<rparr> = (True, \<lparr>event_processed = {}, data = 1\<rparr>)"
    by (simp add: consume_def handle_message_def message_payload_def on_payload_def envelope_violations_def
        ENVELOPE_KEYS_def c args_violations_def required_args_def maximum_args_def event_id_violations_def
        dispatch_with_dedup_def run_task_def Let_def)
  from acknowledged_is_done[OF this] show ?thesis by (auto split: if_splits)
qed

text \<open>A dead letter is stored exactly once.  When the consumer of dead letters acknowledges a
  message that has an identifier, exactly one row carries the identifier, and if the broker delivers
  the message again it is acknowledged without a second row.\<close>

theorem dead_letter_once:
  assumes "consume_dlq topic m s = (True, s1)" and "dlq_ok s" and "message_id m = Some i"
  shows "length (filter (\<lambda>r. dm_source_message_id r = Some i) (dlq_messages s1)) = 1
    \<and> (\<exists>s2. consume_dlq topic m s1 = (True, s2) \<and> dlq_messages s2 = dlq_messages s1)"
proof -
  obtain p where p: "message_payload ''dlq-persist'' m = Some p"
  proof -
    have "message_payload ''dlq-persist'' m \<noteq> None"
      by (auto simp: message_payload_def split: option.splits json.splits)
    with that show ?thesis by blast
  qed
  define mk where "mk = (\<lambda>i t. make_model (case msg_routing_key m of None \<Rightarrow> [] | Some k \<Rightarrow> k) p
       (redelivery_count m) (if RAW_MESSAGE_KEY \<in> fst ` set p then ''invalid envelope'' else ''dead-lettered'')
       ''pending'' topic (message_id m) i t)"
  have eq: "consume_dlq topic m t = (let (i, t) = fresh_pk t; (e, t) = persist (mk i (now t)) t in (e = None, t))"
    for t :: "'a core_db_scheme"
    by (simp add: consume_dlq_def handle_message_def p on_dlq_def mk_def Let_def split: prod.splits)
  have src: "dm_source_message_id (mk j t) = Some i" for j t by (simp add: mk_def assms(3))
  obtain j s0 where f: "fresh_pk s = (j, s0)" by (metis surj_pair)
  from assms(1) f have pers: "persist (mk j (now s0)) s0 = (None, s1)"
    by (auto simp: eq split: prod.splits)
  have "dlq_ok s0" using assms(2) f by (auto simp: fresh_pk_def dlq_ok_def)
  from dlq_ok_persist[OF pers this] have le: "length (filter (\<lambda>r. dm_source_message_id r = Some i) (dlq_messages s1)) \<le> 1"
    by (simp add: dlq_ok_def)
  obtain r where r: "r \<in> set (dlq_messages s1)" "dm_source_message_id r = Some i"
    using persist_stored[OF pers src] by blast
  then have "filter (\<lambda>r. dm_source_message_id r = Some i) (dlq_messages s1) \<noteq> []"
    by (auto simp: filter_empty_conv)
  with le have one: "length (filter (\<lambda>r. dm_source_message_id r = Some i) (dlq_messages s1)) = 1"
    by (cases "filter (\<lambda>r. dm_source_message_id r = Some i) (dlq_messages s1)") simp_all
  obtain k s3 where f3: "fresh_pk s1 = (k, s3)" "dlq_messages s3 = dlq_messages s1"
    by (simp add: fresh_pk_def)
  then have "persist (mk k (now s3)) s3 = (None, s3)"
    using r by (intro persist_again[where i = i] src) auto
  with f3 have "consume_dlq topic m s1 = (True, s3)" by (simp add: eq)
  with one f3(2) show ?thesis by blast
qed

lemma dead_letter_once_witness:
  "\<exists>s1 s2. consume_dlq ''t'' \<lparr>decoded = None, raw64 = ''AA'', msg_routing_key = None, redelivery_count = 4,
       message_id = Some ''m1''\<rparr> db0 = (True, s1)
     \<and> consume_dlq ''t'' \<lparr>decoded = None, raw64 = ''AA'', msg_routing_key = None, redelivery_count = 4,
       message_id = Some ''m1''\<rparr> s1 = (True, s2) \<and> dlq_messages s2 = dlq_messages s1"
proof -
  let ?m = "\<lparr>decoded = None, raw64 = ''AA'', msg_routing_key = None, redelivery_count = 4, message_id = Some ''m1''\<rparr>"
  obtain s1 where s1: "consume_dlq ''t'' ?m db0 = (True, s1)"
    by (simp add: consume_dlq_def handle_message_def message_payload_def on_dlq_def fresh_pk_def persist_def
        db0_def)
  moreover have "dlq_ok db0" by (simp add: dlq_ok_def db0_def)
  ultimately show ?thesis using dead_letter_once[OF s1, of "''m1''"] by auto
qed

end
