(* ===== verification/Points_Store.thy ===== *)
theory Points_Store
  imports Outbox_Store
begin

text \<open>
  Points (\<open>app/modules/points/service.py\<close>, \<open>repository.py\<close>, \<open>models.py\<close>, \<open>rules.py\<close>): the balance
  of every user, the ledger that explains it, and the operations that move points.  A row lock
  serialises the operations on a user, so every operation is one transaction here.
\<close>

section \<open>Calendar dates\<close>

text \<open>
  \<open>datetime.date\<close> with \<open>isoformat\<close> and the day before; the years are those of Python, 1 to 9999.
\<close>

record date =
  year :: nat
  month :: nat
  day :: nat

definition leap_year :: "nat \<Rightarrow> bool" where
  "leap_year y \<longleftrightarrow> y mod 4 = 0 \<and> (y mod 100 \<noteq> 0 \<or> y mod 400 = 0)"

definition days_in_month :: "nat \<Rightarrow> nat \<Rightarrow> nat" where
  "days_in_month y m =
     (if m = 2 then (if leap_year y then 29 else 28)
      else if m \<in> {4, 6, 9, 11} then 30 else 31)"

definition date_ok :: "date \<Rightarrow> bool" where
  "date_ok d \<longleftrightarrow> 1 \<le> year d \<and> year d \<le> 9999 \<and> 1 \<le> month d \<and> month d \<le> 12
     \<and> 1 \<le> day d \<and> day d \<le> days_in_month (year d) (month d)"

definition previous_day :: "date \<Rightarrow> date" where
  "previous_day d =
     (if 1 < day d then d\<lparr>day := day d - 1\<rparr>
      else if 1 < month d then d\<lparr>month := month d - 1, day := days_in_month (year d) (month d - 1)\<rparr>
      else \<lparr>year = year d - 1, month = 12, day = 31\<rparr>)"

fun dec_fixed :: "nat \<Rightarrow> nat \<Rightarrow> string" where
  "dec_fixed 0 v = []"
| "dec_fixed (Suc w) v = dec_fixed w (v div 10) @ [hex_digit (v mod 10)]"

definition isoformat :: "date \<Rightarrow> string" where
  "isoformat d = dec_fixed 4 (year d) @ ''-'' @ dec_fixed 2 (month d) @ ''-'' @ dec_fixed 2 (day d)"

section \<open>Tables\<close>

record user_balance =
  ub_balance :: int
  ub_updated_at :: instant

record ledger_entry =
  le_id :: uuid
  le_user_id :: uuid
  le_delta :: int
  le_balance_after :: int
  le_reason :: string
  le_ref_type :: string
  le_ref_id :: string
  le_created_at :: instant

text \<open>
  The JSON column \<open>stats\<close> holds integers under the counters' names and, under \<open>processed_events\<close>,
  a dict from the keys of consumed events to \<open>True\<close>; the two are kept apart here.
\<close>

record behavior_stat =
  counters :: "string \<rightharpoonup> int"
  processed_events :: "string set option"
  last_checkin_date :: "string option"
  checkin_streak :: int

record achievement =
  ac_id :: uuid
  ac_key :: string
  ac_type :: string
  ac_threshold :: int
  ac_reward_points :: int
  ac_sort_order :: int

record user_achievement =
  ua_progress :: int
  ua_unlocked :: bool
  ua_unlocked_at :: "instant option"

record task_def =
  td_id :: uuid
  td_key :: string
  td_category :: string
  td_requirement_count :: int
  td_reward_points :: int
  td_sort_order :: int

record task_progress =
  tp_progress :: int
  tp_completed :: bool
  tp_rewarded :: bool

text \<open>
  Tables whose rows are found by a unique key are maps from it; \<open>today\<close> is \<open>date.today()\<close> of the
  process, which need not be the UTC day of \<open>now\<close>.
\<close>

record points_db = core_db +
  today :: date
  balances :: "uuid \<rightharpoonup> user_balance"
  ledger :: "ledger_entry list"
  behavior_stats :: "uuid \<rightharpoonup> behavior_stat"
  achievements :: "achievement list"
  user_achievements :: "uuid \<times> uuid \<rightharpoonup> user_achievement"
  task_definitions :: "task_def list"
  task_progresses :: "uuid \<times> uuid \<times> string \<rightharpoonup> task_progress"

definition RULE_DELTAS :: "(string \<times> int) list" where
  "RULE_DELTAS =
     [(''post'', 10), (''comment'', 2), (''like'', 1), (''file_approved'', 15),
      (''answer_accepted'', 0), (''checkin'', 5), (''competition'', 50)]"

section \<open>Balances and the ledger\<close>

definition ensure_balance :: "uuid \<Rightarrow> 's points_db_scheme \<Rightarrow> 's points_db_scheme" where
  "ensure_balance u s =
     (case balances s u of
        Some _ \<Rightarrow> s
      | None \<Rightarrow> s\<lparr>balances := (balances s)(u \<mapsto> \<lparr>ub_balance = 0, ub_updated_at = now s\<rparr>)\<rparr>)"

text \<open>\<open>UPDATE ... WHERE balance + delta >= 0\<close>; no row updated means not enough points.\<close>

definition repo_apply_delta ::
    "uuid \<Rightarrow> int \<Rightarrow> bool \<Rightarrow> 's points_db_scheme \<Rightarrow> int option \<times> 's points_db_scheme" where
  "repo_apply_delta u delta allow_negative s =
     (case balances s u of
        None \<Rightarrow> (None, s)
      | Some r \<Rightarrow>
          if allow_negative \<or> 0 \<le> ub_balance r + delta then
            (Some (ub_balance r + delta),
             s\<lparr>balances := (balances s)(u \<mapsto>
                 \<lparr>ub_balance = ub_balance r + delta, ub_updated_at = now s\<rparr>)\<rparr>)
          else (None, s))"

definition apply_delta ::
    "uuid \<Rightarrow> int \<Rightarrow> bool \<Rightarrow> 's points_db_scheme \<Rightarrow> exc + int \<times> 's points_db_scheme" where
  "apply_delta u delta allow_negative s =
     (let (new_balance, s) = repo_apply_delta u delta allow_negative s
      in (case new_balance of
            None \<Rightarrow> Inl (BizError (PointsErr INSUFFICIENT_BALANCE))
          | Some b \<Rightarrow> Inr (b, s)))"

text \<open>\<open>get_by_ref\<close> takes the first row of the key.\<close>

definition has_ref :: "uuid \<Rightarrow> string \<Rightarrow> string \<Rightarrow> ledger_entry \<Rightarrow> bool" where
  "has_ref u ref_type ref_id e \<longleftrightarrow>
     le_user_id e = u \<and> le_ref_type e = ref_type \<and> le_ref_id e = ref_id"

definition get_by_ref ::
    "uuid \<Rightarrow> string \<Rightarrow> string \<Rightarrow> 's points_db_scheme \<Rightarrow> ledger_entry option" where
  "get_by_ref u ref_type ref_id s = find (has_ref u ref_type ref_id) (ledger s)"

text \<open>
  A ledger row is stamped with the clock.  The table has the primary key \<open>(created_at, id)\<close> and is
  unique in the reference and \<open>created_at\<close>.
\<close>

definition ledger_row ::
    "uuid \<Rightarrow> uuid \<Rightarrow> int \<Rightarrow> int \<Rightarrow> string \<Rightarrow> string \<Rightarrow> string \<Rightarrow> instant \<Rightarrow> ledger_entry" where
  "ledger_row i u delta balance_after reason ref_type ref_id t =
     \<lparr>le_id = i, le_user_id = u, le_delta = delta, le_balance_after = balance_after, le_reason = reason,
      le_ref_type = ref_type, le_ref_id = ref_id, le_created_at = t\<rparr>"

definition insert_ledger :: "ledger_entry \<Rightarrow> 's points_db_scheme \<Rightarrow> exc + 's points_db_scheme" where
  "insert_ledger e s =
     (if list_ex (\<lambda>x. le_created_at x = le_created_at e
                      \<and> (le_id x = le_id e
                         \<or> has_ref (le_user_id e) (le_ref_type e) (le_ref_id e) x)) (ledger s)
      then Inl (IntegrityError True (Some ''uq_points_ledger_ref''))
      else Inr (s\<lparr>ledger := ledger s @ [e]\<rparr>))"

text \<open>\<open>pg_upsert(do_nothing=True)\<close> on the constraint: a row in conflict with it is left out.\<close>

definition upsert_ledger :: "ledger_entry \<Rightarrow> 's points_db_scheme \<Rightarrow> exc + 's points_db_scheme" where
  "upsert_ledger e s =
     (if list_ex (\<lambda>x. le_created_at x = le_created_at e
                      \<and> has_ref (le_user_id e) (le_ref_type e) (le_ref_id e) x) (ledger s)
      then Inr s
      else insert_ledger e s)"

definition balance_key :: "uuid \<Rightarrow> cache_effect" where
  "balance_key u = Invalidate ''points:balance'' [uuid_str u]"

definition reward ::
    "uuid \<Rightarrow> int \<Rightarrow> string \<Rightarrow> string \<Rightarrow> string \<Rightarrow> bool \<Rightarrow> 's points_db_scheme
      \<Rightarrow> exc + ledger_entry \<times> 's points_db_scheme" where
  "reward u delta reason ref_type ref_id allow_negative s =
     (let s = ensure_balance u s in
      case get_by_ref u ref_type ref_id s of
        Some existing \<Rightarrow>
          if le_delta existing = delta then Inr (existing, s)
          else Inl (BizError (PointsErr DUPLICATE_REWARD))
      | None \<Rightarrow>
          bindR (apply_delta u delta allow_negative s) (\<lambda>(balance_after, s).
          let (i, s) = fresh_pk s in
          bindR (upsert_ledger (ledger_row i u delta balance_after reason ref_type ref_id (now s)) s) (\<lambda>s.
          case get_by_ref u ref_type ref_id s of
            None \<Rightarrow> Inl (BizError (PointsErr DUPLICATE_REWARD))
          | Some entry \<Rightarrow>
              if le_delta entry \<noteq> delta then Inl (BizError (PointsErr DUPLICATE_REWARD))
              else Inr (entry, emit_fx (balance_key u) (emit_fx (Bump ''points'') s)))))"

definition spend ::
    "uuid \<Rightarrow> int \<Rightarrow> string \<Rightarrow> string \<Rightarrow> string \<Rightarrow> 's points_db_scheme
      \<Rightarrow> exc + ledger_entry \<times> 's points_db_scheme" where
  "spend u amount reason ref_type ref_id s =
     (if amount \<le> 0 then Inl (BizError (CommonErr INVALID_INPUT))
      else reward u (- amount) reason ref_type ref_id False s)"

definition transfer ::
    "uuid \<Rightarrow> uuid \<Rightarrow> int \<Rightarrow> string \<Rightarrow> string \<Rightarrow> string \<Rightarrow> 's points_db_scheme
      \<Rightarrow> exc + (ledger_entry \<times> ledger_entry) \<times> 's points_db_scheme" where
  "transfer from_id to_id amount reason ref_type ref_id s =
     (if amount \<le> 0 then Inl (BizError (CommonErr INVALID_INPUT))
      else if from_id = to_id then Inl (BizError (CommonErr INVALID_INPUT))
      else
        let s = ensure_balance to_id (ensure_balance from_id s) in
        case get_by_ref from_id ref_type ref_id s of
          Some existing_out \<Rightarrow>
            (case get_by_ref to_id ref_type ref_id s of
               Some existing_in \<Rightarrow>
                 if le_delta existing_out = - amount \<and> le_delta existing_in = amount
                 then Inr ((existing_out, existing_in), s)
                 else Inl (BizError (PointsErr DUPLICATE_REWARD))
             | None \<Rightarrow> Inl (BizError (PointsErr DUPLICATE_REWARD)))
        | None \<Rightarrow>
            bindR (apply_delta from_id (- amount) False s) (\<lambda>(from_after, s).
            bindR (apply_delta to_id amount True s) (\<lambda>(to_after, s).
            let (i, s) = fresh_pk s; (j, s) = fresh_pk s;
                out_entry = ledger_row i from_id (- amount) from_after ''transfer_out'' ref_type ref_id (now s);
                in_entry = ledger_row j to_id amount to_after ''transfer_in'' ref_type ref_id (now s)
            in bindR (insert_ledger out_entry s) (\<lambda>s.
               bindR (insert_ledger in_entry s) (\<lambda>s.
               Inr ((out_entry, in_entry),
                    emit_fx (balance_key to_id) (emit_fx (balance_key from_id) (emit_fx (Bump ''points'') s))))))))"

text \<open>\<open>get_balance\<close> without its cache: a missing row is 0.\<close>

definition balance_of :: "'s points_db_scheme \<Rightarrow> uuid \<Rightarrow> int" where
  "balance_of s u = (case balances s u of None \<Rightarrow> 0 | Some r \<Rightarrow> ub_balance r)"

definition paginate_offset :: "int \<Rightarrow> int \<Rightarrow> int" where
  "paginate_offset page page_size = max (page - 1) 0 * max page_size 0"

definition paginate_pages :: "int \<Rightarrow> int \<Rightarrow> int" where
  "paginate_pages n_rows page_size =
     (if page_size \<le> 0 then (if n_rows \<noteq> 0 then 1 else 0) else (n_rows + page_size - 1) div page_size)"

record 'a page_data =
  pd_items :: "'a list"
  pd_total :: int
  pd_page :: int
  pd_pages :: int

text \<open>\<open>ORDER BY id DESC OFFSET .. LIMIT ..\<close>; a negative limit is an error of the database.\<close>

definition list_ledger ::
    "uuid \<Rightarrow> int \<Rightarrow> int \<Rightarrow> 's points_db_scheme \<Rightarrow> exc + ledger_entry page_data" where
  "list_ledger u page limit s =
     (let mine = filter (\<lambda>e. le_user_id e = u) (ledger s);
          n_rows = int (length mine);
          rows = take (nat limit) (drop (nat (paginate_offset page limit))
                   (rev (sort_key le_id mine)))
      in if limit < 0 then Inl OtherException
         else Inr \<lparr>pd_items = rows, pd_total = n_rows, pd_page = page, pd_pages = paginate_pages n_rows limit\<rparr>)"

text \<open>The consumer of the subscription \<open>points-reward\<close>, with a session of its own.\<close>

definition apply_point_reward ::
    "uuid \<Rightarrow> string \<Rightarrow> string \<Rightarrow> 's points_db_scheme \<Rightarrow> exc + 's points_db_scheme" where
  "apply_point_reward u event ref_id s =
     (let delta = (case map_of RULE_DELTAS event of None \<Rightarrow> 0 | Some d \<Rightarrow> d)
      in if 0 < delta then bindR (reward u delta event event ref_id False s) (\<lambda>(_, s). Inr s)
         else Inr s)"

section \<open>Dates\<close>

lemma length_dec_fixed [simp]: "length (dec_fixed w v) = w"
  by (induction w arbitrary: v) auto

lemma dec_fixed_inj:
  "a < 10 ^ w \<Longrightarrow> b < 10 ^ w \<Longrightarrow> dec_fixed w a = dec_fixed w b \<Longrightarrow> a = b"
proof (induction w arbitrary: a b)
  case 0
  then show ?case by simp
next
  case (Suc w)
  have "a div 10 < 10 ^ w" "b div 10 < 10 ^ w"
    using Suc.prems(1,2) by (simp_all add: less_mult_imp_div_less)
  moreover have "dec_fixed w (a div 10) = dec_fixed w (b div 10)" using Suc.prems(3) by simp
  ultimately have "a div 10 = b div 10" by (rule Suc.IH)
  moreover have "a mod 10 = b mod 10"
    using Suc.prems(3) by (intro hex_digit_inj) simp_all
  ultimately show ?case by (metis div_mult_mod_eq)
qed

lemma days_in_month_le: "days_in_month y m \<le> 31"
  by (simp add: days_in_month_def)

lemma isoformat_inj:
  assumes "date_ok d" and "date_ok e" and "isoformat d = isoformat e"
  shows "d = e"
proof -
  have "dec_fixed 4 (year d) = dec_fixed 4 (year e) \<and> dec_fixed 2 (month d) = dec_fixed 2 (month e)
      \<and> dec_fixed 2 (day d) = dec_fixed 2 (day e)"
    using assms(3) by (simp add: isoformat_def append_eq_append_conv)
  moreover have "day d < 10 ^ 2" "day e < 10 ^ 2"
    using assms(1,2) days_in_month_le[of "year d" "month d"] days_in_month_le[of "year e" "month e"]
    by (auto simp: date_ok_def)
  ultimately have "year d = year e" "month d = month e" "day d = day e"
    using assms(1,2) by (auto simp: date_ok_def intro!: dec_fixed_inj)
  then show ?thesis by simp
qed

section \<open>What one reward does\<close>

lemma ensure_balance_eq:
  "ensure_balance u s = s\<lparr>balances := (balances s)(u \<mapsto>
     (case balances s u of None \<Rightarrow> \<lparr>ub_balance = 0, ub_updated_at = now s\<rparr> | Some r \<Rightarrow> r))\<rparr>"
  by (cases "balances s u") (auto simp: ensure_balance_def fun_upd_idem)

lemma ensure_balance_simps [simp]:
  "balance_of (ensure_balance u s) = balance_of s"
  "ledger (ensure_balance u s) = ledger s"
  "get_by_ref v rt ri (ensure_balance u s) = get_by_ref v rt ri s"
  "now (ensure_balance u s) = now s" "pks (ensure_balance u s) = pks s" "pk_ix (ensure_balance u s) = pk_ix s"
  "cache_fx (ensure_balance u s) = cache_fx s"
  "balances (ensure_balance u s) u \<noteq> None"
  "balances s v \<noteq> None \<Longrightarrow> balances (ensure_balance u s) v \<noteq> None"
  by (auto simp: ensure_balance_eq balance_of_def fun_eq_iff get_by_ref_def split: option.splits)

lemma ensure_balance_idem [simp]: "ensure_balance u (ensure_balance u s) = ensure_balance u s"
  by (simp add: ensure_balance_eq[of u "ensure_balance u s"]) (simp add: ensure_balance_eq)

lemma ledger_row_simps [simp]:
  "le_id (ledger_row i u d b r rt ri t) = i" "le_user_id (ledger_row i u d b r rt ri t) = u"
  "le_delta (ledger_row i u d b r rt ri t) = d" "le_balance_after (ledger_row i u d b r rt ri t) = b"
  "le_reason (ledger_row i u d b r rt ri t) = r" "le_ref_type (ledger_row i u d b r rt ri t) = rt"
  "le_ref_id (ledger_row i u d b r rt ri t) = ri" "le_created_at (ledger_row i u d b r rt ri t) = t"
  by (simp_all add: ledger_row_def)

lemma get_by_ref_append:
  "find (has_ref u rt ri) (xs @ [e]) =
     (case find (has_ref u rt ri) xs of Some x \<Rightarrow> Some x | None \<Rightarrow> if has_ref u rt ri e then Some e else None)"
  by (induction xs) auto

lemma get_by_ref_None: "get_by_ref u rt ri s = None \<longleftrightarrow> (\<forall>e \<in> set (ledger s). \<not> has_ref u rt ri e)"
  by (auto simp: get_by_ref_def find_None_iff)

lemma get_by_ref_Some: "get_by_ref u rt ri s = Some e \<Longrightarrow> e \<in> set (ledger s) \<and> has_ref u rt ri e"
  by (auto simp: get_by_ref_def find_Some_iff)

definition rewarded :: "uuid \<Rightarrow> int \<Rightarrow> string \<Rightarrow> string \<Rightarrow> string \<Rightarrow> 's points_db_scheme \<Rightarrow> 's points_db_scheme" where
  "rewarded u d reason rt ri s = s\<lparr>
     balances := (balances s)(u \<mapsto> \<lparr>ub_balance = balance_of s u + d, ub_updated_at = now s\<rparr>),
     ledger := ledger s @ [ledger_row (pks s (pk_ix s)) u d (balance_of s u + d) reason rt ri (now s)],
     pk_ix := Suc (pk_ix s), cache_fx := cache_fx s @ [Bump ''points'', balance_key u]\<rparr>"

lemma reward_cases:
  assumes "reward u d reason rt ri neg s = Inr (e, s')"
  obtains
    (again) "get_by_ref u rt ri s = Some e" "le_delta e = d" "s' = ensure_balance u s"
  | (fresh) "get_by_ref u rt ri s = None" "neg \<or> 0 \<le> balance_of s u + d"
      "e = ledger_row (pks s (pk_ix s)) u d (balance_of s u + d) reason rt ri (now s)"
      "s' = rewarded u d reason rt ri s"
proof (cases "get_by_ref u rt ri s")
  case (Some x)
  with assms show ?thesis by (intro again) (auto simp: reward_def Let_def split: if_splits)
next
  case None
  then have no: "\<not> list_ex (\<lambda>x. le_created_at x = now s \<and> has_ref u rt ri x) (ledger s)"
    by (auto simp: get_by_ref_None list_ex_iff)
  from None have fnd: "find (has_ref u rt ri) (ledger s) = None" by (simp add: get_by_ref_def)
  have hr: "has_ref u rt ri (ledger_row i u d b r rt ri t)" for i b r t by (simp add: has_ref_def)
  show ?thesis
  proof (rule fresh)
    show "get_by_ref u rt ri s = None" by fact
    show "neg \<or> 0 \<le> balance_of s u + d"
      using assms None by (auto simp: reward_def Let_def apply_delta_def repo_apply_delta_def balance_of_def
          ensure_balance_eq get_by_ref_def split: if_splits option.splits)
    show "e = ledger_row (pks s (pk_ix s)) u d (balance_of s u + d) reason rt ri (now s)"
      and "s' = rewarded u d reason rt ri s"
      using assms fnd no hr
      by (auto simp: reward_def Let_def apply_delta_def repo_apply_delta_def balance_of_def
          ensure_balance_eq get_by_ref_def fresh_pk_def upsert_ledger_def insert_ledger_def rewarded_def
          emit_fx_def get_by_ref_append split: if_splits option.splits)
  qed
qed

lemma rewarded_simps [simp]:
  "balance_of (rewarded u d reason rt ri s) = (balance_of s)(u := balance_of s u + d)"
  "ledger (rewarded u d reason rt ri s) =
     ledger s @ [ledger_row (pks s (pk_ix s)) u d (balance_of s u + d) reason rt ri (now s)]"
  "now (rewarded u d reason rt ri s) = now s"
  by (auto simp: rewarded_def balance_of_def)

lemma get_by_ref_rewarded:
  "get_by_ref v rt' ri' (rewarded u d reason rt ri s) =
     (case get_by_ref v rt' ri' s of
        Some x \<Rightarrow> Some x
      | None \<Rightarrow> if v = u \<and> rt' = rt \<and> ri' = ri
                then Some (ledger_row (pks s (pk_ix s)) u d (balance_of s u + d) reason rt ri (now s)) else None)"
  by (auto simp: get_by_ref_def get_by_ref_append has_ref_def split: option.splits)

section \<open>The ledger explains the balances\<close>

definition rows_of :: "uuid \<Rightarrow> 's points_db_scheme \<Rightarrow> ledger_entry list" where
  "rows_of u s = filter (\<lambda>e. le_user_id e = u) (ledger s)"

text \<open>Every row shows the balance after it, starting from \<open>b\<close>.\<close>

fun chained :: "int \<Rightarrow> ledger_entry list \<Rightarrow> bool" where
  "chained b [] = True"
| "chained b (e # es) = (le_balance_after e = b + le_delta e \<and> chained (le_balance_after e) es)"

definition points_ok :: "'s points_db_scheme \<Rightarrow> bool" where
  "points_ok s \<longleftrightarrow> finite (dom (balances s))
     \<and> (\<forall>u. chained 0 (rows_of u s) \<and> balance_of s u = sum_list (map le_delta (rows_of u s)))"

lemma chained_append:
  "chained b (xs @ [e]) \<longleftrightarrow> chained b xs \<and> le_balance_after e = b + sum_list (map le_delta xs) + le_delta e"
  by (induction b xs rule: chained.induct) auto

lemma points_ok_append:
  assumes "points_ok s" and "finite (dom (balances s'))"
    and "ledger s' = ledger s @ [e]" and "balance_of s' = (balance_of s)(u := balance_of s u + d)"
    and "le_user_id e = u" and "le_delta e = d" and "le_balance_after e = balance_of s u + d"
  shows "points_ok s'"
  unfolding points_ok_def
proof (intro conjI allI)
  fix v
  have old: "chained 0 (rows_of v s)" "balance_of s v = sum_list (map le_delta (rows_of v s))"
    using assms(1) by (simp_all add: points_ok_def)
  have "rows_of v s' = rows_of v s @ (if v = u then [e] else [])"
    using assms(3,5) by (auto simp: rows_of_def)
  with old assms(4,6,7) show "chained 0 (rows_of v s')" "balance_of s' v = sum_list (map le_delta (rows_of v s'))"
    by (auto simp: chained_append)
qed (fact assms(2))

lemma balances_rewarded: "balances (rewarded u d reason rt ri s) =
     (balances s)(u \<mapsto> \<lparr>ub_balance = balance_of s u + d, ub_updated_at = now s\<rparr>)"
  by (simp add: rewarded_def)

lemma rows_of_ensure [simp]: "rows_of v (ensure_balance u s) = rows_of v s"
  by (simp add: rows_of_def)

lemma finite_ensure [simp]: "finite (dom (balances (ensure_balance u s))) = finite (dom (balances s))"
  by (simp add: ensure_balance_eq)

lemma points_ok_ensure [simp]: "points_ok (ensure_balance u s) = points_ok s"
  by (simp add: points_ok_def)

lemma points_ok_rewarded: "points_ok s \<Longrightarrow> points_ok (rewarded u d reason rt ri s)"
  by (rule points_ok_append[of s _ "ledger_row (pks s (pk_ix s)) u d (balance_of s u + d) reason rt ri (now s)" u d])
     (simp_all add: points_ok_def balances_rewarded)

definition points_total :: "'s points_db_scheme \<Rightarrow> int" where
  "points_total s = tsum ub_balance (balances s)"

lemma points_total_ensure [simp]: "finite (dom (balances s)) \<Longrightarrow> points_total (ensure_balance u s) = points_total s"
  by (cases "balances s u") (auto simp: points_total_def ensure_balance_def tsum_insert)

lemma points_total_set:
  assumes "finite (dom (balances s))"
  shows "tsum ub_balance ((balances s)(u \<mapsto> r)) = points_total s - balance_of s u + ub_balance r"
  using assms by (cases "balances s u") (auto simp: points_total_def balance_of_def tsum_insert tsum_update)

lemma points_total_rewarded:
  "finite (dom (balances s)) \<Longrightarrow> points_total (rewarded u d reason rt ri s) = points_total s + d"
  by (simp add: points_total_def[of "rewarded u d reason rt ri s"] balances_rewarded points_total_set)

section \<open>The interface the other modules use\<close>

text \<open>
  \<open>core/ports/points.py\<close>: what a module that pays or charges points relies on.  \<open>seen\<close> is the amount
  recorded under a reference, \<open>total_points\<close> the points of all users together.
\<close>

locale points_port =
  fixes pay :: "uuid \<Rightarrow> int \<Rightarrow> string \<Rightarrow> string \<Rightarrow> string \<Rightarrow> bool \<Rightarrow> 's \<Rightarrow> exc + 'e \<times> 's"
    and bal :: "'s \<Rightarrow> uuid \<Rightarrow> int"
    and seen :: "'s \<Rightarrow> uuid \<Rightarrow> string \<Rightarrow> string \<Rightarrow> int option"
    and total_points :: "'s \<Rightarrow> int"
    and ok :: "'s \<Rightarrow> bool"
  assumes pay_ok: "ok s \<Longrightarrow> pay u d r rt ri neg s = Inr (e, s') \<Longrightarrow> ok s'"
    and pay_seen: "pay u d r rt ri neg s = Inr (e, s') \<Longrightarrow>
      seen s' v rt' ri' = (if v = u \<and> rt' = rt \<and> ri' = ri then Some d else seen s v rt' ri')"
    and pay_agrees: "pay u d r rt ri neg s = Inr (e, s') \<Longrightarrow> seen s u rt ri = None \<or> seen s u rt ri = Some d"
    and pay_bal: "pay u d r rt ri neg s = Inr (e, s') \<Longrightarrow>
      bal s' v = bal s v + (if v = u \<and> seen s u rt ri = None then d else 0)"
    and pay_total: "ok s \<Longrightarrow> pay u d r rt ri neg s = Inr (e, s') \<Longrightarrow>
      total_points s' = total_points s + (if seen s u rt ri = None then d else 0)"
    and pay_floor: "pay u d r rt ri False s = Inr (e, s') \<Longrightarrow> seen s u rt ri = None \<Longrightarrow> 0 \<le> bal s u + d"
begin

text \<open>Paying twice under one reference pays once.\<close>

lemma pay_twice:
  assumes "pay u d r rt ri neg s = Inr (e, s1)" and "pay u d' r' rt ri neg' s1 = Inr (e', s2)"
  shows "d' = d" and "bal s2 = bal s1"
proof -
  have "seen s1 u rt ri = Some d" using pay_seen[OF assms(1)] by simp
  with pay_agrees[OF assms(2)] pay_bal[OF assms(2)] show "d' = d" "bal s2 = bal s1"
    by (auto simp: fun_eq_iff)
qed

text \<open>Without \<open>allow_negative\<close> no balance becomes negative.\<close>

lemma pay_nonneg:
  assumes "pay u d r rt ri False s = Inr (e, s')" and "0 \<le> bal s v"
  shows "0 \<le> bal s' v"
  using pay_bal[OF assms(1), of v] pay_floor[OF assms(1)] assms(2) by auto

text \<open>A list of payments, each \<open>(user, amount, reference)\<close>, in one transaction.\<close>

definition pay_each :: "string \<Rightarrow> string \<Rightarrow> (uuid \<times> int \<times> string) list \<Rightarrow> 's \<Rightarrow> exc + 's" where
  "pay_each r rt ps = foldR (\<lambda>(u, d, ri) s. bindR (pay u d r rt ri False s) (\<lambda>(_, s). Inr s)) ps"

lemma pay_each_total:
  assumes "pay_each r rt ps s = Inr s'" and "ok s"
    and "distinct (map (\<lambda>(u, d, ri). (u, ri)) ps)" and "\<forall>(u, d, ri) \<in> set ps. seen s u rt ri = None"
  shows "total_points s' = total_points s + sum_list (map (\<lambda>(u, d, ri). d) ps) \<and> ok s'"
  using assms
proof (induction ps arbitrary: s)
  case Nil
  then show ?case by (simp add: pay_each_def)
next
  case (Cons p ps)
  obtain u d ri where p: "p = (u, d, ri)" by (cases p)
  from Cons.prems(1) p obtain e t where t: "pay u d r rt ri False s = Inr (e, t)" "pay_each r rt ps t = Inr s'"
    by (auto simp: pay_each_def)
  have "\<forall>(v, c, rj) \<in> set ps. seen t v rt rj = None"
    using Cons.prems(3,4) p pay_seen[OF t(1)] by (force simp: image_iff)
  from Cons.IH[OF t(2) pay_ok[OF Cons.prems(2) t(1)] _ this] Cons.prems(2-4) p pay_total[OF Cons.prems(2) t(1)]
  show ?case by simp
qed

end

definition seen_delta :: "'s points_db_scheme \<Rightarrow> uuid \<Rightarrow> string \<Rightarrow> string \<Rightarrow> int option" where
  "seen_delta s u rt ri = map_option le_delta (get_by_ref u rt ri s)"

interpretation points: points_port reward balance_of seen_delta points_total points_ok
proof unfold_locales
  fix u d r rt ri neg and s s' :: "'a points_db_scheme" and e v rt' ri'
  assume r: "reward u d r rt ri neg s = Inr (e, s')"
  show "points_ok s \<Longrightarrow> points_ok s'"
    using r by (cases rule: reward_cases) (auto intro: points_ok_ensure points_ok_rewarded)
  show "seen_delta s' v rt' ri' = (if v = u \<and> rt' = rt \<and> ri' = ri then Some d else seen_delta s v rt' ri')"
    using r by (cases rule: reward_cases) (auto simp: seen_delta_def get_by_ref_rewarded split: option.splits)
  show "seen_delta s u rt ri = None \<or> seen_delta s u rt ri = Some d"
    using r by (cases rule: reward_cases) (auto simp: seen_delta_def)
  show "balance_of s' v = balance_of s v + (if v = u \<and> seen_delta s u rt ri = None then d else 0)"
    using r by (cases rule: reward_cases) (auto simp: seen_delta_def)
  show "points_ok s \<Longrightarrow> points_total s' = points_total s + (if seen_delta s u rt ri = None then d else 0)"
    using r by (cases rule: reward_cases) (auto simp: seen_delta_def points_ok_def points_total_rewarded)
next
  fix u d r rt ri and s s' :: "'a points_db_scheme" and e
  assume "reward u d r rt ri False s = Inr (e, s')" and "seen_delta s u rt ri = None"
  then show "0 \<le> balance_of s u + d"
    by (cases rule: reward_cases) (auto simp: seen_delta_def)
qed

section \<open>Transfers\<close>

lemma transfer_cases:
  assumes "transfer a b n reason rt ri s = Inr ((x, y), s')"
  obtains
    (again) "0 < n" "a \<noteq> b" "get_by_ref a rt ri s = Some x" "get_by_ref b rt ri s = Some y" "le_delta x = - n"
      "le_delta y = n" "s' = ensure_balance b (ensure_balance a s)"
  | (fresh) "0 < n" "a \<noteq> b" "get_by_ref a rt ri s = None" "n \<le> balance_of s a"
      "x = ledger_row (pks s (pk_ix s)) a (- n) (balance_of s a - n) ''transfer_out'' rt ri (now s)"
      "y = ledger_row (pks s (Suc (pk_ix s))) b n (balance_of s b + n) ''transfer_in'' rt ri (now s)"
      "s' = s\<lparr>balances := (balances s)(a \<mapsto> \<lparr>ub_balance = balance_of s a - n, ub_updated_at = now s\<rparr>,
                                      b \<mapsto> \<lparr>ub_balance = balance_of s b + n, ub_updated_at = now s\<rparr>),
               ledger := ledger s @ [x, y], pk_ix := Suc (Suc (pk_ix s)),
               cache_fx := cache_fx s @ [Bump ''points'', balance_key a, balance_key b]\<rparr>"
proof -
  have nz: "0 < n" "a \<noteq> b" using assms by (auto simp: transfer_def split: if_splits)
  show ?thesis
  proof (cases "get_by_ref a rt ri s")
    case (Some o)
    with assms nz show ?thesis
      by (intro again) (auto simp: transfer_def Let_def split: if_splits option.splits)
  next
    case None
    with assms nz show ?thesis
      by (intro fresh)
         (auto simp: transfer_def Let_def apply_delta_def repo_apply_delta_def balance_of_def
          ensure_balance_eq get_by_ref_def fresh_pk_def insert_ledger_def emit_fx_def fun_upd_twist
          split: if_splits option.splits)
  qed
qed

lemma find_append_case: "find P (xs @ ys) = (case find P xs of Some x \<Rightarrow> Some x | None \<Rightarrow> find P ys)"
  by (induction xs) auto

lemma transfer_total:
  assumes "transfer a b n reason rt ri s = Inr ((x, y), s')" and "finite (dom (balances s))"
  shows "points_total s' = points_total s"
  using assms(1)
proof (cases rule: transfer_cases)
  case fresh
  let ?t = "s\<lparr>balances := (balances s)(a \<mapsto> \<lparr>ub_balance = balance_of s a - n, ub_updated_at = now s\<rparr>)\<rparr>"
  have fin: "finite (dom (balances ?t))" using assms(2) by simp
  have "points_total s' = tsum ub_balance ((balances ?t)(b \<mapsto> \<lparr>ub_balance = balance_of s b + n, ub_updated_at = now s\<rparr>))"
    unfolding points_total_def fresh(7) by simp
  also have "\<dots> = points_total ?t + n"
    using points_total_set[OF fin] fresh(2) by (simp add: balance_of_def)
  also have "points_total ?t = points_total s - n"
    using points_total_set[OF assms(2)] by (simp add: points_total_def[of ?t])
  finally show ?thesis by simp
qed (use assms(2) in simp)

lemma points_ok_transfer:
  assumes "transfer a b n reason rt ri s = Inr ((x, y), s')" and "points_ok s"
  shows "points_ok s'"
  using assms(1)
proof (cases rule: transfer_cases)
  case fresh
  let ?t = "s\<lparr>balances := (balances s)(a \<mapsto> \<lparr>ub_balance = balance_of s a - n, ub_updated_at = now s\<rparr>),
     ledger := ledger s @ [x]\<rparr>"
  have fin: "finite (dom (balances s))" using assms(2) by (simp add: points_ok_def)
  have t: "points_ok ?t"
    by (rule points_ok_append[OF assms(2), where e = x and u = a and d = "- n"])
       (use fin fresh(5) in \<open>auto simp: balance_of_def\<close>)
  show ?thesis
    by (rule points_ok_append[OF t, where e = y and u = b and d = n])
       (use fin fresh(2,6,7) in \<open>auto simp: balance_of_def\<close>)
qed (use assms(2) in simp)

text \<open>The operations that move points.\<close>

inductive points_step :: "'s points_db_scheme \<Rightarrow> 's points_db_scheme \<Rightarrow> bool" where
  reward: "reward u d reason rt ri neg s = Inr (e, s') \<Longrightarrow> points_step s s'"
| spend: "spend u n reason rt ri s = Inr (e, s') \<Longrightarrow> points_step s s'"
| transfer: "transfer a b n reason rt ri s = Inr (p, s') \<Longrightarrow> points_step s s'"
| consumer: "apply_point_reward u event ri s = Inr s' \<Longrightarrow> points_step s s'"

inductive_cases points_stepE: "points_step s s'"

lemma spend_reward:
  "spend u n reason rt ri s = Inr (e, s') \<longleftrightarrow> 0 < n \<and> reward u (- n) reason rt ri False s = Inr (e, s')"
  by (auto simp: spend_def)

lemma consumer_reward:
  assumes "apply_point_reward u event ri s = Inr s'"
  shows "s' = s \<or> (\<exists>d e. reward u d event event ri False s = Inr (e, s'))"
  using assms by (auto simp: apply_point_reward_def Let_def split: if_splits option.splits)

lemma points_ok_step: "points_step s s' \<Longrightarrow> points_ok s \<Longrightarrow> points_ok s'"
  by (induction rule: points_step.induct)
     (auto simp: spend_reward dest: points.pay_ok points_ok_transfer consumer_reward)

lemma reward_branches:
  assumes "\<And>x. x \<in> set (ledger s) \<Longrightarrow> le_created_at x = now s \<Longrightarrow> le_id x \<noteq> pks s (pk_ix s)"
  shows "reward u d reason rt ri neg s =
    (case get_by_ref u rt ri s of
       Some e \<Rightarrow> if le_delta e = d then Inr (e, ensure_balance u s) else Inl (BizError (PointsErr DUPLICATE_REWARD))
     | None \<Rightarrow>
         if \<not> neg \<and> balance_of s u + d < 0 then Inl (BizError (PointsErr INSUFFICIENT_BALANCE))
         else Inr (ledger_row (pks s (pk_ix s)) u d (balance_of s u + d) reason rt ri (now s),
                   rewarded u d reason rt ri s))"
proof (cases "get_by_ref u rt ri s")
  case (Some e)
  then show ?thesis by (simp add: reward_def Let_def)
next
  case None
  then have no: "\<not> list_ex (\<lambda>x. le_created_at x = now s \<and> has_ref u rt ri x) (ledger s)"
    "\<not> list_ex (\<lambda>x. le_created_at x = now s \<and> (le_id x = pks s (pk_ix s) \<or> has_ref u rt ri x)) (ledger s)"
    using assms by (auto simp: get_by_ref_None list_ex_iff)
  have hr: "has_ref u rt ri (ledger_row i u d b r rt ri t)" for i b r t by (simp add: has_ref_def)
  have fnd: "find (has_ref u rt ri) (ledger s) = None" using None by (simp add: get_by_ref_def)
  show ?thesis
    using None no hr fnd
    by (cases "balances s u")
       (auto simp: reward_def Let_def apply_delta_def repo_apply_delta_def balance_of_def ensure_balance_def
        get_by_ref_def fresh_pk_def upsert_ledger_def insert_ledger_def rewarded_def emit_fx_def get_by_ref_append)
qed

section \<open>Properties\<close>

text \<open>C7: The ledger explains every balance.  After any sequence of rewards, charges, transfers and
  consumed events, the balance of each user is the sum of the amounts of the user's ledger rows, and
  each row shows the balance right after it.\<close>

theorem ledger_explains_balances:
  assumes "points_step\<^sup>*\<^sup>* s s'" and "points_ok s"
  shows "balance_of s' u = sum_list (map le_delta (rows_of u s')) \<and> chained 0 (rows_of u s')"
proof -
  have "points_ok s'" using assms by (induction rule: rtranclp_induct) (auto intro: points_ok_step)
  then show ?thesis by (simp add: points_ok_def)
qed

definition points_db0 :: points_db where
  "points_db0 = core_db.extend db0 (points_db.fields \<lparr>year = 2026, month = 3, day = 1\<rparr> Map.empty [] Map.empty []
     Map.empty [] Map.empty)"

lemma points_db0_simps [simp]:
  "balances points_db0 = Map.empty" "ledger points_db0 = []" "pks points_db0 = of_nat" "pk_ix points_db0 = 0"
  "now points_db0 = 0" "balance_of points_db0 u = 0" "cache_fx points_db0 = []"
  by (simp_all add: points_db0_def core_db.defs points_db.defs db0_def balance_of_def)

lemma points_ok_db0 [simp]: "points_ok points_db0"
  by (simp add: points_ok_def rows_of_def)

lemma reward_db0:
  "reward 1 5 ''checkin'' ''checkin'' ''x'' False points_db0 =
     Inr (ledger_row 0 1 5 5 ''checkin'' ''checkin'' ''x'' 0, rewarded 1 5 ''checkin'' ''checkin'' ''x'' points_db0)"
  by (simp add: reward_def ensure_balance_def get_by_ref_def apply_delta_def repo_apply_delta_def fresh_pk_def
      upsert_ledger_def insert_ledger_def has_ref_def emit_fx_def rewarded_def Let_def)

lemma ledger_explains_balances_witness:
  "balance_of (rewarded 1 5 ''checkin'' ''checkin'' ''x'' points_db0) 1
     = sum_list (map le_delta (rows_of 1 (rewarded 1 5 ''checkin'' ''checkin'' ''x'' points_db0)))"
  using ledger_explains_balances[of points_db0 _ 1, OF r_into_rtranclp[of points_step], OF points_step.reward[OF reward_db0]]
  by simp

text \<open>What \<open>reward\<close> does, on every branch.  A reference that was used before returns its row and
  changes no amount when the amount is the same, and is refused as a duplicate otherwise; a new
  reference is refused when the balance would become negative and \<open>allow_negative\<close> is not set, and
  otherwise adds the amount to the balance of this user only and appends one ledger row.  The only
  assumption is that the new row's primary key is not taken.\<close>

theorem reward_exact:
  assumes "\<And>x. x \<in> set (ledger s) \<Longrightarrow> le_created_at x = now s \<Longrightarrow> le_id x \<noteq> pks s (pk_ix s)"
  shows "reward u d reason rt ri neg s =
    (case get_by_ref u rt ri s of
       Some e \<Rightarrow> if le_delta e = d then Inr (e, ensure_balance u s) else Inl (BizError (PointsErr DUPLICATE_REWARD))
     | None \<Rightarrow>
         if \<not> neg \<and> balance_of s u + d < 0 then Inl (BizError (PointsErr INSUFFICIENT_BALANCE))
         else Inr (ledger_row (pks s (pk_ix s)) u d (balance_of s u + d) reason rt ri (now s),
                   rewarded u d reason rt ri s))"
  using assms by (rule reward_branches)

lemma reward_exact_witness:
  "reward 1 (- 5) ''x'' ''t'' ''r'' False points_db0 = Inl (BizError (PointsErr INSUFFICIENT_BALANCE))"
  using reward_exact[of points_db0 1 "- 5" "''x''" "''t''" "''r''" False] by (simp add: get_by_ref_def)

text \<open>C8: Rewards and charges are idempotent per user and reference, and never make a balance negative
  unless that is asked for: once one has succeeded, a second one under the same reference succeeds
  only with the same amount and leaves every balance as it was.\<close>

theorem reward_idempotent:
  assumes "reward u d reason rt ri neg s = Inr (e, s1)" and "reward u d' reason' rt ri neg' s1 = Inr (e', s2)"
  shows "d' = d \<and> e' = e \<and> balance_of s2 = balance_of s1 \<and> ledger s2 = ledger s1
    \<and> (\<not> neg \<and> 0 \<le> balance_of s v \<longrightarrow> 0 \<le> balance_of s2 v)"
proof (intro conjI impI)
  show d: "d' = d" and b: "balance_of s2 = balance_of s1" by (rule points.pay_twice[OF assms])+
  have e1: "get_by_ref u rt ri s1 = Some e"
    using assms(1) by (cases rule: reward_cases) (auto simp: get_by_ref_rewarded)
  with assms(2) show "e' = e" "ledger s2 = ledger s1" by (cases rule: reward_cases; simp)+
  assume "\<not> neg \<and> 0 \<le> balance_of s v"
  with assms(1) points.pay_nonneg[of u d reason rt ri s e s1 v] b show "0 \<le> balance_of s2 v" by simp
qed

lemma reward_idempotent_witness:
  "0 \<le> balance_of (rewarded 1 5 ''checkin'' ''checkin'' ''x'' points_db0) 1"
proof -
  have "reward 1 5 ''again'' ''checkin'' ''x'' False (rewarded 1 5 ''checkin'' ''checkin'' ''x'' points_db0)
      = Inr (ledger_row 0 1 5 5 ''checkin'' ''checkin'' ''x'' 0,
             ensure_balance 1 (rewarded 1 5 ''checkin'' ''checkin'' ''x'' points_db0))"
    by (simp add: reward_def get_by_ref_def has_ref_def Let_def)
  from reward_idempotent[OF reward_db0 this, of 1] show ?thesis by simp
qed

text \<open>A transfer moves exactly the amount from one user to the other and creates or destroys no
  points; the sender must have the amount.  Repeating the call with the same reference changes
  nothing, provided the receiver had no row under the reference before the first call.\<close>

theorem transfer_conserves:
  assumes "transfer a b n reason rt ri s = Inr (p, s')" and "points_ok s" and "get_by_ref a rt ri s = None"
  shows "balance_of s' = (balance_of s)(a := balance_of s a - n, b := balance_of s b + n)
    \<and> 0 \<le> balance_of s' a \<and> points_total s' = points_total s \<and> points_ok s'
    \<and> (get_by_ref b rt ri s = None \<longrightarrow>
         (\<exists>s2. transfer a b n reason' rt ri s' = Inr (p, s2) \<and> balance_of s2 = balance_of s' \<and> ledger s2 = ledger s'))"
proof -
  obtain x y where p: "p = (x, y)" by (cases p)
  from assms(1)[unfolded p] show ?thesis
  proof (cases rule: transfer_cases)
    case again
    with assms(3) show ?thesis by simp
  next
    case fresh
    have b: "balance_of s' = (balance_of s)(a := balance_of s a - n, b := balance_of s b + n)"
      unfolding fresh(7) by (auto simp: balance_of_def)
    have again: "\<exists>s2. transfer a b n reason' rt ri s' = Inr (p, s2) \<and> balance_of s2 = balance_of s' \<and> ledger s2 = ledger s'"
      if "get_by_ref b rt ri s = None"
    proof -
      have fa: "find (has_ref a rt ri) (ledger s) = None" "find (has_ref b rt ri) (ledger s) = None"
        using assms(3) that by (simp_all add: get_by_ref_def)
      have "get_by_ref a rt ri s' = Some x" "get_by_ref b rt ri s' = Some y"
        using fa fresh(2,5,6) unfolding get_by_ref_def fresh(7)
        by (simp_all add: find_append_case has_ref_def)
      with fresh(1,2,5,6) p have "transfer a b n reason' rt ri s' = Inr (p, ensure_balance b (ensure_balance a s'))"
        by (simp add: transfer_def Let_def)
      then show ?thesis by simp
    qed
    have "finite (dom (balances s))" using assms(2) by (simp add: points_ok_def)
    with b again fresh(2,4) transfer_total[OF assms(1)[unfolded p]] points_ok_transfer[OF assms(1)[unfolded p] assms(2)]
    show ?thesis by simp
  qed
qed

lemma transfer_conserves_witness:
  "\<exists>p s'. transfer 1 2 3 ''gift'' ''t'' ''r'' (rewarded 1 5 ''checkin'' ''checkin'' ''x'' points_db0) = Inr (p, s')
     \<and> balance_of s' 2 = 3 \<and> points_total s' = points_total (rewarded 1 5 ''checkin'' ''checkin'' ''x'' points_db0)"
proof -
  let ?s = "rewarded 1 5 ''checkin'' ''checkin'' ''x'' points_db0"
  have n: "get_by_ref v ''t'' ''r'' ?s = None" for v by (simp add: get_by_ref_def has_ref_def)
  obtain p s' where t: "transfer 1 2 3 ''gift'' ''t'' ''r'' ?s = Inr (p, s')"
    by (simp add: get_by_ref_def transfer_def apply_delta_def repo_apply_delta_def ensure_balance_def insert_ledger_def
        has_ref_def fresh_pk_def balances_rewarded Let_def rewarded_def[of 1])
  from transfer_conserves[OF t points_ok_rewarded[OF points_ok_db0] n] t show ?thesis by auto
qed

text \<open>Without that proviso a repeated transfer is refused.  If the receiver already has a row with
  another amount under the reference, from a reward or from another sender, the transfer still goes
  through, the receiver then has two rows under one reference, and a client that repeats the call is
  told that it is a duplicate instead of getting the existing pair back.\<close>

theorem transfer_replay_refused:
  assumes "transfer a b n reason rt ri s = Inr (p, s')" and "get_by_ref a rt ri s = None"
    and "get_by_ref b rt ri s = Some z" and "le_delta z \<noteq> n"
  shows "transfer a b n reason rt ri s' = Inl (BizError (PointsErr DUPLICATE_REWARD))
    \<and> 2 \<le> length (filter (has_ref b rt ri) (ledger s'))"
proof -
  obtain x y where p: "p = (x, y)" by (cases p)
  from assms(1)[unfolded p] show ?thesis
  proof (cases rule: transfer_cases)
    case again
    with assms(2) show ?thesis by simp
  next
    case fresh
    have f: "find (has_ref a rt ri) (ledger s) = None" "find (has_ref b rt ri) (ledger s) = Some z"
      using assms(2,3) by (simp_all add: get_by_ref_def)
    have "get_by_ref a rt ri s' = Some x" "get_by_ref b rt ri s' = Some z"
      using f fresh(2,5,6) unfolding get_by_ref_def fresh(7)
      by (simp_all add: find_append_case has_ref_def)
    moreover have "z \<in> set (filter (has_ref b rt ri) (ledger s))"
      using get_by_ref_Some[OF assms(3)] by simp
    then have "1 \<le> length (filter (has_ref b rt ri) (ledger s))"
      by (cases "filter (has_ref b rt ri) (ledger s)") simp_all
    then have "2 \<le> length (filter (has_ref b rt ri) (ledger s'))"
      using fresh(6) unfolding fresh(7) by (simp add: has_ref_def)
    ultimately show ?thesis
      using fresh(1,2) assms(4) by (simp add: transfer_def Let_def)
  qed
qed

lemma transfer_replay_refused_witness:
  "\<exists>p s'. transfer 1 2 3 ''gift'' ''checkin'' ''y''
       ((rewarded 2 1 ''a'' ''checkin'' ''y'' (rewarded 1 5 ''checkin'' ''checkin'' ''x'' points_db0))\<lparr>now := 1\<rparr>) = Inr (p, s')
     \<and> transfer 1 2 3 ''gift'' ''checkin'' ''y'' s' = Inl (BizError (PointsErr DUPLICATE_REWARD))"
proof -
  let ?s = "(rewarded 2 1 ''a'' ''checkin'' ''y'' (rewarded 1 5 ''checkin'' ''checkin'' ''x'' points_db0))\<lparr>now := 1\<rparr>"
  have n: "get_by_ref 1 ''checkin'' ''y'' ?s = None" by (simp add: get_by_ref_def has_ref_def)
  obtain z where z: "get_by_ref 2 ''checkin'' ''y'' ?s = Some z" "le_delta z \<noteq> 3"
    by (simp add: get_by_ref_def has_ref_def)
  obtain p s' where t: "transfer 1 2 3 ''gift'' ''checkin'' ''y'' ?s = Inr (p, s')"
    by (simp add: get_by_ref_def transfer_def apply_delta_def repo_apply_delta_def ensure_balance_def insert_ledger_def
        has_ref_def fresh_pk_def balances_rewarded Let_def rewarded_def[of 1] rewarded_def[of 2])
  from transfer_replay_refused[OF t n z] t show ?thesis by auto
qed

end
