(* ===== verification/Points_Engine.thy ===== *)
theory Points_Engine
  imports Points_Store "HOL-Library.Product_Lexorder" "HOL-Library.List_Lexorder" "HOL-Library.Char_ord"
begin

text \<open>
  What happens around points: behaviour counters, achievements, daily tasks and the daily check-in
  (\<open>app/modules/points/engine.py\<close>, \<open>service.py\<close>, \<open>tasks.py\<close>), the leaderboard, and the seeded
  definitions (\<open>seed.py\<close>).
\<close>

section \<open>Tables of rules\<close>

definition EVENT_STAT_KEY :: "(string \<times> string) list" where
  "EVENT_STAT_KEY =
     [(''post'', ''post''), (''comment'', ''comment''), (''like'', ''like''),
      (''file_approved'', ''file_approved''), (''answer_accepted'', ''answer_accepted''),
      (''competition'', ''competition'')]"

definition STAT_TO_ACHIEVEMENT_TYPE :: "(string \<times> string) list" where
  "STAT_TO_ACHIEVEMENT_TYPE =
     [(''post'', ''post_count''), (''like'', ''like_count''), (''file_approved'', ''approved_files''),
      (''answer_accepted'', ''accepted_answers''), (''checkin_streak'', ''checkin_streak''),
      (''competition'', ''competition_count'')]"

definition EVENT_TASK_KEY :: "(string \<times> string) list" where
  "EVENT_TASK_KEY =
     [(''post'', ''post''), (''answer_accepted'', ''answer''), (''like'', ''like''),
      (''file_approved'', ''file_upload''), (''checkin'', ''checkin''), (''competition'', ''competition'')]"

definition ACH_TYPE_TO_STAT :: "(string \<times> string) list" where
  "ACH_TYPE_TO_STAT =
     [(''post_count'', ''post''), (''featured_count'', ''featured_count''),
      (''accepted_answers'', ''answer_accepted''), (''approved_files'', ''file_approved''),
      (''checkin_streak'', ''checkin_streak''), (''project_count'', ''project_count''),
      (''column_articles'', ''column_articles''), (''like_count'', ''like''),
      (''competition_count'', ''competition''), (''onboarding'', ''onboarding'')]"

text \<open>The dict inside \<open>_progress_for\<close>.\<close>

definition PROGRESS_KEY :: "(string \<times> string) list" where
  "PROGRESS_KEY =
     [(''post_count'', ''post''), (''featured_count'', ''featured_count''),
      (''accepted_answers'', ''answer_accepted''), (''approved_files'', ''file_approved''),
      (''checkin_streak'', ''checkin_streak''), (''project_count'', ''project_count''),
      (''column_articles'', ''column_articles''), (''like_count'', ''like''),
      (''competition_count'', ''competition''), (''onboarding'', ''onboarding'')]"

section \<open>Counters and processed events\<close>

definition empty_stat :: behavior_stat where
  "empty_stat = \<lparr>counters = Map.empty, processed_events = None, last_checkin_date = None, checkin_streak = 0\<rparr>"

definition stat_of :: "uuid \<Rightarrow> 's points_db_scheme \<Rightarrow> behavior_stat" where
  "stat_of u s = (case behavior_stats s u of None \<Rightarrow> empty_stat | Some st \<Rightarrow> st)"

definition set_stat :: "uuid \<Rightarrow> behavior_stat \<Rightarrow> 's points_db_scheme \<Rightarrow> 's points_db_scheme" where
  "set_stat u st s = s\<lparr>behavior_stats := (behavior_stats s)(u \<mapsto> st)\<rparr>"

definition get_or_create_stats :: "uuid \<Rightarrow> 's points_db_scheme \<Rightarrow> behavior_stat \<times> 's points_db_scheme" where
  "get_or_create_stats u s =
     (case behavior_stats s u of
        Some st \<Rightarrow> (st, s)
      | None \<Rightarrow> (empty_stat, set_stat u empty_stat s))"

definition counter :: "string \<Rightarrow> behavior_stat \<Rightarrow> int" where
  "counter key st = (case counters st key of None \<Rightarrow> 0 | Some n \<Rightarrow> n)"

definition bump_count :: "uuid \<Rightarrow> string \<Rightarrow> 's points_db_scheme \<Rightarrow> int \<times> 's points_db_scheme" where
  "bump_count u key s =
     (let (st, s) = get_or_create_stats u s;
          cur = counter key st
      in (cur + 1, set_stat u (st\<lparr>counters := (counters st)(key \<mapsto> cur + 1)\<rparr>) s))"

definition processed_key :: "string \<Rightarrow> string \<Rightarrow> string \<Rightarrow> string" where
  "processed_key namespace event ref_id = namespace @ '':'' @ event @ '':'' @ ref_id"

definition event_already_processed ::
    "uuid \<Rightarrow> string \<Rightarrow> string \<Rightarrow> string \<Rightarrow> 's points_db_scheme \<Rightarrow> bool \<times> 's points_db_scheme" where
  "event_already_processed u event ref_id namespace s =
     (let (st, s) = get_or_create_stats u s
      in ((case processed_events st of
             None \<Rightarrow> False
           | Some p \<Rightarrow> processed_key namespace event ref_id \<in> p), s))"

definition mark_event_processed ::
    "uuid \<Rightarrow> string \<Rightarrow> string \<Rightarrow> string \<Rightarrow> 's points_db_scheme \<Rightarrow> 's points_db_scheme" where
  "mark_event_processed u event ref_id namespace s =
     (let (st, s) = get_or_create_stats u s;
          processed = (case processed_events st of None \<Rightarrow> {} | Some p \<Rightarrow> p)
      in set_stat u (st\<lparr>processed_events :=
           Some (insert (processed_key namespace event ref_id) processed)\<rparr>) s)"

section \<open>Achievements\<close>

definition progress_for :: "uuid \<Rightarrow> string \<Rightarrow> 's points_db_scheme \<Rightarrow> int \<times> 's points_db_scheme" where
  "progress_for u type s =
     (let (st, s) = get_or_create_stats u s
      in ((case map_of PROGRESS_KEY type of None \<Rightarrow> 0 | Some key \<Rightarrow> counter key st), s))"

definition recheck_one :: "uuid \<Rightarrow> int \<Rightarrow> achievement \<Rightarrow> 's points_db_scheme \<Rightarrow> 's points_db_scheme" where
  "recheck_one u progress ach s =
     (let ua = (case user_achievements s (u, ac_id ach) of
                  None \<Rightarrow> \<lparr>ua_progress = 0, ua_unlocked = False, ua_unlocked_at = None\<rparr>
                | Some ua \<Rightarrow> ua);
          ua = ua\<lparr>ua_progress := min progress (ac_threshold ach)\<rparr>;
          ua = (if \<not> ua_unlocked ua \<and> ac_threshold ach \<le> progress
                then ua\<lparr>ua_unlocked := True, ua_unlocked_at := Some (now s)\<rparr> else ua)
      in s\<lparr>user_achievements := (user_achievements s)((u, ac_id ach) \<mapsto> ua)\<rparr>)"

definition recheck_achievements :: "uuid \<Rightarrow> string \<Rightarrow> 's points_db_scheme \<Rightarrow> 's points_db_scheme" where
  "recheck_achievements u stat_key s =
     (case map_of STAT_TO_ACHIEVEMENT_TYPE stat_key of
        None \<Rightarrow> s
      | Some type \<Rightarrow>
          let achs = filter (\<lambda>a. ac_type a = type) (achievements s);
              (progress, s) = progress_for u type s
          in fold (recheck_one u progress) achs s)"

section \<open>Daily tasks\<close>

text \<open>
  The row of the day, created when it is missing; its next progress, with the special case of a
  check-in task that needs one check-in; and the step, which pays when the requirement is reached.
\<close>

definition progress_row :: "uuid \<Rightarrow> string \<Rightarrow> task_def \<Rightarrow> 's points_db_scheme \<Rightarrow> task_progress" where
  "progress_row u on_day t s =
     (case task_progresses s (u, td_id t, on_day) of
        None \<Rightarrow> \<lparr>tp_progress = 0, tp_completed = False, tp_rewarded = False\<rparr>
      | Some up \<Rightarrow> up)"

definition next_progress :: "string \<Rightarrow> task_def \<Rightarrow> task_progress \<Rightarrow> int" where
  "next_progress event t up =
     (if td_requirement_count t = 1 \<and> event = ''checkin'' then 1
      else min (tp_progress up + 1) (td_requirement_count t))"

definition advance_one ::
    "uuid \<Rightarrow> string \<Rightarrow> string \<Rightarrow> task_def \<Rightarrow> 's points_db_scheme \<Rightarrow> exc + 's points_db_scheme" where
  "advance_one u event on_day t s =
     (let up = progress_row u on_day t s;
          p = next_progress event t up;
          store = (\<lambda>up s. s\<lparr>task_progresses := (task_progresses s)((u, td_id t, on_day) \<mapsto> up)\<rparr>)
      in if 0 < td_requirement_count t \<and> \<not> tp_completed up \<and> td_requirement_count t \<le> p then
           if \<not> tp_rewarded up then
             bindR (reward u (td_reward_points t) ''daily_task'' ''task''
                      (td_key t @ '':'' @ on_day) False s) (\<lambda>(_, s).
             Inr (store (up\<lparr>tp_progress := p, tp_completed := True, tp_rewarded := True\<rparr>) s))
           else Inr (store (up\<lparr>tp_progress := p, tp_completed := True\<rparr>) s)
         else Inr (store (up\<lparr>tp_progress := p\<rparr>) s))"

definition advance_tasks :: "uuid \<Rightarrow> string \<Rightarrow> string \<Rightarrow> 's points_db_scheme \<Rightarrow> exc + 's points_db_scheme" where
  "advance_tasks u event on_day s =
     (case map_of EVENT_TASK_KEY event of
        None \<Rightarrow> Inr s
      | Some cat \<Rightarrow>
          foldR (advance_one u event on_day) (filter (\<lambda>t. td_category t = cat) (task_definitions s)) s)"

section \<open>Entry points of the subscriptions\<close>

definition apply_event_side_effects ::
    "uuid \<Rightarrow> string \<Rightarrow> string \<Rightarrow> string option \<Rightarrow> 's points_db_scheme \<Rightarrow> exc + 's points_db_scheme" where
  "apply_event_side_effects u event ref_id on_day s =
     (if map_of EVENT_STAT_KEY event = None \<and> map_of EVENT_TASK_KEY event = None then Inr s
      else
        let (seen, s) = event_already_processed u event ref_id ''legacy'' s
        in if seen then Inr s
        else
          let s = mark_event_processed u event ref_id ''legacy'' s;
              tday = (case on_day of Some d \<Rightarrow> if d \<noteq> [] then d else isoformat (today s)
                                | None \<Rightarrow> isoformat (today s));
              s = (case map_of EVENT_STAT_KEY event of
                     None \<Rightarrow> s
                   | Some key \<Rightarrow> recheck_achievements u key (snd (bump_count u key s)))
          in advance_tasks u event tday s)"

definition apply_stats_side_effects ::
    "uuid \<Rightarrow> string \<Rightarrow> string \<Rightarrow> 's points_db_scheme \<Rightarrow> 's points_db_scheme" where
  "apply_stats_side_effects u event ref_id s =
     (case map_of EVENT_STAT_KEY event of
        None \<Rightarrow> s
      | Some key \<Rightarrow>
          let (seen, s) = event_already_processed u event ref_id ''stats'' s
          in if seen then s
             else recheck_achievements u key
                    (snd (bump_count u key (mark_event_processed u event ref_id ''stats'' s))))"

definition apply_task_side_effects ::
    "uuid \<Rightarrow> string \<Rightarrow> string \<Rightarrow> string option \<Rightarrow> 's points_db_scheme \<Rightarrow> exc + 's points_db_scheme" where
  "apply_task_side_effects u event ref_id on_day s =
     (if map_of EVENT_TASK_KEY event = None then Inr s
      else
        let (seen, s) = event_already_processed u event ref_id ''tasks'' s
        in if seen then Inr s
        else advance_tasks u event
               (case on_day of Some d \<Rightarrow> if d \<noteq> [] then d else isoformat (today s)
                          | None \<Rightarrow> isoformat (today s))
               (mark_event_processed u event ref_id ''tasks'' s))"

text \<open>The handlers of \<open>tasks.py\<close> commit what the entry points return, or roll it back.\<close>

definition apply_point_stats :: "uuid \<Rightarrow> string \<Rightarrow> string \<Rightarrow> 's points_db_scheme \<Rightarrow> exc + 's points_db_scheme" where
  "apply_point_stats u event ref_id s = Inr (apply_stats_side_effects u event ref_id s)"

definition apply_point_daily_tasks ::
    "uuid \<Rightarrow> string \<Rightarrow> string \<Rightarrow> 's points_db_scheme \<Rightarrow> exc + 's points_db_scheme" where
  "apply_point_daily_tasks u event ref_id s = apply_task_side_effects u event ref_id None s"

section \<open>Check-in\<close>

record checkin_result =
  cr_success :: bool
  cr_earned :: int
  cr_streak :: int
  cr_today_checked :: bool

definition do_checkin :: "uuid \<Rightarrow> 's points_db_scheme \<Rightarrow> exc + checkin_result \<times> 's points_db_scheme" where
  "do_checkin u s =
     (let on_day = isoformat (today s);
          yesterday = isoformat (previous_day (today s));
          (st, s) = get_or_create_stats u s
      in if last_checkin_date st = Some on_day then
           Inr (\<lparr>cr_success = True, cr_earned = 0, cr_streak = checkin_streak st, cr_today_checked = True\<rparr>, s)
         else
           let reward_delta = (case map_of RULE_DELTAS ''checkin'' of Some d \<Rightarrow> d | None \<Rightarrow> 0);
               streak = (if last_checkin_date st = Some yesterday then checkin_streak st + 1 else 1);
               st = st\<lparr>checkin_streak := streak, last_checkin_date := Some on_day\<rparr>;
               s = set_stat u st s
           in bindR (reward u reward_delta ''checkin'' ''checkin'' (uuid_str u @ '':'' @ on_day) False s) (\<lambda>(_, s).
              let s = set_stat u (st\<lparr>counters := (counters st)(''checkin_streak'' \<mapsto> streak)\<rparr>) s;
                  s = recheck_achievements u ''checkin_streak'' s
              in bindR (advance_tasks u ''checkin'' on_day s) (\<lambda>s.
                 Inr (\<lparr>cr_success = True, cr_earned = reward_delta, cr_streak = streak, cr_today_checked = False\<rparr>, s))))"

section \<open>Read models\<close>

definition title_from_keys :: "string set \<Rightarrow> string" where
  "title_from_keys unlocked =
     (if ''a7'' \<in> unlocked then ''hardcore''
      else if ''a12'' \<in> unlocked then ''columnAuthor''
      else if ''a8'' \<in> unlocked then ''fileExpert''
      else ''active'')"

definition unlocked_keys :: "uuid \<Rightarrow> 's points_db_scheme \<Rightarrow> string set" where
  "unlocked_keys u s =
     set (map ac_key (filter (\<lambda>a. case user_achievements s (u, ac_id a) of
                                    None \<Rightarrow> False | Some ua \<Rightarrow> ua_unlocked ua) (achievements s)))"

text \<open>A user without any unlocked achievement is not in the result of the query and gets the default.\<close>

definition title_for :: "uuid \<Rightarrow> 's points_db_scheme \<Rightarrow> string" where
  "title_for u s =
     (if unlocked_keys u s = {} then ''active'' else title_from_keys (unlocked_keys u s))"

definition list_positive :: "'s points_db_scheme \<Rightarrow> (uuid \<times> int) list" where
  "list_positive s =
     map (\<lambda>u. (u, balance_of s u))
       (filter (\<lambda>u. 0 < balance_of s u) (sorted_list_of_set (dom (balances s))))"

definition sum_positive_since :: "instant \<Rightarrow> 's points_db_scheme \<Rightarrow> (uuid \<times> int) list" where
  "sum_positive_since since s =
     (let rows = filter (\<lambda>e. since \<le> le_created_at e \<and> 0 < le_delta e) (ledger s)
      in map (\<lambda>u. (u, sum_list (map le_delta (filter (\<lambda>e. le_user_id e = u) rows))))
           (remdups (map le_user_id rows)))"

text \<open>A user snapshot gives the nickname, if there is one, and the user name.\<close>

type_synonym snapshots = "uuid \<rightharpoonup> string option \<times> string"

record leader =
  ld_user_id :: uuid
  ld_display_name :: string
  ld_balance :: int
  ld_title :: string

definition nick_of :: "snapshots \<Rightarrow> uuid \<Rightarrow> string option" where
  "nick_of snaps u = (case snaps u of None \<Rightarrow> None | Some (nick, _) \<Rightarrow> nick)"

definition display_of :: "snapshots \<Rightarrow> string \<Rightarrow> uuid \<Rightarrow> string" where
  "display_of snaps fallback u =
     (case snaps u of
        None \<Rightarrow> fallback
      | Some (nick, username) \<Rightarrow>
          (case nick of Some n \<Rightarrow> if n \<noteq> [] then n else username | None \<Rightarrow> username))"

definition rank_key :: "snapshots \<Rightarrow> uuid \<times> int \<Rightarrow> int \<times> bool \<times> string \<times> uuid" where
  "rank_key snaps r =
     (- snd r, nick_of snaps (fst r) \<noteq> None,
      (case nick_of snaps (fst r) of None \<Rightarrow> [] | Some n \<Rightarrow> n), fst r)"

definition leaderboard_load :: "snapshots \<Rightarrow> string \<Rightarrow> 's points_db_scheme \<Rightarrow> exc + leader list" where
  "leaderboard_load snaps period s =
     (let rows = (if period = ''total'' then Inr (map (\<lambda>r. (r, [])) (list_positive s))
                  else if period = ''daily'' then
                    Inr (map (\<lambda>r. (r, uuid_str (fst r))) (sum_positive_since (now s - days 1) s))
                  else if period = ''weekly'' then
                    Inr (map (\<lambda>r. (r, uuid_str (fst r))) (sum_positive_since (now s - days 7) s))
                  else Inl (BizError (PointsErr INVALID_PERIOD)))
      in bindR rows (\<lambda>rows.
         Inr (map (\<lambda>(r, fallback). \<lparr>ld_user_id = fst r, ld_display_name = display_of snaps fallback (fst r),
                                     ld_balance = snd r, ld_title = title_for (fst r) s\<rparr>)
               (sort_key (rank_key snaps \<circ> fst) rows))))"

text \<open>Python's slice \<open>xs[a:b]\<close>.\<close>

definition py_slice :: "'a list \<Rightarrow> int \<Rightarrow> int \<Rightarrow> 'a list" where
  "py_slice xs a b =
     (let n = int (length xs);
          norm = (\<lambda>i. if i < 0 then max 0 (n + i) else min i n)
      in take (nat (norm b - norm a)) (drop (nat (norm a)) xs))"

definition leaderboard ::
    "snapshots \<Rightarrow> int \<Rightarrow> int \<Rightarrow> string \<Rightarrow> 's points_db_scheme \<Rightarrow> exc + leader list \<times> nat" where
  "leaderboard snaps offset limit period s =
     bindR (leaderboard_load snaps period s) (\<lambda>payload.
     Inr (py_slice payload offset (offset + limit), length payload))"

definition progress_from_stat :: "behavior_stat option \<Rightarrow> string \<Rightarrow> int" where
  "progress_from_stat stat type =
     (case (stat, map_of ACH_TYPE_TO_STAT type) of
        (Some st, Some key) \<Rightarrow> counter key st
      | _ \<Rightarrow> 0)"

definition list_achievements :: "uuid option \<Rightarrow> 's points_db_scheme \<Rightarrow> (achievement \<times> int \<times> bool) list" where
  "list_achievements user s =
     map (\<lambda>a.
        case user of
          None \<Rightarrow> (a, 0, False)
        | Some u \<Rightarrow>
            (case user_achievements s (u, ac_id a) of
               Some ua \<Rightarrow> (a, ua_progress ua, ua_unlocked ua)
             | None \<Rightarrow> (a, min (progress_from_stat (behavior_stats s u) (ac_type a)) (ac_threshold a), False)))
       (sort_key ac_sort_order (achievements s))"

definition list_tasks :: "uuid option \<Rightarrow> 's points_db_scheme \<Rightarrow> (task_def \<times> int \<times> bool) list" where
  "list_tasks user s =
     map (\<lambda>t.
        case user of
          None \<Rightarrow> (t, 0, False)
        | Some u \<Rightarrow>
            (case task_progresses s (u, td_id t, isoformat (today s)) of
               Some up \<Rightarrow> (t, tp_progress up, tp_completed up)
             | None \<Rightarrow> (t, 0, False)))
       (sort_key td_sort_order (task_definitions s))"

section \<open>Seeds\<close>

text \<open>Of the seeded rows the texts and icons are left out; \<open>id\<close> is drawn when a row is inserted.\<close>

definition seed_achievement :: "string \<times> string \<times> int \<times> int \<Rightarrow> uuid \<Rightarrow> achievement" where
  "seed_achievement row i =
     (case row of (k, type, threshold, ord) \<Rightarrow>
        \<lparr>ac_id = i, ac_key = k, ac_type = type, ac_threshold = threshold, ac_reward_points = 0, ac_sort_order = ord\<rparr>)"

definition ACHIEVEMENTS :: "(string \<times> string \<times> int \<times> int) list" where
  "ACHIEVEMENTS =
     [(''a1'', ''onboarding'', 1, 1), (''a2'', ''post_count'', 1, 2), (''a3'', ''post_count'', 10, 3),
      (''a4'', ''featured_count'', 1, 4), (''a5'', ''post_count'', 100, 5), (''a6'', ''accepted_answers'', 5, 6),
      (''a7'', ''accepted_answers'', 20, 7), (''a8'', ''approved_files'', 10, 8),
      (''a9'', ''checkin_streak'', 7, 9), (''a10'', ''checkin_streak'', 30, 10),
      (''a11'', ''project_count'', 3, 11), (''a12'', ''column_articles'', 5, 12)]"

definition TASKS :: "(string \<times> string \<times> int \<times> int \<times> int) list" where
  "TASKS =
     [(''t1'', ''checkin'', 1, 5, 1), (''t2'', ''post'', 1, 10, 2), (''t3'', ''answer'', 3, 30, 3),
      (''t4'', ''like'', 10, 5, 4), (''t5'', ''file_upload'', 1, 15, 5)]"

definition seed_task :: "string \<times> string \<times> int \<times> int \<times> int \<Rightarrow> uuid \<Rightarrow> task_def" where
  "seed_task row i =
     (case row of (k, cat, req, pts, ord) \<Rightarrow>
        \<lparr>td_id = i, td_key = k, td_category = cat, td_requirement_count = req, td_reward_points = pts,
         td_sort_order = ord\<rparr>)"

definition seed_achievements :: "'s points_db_scheme \<Rightarrow> nat \<times> 's points_db_scheme" where
  "seed_achievements s =
     foldl (\<lambda>(n, s) row.
        if list_ex (\<lambda>a. ac_key a = fst row) (achievements s) then (n, s)
        else let (i, s) = fresh_pk s in (Suc n, s\<lparr>achievements := achievements s @ [seed_achievement row i]\<rparr>))
       (0, s) ACHIEVEMENTS"

definition seed_tasks :: "'s points_db_scheme \<Rightarrow> nat \<times> 's points_db_scheme" where
  "seed_tasks s =
     foldl (\<lambda>(n, s) row.
        if list_ex (\<lambda>t. td_key t = fst row) (task_definitions s) then (n, s)
        else let (i, s) = fresh_pk s in (Suc n, s\<lparr>task_definitions := task_definitions s @ [seed_task row i]\<rparr>))
       (0, s) TASKS"

section \<open>What the parts leave alone\<close>

lemma reward_frame:
  assumes "reward u d r rt ri neg s = Inr (e, s')"
  shows "behavior_stats s' = behavior_stats s" "user_achievements s' = user_achievements s"
    "task_progresses s' = task_progresses s" "achievements s' = achievements s"
    "task_definitions s' = task_definitions s" "today s' = today s" "now s' = now s"
  using assms by (cases rule: reward_cases; simp add: ensure_balance_eq rewarded_def)+

lemma recheck_one_frame [simp]:
  "behavior_stats (recheck_one u p a s) = behavior_stats s" "ledger (recheck_one u p a s) = ledger s"
  "balances (recheck_one u p a s) = balances s" "task_progresses (recheck_one u p a s) = task_progresses s"
  "achievements (recheck_one u p a s) = achievements s" "task_definitions (recheck_one u p a s) = task_definitions s"
  "today (recheck_one u p a s) = today s" "now (recheck_one u p a s) = now s"
  by (simp_all add: recheck_one_def Let_def)

lemma fold_recheck_frame [simp]:
  "behavior_stats (fold (recheck_one u p) as s) = behavior_stats s"
  "ledger (fold (recheck_one u p) as s) = ledger s"
  "balances (fold (recheck_one u p) as s) = balances s"
  "task_progresses (fold (recheck_one u p) as s) = task_progresses s"
  "achievements (fold (recheck_one u p) as s) = achievements s"
  "task_definitions (fold (recheck_one u p) as s) = task_definitions s"
  "today (fold (recheck_one u p) as s) = today s" "now (fold (recheck_one u p) as s) = now s"
  by (induction as arbitrary: s) simp_all

lemma set_stat_simps [simp]:
  "behavior_stats (set_stat u st s) = (behavior_stats s)(u \<mapsto> st)" "ledger (set_stat u st s) = ledger s"
  "balances (set_stat u st s) = balances s" "task_progresses (set_stat u st s) = task_progresses s"
  "achievements (set_stat u st s) = achievements s" "task_definitions (set_stat u st s) = task_definitions s"
  "user_achievements (set_stat u st s) = user_achievements s"
  "today (set_stat u st s) = today s" "now (set_stat u st s) = now s"
  by (simp_all add: set_stat_def)

lemma stats_eq: "get_or_create_stats u s = (stat_of u s, if behavior_stats s u = None then set_stat u empty_stat s else s)"
  by (auto simp: get_or_create_stats_def stat_of_def split: option.splits)

lemma stat_of_set [simp]: "stat_of u (set_stat u st s) = st"
  by (simp add: stat_of_def)

lemma recheck_known:
  "behavior_stats s u \<noteq> None \<Longrightarrow> recheck_achievements u key s =
     (case map_of STAT_TO_ACHIEVEMENT_TYPE key of
        None \<Rightarrow> s
      | Some type \<Rightarrow>
          fold (recheck_one u (case map_of PROGRESS_KEY type of None \<Rightarrow> 0 | Some k \<Rightarrow> counter k (stat_of u s)))
            (filter (\<lambda>a. ac_type a = type) (achievements s)) s)"
  by (auto simp: recheck_achievements_def progress_for_def stats_eq Let_def split: option.splits)

lemma recheck_frame:
  assumes "behavior_stats s u \<noteq> None"
  shows "behavior_stats (recheck_achievements u key s) = behavior_stats s"
    "ledger (recheck_achievements u key s) = ledger s" "balances (recheck_achievements u key s) = balances s"
    "task_progresses (recheck_achievements u key s) = task_progresses s"
    "task_definitions (recheck_achievements u key s) = task_definitions s"
    "today (recheck_achievements u key s) = today s"
  by (simp_all add: recheck_known[OF assms] split: option.splits)

lemma advance_one_frame:
  assumes "advance_one u event d t s = Inr s'"
  shows "behavior_stats s' = behavior_stats s \<and> today s' = today s \<and> task_definitions s' = task_definitions s
    \<and> user_achievements s' = user_achievements s \<and> achievements s' = achievements s"
  using assms by (auto simp: advance_one_def Let_def bindR_Inr_iff split: if_splits dest: reward_frame)

lemma advance_tasks_frame:
  assumes "advance_tasks u event d s = Inr s'"
  shows "behavior_stats s' = behavior_stats s \<and> today s' = today s \<and> task_definitions s' = task_definitions s
    \<and> user_achievements s' = user_achievements s \<and> achievements s' = achievements s"
proof (cases "map_of EVENT_TASK_KEY event")
  case (Some cat)
  with assms have "foldR (advance_one u event d) (filter (\<lambda>t. td_category t = cat) (task_definitions s)) s = Inr s'"
    by (simp add: advance_tasks_def)
  then show ?thesis
    by (rule foldR_inv[where I = "\<lambda>t. behavior_stats t = behavior_stats s \<and> today t = today s
        \<and> task_definitions t = task_definitions s \<and> user_achievements t = user_achievements s
        \<and> achievements t = achievements s"]) (auto dest: advance_one_frame)
qed (use assms in \<open>simp add: advance_tasks_def\<close>)

section \<open>References are used once\<close>

definition refs_unique :: "'s points_db_scheme \<Rightarrow> bool" where
  "refs_unique s \<longleftrightarrow> distinct (map (\<lambda>e. (le_user_id e, le_ref_type e, le_ref_id e)) (ledger s))"

lemma refs_unique_reward:
  assumes "reward u d r rt ri neg s = Inr (e, s')" and "refs_unique s"
  shows "refs_unique s'"
  using assms(1)
proof (cases rule: reward_cases)
  case again
  with assms(2) show ?thesis by (simp add: refs_unique_def)
next
  case fresh
  then show ?thesis
    using assms(2) by (auto simp: refs_unique_def get_by_ref_None has_ref_def)
qed

lemma refs_unique_count:
  assumes "refs_unique s"
  shows "length (filter (has_ref u rt ri) (ledger s)) = (if get_by_ref u rt ri s = None then 0 else 1)"
proof -
  have "length (filter (has_ref u rt ri) xs) = (if find (has_ref u rt ri) xs = None then 0 else 1)"
    if "distinct (map (\<lambda>e. (le_user_id e, le_ref_type e, le_ref_id e)) xs)" for xs
    using that
  proof (induction xs)
    case (Cons x xs)
    have "find (has_ref u rt ri) xs = None" if "has_ref u rt ri x"
      unfolding find_None_iff using Cons.prems that by (auto simp: has_ref_def image_iff)
    with Cons show ?case by auto
  qed simp
  then show ?thesis using assms by (simp add: refs_unique_def get_by_ref_def)
qed

text \<open>
  Progress rows: within the requirement, completed when it is reached, rewarded when completed, and
  then paid under the reference of the task and the day.
\<close>

definition progress_ok :: "'s points_db_scheme \<Rightarrow> bool" where
  "progress_ok s \<longleftrightarrow>
     distinct (map td_id (task_definitions s))
     \<and> (\<forall>t \<in> set (task_definitions s). \<forall>u d up. task_progresses s (u, td_id t, d) = Some up \<longrightarrow>
          tp_progress up \<le> max 0 (td_requirement_count t)
          \<and> (tp_rewarded up \<longleftrightarrow> tp_completed up)
          \<and> (tp_completed up \<longleftrightarrow> 0 < td_requirement_count t \<and> td_requirement_count t \<le> tp_progress up)
          \<and> (tp_completed up \<longrightarrow>
                seen_delta s u ''task'' (td_key t @ '':'' @ d) = Some (td_reward_points t)))"

lemma seen_kept:
  "reward u d r rt ri neg s = Inr (e, s') \<Longrightarrow> seen_delta s v rt' ri' = Some n \<Longrightarrow> seen_delta s' v rt' ri' = Some n"
  using points.pay_seen[of u d r rt ri neg s e s' v rt' ri'] points.pay_agrees[of u d r rt ri neg s e s']
  by (auto split: if_splits)

definition row_fits :: "task_def \<Rightarrow> task_progress \<Rightarrow> bool" where
  "row_fits t up \<longleftrightarrow> tp_progress up \<le> max 0 (td_requirement_count t)
     \<and> (tp_rewarded up \<longleftrightarrow> tp_completed up)
     \<and> (tp_completed up \<longleftrightarrow> 0 < td_requirement_count t \<and> td_requirement_count t \<le> tp_progress up)"

lemma progress_ok_alt:
  "progress_ok s \<longleftrightarrow> distinct (map td_id (task_definitions s))
     \<and> (\<forall>t \<in> set (task_definitions s). \<forall>u d up. task_progresses s (u, td_id t, d) = Some up \<longrightarrow>
          row_fits t up \<and> (tp_completed up \<longrightarrow>
                seen_delta s u ''task'' (td_key t @ '':'' @ d) = Some (td_reward_points t)))"
  unfolding progress_ok_def row_fits_def by (simp only: conj_assoc)

text \<open>One task, one step: the row of the task fits again, and if it is completed it has been paid.\<close>

lemma advance_one_row:
  assumes "advance_one u event d t s = Inr s'" and "progress_ok s" and "t \<in> set (task_definitions s)"
  obtains up where "task_progresses s' = (task_progresses s)((u, td_id t, d) \<mapsto> up)" and "row_fits t up"
    and "tp_completed up \<Longrightarrow> seen_delta s' u ''task'' (td_key t @ '':'' @ d) = Some (td_reward_points t)"
    and "\<And>v rt ri n. seen_delta s v rt ri = Some n \<Longrightarrow> seen_delta s' v rt ri = Some n"
proof -
  define old where "old = progress_row u d t s"
  define p where "p = next_progress event t old"
  have old: "row_fits t old"
    "tp_completed old \<Longrightarrow> seen_delta s u ''task'' (td_key t @ '':'' @ d) = Some (td_reward_points t)"
    using assms(2,3) unfolding progress_ok_alt old_def progress_row_def by (auto simp: row_fits_def split: option.splits)
  have ple: "p \<le> max 0 (td_requirement_count t)" by (auto simp: p_def next_progress_def)
  have pstay: "tp_completed old \<Longrightarrow> td_requirement_count t \<le> p"
    using old(1) by (auto simp: p_def next_progress_def row_fits_def)
  let ?k = "(u, td_id t, d)"
  note eq = assms(1)[unfolded advance_one_def Let_def, folded old_def, folded p_def]
  show ?thesis
  proof (cases "0 < td_requirement_count t \<and> \<not> tp_completed old \<and> td_requirement_count t \<le> p")
    case True
    then have nr: "\<not> tp_rewarded old" using old(1) by (auto simp: row_fits_def)
    from eq True nr obtain e s1 where r: "reward u (td_reward_points t) ''daily_task'' ''task'' (td_key t @ '':'' @ d) False s = Inr (e, s1)"
      and s': "s' = s1\<lparr>task_progresses := (task_progresses s1)(?k \<mapsto> old\<lparr>tp_progress := p, tp_completed := True, tp_rewarded := True\<rparr>)\<rparr>"
      by (auto simp: bindR_Inr_iff)
    have sd: "seen_delta s' = seen_delta s1" by (simp add: s' seen_delta_def get_by_ref_def fun_eq_iff)
    show ?thesis
    proof (rule that)
      show "task_progresses s' = (task_progresses s)(?k \<mapsto> old\<lparr>tp_progress := p, tp_completed := True, tp_rewarded := True\<rparr>)"
        using reward_frame(3)[OF r] by (simp add: s')
      show "row_fits t (old\<lparr>tp_progress := p, tp_completed := True, tp_rewarded := True\<rparr>)"
        using True ple by (simp add: row_fits_def)
      show "seen_delta s' u ''task'' (td_key t @ '':'' @ d) = Some (td_reward_points t)"
        using points.pay_seen[OF r] by (simp add: sd)
      show "\<And>v rt ri n. seen_delta s v rt ri = Some n \<Longrightarrow> seen_delta s' v rt ri = Some n"
        using seen_kept[OF r] by (simp add: sd)
    qed
  next
    case False
    with eq have s': "s' = s\<lparr>task_progresses := (task_progresses s)(?k \<mapsto> old\<lparr>tp_progress := p\<rparr>)\<rparr>" by auto
    have sd: "seen_delta s' = seen_delta s" by (simp add: s' seen_delta_def get_by_ref_def fun_eq_iff)
    show ?thesis
    proof (rule that)
      show "task_progresses s' = (task_progresses s)(?k \<mapsto> old\<lparr>tp_progress := p\<rparr>)" by (simp add: s')
      show "row_fits t (old\<lparr>tp_progress := p\<rparr>)"
        using False ple pstay old(1) by (auto simp: row_fits_def)
    qed (use old(2) in \<open>simp_all add: sd\<close>)
  qed
qed

lemma progress_ok_advance_one:
  assumes "advance_one u event d t s = Inr s'" and "progress_ok s" and "t \<in> set (task_definitions s)"
  shows "progress_ok s'"
proof -
  obtain up where up: "task_progresses s' = (task_progresses s)((u, td_id t, d) \<mapsto> up)" "row_fits t up"
    "tp_completed up \<Longrightarrow> seen_delta s' u ''task'' (td_key t @ '':'' @ d) = Some (td_reward_points t)"
    "\<And>v rt ri n. seen_delta s v rt ri = Some n \<Longrightarrow> seen_delta s' v rt ri = Some n"
    by (rule advance_one_row[OF assms], rule that)
  have td: "task_definitions s' = task_definitions s" using advance_one_frame[OF assms(1)] by simp
  have uniq: "t' = t" if "t' \<in> set (task_definitions s)" "td_id t' = td_id t" for t'
    using assms(2,3) that by (metis progress_ok_def distinct_map inj_onD)
  show ?thesis
    unfolding progress_ok_alt td
  proof (intro conjI ballI allI impI)
    show "distinct (map td_id (task_definitions s))" using assms(2) by (simp add: progress_ok_def)
    fix t' v d' up' assume t': "t' \<in> set (task_definitions s)" "task_progresses s' (v, td_id t', d') = Some up'"
    show "row_fits t' up'"
      using assms(2) t' up(1,2) uniq unfolding progress_ok_alt by (auto split: if_splits)
    assume c: "tp_completed up'"
    show "seen_delta s' v ''task'' (td_key t' @ '':'' @ d') = Some (td_reward_points t')"
    proof (cases "(v, td_id t', d') = (u, td_id t, d)")
      case True
      with t' c up(1,3) uniq[OF t'(1)] show ?thesis by auto
    next
      case False
      with t' up(1) have "task_progresses s (v, td_id t', d') = Some up'" by auto
      with assms(2) t'(1) c have "seen_delta s v ''task'' (td_key t' @ '':'' @ d') = Some (td_reward_points t')"
        unfolding progress_ok_alt by blast
      then show ?thesis by (rule up(4))
    qed
  qed
qed

lemma refs_unique_advance_one:
  assumes "advance_one u event d t s = Inr s'" and "refs_unique s"
  shows "refs_unique s'"
proof -
  have *: "refs_unique (x\<lparr>task_progresses := T\<rparr>) = refs_unique x" for x :: "'a points_db_scheme" and T
    by (simp add: refs_unique_def)
  from assms show ?thesis
    by (auto simp: advance_one_def Let_def bindR_Inr_iff * split: if_splits intro: refs_unique_reward)
qed

lemma advance_tasks_ok:
  assumes "advance_tasks u event d s = Inr s'" and "progress_ok s" and "refs_unique s"
  shows "progress_ok s' \<and> refs_unique s'"
proof (cases "map_of EVENT_TASK_KEY event")
  case (Some cat)
  with assms(1) have "foldR (advance_one u event d) (filter (\<lambda>t. td_category t = cat) (task_definitions s)) s = Inr s'"
    by (simp add: advance_tasks_def)
  then have "(progress_ok s' \<and> refs_unique s') \<and> task_definitions s' = task_definitions s"
  proof (rule foldR_inv)
    fix t x y assume "t \<in> set (filter (\<lambda>t. td_category t = cat) (task_definitions s))"
      and "(progress_ok x \<and> refs_unique x) \<and> task_definitions x = task_definitions s" and "advance_one u event d t x = Inr y"
    then show "(progress_ok y \<and> refs_unique y) \<and> task_definitions y = task_definitions s"
      using progress_ok_advance_one[of u event d t x y] refs_unique_advance_one[of u event d t x y]
        advance_one_frame[of u event d t x y] by auto
  qed (use assms in simp)
  then show ?thesis by simp
qed (use assms in \<open>simp add: advance_tasks_def\<close>)

section \<open>The operations around points\<close>

lemma progress_ok_reward:
  assumes "reward u d r rt ri neg s = Inr (e, s')" and "progress_ok s"
  shows "progress_ok s'"
  using assms(2) reward_frame(3,5)[OF assms(1)] seen_kept[OF assms(1)]
  unfolding progress_ok_alt by auto

lemma progress_ok_cong:
  "ledger s' = ledger s \<Longrightarrow> task_progresses s' = task_progresses s \<Longrightarrow> task_definitions s' = task_definitions s
    \<Longrightarrow> progress_ok s' = progress_ok s"
  "ledger s' = ledger s \<Longrightarrow> refs_unique s' = refs_unique s"
  by (simp_all add: progress_ok_def refs_unique_def seen_delta_def get_by_ref_def)

text \<open>\<open>s'\<close> may differ from \<open>s\<close> only in counters and achievements, and in these only for \<open>u\<close>.\<close>

definition same_money :: "'s points_db_scheme \<Rightarrow> 's points_db_scheme \<Rightarrow> bool" where
  "same_money s s' \<longleftrightarrow> ledger s' = ledger s \<and> balances s' = balances s
     \<and> task_progresses s' = task_progresses s \<and> task_definitions s' = task_definitions s
     \<and> achievements s' = achievements s \<and> today s' = today s"

lemma same_money_trans: "same_money a b \<Longrightarrow> same_money b c \<Longrightarrow> same_money a c"
  by (simp add: same_money_def)

lemma same_money_set [simp]: "same_money s (set_stat u st s)" "same_money s s"
  by (simp_all add: same_money_def)

lemma same_money_recheck: "behavior_stats s u \<noteq> None \<Longrightarrow> same_money s (recheck_achievements u key s)"
  by (simp add: same_money_def recheck_known split: option.splits)

lemma bump_eq: "behavior_stats s u \<noteq> None \<Longrightarrow> bump_count u key s =
    (counter key (stat_of u s) + 1,
     set_stat u ((stat_of u s)\<lparr>counters := (counters (stat_of u s))(key \<mapsto> counter key (stat_of u s) + 1)\<rparr>) s)"
  by (auto simp: bump_count_def stats_eq Let_def)

lemma seen_eq: "event_already_processed u ev ref ns s =
    ((case processed_events (stat_of u s) of None \<Rightarrow> False | Some p \<Rightarrow> processed_key ns ev ref \<in> p),
     if behavior_stats s u = None then set_stat u empty_stat s else s)"
  by (simp add: event_already_processed_def stats_eq Let_def)

definition marked :: "uuid \<Rightarrow> string \<Rightarrow> 's points_db_scheme \<Rightarrow> bool" where
  "marked u key s \<longleftrightarrow> (\<exists>st p. behavior_stats s u = Some st \<and> processed_events st = Some p \<and> key \<in> p)"

lemma mark_marks:
  "marked u (processed_key ns ev ref) (mark_event_processed u ev ref ns s)"
  "behavior_stats (mark_event_processed u ev ref ns s) u \<noteq> None"
  "same_money s (mark_event_processed u ev ref ns s)"
  by (auto simp: marked_def mark_event_processed_def stats_eq Let_def same_money_def)

lemma marked_seen:
  "marked u (processed_key ns ev ref) s \<Longrightarrow> event_already_processed u ev ref ns s = (True, s)"
  by (auto simp: marked_def seen_eq stat_of_def)

lemma marked_cong: "behavior_stats s' u = behavior_stats s u \<Longrightarrow> marked u k s' = marked u k s"
  by (simp add: marked_def)

lemma stats_effects:
  assumes "map_of EVENT_STAT_KEY ev = Some key"
  shows "marked u (processed_key ''stats'' ev ref) (apply_stats_side_effects u ev ref s)"
    and "same_money s (apply_stats_side_effects u ev ref s)"
proof -
  let ?s0 = "if behavior_stats s u = None then set_stat u empty_stat s else s"
  let ?s1 = "mark_event_processed u ev ref ''stats'' ?s0"
  let ?s2 = "snd (bump_count u key ?s1)"
  have k: "behavior_stats ?s1 u \<noteq> None" by (rule mark_marks)
  then have k2: "behavior_stats ?s2 u \<noteq> None" by (simp add: bump_eq)
  have m2: "marked u (processed_key ''stats'' ev ref) ?s2"
    using mark_marks(1)[of u "''stats''" ev ref ?s0] k by (auto simp: bump_eq marked_def stat_of_def)
  have "same_money s ?s2"
    using mark_marks(3)[of ?s0 u ev ref "''stats''"] k by (auto simp: bump_eq same_money_def split: if_splits)
  then have sm: "same_money s (recheck_achievements u key ?s2)"
    using same_money_recheck[OF k2] same_money_trans by blast
  have mm: "marked u (processed_key ''stats'' ev ref) (recheck_achievements u key ?s2)"
    using m2 recheck_frame(1)[OF k2] by (simp add: marked_def)
  have seen: "(case processed_events (stat_of u s) of None \<Rightarrow> False | Some p \<Rightarrow> processed_key ''stats'' ev ref \<in> p)
      \<Longrightarrow> marked u (processed_key ''stats'' ev ref) ?s0"
    by (auto simp: stat_of_def marked_def empty_stat_def split: option.splits)
  show "marked u (processed_key ''stats'' ev ref) (apply_stats_side_effects u ev ref s)"
    "same_money s (apply_stats_side_effects u ev ref s)"
    using sm mm seen by (auto simp: apply_stats_side_effects_def assms seen_eq Let_def same_money_def)
qed

lemma checkin_cases:
  assumes "do_checkin u s = Inr (r, s')"
  obtains
    (again) "last_checkin_date (stat_of u s) = Some (isoformat (today s))"
      "r = \<lparr>cr_success = True, cr_earned = 0, cr_streak = checkin_streak (stat_of u s), cr_today_checked = True\<rparr>"
      "s' = s"
  | (fresh) st e s1 s2 where "last_checkin_date (stat_of u s) \<noteq> Some (isoformat (today s))"
      "st = (stat_of u s)\<lparr>checkin_streak := (if last_checkin_date (stat_of u s) = Some (isoformat (previous_day (today s)))
            then checkin_streak (stat_of u s) + 1 else 1), last_checkin_date := Some (isoformat (today s))\<rparr>"
      "reward u 5 ''checkin'' ''checkin'' (uuid_str u @ '':'' @ isoformat (today s)) False (set_stat u st s) = Inr (e, s1)"
      "s2 = recheck_achievements u ''checkin_streak''
         (set_stat u (st\<lparr>counters := (counters st)(''checkin_streak'' \<mapsto> checkin_streak st)\<rparr>) s1)"
      "advance_tasks u ''checkin'' (isoformat (today s)) s2 = Inr s'"
      "r = \<lparr>cr_success = True, cr_earned = 5, cr_streak = checkin_streak st, cr_today_checked = False\<rparr>"
proof (cases "last_checkin_date (stat_of u s) = Some (isoformat (today s))")
  case True
  then have "behavior_stats s u \<noteq> None" by (auto simp: stat_of_def empty_stat_def split: option.splits)
  with True assms show ?thesis by (intro again) (auto simp: do_checkin_def stats_eq)
next
  case False
  have two: "set_stat u st (if behavior_stats s u = None then set_stat u empty_stat s else s) = set_stat u st s" for st
    by (simp add: set_stat_def)
  have td: "today (if behavior_stats s u = None then set_stat u empty_stat s else s) = today s" by simp
  from False assms show ?thesis
    by (auto simp: do_checkin_def stats_eq Let_def bindR_Inr_iff RULE_DELTAS_def two td intro!: fresh)
qed

lemma seen_delta_progress [simp]: "seen_delta (s\<lparr>task_progresses := T\<rparr>) = seen_delta s"
  by (simp add: seen_delta_def get_by_ref_def fun_eq_iff)

lemma advance_tasks_seen:
  assumes "advance_tasks u event d s = Inr s'" and "seen_delta s v rt ri = Some n"
  shows "seen_delta s' v rt ri = Some n"
proof (cases "map_of EVENT_TASK_KEY event")
  case (Some cat)
  with assms(1) have "foldR (advance_one u event d) (filter (\<lambda>t. td_category t = cat) (task_definitions s)) s = Inr s'"
    by (simp add: advance_tasks_def)
  then show ?thesis
  proof (rule foldR_inv[where I = "\<lambda>t. seen_delta t v rt ri = Some n"])
    fix t x y assume "seen_delta x v rt ri = Some n" and "advance_one u event d t x = Inr y"
    then show "seen_delta y v rt ri = Some n"
      by (auto simp: advance_one_def Let_def bindR_Inr_iff split: if_splits dest: seen_kept)
  qed (use assms in simp)
qed (use assms in \<open>simp add: advance_tasks_def\<close>)

lemma do_checkin_ok:
  assumes "do_checkin u s = Inr (r, s')" and "progress_ok s" and "refs_unique s"
  shows "progress_ok s' \<and> refs_unique s'"
  using assms(1)
proof (cases rule: checkin_cases)
  case (fresh st e s1 s2)
  have a: "progress_ok (set_stat u st s)" "refs_unique (set_stat u st s)"
    using assms(2,3) progress_ok_cong[of "set_stat u st s" s] by simp_all
  have b: "progress_ok s1" "refs_unique s1"
    using progress_ok_reward[OF fresh(3) a(1)] refs_unique_reward[OF fresh(3) a(2)] .
  have "progress_ok s2 = progress_ok s1" "refs_unique s2 = refs_unique s1"
    by (rule progress_ok_cong; simp add: fresh(4) recheck_frame)+
  with b have "progress_ok s2" "refs_unique s2" by simp_all
  with advance_tasks_ok[OF fresh(5)] show ?thesis by blast
qed (use assms in simp)

lemma task_effects:
  assumes "apply_task_side_effects u ev ref d s = Inr s'"
  obtains (none) "map_of EVENT_TASK_KEY ev = None" "s' = s"
  | (seen) "same_money s s'" "marked u (processed_key ''tasks'' ev ref) s'"
  | (run) m day' where "same_money s m" "advance_tasks u ev day' m = Inr s'" "marked u (processed_key ''tasks'' ev ref) s'"
proof (cases "map_of EVENT_TASK_KEY ev")
  case None
  with assms show ?thesis by (intro none) (auto simp: apply_task_side_effects_def)
next
  case (Some cat)
  let ?s0 = "if behavior_stats s u = None then set_stat u empty_stat s else s"
  let ?m = "mark_event_processed u ev ref ''tasks'' ?s0"
  show ?thesis
  proof (cases "fst (event_already_processed u ev ref ''tasks'' s)")
    case True
    then have "marked u (processed_key ''tasks'' ev ref) s"
      by (auto simp: seen_eq marked_def stat_of_def empty_stat_def split: option.splits)
    with Some assms marked_seen[OF this] show ?thesis
      by (intro seen) (auto simp: apply_task_side_effects_def)
  next
    case False
    have sm: "same_money s ?m" using mark_marks(3)[of ?s0] by (auto simp: same_money_def)
    from False Some assms obtain d' where adv: "advance_tasks u ev d' ?m = Inr s'"
      by (auto simp: apply_task_side_effects_def seen_eq Let_def)
    have "marked u (processed_key ''tasks'' ev ref) s'"
      using mark_marks(1)[of u "''tasks''" ev ref ?s0] advance_tasks_frame[OF adv] by (simp add: marked_def)
    with sm adv show ?thesis by (rule run)
  qed
qed

lemma task_keeps_marks:
  assumes "apply_task_side_effects u ev ref d s = Inr s'" and "marked v k s"
  shows "marked v k s'"
proof -
  have *: "marked v k (mark_event_processed u ev ref ns x)" if "marked v k x" for ns and x :: "'a points_db_scheme"
    using that by (auto simp: marked_def mark_event_processed_def stats_eq Let_def stat_of_def)
  have e: "marked v k (if behavior_stats s u = None then set_stat u empty_stat s else s)"
    using assms(2) by (auto simp: marked_def)
  show ?thesis
  proof (cases "map_of EVENT_TASK_KEY ev = None \<or> fst (event_already_processed u ev ref ''tasks'' s)")
    case True
    with assms e show ?thesis
      by (auto simp: apply_task_side_effects_def seen_eq Let_def split: if_splits)
  next
    case False
    with assms(1) obtain d' where "advance_tasks u ev d'
        (mark_event_processed u ev ref ''tasks'' (if behavior_stats s u = None then set_stat u empty_stat s else s)) = Inr s'"
      by (auto simp: apply_task_side_effects_def seen_eq Let_def)
    from advance_tasks_frame[OF this] *[OF e] show ?thesis by (simp add: marked_def)
  qed
qed

inductive engine_step :: "points_db \<Rightarrow> points_db \<Rightarrow> bool" where
  reward: "reward u d reason rt ri neg s = Inr (e, s') \<Longrightarrow> engine_step s s'"
| stats: "apply_point_stats u ev ref s = Inr s' \<Longrightarrow> engine_step s s'"
| tasks: "apply_point_daily_tasks u ev ref s = Inr s' \<Longrightarrow> engine_step s s'"
| checkin: "do_checkin u s = Inr (r, s') \<Longrightarrow> engine_step s s'"
| clock: "engine_step s (s\<lparr>now := t, today := c\<rparr>)"

lemma engine_ok_step: "engine_step s s' \<Longrightarrow> progress_ok s \<and> refs_unique s \<Longrightarrow> progress_ok s' \<and> refs_unique s'"
proof (induction rule: engine_step.induct)
  case (reward u d reason rt ri neg s e s')
  then show ?case using progress_ok_reward refs_unique_reward by blast
next
  case (stats u ev ref s s')
  show ?case
  proof (cases "map_of EVENT_STAT_KEY ev")
    case None
    with stats show ?thesis by (simp add: apply_point_stats_def apply_stats_side_effects_def)
  next
    case (Some key)
    with stats stats_effects(2)[OF Some, of s u ref] progress_ok_cong[of s' s] show ?thesis
      by (simp add: apply_point_stats_def same_money_def)
  qed
next
  case (tasks u ev ref s s')
  from tasks(1)[unfolded apply_point_daily_tasks_def] show ?case
  proof (cases rule: task_effects)
    case seen
    with tasks(2) progress_ok_cong[of s' s] show ?thesis by (simp add: same_money_def)
  next
    case (run m day')
    with tasks(2) progress_ok_cong[of m s] advance_tasks_ok[OF run(2)] show ?thesis by (simp add: same_money_def)
  qed (use tasks in simp)
next
  case (checkin u s r s')
  then show ?case using do_checkin_ok by blast
next
  case (clock s c t)
  then show ?case using progress_ok_cong[of "s\<lparr>now := t, today := c\<rparr>" s] by simp
qed

section \<open>Properties\<close>

text \<open>C9: Daily tasks are paid exactly once.  In every state reached by rewards, consumed events,
  check-ins and the passing of days, a task is marked completed for a user and a day exactly when its
  (positive) requirement is reached, and then there is exactly one ledger row under the reference of
  the task and the day, with the task's reward.\<close>

theorem daily_task_paid_once:
  assumes "engine_step\<^sup>*\<^sup>* s s'" and "progress_ok s" and "refs_unique s"
    and "t \<in> set (task_definitions s')" and "task_progresses s' (u, td_id t, d) = Some up"
  shows "tp_progress up \<le> max 0 (td_requirement_count t)
    \<and> (tp_completed up \<longleftrightarrow> 0 < td_requirement_count t \<and> td_requirement_count t \<le> tp_progress up)
    \<and> (tp_completed up \<longrightarrow> (\<exists>e. filter (has_ref u ''task'' (td_key t @ '':'' @ d)) (ledger s') = [e]
          \<and> le_delta e = td_reward_points t))"
proof -
  have ok: "progress_ok s' \<and> refs_unique s'"
    using assms(1-3) by (induction rule: rtranclp_induct) (auto dest: engine_ok_step)
  then have fit: "row_fits t up"
    and paid: "tp_completed up \<Longrightarrow> seen_delta s' u ''task'' (td_key t @ '':'' @ d) = Some (td_reward_points t)"
    using assms(4,5) unfolding progress_ok_alt by blast+
  have "\<exists>e. filter (has_ref u ''task'' (td_key t @ '':'' @ d)) (ledger s') = [e] \<and> le_delta e = td_reward_points t"
    if c: "tp_completed up"
  proof -
    from paid[OF c] obtain e where e: "get_by_ref u ''task'' (td_key t @ '':'' @ d) s' = Some e" "le_delta e = td_reward_points t"
      by (auto simp: seen_delta_def)
    have "length (filter (has_ref u ''task'' (td_key t @ '':'' @ d)) (ledger s')) = 1"
      using refs_unique_count[of s' u "''task''" "td_key t @ '':'' @ d"] ok e(1) by simp
    then obtain y where y: "filter (has_ref u ''task'' (td_key t @ '':'' @ d)) (ledger s') = [y]"
      by (auto simp: length_Suc_conv)
    have "e \<in> set (filter (has_ref u ''task'' (td_key t @ '':'' @ d)) (ledger s'))"
      using get_by_ref_Some[OF e(1)] by simp
    then have "y = e" unfolding y by simp
    with y e(2) show ?thesis by blast
  qed
  with fit show ?thesis by (simp add: row_fits_def)
qed

definition tasks_db0 :: points_db where
  "tasks_db0 = points_db0\<lparr>task_definitions := [seed_task (''t2'', ''post'', 1, 10, 2) 7]\<rparr>"

lemma tasks_db0_simps [simp]:
  "balances tasks_db0 = Map.empty" "ledger tasks_db0 = []" "pks tasks_db0 = of_nat" "pk_ix tasks_db0 = 0"
  "behavior_stats tasks_db0 = Map.empty" "task_progresses tasks_db0 = Map.empty" "achievements tasks_db0 = []"
  "task_definitions tasks_db0 = [seed_task (''t2'', ''post'', 1, 10, 2) 7]"
  "user_achievements tasks_db0 = Map.empty" "today tasks_db0 = \<lparr>year = 2026, month = 3, day = 1\<rparr>"
  "now tasks_db0 = 0"
  by (simp_all add: tasks_db0_def points_db0_def core_db.defs points_db.defs db0_def)

lemma daily_task_paid_once_witness:
  "\<exists>s' up. apply_point_daily_tasks 1 ''post'' ''r'' tasks_db0 = Inr s'
     \<and> task_progresses s' (1, 7, isoformat (today tasks_db0)) = Some up \<and> tp_completed up
     \<and> (\<exists>e. filter (has_ref 1 ''task'' (''t2:'' @ isoformat (today tasks_db0))) (ledger s') = [e] \<and> le_delta e = 10)"
proof -
  let ?t = "seed_task (''t2'', ''post'', 1, 10, 2) 7"
  let ?d = "isoformat (today tasks_db0)"
  have ok: "progress_ok tasks_db0" "refs_unique tasks_db0"
    by (simp_all add: progress_ok_def refs_unique_def)
  obtain s' up where run: "apply_point_daily_tasks 1 ''post'' ''r'' tasks_db0 = Inr s'"
    and up: "task_progresses s' (1, 7, ?d) = Some up" "tp_completed up" "task_definitions s' = [?t]"
    by (simp add: apply_point_daily_tasks_def apply_task_side_effects_def EVENT_TASK_KEY_def seen_eq
        mark_event_processed_def stats_eq Let_def stat_of_def empty_stat_def set_stat_def advance_tasks_def seed_task_def
        advance_one_def progress_row_def next_progress_def reward_def ensure_balance_def get_by_ref_def
        apply_delta_def repo_apply_delta_def fresh_pk_def upsert_ledger_def insert_ledger_def has_ref_def emit_fx_def
        fun_upd_def)
  have st: "engine_step\<^sup>*\<^sup>* tasks_db0 s'" using engine_step.tasks[OF run] by (rule r_into_rtranclp)
  have "?t \<in> set (task_definitions s')" "task_progresses s' (1, td_id ?t, ?d) = Some up"
    using up by (simp_all add: seed_task_def)
  from daily_task_paid_once[OF st ok this] run up show ?thesis by (auto simp: seed_task_def)
qed

text \<open>Events are counted once.  After an event was consumed through \<open>points-stats\<close> and
  \<open>points-tasks\<close>, consuming it again through either changes nothing at all, in every later state with
  the same statistics of the user.\<close>

theorem events_counted_once:
  assumes "apply_point_stats u ev ref s = Inr s1" and "apply_point_daily_tasks u ev ref s1 = Inr s2"
    and "behavior_stats t u = behavior_stats s2 u"
  shows "apply_point_stats u ev ref t = Inr t \<and> apply_point_daily_tasks u ev ref t = Inr t"
proof -
  have a: "apply_task_side_effects u ev ref None s1 = Inr s2"
    using assms(2) by (simp add: apply_point_daily_tasks_def)
  have stats: "apply_stats_side_effects u ev ref t = t"
  proof (cases "map_of EVENT_STAT_KEY ev")
    case (Some key)
    have "marked u (processed_key ''stats'' ev ref) s1"
      using stats_effects(1)[OF Some, of u ref s] assms(1) by (simp add: apply_point_stats_def)
    then have "marked u (processed_key ''stats'' ev ref) t"
      using task_keeps_marks[OF a] assms(3) by (simp add: marked_def)
    then show ?thesis by (simp add: apply_stats_side_effects_def marked_seen split: option.splits)
  qed (simp add: apply_stats_side_effects_def)
  have "apply_task_side_effects u ev ref None t = Inr t"
  proof (cases "map_of EVENT_TASK_KEY ev")
    case (Some cat)
    have "marked u (processed_key ''tasks'' ev ref) s2"
      using a by (cases rule: task_effects) (use Some in auto)
    then have "marked u (processed_key ''tasks'' ev ref) t" using assms(3) by (simp add: marked_def)
    then show ?thesis by (simp add: apply_task_side_effects_def marked_seen)
  qed (simp add: apply_task_side_effects_def)
  with stats show ?thesis by (simp add: apply_point_stats_def apply_point_daily_tasks_def)
qed

lemma events_counted_once_witness:
  "\<exists>s1 s2. apply_point_stats 1 ''post'' ''r'' tasks_db0 = Inr s1 \<and> apply_point_daily_tasks 1 ''post'' ''r'' s1 = Inr s2
     \<and> apply_point_stats 1 ''post'' ''r'' s2 = Inr s2 \<and> apply_point_daily_tasks 1 ''post'' ''r'' s2 = Inr s2"
proof -
  obtain s1 s2 where s1: "apply_point_stats 1 ''post'' ''r'' tasks_db0 = Inr s1"
    and s2: "apply_point_daily_tasks 1 ''post'' ''r'' s1 = Inr s2"
    by (simp add: apply_point_stats_def apply_stats_side_effects_def EVENT_STAT_KEY_def bump_count_def counter_def
        recheck_achievements_def STAT_TO_ACHIEVEMENT_TYPE_def progress_for_def PROGRESS_KEY_def processed_key_def
        apply_point_daily_tasks_def apply_task_side_effects_def EVENT_TASK_KEY_def seen_eq
        mark_event_processed_def stats_eq Let_def stat_of_def empty_stat_def set_stat_def advance_tasks_def seed_task_def
        advance_one_def progress_row_def next_progress_def reward_def ensure_balance_def get_by_ref_def
        apply_delta_def repo_apply_delta_def fresh_pk_def upsert_ledger_def insert_ledger_def has_ref_def emit_fx_def
        fun_upd_def)
  from s1 s2 events_counted_once[OF s1 s2 refl] show ?thesis by blast
qed

text \<open>A user checks in at most once a day and the streak counts consecutive days.  The first check-in
  of a day earns the five points of the rule under the reference of user and day and makes the streak
  one more than before if the last check-in was the day before, and one otherwise; every further one on
  that day, in any later state with the same statistics of the user, earns nothing and changes nothing.\<close>

theorem checkin_once_a_day:
  assumes "do_checkin u s = Inr (r, s')" and "last_checkin_date (stat_of u s) \<noteq> Some (isoformat (today s))"
  shows "cr_earned r = 5 \<and> \<not> cr_today_checked r
    \<and> seen_delta s' u ''checkin'' (uuid_str u @ '':'' @ isoformat (today s)) = Some 5
    \<and> cr_streak r = (if last_checkin_date (stat_of u s) = Some (isoformat (previous_day (today s)))
         then checkin_streak (stat_of u s) + 1 else 1)
    \<and> (\<forall>t. today t = today s \<and> stat_of u t = stat_of u s' \<longrightarrow>
         do_checkin u t = Inr (\<lparr>cr_success = True, cr_earned = 0, cr_streak = cr_streak r, cr_today_checked = True\<rparr>, t))"
  using assms(1)
proof (cases rule: checkin_cases)
  case again
  with assms(2) show ?thesis by simp
next
  case (fresh st e s1 s2)
  have k: "stat_of u s' = st\<lparr>counters := (counters st)(''checkin_streak'' \<mapsto> checkin_streak st)\<rparr>"
    using advance_tasks_frame[OF fresh(5)] by (simp add: fresh(4) recheck_frame stat_of_def)
  have last: "last_checkin_date (stat_of u s') = Some (isoformat (today s))" "checkin_streak (stat_of u s') = checkin_streak st"
    unfolding k fresh(2) by simp_all
  have paid: "seen_delta s2 u ''checkin'' (uuid_str u @ '':'' @ isoformat (today s)) = Some 5"
    using points.pay_seen[OF fresh(3)] by (simp add: fresh(4) seen_delta_def get_by_ref_def recheck_frame)
  have "seen_delta s' u ''checkin'' (uuid_str u @ '':'' @ isoformat (today s)) = Some 5"
    using advance_tasks_seen[OF fresh(5) paid] .
  moreover have "do_checkin u t = Inr (\<lparr>cr_success = True, cr_earned = 0, cr_streak = cr_streak r, cr_today_checked = True\<rparr>, t)"
    if "today t = today s \<and> stat_of u t = stat_of u s'" for t
  proof -
    have "behavior_stats t u \<noteq> None"
      using that last(1) by (auto simp: stat_of_def empty_stat_def split: option.splits)
    with that last fresh(6) show ?thesis by (auto simp: do_checkin_def stats_eq Let_def)
  qed
  moreover have "cr_earned r = 5" "\<not> cr_today_checked r" "cr_streak r = checkin_streak st"
    by (simp_all add: fresh(6))
  moreover have "checkin_streak st = (if last_checkin_date (stat_of u s) = Some (isoformat (previous_day (today s)))
         then checkin_streak (stat_of u s) + 1 else 1)"
    by (simp add: fresh(2))
  ultimately show ?thesis by metis
qed

lemma checkin_once_a_day_witness:
  "\<exists>r s'. do_checkin 1 tasks_db0 = Inr (r, s') \<and> cr_earned r = 5 \<and> cr_streak r = 1
     \<and> do_checkin 1 s' = Inr (\<lparr>cr_success = True, cr_earned = 0, cr_streak = 1, cr_today_checked = True\<rparr>, s')"
proof -
  obtain r s' where run: "do_checkin 1 tasks_db0 = Inr (r, s')" and td: "today s' = today tasks_db0"
    by (simp add: do_checkin_def RULE_DELTAS_def
        recheck_achievements_def STAT_TO_ACHIEVEMENT_TYPE_def progress_for_def PROGRESS_KEY_def EVENT_TASK_KEY_def
        stats_eq Let_def stat_of_def empty_stat_def set_stat_def advance_tasks_def seed_task_def
        reward_def ensure_balance_def get_by_ref_def
        apply_delta_def repo_apply_delta_def fresh_pk_def upsert_ledger_def insert_ledger_def has_ref_def emit_fx_def)
  from checkin_once_a_day[OF run] td run show ?thesis by (auto simp: stat_of_def empty_stat_def)
qed

text \<open>The leaderboard of all time ranks exactly the users with a positive balance, each once, by
  balance from high to low, with a title computed from the unlocked achievements; and a page with
  non-negative offset and limit is the corresponding stretch of that one ranking, with its length as
  the total.\<close>

theorem leaderboard_ranks:
  assumes "finite (dom (balances s))" and "0 \<le> offset" and "0 \<le> limit"
  shows "\<exists>ranking. leaderboard snaps offset limit ''total'' s = Inr (take (nat limit) (drop (nat offset) ranking), length ranking)
    \<and> distinct (map ld_user_id ranking) \<and> set (map ld_user_id ranking) = {u. 0 < balance_of s u}
    \<and> sorted (map (\<lambda>l. - ld_balance l) ranking)
    \<and> list_all (\<lambda>l. ld_balance l = balance_of s (ld_user_id l) \<and> ld_title l = title_for (ld_user_id l) s) ranking"
proof -
  let ?rows = "map (\<lambda>r. (r, [] :: string)) (list_positive s)"
  let ?f = "\<lambda>(r, fallback). \<lparr>ld_user_id = fst r, ld_display_name = display_of snaps fallback (fst r),
                                     ld_balance = snd r, ld_title = title_for (fst r) s\<rparr>"
  let ?k = "rank_key snaps \<circ> fst"
  define sorted_rows where "sorted_rows = sort_key ?k ?rows"
  define ranking where "ranking = map ?f sorted_rows"
  have load: "leaderboard_load snaps ''total'' s = Inr ranking"
    by (simp add: leaderboard_load_def ranking_def sorted_rows_def)
  have mem: "set sorted_rows = set ?rows" by (simp add: sorted_rows_def)
  have pos: "set (list_positive s) = (\<lambda>u. (u, balance_of s u)) ` {u. 0 < balance_of s u}"
    using assms(1) by (auto simp: list_positive_def balance_of_def split: option.splits)
  have ids: "map ld_user_id ranking = map (fst \<circ> fst) sorted_rows" by (simp add: ranking_def split_def)
  have "distinct (map (fst \<circ> fst) ?rows)"
    by (simp add: list_positive_def comp_def)
  moreover have "mset (map (fst \<circ> fst) sorted_rows) = mset (map (fst \<circ> fst) ?rows)"
    by (simp only: mset_map sorted_rows_def mset_sort)
  ultimately have d: "distinct (map ld_user_id ranking)"
    unfolding ids by (metis mset_eq_imp_distinct_iff)
  have users: "set (map ld_user_id ranking) = {u. 0 < balance_of s u}"
    unfolding ids set_map mem using pos by (auto simp: image_image)
  have "sorted (map ?k sorted_rows)" by (simp add: sorted_rows_def)
  then have "sorted (map (\<lambda>x. - snd (fst x)) sorted_rows)"
    unfolding sorted_map by (rule sorted_wrt_mono_rel[rotated]) (auto simp: rank_key_def less_eq_prod_def)
  then have srt: "sorted (map (\<lambda>l. - ld_balance l) ranking)"
    by (simp add: ranking_def comp_def split_def)
  have vals: "list_all (\<lambda>l. ld_balance l = balance_of s (ld_user_id l) \<and> ld_title l = title_for (ld_user_id l) s) ranking"
    unfolding ranking_def list_all_iff using mem pos by auto
  have "py_slice ranking offset (offset + limit) = take (nat limit) (drop (nat offset) ranking)"
    using assms(2,3) by (auto simp: py_slice_def Let_def min_def nat_diff_distrib nat_add_distrib)
  with load d users srt vals show ?thesis
    by (intro exI[of _ ranking]) (simp add: leaderboard_def)
qed

lemma leaderboard_ranks_witness:
  "\<exists>ranking. leaderboard Map.empty 0 1 ''total'' (rewarded 1 5 ''checkin'' ''checkin'' ''x'' points_db0)
       = Inr (take 1 ranking, length ranking) \<and> set (map ld_user_id ranking) = {1}"
proof -
  let ?s = "rewarded 1 5 ''checkin'' ''checkin'' ''x'' points_db0"
  have "finite (dom (balances ?s))" by (simp add: balances_rewarded)
  moreover have "{u. 0 < balance_of ?s u} = {1}" by auto
  ultimately show ?thesis using leaderboard_ranks[of ?s 0 1 Map.empty] by auto
qed

end
