(* ===== verification/Content_Store.thy ===== *)
theory Content_Store
  imports Points_Store
begin

text \<open>
  The tables of the unified content (\<open>app/modules/content/models.py\<close>) as far as other modules write
  them: boards and content items, and the write operations offered to the question-and-answer module
  (\<open>app/modules/content/write_api.py\<close>).
\<close>

section \<open>Tables\<close>

record board =
  bd_id :: uuid
  bd_slug :: string
  bd_title :: string
  bd_description :: string
  bd_owner_id :: "uuid option"
  bd_parent_id :: "uuid option"
  bd_status :: string
  bd_require_certified :: bool
  bd_daily_post_limit :: int
  bd_is_public :: bool
  bd_version :: int
  bd_created_at :: instant
  bd_updated_at :: instant

text \<open>The columns derived by the database, the search vector, are left out.\<close>

record content_item =
  ci_id :: uuid
  ci_content_type :: string
  ci_board_id :: uuid
  ci_author_id :: "uuid option"
  ci_publisher :: "string option"
  ci_department :: "string option"
  ci_column_id :: "uuid option"
  ci_slug :: "string option"
  ci_qa_question_id :: "uuid option"
  ci_title :: string
  ci_excerpt :: string
  ci_content :: string
  ci_summary :: "string option"
  ci_cover :: "string option"
  ci_keywords :: "string option"
  ci_lang :: "string option"
  ci_tags :: string
  ci_status :: string
  ci_is_pinned :: bool
  ci_is_featured :: bool
  ci_view_count :: int
  ci_like_count :: int
  ci_comment_count :: int
  ci_bookmark_count :: int
  ci_forward_count :: int
  ci_counts_reconciled_at :: "instant option"
  ci_version :: int
  ci_created_at :: instant
  ci_updated_at :: instant
  ci_published_at :: "instant option"
  ci_deleted_at :: "instant option"

record content_db = points_db +
  content_events_enabled :: bool
  boards :: "board list"
  content_items :: "content_item list"

section \<open>Writes for other modules\<close>

text \<open>Inserting a row fails on a primary key or unique slug that is taken.\<close>

definition insert_board :: "board \<Rightarrow> 's content_db_scheme \<Rightarrow> exc + 's content_db_scheme" where
  "insert_board b s =
     (if list_ex (\<lambda>x. bd_id x = bd_id b \<or> bd_slug x = bd_slug b) (boards s) then Inl (IntegrityError True None)
      else Inr (s\<lparr>boards := boards s @ [b]\<rparr>))"

definition insert_content_item :: "content_item \<Rightarrow> 's content_db_scheme \<Rightarrow> exc + 's content_db_scheme" where
  "insert_content_item c s =
     (if list_ex (\<lambda>x. ci_id x = ci_id c \<or> (ci_slug c \<noteq> None \<and> ci_slug x = ci_slug c)) (content_items s)
      then Inl (IntegrityError True None)
      else Inr (s\<lparr>content_items := content_items s @ [c]\<rparr>))"

definition new_board :: "uuid \<Rightarrow> string \<Rightarrow> string \<Rightarrow> string \<Rightarrow> instant \<Rightarrow> board" where
  "new_board i slug title description t =
     \<lparr>bd_id = i, bd_slug = slug, bd_title = title, bd_description = description, bd_owner_id = None,
      bd_parent_id = None, bd_status = ''active'', bd_require_certified = False, bd_daily_post_limit = 0,
      bd_is_public = True, bd_version = 1, bd_created_at = t, bd_updated_at = t\<rparr>"

text \<open>The title and the description of the board of questions, in UTF-8.\<close>

definition QA_TITLE :: string where
  "QA_TITLE = map char_of [233, 151, 174, 231, 173, 148 :: nat]"

definition QA_DESCRIPTION :: string where
  "QA_DESCRIPTION = map char_of [231, 148, 168, 230, 136, 183, 230, 143, 144, 233, 151, 174, 228, 184, 142, 232, 167, 163, 231, 173, 148 :: nat]"

definition qa_content_item ::
    "uuid \<Rightarrow> uuid \<Rightarrow> uuid \<Rightarrow> uuid \<Rightarrow> string \<Rightarrow> string \<Rightarrow> string \<Rightarrow> instant \<Rightarrow> content_item" where
  "qa_content_item i board_id author_id question_id title excerpt body t =
     \<lparr>ci_id = i, ci_content_type = ''qa'', ci_board_id = board_id, ci_author_id = Some author_id,
      ci_publisher = None, ci_department = None, ci_column_id = None, ci_slug = None,
      ci_qa_question_id = Some question_id, ci_title = title, ci_excerpt = excerpt, ci_content = body,
      ci_summary = None, ci_cover = None, ci_keywords = None, ci_lang = None, ci_tags = ''[]'', ci_status = ''published'',
      ci_is_pinned = False, ci_is_featured = False, ci_view_count = 0, ci_like_count = 0,
      ci_comment_count = 0, ci_bookmark_count = 0, ci_forward_count = 0, ci_counts_reconciled_at = None, ci_version = 1,
      ci_created_at = t, ci_updated_at = t, ci_published_at = None, ci_deleted_at = None\<rparr>"

definition ensure_qa_board :: "'s content_db_scheme \<Rightarrow> exc + uuid \<times> 's content_db_scheme" where
  "ensure_qa_board s =
     (case find (\<lambda>b. bd_slug b = ''qa'') (boards s) of
        Some b \<Rightarrow> Inr (bd_id b, s)
      | None \<Rightarrow>
          let (i, s) = fresh_pk s in
          bindR (insert_board (new_board i ''qa'' QA_TITLE QA_DESCRIPTION (now s)) s) (\<lambda>s. Inr (i, s)))"

definition publish_qa_item ::
    "uuid \<Rightarrow> uuid \<Rightarrow> string \<Rightarrow> string \<Rightarrow> string \<Rightarrow> 's content_db_scheme \<Rightarrow> exc + 's content_db_scheme" where
  "publish_qa_item author_id question_id title body excerpt s =
     bindR (ensure_qa_board s) (\<lambda>(board_id, s).
     let (i, s) = fresh_pk s;
         item = qa_content_item i board_id author_id question_id title excerpt body (now s)
     in bindR (insert_content_item item s) (\<lambda>s.
        bindR (enqueue_content_event (content_events_enabled s) (ci_id item) (ci_status item) None s) (\<lambda>(_, s).
        Inr (emit_fx (Bump ''content'') s))))"

section \<open>What queueing and publishing leave alone\<close>

text \<open>
  Operations of the outbox change only the fields of \<open>core_db\<close>; \<open>core_db.more\<close> is the rest of the
  database, and so equal tables of the modules.
\<close>

lemma more_eq_tables:
  assumes "core_db.more s' = core_db.more s"
  shows "balances s' = balances s" "ledger s' = ledger s" "today s' = today s"
    "boards s' = boards s" "content_items s' = content_items s"
    "content_events_enabled s' = content_events_enabled s" "points_db.more s' = points_db.more s"
    "content_db.more s' = content_db.more s"
  using assms by (cases s, cases s', simp)+

lemma enqueue_points_event_more:
  assumes "enqueue_points_event u ev ref s = Inr s'"
  shows "core_db.more s' = core_db.more s" "now s' = now s"
  using assms by (auto simp: enqueue_points_event_def enqueue_outbox_more)

lemma enqueue_content_event_more:
  assumes "enqueue_content_event on i st act s = Inr (b, s')"
  shows "core_db.more s' = core_db.more s" "now s' = now s"
  using assms by (auto simp: enqueue_content_event_def Let_def enqueue_outbox_more split: if_splits option.splits)

lemma publish_qa_item_frame:
  assumes "publish_qa_item author q title body excerpt s = Inr s'"
  shows "ledger s' = ledger s" "balances s' = balances s" "now s' = now s" "today s' = today s"
    "content_db.more s' = content_db.more s"
proof -
  have e: "ledger t = ledger s \<and> balances t = balances s \<and> now t = now s \<and> today t = today s
      \<and> content_db.more t = content_db.more s" if "ensure_qa_board s = Inr (i, t)" for i t
    using that by (auto simp: ensure_qa_board_def fresh_pk_def insert_board_def split: option.splits if_splits)
  have c: "ledger t = ledger r \<and> balances t = balances r \<and> now t = now r \<and> today t = today r
      \<and> content_db.more t = content_db.more r" if "enqueue_content_event on i st act r = Inr (b, t)"
    for on i st act b and r t :: "'a content_db_scheme"
    using more_eq_tables[OF enqueue_content_event_more(1)[OF that]] enqueue_content_event_more(2)[OF that] by simp
  have "ledger s' = ledger s \<and> balances s' = balances s \<and> now s' = now s \<and> today s' = today s
      \<and> content_db.more s' = content_db.more s"
    using assms
    by (auto simp: publish_qa_item_def Let_def fresh_pk_def insert_content_item_def emit_fx_def
        dest!: e c split: if_splits)
  then show "ledger s' = ledger s" "balances s' = balances s" "now s' = now s" "today s' = today s"
    "content_db.more s' = content_db.more s" by simp_all
qed

end
