(* ===== verification/Qa.thy ===== *)
theory Qa
  imports Content_Store
begin

text \<open>
  Questions with a bounty (\<open>app/modules/qa/service.py\<close>, \<open>repository.py\<close>, \<open>models.py\<close>, \<open>schemas.py\<close>,
  \<open>tasks.py\<close>): asking locks the bounty, accepting pays a share of it to the author of the answer,
  closing or expiry pays back what is left.  A client of the points port.
\<close>

section \<open>Tables and requests\<close>

record question =
  q_id :: uuid
  q_author_id :: uuid
  q_title :: string
  q_situation :: string
  q_content :: string
  q_bounty_people :: int
  q_bounty_per_person :: int
  q_bounty_total :: int
  q_bounty_distributed :: int
  q_bounty_expires_at :: "instant option"
  q_urgent :: bool
  q_status :: string
  q_category :: string
  q_accepted_answer_id :: "uuid option"
  q_created_at :: instant
  q_updated_at :: instant

record answer =
  a_id :: uuid
  a_question_id :: uuid
  a_author_id :: uuid
  a_content :: string
  a_is_accepted :: bool
  a_created_at :: instant

record question_image =
  qi_id :: uuid
  qi_question_id :: uuid
  qi_url :: string
  qi_sort :: int

record qa_db = content_db +
  qa_questions :: "question list"
  qa_answers :: "answer list"
  qa_images :: "question_image list"

definition MAX_BOUNTY_POINTS :: int where "MAX_BOUNTY_POINTS = 1000"

record question_create =
  qc_title :: string
  qc_situation :: string
  qc_content :: string
  qc_category :: string
  qc_bounty_people :: int
  qc_bounty_per_person :: int
  qc_bounty_days :: int
  qc_urgent :: bool
  qc_images :: "string list"

text \<open>What the schema lets through: the bounds of the fields and \<open>check_bounty\<close>.\<close>

definition check_bounty :: "question_create \<Rightarrow> bool" where
  "check_bounty info \<longleftrightarrow>
     qc_images info = []
     \<and> qc_bounty_people info * qc_bounty_per_person info \<le> MAX_BOUNTY_POINTS
     \<and> \<not> (qc_urgent info \<and> (qc_bounty_per_person info = 0 \<or> qc_bounty_days info \<noteq> 7))"

definition question_create_valid :: "question_create \<Rightarrow> bool" where
  "question_create_valid info \<longleftrightarrow>
     1 \<le> length (qc_title info) \<and> length (qc_title info) \<le> 200
     \<and> 1 \<le> length (qc_situation info) \<and> length (qc_situation info) \<le> 5000
     \<and> 1 \<le> length (qc_content info) \<and> length (qc_content info) \<le> 20000
     \<and> qc_category info \<in> {''help'', ''volunteer''}
     \<and> 1 \<le> qc_bounty_people info \<and> qc_bounty_people info \<le> 10
     \<and> 0 \<le> qc_bounty_per_person info \<and> qc_bounty_per_person info \<le> MAX_BOUNTY_POINTS
     \<and> 7 \<le> qc_bounty_days info \<and> qc_bounty_days info \<le> 90
     \<and> length (qc_images info) \<le> 9 \<and> list_all (\<lambda>u. length u \<le> 2048) (qc_images info)
     \<and> check_bounty info"

text \<open>Answers carry the author's display name; \<open>names\<close> is what the user snapshots give.\<close>

type_synonym name_map = "uuid \<rightharpoonup> string"

record question_out =
  qo_question :: question
  qo_answer_count :: nat
  qo_author_name :: string

definition name_or_empty :: "name_map \<Rightarrow> uuid \<Rightarrow> string" where
  "name_or_empty names u = (case names u of None \<Rightarrow> [] | Some n \<Rightarrow> n)"

definition question_to_schema :: "question \<Rightarrow> string \<Rightarrow> question_out" where
  "question_to_schema q author_name =
     \<lparr>qo_question = q, qo_answer_count = 0, qo_author_name = author_name\<rparr>"

section \<open>The excerpt\<close>

text \<open>\<open>re.sub(r"\s+", " ", t)\<close>: each maximal run of white space becomes one blank.\<close>

fun squeeze :: "bool \<Rightarrow> string \<Rightarrow> string" where
  "squeeze in_run [] = []"
| "squeeze in_run (c # cs) =
     (if py_space c then (if in_run then squeeze True cs else CHR '' '' # squeeze True cs)
      else c # squeeze False cs)"

definition qa_plain :: "string \<Rightarrow> nat \<Rightarrow> string" where
  "qa_plain t limit =
     (let t = squeeze False (py_strip t)
      in py_rstrip (take limit t) @ (if limit < length t then ''...'' else []))"

section \<open>Rows\<close>

definition find_question :: "uuid \<Rightarrow> 's qa_db_scheme \<Rightarrow> question option" where
  "find_question i s = find (\<lambda>q. q_id q = i) (qa_questions s)"

definition insert_question :: "question \<Rightarrow> 's qa_db_scheme \<Rightarrow> exc + 's qa_db_scheme" where
  "insert_question q s =
     (if list_ex (\<lambda>x. q_id x = q_id q) (qa_questions s) then Inl (IntegrityError True None)
      else Inr (s\<lparr>qa_questions := qa_questions s @ [q]\<rparr>))"

text \<open>Writing a changed row back sets \<open>updated_at\<close>.\<close>

definition put_question :: "question \<Rightarrow> 's qa_db_scheme \<Rightarrow> 's qa_db_scheme" where
  "put_question q s = s\<lparr>qa_questions :=
     map (\<lambda>x. if q_id x = q_id q then q\<lparr>q_updated_at := now s\<rparr> else x) (qa_questions s)\<rparr>"

definition insert_answer :: "answer \<Rightarrow> 's qa_db_scheme \<Rightarrow> exc + 's qa_db_scheme" where
  "insert_answer a s =
     (if list_ex (\<lambda>x. a_id x = a_id a) (qa_answers s) then Inl (IntegrityError True None)
      else Inr (s\<lparr>qa_answers := qa_answers s @ [a]\<rparr>))"

definition put_answer :: "answer \<Rightarrow> 's qa_db_scheme \<Rightarrow> 's qa_db_scheme" where
  "put_answer a s = s\<lparr>qa_answers := map (\<lambda>x. if a_id x = a_id a then a else x) (qa_answers s)\<rparr>"

definition list_in_question :: "uuid \<Rightarrow> 's qa_db_scheme \<Rightarrow> answer list" where
  "list_in_question i s = sort_key a_id (filter (\<lambda>a. a_question_id a = i) (qa_answers s))"

definition count_accepted :: "uuid \<Rightarrow> 's qa_db_scheme \<Rightarrow> nat" where
  "count_accepted i s = length (filter (\<lambda>a. a_question_id a = i \<and> a_is_accepted a) (qa_answers s))"

section \<open>Asking and answering\<close>

definition new_question :: "uuid \<Rightarrow> uuid \<Rightarrow> question_create \<Rightarrow> instant \<Rightarrow> question" where
  "new_question i author_id info t =
     (let total_points = qc_bounty_people info * qc_bounty_per_person info
      in \<lparr>q_id = i, q_author_id = author_id, q_title = qc_title info, q_situation = qc_situation info,
          q_content = qc_content info, q_bounty_people = qc_bounty_people info,
          q_bounty_per_person = qc_bounty_per_person info, q_bounty_total = total_points,
          q_bounty_distributed = 0,
          q_bounty_expires_at = (if 0 < total_points then Some (t + days (qc_bounty_days info)) else None),
          q_urgent = qc_urgent info, q_status = ''open'', q_category = qc_category info,
          q_accepted_answer_id = None, q_created_at = t, q_updated_at = t\<rparr>)"

definition sync_question_content_item :: "uuid \<Rightarrow> question \<Rightarrow> 's qa_db_scheme \<Rightarrow> exc + 's qa_db_scheme" where
  "sync_question_content_item author_id q s =
     publish_qa_item author_id (q_id q) (q_title q) (q_content q)
       (qa_plain (if q_content q \<noteq> [] then q_content q else q_situation q) 150) s"

definition create_question ::
    "name_map \<Rightarrow> uuid \<Rightarrow> question_create \<Rightarrow> 's qa_db_scheme \<Rightarrow> exc + question_out \<times> 's qa_db_scheme" where
  "create_question names author_id info s =
     (let (i, s) = fresh_pk s;
          q = new_question i author_id info (now s)
      in bindR (insert_question q s) (\<lambda>s.
         bindR (if 0 < q_bounty_total q
                then bindR (spend author_id (q_bounty_total q) ''qa_escrow'' ''qa_question'' (uuid_str i) s) (\<lambda>(_, s). Inr s)
                else Inr s) (\<lambda>s.
         bindR (sync_question_content_item author_id q s) (\<lambda>s.
         Inr (question_to_schema q (name_or_empty names author_id), emit_fx (Bump ''qa'') s)))))"

definition expired :: "question \<Rightarrow> 's qa_db_scheme \<Rightarrow> bool" where
  "expired q s = (case q_bounty_expires_at q of None \<Rightarrow> False | Some t \<Rightarrow> t \<le> now s)"

definition create_answer :: "uuid \<Rightarrow> uuid \<Rightarrow> string \<Rightarrow> 's qa_db_scheme \<Rightarrow> exc + answer \<times> 's qa_db_scheme" where
  "create_answer question_id author_id body s =
     (case find_question question_id s of
        None \<Rightarrow> Inl (BizError (QaErr qa_err.QUESTION_NOT_FOUND))
      | Some q \<Rightarrow>
          if q_author_id q = author_id then Inl (BizError (QaErr qa_err.SELF_ANSWER_FORBIDDEN))
          else if q_status q \<noteq> ''open'' then Inl (BizError (QaErr qa_err.QUESTION_NOT_OPEN))
          else if expired q s then Inl (BizError (QaErr qa_err.BOUNTY_EXPIRED))
          else
            let (i, s) = fresh_pk s;
                a = \<lparr>a_id = i, a_question_id = question_id, a_author_id = author_id, a_content = body,
                     a_is_accepted = False, a_created_at = now s\<rparr>
            in bindR (insert_answer a s) (\<lambda>s. Inr (a, emit_fx (Bump ''qa'') s)))"

section \<open>Accepting, closing, expiry\<close>

text \<open>The payment and the two flags; its guards are in \<open>accept_answer\<close>.\<close>

definition pay_answer :: "question \<Rightarrow> answer \<Rightarrow> 's qa_db_scheme \<Rightarrow> exc + answer \<times> 's qa_db_scheme" where
  "pay_answer q a s =
     bindR (if 0 < q_bounty_per_person q
            then bindR (reward (a_author_id a) (q_bounty_per_person q) ''qa_accept'' ''qa_accept''
                          (uuid_str (q_id q) @ '':'' @ uuid_str (a_id a)) False s)
                   (\<lambda>(_, s). Inr (q\<lparr>q_bounty_distributed := q_bounty_distributed q + q_bounty_per_person q\<rparr>, s))
            else Inr (q, s)) (\<lambda>(q, s).
     let a = a\<lparr>a_is_accepted := True\<rparr>;
         s = put_question (q\<lparr>q_accepted_answer_id := Some (a_id a)\<rparr>) (put_answer a s)
     in bindR (enqueue_points_event (a_author_id a) ''answer_accepted'' (''answer:'' @ uuid_str (a_id a)) s) (\<lambda>s.
        bindR (enqueue_points_event (q_author_id q) ''qa_accept_notice'' (''answer:'' @ uuid_str (a_id a)) s) (\<lambda>s.
        Inr (a, emit_fx (Bump ''qa'') s))))"

definition accept_answer :: "uuid \<Rightarrow> uuid \<Rightarrow> uuid \<Rightarrow> 's qa_db_scheme \<Rightarrow> exc + answer \<times> 's qa_db_scheme" where
  "accept_answer question_id answer_id asker_id s =
     (case find_question question_id s of
        None \<Rightarrow> Inl (BizError (QaErr qa_err.QUESTION_NOT_FOUND))
      | Some q \<Rightarrow>
          if q_author_id q \<noteq> asker_id then Inl (BizError (QaErr qa_err.NOT_ASKER))
          else if q_status q \<noteq> ''open'' then Inl (BizError (QaErr qa_err.QUESTION_NOT_OPEN))
          else if expired q s then Inl (BizError (QaErr qa_err.BOUNTY_EXPIRED))
          else
            (case find (\<lambda>a. a_id a = answer_id \<and> a_question_id a = question_id) (qa_answers s) of
               None \<Rightarrow> Inl (BizError (QaErr qa_err.ANSWER_NOT_FOUND))
             | Some a \<Rightarrow>
                 if a_is_accepted a then Inr (a, s)
                 else if a_author_id a = q_author_id q then Inl (BizError (QaErr qa_err.SELF_ACCEPT_FORBIDDEN))
                 else if q_bounty_people q \<le> int (count_accepted question_id s)
                   then Inl (BizError (QaErr qa_err.BOUNTY_EXHAUSTED))
                 else pay_answer q a s))"

definition settled :: "question \<Rightarrow> question" where
  "settled q = q\<lparr>q_status := (if q_accepted_answer_id q \<noteq> None then ''accepted'' else ''closed'')\<rparr>"

definition settle_question :: "question \<Rightarrow> 's qa_db_scheme \<Rightarrow> exc + 's qa_db_scheme" where
  "settle_question q s =
     (let refund = q_bounty_total q - q_bounty_distributed q
      in bindR (if 0 < refund
                then bindR (reward (q_author_id q) refund ''qa_refund'' ''qa_refund'' (uuid_str (q_id q)) False s)
                       (\<lambda>(_, s). Inr s)
                else Inr s) (\<lambda>s.
         Inr (put_question (settled q) s)))"

definition close_question ::
    "name_map \<Rightarrow> uuid \<Rightarrow> uuid \<Rightarrow> uuid option \<Rightarrow> 's qa_db_scheme \<Rightarrow> exc + question_out \<times> 's qa_db_scheme" where
  "close_question names question_id asker_id accepted_answer_id s =
     (case find_question question_id s of
        None \<Rightarrow> Inl (BizError (QaErr qa_err.QUESTION_NOT_FOUND))
      | Some q \<Rightarrow>
          if q_author_id q \<noteq> asker_id then Inl (BizError (QaErr qa_err.NOT_ASKER))
          else if q_status q \<noteq> ''open'' then Inl (BizError (QaErr qa_err.QUESTION_NOT_OPEN))
          else
            bindR (case accepted_answer_id of
                     Some j \<Rightarrow>
                       if accepted_answer_id \<noteq> q_accepted_answer_id q then
                         bindR (accept_answer question_id j asker_id s) (\<lambda>(_, s).
                         bindR (optR (BizError (QaErr qa_err.QUESTION_NOT_FOUND)) (find_question question_id s)) (\<lambda>q.
                         Inr (q, s)))
                       else Inr (q, s)
                   | None \<Rightarrow> Inr (q, s)) (\<lambda>(q, s).
            bindR (settle_question q s) (\<lambda>s.
            Inr (question_to_schema (settled q) (name_or_empty names (q_author_id q)), emit_fx (Bump ''qa'') s))))"

definition is_due :: "instant \<Rightarrow> question \<Rightarrow> bool" where
  "is_due t q \<longleftrightarrow> q_status q = ''open'' \<and> (case q_bounty_expires_at q of None \<Rightarrow> False | Some e \<Rightarrow> e \<le> t)"

definition expired_for_update :: "instant \<Rightarrow> nat \<Rightarrow> 's qa_db_scheme \<Rightarrow> question list" where
  "expired_for_update t limit s =
     take limit (sort_key (\<lambda>q. the (q_bounty_expires_at q)) (sort_key q_id (filter (is_due t) (qa_questions s))))"

definition expire_due_questions :: "nat \<Rightarrow> 's qa_db_scheme \<Rightarrow> exc + nat \<times> 's qa_db_scheme" where
  "expire_due_questions limit s =
     (let questions = expired_for_update (now s) limit s
      in bindR (foldR settle_question questions s) (\<lambda>s.
         Inr (length questions, if questions \<noteq> [] then emit_fx (Bump ''qa'') s else s)))"

text \<open>
  The job repeats \<open>expire_due_questions\<close> in sessions of its own, each committed; an exception rolls
  back its own round only, so the state it leaves is part of the result.
\<close>

lemma put_question_due:
  assumes "q_status q \<noteq> ''open''"
  shows "length (filter (is_due t) (qa_questions (put_question q s))) \<le> length (filter (is_due t) (qa_questions s))"
    and "x \<in> set (qa_questions s) \<Longrightarrow> is_due t x \<Longrightarrow> q_id x = q_id q \<Longrightarrow>
      length (filter (is_due t) (qa_questions (put_question q s))) < length (filter (is_due t) (qa_questions s))"
proof -
  let ?f = "\<lambda>x. if q_id x = q_id q then q\<lparr>q_updated_at := now s\<rparr> else x"
  have nd: "\<not> is_due t (q\<lparr>q_updated_at := u\<rparr>)" for u using assms by (simp add: is_due_def)
  have le: "length (filter (is_due t) (map ?f qs)) \<le> length (filter (is_due t) qs)" for qs
    using nd by (induction qs) auto
  then show "length (filter (is_due t) (qa_questions (put_question q s))) \<le> length (filter (is_due t) (qa_questions s))"
    by (simp add: put_question_def)
  have "length (filter (is_due t) (map ?f qs)) < length (filter (is_due t) qs)"
    if "x \<in> set qs" "is_due t x" "q_id x = q_id q" for qs
    using that(1)
  proof (induction qs)
    case (Cons y qs)
    show ?case
    proof (cases "y = x")
      case True
      with that nd le[of qs] show ?thesis by simp
    next
      case False
      with Cons nd show ?thesis by (auto simp: less_Suc_eq)
    qed
  qed simp
  then show "x \<in> set (qa_questions s) \<Longrightarrow> is_due t x \<Longrightarrow> q_id x = q_id q \<Longrightarrow>
      length (filter (is_due t) (qa_questions (put_question q s))) < length (filter (is_due t) (qa_questions s))"
    by (simp add: put_question_def)
qed

lemma settled_simps [simp]:
  "q_status (settled q) \<noteq> ''open''" "q_id (settled q) = q_id q" "q_author_id (settled q) = q_author_id q"
  "q_bounty_total (settled q) = q_bounty_total q" "q_bounty_distributed (settled q) = q_bounty_distributed q"
  "q_bounty_people (settled q) = q_bounty_people q" "q_bounty_per_person (settled q) = q_bounty_per_person q"
  "q_bounty_expires_at (settled q) = q_bounty_expires_at q"
  "q_accepted_answer_id (settled q) = q_accepted_answer_id q"
  by (simp_all add: settled_def)

lemma reward_qa:
  assumes "reward u d r rt ri neg s = Inr (e, s')"
  shows "qa_questions s' = qa_questions s" "qa_answers s' = qa_answers s" "qa_images s' = qa_images s" "now s' = now s"
  using assms by (cases rule: reward_cases; simp add: ensure_balance_eq rewarded_def)+

lemma settle_question_eq:
  assumes "settle_question q s = Inr s'"
  obtains t where "s' = put_question (settled q) t" "qa_questions t = qa_questions s" "qa_answers t = qa_answers s"
    "now t = now s"
    "0 < q_bounty_total q - q_bounty_distributed q \<Longrightarrow>
       \<exists>e. reward (q_author_id q) (q_bounty_total q - q_bounty_distributed q) ''qa_refund'' ''qa_refund''
             (uuid_str (q_id q)) False s = Inr (e, t)"
    "q_bounty_total q - q_bounty_distributed q \<le> 0 \<Longrightarrow> t = s"
proof (cases "0 < q_bounty_total q - q_bounty_distributed q")
  case True
  with assms obtain e t where t: "reward (q_author_id q) (q_bounty_total q - q_bounty_distributed q) ''qa_refund'' ''qa_refund''
             (uuid_str (q_id q)) False s = Inr (e, t)" "s' = put_question (settled q) t"
    by (auto simp: settle_question_def Let_def)
  show ?thesis by (rule that[OF t(2)]) (use t True reward_qa[OF t(1)] in auto)
next
  case False
  with assms that[of s] show ?thesis by (simp add: settle_question_def Let_def)
qed

lemma settle_question_due:
  assumes "settle_question q s = Inr s'"
  shows "now s' = now s" "length (filter (is_due t) (qa_questions s')) \<le> length (filter (is_due t) (qa_questions s))"
    and "x \<in> set (qa_questions s) \<Longrightarrow> is_due t x \<Longrightarrow> q_id x = q_id q \<Longrightarrow>
      length (filter (is_due t) (qa_questions s')) < length (filter (is_due t) (qa_questions s))"
proof -
  obtain r where r: "s' = put_question (settled q) r" "qa_questions r = qa_questions s" "now r = now s"
    by (rule settle_question_eq[OF assms], rule that)
  show "now s' = now s" by (simp add: r put_question_def)
  show "length (filter (is_due t) (qa_questions s')) \<le> length (filter (is_due t) (qa_questions s))"
    using put_question_due(1)[of "settled q" t r] by (simp add: r)
  show "x \<in> set (qa_questions s) \<Longrightarrow> is_due t x \<Longrightarrow> q_id x = q_id q \<Longrightarrow>
      length (filter (is_due t) (qa_questions s')) < length (filter (is_due t) (qa_questions s))"
    using put_question_due(2)[of "settled q" x r t] by (simp add: r)
qed

lemma expire_due_shrinks:
  assumes "expire_due_questions limit s = Inr (n, s')" and "0 < n"
  shows "now s' = now s"
    "length (filter (is_due (now s)) (qa_questions s')) < length (filter (is_due (now s)) (qa_questions s))"
proof -
  obtain q qs where due: "expired_for_update (now s) limit s = q # qs"
    using assms by (cases "expired_for_update (now s) limit s") (auto simp: expire_due_questions_def)
  have "q \<in> set (expired_for_update (now s) limit s)" by (simp add: due)
  then have q: "q \<in> set (qa_questions s)" "is_due (now s) q"
    by (auto simp: expired_for_update_def dest: in_set_takeD)
  from assms(1) obtain t r where t: "settle_question q s = Inr t" "foldR settle_question qs t = Inr r"
    and s': "s' = emit_fx (Bump ''qa'') r"
    by (auto simp: expire_due_questions_def Let_def due)
  have "now r = now t \<and> length (filter (is_due (now s)) (qa_questions r)) \<le> length (filter (is_due (now s)) (qa_questions t))"
    by (rule foldR_rel[OF t(2)]) (auto dest: settle_question_due(1) settle_question_due(2)[where t = "now s"])
  moreover have "now t = now s" "length (filter (is_due (now s)) (qa_questions t)) < length (filter (is_due (now s)) (qa_questions s))"
    using settle_question_due(1,3)[OF t(1)] q by auto
  ultimately show "now s' = now s"
    "length (filter (is_due (now s)) (qa_questions s')) < length (filter (is_due (now s)) (qa_questions s))"
    by (simp_all add: s' emit_fx_def)
qed

function expire_qa_bounties :: "'s qa_db_scheme \<Rightarrow> exc option \<times> 's qa_db_scheme" where
  "expire_qa_bounties s =
     (case expire_due_questions 100 s of
        Inl e \<Rightarrow> (Some e, s)
      | Inr (n, s') \<Rightarrow> if n < 100 then (None, s') else expire_qa_bounties s')"
  by pat_completeness auto

termination
  by (relation "measure (\<lambda>s. length (filter (is_due (now s)) (qa_questions s)))")
     (auto simp: expire_due_shrinks)

declare expire_qa_bounties.simps [simp del]

section \<open>Reading\<close>

definition list_in_order :: "string \<Rightarrow> 's qa_db_scheme \<Rightarrow> question list \<Rightarrow> question list" where
  "list_in_order order s qs =
     (let newest = rev (sort_key q_id qs)
      in if order = ''bounty'' then sort_key (\<lambda>q. - q_bounty_total q) newest
         else sort_key (\<lambda>q. \<not> (q_status q = ''open'' \<and> q_urgent q
                \<and> (case q_bounty_expires_at q of None \<Rightarrow> False | Some e \<Rightarrow> now s < e))) newest)"

definition list_questions ::
    "name_map \<Rightarrow> int \<Rightarrow> int \<Rightarrow> string option \<Rightarrow> string \<Rightarrow> uuid option \<Rightarrow> 's qa_db_scheme
      \<Rightarrow> exc + question_out page_data" where
  "list_questions names page limit category order author_id s =
     (let rows = filter (\<lambda>q. (case category of None \<Rightarrow> True | Some c \<Rightarrow> c = [] \<or> q_category q = c)
                             \<and> (case author_id of None \<Rightarrow> True | Some u \<Rightarrow> q_author_id q = u)) (qa_questions s);
          window = take (nat limit) (drop (nat (paginate_offset page limit)) (list_in_order order s rows));
          items = map (\<lambda>q. \<lparr>qo_question = q, qo_answer_count = length (list_in_question (q_id q) s),
                            qo_author_name = name_or_empty names (q_author_id q)\<rparr>) window
      in if limit < 0 then Inl OtherException
         else Inr \<lparr>pd_items = items, pd_total = int (length rows), pd_page = page,
                   pd_pages = paginate_pages (int (length rows)) limit\<rparr>)"

record question_detail =
  qd_out :: question_out
  qd_answers :: "(answer \<times> string) list"
  qd_images :: "string list"

definition get_question :: "name_map \<Rightarrow> uuid \<Rightarrow> 's qa_db_scheme \<Rightarrow> exc + question_detail" where
  "get_question names question_id s =
     (case find_question question_id s of
        None \<Rightarrow> Inl (BizError (QaErr qa_err.QUESTION_NOT_FOUND))
      | Some q \<Rightarrow>
          let answers = list_in_question question_id s
          in Inr \<lparr>qd_out = \<lparr>qo_question = q, qo_answer_count = length answers,
                            qo_author_name = name_or_empty names (q_author_id q)\<rparr>,
                  qd_answers = map (\<lambda>a. (a, name_or_empty names (a_author_id a))) answers,
                  qd_images = map qi_url (sort_key qi_sort
                    (filter (\<lambda>i. qi_question_id i = question_id) (qa_images s)))\<rparr>)"

section \<open>The books\<close>

text \<open>
  What the ledger, given as the amounts seen under references, says about questions and answers: the
  bounty was charged once, each accepted answer was paid its share once, and the rest was paid back
  once when the question ceased to be open.
\<close>

definition accepted_in :: "uuid \<Rightarrow> answer list \<Rightarrow> nat" where
  "accepted_in i as = length (filter (\<lambda>a. a_question_id a = i \<and> a_is_accepted a) as)"

definition accept_ref :: "uuid \<Rightarrow> uuid \<Rightarrow> string" where
  "accept_ref i j = uuid_str i @ '':'' @ uuid_str j"

lemma accept_ref_inj [simp]: "accept_ref i j = accept_ref i' j' \<longleftrightarrow> i = i' \<and> j = j'"
  by (simp add: accept_ref_def)

type_synonym seen = "uuid \<Rightarrow> string \<Rightarrow> string \<Rightarrow> int option"

definition question_fits :: "seen \<Rightarrow> answer list \<Rightarrow> question \<Rightarrow> bool" where
  "question_fits sn as q \<longleftrightarrow>
     0 \<le> q_bounty_per_person q \<and> q_bounty_total q = q_bounty_people q * q_bounty_per_person q
     \<and> q_bounty_distributed q = q_bounty_per_person q * int (accepted_in (q_id q) as)
     \<and> int (accepted_in (q_id q) as) \<le> q_bounty_people q
     \<and> (q_accepted_answer_id q = None \<longleftrightarrow> accepted_in (q_id q) as = 0)
     \<and> (q_status q = ''open'' \<or> q_status q = (if accepted_in (q_id q) as = 0 then ''closed'' else ''accepted''))
     \<and> sn (q_author_id q) ''qa_question'' (uuid_str (q_id q)) =
         (if 0 < q_bounty_total q then Some (- q_bounty_total q) else None)
     \<and> sn (q_author_id q) ''qa_refund'' (uuid_str (q_id q)) =
         (if q_status q \<noteq> ''open'' \<and> q_bounty_distributed q < q_bounty_total q
          then Some (q_bounty_total q - q_bounty_distributed q) else None)"

definition answer_fits :: "seen \<Rightarrow> question list \<Rightarrow> answer \<Rightarrow> bool" where
  "answer_fits sn qs a \<longleftrightarrow>
     (\<exists>q \<in> set qs. q_id q = a_question_id a \<and> q_author_id q \<noteq> a_author_id a
        \<and> sn (a_author_id a) ''qa_accept'' (accept_ref (q_id q) (a_id a)) =
            (if a_is_accepted a \<and> 0 < q_bounty_per_person q then Some (q_bounty_per_person q) else None))"

definition refs_known :: "seen \<Rightarrow> question list \<Rightarrow> answer list \<Rightarrow> bool" where
  "refs_known sn qs as \<longleftrightarrow>
     (\<forall>u r. (sn u ''qa_question'' r \<noteq> None \<longrightarrow> r \<in> (\<lambda>q. uuid_str (q_id q)) ` set qs)
          \<and> (sn u ''qa_refund'' r \<noteq> None \<longrightarrow> r \<in> (\<lambda>q. uuid_str (q_id q)) ` set qs)
          \<and> (sn u ''qa_accept'' r \<noteq> None \<longrightarrow> r \<in> (\<lambda>a. accept_ref (a_question_id a) (a_id a)) ` set as))"

definition qa_books :: "seen \<Rightarrow> question list \<Rightarrow> answer list \<Rightarrow> bool" where
  "qa_books sn qs as \<longleftrightarrow>
     distinct (map q_id qs) \<and> distinct (map a_id as) \<and> refs_known sn qs as
     \<and> (\<forall>q \<in> set qs. question_fits sn as q) \<and> (\<forall>a \<in> set as. answer_fits sn qs a)"

definition qa_ok :: "'s qa_db_scheme \<Rightarrow> bool" where
  "qa_ok s \<longleftrightarrow> points_ok s \<and> qa_books (seen_delta s) (qa_questions s) (qa_answers s)"

definition QA_REFS :: "string set" where
  "QA_REFS = {''qa_question'', ''qa_refund'', ''qa_accept''}"

lemma qa_books_cong:
  assumes "\<And>u rt r. rt \<in> QA_REFS \<Longrightarrow> sn' u rt r = sn u rt r"
  shows "qa_books sn' qs as = qa_books sn qs as"
  using assms by (simp add: qa_books_def question_fits_def answer_fits_def refs_known_def QA_REFS_def)

lemma refs_unknown:
  assumes "refs_known sn qs as"
  shows "i \<notin> q_id ` set qs \<Longrightarrow> sn u ''qa_question'' (uuid_str i) = None"
    and "i \<notin> q_id ` set qs \<Longrightarrow> sn u ''qa_refund'' (uuid_str i) = None"
    and "j \<notin> a_id ` set as \<Longrightarrow> sn u ''qa_accept'' (accept_ref i j) = None"
proof -
  note k = assms[unfolded refs_known_def, rule_format, of u]
  show "i \<notin> q_id ` set qs \<Longrightarrow> sn u ''qa_question'' (uuid_str i) = None"
    and "i \<notin> q_id ` set qs \<Longrightarrow> sn u ''qa_refund'' (uuid_str i) = None"
    using k[of "uuid_str i"] by fastforce+
  show "j \<notin> a_id ` set as \<Longrightarrow> sn u ''qa_accept'' (accept_ref i j) = None"
    using k[of "accept_ref i j"] by fastforce
qed

lemma books_ask:
  assumes ok: "qa_books sn qs as" and new: "q_id q \<notin> q_id ` set qs"
    and q: "0 \<le> q_bounty_people q" "0 \<le> q_bounty_per_person q"
      "q_bounty_total q = q_bounty_people q * q_bounty_per_person q" "q_bounty_distributed q = 0" "q_status q = ''open''"
      "q_accepted_answer_id q = None"
    and sn': "\<And>u rt r. sn' u rt r = (if 0 < q_bounty_total q \<and> u = q_author_id q \<and> rt = ''qa_question''
        \<and> r = uuid_str (q_id q) then Some (- q_bounty_total q) else sn u rt r)"
  shows "qa_books sn' (qs @ [q]) as"
proof -
  have unknown: "sn u ''qa_question'' (uuid_str (q_id q)) = None" "sn u ''qa_refund'' (uuid_str (q_id q)) = None" for u
    using refs_unknown(1,2)[of sn qs as "q_id q" u] ok new by (simp_all add: qa_books_def)
  have none: "accepted_in (q_id q) as = 0"
  proof -
    have "a_question_id a \<noteq> q_id q" if "a \<in> set as" for a
    proof -
      have "answer_fits sn qs a" using ok that by (simp add: qa_books_def)
      then show ?thesis using new by (auto simp: answer_fits_def image_iff)
    qed
    then show ?thesis by (auto simp: accepted_in_def filter_empty_conv)
  qed
  have "question_fits sn' as q"
    using q unknown none by (simp add: question_fits_def sn')
  moreover have "question_fits sn' as x" if "x \<in> set qs" for x
  proof -
    have "q_id x \<noteq> q_id q" using new that by (metis imageI)
    moreover have "question_fits sn as x" using ok that by (simp add: qa_books_def)
    ultimately show ?thesis by (simp add: question_fits_def sn')
  qed
  moreover have "answer_fits sn' (qs @ [q]) a" if "a \<in> set as" for a
    using ok that unfolding qa_books_def answer_fits_def by (fastforce simp: sn')
  moreover have "refs_known sn' (qs @ [q]) as"
    using ok unfolding qa_books_def refs_known_def by (simp add: sn')
  ultimately show ?thesis
    using ok new by (auto simp: qa_books_def)
qed

lemma books_answer:
  assumes ok: "qa_books sn qs as" and new: "a_id a \<notin> a_id ` set as" and "\<not> a_is_accepted a"
    and "q \<in> set qs" "q_id q = a_question_id a" "q_author_id q \<noteq> a_author_id a"
  shows "qa_books sn qs (as @ [a])"
proof -
  have "accepted_in i (as @ [a]) = accepted_in i as" for i
    using assms(3) by (simp add: accepted_in_def)
  then have "question_fits sn (as @ [a]) x = question_fits sn as x" for x by (simp add: question_fits_def)
  moreover have "sn (a_author_id a) ''qa_accept'' (accept_ref (q_id q) (a_id a)) = None"
    using refs_unknown(3)[of sn qs as "a_id a"] ok new by (simp add: qa_books_def)
  then have "answer_fits sn qs a"
    using assms(3-6) by (auto simp: answer_fits_def)
  ultimately show ?thesis
    using ok new by (auto simp: qa_books_def refs_known_def)
qed

definition set_question :: "question \<Rightarrow> question list \<Rightarrow> question list" where
  "set_question q qs = map (\<lambda>x. if q_id x = q_id q then q else x) qs"

definition set_answer :: "answer \<Rightarrow> answer list \<Rightarrow> answer list" where
  "set_answer a as = map (\<lambda>x. if a_id x = a_id a then a else x) as"

lemma put_question_set: "put_question q s = s\<lparr>qa_questions := set_question (q\<lparr>q_updated_at := now s\<rparr>) (qa_questions s)\<rparr>"
  by (simp add: put_question_def set_question_def)

lemma put_answer_set: "put_answer a s = s\<lparr>qa_answers := set_answer a (qa_answers s)\<rparr>"
  by (simp add: put_answer_def set_answer_def)

lemma set_question_ids [simp]: "map q_id (set_question q qs) = map q_id qs"
  by (simp add: set_question_def comp_def if_distrib)

lemma set_question_image: "(\<lambda>q. f (q_id q)) ` set (set_question q qs) = (\<lambda>q. f (q_id q)) ` set qs"
proof -
  have "(\<lambda>q. f (q_id q)) ` set xs = f ` set (map q_id xs)" for xs by (auto simp: image_iff)
  then show ?thesis by (metis set_question_ids)
qed

lemma answer_fits_set_question:
  assumes "answer_fits sn qs a" and "distinct (map q_id qs)" and "q \<in> set qs" and "q_id q' = q_id q"
    and "q_author_id q' = q_author_id q" and "q_bounty_per_person q' = q_bounty_per_person q"
  shows "answer_fits sn (set_question q' qs) a"
proof -
  from assms(1) obtain x where x: "x \<in> set qs" "q_id x = a_question_id a" "q_author_id x \<noteq> a_author_id a"
    "sn (a_author_id a) ''qa_accept'' (accept_ref (q_id x) (a_id a)) =
            (if a_is_accepted a \<and> 0 < q_bounty_per_person x then Some (q_bounty_per_person x) else None)"
    by (auto simp: answer_fits_def)
  have "x = q" if "q_id x = q_id q" using assms(2,3) x(1) that by (metis distinct_map inj_onD)
  then show ?thesis
    using x assms(3-6) unfolding answer_fits_def set_question_def
    by (intro bexI[of _ "if q_id x = q_id q' then q' else x"]) (auto simp: image_iff)
qed

lemma books_settle:
  assumes ok: "qa_books sn qs as" and q: "q \<in> set qs" "q_status q = ''open''"
    and q': "q' = (settled q)\<lparr>q_updated_at := t\<rparr>"
    and sn': "\<And>u rt r. sn' u rt r = (if 0 < q_bounty_total q - q_bounty_distributed q \<and> u = q_author_id q
        \<and> rt = ''qa_refund'' \<and> r = uuid_str (q_id q) then Some (q_bounty_total q - q_bounty_distributed q) else sn u rt r)"
  shows "qa_books sn' (set_question q' qs) as"
proof -
  have d: "distinct (map q_id qs)" using ok by (simp add: qa_books_def)
  have fq: "question_fits sn as q" using ok q by (simp add: qa_books_def)
  have "question_fits sn' as q'"
    using fq q(2) by (auto simp: question_fits_def sn' q' settled_def)
  moreover have "question_fits sn' as x" if "x \<in> set qs" "q_id x \<noteq> q_id q" for x
  proof -
    have "question_fits sn as x" using ok that by (simp add: qa_books_def)
    with that show ?thesis by (simp add: question_fits_def sn')
  qed
  ultimately have "\<forall>x \<in> set (set_question q' qs). question_fits sn' as x"
    by (auto simp: set_question_def q')
  moreover have "answer_fits sn' (set_question q' qs) a" if "a \<in> set as" for a
  proof (rule answer_fits_set_question[OF _ d q(1)])
    have "answer_fits sn qs a" using ok that by (simp add: qa_books_def)
    then show "answer_fits sn' qs a" by (simp add: answer_fits_def sn')
  qed (simp_all add: q')
  moreover have "refs_known sn' (set_question q' qs) as"
    using ok q(1) unfolding qa_books_def refs_known_def set_question_image by (simp add: sn')
  ultimately show ?thesis
    using ok by (simp add: qa_books_def)
qed
lemma accepted_in_set:
  assumes "distinct (map a_id as)" and "a \<in> set as" and "\<not> a_is_accepted a"
  shows "accepted_in i (set_answer (a\<lparr>a_is_accepted := True\<rparr>) as) = accepted_in i as + (if i = a_question_id a then 1 else 0)"
  using assms
proof (induction as)
  case (Cons x as)
  have same: "set_answer (a\<lparr>a_is_accepted := True\<rparr>) as = as" if "a_id a \<notin> a_id ` set as"
    using that unfolding set_answer_def by (intro map_idI) (auto simp: image_iff)
  show ?case
  proof (cases "x = a")
    case True
    with Cons.prems same show ?thesis by (simp add: accepted_in_def set_answer_def)
  next
    case False
    with Cons.prems have "a \<in> set as" "a_id x \<noteq> a_id a" by auto
    with Cons show ?thesis by (auto simp: accepted_in_def set_answer_def)
  qed
qed simp

lemma books_pay:
  assumes ok: "qa_books sn qs as" and q: "q \<in> set qs" "q_status q = ''open''"
    and a: "a \<in> set as" "a_question_id a = q_id q" "\<not> a_is_accepted a"
    and room: "int (accepted_in (q_id q) as) < q_bounty_people q"
    and q': "q' = q\<lparr>q_bounty_distributed := q_bounty_distributed q + q_bounty_per_person q,
        q_accepted_answer_id := Some (a_id a), q_updated_at := t\<rparr>"
    and sn': "\<And>u rt r. sn' u rt r = (if 0 < q_bounty_per_person q \<and> u = a_author_id a \<and> rt = ''qa_accept''
        \<and> r = accept_ref (q_id q) (a_id a) then Some (q_bounty_per_person q) else sn u rt r)"
  shows "qa_books sn' (set_question q' qs) (set_answer (a\<lparr>a_is_accepted := True\<rparr>) as)" (is "qa_books sn' ?qs ?as")
proof -
  have d: "distinct (map q_id qs)" "distinct (map a_id as)" using ok by (simp_all add: qa_books_def)
  have ids: "map a_id ?as = map a_id as" by (simp add: set_answer_def comp_def if_distrib)
  note acc = accepted_in_set[OF d(2) a(1,3)]
  have fq: "question_fits sn as q" using ok q by (simp add: qa_books_def)
  have "question_fits sn' ?as q'"
    using fq q(2) room a(2) unfolding question_fits_def acc
    by (simp add: q' sn' algebra_simps)
  moreover have "question_fits sn' ?as x" if "x \<in> set qs" "q_id x \<noteq> q_id q" for x
  proof -
    have "question_fits sn as x" using ok that by (simp add: qa_books_def)
    with that a(2) show ?thesis by (simp add: question_fits_def sn' acc)
  qed
  ultimately have "\<forall>x \<in> set ?qs. question_fits sn' ?as x"
    by (auto simp: set_question_def q')
  moreover have "answer_fits sn' ?qs b" if b: "b \<in> set as" "a_id b \<noteq> a_id a" for b
  proof (rule answer_fits_set_question[OF _ d(1) q(1)])
    have "answer_fits sn qs b" using ok b by (simp add: qa_books_def)
    with b show "answer_fits sn' qs b" by (auto simp: answer_fits_def sn')
  qed (simp_all add: q')
  moreover have "answer_fits sn' ?qs (a\<lparr>a_is_accepted := True\<rparr>)"
  proof (rule answer_fits_set_question[OF _ d(1) q(1)])
    have "answer_fits sn qs a" using ok a by (simp add: qa_books_def)
    then obtain x where x: "x \<in> set qs" "q_id x = q_id q" "q_author_id x \<noteq> a_author_id a"
      "sn (a_author_id a) ''qa_accept'' (accept_ref (q_id x) (a_id a)) = None"
      by (auto simp: answer_fits_def a)
    have xq: "x = q" using d(1) x(1,2) q(1) by (metis distinct_map inj_onD)
    have "0 \<le> q_bounty_per_person q" using fq by (simp add: question_fits_def)
    with x q(1) a(2) show "answer_fits sn' qs (a\<lparr>a_is_accepted := True\<rparr>)"
      unfolding answer_fits_def xq by (intro bexI[of _ q]) (auto simp: sn')
  qed (simp_all add: q')
  moreover have "refs_known sn' ?qs ?as"
  proof -
    have img: "(\<lambda>a. accept_ref (a_question_id a) (a_id a)) ` set ?as = (\<lambda>a. accept_ref (a_question_id a) (a_id a)) ` set as"
    proof -
      have "(if a_id x = a_id a then a\<lparr>a_is_accepted := True\<rparr> else x) = (if x = a then a\<lparr>a_is_accepted := True\<rparr> else x)"
        if "x \<in> set as" for x
        using d(2) a(1) that by (metis distinct_map inj_onD)
      then have "(\<lambda>a. accept_ref (a_question_id a) (a_id a)) (if a_id x = a_id a then a\<lparr>a_is_accepted := True\<rparr> else x)
          = accept_ref (a_question_id x) (a_id x)" if "x \<in> set as" for x
        using that by simp
      then have "(\<lambda>x. accept_ref (a_question_id (if a_id x = a_id a then a\<lparr>a_is_accepted := True\<rparr> else x))
            (a_id (if a_id x = a_id a then a\<lparr>a_is_accepted := True\<rparr> else x))) ` set as
          = (\<lambda>a. accept_ref (a_question_id a) (a_id a)) ` set as"
        by (intro image_cong) auto
      moreover have "a_id (a\<lparr>a_is_accepted := True\<rparr>) = a_id a" by simp
      ultimately show ?thesis by (simp only: set_answer_def set_map image_image)
    qed
    have "accept_ref (q_id q) (a_id a) \<in> (\<lambda>a. accept_ref (a_question_id a) (a_id a)) ` set as"
      using a(1) by (intro image_eqI[of _ _ a]) (simp_all add: a(2))
    then show ?thesis
      using ok unfolding qa_books_def refs_known_def set_question_image img by (simp add: sn')
  qed
  ultimately show ?thesis
    using d ids by (auto simp: qa_books_def) (auto simp: set_answer_def)
qed

section \<open>Every operation keeps the books\<close>

definition escrow_of :: "question \<Rightarrow> int" where
  "escrow_of q = (if q_status q = ''open'' then q_bounty_total q - q_bounty_distributed q else 0)"

definition escrow :: "'s qa_db_scheme \<Rightarrow> int" where
  "escrow s = sum_list (map escrow_of (qa_questions s))"

lemma sum_set_question:
  assumes "distinct (map q_id qs)" and "q \<in> set qs" and "q_id q' = q_id q"
  shows "sum_list (map f (set_question q' qs)) = sum_list (map f qs) - f q + (f q' :: int)"
  using assms
proof (induction qs)
  case (Cons x qs)
  have same: "set_question q' qs = qs" if "q_id q \<notin> q_id ` set qs"
    using that Cons.prems(3) unfolding set_question_def by (intro map_idI) (auto simp: image_iff)
  show ?case
  proof (cases "x = q")
    case True
    with Cons.prems same show ?thesis by (simp add: set_question_def)
  next
    case False
    with Cons.prems have "q \<in> set qs" "q_id x \<noteq> q_id q" by auto
    with Cons show ?thesis by (auto simp: set_question_def)
  qed
qed simp

lemma points_cong:
  assumes "ledger s' = ledger s" and "balances s' = balances s"
  shows "points_ok s' = points_ok s" "seen_delta s' = seen_delta s" "points_total s' = points_total s"
proof -
  have b: "balance_of s' = balance_of s" using assms by (simp add: balance_of_def fun_eq_iff)
  show "points_ok s' = points_ok s" "points_total s' = points_total s"
    using assms b by (simp_all add: points_ok_def rows_of_def points_total_def)
  show "seen_delta s' = seen_delta s" using assms by (simp add: seen_delta_def get_by_ref_def fun_eq_iff)
qed

lemma tables_cong:
  assumes "content_db.more s' = content_db.more s"
  shows "qa_questions s' = qa_questions s" "qa_answers s' = qa_answers s" "qa_images s' = qa_images s"
  using assms by (cases s, cases s', simp)+

lemma emit_simps [simp]:
  "ledger (emit_fx f s) = ledger s" "balances (emit_fx f s) = balances s" "qa_questions (emit_fx f s) = qa_questions s"
  "qa_answers (emit_fx f s) = qa_answers s" "now (emit_fx f s) = now s"
  by (simp_all add: emit_fx_def)

text \<open>What an operation promises: the books stay right and points only move.\<close>

definition kept :: "'s qa_db_scheme \<Rightarrow> 's qa_db_scheme \<Rightarrow> bool" where
  "kept s s' \<longleftrightarrow> qa_ok s' \<and> points_total s' + escrow s' = points_total s + escrow s"

lemma kept_trans: "kept a b \<Longrightarrow> kept b c \<Longrightarrow> kept a c"
  by (simp add: kept_def)

lemma kept_cong:
  assumes "kept s t" and "ledger s' = ledger t" "balances s' = balances t" "qa_questions s' = qa_questions t"
    "qa_answers s' = qa_answers t"
  shows "kept s s'"
  using assms points_cong[of s' t] by (simp add: kept_def qa_ok_def escrow_def)

lemma find_question_Some: "find_question i s = Some q \<Longrightarrow> q \<in> set (qa_questions s) \<and> q_id q = i"
  by (auto simp: find_question_def find_Some_iff)

lemma create_question_kept:
  assumes "create_question names author info s = Inr (r, s')" and "qa_ok s" and "question_create_valid info"
  shows "kept s s'"
proof -
  define q where "q = new_question (pks s (pk_ix s)) author info (now s)"
  let ?s0 = "s\<lparr>pk_ix := Suc (pk_ix s), qa_questions := qa_questions s @ [q]\<rparr>"
  have q: "0 \<le> q_bounty_people q" "0 \<le> q_bounty_per_person q" "q_author_id q = author" "q_id q = pks s (pk_ix s)"
    "q_bounty_total q = q_bounty_people q * q_bounty_per_person q" "q_bounty_distributed q = 0" "q_status q = ''open''"
    "q_accepted_answer_id q = None"
    using assms(3) by (simp_all add: q_def new_question_def Let_def question_create_valid_def)
  have books: "qa_books (seen_delta s) (qa_questions s) (qa_answers s)" and pok: "points_ok s"
    using assms(2) by (simp_all add: qa_ok_def)
  have c0: "points_ok ?s0 = points_ok s" "seen_delta ?s0 = seen_delta s" "points_total ?s0 = points_total s"
    by (rule points_cong; simp)+
  have eq: "new_question (pks s (pk_ix s)) author info (now (s\<lparr>pk_ix := Suc (pk_ix s)\<rparr>)) = q"
    by (simp add: q_def)
  from assms(1)[unfolded create_question_def fresh_pk_def Let_def prod.case eq]
  obtain x t u where x: "insert_question q (s\<lparr>pk_ix := Suc (pk_ix s)\<rparr>) = Inr x"
    and t': "(if 0 < q_bounty_total q
             then bindR (spend author (q_bounty_total q) ''qa_escrow'' ''qa_question'' (uuid_str (q_id q)) x) (\<lambda>(_, s). Inr s)
             else Inr x) = Inr t"
    and u: "sync_question_content_item author q t = Inr u" "s' = emit_fx (Bump ''qa'') u"
    by (auto simp: q(4) cong: if_cong)
  from x have new: "q_id q \<notin> q_id ` set (qa_questions s)" and "x = ?s0"
    by (auto simp: insert_question_def list_ex_iff split: if_splits)
  with t' have t: "(if 0 < q_bounty_total q
             then \<exists>e. spend author (q_bounty_total q) ''qa_escrow'' ''qa_question'' (uuid_str (q_id q)) ?s0 = Inr (e, t)
             else t = ?s0)"
    by (auto split: if_splits)
  have unseen: "seen_delta s author ''qa_question'' (uuid_str (q_id q)) = None"
    using books new by (intro refs_unknown(1)) (auto simp: qa_books_def)
  have esc: "escrow ?s0 = escrow s + q_bounty_total q"
    using q by (simp add: escrow_def escrow_of_def)
  have tt: "points_ok t \<and> qa_questions t = qa_questions s @ [q] \<and> qa_answers t = qa_answers s
     \<and> points_total t = points_total s - (if 0 < q_bounty_total q then q_bounty_total q else 0)
     \<and> (\<forall>v rt r. seen_delta t v rt r = (if 0 < q_bounty_total q \<and> v = q_author_id q \<and> rt = ''qa_question''
        \<and> r = uuid_str (q_id q) then Some (- q_bounty_total q) else seen_delta s v rt r))"
  proof (cases "0 < q_bounty_total q")
    case True
    with t obtain e where rw: "reward author (- q_bounty_total q) ''qa_escrow'' ''qa_question'' (uuid_str (q_id q)) False ?s0 = Inr (e, t)"
      by (auto simp: spend_reward)
    have "points_ok t" using points.pay_ok[OF _ rw] c0(1) pok by simp
    moreover have "points_total t = points_total s - q_bounty_total q"
      using points.pay_total[OF _ rw] c0 pok unseen by simp
    ultimately show ?thesis
      using True reward_qa[OF rw] points.pay_seen[OF rw] c0(2) q(3) by simp
  next
    case False
    with t c0 pok show ?thesis by simp
  qed
  have nonneg: "0 \<le> q_bounty_total q" using q by simp
  have bt: "qa_books (seen_delta t) (qa_questions s @ [q]) (qa_answers s)"
    using tt by (intro books_ask[OF books new q(1,2,5-8)]) simp
  have "kept s t"
  proof -
    have "points_ok t" "qa_questions t = qa_questions s @ [q]" "qa_answers t = qa_answers s"
      "points_total t = points_total s - q_bounty_total q"
      using tt nonneg by (simp_all split: if_splits)
    with bt q(6,7) show ?thesis by (simp add: kept_def qa_ok_def escrow_def escrow_of_def)
  qed
  moreover have "ledger u = ledger t" "balances u = balances t" "content_db.more u = content_db.more t"
    using u(1) unfolding sync_question_content_item_def by (simp_all add: publish_qa_item_frame)
  ultimately show ?thesis
    using tables_cong(1,2)[of u t] by (intro kept_cong[OF \<open>kept s t\<close>]) (simp_all only: u(2) emit_simps)
qed

lemma create_answer_kept:
  assumes "create_answer i author body s = Inr (a, s')" and "qa_ok s"
  shows "kept s s'"
proof -
  from assms(1) obtain q where q: "find_question i s = Some q" "q_author_id q \<noteq> author"
    and a: "a_id a = pks s (pk_ix s)" "a_question_id a = i" "a_author_id a = author" "\<not> a_is_accepted a"
      "a_id a \<notin> a_id ` set (qa_answers s)"
    and s': "s' = s\<lparr>pk_ix := Suc (pk_ix s), qa_answers := qa_answers s @ [a], cache_fx := cache_fx s @ [Bump ''qa'']\<rparr>"
    by (auto simp: create_answer_def fresh_pk_def insert_answer_def Let_def emit_fx_def list_ex_iff
        image_iff eq_commute[of "pks s (pk_ix s)"] split: option.splits if_splits)
  note fq = find_question_Some[OF q(1)]
  have "qa_books (seen_delta s) (qa_questions s) (qa_answers s @ [a])"
    by (rule books_answer[of _ _ _ _ q]) (use assms(2) a q fq in \<open>auto simp: qa_ok_def\<close>)
  then have "kept s (s\<lparr>qa_answers := qa_answers s @ [a]\<rparr>)"
    using assms(2) points_cong[of "s\<lparr>qa_answers := qa_answers s @ [a]\<rparr>" s] by (simp add: kept_def qa_ok_def escrow_def)
  then show ?thesis by (rule kept_cong) (simp_all add: s')
qed

lemma settle_question_kept:
  assumes "settle_question q s = Inr s'" and "qa_ok s" and "q \<in> set (qa_questions s)" and "q_status q = ''open''"
  shows "kept s s'"
proof -
  obtain t where s': "s' = put_question (settled q) t" and tq: "qa_questions t = qa_questions s" "qa_answers t = qa_answers s"
      "now t = now s"
    and pay: "0 < q_bounty_total q - q_bounty_distributed q \<Longrightarrow>
       \<exists>e. reward (q_author_id q) (q_bounty_total q - q_bounty_distributed q) ''qa_refund'' ''qa_refund''
             (uuid_str (q_id q)) False s = Inr (e, t)"
      "q_bounty_total q - q_bounty_distributed q \<le> 0 \<Longrightarrow> t = s"
    by (rule settle_question_eq[OF assms(1)], rule that)
  let ?r = "q_bounty_total q - q_bounty_distributed q"
  have books: "qa_books (seen_delta s) (qa_questions s) (qa_answers s)" and pok: "points_ok s"
    using assms(2) by (simp_all add: qa_ok_def)
  have fits: "question_fits (seen_delta s) (qa_answers s) q" and d: "distinct (map q_id (qa_questions s))"
    using books assms(3) by (simp_all add: qa_books_def)
  have unseen: "seen_delta s (q_author_id q) ''qa_refund'' (uuid_str (q_id q)) = None"
    using fits assms(4) by (simp add: question_fits_def)
  have "0 \<le> q_bounty_per_person q * (q_bounty_people q - int (accepted_in (q_id q) (qa_answers s)))"
    using fits by (simp add: question_fits_def)
  then have r0: "0 \<le> ?r" using fits by (simp add: question_fits_def algebra_simps)
  have tt: "points_ok t \<and> points_total t = points_total s + ?r
     \<and> (\<forall>u rt r. seen_delta t u rt r = (if 0 < ?r \<and> u = q_author_id q \<and> rt = ''qa_refund'' \<and> r = uuid_str (q_id q)
          then Some ?r else seen_delta s u rt r))"
  proof (cases "0 < ?r")
    case True
    then obtain e where rw: "reward (q_author_id q) ?r ''qa_refund'' ''qa_refund'' (uuid_str (q_id q)) False s = Inr (e, t)"
      using pay(1) by blast
    show ?thesis
      using True points.pay_ok[OF pok rw] points.pay_total[OF pok rw] points.pay_seen[OF rw] unseen by simp
  qed (use pay(2) pok r0 in simp)
  let ?q = "(settled q)\<lparr>q_updated_at := now t\<rparr>"
  have "qa_books (seen_delta t) (set_question ?q (qa_questions s)) (qa_answers s)"
    using tt by (intro books_settle[OF books assms(3,4) refl]) simp
  moreover have "escrow (t\<lparr>qa_questions := set_question ?q (qa_questions s)\<rparr>) = escrow s - ?r"
    using sum_set_question[OF d assms(3), of ?q escrow_of] assms(4) by (simp add: escrow_def escrow_of_def)
  ultimately show ?thesis
    using tt tq points_cong[of s' t] by (simp add: kept_def qa_ok_def s' put_question_set)
qed

lemma pay_answer_kept:
  assumes "pay_answer q a s = Inr (b, s')" and "qa_ok s" and q: "q \<in> set (qa_questions s)" "q_status q = ''open''"
    and a: "a \<in> set (qa_answers s)" "a_question_id a = q_id q" "\<not> a_is_accepted a"
    and room: "int (count_accepted (q_id q) s) < q_bounty_people q"
  shows "kept s s'"
proof -
  let ?ref = "accept_ref (q_id q) (a_id a)"
  let ?p = "q_bounty_per_person q"
  have books: "qa_books (seen_delta s) (qa_questions s) (qa_answers s)" and pok: "points_ok s"
    using assms(2) by (simp_all add: qa_ok_def)
  have fits: "question_fits (seen_delta s) (qa_answers s) q" and d: "distinct (map q_id (qa_questions s))"
    using books q by (simp_all add: qa_books_def)
  have p0: "0 \<le> ?p" using fits by (simp add: question_fits_def)
  from books a have "answer_fits (seen_delta s) (qa_questions s) a" by (simp add: qa_books_def)
  then have unseen: "seen_delta s (a_author_id a) ''qa_accept'' ?ref = None"
    using a by (auto simp: answer_fits_def)
  let ?q = "q\<lparr>q_bounty_distributed := q_bounty_distributed q + ?p\<rparr>"
  from assms(1) obtain t where
    t: "if 0 < ?p then \<exists>e. reward (a_author_id a) ?p ''qa_accept'' ''qa_accept'' ?ref False s = Inr (e, t) else t = s"
    and s': "\<exists>u v. enqueue_points_event (a_author_id a) ''answer_accepted'' (''answer:'' @ uuid_str (a_id a))
               (put_question (?q\<lparr>q_accepted_answer_id := Some (a_id a)\<rparr>) (put_answer (a\<lparr>a_is_accepted := True\<rparr>) t)) = Inr u
             \<and> enqueue_points_event (q_author_id q) ''qa_accept_notice'' (''answer:'' @ uuid_str (a_id a)) u = Inr v
             \<and> s' = emit_fx (Bump ''qa'') v"
    using p0 by (cases "0 < ?p") (auto simp: pay_answer_def Let_def accept_ref_def)
  have tt: "points_ok t \<and> qa_questions t = qa_questions s \<and> qa_answers t = qa_answers s
     \<and> points_total t = points_total s + ?p
     \<and> (\<forall>u rt r. seen_delta t u rt r = (if 0 < ?p \<and> u = a_author_id a \<and> rt = ''qa_accept'' \<and> r = ?ref
          then Some ?p else seen_delta s u rt r))"
  proof (cases "0 < ?p")
    case True
    with t obtain e where rw: "reward (a_author_id a) ?p ''qa_accept'' ''qa_accept'' ?ref False s = Inr (e, t)" by auto
    show ?thesis
      using True points.pay_ok[OF pok rw] points.pay_total[OF pok rw] points.pay_seen[OF rw] unseen reward_qa[OF rw] by simp
  next
    case False
    with t pok p0 show ?thesis by simp
  qed
  let ?q' = "?q\<lparr>q_accepted_answer_id := Some (a_id a), q_updated_at := now t\<rparr>"
  let ?t = "put_question (?q\<lparr>q_accepted_answer_id := Some (a_id a)\<rparr>) (put_answer (a\<lparr>a_is_accepted := True\<rparr>) t)"
  have "qa_books (seen_delta t) (set_question ?q' (qa_questions s)) (set_answer (a\<lparr>a_is_accepted := True\<rparr>) (qa_answers s))"
    using tt room by (intro books_pay[OF books q a _ refl]) (simp_all add: count_accepted_def accepted_in_def)
  moreover have "escrow (t\<lparr>qa_questions := set_question ?q' (qa_questions s)\<rparr>) = escrow s - ?p"
    using sum_set_question[OF d q(1), of ?q' escrow_of] q(2) by (simp add: escrow_def escrow_of_def)
  moreover have "points_ok t" "points_total t = points_total s + ?p"
    "qa_questions t = qa_questions s" "qa_answers t = qa_answers s" using tt by simp_all
  ultimately have "kept s ?t"
    using points_cong[of ?t t] by (simp add: kept_def qa_ok_def put_question_set put_answer_set escrow_def)
  moreover from s' obtain u v where
    uv: "enqueue_points_event (a_author_id a) ''answer_accepted'' (''answer:'' @ uuid_str (a_id a)) ?t = Inr u"
      "enqueue_points_event (q_author_id q) ''qa_accept_notice'' (''answer:'' @ uuid_str (a_id a)) u = Inr v"
    and e: "s' = emit_fx (Bump ''qa'') v"
    by blast
  have m: "core_db.more v = core_db.more ?t"
    using enqueue_points_event_more(1)[OF uv(1)] enqueue_points_event_more(1)[OF uv(2)] by simp
  have "ledger v = ledger ?t" "balances v = balances ?t" "qa_questions v = qa_questions ?t" "qa_answers v = qa_answers ?t"
    using more_eq_tables(2,1)[OF m] tables_cong(1,2)[OF more_eq_tables(8)[OF m]] .
  then show ?thesis by (intro kept_cong[OF \<open>kept s ?t\<close>]) (simp_all only: e emit_simps)
qed

lemma accept_answer_cases:
  assumes "accept_answer i j u s = Inr (b, s')"
  obtains q a where "find_question i s = Some q" "q_author_id q = u" "q_status q = ''open''" "\<not> expired q s"
      "find (\<lambda>a. a_id a = j \<and> a_question_id a = i) (qa_answers s) = Some a" "q \<in> set (qa_questions s)" "q_id q = i"
      "a \<in> set (qa_answers s)" "a_id a = j" "a_question_id a = i"
    and "a_is_accepted a \<and> b = a \<and> s' = s
      \<or> \<not> a_is_accepted a \<and> a_author_id a \<noteq> u \<and> int (count_accepted i s) < q_bounty_people q \<and> pay_answer q a s = Inr (b, s')"
proof -
  from assms obtain q a where *: "find_question i s = Some q" "q_author_id q = u" "q_status q = ''open''" "\<not> expired q s"
      "find (\<lambda>a. a_id a = j \<and> a_question_id a = i) (qa_answers s) = Some a"
     "a_is_accepted a \<and> b = a \<and> s' = s
      \<or> \<not> a_is_accepted a \<and> a_author_id a \<noteq> u \<and> int (count_accepted i s) < q_bounty_people q \<and> pay_answer q a s = Inr (b, s')"
    by (auto simp: accept_answer_def not_le split: option.splits if_splits)
  have "a \<in> set (qa_answers s)" "a_id a = j" "a_question_id a = i" using *(5) by (auto simp: find_Some_iff)
  with * find_question_Some[OF *(1)] that show ?thesis by blast
qed

lemma accept_answer_kept:
  assumes "accept_answer i j u s = Inr (b, s')" and "qa_ok s"
  shows "kept s s'"
  using assms(1)
proof (cases rule: accept_answer_cases)
  case (1 q a)
  show ?thesis
  proof (cases "a_is_accepted a")
    case True
    with 1 assms(2) show ?thesis by (simp add: kept_def)
  next
    case False
    with 1 have "pay_answer q a s = Inr (b, s')" "int (count_accepted (q_id q) s) < q_bounty_people q" by simp_all
    with 1 False assms(2) show ?thesis by (intro pay_answer_kept[of q a s b s']) simp_all
  qed
qed

lemma accept_answer_open:
  assumes "accept_answer i j u s = Inr (b, t)" and "find_question i t = Some x"
  shows "q_status x = ''open''"
  using assms(1)
proof (cases rule: accept_answer_cases)
  case (1 q a)
  show ?thesis
  proof (cases "a_is_accepted a")
    case True
    with 1 assms(2) show ?thesis by simp
  next
    case False
    with 1 have "pay_answer q a s = Inr (b, t)" by simp
    then obtain p where p: "(if 0 < q_bounty_per_person q
            then bindR (reward (a_author_id a) (q_bounty_per_person q) ''qa_accept'' ''qa_accept''
                          (uuid_str (q_id q) @ '':'' @ uuid_str (a_id a)) False s)
                   (\<lambda>(_, s). Inr (q\<lparr>q_bounty_distributed := q_bounty_distributed q + q_bounty_per_person q\<rparr>, s))
            else Inr (q, s)) = Inr p"
      and run: "pay_answer q a s = Inr (b, t)"
      unfolding pay_answer_def bindR_Inr_iff by blast
    obtain q0 s0 where p': "p = (q0, s0)" by (cases p)
    have q0: "q_status q0 = ''open''" "q_id q0 = i"
      using p 1 unfolding p' by (auto split: if_splits)
    define q' where "q' = q0\<lparr>q_accepted_answer_id := Some (a_id a)\<rparr>"
    have q': "q_status q' = ''open''" "q_id q' = i" using q0 by (simp_all add: q'_def)
    from run[unfolded pay_answer_def p p'] obtain s2 s3 where
      e: "enqueue_points_event (a_author_id a) ''answer_accepted'' (''answer:'' @ uuid_str (a_id a))
            (put_question q' (put_answer (a\<lparr>a_is_accepted := True\<rparr>) s0)) = Inr s2"
        "enqueue_points_event (q_author_id q0) ''qa_accept_notice'' (''answer:'' @ uuid_str (a_id a)) s2 = Inr s3"
        "t = emit_fx (Bump ''qa'') s3"
      by (auto simp: Let_def q'_def)
    define s1 where "s1 = put_answer (a\<lparr>a_is_accepted := True\<rparr>) s0"
    note e = e[folded s1_def]
    have m: "core_db.more s3 = core_db.more (put_question q' s1)"
      using enqueue_points_event_more(1)[OF e(1)] enqueue_points_event_more(1)[OF e(2)] by simp
    have "qa_questions t = set_question (q'\<lparr>q_updated_at := now s1\<rparr>) (qa_questions s1)"
      using tables_cong(1)[OF more_eq_tables(8)[OF m]] by (simp add: e(3) emit_fx_def put_question_set)
    with find_question_Some[OF assms(2)] q' show ?thesis
      by (auto simp: set_question_def split: if_splits)
  qed
qed

lemma close_question_kept:
  assumes "close_question names i u acc s = Inr (r, s')" and "qa_ok s"
  shows "kept s s'"
proof -
  from assms(1) obtain q where q: "find_question i s = Some q" "q_status q = ''open''"
    by (auto simp: close_question_def split: option.splits if_splits)
  have fin: "kept t s''" if "settle_question x t = Inr s''" "qa_ok t" "find_question i t = Some x" "q_status x = ''open''"
    for x t s''
    using settle_question_kept[OF that(1,2)] find_question_Some[OF that(3)] that(4) by simp
  have cong: "kept s s' = kept s s''" if "s' = emit_fx (Bump ''qa'') s''" for s''
    using kept_cong[of s s' s''] kept_cong[of s s'' s'] that by (auto simp: emit_fx_def)
  show ?thesis
  proof (cases "\<exists>j. acc = Some j \<and> acc \<noteq> q_accepted_answer_id q")
    case True
    with assms(1) q obtain j b t x s'' where *: "accept_answer i j u s = Inr (b, t)" "find_question i t = Some x"
      "settle_question x t = Inr s''" "s' = emit_fx (Bump ''qa'') s''"
      by (auto simp: close_question_def split: if_splits)
    have a: "kept s t" by (rule accept_answer_kept[OF *(1) assms(2)])
    then have "kept t s''" using fin[OF *(3) _ *(2) accept_answer_open[OF *(1,2)]] by (simp add: kept_def)
    with a cong[OF *(4)] kept_trans show ?thesis by blast
  next
    case False
    with assms(1) q obtain s'' where *: "settle_question q s = Inr s''" "s' = emit_fx (Bump ''qa'') s''"
      by (auto simp: close_question_def split: if_splits option.splits)
    with fin[OF *(1) assms(2) q] cong[OF *(2)] show ?thesis by simp
  qed
qed

lemma set_question_other: "x \<in> set qs \<Longrightarrow> q_id x \<noteq> q_id q \<Longrightarrow> x \<in> set (set_question q qs)"
  unfolding set_question_def by (auto simp: image_iff intro!: bexI[of _ x])

lemma settle_question_rest:
  assumes "settle_question q s = Inr t" and "x \<in> set (qa_questions s)" and "q_id x \<noteq> q_id q"
  shows "x \<in> set (qa_questions t)"
proof -
  obtain r where "t = put_question (settled q) r" "qa_questions r = qa_questions s"
    by (rule settle_question_eq[OF assms(1)], rule that)
  with assms(2,3) show ?thesis by (simp add: put_question_set set_question_other)
qed

lemma settle_all_kept:
  assumes "foldR settle_question qs s = Inr s'" and "qa_ok s" and "distinct (map q_id qs)"
    and "\<And>q. q \<in> set qs \<Longrightarrow> q \<in> set (qa_questions s) \<and> q_status q = ''open''"
  shows "kept s s'"
  using assms
proof (induction qs arbitrary: s)
  case Nil
  then show ?case by (simp add: kept_def)
next
  case (Cons q qs)
  from Cons.prems(1) obtain t where t: "settle_question q s = Inr t" "foldR settle_question qs t = Inr s'" by auto
  have k: "kept s t" using settle_question_kept[OF t(1) Cons.prems(2)] Cons.prems(4) by simp
  have "x \<in> set (qa_questions t) \<and> q_status x = ''open''" if "x \<in> set qs" for x
    using settle_question_rest[OF t(1)] Cons.prems(3,4) that by (auto simp: image_iff)
  then have "kept t s'"
    using Cons.IH[OF t(2)] Cons.prems(3) k by (simp add: kept_def)
  with k show ?case by (rule kept_trans)
qed

lemma expire_due_kept:
  assumes "expire_due_questions limit s = Inr (n, s')" and "qa_ok s"
  shows "kept s s'"
proof -
  let ?qs = "expired_for_update (now s) limit s"
  from assms(1) obtain t where t: "foldR settle_question ?qs s = Inr t"
    and s': "s' = (if ?qs \<noteq> [] then emit_fx (Bump ''qa'') t else t)"
    by (auto simp: expire_due_questions_def Let_def)
  have d: "distinct (map q_id (qa_questions s))" using assms(2) by (simp add: qa_ok_def qa_books_def)
  have mem: "q \<in> set (qa_questions s) \<and> q_status q = ''open''" if "q \<in> set ?qs" for q
    using in_set_takeD[OF that[unfolded expired_for_update_def]] by (auto simp: is_due_def)
  have "distinct (map q_id ?qs)"
  proof -
    have "mset (map q_id (sort_key (\<lambda>q. the (q_bounty_expires_at q)) (sort_key q_id (filter (is_due (now s)) (qa_questions s)))))
        = mset (map q_id (filter (is_due (now s)) (qa_questions s)))" by (simp only: mset_map mset_sort)
    moreover have "distinct (map q_id (filter (is_due (now s)) (qa_questions s)))" using d by (rule distinct_map_filter)
    ultimately show ?thesis unfolding expired_for_update_def take_map[symmetric]
      by (metis distinct_take mset_eq_imp_distinct_iff)
  qed
  from settle_all_kept[OF t assms(2) this mem] have "kept s t" by blast
  then show ?thesis by (rule kept_cong) (simp_all add: s' emit_fx_def)
qed

lemma expire_qa_bounties_kept:
  assumes "qa_ok s"
  shows "kept s (snd (expire_qa_bounties s))"
  using assms
proof (induction s rule: expire_qa_bounties.induct)
  case (1 s)
  show ?case
  proof (cases "expire_due_questions 100 s")
    case (Inl e)
    with 1(2) show ?thesis by (simp add: expire_qa_bounties.simps[of s] kept_def)
  next
    case (Inr p)
    then obtain n t where p: "expire_due_questions 100 s = Inr (n, t)" by (cases p) simp
    have k: "kept s t" by (rule expire_due_kept[OF p 1(2)])
    with 1(1)[OF p refl] have "\<not> n < 100 \<Longrightarrow> kept t (snd (expire_qa_bounties t))" by (simp add: kept_def)
    with k p kept_trans[OF k] show ?thesis by (simp add: expire_qa_bounties.simps[of s])
  qed
qed

section \<open>The rest of the program\<close>

text \<open>
  What other parts may do: leave the tables of this module alone and move points under their own
  kinds of references only.
\<close>

definition outside :: "'s qa_db_scheme \<Rightarrow> 's qa_db_scheme \<Rightarrow> bool" where
  "outside s s' \<longleftrightarrow> qa_questions s' = qa_questions s \<and> qa_answers s' = qa_answers s
     \<and> (points_ok s \<longrightarrow> points_ok s') \<and> (\<forall>u rt r. rt \<in> QA_REFS \<longrightarrow> seen_delta s' u rt r = seen_delta s u rt r)"

lemma outside_ok: "outside s s' \<Longrightarrow> qa_ok s \<Longrightarrow> qa_ok s'"
  using qa_books_cong[of "seen_delta s'" "seen_delta s"] by (auto simp: outside_def qa_ok_def)

lemma outside_reward:
  assumes "reward u d reason rt ri neg s = Inr (e, s')" and "rt \<notin> QA_REFS"
  shows "outside s s'"
  using assms(2) reward_qa[OF assms(1)] points.pay_ok[OF _ assms(1)] points.pay_seen[OF assms(1)]
  by (auto simp: outside_def)

lemma outside_transfer:
  assumes "transfer a b n reason rt ri s = Inr (p, s')" and "rt \<notin> QA_REFS"
  shows "outside s s'"
proof -
  obtain x y where p: "p = (x, y)" by (cases p)
  note t = assms(1)[unfolded p]
  have "qa_questions s' = qa_questions s \<and> qa_answers s' = qa_answers s
      \<and> (\<forall>u k r. k \<in> QA_REFS \<longrightarrow> seen_delta s' u k r = seen_delta s u k r)"
    using t
  proof (cases rule: transfer_cases)
    case again
    then show ?thesis by (simp add: ensure_balance_eq seen_delta_def get_by_ref_def)
  next
    case fresh
    have "find (has_ref u k r) (ledger s @ [x, y]) = find (has_ref u k r) (ledger s)" if "k \<in> QA_REFS" for u k r
      using that assms(2) fresh(5,6) by (auto simp: find_append_case has_ref_def split: option.splits)
    with fresh(7) show ?thesis by (simp add: seen_delta_def get_by_ref_def)
  qed
  with points_ok_transfer[OF t] show ?thesis by (simp add: outside_def)
qed

lemma outside_core:
  assumes "core_db.more s' = core_db.more s"
  shows "outside s s'"
  using more_eq_tables(1,2)[OF assms] tables_cong(1,2)[OF more_eq_tables(8)[OF assms]] points_cong[of s' s]
  by (simp add: outside_def)

inductive qa_step :: "'s qa_db_scheme \<Rightarrow> 's qa_db_scheme \<Rightarrow> bool" where
  ask: "question_create_valid info \<Longrightarrow> create_question names u info s = Inr (r, s') \<Longrightarrow> qa_step s s'"
| answers: "create_answer i u body s = Inr (a, s') \<Longrightarrow> qa_step s s'"
| accept: "accept_answer i j u s = Inr (a, s') \<Longrightarrow> qa_step s s'"
| close: "close_question names i u acc s = Inr (r, s') \<Longrightarrow> qa_step s s'"
| expire: "qa_step s (snd (expire_qa_bounties s))"

inductive_cases qa_stepE: "qa_step s s'"

inductive qa_world :: "'s qa_db_scheme \<Rightarrow> 's qa_db_scheme \<Rightarrow> bool" where
  step: "qa_step s s' \<Longrightarrow> qa_world s s'"
| other: "outside s s' \<Longrightarrow> qa_world s s'"

lemma qa_step_kept: "qa_step s s' \<Longrightarrow> qa_ok s \<Longrightarrow> kept s s'"
  by (erule qa_stepE)
     (blast intro: create_question_kept create_answer_kept accept_answer_kept close_question_kept,
      blast intro: create_question_kept create_answer_kept accept_answer_kept close_question_kept,
      blast intro: accept_answer_kept, blast intro: close_question_kept, simp add: expire_qa_bounties_kept)

lemma qa_world_ok: "qa_world\<^sup>*\<^sup>* s s' \<Longrightarrow> qa_ok s \<Longrightarrow> qa_ok s'"
proof (induction rule: rtranclp_induct)
  case (step y z)
  from step(2) show ?case
    by (cases rule: qa_world.cases) (use step qa_step_kept outside_ok kept_def in blast)+
qed simp

section \<open>Expiry succeeds\<close>

text \<open>The next \<open>n\<close> identifiers that the database will generate are different and unused in the ledger.\<close>

definition ids_fresh :: "nat \<Rightarrow> 's points_db_scheme \<Rightarrow> bool" where
  "ids_fresh n s \<longleftrightarrow> inj_on (pks s) {pk_ix s..<pk_ix s + n}
     \<and> (\<forall>e \<in> set (ledger s). le_id e \<notin> pks s ` {pk_ix s..<pk_ix s + n})"

definition no_debt :: "'s points_db_scheme \<Rightarrow> bool" where
  "no_debt s \<longleftrightarrow> (\<forall>u. 0 \<le> balance_of s u)"

lemma ids_fresh_mono: "ids_fresh n s \<Longrightarrow> m \<le> n \<Longrightarrow> ids_fresh m s"
  by (auto simp: ids_fresh_def inj_on_def)

lemma ids_fresh_rewarded:
  assumes "ids_fresh (Suc n) s"
  shows "ids_fresh n (rewarded u d reason rt ri s)"
proof -
  have p: "pks (rewarded u d reason rt ri s) = pks s" "pk_ix (rewarded u d reason rt ri s) = Suc (pk_ix s)"
    by (simp_all add: rewarded_def)
  have "pks s (pk_ix s) \<noteq> pks s k" if "k \<in> {Suc (pk_ix s)..<Suc (pk_ix s) + n}" for k
  proof
    assume "pks s (pk_ix s) = pks s k"
    moreover have "inj_on (pks s) {pk_ix s..<pk_ix s + Suc n}" using assms by (simp add: ids_fresh_def)
    ultimately have "pk_ix s = k" using that by (elim inj_onD) auto
    with that show False by simp
  qed
  then have "pks s (pk_ix s) \<notin> pks s ` {Suc (pk_ix s)..<Suc (pk_ix s) + n}" by blast
  moreover have "inj_on (pks s) {Suc (pk_ix s)..<Suc (pk_ix s) + n}"
    using assms by (auto simp: ids_fresh_def elim!: inj_on_subset)
  ultimately show ?thesis
    using assms unfolding ids_fresh_def p rewarded_simps by auto
qed

lemma reward_new:
  assumes "seen_delta s u rt ri = None" and "0 \<le> d" and "ids_fresh (Suc n) s" and "no_debt s"
  shows "\<exists>e. reward u d reason rt ri False s = Inr (e, rewarded u d reason rt ri s)"
    and "ids_fresh n (rewarded u d reason rt ri s)" and "no_debt (rewarded u d reason rt ri s)"
proof -
  have "le_id x \<noteq> pks s (pk_ix s)" if "x \<in> set (ledger s)" for x
    using assms(3) that by (auto simp: ids_fresh_def)
  moreover have "get_by_ref u rt ri s = None" using assms(1) by (simp add: seen_delta_def)
  moreover have "0 \<le> balance_of s u + d" using assms(2,4) by (simp add: no_debt_def)
  ultimately show "\<exists>e. reward u d reason rt ri False s = Inr (e, rewarded u d reason rt ri s)"
    by (simp add: reward_branches)
  show "ids_fresh n (rewarded u d reason rt ri s)" by (rule ids_fresh_rewarded[OF assms(3)])
  show "no_debt (rewarded u d reason rt ri s)" using assms(2,4) by (auto simp: no_debt_def)
qed

lemma put_question_fresh [simp]:
  "ids_fresh n (put_question q s) = ids_fresh n s" "no_debt (put_question q s) = no_debt s"
  by (simp_all add: put_question_def ids_fresh_def no_debt_def balance_of_def)

lemma settle_succeeds:
  assumes "qa_ok s" and "q \<in> set (qa_questions s)" and "q_status q = ''open''" and "ids_fresh (Suc n) s" and "no_debt s"
  shows "\<exists>s'. settle_question q s = Inr s' \<and> ids_fresh n s' \<and> no_debt s'"
proof (cases "0 < q_bounty_total q - q_bounty_distributed q")
  case True
  let ?d = "q_bounty_total q - q_bounty_distributed q"
  let ?r = "rewarded (q_author_id q) ?d ''qa_refund'' ''qa_refund'' (uuid_str (q_id q)) s"
  have "seen_delta s (q_author_id q) ''qa_refund'' (uuid_str (q_id q)) = None"
    using assms(1-3) by (simp add: qa_ok_def qa_books_def question_fits_def)
  note r = reward_new[OF this _ assms(4,5), of ?d "''qa_refund''"]
  from True r obtain e where e: "reward (q_author_id q) ?d ''qa_refund'' ''qa_refund'' (uuid_str (q_id q)) False s
      = Inr (e, ?r)" and k: "ids_fresh n ?r" "no_debt ?r" by auto
  from True e have "settle_question q s = Inr (put_question (settled q) ?r)"
    by (simp add: settle_question_def Let_def)
  with k show ?thesis by simp
next
  case False
  then have "settle_question q s = Inr (put_question (settled q) s)" by (simp add: settle_question_def Let_def)
  with assms(4,5) show ?thesis by (simp add: ids_fresh_mono[of "Suc n"])
qed

lemma settle_all_succeeds:
  assumes "qa_ok s" and "distinct (map q_id qs)"
    and "\<And>q. q \<in> set qs \<Longrightarrow> q \<in> set (qa_questions s) \<and> q_status q = ''open''"
    and "ids_fresh (length qs + n) s" and "no_debt s"
  shows "\<exists>s'. foldR settle_question qs s = Inr s' \<and> ids_fresh n s' \<and> no_debt s'"
  using assms
proof (induction qs arbitrary: s)
  case (Cons q qs)
  have "q \<in> set (qa_questions s) \<and> q_status q = ''open''" using Cons.prems(3) by simp
  then obtain t where t: "settle_question q s = Inr t" "ids_fresh (length qs + n) t" "no_debt t"
    using settle_succeeds[OF Cons.prems(1), of q "length qs + n"] Cons.prems(4,5) by auto
  have "qa_ok t"
    using settle_question_kept[OF t(1) Cons.prems(1)] Cons.prems(3)[of q] by (simp add: kept_def)
  moreover have "x \<in> set (qa_questions t) \<and> q_status x = ''open''" if "x \<in> set qs" for x
    using settle_question_rest[OF t(1)] Cons.prems(2,3) that by (auto simp: image_iff)
  ultimately obtain s' where "foldR settle_question qs t = Inr s'" "ids_fresh n s'" "no_debt s'"
    using Cons.IH[of t] Cons.prems(2) t(2,3) by auto
  with t(1) show ?case by auto
qed simp

lemma expired_for_update_props:
  assumes "qa_ok s"
  shows "distinct (map q_id (expired_for_update t limit s))"
    and "q \<in> set (expired_for_update t limit s) \<Longrightarrow> q \<in> set (qa_questions s) \<and> q_status q = ''open''"
    and "length (expired_for_update t limit s) = min limit (length (filter (is_due t) (qa_questions s)))"
proof -
  have d: "distinct (map q_id (qa_questions s))" using assms by (simp add: qa_ok_def qa_books_def)
  show "q \<in> set (qa_questions s) \<and> q_status q = ''open''" if "q \<in> set (expired_for_update t limit s)"
    using in_set_takeD[OF that[unfolded expired_for_update_def]] by (auto simp: is_due_def)
  have "mset (map q_id (sort_key (\<lambda>q. the (q_bounty_expires_at q)) (sort_key q_id (filter (is_due t) (qa_questions s)))))
      = mset (map q_id (filter (is_due t) (qa_questions s)))" by (simp only: mset_map mset_sort)
  moreover have "distinct (map q_id (filter (is_due t) (qa_questions s)))" using d by (rule distinct_map_filter)
  ultimately show "distinct (map q_id (expired_for_update t limit s))"
    unfolding expired_for_update_def take_map[symmetric] by (metis distinct_take mset_eq_imp_distinct_iff)
  show "length (expired_for_update t limit s) = min limit (length (filter (is_due t) (qa_questions s)))"
    by (simp add: expired_for_update_def)
qed

text \<open>A round closes the questions it takes and leaves the others due.\<close>

lemma settle_all_due:
  assumes "foldR settle_question qs s = Inr s'" and "distinct (map q_id (qa_questions s))"
    and "set qs \<subseteq> set (qa_questions s)" and "\<forall>q \<in> set qs. is_due t q" and "distinct (map q_id qs)"
  shows "length (filter (is_due t) (qa_questions s')) + length qs = length (filter (is_due t) (qa_questions s))"
  using assms
proof (induction qs arbitrary: s)
  case (Cons q qs)
  from Cons.prems(1) obtain r where r: "settle_question q s = Inr r" "foldR settle_question qs r = Inr s'" by auto
  obtain u where u: "r = put_question (settled q) u" "qa_questions u = qa_questions s"
    by (rule settle_question_eq[OF r(1)], rule that)
  let ?q = "(settled q)\<lparr>q_updated_at := now u\<rparr>"
  have qr: "qa_questions r = set_question ?q (qa_questions s)" by (simp add: u put_question_set)
  have cnt: "int (length (filter (is_due t) xs)) = sum_list (map (\<lambda>q. if is_due t q then 1 else 0) xs)" for xs
    by (induction xs) auto
  have "is_due t q" "\<not> is_due t ?q" using Cons.prems(4) by (simp_all add: is_due_def)
  then have "int (length (filter (is_due t) (qa_questions r))) = int (length (filter (is_due t) (qa_questions s))) - 1"
    using sum_set_question[OF Cons.prems(2), of q ?q "\<lambda>q. if is_due t q then 1 else 0"] Cons.prems(3)
    by (simp add: cnt qr)
  moreover have "length (filter (is_due t) (qa_questions s')) + length qs = length (filter (is_due t) (qa_questions r))"
  proof (rule Cons.IH[OF r(2)])
    show "set qs \<subseteq> set (qa_questions r)"
    proof
      fix x assume "x \<in> set qs"
      then have "x \<in> set (qa_questions s)" "q_id x \<noteq> q_id q" using Cons.prems(3,5) by (auto simp: image_iff)
      then show "x \<in> set (qa_questions r)" by (rule settle_question_rest[OF r(1)])
    qed
  qed (use Cons.prems qr in simp_all)
  ultimately show ?case by simp
qed simp

lemma expire_all:
  assumes "qa_ok s" and "no_debt s" and "ids_fresh (length (filter (is_due (now s)) (qa_questions s))) s"
  shows "\<exists>s'. expire_qa_bounties s = (None, s') \<and> filter (is_due (now s)) (qa_questions s') = []"
  using assms
proof (induction s rule: expire_qa_bounties.induct)
  case (1 s)
  let ?due = "\<lambda>x. length (filter (is_due (now s)) (qa_questions x))"
  let ?qs = "expired_for_update (now s) 100 s"
  note p = expired_for_update_props[OF 1(2), where t = "now s" and limit = 100]
  have len: "length ?qs = min 100 (?due s)" by (rule p(3))
  then have "ids_fresh (length ?qs + (?due s - length ?qs)) s" using 1(4) by simp
  from settle_all_succeeds[OF 1(2) p(1) _ this 1(3)] p(2)
  obtain t where t: "foldR settle_question ?qs s = Inr t" "ids_fresh (?due s - length ?qs) t" "no_debt t" by blast
  define s1 where "s1 = (if ?qs \<noteq> [] then emit_fx (Bump ''qa'') t else t)"
  have run: "expire_due_questions 100 s = Inr (length ?qs, s1)"
    by (simp add: expire_due_questions_def t(1) s1_def)
  have s1: "qa_questions s1 = qa_questions t" "ids_fresh n s1 = ids_fresh n t" "no_debt s1 = no_debt t" for n
    by (simp_all add: s1_def emit_fx_def ids_fresh_def no_debt_def balance_of_def)
  have "set ?qs \<subseteq> set (qa_questions s)" "\<forall>q \<in> set ?qs. is_due (now s) q"
    by (auto simp: expired_for_update_def dest: in_set_takeD)
  from settle_all_due[OF t(1) _ this p(1)] 1(2) have left: "?due t + length ?qs = ?due s"
    by (simp add: qa_ok_def qa_books_def)
  show ?case
  proof (cases "length ?qs < 100")
    case True
    with left len have "?due t = 0" by simp
    with True run s1(1) show ?thesis by (simp add: expire_qa_bounties.simps[of s])
  next
    case False
    have k: "qa_ok s1" using expire_due_kept[OF run 1(2)] by (simp add: kept_def)
    have n: "now s1 = now s" using expire_due_shrinks(1)[OF run] False by (cases ?qs) simp_all
    have "?due s - length ?qs = ?due t" using left by simp
    with t(2) have "ids_fresh (length (filter (is_due (now s1)) (qa_questions s1))) s1"
      by (simp add: s1 n)
    from 1(1)[OF run refl False k _ this] t(3) obtain s' where
      "expire_qa_bounties s1 = (None, s')" "filter (is_due (now s1)) (qa_questions s') = []"
      by (auto simp: s1)
    with False run n show ?thesis by (simp add: expire_qa_bounties.simps[of s])
  qed
qed

lemma find_set_question:
  "\<exists>x \<in> set qs. q_id x = q_id q \<Longrightarrow> find (\<lambda>x. q_id x = q_id q) (set_question q qs) = Some q"
  by (induction qs) (auto simp: set_question_def)

lemma find_set_answer:
  "\<exists>x \<in> set as. a_id x = a_id a \<Longrightarrow>
     find (\<lambda>x. a_id x = a_id a \<and> a_question_id x = a_question_id a) (set_answer a as) = Some a"
  by (induction as) (auto simp: set_answer_def)

lemma accept_answer_run:
  assumes "qa_ok s" and "accept_answer i j u s = Inr (b, s')" and "find_question i s = Some q"
    and "find (\<lambda>a. a_id a = j \<and> a_question_id a = i) (qa_answers s) = Some a" and "\<not> a_is_accepted a"
  shows "b = a\<lparr>a_is_accepted := True\<rparr>"
    and "balance_of s' = (balance_of s)(a_author_id a := balance_of s (a_author_id a) + q_bounty_per_person q)"
    and "qa_answers s' = set_answer b (qa_answers s)" and "now s' = now s"
    and "\<exists>d t. qa_questions s' = set_question
      (q\<lparr>q_bounty_distributed := d, q_accepted_answer_id := Some j, q_updated_at := t\<rparr>) (qa_questions s)"
proof -
  let ?p = "q_bounty_per_person q"
  have books: "qa_books (seen_delta s) (qa_questions s) (qa_answers s)" using assms(1) by (simp add: qa_ok_def)
  have q: "q \<in> set (qa_questions s)" "q_id q = i" using find_question_Some[OF assms(3)] by simp_all
  have a: "a \<in> set (qa_answers s)" "a_id a = j" "a_question_id a = i" using assms(4) by (auto simp: find_Some_iff)
  have p0: "0 \<le> ?p" using books q by (simp add: qa_books_def question_fits_def)
  from books a have "answer_fits (seen_delta s) (qa_questions s) a" by (simp add: qa_books_def)
  then have unseen: "seen_delta s (a_author_id a) ''qa_accept'' (uuid_str i @ '':'' @ uuid_str j) = None"
    using a assms(5) by (auto simp: answer_fits_def accept_ref_def)
  from assms(2-5) have run: "pay_answer q a s = Inr (b, s')"
    by (auto simp: accept_answer_def split: if_splits)
  then obtain pr where pr: "(if 0 < ?p
            then bindR (reward (a_author_id a) ?p ''qa_accept'' ''qa_accept'' (uuid_str (q_id q) @ '':'' @ uuid_str (a_id a)) False s)
                   (\<lambda>(_, s). Inr (q\<lparr>q_bounty_distributed := q_bounty_distributed q + ?p\<rparr>, s))
            else Inr (q, s)) = Inr pr"
    unfolding pay_answer_def bindR_Inr_iff by blast
  obtain q0 t where p': "pr = (q0, t)" by (cases pr)
  have t: "balance_of t = (balance_of s)(a_author_id a := balance_of s (a_author_id a) + ?p)
      \<and> qa_questions t = qa_questions s \<and> qa_answers t = qa_answers s \<and> now t = now s \<and> (\<exists>d. q0 = q\<lparr>q_bounty_distributed := d\<rparr>)"
  proof (cases "0 < ?p")
    case True
    with pr p' a q obtain e where r: "reward (a_author_id a) ?p ''qa_accept'' ''qa_accept'' (uuid_str i @ '':'' @ uuid_str j) False s = Inr (e, t)"
      and q0: "q0 = q\<lparr>q_bounty_distributed := q_bounty_distributed q + ?p\<rparr>"
      by auto
    have "balance_of t v = ((balance_of s)(a_author_id a := balance_of s (a_author_id a) + ?p)) v" for v
      using points.pay_bal[OF r, of v] unseen by simp
    with reward_qa[OF r] q0 show ?thesis by auto
  next
    case False
    with pr p' p0 have "q0 = q" "t = s" "?p = 0" by auto
    moreover have "\<exists>d. q = q\<lparr>q_bounty_distributed := d\<rparr>" by (rule exI[of _ "q_bounty_distributed q"]) simp
    ultimately show ?thesis by simp
  qed
  let ?b = "a\<lparr>a_is_accepted := True\<rparr>"
  let ?q = "q0\<lparr>q_accepted_answer_id := Some (a_id a)\<rparr>"
  from run[unfolded pay_answer_def pr p'] obtain v w where
    v: "enqueue_points_event (a_author_id a) ''answer_accepted'' (''answer:'' @ uuid_str (a_id a)) (put_question ?q (put_answer ?b t)) = Inr v"
      "enqueue_points_event (q_author_id q0) ''qa_accept_notice'' (''answer:'' @ uuid_str (a_id a)) v = Inr w"
    and s': "s' = emit_fx (Bump ''qa'') w" and b: "b = ?b"
    by (auto simp: Let_def)
  have m: "core_db.more w = core_db.more (put_question ?q (put_answer ?b t))" and n: "now w = now t"
    using enqueue_points_event_more[OF v(1)] enqueue_points_event_more[OF v(2)]
    by (simp_all add: put_question_def put_answer_def)
  have bal: "balances w = balances t"
    using more_eq_tables(1)[OF m] by (simp add: put_question_def put_answer_def)
  note tab = tables_cong(1,2)[OF more_eq_tables(8)[OF m]]
  show "b = ?b" by (rule b)
  show "balance_of s' = (balance_of s)(a_author_id a := balance_of s (a_author_id a) + ?p)"
    using t bal by (simp add: s' balance_of_def fun_eq_iff emit_fx_def)
  show "qa_answers s' = set_answer b (qa_answers s)"
    using tab(2) t by (simp add: s' b put_answer_set put_question_set)
  show "now s' = now s" using n t by (simp add: s')
  from t obtain d where d: "q0 = q\<lparr>q_bounty_distributed := d\<rparr>" by blast
  have "qa_questions s' = set_question (q\<lparr>q_bounty_distributed := d, q_accepted_answer_id := Some j, q_updated_at := now t\<rparr>) (qa_questions s)"
    using tab(1) t a by (simp add: s' d put_answer_set put_question_set)
  then show "\<exists>d t. qa_questions s' = set_question
      (q\<lparr>q_bounty_distributed := d, q_accepted_answer_id := Some j, q_updated_at := t\<rparr>) (qa_questions s)" by blast
qed

section \<open>Properties\<close>

text \<open>C10: The ledger explains every bounty.  In every state reached from a correct one by asking,
  answering, accepting, closing and expiry, in any order and mixed with anything that other parts of the
  program do: what was distributed is the share times the number of accepted answers and never more
  than the bounty, the asker was charged the bounty once, the author of each accepted answer and of no
  other one got the share once, and a question that is no longer open has paid back exactly the rest.\<close>

theorem bounty_books:
  assumes "qa_world\<^sup>*\<^sup>* s s'" and "qa_ok s" and "q \<in> set (qa_questions s')"
  shows "q_bounty_total q = q_bounty_people q * q_bounty_per_person q
    \<and> q_bounty_distributed q = q_bounty_per_person q * int (count_accepted (q_id q) s')
    \<and> 0 \<le> q_bounty_distributed q \<and> q_bounty_distributed q \<le> q_bounty_total q
    \<and> seen_delta s' (q_author_id q) ''qa_question'' (uuid_str (q_id q)) =
        (if 0 < q_bounty_total q then Some (- q_bounty_total q) else None)
    \<and> seen_delta s' (q_author_id q) ''qa_refund'' (uuid_str (q_id q)) =
        (if q_status q \<noteq> ''open'' \<and> q_bounty_distributed q < q_bounty_total q
         then Some (q_bounty_total q - q_bounty_distributed q) else None)
    \<and> (\<forall>a \<in> set (qa_answers s'). a_question_id a = q_id q \<longrightarrow>
        seen_delta s' (a_author_id a) ''qa_accept'' (uuid_str (q_id q) @ '':'' @ uuid_str (a_id a)) =
          (if a_is_accepted a \<and> 0 < q_bounty_per_person q then Some (q_bounty_per_person q) else None))"
proof -
  have books: "qa_books (seen_delta s') (qa_questions s') (qa_answers s')"
    using qa_world_ok[OF assms(1,2)] by (simp add: qa_ok_def)
  then have f: "question_fits (seen_delta s') (qa_answers s') q" and d: "distinct (map q_id (qa_questions s'))"
    using assms(3) by (simp_all add: qa_books_def)
  have "q_bounty_per_person q * int (accepted_in (q_id q) (qa_answers s')) \<le> q_bounty_per_person q * q_bounty_people q"
    using f by (intro mult_left_mono) (simp_all add: question_fits_def)
  then have le: "q_bounty_distributed q \<le> q_bounty_total q" "0 \<le> q_bounty_distributed q"
    using f by (simp_all add: question_fits_def mult.commute)
  have ans: "seen_delta s' (a_author_id a) ''qa_accept'' (accept_ref (q_id q) (a_id a)) =
          (if a_is_accepted a \<and> 0 < q_bounty_per_person q then Some (q_bounty_per_person q) else None)"
    if a: "a \<in> set (qa_answers s')" "a_question_id a = q_id q" for a
  proof -
    from books a obtain x where x: "x \<in> set (qa_questions s')" "q_id x = q_id q"
      "seen_delta s' (a_author_id a) ''qa_accept'' (accept_ref (q_id x) (a_id a)) =
          (if a_is_accepted a \<and> 0 < q_bounty_per_person x then Some (q_bounty_per_person x) else None)"
      by (fastforce simp: qa_books_def answer_fits_def)
    have "x = q" using d x(1,2) assms(3) by (metis distinct_map inj_onD)
    with x(3) show ?thesis by simp
  qed
  show ?thesis
    using f le ans by (simp add: question_fits_def count_accepted_def accepted_in_def accept_ref_def)
qed

text \<open>Bounties neither create nor destroy points.  In every reachable state, whatever is asked,
  answered, accepted, closed or expired leaves the sum of all balances plus the bounties still held
  for open questions as it was.\<close>

theorem bounties_conserve_points:
  assumes "qa_world\<^sup>*\<^sup>* s t" and "qa_ok s" and "qa_step t t'"
  shows "points_total t' + escrow t' = points_total t + escrow t"
  using qa_step_kept[OF assms(3) qa_world_ok[OF assms(1,2)]] by (simp add: kept_def)

text \<open>C11: Accepting an answer pays its author the share, once.  A first successful acceptance changes no
  balance but the author's, which grows by the share, counts one more accepted answer, of at most as many
  as the bounty is for, and accepting the same answer again answers the same and changes nothing.\<close>

theorem accept_pays_once:
  assumes "qa_ok s" and "accept_answer i j u s = Inr (b, s')" and "find_question i s = Some q"
    and "find (\<lambda>a. a_id a = j \<and> a_question_id a = i) (qa_answers s) = Some a" and "\<not> a_is_accepted a"
  shows "b = a\<lparr>a_is_accepted := True\<rparr> \<and> a_author_id a \<noteq> u
    \<and> balance_of s' = (balance_of s)(a_author_id a := balance_of s (a_author_id a) + q_bounty_per_person q)
    \<and> count_accepted i s' = Suc (count_accepted i s) \<and> int (count_accepted i s') \<le> q_bounty_people q
    \<and> accept_answer i j u s' = Inr (b, s')"
proof -
  have a: "a \<in> set (qa_answers s)" "a_id a = j" "a_question_id a = i" using assms(4) by (auto simp: find_Some_iff)
  have q: "q \<in> set (qa_questions s)" "q_id q = i" using find_question_Some[OF assms(3)] by simp_all
  have g: "q_author_id q = u" "q_status q = ''open''" "\<not> expired q s" "a_author_id a \<noteq> u"
    "int (count_accepted i s) < q_bounty_people q"
    using assms(2-5) by (auto simp: accept_answer_def split: if_splits)
  note run = accept_answer_run[OF assms]
  have "distinct (map a_id (qa_answers s))" using assms(1) by (simp add: qa_ok_def qa_books_def)
  from accepted_in_set[OF this a(1) assms(5), of i] run(1,3) a(3)
  have c: "count_accepted i s' = Suc (count_accepted i s)" by (simp add: count_accepted_def accepted_in_def)
  have fa: "find (\<lambda>a. a_id a = j \<and> a_question_id a = i) (qa_answers s') = Some b"
    using find_set_answer[of "qa_answers s" b] a by (auto simp: run(1,3))
  from run(5) obtain d t where "qa_questions s' = set_question
      (q\<lparr>q_bounty_distributed := d, q_accepted_answer_id := Some j, q_updated_at := t\<rparr>) (qa_questions s)" by blast
  then have fq: "find_question i s' = Some (q\<lparr>q_bounty_distributed := d, q_accepted_answer_id := Some j, q_updated_at := t\<rparr>)"
    using find_set_question[of "qa_questions s" "q\<lparr>q_bounty_distributed := d, q_accepted_answer_id := Some j, q_updated_at := t\<rparr>"] q
    by (auto simp: find_question_def)
  have "accept_answer i j u s' = Inr (b, s')"
    using fa fq g run(1,4) by (simp add: accept_answer_def expired_def split: option.splits)
  with run(1,2) c g show ?thesis by simp
qed

text \<open>C12: Expiry settles every question that is due.  With correct books, no user in debt and fresh row
  identifiers for the refunds, the job ends without an exception, whatever the number of due questions,
  and then no question is due any more.\<close>

theorem expiry_settles_all:
  assumes "qa_ok s" and "no_debt s" and "ids_fresh (length (filter (is_due (now s)) (qa_questions s))) s"
  shows "\<exists>s'. expire_qa_bounties s = (None, s') \<and> filter (is_due (now s)) (qa_questions s') = []
    \<and> qa_ok s' \<and> points_total s' + escrow s' = points_total s + escrow s"
  using expire_all[OF assms] expire_qa_bounties_kept[OF assms(1)] by (auto simp: kept_def)

section \<open>A small run\<close>

text \<open>User 1, who has 100 points, asks for 30; user 2 answers.\<close>

definition qa_db0 :: qa_db where
  "qa_db0 = content_db.extend
     (points_db.extend (rewarded 1 100 ''post'' ''post'' ''x'' (points_db0\<lparr>message_bus_enabled := False, pk_ix := 10\<rparr>))
       (content_db.fields False [] [])) (qa_db.fields [] [] [])"

definition ask0 :: question_create where
  "ask0 = \<lparr>qc_title = ''t'', qc_situation = ''s'', qc_content = ''c'', qc_category = ''help'', qc_bounty_people = 2,
     qc_bounty_per_person = 15, qc_bounty_days = 7, qc_urgent = False, qc_images = []\<rparr>"

lemma ask0_valid: "question_create_valid ask0"
  by (simp add: ask0_def question_create_valid_def check_bounty_def MAX_BOUNTY_POINTS_def)

lemma qa_db0_simps [simp]:
  "qa_questions qa_db0 = []" "qa_answers qa_db0 = []" "pks qa_db0 = of_nat" "pk_ix qa_db0 = 11" "now qa_db0 = 0"
  "ledger qa_db0 = [ledger_row 10 1 100 100 ''post'' ''post'' ''x'' 0]"
  "balance_of qa_db0 = (\<lambda>_. 0)(1 := 100)" "message_bus_enabled qa_db0 = False" "content_events_enabled qa_db0 = False"
  "balances qa_db0 = [1 \<mapsto> \<lparr>ub_balance = 100, ub_updated_at = 0\<rparr>]" "boards qa_db0 = []" "content_items qa_db0 = []"
  by (simp_all add: qa_db0_def points_db.defs content_db.defs qa_db.defs rewarded_def points_db0_def core_db.defs db0_def
      balance_of_def fun_eq_iff)

lemma qa_ok_db0: "qa_ok qa_db0"
  by (simp add: qa_ok_def points_ok_def rows_of_def qa_books_def refs_known_def seen_delta_def get_by_ref_def has_ref_def)

lemma ask0_run: "\<exists>r s. create_question Map.empty 1 ask0 qa_db0 = Inr (r, s) \<and> qa_questions s = [new_question 11 1 ask0 0]
    \<and> balance_of s = (\<lambda>_. 0)(1 := 70) \<and> now s = 0 \<and> pks s = of_nat \<and> pk_ix s = 15 \<and> qa_answers s = []
    \<and> message_bus_enabled s = False
    \<and> ledger s = [ledger_row 10 1 100 100 ''post'' ''post'' ''x'' 0, ledger_row 12 1 (- 30) 70 ''qa_escrow'' ''qa_question'' (uuid_str 11) 0]"
  by (simp add: create_question_def fresh_pk_def Let_def insert_question_def new_question_def ask0_def spend_def reward_def
      ensure_balance_def get_by_ref_def has_ref_def apply_delta_def repo_apply_delta_def upsert_ledger_def insert_ledger_def
      emit_fx_def sync_question_content_item_def publish_qa_item_def ensure_qa_board_def insert_board_def
      insert_content_item_def enqueue_content_event_def balance_of_def fun_eq_iff)

lemma ask0_world:
  obtains r s where "create_question Map.empty 1 ask0 qa_db0 = Inr (r, s)" "qa_step qa_db0 s" "qa_ok s"
    "qa_questions s = [new_question 11 1 ask0 0]" "balance_of s = (\<lambda>_. 0)(1 := 70)" "now s = 0" "pks s = of_nat"
    "pk_ix s = 15" "qa_answers s = []" "message_bus_enabled s = False"
    "ledger s = [ledger_row 10 1 100 100 ''post'' ''post'' ''x'' 0, ledger_row 12 1 (- 30) 70 ''qa_escrow'' ''qa_question'' (uuid_str 11) 0]"
proof -
  obtain r s where run: "create_question Map.empty 1 ask0 qa_db0 = Inr (r, s)" and
    "qa_questions s = [new_question 11 1 ask0 0]" "balance_of s = (\<lambda>_. 0)(1 := 70)" "now s = 0" "pks s = of_nat"
    "pk_ix s = 15" "qa_answers s = []" "message_bus_enabled s = False"
    "ledger s = [ledger_row 10 1 100 100 ''post'' ''post'' ''x'' 0, ledger_row 12 1 (- 30) 70 ''qa_escrow'' ''qa_question'' (uuid_str 11) 0]"
    using ask0_run by blast
  moreover have "qa_step qa_db0 s" by (rule qa_step.ask[OF ask0_valid run])
  moreover have "qa_ok s" using create_question_kept[OF run qa_ok_db0 ask0_valid] by (simp add: kept_def)
  ultimately show ?thesis using that by blast
qed

lemma bounty_books_witness:
  "\<exists>r s. create_question Map.empty 1 ask0 qa_db0 = Inr (r, s)
     \<and> seen_delta s 1 ''qa_question'' (uuid_str 11) = Some (- 30) \<and> seen_delta s 1 ''qa_refund'' (uuid_str 11) = None"
proof -
  obtain r s where run: "create_question Map.empty 1 ask0 qa_db0 = Inr (r, s)" "qa_step qa_db0 s" "qa_ok s"
    "qa_questions s = [new_question 11 1 ask0 0]"
    by (rule ask0_world, rule that)
  have w: "qa_world\<^sup>*\<^sup>* qa_db0 s" using qa_world.step[OF run(2)] by (rule r_into_rtranclp)
  have "new_question 11 1 ask0 0 \<in> set (qa_questions s)" by (simp add: run(4))
  from bounty_books[OF w qa_ok_db0 this] run(1) show ?thesis by (auto simp: new_question_def ask0_def)
qed

lemma bounties_conserve_points_witness:
  "\<exists>r s. create_question Map.empty 1 ask0 qa_db0 = Inr (r, s) \<and> points_total s = points_total qa_db0 - 30"
proof -
  obtain r s where run: "create_question Map.empty 1 ask0 qa_db0 = Inr (r, s)" "qa_step qa_db0 s" "qa_ok s"
    "qa_questions s = [new_question 11 1 ask0 0]"
    by (rule ask0_world, rule that)
  from bounties_conserve_points[OF rtranclp.rtrancl_refl qa_ok_db0 run(2)] run(1,4) show ?thesis
    by (auto simp: escrow_def escrow_of_def new_question_def ask0_def)
qed

lemma accept_pays_once_witness:
  "\<exists>b (s :: qa_db) s'. accept_answer 11 15 1 s = Inr (b, s') \<and> balance_of s' 2 = balance_of s 2 + 15
     \<and> accept_answer 11 15 1 s' = Inr (b, s')"
proof -
  obtain r s where "create_question Map.empty 1 ask0 qa_db0 = Inr (r, s)" "qa_step qa_db0 s" and run: "qa_ok s"
    and s: "qa_questions s = [new_question 11 1 ask0 0]" "balance_of s = (\<lambda>_. 0)(1 := 70)" "now s = 0" "pks s = of_nat"
      "pk_ix s = 15" "qa_answers s = []" "message_bus_enabled s = False"
    "ledger s = [ledger_row 10 1 100 100 ''post'' ''post'' ''x'' 0, ledger_row 12 1 (- 30) 70 ''qa_escrow'' ''qa_question'' (uuid_str 11) 0]"
    by (rule ask0_world, rule that)
  let ?a = "\<lparr>a_id = 15, a_question_id = 11, a_author_id = 2, a_content = ''a'', a_is_accepted = False, a_created_at = 0\<rparr>"
  define t where "t = emit_fx (Bump ''qa'') (s\<lparr>pk_ix := 16, qa_answers := [?a]\<rparr>)"
  have ans: "create_answer 11 2 ''a'' s = Inr (?a, t)"
    using s by (simp add: create_answer_def find_question_def new_question_def ask0_def expired_def fresh_pk_def
        insert_answer_def t_def Let_def)
  have ok: "qa_ok t" using create_answer_kept[OF ans run] by (simp add: kept_def)
  have t: "qa_questions t = [new_question 11 1 ask0 0]" "qa_answers t = [?a]" "now t = 0" "message_bus_enabled t = False"
    "balance_of t = (\<lambda>_. 0)(1 := 70)"
    using s by (simp_all add: t_def emit_fx_def balance_of_def fun_eq_iff)
  have fq: "find_question 11 t = Some (new_question 11 1 ask0 0)" using t by (simp add: find_question_def new_question_def Let_def)
  have fa: "find (\<lambda>a. a_id a = 15 \<and> a_question_id a = 11) (qa_answers t) = Some ?a" using t by simp
  have books: "answer_fits (seen_delta t) (qa_questions t) ?a" using ok t by (simp add: qa_ok_def qa_books_def)
  then have unseen: "seen_delta t 2 ''qa_accept'' (uuid_str 11 @ '':'' @ uuid_str 15) = None"
    by (auto simp: answer_fits_def accept_ref_def)
  have "ledger t = ledger s" "pks t = pks s" "pk_ix t = 16" by (simp_all add: t_def emit_fx_def)
  moreover have "{16..<17::nat} = {16}" "{15..<16::nat} = {15}" by auto
  ultimately have fr: "ids_fresh (Suc 0) t" "no_debt t" using s t(5) by (simp_all add: ids_fresh_def no_debt_def)
  let ?r = "rewarded 2 15 ''qa_accept'' ''qa_accept'' (uuid_str 11 @ '':'' @ uuid_str 15) t"
  obtain e where r: "reward 2 15 ''qa_accept'' ''qa_accept'' (uuid_str 11 @ '':'' @ uuid_str 15) False t = Inr (e, ?r)"
    using reward_new(1)[OF unseen _ fr, of 15 "''qa_accept''"] by auto
  have off: "message_bus_enabled ?r = False" using t(4) by (simp add: rewarded_def)
  obtain b t' where acc: "accept_answer 11 15 1 t = Inr (b, t')"
    using fq fa r t off
    by (simp add: accept_answer_def new_question_def ask0_def expired_def count_accepted_def pay_answer_def Let_def
        enqueue_points_event_def enqueue_outbox_def put_question_def put_answer_def)
  have "\<not> a_is_accepted ?a" by simp
  from accept_pays_once[OF ok acc fq fa this] acc show ?thesis
    by (intro exI[of _ b] exI[of _ t] exI[of _ t']) (simp add: new_question_def ask0_def Let_def)
qed

lemma expiry_settles_all_witness:
  "\<exists>(s :: qa_db) s'. filter (is_due (now s)) (qa_questions s) = [new_question 11 1 ask0 0]
     \<and> expire_qa_bounties s = (None, s') \<and> filter (is_due (now s)) (qa_questions s') = []"
proof -
  obtain r s where "create_question Map.empty 1 ask0 qa_db0 = Inr (r, s)" "qa_step qa_db0 s" and ok: "qa_ok s"
    and s: "qa_questions s = [new_question 11 1 ask0 0]" "balance_of s = (\<lambda>_. 0)(1 := 70)" "now s = 0" "pks s = of_nat"
      "pk_ix s = 15" "qa_answers s = []" "message_bus_enabled s = False"
    "ledger s = [ledger_row 10 1 100 100 ''post'' ''post'' ''x'' 0, ledger_row 12 1 (- 30) 70 ''qa_escrow'' ''qa_question'' (uuid_str 11) 0]"
    by (rule ask0_world, rule that)
  let ?s = "s\<lparr>now := days 8\<rparr>"
  have "outside s ?s" using points_cong[of ?s s] by (simp add: outside_def)
  then have "qa_ok ?s" using ok by (rule outside_ok)
  moreover have "no_debt ?s" 
  proof -
    have "balance_of ?s = balance_of s" by (simp add: balance_of_def fun_eq_iff)
    with s(2) show ?thesis by (simp add: no_debt_def)
  qed
  moreover have due: "filter (is_due (now ?s)) (qa_questions ?s) = [new_question 11 1 ask0 0]"
    using s(1) by (simp add: is_due_def new_question_def ask0_def)
  moreover have "ids_fresh (length (filter (is_due (now ?s)) (qa_questions ?s))) ?s"
  proof -
    have "{15..<16::nat} = {15}" by auto
    then show ?thesis unfolding due using s by (simp add: ids_fresh_def)
  qed
  ultimately obtain s' where "expire_qa_bounties ?s = (None, s')" "filter (is_due (now ?s)) (qa_questions s') = []"
    using expiry_settles_all[of ?s] by blast
  with due show ?thesis by blast
qed

end
