(* ===== verification/Rbac_Roles.thy ===== *)
theory Rbac_Roles
  imports Event_Contract "HOL-Library.List_Lexorder" "HOL-Library.Char_ord"
begin

text \<open>
  Roles of role-based access control (\<open>core/rbac_roles.py\<close>): the hierarchy and its check at import,
  the closure of a set of roles, separation of duties, and the roles that a session activates.  The
  deployment's constraints are parameters.
\<close>

section \<open>The hierarchy\<close>

definition KNOWN_ROLES :: "string list" where
  "KNOWN_ROLES =
     [''local:member'', ''normal:member'', ''normal:columnist'', ''normal:author'',
      ''admin:incubated_member'', ''admin:org_member'', ''admin:content_reviewer'',
      ''admin:content_publisher'', ''admin:super_admin'']"

type_synonym hierarchy = "(string \<times> string list) list"

definition ROLE_INHERITANCE :: hierarchy where
  "ROLE_INHERITANCE =
     [(''normal:columnist'', [''normal:member'']),
      (''normal:author'', [''normal:columnist'']),
      (''admin:org_member'', [''admin:incubated_member'']),
      (''admin:super_admin'', [''admin:org_member''])]"

definition juniors :: "hierarchy \<Rightarrow> string \<Rightarrow> string list" where
  "juniors h r = (case map_of h r of None \<Rightarrow> [] | Some js \<Rightarrow> js)"

text \<open>\<open>role.split(":", 1)[0]\<close>\<close>

definition level_of :: "string \<Rightarrow> string" where
  "level_of r = takeWhile (\<lambda>c. c \<noteq> CHR '':'') r"

text \<open>
  \<open>_validate_hierarchy\<close>, a depth-first search.  The first argument bounds the depth of the recursion,
  as the interpreter does; the visited roles are listed in the order in which they are finished.
\<close>

fun visit :: "nat \<Rightarrow> string list \<Rightarrow> hierarchy \<Rightarrow> string set \<Rightarrow> string list \<Rightarrow> string \<Rightarrow> exc + string list"
  and visit_juniors :: "nat \<Rightarrow> string list \<Rightarrow> hierarchy \<Rightarrow> string set \<Rightarrow> string list \<Rightarrow> string \<Rightarrow> string list \<Rightarrow> exc + string list"
where
  "visit 0 known h visiting visited role = Inl OtherException"
| "visit (Suc n) known h visiting visited role =
     (if role \<in> visiting then Inl ValueError
      else if role \<in> set visited then Inr visited
      else bindR (visit_juniors n known h (insert role visiting) visited role (juniors h role)) (\<lambda>visited.
           Inr (visited @ [role])))"
| "visit_juniors n known h visiting visited role [] = Inr visited"
| "visit_juniors n known h visiting visited role (junior # js) =
     (if role \<notin> set known \<or> junior \<notin> set known then Inl ValueError
      else if level_of role \<noteq> level_of junior then Inl ValueError
      else bindR (visit n known h visiting visited junior) (\<lambda>visited.
           visit_juniors n known h visiting visited role js))"

definition validate_hierarchy :: "nat \<Rightarrow> string list \<Rightarrow> hierarchy \<Rightarrow> exc + string list" where
  "validate_hierarchy depth known h =
     foldR (\<lambda>role visited. visit depth known h {} visited role) (map fst h) []"

section \<open>Closure\<close>

text \<open>The head of the list is the end of \<open>pending\<close>, where \<open>pop\<close> takes from.\<close>

function closure_loop :: "string list \<Rightarrow> string list \<Rightarrow> string list" where
  "closure_loop [] result = result"
| "closure_loop (role # pending) result =
     (if role \<in> set result then closure_loop pending result
      else closure_loop (juniors ROLE_INHERITANCE role @ pending) (role # result))"
  by pat_completeness auto

termination
proof (relation "measures [\<lambda>(p, r). card (fst ` set ROLE_INHERITANCE - set r), \<lambda>(p, r). length p]")
  fix role :: string and pending result :: "string list"
  assume new: "role \<notin> set result"
  let ?keys = "fst ` set ROLE_INHERITANCE"
  show "((juniors ROLE_INHERITANCE role @ pending, role # result), role # pending, result)
      \<in> measures [\<lambda>(p, r). card (?keys - set r), \<lambda>(p, r). length p]"
  proof (cases "role \<in> ?keys")
    case True
    then have "?keys - set (role # result) \<subset> ?keys - set result" using new by auto
    then have "card (?keys - set (role # result)) < card (?keys - set result)" by (intro psubset_card_mono) simp_all
    then show ?thesis by simp
  next
    case False
    then have "juniors ROLE_INHERITANCE role = []"
      by (auto simp: juniors_def image_iff split: option.splits dest!: map_of_SomeD)
    moreover have "?keys - set (role # result) = ?keys - set result" using False by auto
    ultimately show ?thesis by simp
  qed
qed auto

definition role_closure :: "string list \<Rightarrow> string list" where
  "role_closure roles = sort (closure_loop (rev (filter (\<lambda>r. r \<in> set KNOWN_ROLES) roles)) [])"

section \<open>Separation of duties\<close>

record separation_constraint =
  sc_roles :: "string set"
  sc_max_roles :: int

text \<open>\<open>parsed\<close> is what \<open>json.loads\<close> makes of the setting, if it is JSON.\<close>

definition load_constraint :: "json \<Rightarrow> exc + separation_constraint" where
  "load_constraint item =
     (case item of
        JObj kvs \<Rightarrow>
          if set (map fst kvs) \<noteq> {''roles'', ''max_roles''} then Inl ValueError
          else
            (case (map_of kvs ''roles'', map_of kvs ''max_roles'') of
               (Some (JList roles), Some (JInt maximum)) \<Rightarrow>
                 if \<not> list_all is_JStr roles \<or> \<not> distinct roles
                    \<or> \<not> (\<forall>r \<in> set roles. \<exists>k \<in> set KNOWN_ROLES. r = JStr k)
                    \<or> \<not> (0 < maximum \<and> maximum < int (length roles))
                 then Inl ValueError
                 else Inr \<lparr>sc_roles = set (filter (\<lambda>k. JStr k \<in> set roles) KNOWN_ROLES), sc_max_roles = maximum\<rparr>
             | _ \<Rightarrow> Inl ValueError)
      | _ \<Rightarrow> Inl ValueError)"

fun load_each :: "json list \<Rightarrow> exc + separation_constraint list" where
  "load_each [] = Inr []"
| "load_each (i # is) = bindR (load_constraint i) (\<lambda>c. bindR (load_each is) (\<lambda>cs. Inr (c # cs)))"

definition load_constraints :: "json option \<Rightarrow> exc + separation_constraint list" where
  "load_constraints parsed =
     (case parsed of
        Some (JList items) \<Rightarrow> load_each items
      | _ \<Rightarrow> Inl ValueError)"

definition constraint_ok :: "separation_constraint \<Rightarrow> bool" where
  "constraint_ok c \<longleftrightarrow> sc_roles c \<subseteq> set KNOWN_ROLES \<and> 0 < sc_max_roles c \<and> sc_max_roles c < int (card (sc_roles c))"

fun check_constraints :: "string set \<Rightarrow> separation_constraint list \<Rightarrow> exc + bool" where
  "check_constraints closure [] = Inr True"
| "check_constraints closure (c # cs) =
     (if \<not> constraint_ok c then Inl ValueError
      else if sc_max_roles c < int (card (closure \<inter> sc_roles c)) then Inr False
      else check_constraints closure cs)"

definition satisfies_constraints :: "string list \<Rightarrow> separation_constraint list \<Rightarrow> exc + bool" where
  "satisfies_constraints roles constraints = check_constraints (set (role_closure roles)) constraints"

section \<open>The roles of a session\<close>

definition composite_role :: "string \<Rightarrow> string \<Rightarrow> string" where
  "composite_role account_level role = account_level @ '':'' @ role"

definition session_roles_claim :: "json option \<Rightarrow> exc + string list option" where
  "session_roles_claim v =
     (case v of
        None \<Rightarrow> Inr None
      | Some JNull \<Rightarrow> Inr None
      | Some (JList xs) \<Rightarrow> if list_all is_JStr xs then Inr (Some (map un_JStr xs)) else Inl ValueError
      | Some _ \<Rightarrow> Inl ValueError)"

definition starts_with :: "string \<Rightarrow> string \<Rightarrow> bool" where
  "starts_with pre s \<longleftrightarrow> take (length pre) s = pre"

definition assigned_roles :: "string \<Rightarrow> string \<Rightarrow> string list \<Rightarrow> string list" where
  "assigned_roles account_level primary_role extra =
     sort (remdups (composite_role account_level primary_role
       # filter (\<lambda>r. starts_with (account_level @ '':'') r \<and> r \<in> set KNOWN_ROLES) extra))"

definition authorized_roles :: "string \<Rightarrow> string \<Rightarrow> string list \<Rightarrow> string list" where
  "authorized_roles account_level primary_role extra =
     role_closure (assigned_roles account_level primary_role extra)"

fun choose_roles :: "separation_constraint list \<Rightarrow> string list \<Rightarrow> string list \<Rightarrow> exc + string list" where
  "choose_roles dsd [] chosen = Inr chosen"
| "choose_roles dsd (role # candidates) chosen =
     (if role \<in> set (role_closure chosen) then choose_roles dsd candidates chosen
      else bindR (satisfies_constraints (chosen @ [role]) dsd) (\<lambda>ok.
           choose_roles dsd candidates (if ok then chosen @ [role] else chosen)))"

definition activated_roles ::
    "separation_constraint list \<Rightarrow> separation_constraint list \<Rightarrow> string \<Rightarrow> string \<Rightarrow> string list
      \<Rightarrow> string list option \<Rightarrow> exc + string list" where
  "activated_roles ssd dsd account_level primary_role extra selected_roles =
     (let direct = assigned_roles account_level primary_role extra;
          available = role_closure direct
      in bindR (satisfies_constraints available ssd) (\<lambda>ok.
         if \<not> ok then Inl ValueError
         else
           bindR (case selected_roles of
                    None \<Rightarrow>
                      bindR (choose_roles dsd (composite_role account_level primary_role # direct @ available) [])
                        (\<lambda>chosen. Inr (sort chosen))
                  | Some sel \<Rightarrow>
                      if \<not> distinct sel \<or> \<not> set sel \<subseteq> set available then Inl ValueError
                      else Inr (sort sel)) (\<lambda>selected.
           bindR (satisfies_constraints selected dsd) (\<lambda>ok.
           if \<not> ok then Inl ValueError else Inr selected))))"

section \<open>Closure is reachability\<close>

definition inherits :: "(string \<times> string) set" where
  "inherits = {(s, j). j \<in> set (juniors ROLE_INHERITANCE s)}"

lemma closure_loop_grows: "set r \<union> set p \<subseteq> set (closure_loop p r)"
proof (induction p r rule: closure_loop.induct)
  case (2 role pending result)
  then show ?case by (cases "role \<in> set result") auto
qed simp

lemma closure_loop_closed:
  "\<forall>x \<in> set r. inherits `` {x} \<subseteq> set r \<union> set p \<Longrightarrow> inherits `` set (closure_loop p r) \<subseteq> set (closure_loop p r)"
proof (induction p r rule: closure_loop.induct)
  case (1 result)
  then show ?case by auto
next
  case (2 role pending result)
  show ?case
  proof (cases "role \<in> set result")
    case True
    with 2(1)[OF True] 2(3) show ?thesis by auto
  next
    case False
    have "\<forall>x \<in> set (role # result). inherits `` {x} \<subseteq> set (role # result) \<union> set (juniors ROLE_INHERITANCE role @ pending)"
      using 2(3) by (auto simp: inherits_def)
    with 2(2)[OF False] False show ?thesis by simp
  qed
qed

lemma closure_loop_reach: "set (closure_loop p r) \<subseteq> set r \<union> inherits\<^sup>* `` set p"
proof (induction p r rule: closure_loop.induct)
  case (2 role pending result)
  have "inherits\<^sup>* `` set (juniors ROLE_INHERITANCE role) \<subseteq> inherits\<^sup>* `` {role}"
    by (auto simp: inherits_def intro: converse_rtrancl_into_rtrancl)
  with 2 show ?case by (cases "role \<in> set result") auto
qed simp

lemma distinct_closure_loop: "distinct r \<Longrightarrow> distinct (closure_loop p r)"
  by (induction p r rule: closure_loop.induct) auto

lemma role_closure_set: "set (role_closure roles) = inherits\<^sup>* `` (set roles \<inter> set KNOWN_ROLES)"
proof -
  let ?p = "rev (filter (\<lambda>r. r \<in> set KNOWN_ROLES) roles)"
  have p: "set ?p = set roles \<inter> set KNOWN_ROLES" by auto
  have closed: "inherits `` set (closure_loop ?p []) \<subseteq> set (closure_loop ?p [])"
    by (rule closure_loop_closed) simp
  have "b \<in> set (closure_loop ?p [])" if "(a, b) \<in> inherits\<^sup>*" "a \<in> set (closure_loop ?p [])" for a b
    using that closed by (induction rule: rtrancl_induct) auto
  moreover have "set ?p \<subseteq> set (closure_loop ?p [])" using closure_loop_grows[of "[]" ?p] by simp
  ultimately have "inherits\<^sup>* `` set ?p \<subseteq> set (closure_loop ?p [])" by blast
  with closure_loop_reach[of ?p "[]"] have "set (closure_loop ?p []) = inherits\<^sup>* `` set ?p" by auto
  then show ?thesis unfolding p by (simp add: role_closure_def)
qed

lemma role_closure_distinct [simp]: "distinct (role_closure roles)" "sorted (role_closure roles)"
  by (simp_all add: role_closure_def distinct_closure_loop)

lemma juniors_known:
  assumes "j \<in> set (juniors ROLE_INHERITANCE r)"
  shows "r \<in> set KNOWN_ROLES" "j \<in> set KNOWN_ROLES" "level_of j = level_of r"
proof -
  have "list_all (\<lambda>(r, js). r \<in> set KNOWN_ROLES \<and> list_all (\<lambda>j. j \<in> set KNOWN_ROLES \<and> level_of j = level_of r) js) ROLE_INHERITANCE"
    by (simp add: ROLE_INHERITANCE_def KNOWN_ROLES_def level_of_def)
  moreover obtain js where "(r, js) \<in> set ROLE_INHERITANCE" "j \<in> set js"
    using assms by (cases "map_of ROLE_INHERITANCE r") (auto simp: juniors_def dest: map_of_SomeD)
  ultimately show "r \<in> set KNOWN_ROLES" "j \<in> set KNOWN_ROLES" "level_of j = level_of r"
    by (auto simp: list_all_iff)
qed

lemma inherits_known: "(a, b) \<in> inherits\<^sup>* \<Longrightarrow> a \<in> set KNOWN_ROLES \<Longrightarrow> b \<in> set KNOWN_ROLES \<and> level_of b = level_of a"
  by (induction rule: rtrancl_induct) (auto simp: inherits_def juniors_known)

section \<open>The interface of a role hierarchy\<close>

locale role_hierarchy =
  fixes cl :: "string list \<Rightarrow> string list"
    and known :: "string set"
    and lv :: "string \<Rightarrow> string"
  assumes cl_known: "set (cl rs) \<subseteq> known"
    and cl_has: "r \<in> set rs \<Longrightarrow> r \<in> known \<Longrightarrow> r \<in> set (cl rs)"
    and cl_mono: "set rs \<inter> known \<subseteq> set qs \<Longrightarrow> set (cl rs) \<subseteq> set (cl qs)"
    and cl_idem: "set (cl (cl rs)) = set (cl rs)"
    and cl_level: "r \<in> set (cl rs) \<Longrightarrow> \<exists>q \<in> set rs \<inter> known. lv r = lv q"
begin

text \<open>Roles taken from a closure give no more than the closure.\<close>

lemma cl_within: "set rs \<inter> known \<subseteq> set (cl qs) \<Longrightarrow> set (cl rs) \<subseteq> set (cl qs)"
  using cl_mono[of rs "cl qs"] by (simp add: cl_idem)

lemma cl_unknown: "r \<notin> known \<Longrightarrow> set (cl (rs @ [r])) = set (cl rs)"
  using cl_mono[of rs "rs @ [r]"] cl_mono[of "rs @ [r]" rs] by auto

lemma cl_same_level: "\<forall>q \<in> set rs. q \<in> known \<longrightarrow> lv q = l \<Longrightarrow> r \<in> set (cl rs) \<Longrightarrow> lv r = l"
  using cl_level by blast

lemma cl_nil: "cl [] = []"
  using cl_level[of _ "[]"] by (cases "cl []") auto

end

interpretation roles: role_hierarchy role_closure "set KNOWN_ROLES" level_of
proof unfold_locales
  fix rs qs :: "string list" and r
  show "set (role_closure rs) \<subseteq> set KNOWN_ROLES"
    unfolding role_closure_set using inherits_known by blast
  show "r \<in> set rs \<Longrightarrow> r \<in> set KNOWN_ROLES \<Longrightarrow> r \<in> set (role_closure rs)"
    unfolding role_closure_set by blast
  show "set rs \<inter> set KNOWN_ROLES \<subseteq> set qs \<Longrightarrow> set (role_closure rs) \<subseteq> set (role_closure qs)"
    unfolding role_closure_set by blast
  have "inherits\<^sup>* `` (inherits\<^sup>* `` A \<inter> set KNOWN_ROLES) = inherits\<^sup>* `` A" if "A \<subseteq> set KNOWN_ROLES" for A
    using inherits_known that by (auto intro: rtrancl_trans)
  then show "set (role_closure (role_closure rs)) = set (role_closure rs)"
    unfolding role_closure_set by simp
  show "r \<in> set (role_closure rs) \<Longrightarrow> \<exists>q \<in> set rs \<inter> set KNOWN_ROLES. level_of r = level_of q"
    unfolding role_closure_set using inherits_known by blast
qed

section \<open>Constraints\<close>

lemma check_constraints_anti:
  assumes "check_constraints A cs = Inr True" and "B \<subseteq> A" and "finite A"
  shows "check_constraints B cs = Inr True"
  using assms(1)
proof (induction cs)
  case (Cons c cs)
  have "card (B \<inter> sc_roles c) \<le> card (A \<inter> sc_roles c)"
    using assms(2,3) by (intro card_mono) auto
  with Cons show ?case by (auto split: if_splits)
qed simp

lemma check_constraints_valid: "list_all constraint_ok cs \<Longrightarrow> \<exists>b. check_constraints A cs = Inr b"
  by (induction cs) auto

lemma check_constraints_empty: "list_all constraint_ok cs \<Longrightarrow> check_constraints {} cs = Inr True"
  by (induction cs) (auto simp: constraint_ok_def)

lemma satisfies_anti:
  "satisfies_constraints rs cs = Inr True \<Longrightarrow> set (role_closure qs) \<subseteq> set (role_closure rs) \<Longrightarrow>
     satisfies_constraints qs cs = Inr True"
  unfolding satisfies_constraints_def by (erule check_constraints_anti) auto

lemma satisfies_cong:
  "set (role_closure qs) = set (role_closure rs) \<Longrightarrow> satisfies_constraints qs cs = satisfies_constraints rs cs"
  by (simp add: satisfies_constraints_def)

lemma role_closure_cong: "set qs = set rs \<Longrightarrow> set (role_closure qs) = set (role_closure rs)"
  by (simp add: role_closure_set)

text \<open>What the greedy choice ends with.\<close>

lemma choose_roles_spec:
  assumes "list_all constraint_ok dsd" and "satisfies_constraints chosen dsd = Inr True"
  shows "\<exists>out. choose_roles dsd cands chosen = Inr out \<and> satisfies_constraints out dsd = Inr True
    \<and> (\<exists>more. out = chosen @ more \<and> set more \<subseteq> set cands)
    \<and> (\<forall>r \<in> set cands. r \<in> set (role_closure out) \<or> r \<in> set out \<or> satisfies_constraints (out @ [r]) dsd = Inr False)"
  using assms(2)
proof (induction cands arbitrary: chosen)
  case (Cons r cands)
  obtain b where b: "satisfies_constraints (chosen @ [r]) dsd = Inr b"
    using check_constraints_valid[OF assms(1)] by (auto simp: satisfies_constraints_def)
  define nxt where "nxt = (if r \<notin> set (role_closure chosen) \<and> b then chosen @ [r] else chosen)"
  have run: "choose_roles dsd (r # cands) chosen = choose_roles dsd cands nxt"
    using b by (auto simp: nxt_def)
  have ok: "satisfies_constraints nxt dsd = Inr True" using b Cons.prems by (auto simp: nxt_def)
  obtain out more where out: "choose_roles dsd cands nxt = Inr out" "satisfies_constraints out dsd = Inr True"
    "out = nxt @ more" "set more \<subseteq> set cands"
    "\<forall>r \<in> set cands. r \<in> set (role_closure out) \<or> r \<in> set out \<or> satisfies_constraints (out @ [r]) dsd = Inr False"
    using Cons.IH[OF ok] by blast
  have "r \<in> set (role_closure out) \<or> r \<in> set out \<or> satisfies_constraints (out @ [r]) dsd = Inr False"
  proof (cases "nxt = chosen @ [r]")
    case True
    with out(3) show ?thesis by simp
  next
    case False
    have grow: "set (role_closure chosen) \<subseteq> set (role_closure out)"
      by (rule roles.cl_mono) (auto simp: out(3) nxt_def)
    show ?thesis
    proof (cases "r \<in> set (role_closure chosen)")
      case True
      with grow show ?thesis by blast
    next
      case nr: False
      with False have nb: "\<not> b" by (auto simp: nxt_def)
      obtain c where c: "satisfies_constraints (out @ [r]) dsd = Inr c"
        using check_constraints_valid[OF assms(1)] by (auto simp: satisfies_constraints_def)
      have "set (role_closure (chosen @ [r])) \<subseteq> set (role_closure (out @ [r]))"
        by (rule roles.cl_mono) (auto simp: out(3) nxt_def)
      with c b nb have "\<not> c" using satisfies_anti[of "out @ [r]" dsd "chosen @ [r]"] by auto
      with c show ?thesis by simp
    qed
  qed
  moreover have "\<exists>m. out = chosen @ m \<and> set m \<subseteq> set (r # cands)"
    using out(3,4) by (auto simp: nxt_def)
  ultimately show ?case using run out by auto
qed simp

section \<open>The check at import\<close>

text \<open>In a list of finished roles every junior of a role comes before it, within the same level.\<close>

definition finished :: "string list \<Rightarrow> hierarchy \<Rightarrow> string list \<Rightarrow> bool" where
  "finished known h ed \<longleftrightarrow>
     (\<forall>i < length ed. \<forall>j \<in> set (juniors h (ed ! i)).
        j \<in> set (take i ed) \<and> ed ! i \<in> set known \<and> j \<in> set known \<and> level_of j = level_of (ed ! i))"

lemma finished_snoc:
  "finished known h (ed @ [r]) \<longleftrightarrow> finished known h ed
     \<and> (\<forall>j \<in> set (juniors h r). j \<in> set ed \<and> r \<in> set known \<and> j \<in> set known \<and> level_of j = level_of r)"
  unfolding finished_def by (auto simp: nth_append less_Suc_eq)

lemma visit_finished:
  "visit n known h ing ed r = Inr ed' \<Longrightarrow> finished known h ed \<Longrightarrow>
     finished known h ed' \<and> set ed \<subseteq> set ed' \<and> r \<in> set ed'"
  "visit_juniors n known h ing ed r js = Inr ed' \<Longrightarrow> finished known h ed \<Longrightarrow>
     finished known h ed' \<and> set ed \<subseteq> set ed'
       \<and> (\<forall>j \<in> set js. j \<in> set ed' \<and> r \<in> set known \<and> j \<in> set known \<and> level_of j = level_of r)"
proof (induction n known h ing ed r and n known h ing ed r js arbitrary: ed' and ed' rule: visit_visit_juniors.induct)
  case (2 n known h ing ed r)
  show ?case
  proof (cases "r \<in> set ed")
    case True
    with 2 show ?thesis by (auto split: if_splits)
  next
    case False
    with 2(2) obtain e where e: "visit_juniors n known h (insert r ing) ed r (juniors h r) = Inr e" "ed' = e @ [r]"
      and ni: "r \<notin> ing" by (auto split: if_splits)
    from 2(1)[OF ni False e(1) 2(3)] e(2) show ?thesis by (auto simp: finished_snoc)
  qed
next
  case (4 n known h ing ed r j js)
  from 4(3) obtain e where k: "\<not> (r \<notin> set known \<or> j \<notin> set known)" "\<not> level_of r \<noteq> level_of j"
    and e: "visit n known h ing ed j = Inr e" "visit_juniors n known h ing e r js = Inr ed'"
    by (auto split: if_splits)
  from 4(1)[OF k e(1) 4(4)] have a: "finished known h e" "set ed \<subseteq> set e" "j \<in> set e" by simp_all
  from 4(2)[OF k e(2) a(1)] a k show ?case by auto
qed auto

lemma finished_acyclic:
  assumes "finished known h ed"
  shows "acyclic {(s, j). s \<in> set ed \<and> j \<in> set (juniors h s)}"
proof -
  define pos where "pos r = (LEAST i. i < length ed \<and> ed ! i = r)" for r
  have pos: "pos r < length ed" "ed ! pos r = r" "i < length ed \<Longrightarrow> ed ! i = r \<Longrightarrow> pos r \<le> i" if "r \<in> set ed" for r i
  proof -
    from that obtain k where "k < length ed \<and> ed ! k = r" by (auto simp: in_set_conv_nth)
    from LeastI[of "\<lambda>i. i < length ed \<and> ed ! i = r", OF this] show "pos r < length ed" "ed ! pos r = r"
      by (simp_all add: pos_def)
    show "i < length ed \<Longrightarrow> ed ! i = r \<Longrightarrow> pos r \<le> i" by (simp add: pos_def Least_le)
  qed
  have "{(s, j). s \<in> set ed \<and> j \<in> set (juniors h s)}\<inverse> \<subseteq> inv_image less_than pos"
  proof (rule subrelI)
    fix j s assume "(j, s) \<in> {(s, j). s \<in> set ed \<and> j \<in> set (juniors h s)}\<inverse>"
    then have s: "s \<in> set ed" "j \<in> set (juniors h s)" by auto
    have "j \<in> set (take (pos s) ed)"
      using assms s pos[OF s(1)] by (auto simp: finished_def)
    then obtain i where "i < pos s" "i < length ed" "ed ! i = j" by (auto simp: in_set_conv_nth)
    moreover from this have "j \<in> set ed" by auto
    ultimately show "(j, s) \<in> inv_image less_than pos" using pos(3)[of j i] by auto
  qed
  then have "wf ({(s, j). s \<in> set ed \<and> j \<in> set (juniors h s)}\<inverse>)"
    by (rule wf_subset[OF wf_inv_image[OF wf_less_than]])
  then show ?thesis using wf_acyclic acyclic_converse by blast
qed

lemma validate_finished:
  assumes "validate_hierarchy depth known h = Inr ed"
  shows "finished known h ed \<and> fst ` set h \<subseteq> set ed"
proof -
  have "finished known h ed \<and> set ed0 \<subseteq> set ed \<and> set rs \<subseteq> set ed"
    if "foldR (\<lambda>role visited. visit depth known h {} visited role) rs ed0 = Inr ed" "finished known h ed0" for rs ed0
    using that
  proof (induction rs arbitrary: ed0)
    case (Cons r rs)
    then obtain e where e: "visit depth known h {} ed0 r = Inr e"
      "foldR (\<lambda>role visited. visit depth known h {} visited role) rs e = Inr ed" by auto
    from visit_finished(1)[OF e(1) Cons.prems(2)] Cons.IH[OF e(2)] show ?case by auto
  qed simp
  from this[of "map fst h" "[]"] assms show ?thesis by (auto simp: validate_hierarchy_def finished_def)
qed

section \<open>Activation\<close>

lemma known_prefix_level:
  assumes "r \<in> set KNOWN_ROLES" and "starts_with (l @ '':'') r"
  shows "level_of r = l"
proof -
  have one: "list_all (\<lambda>k. length (filter (\<lambda>c. c = CHR '':'') k) = 1) KNOWN_ROLES"
    by (simp add: KNOWN_ROLES_def)
  obtain rest where r: "r = l @ CHR '':'' # rest"
    using assms(2) append_take_drop_id[of "Suc (length l)" r] by (auto simp: starts_with_def) metis
  have "length (filter (\<lambda>c. c = CHR '':'') r) = 1" using one assms(1) by (simp add: list_all_iff)
  then have "CHR '':'' \<notin> set l" by (auto simp: r filter_empty_conv)
  then show ?thesis unfolding level_of_def r by (subst takeWhile_append2) auto
qed

lemma assigned_roles_set:
  "set (assigned_roles l p xs) = insert (composite_role l p) {r \<in> set xs. starts_with (l @ '':'') r \<and> r \<in> set KNOWN_ROLES}"
  by (auto simp: assigned_roles_def)

lemma assigned_level:
  assumes "r \<in> set (role_closure (assigned_roles l p xs))"
  shows "level_of r = l"
proof (rule roles.cl_same_level[OF _ assms], intro ballI impI)
  fix q assume "q \<in> set (assigned_roles l p xs)" and k: "q \<in> set KNOWN_ROLES"
  then have "starts_with (l @ '':'') q" by (auto simp: assigned_roles_set composite_role_def starts_with_def)
  with k show "level_of q = l" by (rule known_prefix_level)
qed

lemma activated_cases:
  assumes "activated_roles ssd dsd l p xs sel = Inr active"
  shows "satisfies_constraints (authorized_roles l p xs) ssd = Inr True" "satisfies_constraints active dsd = Inr True"
    and "sel = Some s \<Longrightarrow> distinct s \<and> set s \<subseteq> set (authorized_roles l p xs) \<and> active = sort s"
    and "sel = None \<Longrightarrow> \<exists>chosen. choose_roles dsd (composite_role l p # assigned_roles l p xs @ authorized_roles l p xs) [] = Inr chosen
           \<and> active = sort chosen"
  using assms by (auto simp: activated_roles_def Let_def authorized_roles_def split: if_splits option.splits)

lemma choose_roles_from: "choose_roles dsd cands chosen = Inr out \<Longrightarrow> set out \<subseteq> set chosen \<union> set cands"
proof (induction cands arbitrary: chosen)
  case (Cons r cands)
  show ?case
  proof (cases "r \<in> set (role_closure chosen)")
    case True
    with Cons.IH[of chosen] Cons.prems show ?thesis by auto
  next
    case False
    with Cons.prems obtain b where "choose_roles dsd cands (if b then chosen @ [r] else chosen) = Inr out" by auto
    from Cons.IH[OF this] show ?thesis by (auto split: if_splits)
  qed
qed simp

lemma choose_roles_distinct:
  "choose_roles dsd cands chosen = Inr out \<Longrightarrow> set chosen \<union> set cands \<subseteq> set KNOWN_ROLES \<Longrightarrow> distinct chosen \<Longrightarrow> distinct out"
proof (induction cands arbitrary: chosen)
  case (Cons r cands)
  show ?case
  proof (cases "r \<in> set (role_closure chosen)")
    case True
    with Cons show ?thesis by auto
  next
    case False
    with Cons.prems(1) obtain b where b: "choose_roles dsd cands (if b then chosen @ [r] else chosen) = Inr out" by auto
    have "r \<notin> set chosen" using False Cons.prems(2) roles.cl_has[of r chosen] by auto
    with Cons.prems Cons.IH[OF b] show ?thesis by auto
  qed
qed simp

text \<open>An unknown role is in no closure and changes none, so each time it is a candidate it is taken.\<close>

lemma choose_roles_unknown:
  "choose_roles dsd cands chosen = Inr out \<Longrightarrow> c \<notin> set KNOWN_ROLES \<Longrightarrow> satisfies_constraints chosen dsd = Inr True \<Longrightarrow>
     count (mset out) c = count (mset chosen) c + count (mset cands) c"
proof (induction cands arbitrary: chosen)
  case (Cons r cands)
  show ?case
  proof (cases "r \<in> set (role_closure chosen)")
    case True
    then have "r \<noteq> c" using roles.cl_known[of chosen] Cons.prems(2) by blast
    with True Cons show ?thesis by auto
  next
    case False
    with Cons.prems(1) obtain b where s: "satisfies_constraints (chosen @ [r]) dsd = Inr b"
      and b: "choose_roles dsd cands (if b then chosen @ [r] else chosen) = Inr out" by auto
    have "satisfies_constraints (if b then chosen @ [r] else chosen) dsd = Inr True" using s Cons.prems(3) by simp
    note IH = Cons.IH[OF b Cons.prems(2) this]
    have "r = c \<Longrightarrow> b" using s Cons.prems(2,3) satisfies_cong[OF roles.cl_unknown, of c chosen dsd] by auto
    with IH show ?thesis by auto
  qed
qed simp

text \<open>A known role that is chosen is in the closure, and is not chosen again.\<close>

lemma choose_roles_once:
  "choose_roles dsd cands chosen = Inr out \<Longrightarrow> distinct (filter (\<lambda>r. r \<in> set KNOWN_ROLES) chosen) \<Longrightarrow>
     distinct (filter (\<lambda>r. r \<in> set KNOWN_ROLES) out)"
proof (induction cands arbitrary: chosen)
  case (Cons r cands)
  show ?case
  proof (cases "r \<in> set (role_closure chosen)")
    case True
    with Cons show ?thesis by auto
  next
    case False
    with Cons.prems(1) obtain b where b: "choose_roles dsd cands (if b then chosen @ [r] else chosen) = Inr out" by auto
    have "r \<in> set KNOWN_ROLES \<Longrightarrow> r \<notin> set chosen" using False roles.cl_has[of r chosen] by auto
    with Cons.prems(2) have "distinct (filter (\<lambda>r. r \<in> set KNOWN_ROLES) (if b then chosen @ [r] else chosen))" by auto
    from Cons.IH[OF b this] show ?thesis .
  qed
qed simp

lemma authorized_known: "set (assigned_roles l p xs) \<inter> set KNOWN_ROLES \<subseteq> set (authorized_roles l p xs)"
  by (auto simp: authorized_roles_def roles.cl_has)

lemma activated_from:
  assumes "activated_roles ssd dsd l p xs sel = Inr active"
  shows "set active \<inter> set KNOWN_ROLES \<subseteq> set (authorized_roles l p xs)"
    and "set active \<subseteq> set (authorized_roles l p xs) \<union> {composite_role l p}"
proof -
  have known: "set (authorized_roles l p xs) \<subseteq> set KNOWN_ROLES" unfolding authorized_roles_def by (rule roles.cl_known)
  have "set active \<subseteq> {composite_role l p} \<union> set (assigned_roles l p xs) \<union> set (authorized_roles l p xs)"
  proof (cases sel)
    case None
    with activated_cases(4)[OF assms] obtain chosen where
      "choose_roles dsd (composite_role l p # assigned_roles l p xs @ authorized_roles l p xs) [] = Inr chosen" "active = sort chosen"
      by blast
    then show ?thesis using choose_roles_from by fastforce
  next
    case (Some s)
    with activated_cases(3)[OF assms] show ?thesis by auto
  qed
  moreover have "set (assigned_roles l p xs) \<subseteq> {composite_role l p} \<union> set (authorized_roles l p xs)"
    using authorized_known[of l p xs] by (auto simp: assigned_roles_set)
  ultimately show sub: "set active \<subseteq> set (authorized_roles l p xs) \<union> {composite_role l p}" by blast
  moreover have "composite_role l p \<in> set (assigned_roles l p xs)" by (simp add: assigned_roles_def)
  ultimately show "set active \<inter> set KNOWN_ROLES \<subseteq> set (authorized_roles l p xs)" using authorized_known[of l p xs] by blast
qed

lemma activated_once:
  assumes "activated_roles ssd dsd l p xs sel = Inr active"
  shows "distinct (filter (\<lambda>r. r \<in> set KNOWN_ROLES) active)"
proof (cases sel)
  case None
  with activated_cases(4)[OF assms] obtain chosen where
    c: "choose_roles dsd (composite_role l p # assigned_roles l p xs @ authorized_roles l p xs) [] = Inr chosen" "active = sort chosen"
    by blast
  have "distinct (filter (\<lambda>r. r \<in> set KNOWN_ROLES) chosen)" using choose_roles_once[OF c(1)] by simp
  then show ?thesis unfolding c(2) by (simp add: filter_sort)
next
  case (Some s)
  with activated_cases(3)[OF assms] show ?thesis by simp
qed

lemma default_choice:
  assumes "list_all constraint_ok dsd"
  obtains chosen where "choose_roles dsd (composite_role l p # assigned_roles l p xs @ authorized_roles l p xs) [] = Inr chosen"
    "satisfies_constraints chosen dsd = Inr True"
    "set chosen \<subseteq> set (composite_role l p # assigned_roles l p xs @ authorized_roles l p xs)"
    "\<forall>r \<in> set (authorized_roles l p xs). r \<in> set (role_closure chosen) \<or> r \<in> set chosen
       \<or> satisfies_constraints (chosen @ [r]) dsd = Inr False"
proof -
  have "satisfies_constraints [] dsd = Inr True"
    using check_constraints_empty[OF assms] by (simp add: satisfies_constraints_def roles.cl_nil)
  from choose_roles_spec[OF assms this, of "composite_role l p # assigned_roles l p xs @ authorized_roles l p xs"]
  show ?thesis using that by auto
qed

lemma program_hierarchy_valid:
  "validate_hierarchy (Suc (Suc (Suc (Suc n)))) KNOWN_ROLES ROLE_INHERITANCE =
     Inr [''normal:member'', ''normal:columnist'', ''normal:author'', ''admin:incubated_member'', ''admin:org_member'',
          ''admin:super_admin'']"
  by (simp add: validate_hierarchy_def ROLE_INHERITANCE_def KNOWN_ROLES_def juniors_def level_of_def)

lemmas role_eval = activated_roles_def satisfies_constraints_def authorized_roles_def assigned_roles_def composite_role_def
  role_closure_def starts_with_def juniors_def KNOWN_ROLES_def ROLE_INHERITANCE_def Let_def

section \<open>Properties\<close>

text \<open>The check of the hierarchy is sound and the hierarchy of the program passes it.  Whatever table
  passes it, with any bound on the recursion, has no cycle, names known roles only and never crosses an
  account level; and the table of the program passes within the interpreter's limit.\<close>

theorem hierarchy_check_sound:
  assumes "validate_hierarchy depth known h = Inr visited"
  shows "acyclic {(s, j). j \<in> set (juniors h s)}
    \<and> (\<forall>s j. j \<in> set (juniors h s) \<longrightarrow> s \<in> set known \<and> j \<in> set known \<and> level_of j = level_of s)
    \<and> (\<exists>v. validate_hierarchy 1000 KNOWN_ROLES ROLE_INHERITANCE = Inr v)"
proof -
  from validate_finished[OF assms] have f: "finished known h visited" and keys: "fst ` set h \<subseteq> set visited" by auto
  have s: "s \<in> set visited" if "j \<in> set (juniors h s)" for s j
  proof -
    from that have "map_of h s \<noteq> None" by (cases "map_of h s") (simp_all add: juniors_def)
    then have "s \<in> fst ` set h" by (metis domIff dom_map_of_conv_image_fst)
    with keys show ?thesis by auto
  qed
  have "{(s, j). j \<in> set (juniors h s)} \<subseteq> {(s, j). s \<in> set visited \<and> j \<in> set (juniors h s)}" using s by auto
  from acyclic_subset[OF finished_acyclic[OF f] this]
  have "acyclic {(s, j). j \<in> set (juniors h s)}" .
  moreover have "\<forall>s j. j \<in> set (juniors h s) \<longrightarrow> s \<in> set known \<and> j \<in> set known \<and> level_of j = level_of s"
    using f s unfolding finished_def by (metis in_set_conv_nth)
  moreover have "\<exists>v. validate_hierarchy 1000 KNOWN_ROLES ROLE_INHERITANCE = Inr v"
    using program_hierarchy_valid[of 996] by auto
  ultimately show ?thesis by blast
qed

theorem hierarchy_check_sound_witness:
  "acyclic {(s, j). j \<in> set (juniors ROLE_INHERITANCE s)}"
  using hierarchy_check_sound[OF program_hierarchy_valid] by blast

text \<open>C13: The closure of roles is exactly what they inherit: a sorted list without repetitions of the known
  roles that a known one of them reaches through the table, in any number of steps.\<close>

theorem role_closure_exact:
  "set (role_closure roles) = {(s, j). j \<in> set (juniors ROLE_INHERITANCE s)}\<^sup>* `` (set roles \<inter> set KNOWN_ROLES)
     \<and> sorted (role_closure roles) \<and> distinct (role_closure roles)"
  by (simp add: role_closure_set inherits_def)

text \<open>C14: A session never gets more than its user has.  If an activation with a selection succeeds, the active roles are the selected
  ones, each once, and all of them authorized.  If one without a selection succeeds, the active roles are authorized ones, each
  once, except that the user's own primary role is active even if it is none of the known roles (and then not authorized and
  listed more than once, see below).  Either way what the active roles inherit, which is what decisions look at, lies within the
  authorized roles of the user, all of the user's account level; and the authorized roles satisfy the static and the
  active ones the dynamic separation of duties.\<close>

theorem activation_sound:
  assumes "activated_roles ssd dsd l p xs sel = Inr active"
  shows "(case sel of
        Some s \<Rightarrow> mset active = mset s \<and> distinct active \<and> set active \<subseteq> set (authorized_roles l p xs)
      | None \<Rightarrow> list_all (\<lambda>r. r \<in> set (authorized_roles l p xs) \<or> r = composite_role l p \<and> r \<notin> set KNOWN_ROLES) active
          \<and> distinct (filter (\<lambda>r. r \<in> set (authorized_roles l p xs)) active))
    \<and> set (role_closure active) \<subseteq> set (authorized_roles l p xs)
    \<and> list_all (\<lambda>r. level_of r = l) (role_closure active)
    \<and> satisfies_constraints (authorized_roles l p xs) ssd = Inr True \<and> satisfies_constraints active dsd = Inr True"
proof -
  have sub: "set (role_closure active) \<subseteq> set (authorized_roles l p xs)"
    using roles.cl_within[of active "assigned_roles l p xs"] activated_from(1)[OF assms] by (simp add: authorized_roles_def)
  moreover have "list_all (\<lambda>r. level_of r = l) (role_closure active)"
    using sub assigned_level[of _ l p xs] by (auto simp: list_all_iff authorized_roles_def)
  moreover have "mset active = mset s \<and> distinct active \<and> set active \<subseteq> set (authorized_roles l p xs)" if "sel = Some s" for s
    using activated_cases(3)[OF assms that] by simp
  moreover have "list_all (\<lambda>r. r \<in> set (authorized_roles l p xs) \<or> r = composite_role l p \<and> r \<notin> set KNOWN_ROLES) active"
    using activated_from[OF assms] by (auto simp: list_all_iff)
  moreover have "distinct (filter (\<lambda>r. r \<in> set (authorized_roles l p xs)) active)"
  proof -
    have "set (authorized_roles l p xs) \<subseteq> set KNOWN_ROLES" unfolding authorized_roles_def by (rule roles.cl_known)
    then have "filter (\<lambda>r. r \<in> set (authorized_roles l p xs)) active
        = filter (\<lambda>r. r \<in> set (authorized_roles l p xs)) (filter (\<lambda>r. r \<in> set KNOWN_ROLES) active)"
      by (auto simp: filter_filter intro!: filter_cong)
    then show ?thesis using distinct_filter[OF activated_once[OF assms]] by simp
  qed
  ultimately show ?thesis using activated_cases(1,2)[OF assms] by (auto split: option.split)
qed

theorem activation_sound_witness:
  "set [''admin:org_member''] \<subseteq> set (authorized_roles ''admin'' ''super_admin'' [])
   \<and> set (role_closure [''admin:columnist'', ''admin:columnist'']) \<subseteq> set (authorized_roles ''admin'' ''columnist'' [])"
proof -
  have "activated_roles [] [] ''admin'' ''super_admin'' [] (Some [''admin:org_member'']) = Inr [''admin:org_member'']"
    "activated_roles [] [] ''admin'' ''columnist'' [] None = Inr [''admin:columnist'', ''admin:columnist'']"
    by (simp_all add: role_eval)
  from activation_sound[OF this(1)] activation_sound[OF this(2)] show ?thesis by auto
qed

text \<open>Without a selection a session gets as much as separation of duties allows, and can be renewed.
  With valid constraints and roles that satisfy the static ones, the default activation succeeds; adding
  any further authorized role to it would violate the dynamic constraints; and if the primary role is a
  known one, selecting exactly the activated roles again gives the same roles.\<close>

theorem default_activation_maximal:
  assumes "list_all constraint_ok ssd" and "list_all constraint_ok dsd"
    and "satisfies_constraints (authorized_roles l p xs) ssd = Inr True"
  shows "\<exists>active. activated_roles ssd dsd l p xs None = Inr active
    \<and> (\<forall>r \<in> set (authorized_roles l p xs). r \<in> set (role_closure active) \<or> satisfies_constraints (active @ [r]) dsd = Inr False)
    \<and> (composite_role l p \<in> set KNOWN_ROLES \<longrightarrow> activated_roles ssd dsd l p xs (Some active) = Inr active)"
proof -
  obtain chosen where c: "choose_roles dsd (composite_role l p # assigned_roles l p xs @ authorized_roles l p xs) [] = Inr chosen"
    "satisfies_constraints chosen dsd = Inr True"
    "set chosen \<subseteq> set (composite_role l p # assigned_roles l p xs @ authorized_roles l p xs)"
    and mx: "\<forall>r \<in> set (authorized_roles l p xs). r \<in> set (role_closure chosen) \<or> r \<in> set chosen
       \<or> satisfies_constraints (chosen @ [r]) dsd = Inr False"
    by (rule default_choice[OF assms(2)])
  have cl: "set (role_closure (sort chosen)) = set (role_closure chosen)"
    "set (role_closure (sort chosen @ [r])) = set (role_closure (chosen @ [r]))" for r
    by (rule role_closure_cong; simp)+
  have ok: "satisfies_constraints (sort chosen) dsd = Inr True" using c(2) satisfies_cong[OF cl(1)] by simp
  have act: "activated_roles ssd dsd l p xs None = Inr (sort chosen)"
    using assms(3) c(1) ok by (simp add: activated_roles_def authorized_roles_def Let_def)
  have known: "set (authorized_roles l p xs) \<subseteq> set KNOWN_ROLES" unfolding authorized_roles_def by (rule roles.cl_known)
  have "r \<in> set (role_closure (sort chosen)) \<or> satisfies_constraints (sort chosen @ [r]) dsd = Inr False"
    if "r \<in> set (authorized_roles l p xs)" for r
    using mx that known roles.cl_has[of r chosen] satisfies_cong[OF cl(2)[of r], of dsd] cl(1) by auto
  moreover have "activated_roles ssd dsd l p xs (Some (sort chosen)) = Inr (sort chosen)"
    if k: "composite_role l p \<in> set KNOWN_ROLES"
  proof -
    have "set (assigned_roles l p xs) \<subseteq> set KNOWN_ROLES" using k by (auto simp: assigned_roles_set)
    then have "set chosen \<subseteq> set (authorized_roles l p xs)"
      using c(3) authorized_known[of l p xs] k by (auto simp: assigned_roles_set)
    moreover have "distinct chosen" using choose_roles_distinct[OF c(1)] c(3) k known \<open>set (assigned_roles l p xs) \<subseteq> set KNOWN_ROLES\<close> by auto
    moreover have "sort (sort chosen) = sort chosen" by (simp add: sort_key_id_if_sorted)
    ultimately show ?thesis
      using assms(3) ok by (simp add: activated_roles_def authorized_roles_def Let_def)
  qed
  ultimately show ?thesis using act by blast
qed

theorem default_activation_maximal_witness:
  "\<exists>active. activated_roles [] [\<lparr>sc_roles = {''normal:member'', ''normal:author''}, sc_max_roles = 1\<rparr>]
     ''normal'' ''member'' [''normal:author''] None = Inr active"
proof -
  have "list_all constraint_ok [\<lparr>sc_roles = {''normal:member'', ''normal:author''}, sc_max_roles = 1\<rparr>]"
    by (simp add: constraint_ok_def KNOWN_ROLES_def)
  moreover have "satisfies_constraints (authorized_roles ''normal'' ''member'' [''normal:author'']) [] = Inr True"
    by (simp add: satisfies_constraints_def)
  ultimately show ?thesis
    using default_activation_maximal[of "[]" "[\<lparr>sc_roles = {''normal:member'', ''normal:author''}, sc_max_roles = 1\<rparr>]"
      "''normal''" "''member''" "[''normal:author'']"] by auto
qed

text \<open>A primary role outside the known ones makes sessions that cannot be renewed.  Then the default
  activation lists the unknown role twice, and selecting exactly the activated roles is refused.\<close>

theorem unknown_primary_not_renewable:
  assumes "list_all constraint_ok dsd" and "composite_role l p \<notin> set KNOWN_ROLES"
    and "activated_roles ssd dsd l p xs None = Inr active"
  shows "\<not> distinct active \<and> activated_roles ssd dsd l p xs (Some active) = Inl ValueError"
proof -
  let ?c = "composite_role l p"
  have cl: "set (role_closure (rs @ [?c])) = set (role_closure rs)" for rs by (rule roles.cl_unknown[OF assms(2)])
  obtain chosen where ch: "choose_roles dsd (?c # assigned_roles l p xs @ authorized_roles l p xs) [] = Inr chosen"
    "active = sort chosen"
    using activated_cases(4)[OF assms(3)] by blast
  have "satisfies_constraints [] dsd = Inr True"
    using check_constraints_empty[OF assms(1)] by (simp add: satisfies_constraints_def roles.cl_nil)
  from choose_roles_unknown[OF ch(1) assms(2) this]
  have "1 < count (mset chosen) ?c"
    by (simp add: assigned_roles_def count_mset_gt_0)
  then have "\<not> distinct chosen" by (metis distinct_count_atmost_1 not_less zero_le one_le_numeral less_irrefl le_numeral_extra(4))
  then have "\<not> distinct active" by (simp add: ch(2))
  moreover have "satisfies_constraints (role_closure (assigned_roles l p xs)) ssd = Inr True"
    using activated_cases(1)[OF assms(3)] by (simp add: authorized_roles_def)
  ultimately show ?thesis by (simp add: activated_roles_def Let_def)
qed

theorem unknown_primary_not_renewable_witness:
  "activated_roles [] [] ''admin'' ''columnist'' [] (Some [''admin:columnist'', ''admin:columnist'']) = Inl ValueError"
proof -
  have "activated_roles [] [] ''admin'' ''columnist'' [] None = Inr [''admin:columnist'', ''admin:columnist'']"
    by (simp add: role_eval)
  moreover have "composite_role ''admin'' ''columnist'' \<notin> set KNOWN_ROLES"
    by (simp add: composite_role_def KNOWN_ROLES_def)
  ultimately show ?thesis using unknown_primary_not_renewable[of "[]" "''admin''" "''columnist''"] by auto
qed

end
