(* ===== verification/Rbac_Service.thy ===== *)
theory Rbac_Service
  imports Rbac_Roles Outbox_Store
begin

text \<open>
  Permissions of role-based access control (\<open>app/modules/rbac/\<close>): the permission points and the default
  grants (\<open>permissions.py\<close>), the table of grants (\<open>models.py\<close>, \<open>repository.py\<close>), the decisions
  (\<open>service.py\<close>, \<open>deps.py\<close>) and the seed (\<open>seed.py\<close>).  A client of the role hierarchy.
\<close>

section \<open>Permission points\<close>

datatype permission =
    comment_create
  | avatar_update
  | content_create
  | content_comment_create
  | content_like
  | content_forward
  | interaction_favorite
  | interaction_history
  | notification_read
  | notification_manage
  | boards_create_application
  | boards_review_application
  | boards_manage
  | articles_publish
  | articles_review
  | articles_category_manage
  | columns_application_create
  | columns_application_review
  | columns_publish
  | files_upload
  | files_download
  | files_review
  | projects_application_create
  | projects_application_review
  | projects_create
  | projects_review
  | admin_dashboard
  | admin_reports_view
  | admin_users_manage
  | admin_users_review
  | admin_content_review
  | admin_moderation_manage
  | admin_analytics_view
  | admin_events_manage
  | admin_bot_panel
  | article_owner_publish
  | article_owner_comment_delete
  | column_owner_publish
  | board_owner_manage
  | content_owner_delete
  | file_owner_delete
  | file_owner_update
  | project_owner_update

fun permission_value :: "permission \<Rightarrow> string" where
  "permission_value comment_create = ''member.comment_create''"
| "permission_value avatar_update = ''member.avatar_update''"
| "permission_value content_create = ''content.create''"
| "permission_value content_comment_create = ''content.comment_create''"
| "permission_value content_like = ''content.like''"
| "permission_value content_forward = ''content.forward''"
| "permission_value interaction_favorite = ''interaction.favorite''"
| "permission_value interaction_history = ''interaction.history''"
| "permission_value notification_read = ''notification.read''"
| "permission_value notification_manage = ''notification.manage''"
| "permission_value boards_create_application = ''boards.create_application''"
| "permission_value boards_review_application = ''boards.review_application''"
| "permission_value boards_manage = ''boards.manage''"
| "permission_value articles_publish = ''articles.publish''"
| "permission_value articles_review = ''articles.review''"
| "permission_value articles_category_manage = ''articles.category_manage''"
| "permission_value columns_application_create = ''columns.application_create''"
| "permission_value columns_application_review = ''columns.application_review''"
| "permission_value columns_publish = ''columns.publish''"
| "permission_value files_upload = ''files.upload''"
| "permission_value files_download = ''files.download''"
| "permission_value files_review = ''files.review''"
| "permission_value projects_application_create = ''projects.application_create''"
| "permission_value projects_application_review = ''projects.application_review''"
| "permission_value projects_create = ''projects.create''"
| "permission_value projects_review = ''projects.review''"
| "permission_value admin_dashboard = ''admin.dashboard''"
| "permission_value admin_reports_view = ''admin.reports_view''"
| "permission_value admin_users_manage = ''admin.users_manage''"
| "permission_value admin_users_review = ''admin.users_review''"
| "permission_value admin_content_review = ''admin.content_review''"
| "permission_value admin_moderation_manage = ''admin.moderation_manage''"
| "permission_value admin_analytics_view = ''admin.analytics_view''"
| "permission_value admin_events_manage = ''admin.events_manage''"
| "permission_value admin_bot_panel = ''admin.bot_panel''"
| "permission_value article_owner_publish = ''article.owner_publish''"
| "permission_value article_owner_comment_delete = ''article.owner_comment_delete''"
| "permission_value column_owner_publish = ''column.owner_publish''"
| "permission_value board_owner_manage = ''board.owner_manage''"
| "permission_value content_owner_delete = ''content.owner_delete''"
| "permission_value file_owner_delete = ''file.owner_delete''"
| "permission_value file_owner_update = ''file.owner_update''"
| "permission_value project_owner_update = ''project.owner_update''"

definition all_permissions :: "permission list" where
  "all_permissions =
     [comment_create, avatar_update, content_create, content_comment_create,
      content_like, content_forward, interaction_favorite, interaction_history,
      notification_read, notification_manage, boards_create_application, boards_review_application,
      boards_manage, articles_publish, articles_review, articles_category_manage,
      columns_application_create, columns_application_review, columns_publish, files_upload,
      files_download, files_review, projects_application_create, projects_application_review,
      projects_create, projects_review, admin_dashboard, admin_reports_view,
      admin_users_manage, admin_users_review, admin_content_review, admin_moderation_manage,
      admin_analytics_view, admin_events_manage, admin_bot_panel, article_owner_publish,
      article_owner_comment_delete, column_owner_publish, board_owner_manage, content_owner_delete,
      file_owner_delete, file_owner_update, project_owner_update]"

datatype grant_result = GRANTED

datatype grant = Grant (grant_permission: permission) (grant_result: grant_result)

text \<open>\<open>Grant(p)\<close> with its default result, for each of a list.\<close>

definition granted :: "permission list \<Rightarrow> grant list" where
  "granted = map (\<lambda>p. Grant p GRANTED)"

definition DEFAULT_GRANTS :: "(string \<times> grant list) list" where
  "DEFAULT_GRANTS =
     [(''local:member'', granted
        [avatar_update]),
      (''normal:member'', granted
        [comment_create, avatar_update, content_create, content_comment_create,
         content_like, content_forward, boards_create_application, columns_application_create,
         files_upload, files_download, interaction_favorite, interaction_history,
         notification_read, notification_manage, projects_application_create]),
      (''normal:columnist'', granted
        [comment_create, avatar_update, content_create, content_comment_create,
         content_like, content_forward, boards_create_application, columns_application_create,
         columns_publish, files_upload, files_download, interaction_favorite,
         interaction_history, notification_read, notification_manage, projects_application_create]),
      (''normal:author'', granted
        [comment_create, avatar_update, content_create, content_comment_create,
         content_like, content_forward, boards_create_application, columns_application_create,
         columns_publish, files_upload, files_download, projects_application_create,
         projects_create, interaction_favorite, interaction_history, notification_read,
         notification_manage]),
      (''admin:incubated_member'', granted
        [comment_create, avatar_update, content_create, content_comment_create,
         content_like, content_forward, boards_create_application, columns_application_create,
         files_upload, files_download, interaction_favorite, interaction_history,
         notification_read, notification_manage, projects_application_create]),
      (''admin:org_member'', granted
        [comment_create, avatar_update, content_create, content_comment_create,
         content_like, content_forward, boards_create_application, columns_application_create,
         files_upload, files_download, projects_application_create, interaction_favorite,
         interaction_history, notification_read, notification_manage, admin_dashboard,
         admin_reports_view]),
      (''admin:content_reviewer'', granted
        [articles_review]),
      (''admin:content_publisher'', granted
        [articles_publish]),
      (''admin:super_admin'', granted
        [comment_create, avatar_update, content_create, content_comment_create,
         content_like, content_forward, files_upload, files_download,
         interaction_favorite, interaction_history, notification_read, notification_manage,
         boards_create_application, columns_application_create, columns_publish, projects_application_create,
         projects_create, articles_publish, articles_review, articles_category_manage,
         columns_application_review, boards_review_application, boards_manage, files_review,
         projects_application_review, projects_review, admin_dashboard, admin_reports_view,
         admin_users_manage, admin_users_review, admin_content_review, admin_moderation_manage,
         admin_analytics_view, admin_events_manage, admin_bot_panel, board_owner_manage,
         article_owner_publish, article_owner_comment_delete, column_owner_publish, content_owner_delete,
         file_owner_delete, file_owner_update, project_owner_update])]"

text \<open>The enumeration compares and sorts as its strings.\<close>

instantiation permission :: linorder
begin

definition less_eq_permission :: "permission \<Rightarrow> permission \<Rightarrow> bool" where
  "less_eq_permission p q \<longleftrightarrow> permission_value p \<le> permission_value q"

definition less_permission :: "permission \<Rightarrow> permission \<Rightarrow> bool" where
  "less_permission p q \<longleftrightarrow> permission_value p < permission_value q"

instance
proof
  have all: "set all_permissions = UNIV"
  proof (intro set_eqI iffI UNIV_I)
    show "p \<in> set all_permissions" for p by (cases p) (simp_all add: all_permissions_def)
  qed
  have "distinct (map permission_value all_permissions)"
    by (simp add: all_permissions_def)
  then have inj: "inj permission_value" using all by (simp add: distinct_map)
  fix p q r :: permission
  show "p < q \<longleftrightarrow> p \<le> q \<and> \<not> q \<le> p" by (auto simp: less_eq_permission_def less_permission_def)
  show "p \<le> p" by (simp add: less_eq_permission_def)
  show "p \<le> q \<Longrightarrow> q \<le> r \<Longrightarrow> p \<le> r" by (auto simp: less_eq_permission_def)
  show "p \<le> q \<Longrightarrow> q \<le> p \<Longrightarrow> p = q" using injD[OF inj] by (auto simp: less_eq_permission_def)
  show "p \<le> q \<or> q \<le> p" by (auto simp: less_eq_permission_def)
qed

end

section \<open>The table of grants\<close>

text \<open>The surrogate identifier of a row, which no operation reads, is left out.\<close>

record role_permission =
  rp_role_name :: string
  rp_permission :: string
  rp_enabled :: bool
  rp_created_at :: instant

record rbac_db = core_db +
  role_permissions :: "role_permission list"

definition has_permission :: "string \<Rightarrow> string \<Rightarrow> 's rbac_db_scheme \<Rightarrow> bool" where
  "has_permission role_name permission db =
     list_ex (\<lambda>row. rp_role_name row = role_name \<and> rp_permission row = permission \<and> rp_enabled row)
       (role_permissions db)"

definition has_any_permission :: "string list \<Rightarrow> string \<Rightarrow> 's rbac_db_scheme \<Rightarrow> bool" where
  "has_any_permission role_names permission db =
     (if role_names = [] then False
      else list_ex (\<lambda>row. rp_role_name row \<in> set role_names \<and> rp_permission row = permission \<and> rp_enabled row)
             (role_permissions db))"

definition permissions_of :: "string list \<Rightarrow> 's rbac_db_scheme \<Rightarrow> string list" where
  "permissions_of role_names db =
     (if role_names = [] then []
      else sort (remdups (map rp_permission
             (filter (\<lambda>row. rp_role_name row \<in> set role_names \<and> rp_enabled row) (role_permissions db)))))"

definition same_key :: "string \<Rightarrow> string \<Rightarrow> role_permission \<Rightarrow> bool" where
  "same_key role_name permission row \<longleftrightarrow> rp_role_name row = role_name \<and> rp_permission row = permission"

text \<open>An upsert on the unique pair; the row count is 0 if the row has the state already.\<close>

definition set_permission :: "string \<Rightarrow> string \<Rightarrow> bool \<Rightarrow> 's rbac_db_scheme \<Rightarrow> bool \<times> 's rbac_db_scheme" where
  "set_permission role_name permission enabled db =
     (case find (same_key role_name permission) (role_permissions db) of
        None \<Rightarrow>
          (True, db\<lparr>role_permissions := role_permissions db
             @ [\<lparr>rp_role_name = role_name, rp_permission = permission, rp_enabled = enabled, rp_created_at = now db\<rparr>]\<rparr>)
      | Some row \<Rightarrow>
          if rp_enabled row \<noteq> enabled
          then (True, db\<lparr>role_permissions :=
                  update_first (same_key role_name permission) (\<lambda>r. r\<lparr>rp_enabled := enabled\<rparr>) (role_permissions db)\<rparr>)
          else (False, db))"

text \<open>
  \<open>getattr(model, id_field)\<close> of a row that exists and is not soft-deleted, if the model can be.  The column may be null: the
  outer \<open>None\<close> is no row, the inner one a row without an owner.
\<close>

definition get_owner_row ::
    "('k \<rightharpoonup> 'row) \<Rightarrow> ('row \<Rightarrow> uuid option) \<Rightarrow> ('row \<Rightarrow> instant option) option \<Rightarrow> 'k \<Rightarrow> uuid option option" where
  "get_owner_row table id_field deleted_at obj_id =
     (case table obj_id of
        None \<Rightarrow> None
      | Some row \<Rightarrow>
          (case deleted_at of
             None \<Rightarrow> Some (id_field row)
           | Some d \<Rightarrow> if d row = None then Some (id_field row) else None))"

section \<open>Decisions\<close>

record current_user =
  cu_id :: uuid
  cu_account_level :: string
  cu_role :: string
  cu_active_roles :: "string list option"
  cu_email :: "string option"
  cu_phone :: "string option"

definition valid_roles :: "current_user \<Rightarrow> string list" where
  "valid_roles cur =
     (let roles = (case cu_active_roles cur of
                     None \<Rightarrow> [composite_role (cu_account_level cur) (cu_role cur)]
                   | Some rs \<Rightarrow> rs)
      in filter (starts_with (cu_account_level cur @ '':'')) (role_closure roles))"

definition role_has_permission :: "string \<Rightarrow> permission \<Rightarrow> 's rbac_db_scheme \<Rightarrow> bool" where
  "role_has_permission role_name p db = has_permission role_name (permission_value p) db"

definition user_has_permission :: "current_user \<Rightarrow> permission \<Rightarrow> 's rbac_db_scheme \<Rightarrow> bool" where
  "user_has_permission cur p db =
     (let roles = valid_roles cur
      in if length roles = 1 then role_has_permission (hd roles) p db
         else has_any_permission roles (permission_value p) db)"

definition user_permissions :: "current_user \<Rightarrow> 's rbac_db_scheme \<Rightarrow> string list" where
  "user_permissions cur db = permissions_of (valid_roles cur) db"

definition set_role_permission ::
    "string \<Rightarrow> permission \<Rightarrow> bool \<Rightarrow> 's rbac_db_scheme \<Rightarrow> bool \<times> 's rbac_db_scheme" where
  "set_role_permission role_name p enabled db = set_permission role_name (permission_value p) enabled db"

definition check_owner_id :: "current_user \<Rightarrow> uuid option \<Rightarrow> permission \<Rightarrow> 's rbac_db_scheme \<Rightarrow> exc + bool" where
  "check_owner_id cur owner_id p db =
     (if owner_id = Some (cu_id cur) then Inr False
      else if \<not> user_has_permission cur p db then Inl (BizError (CommonErr common_err.FORBIDDEN))
      else Inr True)"

definition check_owner ::
    "current_user \<Rightarrow> 'k \<Rightarrow> ('k \<rightharpoonup> 'row) \<Rightarrow> ('row \<Rightarrow> uuid option) \<Rightarrow> ('row \<Rightarrow> instant option) option \<Rightarrow> permission
      \<Rightarrow> 's rbac_db_scheme \<Rightarrow> exc + bool" where
  "check_owner cur obj_id table id_field deleted_at p db =
     (case get_owner_row table id_field deleted_at obj_id of
        None \<Rightarrow> Inl (BizError (CommonErr common_err.FORBIDDEN))
      | Some owner \<Rightarrow> check_owner_id cur owner p db)"

definition RequirePermission :: "permission \<Rightarrow> current_user \<Rightarrow> 's rbac_db_scheme \<Rightarrow> exc + current_user" where
  "RequirePermission p cur db =
     (if \<not> user_has_permission cur p db then Inl (BizError (CommonErr common_err.FORBIDDEN)) else Inr cur)"

section \<open>The seed\<close>

definition seed_rows :: "(string \<times> string) list" where
  "seed_rows = concat (map (\<lambda>(role_name, grants). map (\<lambda>g. (role_name, permission_value (grant_permission g))) grants)
                 DEFAULT_GRANTS)"

text \<open>\<open>INSERT ... ON CONFLICT DO NOTHING\<close>; the result is the number of rows inserted.\<close>

fun insert_ignore :: "(string \<times> string) list \<Rightarrow> 's rbac_db_scheme \<Rightarrow> nat \<times> 's rbac_db_scheme" where
  "insert_ignore [] db = (0, db)"
| "insert_ignore ((role_name, permission) # ks) db =
     (if list_ex (same_key role_name permission) (role_permissions db) then insert_ignore ks db
      else
        let (n, db) = insert_ignore ks
              (db\<lparr>role_permissions := role_permissions db
                 @ [\<lparr>rp_role_name = role_name, rp_permission = permission, rp_enabled = True, rp_created_at = now db\<rparr>]\<rparr>)
        in (Suc n, db))"

definition seed_rbac :: "'s rbac_db_scheme \<Rightarrow> nat \<times> 's rbac_db_scheme" where
  "seed_rbac db = (if seed_rows = [] then (0, db) else insert_ignore seed_rows db)"

section \<open>What the table grants\<close>

text \<open>The unique constraint, and what a pair is granted: nothing recorded, enabled or revoked.\<close>

definition grant_map :: "role_permission list \<Rightarrow> string \<times> string \<Rightarrow> bool option" where
  "grant_map rows = map_of (map (\<lambda>row. ((rp_role_name row, rp_permission row), rp_enabled row)) rows)"

definition grant_state :: "'s rbac_db_scheme \<Rightarrow> string \<times> string \<Rightarrow> bool option" where
  "grant_state db = grant_map (role_permissions db)"

definition grants_unique :: "'s rbac_db_scheme \<Rightarrow> bool" where
  "grants_unique db \<longleftrightarrow> distinct (map (\<lambda>row. (rp_role_name row, rp_permission row)) (role_permissions db))"

lemma grant_map_simps [simp]:
  "grant_map [] = Map.empty"
  "grant_map (row # rows) = (grant_map rows)((rp_role_name row, rp_permission row) \<mapsto> rp_enabled row)"
  by (simp_all add: grant_map_def)

lemma grant_map_append [simp]: "grant_map (xs @ ys) = grant_map ys ++ grant_map xs"
  by (simp add: grant_map_def)

lemma grant_map_dom: "grant_map rows (r, p) = None \<longleftrightarrow> (r, p) \<notin> (\<lambda>row. (rp_role_name row, rp_permission row)) ` set rows"
  by (induction rows) auto

lemma grant_map_find:
  "find (same_key r p) rows = None \<longleftrightarrow> grant_map rows (r, p) = None"
  "find (same_key r p) rows = Some row \<Longrightarrow> grant_map rows (r, p) = Some (rp_enabled row)"
  "list_ex (same_key r p) rows \<longleftrightarrow> grant_map rows (r, p) \<noteq> None"
  by (induction rows) (auto simp: same_key_def split: if_splits)

lemma grant_map_update:
  "grant_map rows (r, p) \<noteq> None \<Longrightarrow>
     grant_map (update_first (same_key r p) (\<lambda>row. row\<lparr>rp_enabled := b\<rparr>) rows) = (grant_map rows)((r, p) \<mapsto> b)"
  by (induction rows) (auto simp: same_key_def fun_eq_iff)

lemma update_first_keys:
  "map (\<lambda>row. (rp_role_name row, rp_permission row)) (update_first (same_key r p) (\<lambda>row. row\<lparr>rp_enabled := b\<rparr>) rows) =
     map (\<lambda>row. (rp_role_name row, rp_permission row)) rows"
  by (induction rows) auto

lemma has_permission_iff:
  assumes "grants_unique db"
  shows "has_permission r p db \<longleftrightarrow> grant_state db (r, p) = Some True"
proof -
  have "distinct (map fst (map (\<lambda>row. ((rp_role_name row, rp_permission row), rp_enabled row)) (role_permissions db)))"
    using assms by (simp add: grants_unique_def comp_def)
  then have "grant_state db (r, p) = Some True \<longleftrightarrow>
      ((r, p), True) \<in> set (map (\<lambda>row. ((rp_role_name row, rp_permission row), rp_enabled row)) (role_permissions db))"
    unfolding grant_state_def grant_map_def by simp
  then show ?thesis by (auto simp: has_permission_def list_ex_iff)
qed

lemma has_any_permission_iff: "has_any_permission rs p db \<longleftrightarrow> (\<exists>r \<in> set rs. has_permission r p db)"
  by (auto simp: has_any_permission_def has_permission_def list_ex_iff)

lemma set_permission_state:
  assumes "set_permission r p b db = (c, db')"
  shows "grant_state db' = (grant_state db)((r, p) \<mapsto> b) \<and> (c \<longleftrightarrow> grant_state db (r, p) \<noteq> Some b)
    \<and> (grants_unique db \<longrightarrow> grants_unique db')"
proof (cases "find (same_key r p) (role_permissions db)")
  case None
  then have none: "grant_map (role_permissions db) (r, p) = None" by (simp add: grant_map_find)
  have "grants_unique db \<longrightarrow> grants_unique db'"
    using None assms none by (auto simp: set_permission_def grants_unique_def grant_map_dom)
  with None assms none show ?thesis
    by (auto simp: set_permission_def grant_state_def map_add_def fun_eq_iff split: option.splits)
next
  case (Some row)
  note st = grant_map_find(2)[OF Some]
  have "grants_unique db \<longrightarrow> grants_unique db'"
    using Some assms by (auto simp: set_permission_def grants_unique_def update_first_keys split: if_splits)
  with Some assms st show ?thesis
    by (auto simp: set_permission_def grant_state_def grant_map_update fun_eq_iff split: if_splits)
qed

lemma insert_ignore_state:
  "insert_ignore ks db = (n, db') \<Longrightarrow>
     grant_state db' = (\<lambda>k. if k \<in> set ks \<and> grant_state db k = None then Some True else grant_state db k)
     \<and> n = card (set ks - dom (grant_state db)) \<and> (grants_unique db \<longrightarrow> grants_unique db')"
proof (induction ks db arbitrary: n db' rule: insert_ignore.induct)
  case (2 r p ks db)
  let ?new = "db\<lparr>role_permissions := role_permissions db
     @ [\<lparr>rp_role_name = r, rp_permission = p, rp_enabled = True, rp_created_at = now db\<rparr>]\<rparr>"
  have ex: "list_ex (same_key r p) (role_permissions db) \<longleftrightarrow> grant_state db (r, p) \<noteq> None"
    by (simp add: grant_map_find grant_state_def)
  show ?case
  proof (cases "grant_state db (r, p)")
    case None
    then obtain m where m: "insert_ignore ks ?new = (m, db')" "n = Suc m"
      using 2(3) ex by (auto split: prod.splits)
    have new: "grant_state ?new = (grant_state db)((r, p) \<mapsto> True)"
      using None by (auto simp: grant_state_def map_add_def fun_eq_iff split: option.splits)
    have "grants_unique db \<longrightarrow> grants_unique ?new"
      using None by (auto simp: grants_unique_def grant_state_def grant_map_dom)
    moreover have IH: "grant_state db' = (\<lambda>k. if k \<in> set ks \<and> grant_state ?new k = None then Some True else grant_state ?new k)"
      "m = card (set ks - dom (grant_state ?new))" "grants_unique ?new \<longrightarrow> grants_unique db'"
      using 2(2)[OF _ m(1)] None ex by auto
    moreover have "set ((r, p) # ks) - dom (grant_state db) = insert (r, p) (set ks - dom (grant_state ?new))"
      using None new by auto
    then have "card (set ((r, p) # ks) - dom (grant_state db)) = Suc m"
      using IH(2) new by simp
    ultimately show ?thesis using m(2) new None by (auto simp: fun_eq_iff)
  next
    case (Some b)
    then have "insert_ignore ks db = (n, db')" using 2(3) ex by simp
    with 2(1)[OF _ this] Some ex have "grant_state db' = (\<lambda>k. if k \<in> set ks \<and> grant_state db k = None then Some True else grant_state db k)
     \<and> n = card (set ks - dom (grant_state db)) \<and> (grants_unique db \<longrightarrow> grants_unique db')" by auto
    moreover have "set ((r, p) # ks) - dom (grant_state db) = set ks - dom (grant_state db)" using Some by auto
    ultimately show ?thesis using Some by (auto simp: fun_eq_iff)
  qed
qed simp
section \<open>Administration over time\<close>

text \<open>What administrators and starting processes do to the table.\<close>

datatype rbac_op = Set_grant string permission bool | Seed

fun rbac_step :: "rbac_op \<Rightarrow> 's rbac_db_scheme \<Rightarrow> 's rbac_db_scheme" where
  "rbac_step (Set_grant r p b) db = snd (set_role_permission r p b db)"
| "rbac_step Seed db = snd (seed_rbac db)"

definition rbac_run :: "rbac_op list \<Rightarrow> 's rbac_db_scheme \<Rightarrow> 's rbac_db_scheme" where
  "rbac_run ops db = fold rbac_step ops db"

text \<open>The last decision of an administrator on a pair.\<close>

fun last_decision :: "string \<times> string \<Rightarrow> rbac_op list \<Rightarrow> bool option" where
  "last_decision k [] = None"
| "last_decision k (Set_grant r p b # ops) =
     (case last_decision k ops of
        Some c \<Rightarrow> Some c
      | None \<Rightarrow> if k = (r, permission_value p) then Some b else None)"
| "last_decision k (Seed # ops) = last_decision k ops"

lemma seed_rows_nonempty [simp]: "seed_rows \<noteq> []"
  by (simp add: seed_rows_def DEFAULT_GRANTS_def granted_def)

lemma seed_state:
  "grant_state (snd (seed_rbac db)) =
     (\<lambda>k. if k \<in> set seed_rows \<and> grant_state db k = None then Some True else grant_state db k)"
  "grants_unique db \<Longrightarrow> grants_unique (snd (seed_rbac db))"
  "fst (seed_rbac db) = card (set seed_rows - dom (grant_state db))"
  using insert_ignore_state[of seed_rows db "fst (insert_ignore seed_rows db)" "snd (insert_ignore seed_rows db)"]
  by (simp_all add: seed_rbac_def)

lemma set_role_permission_state:
  "grant_state (snd (set_role_permission r p b db)) = (grant_state db)((r, permission_value p) \<mapsto> b)"
  "grants_unique db \<Longrightarrow> grants_unique (snd (set_role_permission r p b db))"
  using set_permission_state[of r "permission_value p" b db "fst (set_permission r (permission_value p) b db)"
      "snd (set_permission r (permission_value p) b db)"]
  by (simp_all add: set_role_permission_def)

lemma rbac_run_unique: "grants_unique db \<Longrightarrow> grants_unique (rbac_run ops db)"
  unfolding rbac_run_def
proof (induction ops arbitrary: db)
  case (Cons op ops)
  then show ?case by (cases op) (simp_all add: seed_state(2) set_role_permission_state(2))
qed simp

lemma rbac_run_state:
  "grant_state (rbac_run ops db) k =
     (case last_decision k ops of
        Some b \<Rightarrow> Some b
      | None \<Rightarrow> if Seed \<in> set ops \<and> k \<in> set seed_rows \<and> grant_state db k = None then Some True else grant_state db k)"
  unfolding rbac_run_def
proof (induction ops arbitrary: db)
  case (Cons op ops)
  show ?case
  proof (cases op)
    case (Set_grant r p b)
    with Cons[of "rbac_step op db"] show ?thesis
      by (auto simp: set_role_permission_state(1) split: option.splits)
  next
    case Seed
    with Cons[of "rbac_step op db"] show ?thesis
      by (auto simp: seed_state(1) split: option.splits)
  qed
qed simp

lemma set_permissions_of: "set (permissions_of rs db) = {p. \<exists>r \<in> set rs. has_permission r p db}"
proof (intro set_eqI iffI)
  fix p assume "p \<in> set (permissions_of rs db)"
  then obtain row where "row \<in> set (role_permissions db)" "rp_role_name row \<in> set rs" "rp_enabled row" "p = rp_permission row"
    by (auto simp: permissions_of_def split: if_splits)
  then show "p \<in> {p. \<exists>r \<in> set rs. has_permission r p db}" by (force simp: has_permission_def list_ex_iff)
qed (auto simp: permissions_of_def has_permission_def list_ex_iff)

section \<open>Properties\<close>

definition member0 :: current_user where
  "member0 = \<lparr>cu_id = 1, cu_account_level = ''normal'', cu_role = ''member'', cu_active_roles = None,
     cu_email = None, cu_phone = None\<rparr>"

text \<open>A table with a grant and a revocation.\<close>

definition rbac_db0 :: rbac_db where
  "rbac_db0 = core_db.extend db0 \<lparr>role_permissions =
     [\<lparr>rp_role_name = ''normal:member'', rp_permission = ''files.download'', rp_enabled = False, rp_created_at = 0\<rparr>,
      \<lparr>rp_role_name = ''normal:member'', rp_permission = ''files.upload'', rp_enabled = True, rp_created_at = 0\<rparr>]\<rparr>"

text \<open>C15: A decision is exactly the table.  A user is granted a permission exactly if an enabled row gives it
  to a role that the active roles (or the primary role, if none are recorded) stand for or inherit, within
  the account level of the session; the list of permissions handed to the front end names exactly the
  permissions that are granted, each once and in order; and an object is opened to its owner, to anyone
  else, or where it has no owner, only by permission, and never if it is missing or deleted.\<close>

theorem permission_decision_exact:
  assumes "grants_unique db"
  shows "(user_has_permission cur p db \<longleftrightarrow>
       (\<exists>r \<in> set (role_closure (case cu_active_roles cur of
                                 None \<Rightarrow> [composite_role (cu_account_level cur) (cu_role cur)] | Some rs \<Rightarrow> rs)).
          starts_with (cu_account_level cur @ '':'') r \<and> grant_state db (r, permission_value p) = Some True))
    \<and> (permission_value p \<in> set (user_permissions cur db) \<longleftrightarrow> user_has_permission cur p db)
    \<and> sorted (user_permissions cur db) \<and> distinct (user_permissions cur db)
    \<and> (check_owner cur i table owner_of deleted p db = Inr False \<longleftrightarrow> get_owner_row table owner_of deleted i = Some (Some (cu_id cur)))
    \<and> (check_owner cur i table owner_of deleted p db = Inr True \<longleftrightarrow>
         user_has_permission cur p db \<and> get_owner_row table owner_of deleted i \<notin> {None, Some (Some (cu_id cur))})"
proof -
  have dec: "user_has_permission cur p db \<longleftrightarrow> (\<exists>r \<in> set (valid_roles cur). has_permission r (permission_value p) db)"
    by (cases "valid_roles cur" rule: list.exhaust[case_product list.exhaust])
      (auto simp: user_has_permission_def Let_def role_has_permission_def has_any_permission_iff length_Suc_conv)
  have "permission_value p \<in> set (user_permissions cur db) \<longleftrightarrow> user_has_permission cur p db"
    unfolding dec user_permissions_def set_permissions_of by simp
  moreover have "sorted (user_permissions cur db) \<and> distinct (user_permissions cur db)"
    by (simp add: user_permissions_def permissions_of_def)
  moreover have "(\<exists>r \<in> set (valid_roles cur). has_permission r (permission_value p) db) \<longleftrightarrow>
       (\<exists>r \<in> set (role_closure (case cu_active_roles cur of
                                 None \<Rightarrow> [composite_role (cu_account_level cur) (cu_role cur)] | Some rs \<Rightarrow> rs)).
          starts_with (cu_account_level cur @ '':'') r \<and> grant_state db (r, permission_value p) = Some True)"
    by (auto simp: has_permission_iff[OF assms] valid_roles_def)
  moreover have "(check_owner cur i table owner_of deleted p db = Inr False \<longleftrightarrow> get_owner_row table owner_of deleted i = Some (Some (cu_id cur)))
    \<and> (check_owner cur i table owner_of deleted p db = Inr True \<longleftrightarrow>
         user_has_permission cur p db \<and> get_owner_row table owner_of deleted i \<notin> {None, Some (Some (cu_id cur))})"
    by (auto simp: check_owner_def check_owner_id_def split: option.splits)
  ultimately show ?thesis using dec by blast
qed

theorem permission_decision_exact_witness:
  "user_has_permission member0 files_upload rbac_db0 \<and> \<not> user_has_permission member0 files_download rbac_db0"
proof -
  have u: "grants_unique rbac_db0" by (simp add: grants_unique_def rbac_db0_def core_db.defs)
  have c: "role_closure [composite_role ''normal'' ''member''] = [''normal:member'']"
    by (simp add: role_closure_def composite_role_def KNOWN_ROLES_def juniors_def ROLE_INHERITANCE_def)
  show ?thesis
    by (simp add: permission_decision_exact[OF u, THEN conjunct1] member0_def c starts_with_def)
      (simp add: rbac_db0_def grant_state_def core_db.defs)
qed

text \<open>C16: Seeding never overrules an administrator.  After any sequence of grants, revocations and seeds a
  pair has the state of the last decision on it; without a decision it keeps the state it had, and only
  a pair the table knows nothing of becomes granted, if a seed ran and the defaults contain it.  A seed
  after a seed inserts nothing.\<close>

theorem seed_respects_decisions:
  "grant_state (rbac_run ops db) k =
     (case last_decision k ops of
        Some b \<Rightarrow> Some b
      | None \<Rightarrow> if Seed \<in> set ops \<and> k \<in> set seed_rows \<and> grant_state db k = None then Some True else grant_state db k)
   \<and> fst (seed_rbac (snd (seed_rbac db))) = 0"
proof -
  have "set seed_rows - dom (grant_state (snd (seed_rbac db))) = {}"
    by (auto simp: seed_state(1))
  then have "fst (seed_rbac (snd (seed_rbac db))) = 0" by (simp only: seed_state(3)) simp
  then show ?thesis using rbac_run_state by blast
qed

end
