(* ===== verification/Actions.thy ===== *)
theory Actions
  imports Errors
begin

text \<open>
  Operations of requests that write through a session: an operation returns a value or an exception
  together with the state it leaves, and what happens to that state after an exception is the decision of
  the session around it.  \<open>kept_relation\<close> is the interface of the relations between states that a whole
  family of operations keeps.
\<close>

section \<open>Operations that may raise\<close>

type_synonym ('s, 'a) act = "'s \<Rightarrow> (exc + 'a) \<times> 's"

definition retA :: "'a \<Rightarrow> ('s, 'a) act" where
  "retA a s = (Inr a, s)"

definition raiseA :: "exc \<Rightarrow> ('s, 'a) act" where
  "raiseA e s = (Inl e, s)"

definition bindA :: "('s, 'a) act \<Rightarrow> ('a \<Rightarrow> ('s, 'b) act) \<Rightarrow> ('s, 'b) act" where
  "bindA m f s = (case m s of (Inl e, s') \<Rightarrow> (Inl e, s') | (Inr a, s') \<Rightarrow> f a s')"

definition seqA :: "('s, unit) act \<Rightarrow> ('s, 'b) act \<Rightarrow> ('s, 'b) act" where
  "seqA m f = bindA m (\<lambda>_. f)"

definition getA :: "('s \<Rightarrow> 'a) \<Rightarrow> ('s, 'a) act" where
  "getA f s = (Inr (f s), s)"

definition modA :: "('s \<Rightarrow> 's) \<Rightarrow> ('s, unit) act" where
  "modA f s = (Inr (), f s)"

definition guardA :: "bool \<Rightarrow> exc \<Rightarrow> ('s, unit) act" where
  "guardA c e s = (if c then Inr () else Inl e, s)"

definition liftA :: "exc + 'a \<Rightarrow> ('s, 'a) act" where
  "liftA r s = (r, s)"

lemma act_simps [simp, res_simps]:
  "retA a s = (Inr a, s)"
  "raiseA e s = (Inl e, s)"
  "getA f s = (Inr (f s), s)"
  "modA g s = (Inr (), g s)"
  "guardA c e s = (if c then Inr () else Inl e, s)"
  "liftA r s = (r, s)"
  "seqA m k s = bindA m (\<lambda>_. k) s"
  by (simp_all add: retA_def raiseA_def getA_def modA_def guardA_def liftA_def seqA_def)

lemma bindA_simps [simp, res_simps]:
  "bindA (retA a) f s = f a s"
  "bindA (raiseA e) f s = (Inl e, s)"
  "bindA (getA g) f s = f (g s) s"
  "bindA (modA h) k s = k () (h s)"
  "bindA (guardA c e) k s = (if c then k () s else (Inl e, s))"
  "bindA (liftA (Inl e)) f s = (Inl e, s)"
  "bindA (liftA (Inr a)) f s = f a s"
  by (simp_all add: bindA_def)

lemma bindA_cases:
  assumes "bindA m f s = (r, s')"
  obtains (raise) e where "m s = (Inl e, s')" "r = Inl e"
    | (return) a t where "m s = (Inr a, t)" "f a t = (r, s')"
  using assms by (auto simp: bindA_def split: prod.splits sum.splits)

lemma bindA_InrE [elim!]:
  assumes "bindA m f s = (Inr b, s')"
  obtains a t where "m s = (Inr a, t)" "f a t = (Inr b, s')"
  using assms by (auto simp: bindA_def split: prod.splits sum.splits)

lemma seqA_InrE:
  assumes "seqA m f s = (Inr b, s')"
  obtains t where "m s = (Inr (), t)" "f t = (Inr b, s')"
  using assms by (auto simp: bindA_def split: prod.splits sum.splits)

section \<open>Relations kept by operations\<close>

text \<open>An operation keeps a relation if every run of it, raising or not, relates the states around it.\<close>

definition act_rel :: "('s \<Rightarrow> 's \<Rightarrow> bool) \<Rightarrow> ('s, 'a) act \<Rightarrow> bool" where
  "act_rel R m \<longleftrightarrow> (\<forall>s r s'. m s = (r, s') \<longrightarrow> R s s')"

lemma act_relI: "(\<And>s. R s (snd (m s))) \<Longrightarrow> act_rel R m"
  unfolding act_rel_def by (metis snd_conv)

lemma act_relD: "act_rel R m \<Longrightarrow> m s = (r, s') \<Longrightarrow> R s s'"
  by (auto simp: act_rel_def)

lemma act_rel_snd: "act_rel R m \<Longrightarrow> R s (snd (m s))"
  by (metis act_relD prod.collapse)

locale kept_relation =
  fixes R :: "'s \<Rightarrow> 's \<Rightarrow> bool"
  assumes refl: "R s s" and trans: "R a b \<Longrightarrow> R b c \<Longrightarrow> R a c"
begin

lemma read: "act_rel R (retA a)" "act_rel R (raiseA e)" "act_rel R (getA g)" "act_rel R (guardA c e)" "act_rel R (liftA r)"
  by (auto intro!: act_relI refl)

lemma mod: "(\<And>s. R s (h s)) \<Longrightarrow> act_rel R (modA h)"
  by (auto intro: act_relI)

lemma bind: "act_rel R m \<Longrightarrow> (\<And>a. act_rel R (f a)) \<Longrightarrow> act_rel R (bindA m f)"
  unfolding act_rel_def
proof (intro allI impI)
  fix s r s' assume m: "\<forall>s r s'. m s = (r, s') \<longrightarrow> R s s'" and f: "\<And>a. \<forall>s r s'. f a s = (r, s') \<longrightarrow> R s s'"
    and run: "bindA m f s = (r, s')"
  from run show "R s s'"
  proof (cases rule: bindA_cases)
    case (raise e)
    with m show ?thesis by blast
  next
    case (return a t)
    with m f trans show ?thesis by blast
  qed
qed

lemma seq: "act_rel R m \<Longrightarrow> act_rel R f \<Longrightarrow> act_rel R (seqA m f)"
  unfolding seqA_def by (rule bind)

lemma cond: "(c \<Longrightarrow> act_rel R m) \<Longrightarrow> (\<not> c \<Longrightarrow> act_rel R n) \<Longrightarrow> act_rel R (if c then m else n)"
  by simp

lemma opt: "act_rel R m \<Longrightarrow> (\<And>x. act_rel R (n x)) \<Longrightarrow> act_rel R (case v of None \<Rightarrow> m | Some x \<Rightarrow> n x)"
  by (cases v) auto

lemma pair: "(\<And>x y. act_rel R (n x y)) \<Longrightarrow> act_rel R (case p of (x, y) \<Rightarrow> n x y)"
  by (cases p) auto

lemmas rules = read mod bind seq cond opt pair

text \<open>The same from states with a property, when the operation before establishes what the next one needs.\<close>

lemma bind_from:
  assumes "P s" and "\<And>s. P s \<Longrightarrow> R s (snd (m s))" and "\<And>s a t. P s \<Longrightarrow> m s = (Inr a, t) \<Longrightarrow> Q a t"
    and "\<And>a t. Q a t \<Longrightarrow> R t (snd (f a t))"
  shows "R s (snd (bindA m f s))"
proof (cases "m s")
  case (Pair r t)
  with assms(1,2) have st: "R s t" by (metis snd_conv)
  show ?thesis
  proof (cases r)
    case (Inl e)
    with st Pair show ?thesis by (simp add: bindA_def)
  next
    case (Inr a)
    with assms(1,3,4) Pair have "R t (snd (f a t))" by metis
    have "snd (bindA m f s) = snd (f a t)" by (simp add: bindA_def Pair Inr)
    then show ?thesis using trans[OF st \<open>R t (snd (f a t))\<close>] by simp
  qed
qed

lemma seq_from:
  assumes "P s" and "\<And>s. P s \<Longrightarrow> R s (snd (m s))" and "\<And>s t. P s \<Longrightarrow> m s = (Inr (), t) \<Longrightarrow> Q t"
    and "\<And>t. Q t \<Longrightarrow> R t (snd (f t))"
  shows "R s (snd (seqA m f s))"
  unfolding seqA_def by (rule bind_from[where P = P and Q = "\<lambda>_. Q"]) (use assms in auto)

end

end
