(* ===== verification/Auth_Store.thy ===== *)
theory Auth_Store
  imports Actions Outbox_Store Rbac_Roles
begin

text \<open>
  The database of the authentication service (\<open>auth/models.py\<close>, \<open>auth/repository.py\<close>), its session
  (\<open>auth/db/session.py\<close>), the events it emits (\<open>auth/events.py\<close>), and the gates on the state of an account
  (\<open>auth/account_state.py\<close>, \<open>auth/admission.py\<close>).
\<close>

section \<open>Tables\<close>

record user =
  u_id :: uuid
  u_username :: string
  u_email :: "string option"
  u_hashed_password :: string
  u_phone :: "string option"
  u_account_level :: string
  u_is_locked :: bool
  u_locked_until :: "instant option"
  u_failed_login_attempts :: int
  u_token_version :: int
  u_admission_status :: string
  u_apply_reason :: "string option"
  u_applied_at :: "instant option"
  u_admission_reviewed_at :: "instant option"
  u_admission_reviewed_by :: "uuid option"
  u_reject_reason :: "string option"
  u_last_rejected_at :: "instant option"
  u_created_at :: instant
  u_updated_at :: instant

record profile =
  pf_user_id :: uuid
  pf_nickname :: "string option"
  pf_avatar :: "string option"
  pf_role :: string
  pf_bio :: "string option"

record user_role =
  ur_user_id :: uuid
  ur_role_name :: string
  ur_created_at :: instant

record refresh_token =
  rt_id :: uuid
  rt_user_id :: uuid
  rt_token_hash :: string
  rt_kind :: string
  rt_mfa_verified :: bool
  rt_mfa_at :: "instant option"
  rt_active_roles :: "string list option"
  rt_expires_at :: instant
  rt_created_at :: instant
  rt_revoked_at :: "instant option"

record revoked_access_token =
  ra_jti :: string
  ra_user_id :: uuid
  ra_expires_at :: instant
  ra_revoked_at :: instant

text \<open>\<open>EmailVerification\<close> and \<open>PhoneVerification\<close> have the same columns.\<close>

record verification =
  vf_id :: uuid
  vf_contact :: string
  vf_code_hash :: string
  vf_purpose :: string
  vf_nonce :: string
  vf_expires_at :: instant
  vf_used :: bool
  vf_failed_attempts :: int
  vf_created_at :: instant

record magic_link =
  ml_id :: uuid
  ml_email :: string
  ml_token_hash :: string
  ml_purpose :: string
  ml_expires_at :: instant
  ml_used :: bool
  ml_created_at :: instant

record totp =
  tp_user_id :: uuid
  tp_enabled :: bool
  tp_failed_attempts :: int
  tp_last_counter :: "int option"

record pending_registration =
  pr_id :: uuid
  pr_txn_id :: string
  pr_username :: string
  pr_hashed_password :: string
  pr_email :: "string option"
  pr_phone :: "string option"
  pr_apply_reason :: "string option"
  pr_consumed :: bool
  pr_expires_at :: instant
  pr_created_at :: instant

record audit_log =
  al_user_id :: "uuid option"
  al_action :: string
  al_created_at :: instant

text \<open>\<open>secrets\<close> and \<open>rnds\<close> are what \<open>secrets.token_hex\<close> and \<open>secrets.randbelow\<close> will return.\<close>

record auth_db = core_db +
  secrets :: "nat \<Rightarrow> string"
  secret_ix :: nat
  rnds :: "nat \<Rightarrow> nat"
  rnd_ix :: nat
  users :: "user list"
  profiles :: "profile list"
  user_roles :: "user_role list"
  refresh_tokens :: "refresh_token list"
  revoked_access_tokens :: "revoked_access_token list"
  email_verifications :: "verification list"
  phone_verifications :: "verification list"
  magic_links :: "magic_link list"
  totps :: "totp list"
  pending_registrations :: "pending_registration list"
  audit_logs :: "audit_log list"

section \<open>The session\<close>

text \<open>
  \<open>get_auth_session\<close> commits when the request returns and rolls the authentication database back when it
  raises.  The outbox is in another database and written by sessions of its own, so it stays, as do the
  identifiers and secrets already drawn.
\<close>

definition roll_back :: "'s auth_db_scheme \<Rightarrow> 's auth_db_scheme \<Rightarrow> 's auth_db_scheme" where
  "roll_back before s = s\<lparr>users := users before, profiles := profiles before, user_roles := user_roles before,
     refresh_tokens := refresh_tokens before, revoked_access_tokens := revoked_access_tokens before,
     email_verifications := email_verifications before, phone_verifications := phone_verifications before,
     magic_links := magic_links before, totps := totps before,
     pending_registrations := pending_registrations before, audit_logs := audit_logs before\<rparr>"

definition get_auth_session ::
    "(string \<times> errcode) list \<Rightarrow> ('s auth_db_scheme, 'a) act \<Rightarrow> ('s auth_db_scheme, 'a) act" where
  "get_auth_session reg work s =
     (case work s of
        (Inr a, s') \<Rightarrow> (Inr a, s')
      | (Inl e, s') \<Rightarrow> (Inl (session_exc reg e), roll_back s s'))"

section \<open>Events\<close>

text \<open>A session of the business database of its own; an exception is logged and swallowed.\<close>

definition enqueue_committed :: "string \<Rightarrow> payload \<Rightarrow> 's core_db_scheme \<Rightarrow> 's core_db_scheme" where
  "enqueue_committed routing_key payload s =
     (if \<not> message_bus_enabled s then s
      else (case enqueue_outbox routing_key payload None False s of Inl _ \<Rightarrow> s | Inr (_, s') \<Rightarrow> s'))"

definition EVENT_FN :: string where "EVENT_FN = ''invalidate_user_snap''"
definition AUDIT_FN :: string where "AUDIT_FN = ''record_audit_event''"

definition notify_user_updated :: "uuid \<Rightarrow> 's core_db_scheme \<Rightarrow> 's core_db_scheme" where
  "notify_user_updated user_id =
     enqueue_committed RKEY_USER_UPDATED [(''fn'', JStr EVENT_FN), (''args'', JList [JUuid user_id])]"

definition notify_user_session_revoke :: "uuid \<Rightarrow> 's core_db_scheme \<Rightarrow> 's core_db_scheme" where
  "notify_user_session_revoke user_id =
     enqueue_committed RKEY_USER_SESSION_REVOKE [(''fn'', JStr EVENT_FN), (''args'', JList [JUuid user_id])]"

definition notify_user_banned :: "uuid \<Rightarrow> 's core_db_scheme \<Rightarrow> 's core_db_scheme" where
  "notify_user_banned user_id =
     enqueue_committed RKEY_USER_BANNED [(''fn'', JStr EVENT_FN), (''args'', JList [JUuid user_id])]"

definition notify_audit_permission_change :: "uuid \<Rightarrow> string \<Rightarrow> 's core_db_scheme \<Rightarrow> 's core_db_scheme" where
  "notify_audit_permission_change user_id detail =
     enqueue_committed RKEY_AUDIT_PERMISSION_CHANGE
       [(''fn'', JStr AUDIT_FN),
        (''args'', JList [JStr (uuid_str user_id), JStr RKEY_AUDIT_PERMISSION_CHANGE, JStr detail])]"

definition notify_audit_login_fail ::
    "uuid option \<Rightarrow> string \<Rightarrow> string \<Rightarrow> 's core_db_scheme \<Rightarrow> 's core_db_scheme" where
  "notify_audit_login_fail user_id reason ip_address =
     (let detail = if ip_address \<noteq> [] then reason @ '' ip='' @ ip_address else reason
      in enqueue_committed RKEY_AUDIT_LOGIN_FAIL
           [(''fn'', JStr AUDIT_FN),
            (''args'', JList [case user_id of None \<Rightarrow> JNull | Some u \<Rightarrow> JStr (uuid_str u),
                              JStr RKEY_AUDIT_LOGIN_FAIL, JStr detail])])"

section \<open>Reading users\<close>

definition get_user :: "uuid \<Rightarrow> 's auth_db_scheme \<Rightarrow> user option" where
  "get_user user_id s = find (\<lambda>u. u_id u = user_id) (users s)"

definition get_profile :: "uuid \<Rightarrow> 's auth_db_scheme \<Rightarrow> profile option" where
  "get_profile user_id s = find (\<lambda>p. pf_user_id p = user_id) (profiles s)"

text \<open>\<open>profile.role if profile else "member"\<close>\<close>

definition role_of :: "uuid \<Rightarrow> 's auth_db_scheme \<Rightarrow> string" where
  "role_of user_id s = (case get_profile user_id s of None \<Rightarrow> ''member'' | Some p \<Rightarrow> pf_role p)"

definition get_level_and_role :: "uuid \<Rightarrow> 's auth_db_scheme \<Rightarrow> (string \<times> string option) option" where
  "get_level_and_role user_id s =
     map_option (\<lambda>u. (u_account_level u, map_option pf_role (get_profile user_id s))) (get_user user_id s)"

text \<open>\<open>role or "member"\<close>\<close>

definition or_member :: "string option \<Rightarrow> string" where
  "or_member r = (case r of None \<Rightarrow> ''member'' | Some x \<Rightarrow> if x = [] then ''member'' else x)"

definition list_roles :: "uuid \<Rightarrow> 's auth_db_scheme \<Rightarrow> string list" where
  "list_roles user_id s = map ur_role_name (filter (\<lambda>r. ur_user_id r = user_id) (user_roles s))"

definition find_by_identity :: "string \<Rightarrow> string option \<Rightarrow> string option \<Rightarrow> 's auth_db_scheme \<Rightarrow> user option" where
  "find_by_identity username email phone s =
     find (\<lambda>u. u_username u = username
             \<or> (email \<noteq> None \<and> email \<noteq> Some [] \<and> u_email u = email)
             \<or> (phone \<noteq> None \<and> phone \<noteq> Some [] \<and> u_phone u = phone)) (users s)"

definition get_by_username :: "string \<Rightarrow> 's auth_db_scheme \<Rightarrow> user option" where
  "get_by_username username s = find (\<lambda>u. u_username u = username) (users s)"

definition get_by_email :: "string \<Rightarrow> 's auth_db_scheme \<Rightarrow> user option" where
  "get_by_email email s = find (\<lambda>u. u_email u = Some email) (users s)"

definition username_exists :: "'s auth_db_scheme \<Rightarrow> string \<Rightarrow> bool" where
  "username_exists s username = list_ex (\<lambda>u. u_username u = username) (users s)"

section \<open>Writing users\<close>

text \<open>An \<open>UPDATE\<close> sets \<open>updated_at\<close> on every row it touches.\<close>

definition update_user :: "uuid \<Rightarrow> (user \<Rightarrow> user) \<Rightarrow> 's auth_db_scheme \<Rightarrow> 's auth_db_scheme" where
  "update_user user_id f s =
     s\<lparr>users := map (\<lambda>u. if u_id u = user_id then (f u)\<lparr>u_updated_at := now s\<rparr> else u) (users s)\<rparr>"

text \<open>Attributes assigned on a loaded row are written by the next flush, if any of them has changed.\<close>

definition assign_user :: "uuid \<Rightarrow> (user \<Rightarrow> user) \<Rightarrow> 's auth_db_scheme \<Rightarrow> 's auth_db_scheme" where
  "assign_user user_id f s =
     s\<lparr>users := map (\<lambda>u. if u_id u = user_id \<and> f u \<noteq> u then (f u)\<lparr>u_updated_at := now s\<rparr> else u) (users s)\<rparr>"

text \<open>The unique columns; a null is equal to nothing.\<close>

definition user_conflict :: "user \<Rightarrow> user \<Rightarrow> string option" where
  "user_conflict u v =
     (if u_username v = u_username u then Some ''users_username_key''
      else if u_email v \<noteq> None \<and> u_email v = u_email u then Some ''users_email_key''
      else if u_phone v \<noteq> None \<and> u_phone v = u_phone u then Some ''users_phone_key''
      else None)"

definition unique_user :: "user \<Rightarrow> 's auth_db_scheme \<Rightarrow> exc + unit" where
  "unique_user u s =
     (case find (\<lambda>v. u_id v \<noteq> u_id u \<and> user_conflict u v \<noteq> None) (users s) of
        None \<Rightarrow> Inr ()
      | Some v \<Rightarrow> Inl (IntegrityError True (user_conflict u v)))"

definition insert_user :: "user \<Rightarrow> ('s auth_db_scheme, unit) act" where
  "insert_user u s =
     (if get_user (u_id u) s \<noteq> None then (Inl (IntegrityError True (Some ''users_pkey'')), s)
      else (case unique_user u s of
              Inl e \<Rightarrow> (Inl e, s)
            | Inr _ \<Rightarrow> (Inr (), s\<lparr>users := users s @ [u]\<rparr>)))"

definition set_account_level :: "uuid \<Rightarrow> string \<Rightarrow> 's auth_db_scheme \<Rightarrow> 's auth_db_scheme" where
  "set_account_level user_id level = update_user user_id (\<lambda>u. u\<lparr>u_account_level := level\<rparr>)"

definition set_role :: "uuid \<Rightarrow> string \<Rightarrow> 's auth_db_scheme \<Rightarrow> 's auth_db_scheme" where
  "set_role user_id role s =
     s\<lparr>profiles := map (\<lambda>p. if pf_user_id p = user_id then p\<lparr>pf_role := role\<rparr> else p) (profiles s)\<rparr>"

definition bump_token_version :: "uuid \<Rightarrow> 's auth_db_scheme \<Rightarrow> 's auth_db_scheme" where
  "bump_token_version user_id = update_user user_id (\<lambda>u. u\<lparr>u_token_version := u_token_version u + 1\<rparr>)"

definition failed_login :: "uuid \<Rightarrow> int \<Rightarrow> int \<Rightarrow> 's auth_db_scheme \<Rightarrow> 's auth_db_scheme" where
  "failed_login user_id threshold lock_minutes s =
     update_user user_id (\<lambda>u. u\<lparr>u_failed_login_attempts := u_failed_login_attempts u + 1,
       u_is_locked := threshold - 1 \<le> u_failed_login_attempts u,
       u_locked_until := if threshold - 1 \<le> u_failed_login_attempts u then Some (now s + minutes lock_minutes)
                         else u_locked_until u\<rparr>) s"

definition reset_login_failures :: "uuid \<Rightarrow> 's auth_db_scheme \<Rightarrow> 's auth_db_scheme" where
  "reset_login_failures user_id =
     update_user user_id (\<lambda>u. u\<lparr>u_failed_login_attempts := 0, u_is_locked := False, u_locked_until := None\<rparr>)"

definition add_role :: "uuid \<Rightarrow> string \<Rightarrow> 's auth_db_scheme \<Rightarrow> bool \<times> 's auth_db_scheme" where
  "add_role user_id role_name s =
     (if list_ex (\<lambda>r. ur_user_id r = user_id \<and> ur_role_name r = role_name) (user_roles s) then (False, s)
      else (True, s\<lparr>user_roles := user_roles s
              @ [\<lparr>ur_user_id = user_id, ur_role_name = role_name, ur_created_at = now s\<rparr>]\<rparr>))"

definition remove_role :: "uuid \<Rightarrow> string \<Rightarrow> 's auth_db_scheme \<Rightarrow> bool \<times> 's auth_db_scheme" where
  "remove_role user_id role_name s =
     (list_ex (\<lambda>r. ur_user_id r = user_id \<and> ur_role_name r = role_name) (user_roles s),
      s\<lparr>user_roles := filter (\<lambda>r. \<not> (ur_user_id r = user_id \<and> ur_role_name r = role_name)) (user_roles s)\<rparr>)"

definition revoke_all_for_user :: "uuid \<Rightarrow> instant \<Rightarrow> 's auth_db_scheme \<Rightarrow> 's auth_db_scheme" where
  "revoke_all_for_user user_id at s =
     s\<lparr>refresh_tokens := map (\<lambda>t. if rt_user_id t = user_id \<and> rt_revoked_at t = None
                                  then t\<lparr>rt_revoked_at := Some at\<rparr> else t) (refresh_tokens s)\<rparr>"

definition revoke_jti :: "string \<Rightarrow> uuid \<Rightarrow> instant \<Rightarrow> 's auth_db_scheme \<Rightarrow> 's auth_db_scheme" where
  "revoke_jti jti user_id expires s =
     (if list_ex (\<lambda>r. ra_jti r = jti) (revoked_access_tokens s) then s
      else s\<lparr>revoked_access_tokens := revoked_access_tokens s
             @ [\<lparr>ra_jti = jti, ra_user_id = user_id, ra_expires_at = expires, ra_revoked_at = now s\<rparr>]\<rparr>)"

definition is_revoked :: "string \<Rightarrow> 's auth_db_scheme \<Rightarrow> bool" where
  "is_revoked jti s = list_ex (\<lambda>r. ra_jti r = jti) (revoked_access_tokens s)"

definition log_audit :: "uuid option \<Rightarrow> string \<Rightarrow> 's auth_db_scheme \<Rightarrow> 's auth_db_scheme" where
  "log_audit user_id action s =
     s\<lparr>audit_logs := audit_logs s @ [\<lparr>al_user_id = user_id, al_action = action, al_created_at = now s\<rparr>]\<rparr>"

section \<open>The state of an account\<close>

definition lock_is_active :: "user \<Rightarrow> instant \<Rightarrow> bool" where
  "lock_is_active u t =
     (if \<not> u_is_locked u then False
      else (case u_locked_until u of None \<Rightarrow> True | Some until \<Rightarrow> t < until))"

definition clear_expired_lock :: "instant \<Rightarrow> user \<Rightarrow> user" where
  "clear_expired_lock t u =
     (if \<not> u_is_locked u then u
      else (case u_locked_until u of
              None \<Rightarrow> u
            | Some until \<Rightarrow> if t < until then u
                else u\<lparr>u_is_locked := False, u_locked_until := None, u_failed_login_attempts := 0\<rparr>))"

definition ACTIVE :: string where "ACTIVE = ''active''"
definition PENDING :: string where "PENDING = ''pending''"
definition REJECTED :: string where "REJECTED = ''rejected''"

definition VALID_STATUSES :: "string list" where
  "VALID_STATUSES = [ACTIVE, PENDING, REJECTED]"

definition admission_status_of :: "user \<Rightarrow> string" where
  "admission_status_of u = (if u_admission_status u = [] then ACTIVE else u_admission_status u)"

definition admission_is_active :: "user \<Rightarrow> bool" where
  "admission_is_active u \<longleftrightarrow> admission_status_of u = ACTIVE"

definition assert_admission_allowed :: "user \<Rightarrow> exc + unit" where
  "assert_admission_allowed u =
     (let status = admission_status_of u
      in if status = PENDING then Inl (BizError (AuthErr ADMISSION_PENDING))
         else if status = REJECTED then Inl (BizError (AuthErr ADMISSION_REJECTED))
         else Inr ())"

text \<open>The gate before every login; it unlocks an account whose lock has run out.\<close>

definition check_account_locked :: "uuid \<Rightarrow> ('s auth_db_scheme, unit) act" where
  "check_account_locked user_id s =
     (case get_user user_id s of
        None \<Rightarrow> (Inr (), s)
      | Some u \<Rightarrow>
          if \<not> u_is_locked u then (Inr (), s)
          else if lock_is_active u (now s) then (Inl (BizError (AuthErr INVALID_CREDENTIALS)), s)
          else (Inr (), assign_user user_id (clear_expired_lock (now s)) s))"

section \<open>Frames\<close>

text \<open>Events are queued in the other database: the tables here stay as they are, and so does the clock.\<close>

lemma more_eq_auth:
  assumes "core_db.more s' = core_db.more s"
  shows "users s' = users s" "profiles s' = profiles s" "user_roles s' = user_roles s"
    "refresh_tokens s' = refresh_tokens s" "revoked_access_tokens s' = revoked_access_tokens s"
    "email_verifications s' = email_verifications s" "phone_verifications s' = phone_verifications s"
    "magic_links s' = magic_links s" "totps s' = totps s" "pending_registrations s' = pending_registrations s"
    "audit_logs s' = audit_logs s" "secrets s' = secrets s" "secret_ix s' = secret_ix s"
  using assms by (cases s, cases s', simp)+

lemma enqueue_committed_frame [simp]:
  "core_db.more (enqueue_committed rk p s) = core_db.more s" "now (enqueue_committed rk p s) = now s"
  by (auto simp: enqueue_committed_def enqueue_outbox_more split: sum.splits prod.splits)

lemmas notify_defs = notify_user_updated_def notify_user_session_revoke_def notify_user_banned_def
  notify_audit_permission_change_def notify_audit_login_fail_def

lemma notify_frame [simp]:
  "core_db.more (notify_user_updated u s) = core_db.more s" "now (notify_user_updated u s) = now s"
  "core_db.more (notify_user_session_revoke u s) = core_db.more s" "now (notify_user_session_revoke u s) = now s"
  "core_db.more (notify_user_banned u s) = core_db.more s" "now (notify_user_banned u s) = now s"
  "core_db.more (notify_audit_permission_change u d s) = core_db.more s" "now (notify_audit_permission_change u d s) = now s"
  "core_db.more (notify_audit_login_fail v d ip s) = core_db.more s" "now (notify_audit_login_fail v d ip s) = now s"
  by (simp_all add: notify_defs Let_def)

lemmas notify_tables [simp] =
  more_eq_auth[OF notify_frame(1)] more_eq_auth[OF notify_frame(3)] more_eq_auth[OF notify_frame(5)]
  more_eq_auth[OF notify_frame(7)] more_eq_auth[OF notify_frame(9)]

text \<open>What a request that raised leaves: the tables of the start, whatever was queued meanwhile.\<close>

definition same_auth :: "'s auth_db_scheme \<Rightarrow> 's auth_db_scheme \<Rightarrow> bool" where
  "same_auth s s' \<longleftrightarrow> users s' = users s \<and> profiles s' = profiles s \<and> user_roles s' = user_roles s
     \<and> refresh_tokens s' = refresh_tokens s \<and> revoked_access_tokens s' = revoked_access_tokens s
     \<and> email_verifications s' = email_verifications s \<and> phone_verifications s' = phone_verifications s
     \<and> magic_links s' = magic_links s \<and> totps s' = totps s
     \<and> pending_registrations s' = pending_registrations s \<and> audit_logs s' = audit_logs s"

lemma same_auth_refl [simp]: "same_auth s s" by (simp add: same_auth_def)

lemma same_auth_trans [trans]: "same_auth a b \<Longrightarrow> same_auth b c \<Longrightarrow> same_auth a c"
  by (simp add: same_auth_def)

lemma request_raises:
  "get_auth_session reg work s = (Inl e, s') \<Longrightarrow> same_auth s s'"
  by (auto simp: get_auth_session_def roll_back_def same_auth_def split: prod.splits sum.splits)

lemma request_returns:
  "get_auth_session reg work s = (Inr a, s') \<longleftrightarrow> work s = (Inr a, s')"
  by (auto simp: get_auth_session_def split: prod.splits sum.splits)

section \<open>Users after a write\<close>

lemma find_user_map:
  assumes "\<And>u. u_id (f u) = u_id u"
  shows "find (\<lambda>u. u_id u = j) (map (\<lambda>u. if u_id u = i then f u else u) us) =
    map_option (\<lambda>u. if j = i then f u else u) (find (\<lambda>u. u_id u = j) us)"
  by (induction us) (auto simp: assms)

lemma get_user_id: "get_user i s = Some u \<Longrightarrow> u_id u = i"
  by (auto simp: get_user_def find_Some_iff)

lemma get_user_update:
  assumes "\<And>u. u_id (f u) = u_id u"
  shows "get_user j (update_user i f s) =
    map_option (\<lambda>u. if j = i then (f u)\<lparr>u_updated_at := now s\<rparr> else u) (get_user j s)"
  using find_user_map[of "\<lambda>u. (f u)\<lparr>u_updated_at := now s\<rparr>" j i "users s"] by (simp add: assms get_user_def update_user_def)

lemma get_user_assign:
  assumes "\<And>u. u_id (f u) = u_id u"
  shows "get_user j (assign_user i f s) =
    map_option (\<lambda>u. if j = i \<and> f u \<noteq> u then (f u)\<lparr>u_updated_at := now s\<rparr> else u) (get_user j s)"
proof -
  let ?g = "\<lambda>u. if f u \<noteq> u then (f u)\<lparr>u_updated_at := now s\<rparr> else u"
  have "(\<lambda>u. if u_id u = i \<and> f u \<noteq> u then (f u)\<lparr>u_updated_at := now s\<rparr> else u) = (\<lambda>u. if u_id u = i then ?g u else u)"
    by auto
  then show ?thesis
    using find_user_map[of ?g j i "users s"]
    by (cases "find (\<lambda>u. u_id u = j) (users s)") (auto simp: assms get_user_def assign_user_def)
qed

lemma update_user_frame [simp]:
  "profiles (update_user i f s) = profiles s" "user_roles (update_user i f s) = user_roles s"
  "refresh_tokens (update_user i f s) = refresh_tokens s" "now (update_user i f s) = now s"
  "revoked_access_tokens (update_user i f s) = revoked_access_tokens s" "totps (update_user i f s) = totps s"
  "audit_logs (update_user i f s) = audit_logs s" "secrets (update_user i f s) = secrets s"
  "secret_ix (update_user i f s) = secret_ix s"
  by (simp_all add: update_user_def)

lemma assign_user_frame [simp]:
  "profiles (assign_user i f s) = profiles s" "user_roles (assign_user i f s) = user_roles s"
  "refresh_tokens (assign_user i f s) = refresh_tokens s" "now (assign_user i f s) = now s"
  "revoked_access_tokens (assign_user i f s) = revoked_access_tokens s" "totps (assign_user i f s) = totps s"
  "audit_logs (assign_user i f s) = audit_logs s" "secrets (assign_user i f s) = secrets s"
  "secret_ix (assign_user i f s) = secret_ix s"
  by (simp_all add: assign_user_def)

lemma log_audit_frame [simp]:
  "users (log_audit u a s) = users s" "profiles (log_audit u a s) = profiles s" "user_roles (log_audit u a s) = user_roles s"
  "refresh_tokens (log_audit u a s) = refresh_tokens s" "now (log_audit u a s) = now s"
  "revoked_access_tokens (log_audit u a s) = revoked_access_tokens s" "totps (log_audit u a s) = totps s"
  "secrets (log_audit u a s) = secrets s" "secret_ix (log_audit u a s) = secret_ix s"
  by (simp_all add: log_audit_def)

end
