(* ===== verification/Auth_Sessions.thy ===== *)
theory Auth_Sessions
  imports Auth_Store
begin

text \<open>
  Accounts and sessions (\<open>auth/service_auth.py\<close>, \<open>auth/service_verify.py\<close>, \<open>auth/channels.py\<close>,
  \<open>auth/security.py\<close>, \<open>core/throttle.py\<close>): passwords and codes, tokens and their rotation, registration and
  the ways to log in.
\<close>

section \<open>Configuration and primitives\<close>

text \<open>
  The settings, and the functions of the libraries: SHA-256, the keyed hash of codes (with its pepper),
  Argon2 (the first argument of \<open>ph_hash\<close> is the salt) and the rate limiter on Redis, if there is one.
\<close>

record auth_config =
  access_token_expire_minutes :: int
  refresh_token_expire_days :: int
  admission_mode :: string
  SSD_CONSTRAINTS :: "separation_constraint list"
  DSD_CONSTRAINTS :: "separation_constraint list"
  redis_configured :: bool
  limiter_check :: "string \<Rightarrow> int \<Rightarrow> int \<Rightarrow> bool"
  login_ip_max_per_min :: int
  login_global_max_per_min :: int
  login_window_seconds :: int
  sha256 :: "string \<Rightarrow> string"
  code_hmac :: "string \<Rightarrow> string"
  ph_hash :: "nat \<Rightarrow> string \<Rightarrow> string"
  ph_verify :: "string \<Rightarrow> string \<Rightarrow> bool"

definition PASSWORD_MAX_LENGTH :: nat where "PASSWORD_MAX_LENGTH = 1024"

definition fresh_secret :: "'s auth_db_scheme \<Rightarrow> string \<times> 's auth_db_scheme" where
  "fresh_secret s = (secrets s (secret_ix s), s\<lparr>secret_ix := Suc (secret_ix s)\<rparr>)"

definition fresh_rnd :: "'s auth_db_scheme \<Rightarrow> nat \<times> 's auth_db_scheme" where
  "fresh_rnd s = (rnds s (rnd_ix s), s\<lparr>rnd_ix := Suc (rnd_ix s)\<rparr>)"

definition hashpwd :: "auth_config \<Rightarrow> string \<Rightarrow> ('s auth_db_scheme, string) act" where
  "hashpwd cf raw s =
     (if PASSWORD_MAX_LENGTH < length raw then (Inl ValueError, s)
      else let (salt, s) = fresh_rnd s in (Inr (ph_hash cf salt raw), s))"

definition verifypwd :: "auth_config \<Rightarrow> string \<Rightarrow> string \<Rightarrow> bool" where
  "verifypwd cf raw stored = (if PASSWORD_MAX_LENGTH < length raw then False else ph_verify cf stored raw)"

section \<open>Rate limits\<close>

definition check_password_login_rate_limit :: "auth_config \<Rightarrow> string \<Rightarrow> exc + unit" where
  "check_password_login_rate_limit cf ip_address =
     (if \<not> redis_configured cf then Inr ()
      else if ip_address \<noteq> []
           \<and> \<not> limiter_check cf (''ip:'' @ ip_address) (login_ip_max_per_min cf) (login_window_seconds cf)
        then Inl (BizError (AuthErr ACCOUNT_LOCKED))
      else if \<not> limiter_check cf ''__global__'' (login_global_max_per_min cf) (login_window_seconds cf)
        then Inl (BizError (AuthErr ACCOUNT_LOCKED))
      else Inr ())"

definition check_code_rate_limit :: "auth_config \<Rightarrow> string \<Rightarrow> int \<Rightarrow> int \<Rightarrow> exc + unit" where
  "check_code_rate_limit cf key max_count window =
     (if \<not> redis_configured cf then Inr ()
      else if \<not> limiter_check cf key max_count window then Inl (BizError (AuthErr VERIFICATION_CODE_RATE_LIMIT))
      else Inr ())"

section \<open>Verification codes\<close>

definition CODE_EXPIRE_MINUTES :: int where "CODE_EXPIRE_MINUTES = 10"
definition MAX_FAILED_ATTEMPTS :: int where "MAX_FAILED_ATTEMPTS = 3"

datatype channel = Email | Phone

fun channel_name :: "channel \<Rightarrow> string" where
  "channel_name Email = ''email''"
| "channel_name Phone = ''phone''"

fun verifications :: "channel \<Rightarrow> 's auth_db_scheme \<Rightarrow> verification list" where
  "verifications Email s = email_verifications s"
| "verifications Phone s = phone_verifications s"

fun set_verifications :: "channel \<Rightarrow> verification list \<Rightarrow> 's auth_db_scheme \<Rightarrow> 's auth_db_scheme" where
  "set_verifications Email vs s = s\<lparr>email_verifications := vs\<rparr>"
| "set_verifications Phone vs s = s\<lparr>phone_verifications := vs\<rparr>"

definition detect :: "string \<Rightarrow> exc + channel" where
  "detect contact =
     (if contact = [] \<or> py_strip contact = [] then Inl (BizError (CommonErr INVALID_INPUT))
      else Inr (if CHR ''@'' \<in> set contact then Email else Phone))"

definition normalize :: "channel \<Rightarrow> string \<Rightarrow> string" where
  "normalize c v = py_strip v"

fun username_from :: "channel \<Rightarrow> string \<Rightarrow> string" where
  "username_from Email v = takeWhile (\<lambda>c. c \<noteq> CHR ''@'') v"
| "username_from Phone v = ''user_'' @ drop (length v - 6) v"

fun find_user :: "channel \<Rightarrow> string \<Rightarrow> 's auth_db_scheme \<Rightarrow> user option" where
  "find_user Email v s = find (\<lambda>u. u_email u = Some v) (users s)"
| "find_user Phone v s = find (\<lambda>u. u_phone u = Some v) (users s)"

definition generate_code :: "'s auth_db_scheme \<Rightarrow> string \<times> 's auth_db_scheme" where
  "generate_code s = (let (n, s) = fresh_rnd s in (zero_padded 6 (n mod 1000000), s))"

definition hash_code :: "auth_config \<Rightarrow> string \<Rightarrow> string \<Rightarrow> string \<Rightarrow> string \<Rightarrow> string" where
  "hash_code cf raw purpose contact nonce = code_hmac cf (raw @ '':'' @ purpose @ '':'' @ contact @ '':'' @ nonce)"

definition create_verification ::
    "auth_config \<Rightarrow> channel \<Rightarrow> string \<Rightarrow> string \<Rightarrow> 's auth_db_scheme \<Rightarrow> (string \<times> uuid) \<times> 's auth_db_scheme" where
  "create_verification cf c contact purpose s =
     (let (code, s) = generate_code s;
          (nonce, s) = fresh_secret s;
          (i, s) = fresh_pk s;
          record = \<lparr>vf_id = i, vf_contact = contact, vf_code_hash = hash_code cf code purpose contact nonce,
                    vf_purpose = purpose, vf_nonce = nonce,
                    vf_expires_at = now s + minutes CODE_EXPIRE_MINUTES, vf_used = False,
                    vf_failed_attempts = 0, vf_created_at = now s\<rparr>
      in ((code, i), set_verifications c (verifications c s @ [record]) s))"

text \<open>The unused record created last: \<open>ORDER BY created_at DESC\<close>, the first row.\<close>

fun newest :: "verification list \<Rightarrow> verification option" where
  "newest [] = None"
| "newest (v # vs) =
     (case newest vs of
        None \<Rightarrow> Some v
      | Some w \<Rightarrow> if vf_created_at v < vf_created_at w then Some w else Some v)"

definition latest :: "channel \<Rightarrow> string \<Rightarrow> string \<Rightarrow> 's auth_db_scheme \<Rightarrow> verification option" where
  "latest c contact purpose s =
     newest (filter (\<lambda>v. vf_contact v = contact \<and> vf_purpose v = purpose \<and> \<not> vf_used v) (verifications c s))"

definition update_verification ::
    "channel \<Rightarrow> (verification \<Rightarrow> bool) \<Rightarrow> (verification \<Rightarrow> verification) \<Rightarrow> 's auth_db_scheme \<Rightarrow> nat \<times> 's auth_db_scheme" where
  "update_verification c P f s =
     (length (filter P (verifications c s)),
      set_verifications c (map (\<lambda>v. if P v then f v else v) (verifications c s)) s)"

definition consume :: "auth_config \<Rightarrow> channel \<Rightarrow> verification option \<Rightarrow> string \<Rightarrow> ('s auth_db_scheme, bool) act" where
  "consume cf c record code s =
     (case record of
        None \<Rightarrow> (Inl (BizError (AuthErr VERIFICATION_CODE_INVALID)), s)
      | Some r \<Rightarrow>
          if vf_expires_at r \<le> now s then (Inl (BizError (AuthErr VERIFICATION_CODE_EXPIRED)), s)
          else if MAX_FAILED_ATTEMPTS \<le> vf_failed_attempts r
            then (Inl (BizError (AuthErr VERIFICATION_CODE_INVALID)), s)
          else if vf_code_hash r \<noteq> hash_code cf code (vf_purpose r) (vf_contact r) (vf_nonce r)
            then (Inl (BizError (AuthErr VERIFICATION_CODE_INVALID)),
                  snd (update_verification c (\<lambda>v. vf_id v = vf_id r)
                         (\<lambda>v. v\<lparr>vf_failed_attempts := vf_failed_attempts v + 1\<rparr>) s))
          else
            let (n, s) = update_verification c
                  (\<lambda>v. vf_id v = vf_id r \<and> \<not> vf_used v \<and> vf_failed_attempts v < MAX_FAILED_ATTEMPTS \<and> now s < vf_expires_at v)
                  (\<lambda>v. v\<lparr>vf_used := True\<rparr>) s
            in if n \<noteq> 1 then (Inl (BizError (AuthErr VERIFICATION_CODE_INVALID)), s) else (Inr True, s))"

definition consume_code :: "auth_config \<Rightarrow> channel \<Rightarrow> string \<Rightarrow> string \<Rightarrow> string \<Rightarrow> ('s auth_db_scheme, bool) act" where
  "consume_code cf c contact code purpose s = consume cf c (latest c contact purpose s) code s"

section \<open>Tokens\<close>

text \<open>
  A token is its claims: the signature and its check are \<open>auth/jwt_keys.py\<close>, a wrapper of PyJWT.  The
  clock of the claims counts seconds.
\<close>

record access_claims =
  ac_user_id :: uuid
  ac_account_level :: string
  ac_role :: string
  ac_trust_device :: bool
  ac_token_version :: int
  ac_jti :: string
  ac_mfa :: bool
  ac_mfa_at :: "int option"
  ac_iat :: int
  ac_exp :: int
  ac_active_roles :: "string list option"
  ac_rt_hash :: "string option"

record temp_claims =
  tc_user_id :: uuid
  tc_purpose :: string
  tc_iat :: int
  tc_exp :: int
  tc_txn_id :: "string option"

definition epoch_s :: "instant \<Rightarrow> int" where
  "epoch_s t = t div 1000000"

definition create_access_token ::
    "auth_config \<Rightarrow> uuid \<Rightarrow> string \<Rightarrow> string \<Rightarrow> bool \<Rightarrow> int \<Rightarrow> bool \<Rightarrow> int option \<Rightarrow> string list option
      \<Rightarrow> int option \<Rightarrow> string option \<Rightarrow> 's core_db_scheme \<Rightarrow> access_claims \<times> 's core_db_scheme" where
  "create_access_token cf user_id account_level role trust_device token_version mfa_verified mfa_at active_roles
      session_expires_at refresh_token_hash s =
     (let t = epoch_s (now s);
          verified_at = (case mfa_at of Some a \<Rightarrow> a | None \<Rightarrow> t);
          access_expires_at = t + access_token_expire_minutes cf * 60;
          access_expires_at = (case session_expires_at of None \<Rightarrow> access_expires_at | Some e \<Rightarrow> min access_expires_at e);
          (jti, s) = fresh_hex s
      in (\<lparr>ac_user_id = user_id, ac_account_level = account_level, ac_role = role, ac_trust_device = trust_device,
            ac_token_version = token_version, ac_jti = jti, ac_mfa = mfa_verified,
            ac_mfa_at = (if mfa_verified then Some verified_at else None), ac_iat = t, ac_exp = access_expires_at,
            ac_active_roles = active_roles, ac_rt_hash = refresh_token_hash\<rparr>, s))"

definition TEMP_EXPIRE_SECONDS :: int where "TEMP_EXPIRE_SECONDS = 60"

definition create_temp_token :: "uuid \<Rightarrow> string \<Rightarrow> string option \<Rightarrow> 's core_db_scheme \<Rightarrow> temp_claims" where
  "create_temp_token user_id purpose txn_id s =
     (let t = epoch_s (now s)
      in \<lparr>tc_user_id = user_id, tc_purpose = purpose, tc_iat = t, tc_exp = t + TEMP_EXPIRE_SECONDS,
          tc_txn_id = (if txn_id = Some [] then None else txn_id)\<rparr>)"

definition valid_refresh_token :: "string \<Rightarrow> bool" where
  "valid_refresh_token raw \<longleftrightarrow> 0 < length raw \<and> length raw \<le> 128"

definition hash_refresh_token :: "auth_config \<Rightarrow> string \<Rightarrow> string" where
  "hash_refresh_token cf raw = sha256 cf raw"

definition insert_refresh_token :: "refresh_token \<Rightarrow> ('s auth_db_scheme, unit) act" where
  "insert_refresh_token t s =
     (if list_ex (\<lambda>r. rt_token_hash r = rt_token_hash t) (refresh_tokens s)
      then (Inl (IntegrityError True (Some ''refresh_tokens_token_hash_key'')), s)
      else (Inr (), s\<lparr>refresh_tokens := refresh_tokens s @ [t]\<rparr>))"

definition store_refresh_token ::
    "auth_config \<Rightarrow> uuid \<Rightarrow> string \<Rightarrow> bool \<Rightarrow> instant option \<Rightarrow> string list option \<Rightarrow> instant option
      \<Rightarrow> ('s auth_db_scheme, instant) act" where
  "store_refresh_token cf user_id raw mfa_verified mfa_at active_roles session_expires_at s =
     (let expires = (case session_expires_at of Some e \<Rightarrow> e | None \<Rightarrow> now s + days (refresh_token_expire_days cf));
          (i, s) = fresh_pk s
      in bindA (insert_refresh_token
                 \<lparr>rt_id = i, rt_user_id = user_id, rt_token_hash = hash_refresh_token cf raw, rt_kind = ''web'',
                  rt_mfa_verified = mfa_verified, rt_mfa_at = mfa_at, rt_active_roles = active_roles,
                  rt_expires_at = expires, rt_created_at = now s, rt_revoked_at = None\<rparr>)
           (\<lambda>_. retA expires) s)"

definition on_value_error :: "exc \<Rightarrow> exc + 'a \<Rightarrow> exc + 'a" where
  "on_value_error e r = (case r of Inl ValueError \<Rightarrow> Inl e | _ \<Rightarrow> r)"

text \<open>A selection of roles is activated again before it is signed.\<close>

definition reactivate ::
    "auth_config \<Rightarrow> user \<Rightarrow> string \<Rightarrow> string list option \<Rightarrow> 's auth_db_scheme \<Rightarrow> exc + string list option" where
  "reactivate cf u role active_roles s =
     (case active_roles of
        None \<Rightarrow> Inr None
      | Some sel \<Rightarrow>
          bindR (on_value_error (BizError (AuthErr TOKEN_INVALID))
            (activated_roles (SSD_CONSTRAINTS cf) (DSD_CONSTRAINTS cf) (u_account_level u) role
               (list_roles (u_id u) s) (Some sel))) (\<lambda>rs. Inr (Some rs)))"

definition sign_and_store ::
    "auth_config \<Rightarrow> user \<Rightarrow> string \<Rightarrow> bool \<Rightarrow> bool \<Rightarrow> instant option \<Rightarrow> string list option \<Rightarrow> instant option
      \<Rightarrow> ('s auth_db_scheme, access_claims \<times> string) act" where
  "sign_and_store cf u role trust_device mfa_verified mfa_at active_roles session_expires_at s =
     (let verified_at = (case mfa_at of Some a \<Rightarrow> a | None \<Rightarrow> now s);
          (raw_refresh, s) = fresh_secret s;
          (access_token, s) = create_access_token cf (u_id u) (u_account_level u) role trust_device (u_token_version u)
             mfa_verified (if mfa_verified then Some (epoch_s verified_at) else None) active_roles
             (map_option epoch_s session_expires_at) (Some (hash_refresh_token cf raw_refresh)) s
      in bindA (store_refresh_token cf (u_id u) raw_refresh mfa_verified (if mfa_verified then Some verified_at else None)
                  active_roles session_expires_at)
           (\<lambda>_. retA (access_token, raw_refresh)) s)"

text \<open>A loaded user is read again by its identifier; that it is still there is an invariant.\<close>

definition the_user :: "uuid \<Rightarrow> ('s auth_db_scheme, user) act" where
  "the_user user_id s = (optR OtherException (get_user user_id s), s)"

text \<open>The one place that issues the tokens of a session, with the gates on the account.\<close>

definition issue_session_tokens ::
    "auth_config \<Rightarrow> uuid \<Rightarrow> bool \<Rightarrow> bool \<Rightarrow> instant option \<Rightarrow> string list option \<Rightarrow> instant option
      \<Rightarrow> ('s auth_db_scheme, access_claims \<times> string) act" where
  "issue_session_tokens cf user_id trust_device mfa_verified mfa_at active_roles session_expires_at =
     seqA (check_account_locked user_id)
    (bindA (the_user user_id) (\<lambda>u.
     seqA (liftA (assert_admission_allowed u))
    (bindA (getA (role_of user_id)) (\<lambda>role.
     bindA (\<lambda>s. (reactivate cf u role active_roles s, s)) (\<lambda>active_roles.
     sign_and_store cf u role trust_device mfa_verified mfa_at active_roles session_expires_at)))))"

section \<open>Answers\<close>

record auth_response =
  ar_access_token :: "access_claims option"
  ar_refresh_token :: "string option"
  ar_user_id :: uuid
  ar_account_level :: string
  ar_requires_2fa :: bool
  ar_setup_required :: bool
  ar_temp_token :: "temp_claims option"
  ar_admission_status :: "string option"

definition without_tokens :: "user \<Rightarrow> auth_response" where
  "without_tokens u =
     \<lparr>ar_access_token = None, ar_refresh_token = None, ar_user_id = u_id u, ar_account_level = u_account_level u,
      ar_requires_2fa = False, ar_setup_required = False, ar_temp_token = None, ar_admission_status = None\<rparr>"

definition create_auth_response :: "auth_config \<Rightarrow> uuid \<Rightarrow> bool \<Rightarrow> ('s auth_db_scheme, auth_response) act" where
  "create_auth_response cf user_id requires_2fa =
     seqA (check_account_locked user_id)
    (bindA (the_user user_id) (\<lambda>u.
     seqA (liftA (assert_admission_allowed u))
    (if requires_2fa then
       (\<lambda>s. (Inr ((without_tokens u)\<lparr>ar_requires_2fa := True,
                    ar_temp_token := Some (create_temp_token user_id ''2fa'' None s)\<rparr>), s))
     else
       bindA (issue_session_tokens cf user_id False False None None None) (\<lambda>(access_token, raw_refresh).
       retA ((without_tokens u)\<lparr>ar_access_token := Some access_token, ar_refresh_token := Some raw_refresh\<rparr>)))))"

definition build_registration_response :: "auth_config \<Rightarrow> uuid \<Rightarrow> ('s auth_db_scheme, auth_response) act" where
  "build_registration_response cf user_id =
     bindA (the_user user_id) (\<lambda>u.
     if \<not> admission_is_active u then retA ((without_tokens u)\<lparr>ar_admission_status := Some (admission_status_of u)\<rparr>)
     else create_auth_response cf user_id False)"

definition check_admin_totp_required :: "uuid \<Rightarrow> ('s auth_db_scheme, auth_response option) act" where
  "check_admin_totp_required user_id =
     bindA (the_user user_id) (\<lambda>u s.
     if u_account_level u \<noteq> ''admin'' then (Inr None, s)
     else (case find (\<lambda>t. tp_user_id t = user_id) (totps s) of
             Some t \<Rightarrow>
               if tp_enabled t then (Inr None, s)
               else (Inr (Some ((without_tokens u)\<lparr>ar_requires_2fa := True, ar_setup_required := True,
                            ar_temp_token := Some (create_temp_token user_id ''setup'' None s)\<rparr>)), s)
           | None \<Rightarrow>
               (Inr (Some ((without_tokens u)\<lparr>ar_requires_2fa := True, ar_setup_required := True,
                            ar_temp_token := Some (create_temp_token user_id ''setup'' None s)\<rparr>)), s)))"

definition finalize_auth_response :: "auth_config \<Rightarrow> uuid \<Rightarrow> ('s auth_db_scheme, auth_response) act" where
  "finalize_auth_response cf user_id =
     seqA (check_account_locked user_id)
    (bindA (the_user user_id) (\<lambda>u.
     seqA (liftA (assert_admission_allowed u))
    (bindA (check_admin_totp_required user_id) (\<lambda>admin_setup.
     case admin_setup of
       Some r \<Rightarrow> retA r
     | None \<Rightarrow> create_auth_response cf user_id False))))"

section \<open>Failed attempts\<close>

definition FAIL_LOCK_THRESHOLD :: int where "FAIL_LOCK_THRESHOLD = 5"
definition FAIL_LOCK_MINUTES :: int where "FAIL_LOCK_MINUTES = 15"

definition record_failed_attempt :: "uuid \<Rightarrow> ('s auth_db_scheme, bool) act" where
  "record_failed_attempt user_id =
     seqA (modA (failed_login user_id FAIL_LOCK_THRESHOLD FAIL_LOCK_MINUTES))
    (bindA (the_user user_id) (\<lambda>u. retA (FAIL_LOCK_THRESHOLD \<le> u_failed_login_attempts u)))"

text \<open>What a wrong password leads to, before the answer.\<close>

definition failed_password :: "uuid \<Rightarrow> ('s auth_db_scheme, unit) act" where
  "failed_password user_id =
     bindA (record_failed_attempt user_id) (\<lambda>locked.
     modA (\<lambda>s. if locked then notify_user_banned user_id (log_audit (Some user_id) ''account_locked'' s) else s))"

section \<open>Password login\<close>

definition login_password :: "auth_config \<Rightarrow> string \<Rightarrow> string \<Rightarrow> string \<Rightarrow> ('s auth_db_scheme, auth_response) act" where
  "login_password cf raw_account password ip_address =
     seqA (liftA (if ip_address \<noteq> [] then check_password_login_rate_limit cf ip_address else Inr ()))
    (let account = py_strip raw_account
     in bindA (getA (find_by_identity account (Some account) (Some account))) (\<lambda>found.
     case found of
       None \<Rightarrow> raiseA (BizError (AuthErr INVALID_CREDENTIALS))
     | Some user \<Rightarrow>
         let was_locked_at_login = u_is_locked user
         in seqA (check_account_locked (u_id user))
           (if \<not> verifypwd cf password (u_hashed_password user) then
              seqA (failed_password (u_id user))
             (seqA (modA (notify_audit_login_fail (Some (u_id user)) ''password_mismatch'' ip_address))
             (raiseA (BizError (AuthErr INVALID_CREDENTIALS))))
            else
              seqA (liftA (assert_admission_allowed user))
             (seqA (modA (reset_login_failures (u_id user)))
             (seqA (modA (if was_locked_at_login then notify_user_updated (u_id user) else (\<lambda>s. s)))
             (seqA (modA (log_audit (Some (u_id user)) ''login_password''))
             (finalize_auth_response cf (u_id user))))))))"

definition verify_credentials :: "auth_config \<Rightarrow> string \<Rightarrow> string \<Rightarrow> string \<Rightarrow> ('s auth_db_scheme, user) act" where
  "verify_credentials cf account password ip_address =
     (let normalized = py_strip account
      in bindA (getA (find_by_identity normalized (Some normalized) (Some normalized))) (\<lambda>found.
      case found of
        None \<Rightarrow> raiseA (BizError (AuthErr INVALID_CREDENTIALS))
      | Some user \<Rightarrow>
          seqA (check_account_locked (u_id user))
         (if \<not> verifypwd cf password (u_hashed_password user) then
            seqA (failed_password (u_id user))
           (seqA (modA (notify_audit_login_fail (Some (u_id user)) ''password_mismatch'' ip_address))
           (raiseA (BizError (AuthErr INVALID_CREDENTIALS))))
          else
            seqA (liftA (assert_admission_allowed user))
           (seqA (modA (reset_login_failures (u_id user)))
           (seqA (modA (log_audit (Some (u_id user)) ''login_password_delegated''))
           (the_user (u_id user)))))))"

section \<open>Login by code and by link\<close>

definition login_code :: "auth_config \<Rightarrow> string \<Rightarrow> string \<Rightarrow> ('s auth_db_scheme, auth_response) act" where
  "login_code cf contact code =
     bindA (liftA (detect contact)) (\<lambda>c.
     bindA (consume_code cf c contact code ''login'') (\<lambda>_.
     bindA (getA (find_user c (normalize c contact))) (\<lambda>found.
     case found of
       None \<Rightarrow> raiseA (BizError (AuthErr USER_NOT_FOUND))
     | Some user \<Rightarrow>
         if u_account_level user = ''local'' then raiseA (BizError (AuthErr ACCOUNT_LEVEL_INSUFFICIENT))
         else
           seqA (if u_is_locked user then check_account_locked (u_id user) else retA ())
          (seqA (modA (if u_is_locked user then notify_user_updated (u_id user) else (\<lambda>s. s)))
          (seqA (liftA (assert_admission_allowed user))
          (finalize_auth_response cf (u_id user)))))))"

definition request_magic_link :: "auth_config \<Rightarrow> string \<Rightarrow> string \<Rightarrow> ('s auth_db_scheme, string option) act" where
  "request_magic_link cf email purpose =
     seqA (liftA (check_code_rate_limit cf (''magiclink:'' @ py_strip email @ '':'' @ purpose) 5 3600))
    (\<lambda>s. (case get_by_email email s of
            None \<Rightarrow> (Inr None, s)
          | Some user \<Rightarrow>
              if u_account_level user = ''local'' then (Inr None, s)
              else
                let (raw_token, s) = fresh_secret s;
                    (i, s) = fresh_pk s;
                    link = \<lparr>ml_id = i, ml_email = email, ml_token_hash = sha256 cf raw_token, ml_purpose = purpose,
                            ml_expires_at = now s + minutes 15, ml_used = False, ml_created_at = now s\<rparr>
                in (Inr (Some raw_token), s\<lparr>magic_links := magic_links s @ [link]\<rparr>)))"

text \<open>The answer to a link for a reset names the user only.\<close>

datatype link_answer = Session auth_response | Reset_user uuid string

definition link_usable :: "string \<Rightarrow> string \<Rightarrow> instant \<Rightarrow> magic_link \<Rightarrow> bool" where
  "link_usable token_hash purpose t l \<longleftrightarrow>
     ml_token_hash l = token_hash \<and> \<not> ml_used l \<and> ml_purpose l = purpose \<and> t < ml_expires_at l"

definition verify_magic_link :: "auth_config \<Rightarrow> string \<Rightarrow> string \<Rightarrow> ('s auth_db_scheme, link_answer) act" where
  "verify_magic_link cf token purpose s =
     (let token_hash = sha256 cf token;
          n = length (filter (link_usable token_hash purpose (now s)) (magic_links s));
          s = s\<lparr>magic_links := map (\<lambda>l. if link_usable token_hash purpose (now s) l then l\<lparr>ml_used := True\<rparr> else l)
                                (magic_links s)\<rparr>
      in if n \<noteq> 1 then
           (case find (\<lambda>l. ml_token_hash l = token_hash) (magic_links s) of
              None \<Rightarrow> (Inl (BizError (AuthErr TOKEN_INVALID)), s)
            | Some l \<Rightarrow>
                if ml_purpose l \<noteq> purpose then (Inl (BizError (AuthErr TOKEN_INVALID)), s)
                else if ml_used l then (Inl (BizError (AuthErr TOKEN_INVALID)), s)
                else (Inl (BizError (AuthErr TOKEN_EXPIRED)), s))
         else
           (case find (\<lambda>l. ml_token_hash l = token_hash) (magic_links s) of
              None \<Rightarrow> (Inl (BizError (AuthErr TOKEN_INVALID)), s)
            | Some l \<Rightarrow>
           (case get_by_email (ml_email l) s of
              None \<Rightarrow> (Inl (BizError (AuthErr USER_NOT_FOUND)), s)
            | Some user \<Rightarrow>
                if u_account_level user = ''local'' then (Inl (BizError (AuthErr ACCOUNT_LEVEL_INSUFFICIENT)), s)
                else if u_account_level user = ''admin''
                        \<and> (case find (\<lambda>t. tp_user_id t = u_id user) (totps s) of None \<Rightarrow> True | Some t \<Rightarrow> \<not> tp_enabled t)
                  then (Inl (BizError (AuthErr TOTP_SETUP_REQUIRED)), s)
                else if purpose = ''reset'' then (Inr (Reset_user (u_id user) (u_account_level user)), s)
                else bindA (create_auth_response cf (u_id user) False) (\<lambda>r. retA (Session r)) s)))"

section \<open>Refreshing and revoking\<close>

text \<open>The condition and the effect of the atomic consumption; \<open>kind\<close> keeps the sessions of the panel apart.\<close>

definition usable :: "string \<Rightarrow> refresh_token \<Rightarrow> bool" where
  "usable token_hash t \<longleftrightarrow> rt_token_hash t = token_hash \<and> rt_revoked_at t = None \<and> rt_kind t = ''web''"

definition consumed :: "string \<Rightarrow> 's auth_db_scheme \<Rightarrow> 's auth_db_scheme" where
  "consumed token_hash s =
     s\<lparr>refresh_tokens := map (\<lambda>t. if usable token_hash t then t\<lparr>rt_revoked_at := Some (now s)\<rparr> else t) (refresh_tokens s)\<rparr>"

definition refresh_access_token :: "auth_config \<Rightarrow> string \<Rightarrow> ('s auth_db_scheme, access_claims \<times> string) act" where
  "refresh_access_token cf raw_refresh s =
     (if \<not> valid_refresh_token raw_refresh then (Inl (BizError (AuthErr TOKEN_INVALID)), s)
      else
        let tok_hash = hash_refresh_token cf raw_refresh;
            n = length (filter (usable tok_hash) (refresh_tokens s));
            s = consumed tok_hash s
        in if n \<noteq> 1 then (Inl (BizError (AuthErr TOKEN_INVALID)), s)
        else
          (case find (\<lambda>t. rt_token_hash t = tok_hash) (refresh_tokens s) of
             None \<Rightarrow> (Inl (BizError (AuthErr TOKEN_INVALID)), s)
           | Some stored \<Rightarrow>
               if rt_expires_at stored \<le> now s then (Inl (BizError (AuthErr TOKEN_EXPIRED)), s)
               else
                 (case get_user (rt_user_id stored) s of
                    None \<Rightarrow> (Inl (BizError (AuthErr USER_NOT_FOUND)), s)
                  | Some user \<Rightarrow>
                      if lock_is_active user (now s) then (Inl (BizError (AuthErr ACCOUNT_LOCKED)), s)
                      else if \<not> admission_is_active user then (Inl (BizError (AuthErr ACCOUNT_LOCKED)), s)
                      else
                        issue_session_tokens cf (u_id user) False (rt_mfa_verified stored \<and> rt_mfa_at stored \<noteq> None)
                          (rt_mfa_at stored) (rt_active_roles stored) (Some (rt_expires_at stored)) s)))"

definition revoke_all_refresh_tokens :: "uuid \<Rightarrow> 's auth_db_scheme \<Rightarrow> 's auth_db_scheme" where
  "revoke_all_refresh_tokens user_id s = bump_token_version user_id (revoke_all_for_user user_id (now s) s)"

section \<open>Upgrading\<close>

definition upgrade_to_normal :: "uuid \<Rightarrow> 's auth_db_scheme \<Rightarrow> 's auth_db_scheme" where
  "upgrade_to_normal user_id s =
     (case get_user user_id s of
        None \<Rightarrow> s
      | Some u \<Rightarrow>
          if u_account_level u = ''local'' then
            notify_user_updated user_id (log_audit (Some user_id) ''level_change''
              (assign_user user_id (\<lambda>u. u\<lparr>u_account_level := ''normal''\<rparr>) s))
          else s)"

section \<open>Registration\<close>

text \<open>\<open>ensure_unique_username\<close>: the base, then the base with 1, 2, ... appended until it is free.\<close>

definition taken_suffixes :: "string set \<Rightarrow> string \<Rightarrow> nat \<Rightarrow> nat set" where
  "taken_suffixes taken base k = {n. k \<le> n \<and> base @ dec_str n \<in> taken}"

lemma finite_taken_suffixes [simp]: "finite taken \<Longrightarrow> finite (taken_suffixes taken base k)"
proof -
  assume "finite taken"
  moreover have "inj (\<lambda>n. base @ dec_str n)" by (auto intro: injI)
  ultimately have "finite ((\<lambda>n. base @ dec_str n) -` taken)" by (rule finite_vimageI)
  then show ?thesis by (rule rev_finite_subset) (auto simp: taken_suffixes_def)
qed

function suffix_search :: "string list \<Rightarrow> string \<Rightarrow> nat \<Rightarrow> string" where
  "suffix_search taken base suffix =
     (let username = base @ dec_str suffix
      in if username \<in> set taken then suffix_search taken base (suffix + 1) else username)"
  by auto

termination
proof (relation "measure (\<lambda>(taken, base, k). card (taken_suffixes (set taken) base k))")
  fix taken :: "string list" and base username :: string and suffix :: nat
  assume "username = base @ dec_str suffix" and "username \<in> set taken"
  then have "taken_suffixes (set taken) base suffix = insert suffix (taken_suffixes (set taken) base (suffix + 1))"
    by (auto simp: taken_suffixes_def Suc_le_eq le_less)
  moreover have "suffix \<notin> taken_suffixes (set taken) base (suffix + 1)" by (simp add: taken_suffixes_def)
  ultimately show "((taken, base, suffix + 1), (taken, base, suffix)) \<in>
      measure (\<lambda>(taken, base, k). card (taken_suffixes (set taken) base k))"
    by simp
qed simp

declare suffix_search.simps [simp del]

definition ensure_unique_username :: "string \<Rightarrow> 's auth_db_scheme \<Rightarrow> string" where
  "ensure_unique_username base s =
     (if username_exists s base then suffix_search (map u_username (users s)) base 1 else base)"

definition new_user ::
    "uuid \<Rightarrow> string \<Rightarrow> string \<Rightarrow> string \<Rightarrow> string option \<Rightarrow> string option \<Rightarrow> instant \<Rightarrow> user" where
  "new_user i username hashed account_level email phone t =
     \<lparr>u_id = i, u_username = username, u_email = email, u_hashed_password = hashed, u_phone = phone,
      u_account_level = account_level, u_is_locked = False, u_locked_until = None, u_failed_login_attempts = 0,
      u_token_version = 0, u_admission_status = ACTIVE, u_apply_reason = None, u_applied_at = None,
      u_admission_reviewed_at = None, u_admission_reviewed_by = None, u_reject_reason = None,
      u_last_rejected_at = None, u_created_at = t, u_updated_at = t\<rparr>"

definition handle_duplicate_user_error :: "exc + 'a \<Rightarrow> exc + 'a" where
  "handle_duplicate_user_error r =
     (case r of Inl (IntegrityError _ _) \<Rightarrow> Inl (BizError (AuthErr auth_err.ALREADY_REGISTERED)) | _ \<Rightarrow> r)"

definition create_user_with_profile ::
    "auth_config \<Rightarrow> string \<Rightarrow> string \<Rightarrow> string \<Rightarrow> string option \<Rightarrow> string option \<Rightarrow> string option
      \<Rightarrow> ('s auth_db_scheme, uuid) act" where
  "create_user_with_profile cf username hashed account_level email phone reason s =
     (let apply_reason = take 500 (py_strip (case reason of None \<Rightarrow> [] | Some r \<Rightarrow> r));
          (i, s) = fresh_pk s;
          u = new_user i username hashed account_level email phone (now s);
          u = (if admission_mode cf = ''apply'' then
                 u\<lparr>u_admission_status := PENDING, u_applied_at := Some (now s),
                   u_apply_reason := if apply_reason \<noteq> [] then Some apply_reason else None\<rparr>
               else u);
          (r, s) = insert_user u s
      in (case handle_duplicate_user_error r of
            Inl e \<Rightarrow> (Inl e, s)
          | Inr _ \<Rightarrow>
              (Inr i, s\<lparr>profiles := profiles s
                  @ [\<lparr>pf_user_id = i, pf_nickname = None, pf_avatar = None, pf_role = ''member'', pf_bio = None\<rparr>]\<rparr>)))"

text \<open>The contacts of an existing account are filled in; the flush checks that they are free.\<close>

definition bind_contacts :: "uuid \<Rightarrow> string option \<Rightarrow> string option \<Rightarrow> ('s auth_db_scheme, unit) act" where
  "bind_contacts user_id email phone s =
     (let fill = (\<lambda>u. u\<lparr>u_email := (if email \<notin> {None, Some []} \<and> u_email u \<in> {None, Some []} then email else u_email u),
                        u_phone := (if phone \<notin> {None, Some []} \<and> u_phone u \<in> {None, Some []} then phone else u_phone u)\<rparr>)
      in (case get_user user_id s of
            None \<Rightarrow> (Inl OtherException, s)
          | Some u \<Rightarrow>
              (case unique_user (fill u) s of
                 Inl e \<Rightarrow> (Inl e, s)
               | Inr _ \<Rightarrow> (Inr (), assign_user user_id fill s))))"

definition login_or_error ::
    "auth_config \<Rightarrow> uuid \<Rightarrow> string \<Rightarrow> string option \<Rightarrow> string option \<Rightarrow> ('s auth_db_scheme, unit) act" where
  "login_or_error cf user_id password_to_check email phone =
     seqA (check_account_locked user_id)
    (bindA (the_user user_id) (\<lambda>u.
     if u_hashed_password u = [] \<or> \<not> verifypwd cf password_to_check (u_hashed_password u) then
       seqA (failed_password user_id)
      (raiseA (BizError (AuthErr auth_err.ALREADY_REGISTERED)))
     else
       seqA (bind_contacts user_id email phone)
      (modA (upgrade_to_normal user_id))))"

definition register_local ::
    "auth_config \<Rightarrow> string \<Rightarrow> string \<Rightarrow> string option \<Rightarrow> ('s auth_db_scheme, auth_response) act" where
  "register_local cf raw_username password apply_reason =
     (let username = py_strip raw_username
      in bindA (getA (get_by_username username)) (\<lambda>existing.
      case existing of
        Some u \<Rightarrow>
          seqA (login_or_error cf (u_id u) password None None)
         (create_auth_response cf (u_id u) False)
      | None \<Rightarrow>
          bindA (hashpwd cf password) (\<lambda>hashed.
          bindA (create_user_with_profile cf username hashed ''local'' None None apply_reason) (\<lambda>i.
          build_registration_response cf i))))"

definition register_by_verify ::
    "auth_config \<Rightarrow> channel \<Rightarrow> string \<Rightarrow> string option \<Rightarrow> ('s auth_db_scheme, auth_response) act" where
  "register_by_verify cf c value apply_reason =
     (let normalized_value = normalize c value
      in bindA (getA (find_user c normalized_value)) (\<lambda>existing.
      case existing of
        Some u \<Rightarrow>
          seqA (check_account_locked (u_id u))
         (seqA (modA (upgrade_to_normal (u_id u)))
         (seqA (modA (log_audit (Some (u_id u)) ''register_code''))
         (create_auth_response cf (u_id u) False)))
      | None \<Rightarrow>
          bindA (getA (ensure_unique_username (username_from c value))) (\<lambda>username.
          bindA (create_user_with_profile cf username [] ''normal''
                   (if c = Email then Some normalized_value else None)
                   (if c = Phone then Some normalized_value else None) apply_reason) (\<lambda>i.
          seqA (modA (log_audit (Some i) ''register_code''))
         (build_registration_response cf i)))))"

definition none_if_empty :: "string option \<Rightarrow> string option" where
  "none_if_empty v = (if v = Some [] then None else v)"

definition store_pending_normal_registration ::
    "auth_config \<Rightarrow> string \<Rightarrow> string \<Rightarrow> string option \<Rightarrow> string option \<Rightarrow> string option
      \<Rightarrow> ('s auth_db_scheme, string) act" where
  "store_pending_normal_registration cf username password email phone apply_reason s =
     (let (txn_id, s) = fresh_secret s
      in bindA (hashpwd cf password) (\<lambda>hashed s.
         let (i, s) = fresh_pk s;
             p = \<lparr>pr_id = i, pr_txn_id = txn_id, pr_username = py_strip username, pr_hashed_password = hashed,
                  pr_email = map_option py_strip (none_if_empty email), pr_phone = phone,
                  pr_apply_reason = none_if_empty (Some (take 500 (py_strip (case apply_reason of None \<Rightarrow> [] | Some r \<Rightarrow> r)))),
                  pr_consumed = False, pr_expires_at = now s + minutes 15, pr_created_at = now s\<rparr>
         in if list_ex (\<lambda>q. pr_txn_id q = txn_id) (pending_registrations s)
            then (Inl (IntegrityError True (Some ''pending_registrations_txn_id_key'')), s)
            else (Inr txn_id, s\<lparr>pending_registrations := pending_registrations s @ [p]\<rparr>)) s)"

text \<open>\<open>assert code is not None\<close>, then the code is consumed, if the registration has that contact.\<close>

definition consume_contact ::
    "auth_config \<Rightarrow> channel \<Rightarrow> string option \<Rightarrow> string option \<Rightarrow> ('s auth_db_scheme, unit) act" where
  "consume_contact cf c contact code =
     (case none_if_empty contact of
        None \<Rightarrow> retA ()
      | Some v \<Rightarrow>
          (case code of
             None \<Rightarrow> raiseA AssertionError
           | Some x \<Rightarrow> bindA (consume_code cf c v x ''register'') (\<lambda>_. retA ())))"

definition complete_pending :: "auth_config \<Rightarrow> pending_registration \<Rightarrow> ('s auth_db_scheme, auth_response) act" where
  "complete_pending cf p =
     bindA (getA (find_by_identity (pr_username p) (none_if_empty (pr_email p)) (none_if_empty (pr_phone p)))) (\<lambda>existing.
     case existing of
       Some u \<Rightarrow>
         if u_hashed_password u = [] \<or> \<not> verifypwd cf (pr_hashed_password p) (u_hashed_password u)
         then raiseA (BizError (AuthErr auth_err.ALREADY_REGISTERED))
         else
           seqA (bind_contacts (u_id u) (pr_email p) (pr_phone p))
          (seqA (modA (upgrade_to_normal (u_id u)))
          (seqA (modA (log_audit (Some (u_id u)) ''register_normal''))
          (create_auth_response cf (u_id u) False)))
     | None \<Rightarrow>
         bindA (create_user_with_profile cf (pr_username p) (pr_hashed_password p) ''normal''
                  (none_if_empty (pr_email p)) (none_if_empty (pr_phone p)) (pr_apply_reason p)) (\<lambda>i.
         seqA (modA (log_audit (Some i) ''register_normal''))
        (build_registration_response cf i)))"

definition mark_consumed :: "uuid \<Rightarrow> 's auth_db_scheme \<Rightarrow> 's auth_db_scheme" where
  "mark_consumed i s = s\<lparr>pending_registrations :=
     map (\<lambda>q. if pr_id q = i then q\<lparr>pr_consumed := True\<rparr> else q) (pending_registrations s)\<rparr>"

definition consume_pending_normal_registration ::
    "auth_config \<Rightarrow> string \<Rightarrow> string option \<Rightarrow> string option \<Rightarrow> ('s auth_db_scheme, auth_response) act" where
  "consume_pending_normal_registration cf txn_id email_code phone_code s =
     (case find (\<lambda>p. pr_txn_id p = txn_id) (pending_registrations s) of
        None \<Rightarrow> (Inl (BizError (AuthErr TOKEN_INVALID)), s)
      | Some p \<Rightarrow>
          if pr_consumed p then (Inl (BizError (AuthErr TOKEN_INVALID)), s)
          else if pr_expires_at p \<le> now s then (Inl (BizError (AuthErr TOKEN_EXPIRED)), s)
          else
            seqA (consume_contact cf Email (pr_email p) email_code)
           (seqA (consume_contact cf Phone (pr_phone p) phone_code)
           (seqA (modA (mark_consumed (pr_id p)))
           (complete_pending cf p))) s)"

end
