(* ===== verification/Auth_Authz.thy ===== *)
theory Auth_Authz
  imports Auth_Sessions Rbac_Service
begin

text \<open>
  Who a token stands for and what an account may become: the verdict on a session
  (\<open>auth/service_authz.py\<close>, \<open>auth/deps.py\<close>), upgrades that only raise (\<open>auth/service_authz.py\<close>), additional
  roles (\<open>auth/service_roles.py\<close>), the review of admissions (\<open>auth/service_admission.py\<close>) and the selection
  of session roles (\<open>auth/router.py\<close>).
\<close>

section \<open>The verdict on a session\<close>

record verdict =
  vd_ok :: bool
  vd_cause :: "string option"
  vd_account_level :: "string option"
  vd_role :: "string option"
  vd_active_roles :: "string list option"

definition refuse :: "string \<Rightarrow> verdict" where
  "refuse cause = \<lparr>vd_ok = False, vd_cause = Some cause, vd_account_level = None, vd_role = None, vd_active_roles = None\<rparr>"

definition CAUSE_NOT_FOUND :: string where "CAUSE_NOT_FOUND = ''not_found''"
definition CAUSE_LOCKED :: string where "CAUSE_LOCKED = ''locked''"
definition CAUSE_SESSION_REVOKED :: string where "CAUSE_SESSION_REVOKED = ''session_revoked''"
definition CAUSE_PASSWORD_CHANGED :: string where "CAUSE_PASSWORD_CHANGED = ''password_changed''"
definition CAUSE_NOT_ADMIN :: string where "CAUSE_NOT_ADMIN = ''not_admin''"

lemmas cause_defs = CAUSE_NOT_FOUND_def CAUSE_LOCKED_def CAUSE_SESSION_REVOKED_def CAUSE_PASSWORD_CHANGED_def CAUSE_NOT_ADMIN_def

text \<open>\<open>datetime.fromtimestamp\<close>: the years from 1 to 9999.\<close>

definition fromtimestamp :: "int \<Rightarrow> instant option" where
  "fromtimestamp t = (if - 62135596800 \<le> t \<and> t < 253402300800 then Some (seconds t) else None)"

definition IAT_TOLERANCE :: int where "IAT_TOLERANCE = seconds 5"

definition roles_of_session ::
    "auth_config \<Rightarrow> string \<Rightarrow> string \<Rightarrow> string list \<Rightarrow> string list option \<Rightarrow> exc + string list" where
  "roles_of_session cf account_level role assigned selected =
     bindR (satisfies_constraints (authorized_roles account_level role assigned) (SSD_CONSTRAINTS cf)) (\<lambda>ok.
     if \<not> ok then Inl ValueError
     else activated_roles (SSD_CONSTRAINTS cf) (DSD_CONSTRAINTS cf) account_level role assigned selected)"

definition authorize_user ::
    "auth_config \<Rightarrow> uuid \<Rightarrow> int \<Rightarrow> int option \<Rightarrow> bool \<Rightarrow> string option \<Rightarrow> string list option
      \<Rightarrow> 's auth_db_scheme \<Rightarrow> exc + verdict" where
  "authorize_user cf user_id expect_token_version iat_ts require_admin jti selected_roles s =
     (if jti \<notin> {None, Some []} \<and> is_revoked (the jti) s then Inr (refuse CAUSE_SESSION_REVOKED)
      else
        (case get_user user_id s of
           None \<Rightarrow> Inr (refuse CAUSE_NOT_FOUND)
         | Some user \<Rightarrow>
             if lock_is_active user (now s) then Inr (refuse CAUSE_LOCKED)
             else if \<not> admission_is_active user then Inr (refuse CAUSE_LOCKED)
             else if expect_token_version \<noteq> u_token_version user then Inr (refuse CAUSE_SESSION_REVOKED)
             else if (case iat_ts of
                        None \<Rightarrow> False
                      | Some t \<Rightarrow>
                          let token_time = (case fromtimestamp t of Some i \<Rightarrow> i | None \<Rightarrow> 0)
                          in IAT_TOLERANCE < u_updated_at user - token_time)
               then Inr (refuse CAUSE_PASSWORD_CHANGED)
             else
               let role = role_of user_id s; account_level = u_account_level user
               in if require_admin \<and> account_level \<noteq> ''admin'' then Inr (refuse CAUSE_NOT_ADMIN)
               else
                 (case roles_of_session cf account_level role (list_roles user_id s) selected_roles of
                    Inl ValueError \<Rightarrow> Inr (refuse CAUSE_SESSION_REVOKED)
                  | Inl e \<Rightarrow> Inl e
                  | Inr active \<Rightarrow>
                      Inr \<lparr>vd_ok = True, vd_cause = None, vd_account_level = Some account_level, vd_role = Some role,
                           vd_active_roles = Some active\<rparr>)))"

section \<open>From a token to its user\<close>

text \<open>
  The shared cache only adds refusals: identifiers of revoked tokens, and the least version of a user's
  tokens that is still accepted.
\<close>

record l2_cache =
  l2_blocked :: "string \<Rightarrow> bool"
  l2_tv_min :: "uuid \<Rightarrow> int option"

definition token_version_is_stale :: "l2_cache \<Rightarrow> uuid \<Rightarrow> int \<Rightarrow> bool" where
  "token_version_is_stale l2 user_id token_version =
     (case l2_tv_min l2 user_id of None \<Rightarrow> False | Some cached \<Rightarrow> token_version < cached)"

text \<open>PyJWT refuses a token that has expired or was issued in the future.\<close>

definition decode_access_token :: "access_claims \<Rightarrow> instant \<Rightarrow> bool" where
  "decode_access_token c t \<longleftrightarrow> t < seconds (ac_exp c) \<and> seconds (ac_iat c) \<le> t"

definition fail_current_user :: "string option \<Rightarrow> exc" where
  "fail_current_user cause =
     (if cause = Some CAUSE_LOCKED then BizError (AuthErr ACCOUNT_LOCKED)
      else if cause = Some CAUSE_SESSION_REVOKED then BizError (AuthErr TOKEN_EXPIRED)
      else if cause = Some CAUSE_PASSWORD_CHANGED then BizError (AuthErr TOKEN_EXPIRED)
      else if cause = Some CAUSE_NOT_FOUND then BizError (AuthErr USER_NOT_FOUND)
      else if cause = Some CAUSE_NOT_ADMIN then BizError (CommonErr common_err.FORBIDDEN)
      else BizError (AuthErr TOKEN_INVALID))"

text \<open>The answer of the service is \<open>None\<close> if it cannot be reached.\<close>

definition resolve_via_seam ::
    "verdict option \<Rightarrow> uuid \<Rightarrow> string list option \<Rightarrow> exc + current_user" where
  "resolve_via_seam answer user_id selected_roles =
     (case answer of
        None \<Rightarrow> Inl (BizError (AuthErr TOKEN_INVALID))
      | Some v \<Rightarrow>
          if \<not> vd_ok v then Inl (fail_current_user (vd_cause v))
          else
            (case vd_active_roles v of
               None \<Rightarrow> Inl (BizError (AuthErr TOKEN_INVALID))
             | Some active \<Rightarrow>
                 if (case selected_roles of
                       None \<Rightarrow> False
                     | Some sel \<Rightarrow> \<not> distinct active \<or> set active \<noteq> set sel)
                 then Inl (BizError (AuthErr TOKEN_INVALID))
                 else Inr \<lparr>cu_id = user_id, cu_account_level = (case vd_account_level v of None \<Rightarrow> [] | Some l \<Rightarrow> l),
                           cu_role = or_member (vd_role v), cu_active_roles = Some active,
                           cu_email = None, cu_phone = None\<rparr>))"

text \<open>Without the seam the tables are read here.\<close>

definition resolve_locally ::
    "auth_config \<Rightarrow> access_claims \<Rightarrow> string list option \<Rightarrow> 's auth_db_scheme \<Rightarrow> exc + current_user" where
  "resolve_locally cf c selected_roles s =
     (case get_user (ac_user_id c) s of
        None \<Rightarrow> Inl (BizError (AuthErr USER_NOT_FOUND))
      | Some user \<Rightarrow>
          if lock_is_active user (now s) then Inl (BizError (AuthErr ACCOUNT_LOCKED))
          else if \<not> admission_is_active user then Inl (BizError (AuthErr ACCOUNT_LOCKED))
          else if ac_token_version c \<noteq> u_token_version user then Inl (BizError (AuthErr TOKEN_EXPIRED))
          else
            (case fromtimestamp (ac_iat c) of
               None \<Rightarrow> Inl OtherException
             | Some token_time \<Rightarrow>
                 if IAT_TOLERANCE < u_updated_at user - token_time then Inl (BizError (AuthErr TOKEN_EXPIRED))
                 else
                   let role = role_of (ac_user_id c) s
                   in bindR (on_value_error (BizError (AuthErr TOKEN_INVALID))
                        (roles_of_session cf (u_account_level user) role (list_roles (u_id user) s) selected_roles)) (\<lambda>active.
                      Inr \<lparr>cu_id = u_id user, cu_account_level = u_account_level user, cu_role = role,
                           cu_active_roles = Some active, cu_email = u_email user, cu_phone = u_phone user\<rparr>)))"

definition resolve_current_user ::
    "auth_config \<Rightarrow> l2_cache \<Rightarrow> bool \<Rightarrow> access_claims \<Rightarrow> 's auth_db_scheme \<Rightarrow> exc + current_user" where
  "resolve_current_user cf l2 seam_enabled c s =
     (if \<not> decode_access_token c (now s) then Inl (BizError (AuthErr TOKEN_INVALID))
      else if l2_blocked l2 (ac_jti c) then Inl (BizError (AuthErr TOKEN_EXPIRED))
      else if token_version_is_stale l2 (ac_user_id c) (ac_token_version c) then Inl (BizError (AuthErr TOKEN_EXPIRED))
      else if seam_enabled then
        bindR (authorize_user cf (ac_user_id c) (ac_token_version c) (Some (ac_iat c)) False (Some (ac_jti c))
                 (ac_active_roles c) s) (\<lambda>v.
        resolve_via_seam (Some v) (ac_user_id c) (ac_active_roles c))
      else resolve_locally cf c (ac_active_roles c) s)"

definition MFA_TRUST_SECONDS :: int where "MFA_TRUST_SECONDS = 3600"

definition get_current_user_2fa ::
    "auth_config \<Rightarrow> l2_cache \<Rightarrow> bool \<Rightarrow> access_claims \<Rightarrow> 's auth_db_scheme \<Rightarrow> exc + current_user" where
  "get_current_user_2fa cf l2 seam_enabled c s =
     bindR (resolve_current_user cf l2 seam_enabled c s) (\<lambda>cur.
     if \<not> ac_mfa c then Inl (BizError (CommonErr MFA_REQUIRED))
     else (case ac_mfa_at c of
             None \<Rightarrow> Inl (BizError (CommonErr MFA_REQUIRED))
           | Some tried_at \<Rightarrow>
               if seconds MFA_TRUST_SECONDS < now s - seconds tried_at then Inl (BizError (CommonErr MFA_REQUIRED))
               else Inr cur))"

section \<open>Selecting session roles\<close>

text \<open>\<open>POST /auth/roles/activate\<close>; \<open>old\<close> is the token of the request.\<close>

definition activate_roles ::
    "auth_config \<Rightarrow> access_claims \<Rightarrow> current_user \<Rightarrow> string list \<Rightarrow> string \<Rightarrow> ('s auth_db_scheme, access_claims) act" where
  "activate_roles cf old cur roles refresh_token s =
     (let refresh_hash = hash_refresh_token cf refresh_token;
          mine = (\<lambda>t. rt_token_hash t = refresh_hash \<and> rt_user_id t = cu_id cur \<and> rt_kind t = ''web''
                       \<and> rt_revoked_at t = None \<and> now s < rt_expires_at t)
      in if ac_rt_hash old \<noteq> Some refresh_hash then (Inl (BizError (CommonErr common_err.FORBIDDEN)), s)
      else
        (case find mine (refresh_tokens s) of
           None \<Rightarrow> (Inl (BizError (CommonErr common_err.FORBIDDEN)), s)
         | Some stored \<Rightarrow>
             (case on_value_error (BizError (CommonErr INVALID_INPUT))
                     (activated_roles (SSD_CONSTRAINTS cf) (DSD_CONSTRAINTS cf) (cu_account_level cur) (cu_role cur)
                        (list_roles (cu_id cur) s) (Some roles)) of
                Inl e \<Rightarrow> (Inl e, s)
              | Inr active \<Rightarrow>
                  let s = s\<lparr>refresh_tokens := map (\<lambda>t. if rt_id t = rt_id stored then t\<lparr>rt_active_roles := Some active\<rparr> else t)
                                               (refresh_tokens s)\<rparr>;
                      (token, s) = create_access_token cf (cu_id cur) (cu_account_level cur) (cu_role cur)
                        (ac_trust_device old) (ac_token_version old) (ac_mfa old) (ac_mfa_at old) (Some active)
                        (Some (epoch_s (rt_expires_at stored))) (Some refresh_hash) s
                  in (Inr token, s))))"

definition logout :: "current_user \<Rightarrow> 's auth_db_scheme \<Rightarrow> 's auth_db_scheme" where
  "logout cur = revoke_all_refresh_tokens (cu_id cur)"

section \<open>Upgrades\<close>

definition LEVEL_RANK :: "(string \<times> int) list" where
  "LEVEL_RANK = [(''local'', 0), (''normal'', 1), (''admin'', 2)]"

definition ROLE_RANK :: "(string \<times> int) list" where
  "ROLE_RANK =
     [(''member'', 0), (''columnist'', 1), (''author'', 2), (''incubated_member'', 3),
      (''org_member'', 4), (''admin'', 5), (''super_admin'', 6)]"

definition rank_of :: "(string \<times> int) list \<Rightarrow> string \<Rightarrow> int" where
  "rank_of table value = (case map_of table value of None \<Rightarrow> - 1 | Some r \<Rightarrow> r)"

definition raises_level :: "string option \<Rightarrow> string \<Rightarrow> bool" where
  "raises_level unlock_level account_level \<longleftrightarrow>
     (case unlock_level of None \<Rightarrow> False | Some l \<Rightarrow> rank_of LEVEL_RANK account_level < rank_of LEVEL_RANK l)"

definition raises_role :: "string option \<Rightarrow> string \<Rightarrow> bool" where
  "raises_role unlock_role cur_role \<longleftrightarrow>
     (case unlock_role of
        None \<Rightarrow> False
      | Some r \<Rightarrow> 0 \<le> rank_of ROLE_RANK cur_role \<and> rank_of ROLE_RANK cur_role < rank_of ROLE_RANK r)"

text \<open>What both kinds of upgrade end with: the separation of duties, the new version, the events.\<close>

definition seal_upgrade ::
    "auth_config \<Rightarrow> uuid \<Rightarrow> string \<Rightarrow> string \<Rightarrow> string \<Rightarrow> ('s auth_db_scheme, int) act" where
  "seal_upgrade cf user_id new_level new_role reason s =
     (case satisfies_constraints (authorized_roles new_level new_role (list_roles user_id s)) (SSD_CONSTRAINTS cf) of
        Inl e \<Rightarrow> (Inl e, s)
      | Inr ok \<Rightarrow>
          if \<not> ok then (Inl (BizError (CommonErr INVALID_INPUT)), s)
          else (Inr 1, notify_audit_permission_change user_id reason
                         (notify_user_updated user_id (bump_token_version user_id s))))"

definition apply_upgrades ::
    "auth_config \<Rightarrow> uuid \<Rightarrow> string option \<Rightarrow> string option \<Rightarrow> string \<Rightarrow> ('s auth_db_scheme, int) act" where
  "apply_upgrades cf user_id unlock_level unlock_role reason s =
     (case get_level_and_role user_id s of
        None \<Rightarrow> (Inr 0, s)
      | Some (account_level, cur_role_raw) \<Rightarrow>
          let cur_role = or_member cur_role_raw;
              up_level = raises_level unlock_level account_level;
              up_role = raises_role unlock_role cur_role;
              s = (if up_level then set_account_level user_id (the unlock_level) s else s);
              s = (if up_role then set_role user_id (the unlock_role) s else s)
          in if up_level \<or> up_role then
               seal_upgrade cf user_id (if up_level then the unlock_level else account_level)
                 (if up_role then the unlock_role else cur_role) reason s
             else (Inr 0, s))"

definition grant_exam_unlock ::
    "auth_config \<Rightarrow> uuid \<Rightarrow> string option \<Rightarrow> string option \<Rightarrow> ('s auth_db_scheme, int) act" where
  "grant_exam_unlock cf user_id unlock_level unlock_role s =
     (if unlock_level \<in> {None, Some []} \<and> unlock_role \<in> {None, Some []} then (Inr 0, s)
      else apply_upgrades cf user_id unlock_level unlock_role ''grant_exam_unlock'' s)"

definition grant_incubation :: "auth_config \<Rightarrow> uuid \<Rightarrow> ('s auth_db_scheme, int) act" where
  "grant_incubation cf user_id s =
     (case get_level_and_role user_id s of
        None \<Rightarrow> (Inr 0, s)
      | Some (account_level, cur_role_raw) \<Rightarrow>
          let cur_role = or_member cur_role_raw;
              up_level = (account_level \<noteq> ''admin'');
              up_role = (cur_role = ''member'');
              s = (if up_level then set_account_level user_id ''admin'' s else s);
              s = (if up_role then set_role user_id ''incubated_member'' s else s)
          in if up_level \<or> up_role then
               seal_upgrade cf user_id ''admin'' (if up_role then ''incubated_member'' else cur_role) ''grant_incubation'' s
             else (Inr 0, s))"

section \<open>Additional roles\<close>

definition list_user_roles :: "uuid \<Rightarrow> 's auth_db_scheme \<Rightarrow> exc + string list" where
  "list_user_roles user_id s =
     (case get_level_and_role user_id s of
        None \<Rightarrow> Inl (BizError (CommonErr common_err.NOT_FOUND))
      | Some (level, role) \<Rightarrow> Inr (assigned_roles level (or_member role) (list_roles user_id s)))"

text \<open>\<open>role.split(":", 1)[1]\<close>\<close>

definition name_of :: "string \<Rightarrow> string" where
  "name_of role = drop (Suc (length (level_of role))) role"

definition list_users_for_role :: "string \<Rightarrow> nat \<Rightarrow> nat \<Rightarrow> 's auth_db_scheme \<Rightarrow> exc + uuid list" where
  "list_users_for_role role_name limit offset s =
     (if role_name \<notin> set KNOWN_ROLES then Inl (BizError (CommonErr INVALID_INPUT))
      else
        let level = level_of role_name;
            seniors = filter (\<lambda>role. role_name \<in> set (role_closure [role])) KNOWN_ROLES;
            senior_names = map name_of seniors;
            assigned = map u_id (filter (\<lambda>u. u_account_level u = level
                          \<and> list_ex (\<lambda>r. ur_user_id r = u_id u \<and> ur_role_name r \<in> set seniors) (user_roles s)) (users s));
            primary = map u_id (filter (\<lambda>u. u_account_level u = level
                          \<and> (case get_profile (u_id u) s of
                               None \<Rightarrow> ''member'' \<in> set senior_names
                             | Some p \<Rightarrow> pf_role p \<in> set senior_names)) (users s))
        in Inr (take limit (drop offset (sort (remdups (primary @ assigned))))))"

definition set_user_role :: "auth_config \<Rightarrow> uuid \<Rightarrow> string \<Rightarrow> bool \<Rightarrow> ('s auth_db_scheme, bool) act" where
  "set_user_role cf user_id role_name assigned s =
     (if role_name \<notin> set KNOWN_ROLES then (Inl (BizError (CommonErr INVALID_INPUT)), s)
      else
        (case get_level_and_role user_id s of
           None \<Rightarrow> (Inl (BizError (CommonErr common_err.NOT_FOUND)), s)
         | Some (account_level, role) \<Rightarrow>
             let primary = or_member role
             in if \<not> starts_with (account_level @ '':'') role_name then (Inl (BizError (CommonErr INVALID_INPUT)), s)
             else if role_name = composite_role account_level primary
               then (if assigned then (Inr False, s) else (Inl (BizError (CommonErr INVALID_INPUT)), s))
             else
               (case (if assigned
                      then satisfies_constraints
                             (authorized_roles account_level primary (list_roles user_id s @ [role_name])) (SSD_CONSTRAINTS cf)
                      else Inr True) of
                  Inl e \<Rightarrow> (Inl e, s)
                | Inr ok \<Rightarrow>
                    if \<not> ok then (Inl (BizError (CommonErr INVALID_INPUT)), s)
                    else
                      let (changed, s) = (if assigned then add_role user_id role_name s else remove_role user_id role_name s)
                      in (Inr changed,
                          if changed then
                            notify_audit_permission_change user_id
                              ((if assigned then ''assign'' else ''revoke'') @ '':'' @ role_name)
                              (notify_user_updated user_id (bump_token_version user_id s))
                          else s))))"

section \<open>Admission\<close>

definition count_admission_users :: "string \<Rightarrow> 's auth_db_scheme \<Rightarrow> exc + nat" where
  "count_admission_users status s =
     (if status \<notin> set VALID_STATUSES then Inl (BizError (CommonErr INVALID_INPUT))
      else Inr (length (filter (\<lambda>u. u_admission_status u = status) (users s))))"

datatype decision = Approve | Reject

definition decide_admission ::
    "uuid \<Rightarrow> decision \<Rightarrow> uuid \<Rightarrow> string option \<Rightarrow> string \<Rightarrow> ('s auth_db_scheme, unit) act" where
  "decide_admission user_id action reviewer_id reason default_reason s =
     (case get_user user_id s of
        None \<Rightarrow> (Inl (BizError (AuthErr USER_NOT_FOUND)), s)
      | Some user \<Rightarrow>
          if admission_status_of user \<noteq> PENDING then (Inl (BizError (CommonErr CONFLICT)), s)
          else
            let review = (\<lambda>u. u\<lparr>u_admission_reviewed_at := Some (now s), u_admission_reviewed_by := Some reviewer_id\<rparr>)
            in case action of
                 Approve \<Rightarrow>
                   (Inr (), log_audit (Some user_id) ''admission_approved''
                      (assign_user user_id (\<lambda>u. (review u)\<lparr>u_admission_status := ACTIVE, u_reject_reason := None\<rparr>) s))
               | Reject \<Rightarrow>
                   let text = py_strip (case reason of None \<Rightarrow> [] | Some r \<Rightarrow> r);
                       s = bump_token_version user_id s;
                       s = revoke_all_for_user user_id (now s) s;
                       s = assign_user user_id (\<lambda>u. (review u)\<lparr>u_admission_status := REJECTED,
                             u_reject_reason := Some (if text \<noteq> [] then text else default_reason),
                             u_last_rejected_at := Some (now s)\<rparr>) s
                   in (Inr (), log_audit (Some user_id) ''admission_rejected'' s))"

end
