(* ===== verification/Auth_Safety.thy ===== *)
theory Auth_Safety
  imports Auth_Authz
begin

text \<open>
  Accounts and sessions over time: what every request keeps, and the properties of sessions that rest on
  it.  \<open>auth_step\<close> is one request to the authentication service, committed or rolled back by its session,
  or the passing of time.
\<close>

section \<open>How the authentication database evolves\<close>

text \<open>
  Users stay, their token versions do not fall and the time of their last change does not go back; refresh tokens stay, with their hash and owner, and a
  revoked one stays revoked; hashes stay distinct; time does not go back.
\<close>

definition versions_rise :: "'s auth_db_scheme \<Rightarrow> 's auth_db_scheme \<Rightarrow> bool" where
  "versions_rise s s' \<longleftrightarrow>
     (\<forall>i u. get_user i s = Some u \<longrightarrow>
        (\<exists>u'. get_user i s' = Some u' \<and> u_token_version u \<le> u_token_version u'
           \<and> (u_updated_at u \<le> now s \<longrightarrow> u_updated_at u \<le> u_updated_at u' \<and> u_updated_at u' \<le> now s')))"

definition hashes_distinct :: "'s auth_db_scheme \<Rightarrow> bool" where
  "hashes_distinct s \<longleftrightarrow> distinct (map rt_token_hash (refresh_tokens s))"

definition tokens_stay :: "'s auth_db_scheme \<Rightarrow> 's auth_db_scheme \<Rightarrow> bool" where
  "tokens_stay s s' \<longleftrightarrow>
     (\<forall>t \<in> set (refresh_tokens s). \<exists>t' \<in> set (refresh_tokens s').
        rt_token_hash t' = rt_token_hash t \<and> rt_user_id t' = rt_user_id t
        \<and> (rt_revoked_at t \<noteq> None \<longrightarrow> rt_revoked_at t' \<noteq> None))"

definition evolves :: "'s auth_db_scheme \<Rightarrow> 's auth_db_scheme \<Rightarrow> bool" where
  "evolves s s' \<longleftrightarrow> versions_rise s s' \<and> tokens_stay s s' \<and> (hashes_distinct s \<longrightarrow> hashes_distinct s') \<and> now s \<le> now s'"

lemma evolves_refl [simp]: "evolves s s"
  by (auto simp: evolves_def versions_rise_def tokens_stay_def)

lemma evolves_trans: "evolves a b \<Longrightarrow> evolves b c \<Longrightarrow> evolves a c"
proof -
  assume ab: "evolves a b" and bc: "evolves b c"
  have "versions_rise a c"
    unfolding versions_rise_def
  proof (intro allI impI)
    fix i u assume "get_user i a = Some u"
    then obtain v where v: "get_user i b = Some v" "u_token_version u \<le> u_token_version v"
        "u_updated_at u \<le> now a \<longrightarrow> u_updated_at u \<le> u_updated_at v \<and> u_updated_at v \<le> now b"
      using ab unfolding evolves_def versions_rise_def by blast
    then obtain w where "get_user i c = Some w" "u_token_version v \<le> u_token_version w"
        "u_updated_at v \<le> now b \<longrightarrow> u_updated_at v \<le> u_updated_at w \<and> u_updated_at w \<le> now c"
      using bc unfolding evolves_def versions_rise_def by blast
    with v show "\<exists>u'. get_user i c = Some u' \<and> u_token_version u \<le> u_token_version u'
        \<and> (u_updated_at u \<le> now a \<longrightarrow> u_updated_at u \<le> u_updated_at u' \<and> u_updated_at u' \<le> now c)" by auto
  qed
  moreover have "tokens_stay a c"
    unfolding tokens_stay_def
  proof
    fix t assume "t \<in> set (refresh_tokens a)"
    then obtain t' where t': "t' \<in> set (refresh_tokens b)" "rt_token_hash t' = rt_token_hash t" "rt_user_id t' = rt_user_id t"
      "rt_revoked_at t \<noteq> None \<longrightarrow> rt_revoked_at t' \<noteq> None"
      using ab by (auto simp: evolves_def tokens_stay_def)
    then obtain t'' where "t'' \<in> set (refresh_tokens c)" "rt_token_hash t'' = rt_token_hash t'" "rt_user_id t'' = rt_user_id t'"
      "rt_revoked_at t' \<noteq> None \<longrightarrow> rt_revoked_at t'' \<noteq> None"
      using bc by (auto simp: evolves_def tokens_stay_def)
    with t' show "\<exists>t' \<in> set (refresh_tokens c). rt_token_hash t' = rt_token_hash t \<and> rt_user_id t' = rt_user_id t
        \<and> (rt_revoked_at t \<noteq> None \<longrightarrow> rt_revoked_at t' \<noteq> None)" by auto
  qed
  ultimately show "evolves a c" using ab bc by (auto simp: evolves_def)
qed

interpretation ev: kept_relation evolves
  by unfold_locales (auto intro: evolves_trans)

text \<open>Only the users, the refresh tokens and the clock matter.\<close>

lemma evolves_cong:
  "users t = users s \<Longrightarrow> refresh_tokens t = refresh_tokens s \<Longrightarrow> now s \<le> now t \<Longrightarrow> evolves s t"
  by (auto simp: evolves_def versions_rise_def tokens_stay_def hashes_distinct_def get_user_def)

lemma evolves_update:
  "(\<And>u. u_id (f u) = u_id u \<and> u_token_version u \<le> u_token_version (f u)) \<Longrightarrow> evolves s (update_user i f s)"
  by (auto simp: evolves_def versions_rise_def tokens_stay_def hashes_distinct_def get_user_update)

lemma evolves_assign:
  "(\<And>u. u_id (f u) = u_id u \<and> u_token_version u \<le> u_token_version (f u)) \<Longrightarrow> evolves s (assign_user i f s)"
  by (auto simp: evolves_def versions_rise_def tokens_stay_def hashes_distinct_def get_user_assign)

lemma evolves_tokens:
  "(\<And>t. rt_token_hash (f t) = rt_token_hash t \<and> rt_user_id (f t) = rt_user_id t
      \<and> (rt_revoked_at t \<noteq> None \<longrightarrow> rt_revoked_at (f t) \<noteq> None)) \<Longrightarrow>
   evolves s (s\<lparr>refresh_tokens := map f (refresh_tokens s)\<rparr>)"
  by (auto simp: evolves_def versions_rise_def tokens_stay_def hashes_distinct_def get_user_def comp_def)

lemma evolves_add_token:
  "\<forall>t \<in> set (refresh_tokens s). rt_token_hash t \<noteq> rt_token_hash new \<Longrightarrow>
   evolves s (s\<lparr>refresh_tokens := refresh_tokens s @ [new]\<rparr>)"
  by (auto simp: evolves_def versions_rise_def tokens_stay_def hashes_distinct_def get_user_def)

lemma evolves_add_user: "evolves s (s\<lparr>users := users s @ [u]\<rparr>)"
  by (auto simp: evolves_def versions_rise_def tokens_stay_def hashes_distinct_def get_user_def find_snoc)

section \<open>Every operation lets the database evolve\<close>

named_theorems ev_ops \<open>operations that let the database evolve\<close>

text \<open>Steps before an operation that only draw identifiers.\<close>

lemma evolves_after: "users t = users s \<Longrightarrow> refresh_tokens t = refresh_tokens s \<Longrightarrow> now t = now s \<Longrightarrow> evolves t r \<Longrightarrow> evolves s r"
  by (rule evolves_trans[OF evolves_cong]) auto

lemma fresh_frame [simp]:
  "users (snd (fresh_pk s)) = users s" "refresh_tokens (snd (fresh_pk s)) = refresh_tokens s" "now (snd (fresh_pk s)) = now s"
  "users (snd (fresh_secret s)) = users s" "refresh_tokens (snd (fresh_secret s)) = refresh_tokens s" "now (snd (fresh_secret s)) = now s"
  "users (snd (fresh_rnd s)) = users s" "refresh_tokens (snd (fresh_rnd s)) = refresh_tokens s" "now (snd (fresh_rnd s)) = now s"
  "users (snd (fresh_hex s)) = users s" "refresh_tokens (snd (fresh_hex s)) = refresh_tokens s" "now (snd (fresh_hex s)) = now s"
  by (simp_all add: fresh_pk_def fresh_secret_def fresh_rnd_def fresh_hex_def)

lemma create_access_token_frame [simp]:
  "users (snd (create_access_token cf i l r td tv mf ma ac se rh s)) = users s"
  "refresh_tokens (snd (create_access_token cf i l r td tv mf ma ac se rh s)) = refresh_tokens s"
  "now (snd (create_access_token cf i l r td tv mf ma ac se rh s)) = now s"
  by (simp_all add: create_access_token_def Let_def fresh_hex_def)

lemma ev_the_user [ev_ops]: "act_rel evolves (the_user i)"
  by (auto simp: the_user_def intro: act_relI)

lemma ev_check_account_locked [ev_ops]: "act_rel evolves (check_account_locked i)"
  by (rule act_relI)
    (auto simp: check_account_locked_def clear_expired_lock_def intro!: evolves_assign split: option.splits)

lemma ev_insert_refresh_token [ev_ops]: "act_rel evolves (insert_refresh_token t)"
  by (rule act_relI) (auto simp: insert_refresh_token_def list_ex_iff intro: evolves_add_token)

lemma ev_store_refresh_token [ev_ops]: "act_rel evolves (store_refresh_token cf i raw mv ma ac se)"
proof (rule act_relI)
  fix s
  show "evolves s (snd (store_refresh_token cf i raw mv ma ac se s))"
    unfolding store_refresh_token_def Let_def case_prod_unfold
    by (rule evolves_after[OF _ _ _ act_rel_snd[OF ev.bind]]) (auto intro: ev_ops ev.read)
qed

lemma ev_sign_and_store [ev_ops]: "act_rel evolves (sign_and_store cf u role td mv ma ac se)"
proof (rule act_relI)
  fix s
  show "evolves s (snd (sign_and_store cf u role td mv ma ac se s))"
    unfolding sign_and_store_def Let_def case_prod_unfold
    by (rule evolves_after[OF _ _ _ act_rel_snd[OF ev.bind]]) (auto intro: ev_ops ev.read)
qed

lemma ev_issue [ev_ops]: "act_rel evolves (issue_session_tokens cf i td mv ma ac se)"
proof -
  have "act_rel evolves (\<lambda>s. (reactivate cf u r ac s, s))" for u r by (rule act_relI) simp
  then show ?thesis unfolding issue_session_tokens_def by (intro ev.seq ev.bind ev.read ev_ops)
qed

lemma ev_create_auth_response [ev_ops]: "act_rel evolves (create_auth_response cf i f)"
  unfolding create_auth_response_def
  by (intro ev.rules ev_ops act_relI[of evolves "\<lambda>s. (g s, s)" for g]) auto

lemma ev_build_registration_response [ev_ops]: "act_rel evolves (build_registration_response cf i)"
  unfolding build_registration_response_def by (intro ev.rules ev_ops)

lemma ev_check_admin_totp [ev_ops]: "act_rel evolves (check_admin_totp_required i)"
  unfolding check_admin_totp_required_def
  by (intro ev.bind ev_ops act_relI) (auto split: option.splits)

lemma ev_finalize [ev_ops]: "act_rel evolves (finalize_auth_response cf i)"
  unfolding finalize_auth_response_def by (intro ev.rules ev_ops)

lemma evolves_notify [simp]:
  "evolves s (notify_user_updated i s)" "evolves s (notify_user_banned i s)"
  "evolves s (notify_audit_permission_change i d s)" "evolves s (notify_audit_login_fail v d ip s)"
  "evolves s (log_audit v a s)"
  by (rule evolves_cong; simp)+

lemma ev_failed_password [ev_ops]: "act_rel evolves (failed_password i)"
proof -
  have "evolves s (failed_login i FAIL_LOCK_THRESHOLD FAIL_LOCK_MINUTES s)" for s :: "'a auth_db_scheme"
    unfolding failed_login_def by (rule evolves_update) simp
  moreover have "evolves s (if b then notify_user_banned i (log_audit (Some i) a s) else s)" for s :: "'a auth_db_scheme" and b a
    using evolves_trans[OF evolves_notify(5) evolves_notify(2)] by auto
  ultimately show ?thesis
    unfolding failed_password_def record_failed_attempt_def by (intro ev.rules ev_ops)
qed

lemma evolves_reset [simp]: "evolves s (reset_login_failures i s)"
  unfolding reset_login_failures_def by (rule evolves_update) simp

lemma evolves_upgrade [simp]: "evolves s (upgrade_to_normal i s)"
proof -
  have "evolves s (assign_user i (\<lambda>u. u\<lparr>u_account_level := ''normal''\<rparr>) s)" by (rule evolves_assign) simp
  then show ?thesis
    unfolding upgrade_to_normal_def
    by (auto intro!: evolves_trans[OF _ evolves_notify(1)] evolves_trans[OF _ evolves_notify(5)] split: option.splits)
qed

lemma ev_login_password [ev_ops]: "act_rel evolves (login_password cf a p ip)"
  unfolding login_password_def Let_def by (intro ev.rules ev_ops) auto

lemma ev_verify_credentials [ev_ops]: "act_rel evolves (verify_credentials cf a p ip)"
  unfolding verify_credentials_def Let_def by (intro ev.rules ev_ops) auto

lemma set_verifications_frame [simp]:
  "users (set_verifications c vs s) = users s" "refresh_tokens (set_verifications c vs s) = refresh_tokens s"
  "now (set_verifications c vs s) = now s" "profiles (set_verifications c vs s) = profiles s"
  by (cases c; simp)+

lemma ev_consume_code [ev_ops]: "act_rel evolves (consume_code cf c v x p)"
  by (rule act_relI, rule evolves_cong)
    (auto simp: consume_code_def consume_def update_verification_def Let_def split: option.splits)

lemma ev_login_code [ev_ops]: "act_rel evolves (login_code cf v x)"
  unfolding login_code_def by (intro ev.rules ev_ops) auto

lemma ev_request_magic_link [ev_ops]: "act_rel evolves (request_magic_link cf v p)"
proof -
  have "act_rel evolves (\<lambda>s. (case get_by_email v s of
            None \<Rightarrow> (Inr None, s)
          | Some user \<Rightarrow>
              if u_account_level user = ''local'' then (Inr None, s)
              else
                let (raw_token, s) = fresh_secret s;
                    (i, s) = fresh_pk s;
                    link = \<lparr>ml_id = i, ml_email = v, ml_token_hash = sha256 cf raw_token, ml_purpose = p,
                            ml_expires_at = now s + minutes 15, ml_used = False, ml_created_at = now s\<rparr>
                in (Inr (Some raw_token), s\<lparr>magic_links := magic_links s @ [link]\<rparr>)))"
    by (rule act_relI, rule evolves_cong)
      (auto simp: Let_def fresh_secret_def fresh_pk_def split: option.splits)
  then show ?thesis unfolding request_magic_link_def by (intro ev.seq ev.read)
qed

lemma ev_verify_magic_link [ev_ops]: "act_rel evolves (verify_magic_link cf v p)"
proof (rule act_relI)
  fix s :: "'a auth_db_scheme"
  have fin: "evolves s (snd (bindA (create_auth_response cf i False) (\<lambda>r. retA (Session r)) t))"
    if "users t = users s" "refresh_tokens t = refresh_tokens s" "now t = now s" for i t
    by (rule evolves_after[OF that act_rel_snd[OF ev.bind]]) (auto intro: ev_ops ev.read)
  show "evolves s (snd (verify_magic_link cf v p s))"
    unfolding verify_magic_link_def Let_def
    by (auto intro!: evolves_cong fin split: option.splits)
qed

lemma evolves_consumed: "evolves s (consumed h s)"
  unfolding consumed_def by (rule evolves_tokens) auto

lemma ev_refresh [ev_ops]: "act_rel evolves (refresh_access_token cf raw)"
proof (rule act_relI)
  fix s :: "'a auth_db_scheme"
  have "evolves s (snd (issue_session_tokens cf i f b ma ac se (consumed h s)))" for i f b ma ac se h
    by (rule evolves_trans[OF evolves_consumed act_rel_snd[OF ev_issue]])
  then show "evolves s (snd (refresh_access_token cf raw s))"
    unfolding refresh_access_token_def Let_def by (auto simp: evolves_consumed split: option.splits)
qed

lemma evolves_revoke_all [simp]: "evolves s (revoke_all_for_user i t s)"
  unfolding revoke_all_for_user_def by (rule evolves_tokens) auto

lemma evolves_bump [simp]: "evolves s (bump_token_version i s)"
  unfolding bump_token_version_def by (rule evolves_update) simp

lemma evolves_logout [simp]: "evolves s (revoke_all_refresh_tokens i s)"
  unfolding revoke_all_refresh_tokens_def by (rule evolves_trans[OF evolves_revoke_all evolves_bump])

lemma ev_hashpwd [ev_ops]: "act_rel evolves (hashpwd cf p)"
  by (rule act_relI, rule evolves_cong) (auto simp: hashpwd_def fresh_rnd_def)

lemma ev_insert_user [ev_ops]: "act_rel evolves (insert_user u)"
  by (rule act_relI) (auto simp: insert_user_def evolves_add_user split: sum.splits)

lemma ev_create_user [ev_ops]: "act_rel evolves (create_user_with_profile cf n h l e p r)"
proof (rule act_relI)
  fix s :: "'a auth_db_scheme"
  have "evolves s (if b then snd (insert_user u (snd (fresh_pk s))) else (snd (insert_user u (snd (fresh_pk s))))
      \<lparr>profiles := ps\<rparr>)" for b u ps
    using evolves_after[OF fresh_frame(1-3) act_rel_snd[OF ev_insert_user], of s u]
      evolves_trans[OF _ evolves_cong[of "(snd (insert_user u (snd (fresh_pk s))))\<lparr>profiles := ps\<rparr>"
          "snd (insert_user u (snd (fresh_pk s)))"]] by auto
  from this[of True] this[of False] show "evolves s (snd (create_user_with_profile cf n h l e p r s))"
    unfolding create_user_with_profile_def Let_def case_prod_unfold
    by (auto split: sum.splits)
qed

lemma ev_bind_contacts [ev_ops]: "act_rel evolves (bind_contacts i e p)"
  by (rule act_relI) (auto simp: bind_contacts_def Let_def intro!: evolves_assign split: option.splits sum.splits)

lemma ev_login_or_error [ev_ops]: "act_rel evolves (login_or_error cf i p e ph)"
  unfolding login_or_error_def by (intro ev.rules ev_ops) auto

lemma ev_register_local [ev_ops]: "act_rel evolves (register_local cf n p r)"
  unfolding register_local_def Let_def by (intro ev.rules ev_ops)

lemma ev_register_by_verify [ev_ops]: "act_rel evolves (register_by_verify cf c v r)"
  unfolding register_by_verify_def Let_def by (intro ev.rules ev_ops) auto

lemma ev_store_pending [ev_ops]: "act_rel evolves (store_pending_normal_registration cf n p e ph r)"
proof (rule act_relI)
  fix s :: "'a auth_db_scheme"
  show "evolves s (snd (store_pending_normal_registration cf n p e ph r s))"
    unfolding store_pending_normal_registration_def case_prod_unfold Let_def
    by (rule evolves_after[OF fresh_frame(4-6) act_rel_snd[OF ev.bind[OF ev_hashpwd]]])
      (auto intro!: act_relI evolves_cong)
qed

lemma ev_consume_contact [ev_ops]: "act_rel evolves (consume_contact cf c v x)"
  unfolding consume_contact_def by (intro ev.rules ev_ops)

lemma ev_complete_pending [ev_ops]: "act_rel evolves (complete_pending cf p)"
  unfolding complete_pending_def by (intro ev.rules ev_ops) auto

lemma ev_consume_pending [ev_ops]: "act_rel evolves (consume_pending_normal_registration cf x ec pc)"
proof -
  have "evolves s (mark_consumed i s)" for s :: "'a auth_db_scheme" and i
    by (rule evolves_cong) (simp_all add: mark_consumed_def)
  then have "act_rel evolves (seqA (consume_contact cf Email (pr_email p) ec) (seqA (consume_contact cf Phone (pr_phone p) pc)
       (seqA (modA (mark_consumed (pr_id p))) (complete_pending cf p))) :: ('a auth_db_scheme, auth_response) act)" for p
    by (intro ev.rules ev_ops)
  then show ?thesis
    unfolding consume_pending_normal_registration_def
    by (intro act_relI) (auto split: option.splits dest: act_rel_snd simp del: act_simps bindA_simps)
qed

lemma get_user_tables: "users s' = users s \<Longrightarrow> get_user i s' = get_user i s"
  by (simp add: get_user_def)

lemma get_user_frames [simp]:
  "get_user j (notify_user_updated i s) = get_user j s" "get_user j (notify_audit_permission_change i d s) = get_user j s"
  "get_user j (set_role i r s) = get_user j s" "get_user j (log_audit v a s) = get_user j s"
  "get_user j (revoke_all_for_user i t s) = get_user j s"
  by (rule get_user_tables, simp add: set_role_def revoke_all_for_user_def)+

lemma get_user_bump [simp]:
  "get_user j (bump_token_version i s) =
     map_option (\<lambda>u. if j = i then u\<lparr>u_token_version := u_token_version u + 1, u_updated_at := now s\<rparr> else u) (get_user j s)"
  unfolding bump_token_version_def by (subst get_user_update) auto

lemma get_user_level [simp]:
  "get_user j (set_account_level i l s) =
     map_option (\<lambda>u. if j = i then u\<lparr>u_account_level := l, u_updated_at := now s\<rparr> else u) (get_user j s)"
  unfolding set_account_level_def by (subst get_user_update) auto

lemma evolves_level [simp]: "evolves s (set_account_level i l s)"
  unfolding set_account_level_def by (rule evolves_update) simp

lemma evolves_set_role [simp]: "evolves s (set_role i r s)"
  by (rule evolves_cong) (simp_all add: set_role_def)

lemma evolves_seal [simp]: "evolves s (notify_audit_permission_change i d (notify_user_updated i (bump_token_version i s)))"
  by (blast intro: evolves_trans evolves_bump evolves_notify)

lemma ev_seal [ev_ops]: "act_rel evolves (seal_upgrade cf i l r d)"
  by (rule act_relI) (auto simp: seal_upgrade_def split: sum.splits)

lemma upgrade_writes:
  "evolves s (let s = (if b then set_account_level i l s else s) in if c then set_role i r s else s)"
  by (auto simp: Let_def intro: evolves_trans[OF evolves_level evolves_set_role])

lemma ev_apply_upgrades [ev_ops]: "act_rel evolves (apply_upgrades cf i ul ur d)"
proof (rule act_relI)
  fix s :: "'a auth_db_scheme"
  have fin: "evolves s (snd (seal_upgrade cf i l r d (let s = (if b then set_account_level i l' s else s) in if c then set_role i r' s else s)))"
    for b c l r l' r'
    by (rule evolves_trans[OF upgrade_writes act_rel_snd[OF ev_seal]])
  show "evolves s (snd (apply_upgrades cf i ul ur d s))"
  proof (cases "get_level_and_role i s")
    case (Some p)
    then obtain l r where "get_level_and_role i s = Some (l, r)" by (cases p) auto
    then show ?thesis
      using fin[where b = True and l' = "the ul" and c = False] fin[where b = False and c = True and r' = "the ur"]
        fin[where b = True and l' = "the ul" and c = True and r' = "the ur"]
      by (auto simp: apply_upgrades_def Let_def)
  qed (simp add: apply_upgrades_def)
qed

lemma ev_grant_exam_unlock [ev_ops]: "act_rel evolves (grant_exam_unlock cf i ul ur)"
  by (rule act_relI) (auto simp: grant_exam_unlock_def intro: act_rel_snd[OF ev_apply_upgrades])

lemma ev_grant_incubation [ev_ops]: "act_rel evolves (grant_incubation cf i)"
proof (rule act_relI)
  fix s :: "'a auth_db_scheme"
  have fin: "evolves s (snd (seal_upgrade cf i l r d (let s = (if b then set_account_level i l' s else s) in if c then set_role i r' s else s)))"
    for b c l r l' r' d
    by (rule evolves_trans[OF upgrade_writes act_rel_snd[OF ev_seal]])
  show "evolves s (snd (grant_incubation cf i s))"
    using fin[where b = True and l' = "''admin''" and c = False] fin[where b = False and c = True and r' = "''incubated_member''"]
      fin[where b = True and l' = "''admin''" and c = True and r' = "''incubated_member''"]
    by (auto simp: grant_incubation_def Let_def split: option.splits)
qed

lemma evolves_roles [simp]:
  "evolves s (snd (add_role i r s))" "evolves s (snd (remove_role i r s))"
  by (rule evolves_cong; simp add: add_role_def remove_role_def)+

lemma ev_set_user_role [ev_ops]: "act_rel evolves (set_user_role cf i r b)"
proof (rule act_relI)
  fix s :: "'a auth_db_scheme"
  show "evolves s (snd (set_user_role cf i r b s))"
    unfolding set_user_role_def Let_def case_prod_unfold
    by (auto split: option.splits sum.splits intro: evolves_trans[OF _ evolves_seal])
qed

lemma ev_decide [ev_ops]: "act_rel evolves (decide_admission i a r rs d)"
proof (rule act_relI)
  fix s :: "'a auth_db_scheme"
  have a: "evolves s (log_audit v x (assign_user i f t))"
    if "evolves s t" "\<And>u. u_id (f u) = u_id u \<and> u_token_version u \<le> u_token_version (f u)" for v x f t
    by (rule evolves_trans[OF evolves_trans[OF that(1) evolves_assign[OF that(2)]] evolves_notify(5)])
  have "evolves s (revoke_all_for_user i x (bump_token_version i s))" for x
    by (rule evolves_trans[OF evolves_bump evolves_revoke_all])
  then show "evolves s (snd (decide_admission i a r rs d s))"
    unfolding decide_admission_def Let_def by (auto split: option.splits decision.splits intro!: a)
qed

lemma ev_activate_roles [ev_ops]: "act_rel evolves (activate_roles cf old cur rs raw)"
proof (rule act_relI)
  fix s :: "'a auth_db_scheme"
  have "evolves s (snd (create_access_token cf i l r td tv mv ma ac se rh
      (s\<lparr>refresh_tokens := map (\<lambda>t. if rt_id t = j then t\<lparr>rt_active_roles := x\<rparr> else t) (refresh_tokens s)\<rparr>)))"
    for i l r td tv mv ma ac se rh j x
  proof -
    have tok: "evolves s (s\<lparr>refresh_tokens := map (\<lambda>t. if rt_id t = j then t\<lparr>rt_active_roles := x\<rparr> else t) (refresh_tokens s)\<rparr>)"
      by (rule evolves_tokens) auto
    show ?thesis by (rule evolves_trans[OF tok], rule evolves_cong) simp_all
  qed
  then show "evolves s (snd (activate_roles cf old cur rs raw s))"
    unfolding activate_roles_def Let_def case_prod_unfold
    by (auto split: option.splits sum.splits)
qed

section \<open>Requests over time\<close>

lemma ev_request: "act_rel evolves m \<Longrightarrow> evolves s (snd (get_auth_session reg m s))"
proof -
  assume "act_rel evolves m"
  then have "evolves s (snd (m s))" by (rule act_rel_snd)
  then have "now s \<le> now (snd (m s))" by (simp add: evolves_def)
  then have "evolves s (roll_back s (snd (m s)))" by (intro evolves_cong) (simp_all add: roll_back_def)
  with \<open>evolves s (snd (m s))\<close> show ?thesis
    by (cases "m s"; cases "fst (m s)") (auto simp: get_auth_session_def)
qed

text \<open>Any interleaving of requests, and the passing of time.\<close>

inductive auth_step :: "auth_config \<Rightarrow> (string \<times> errcode) list \<Rightarrow> 's auth_db_scheme \<Rightarrow> 's auth_db_scheme \<Rightarrow> bool"
  for cf reg where
  login_password: "auth_step cf reg s (snd (get_auth_session reg (login_password cf a p ip) s))"
| verify_credentials: "auth_step cf reg s (snd (get_auth_session reg (verify_credentials cf a p ip) s))"
| login_code: "auth_step cf reg s (snd (get_auth_session reg (login_code cf a p) s))"
| request_magic_link: "auth_step cf reg s (snd (get_auth_session reg (request_magic_link cf a p) s))"
| verify_magic_link: "auth_step cf reg s (snd (get_auth_session reg (verify_magic_link cf a p) s))"
| refresh: "auth_step cf reg s (snd (get_auth_session reg (refresh_access_token cf a) s))"
| activate: "auth_step cf reg s (snd (get_auth_session reg (activate_roles cf old cur rs a) s))"
| logout: "auth_step cf reg s (logout cur s)"
| register_local: "auth_step cf reg s (snd (get_auth_session reg (register_local cf a p x) s))"
| register_by_verify: "auth_step cf reg s (snd (get_auth_session reg (register_by_verify cf c a x) s))"
| store_pending: "auth_step cf reg s (snd (get_auth_session reg (store_pending_normal_registration cf a p e ph x) s))"
| consume_pending: "auth_step cf reg s (snd (get_auth_session reg (consume_pending_normal_registration cf a e ph) s))"
| set_user_role: "auth_step cf reg s (snd (get_auth_session reg (set_user_role cf i a b) s))"
| exam_unlock: "auth_step cf reg s (snd (get_auth_session reg (grant_exam_unlock cf i e ph) s))"
| incubation: "auth_step cf reg s (snd (get_auth_session reg (grant_incubation cf i) s))"
| decide: "auth_step cf reg s (snd (get_auth_session reg (decide_admission i d j x y) s))"
| tick: "0 \<le> dt \<Longrightarrow> auth_step cf reg s (s\<lparr>now := now s + dt\<rparr>)"

lemma auth_step_evolves: "auth_step cf reg s s' \<Longrightarrow> evolves s s'"
proof (induction rule: auth_step.induct)
  case (tick dt s)
  then show ?case by (intro evolves_cong) simp_all
qed (simp_all add: logout_def ev_request ev_ops)

lemma auth_steps_evolve: "(auth_step cf reg)\<^sup>*\<^sup>* s s' \<Longrightarrow> evolves s s'"
  by (induction rule: rtranclp_induct) (auto intro: evolves_trans auth_step_evolves)

section \<open>Ending sessions\<close>

text \<open>The requests that end the sessions of a user.\<close>

inductive session_kill :: "auth_config \<Rightarrow> uuid \<Rightarrow> 's auth_db_scheme \<Rightarrow> 's auth_db_scheme \<Rightarrow> bool" for cf i where
  by_logout: "cu_id cur = i \<Longrightarrow> session_kill cf i s (logout cur s)"
| by_reject: "decide_admission i Reject reviewer reason d s = (Inr (), s') \<Longrightarrow> session_kill cf i s s'"
| by_role: "set_user_role cf i role_name b s = (Inr True, s') \<Longrightarrow> session_kill cf i s s'"
| by_exam: "grant_exam_unlock cf i level role s = (Inr 1, s') \<Longrightarrow> session_kill cf i s s'"
| by_incubation: "grant_incubation cf i s = (Inr 1, s') \<Longrightarrow> session_kill cf i s s'"

text \<open>Those that revoke the refresh tokens as well.\<close>

inductive full_kill :: "uuid \<Rightarrow> 's auth_db_scheme \<Rightarrow> 's auth_db_scheme \<Rightarrow> bool" for i where
  "cu_id cur = i \<Longrightarrow> full_kill i s (logout cur s)"
| "decide_admission i Reject reviewer reason d s = (Inr (), s') \<Longrightarrow> full_kill i s s'"

lemma full_kill_kills: "full_kill i s s' \<Longrightarrow> session_kill cf i s s'"
  by (induction rule: full_kill.induct) (auto intro: session_kill.intros)

definition version_of :: "uuid \<Rightarrow> 's auth_db_scheme \<Rightarrow> int option" where
  "version_of i s = map_option u_token_version (get_user i s)"

lemma version_of_simps [simp]:
  "version_of j (bump_token_version i s) = map_option (\<lambda>v. if j = i then v + 1 else v) (version_of j s)"
  "version_of j (notify_user_updated i s) = version_of j s"
  "version_of j (notify_audit_permission_change i d s) = version_of j s"
  "version_of j (set_role i r s) = version_of j s" "version_of j (log_audit v a s) = version_of j s"
  "version_of j (revoke_all_for_user i t s) = version_of j s"
  "version_of j (set_account_level i l s) = version_of j s"
  by (auto simp: version_of_def option.map_comp comp_def intro: option.map_cong)

lemma version_of_assign:
  "(\<And>u. u_id (f u) = u_id u \<and> u_token_version (f u) = u_token_version u) \<Longrightarrow>
     version_of j (assign_user i f s) = version_of j s"
  by (cases "get_user j s") (auto simp: version_of_def get_user_assign)

lemma seal_version:
  "seal_upgrade cf i l r d s = (Inr n, s') \<Longrightarrow> n = 1 \<and> version_of j s' = map_option (\<lambda>v. if j = i then v + 1 else v) (version_of j s)"
  by (auto simp: seal_upgrade_def split: sum.splits if_splits)

lemma kill_version:
  assumes "session_kill cf i s s'" and "version_of i s = Some v"
  shows "version_of i s' = Some (v + 1)"
  using assms
proof (cases rule: session_kill.cases)
  case (by_logout cur)
  then show ?thesis using assms(2) by (simp add: logout_def revoke_all_refresh_tokens_def)
next
  case (by_reject reviewer reason d)
  then show ?thesis using assms(2)
    by (auto simp: decide_admission_def Let_def version_of_assign split: option.splits if_splits)
next
  case (by_role role_name b)
  have "version_of i (snd (add_role i role_name s)) = version_of i s" "version_of i (snd (remove_role i role_name s)) = version_of i s"
    by (auto simp: version_of_def get_user_def add_role_def remove_role_def)
  then show ?thesis using by_role assms(2)
    by (auto simp: set_user_role_def Let_def split: option.splits if_splits sum.splits prod.splits)
next
  case (by_exam level role)
  then have "apply_upgrades cf i level role ''grant_exam_unlock'' s = (Inr 1, s')"
    by (auto simp: grant_exam_unlock_def split: if_splits)
  then show ?thesis using assms(2)
    by (auto simp: apply_upgrades_def Let_def dest!: seal_version[where j = i] split: option.splits if_splits prod.splits)
next
  case by_incubation
  then show ?thesis using assms(2)
    by (auto simp: grant_incubation_def Let_def dest!: seal_version[where j = i] split: option.splits if_splits prod.splits)
qed

lemma resolve_via_seam_refused: "\<exists>e. resolve_via_seam (Some (refuse cause)) i sel = Inl e"
  by (simp add: resolve_via_seam_def refuse_def)

lemma stale_refused:
  assumes "version_of (ac_user_id c) s = Some v" and "ac_token_version c < v"
  shows "\<exists>e. resolve_current_user cf l2 seam c s = Inl e"
proof -
  obtain u where u: "get_user (ac_user_id c) s = Some u" "ac_token_version c \<noteq> u_token_version u"
    using assms by (auto simp: version_of_def)
  have "\<exists>e. resolve_locally cf c (ac_active_roles c) s = Inl e"
    using u by (auto simp: resolve_locally_def)
  moreover have "\<exists>cause. authorize_user cf (ac_user_id c) (ac_token_version c) iat adm jti sel s = Inr (refuse cause)" for iat adm jti sel
    using u by (auto simp: authorize_user_def)
  then have "\<exists>e. bindR (authorize_user cf (ac_user_id c) (ac_token_version c) (Some (ac_iat c)) False (Some (ac_jti c))
                 (ac_active_roles c) s) (\<lambda>v. resolve_via_seam (Some v) (ac_user_id c) (ac_active_roles c)) = Inl e"
    by (metis bindR_simps(2) resolve_via_seam_refused)
  ultimately show ?thesis by (auto simp: resolve_current_user_def)
qed

lemma evolves_version: "evolves s s' \<Longrightarrow> version_of i s = Some v \<Longrightarrow> \<exists>v'. version_of i s' = Some v' \<and> v \<le> v'"
  by (fastforce simp: evolves_def versions_rise_def version_of_def)

text \<open>A revoked refresh token is not accepted.\<close>

lemma revoked_unusable:
  assumes "hashes_distinct s" and "t \<in> set (refresh_tokens s)" and "rt_token_hash t = hash_refresh_token cf raw"
    and "rt_revoked_at t \<noteq> None"
  shows "fst (refresh_access_token cf raw s) = Inl (BizError (AuthErr TOKEN_INVALID))"
proof -
  have "\<not> usable (hash_refresh_token cf raw) t'" if "t' \<in> set (refresh_tokens s)" for t'
    using that assms by (auto simp: usable_def hashes_distinct_def distinct_map inj_on_def)
  then have "filter (usable (hash_refresh_token cf raw)) (refresh_tokens s) = []"
    by (simp add: filter_empty_conv)
  then show ?thesis by (simp add: refresh_access_token_def Let_def)
qed

lemma full_kill_revokes:
  assumes "full_kill i s s'" and "t \<in> set (refresh_tokens s)" and "rt_user_id t = i"
  shows "\<exists>t' \<in> set (refresh_tokens s'). rt_token_hash t' = rt_token_hash t \<and> rt_revoked_at t' \<noteq> None"
proof -
  have r: "\<exists>t' \<in> set (refresh_tokens (revoke_all_for_user i x u)). rt_token_hash t' = rt_token_hash t \<and> rt_revoked_at t' \<noteq> None"
    if "refresh_tokens u = refresh_tokens s" for x and u :: "'a auth_db_scheme"
  proof
    let ?f = "\<lambda>t. if rt_user_id t = i \<and> rt_revoked_at t = None then t\<lparr>rt_revoked_at := Some x\<rparr> else t"
    show "?f t \<in> set (refresh_tokens (revoke_all_for_user i x u))"
      using assms(2) that by (auto simp: revoke_all_for_user_def simp del: if_image_distrib intro!: imageI)
    show "rt_token_hash (?f t) = rt_token_hash t \<and> rt_revoked_at (?f t) \<noteq> None" using assms(3) by auto
  qed
  from assms(1) show ?thesis
  proof (cases rule: full_kill.cases)
    case (1 cur)
    then show ?thesis using r[of s] by (simp add: logout_def revoke_all_refresh_tokens_def bump_token_version_def)
  next
    case (2 reviewer reason d)
    then show ?thesis using r[of "bump_token_version i s"]
      by (auto simp: decide_admission_def Let_def bump_token_version_def split: option.splits if_splits)
  qed
qed

lemma full_kill_evolves: "full_kill i s s' \<Longrightarrow> evolves s s'"
proof (induction rule: full_kill.induct)
  case (1 cur s)
  then show ?case by (simp add: logout_def)
next
  case (2 reviewer reason d s s')
  then show ?case using act_rel_snd[OF ev_decide, of s i Reject reviewer reason d] by simp
qed

section \<open>Properties\<close>

text \<open>C17: Ending sessions is final.  After a logout, a rejection, a change of roles or an upgrade of a user,
  whatever requests follow, no access token of the user issued until then is accepted again, by the
  authority or by a reader of the tables and whatever the shared cache says; and after a logout or a
  rejection no refresh token of the user stored until then is accepted again.\<close>

theorem ended_sessions_stay_ended:
  assumes "session_kill cf i s s1" and "(auth_step cf reg)\<^sup>*\<^sup>* s1 s2" and "version_of i s = Some v"
    and "ac_user_id c = i" and "ac_token_version c \<le> v" and "hashes_distinct s"
  shows "(\<exists>e. resolve_current_user cf l2 seam c s2 = Inl e)
    \<and> (full_kill i s s1 \<longrightarrow>
         (\<forall>t \<in> set (refresh_tokens s). rt_user_id t = i \<longrightarrow> rt_token_hash t = hash_refresh_token cf raw \<longrightarrow>
            fst (refresh_access_token cf raw s2) = Inl (BizError (AuthErr TOKEN_INVALID))))"
proof -
  have ev: "evolves s1 s2" using assms(2) by (rule auth_steps_evolve)
  obtain v2 where "version_of i s2 = Some v2" "v + 1 \<le> v2"
    using evolves_version[OF ev kill_version[OF assms(1,3)]] by blast
  then have "\<exists>e. resolve_current_user cf l2 seam c s2 = Inl e"
    using assms(4,5) by (intro stale_refused) auto
  moreover have "fst (refresh_access_token cf raw s2) = Inl (BizError (AuthErr TOKEN_INVALID))"
    if k: "full_kill i s s1" and t: "t \<in> set (refresh_tokens s)" "rt_user_id t = i"
      "rt_token_hash t = hash_refresh_token cf raw" for t
  proof -
    obtain t1 where "t1 \<in> set (refresh_tokens s1)" "rt_token_hash t1 = rt_token_hash t" "rt_revoked_at t1 \<noteq> None"
      using full_kill_revokes[OF k t(1,2)] by blast
    then obtain t2 where "t2 \<in> set (refresh_tokens s2)" "rt_token_hash t2 = rt_token_hash t" "rt_revoked_at t2 \<noteq> None"
      using ev by (force simp: evolves_def tokens_stay_def)
    moreover have "hashes_distinct s2" using ev full_kill_evolves[OF k] assms(6) by (simp add: evolves_def)
    ultimately show ?thesis using t(3) by (intro revoked_unusable) auto
  qed
  ultimately show ?thesis by blast
qed
section \<open>What issuing a session does\<close>

definition may_enter :: "user \<Rightarrow> instant \<Rightarrow> bool" where
  "may_enter u t \<longleftrightarrow> \<not> lock_is_active u t \<and> admission_status_of u \<notin> {PENDING, REJECTED}"

lemma check_account_locked_Inr:
  assumes "check_account_locked i s = (Inr (), s1)" and "get_user i s = Some u"
  shows "\<not> lock_is_active u (now s)" "refresh_tokens s1 = refresh_tokens s" "profiles s1 = profiles s"
    "user_roles s1 = user_roles s" "now s1 = now s" "revoked_access_tokens s1 = revoked_access_tokens s"
    "\<exists>u1. get_user i s1 = Some u1 \<and> \<not> lock_is_active u1 (now s) \<and> u_token_version u1 = u_token_version u
       \<and> u_account_level u1 = u_account_level u \<and> admission_status_of u1 = admission_status_of u
       \<and> (u_updated_at u1 = u_updated_at u \<or> u_updated_at u1 = now s)"
proof -
  have "\<not> lock_is_active u (now s) \<and> refresh_tokens s1 = refresh_tokens s \<and> profiles s1 = profiles s
    \<and> user_roles s1 = user_roles s \<and> now s1 = now s \<and> revoked_access_tokens s1 = revoked_access_tokens s
    \<and> (\<exists>u1. get_user i s1 = Some u1 \<and> \<not> lock_is_active u1 (now s) \<and> u_token_version u1 = u_token_version u
       \<and> u_account_level u1 = u_account_level u \<and> admission_status_of u1 = admission_status_of u
       \<and> (u_updated_at u1 = u_updated_at u \<or> u_updated_at u1 = now s))"
  proof (cases "u_is_locked u")
    case False
    then have "s1 = s" using assms by (simp add: check_account_locked_def)
    then show ?thesis using False assms(2) by (simp add: lock_is_active_def)
  next
    case True
    with assms have na: "\<not> lock_is_active u (now s)" and s1: "s1 = assign_user i (clear_expired_lock (now s)) s"
      by (auto simp: check_account_locked_def split: if_splits)
    from na True obtain x where x: "u_locked_until u = Some x" "\<not> now s < x"
      by (auto simp: lock_is_active_def split: option.splits if_splits)
    let ?v = "u\<lparr>u_is_locked := False, u_locked_until := None, u_failed_login_attempts := 0\<rparr>"
    have v: "clear_expired_lock (now s) u = ?v" using x True by (simp add: clear_expired_lock_def)
    have ne: "?v \<noteq> u"
    proof
      assume "?v = u"
      from arg_cong[OF this, of u_is_locked] True show False by simp
    qed
    have id: "u_id (clear_expired_lock t w) = u_id w" for t w by (simp add: clear_expired_lock_def split: option.splits)
    have "get_user i s1 = Some (?v\<lparr>u_updated_at := now s\<rparr>)"
      unfolding s1 using get_user_assign[of "clear_expired_lock (now s)" i i s] id assms(2) v ne by simp
    then show ?thesis using na by (simp add: s1 lock_is_active_def admission_status_of_def)
  qed
  then show "\<not> lock_is_active u (now s)" "refresh_tokens s1 = refresh_tokens s" "profiles s1 = profiles s"
    "user_roles s1 = user_roles s" "now s1 = now s" "revoked_access_tokens s1 = revoked_access_tokens s"
    "\<exists>u1. get_user i s1 = Some u1 \<and> \<not> lock_is_active u1 (now s) \<and> u_token_version u1 = u_token_version u
       \<and> u_account_level u1 = u_account_level u \<and> admission_status_of u1 = admission_status_of u
       \<and> (u_updated_at u1 = u_updated_at u \<or> u_updated_at u1 = now s)" by blast+
qed

lemma store_spec:
  assumes "store_refresh_token cf i raw mv ma ac se t = (Inr e, t')"
  obtains new where "refresh_tokens t' = refresh_tokens t @ [new]"
    "\<forall>r \<in> set (refresh_tokens t). rt_token_hash r \<noteq> rt_token_hash new"
    "rt_user_id new = i" "rt_token_hash new = hash_refresh_token cf raw" "rt_kind new = ''web''" "rt_revoked_at new = None"
    "rt_active_roles new = ac" "rt_mfa_verified new = mv" "rt_mfa_at new = ma"
    "rt_expires_at new = (case se of Some e \<Rightarrow> e | None \<Rightarrow> now t + days (refresh_token_expire_days cf))"
    "users t' = users t" "profiles t' = profiles t" "user_roles t' = user_roles t" "now t' = now t"
    "revoked_access_tokens t' = revoked_access_tokens t"
  using assms
  by (auto simp: store_refresh_token_def insert_refresh_token_def fresh_pk_def Let_def bindA_def list_ex_iff
      split: if_splits)

lemma sign_and_store_spec:
  assumes "sign_and_store cf u role td mv ma ac se s = (Inr (c, raw), s')"
  obtains new where
    "users s' = users s" "profiles s' = profiles s" "user_roles s' = user_roles s" "now s' = now s"
    "revoked_access_tokens s' = revoked_access_tokens s"
    "refresh_tokens s' = refresh_tokens s @ [new]" "\<forall>t \<in> set (refresh_tokens s). rt_token_hash t \<noteq> rt_token_hash new"
    "rt_user_id new = u_id u" "rt_token_hash new = hash_refresh_token cf raw" "rt_kind new = ''web''" "rt_revoked_at new = None"
    "rt_active_roles new = ac" "rt_mfa_verified new = mv"
    "rt_expires_at new = (case se of Some e \<Rightarrow> e | None \<Rightarrow> now s + days (refresh_token_expire_days cf))"
    "rt_mfa_at new = (if mv then Some (case ma of Some a \<Rightarrow> a | None \<Rightarrow> now s) else None)"
    "ac_user_id c = u_id u" "ac_account_level c = u_account_level u" "ac_role c = role" "ac_token_version c = u_token_version u"
    "ac_iat c = epoch_s (now s)" "ac_active_roles c = ac" "ac_mfa c = mv" "ac_rt_hash c = Some (hash_refresh_token cf raw)"
    "ac_mfa_at c = (if mv then Some (epoch_s (case ma of Some a \<Rightarrow> a | None \<Rightarrow> now s)) else None)"
    "ac_exp c = (case se of None \<Rightarrow> epoch_s (now s) + access_token_expire_minutes cf * 60
                 | Some e \<Rightarrow> min (epoch_s (now s) + access_token_expire_minutes cf * 60) (epoch_s e))"
    "ac_jti c = hexes s (hex_ix s)"
proof -
  define v where "v = (if mv then Some (case ma of Some a \<Rightarrow> a | None \<Rightarrow> now s) else None)"
  define r where "r = create_access_token cf (u_id u) (u_account_level u) role td (u_token_version u) mv
      (if mv then Some (epoch_s (case ma of Some a \<Rightarrow> a | None \<Rightarrow> now s)) else None) ac (map_option epoch_s se) (Some (hash_refresh_token cf (secrets s (secret_ix s))))
      (s\<lparr>secret_ix := Suc (secret_ix s)\<rparr>)"
  have run: "bindA (store_refresh_token cf (u_id u) (secrets s (secret_ix s)) mv v ac se)
      (\<lambda>_. retA (fst r, secrets s (secret_ix s))) (snd r) = (Inr (c, raw), s')"
    using assms unfolding sign_and_store_def fresh_secret_def Let_def case_prod_unfold r_def v_def by simp
  then obtain e where st: "store_refresh_token cf (u_id u) (secrets s (secret_ix s)) mv v ac se (snd r) = (Inr e, s')"
    and c: "c = fst r" and raw: "raw = secrets s (secret_ix s)" by auto
  have t: "users (snd r) = users s" "refresh_tokens (snd r) = refresh_tokens s" "profiles (snd r) = profiles s"
    "user_roles (snd r) = user_roles s" "now (snd r) = now s" "revoked_access_tokens (snd r) = revoked_access_tokens s"
    by (simp_all add: r_def create_access_token_def Let_def fresh_hex_def)
  show ?thesis
  proof (rule store_spec[OF st, unfolded t], rule that)
    show "ac_exp c = (case se of None \<Rightarrow> epoch_s (now s) + access_token_expire_minutes cf * 60
                 | Some e \<Rightarrow> min (epoch_s (now s) + access_token_expire_minutes cf * 60) (epoch_s e))"
      by (cases se) (simp_all add: c r_def create_access_token_def Let_def fresh_hex_def)
  qed (simp_all add: t raw v_def c r_def create_access_token_def Let_def fresh_hex_def)
qed

lemma issue_spec:
  assumes "issue_session_tokens cf i td mv ma ac se s = (Inr (c, raw), s')" and "get_user i s = Some u"
  obtains u1 active new where
    "may_enter u (now s)"
    "get_user i s' = Some u1" "u_token_version u1 = u_token_version u" "u_account_level u1 = u_account_level u"
    "admission_status_of u1 = admission_status_of u" "\<not> lock_is_active u1 (now s)"
    "u_updated_at u1 = u_updated_at u \<or> u_updated_at u1 = now s"
    "profiles s' = profiles s" "user_roles s' = user_roles s" "now s' = now s"
    "revoked_access_tokens s' = revoked_access_tokens s"
    "case ac of None \<Rightarrow> active = None
     | Some sel \<Rightarrow> \<exists>rs. active = Some rs \<and> activated_roles (SSD_CONSTRAINTS cf) (DSD_CONSTRAINTS cf) (u_account_level u)
                       (role_of i s) (list_roles i s) (Some sel) = Inr rs"
    "refresh_tokens s' = refresh_tokens s @ [new]" "\<forall>t \<in> set (refresh_tokens s). rt_token_hash t \<noteq> rt_token_hash new"
    "rt_user_id new = i" "rt_token_hash new = hash_refresh_token cf raw" "rt_kind new = ''web''" "rt_revoked_at new = None"
    "rt_active_roles new = active" "rt_mfa_verified new = mv"
    "rt_expires_at new = (case se of Some e \<Rightarrow> e | None \<Rightarrow> now s + days (refresh_token_expire_days cf))"
    "rt_mfa_at new = (if mv then Some (case ma of Some a \<Rightarrow> a | None \<Rightarrow> now s) else None)"
    "ac_user_id c = i" "ac_account_level c = u_account_level u" "ac_role c = role_of i s" "ac_token_version c = u_token_version u"
    "ac_iat c = epoch_s (now s)" "ac_active_roles c = active" "ac_mfa c = mv" "ac_rt_hash c = Some (hash_refresh_token cf raw)"
    "ac_mfa_at c = (if mv then Some (epoch_s (case ma of Some a \<Rightarrow> a | None \<Rightarrow> now s)) else None)"
    "ac_exp c = (case se of None \<Rightarrow> epoch_s (now s) + access_token_expire_minutes cf * 60
                 | Some e \<Rightarrow> min (epoch_s (now s) + access_token_expire_minutes cf * 60) (epoch_s e))"
    "\<exists>n. ac_jti c = hexes s n"
proof -
  from assms(1)[unfolded issue_session_tokens_def] obtain s1 where s1: "check_account_locked i s = (Inr (), s1)"
    and r1: "bindA (the_user i) (\<lambda>u. seqA (liftA (assert_admission_allowed u)) (bindA (getA (role_of i)) (\<lambda>role.
      bindA (\<lambda>s. (reactivate cf u role ac s, s)) (\<lambda>active. sign_and_store cf u role td mv ma active se)))) s1 = (Inr (c, raw), s')"
    by (rule seqA_InrE)
  note lk = check_account_locked_Inr[OF s1 assms(2)]
  obtain u1 where u1: "get_user i s1 = Some u1" "\<not> lock_is_active u1 (now s)" "u_token_version u1 = u_token_version u"
    "u_account_level u1 = u_account_level u" "admission_status_of u1 = admission_status_of u"
    "u_updated_at u1 = u_updated_at u \<or> u_updated_at u1 = now s" using lk(7) by blast
  have hx: "hexes s1 = hexes s" using s1 assms(2)
    by (auto simp: check_account_locked_def assign_user_def split: if_splits)
  have ro: "role_of i s1 = role_of i s" "list_roles i s1 = list_roles i s"
    using lk(3,4) by (simp_all add: role_of_def get_profile_def list_roles_def)
  have id1: "u_id u1 = i" using u1(1) by (rule get_user_id)
  from r1 obtain active where adm: "assert_admission_allowed u1 = Inr ()"
    and act: "reactivate cf u1 (role_of i s) ac s1 = Inr active"
    and fin: "sign_and_store cf u1 (role_of i s) td mv ma active se s1 = (Inr (c, raw), s')"
    by (auto simp: the_user_def u1(1) ro bindA_def split: sum.splits)
  have gate: "may_enter u (now s)"
    using adm lk(1) u1(5) by (auto simp: may_enter_def assert_admission_allowed_def Let_def split: if_splits)
  have acts: "case ac of None \<Rightarrow> active = None
     | Some sel \<Rightarrow> \<exists>rs. active = Some rs \<and> activated_roles (SSD_CONSTRAINTS cf) (DSD_CONSTRAINTS cf) (u_account_level u)
                       (role_of i s) (list_roles i s) (Some sel) = Inr rs"
    using act by (auto simp: reactivate_def ro id1 u1(4) on_value_error_def split: option.splits sum.splits exc.splits)
  show ?thesis
  proof (rule sign_and_store_spec[OF fin, unfolded lk(2-6)])
    fix new
    assume users: "users s' = users s1" and new: "refresh_tokens s' = refresh_tokens s @ [new]"
      and rest: "rt_mfa_at new = (if mv then Some (case ma of Some a \<Rightarrow> a | None \<Rightarrow> now s) else None)"
      "ac_jti c = hexes s1 (hex_ix s1)"
    have gu: "get_user i s' = Some u1" using u1(1) users by (simp add: get_user_def)
    assume "profiles s' = profiles s" "user_roles s' = user_roles s" "now s' = now s"
      "revoked_access_tokens s' = revoked_access_tokens s" "\<forall>t \<in> set (refresh_tokens s). rt_token_hash t \<noteq> rt_token_hash new"
      "rt_user_id new = u_id u1" "rt_token_hash new = hash_refresh_token cf raw" "rt_kind new = ''web''" "rt_revoked_at new = None"
      "rt_active_roles new = active" "rt_mfa_verified new = mv"
      "rt_expires_at new = (case se of Some e \<Rightarrow> e | None \<Rightarrow> now s + days (refresh_token_expire_days cf))"
      "ac_user_id c = u_id u1" "ac_account_level c = u_account_level u1" "ac_role c = role_of i s" "ac_token_version c = u_token_version u1"
      "ac_iat c = epoch_s (now s)" "ac_active_roles c = active" "ac_mfa c = mv" "ac_rt_hash c = Some (hash_refresh_token cf raw)"
      "ac_mfa_at c = (if mv then Some (epoch_s (case ma of Some a \<Rightarrow> a | None \<Rightarrow> now s)) else None)"
      "ac_exp c = (case se of None \<Rightarrow> epoch_s (now s) + access_token_expire_minutes cf * 60
                 | Some e \<Rightarrow> min (epoch_s (now s) + access_token_expire_minutes cf * 60) (epoch_s e))"
    then show ?thesis
      by (intro that[OF gate gu u1(3-5,2,6) _ _ _ _ acts]) (use new rest lk u1 id1 hx in auto)
  qed
qed


text \<open>The steps of a refresh that succeeds.\<close>

lemma refresh_steps:
  assumes "refresh_access_token cf raw s = (Inr r, s')"
  obtains stored u where
    "length (filter (usable (hash_refresh_token cf raw)) (refresh_tokens s)) = 1"
    "find (\<lambda>t. rt_token_hash t = hash_refresh_token cf raw) (refresh_tokens (consumed (hash_refresh_token cf raw) s)) = Some stored"
    "now s < rt_expires_at stored" "get_user (rt_user_id stored) s = Some u"
    "\<not> lock_is_active u (now s)" "admission_is_active u"
    "issue_session_tokens cf (rt_user_id stored) False (rt_mfa_verified stored \<and> rt_mfa_at stored \<noteq> None) (rt_mfa_at stored)
       (rt_active_roles stored) (Some (rt_expires_at stored)) (consumed (hash_refresh_token cf raw) s) = (Inr r, s')"
proof -
  have "get_user i (consumed h s) = get_user i s" "now (consumed h s) = now s" for i h
    by (simp_all add: get_user_def consumed_def)
  then show ?thesis
    using assms unfolding refresh_access_token_def Let_def
    by (auto intro!: that dest: get_user_id split: option.splits if_splits)
qed

lemma find_hash:
  assumes "find (\<lambda>t. rt_token_hash t = h) (refresh_tokens (consumed h s)) = Some stored"
    and "length (filter (usable h) (refresh_tokens s)) = 1" and "hashes_distinct s"
  obtains t where "t \<in> set (refresh_tokens s)" "usable h t" "stored = t\<lparr>rt_revoked_at := Some (now s)\<rparr>"
    "stored \<in> set (refresh_tokens (consumed h s))" "rt_token_hash stored = h"
proof -
  obtain t where t: "t \<in> set (refresh_tokens s)" "usable h t"
    using assms(2) by (metis filter_empty_conv list.size(3) zero_neq_one)
  from assms(1) have st: "stored \<in> set (refresh_tokens (consumed h s))" "rt_token_hash stored = h"
    by (auto simp: find_Some_iff)
  then obtain t' where t': "t' \<in> set (refresh_tokens s)" "stored = (if usable h t' then t'\<lparr>rt_revoked_at := Some (now s)\<rparr> else t')"
    by (auto simp: consumed_def)
  then have "rt_token_hash t' = rt_token_hash t" using st(2) t(2) by (auto simp: usable_def split: if_splits)
  then have "t' = t" using assms(3) t(1) t'(1) by (auto simp: hashes_distinct_def distinct_map inj_on_def)
  with t t'(2) st show ?thesis by (intro that) auto
qed

text \<open>C18: A refresh token is used once and never prolongs its session.  A refresh that succeeds was for a
  stored, unrevoked and unexpired token of a user who may enter; the access token it issues stands for the
  user at the current level and version and does not outlive the session; the new refresh token
  keeps the expiry, the moment of the second factor and the selected roles; and whatever requests follow,
  the old token is never accepted again.\<close>

theorem refresh_rotates:
  assumes "refresh_access_token cf raw s = (Inr (c, raw'), s')" and "hashes_distinct s"
  shows "\<exists>t u new. t \<in> set (refresh_tokens s) \<and> rt_token_hash t = hash_refresh_token cf raw \<and> rt_revoked_at t = None
    \<and> now s < rt_expires_at t \<and> get_user (rt_user_id t) s = Some u \<and> may_enter u (now s)
    \<and> ac_user_id c = rt_user_id t \<and> ac_account_level c = u_account_level u \<and> ac_token_version c = u_token_version u
    \<and> ac_exp c \<le> epoch_s (rt_expires_at t)
    \<and> ac_mfa_at c = (if rt_mfa_verified t then map_option epoch_s (rt_mfa_at t) else None)
    \<and> new \<in> set (refresh_tokens s') \<and> rt_token_hash new = hash_refresh_token cf raw' \<and> rt_user_id new = rt_user_id t
    \<and> rt_expires_at new = rt_expires_at t \<and> rt_mfa_at new = (if rt_mfa_verified t then rt_mfa_at t else None)
    \<and> rt_active_roles new = map_option sort (rt_active_roles t)
    \<and> (\<forall>s2. (auth_step cf reg)\<^sup>*\<^sup>* s' s2 \<longrightarrow> fst (refresh_access_token cf raw s2) = Inl (BizError (AuthErr TOKEN_INVALID)))"
proof -
  let ?h = "hash_refresh_token cf raw" and ?s = "consumed (hash_refresh_token cf raw) s"
  obtain stored u where one: "length (filter (usable ?h) (refresh_tokens s)) = 1"
    and fnd: "find (\<lambda>t. rt_token_hash t = ?h) (refresh_tokens ?s) = Some stored"
    and live: "now s < rt_expires_at stored" "get_user (rt_user_id stored) s = Some u" "\<not> lock_is_active u (now s)" "admission_is_active u"
    and iss: "issue_session_tokens cf (rt_user_id stored) False (rt_mfa_verified stored \<and> rt_mfa_at stored \<noteq> None) (rt_mfa_at stored)
       (rt_active_roles stored) (Some (rt_expires_at stored)) ?s = (Inr (c, raw'), s')"
    by (rule refresh_steps[OF assms(1)])
  obtain t where t: "t \<in> set (refresh_tokens s)" "usable ?h t" "stored = t\<lparr>rt_revoked_at := Some (now s)\<rparr>"
    "stored \<in> set (refresh_tokens ?s)" "rt_token_hash stored = ?h"
    by (rule find_hash[OF fnd one assms(2)])
  have gu: "get_user (rt_user_id stored) ?s = Some u" and nw: "now ?s = now s"
    using live(2) by (simp_all add: get_user_def consumed_def)
  have gate: "may_enter u (now s)" using live(3,4) by (auto simp: may_enter_def admission_is_active_def ACTIVE_def PENDING_def REJECTED_def)
  have d: "hashes_distinct ?s"
    using assms(2) by (auto simp: hashes_distinct_def consumed_def comp_def intro!: arg_cong[of _ _ distinct] elim!: back_subst[of distinct])
  have never: "fst (refresh_access_token cf raw s2) = Inl (BizError (AuthErr TOKEN_INVALID))"
    if "(auth_step cf reg)\<^sup>*\<^sup>* s' s2" for s2
  proof -
    have ev: "evolves ?s s2"
      using evolves_trans[OF act_relD[OF ev_issue iss] auth_steps_evolve[OF that]] .
    with t(4,5) obtain t2 where "t2 \<in> set (refresh_tokens s2)" "rt_token_hash t2 = ?h" "rt_revoked_at t2 \<noteq> None"
      unfolding evolves_def tokens_stay_def by (force simp: t(3))
    moreover have "hashes_distinct s2" using ev d by (simp add: evolves_def)
    ultimately show ?thesis by (intro revoked_unusable) auto
  qed
  show ?thesis
  proof (rule issue_spec[OF iss gu])
    fix active new
    assume act: "case rt_active_roles stored of None \<Rightarrow> active = None
       | Some sel \<Rightarrow> \<exists>rs. active = Some rs \<and> activated_roles (SSD_CONSTRAINTS cf) (DSD_CONSTRAINTS cf) (u_account_level u)
                         (role_of (rt_user_id stored) ?s) (list_roles (rt_user_id stored) ?s) (Some sel) = Inr rs"
      and new: "refresh_tokens s' = refresh_tokens ?s @ [new]" "rt_user_id new = rt_user_id stored"
        "rt_token_hash new = hash_refresh_token cf raw'" "rt_active_roles new = active"
        "rt_expires_at new = (case Some (rt_expires_at stored) of Some e \<Rightarrow> e | None \<Rightarrow> now ?s + days (refresh_token_expire_days cf))"
      and mfa: "rt_mfa_at new = (if rt_mfa_verified stored \<and> rt_mfa_at stored \<noteq> None
          then Some (case rt_mfa_at stored of Some a \<Rightarrow> a | None \<Rightarrow> now ?s) else None)"
      and c: "ac_user_id c = rt_user_id stored" "ac_account_level c = u_account_level u" "ac_token_version c = u_token_version u"
        "ac_mfa_at c = (if rt_mfa_verified stored \<and> rt_mfa_at stored \<noteq> None then Some (epoch_s (case rt_mfa_at stored of Some a \<Rightarrow> a | None \<Rightarrow> now ?s)) else None)"
        "ac_exp c = (case Some (rt_expires_at stored) of None \<Rightarrow> epoch_s (now ?s) + access_token_expire_minutes cf * 60
                   | Some e \<Rightarrow> min (epoch_s (now ?s) + access_token_expire_minutes cf * 60) (epoch_s e))"
    have roles: "active = map_option sort (rt_active_roles t)"
      using act by (auto simp: t(3) dest: activated_cases(3) split: option.splits)
    show ?thesis
      using t(1,2) live(1,2) gate new mfa c roles never
      by - (rule exI[of _ t], rule exI[of _ u], rule exI[of _ new],
        auto simp: t(3) usable_def split: option.splits if_splits)
  qed
qed
lemma reactivation:
  assumes "activated_roles ssd dsd l p xs (Some sel) = Inr rs"
  shows "activated_roles ssd dsd l p xs (Some rs) = Inr rs" "distinct rs"
proof -
  from activated_cases(3)[OF assms refl] have rs: "distinct sel" "set sel \<subseteq> set (authorized_roles l p xs)" "rs = sort sel" by auto
  have "sort rs = rs" by (simp add: rs(3) sort_key_id_if_sorted)
  then show "activated_roles ssd dsd l p xs (Some rs) = Inr rs" "distinct rs"
    using activated_cases(1,2)[OF assms] rs
    by (simp_all add: activated_roles_def Let_def authorized_roles_def)
qed

text \<open>What the hypotheses on the moment say: the clock is in range and later than the last change of the user,
  the token lives for some minutes, and neither the database nor the cache has refused it already.\<close>

definition fair_moment ::
    "auth_config \<Rightarrow> l2_cache \<Rightarrow> instant option \<Rightarrow> access_claims \<Rightarrow> user \<Rightarrow> 's auth_db_scheme \<Rightarrow> bool" where
  "fair_moment cf l2 se c u s \<longleftrightarrow>
     0 \<le> now s \<and> now s < seconds 253402300800 \<and> u_updated_at u \<le> now s \<and> 1 \<le> access_token_expire_minutes cf
     \<and> (\<forall>e \<in> set_option se. now s + seconds 1 \<le> e) \<and> \<not> is_revoked (ac_jti c) s \<and> \<not> l2_blocked l2 (ac_jti c)
     \<and> (\<forall>m \<in> set_option (l2_tv_min l2 (u_id u)). m \<le> u_token_version u)
     \<and> admission_status_of u \<in> set VALID_STATUSES"

text \<open>C19: A session that is issued is accepted.  The access token just issued for a user is resolved, through
  the authority as well as from the tables, to that user with the current level and exactly the roles the
  session activates.\<close>

theorem issued_session_accepted:
  assumes "issue_session_tokens cf i td mv ma ac se s = (Inr (c, raw), s')" and "get_user i s = Some u"
    and "roles_of_session cf (u_account_level u) (role_of i s) (list_roles i s) ac = Inr rs"
    and "fair_moment cf l2 se c u s"
  shows "\<exists>cur. resolve_current_user cf l2 seam c s' = Inr cur \<and> cu_id cur = i
    \<and> cu_account_level cur = u_account_level u \<and> cu_active_roles cur = Some rs"
proof (rule issue_spec[OF assms(1,2)])
  fix u1 active
  assume gate: "may_enter u (now s)" and gu: "get_user i s' = Some u1"
    and u1: "u_token_version u1 = u_token_version u" "u_account_level u1 = u_account_level u"
      "admission_status_of u1 = admission_status_of u" "\<not> lock_is_active u1 (now s)"
      "u_updated_at u1 = u_updated_at u \<or> u_updated_at u1 = now s"
    and fr: "profiles s' = profiles s" "user_roles s' = user_roles s" "now s' = now s"
      "revoked_access_tokens s' = revoked_access_tokens s"
    and act: "case ac of None \<Rightarrow> active = None
       | Some sel \<Rightarrow> \<exists>rs. active = Some rs \<and> activated_roles (SSD_CONSTRAINTS cf) (DSD_CONSTRAINTS cf) (u_account_level u)
                         (role_of i s) (list_roles i s) (Some sel) = Inr rs"
    and c: "ac_user_id c = i" "ac_token_version c = u_token_version u" "ac_iat c = epoch_s (now s)" "ac_active_roles c = active"
      "ac_exp c = (case se of None \<Rightarrow> epoch_s (now s) + access_token_expire_minutes cf * 60
                 | Some e \<Rightarrow> min (epoch_s (now s) + access_token_expire_minutes cf * 60) (epoch_s e))"
  note fair = assms(4)[unfolded fair_moment_def]
  have id: "u_id u = i" "u_id u1 = i" using assms(2) gu by (simp_all add: get_user_id)
  have ro: "role_of i s' = role_of i s" "list_roles i s' = list_roles i s"
    using fr by (simp_all add: role_of_def get_profile_def list_roles_def)
  have e: "seconds (epoch_s t) \<le> t" "t < seconds (epoch_s t) + seconds 1" for t
    by (simp_all add: epoch_s_def)
  have "now s < seconds (ac_exp c)"
    using e[of "now s"] fair by (cases se) (use e(2)[of "the se"] in \<open>auto simp: c(5) min_def\<close>)
  then have dec: "decode_access_token c (now s')" using e(1)[of "now s"] by (simp add: decode_access_token_def c(3) fr)
  have iat: "fromtimestamp (ac_iat c) = Some (seconds (epoch_s (now s)))"
    using fair e[of "now s"] by (auto simp: fromtimestamp_def c(3))
  have fresh: "\<not> IAT_TOLERANCE < u_updated_at u1 - seconds (epoch_s (now s))"
    using u1(5) fair e(2)[of "now s"] by (auto simp: IAT_TOLERANCE_def)
  have adm: "admission_is_active u1"
    using gate fair u1(3) by (auto simp: may_enter_def admission_is_active_def VALID_STATUSES_def)
  have roles: "roles_of_session cf (u_account_level u) (role_of i s) (list_roles i s) active = Inr rs"
    "active = None \<or> active = Some rs \<and> distinct rs"
    using act assms(3) reactivation by (fastforce simp: roles_of_session_def split: option.splits if_splits)+
  have l2: "\<not> token_version_is_stale l2 i (ac_token_version c)"
    using fair by (auto simp: token_version_is_stale_def c(2) id(1) split: option.splits)
  have "\<not> is_revoked (ac_jti c) s'" using fair fr by (simp add: is_revoked_def)
  then have "authorize_user cf i (ac_token_version c) (Some (ac_iat c)) False (Some (ac_jti c)) active s' =
      Inr \<lparr>vd_ok = True, vd_cause = None, vd_account_level = Some (u_account_level u), vd_role = Some (role_of i s),
           vd_active_roles = Some rs\<rparr>"
    using gu u1 adm fresh roles(1) iat by (simp add: authorize_user_def fr(3) c(2) ro Let_def)
  moreover have "\<exists>cur. resolve_locally cf c active s' = Inr cur \<and> cu_id cur = i
    \<and> cu_account_level cur = u_account_level u \<and> cu_active_roles cur = Some rs"
    using gu u1 adm fresh roles(1) iat id by (simp add: resolve_locally_def fr(3) c ro Let_def on_value_error_def)
  ultimately show ?thesis
    using dec l2 fair roles(2)
    by (cases seam) (auto simp: resolve_current_user_def c resolve_via_seam_def)
qed

section \<open>Witnesses\<close>

definition cf0 :: auth_config where
  "cf0 = \<lparr>access_token_expire_minutes = 15, refresh_token_expire_days = 7, admission_mode = ''open'',
     SSD_CONSTRAINTS = [], DSD_CONSTRAINTS = [], redis_configured = False, limiter_check = (\<lambda>_ _ _. True),
     login_ip_max_per_min = 10, login_global_max_per_min = 100, login_window_seconds = 60,
     sha256 = (\<lambda>x. x), code_hmac = (\<lambda>x. x),
     ph_hash = (\<lambda>salt x. CHR ''$'' # x), ph_verify = (\<lambda>h x. h = CHR ''$'' # x)\<rparr>"

definition user0 :: user where
  "user0 = (new_user 1 ''ann'' ''$pw'' ''normal'' (Some ''a@b'') None 0)"

definition token0 :: refresh_token where
  "token0 = \<lparr>rt_id = 50, rt_user_id = 1, rt_token_hash = ''r0'', rt_kind = ''web'', rt_mfa_verified = False, rt_mfa_at = None,
     rt_active_roles = None, rt_expires_at = days 7, rt_created_at = 0, rt_revoked_at = None\<rparr>"

definition auth0 :: auth_db where
  "auth0 = \<lparr>now = 0, message_bus_enabled = False, pks = of_nat, pk_ix = 0, hexes = (\<lambda>n. dec_str n), hex_ix = 0,
     event_keys = {}, outbox_events = [], outbox_archive = [], event_failures = [], dlq_messages = [], cache_fx = [],
     secrets = (\<lambda>n. CHR ''s'' # dec_str n), secret_ix = 0, rnds = (\<lambda>n. n), rnd_ix = 0,
     users = [user0], profiles = [], user_roles = [], refresh_tokens = [token0], revoked_access_tokens = [],
     email_verifications = [], phone_verifications = [], magic_links = [], totps = [], pending_registrations = [],
     audit_logs = []\<rparr>"

definition cur0 :: current_user where
  "cur0 = \<lparr>cu_id = 1, cu_account_level = ''normal'', cu_role = ''member'', cu_active_roles = None, cu_email = None, cu_phone = None\<rparr>"

definition claims0 :: access_claims where
  "claims0 = fst (create_access_token cf0 1 ''normal'' ''member'' False 0 False None None None None auth0)"

definition l2_empty :: l2_cache where
  "l2_empty = \<lparr>l2_blocked = (\<lambda>_. False), l2_tv_min = (\<lambda>_. None)\<rparr>"

lemmas issue_eval = bindA_def issue_session_tokens_def check_account_locked_def the_user_def assert_admission_allowed_def
  admission_status_of_def admission_is_active_def lock_is_active_def reactivate_def sign_and_store_def fresh_secret_def
  fresh_pk_def fresh_hex_def create_access_token_def store_refresh_token_def insert_refresh_token_def hash_refresh_token_def
  ACTIVE_def PENDING_def REJECTED_def get_user_def auth0_def user0_def token0_def new_user_def cf0_def Let_def

lemma auth0_user [simp]: "get_user 1 auth0 = Some user0" "hashes_distinct auth0"
  by (simp_all add: get_user_def auth0_def user0_def new_user_def hashes_distinct_def)

lemma ended_sessions_stay_ended_witness:
  "(\<exists>e. resolve_current_user cf0 l2_empty True claims0 (logout cur0 auth0) = Inl e)
   \<and> fst (refresh_access_token cf0 ''r0'' (logout cur0 auth0)) = Inl (BizError (AuthErr TOKEN_INVALID))"
proof -
  have k: "session_kill cf0 1 auth0 (logout cur0 auth0)" "full_kill 1 auth0 (logout cur0 auth0)"
    by (auto simp: cur0_def intro: session_kill.by_logout full_kill.intros)
  have c: "version_of 1 auth0 = Some 0" "ac_user_id claims0 = 1" "ac_token_version claims0 \<le> 0"
    by (simp_all add: version_of_def user0_def new_user_def claims0_def create_access_token_def fresh_hex_def Let_def)
  have t: "token0 \<in> set (refresh_tokens auth0)" "rt_user_id token0 = 1" "rt_token_hash token0 = hash_refresh_token cf0 ''r0''"
    by (simp_all add: auth0_def token0_def hash_refresh_token_def cf0_def)
  from ended_sessions_stay_ended[OF k(1) rtranclp.rtrancl_refl[of "auth_step cf0 []"] c auth0_user(2), of l2_empty True "''r0''"]
  show ?thesis using k(2) t by blast
qed

lemma refresh_rotates_witness:
  "\<exists>c raw' s'. refresh_access_token cf0 ''r0'' auth0 = (Inr (c, raw'), s') \<and> ac_user_id c = 1
     \<and> fst (refresh_access_token cf0 ''r0'' s') = Inl (BizError (AuthErr TOKEN_INVALID))"
proof -
  have "\<exists>c raw' s'. refresh_access_token cf0 ''r0'' auth0 = (Inr (c, raw'), s') \<and> ac_user_id c = 1"
    by (simp add: refresh_access_token_def Let_def valid_refresh_token_def hash_refresh_token_def usable_def consumed_def
        get_user_def lock_is_active_def admission_is_active_def issue_eval)
  then obtain c raw' s' where r: "refresh_access_token cf0 ''r0'' auth0 = (Inr (c, raw'), s')" "ac_user_id c = 1" by blast
  from refresh_rotates[OF r(1) auth0_user(2), of "[]"]
  have "fst (refresh_access_token cf0 ''r0'' s') = Inl (BizError (AuthErr TOKEN_INVALID))" by blast
  with r show ?thesis by blast
qed

lemma issued_session_accepted_witness:
  "\<exists>c raw s'. issue_session_tokens cf0 1 False False None None None auth0 = (Inr (c, raw), s')
    \<and> (\<exists>cur. resolve_current_user cf0 l2_empty True c s' = Inr cur \<and> cu_id cur = 1
         \<and> cu_account_level cur = ''normal'' \<and> cu_active_roles cur = Some [''normal:member''])"
proof -
  have "\<exists>c raw s'. issue_session_tokens cf0 1 False False None None None auth0 = (Inr (c, raw), s') \<and> \<not> is_revoked (ac_jti c) auth0"
    by (simp add: issue_eval is_revoked_def)
  then obtain c raw s' where r: "issue_session_tokens cf0 1 False False None None None auth0 = (Inr (c, raw), s')"
      "\<not> is_revoked (ac_jti c) auth0" by blast
  have roles: "roles_of_session cf0 (u_account_level user0) (role_of 1 auth0) (list_roles 1 auth0) None = Inr [''normal:member'']"
    by (simp add: roles_of_session_def role_of_def get_profile_def list_roles_def user0_def new_user_def auth0_def cf0_def role_eval)
  have fair: "fair_moment cf0 l2_empty None c user0 auth0"
    using r(2) by (simp add: fair_moment_def l2_empty_def auth0_def user0_def new_user_def cf0_def VALID_STATUSES_def
        admission_status_of_def ACTIVE_def)
  from issued_session_accepted[OF r(1) auth0_user(1) roles fair, of True] r(1)
  show ?thesis by (auto simp: user0_def new_user_def)
qed

end
