(* ===== verification/Auth_Attempts.thy ===== *)
theory Auth_Attempts
  imports Auth_Safety
begin

text \<open>
  What attempts at an account leave behind (\<open>auth/service_auth.py\<close>, \<open>auth/service_verify.py\<close>,
  \<open>auth/db/session.py\<close>): failed passwords and codes, a successful login, and a registration for an account
  that exists.
\<close>

section \<open>Attempts at a login\<close>

text \<open>A request with a secret: each runs in a session of its own.\<close>

datatype attempt =
    By_password string string string
  | By_delegation string string string
  | By_code string string

fun try_login :: "(string \<times> errcode) list \<Rightarrow> auth_config \<Rightarrow> attempt \<Rightarrow> ('s auth_db_scheme, unit) act" where
  "try_login reg cf (By_password account password ip) =
     get_auth_session reg (bindA (login_password cf account password ip) (\<lambda>_. retA ()))"
| "try_login reg cf (By_delegation account password ip) =
     get_auth_session reg (bindA (verify_credentials cf account password ip) (\<lambda>_. retA ()))"
| "try_login reg cf (By_code contact code) =
     get_auth_session reg (bindA (login_code cf contact code) (\<lambda>_. retA ()))"

fun attempts :: "(string \<times> errcode) list \<Rightarrow> auth_config \<Rightarrow> attempt list \<Rightarrow> 's auth_db_scheme \<Rightarrow> (exc + unit) list \<times> 's auth_db_scheme" where
  "attempts reg cf [] s = ([], s)"
| "attempts reg cf (x # xs) s =
     (let (r, s) = try_login reg cf x s; (rs, s) = attempts reg cf xs s in (r # rs, s))"

text \<open>The secret is wrong for every account or stored code.\<close>

fun wrong_secret :: "auth_config \<Rightarrow> 's auth_db_scheme \<Rightarrow> attempt \<Rightarrow> bool" where
  "wrong_secret cf s (By_password account password ip) \<longleftrightarrow>
     list_all (\<lambda>u. \<not> verifypwd cf password (u_hashed_password u)) (users s)"
| "wrong_secret cf s (By_delegation account password ip) \<longleftrightarrow>
     list_all (\<lambda>u. \<not> verifypwd cf password (u_hashed_password u)) (users s)"
| "wrong_secret cf s (By_code contact code) \<longleftrightarrow>
     list_all (\<lambda>v. vf_code_hash v \<noteq> hash_code cf code (vf_purpose v) (vf_contact v) (vf_nonce v))
       (email_verifications s @ phone_verifications s)"

lemma wrong_secret_same: "same_auth s s' \<Longrightarrow> wrong_secret cf s' x = wrong_secret cf s x"
  by (cases x) (simp_all add: same_auth_def)

lemma find_by_identity_in: "find_by_identity a e p s = Some u \<Longrightarrow> u \<in> set (users s)"
  by (auto simp: find_by_identity_def find_Some_iff)

lemma newest_in: "newest vs = Some v \<Longrightarrow> v \<in> set vs"
  by (induction vs arbitrary: v) (auto split: option.splits if_splits)

lemma latest_in:
  assumes "latest c v p s = Some w"
  shows "w \<in> set (email_verifications s @ phone_verifications s)"
proof -
  from newest_in[OF assms[unfolded latest_def]] have "w \<in> set (verifications c s)" by simp
  then show ?thesis by (cases c) auto
qed

lemma wrong_code_raises: "wrong_secret cf s (By_code v x) \<Longrightarrow> \<exists>e s'. consume_code cf c w x p s = (Inl e, s')"
  by (cases "latest c w p s") (auto simp: consume_code_def consume_def Let_def list_all_iff dest!: latest_in)

text \<open>Whatever comes before, the tail of both password requests raises.\<close>

lemma wrong_tail:
  "\<exists>e' s'. bindA m (\<lambda>_. seqA (failed_password i) (seqA (modA h) (raiseA e))) s = (Inl e', s')"
  by (auto simp: bindA_def split: prod.splits sum.splits)

lemma login_password_wrong:
  assumes "wrong_secret cf s (By_password a p ip)"
  shows "\<exists>e s'. login_password cf a p ip s = (Inl e, s')"
proof -
  let ?a = "py_strip a"
  have "\<not> verifypwd cf p (u_hashed_password u)" if "find_by_identity ?a (Some ?a) (Some ?a) s = Some u" for u
    using assms find_by_identity_in[OF that] by (auto simp: list_all_iff)
  then show ?thesis
    unfolding login_password_def Let_def
    by (cases "check_password_login_rate_limit cf ip"; cases "find_by_identity ?a (Some ?a) (Some ?a) s"; cases "ip = []")
      (simp_all add: wrong_tail)
qed

lemma verify_credentials_wrong:
  assumes "wrong_secret cf s (By_delegation a p ip)"
  shows "\<exists>e s'. verify_credentials cf a p ip s = (Inl e, s')"
proof (cases "find_by_identity (py_strip a) (Some (py_strip a)) (Some (py_strip a)) s")
  case (Some u)
  then have "\<not> verifypwd cf p (u_hashed_password u)"
    using assms find_by_identity_in[OF Some] by (auto simp: list_all_iff)
  then show ?thesis
    using Some by (simp add: verify_credentials_def Let_def wrong_tail)
qed (simp add: verify_credentials_def Let_def)

lemma login_code_wrong:
  assumes "wrong_secret cf s (By_code v x)"
  shows "\<exists>e s'. login_code cf v x s = (Inl e, s')"
proof (cases "detect v")
  case (Inr c)
  obtain e s' where "consume_code cf c v x ''login'' s = (Inl e, s')" using wrong_code_raises[OF assms] by blast
  with Inr show ?thesis by (simp add: login_code_def bindA_def)
qed (simp add: login_code_def)

lemma wrong_attempt_raises:
  assumes "wrong_secret cf s x"
  shows "\<exists>e s'. try_login reg cf x s = (Inl e, s') \<and> same_auth s s'"
proof -
  have "\<exists>e s'. try_login reg cf x s = (Inl e, s')"
  proof (cases x)
    case (By_password a p ip)
    with login_password_wrong assms obtain e s' where "login_password cf a p ip s = (Inl e, s')" by blast
    then show ?thesis by (simp add: By_password get_auth_session_def bindA_def)
  next
    case (By_delegation a p ip)
    with verify_credentials_wrong assms obtain e s' where "verify_credentials cf a p ip s = (Inl e, s')" by blast
    then show ?thesis by (simp add: By_delegation get_auth_session_def bindA_def)
  next
    case (By_code v c)
    with login_code_wrong assms obtain e s' where "login_code cf v c s = (Inl e, s')" by blast
    then show ?thesis by (simp add: By_code get_auth_session_def bindA_def)
  qed
  moreover have "same_auth s s'" if "try_login reg cf x s = (Inl e, s')" for e s'
    using that by (cases x) (auto dest: request_raises)
  ultimately show ?thesis by blast
qed

section \<open>Five failures in one session\<close>

text \<open>What the counter is for: after five failures recorded one after the other the account is locked.\<close>

fun failures :: "nat \<Rightarrow> uuid \<Rightarrow> 's auth_db_scheme \<Rightarrow> 's auth_db_scheme" where
  "failures 0 i s = s"
| "failures (Suc n) i s = failures n i (snd (failed_password i s))"

lemma failed_password_user:
  assumes "get_user i s = Some u"
  shows "get_user i (snd (failed_password i s)) = Some (u\<lparr>u_failed_login_attempts := u_failed_login_attempts u + 1,
       u_is_locked := FAIL_LOCK_THRESHOLD - 1 \<le> u_failed_login_attempts u,
       u_locked_until := if FAIL_LOCK_THRESHOLD - 1 \<le> u_failed_login_attempts u then Some (now s + minutes FAIL_LOCK_MINUTES)
                         else u_locked_until u, u_updated_at := now s\<rparr>)"
    and "now (snd (failed_password i s)) = now s"
proof -
  let ?f = "failed_login i FAIL_LOCK_THRESHOLD FAIL_LOCK_MINUTES s"
  have g: "get_user i ?f = Some (u\<lparr>u_failed_login_attempts := u_failed_login_attempts u + 1,
       u_is_locked := FAIL_LOCK_THRESHOLD - 1 \<le> u_failed_login_attempts u,
       u_locked_until := if FAIL_LOCK_THRESHOLD - 1 \<le> u_failed_login_attempts u then Some (now s + minutes FAIL_LOCK_MINUTES)
                         else u_locked_until u, u_updated_at := now s\<rparr>)" (is "_ = Some ?v")
    using assms by (simp add: failed_login_def get_user_update)
  have n: "now ?f = now s" by (simp add: failed_login_def)
  have e: "failed_password i s = (Inr (), if FAIL_LOCK_THRESHOLD \<le> u_failed_login_attempts ?v
      then notify_user_banned i (log_audit (Some i) ''account_locked'' ?f) else ?f)"
    using g by (simp add: failed_password_def record_failed_attempt_def the_user_def optR_def bindA_def)
  show "get_user i (snd (failed_password i s)) = Some ?v" using g unfolding e by (simp add: get_user_def)
  show "now (snd (failed_password i s)) = now s" using n unfolding e by simp
qed

lemma five_failures_lock:
  assumes "get_user i s = Some u" and "0 \<le> u_failed_login_attempts u"
  shows "\<exists>v. get_user i (failures 5 i s) = Some v \<and> lock_is_active v (now (failures 5 i s))"
proof -
  have "\<exists>v. get_user i (failures n i s) = Some v \<and> u_failed_login_attempts v = u_failed_login_attempts u + int n
      \<and> now (failures n i s) = now s \<and> (n \<noteq> 0 \<and> 5 \<le> u_failed_login_attempts u + int n \<longrightarrow> lock_is_active v (now s))"
    if "get_user i s = Some u" for n u s and i using that
  proof (induction n arbitrary: s u)
    case (Suc n)
    have "5 \<le> u_failed_login_attempts u + 1 \<Longrightarrow> FAIL_LOCK_THRESHOLD - 1 \<le> u_failed_login_attempts u"
      by (simp add: FAIL_LOCK_THRESHOLD_def)
    then show ?case
      using Suc.IH[OF failed_password_user(1)[OF Suc.prems]] failed_password_user[OF Suc.prems]
      by (cases n) (auto simp: lock_is_active_def FAIL_LOCK_MINUTES_def algebra_simps)
  qed simp
  from this[OF assms(1), of 5] assms(2) show ?thesis by auto
qed

section \<open>Properties of attempts\<close>

text \<open>A failed attempt leaves no trace.  However many attempts with wrong passwords or wrong codes are made,
  each raises and the tables of the service are afterwards what they were before: neither the count of
  failures of an account or of a code nor a lock survives the request, because the session rolls back what
  the failing request has written; whereas five failures recorded in one session would lock the account.\<close>

theorem failed_attempts_leave_no_trace:
  assumes "\<forall>x \<in> set xs. wrong_secret cf s x"
  shows "same_auth s (snd (attempts reg cf xs s)) \<and> (\<forall>r \<in> set (fst (attempts reg cf xs s)). \<exists>e. r = Inl e)
    \<and> (\<forall>i u. get_user i s = Some u \<and> 0 \<le> u_failed_login_attempts u \<longrightarrow>
         (\<exists>v. get_user i (failures 5 i s) = Some v \<and> lock_is_active v (now (failures 5 i s))))"
proof -
  have "same_auth s (snd (attempts reg cf xs s)) \<and> (\<forall>r \<in> set (fst (attempts reg cf xs s)). \<exists>e. r = Inl e)"
    using assms
  proof (induction xs arbitrary: s)
    case (Cons x xs)
    obtain e s' where e: "try_login reg cf x s = (Inl e, s')" "same_auth s s'"
      using wrong_attempt_raises[of cf s x reg] Cons.prems by auto
    have "\<forall>y \<in> set xs. wrong_secret cf s' y" using Cons.prems wrong_secret_same[OF e(2)] by auto
    from Cons.IH[OF this] e same_auth_trans[OF e(2)] show ?case
      by (auto simp: Let_def split: prod.splits)
  qed simp
  then show ?thesis using five_failures_lock by blast
qed

lemma failed_attempts_leave_no_trace_witness:
  "same_auth auth0 (snd (attempts [] cf0 (replicate 100 (By_password ''ann'' ''pw?'' ''::1'') @ [By_code ''a@b'' ''000000'']) auth0))"
proof -
  have "\<forall>x \<in> set (replicate 100 (By_password ''ann'' ''pw?'' ''::1'') @ [By_code ''a@b'' ''000000'']). wrong_secret cf0 auth0 x"
    by (simp add: auth0_def user0_def new_user_def verifypwd_def PASSWORD_MAX_LENGTH_def cf0_def)
  from failed_attempts_leave_no_trace[OF this, of "[]"] show ?thesis by blast
qed

section \<open>A login is a change of the account\<close>

lemma the_user_id: "the_user i s = (Inr u, s') \<Longrightarrow> u_id u = i"
  by (auto simp: the_user_def optR_def get_user_id split: option.splits)

lemma answer_names_user:
  "create_auth_response cf i b s = (Inr r, s') \<Longrightarrow> ar_user_id r = i"
  "finalize_auth_response cf i s = (Inr r, s') \<Longrightarrow> ar_user_id r = i"
proof -
  have c: "ar_user_id r = i" if "create_auth_response cf i b s = (Inr r, s')" for i b s r and s' :: "'a auth_db_scheme"
    using that
    by (auto simp: create_auth_response_def seqA_def without_tokens_def dest!: the_user_id split: if_splits prod.splits)
  show "create_auth_response cf i b s = (Inr r, s') \<Longrightarrow> ar_user_id r = i" by (rule c)
  show "ar_user_id r = i" if "finalize_auth_response cf i s = (Inr r, s')"
    using that
    by (auto simp: finalize_auth_response_def check_admin_totp_required_def seqA_def without_tokens_def
        dest!: the_user_id c split: if_splits option.splits)
qed

text \<open>The latest change of a user lies at or after a moment.\<close>

definition changed_since :: "instant \<Rightarrow> uuid \<Rightarrow> 's auth_db_scheme \<Rightarrow> bool" where
  "changed_since t i s \<longleftrightarrow> (\<exists>u. get_user i s = Some u \<and> t \<le> u_updated_at u \<and> u_updated_at u \<le> now s)"

lemma changed_since_evolves: "changed_since t i s \<Longrightarrow> evolves s s' \<Longrightarrow> changed_since t i s'"
  unfolding changed_since_def evolves_def versions_rise_def by force

lemma update_changes: "get_user i s = Some u \<Longrightarrow> (\<And>v. u_id (f v) = u_id v) \<Longrightarrow> changed_since (now s) i (update_user i f s)"
  by (simp add: changed_since_def get_user_update)

lemma old_token_refused:
  assumes "changed_since t (ac_user_id c) s" and "seconds (ac_iat c) + IAT_TOLERANCE < t" and "IAT_TOLERANCE < t"
  shows "\<exists>e. resolve_current_user cf l2 seam c s = Inl e"
proof -
  obtain u where u: "get_user (ac_user_id c) s = Some u" "t \<le> u_updated_at u"
    using assms(1) by (auto simp: changed_since_def)
  have old: "IAT_TOLERANCE < u_updated_at u - (case fromtimestamp (ac_iat c) of Some i \<Rightarrow> i | None \<Rightarrow> 0)"
    using u(2) assms(2,3) by (auto simp: fromtimestamp_def)
  have "\<exists>e. resolve_locally cf c (ac_active_roles c) s = Inl e"
    using u(1) old by (auto simp: resolve_locally_def split: option.splits)
  moreover have "\<exists>cause. authorize_user cf (ac_user_id c) (ac_token_version c) (Some (ac_iat c)) adm jti sel s = Inr (refuse cause)" for adm jti sel
    using u(1) old by (auto simp: authorize_user_def Let_def)
  then have "\<exists>e. bindR (authorize_user cf (ac_user_id c) (ac_token_version c) (Some (ac_iat c)) False (Some (ac_jti c))
                 (ac_active_roles c) s) (\<lambda>v. resolve_via_seam (Some v) (ac_user_id c) (ac_active_roles c)) = Inl e"
    by (metis bindR_simps(2) resolve_via_seam_refused)
  ultimately show ?thesis by (auto simp: resolve_current_user_def)
qed

lemma login_changes:
  assumes "login_password cf a p ip s = (Inr r, s')"
  shows "changed_since (now s) (ar_user_id r) s'"
proof -
  obtain u where u: "find_by_identity (py_strip a) (Some (py_strip a)) (Some (py_strip a)) s = Some u"
    using assms by (auto simp: login_password_def Let_def split: option.splits if_splits sum.splits)
  let ?i = "u_id u" and ?h = "if u_is_locked u then notify_user_updated (u_id u) else (\<lambda>s. s)"
  from assms u obtain t where t: "check_account_locked ?i s = (Inr (), t)"
    and fin: "finalize_auth_response cf ?i (log_audit (Some ?i) ''login_password'' (?h (reset_login_failures ?i t))) = (Inr r, s')"
    by (auto simp: login_password_def Let_def bindA_def split: if_splits sum.splits prod.splits)
  have r: "ar_user_id r = ?i" using answer_names_user(2)[OF fin] .
  have "u \<in> set (users s)" using u by (rule find_by_identity_in)
  then obtain v where "get_user ?i s = Some v" by (cases "get_user ?i s") (auto simp: get_user_def find_None_iff)
  then obtain w where w: "get_user ?i t = Some w" "now t = now s"
    using check_account_locked_Inr[OF t] by blast
  have "changed_since (now t) ?i (reset_login_failures ?i t)"
    unfolding reset_login_failures_def by (rule update_changes[OF w(1)]) simp
  moreover have "evolves (reset_login_failures ?i t) s'"
    by (rule evolves_trans[OF _ evolves_trans[OF evolves_notify(5) act_relD[OF ev_finalize fin]]]) simp
  ultimately show ?thesis using changed_since_evolves w(2) r by metis
qed

text \<open>A login with the password ends the other sessions of the account for now.  Recording the login
  updates the row of the user, and a token issued more than five seconds before the last update is taken to
  be older than a change of the password: whatever requests follow, it is not accepted again.\<close>

theorem login_ends_other_sessions:
  assumes "get_auth_session reg (login_password cf a p ip) s = (Inr r, s1)" and "(auth_step cf reg)\<^sup>*\<^sup>* s1 s2"
    and "ac_user_id c = ar_user_id r" and "seconds (ac_iat c) + IAT_TOLERANCE < now s" and "IAT_TOLERANCE < now s"
  shows "\<exists>e. resolve_current_user cf l2 seam c s2 = Inl e"
proof -
  have "changed_since (now s) (ac_user_id c) s1"
    using assms(1,3) login_changes by (simp add: request_returns)
  then have "changed_since (now s) (ac_user_id c) s2"
    using auth_steps_evolve[OF assms(2)] by (rule changed_since_evolves)
  then show ?thesis using assms(4,5) by (rule old_token_refused)
qed

lemma login_ends_other_sessions_witness:
  "\<exists>r s1. get_auth_session [] (login_password cf0 ''ann'' ''pw'' []) (auth0\<lparr>now := seconds 60\<rparr>) = (Inr r, s1)
    \<and> (\<exists>e. resolve_current_user cf0 l2_empty False claims0 s1 = Inl e)"
proof -
  have "\<exists>r s1. login_password cf0 ''ann'' ''pw'' [] (auth0\<lparr>now := seconds 60\<rparr>) = (Inr r, s1) \<and> ar_user_id r = 1"
    by (simp add: login_password_def find_by_identity_def py_strip_def py_rstrip_def py_space_def verifypwd_def PASSWORD_MAX_LENGTH_def
        reset_login_failures_def update_user_def log_audit_def finalize_auth_response_def check_admin_totp_required_def
        create_auth_response_def without_tokens_def optR_def issue_eval)
  then obtain r s1 where r: "get_auth_session [] (login_password cf0 ''ann'' ''pw'' []) (auth0\<lparr>now := seconds 60\<rparr>) = (Inr r, s1)"
      "ar_user_id r = 1" by (auto simp: request_returns)
  have c: "ac_user_id claims0 = 1" "ac_iat claims0 = 0"
    by (simp_all add: claims0_def create_access_token_def fresh_hex_def Let_def epoch_s_def auth0_def)
  from login_ends_other_sessions[OF r(1) rtranclp.rtrancl_refl, of claims0 l2_empty False] r c
  show ?thesis by (auto simp: IAT_TOLERANCE_def)
qed

section \<open>A pending registration of an existing account\<close>

text \<open>Argon2 as the code relies on it: a stored hash is accepted for the password it was made from and for
  nothing else.\<close>

definition argon2 :: "auth_config \<Rightarrow> bool" where
  "argon2 cf \<longleftrightarrow> (\<forall>salt raw x. ph_verify cf (ph_hash cf salt raw) x \<longleftrightarrow> x = raw)"

lemma consume_contact_users: "consume_contact cf c v x s = (r, s') \<Longrightarrow> users s' = users s"
  by (auto simp: consume_contact_def consume_code_def consume_def update_verification_def bindA_def Let_def
      split: option.splits if_splits prod.splits sum.splits)

lemma mark_consumed_users [simp]: "users (mark_consumed i s) = users s"
  by (simp add: mark_consumed_def)

text \<open>Registering again with the password of the account is refused.  A pending registration keeps the hash of
  the password; when its identity belongs to an account the hash is checked as if it were the password, so
  with the very password of the account, which a login would accept, the registration ends in an error and
  the automatic login it announces cannot happen.\<close>

theorem pending_same_password_refused:
  assumes "argon2 cf" and "ph_hash cf n pw \<noteq> pw" and "length pw \<le> PASSWORD_MAX_LENGTH"
    and "find (\<lambda>p. pr_txn_id p = txn) (pending_registrations s) = Some p" and "pr_hashed_password p = ph_hash cf n pw"
    and "find_by_identity (pr_username p) (none_if_empty (pr_email p)) (none_if_empty (pr_phone p)) s = Some u"
    and "u_hashed_password u = ph_hash cf m pw"
  shows "verifypwd cf pw (u_hashed_password u)
    \<and> complete_pending cf p s = (Inl (BizError (AuthErr auth_err.ALREADY_REGISTERED)), s)
    \<and> (\<exists>e. fst (consume_pending_normal_registration cf txn email_code phone_code s) = Inl e)"
proof -
  have no: "\<not> verifypwd cf (pr_hashed_password p) (u_hashed_password u)"
    using assms(1,2) by (simp add: verifypwd_def assms(5,7) argon2_def)
  have c: "complete_pending cf p t = (Inl (BizError (AuthErr auth_err.ALREADY_REGISTERED)), t)" if "users t = users s"
    for t :: "'a auth_db_scheme"
    using no assms(6) that by (simp add: complete_pending_def find_by_identity_def)
  have "\<exists>e. fst (consume_pending_normal_registration cf txn email_code phone_code s) = Inl e"
  proof (cases "pr_consumed p \<or> pr_expires_at p \<le> now s")
    case False
    have "\<exists>e. fst (seqA (consume_contact cf Email (pr_email p) email_code)
           (seqA (consume_contact cf Phone (pr_phone p) phone_code)
           (seqA (modA (mark_consumed (pr_id p))) (complete_pending cf p))) s) = Inl e"
      by (auto simp: bindA_def c dest!: consume_contact_users split: prod.splits sum.splits)
    then show ?thesis using False assms(4) by (simp add: consume_pending_normal_registration_def)
  qed (auto simp: consume_pending_normal_registration_def assms(4))
  moreover have "verifypwd cf pw (u_hashed_password u)"
    using assms(1,3,7) by (simp add: verifypwd_def argon2_def)
  ultimately show ?thesis using c[OF refl] by blast
qed

definition pending0 :: pending_registration where
  "pending0 = \<lparr>pr_id = 60, pr_txn_id = ''t0'', pr_username = ''ann'', pr_hashed_password = ''$pw'', pr_email = None, pr_phone = None,
     pr_apply_reason = None, pr_consumed = False, pr_expires_at = minutes 15, pr_created_at = 0\<rparr>"

lemma pending_same_password_refused_witness:
  "complete_pending cf0 pending0 (auth0\<lparr>pending_registrations := [pending0]\<rparr>)
     = (Inl (BizError (AuthErr auth_err.ALREADY_REGISTERED)), auth0\<lparr>pending_registrations := [pending0]\<rparr>)"
proof -
  have h: "argon2 cf0" "ph_hash cf0 0 ''pw'' \<noteq> ''pw''" "length ''pw'' \<le> PASSWORD_MAX_LENGTH"
    by (auto simp: argon2_def cf0_def PASSWORD_MAX_LENGTH_def)
  have p: "find (\<lambda>p. pr_txn_id p = ''t0'') (pending_registrations (auth0\<lparr>pending_registrations := [pending0]\<rparr>)) = Some pending0"
    "pr_hashed_password pending0 = ph_hash cf0 0 ''pw''"
    by (simp_all add: pending0_def cf0_def)
  have u: "find_by_identity (pr_username pending0) (none_if_empty (pr_email pending0)) (none_if_empty (pr_phone pending0))
      (auth0\<lparr>pending_registrations := [pending0]\<rparr>) = Some user0" "u_hashed_password user0 = ph_hash cf0 0 ''pw''"
    by (simp_all add: pending0_def find_by_identity_def none_if_empty_def auth0_def user0_def new_user_def cf0_def)
  from pending_same_password_refused[OF h p u] show ?thesis by blast
qed

end
