(* ===== verification/Auth_Upgrades.thy ===== *)
theory Auth_Upgrades
  imports Auth_Safety
begin

text \<open>
  What an account is allowed and how that changes (\<open>auth/service_authz.py\<close>, \<open>auth/service_roles.py\<close>,
  \<open>auth/deps.py\<close>): upgrades by an exam and by incubation, the members of a role, and the two ways to
  resolve a token.
\<close>

section \<open>Users and profiles after an upgrade\<close>

lemma get_profile_set_role:
  "get_profile j (set_role i r s) = map_option (\<lambda>p. if j = i then p\<lparr>pf_role := r\<rparr> else p) (get_profile j s)"
proof -
  have "find (\<lambda>p. pf_user_id p = j) (map (\<lambda>p. if pf_user_id p = i then p\<lparr>pf_role := r\<rparr> else p) ps) =
      map_option (\<lambda>p. if j = i then p\<lparr>pf_role := r\<rparr> else p) (find (\<lambda>p. pf_user_id p = j) ps)" for ps
    by (induction ps) auto
  then show ?thesis by (simp add: get_profile_def set_role_def)
qed

lemma upgrade_simps [simp]:
  "get_user j (set_role i r s) = get_user j s" "list_roles j (set_role i r s) = list_roles j s"
  "get_profile j (set_account_level i l s) = get_profile j s" "list_roles j (set_account_level i l s) = list_roles j s"
  "get_profile j (bump_token_version i s) = get_profile j s" "list_roles j (bump_token_version i s) = list_roles j s"
  "get_user j (notify_user_updated i s) = get_user j s" "get_profile j (notify_user_updated i s) = get_profile j s"
  "get_user j (notify_audit_permission_change i d s) = get_user j s"
  "get_profile j (notify_audit_permission_change i d s) = get_profile j s"
  "list_roles j (notify_user_updated i s) = list_roles j s" "list_roles j (notify_audit_permission_change i d s) = list_roles j s"
  by (simp_all add: get_user_def get_profile_def list_roles_def set_role_def set_account_level_def bump_token_version_def)

lemma get_user_upgrade [simp]:
  "get_user j (set_account_level i l s) =
     map_option (\<lambda>u. if j = i then u\<lparr>u_account_level := l, u_updated_at := now s\<rparr> else u) (get_user j s)"
  "get_user j (bump_token_version i s) =
     map_option (\<lambda>u. if j = i then u\<lparr>u_token_version := u_token_version u + 1, u_updated_at := now s\<rparr> else u) (get_user j s)"
  by (auto simp: set_account_level_def bump_token_version_def get_user_update intro!: option.map_cong)

lemma seal_spec:
  assumes "seal_upgrade cf i l r d s = (Inr n, s')"
  shows "n = 1" "satisfies_constraints (authorized_roles l r (list_roles i s)) (SSD_CONSTRAINTS cf) = Inr True"
    "get_user j s' = get_user j (bump_token_version i s)" "get_profile j s' = get_profile j s" "list_roles j s' = list_roles j s"
  using assms by (auto simp: seal_upgrade_def split: sum.splits if_splits)

section \<open>Properties of upgrades\<close>

text \<open>An exam only raises.  When the upgrade returns, the level and the role of the user are at least what
  they were, each is the old one or the one unlocked, and the separation of duties holds for the new pair; the
  version of the tokens rises by one, so that every session must be refreshed, exactly if something changed,
  and otherwise the state is untouched; no other account is touched either way.\<close>

theorem upgrades_only_raise:
  assumes "apply_upgrades cf i l r reason s = (Inr n, s')" and "get_user i s = Some u" and "get_profile i s = Some p"
  shows "\<exists>u' p'. get_user i s' = Some u' \<and> get_profile i s' = Some p'
    \<and> u_account_level u' = (if raises_level l (u_account_level u) then the l else u_account_level u)
    \<and> pf_role p' = (if raises_role r (or_member (Some (pf_role p))) then the r else pf_role p)
    \<and> rank_of LEVEL_RANK (u_account_level u) \<le> rank_of LEVEL_RANK (u_account_level u')
    \<and> rank_of ROLE_RANK (or_member (Some (pf_role p))) \<le> rank_of ROLE_RANK (or_member (Some (pf_role p')))
    \<and> (n = 0 \<and> s' = s
       \<or> n = 1 \<and> (u_account_level u', pf_role p') \<noteq> (u_account_level u, pf_role p) \<and> u_token_version u' = u_token_version u + 1
         \<and> satisfies_constraints (authorized_roles (u_account_level u') (or_member (Some (pf_role p'))) (list_roles i s'))
             (SSD_CONSTRAINTS cf) = Inr True)
    \<and> (\<forall>j. j \<noteq> i \<longrightarrow> get_user j s' = get_user j s \<and> get_profile j s' = get_profile j s)"
proof -
  let ?ul = "raises_level l (u_account_level u)" and ?ur = "raises_role r (or_member (Some (pf_role p)))"
  have ranks: "?ul \<Longrightarrow> rank_of LEVEL_RANK (u_account_level u) < rank_of LEVEL_RANK (the l)"
    "?ur \<Longrightarrow> rank_of ROLE_RANK (or_member (Some (pf_role p))) < rank_of ROLE_RANK (the r)"
    by (auto simp: raises_level_def raises_role_def split: option.splits)
  have ne: "?ur \<Longrightarrow> or_member (Some (the r)) = the r \<and> the r \<noteq> pf_role p"
    by (cases "the r = []") (auto simp: raises_role_def or_member_def rank_of_def ROLE_RANK_def split: option.splits if_splits)
  let ?t = "if ?ur then set_role i (the r) (if ?ul then set_account_level i (the l) s else s)
      else (if ?ul then set_account_level i (the l) s else s)"
  show ?thesis
  proof (cases "?ul \<or> ?ur")
    case False
    then have "n = 0" "s' = s" using assms by (simp_all add: apply_upgrades_def get_level_and_role_def)
    then show ?thesis using False assms(2,3) by simp
  next
    case True
    then have seal: "seal_upgrade cf i (if ?ul then the l else u_account_level u)
        (if ?ur then the r else or_member (Some (pf_role p))) reason ?t = (Inr n, s')"
      using assms by (simp add: apply_upgrades_def get_level_and_role_def Let_def)
    note sp = seal_spec[OF this]
    show ?thesis
      using True sp(1,2) ranks ne assms(2,3)
      by (cases ?ul; cases ?ur) (auto simp: sp(3-5) get_profile_set_role option.map_ident)
  qed
qed

definition profile0 :: profile where
  "profile0 = \<lparr>pf_user_id = 1, pf_nickname = None, pf_avatar = None, pf_role = ''columnist'', pf_bio = None\<rparr>"

lemma profile0_simps [simp]:
  "get_user 1 (auth0\<lparr>profiles := [profile0]\<rparr>) = Some user0" "get_profile 1 (auth0\<lparr>profiles := [profile0]\<rparr>) = Some profile0"
  "list_roles 1 (auth0\<lparr>profiles := [profile0]\<rparr>) = []" "pf_role profile0 = ''columnist''" "u_account_level user0 = ''normal''"
  "u_id user0 = 1"
  by (simp_all add: get_user_def get_profile_def list_roles_def auth0_def user0_def new_user_def profile0_def)

lemma upgrades_only_raise_witness:
  "\<exists>s' p'. apply_upgrades cf0 1 None (Some ''author'') ''grant_exam_unlock'' (auth0\<lparr>profiles := [profile0]\<rparr>) = (Inr 1, s')
     \<and> get_profile 1 s' = Some p' \<and> pf_role p' = ''author''"
proof -
  have r: "raises_role (Some ''author'') (or_member (Some (pf_role profile0)))"
    by (simp add: raises_role_def rank_of_def ROLE_RANK_def profile0_def or_member_def)
  have "\<exists>s'. apply_upgrades cf0 1 None (Some ''author'') ''grant_exam_unlock'' (auth0\<lparr>profiles := [profile0]\<rparr>) = (Inr 1, s')"
    using r by (simp add: apply_upgrades_def get_level_and_role_def raises_level_def Let_def seal_upgrade_def satisfies_constraints_def cf0_def)
  then obtain s' where s': "apply_upgrades cf0 1 None (Some ''author'') ''grant_exam_unlock'' (auth0\<lparr>profiles := [profile0]\<rparr>) = (Inr 1, s')"
    by blast
  from upgrades_only_raise[OF this profile0_simps(1,2)] r s' show ?thesis by auto
qed

text \<open>Without a known role nothing can be activated that anything is granted to.\<close>

lemma unknown_role_activates_nothing:
  assumes "composite_role l p \<notin> set KNOWN_ROLES" and "\<forall>x \<in> set xs. \<not> starts_with (l @ '':'') x"
    and "activated_roles ssd dsd l p xs sel = Inr rs"
  shows "role_closure rs = []"
proof -
  have "set (assigned_roles l p xs) \<inter> set KNOWN_ROLES = {}" using assms(1,2) by (auto simp: assigned_roles_set)
  then have "set (authorized_roles l p xs) = {}" by (simp add: authorized_roles_def role_closure_set)
  with activated_from(1)[OF assms(3)] have "set rs \<inter> set KNOWN_ROLES = {}" by simp
  then have "set (role_closure rs) = {}" by (simp add: role_closure_set)
  then show ?thesis by simp
qed

text \<open>C20: Joining as an incubated member costs a columnist or an author every permission.  The grant raises the level
  to \<open>admin\<close> and keeps the role, a pair for which there is no role; unless the account has additional
  administrative roles, no session of it, whatever it selects, has any permission at all, whatever the table of
  grants says.\<close>

theorem incubation_leaves_no_permission:
  assumes "grant_incubation cf i s = (Inr n, s')" and "get_user i s = Some u" and "get_profile i s = Some p"
    and "u_account_level u \<in> {''local'', ''normal''}" and "pf_role p \<in> {''columnist'', ''author''}"
    and "\<forall>x \<in> set (list_roles i s). \<not> starts_with ''admin:'' x"
  shows "n = 1 \<and> (\<exists>u'. get_user i s' = Some u' \<and> u_account_level u' = ''admin'') \<and> role_of i s' = pf_role p
    \<and> (\<forall>sel rs cur perm (db :: 'd rbac_db_scheme). roles_of_session cf ''admin'' (role_of i s') (list_roles i s') sel = Inr rs
         \<and> cu_active_roles cur = Some rs \<longrightarrow> \<not> user_has_permission cur perm db)"
proof -
  have lv: "u_account_level u \<noteq> ''admin''" using assms(4) by auto
  have pr: "or_member (Some (pf_role p)) = pf_role p" "pf_role p \<noteq> ''member''" using assms(5) by (auto simp: or_member_def)
  have seal: "seal_upgrade cf i ''admin'' (pf_role p) ''grant_incubation'' (set_account_level i ''admin'' s) = (Inr n, s')"
    using assms(1-3) lv pr by (simp add: grant_incubation_def get_level_and_role_def)
  note sp = seal_spec[OF seal]
  have ro: "role_of i s' = pf_role p" "list_roles i s' = list_roles i s" using assms(3) by (simp_all add: role_of_def sp(4,5))
  have un: "composite_role ''admin'' (pf_role p) \<notin> set KNOWN_ROLES"
    using assms(5) by (auto simp: composite_role_def KNOWN_ROLES_def)
  have "\<not> user_has_permission cur perm db"
    if "roles_of_session cf ''admin'' (role_of i s') (list_roles i s') sel = Inr rs" "cu_active_roles cur = Some rs"
    for sel rs cur perm and db :: "'d rbac_db_scheme"
  proof -
    have "activated_roles (SSD_CONSTRAINTS cf) (DSD_CONSTRAINTS cf) ''admin'' (pf_role p) (list_roles i s) sel = Inr rs"
      using that(1) by (auto simp: roles_of_session_def ro elim!: bindR_InrE split: if_splits)
    then have "role_closure rs = []" using unknown_role_activates_nothing[OF un] assms(6) by simp
    then show ?thesis using that(2) by (simp add: user_has_permission_def valid_roles_def has_any_permission_def)
  qed
  then have "\<forall>sel rs cur perm (db :: 'd rbac_db_scheme). roles_of_session cf ''admin'' (role_of i s') (list_roles i s') sel = Inr rs
         \<and> cu_active_roles cur = Some rs \<longrightarrow> \<not> user_has_permission cur perm db" by blast
  moreover have "\<exists>u'. get_user i s' = Some u' \<and> u_account_level u' = ''admin''" using sp(3) assms(2) by simp
  ultimately show ?thesis using sp(1) ro(1) by blast
qed

lemma incubation_leaves_no_permission_witness:
  "\<exists>s'. grant_incubation cf0 1 (auth0\<lparr>profiles := [profile0]\<rparr>) = (Inr 1, s') \<and> role_of 1 s' = ''columnist''
     \<and> \<not> user_has_permission (cur0\<lparr>cu_active_roles := Some [''admin:columnist'', ''admin:columnist'']\<rparr>) comment_create rbac_db0"
proof -
  have "\<exists>s'. grant_incubation cf0 1 (auth0\<lparr>profiles := [profile0]\<rparr>) = (Inr 1, s') \<and> list_roles 1 s' = []"
    by (simp add: grant_incubation_def get_level_and_role_def Let_def seal_upgrade_def satisfies_constraints_def cf0_def
        or_member_def)
  then obtain s' where s': "grant_incubation cf0 1 (auth0\<lparr>profiles := [profile0]\<rparr>) = (Inr 1, s')" "list_roles 1 s' = []" by blast
  have h: "u_account_level user0 \<in> {''local'', ''normal''}" "pf_role profile0 \<in> {''columnist'', ''author''}"
    "\<forall>x \<in> set (list_roles 1 (auth0\<lparr>profiles := [profile0]\<rparr>)). \<not> starts_with ''admin:'' x"
    by simp_all
  note fin = incubation_leaves_no_permission[where 'd = unit, OF s'(1) profile0_simps(1,2) h]
  have "roles_of_session cf0 ''admin'' ''columnist'' [] None = Inr [''admin:columnist'', ''admin:columnist'']"
    by (simp add: roles_of_session_def cf0_def role_eval)
  with fin s' show ?thesis by (auto simp: cur0_def)
qed

section \<open>Members of a role\<close>

lemma known_shape:
  assumes "r \<in> set KNOWN_ROLES"
  shows "r = level_of r @ '':'' @ name_of r" "starts_with (level_of r @ '':'') r"
proof -
  have "list_all (\<lambda>r. r = level_of r @ '':'' @ name_of r \<and> starts_with (level_of r @ '':'') r) KNOWN_ROLES"
    by (simp add: KNOWN_ROLES_def level_of_def name_of_def starts_with_def)
  then show "r = level_of r @ '':'' @ name_of r" "starts_with (level_of r @ '':'') r"
    using assms by (simp_all add: list_all_iff)
qed

lemma known_composite: "composite_role l p \<in> set KNOWN_ROLES \<Longrightarrow> level_of (composite_role l p) = l \<and> name_of (composite_role l p) = p"
proof -
  assume k: "composite_role l p \<in> set KNOWN_ROLES"
  moreover have "starts_with (l @ '':'') (composite_role l p)" by (simp add: composite_role_def starts_with_def)
  ultimately have "level_of (composite_role l p) = l" by (rule known_prefix_level)
  then show ?thesis by (simp add: name_of_def) (simp add: composite_role_def)
qed

text \<open>The roles a known role is inherited by, itself included.\<close>

definition seniors_of :: "string \<Rightarrow> string set" where
  "seniors_of role = {r \<in> set KNOWN_ROLES. role \<in> set (role_closure [r])}"

lemma closure_seniors: "role \<in> set (role_closure rs) \<longleftrightarrow> set rs \<inter> seniors_of role \<noteq> {}"
  by (auto simp: seniors_of_def role_closure_set)

lemma seniors_level: "r \<in> seniors_of role \<Longrightarrow> level_of r = level_of role"
  using roles.cl_level[of role "[r]"] by (auto simp: seniors_of_def)

lemma authorized_iff:
  "role \<in> set (authorized_roles l p xs) \<longleftrightarrow>
     l = level_of role \<and> (p \<in> name_of ` seniors_of role \<or> set xs \<inter> seniors_of role \<noteq> {})"
proof -
  have known: "r \<in> set KNOWN_ROLES" if "r \<in> seniors_of role" for r using that by (simp add: seniors_of_def)
  have "composite_role l p \<in> seniors_of role \<longleftrightarrow> l = level_of role \<and> p \<in> name_of ` seniors_of role"
  proof
    assume s: "composite_role l p \<in> seniors_of role"
    then show "l = level_of role \<and> p \<in> name_of ` seniors_of role"
      using known_composite[OF known[OF s]] seniors_level[OF s] by (metis imageI)
  next
    assume "l = level_of role \<and> p \<in> name_of ` seniors_of role"
    then obtain r where "r \<in> seniors_of role" "p = name_of r" "l = level_of r" using seniors_level by auto
    moreover from this(1) have "r = level_of r @ '':'' @ name_of r" by (intro known_shape(1) known)
    ultimately show "composite_role l p \<in> seniors_of role" by (simp add: composite_role_def)
  qed
  moreover have "starts_with (l @ '':'') r \<and> r \<in> set KNOWN_ROLES \<longleftrightarrow> l = level_of role" if "r \<in> seniors_of role" for r
    using that known[OF that] seniors_level[OF that] known_shape(2)[of r] known_prefix_level[of r l] by auto
  ultimately show ?thesis
    unfolding authorized_roles_def closure_seniors assigned_roles_set by blast
qed

text \<open>The members of a role are those it is authorized for.  For a known role the list is, page by page, the
  sorted list without repetition of exactly the users among whose authorized roles it is, whether by their
  primary role, by an additional one or by inheritance.\<close>

theorem role_members_exact:
  assumes "role_name \<in> set KNOWN_ROLES"
  shows "\<exists>ids. list_users_for_role role_name limit offset s = Inr (take limit (drop offset ids)) \<and> sorted ids \<and> distinct ids
    \<and> set ids = {u_id u | u. u \<in> set (users s)
         \<and> role_name \<in> set (authorized_roles (u_account_level u) (role_of (u_id u) s) (list_roles (u_id u) s))}"
proof -
  let ?sen = "filter (\<lambda>role. role_name \<in> set (role_closure [role])) KNOWN_ROLES"
  have sen: "set ?sen = seniors_of role_name" by (auto simp: seniors_of_def)
  have extra: "list_ex (\<lambda>r. ur_user_id r = u_id u \<and> ur_role_name r \<in> set ?sen) (user_roles s)
      \<longleftrightarrow> set (list_roles (u_id u) s) \<inter> seniors_of role_name \<noteq> {}" for u
    unfolding sen by (auto simp: list_ex_iff list_roles_def)
  have prim: "(case get_profile (u_id u) s of None \<Rightarrow> ''member'' \<in> set (map name_of ?sen) | Some p \<Rightarrow> pf_role p \<in> set (map name_of ?sen))
      \<longleftrightarrow> role_of (u_id u) s \<in> name_of ` seniors_of role_name" for u
    unfolding set_map sen by (simp add: role_of_def split: option.splits)
  let ?pri = "\<lambda>u. u_account_level u = level_of role_name \<and> role_of (u_id u) s \<in> name_of ` seniors_of role_name"
  let ?ext = "\<lambda>u. u_account_level u = level_of role_name \<and> set (list_roles (u_id u) s) \<inter> seniors_of role_name \<noteq> {}"
  let ?ids = "sort (remdups (map u_id (filter ?pri (users s)) @ map u_id (filter ?ext (users s))))"
  have "list_users_for_role role_name limit offset s = Inr (take limit (drop offset ?ids))"
    using assms unfolding list_users_for_role_def Let_def extra prim by simp
  moreover have "set ?ids = {u_id u | u. u \<in> set (users s)
         \<and> role_name \<in> set (authorized_roles (u_account_level u) (role_of (u_id u) s) (list_roles (u_id u) s))}"
    unfolding authorized_iff by auto
  ultimately show ?thesis by (intro exI[of _ ?ids]) simp
qed

lemma role_members_exact_witness:
  "\<exists>ids. list_users_for_role ''normal:member'' 10 0 (auth0\<lparr>profiles := [profile0]\<rparr>) = Inr (take 10 ids) \<and> 1 \<in> set ids"
proof -
  have "''normal:member'' \<in> set KNOWN_ROLES" by (simp add: KNOWN_ROLES_def)
  from role_members_exact[OF this, of 10 0 "auth0\<lparr>profiles := [profile0]\<rparr>"]
  obtain ids where "list_users_for_role ''normal:member'' 10 0 (auth0\<lparr>profiles := [profile0]\<rparr>) = Inr (take 10 ids)"
    "set ids = {u_id u | u. u \<in> set (users (auth0\<lparr>profiles := [profile0]\<rparr>)) \<and> ''normal:member'' \<in> set (authorized_roles (u_account_level u)
         (role_of (u_id u) (auth0\<lparr>profiles := [profile0]\<rparr>)) (list_roles (u_id u) (auth0\<lparr>profiles := [profile0]\<rparr>)))}"
    by auto
  moreover have "user0 \<in> set (users (auth0\<lparr>profiles := [profile0]\<rparr>))" "u_id user0 = 1"
    by (simp_all add: auth0_def user0_def new_user_def)
  moreover have "''normal:member'' \<in> set (authorized_roles (u_account_level user0) (role_of 1 (auth0\<lparr>profiles := [profile0]\<rparr>))
      (list_roles 1 (auth0\<lparr>profiles := [profile0]\<rparr>)))"
    by (simp add: role_of_def role_eval)
  ultimately show ?thesis by force
qed

section \<open>Two ways to resolve a token\<close>

definition agree :: "exc + current_user \<Rightarrow> exc + current_user \<Rightarrow> bool" where
  "agree a b \<longleftrightarrow>
     (case (a, b) of
        (Inl _, Inl _) \<Rightarrow> True
      | (Inr x, Inr y) \<Rightarrow> cu_id x = cu_id y \<and> cu_account_level x = cu_account_level y
          \<and> cu_role x = or_member (Some (cu_role y)) \<and> cu_active_roles x = cu_active_roles y
      | _ \<Rightarrow> False)"

lemma session_roles_selected:
  assumes "roles_of_session cf l r xs (Some sel) = Inr active"
  shows "distinct active \<and> set active = set sel"
proof -
  have "activated_roles (SSD_CONSTRAINTS cf) (DSD_CONSTRAINTS cf) l r xs (Some sel) = Inr active"
    using assms by (auto simp: roles_of_session_def elim!: bindR_InrE split: if_splits)
  from activated_cases(3)[OF this refl] show ?thesis by auto
qed

text \<open>C21: The two ways to resolve a token agree.  Whether the authority is asked or the tables are read, a token that
  is not on the list of revoked ones and whose moment of issue is a date is accepted by both or by neither, and
  for the same user, level, role and session roles; a token on the list is refused by the authority.\<close>

theorem seam_agrees_with_tables:
  "(\<not> is_revoked (ac_jti c) s \<and> fromtimestamp (ac_iat c) \<noteq> None \<longrightarrow>
      agree (resolve_current_user cf l2 True c s) (resolve_current_user cf l2 False c s))
   \<and> (is_revoked (ac_jti c) s \<and> ac_jti c \<noteq> [] \<longrightarrow> (\<exists>e. resolve_current_user cf l2 True c s = Inl e))"
proof (intro conjI impI)
  assume "\<not> is_revoked (ac_jti c) s \<and> fromtimestamp (ac_iat c) \<noteq> None"
  then have nr: "\<not> is_revoked (ac_jti c) s" and "fromtimestamp (ac_iat c) \<noteq> None" by auto
  then obtain t where t: "fromtimestamp (ac_iat c) = Some t" by blast
  let ?a = "authorize_user cf (ac_user_id c) (ac_token_version c) (Some (ac_iat c)) False (Some (ac_jti c)) (ac_active_roles c) s"
  have "agree (bindR ?a (\<lambda>v. resolve_via_seam (Some v) (ac_user_id c) (ac_active_roles c)))
      (resolve_locally cf c (ac_active_roles c) s)"
  proof (cases "get_user (ac_user_id c) s")
    case None
    then show ?thesis using nr by (simp add: authorize_user_def resolve_locally_def resolve_via_seam_def refuse_def agree_def)
  next
    case (Some u)
    note id = get_user_id[OF Some]
    let ?roles = "roles_of_session cf (u_account_level u) (role_of (ac_user_id c) s) (list_roles (ac_user_id c) s) (ac_active_roles c)"
    show ?thesis
    proof (cases "lock_is_active u (now s) \<or> \<not> admission_is_active u \<or> ac_token_version c \<noteq> u_token_version u
        \<or> IAT_TOLERANCE < u_updated_at u - t")
      case True
      then show ?thesis
        using nr Some t by (auto simp: authorize_user_def resolve_locally_def resolve_via_seam_def refuse_def agree_def)
    next
      case False
      have sel: "case ac_active_roles c of None \<Rightarrow> True | Some sel \<Rightarrow> distinct active \<and> set active = set sel"
        if "?roles = Inr active" for active
        using that session_roles_selected by (cases "ac_active_roles c") auto
      show ?thesis
      proof (cases ?roles)
        case (Inl e)
        then show ?thesis
          using False nr Some t id
          by (cases e) (auto simp: authorize_user_def resolve_locally_def resolve_via_seam_def refuse_def agree_def
              on_value_error_def Let_def)
      next
        case (Inr active)
        then show ?thesis
          using False nr Some t id sel[OF Inr]
          by (auto simp: authorize_user_def resolve_locally_def resolve_via_seam_def agree_def
              on_value_error_def Let_def split: option.splits)
      qed
    qed
  qed
  then show "agree (resolve_current_user cf l2 True c s) (resolve_current_user cf l2 False c s)"
    by (simp add: resolve_current_user_def agree_def)
next
  assume "is_revoked (ac_jti c) s \<and> ac_jti c \<noteq> []"
  then show "\<exists>e. resolve_current_user cf l2 True c s = Inl e"
    by (simp add: resolve_current_user_def authorize_user_def resolve_via_seam_def refuse_def)
qed

lemma seam_agrees_with_tables_witness:
  "agree (resolve_current_user cf0 l2_empty True claims0 auth0) (resolve_current_user cf0 l2_empty False claims0 auth0)"
proof -
  have "\<not> is_revoked (ac_jti claims0) auth0 \<and> fromtimestamp (ac_iat claims0) \<noteq> None"
    by (simp add: is_revoked_def claims0_def create_access_token_def fresh_hex_def Let_def epoch_s_def auth0_def fromtimestamp_def)
  then show ?thesis using seam_agrees_with_tables[of claims0 auth0 cf0 l2_empty] by blast
qed

end
