(* ===== verification/File_Store.thy ===== *)
theory File_Store
  imports Actions Outbox_Store Rbac_Service "HOL-Library.Sublist"
begin

text \<open>
  The tables of the file library (\<open>app/modules/files/models.py\<close>, \<open>repository.py\<close>), the store of objects it
  shares with the other modules (\<open>core/storage\<close>), its backups and archive (\<open>files/retention.py\<close>), and the
  screening of uploads (\<open>files/processing.py\<close>).  Bytes are characters.
\<close>

section \<open>Configuration\<close>

text \<open>The settings, SHA-3, the virus scanner and the programs that convert documents, where there are any.\<close>

datatype scan_reply = Reply string | No_reply

record files_config =
  storage_s3 :: bool
  s3_prefix :: string
  files_store_dir :: string
  max_upload_bytes :: nat
  files_preview_max_bytes :: nat
  files_backup_on :: bool
  files_archive_on :: bool
  files_archive_after_days :: int
  search_sync_enabled :: bool
  files_sensitive_terms :: string
  sha3_256 :: "string \<Rightarrow> string"
  clamav :: "(string \<Rightarrow> scan_reply) option"
  utf8_replace :: "string \<Rightarrow> string"
  casefold :: "string \<Rightarrow> string"
  pdf_text :: "string \<Rightarrow> string"
  libreoffice :: "(string \<Rightarrow> string \<Rightarrow> string option) option"

section \<open>Tables\<close>

datatype file_status = Pending | Approved | Rejected | Deleted

datatype file_classification = Public | Internal | Confidential

record library_file =
  lf_id :: uuid
  lf_uploader_id :: uuid
  lf_original_name :: string
  lf_stored_name :: string
  lf_sha3_hash :: "string option"
  lf_ref_count :: nat
  lf_storage_path :: "string option"
  lf_mime_type :: string
  lf_size :: nat
  lf_category_id :: string
  lf_document_code :: "string option"
  lf_classification :: file_classification
  lf_project_id :: "uuid option"
  lf_version :: int
  lf_root_file_id :: "uuid option"
  lf_extracted_text :: string
  lf_archive_state :: string
  lf_backed_up_at :: "instant option"
  lf_description :: string
  lf_tags :: "string list"
  lf_status :: file_status
  lf_review_comment :: "string option"
  lf_download_count :: int
  lf_view_count :: int
  lf_created_at :: instant

record file_create =
  fc_original_name :: string
  fc_mime_type :: string
  fc_category_id :: string
  fc_description :: string
  fc_tags :: "string list"
  fc_classification :: file_classification
  fc_project_id :: "uuid option"
  fc_version_of :: "uuid option"

text \<open>The metadata of a session is JSON text; \<open>None\<close> is text that is not JSON.\<close>

record upload_meta =
  um_key :: string
  um_info :: file_create

record upload_session =
  us_upload_id :: string
  us_uploader_id :: uuid
  us_storage_key :: string
  us_meta :: "upload_meta option"
  us_created_at :: instant

text \<open>Of the projects the library needs who applied and who is a member.\<close>

record project =
  pj_id :: uuid
  pj_applicant_id :: uuid

record project_member =
  pm_project_id :: uuid
  pm_user_id :: "uuid option"

text \<open>
  The objects, the archive and the backups are outside the database.  \<open>faults\<close> tells for each operation on
  them, in the order in which they are made, the exception it raises, if any.
\<close>

record file_db = core_db +
  library_files :: "library_file list"
  upload_sessions :: "upload_session list"
  projects :: "project list"
  project_members :: "project_member list"
  objects :: "string \<rightharpoonup> string"
  archive :: "string \<rightharpoonup> string"
  backups :: "string \<rightharpoonup> string"
  faults :: "nat \<Rightarrow> exc option"
  fault_ix :: nat

section \<open>The session\<close>

text \<open>
  \<open>get_session\<close> commits or rolls the database back.  What was done to the objects stays, as do the
  identifiers already drawn.
\<close>

definition undo :: "'s file_db_scheme \<Rightarrow> 's file_db_scheme \<Rightarrow> 's file_db_scheme" where
  "undo before s = s\<lparr>event_keys := event_keys before, outbox_events := outbox_events before,
     library_files := library_files before, upload_sessions := upload_sessions before\<rparr>"

definition file_session ::
    "(string \<times> errcode) list \<Rightarrow> ('s file_db_scheme, 'a) act \<Rightarrow> ('s file_db_scheme, 'a) act" where
  "file_session reg work s =
     (case work s of
        (Inr a, s') \<Rightarrow> (Inr a, s')
      | (Inl e, s') \<Rightarrow> (Inl (session_exc reg e), undo s s'))"

text \<open>An operation that returns a new state or raises.\<close>

definition writeA :: "('s \<Rightarrow> exc + 's) \<Rightarrow> ('s, unit) act" where
  "writeA f s = (case f s of Inl e \<Rightarrow> (Inl e, s) | Inr s' \<Rightarrow> (Inr (), s'))"

definition on_error :: "(exc \<Rightarrow> exc) \<Rightarrow> ('s, 'a) act \<Rightarrow> ('s, 'a) act" where
  "on_error f m s = (case m s of (Inl e, s') \<Rightarrow> (Inl (f e), s') | (Inr a, s') \<Rightarrow> (Inr a, s'))"

text \<open>\<open>except BizError\<close> around something whose failure does not matter.\<close>

definition best_effort :: "('s, unit) act \<Rightarrow> ('s, unit) act" where
  "best_effort m s = (case m s of (Inl (BizError e), s') \<Rightarrow> (Inr (), s') | r \<Rightarrow> r)"

section \<open>The store of objects\<close>

definition storage_io :: "('s file_db_scheme, unit) act" where
  "storage_io s = (case faults s (fault_ix s) of None \<Rightarrow> Inr () | Some e \<Rightarrow> Inl e, s\<lparr>fault_ix := Suc (fault_ix s)\<rparr>)"

definition storage_exists :: "string \<Rightarrow> ('s file_db_scheme, bool) act" where
  "storage_exists key = seqA storage_io (getA (\<lambda>s. objects s key \<noteq> None))"

definition storage_save :: "nat \<Rightarrow> string \<Rightarrow> string \<Rightarrow> ('s file_db_scheme, unit) act" where
  "storage_save max_bytes key content =
     seqA storage_io
    (if max_bytes < length content then raiseA (BizError (StorageErr storage_err.TOO_LARGE))
     else modA (\<lambda>s. s\<lparr>objects := (objects s)(key \<mapsto> content)\<rparr>))"

definition storage_read :: "string \<Rightarrow> ('s file_db_scheme, string) act" where
  "storage_read key =
     seqA storage_io (\<lambda>s. (optR (BizError (StorageErr storage_err.NOT_FOUND)) (objects s key), s))"

definition storage_copy :: "string \<Rightarrow> string \<Rightarrow> ('s file_db_scheme, unit) act" where
  "storage_copy src dest =
     seqA storage_io
    (\<lambda>s. (case objects s src of
            None \<Rightarrow> (Inl (BizError (StorageErr storage_err.STORE_ERROR)), s)
          | Some content \<Rightarrow> (Inr (), s\<lparr>objects := (objects s)(dest \<mapsto> content)\<rparr>)))"

definition storage_delete :: "string \<Rightarrow> ('s file_db_scheme, unit) act" where
  "storage_delete key = seqA storage_io (modA (\<lambda>s. s\<lparr>objects := (objects s)(key := None)\<rparr>))"

fun raise_storage_as_file :: "exc \<Rightarrow> exc" where
  "raise_storage_as_file (BizError e) =
     BizError (FileErr (if e = StorageErr storage_err.TOO_LARGE then file_err.TOO_LARGE
                        else if e = StorageErr storage_err.NOT_FOUND then file_err.NOT_FOUND
                        else file_err.STORE_ERROR))"
| "raise_storage_as_file e = e"

text \<open>Keys: \<open><hash[:2]>/<hash>\<close>, with a suffix for what is derived from the content.\<close>

definition bucket_key :: "string \<Rightarrow> string" where
  "bucket_key content_hash = take 2 content_hash @ ''/'' @ content_hash"

definition PREVIEW_SUFFIX :: string where "PREVIEW_SUFFIX = ''.preview.pdf''"

definition saved_path :: "files_config \<Rightarrow> string \<Rightarrow> string" where
  "saved_path cf key =
     (if storage_s3 cf then (if s3_prefix cf = [] then key else s3_prefix cf @ ''/'' @ key)
      else files_store_dir cf @ ''/'' @ key)"

definition storage_path_for :: "files_config \<Rightarrow> string \<Rightarrow> string" where
  "storage_path_for cf content_hash =
     (if storage_s3 cf then s3_prefix cf @ ''/'' @ bucket_key content_hash
      else files_store_dir cf @ ''/'' @ bucket_key content_hash)"

section \<open>Backups and archive\<close>

datatype area = Backups | Archive

fun area_of :: "area \<Rightarrow> 's file_db_scheme \<Rightarrow> (string \<rightharpoonup> string)" where
  "area_of Backups s = backups s"
| "area_of Archive s = archive s"

fun put_area :: "area \<Rightarrow> string \<Rightarrow> string \<Rightarrow> 's file_db_scheme \<Rightarrow> 's file_db_scheme" where
  "put_area Backups h content s = s\<lparr>backups := (backups s)(h \<mapsto> content)\<rparr>"
| "put_area Archive h content s = s\<lparr>archive := (archive s)(h \<mapsto> content)\<rparr>"

definition copy_verified :: "files_config \<Rightarrow> area \<Rightarrow> string \<Rightarrow> string \<Rightarrow> ('s file_db_scheme, unit) act" where
  "copy_verified cf a key content_hash =
     seqA storage_io
    (bindA (getA (\<lambda>s. area_of a s content_hash)) (\<lambda>existing.
     case existing of
       Some old \<Rightarrow>
         if sha3_256 cf old \<noteq> content_hash then raiseA (BizError (FileErr file_err.STORE_ERROR)) else retA ()
     | None \<Rightarrow>
         bindA (storage_read key) (\<lambda>content.
         if sha3_256 cf content \<noteq> content_hash then raiseA (BizError (FileErr file_err.STORE_ERROR))
         else seqA storage_io (modA (put_area a content_hash content)))))"

definition backup_file :: "files_config \<Rightarrow> string \<Rightarrow> string \<Rightarrow> ('s file_db_scheme, unit) act" where
  "backup_file cf key content_hash = (if \<not> files_backup_on cf then retA () else copy_verified cf Backups key content_hash)"

definition archive_file :: "files_config \<Rightarrow> string \<Rightarrow> string \<Rightarrow> ('s file_db_scheme, unit) act" where
  "archive_file cf key content_hash = (if \<not> files_archive_on cf then retA () else copy_verified cf Archive key content_hash)"

definition archive_exists :: "files_config \<Rightarrow> string \<Rightarrow> 's file_db_scheme \<Rightarrow> bool" where
  "archive_exists cf content_hash s \<longleftrightarrow> files_archive_on cf \<and> archive s content_hash \<noteq> None"

definition delete_archive :: "files_config \<Rightarrow> string \<Rightarrow> ('s file_db_scheme, unit) act" where
  "delete_archive cf content_hash =
     (if files_archive_on cf then seqA storage_io (modA (\<lambda>s. s\<lparr>archive := (archive s)(content_hash := None)\<rparr>)) else retA ())"

definition read_archive :: "files_config \<Rightarrow> string \<Rightarrow> ('s file_db_scheme, string) act" where
  "read_archive cf content_hash =
     seqA storage_io
    (\<lambda>s. (if files_archive_on cf then optR (BizError (FileErr file_err.NOT_FOUND)) (archive s content_hash)
          else Inl (BizError (FileErr file_err.NOT_FOUND)), s))"

text \<open>Something already gone is fine; any other error of the store is the library's.\<close>

definition delete_variant :: "string \<Rightarrow> ('s file_db_scheme, unit) act" where
  "delete_variant key s =
     (case storage_delete key s of
        (Inl (BizError e), s') \<Rightarrow>
          if e = StorageErr storage_err.NOT_FOUND then (Inr (), s')
          else (Inl (raise_storage_as_file (BizError e)), s')
      | r \<Rightarrow> r)"

definition delete_content_variants :: "files_config \<Rightarrow> string \<Rightarrow> ('s file_db_scheme, unit) act" where
  "delete_content_variants cf content_hash =
     seqA (delete_variant (bucket_key content_hash @ ''.thumb.webp''))
    (seqA (delete_variant (bucket_key content_hash @ ''.medium.webp''))
    (seqA (delete_variant (bucket_key content_hash @ PREVIEW_SUFFIX))
    (seqA (delete_variant (bucket_key content_hash))
    (delete_archive cf content_hash))))"

section \<open>Screening\<close>

definition OFFICE_SUFFIXES :: "string list" where
  "OFFICE_SUFFIXES = [''.doc'', ''.docx'', ''.ppt'', ''.pptx'', ''.odt'', ''.odp'']"

definition TEXT_SUFFIXES :: "string list" where
  "TEXT_SUFFIXES = [''.txt'', ''.md'', ''.csv'', ''.json'', ''.xml'']"

definition MAX_TEXT_CHARS :: nat where "MAX_TEXT_CHARS = 200000"

fun split_on :: "char \<Rightarrow> string \<Rightarrow> string list" where
  "split_on c [] = [[]]"
| "split_on c (x # xs) =
     (if x = c then [] # split_on c xs
      else (case split_on c xs of [] \<Rightarrow> [[x]] | w # ws \<Rightarrow> (x # w) # ws))"

text \<open>\<open>Path(name).name\<close> and \<open>Path(name).suffix\<close>\<close>

definition path_name :: "string \<Rightarrow> string" where
  "path_name name =
     (case rev (filter (\<lambda>p. p \<noteq> [] \<and> p \<noteq> ''.'') (split_on (CHR ''/'') name)) of [] \<Rightarrow> [] | p # _ \<Rightarrow> p)"

definition path_suffix :: "string \<Rightarrow> string" where
  "path_suffix name =
     (let base = path_name name;
          tail = rev (takeWhile (\<lambda>c. c \<noteq> CHR ''.'') (rev base));
          at = length base - Suc (length tail)
      in if length tail < length base \<and> 0 < at \<and> tail \<noteq> [] then CHR ''.'' # tail else [])"

text \<open>\<open>str.lower\<close> on the first 256 characters.\<close>

definition lower_char :: "char \<Rightarrow> char" where
  "lower_char c =
     (let n = of_char c :: nat
      in if (65 \<le> n \<and> n \<le> 90) \<or> (192 \<le> n \<and> n \<le> 222 \<and> n \<noteq> 215) then char_of (n + 32) else c)"

definition lower :: "string \<Rightarrow> string" where
  "lower = map lower_char"

definition is_office :: "string \<Rightarrow> bool" where
  "is_office name \<longleftrightarrow> lower (path_suffix name) \<in> set OFFICE_SUFFIXES"

definition scan_clamav :: "files_config \<Rightarrow> string \<Rightarrow> exc + unit" where
  "scan_clamav cf content =
     (case clamav cf of
        None \<Rightarrow> Inr ()
      | Some scan \<Rightarrow>
          (case scan content of
             No_reply \<Rightarrow> Inl (BizError (FileErr SCAN_UNAVAILABLE))
           | Reply r \<Rightarrow>
               if sublist ''FOUND'' r then Inl (BizError (FileErr UNSAFE_CONTENT))
               else if \<not> sublist ''OK'' r then Inl (BizError (FileErr SCAN_UNAVAILABLE))
               else Inr ()))"

text \<open>The extracted text, and the preview of a document that was converted.\<close>

definition extract_content :: "files_config \<Rightarrow> string \<Rightarrow> string \<Rightarrow> string \<times> string option" where
  "extract_content cf ext content =
     (if files_preview_max_bytes cf < length content then ([], None)
      else if ext \<in> set TEXT_SUFFIXES then
        (take MAX_TEXT_CHARS (utf8_replace cf (take (MAX_TEXT_CHARS * 4) content)), None)
      else if ext = ''.pdf'' then (pdf_text cf content, None)
      else if ext \<in> set OFFICE_SUFFIXES then
        (case libreoffice cf of
           None \<Rightarrow> ([], None)
         | Some convert \<Rightarrow>
             (case convert ext content of
                None \<Rightarrow> (pdf_text cf content, None)
              | Some pdf \<Rightarrow> (pdf_text cf pdf, if length pdf \<le> files_preview_max_bytes cf then Some pdf else None)))
      else ([], None))"

definition sensitive :: "files_config \<Rightarrow> string \<Rightarrow> bool" where
  "sensitive cf haystack \<longleftrightarrow>
     list_ex (\<lambda>w. casefold cf (py_strip w) \<noteq> [] \<and> sublist (casefold cf (py_strip w)) haystack)
       (split_on (CHR '','') (files_sensitive_terms cf))"

definition process_upload ::
    "files_config \<Rightarrow> string \<Rightarrow> string \<Rightarrow> string \<Rightarrow> exc + string \<times> string option" where
  "process_upload cf original_name description content =
     bindR (scan_clamav cf content) (\<lambda>_.
     let (text, preview) = extract_content cf (lower (path_suffix original_name)) content;
         haystack = casefold cf (original_name @ ''\<newline>'' @ description @ ''\<newline>'' @ text)
     in if sensitive cf haystack then Inl (BizError (FileErr UNSAFE_CONTENT)) else Inr (text, preview))"

section \<open>Queries\<close>

definition get_file_row :: "uuid \<Rightarrow> 's file_db_scheme \<Rightarrow> library_file option" where
  "get_file_row file_id s = find (\<lambda>f. lf_id f = file_id) (library_files s)"

definition get_or_raise :: "uuid \<Rightarrow> ('s file_db_scheme, library_file) act" where
  "get_or_raise file_id s = (optR (BizError (FileErr file_err.NOT_FOUND)) (get_file_row file_id s), s)"

definition update_file :: "uuid \<Rightarrow> (library_file \<Rightarrow> library_file) \<Rightarrow> 's file_db_scheme \<Rightarrow> 's file_db_scheme" where
  "update_file file_id g s =
     s\<lparr>library_files := map (\<lambda>f. if lf_id f = file_id then g f else f) (library_files s)\<rparr>"

definition live :: "library_file \<Rightarrow> bool" where
  "live f \<longleftrightarrow> lf_status f \<in> {Pending, Approved}"

definition count_live_by_hash :: "string \<Rightarrow> 's file_db_scheme \<Rightarrow> nat" where
  "count_live_by_hash h s = length (filter (\<lambda>f. lf_sha3_hash f = Some h \<and> live f) (library_files s))"

definition sync_ref_count :: "string \<Rightarrow> 's file_db_scheme \<Rightarrow> 's file_db_scheme" where
  "sync_ref_count h s =
     (if h = [] then s
      else let n = count_live_by_hash h s
           in s\<lparr>library_files :=
                map (\<lambda>f. if lf_sha3_hash f = Some h then f\<lparr>lf_ref_count := n\<rparr> else f) (library_files s)\<rparr>)"

definition versions :: "string \<Rightarrow> 's file_db_scheme \<Rightarrow> library_file list" where
  "versions code s = sort_key (\<lambda>f. - lf_version f) (filter (\<lambda>f. lf_document_code f = Some code) (library_files s))"

fun max_of :: "int list \<Rightarrow> int option" where
  "max_of [] = None"
| "max_of (x # xs) = (case max_of xs of None \<Rightarrow> Some x | Some m \<Rightarrow> Some (max x m))"

text \<open>\<open>latest or 0\<close>\<close>

definition or_zero :: "int option \<Rightarrow> int" where
  "or_zero v = (case v of None \<Rightarrow> 0 | Some n \<Rightarrow> n)"

definition next_version :: "string \<Rightarrow> 's file_db_scheme \<Rightarrow> int" where
  "next_version code s =
     or_zero (max_of (map lf_version (filter (\<lambda>f. lf_document_code f = Some code) (library_files s)))) + 1"

text \<open>The year of a moment in the proleptic Gregorian calendar; years begin in March here.\<close>

definition utc_year :: "instant \<Rightarrow> int" where
  "utc_year t =
     (let z = t div 86400000000 + 719468;
          doe = z mod 146097;
          yoe = (doe - doe div 1460 + doe div 36524 - doe div 146096) div 365;
          doy = doe - (365 * yoe + yoe div 4 - yoe div 100)
      in yoe + 400 * (z div 146097) + (if 306 \<le> doy then 1 else 0))"

text \<open>\<open>CAST\<close> of a text to an integer: an error unless it is made of digits.\<close>

definition digit :: "char \<Rightarrow> nat" where
  "digit c = of_char c - 48"

definition all_digits :: "string \<Rightarrow> bool" where
  "all_digits w \<longleftrightarrow> w \<noteq> [] \<and> list_all (\<lambda>c. 48 \<le> (of_char c :: nat) \<and> (of_char c :: nat) \<le> 57) w"

definition cast_int :: "string \<Rightarrow> int" where
  "cast_int w = int (foldl (\<lambda>n c. 10 * n + digit c) 0 w)"

definition code_prefix :: "int \<Rightarrow> string" where
  "code_prefix year = ''WL-SYBG-'' @ dec_str (nat year) @ ''-''"

definition next_document_code :: "int \<Rightarrow> 's file_db_scheme \<Rightarrow> exc + string" where
  "next_document_code year s =
     (let prefix = code_prefix year;
          codes = filter (starts_with prefix) (List.map_filter lf_document_code (library_files s));
          numbers = map (drop (length prefix)) codes
      in if \<not> list_all all_digits numbers then Inl OtherException
         else Inr (prefix @ zero_padded 3 (nat (or_zero (max_of (map cast_int numbers)) + 1))))"

section \<open>Projects\<close>

definition is_member :: "'s file_db_scheme \<Rightarrow> uuid \<Rightarrow> uuid \<Rightarrow> bool" where
  "is_member s project_id user_id \<longleftrightarrow>
     list_ex (\<lambda>m. pm_project_id m = project_id \<and> pm_user_id m = Some user_id) (project_members s)"

definition can_upload_to_project :: "'s file_db_scheme \<Rightarrow> uuid \<Rightarrow> uuid \<Rightarrow> bool" where
  "can_upload_to_project s project_id user_id \<longleftrightarrow>
     (case find (\<lambda>p. pj_id p = project_id) (projects s) of
        None \<Rightarrow> False
      | Some p \<Rightarrow> pj_applicant_id p = user_id \<or> is_member s project_id user_id)"

end
