(* ===== verification/File_Library.thy ===== *)
theory File_Library
  imports File_Store
begin

text \<open>
  The operations of the file library (\<open>app/modules/files/service.py\<close>, \<open>router.py\<close>, \<open>tasks.py\<close>): uploads
  through the service and directly to the store, reviews, deletion, what is listed and served, and the
  periodic jobs.
\<close>

section \<open>Changes for the search\<close>

definition enqueue_change :: "files_config \<Rightarrow> uuid \<Rightarrow> ('s file_db_scheme, unit) act" where
  "enqueue_change cf file_id = writeA (enqueue_file_change (search_sync_enabled cf) file_id)"

fun enqueue_changes :: "files_config \<Rightarrow> library_file list \<Rightarrow> ('s file_db_scheme, unit) act" where
  "enqueue_changes cf [] = retA ()"
| "enqueue_changes cf (f # fs) = seqA (enqueue_change cf (lf_id f)) (enqueue_changes cf fs)"

text \<open>The other approved versions of a document, the latest first.\<close>

definition other_versions :: "library_file \<Rightarrow> 's file_db_scheme \<Rightarrow> library_file list" where
  "other_versions f s =
     (case lf_document_code f of
        None \<Rightarrow> []
      | Some code \<Rightarrow>
          if code = [] then []
          else filter (\<lambda>older. lf_id older \<noteq> lf_id f \<and> lf_status older = Approved) (versions code s))"

text \<open>The hash as a condition: neither absent nor empty.\<close>

definition content_of :: "library_file \<Rightarrow> string option" where
  "content_of f = (if lf_sha3_hash f = Some [] then None else lf_sha3_hash f)"

section \<open>Uploads\<close>

record identity =
  idn_code :: string
  idn_version :: int
  idn_root :: "uuid option"
  idn_classification :: file_classification
  idn_project :: "uuid option"

definition identity_for_upload ::
    "uuid \<Rightarrow> file_create \<Rightarrow> 's file_db_scheme \<Rightarrow> exc + identity \<times> file_create" where
  "identity_for_upload uploader_id info s =
     (case fc_version_of info of
        Some parent_id \<Rightarrow>
          bindR (optR (BizError (FileErr file_err.NOT_FOUND)) (get_file_row parent_id s)) (\<lambda>parent.
          if lf_uploader_id parent \<noteq> uploader_id then Inl (BizError (FileErr file_err.NOT_OWNER))
          else if lf_status parent \<in> {Deleted, Rejected} then Inl (BizError (FileErr file_err.INVALID_STATUS))
          else if lf_document_code parent \<in> {None, Some []} then Inl (BizError (FileErr file_err.INVALID_STATUS))
          else
            let code = the (lf_document_code parent)
            in Inr (\<lparr>idn_code = code, idn_version = next_version code s,
                     idn_root = Some (case lf_root_file_id parent of Some r \<Rightarrow> r | None \<Rightarrow> lf_id parent),
                     idn_classification = lf_classification parent, idn_project = lf_project_id parent\<rparr>,
                    info\<lparr>fc_category_id := lf_category_id parent,
                         fc_description := if fc_description info \<noteq> [] then fc_description info else lf_description parent,
                         fc_tags := if fc_tags info \<noteq> [] then fc_tags info else lf_tags parent\<rparr>))
      | None \<Rightarrow>
          if (case fc_project_id info of None \<Rightarrow> False | Some p \<Rightarrow> \<not> can_upload_to_project s p uploader_id)
          then Inl (BizError (FileErr INVALID_PROJECT))
          else
            bindR (next_document_code (utc_year (now s)) s) (\<lambda>code.
            Inr (\<lparr>idn_code = code, idn_version = 1, idn_root = None,
                  idn_classification = fc_classification info, idn_project = fc_project_id info\<rparr>, info)))"

text \<open>A row fails on its primary key, its stored name and its code with its version.\<close>

definition insert_file :: "library_file \<Rightarrow> ('s file_db_scheme, unit) act" where
  "insert_file f s =
     (if list_ex (\<lambda>g. lf_id g = lf_id f \<or> lf_stored_name g = lf_stored_name f
           \<or> (lf_document_code f \<noteq> None \<and> lf_document_code g = lf_document_code f \<and> lf_version g = lf_version f))
         (library_files s)
      then (Inl (IntegrityError True None), s)
      else (Inr (), s\<lparr>library_files := library_files s @ [f]\<rparr>))"

definition register_row ::
    "files_config \<Rightarrow> uuid \<Rightarrow> file_create \<Rightarrow> identity \<Rightarrow> string \<Rightarrow> nat \<Rightarrow> string \<Rightarrow> string
      \<Rightarrow> ('s file_db_scheme, uuid) act" where
  "register_row cf uploader_id info idn content_hash bytes path text s =
     (let (name, s) = fresh_hex s;
          (i, s) = fresh_pk s;
          f = \<lparr>lf_id = i, lf_uploader_id = uploader_id, lf_original_name = fc_original_name info,
               lf_stored_name = name @ take 32 (path_suffix (fc_original_name info)),
               lf_sha3_hash = Some content_hash, lf_ref_count = 1, lf_storage_path = Some path,
               lf_mime_type = fc_mime_type info, lf_size = bytes, lf_category_id = fc_category_id info,
               lf_document_code = Some (idn_code idn), lf_classification = idn_classification idn,
               lf_project_id = idn_project idn, lf_version = idn_version idn,
               lf_root_file_id = (case idn_root idn of None \<Rightarrow> Some i | Some r \<Rightarrow> Some r),
               lf_extracted_text = text, lf_archive_state = ''active'', lf_backed_up_at = None,
               lf_description = fc_description info, lf_tags = fc_tags info, lf_status = Pending,
               lf_review_comment = None, lf_download_count = 0, lf_view_count = 0, lf_created_at = now s\<rparr>
      in seqA (insert_file f) (seqA (modA (sync_ref_count content_hash)) (retA i)) s)"

definition save_preview :: "files_config \<Rightarrow> string \<Rightarrow> string option \<Rightarrow> ('s file_db_scheme, unit) act" where
  "save_preview cf content_hash preview_pdf =
     (case preview_pdf of
        None \<Rightarrow> retA ()
      | Some pdf \<Rightarrow> best_effort (storage_save (files_preview_max_bytes cf) (bucket_key content_hash @ PREVIEW_SUFFIX) pdf))"

text \<open>Content that is stored already is not written again.\<close>

definition create_file ::
    "files_config \<Rightarrow> uuid \<Rightarrow> file_create \<Rightarrow> string \<Rightarrow> nat option \<Rightarrow> ('s file_db_scheme, uuid) act" where
  "create_file cf uploader_id info content max_bytes =
     (let limit = (case max_bytes of None \<Rightarrow> max_upload_bytes cf | Some m \<Rightarrow> m);
          content_hash = sha3_256 cf content;
          key = bucket_key content_hash
      in seqA (guardA (length content \<le> limit) (BizError (FileErr file_err.TOO_LARGE)))
        (bindA (liftA (process_upload cf (fc_original_name info) (fc_description info) content)) (\<lambda>(text, preview_pdf).
         bindA (\<lambda>s. (identity_for_upload uploader_id info s, s)) (\<lambda>(idn, info).
         bindA (on_error raise_storage_as_file
                  (bindA (storage_exists key) (\<lambda>there.
                   if there then retA False
                   else seqA (storage_save limit key content) (retA True)))) (\<lambda>saved.
         seqA (save_preview cf content_hash preview_pdf)
        (register_row cf uploader_id info idn content_hash (length content)
           (if saved then saved_path cf key else storage_path_for cf content_hash) text))))))"

section \<open>Uploads to the store\<close>

text \<open>Without a store of the S3 kind the client uploads through the service; else it is given a session.\<close>

definition upload_init :: "files_config \<Rightarrow> file_create \<Rightarrow> uuid \<Rightarrow> ('s file_db_scheme, string option) act" where
  "upload_init cf info user_id s =
     (if \<not> storage_s3 cf then (Inr None, s)
      else
        let (uid, s) = fresh_hex s;
            key = ''up/'' @ uid;
            session = \<lparr>us_upload_id = uid, us_uploader_id = user_id, us_storage_key = key,
                       us_meta = Some \<lparr>um_key = key, um_info = info\<rparr>, us_created_at = now s\<rparr>
        in if list_ex (\<lambda>x. us_upload_id x = uid) (upload_sessions s)
           then (Inl (IntegrityError True (Some ''upload_sessions_pkey'')), s)
           else (Inr (Some uid), s\<lparr>upload_sessions := upload_sessions s @ [session]\<rparr>))"

text \<open>\<open>DELETE ... RETURNING\<close>\<close>

definition claim :: "string \<Rightarrow> uuid option \<Rightarrow> ('s file_db_scheme, upload_session option) act" where
  "claim upload_id uploader_id s =
     (let P = (\<lambda>x. us_upload_id x = upload_id \<and> (case uploader_id of None \<Rightarrow> True | Some u \<Rightarrow> us_uploader_id x = u))
      in (Inr (find P (upload_sessions s)), s\<lparr>upload_sessions := filter (\<lambda>x. \<not> P x) (upload_sessions s)\<rparr>))"

definition safe_delete :: "string \<Rightarrow> ('s file_db_scheme, unit) act" where
  "safe_delete key = best_effort (storage_delete key)"

definition hash_from_storage :: "files_config \<Rightarrow> string \<Rightarrow> nat \<Rightarrow> ('s file_db_scheme, string) act" where
  "hash_from_storage cf key limit =
     bindA (storage_read key) (\<lambda>content.
     if limit < length content then
       seqA (safe_delete key) (raiseA (BizError (FileErr file_err.TOO_LARGE)))
     else retA content)"

definition register_from_upload :: "files_config \<Rightarrow> upload_meta \<Rightarrow> uuid \<Rightarrow> ('s file_db_scheme, uuid) act" where
  "register_from_upload cf meta uploader_id =
     (let key = um_key meta; info = um_info meta
      in bindA (storage_exists key) (\<lambda>there.
         seqA (guardA there (BizError (FileErr UPLOAD_NOT_FOUND)))
        (bindA (hash_from_storage cf key (max_upload_bytes cf)) (\<lambda>content.
         let content_hash = sha3_256 cf content; hash_key = bucket_key content_hash
         in bindA (storage_read key) (\<lambda>_.
            bindA (liftA (process_upload cf (fc_original_name info) (fc_description info) content)) (\<lambda>(text, preview_pdf).
            bindA (\<lambda>s. (identity_for_upload uploader_id info s, s)) (\<lambda>(idn, info).
            bindA (storage_exists hash_key) (\<lambda>stored.
            seqA (if stored then retA () else storage_copy key hash_key)
           (seqA (save_preview cf content_hash preview_pdf)
           (bindA (register_row cf uploader_id info idn content_hash (length content)
                     (storage_path_for cf content_hash) text) (\<lambda>i.
            seqA (safe_delete key) (retA i))))))))))))"

definition confirm_upload :: "files_config \<Rightarrow> string \<Rightarrow> uuid \<Rightarrow> ('s file_db_scheme, uuid) act" where
  "confirm_upload cf upload_id user_id =
     bindA (claim upload_id (Some user_id)) (\<lambda>found.
     case found of
       None \<Rightarrow> raiseA (BizError (FileErr UPLOAD_EXPIRED))
     | Some session \<Rightarrow>
         (case us_meta session of
            None \<Rightarrow> raiseA (BizError (FileErr UPLOAD_EXPIRED))
          | Some meta \<Rightarrow> register_from_upload cf meta (us_uploader_id session)))"

text \<open>The same, told by the store; a session that is gone is no error.\<close>

definition notify_upload :: "files_config \<Rightarrow> string \<Rightarrow> ('s file_db_scheme, uuid option) act" where
  "notify_upload cf upload_id =
     bindA (claim upload_id None) (\<lambda>found.
     case found of
       None \<Rightarrow> retA None
     | Some session \<Rightarrow>
         (case us_meta session of
            None \<Rightarrow> raiseA ValueError
          | Some meta \<Rightarrow>
              bindA (register_from_upload cf meta (us_uploader_id session)) (\<lambda>i. retA (Some i))))"

section \<open>Review and deletion\<close>

definition set_reviewed :: "file_status \<Rightarrow> string option \<Rightarrow> library_file \<Rightarrow> library_file" where
  "set_reviewed target_status review_comment f = f\<lparr>lf_status := target_status, lf_review_comment := review_comment\<rparr>"

text \<open>The content goes with its last live row.\<close>

definition drop_content :: "files_config \<Rightarrow> library_file \<Rightarrow> ('s file_db_scheme, unit) act" where
  "drop_content cf f =
     (case content_of f of
        None \<Rightarrow> retA ()
      | Some h \<Rightarrow>
          seqA (modA (sync_ref_count h))
         (bindA (getA (count_live_by_hash h)) (\<lambda>n.
          if n = 0 then delete_content_variants cf h else retA ())))"

definition approve_effects :: "files_config \<Rightarrow> library_file \<Rightarrow> ('s file_db_scheme, unit) act" where
  "approve_effects cf f =
     seqA (case content_of f of
             None \<Rightarrow> retA ()
           | Some h \<Rightarrow>
               seqA (backup_file cf (bucket_key h) h)
              (modA (\<lambda>s. if files_backup_on cf
                          then update_file (lf_id f) (\<lambda>g. g\<lparr>lf_backed_up_at := Some (now s)\<rparr>) s else s)))
    (seqA (writeA (enqueue_points_event (lf_uploader_id f) ''file_approved'' (''file:'' @ uuid_str (lf_id f))))
    (seqA (enqueue_change cf (lf_id f))
    (bindA (getA (other_versions f)) (enqueue_changes cf))))"

text \<open>The audit record is written by another service, which may refuse: then the request fails.\<close>

definition review_file ::
    "files_config \<Rightarrow> exc + unit \<Rightarrow> uuid \<Rightarrow> file_status \<Rightarrow> string option \<Rightarrow> bool \<Rightarrow> ('s file_db_scheme, unit) act" where
  "review_file cf audit file_id target_status review_comment is_admin =
     seqA (guardA is_admin (BizError (FileErr file_err.STORE_ERROR)))
    (seqA (guardA (target_status \<in> {Approved, Rejected}) (BizError (FileErr file_err.INVALID_STATUS)))
    (bindA (get_or_raise file_id) (\<lambda>f.
     seqA (guardA (lf_status f = Pending) (BizError (FileErr NOT_PENDING)))
    (seqA (modA (update_file file_id (set_reviewed target_status review_comment)))
    (seqA (if target_status = Rejected then drop_content cf f else approve_effects cf f)
    (liftA audit))))))"

definition delete_file :: "files_config \<Rightarrow> uuid \<Rightarrow> uuid \<Rightarrow> bool \<Rightarrow> ('s file_db_scheme, unit) act" where
  "delete_file cf file_id actor_id is_admin =
     bindA (get_or_raise file_id) (\<lambda>f.
     seqA (guardA (is_admin \<or> lf_uploader_id f = actor_id) (BizError (FileErr file_err.STORE_ERROR)))
    (if lf_status f = Deleted then retA ()
     else
       seqA (modA (update_file file_id (\<lambda>g. g\<lparr>lf_status := Deleted\<rparr>)))
      (seqA (enqueue_change cf file_id)
      (seqA (bindA (getA (other_versions f)) (enqueue_changes cf))
      (drop_content cf f)))))"

text \<open>\<open>batch_review\<close>: each file once, in order, each committed or rolled back for itself.\<close>

definition comment_or_none :: "string option \<Rightarrow> string option" where
  "comment_or_none c =
     (let t = py_strip (case c of None \<Rightarrow> [] | Some x \<Rightarrow> x) in if t = [] then None else Some t)"

fun review_each ::
    "(string \<times> errcode) list \<Rightarrow> files_config \<Rightarrow> (uuid \<Rightarrow> exc + unit) \<Rightarrow> file_status \<Rightarrow> string option \<Rightarrow> uuid list
      \<Rightarrow> 's file_db_scheme \<Rightarrow> (uuid \<times> bool) list \<times> 's file_db_scheme" where
  "review_each reg cf audit target_status c [] s = ([], s)"
| "review_each reg cf audit target_status c (i # is) s =
     (let (r, s) = file_session reg (review_file cf (audit i) i target_status c True) s;
          (rs, s) = review_each reg cf audit target_status c is s
      in ((i, case r of Inl _ \<Rightarrow> False | Inr _ \<Rightarrow> True) # rs, s))"

definition batch_review ::
    "(string \<times> errcode) list \<Rightarrow> files_config \<Rightarrow> (uuid \<Rightarrow> exc + unit) \<Rightarrow> bool \<Rightarrow> file_status \<Rightarrow> string option \<Rightarrow> uuid list
      \<Rightarrow> ('s file_db_scheme, (uuid \<times> bool) list) act" where
  "batch_review reg cf audit may_review target_status review_comment file_ids s =
     (let c = comment_or_none review_comment
      in if \<not> may_review then (Inl (BizError (CommonErr common_err.FORBIDDEN)), s)
         else if target_status = Rejected \<and> c = None then (Inl (BizError (CommonErr INVALID_INPUT)), s)
         else let (rs, s) = review_each reg cf audit target_status c (rev (remdups (rev file_ids))) s in (Inr rs, s))"

section \<open>Reading\<close>

definition visible :: "'s file_db_scheme \<Rightarrow> current_user option \<Rightarrow> library_file \<Rightarrow> bool" where
  "visible s viewer f \<longleftrightarrow>
     (if (case viewer of None \<Rightarrow> False | Some v \<Rightarrow> cu_account_level v = ''admin'' \<or> lf_uploader_id f = cu_id v) then True
      else if lf_status f \<noteq> Approved then False
      else if lf_classification f = Public then True
      else (case viewer of
              None \<Rightarrow> False
            | Some v \<Rightarrow>
                if lf_classification f = Internal then True
                else (case lf_project_id f of None \<Rightarrow> False | Some p \<Rightarrow> is_member s p (cu_id v))))"

definition require_visible :: "current_user option \<Rightarrow> library_file \<Rightarrow> ('s file_db_scheme, unit) act" where
  "require_visible viewer f s = (if visible s viewer f then Inr () else Inl (BizError (FileErr file_err.NOT_FOUND)), s)"

text \<open>The conditions of the list.\<close>

definition page_conditions ::
    "'s file_db_scheme \<Rightarrow> string option \<Rightarrow> file_status option \<Rightarrow> current_user option \<Rightarrow> bool \<Rightarrow> library_file \<Rightarrow> bool" where
  "page_conditions s category_id status viewer enforce_visibility f \<longleftrightarrow>
     (lf_status f \<noteq> Approved
        \<or> \<not> list_ex (\<lambda>newer. lf_document_code newer \<noteq> None \<and> lf_document_code newer = lf_document_code f
              \<and> lf_version f < lf_version newer \<and> lf_status newer = Approved) (library_files s))
     \<and> (category_id \<in> {None, Some []} \<or> Some (lf_category_id f) = category_id)
     \<and> (case status of None \<Rightarrow> True | Some x \<Rightarrow> lf_status f = x)
     \<and> (enforce_visibility \<and> (case viewer of None \<Rightarrow> True | Some v \<Rightarrow> cu_account_level v \<noteq> ''admin'') \<longrightarrow>
          (case viewer of
             None \<Rightarrow> lf_status f = Approved \<and> lf_classification f = Public
           | Some v \<Rightarrow>
               (lf_status f = Approved \<and> lf_classification f = Public)
               \<or> (lf_status f = Approved \<and> lf_classification f = Internal)
               \<or> (lf_status f = Approved \<and> lf_classification f = Confidential
                   \<and> (case lf_project_id f of None \<Rightarrow> False | Some p \<Rightarrow> is_member s p (cu_id v)))
               \<or> lf_uploader_id f = cu_id v))"

text \<open>The largest identifier first, or the most downloads and then the largest identifier.\<close>

definition page_sorted :: "bool \<Rightarrow> library_file list \<Rightarrow> library_file list" where
  "page_sorted by_downloads rows =
     (let by_id = sort_key (\<lambda>f. - uint (lf_id f)) rows
      in if by_downloads then sort_key (\<lambda>f. - lf_download_count f) by_id else by_id)"

definition list_files ::
    "nat \<Rightarrow> nat \<Rightarrow> string option \<Rightarrow> file_status option \<Rightarrow> bool \<Rightarrow> current_user option \<Rightarrow> bool
      \<Rightarrow> 's file_db_scheme \<Rightarrow> library_file list \<times> nat" where
  "list_files page limit category_id status by_downloads viewer enforce_visibility s =
     (let rows = filter (page_conditions s category_id status viewer enforce_visibility) (library_files s)
      in (take limit (drop ((page - 1) * limit) (page_sorted by_downloads rows)), length rows))"

definition list_versions :: "uuid \<Rightarrow> current_user option \<Rightarrow> ('s file_db_scheme, library_file list) act" where
  "list_versions file_id viewer =
     bindA (get_or_raise file_id) (\<lambda>f.
     seqA (require_visible viewer f)
    (case lf_document_code f of
       None \<Rightarrow> retA [f]
     | Some code \<Rightarrow>
         if code = [] then retA [f]
         else getA (\<lambda>s. filter (visible s viewer) (versions code s))))"

definition increment_view :: "uuid \<Rightarrow> ('s file_db_scheme, int) act" where
  "increment_view file_id =
     bindA (get_or_raise file_id) (\<lambda>f.
     seqA (modA (update_file file_id (\<lambda>g. g\<lparr>lf_view_count := lf_view_count g + 1\<rparr>)))
    (retA (lf_view_count f + 1)))"

definition increment_download :: "uuid \<Rightarrow> ('s file_db_scheme, int) act" where
  "increment_download file_id =
     bindA (get_or_raise file_id) (\<lambda>f.
     seqA (modA (update_file file_id (\<lambda>g. g\<lparr>lf_download_count := lf_download_count g + 1\<rparr>)))
    (retA (lf_download_count f + 1)))"

definition get_file :: "uuid \<Rightarrow> bool \<Rightarrow> current_user option \<Rightarrow> bool \<Rightarrow> ('s file_db_scheme, library_file) act" where
  "get_file file_id bump_view viewer enforce_visibility =
     bindA (get_or_raise file_id) (\<lambda>f.
     seqA (if enforce_visibility then require_visible viewer f else retA ())
    (if bump_view then bindA (increment_view file_id) (\<lambda>n. retA (f\<lparr>lf_view_count := n\<rparr>)) else retA f))"

definition require_approved :: "library_file \<Rightarrow> ('s file_db_scheme, unit) act" where
  "require_approved f = guardA (lf_status f = Approved) (BizError (FileErr NOT_APPROVED))"

datatype download_kind = Presigned string | Backend uuid

definition download_url :: "files_config \<Rightarrow> uuid \<Rightarrow> current_user \<Rightarrow> ('s file_db_scheme, download_kind) act" where
  "download_url cf file_id cur =
     bindA (get_or_raise file_id) (\<lambda>f.
     seqA (require_visible (Some cur) f)
    (seqA (require_approved f)
    (case content_of f of
       None \<Rightarrow> raiseA (BizError (FileErr file_err.NOT_FOUND))
     | Some h \<Rightarrow>
         bindA (increment_download file_id) (\<lambda>_.
         bindA (getA (archive_exists cf h)) (\<lambda>archived.
         retA (if storage_s3 cf \<and> \<not> archived then Presigned (bucket_key h) else Backend file_id))))))"

datatype disposition = Inline | Attachment

definition INLINE_SAFE_TYPES :: "string list" where
  "INLINE_SAFE_TYPES =
     [''application/pdf'', ''text/plain'', ''image/png'', ''image/jpeg'', ''image/gif'', ''image/webp'', ''image/bmp'',
      ''audio/mpeg'', ''audio/ogg'', ''video/mp4'', ''video/webm'']"

record served =
  sv_content :: string
  sv_disposition :: disposition
  sv_media_type :: string

text \<open>Nothing a browser would run is shown inline.\<close>

definition serve :: "library_file \<Rightarrow> disposition \<Rightarrow> bool \<Rightarrow> string \<Rightarrow> served" where
  "serve f d preview_pdf content =
     (let media_type = (if preview_pdf then ''application/pdf'' else lf_mime_type f)
      in if d = Inline \<and> media_type \<notin> set INLINE_SAFE_TYPES
         then \<lparr>sv_content = content, sv_disposition = Attachment, sv_media_type = ''application/octet-stream''\<rparr>
         else \<lparr>sv_content = content, sv_disposition = d, sv_media_type = media_type\<rparr>)"

definition serve_content ::
    "files_config \<Rightarrow> uuid \<Rightarrow> disposition \<Rightarrow> current_user option \<Rightarrow> ('s file_db_scheme, served) act" where
  "serve_content cf file_id d viewer =
     bindA (get_or_raise file_id) (\<lambda>f.
     seqA (require_visible viewer f)
    (seqA (require_approved f)
    (case content_of f of
       None \<Rightarrow> raiseA (BizError (FileErr file_err.NOT_FOUND))
     | Some h \<Rightarrow>
         let converted = (d = Inline \<and> is_office (lf_original_name f));
             key = (if converted then bucket_key h @ PREVIEW_SUFFIX else bucket_key h)
         in bindA (storage_exists key) (\<lambda>hot.
            bindA (getA (archive_exists cf h)) (\<lambda>archived.
            let use_archive = (\<not> hot \<and> \<not> converted \<and> archived)
            in if \<not> hot \<and> \<not> use_archive
               then raiseA (BizError (FileErr (if converted then PREVIEW_UNAVAILABLE else file_err.NOT_FOUND)))
               else
                 seqA (if d = Inline then bindA (increment_view file_id) (\<lambda>_. retA ()) else retA ())
                (bindA (on_error raise_storage_as_file (if use_archive then read_archive cf h else storage_read key)) (\<lambda>content.
                 retA (serve f d converted content))))))))"

section \<open>Periodic jobs\<close>

definition UPLOAD_TTL :: int where "UPLOAD_TTL = 3600"

text \<open>The object first, then its session; an object that cannot be deleted keeps its session for the next run.\<close>

fun cleanup_each :: "upload_session list \<Rightarrow> 's file_db_scheme \<Rightarrow> 's file_db_scheme" where
  "cleanup_each [] s = s"
| "cleanup_each (x # xs) s =
     (case storage_delete (us_storage_key x) s of
        (Inl _, s) \<Rightarrow> cleanup_each xs s
      | (Inr _, s) \<Rightarrow>
          cleanup_each xs (s\<lparr>upload_sessions := filter (\<lambda>y. us_upload_id y \<noteq> us_upload_id x) (upload_sessions s)\<rparr>))"

definition cleanup_expired_uploads :: "'s file_db_scheme \<Rightarrow> 's file_db_scheme" where
  "cleanup_expired_uploads s =
     cleanup_each (sort_key us_created_at (filter (\<lambda>x. us_created_at x < now s - seconds UPLOAD_TTL) (upload_sessions s))) s"

text \<open>A row that keeps the content where it is.\<close>

definition blocks_archive :: "files_config \<Rightarrow> instant \<Rightarrow> library_file \<Rightarrow> bool" where
  "blocks_archive cf cutoff f \<longleftrightarrow>
     live f \<and> (lf_status f \<noteq> Approved \<or> cutoff \<le> lf_created_at f \<or> (files_backup_on cf \<and> lf_backed_up_at f = None))"

definition archive_candidates :: "files_config \<Rightarrow> instant \<Rightarrow> 's file_db_scheme \<Rightarrow> string list" where
  "archive_candidates cf cutoff s =
     take 100 (remdups (List.map_filter lf_sha3_hash
       (filter (\<lambda>f. lf_status f = Approved \<and> lf_archive_state f = ''active'' \<and> lf_created_at f < cutoff
            \<and> \<not> list_ex (\<lambda>b. lf_sha3_hash b = lf_sha3_hash f \<and> blocks_archive cf cutoff b) (library_files s)
            \<and> (files_backup_on cf \<longrightarrow> lf_backed_up_at f \<noteq> None)) (library_files s))))"

definition archive_one :: "files_config \<Rightarrow> instant \<Rightarrow> string \<Rightarrow> ('s file_db_scheme, unit) act" where
  "archive_one cf cutoff h =
     bindA (getA (\<lambda>s. filter (\<lambda>f. lf_sha3_hash f = Some h \<and> live f) (library_files s))) (\<lambda>rows.
     if h = [] \<or> rows = [] \<or> list_ex (blocks_archive cf cutoff) rows then retA ()
     else
       bindA (storage_exists (bucket_key h)) (\<lambda>there.
       if \<not> there then retA ()
       else
         seqA (archive_file cf (bucket_key h) h)
        (seqA (modA (\<lambda>s. s\<lparr>library_files :=
                   map (\<lambda>f. if lf_sha3_hash f = Some h \<and> live f then f\<lparr>lf_archive_state := ''archived''\<rparr> else f) (library_files s)\<rparr>))
        (storage_delete (bucket_key h)))))"

text \<open>One transaction for each content; an exception ends the job.\<close>

fun archive_each :: "files_config \<Rightarrow> instant \<Rightarrow> string list \<Rightarrow> 's file_db_scheme \<Rightarrow> 's file_db_scheme" where
  "archive_each cf cutoff [] s = s"
| "archive_each cf cutoff (h # hs) s =
     (case archive_one cf cutoff h s of
        (Inl _, s') \<Rightarrow> undo s s'
      | (Inr _, s') \<Rightarrow> archive_each cf cutoff hs s')"

definition archive_cold_files :: "files_config \<Rightarrow> 's file_db_scheme \<Rightarrow> 's file_db_scheme" where
  "archive_cold_files cf s =
     (if \<not> files_archive_on cf then s
      else let cutoff = now s - days (files_archive_after_days cf)
           in archive_each cf cutoff (archive_candidates cf cutoff s) s)"

definition backup_candidates :: "'s file_db_scheme \<Rightarrow> string list" where
  "backup_candidates s =
     take 100 (remdups (List.map_filter lf_sha3_hash
       (filter (\<lambda>f. lf_status f = Approved \<and> lf_backed_up_at f = None) (library_files s))))"

text \<open>A content that cannot be copied is left for the next run.\<close>

fun backup_each :: "files_config \<Rightarrow> string list \<Rightarrow> ('s file_db_scheme, unit) act" where
  "backup_each cf [] = retA ()"
| "backup_each cf (h # hs) =
     (if h = [] then backup_each cf hs
      else
        bindA (storage_exists (bucket_key h)) (\<lambda>there.
        if \<not> there then backup_each cf hs
        else (\<lambda>s. (case backup_file cf (bucket_key h) h s of
                (Inl _, s) \<Rightarrow> backup_each cf hs s
              | (Inr _, s) \<Rightarrow>
                  backup_each cf hs (s\<lparr>library_files :=
                    map (\<lambda>f. if lf_sha3_hash f = Some h \<and> lf_status f = Approved then f\<lparr>lf_backed_up_at := Some (now s)\<rparr> else f)
                      (library_files s)\<rparr>)))))"

definition backup_approved_files :: "files_config \<Rightarrow> 's file_db_scheme \<Rightarrow> 's file_db_scheme" where
  "backup_approved_files cf s =
     (if \<not> files_backup_on cf then s else snd (backup_each cf (backup_candidates s) s))"

end
