(* ===== verification/File_Safety.thy ===== *)
theory File_Safety
  imports File_Library
begin

text \<open>
  What the file library keeps over any sequence of requests, notices and jobs, successful or not: the identity of
  documents and their versions, the decision of a review, the end of an upload; and what its list shows.
\<close>

section \<open>Operations that leave the database alone\<close>

text \<open>Operations on the objects touch none of the tables; they may use up faults.\<close>

definition same_tables :: "'s file_db_scheme \<Rightarrow> 's file_db_scheme \<Rightarrow> bool" where
  "same_tables s s' \<longleftrightarrow> library_files s' = library_files s \<and> upload_sessions s' = upload_sessions s
     \<and> projects s' = projects s \<and> project_members s' = project_members s \<and> now s' = now s
     \<and> hexes s' = hexes s \<and> hex_ix s' = hex_ix s \<and> pks s' = pks s \<and> pk_ix s' = pk_ix s"

interpretation st: kept_relation same_tables
  by unfold_locales (auto simp: same_tables_def)

named_theorems st_ops \<open>operations that leave the tables alone\<close>

lemma st_storage_io [st_ops]: "act_rel same_tables storage_io"
  by (rule act_relI) (simp add: storage_io_def same_tables_def)

lemma st_storage [st_ops]:
  "act_rel same_tables (storage_exists k)" "act_rel same_tables (storage_save n k c)" "act_rel same_tables (storage_read k)"
  "act_rel same_tables (storage_copy k k')" "act_rel same_tables (storage_delete k)"
proof -
  have obj: "act_rel same_tables (modA (\<lambda>s. s\<lparr>objects := g (objects s)\<rparr>))" for g
    by (rule st.mod) (simp add: same_tables_def)
  show "act_rel same_tables (storage_exists k)" "act_rel same_tables (storage_save n k c)"
    unfolding storage_exists_def storage_save_def by (intro st.rules st_ops obj; simp add: same_tables_def)+
  show "act_rel same_tables (storage_read k)" unfolding storage_read_def
    by (intro st.seq st_ops act_relI) (simp add: same_tables_def)
  show "act_rel same_tables (storage_copy k k')" unfolding storage_copy_def
    by (intro st.seq st_ops act_relI) (simp add: same_tables_def split: option.splits)
  show "act_rel same_tables (storage_delete k)" unfolding storage_delete_def
    by (intro st.seq st_ops) (intro st.mod; simp add: same_tables_def)
qed

lemma act_rel_best_effort: "act_rel R m \<Longrightarrow> act_rel R (best_effort m)"
proof (rule act_relI)
  fix s assume "act_rel R m"
  then have "R s (snd (m s))" by (rule act_rel_snd)
  then show "R s (snd (best_effort m s))"
    by (cases "m s"; cases "fst (m s)") (auto simp: best_effort_def split: exc.splits)
qed

lemma act_rel_on_error: "act_rel R m \<Longrightarrow> act_rel R (on_error g m)"
proof (rule act_relI)
  fix s assume "act_rel R m"
  then have "R s (snd (m s))" by (rule act_rel_snd)
  then show "R s (snd (on_error g m s))"
    by (cases "m s"; cases "fst (m s)") (auto simp: on_error_def)
qed

lemma act_rel_delete_variant: "act_rel R (storage_delete k) \<Longrightarrow> act_rel R (delete_variant k)"
proof (rule act_relI)
  fix s assume "act_rel R (storage_delete k)"
  then have "R s (snd (storage_delete k s))" by (rule act_rel_snd)
  then show "R s (snd (delete_variant k s))"
    by (cases "storage_delete k s"; cases "fst (storage_delete k s)") (auto simp: delete_variant_def split: exc.splits)
qed

lemma same_put_area: "same_tables s (put_area a h c s)"
  by (cases a) (simp_all add: same_tables_def)

lemma st_copy_verified [st_ops]: "act_rel same_tables (copy_verified cf a k h)"
  unfolding copy_verified_def by (intro st.rules st_ops same_put_area)

lemma st_areas [st_ops]:
  "act_rel same_tables (backup_file cf k h)" "act_rel same_tables (archive_file cf k h)"
  "act_rel same_tables (delete_archive cf h)" "act_rel same_tables (read_archive cf h)"
  unfolding backup_file_def archive_file_def delete_archive_def read_archive_def
  by (intro st.rules st_ops act_relI; simp add: same_tables_def)+

lemma st_compound [st_ops]:
  "act_rel same_tables (delete_variant k)" "act_rel same_tables (save_preview cf h p)" "act_rel same_tables (safe_delete k)"
  "act_rel same_tables (delete_content_variants cf h)" "act_rel same_tables (hash_from_storage cf k n)"
proof -
  show v: "act_rel same_tables (delete_variant k)" for k by (rule act_rel_delete_variant[OF st_storage(5)])
  show "act_rel same_tables (save_preview cf h p)"
    unfolding save_preview_def by (cases p) (auto intro: st.read act_rel_best_effort st_ops)
  show d: "act_rel same_tables (safe_delete k)" unfolding safe_delete_def by (intro act_rel_best_effort st_ops)
  show "act_rel same_tables (delete_content_variants cf h)"
    unfolding delete_content_variants_def by (intro st.seq v st_ops)
  show "act_rel same_tables (hash_from_storage cf k n)"
    unfolding hash_from_storage_def by (intro st.rules st_ops d)
qed

section \<open>What every request keeps\<close>

text \<open>What a row says of its document: its place, its owner, and what is inherited by new versions.\<close>

record doc_key =
  dk_id :: uuid
  dk_code :: "string option"
  dk_version :: int
  dk_root :: "uuid option"
  dk_owner :: uuid
  dk_classification :: file_classification
  dk_project :: "uuid option"

definition doc_key_of :: "library_file \<Rightarrow> doc_key" where
  "doc_key_of f = \<lparr>dk_id = lf_id f, dk_code = lf_document_code f, dk_version = lf_version f, dk_root = lf_root_file_id f,
     dk_owner = lf_uploader_id f, dk_classification = lf_classification f, dk_project = lf_project_id f\<rparr>"

lemma doc_key_of_simps [simp]:
  "dk_id (doc_key_of f) = lf_id f" "dk_code (doc_key_of f) = lf_document_code f" "dk_version (doc_key_of f) = lf_version f"
  "dk_root (doc_key_of f) = lf_root_file_id f" "dk_owner (doc_key_of f) = lf_uploader_id f"
  "dk_classification (doc_key_of f) = lf_classification f" "dk_project (doc_key_of f) = lf_project_id f"
  by (simp_all add: doc_key_of_def)

definition document_rows :: "string \<Rightarrow> doc_key list \<Rightarrow> doc_key list" where
  "document_rows code ks = filter (\<lambda>k. dk_code k = Some code) ks"

definition document_ok :: "doc_key list \<Rightarrow> bool" where
  "document_ok rs \<longleftrightarrow> map dk_version rs = [1..int (length rs)]
     \<and> (\<forall>k \<in> set rs. dk_root k = Some (dk_id (hd rs)) \<and> dk_owner k = dk_owner (hd rs)
          \<and> dk_classification k = dk_classification (hd rs) \<and> dk_project k = dk_project (hd rs))"

definition documents_ok :: "doc_key list \<Rightarrow> bool" where
  "documents_ok ks \<longleftrightarrow> (\<forall>code. document_ok (document_rows code ks))"

definition doc_keys :: "'s file_db_scheme \<Rightarrow> doc_key list" where
  "doc_keys s = map doc_key_of (library_files s)"

text \<open>A file that has been decided, and an upload whose session is gone for good.\<close>

definition decided :: "uuid \<Rightarrow> 's file_db_scheme \<Rightarrow> bool" where
  "decided i s \<longleftrightarrow> (\<exists>f. get_file_row i s = Some f \<and> lf_status f \<noteq> Pending)"

definition upload_gone :: "string \<Rightarrow> 's file_db_scheme \<Rightarrow> bool" where
  "upload_gone u s \<longleftrightarrow> inj (hexes s) \<and> (\<exists>n < hex_ix s. hexes s n = u) \<and> u \<notin> us_upload_id ` set (upload_sessions s)"

definition frame :: "'s file_db_scheme \<Rightarrow> 's file_db_scheme \<Rightarrow> bool" where
  "frame s s' \<longleftrightarrow> (documents_ok (doc_keys s) \<longrightarrow> documents_ok (doc_keys s'))
     \<and> (\<forall>i. decided i s \<longrightarrow> decided i s') \<and> (\<forall>u. upload_gone u s \<longrightarrow> upload_gone u s')
     \<and> hexes s' = hexes s \<and> hex_ix s \<le> hex_ix s'"

interpretation fr: kept_relation frame
  by unfold_locales (auto simp: frame_def)

named_theorems fr_ops \<open>operations that keep the frame\<close>

lemma frame_tables:
  assumes "library_files s' = library_files s" and "upload_sessions s' = upload_sessions s"
    and "hexes s' = hexes s" and "hex_ix s \<le> hex_ix s'"
  shows "frame s s'"
  using assms by (auto simp: frame_def doc_keys_def decided_def get_file_row_def upload_gone_def intro: less_le_trans)

lemma fr_same: "act_rel same_tables m \<Longrightarrow> act_rel frame m"
  unfolding act_rel_def same_tables_def by (blast intro: frame_tables eq_refl[OF sym])

lemmas fr_st_ops [fr_ops] = st_ops[THEN fr_same]

lemma find_file_map:
  assumes "\<And>f. lf_id (g f) = lf_id f"
  shows "find (\<lambda>f. lf_id f = i) (map g fs) = map_option g (find (\<lambda>f. lf_id f = i) fs)"
  by (induction fs) (auto simp: assms)

text \<open>Rows may change in everything but their document and the fact that they are decided.\<close>

lemma frame_rows:
  assumes "\<And>f. doc_key_of (g f) = doc_key_of f" and "\<And>f. lf_status f \<noteq> Pending \<Longrightarrow> lf_status (g f) \<noteq> Pending"
  shows "frame s (s\<lparr>library_files := map g (library_files s)\<rparr>)"
proof -
  have "doc_key_of \<circ> g = doc_key_of" by (auto simp: assms(1))
  moreover have id: "lf_id (g f) = lf_id f" for f using arg_cong[OF assms(1)[of f], of dk_id] by simp
  ultimately show ?thesis
    using assms(2) by (auto simp: frame_def doc_keys_def decided_def get_file_row_def find_file_map[OF id] upload_gone_def)
qed

lemma frame_update:
  assumes "\<And>f. doc_key_of (g f) = doc_key_of f" and "\<And>f. lf_status f \<noteq> Pending \<Longrightarrow> lf_status (g f) \<noteq> Pending"
  shows "frame s (update_file i g s)"
  unfolding update_file_def by (rule frame_rows) (auto simp: assms)

lemma frame_sync: "frame s (sync_ref_count h s)"
  unfolding sync_ref_count_def Let_def
  by (auto intro!: frame_rows fr.refl simp: doc_key_of_def split: if_splits)

lemma enqueue_frame:
  assumes "enqueue_outbox rk p e r s = Inr (b, s')"
  shows "hexes s' = hexes s \<and> hex_ix s \<le> hex_ix s' \<and> core_db.more s' = core_db.more s \<and> now s' = now s"
  using assms
  by (auto simp: enqueue_outbox_def Let_def add_outbox_def insert_outbox_def fresh_pk_def fresh_hex_def
      split: if_splits option.splits)

lemma more_eq_files:
  assumes "core_db.more s' = core_db.more s"
  shows "library_files s' = library_files s" "upload_sessions s' = upload_sessions s" "objects s' = objects s"
    "archive s' = archive s" "backups s' = backups s" "faults s' = faults s" "fault_ix s' = fault_ix s"
    "projects s' = projects s" "project_members s' = project_members s"
  using assms by (cases s, cases s', simp)+

lemma fr_writeA: "(\<And>s s'. g s = Inr s' \<Longrightarrow> frame s s') \<Longrightarrow> act_rel frame (writeA g)"
  by (rule act_relI) (auto simp: writeA_def split: sum.splits intro: fr.refl)

lemma frame_enqueue: "enqueue_outbox rk p e r s = Inr (b, s') \<Longrightarrow> frame s s'"
  using enqueue_frame[of rk p e r s b s'] by (intro frame_tables) (auto dest: more_eq_files)

lemma fr_enqueue [fr_ops]:
  "act_rel frame (enqueue_change cf i)" "act_rel frame (enqueue_changes cf fs)"
  "act_rel frame (writeA (enqueue_points_event u e r))"
proof -
  show c: "act_rel frame (enqueue_change cf i)" for i
    unfolding enqueue_change_def
    by (rule fr_writeA) (auto simp: enqueue_file_change_def elim!: bindR_InrE split: if_splits dest: frame_enqueue intro: fr.refl)
  show "act_rel frame (enqueue_changes cf fs)" 
  proof (induction fs)
    case Nil
    show ?case unfolding enqueue_changes.simps by (rule fr.read)
  next
    case (Cons f fs)
    then show ?case unfolding enqueue_changes.simps by (intro fr.seq c)
  qed
  show "act_rel frame (writeA (enqueue_points_event u e r))"
    by (rule fr_writeA) (auto simp: enqueue_points_event_def elim!: bindR_InrE dest: frame_enqueue)
qed

lemma fr_get_or_raise [fr_ops]: "act_rel frame (get_or_raise i)"
  by (rule act_relI) (simp add: get_or_raise_def fr.refl)

section \<open>New rows\<close>

text \<open>An identity is right for the rows there are: a row that takes it continues its document.\<close>

definition identity_ok :: "identity \<Rightarrow> uuid \<Rightarrow> doc_key list \<Rightarrow> bool" where
  "identity_ok idn owner ks \<longleftrightarrow>
     (documents_ok ks \<longrightarrow>
        (\<forall>i. documents_ok (ks @ [\<lparr>dk_id = i, dk_code = Some (idn_code idn), dk_version = idn_version idn,
           dk_root = (case idn_root idn of None \<Rightarrow> Some i | Some r \<Rightarrow> Some r), dk_owner = owner,
           dk_classification = idn_classification idn, dk_project = idn_project idn\<rparr>])))"

lemma documents_ok_snoc:
  assumes "documents_ok ks" and "document_ok (document_rows code ks @ [k])" and "dk_code k = Some code"
  shows "documents_ok (ks @ [k])"
  unfolding documents_ok_def
proof
  fix c show "document_ok (document_rows c (ks @ [k]))"
    using assms by (cases "c = code") (auto simp: documents_ok_def document_rows_def)
qed

lemma max_of_upto: "max_of [1..int n] = (if n = 0 then None else Some (int n))"
proof -
  have "max_of (xs @ [x]) = Some (case max_of xs of None \<Rightarrow> x | Some m \<Rightarrow> max m x)" for xs x
    by (induction xs) (auto split: option.splits)
  moreover have "[1..int (Suc n)] = [1..int n] @ [int (Suc n)]" for n by (simp add: upto_rec2)
  ultimately show ?thesis by (induction n) (auto split: option.splits)
qed

lemma document_rows_keys:
  "document_rows code (doc_keys s) = map doc_key_of (filter (\<lambda>f. lf_document_code f = Some code) (library_files s))"
  by (simp add: document_rows_def doc_keys_def filter_map comp_def)

lemma next_version_continues:
  assumes "documents_ok (doc_keys s)"
  shows "next_version code s = int (length (document_rows code (doc_keys s))) + 1"
proof -
  let ?rs = "filter (\<lambda>f. lf_document_code f = Some code) (library_files s)"
  have "map lf_version ?rs = [1..int (length ?rs)]"
    using assms by (simp add: documents_ok_def document_ok_def document_rows_keys comp_def)
  then have "next_version code s = or_zero (max_of [1..int (length ?rs)]) + 1" by (simp add: next_version_def)
  then show ?thesis by (simp add: max_of_upto or_zero_def document_rows_keys)
qed

lemma document_ok_snoc:
  assumes "document_ok rs" and "dk_version k = int (length rs) + 1"
    and "rs \<noteq> [] \<Longrightarrow> dk_root k = dk_root (hd rs) \<and> dk_owner k = dk_owner (hd rs)
      \<and> dk_classification k = dk_classification (hd rs) \<and> dk_project k = dk_project (hd rs)"
    and "rs = [] \<Longrightarrow> dk_root k = Some (dk_id k)"
  shows "document_ok (rs @ [k])"
proof -
  have "[1..int (length rs) + 1] = [1..int (length rs)] @ [int (length rs) + 1]" by (simp add: upto_rec2)
  moreover have "rs \<noteq> [] \<Longrightarrow> dk_root (hd rs) = Some (dk_id (hd rs))" using assms(1) by (simp add: document_ok_def)
  ultimately show ?thesis using assms by (cases rs) (auto simp: document_ok_def algebra_simps)
qed

text \<open>A number written with leading zeros is read back.\<close>

lemma digit_char: "d < 10 \<Longrightarrow> digit (''0123456789'' ! d) = d \<and> 48 \<le> (of_char (''0123456789'' ! d) :: nat)
    \<and> (of_char (''0123456789'' ! d) :: nat) \<le> 57"
  by (auto simp: digit_def less_Suc_eq numeral_eq_Suc)

lemma cast_dec_str: "foldl (\<lambda>n c. 10 * n + digit c) 0 (dec_str n) = n \<and> list_all (\<lambda>c. 48 \<le> (of_char c :: nat) \<and> (of_char c :: nat) \<le> 57) (dec_str n)"
proof (induction n rule: dec_str.induct)
  case (1 n)
  then show ?case
    using digit_char[of n] digit_char[of "n mod 10"] by (subst (1 2) dec_str.simps) auto
qed

lemma cast_zero_padded: "cast_int (zero_padded k n) = int n"
proof -
  have "digit (CHR ''0'') = 0" by (simp add: digit_def)
  then have "foldl (\<lambda>n c. 10 * n + digit c) 0 (replicate j (CHR ''0'')) = 0" for j by (induction j) simp_all
  then show ?thesis using cast_dec_str[of n] by (simp add: cast_int_def zero_padded_def Let_def)
qed

lemma max_of_ge: "x \<in> set xs \<Longrightarrow> \<exists>m. max_of xs = Some m \<and> x \<le> m"
  by (induction xs) (auto split: option.splits)

lemma fresh_document_code:
  assumes "next_document_code y s = Inr code"
  shows "document_rows code (doc_keys s) = []"
proof -
  let ?p = "code_prefix y"
  let ?nums = "map (drop (length ?p)) (filter (starts_with ?p) (List.map_filter lf_document_code (library_files s)))"
  have code: "code = ?p @ zero_padded 3 (nat (or_zero (max_of (map cast_int ?nums)) + 1))"
    using assms by (auto simp: next_document_code_def Let_def split: if_splits)
  have nonneg: "0 \<le> cast_int w" for w by (simp add: cast_int_def)
  have "\<not> (f \<in> set (library_files s) \<and> lf_document_code f = Some code)" for f
  proof
    assume f: "f \<in> set (library_files s) \<and> lf_document_code f = Some code"
    let ?w = "zero_padded 3 (nat (or_zero (max_of (map cast_int ?nums)) + 1))"
    have "code \<in> set (List.map_filter lf_document_code (library_files s))"
      using f by (force simp: List.map_filter_def)
    then have "?w \<in> set ?nums" by (force simp: code starts_with_def)
    then obtain m where m: "max_of (map cast_int ?nums) = Some m" "cast_int ?w \<le> m"
      using max_of_ge[of "cast_int ?w" "map cast_int ?nums"] by auto
    then have "0 \<le> m" using nonneg[of ?w] by linarith
    then have "cast_int ?w = m + 1" unfolding cast_zero_padded m(1) or_zero_def by simp
    with m(2) show False by simp
  qed
  then show ?thesis by (auto simp: document_rows_keys filter_empty_conv)
qed

lemma identity_continues:
  assumes "identity_for_upload u info s = Inr (idn, info')"
  shows "identity_ok idn u (doc_keys s)"
  unfolding identity_ok_def
proof (intro impI allI)
  fix i assume ok: "documents_ok (doc_keys s)"
  let ?k = "\<lparr>dk_id = i, dk_code = Some (idn_code idn), dk_version = idn_version idn,
     dk_root = (case idn_root idn of None \<Rightarrow> Some i | Some r \<Rightarrow> Some r), dk_owner = u,
     dk_classification = idn_classification idn, dk_project = idn_project idn\<rparr>"
  have "document_ok (document_rows (idn_code idn) (doc_keys s) @ [?k])"
  proof (cases "fc_version_of info")
    case None
    then have code: "next_document_code (utc_year (now s)) s = Inr (idn_code idn)" and v: "idn_version idn = 1" "idn_root idn = None"
      using assms by (auto simp: identity_for_upload_def elim!: bindR_InrE split: if_splits option.splits)
    show ?thesis unfolding fresh_document_code[OF code] by (simp add: document_ok_def v)
  next
    case (Some pid)
    then obtain parent code where p: "get_file_row pid s = Some parent" "lf_uploader_id parent = u"
        "lf_document_code parent = Some code"
      and idn: "idn_code idn = code" "idn_version idn = next_version code s"
        "idn_root idn = Some (case lf_root_file_id parent of Some r \<Rightarrow> r | None \<Rightarrow> lf_id parent)"
        "idn_classification idn = lf_classification parent" "idn_project idn = lf_project_id parent"
      using assms by (auto simp: identity_for_upload_def optR_def Let_def elim!: bindR_InrE split: if_splits option.splits)
    let ?rs = "document_rows code (doc_keys s)"
    have "parent \<in> set (library_files s)" using p(1) by (auto simp: get_file_row_def find_Some_iff)
    then have mem: "doc_key_of parent \<in> set ?rs" using p(3) by (auto simp: document_rows_keys)
    have rs: "document_ok ?rs" using ok by (simp add: documents_ok_def)
    then have root: "dk_root (hd ?rs) = Some (dk_id (hd ?rs))" using mem
      by (metis document_ok_def empty_iff hd_in_set list.set(1))
    have "document_ok (?rs @ [?k])"
    proof (rule document_ok_snoc[OF rs])
      show "dk_version ?k = int (length ?rs) + 1" using next_version_continues[OF ok] idn(2) by simp
      show "dk_root ?k = dk_root (hd ?rs) \<and> dk_owner ?k = dk_owner (hd ?rs)
        \<and> dk_classification ?k = dk_classification (hd ?rs) \<and> dk_project ?k = dk_project (hd ?rs)"
        using rs mem p(2) idn(3-5) root unfolding document_ok_def by fastforce
      show "?rs = [] \<Longrightarrow> dk_root ?k = Some (dk_id ?k)" using mem by simp
    qed
    then show ?thesis by (simp only: idn(1))
  qed
  then show "documents_ok (doc_keys s @ [?k])"
    using documents_ok_snoc[OF ok] by simp
qed

lemma frame_register:
  assumes "identity_ok idn u (doc_keys s)"
  shows "frame s (snd (register_row cf u info idn h n path text s))"
proof -
  let ?s = "snd (fresh_pk (snd (fresh_hex s)))"
  have s: "library_files ?s = library_files s" "upload_sessions ?s = upload_sessions s" "hexes ?s = hexes s" "hex_ix s \<le> hex_ix ?s"
    by (simp_all add: fresh_pk_def fresh_hex_def)
  have ins: "frame s (snd (insert_file f ?s))"
    if "doc_key_of f = \<lparr>dk_id = i, dk_code = Some (idn_code idn), dk_version = idn_version idn,
     dk_root = (case idn_root idn of None \<Rightarrow> Some i | Some r \<Rightarrow> Some r), dk_owner = u,
     dk_classification = idn_classification idn, dk_project = idn_project idn\<rparr>" for f i
  proof -
    have "documents_ok (doc_keys s) \<longrightarrow> documents_ok (doc_keys s @ [doc_key_of f])"
      using assms that by (simp add: identity_ok_def)
    moreover have "decided j s \<Longrightarrow> find (\<lambda>f. lf_id f = j) (library_files s @ [f]) = get_file_row j s" for j
      by (auto simp: decided_def get_file_row_def find_snoc split: option.splits)
    ultimately show ?thesis
      using s by (auto simp: insert_file_def frame_def doc_keys_def decided_def get_file_row_def upload_gone_def intro: less_le_trans)
  qed
  obtain f i where f: "doc_key_of f = \<lparr>dk_id = i, dk_code = Some (idn_code idn), dk_version = idn_version idn,
     dk_root = (case idn_root idn of None \<Rightarrow> Some i | Some r \<Rightarrow> Some r), dk_owner = u,
     dk_classification = idn_classification idn, dk_project = idn_project idn\<rparr>"
    and ro: "register_row cf u info idn h n path text s =
      seqA (insert_file f) (seqA (modA (sync_ref_count h)) (retA i)) ?s"
    by (rule that[rotated]) (auto simp: register_row_def Let_def case_prod_unfold doc_key_of_def)
  have "snd (register_row cf u info idn h n path text s) \<in> {snd (insert_file f ?s), sync_ref_count h (snd (insert_file f ?s))}"
    unfolding ro by (auto simp: bindA_def split: prod.splits sum.splits)
  then show ?thesis using ins[OF f] fr.trans[OF ins[OF f] frame_sync] by auto
qed

section \<open>Every request keeps the frame\<close>

lemma same_doc_keys: "same_tables s s' \<Longrightarrow> doc_keys s' = doc_keys s"
  by (simp add: same_tables_def doc_keys_def)

text \<open>Work on the objects between the allocation of an identity and the row that takes it.\<close>

lemma frame_after:
  assumes "identity_ok idn u (doc_keys s)" and "act_rel same_tables m"
    and "\<And>a s. identity_ok idn u (doc_keys s) \<Longrightarrow> frame s (snd (f a s))"
  shows "frame s (snd (bindA m f s))"
  using assms(1)
proof (rule fr.bind_from[where P = "\<lambda>s. identity_ok idn u (doc_keys s)" and Q = "\<lambda>_ s. identity_ok idn u (doc_keys s)"])
  show "frame s (snd (m s))" for s using fr_same[OF assms(2)] by (rule act_rel_snd)
  show "identity_ok idn u (doc_keys t)" if "identity_ok idn u (doc_keys s)" "m s = (Inr a, t)" for s a t
    using that same_doc_keys[OF act_relD[OF assms(2) that(2)]] by simp
qed (rule assms(3))

lemma frame_identity:
  assumes "\<And>idn info' s. identity_ok idn u (doc_keys s) \<Longrightarrow> frame s (snd (f (idn, info') s))"
  shows "frame s (snd (bindA (\<lambda>s. (identity_for_upload u info s, s)) f s))"
proof (rule fr.bind_from[where P = "\<lambda>_. True" and Q = "\<lambda>p s. identity_ok (fst p) u (doc_keys s)"])
  show "identity_ok (fst p) u (doc_keys t)" if "(identity_for_upload u info s, s) = (Inr p, t)" for s p t
    using that identity_continues by (cases p) auto
  show "frame t (snd (f p t))" if "identity_ok (fst p) u (doc_keys t)" for p t
    using that assms[of "fst p" t "snd p"] by simp
qed (simp_all add: fr.refl)

lemma seqA_bind: "snd (seqA m f s) = snd (bindA m (\<lambda>_. f) s)"
  by (simp add: seqA_def)

lemma fr_create_file [fr_ops]: "act_rel frame (create_file cf u info content mb)"
proof -
  have "act_rel frame (bindA (\<lambda>s. (identity_for_upload u info s, s)) (\<lambda>(idn, info).
         bindA (on_error raise_storage_as_file
                  (bindA (storage_exists key) (\<lambda>there.
                   if there then retA False
                   else seqA (storage_save limit key content) (retA True)))) (\<lambda>saved.
         seqA (save_preview cf h preview_pdf)
        (register_row cf u info idn h n (g saved) tx))))" for key limit h preview_pdf n g tx
  proof (rule act_relI, rule frame_identity, unfold prod.case, erule frame_after)
    show "act_rel same_tables (on_error raise_storage_as_file
                  (bindA (storage_exists key) (\<lambda>there.
                   if there then retA False
                   else seqA (storage_save limit key content) (retA True))))"
      by (intro act_rel_on_error st.rules st_ops)
  qed (unfold seqA_bind, erule frame_after, rule st_compound, rule frame_register)
  note core = this
  show ?thesis
    unfolding create_file_def Let_def
    by (rule fr.seq, rule fr.read, rule fr.bind, rule fr.read, rule fr.pair, rule core)
qed

lemma fr_register_from_upload [fr_ops]: "act_rel frame (register_from_upload cf meta u)"
proof -
  have last: "frame s (snd (bindA (register_row cf u info idn h n path tx) (\<lambda>i. seqA (safe_delete key) (retA i)) s))"
    if "identity_ok idn u (doc_keys s)" for info idn h n path tx key s
    using that
    by (rule fr.bind_from[where Q = "\<lambda>_ _. True", OF _ frame_register])
      (use act_rel_snd[OF fr.seq[OF fr_same[OF st_compound(3)] fr.read(1)]] in auto)
  have "act_rel frame (bindA (\<lambda>s. (identity_for_upload u info s, s)) (\<lambda>(idn, info).
            bindA (storage_exists hash_key) (\<lambda>stored.
            seqA (if stored then retA () else storage_copy key hash_key)
           (seqA (save_preview cf content_hash preview_pdf)
           (bindA (register_row cf u info idn content_hash n path tx) (\<lambda>i.
            seqA (safe_delete key) (retA i)))))))" for info hash_key key content_hash preview_pdf n path tx
  proof (rule act_relI, rule frame_identity, unfold prod.case, erule frame_after, rule st_storage,
      unfold seqA_bind, erule frame_after)
    show "act_rel same_tables (if stored then retA () else storage_copy key hash_key)" for stored
      by (intro st.rules st_ops)
  qed (unfold seqA_bind, erule frame_after, rule st_compound, rule last)
  note core = this
  show ?thesis
    unfolding register_from_upload_def Let_def
    by (rule fr.bind, rule fr_ops, rule fr.seq, rule fr.read, rule fr.bind, rule fr_ops, rule fr.bind, rule fr_ops,
        rule fr.bind, rule fr.read, rule fr.pair, rule core)
qed

lemma frame_sessions:
  assumes "library_files s' = library_files s" and "us_upload_id ` set (upload_sessions s') \<subseteq> us_upload_id ` set (upload_sessions s)"
    and "hexes s' = hexes s" and "hex_ix s \<le> hex_ix s'"
  shows "frame s s'"
  using assms by (auto simp: frame_def doc_keys_def decided_def get_file_row_def upload_gone_def intro: less_le_trans)

lemma fr_upload_init [fr_ops]: "act_rel frame (upload_init cf info u)"
proof (rule act_relI)
  fix s :: "'a file_db_scheme"
  have "hexes s n \<noteq> hexes s (hex_ix s)" if "inj (hexes s)" "n < hex_ix s" for n
    using that injD[OF that(1), of n "hex_ix s"] by auto
  then show "frame s (snd (upload_init cf info u s))"
    by (auto simp: upload_init_def Let_def fresh_hex_def frame_def doc_keys_def decided_def get_file_row_def upload_gone_def
        less_Suc_eq)
qed

lemma fr_claim [fr_ops]: "act_rel frame (claim u w)"
  by (rule act_relI, rule frame_sessions) (auto simp: claim_def Let_def)

lemma fr_confirm [fr_ops]: "act_rel frame (confirm_upload cf i u)" "act_rel frame (notify_upload cf i)"
  unfolding confirm_upload_def notify_upload_def by (intro fr.rules fr_ops)+

lemma doc_key_updates [simp]:
  "doc_key_of (f\<lparr>lf_status := a\<rparr>) = doc_key_of f" "doc_key_of (f\<lparr>lf_review_comment := b\<rparr>) = doc_key_of f"
  "doc_key_of (f\<lparr>lf_backed_up_at := c\<rparr>) = doc_key_of f" "doc_key_of (f\<lparr>lf_archive_state := d\<rparr>) = doc_key_of f"
  "doc_key_of (f\<lparr>lf_view_count := e\<rparr>) = doc_key_of f" "doc_key_of (f\<lparr>lf_download_count := e\<rparr>) = doc_key_of f"
  by (simp_all add: doc_key_of_def)

lemma fr_drop_content [fr_ops]: "act_rel frame (drop_content cf f)"
  unfolding drop_content_def by (intro fr.rules fr_ops frame_sync)

lemma fr_approve_effects [fr_ops]: "act_rel frame (approve_effects cf f)"
proof -
  have b: "frame s (if b then update_file i (\<lambda>g. g\<lparr>lf_backed_up_at := Some (now s)\<rparr>) s else s)"
    for b i and s :: "'a file_db_scheme"
    by (auto intro: frame_update fr.refl)
  show ?thesis unfolding approve_effects_def by (intro fr.rules fr_ops b)
qed

lemma fr_review [fr_ops]: "act_rel frame (review_file cf audit i target c adm)"
proof -
  have "frame s (update_file i (set_reviewed target c) s)" if "target \<in> {Approved, Rejected}" for s :: "'a file_db_scheme"
    using that by (intro frame_update) (auto simp: set_reviewed_def)
  then have "act_rel frame (seqA (guardA (target \<in> {Approved, Rejected}) e) (bindA m (\<lambda>f. seqA (guardA (g f) e')
      (seqA (modA (update_file i (set_reviewed target c))) (k f)))))"
    if "act_rel frame m" "\<And>f. act_rel frame (k f)" for e e' g k and m :: "('a file_db_scheme, library_file) act"
  proof (cases "target \<in> {Approved, Rejected}")
    case True
    with that \<open>target \<in> _ \<Longrightarrow> frame _ _\<close> show ?thesis by (intro fr.seq fr.bind fr.read fr.mod) auto
  next
    case False
    then show ?thesis by (intro act_relI) (simp add: fr.refl)
  qed
  note core = this
  show ?thesis
    unfolding review_file_def
    by (rule fr.seq, rule fr.read, rule core, rule fr_get_or_raise, intro fr.rules fr_ops)
qed

lemma fr_delete_file [fr_ops]: "act_rel frame (delete_file cf i u adm)"
  unfolding delete_file_def by (intro fr.rules fr_ops frame_update) simp_all

lemma fr_reading [fr_ops]:
  "act_rel frame (increment_view i)" "act_rel frame (increment_download i)" "act_rel frame (require_visible v f)"
  "act_rel frame (require_approved f)"
  unfolding increment_view_def increment_download_def require_visible_def require_approved_def
  by (intro fr.rules fr_ops frame_update act_relI; simp add: fr.refl)+

lemma fr_serving [fr_ops]:
  "act_rel frame (get_file i b v e)" "act_rel frame (download_url cf i cur)" "act_rel frame (serve_content cf i d v)"
proof -
  show "act_rel frame (get_file i b v e)" unfolding get_file_def by (intro fr.rules fr_ops)
  show "act_rel frame (download_url cf i cur)" unfolding download_url_def by (intro fr.rules fr_ops)
  show "act_rel frame (serve_content cf i d v)" unfolding serve_content_def Let_def
    by (intro fr.rules fr_ops act_rel_on_error)
qed

lemma frame_undo: "frame s s' \<Longrightarrow> frame s (undo s s')"
  by (rule frame_tables) (auto simp: undo_def frame_def)

lemma frame_session: "act_rel frame m \<Longrightarrow> frame s (snd (file_session reg m s))"
proof -
  assume "act_rel frame m"
  then have "frame s (snd (m s))" by (rule act_rel_snd)
  then show ?thesis using frame_undo by (cases "m s"; cases "fst (m s)") (auto simp: file_session_def)
qed

lemma frame_cleanup: "frame s (cleanup_expired_uploads s)"
proof -
  have "frame s (cleanup_each xs s)" for xs and s :: "'a file_db_scheme"
  proof (induction xs arbitrary: s)
    case (Cons x xs)
    have d: "frame s (snd (storage_delete (us_storage_key x) s))" by (rule act_rel_snd) (rule fr_ops)
    have "frame t (t\<lparr>upload_sessions := filter P (upload_sessions t)\<rparr>)" for t :: "'a file_db_scheme" and P
      by (rule frame_sessions) auto
    note c = fr.trans[OF d Cons.IH] and r = fr.trans[OF d fr.trans[OF this Cons.IH]]
    show ?case
      using c r
      by (cases "storage_delete (us_storage_key x) s"; cases "fst (storage_delete (us_storage_key x) s)") auto
  qed (simp add: fr.refl)
  then show ?thesis by (simp add: cleanup_expired_uploads_def)
qed

lemma fr_archive_one [fr_ops]: "act_rel frame (archive_one cf t h)"
  unfolding archive_one_def by (intro fr.rules fr_ops frame_rows) auto

lemma frame_archive: "frame s (archive_cold_files cf s)"
proof -
  have "frame s (archive_each cf t hs s)" for t hs and s :: "'a file_db_scheme"
  proof (induction hs arbitrary: s)
    case (Cons h hs)
    have "frame s (snd (archive_one cf t h s))" by (rule act_rel_snd) (rule fr_ops)
    with Cons.IH show ?case
      by (cases "archive_one cf t h s"; cases "fst (archive_one cf t h s)") (auto intro: fr.trans frame_undo)
  qed (simp add: fr.refl)
  then show ?thesis by (simp add: archive_cold_files_def Let_def fr.refl)
qed

lemma frame_backup: "frame s (backup_approved_files cf s)"
proof -
  have "act_rel (frame :: 'a file_db_scheme \<Rightarrow> _) (backup_each cf hs)" for hs
  proof (induction hs)
    case (Cons h hs)
    have "act_rel frame (\<lambda>s :: 'a file_db_scheme. case backup_file cf (bucket_key h) h s of
                (Inl _, s) \<Rightarrow> backup_each cf hs s
              | (Inr _, s) \<Rightarrow>
                  backup_each cf hs (s\<lparr>library_files :=
                    map (\<lambda>f. if lf_sha3_hash f = Some h \<and> lf_status f = Approved then f\<lparr>lf_backed_up_at := Some (now s)\<rparr> else f)
                      (library_files s)\<rparr>))"
    proof (rule act_relI)
      fix s :: "'a file_db_scheme"
      have b: "frame s (snd (backup_file cf (bucket_key h) h s))" by (rule act_rel_snd) (rule fr_ops)
      have r: "frame t (t\<lparr>library_files := map (\<lambda>f. if lf_sha3_hash f = Some h \<and> lf_status f = Approved
          then f\<lparr>lf_backed_up_at := Some (now t)\<rparr> else f) (library_files t)\<rparr>)" for t :: "'a file_db_scheme"
        by (rule frame_rows) auto
      have n: "frame t (snd (backup_each cf hs t))" for t :: "'a file_db_scheme" by (rule act_rel_snd[OF Cons.IH])
      show "frame s (snd (case backup_file cf (bucket_key h) h s of
                (Inl _, s) \<Rightarrow> backup_each cf hs s
              | (Inr _, s) \<Rightarrow>
                  backup_each cf hs (s\<lparr>library_files :=
                    map (\<lambda>f. if lf_sha3_hash f = Some h \<and> lf_status f = Approved then f\<lparr>lf_backed_up_at := Some (now s)\<rparr> else f)
                      (library_files s)\<rparr>)))"
      proof (cases "backup_file cf (bucket_key h) h s")
        case (Pair x t)
        with b have "frame s t" by simp
        note skip = fr.trans[OF this n] and mark = fr.trans[OF this fr.trans[OF r n]]
        show ?thesis using Pair skip mark by (cases x) simp_all
      qed
    qed
    then show ?case unfolding backup_each.simps by (intro fr.rules fr_ops Cons.IH)
  qed (simp only: backup_each.simps fr.read)
  then show ?thesis by (simp add: backup_approved_files_def fr.refl act_rel_snd)
qed

section \<open>Requests over time\<close>

text \<open>
  What may happen to the library: requests, the store's notices, what clients put into the store under the
  keys they were given, the jobs, changes of projects, and the passing of time.
\<close>

datatype file_request =
    Upload uuid file_create string "nat option"
  | Upload_init file_create uuid
  | Put_object string string
  | Confirm string uuid
  | Notify string
  | Review "exc + unit" uuid file_status "string option" bool
  | Delete uuid uuid bool
  | View uuid "current_user option"
  | Serve uuid disposition "current_user option"
  | Download uuid current_user
  | Cleanup
  | Archive_cold
  | Backup
  | Projects "project list" "project_member list"
  | Tick int

fun handle :: "(string \<times> errcode) list \<Rightarrow> files_config \<Rightarrow> file_request \<Rightarrow> 's file_db_scheme \<Rightarrow> 's file_db_scheme" where
  "handle reg cf (Upload u info content mb) s = snd (file_session reg (create_file cf u info content mb) s)"
| "handle reg cf (Upload_init info u) s = snd (file_session reg (upload_init cf info u) s)"
| "handle reg cf (Put_object uid content) s = s\<lparr>objects := (objects s)(''up/'' @ uid \<mapsto> content)\<rparr>"
| "handle reg cf (Confirm i u) s = snd (file_session reg (confirm_upload cf i u) s)"
| "handle reg cf (Notify i) s = snd (file_session reg (notify_upload cf i) s)"
| "handle reg cf (Review audit i target c adm) s = snd (file_session reg (review_file cf audit i target c adm) s)"
| "handle reg cf (Delete i u adm) s = snd (file_session reg (delete_file cf i u adm) s)"
| "handle reg cf (View i v) s = snd (file_session reg (get_file i True v True) s)"
| "handle reg cf (Serve i d v) s = snd (file_session reg (serve_content cf i d v) s)"
| "handle reg cf (Download i cur) s = snd (file_session reg (download_url cf i cur) s)"
| "handle reg cf Cleanup s = cleanup_expired_uploads s"
| "handle reg cf Archive_cold s = archive_cold_files cf s"
| "handle reg cf Backup s = backup_approved_files cf s"
| "handle reg cf (Projects ps ms) s = s\<lparr>projects := ps, project_members := ms\<rparr>"
| "handle reg cf (Tick dt) s = s\<lparr>now := now s + dt\<rparr>"

fun run :: "(string \<times> errcode) list \<Rightarrow> files_config \<Rightarrow> file_request list \<Rightarrow> 's file_db_scheme \<Rightarrow> 's file_db_scheme" where
  "run reg cf [] s = s"
| "run reg cf (r # rs) s = run reg cf rs (handle reg cf r s)"

lemma frame_handle: "frame s (handle reg cf r s)"
  by (cases r) (auto intro!: frame_session fr_ops frame_cleanup frame_archive frame_backup frame_tables)

lemma frame_run: "frame s (run reg cf rs s)"
  by (induction rs arbitrary: s) (auto intro: fr.refl fr.trans frame_handle)

text \<open>The batch is the reviews one after the other.\<close>

lemma batch_is_run:
  "snd (review_each reg cf audit target c is s) = run reg cf (map (\<lambda>i. Review (audit i) i target c True) is) s"
  by (induction "is" arbitrary: s) (simp_all add: Let_def case_prod_unfold)

section \<open>Properties of documents and uploads\<close>

text \<open>C22: Documents keep their identity.  Starting with well-formed documents, such as none, whatever requests, notices
  and jobs follow, failing or not: the versions of each code are 1, 2, 3 and so on without a gap or a
  repetition, and all rows of a code have the owner, the classification, the project and the root of its
  first version.\<close>

theorem documents_keep_identity:
  assumes "documents_ok (doc_keys s)"
  shows "\<forall>code. let rs = filter (\<lambda>f. lf_document_code f = Some code) (library_files (run reg cf requests s))
    in map lf_version rs = [1..int (length rs)]
       \<and> (\<forall>f \<in> set rs. lf_root_file_id f = Some (lf_id (hd rs)) \<and> lf_uploader_id f = lf_uploader_id (hd rs)
            \<and> lf_classification f = lf_classification (hd rs) \<and> lf_project_id f = lf_project_id (hd rs))"
proof
  fix code
  let ?rs = "filter (\<lambda>f. lf_document_code f = Some code) (library_files (run reg cf requests s))"
  have "documents_ok (doc_keys (run reg cf requests s))" using frame_run assms unfolding frame_def by blast
  then have "document_ok (map doc_key_of ?rs)" by (simp add: documents_ok_def document_rows_keys)
  then show "let rs = ?rs in map lf_version rs = [1..int (length rs)]
       \<and> (\<forall>f \<in> set rs. lf_root_file_id f = Some (lf_id (hd rs)) \<and> lf_uploader_id f = lf_uploader_id (hd rs)
            \<and> lf_classification f = lf_classification (hd rs) \<and> lf_project_id f = lf_project_id (hd rs))"
    by (cases ?rs) (auto simp: document_ok_def comp_def Let_def)
qed

lemma file_session_Inr: "file_session reg m s = (Inr a, s') \<longleftrightarrow> m s = (Inr a, s')"
  by (auto simp: file_session_def split: prod.splits sum.splits)

text \<open>A file is reviewed once.  After a review that succeeded, whatever follows, no further review of the file by
  anyone and with any decision succeeds, and the attempt leaves the files as they are.\<close>

theorem reviewed_once:
  assumes "file_session reg (review_file cf audit i target c adm) s = (Inr (), s1)"
  shows "\<exists>e s3. file_session reg (review_file cf audit' i target' c' adm') (run reg cf requests s1) = (Inl e, s3)
    \<and> library_files s3 = library_files (run reg cf requests s1)"
proof -
  from assms have r: "review_file cf audit i target c adm s = (Inr (), s1)" by (simp add: file_session_Inr)
  then obtain f where f: "get_file_row i s = Some f" and t: "target \<in> {Approved, Rejected}"
    by (auto simp: review_file_def get_or_raise_def optR_def bindA_def split: if_splits option.splits prod.splits sum.splits)
  let ?s = "update_file i (set_reviewed target c) s"
  have "get_file_row i ?s = Some (set_reviewed target c f)"
  proof -
    have "update_file i (set_reviewed target c) s = s\<lparr>library_files := map (\<lambda>g. if lf_id g = i then set_reviewed target c g else g) (library_files s)\<rparr>"
      by (simp add: update_file_def)
    moreover have "lf_id f = i" using f by (auto simp: get_file_row_def find_Some_iff)
    moreover have "find (\<lambda>f. lf_id f = i) (map (\<lambda>g. if lf_id g = i then set_reviewed target c g else g) fs) =
        map_option (\<lambda>g. if lf_id g = i then set_reviewed target c g else g) (find (\<lambda>f. lf_id f = i) fs)" for fs
      by (rule find_file_map) (simp add: set_reviewed_def)
    ultimately show ?thesis using f by (simp add: get_file_row_def)
  qed
  then have "decided i ?s" using t by (auto simp: decided_def set_reviewed_def)
  moreover have "frame ?s s1"
  proof -
    have "act_rel frame (seqA (if target = Rejected then drop_content cf f else approve_effects cf f) (liftA audit))"
      by (intro fr.rules fr_ops)
    moreover have "seqA (if target = Rejected then drop_content cf f else approve_effects cf f) (liftA audit) ?s = (Inr (), s1)"
      using r f by (auto simp: review_file_def get_or_raise_def optR_def split: if_splits)
    ultimately show ?thesis by (rule act_relD)
  qed
  ultimately have "decided i s1" by (simp add: frame_def)
  moreover have "frame s1 (run reg cf requests s1)" by (rule frame_run)
  ultimately have "decided i (run reg cf requests s1)" by (simp add: frame_def)
  then obtain g where "get_file_row i (run reg cf requests s1) = Some g" "lf_status g \<noteq> Pending" by (auto simp: decided_def)
  then have "\<exists>e. review_file cf audit' i target' c' adm' (run reg cf requests s1) = (Inl e, run reg cf requests s1)"
    by (auto simp: review_file_def get_or_raise_def optR_def bindA_def)
  then show ?thesis by (auto simp: file_session_def undo_def)
qed

text \<open>An upload is registered once.  Upload identifiers are never given out twice; once an upload session has been
  confirmed, whatever follows, confirming it again is refused as expired for every user, and a notice of the
  store about it is ignored; the files stay as they are.\<close>

theorem upload_registered_once:
  assumes "inj (hexes s)" and "\<exists>n < hex_ix s. hexes s n = u" and "distinct (map us_upload_id (upload_sessions s))"
    and "file_session reg (confirm_upload cf u who) s = (Inr i, s1)"
  shows "(\<exists>s3. file_session reg (confirm_upload cf u who') (run reg cf requests s1)
        = (Inl (session_exc reg (BizError (FileErr UPLOAD_EXPIRED))), s3)
      \<and> library_files s3 = library_files (run reg cf requests s1))
    \<and> (\<exists>s3. file_session reg (notify_upload cf u) (run reg cf requests s1) = (Inr None, s3)
      \<and> library_files s3 = library_files (run reg cf requests s1))"
proof -
  let ?t = "run reg cf requests s1"
  from assms(4) have c: "confirm_upload cf u who s = (Inr i, s1)" by (simp add: file_session_Inr)
  let ?P = "\<lambda>x. us_upload_id x = u \<and> us_uploader_id x = who"
  let ?s = "s\<lparr>upload_sessions := filter (\<lambda>x. \<not> ?P x) (upload_sessions s)\<rparr>"
  from c obtain x meta where x: "find ?P (upload_sessions s) = Some x"
    and r: "register_from_upload cf meta (us_uploader_id x) ?s = (Inr i, s1)"
    by (auto simp: confirm_upload_def claim_def bindA_def Let_def split: option.splits)
  have "upload_gone u ?s"
    using assms(1-3) x by (force simp: upload_gone_def find_Some_iff in_set_conv_nth distinct_conv_nth)
  moreover have "frame ?s s1" by (rule act_relD[OF fr_register_from_upload r])
  moreover have "frame s1 ?t" by (rule frame_run)
  ultimately have g: "upload_gone u ?t" by (simp add: frame_def)
  have "find (\<lambda>x. us_upload_id x = u \<and> P x) (upload_sessions ?t) = None" for P
    using g by (force simp: upload_gone_def find_None_iff)
  from this[of "\<lambda>x. us_uploader_id x = who'"] this[of "\<lambda>_. True"] show ?thesis
    by (simp add: file_session_def confirm_upload_def notify_upload_def claim_def bindA_def Let_def undo_def)
qed

section \<open>What is listed\<close>

definition superseded :: "'s file_db_scheme \<Rightarrow> library_file \<Rightarrow> bool" where
  "superseded s f \<longleftrightarrow> lf_status f = Approved
     \<and> (\<exists>newer \<in> set (library_files s). lf_document_code newer \<noteq> None \<and> lf_document_code newer = lf_document_code f
          \<and> lf_version f < lf_version newer \<and> lf_status newer = Approved)"

lemma page_conditions_visible:
  "page_conditions s None None viewer True f \<longleftrightarrow> visible s viewer f \<and> \<not> superseded s f"
  by (cases "lf_classification f"; cases viewer; cases "lf_project_id f")
    (auto simp: page_conditions_def visible_def superseded_def list_ex_iff)

lemma take_pages: "concat (map (\<lambda>p. take n (drop ((p - 1) * n) xs)) [1..<Suc k]) = take (k * n) xs"
proof (induction k)
  case (Suc k)
  have "take (k * n + n) xs = take (k * n) xs @ take n (drop (k * n) xs)" by (rule take_add)
  with Suc show ?case by (simp add: add.commute)
qed simp

lemma mset_page_sorted: "mset (page_sorted b rows) = mset rows"
  by (simp add: page_sorted_def Let_def)

text \<open>The list shows what may be read, each file once.  The pages of the list, of any size and in either order, taken
  together are exactly the files the viewer may read that no newer approved version of the same document
  supersedes, none lost or repeated between the pages; the condition the database evaluates is the one that is
  checked when a single file is read, and the total is their number.\<close>

theorem pages_list_what_is_visible:
  assumes "n \<le> k * limit" and "snd (list_files 1 limit None None by_downloads viewer True s) = n"
  shows "mset (concat (map (\<lambda>p. fst (list_files p limit None None by_downloads viewer True s)) [1..<Suc k]))
      = filter_mset (\<lambda>f. visible s viewer f \<and> \<not> superseded s f) (mset (library_files s))
    \<and> n = size (filter_mset (\<lambda>f. visible s viewer f \<and> \<not> superseded s f) (mset (library_files s)))"
proof -
  let ?rows = "filter (\<lambda>f. visible s viewer f \<and> \<not> superseded s f) (library_files s)"
  have pages: "concat (map (\<lambda>p. fst (list_files p limit None None by_downloads viewer True s)) [1..<Suc k])
      = take (k * limit) (page_sorted by_downloads ?rows)"
    unfolding take_pages[symmetric] by (simp add: list_files_def Let_def page_conditions_visible[abs_def] del: upt_Suc)
  moreover have n: "n = length ?rows" using assms(2) by (simp add: list_files_def Let_def page_conditions_visible[abs_def])
  moreover have "length (page_sorted by_downloads ?rows) = length ?rows"
    using mset_page_sorted by (metis size_mset)
  ultimately have "concat (map (\<lambda>p. fst (list_files p limit None None by_downloads viewer True s)) [1..<Suc k])
      = page_sorted by_downloads ?rows" using assms(1) by simp
  moreover have "n = size (filter_mset (\<lambda>f. visible s viewer f \<and> \<not> superseded s f) (mset (library_files s)))"
    using n by (metis mset_filter size_mset)
  ultimately show ?thesis by (simp add: mset_page_sorted del: upt_Suc size_mset)
qed

section \<open>The properties at concrete inputs\<close>

definition files_cf :: files_config where
  "files_cf = \<lparr>storage_s3 = True, s3_prefix = [], files_store_dir = ''data'', max_upload_bytes = 100, files_preview_max_bytes = 100,
     files_backup_on = False, files_archive_on = False, files_archive_after_days = 30, search_sync_enabled = False,
     files_sensitive_terms = [], sha3_256 = (\<lambda>c. replicate 64 (if c = ''one'' then CHR ''a'' else CHR ''b'')), clamav = None,
     utf8_replace = id, casefold = id, pdf_text = id, libreoffice = None\<rparr>"

definition file_info :: file_create where
  "file_info = \<lparr>fc_original_name = ''one'', fc_mime_type = ''text/plain'', fc_category_id = ''report'', fc_description = [],
     fc_tags = [], fc_classification = Public, fc_project_id = None, fc_version_of = None\<rparr>"

definition file0 :: library_file where
  "file0 = \<lparr>lf_id = 1, lf_uploader_id = 7, lf_original_name = ''one'', lf_stored_name = ''n'',
     lf_sha3_hash = Some (sha3_256 files_cf ''one''), lf_ref_count = 1, lf_storage_path = None, lf_mime_type = ''text/plain'',
     lf_size = 3, lf_category_id = ''report'', lf_document_code = Some ''WL'', lf_classification = Public, lf_project_id = None,
     lf_version = 1, lf_root_file_id = Some 1, lf_extracted_text = [], lf_archive_state = ''active'', lf_backed_up_at = None,
     lf_description = [], lf_tags = [], lf_status = Pending, lf_review_comment = None, lf_download_count = 0,
     lf_view_count = 0, lf_created_at = 0\<rparr>"

definition files0 :: file_db where
  "files0 = \<lparr>now = 0, message_bus_enabled = False, pks = of_nat, pk_ix = 2, hexes = (\<lambda>n. replicate n (CHR ''a'')), hex_ix = 2,
     event_keys = {}, outbox_events = [], outbox_archive = [], event_failures = [], dlq_messages = [], cache_fx = [],
     library_files = [file0], upload_sessions = [], projects = [], project_members = [],
     objects = [bucket_key (sha3_256 files_cf ''one'') \<mapsto> ''one''], archive = Map.empty, backups = Map.empty,
     faults = (\<lambda>_. None), fault_ix = 0\<rparr>"

definition files1 :: file_db where
  "files1 = files0\<lparr>library_files := [], objects := [''up/a'' \<mapsto> ''one''],
     upload_sessions := [\<lparr>us_upload_id = ''a'', us_uploader_id = 7, us_storage_key = ''up/a'',
        us_meta = Some \<lparr>um_key = ''up/a'', um_info = file_info\<rparr>, us_created_at = 0\<rparr>]\<rparr>"

lemma files_cf_simps [simp]:
  "storage_s3 files_cf" "max_upload_bytes files_cf = 100" "files_preview_max_bytes files_cf = 100" "\<not> files_backup_on files_cf"
  "\<not> files_archive_on files_cf" "\<not> search_sync_enabled files_cf" "files_sensitive_terms files_cf = []" "clamav files_cf = None"
  "length (sha3_256 files_cf c) = 64"
  by (simp_all add: files_cf_def)

lemma file0_simps [simp]:
  "lf_id file0 = 1" "lf_status file0 = Pending" "lf_document_code file0 = Some ''WL''" "lf_uploader_id file0 = 7"
  "lf_sha3_hash file0 = Some (sha3_256 files_cf ''one'')" "lf_version file0 = 1" "lf_root_file_id file0 = Some 1"
  by (simp_all add: file0_def)

lemma documents_keep_identity_witness:
  "documents_ok (doc_keys files0)
   \<and> (\<forall>code. let rs = filter (\<lambda>f. lf_document_code f = Some code)
          (library_files (run [] files_cf [Upload 7 (file_info\<lparr>fc_version_of := Some 1\<rparr>) ''two'' None, Tick 5, Cleanup] files0))
        in map lf_version rs = [1..int (length rs)])"
proof -
  have ok: "documents_ok (doc_keys files0)"
    by (auto simp: documents_ok_def document_ok_def document_rows_def doc_keys_def files0_def)
  from documents_keep_identity[OF ok, of "[]" files_cf "[Upload 7 (file_info\<lparr>fc_version_of := Some 1\<rparr>) ''two'' None, Tick 5, Cleanup]"] ok
  show ?thesis unfolding Let_def by blast
qed

lemma reviewed_once_witness:
  "\<exists>s1. file_session [] (review_file files_cf (Inr ()) 1 Rejected None True) files0 = (Inr (), s1)
    \<and> (\<exists>e s3. file_session [] (review_file files_cf (Inr ()) 1 Approved None True) (run [] files_cf [Tick 5, Cleanup] s1) = (Inl e, s3))"
proof -
  have "content_of file0 = Some (sha3_256 files_cf ''one'')" by (simp add: content_of_def files_cf_def)
  then have "\<exists>s1. file_session [] (review_file files_cf (Inr ()) 1 Rejected None True) files0 = (Inr (), s1)"
    by (simp add: file_session_def review_file_def get_or_raise_def get_file_row_def optR_def bindA_def drop_content_def
        delete_content_variants_def delete_variant_def storage_delete_def storage_io_def delete_archive_def files0_def update_file_def
        sync_ref_count_def Let_def)
  then obtain s1 where s1: "file_session [] (review_file files_cf (Inr ()) 1 Rejected None True) files0 = (Inr (), s1)" by blast
  from s1 reviewed_once[OF s1, where audit' = "Inr ()" and target' = Approved and c' = None and adm' = True and requests = "[Tick 5, Cleanup]"] show ?thesis by blast
qed

lemma upload_registered_once_witness:
  "\<exists>i s1. file_session [] (confirm_upload files_cf ''a'' 7) files1 = (Inr i, s1)
    \<and> (\<exists>s3. file_session [] (notify_upload files_cf ''a'') (run [] files_cf [Tick 5, Cleanup] s1) = (Inr None, s3))"
proof -
  have hex: "inj (hexes files1)" by (auto simp: files1_def files0_def inj_def)
  have issued: "\<exists>n < hex_ix files1. hexes files1 n = ''a''" by (rule exI[of _ 1]) (simp add: files1_def files0_def)
  have ids: "distinct (map us_upload_id (upload_sessions files1))" by (simp add: files1_def)
  have up: "process_upload files_cf ''one'' [] ''one'' = Inr ([], None)"
    by (simp add: process_upload_def scan_clamav_def sensitive_def py_strip_def py_rstrip_def extract_content_def path_suffix_def path_name_def
        lower_def TEXT_SUFFIXES_def OFFICE_SUFFIXES_def files_cf_def Let_def)
  have key: "bucket_key (sha3_256 files_cf ''one'') \<noteq> ''up/a''" by (simp add: bucket_key_def files_cf_def eval_nat_numeral)
  have sync: "faults (sync_ref_count h s) = faults s" "fault_ix (sync_ref_count h s) = fault_ix s" for h and s :: file_db
    by (simp_all add: sync_ref_count_def Let_def)
  have "\<exists>i s1. file_session [] (confirm_upload files_cf ''a'' 7) files1 = (Inr i, s1)"
    by (simp add: up key sync file_session_def confirm_upload_def claim_def register_from_upload_def storage_exists_def storage_read_def
        storage_copy_def storage_io_def hash_from_storage_def optR_def bindA_def identity_for_upload_def next_document_code_def save_preview_def register_row_def insert_file_def safe_delete_def
        best_effort_def storage_delete_def fresh_hex_def fresh_pk_def files1_def files0_def file_info_def Let_def)
  then obtain i s1 where c: "file_session [] (confirm_upload files_cf ''a'' 7) files1 = (Inr i, s1)" by blast
  from c upload_registered_once[OF hex issued ids c, where who' = 7 and requests = "[Tick 5, Cleanup]"] show ?thesis by blast
qed

lemma pages_list_what_is_visible_witness:
  "mset (concat (map (\<lambda>p. fst (list_files p 1 None None False (Some \<lparr>cu_id = 7, cu_account_level = ''normal'', cu_role = ''member'',
        cu_active_roles = None, cu_email = None, cu_phone = None\<rparr>) True files0)) [1..<Suc 2]))
   = {#file0#}"
proof -
  let ?v = "Some \<lparr>cu_id = 7, cu_account_level = ''normal'', cu_role = ''member'', cu_active_roles = None, cu_email = None, cu_phone = None\<rparr>"
  have n: "snd (list_files 1 1 None None False ?v True files0) = 1"
    by (simp add: list_files_def page_conditions_def files0_def Let_def)
  from pages_list_what_is_visible[OF _ n, of 2]
  show ?thesis by (simp add: visible_def superseded_def files0_def del: upt_Suc)
qed

end
