(* ===== verification/File_Contents.thy ===== *)
theory File_Contents
  imports File_Safety
begin

text \<open>
  The contents of the file library: what is stored under the name of a hash has that hash, and nothing a pending or
  approved file refers to is ever removed, by any sequence of requests and jobs, except where removing a content is
  interrupted.
\<close>

section \<open>What the store holds\<close>

text \<open>What the library relies on of SHA-3: 64 hexadecimal digits.\<close>

definition sha3_ok :: "files_config \<Rightarrow> bool" where
  "sha3_ok cf \<longleftrightarrow> (\<forall>c. length (sha3_256 cf c) = 64 \<and> set (sha3_256 cf c) \<subseteq> set ''0123456789abcdef'')"

definition digest :: "files_config \<Rightarrow> string \<Rightarrow> bool" where
  "digest cf h \<longleftrightarrow> (\<exists>c. sha3_256 cf c = h)"

lemma digest_sha3 [simp, intro]: "digest cf (sha3_256 cf c)"
  by (auto simp: digest_def)

lemma digestE: "digest cf h \<Longrightarrow> (\<And>c. h = sha3_256 cf c \<Longrightarrow> P) \<Longrightarrow> P"
  by (auto simp: digest_def)

definition stored :: "files_config \<Rightarrow> 's file_db_scheme \<Rightarrow> string \<Rightarrow> bool" where
  "stored cf s h \<longleftrightarrow> objects s (bucket_key h) \<noteq> None \<or> archive_exists cf h s"

text \<open>What is under the name of a hash has that hash.\<close>

definition genuine :: "files_config \<Rightarrow> 's file_db_scheme \<Rightarrow> bool" where
  "genuine cf s \<longleftrightarrow> (\<forall>h c. digest cf h \<and> (objects s (bucket_key h) = Some c \<or> archive s h = Some c) \<longrightarrow> sha3_256 cf c = h)"

text \<open>The contents are kept: every live row has the hash of a content that is stored.\<close>

definition session_ok :: "upload_session \<Rightarrow> bool" where
  "session_ok x \<longleftrightarrow> us_storage_key x = ''up/'' @ us_upload_id x
     \<and> (case us_meta x of None \<Rightarrow> True | Some m \<Rightarrow> um_key m = us_storage_key x)"

definition content_row_ok :: "files_config \<Rightarrow> 's file_db_scheme \<Rightarrow> library_file \<Rightarrow> bool" where
  "content_row_ok cf s f \<longleftrightarrow> (\<exists>h. digest cf h \<and> lf_sha3_hash f = Some h \<and> (live f \<longrightarrow> stored cf s h))"

definition kept :: "files_config \<Rightarrow> 's file_db_scheme \<Rightarrow> bool" where
  "kept cf s \<longleftrightarrow> genuine cf s \<and> (\<forall>x \<in> set (upload_sessions s). session_ok x)
     \<and> distinct (map lf_id (library_files s)) \<and> (\<forall>f \<in> set (library_files s). content_row_ok cf s f)"

text \<open>Nothing that is stored gets lost.\<close>

definition holds :: "files_config \<Rightarrow> 's file_db_scheme \<Rightarrow> 's file_db_scheme \<Rightarrow> bool" where
  "holds cf s s' \<longleftrightarrow> (genuine cf s \<longrightarrow> genuine cf s') \<and> (\<forall>h. digest cf h \<longrightarrow> stored cf s h \<longrightarrow> stored cf s' h)"

definition safe :: "files_config \<Rightarrow> 's file_db_scheme \<Rightarrow> 's file_db_scheme \<Rightarrow> bool" where
  "safe cf s s' \<longleftrightarrow> (kept cf s \<longrightarrow> kept cf s' \<and> holds cf s s')"

interpretation ho: kept_relation "holds cf" for cf
  by unfold_locales (auto simp: holds_def)

interpretation sf: kept_relation "safe cf" for cf
  by unfold_locales (auto simp: safe_def intro: ho.refl ho.trans)

lemma row_ok_holds: "holds cf s s' \<Longrightarrow> content_row_ok cf s f \<Longrightarrow> content_row_ok cf s' f"
  by (auto simp: content_row_ok_def holds_def)

lemma safe_tables:
  assumes "holds cf s s'" and "library_files s' = library_files s" and "set (upload_sessions s') \<subseteq> set (upload_sessions s)"
  shows "safe cf s s'"
  using assms row_ok_holds[OF assms(1)] by (auto simp: safe_def kept_def holds_def)

lemma sf_objects: "act_rel same_tables m \<Longrightarrow> act_rel (holds cf) m \<Longrightarrow> act_rel (safe cf) m"
  unfolding act_rel_def same_tables_def by (auto intro!: safe_tables)

lemma holds_same: "objects s' = objects s \<Longrightarrow> archive s' = archive s \<Longrightarrow> holds cf s s'"
  by (simp add: holds_def genuine_def stored_def archive_exists_def)

text \<open>Keys that are not the name of a content.\<close>

definition other_key :: "files_config \<Rightarrow> string \<Rightarrow> bool" where
  "other_key cf k \<longleftrightarrow> (\<forall>h. digest cf h \<longrightarrow> k \<noteq> bucket_key h)"

lemma length_bucket_key: "sha3_ok cf \<Longrightarrow> digest cf h \<Longrightarrow> length (bucket_key h) = 67"
  by (auto simp: sha3_ok_def bucket_key_def elim!: digestE)

lemma bucket_key_inj:
  assumes "sha3_ok cf" and "digest cf h'"
  shows "bucket_key h = bucket_key h' \<longleftrightarrow> h = h'"
proof
  assume e: "bucket_key h = bucket_key h'"
  have l: "length h' = 64" using assms by (auto simp: sha3_ok_def elim!: digestE)
  have "length (bucket_key h) = 67" using length_bucket_key[OF assms] e by simp
  then have "length h = 64" by (simp add: bucket_key_def min_def split: if_splits)
  moreover have "drop 3 (bucket_key h) = drop 3 (bucket_key h')" using e by simp
  ultimately show "h = h'" using l by (simp add: bucket_key_def)
qed simp

lemma bucket_key_inj2: "sha3_ok cf \<Longrightarrow> digest cf h' \<Longrightarrow> bucket_key h' = bucket_key h \<longleftrightarrow> h' = h"
  using bucket_key_inj by metis

lemma other_key_variant: "sha3_ok cf \<Longrightarrow> digest cf h \<Longrightarrow> w \<noteq> [] \<Longrightarrow> other_key cf (bucket_key h @ w)"
  unfolding other_key_def by (metis length_append length_bucket_key add_cancel_right_right length_0_conv)

lemma other_key_upload: "sha3_ok cf \<Longrightarrow> other_key cf (''up/'' @ u)"
proof -
  assume ok: "sha3_ok cf"
  have "''up/'' @ u \<noteq> bucket_key (sha3_256 cf c)" for c
  proof
    assume e: "''up/'' @ u = bucket_key (sha3_256 cf c)"
    from ok have h: "length (sha3_256 cf c) = 64" "set (sha3_256 cf c) \<subseteq> set ''0123456789abcdef''" by (auto simp: sha3_ok_def)
    then obtain x zs where z: "sha3_256 cf c = x # zs" by (cases "sha3_256 cf c") auto
    have "hd (bucket_key (sha3_256 cf c)) = x" by (simp add: bucket_key_def z)
    with e have "x = CHR ''u''" by (metis list.sel(1) append_Cons)
    with h z show False by auto
  qed
  then show ?thesis by (auto simp: other_key_def elim!: digestE)
qed

named_theorems ho_ops \<open>operations that lose nothing stored\<close>

lemma ho_io [ho_ops]: "act_rel (holds cf) storage_io"
  by (rule act_relI) (simp add: storage_io_def holds_same)

lemma ho_read [ho_ops]: "act_rel (holds cf) (storage_exists k)" "act_rel (holds cf) (storage_read k)"
  unfolding storage_exists_def storage_read_def by (intro ho.rules ho_ops act_relI; simp add: ho.refl)+

lemma holds_put:
  assumes "sha3_ok cf" and "other_key cf k \<or> k = bucket_key (sha3_256 cf c)"
  shows "holds cf s (s\<lparr>objects := (objects s)(k \<mapsto> c)\<rparr>)"
  using assms bucket_key_inj[OF assms(1)] bucket_key_inj[OF assms(1) digest_sha3[of cf c]]
  by (auto simp: holds_def genuine_def stored_def archive_exists_def other_key_def)

lemma holds_remove:
  assumes "other_key cf k"
  shows "holds cf s (s\<lparr>objects := (objects s)(k := None)\<rparr>)"
  using assms by (auto simp: holds_def genuine_def stored_def archive_exists_def other_key_def)

lemma ho_save:
  assumes "sha3_ok cf" and "other_key cf k \<or> k = bucket_key (sha3_256 cf c)"
  shows "act_rel (holds cf) (storage_save n k c)"
  unfolding storage_save_def by (intro ho.rules ho_ops holds_put assms)

lemma ho_delete: "other_key cf k \<Longrightarrow> act_rel (holds cf) (storage_delete k)"
  unfolding storage_delete_def by (intro ho.rules ho_ops holds_remove)

lemma ho_copy_verified [ho_ops]: "act_rel (holds cf) (copy_verified cf a k h)"
proof -
  have "holds cf s (put_area a h c s)" if "sha3_256 cf c = h" for c s
    using that by (cases a) (auto simp: holds_def genuine_def stored_def archive_exists_def)
  then show ?thesis
    unfolding copy_verified_def by (intro ho.rules ho_ops) auto
qed

lemma ho_areas [ho_ops]: "act_rel (holds cf) (backup_file cf k h)" "act_rel (holds cf) (archive_file cf k h)"
    "act_rel (holds cf) (read_archive cf h)"
  unfolding backup_file_def archive_file_def read_archive_def by (intro ho.rules ho_ops act_relI; simp add: ho.refl)+

lemma ho_preview: "sha3_ok cf \<Longrightarrow> digest cf h \<Longrightarrow> act_rel (holds cf) (save_preview cf h p)"
  unfolding save_preview_def
  by (intro ho.rules act_rel_best_effort ho_save disjI1 other_key_variant) (auto simp: PREVIEW_SUFFIX_def)

lemma ho_safe_delete: "other_key cf k \<Longrightarrow> act_rel (holds cf) (safe_delete k)"
  unfolding safe_delete_def by (intro act_rel_best_effort ho_delete)

lemma ho_hash: "other_key cf k \<Longrightarrow> act_rel (holds cf) (hash_from_storage cf k n)"
  unfolding hash_from_storage_def by (intro ho.rules ho_ops ho_safe_delete)

lemmas sf_storage_io = sf_objects[OF st_storage_io ho_io]

lemmas sf_ops =
  sf_objects[OF st_storage(1) ho_read(1)] sf_objects[OF st_storage(3) ho_read(2)]
  sf_objects[OF st_areas(1) ho_areas(1)] sf_objects[OF st_areas(2) ho_areas(2)] sf_objects[OF st_areas(4) ho_areas(3)]

section \<open>What the tables say\<close>

text \<open>Rows may change as long as the live ones were live with the same content.\<close>

lemma safe_rows:
  assumes "\<And>f. f \<in> set (library_files s) \<Longrightarrow> kept cf s \<Longrightarrow>
     lf_id (g f) = lf_id f \<and> lf_sha3_hash (g f) = lf_sha3_hash f \<and> (live (g f) \<longrightarrow> live f)"
  shows "safe cf s (s\<lparr>library_files := map g (library_files s)\<rparr>)"
proof -
  let ?s = "s\<lparr>library_files := map g (library_files s)\<rparr>"
  have ho: "holds cf s ?s" by (rule holds_same) simp_all
  have "kept cf ?s" if k: "kept cf s"
  proof -
    have same: "map lf_id (map g (library_files s)) = map lf_id (library_files s)" using assms k by auto
    have ids: "distinct (map lf_id (map g (library_files s)))" unfolding same using k by (simp add: kept_def)
    have "content_row_ok cf ?s (g f)" if "f \<in> set (library_files s)" for f
    proof -
      from that k have "content_row_ok cf s f" by (simp add: kept_def)
      then obtain h where "digest cf h" "lf_sha3_hash f = Some h" "live f \<longrightarrow> stored cf s h" by (auto simp: content_row_ok_def)
      with assms[OF that k] ho show ?thesis unfolding content_row_ok_def holds_def by metis
    qed
    then have "\<forall>f \<in> set (library_files ?s). content_row_ok cf ?s f" by auto
    with k ho ids show ?thesis by (simp add: kept_def holds_def)
  qed
  with ho show ?thesis by (simp add: safe_def)
qed

lemma safe_update:
  assumes "\<And>f. f \<in> set (library_files s) \<Longrightarrow> lf_id f = i \<Longrightarrow> kept cf s \<Longrightarrow>
     lf_id (g f) = i \<and> lf_sha3_hash (g f) = lf_sha3_hash f \<and> (live (g f) \<longrightarrow> live f)"
  shows "safe cf s (update_file i g s)"
  unfolding update_file_def by (rule safe_rows) (auto simp: assms)

lemma safe_sync: "safe cf s (sync_ref_count h s)"
  unfolding sync_ref_count_def Let_def by (auto intro!: safe_rows sf.refl simp: live_def split: if_splits)

lemma sf_claim: "act_rel (safe cf) (claim u w)"
  by (rule act_relI, rule safe_tables) (auto simp: claim_def Let_def intro: holds_same)

lemma sf_enqueue: "act_rel (safe cf) (writeA (\<lambda>s. f s))" if "\<And>s s'. f s = Inr s' \<Longrightarrow> core_db.more s' = core_db.more s"
proof (rule act_relI)
  fix s
  show "safe cf s (snd (writeA f s))"
  proof (cases "f s")
    case (Inr t)
    note e = more_eq_files[OF that[OF Inr]]
    have "safe cf s t" by (rule safe_tables) (simp_all add: holds_same e)
    with Inr show ?thesis by (simp add: writeA_def)
  qed (simp add: writeA_def sf.refl)
qed

lemma insert_file_safe:
  assumes "lf_sha3_hash f = Some h" and "digest cf h" and "stored cf s h"
  shows "safe cf s (snd (insert_file f s))"
proof -
  let ?s = "s\<lparr>library_files := library_files s @ [f]\<rparr>"
  have ho: "holds cf s ?s" by (rule holds_same) simp_all
  then have "content_row_ok cf ?s f" using assms by (auto simp: content_row_ok_def holds_def)
  then have "safe cf s ?s" if "lf_id f \<notin> lf_id ` set (library_files s)"
    using that ho row_ok_holds[OF ho] by (auto simp: safe_def kept_def holds_def)
  moreover have "insert_file f s = (Inr (), ?s) \<and> lf_id f \<notin> lf_id ` set (library_files s) \<or> snd (insert_file f s) = s"
    by (auto simp: insert_file_def list_ex_iff)
  ultimately show ?thesis by (auto simp: sf.refl)
qed

lemma register_row_safe:
  assumes "digest cf h" and "stored cf s h"
  shows "safe cf s (snd (register_row cf u info idn h n path text s))"
proof -
  let ?s = "snd (fresh_pk (snd (fresh_hex s)))"
  have ho: "holds cf s ?s" by (rule holds_same) (simp_all add: fresh_pk_def fresh_hex_def)
  then have s: "safe cf s ?s" by (rule safe_tables) (simp_all add: fresh_pk_def fresh_hex_def)
  from ho assms have st: "stored cf ?s h" by (simp add: holds_def)
  obtain f i where f: "lf_sha3_hash f = Some h" and ro: "register_row cf u info idn h n path text s =
      seqA (insert_file f) (seqA (modA (sync_ref_count h)) (retA i)) ?s"
    by (rule that[rotated]) (auto simp: register_row_def Let_def case_prod_unfold)
  note ins = sf.trans[OF s insert_file_safe[OF f assms(1) st]]
  have "snd (register_row cf u info idn h n path text s) \<in> {snd (insert_file f ?s), sync_ref_count h (snd (insert_file f ?s))}"
    unfolding ro by (auto simp: bindA_def split: prod.splits sum.splits)
  then show ?thesis using ins sf.trans[OF ins safe_sync] by auto
qed

section \<open>Operations that lose nothing\<close>

lemma safe_after:
  assumes "P s" and "act_rel (safe cf) m" and "\<And>s a t. P s \<Longrightarrow> m s = (Inr a, t) \<Longrightarrow> Q a t"
    and "\<And>a t. Q a t \<Longrightarrow> safe cf t (snd (f a t))"
  shows "safe cf s (snd (bindA m f s))"
  using assms(1,3,4) by (rule sf.bind_from[OF _ act_rel_snd[OF assms(2)]])

lemma stored_after: "act_rel (holds cf) m \<Longrightarrow> digest cf h \<Longrightarrow> stored cf s h \<Longrightarrow> m s = (r, t) \<Longrightarrow> stored cf t h"
  using act_relD by (fastforce simp: holds_def)

lemma storage_exists_Inr: "storage_exists k s = (Inr b, t) \<longleftrightarrow>
    faults s (fault_ix s) = None \<and> t = s\<lparr>fault_ix := Suc (fault_ix s)\<rparr> \<and> b = (objects s k \<noteq> None)"
  by (auto simp: storage_exists_def storage_io_def bindA_def split: option.splits)

lemma storage_read_Inr: "storage_read k s = (Inr c, t) \<longleftrightarrow>
    faults s (fault_ix s) = None \<and> t = s\<lparr>fault_ix := Suc (fault_ix s)\<rparr> \<and> objects s k = Some c"
  by (auto simp: storage_read_def storage_io_def bindA_def optR_def split: option.splits)

lemma storage_save_Inr: "storage_save n k c s = (Inr (), t) \<Longrightarrow> objects t k = Some c"
  by (auto simp: storage_save_def storage_io_def bindA_def raiseA_def split: option.splits if_splits)

lemma sf_preview: "sha3_ok cf \<Longrightarrow> digest cf h \<Longrightarrow> act_rel (safe cf) (save_preview cf h p)"
  by (intro sf_objects st_compound ho_preview)

lemma register_after_preview:
  assumes "sha3_ok cf" and "digest cf h" and "stored cf s h"
  shows "safe cf s (snd (seqA (save_preview cf h p) (register_row cf u info idn h n path tx) s))"
  unfolding seqA_def
  by (rule safe_after[where P = "\<lambda>s. stored cf s h" and Q = "\<lambda>_ s. stored cf s h", OF assms(3) sf_preview[OF assms(1,2)]])
    (use stored_after[OF ho_preview] assms(1,2) register_row_safe in blast)+

lemma sf_create_file: "sha3_ok cf \<Longrightarrow> act_rel (safe cf) (create_file cf u info content mb)"
proof -
  assume ok: "sha3_ok cf"
  let ?h = "sha3_256 cf content"
  have put: "act_rel (safe cf) (storage_save n (bucket_key ?h) content)" for n
    by (intro sf_objects st_storage ho_save ok disjI2) simp
  let ?save = "\<lambda>limit. on_error raise_storage_as_file (bindA (storage_exists (bucket_key ?h)) (\<lambda>there.
                   if there then retA False else seqA (storage_save limit (bucket_key ?h) content) (retA True)))"
  have save: "act_rel (safe cf) (?save limit)" for limit
    by (intro act_rel_on_error sf.rules sf_ops put)
  have "stored cf t ?h" if "?save limit s = (Inr b, t)" for limit s b t
    using that storage_save_Inr[of limit "bucket_key ?h" content]
    by (fastforce simp: on_error_def bindA_def storage_exists_Inr stored_def split: prod.splits sum.splits if_splits)
  then have core: "act_rel (safe cf) (bindA (?save limit) (\<lambda>saved.
         seqA (save_preview cf ?h preview_pdf) (register_row cf u info idn ?h n (g saved) tx)))" for limit info idn preview_pdf n g tx
    by (intro act_relI safe_after[where P = "\<lambda>_. True" and Q = "\<lambda>_ s. stored cf s ?h"] save register_after_preview ok) auto
  have idn: "act_rel (safe cf) (\<lambda>s. (identity_for_upload u info s, s))" by (intro act_relI) (simp add: sf.refl)
  show ?thesis
    unfolding create_file_def Let_def by (intro sf.rules idn core)
qed

lemma sf_upload_init: "act_rel (safe cf) (upload_init cf info u)"
proof (rule act_relI)
  fix s :: "'a file_db_scheme"
  let ?t = "snd (upload_init cf info u s)"
  have ho: "holds cf s ?t" by (rule holds_same) (auto simp: upload_init_def Let_def fresh_hex_def)
  let ?x = "\<lparr>us_upload_id = hexes s (hex_ix s), us_uploader_id = u, us_storage_key = ''up/'' @ hexes s (hex_ix s),
     us_meta = Some \<lparr>um_key = ''up/'' @ hexes s (hex_ix s), um_info = info\<rparr>, us_created_at = now s\<rparr>"
  have "library_files ?t = library_files s" and "set (upload_sessions ?t) \<subseteq> insert ?x (set (upload_sessions s))"
    by (auto simp: upload_init_def Let_def fresh_hex_def)
  moreover have "session_ok ?x" by (simp add: session_ok_def)
  ultimately show "safe cf s ?t" using ho row_ok_holds[OF ho] by (auto simp: safe_def kept_def holds_def)
qed

lemma sf_safe_delete: "other_key cf k \<Longrightarrow> act_rel (safe cf) (safe_delete k)"
  by (intro sf_objects st_compound ho_safe_delete)

lemma hash_from_storage_Inr: "hash_from_storage cf k n s = (Inr c, t) \<Longrightarrow> objects t k = Some c"
  by (auto simp: hash_from_storage_def bindA_def raiseA_def storage_read_Inr split: prod.splits sum.splits if_splits)

lemma sf_register_from_upload:
  assumes ok: "sha3_ok cf" and key: "other_key cf (um_key meta)"
  shows "act_rel (safe cf) (register_from_upload cf meta u)"
proof -
  let ?k = "um_key meta"
  have del: "act_rel (safe cf) (\<lambda>s. seqA (safe_delete ?k) (retA i) s)" for i :: uuid
    by (intro sf.rules sf_safe_delete key)
  have reg: "safe cf s (snd (seqA (save_preview cf h p)
           (bindA (register_row cf u info idn h n path tx) (\<lambda>i. seqA (safe_delete ?k) (retA i))) s))"
    if "digest cf h" "stored cf s h" for h p info idn n path tx and s :: "'a file_db_scheme"
    unfolding seqA_def[of "save_preview cf h p"]
  proof (rule safe_after[where P = "\<lambda>s. stored cf s h" and Q = "\<lambda>_ s. stored cf s h", OF that(2) sf_preview[OF ok that(1)]])
    show "stored cf t h" if "stored cf s h" "save_preview cf h p s = (Inr a, t)" for s :: "'a file_db_scheme" and a t
      using stored_after[OF ho_preview[OF ok \<open>digest cf h\<close>] \<open>digest cf h\<close> that] .
    show "safe cf t (snd (bindA (register_row cf u info idn h n path tx) (\<lambda>i. seqA (safe_delete ?k) (retA i)) t))"
      if "stored cf t h" for t :: "'a file_db_scheme"
      by (rule sf.bind_from[where P = "\<lambda>s. stored cf s h" and Q = "\<lambda>_ _. True", OF that register_row_safe[OF \<open>digest cf h\<close>]])
        (use act_rel_snd[OF del] in auto)
  qed
  have copy: "safe cf s (snd ((if b then retA () else storage_copy ?k (bucket_key (sha3_256 cf c))) s))
      \<and> (\<forall>t. (if b then retA () else storage_copy ?k (bucket_key (sha3_256 cf c))) s = (Inr (), t) \<longrightarrow> stored cf t (sha3_256 cf c))"
    if "objects s ?k = Some c" "b \<longrightarrow> stored cf s (sha3_256 cf c)" for b c and s :: "'a file_db_scheme"
  proof -
    have "safe cf s (s\<lparr>fault_ix := n, objects := (objects s)(bucket_key (sha3_256 cf c) \<mapsto> c)\<rparr>)" for n
      by (rule safe_tables) (auto simp: holds_def genuine_def stored_def archive_exists_def bucket_key_inj[OF ok digest_sha3])
    moreover have "safe cf s (s\<lparr>fault_ix := n\<rparr>)" for n by (rule safe_tables) (auto intro: holds_same)
    ultimately show ?thesis
      using that by (auto simp: storage_copy_def storage_io_def bindA_def sf.refl stored_def split: option.splits)
  qed
  let ?copy = "\<lambda>c stored. if stored then retA () else storage_copy ?k (bucket_key (sha3_256 cf c))"
  have rest: "safe cf s (snd (bindA (storage_exists (bucket_key (sha3_256 cf c))) (\<lambda>stored. seqA (?copy c stored)
           (seqA (save_preview cf (sha3_256 cf c) p)
           (bindA (register_row cf u info idn (sha3_256 cf c) n path tx) (\<lambda>i. seqA (safe_delete ?k) (retA i))))) s))"
    if "objects s ?k = Some c" for c p info idn n path tx and s :: "'a file_db_scheme"
  proof (rule safe_after[where P = "\<lambda>s. objects s ?k = Some c" and Q = "\<lambda>b s. objects s ?k = Some c \<and> (b \<longrightarrow> stored cf s (sha3_256 cf c))", OF that])
    fix b and t :: "'a file_db_scheme" assume b: "objects t ?k = Some c \<and> (b \<longrightarrow> stored cf t (sha3_256 cf c))"
    show "safe cf t (snd (seqA (?copy c b) (seqA (save_preview cf (sha3_256 cf c) p)
           (bindA (register_row cf u info idn (sha3_256 cf c) n path tx) (\<lambda>i. seqA (safe_delete ?k) (retA i)))) t))"
      by (rule sf.seq_from[where P = "\<lambda>s. objects s ?k = Some c \<and> (b \<longrightarrow> stored cf s (sha3_256 cf c))"
          and Q = "\<lambda>s. stored cf s (sha3_256 cf c)", OF b]) (use copy reg in blast)+
  qed (auto intro: sf_ops simp: storage_exists_Inr stored_def)
  have idn: "act_rel (safe cf) (\<lambda>s :: 'a file_db_scheme. (identity_for_upload u info s, s))" for info by (intro act_relI) (simp add: sf.refl)
  have body: "safe cf s (snd (bindA (storage_read ?k) (\<lambda>_. bindA (liftA r) (\<lambda>(tx, p). bindA (\<lambda>s. (identity_for_upload u info s, s)) (\<lambda>(idn, info).
        bindA (storage_exists (bucket_key (sha3_256 cf c))) (\<lambda>stored. seqA (?copy c stored)
           (seqA (save_preview cf (sha3_256 cf c) p)
           (bindA (register_row cf u info idn (sha3_256 cf c) n path tx) (\<lambda>i. seqA (safe_delete ?k) (retA i)))))))) s))"
    if "objects s ?k = Some c" for c r info n path and s :: "'a file_db_scheme"
    by (rule safe_after[where P = "\<lambda>s. objects s ?k = Some c" and Q = "\<lambda>_ s. objects s ?k = Some c", OF that],
        rule sf_ops, simp add: storage_read_Inr, cases r)
      (use rest in \<open>auto simp: bindA_def sf.refl split: sum.splits\<close>)
  have "act_rel (safe cf) (bindA (hash_from_storage cf ?k m) (\<lambda>c. bindA (storage_read ?k) (\<lambda>_. bindA (liftA (r c)) (\<lambda>(tx, p).
        bindA (\<lambda>s :: 'a file_db_scheme. (identity_for_upload u info s, s)) (\<lambda>(idn, info).
        bindA (storage_exists (bucket_key (sha3_256 cf c))) (\<lambda>stored. seqA (?copy c stored)
           (seqA (save_preview cf (sha3_256 cf c) p)
           (bindA (register_row cf u info idn (sha3_256 cf c) (length c) (path c) tx) (\<lambda>i. seqA (safe_delete ?k) (retA i))))))))))"
    for m r info path
    by (rule act_relI, rule safe_after[where P = "\<lambda>_. True" and Q = "\<lambda>c s. objects s ?k = Some c"], rule TrueI,
        rule sf_objects[OF st_compound(5) ho_hash[OF key]], erule hash_from_storage_Inr, erule body)
  note core = this
  show ?thesis
    unfolding register_from_upload_def Let_def by (rule sf.bind, rule sf_ops, rule sf.seq, rule sf.read, rule core)
qed

lemma safe_claimed:
  assumes ok: "sha3_ok cf"
    and "\<And>x t. (\<And>meta. us_meta x = Some meta \<Longrightarrow> other_key cf (um_key meta)) \<Longrightarrow> safe cf t (snd (f (Some x) t))"
    and "\<And>t. safe cf t (snd (f None t))"
  shows "act_rel (safe cf) (bindA (claim i w) f)"
proof (rule act_relI)
  fix s :: "'a file_db_scheme"
  have key: "other_key cf (um_key meta)" if "kept cf t" "claim i w t = (Inr (Some x), t')" "us_meta x = Some meta"
    for x meta and t t' :: "'a file_db_scheme"
  proof -
    from that(2) have "x \<in> set (upload_sessions t)" by (auto simp: claim_def Let_def find_Some_iff)
    with that have "um_key meta = ''up/'' @ us_upload_id x" by (auto simp: kept_def session_ok_def)
    with other_key_upload[OF ok] show ?thesis by simp
  qed
  show "safe cf s (snd (bindA (claim i w) f s))"
  proof (cases "kept cf s")
    case True
    then show ?thesis
    proof (rule safe_after[OF _ sf_claim])
      show "case r of None \<Rightarrow> True | Some x \<Rightarrow> \<forall>meta. us_meta x = Some meta \<longrightarrow> other_key cf (um_key meta)"
        if "kept cf t" "claim i w t = (Inr r, t')" for r and t t' :: "'a file_db_scheme"
        using key that by (cases r) auto
      show "safe cf t (snd (f r t))"
        if "case r of None \<Rightarrow> True | Some x \<Rightarrow> \<forall>meta. us_meta x = Some meta \<longrightarrow> other_key cf (um_key meta)" for r t
        using that assms(2,3) by (cases r) auto
    qed
  qed (simp add: safe_def)
qed

lemma sf_confirm:
  assumes ok: "sha3_ok cf"
  shows "act_rel (safe cf) (confirm_upload cf i u)"
  unfolding confirm_upload_def
proof (rule safe_claimed[OF ok], unfold option.case)
    fix x :: upload_session and t :: "'a file_db_scheme"
    assume "\<And>meta. us_meta x = Some meta \<Longrightarrow> other_key cf (um_key meta)"
    then have "act_rel (safe cf) (case us_meta x of None \<Rightarrow> raiseA (BizError (FileErr UPLOAD_EXPIRED))
          | Some meta \<Rightarrow> register_from_upload cf meta (us_uploader_id x))"
      by (cases "us_meta x") (auto intro: sf_register_from_upload[OF ok] sf.read)
    then show "safe cf t (snd ((case us_meta x of None \<Rightarrow> raiseA (BizError (FileErr UPLOAD_EXPIRED))
          | Some meta \<Rightarrow> register_from_upload cf meta (us_uploader_id x)) t))" by (rule act_rel_snd)
qed (simp add: sf.refl)

lemma sf_notify:
  assumes ok: "sha3_ok cf"
  shows "act_rel (safe cf) (notify_upload cf i)"
  unfolding notify_upload_def
proof (rule safe_claimed[OF ok], unfold option.case)
    fix x :: upload_session and t :: "'a file_db_scheme"
    assume "\<And>meta. us_meta x = Some meta \<Longrightarrow> other_key cf (um_key meta)"
    then have "act_rel (safe cf) (case us_meta x of None \<Rightarrow> raiseA ValueError
          | Some meta \<Rightarrow> bindA (register_from_upload cf meta (us_uploader_id x)) (\<lambda>i. retA (Some i)))"
      by (cases "us_meta x") (simp_all only: option.case sf.read sf.bind[OF sf_register_from_upload[OF ok] sf.read(1)])
    then show "safe cf t (snd ((case us_meta x of None \<Rightarrow> raiseA ValueError
          | Some meta \<Rightarrow> bindA (register_from_upload cf meta (us_uploader_id x)) (\<lambda>i. retA (Some i))) t))" by (rule act_rel_snd)
qed (simp add: sf.refl)

lemma sf_enqueues:
  "act_rel (safe cf) (enqueue_change cf' i)" "act_rel (safe cf) (enqueue_changes cf' fs)"
  "act_rel (safe cf) (writeA (enqueue_points_event u k r))"
proof -
  show c: "act_rel (safe cf) (enqueue_change cf' i)" for i
    unfolding enqueue_change_def by (rule sf_enqueue) (auto simp: enqueue_file_change_def dest!: enqueue_frame split: if_splits)
  show "act_rel (safe cf) (enqueue_changes cf' fs)" 
  proof (induction fs)
    case Nil
    show ?case by (simp only: enqueue_changes.simps sf.read)
  next
    case (Cons f fs)
    show ?case unfolding enqueue_changes.simps by (rule sf.seq[OF c Cons])
  qed
  show "act_rel (safe cf) (writeA (enqueue_points_event u k r))"
    by (rule sf_enqueue) (auto simp: enqueue_points_event_def dest!: enqueue_frame split: if_splits sum.splits)
qed

lemma sf_approve_effects: "act_rel (safe cf) (approve_effects cf f)"
proof -
  have "safe cf s (if b then update_file i (\<lambda>g. g\<lparr>lf_backed_up_at := Some (now s)\<rparr>) s else s)"
    for b i and s :: "'a file_db_scheme"
    by (auto intro: safe_update sf.refl simp: live_def)
  then show ?thesis unfolding approve_effects_def by (intro sf.rules sf_ops sf_enqueues)
qed

text \<open>A row that is approved was live.\<close>

lemma safe_decide:
  assumes "get_file_row i s = Some f" and "lf_status f = Pending"
  shows "safe cf s (update_file i (set_reviewed target c) s)"
proof (rule safe_update)
  fix g assume g: "g \<in> set (library_files s)" "lf_id g = i" and k: "kept cf s"
  from assms(1) have "f \<in> set (library_files s)" "lf_id f = i" by (auto simp: get_file_row_def find_Some_iff)
  with g k have "g = f" by (metis inj_on_def distinct_map kept_def)
  with g assms(2) show "lf_id (set_reviewed target c g) = i \<and> lf_sha3_hash (set_reviewed target c g) = lf_sha3_hash g
      \<and> (live (set_reviewed target c g) \<longrightarrow> live g)"
    by (simp add: set_reviewed_def live_def)
qed

lemma sf_reading:
  "act_rel (safe cf) (get_or_raise i)" "act_rel (safe cf) (increment_view i)" "act_rel (safe cf) (increment_download i)"
  "act_rel (safe cf) (require_visible v f)" "act_rel (safe cf) (require_approved f)"
proof -
  show g: "act_rel (safe cf) (get_or_raise i)" by (rule act_relI) (simp add: get_or_raise_def sf.refl)
  show "act_rel (safe cf) (increment_view i)" "act_rel (safe cf) (increment_download i)"
    unfolding increment_view_def increment_download_def by (intro sf.rules g safe_update; simp add: live_def)+
  show "act_rel (safe cf) (require_visible v f)" by (rule act_relI) (simp add: require_visible_def sf.refl)
  show "act_rel (safe cf) (require_approved f)" unfolding require_approved_def by (rule sf.read)
qed

lemma sf_serving:
  "act_rel (safe cf) (get_file i b v e)" "act_rel (safe cf) (download_url cf i cur)" "act_rel (safe cf) (serve_content cf i d v)"
proof -
  show "act_rel (safe cf) (get_file i b v e)" unfolding get_file_def by (intro sf.rules sf_reading)
  show "act_rel (safe cf) (download_url cf i cur)" unfolding download_url_def by (intro sf.rules sf_reading)
  show "act_rel (safe cf) (serve_content cf i d v)" unfolding serve_content_def Let_def
    by (intro sf.rules sf_reading sf_ops act_rel_on_error)
qed

lemma bind_get_or_raise: "bindA (get_or_raise i) k s =
    (case get_file_row i s of None \<Rightarrow> (Inl (BizError (FileErr file_err.NOT_FOUND)), s) | Some f \<Rightarrow> k f s)"
  by (simp add: get_or_raise_def optR_def bindA_def split: option.splits)

lemma sf_approve: "act_rel (safe cf) (review_file cf audit i Approved c adm)"
proof (rule act_relI)
  fix s :: "'a file_db_scheme"
  have rest: "act_rel (safe cf) (seqA (approve_effects cf f) (liftA audit))" for f :: library_file
    by (intro sf.rules sf_approve_effects)
  have "safe cf s (snd (seqA (modA (update_file i (set_reviewed Approved c))) (seqA (approve_effects cf f) (liftA audit)) s))"
    if "get_file_row i s = Some f" "lf_status f = Pending" for f
    using sf.trans[OF safe_decide[OF that] act_rel_snd[OF rest]] by simp
  then show "safe cf s (snd (review_file cf audit i Approved c adm s))"
    by (cases "get_file_row i s") (auto simp: review_file_def bind_get_or_raise sf.refl)
qed

section \<open>Sessions and jobs\<close>

lemma kept_session:
  assumes "kept cf s" and "safe cf s (snd (m s))"
  shows "kept cf (snd (file_session reg m s))"
proof (cases "m s")
  case (Pair r t)
  with assms have t: "kept cf t" "holds cf s t" by (simp_all add: safe_def)
  have "holds cf t (undo s t)" by (rule holds_same) (simp_all add: undo_def)
  note u = ho.trans[OF t(2) this]
  have "kept cf (undo s t)"
    using assms(1) u row_ok_holds[OF u] by (auto simp: kept_def holds_def undo_def)
  with Pair t show ?thesis by (cases r) (simp_all add: file_session_def)
qed

lemma kept_cleanup:
  assumes "sha3_ok cf" and "kept cf s"
  shows "kept cf (cleanup_expired_uploads s)"
proof -
  have "kept cf (cleanup_each xs s)" if "kept cf s" "\<forall>x \<in> set xs. session_ok x" for xs and s :: "'a file_db_scheme"
    using that
  proof (induction xs arbitrary: s)
    case (Cons x xs)
    from Cons.prems have "other_key cf (us_storage_key x)" using other_key_upload[OF assms(1)] by (simp add: session_ok_def)
    then have "act_rel (safe cf) (storage_delete (us_storage_key x))" by (intro sf_objects st_storage ho_delete)
    then have k: "kept cf (snd (storage_delete (us_storage_key x) s))" using Cons.prems act_rel_snd by (fastforce simp: safe_def)
    have f: "kept cf (t\<lparr>upload_sessions := filter P (upload_sessions t)\<rparr>)" if "kept cf t" for t :: "'a file_db_scheme" and P
      using that safe_tables[OF holds_same, of "t\<lparr>upload_sessions := filter P (upload_sessions t)\<rparr>" t cf] by (auto simp: safe_def)
    obtain r t where t: "storage_delete (us_storage_key x) s = (r, t)" by (cases "storage_delete (us_storage_key x) s")
    with k have kt: "kept cf t" by simp
    have xs: "\<forall>x \<in> set xs. session_ok x" using Cons.prems by simp
    show ?case using Cons.IH[OF kt xs] Cons.IH[OF f[OF kt] xs] t by (cases r) simp_all
  qed simp
  note step = this
  have "\<forall>x \<in> set (upload_sessions s). session_ok x" using assms(2) by (simp add: kept_def)
  then show ?thesis unfolding cleanup_expired_uploads_def by (intro step assms(2)) simp
qed

lemma copy_verified_Inr:
  assumes "copy_verified cf Archive k h s = (Inr (), t)"
  shows "archive t h \<noteq> None"
  using assms
  by (auto simp: copy_verified_def bindA_def raiseA_def storage_io_def storage_read_Inr split: prod.splits sum.splits option.splits if_splits)

lemma sf_archive_one:
  assumes "sha3_ok cf" and "files_archive_on cf"
  shows "act_rel (safe cf) (archive_one cf cutoff h)"
proof -
  let ?mark = "\<lambda>s. s\<lparr>library_files := map (\<lambda>f. if lf_sha3_hash f = Some h \<and> live f
      then f\<lparr>lf_archive_state := ''archived''\<rparr> else f) (library_files s)\<rparr>"
  have mark: "safe cf s (?mark s)" for s :: "'a file_db_scheme" by (rule safe_rows) (simp add: live_def)
  have del: "safe cf s (snd (storage_delete (bucket_key h) s))" if "archive s h \<noteq> None" for s :: "'a file_db_scheme"
  proof -
    have "safe cf s (s\<lparr>fault_ix := n, objects := (objects s)(bucket_key h := None)\<rparr>)" for n
      using that assms(2)
      by (intro safe_tables) (auto simp: holds_def genuine_def stored_def archive_exists_def bucket_key_inj2[OF assms(1)])
    moreover have "safe cf s (s\<lparr>fault_ix := n\<rparr>)" for n by (rule safe_tables) (auto intro: holds_same)
    ultimately show ?thesis by (auto simp: storage_delete_def storage_io_def bindA_def split: option.splits)
  qed
  have tail: "safe cf s (snd (seqA (modA ?mark) (storage_delete (bucket_key h)) s))" if "archive s h \<noteq> None" for s :: "'a file_db_scheme"
    using sf.trans[OF mark del[of "?mark s"]] that by simp
  have "act_rel (safe cf) (seqA (archive_file cf (bucket_key h) h) (seqA (modA ?mark) (storage_delete (bucket_key h)) :: ('a file_db_scheme, unit) act))"
    unfolding seqA_def[of "archive_file cf (bucket_key h) h"]
    by (rule act_relI, rule safe_after[where P = "\<lambda>_. True" and Q = "\<lambda>_ s. archive s h \<noteq> None"], rule TrueI, rule sf_ops)
      (use assms(2) copy_verified_Inr tail in \<open>auto simp: archive_file_def\<close>)
  note body = this
  show ?thesis unfolding archive_one_def
    by (rule sf.bind, rule sf.read, rule sf.cond, rule sf.read, rule sf.bind, rule sf_ops, rule sf.cond, rule sf.read, rule body)
qed

lemma kept_archive:
  assumes "sha3_ok cf" and "kept cf s"
  shows "kept cf (archive_cold_files cf s)"
proof -
  have "kept cf (archive_each cf cutoff hs s)" if "files_archive_on cf" "kept cf s" for cutoff hs and s :: "'a file_db_scheme"
    using that(2)
  proof (induction hs arbitrary: s)
    case (Cons h hs)
    have "safe cf s (snd (archive_one cf cutoff h s))" by (rule act_rel_snd[OF sf_archive_one[OF assms(1) that(1)]])
    with Cons kept_session[where m = "archive_one cf cutoff h", OF Cons.prems this] show ?case
      by (cases "archive_one cf cutoff h s"; cases "fst (archive_one cf cutoff h s)") (auto simp: file_session_def safe_def)
  qed simp
  then show ?thesis using assms(2) by (simp add: archive_cold_files_def Let_def)
qed

lemma kept_backup:
  assumes "kept cf s"
  shows "kept cf (backup_approved_files cf s)"
proof -
  have "safe cf s (snd (backup_each cf hs s))" for hs and s :: "'a file_db_scheme"
  proof (induction hs arbitrary: s)
    case Nil
    show ?case by (simp add: sf.refl)
  next
    case (Cons h hs)
    have b: "safe cf s (snd (backup_file cf (bucket_key h) h s))" for s :: "'a file_db_scheme" by (rule act_rel_snd) (rule sf_ops)
    have r: "safe cf t (t\<lparr>library_files := map (\<lambda>f. if lf_sha3_hash f = Some h \<and> lf_status f = Approved
          then f\<lparr>lf_backed_up_at := Some (now t)\<rparr> else f) (library_files t)\<rparr>)" for t :: "'a file_db_scheme"
      by (rule safe_rows) (simp add: live_def)
    have e: "safe cf s (snd (storage_exists (bucket_key h) s))" by (rule act_rel_snd) (rule sf_ops)
    show ?case
    proof (cases "h = [] \<or> (\<forall>b t. storage_exists (bucket_key h) s \<noteq> (Inr b, t))")
      case True
      with Cons.IH e show ?thesis by (cases "storage_exists (bucket_key h) s"; cases "fst (storage_exists (bucket_key h) s)") (auto simp: bindA_def)
    next
      case False
      then obtain there t where t: "storage_exists (bucket_key h) s = (Inr there, t)" "h \<noteq> []" by auto
      obtain x u where u: "backup_file cf (bucket_key h) h t = (x, u)" by (cases "backup_file cf (bucket_key h) h t")
      from t e have st: "safe cf s t" by simp
      have "safe cf t u" using b[of t] u by simp
      note a = sf.trans[OF st Cons.IH] and tu = sf.trans[OF st this]
      note c = sf.trans[OF tu Cons.IH] and d = sf.trans[OF tu sf.trans[OF r[of u] Cons.IH]]
      from a c d t u show ?thesis by (cases x) (auto simp: bindA_def)
    qed
  qed
  then show ?thesis using assms by (simp add: backup_approved_files_def safe_def)
qed

section \<open>Content that is removed\<close>

text \<open>No operation on the objects fails for the next so many.\<close>

definition calm :: "nat \<Rightarrow> 's file_db_scheme \<Rightarrow> bool" where
  "calm n s \<longleftrightarrow> list_all (\<lambda>k. faults s (fault_ix s + k) = None) [0..<n]"

lemma calm_iff: "calm n s \<longleftrightarrow> (\<forall>k < n. faults s (fault_ix s + k) = None)"
  by (auto simp: calm_def list_all_iff)

lemma calm_Suc: "calm (Suc n) s \<longleftrightarrow> faults s (fault_ix s) = None \<and> calm n (s\<lparr>fault_ix := Suc (fault_ix s)\<rparr>)"
  unfolding calm_iff All_less_Suc2 by simp

lemma calm_more:
  assumes "core_db.more s' = core_db.more s"
  shows "calm n s' = calm n s"
  by (simp only: calm_def more_eq_files[OF assms])

text \<open>What a store without the content of a hash is.\<close>

definition without :: "files_config \<Rightarrow> string \<Rightarrow> 's file_db_scheme \<Rightarrow> 's file_db_scheme \<Rightarrow> bool" where
  "without cf h s t \<longleftrightarrow> library_files t = library_files s \<and> upload_sessions t = upload_sessions s
     \<and> objects t = (objects s)(bucket_key h @ ''.thumb.webp'' := None, bucket_key h @ ''.medium.webp'' := None,
         bucket_key h @ PREVIEW_SUFFIX := None, bucket_key h := None)
     \<and> archive t = (if files_archive_on cf then (archive s)(h := None) else archive s)"

lemma delete_variants_calm:
  assumes "calm 5 s"
  shows "\<exists>t. delete_content_variants cf h s = (Inr (), t) \<and> without cf h s t"
proof -
  have "calm (Suc (Suc (Suc (Suc (Suc 0))))) s" using assms by (simp add: eval_nat_numeral)
  then show ?thesis
    by (auto simp: calm_Suc delete_content_variants_def delete_variant_def storage_delete_def delete_archive_def storage_io_def bindA_def without_def)
qed

lemma kept_without:
  assumes ok: "sha3_ok cf" and k: "kept cf s" and h: "digest cf h" and n: "count_live_by_hash h s = 0" and t: "without cf h s t"
  shows "kept cf t"
proof -
  have g: "genuine cf t" using k t by (auto simp: kept_def genuine_def without_def split: if_splits)
  have "content_row_ok cf t f" if f: "f \<in> set (library_files s)" for f
  proof -
    from k f obtain h' where h': "digest cf h'" "lf_sha3_hash f = Some h'" "live f \<longrightarrow> stored cf s h'"
      by (auto simp: kept_def content_row_ok_def)
    have "stored cf t h'" if "live f"
    proof -
      have "h' \<noteq> h" using n f h' that by (auto simp: count_live_by_hash_def filter_empty_conv)
      moreover have "bucket_key h' \<noteq> bucket_key h @ w" if "w \<noteq> []" for w
        using other_key_variant[OF ok h that] h'(1) by (auto simp: other_key_def)
      ultimately show ?thesis
        using h' that t bucket_key_inj[OF ok h] by (auto simp: stored_def archive_exists_def PREVIEW_SUFFIX_def without_def)
    qed
    with h' show ?thesis by (auto simp: content_row_ok_def)
  qed
  with g k t show ?thesis by (simp add: kept_def without_def)
qed

lemma drop_content_calm:
  assumes ok: "sha3_ok cf" and k: "kept cf s" and c: "calm 5 s" and h: "lf_sha3_hash f = Some h" "digest cf h"
  shows "\<exists>t. drop_content cf f s = (Inr (), t) \<and> kept cf t"
proof (cases "h = []")
  case True
  with h k show ?thesis by (simp add: drop_content_def content_of_def)
next
  case False
  let ?s = "sync_ref_count h s"
  have ks: "kept cf ?s" using safe_sync k by (auto simp: safe_def)
  have "calm 5 ?s" using c by (simp add: calm_def sync_ref_count_def Let_def)
  then obtain t where "delete_content_variants cf h ?s = (Inr (), t)" "without cf h ?s t"
    using delete_variants_calm by blast
  with kept_without[OF ok ks h(2)] ks h(1) False show ?thesis
    by (cases "count_live_by_hash h ?s = 0") (simp_all add: drop_content_def content_of_def)
qed

lemma bindA_Inr: "m s = (Inr a, t) \<Longrightarrow> bindA m f s = f a t"
  by (simp add: bindA_def)

lemma bindA_Inl: "m s = (Inl e, t) \<Longrightarrow> bindA m f s = (Inl e, t)"
  by (simp add: bindA_def)

lemma bindA_assoc: "bindA (bindA m f) g = bindA m (\<lambda>a. bindA (f a) g)"
  by (rule ext) (simp add: bindA_def split: prod.splits sum.splits)

lemma kept_row:
  assumes "kept cf s" and "get_file_row i s = Some f"
  shows "f \<in> set (library_files s) \<and> (\<exists>h. digest cf h \<and> lf_sha3_hash f = Some h \<and> (live f \<longrightarrow> stored cf s h))"
proof -
  from assms(2) have "f \<in> set (library_files s)" by (auto simp: get_file_row_def find_Some_iff)
  with assms(1) show ?thesis by (auto simp: kept_def content_row_ok_def)
qed

lemma kept_reject:
  assumes ok: "sha3_ok cf" and k: "kept cf s" and c: "calm 5 s"
  shows "kept cf (snd (file_session reg (review_file cf (Inr ()) i Rejected co adm) s))"
proof -
  let ?m = "review_file cf (Inr ()) i Rejected co adm"
  have undo: "undo s s = s" by (simp add: undo_def)
  show ?thesis
  proof (cases "\<exists>f. adm \<and> get_file_row i s = Some f \<and> lf_status f = Pending")
    case True
    then obtain f where f: "adm" "get_file_row i s = Some f" "lf_status f = Pending" by blast
    let ?s = "update_file i (set_reviewed Rejected co) s"
    have "kept cf ?s" using safe_decide[OF f(2,3)] k by (auto simp: safe_def)
    moreover have "calm 5 ?s" using c by (simp add: calm_def update_file_def)
    ultimately obtain t where "drop_content cf f ?s = (Inr (), t)" "kept cf t"
      using drop_content_calm[OF ok] kept_row[OF k f(2)] by blast
    with f have "?m s = (Inr (), t)" by (simp add: review_file_def bind_get_or_raise bindA_Inr)
    with \<open>kept cf t\<close> show ?thesis by (simp add: file_session_def)
  next
    case False
    then have "\<exists>e. ?m s = (Inl e, s)" by (auto simp: review_file_def bind_get_or_raise split: option.splits)
    with k undo show ?thesis by (auto simp: file_session_def)
  qed
qed

interpretation em: kept_relation "\<lambda>s s' :: 's file_db_scheme. core_db.more s' = core_db.more s"
  by unfold_locales auto

lemma em_enqueues:
  "act_rel (\<lambda>s s'. core_db.more s' = core_db.more s) (enqueue_change cf i)"
  "act_rel (\<lambda>s s'. core_db.more s' = core_db.more s) (enqueue_changes cf fs)"
proof -
  show c: "act_rel (\<lambda>s s'. core_db.more s' = core_db.more s) (enqueue_change cf i)" for i
    by (rule act_relI)
      (auto simp: enqueue_change_def writeA_def enqueue_file_change_def dest!: enqueue_frame split: if_splits sum.splits)
  show "act_rel (\<lambda>s s'. core_db.more s' = core_db.more s) (enqueue_changes cf fs)"
  proof (induction fs)
    case Nil
    show ?case by (simp only: enqueue_changes.simps em.read)
  next
    case (Cons f fs)
    show ?case unfolding enqueue_changes.simps by (rule em.seq[OF c Cons])
  qed
qed

lemma kept_delete:
  assumes ok: "sha3_ok cf" and k: "kept cf s" and c: "calm 5 s"
  shows "kept cf (snd (file_session reg (delete_file cf i u adm) s))"
proof -
  let ?m = "delete_file cf i u adm"
  have undo: "undo s s = s" by (simp add: undo_def)
  show ?thesis
  proof (cases "\<exists>f. get_file_row i s = Some f \<and> (adm \<or> lf_uploader_id f = u) \<and> lf_status f \<noteq> Deleted")
    case True
    then obtain f where f: "get_file_row i s = Some f" "adm \<or> lf_uploader_id f = u" "lf_status f \<noteq> Deleted" by blast
    let ?s = "update_file i (\<lambda>g. g\<lparr>lf_status := Deleted\<rparr>) s"
    let ?q = "seqA (enqueue_change cf i) (bindA (getA (other_versions f)) (enqueue_changes cf))"
    have "safe cf s ?s" by (rule safe_update) (simp add: live_def)
    with k have ks: "kept cf ?s" by (simp add: safe_def)
    obtain r t where t: "?q ?s = (r, t)" by (cases "?q ?s")
    have "act_rel (\<lambda>s s'. core_db.more s' = core_db.more s) ?q" by (intro em.rules em_enqueues)
    from act_relD[OF this t] have more: "core_db.more t = core_db.more ?s" .
    have "act_rel (safe cf) ?q" by (intro sf.rules sf_enqueues)
    from act_relD[OF this t] have "safe cf ?s t" .
    with ks have kt: "kept cf t" by (simp add: safe_def)
    have "calm 5 ?s" using c by (simp add: calm_def update_file_def)
    then have "calm 5 t" using calm_more[OF more] by simp
    then obtain v where v: "drop_content cf f t = (Inr (), v)" "kept cf v"
      using drop_content_calm[OF ok kt] kept_row[OF k f(1)] by blast
    have "?m s = bindA ?q (\<lambda>_. drop_content cf f) ?s" using f by (simp add: delete_file_def bind_get_or_raise bindA_assoc seqA_def)
    then have m: "?m s = (case r of Inl e \<Rightarrow> (Inl e, t) | Inr _ \<Rightarrow> (Inr (), v))"
      using v t by (simp add: bindA_Inr bindA_Inl split: sum.splits)
    have "kept cf (undo s t)"
    proof -
      have "safe cf s t" using sf.trans[OF \<open>safe cf s ?s\<close> \<open>safe cf ?s t\<close>] .
      then have "kept cf (snd (file_session reg (\<lambda>_. (Inl ValueError, t) :: (exc + unit) \<times> 'a file_db_scheme) s))"
        by (intro kept_session k) simp
      then show ?thesis by (simp add: file_session_def)
    qed
    with m v show ?thesis by (cases r) (auto simp: file_session_def)
  next
    case False
    then have "\<exists>r. ?m s = (r, s)" by (auto simp: delete_file_def bind_get_or_raise split: option.splits)
    with k undo show ?thesis by (auto simp: file_session_def split: sum.splits)
  qed
qed

section \<open>Contents over time\<close>

text \<open>
  Requests that remove a content: the store does not fail while they do, and the audit record of a rejection is
  accepted.  All other requests and jobs may fail anywhere.
\<close>

fun careful :: "file_request \<Rightarrow> 's file_db_scheme \<Rightarrow> bool" where
  "careful (Review audit i target c adm) s \<longleftrightarrow> target = Rejected \<longrightarrow> audit = Inr () \<and> calm 5 s"
| "careful (Delete i u adm) s \<longleftrightarrow> calm 5 s"
| "careful _ s \<longleftrightarrow> True"

fun careful_run :: "(string \<times> errcode) list \<Rightarrow> files_config \<Rightarrow> file_request list \<Rightarrow> 's file_db_scheme \<Rightarrow> bool" where
  "careful_run reg cf [] s \<longleftrightarrow> True"
| "careful_run reg cf (r # rs) s \<longleftrightarrow> careful r s \<and> careful_run reg cf rs (handle reg cf r s)"

lemma review_invalid: "target \<notin> {Approved, Rejected} \<Longrightarrow> \<exists>e. review_file cf audit i target c adm s = (Inl e, s)"
  by (auto simp: review_file_def)

lemma kept_act: "act_rel (safe cf) m \<Longrightarrow> kept cf s \<Longrightarrow> kept cf (snd (file_session reg m s))"
  by (rule kept_session) (auto dest: act_rel_snd)

lemma kept_review:
  assumes "sha3_ok cf" and "kept cf s" and "target = Rejected \<longrightarrow> audit = Inr () \<and> calm 5 s"
  shows "kept cf (snd (file_session reg (review_file cf audit i target c adm) s))"
proof (cases "target \<in> {Approved, Rejected}")
  case True
  then show ?thesis
    using assms kept_reject[OF assms(1,2)] kept_act[OF sf_approve assms(2)] by auto
next
  case False
  from review_invalid[OF this, of cf audit i c adm s] assms(2) show ?thesis by (auto simp: file_session_def undo_def)
qed

lemma kept_handle:
  assumes "sha3_ok cf" and k: "kept cf s" and "careful r s"
  shows "kept cf (handle reg cf r s)"
proof -
  have put: "kept cf (s\<lparr>objects := (objects s)(''up/'' @ u \<mapsto> c)\<rparr>)" for u c
    using safe_tables[OF holds_put[OF assms(1)], of "''up/'' @ u" c s] other_key_upload[OF assms(1)] k by (simp add: safe_def)
  have other: "kept cf (s\<lparr>projects := ps, project_members := ms\<rparr>)" "kept cf (s\<lparr>now := n\<rparr>)" for ps ms n
    using k safe_tables[OF holds_same, of "s\<lparr>projects := ps, project_members := ms\<rparr>" s cf]
      safe_tables[OF holds_same, of "s\<lparr>now := n\<rparr>" s cf] by (simp_all add: safe_def)
  show ?thesis
    using assms put other kept_act[OF sf_create_file[OF assms(1)] k] kept_act[OF sf_upload_init k] kept_act[OF sf_confirm[OF assms(1)] k] kept_act[OF sf_notify[OF assms(1)] k]
      kept_act[OF sf_serving(1) k] kept_act[OF sf_serving(2) k] kept_act[OF sf_serving(3) k] kept_review kept_delete kept_cleanup kept_archive kept_backup
    by (cases r) simp_all
qed

lemma kept_run: "sha3_ok cf \<Longrightarrow> kept cf s \<Longrightarrow> careful_run reg cf rs s \<Longrightarrow> kept cf (run reg cf rs s)"
  by (induction rs arbitrary: s) (auto intro: kept_handle)

lemma read_archive_Inr:
  "files_archive_on cf \<Longrightarrow> faults s (fault_ix s) = None \<Longrightarrow> archive s h = Some c \<Longrightarrow>
     read_archive cf h s = (Inr c, s\<lparr>fault_ix := Suc (fault_ix s)\<rparr>)"
  by (simp add: read_archive_def storage_io_def bindA_def optR_def)

lemma serve_attachment:
  assumes k: "kept cf s" and f: "get_file_row i s = Some f" "lf_status f = Approved" and v: "visible s viewer f" and c: "calm 2 s"
    and ne: "\<And>c. sha3_256 cf c \<noteq> []"
  shows "\<exists>sv t. serve_content cf i Attachment viewer s = (Inr sv, t) \<and> lf_sha3_hash f = Some (sha3_256 cf (sv_content sv))"
proof -
  from kept_row[OF k f(1)] f(2) obtain h where h: "digest cf h" "lf_sha3_hash f = Some h" "stored cf s h"
    by (auto simp: live_def)
  then have co: "content_of f = Some h" using ne by (auto simp: content_of_def digest_def)
  have io: "faults s (fault_ix s) = None" "faults s (Suc (fault_ix s)) = None"
    using c by (auto simp: calm_iff dest: spec[of _ 0] spec[of _ 1])
  let ?t = "s\<lparr>fault_ix := Suc (fault_ix s)\<rparr>"
  have ex: "storage_exists (bucket_key h) s = (Inr (objects s (bucket_key h) \<noteq> None), ?t)" using io by (simp add: storage_exists_Inr)
  have req: "require_visible viewer f s = (Inr (), s)" using v by (simp add: require_visible_def)
  have gen: "sha3_256 cf c = h" if "objects s (bucket_key h) = Some c \<or> archive s h = Some c" for c
    using k h(1) that by (auto simp: kept_def genuine_def)
  show ?thesis
  proof (cases "objects s (bucket_key h)")
    case (Some x)
    then have "storage_read (bucket_key h) ?t = (Inr x, ?t\<lparr>fault_ix := Suc (fault_ix ?t)\<rparr>)" using io by (simp add: storage_read_Inr)
    with Some f co ex req gen[of x] h show ?thesis
      by (simp add: serve_content_def bind_get_or_raise require_approved_def bindA_Inr on_error_def serve_def Let_def)
  next
    case None
    with h(3) obtain x where x: "files_archive_on cf" "archive s h = Some x" by (auto simp: stored_def archive_exists_def)
    then have r: "read_archive cf h ?t = (Inr x, ?t\<lparr>fault_ix := Suc (fault_ix ?t)\<rparr>)" using io by (intro read_archive_Inr) simp_all
    have e: "storage_exists (bucket_key h) s = (Inr False, ?t)" using ex None by simp
    have a: "archive_exists cf h ?t" using x by (simp add: archive_exists_def)
    have "serve_content cf i Attachment viewer s =
        bindA (on_error raise_storage_as_file (read_archive cf h)) (\<lambda>c. retA (serve f Attachment False c)) ?t"
      using a by (simp add: serve_content_def bind_get_or_raise f require_approved_def bindA_Inr[where m = "require_visible viewer f", OF req]
          bindA_Inr[where m = "storage_exists (bucket_key h)", OF e] co Let_def)
    then have "serve_content cf i Attachment viewer s = (Inr (serve f Attachment False x), ?t\<lparr>fault_ix := Suc (fault_ix ?t)\<rparr>)"
      by (simp only: on_error_def bindA_def r prod.case sum.case retA_def)
    moreover have "sha3_256 cf x = h" using gen x(2) by blast
    ultimately show ?thesis using h(2) by (simp add: serve_def)
  qed
qed

text \<open>C23: The library keeps what it accepted, under two conditions on rejections and deletions: while one of them removes a content
  the store does not fail (its next five operations work), and the audit service does not refuse the record of a rejection
  (where it does, a pending file loses its content, as C24 shows).  Otherwise, from well-formed states, such as an empty one, with the
  store failing anywhere else, every other audit refused, clients putting anything under the keys they were given, and the jobs that
  clean up, archive and back up running at any time: the content of every file that is pending or approved is stored
  under the name of its hash or archived, and an approved file a viewer may see is served with exactly a content of its
  hash as soon as two operations of the store succeed.\<close>

theorem library_keeps_contents:
  assumes "sha3_ok cf" and "kept cf s" and "careful_run reg cf requests s" and "t = run reg cf requests s"
    and "get_file_row i t = Some f" and "lf_status f \<in> {Pending, Approved}"
  shows "(\<exists>h. lf_sha3_hash f = Some h \<and> stored cf t h)
    \<and> (lf_status f = Approved \<and> visible t viewer f \<and> calm 2 t \<longrightarrow>
         (\<exists>sv t'. serve_content cf i Attachment viewer t = (Inr sv, t') \<and> lf_sha3_hash f = Some (sha3_256 cf (sv_content sv))))"
proof -
  have k: "kept cf t" using kept_run[OF assms(1-3)] assms(4) by simp
  have "sha3_256 cf c \<noteq> []" for c
  proof -
    have "length (sha3_256 cf c) = 64" using assms(1) by (simp add: sha3_ok_def)
    then show ?thesis by auto
  qed
  then show ?thesis using kept_row[OF k assms(5)] serve_attachment[OF k assms(5)] assms(6) by (auto simp: live_def)
qed

text \<open>C24: A refused audit loses the content.  When the audit service refuses the record of a rejection, the request fails and the
  database forgets the rejection: the file is pending as before.  But its content, if no other live file has it, is
  already gone from the store and the archive, so the file can never be approved and read.\<close>

theorem refused_audit_loses_content:
  assumes "get_file_row i s = Some f" and "lf_status f = Pending" and "content_of f = Some h" and "calm 5 s"
    and "\<forall>g \<in> set (library_files s). live g \<and> lf_sha3_hash g = Some h \<longrightarrow> lf_id g = i"
  shows "\<exists>e s'. file_session reg (review_file cf (Inl refusal) i Rejected c True) s = (Inl e, s')
    \<and> get_file_row i s' = Some f \<and> \<not> stored cf s' h"
proof -
  let ?s = "sync_ref_count h (update_file i (set_reviewed Rejected c) s)"
  have "\<forall>g \<in> set (library_files ?s). \<not> (lf_sha3_hash g = Some h \<and> live g)"
    using assms(5) by (auto simp: sync_ref_count_def Let_def update_file_def set_reviewed_def live_def split: if_splits)
  then have n: "count_live_by_hash h ?s = 0" by (auto simp: count_live_by_hash_def filter_empty_conv)
  have "calm 5 ?s" using assms(4) by (simp add: calm_def sync_ref_count_def update_file_def Let_def)
  then obtain t where t: "delete_content_variants cf h ?s = (Inr (), t)" "without cf h ?s t"
    using delete_variants_calm by blast
  then have "drop_content cf f (update_file i (set_reviewed Rejected c) s) = (Inr (), t)"
    using n assms(3) by (simp add: drop_content_def)
  then have "review_file cf (Inl refusal) i Rejected c True s = (Inl refusal, t)"
    using assms(1,2) by (simp add: review_file_def bind_get_or_raise bindA_Inr)
  then have "file_session reg (review_file cf (Inl refusal) i Rejected c True) s = (Inl (session_exc reg refusal), undo s t)"
    by (simp add: file_session_def)
  moreover have "get_file_row i (undo s t) = Some f" using assms(1) by (simp add: get_file_row_def undo_def)
  moreover have "\<not> stored cf (undo s t) h" using t(2) by (simp add: stored_def archive_exists_def undo_def without_def)
  ultimately show ?thesis by blast
qed

lemma files_cf_sha3: "sha3_ok files_cf"
  by (simp add: sha3_ok_def files_cf_def)

lemma files0_kept: "kept files_cf files0"
  using files_cf_sha3 length_bucket_key[OF files_cf_sha3]
  by (auto simp: kept_def genuine_def content_row_ok_def stored_def files0_def bucket_key_inj split: if_splits)

lemma library_keeps_contents_witness:
  "(\<exists>h. lf_sha3_hash file0 = Some h \<and> stored files_cf (run [] files_cf [Tick 5, Put_object ''x'' ''y''] files0) h)"
proof -
  have c: "careful_run [] files_cf [Tick 5, Put_object ''x'' ''y''] files0" by simp
  have f: "get_file_row 1 (run [] files_cf [Tick 5, Put_object ''x'' ''y''] files0) = Some file0"
    by (simp add: get_file_row_def files0_def)
  from library_keeps_contents[OF files_cf_sha3 files0_kept c refl f] show ?thesis by simp
qed

lemma refused_audit_loses_content_witness:
  "\<exists>e s'. file_session [] (review_file files_cf (Inl OtherException) 1 Rejected None True) files0 = (Inl e, s')
    \<and> get_file_row 1 s' = Some file0 \<and> \<not> stored files_cf s' (sha3_256 files_cf ''one'')"
proof -
  have f: "get_file_row 1 files0 = Some file0" "calm 5 files0" by (simp_all add: get_file_row_def files0_def calm_def list_all_iff)
  have h: "content_of file0 = Some (sha3_256 files_cf ''one'')" by (simp add: content_of_def files_cf_def)
  show ?thesis by (rule refused_audit_loses_content[OF f(1) _ h f(2)]) (simp_all add: files0_def)
qed

end
