(* ===== verification/Plugins.thy ===== *)
theory Plugins
  imports Prelude "HOL-Library.AList" "HOL-Library.List_Lexorder" "HOL-Library.Char_ord"
begin

text \<open>
  The manifests of modules and plugins (\<open>core/plugins/manifest.py\<close>), the host that validates and orders them
  (\<open>core/plugins/host.py\<close>) and the registry derived from them (\<open>app/modules/spec.py\<close>).  Parsing TOML, loading
  entry points and finding packages are inputs.
\<close>

section \<open>Manifests\<close>

text \<open>What \<open>tomllib\<close> makes of a file, as far as a manifest may hold it; other values are \<open>T_Other\<close>.\<close>

datatype toml = T_Str string | T_Bool bool | T_List "toml list" | T_Other

record manifest =
  mf_name :: string
  mf_module :: "string option"
  mf_errors :: "string list"
  mf_models :: "string list"
  mf_tasks :: "string list"
  mf_provides :: "string list"
  mf_requires :: "string list"
  mf_aggregate :: bool

datatype manifest_error = Not_Toml | Unknown_Fields "string list" | No_Name | Bad_Aggregate | Bad_Field string
  | No_Directory | No_Manifests

definition KNOWN_FIELDS :: "string list" where
  "KNOWN_FIELDS = [''name'', ''module'', ''errors'', ''models'', ''tasks'', ''provides'', ''requires'', ''aggregate'']"

fun is_str :: "toml \<Rightarrow> bool" where
  "is_str (T_Str s) = True"
| "is_str _ = False"

fun str_of :: "toml \<Rightarrow> string" where
  "str_of (T_Str s) = s"
| "str_of _ = []"

definition str_tuple :: "(string \<times> toml) list \<Rightarrow> string \<Rightarrow> manifest_error + string list" where
  "str_tuple data key =
     (case map_of data key of
        None \<Rightarrow> Inr []
      | Some (T_List vs) \<Rightarrow> if list_all is_str vs then Inr (map str_of vs) else Inl (Bad_Field key)
      | Some _ \<Rightarrow> Inl (Bad_Field key))"

definition opt_str :: "(string \<times> toml) list \<Rightarrow> string \<Rightarrow> manifest_error + string option" where
  "opt_str data key =
     (case map_of data key of
        None \<Rightarrow> Inr None
      | Some (T_Str v) \<Rightarrow> Inr (Some v)
      | Some _ \<Rightarrow> Inl (Bad_Field key))"

definition load_fields :: "(string \<times> toml) list \<Rightarrow> string \<Rightarrow> bool \<Rightarrow> manifest_error + manifest" where
  "load_fields raw name aggregate =
     bindR (opt_str raw ''module'') (\<lambda>mod_path.
     bindR (str_tuple raw ''errors'') (\<lambda>errs.
     bindR (str_tuple raw ''models'') (\<lambda>mods.
     bindR (str_tuple raw ''tasks'') (\<lambda>tsks.
     bindR (str_tuple raw ''provides'') (\<lambda>prov.
     bindR (str_tuple raw ''requires'') (\<lambda>reqs.
     Inr \<lparr>mf_name = name, mf_module = mod_path, mf_errors = errs, mf_models = mods, mf_tasks = tsks,
          mf_provides = prov, mf_requires = reqs, mf_aggregate = aggregate\<rparr>))))))"

definition load_manifest :: "(string \<times> toml) list option \<Rightarrow> manifest_error + manifest" where
  "load_manifest parsed =
     (case parsed of
        None \<Rightarrow> Inl Not_Toml
      | Some raw \<Rightarrow>
          let unknown = filter (\<lambda>k. k \<notin> set KNOWN_FIELDS) (map fst raw)
          in if unknown \<noteq> [] then Inl (Unknown_Fields (sort (remdups unknown)))
          else (case map_of raw ''name'' of
            Some (T_Str name) \<Rightarrow>
              if name = [] then Inl No_Name
              else (case map_of raw ''aggregate'' of
                None \<Rightarrow> load_fields raw name True
              | Some (T_Bool b) \<Rightarrow> load_fields raw name b
              | _ \<Rightarrow> Inl Bad_Aggregate)
          | _ \<Rightarrow> Inl No_Name))"

text \<open>A directory: its subdirectories, each with the file of its manifest if it has one.\<close>

type_synonym manifest_dir = "(string \<times> (string \<times> toml) list option option) list"

fun load_each :: "(string \<times> (string \<times> toml) list option) list \<Rightarrow> manifest_error + (string \<times> manifest) list" where
  "load_each [] = Inr []"
| "load_each ((child, parsed) # rest) =
     bindR (load_manifest parsed) (\<lambda>m. bindR (load_each rest) (\<lambda>ms. Inr ((child, m) # ms)))"

definition load_manifests :: "manifest_dir option \<Rightarrow> manifest_error + (string \<times> manifest) list" where
  "load_manifests directory =
     (case directory of
        None \<Rightarrow> Inl No_Directory
      | Some children \<Rightarrow>
          bindR (load_each (List.map_filter (\<lambda>(child, f). map_option (Pair child) f) (sort_key fst children))) (\<lambda>ms.
          if ms = [] then Inl No_Manifests else Inr ms))"

section \<open>The host of the plugins\<close>

datatype plugin_error =
    Duplicate_Names "string list"
  | Ambiguous "(string \<times> string list) list"
  | Missing "string list" "string list"
  | Cycle "string list"
  | Load_Failed string
  | Not_Callable string
  | Not_A_Manifest string
  | No_Module string
  | Name_Mismatch string string
  | Unresolvable string string
  | Bad_Manifest manifest_error
  | Wrong_Directory string string
  | Host_Namespace string string

text \<open>\<open>_providers_by_capability\<close>: a dict of lists in the order of the manifests.\<close>

definition add_provider :: "(string \<times> string list) list \<Rightarrow> string \<times> string \<Rightarrow> (string \<times> string list) list" where
  "add_provider ps p = AList.map_default (fst p) [snd p] (\<lambda>ns. ns @ [snd p]) ps"

definition providers_by_capability :: "manifest list \<Rightarrow> (string \<times> string list) list" where
  "providers_by_capability ms =
     foldl add_provider []
       (concat (map (\<lambda>m. map (\<lambda>cap. (cap, mf_name m)) (mf_provides m)) ms))"

definition check_unique_capabilities :: "(string \<times> string list) list \<Rightarrow> plugin_error + unit" where
  "check_unique_capabilities providers =
     (let ambiguous = filter (\<lambda>(cap, names). 1 < length names) providers
      in if ambiguous \<noteq> [] then Inl (Ambiguous ambiguous) else Inr ())"

definition check_requirements :: "manifest list \<Rightarrow> (string \<times> string list) list \<Rightarrow> plugin_error + unit" where
  "check_requirements ms providers =
     (let missing = filter (\<lambda>cap. map_of providers cap = None) (concat (map mf_requires ms))
      in if missing \<noteq> [] then Inl (Missing (sort (remdups missing)) (sort (map fst providers))) else Inr ())"

definition deps :: "(string \<times> string list) list \<Rightarrow> manifest \<Rightarrow> string set" where
  "deps providers m = (\<Union>cap \<in> set (mf_requires m). case map_of providers cap of None \<Rightarrow> {} | Some names \<Rightarrow> set names)"

text \<open>One round: in the order of the list, whatever has its dependencies done.\<close>

fun install_pass ::
    "(string \<times> string list) list \<Rightarrow> manifest list \<Rightarrow> manifest list \<Rightarrow> manifest list \<times> manifest list" where
  "install_pass providers [] ready = (ready, [])"
| "install_pass providers (m # pending) ready =
     (if deps providers m \<subseteq> mf_name ` set ready then install_pass providers pending (ready @ [m])
      else let (d, remaining) = install_pass providers pending ready in (d, m # remaining))"

lemma install_pass_length: "install_pass ps pending d = (d', r) \<Longrightarrow> length r \<le> length pending"
  by (induction pending arbitrary: d d' r) (auto split: if_splits prod.splits intro: le_SucI)

function install_loop ::
    "(string \<times> string list) list \<Rightarrow> manifest list \<Rightarrow> manifest list \<Rightarrow> plugin_error + manifest list" where
  "install_loop providers pending ready =
     (if pending = [] then Inr ready
      else
        let (d, remaining) = install_pass providers pending ready
        in if length remaining = length pending then Inl (Cycle (sort (map mf_name remaining)))
           else install_loop providers remaining d)"
  by auto
termination
  by (relation "measure (\<lambda>(_, pending, _). length pending)") (auto dest!: install_pass_length[OF sym] simp: le_less)

declare install_loop.simps [simp del]

definition install_order :: "manifest list \<Rightarrow> plugin_error + manifest list" where
  "install_order ms = install_loop (providers_by_capability ms) ms []"

definition validate :: "manifest list \<Rightarrow> plugin_error + manifest list" where
  "validate ms =
     (let names = map mf_name ms;
          duplicates = sort (remdups (filter (\<lambda>n. 1 < count_list names n) names));
          providers = providers_by_capability ms
      in if duplicates \<noteq> [] then Inl (Duplicate_Names duplicates)
         else bindR (check_unique_capabilities providers) (\<lambda>_.
              bindR (check_requirements ms providers) (\<lambda>_. install_order ms)))"

section \<open>Plugins of other distributions\<close>

text \<open>What loading an entry point gives, and what the interpreter finds under the name of a package.\<close>

datatype entry_result = Load_Raises | Loads_Value | Factory_Raises | Returns_Other | Returns manifest

definition load_one :: "(string \<Rightarrow> bool option) \<Rightarrow> string \<times> entry_result \<Rightarrow> plugin_error + manifest" where
  "load_one find_spec ep =
     (let (name, r) = ep
      in case r of
           Load_Raises \<Rightarrow> Inl (Load_Failed name)
         | Loads_Value \<Rightarrow> Inl (Not_Callable name)
         | Factory_Raises \<Rightarrow> Inl (Load_Failed name)
         | Returns_Other \<Rightarrow> Inl (Not_A_Manifest name)
         | Returns m \<Rightarrow>
             (case mf_module m of
                None \<Rightarrow> Inl (No_Module name)
              | Some path \<Rightarrow>
                  if mf_name m \<noteq> name then Inl (Name_Mismatch name (mf_name m))
                  else if find_spec path \<noteq> Some True then Inl (Unresolvable name path)
                  else Inr m))"

fun map_res :: "('a \<Rightarrow> 'e + 'b) \<Rightarrow> 'a list \<Rightarrow> 'e + 'b list" where
  "map_res f [] = Inr []"
| "map_res f (x # xs) = bindR (f x) (\<lambda>y. bindR (map_res f xs) (\<lambda>ys. Inr (y # ys)))"

definition discover_entry_points ::
    "(string \<Rightarrow> bool option) \<Rightarrow> (string \<times> entry_result) list \<Rightarrow> plugin_error + manifest list" where
  "discover_entry_points find_spec eps = map_res (load_one find_spec) (sort_key fst eps)"

section \<open>The registry of modules\<close>

record module_spec =
  ms_name :: string
  ms_module_path :: string
  ms_errors :: "string list"
  ms_models :: "string list"
  ms_tasks :: "string list"
  ms_aggregate :: bool

definition HOST_PACKAGES :: "string list" where "HOST_PACKAGES = [''app'', ''auth'', ''boot'', ''core'']"

definition first_part :: "string \<Rightarrow> string" where "first_part path = takeWhile (\<lambda>c. c \<noteq> CHR ''.'') path"

definition top_errors_module :: "module_spec \<Rightarrow> string" where
  "top_errors_module s = ms_module_path s @ ''.errors''"

text \<open>\<open>source\<close> maps the name of a built-in manifest to its directory.\<close>

definition to_spec :: "(string \<times> manifest) list \<Rightarrow> manifest \<Rightarrow> plugin_error + module_spec" where
  "to_spec builtin m =
     (let spec = \<lparr>ms_name = mf_name m,
                  ms_module_path = (if mf_module m \<in> {None, Some []} then ''app.modules.'' @ mf_name m else the (mf_module m)),
                  ms_errors = mf_errors m, ms_models = mf_models m, ms_tasks = mf_tasks m, ms_aggregate = mf_aggregate m\<rparr>
      in case find (\<lambda>(dir, b). mf_name b = mf_name m) builtin of
           Some (dir, _) \<Rightarrow> if mf_name m \<noteq> dir then Inl (Wrong_Directory (mf_name m) dir) else Inr spec
         | None \<Rightarrow>
             (case mf_module m of
                None \<Rightarrow> Inl (No_Module (mf_name m))
              | Some path \<Rightarrow>
                  if first_part path \<in> set HOST_PACKAGES then Inl (Host_Namespace (mf_name m) path) else Inr spec))"

definition load_specs ::
    "manifest_dir option \<Rightarrow> (string \<Rightarrow> bool option) \<Rightarrow> (string \<times> entry_result) list \<Rightarrow> plugin_error + module_spec list" where
  "load_specs directory find_spec eps =
     (case load_manifests directory of
        Inl e \<Rightarrow> Inl (Bad_Manifest e)
      | Inr builtin \<Rightarrow>
          bindR (discover_entry_points find_spec eps) (\<lambda>external.
          bindR (validate (map snd builtin @ external)) (\<lambda>ordered.
          map_res (to_spec builtin) ordered)))"

definition MODULES :: "module_spec list \<Rightarrow> string list" where
  "MODULES specs = map ms_name (filter ms_aggregate specs)"

definition ERROR_MODULES :: "module_spec list \<Rightarrow> string list" where
  "ERROR_MODULES specs =
     map top_errors_module (filter (\<lambda>s. ms_aggregate s \<and> top_errors_module s \<in> set (ms_errors s)) specs)
     @ concat (map (\<lambda>s. filter (\<lambda>e. e \<noteq> top_errors_module s) (ms_errors s)) (filter ms_aggregate specs))"

definition APP_MODEL_MODULES :: "module_spec list \<Rightarrow> string list" where
  "APP_MODEL_MODULES specs = concat (map ms_models specs)"

definition APP_TASK_MODULES :: "module_spec list \<Rightarrow> string list" where
  "APP_TASK_MODULES specs = concat (map ms_tasks specs)"

section \<open>The dictionary of providers\<close>

definition provisions :: "manifest list \<Rightarrow> (string \<times> string) list" where
  "provisions ms = concat (map (\<lambda>m. map (\<lambda>cap. (cap, mf_name m)) (mf_provides m)) ms)"

definition names_of :: "(string \<times> string) list \<Rightarrow> string \<Rightarrow> string list" where
  "names_of ps cap = map snd (filter (\<lambda>p. fst p = cap) ps)"

lemma providers_fold:
  assumes "distinct (map fst acc)" and "\<forall>(c, ns) \<in> set acc. ns \<noteq> []"
  shows "distinct (map fst (foldl add_provider acc ps)) \<and> (\<forall>(c, ns) \<in> set (foldl add_provider acc ps). ns \<noteq> [])
    \<and> map_of (foldl add_provider acc ps) cap = (case map_of acc cap of None \<Rightarrow> if names_of ps cap = [] then None else Some (names_of ps cap)
        | Some ns \<Rightarrow> Some (ns @ names_of ps cap))"
  using assms
proof (induction ps arbitrary: acc)
  case Nil
  then show ?case by (simp add: names_of_def split: option.splits)
next
  case (Cons p ps)
  obtain c n where p: "p = (c, n)" by (cases p)
  let ?acc = "add_provider acc (c, n)"
  have d: "distinct (map fst ?acc)" using Cons.prems by (simp add: add_provider_def distinct_map_default)
  have m: "map_of ?acc cap = (if cap = c then Some (case map_of acc c of None \<Rightarrow> [n] | Some ns \<Rightarrow> ns @ [n]) else map_of acc cap)"
    for cap by (simp add: add_provider_def AList.map_of_map_default split: option.splits)
  have ne: "\<forall>(c', ns) \<in> set ?acc. ns \<noteq> []"
  proof (clarify)
    fix c' assume "(c', []) \<in> set ?acc"
    with d have "map_of ?acc c' = Some []" by simp
    with m[of c'] Cons.prems show False by (auto split: if_splits option.splits dest: map_of_SomeD)
  qed
  from Cons.IH[OF d ne] show ?case unfolding p by (auto simp: m names_of_def split: option.splits if_splits)
qed

lemma providers_exact:
  "distinct (map fst (providers_by_capability ms))"
  "map_of (providers_by_capability ms) cap = (if names_of (provisions ms) cap = [] then None else Some (names_of (provisions ms) cap))"
  using providers_fold[of "[]" "provisions ms" cap]
  unfolding providers_by_capability_def provisions_def[symmetric] by auto

lemma provisions_caps: "map fst (provisions ms) = concat (map mf_provides ms)"
  by (simp add: provisions_def map_concat comp_def)

lemma names_of_caps: "length (names_of ps cap) = count_list (map fst ps) cap"
  by (induction ps) (auto simp: names_of_def)

lemma provisions_mem: "n \<in> set (names_of (provisions ms) cap) \<longleftrightarrow> (\<exists>m \<in> set ms. cap \<in> set (mf_provides m) \<and> mf_name m = n)"
  by (force simp: names_of_def provisions_def)

lemma count_le_distinct: "distinct xs \<longleftrightarrow> (\<forall>x. count_list xs x \<le> 1)"
proof (induction xs)
  case (Cons a xs)
  have "a \<notin> set xs \<longleftrightarrow> count_list xs a = 0" by (metis count_list_0_iff)
  with Cons show ?case by (auto split: if_splits simp: le_Suc_eq)
qed simp

lemma unique_exact: "check_unique_capabilities (providers_by_capability ms) = Inr () \<longleftrightarrow> distinct (concat (map mf_provides ms))"
proof -
  let ?ps = "providers_by_capability ms"
  have "(\<forall>(c, ns) \<in> set ?ps. length ns \<le> 1) \<longleftrightarrow> (\<forall>c. length (names_of (provisions ms) c) \<le> 1)"
  proof
    assume a: "\<forall>(c, ns) \<in> set ?ps. length ns \<le> 1"
    show "\<forall>c. length (names_of (provisions ms) c) \<le> 1"
    proof
      fix c show "length (names_of (provisions ms) c) \<le> 1"
        using a providers_exact(2)[of ms c] by (cases "names_of (provisions ms) c = []") (auto dest: map_of_SomeD)
    qed
  next
    assume a: "\<forall>c. length (names_of (provisions ms) c) \<le> 1"
    show "\<forall>(c, ns) \<in> set ?ps. length ns \<le> 1"
    proof (clarify)
      fix c ns assume "(c, ns) \<in> set ?ps"
      then have "map_of ?ps c = Some ns" using providers_exact(1) by simp
      with a providers_exact(2)[of ms c] show "length ns \<le> 1" by (auto split: if_splits)
    qed
  qed
  then show ?thesis
    by (auto simp: check_unique_capabilities_def filter_empty_conv names_of_caps provisions_caps count_le_distinct not_less Let_def)
qed

lemma requirements_exact: "check_requirements ms (providers_by_capability ms) = Inr () \<longleftrightarrow>
    (\<forall>m \<in> set ms. set (mf_requires m) \<subseteq> set (concat (map mf_provides ms)))"
proof -
  have "map_of (providers_by_capability ms) cap = None \<longleftrightarrow> cap \<notin> set (concat (map mf_provides ms))" for cap
    by (simp add: providers_exact(2)) (auto simp: names_of_def filter_empty_conv provisions_def)
  then show ?thesis by (auto simp: check_requirements_def Let_def filter_empty_conv)
qed

text \<open>What a manifest must come after.\<close>

definition depends :: "manifest list \<Rightarrow> (string \<times> string) set" where
  "depends ms = {(mf_name p, mf_name m) |p m. p \<in> set ms \<and> m \<in> set ms \<and> set (mf_provides p) \<inter> set (mf_requires m) \<noteq> {}}"

lemma deps_exact:
  "deps (providers_by_capability ms) m = {n. \<exists>p \<in> set ms. mf_name p = n \<and> set (mf_provides p) \<inter> set (mf_requires m) \<noteq> {}}"
proof -
  have "(case map_of (providers_by_capability ms) cap of None \<Rightarrow> {} | Some names \<Rightarrow> set names) = set (names_of (provisions ms) cap)" for cap
    by (simp add: providers_exact(2))
  then have "deps (providers_by_capability ms) m = (\<Union>cap \<in> set (mf_requires m). set (names_of (provisions ms) cap))"
    by (simp add: deps_def)
  also have "\<dots> = {n. \<exists>p \<in> set ms. mf_name p = n \<and> set (mf_provides p) \<inter> set (mf_requires m) \<noteq> {}}"
    using provisions_mem by blast
  finally show ?thesis .
qed

section \<open>The order of installation\<close>

definition well_ordered :: "(string \<times> string list) list \<Rightarrow> manifest list \<Rightarrow> bool" where
  "well_ordered ps ms \<longleftrightarrow> (\<forall>i < length ms. deps ps (ms ! i) \<subseteq> mf_name ` set (take i ms))"

lemma well_ordered_snoc: "well_ordered ps (d @ [m]) \<longleftrightarrow> well_ordered ps d \<and> deps ps m \<subseteq> mf_name ` set d"
  by (auto simp: well_ordered_def nth_append less_Suc_eq)

lemma install_pass_props:
  assumes "install_pass ps pending d = (d', r)"
  shows "mset d' + mset r = mset d + mset pending" "well_ordered ps d \<Longrightarrow> well_ordered ps d'"
    "length r = length pending \<Longrightarrow> d' = d \<and> r = pending \<and> (\<forall>m \<in> set pending. \<not> deps ps m \<subseteq> mf_name ` set d)"
proof -
  have "mset d' + mset r = mset d + mset pending \<and> (well_ordered ps d \<longrightarrow> well_ordered ps d')"
    using assms
  proof (induction pending arbitrary: d d' r)
    case (Cons m pending)
    show ?case
    proof (cases "deps ps m \<subseteq> mf_name ` set d")
      case True
      with Cons.prems Cons.IH[of "d @ [m]" d' r] show ?thesis by (simp add: well_ordered_snoc)
    next
      case False
      with Cons.prems obtain r' where "install_pass ps pending d = (d', r')" "r = m # r'" by (auto split: prod.splits)
      with Cons.IH[OF this(1)] show ?thesis by simp
    qed
  qed simp
  then show "mset d' + mset r = mset d + mset pending" "well_ordered ps d \<Longrightarrow> well_ordered ps d'" by auto
  show "d' = d \<and> r = pending \<and> (\<forall>m \<in> set pending. \<not> deps ps m \<subseteq> mf_name ` set d)" if "length r = length pending"
    using assms that
  proof (induction pending arbitrary: d d' r)
    case (Cons m pending)
    show ?case
    proof (cases "deps ps m \<subseteq> mf_name ` set d")
      case True
      with Cons.prems have "length r \<le> length pending" by (auto dest: install_pass_length)
      with Cons.prems show ?thesis by simp
    next
      case False
      with Cons.prems obtain r' where "install_pass ps pending d = (d', r')" "r = m # r'" by (auto split: prod.splits)
      with Cons.IH[OF this(1)] Cons.prems False show ?thesis by auto
    qed
  qed simp
qed

lemma install_loop_ok:
  "install_loop ps pending d = Inr order \<Longrightarrow> mset order = mset d + mset pending \<and> (well_ordered ps d \<longrightarrow> well_ordered ps order)"
proof (induction ps pending d rule: install_loop.induct)
  case (1 ps pending d)
  obtain d' r where p: "install_pass ps pending d = (d', r)" by (cases "install_pass ps pending d")
  show ?case
  proof (cases "pending = []")
    case True
    with "1.prems" show ?thesis by (simp add: install_loop.simps)
  next
    case False
    with "1.prems" p have l: "length r \<noteq> length pending" and rest: "install_loop ps r d' = Inr order"
      by (auto simp: install_loop.simps[of ps pending] split: if_splits)
    from "1.IH"[OF False p[symmetric] refl l rest] install_pass_props(1,2)[OF p] show ?thesis by auto
  qed
qed

lemma install_loop_stuck:
  "install_loop ps pending d = Inl e \<Longrightarrow> \<exists>stuck d'. stuck \<noteq> [] \<and> mset d' + mset stuck = mset d + mset pending
     \<and> (\<forall>m \<in> set stuck. \<not> deps ps m \<subseteq> mf_name ` set d')"
proof (induction ps pending d rule: install_loop.induct)
  case (1 ps pending d)
  obtain d' r where p: "install_pass ps pending d = (d', r)" by (cases "install_pass ps pending d")
  from "1.prems" have ne: "pending \<noteq> []" by (auto simp: install_loop.simps)
  show ?case
  proof (cases "length r = length pending")
    case True
    with install_pass_props[OF p] ne show ?thesis by blast
  next
    case False
    with "1.prems" p ne have "install_loop ps r d' = Inl e" by (auto simp: install_loop.simps[of ps pending] split: if_splits)
    from "1.IH"[OF ne p[symmetric] refl False this] install_pass_props(1)[OF p] show ?thesis by simp
  qed
qed

lemma bindR_unit_Inr: "bindR m (\<lambda>_. k) = Inr x \<longleftrightarrow> m = Inr () \<and> k = Inr x"
  by (cases m) (auto simp: bindR_def)

lemma validate_Inr: "validate ms = Inr order \<longleftrightarrow> distinct (map mf_name ms) \<and> distinct (concat (map mf_provides ms))
    \<and> (\<forall>m \<in> set ms. set (mf_requires m) \<subseteq> set (concat (map mf_provides ms))) \<and> install_order ms = Inr order"
proof -
  have s: "sort xs = [] \<longleftrightarrow> xs = []" for xs :: "string list" by (metis length_sort length_0_conv)
  have "sort (remdups (filter (\<lambda>n. 1 < count_list (map mf_name ms) n) (map mf_name ms))) = [] \<longleftrightarrow> distinct (map mf_name ms)"
    unfolding s remdups_eq_nil_iff count_le_distinct filter_empty_conv
    by (metis count_notin le_eq_less_or_eq not_less zero_le)
  note dup = this
  show ?thesis
  proof (cases "distinct (map mf_name ms)")
    case True
    with dup have "validate ms = bindR (check_unique_capabilities (providers_by_capability ms)) (\<lambda>_.
        bindR (check_requirements ms (providers_by_capability ms)) (\<lambda>_. install_order ms))"
      unfolding validate_def Let_def by simp
    with True show ?thesis by (simp only: bindR_unit_Inr unique_exact requirements_exact) blast
  next
    case False
    with dup show ?thesis unfolding validate_def Let_def by auto
  qed
qed

lemma install_order_ok: "install_order ms = Inr order \<Longrightarrow> mset order = mset ms \<and> well_ordered (providers_by_capability ms) order"
  unfolding install_order_def by (drule install_loop_ok) (simp add: well_ordered_def)

lemma acyclic_of_order:
  assumes "install_order ms = Inr order" and "distinct (map mf_name ms)"
  shows "acyclic (depends ms)"
proof -
  from assms(1) have mset: "mset order = mset ms" and wo: "well_ordered (providers_by_capability ms) order"
    by (auto dest: install_order_ok)
  then have d: "distinct (map mf_name order)" and set: "set order = set ms"
    using assms(2) by (metis mset_map mset_eq_imp_distinct_iff, metis set_mset_mset)
  define idx where "idx n = length (takeWhile (\<lambda>m. mf_name m \<noteq> n) order)" for n
  have le: "idx (mf_name (order ! j)) \<le> j" if "j < length order" for j
  proof (rule ccontr)
    assume "\<not> ?thesis"
    then have "order ! j \<in> set (takeWhile (\<lambda>m. mf_name m \<noteq> mf_name (order ! j)) order)"
      unfolding idx_def by (metis not_le nth_mem takeWhile_nth)
    then show False by (auto dest: set_takeWhileD)
  qed
  have eq: "idx (mf_name (order ! i)) = i" if i: "i < length order" for i
  proof -
    let ?k = "idx (mf_name (order ! i))"
    have k: "?k < length order" using le[OF i] i by simp
    then have "mf_name (order ! ?k) = mf_name (order ! i)" unfolding idx_def by (metis (mono_tags) nth_length_takeWhile)
    with d k i show ?thesis by (metis nth_eq_iff_index_eq nth_map length_map)
  qed
  have "depends ms \<subseteq> measure idx"
  proof (clarify)
    fix a b assume "(a, b) \<in> depends ms"
    then obtain p m where pm: "p \<in> set ms" "m \<in> set ms" "set (mf_provides p) \<inter> set (mf_requires m) \<noteq> {}" "a = mf_name p" "b = mf_name m"
      by (auto simp: depends_def)
    then obtain i where i: "i < length order" "order ! i = m" using set by (metis in_set_conv_nth)
    have "a \<in> deps (providers_by_capability ms) m" using pm by (auto simp: deps_exact)
    then have "a \<in> mf_name ` set (take i order)" using wo i by (auto simp: well_ordered_def)
    then obtain j where "j < i" "a = mf_name (order ! j)" using i by (auto simp: in_set_conv_nth)
    with le[of j] eq[OF i(1)] i pm show "(a, b) \<in> measure idx" by simp
  qed
  then show ?thesis using wf_acyclic wf_subset wf_measure by metis
qed

lemma order_of_acyclic:
  assumes "acyclic (depends ms)"
  shows "\<exists>order. install_order ms = Inr order"
proof (rule ccontr)
  assume "\<not> ?thesis"
  then obtain e where "install_order ms = Inl e" by (cases "install_order ms") auto
  then obtain stuck d where st: "stuck \<noteq> []" "mset d + mset stuck = mset ms"
      "\<forall>m \<in> set stuck. \<not> deps (providers_by_capability ms) m \<subseteq> mf_name ` set d"
    unfolding install_order_def by (auto dest: install_loop_stuck)
  from st(2) have set: "set ms = set d \<union> set stuck" by (metis set_mset_mset set_mset_union)
  have "depends ms \<subseteq> mf_name ` set ms \<times> mf_name ` set ms" by (auto simp: depends_def)
  then have "finite (depends ms)" by (rule finite_subset) simp
  then have "wf (depends ms)" using assms by (rule finite_acyclic_wf)
  moreover obtain m0 where "m0 \<in> set stuck" using st(1) by (cases stuck) auto
  ultimately obtain n where n: "n \<in> mf_name ` set stuck" "\<And>y. (y, n) \<in> depends ms \<Longrightarrow> y \<notin> mf_name ` set stuck"
    by (metis wfE_min image_eqI)
  then obtain m where m: "m \<in> set stuck" "n = mf_name m" by auto
  with st(3) obtain a where a: "a \<in> deps (providers_by_capability ms) m" "a \<notin> mf_name ` set d" by blast
  then obtain p where p: "p \<in> set ms" "mf_name p = a" "set (mf_provides p) \<inter> set (mf_requires m) \<noteq> {}" by (auto simp: deps_exact)
  with a(2) set have "p \<in> set stuck" by auto
  moreover have "(a, n) \<in> depends ms" using p m set by (auto simp: depends_def)
  ultimately show False using n(2) p(2) by blast
qed

lemma install_independent: "\<forall>m \<in> set ms. mf_requires m = [] \<Longrightarrow> install_order ms = Inr ms"
proof -
  assume r: "\<forall>m \<in> set ms. mf_requires m = []"
  have "install_pass ps pending d = (d @ pending, [])" if "\<forall>m \<in> set pending. mf_requires m = []" for ps pending d
    using that by (induction pending arbitrary: d) (auto simp: deps_def)
  then have p: "install_pass ps ms [] = (ms, [])" for ps using r by simp
  show ?thesis
    by (cases "ms = []") (simp_all add: install_order_def install_loop.simps[of _ ms] install_loop.simps[of _ "[]"] p)
qed

text \<open>C25: A set of plugins is accepted exactly if it has an order.  Validation succeeds if and only if names are unique,
  every capability is provided once, every required capability is provided, and the dependencies have no cycle; then
  its result is a rearrangement of the manifests in which everything comes after what it requires, and it is the
  input order if nothing is required.\<close>

theorem plugins_validated_exactly:
  "((\<exists>order. validate ms = Inr order) \<longleftrightarrow>
      distinct (map mf_name ms) \<and> distinct (concat (map mf_provides ms))
      \<and> (\<forall>m \<in> set ms. set (mf_requires m) \<subseteq> set (concat (map mf_provides ms))) \<and> acyclic (depends ms))
    \<and> (\<forall>order. validate ms = Inr order \<longrightarrow> mset order = mset ms
      \<and> (\<forall>i < length order. \<forall>cap \<in> set (mf_requires (order ! i)). \<exists>j < i. cap \<in> set (mf_provides (order ! j)))
      \<and> ((\<forall>m \<in> set ms. mf_requires m = []) \<longrightarrow> order = ms))"
proof (intro conjI allI impI ballI)
  show "(\<exists>order. validate ms = Inr order) \<longleftrightarrow>
      distinct (map mf_name ms) \<and> distinct (concat (map mf_provides ms))
      \<and> (\<forall>m \<in> set ms. set (mf_requires m) \<subseteq> set (concat (map mf_provides ms))) \<and> acyclic (depends ms)"
    using acyclic_of_order order_of_acyclic unfolding validate_Inr by blast
next
  fix order assume v: "validate ms = Inr order"
  then have o: "install_order ms = Inr order" and dn: "distinct (map mf_name ms)" by (simp_all only: validate_Inr)
  then have m: "mset order = mset ms" and wo: "well_ordered (providers_by_capability ms) order"
    by (auto dest: install_order_ok)
  then have set: "set order = set ms" by (metis set_mset_mset)
  have "\<exists>j < i. cap \<in> set (mf_provides (order ! j))" if i: "i < length order" and cap: "cap \<in> set (mf_requires (order ! i))" for i cap
  proof -
    have "order ! i \<in> set ms" unfolding set[symmetric] using i by (rule nth_mem)
    moreover have "\<forall>m \<in> set ms. set (mf_requires m) \<subseteq> set (concat (map mf_provides ms))" using v unfolding validate_Inr by blast
    ultimately have "cap \<in> set (concat (map mf_provides ms))" using cap by blast
    then obtain p where p: "p \<in> set ms" "cap \<in> set (mf_provides p)" by auto
    then have "mf_name p \<in> deps (providers_by_capability ms) (order ! i)" using cap by (auto simp: deps_exact)
    then have "mf_name p \<in> mf_name ` set (take i order)" using wo i by (auto simp: well_ordered_def)
    then obtain j where j: "j < i" "mf_name (order ! j) = mf_name p" using i by (auto simp: in_set_conv_nth)
    then have "order ! j = p" using dn p(1) set i by (metis distinct_map inj_onD less_trans nth_mem)
    with j p show ?thesis by blast
  qed
  then show "\<exists>j < i. cap \<in> set (mf_provides (order ! j))"
    if "i < length order" "cap \<in> set (mf_requires (order ! i))" for i cap using that by blast
  show "mset order = mset ms" by (rule m)
  show "order = ms" if "\<forall>m \<in> set ms. mf_requires m = []" using install_independent[OF that] o by simp
qed

lemma bind_map_res_Inr: "map_res f xs = Inr ys \<Longrightarrow> length ys = length xs \<and> (\<forall>i < length xs. f (xs ! i) = Inr (ys ! i))"
proof (induction xs arbitrary: ys)
  case (Cons x xs)
  then obtain y zs where "f x = Inr y" "map_res f xs = Inr zs" "ys = y # zs"
    by (auto simp: bindR_def split: sum.splits)
  with Cons.IH[of zs] show ?case by (auto simp: nth_Cons split: nat.splits)
qed simp

lemma to_spec_fields: "to_spec builtin m = Inr s \<Longrightarrow> ms_name s = mf_name m \<and> ms_errors s = mf_errors m
    \<and> ms_models s = mf_models m \<and> ms_tasks s = mf_tasks m \<and> ms_aggregate s = mf_aggregate m"
  by (auto simp: to_spec_def Let_def split: option.splits prod.splits if_splits)

lemma regroup: "add_mset t F = M \<Longrightarrow> A + B = C \<Longrightarrow> add_mset t (A + (F + B)) = M + C"
  by (auto simp: ac_simps)

text \<open>The registry lists what was validated.  When start-up succeeds, modules have unique names, each has what its
  manifest says and comes after the modules it requires, and the list of error modules to import is a
  rearrangement of the error modules of all modules that take part, provided a module lists its top one once.\<close>

theorem registry_is_complete:
  assumes "load_specs directory find_spec eps = Inr specs"
    and "\<forall>s \<in> set specs. count_list (ms_errors s) (top_errors_module s) \<le> 1"
  shows "distinct (map ms_name specs)
    \<and> mset (ERROR_MODULES specs) = mset (concat (map ms_errors (filter ms_aggregate specs)))
    \<and> distinct (MODULES specs)"
proof -
  from assms(1) obtain builtin external ordered where v: "validate (map snd builtin @ external) = Inr ordered"
    and sp: "map_res (to_spec builtin) ordered = Inr specs"
    by (auto simp: load_specs_def bindR_def split: sum.splits)
  from v have "distinct (map mf_name (map snd builtin @ external))" and "install_order (map snd builtin @ external) = Inr ordered"
    unfolding validate_Inr by blast+
  then have "distinct (map mf_name ordered)"
    by (metis install_order_ok mset_map mset_eq_imp_distinct_iff)
  moreover have "map ms_name specs = map mf_name ordered"
    using bind_map_res_Inr[OF sp] to_spec_fields by (metis (no_types, lifting) length_map nth_equalityI nth_map)
  moreover have "mset (ERROR_MODULES specs) = mset (concat (map ms_errors (filter ms_aggregate specs)))"
    using assms(2)
  proof (induction specs)
    case (Cons s specs)
    have "mset (filter (\<lambda>e. e \<noteq> top_errors_module s) (ms_errors s)) + (if top_errors_module s \<in> set (ms_errors s) then {#top_errors_module s#} else {#})
        = mset (ms_errors s)"
    proof -
      have "filter_mset (\<lambda>e. e = top_errors_module s) (mset (ms_errors s)) = replicate_mset (count_list (ms_errors s) (top_errors_module s)) (top_errors_module s)"
        by (simp add: filter_eq_replicate_mset count_mset)
      moreover have "count_list (ms_errors s) (top_errors_module s) = (if top_errors_module s \<in> set (ms_errors s) then 1 else 0)"
        using Cons.prems by (auto simp: count_list_0_iff le_Suc_eq)
      moreover have "mset (ms_errors s) = filter_mset (\<lambda>e. e = top_errors_module s) (mset (ms_errors s))
          + filter_mset (\<lambda>e. e \<noteq> top_errors_module s) (mset (ms_errors s))" by (rule multiset_partition)
      moreover have "replicate_mset (if b then 1 else 0) x = (if b then {#x#} else {#})" for b and x :: string by simp
      ultimately show ?thesis by (simp only: mset_filter add.commute)
    qed
    with Cons show ?case by (auto simp: ERROR_MODULES_def mset_filter intro: regroup split: if_splits)
  qed (simp add: ERROR_MODULES_def)
  ultimately show ?thesis by (simp add: MODULES_def distinct_map_filter)
qed

definition plugin :: "string \<Rightarrow> string list \<Rightarrow> string list \<Rightarrow> manifest" where
  "plugin name prov req = \<lparr>mf_name = name, mf_module = Some name, mf_errors = [name @ ''.errors''], mf_models = [], mf_tasks = [],
     mf_provides = prov, mf_requires = req, mf_aggregate = True\<rparr>"

lemma plugins_validated_exactly_witness:
  "(\<exists>order. validate [plugin ''b'' [] [''c''], plugin ''a'' [''c''] []] = Inr order
      \<and> mset order = {#plugin ''b'' [] [''c''], plugin ''a'' [''c''] []#})
   \<and> (\<forall>order. validate [plugin ''b'' [''d''] [''c''], plugin ''a'' [''c''] [''d'']] \<noteq> Inr order)"
proof
  let ?ms = "[plugin ''b'' [] [''c''], plugin ''a'' [''c''] []]"
  have "depends ?ms \<subseteq> {(''a'', ''b'')}" by (auto simp: depends_def plugin_def)
  moreover have "acyclic {(''a'', ''b'')}" by (simp add: acyclic_insert) (simp add: acyclic_def)
  ultimately have "acyclic (depends ?ms)" by (rule acyclic_subset[rotated])
  then have "\<exists>order. validate ?ms = Inr order" using plugins_validated_exactly[of ?ms] by (simp add: plugin_def)
  then show "\<exists>order. validate ?ms = Inr order \<and> mset order = {#plugin ''b'' [] [''c''], plugin ''a'' [''c''] []#}"
    using plugins_validated_exactly[of ?ms] by auto
next
  let ?ms = "[plugin ''b'' [''d''] [''c''], plugin ''a'' [''c''] [''d'']]"
  have "(mf_name p, mf_name m) \<in> depends ?ms" if "p \<in> set ?ms" "m \<in> set ?ms" "cap \<in> set (mf_provides p)" "cap \<in> set (mf_requires m)"
    for p m cap using that unfolding depends_def by blast
  from this[of "plugin ''a'' [''c''] [''d'']" "plugin ''b'' [''d''] [''c'']" "''c''"]
    this[of "plugin ''b'' [''d''] [''c'']" "plugin ''a'' [''c''] [''d'']" "''d''"]
  have "(''a'', ''b'') \<in> depends ?ms" "(''b'', ''a'') \<in> depends ?ms" by (simp_all add: plugin_def)
  then have "(''a'', ''a'') \<in> (depends ?ms)\<^sup>+" by (meson trancl.simps)
  then have "\<not> acyclic (depends ?ms)" by (auto simp: acyclic_def)
  then show "\<forall>order. validate ?ms \<noteq> Inr order" using plugins_validated_exactly[of ?ms] by blast
qed

lemma registry_is_complete_witness:
  "\<exists>specs. load_specs (Some [(''a'', Some (Some [(''name'', T_Str ''a''), (''errors'', T_List [T_Str ''app.modules.a.errors''])]))]) (\<lambda>_. Some True) [] = Inr specs
    \<and> mset (ERROR_MODULES specs) = {#''app.modules.a.errors''#} \<and> distinct (map ms_name specs)"
proof -
  let ?m = "\<lparr>mf_name = ''a'', mf_module = None, mf_errors = [''app.modules.a.errors''], mf_models = [], mf_tasks = [],
     mf_provides = [], mf_requires = [], mf_aggregate = True\<rparr>"
  let ?s = "\<lparr>ms_name = ''a'', ms_module_path = ''app.modules.a'', ms_errors = [''app.modules.a.errors''], ms_models = [], ms_tasks = [], ms_aggregate = True\<rparr>"
  have "load_manifests (Some [(''a'', Some (Some [(''name'', T_Str ''a''), (''errors'', T_List [T_Str ''app.modules.a.errors''])]))]) = Inr [(''a'', ?m)]"
    by (simp add: load_manifests_def load_manifest_def load_fields_def KNOWN_FIELDS_def str_tuple_def opt_str_def bindR_def List.map_filter_def)
  moreover have "validate [?m] = Inr [?m]" by (simp add: validate_Inr install_independent)
  ultimately have l: "load_specs (Some [(''a'', Some (Some [(''name'', T_Str ''a''), (''errors'', T_List [T_Str ''app.modules.a.errors''])]))]) (\<lambda>_. Some True) [] = Inr [?s]"
    by (simp add: load_specs_def discover_entry_points_def bindR_def to_spec_def)
  have "\<forall>s \<in> set [?s]. count_list (ms_errors s) (top_errors_module s) \<le> 1" by simp
  from registry_is_complete[OF l this] l show ?thesis by simp
qed

end
