(* ===== verification/Local_Cache.thy ===== *)
theory Local_Cache
  imports Prelude
begin

text \<open>
  The process-local cache (\<open>core/local_cache.py\<close>): bounded, with lifetimes, least recently used first, and with a
  count of invalidations that guards backfills; and what it promises, a map that may forget.
\<close>

section \<open>The cache\<close>

text \<open>
  \<open>_data\<close> is an ordered dict: the least recently used entry comes first.  Time is what \<open>time.monotonic()\<close> shows at
  the moment of an operation, in microseconds.
\<close>

record 'v l1_cache =
  l1_data :: "(string \<times> int \<times> 'v) list"
  l1_maxsize :: nat
  l1_revision :: nat

definition l1_pop :: "string \<Rightarrow> 'v l1_cache \<Rightarrow> 'v l1_cache" where
  "l1_pop key c = c\<lparr>l1_data := filter (\<lambda>e. fst e \<noteq> key) (l1_data c)\<rparr>"

definition l1_put_last :: "string \<Rightarrow> int \<times> 'v \<Rightarrow> 'v l1_cache \<Rightarrow> 'v l1_cache" where
  "l1_put_last key item c = c\<lparr>l1_data := filter (\<lambda>e. fst e \<noteq> key) (l1_data c) @ [(key, item)]\<rparr>"

definition get_at :: "string \<Rightarrow> int \<Rightarrow> 'v l1_cache \<Rightarrow> 'v option \<times> 'v l1_cache" where
  "get_at key t c =
     (case map_of (l1_data c) key of
        None \<Rightarrow> (None, c)
      | Some (deadline, value) \<Rightarrow>
          if deadline \<le> t then (None, l1_pop key c) else (Some value, l1_put_last key (deadline, value) c))"

definition l1_get :: "string \<Rightarrow> int \<Rightarrow> 'v l1_cache \<Rightarrow> 'v option \<times> 'v l1_cache" where
  "l1_get key t = get_at key t"

fun l1_multi_get :: "string list \<Rightarrow> int \<Rightarrow> 'v l1_cache \<Rightarrow> 'v option list \<times> 'v l1_cache" where
  "l1_multi_get [] t c = ([], c)"
| "l1_multi_get (key # keys) t c =
     (let (v, c) = get_at key t c; (vs, c) = l1_multi_get keys t c in (v # vs, c))"

definition l1_delete :: "string \<Rightarrow> 'v l1_cache \<Rightarrow> 'v l1_cache" where
  "l1_delete key c = l1_pop key (c\<lparr>l1_revision := Suc (l1_revision c)\<rparr>)"

fun evict :: "nat \<Rightarrow> 'a list \<Rightarrow> 'a list" where
  "evict m [] = []"
| "evict m (x # xs) = (if m < Suc (length xs) then evict m xs else x # xs)"

definition l1_set :: "string \<Rightarrow> 'v option \<Rightarrow> int \<Rightarrow> int \<Rightarrow> 'v l1_cache \<Rightarrow> 'v l1_cache" where
  "l1_set key value ttl t c =
     (if ttl \<le> 0 \<or> value = None then l1_delete key c
      else let c = l1_put_last key (t + ttl, the value) c in c\<lparr>l1_data := evict (l1_maxsize c) (l1_data c)\<rparr>)"

text \<open>Two readings of the clock: one to look the key up, one to set it.\<close>

definition l1_set_if_unchanged ::
    "string \<Rightarrow> 'v option \<Rightarrow> int \<Rightarrow> nat \<Rightarrow> int \<Rightarrow> int \<Rightarrow> 'v l1_cache \<Rightarrow> bool \<times> 'v l1_cache" where
  "l1_set_if_unchanged key value ttl revision t t' c =
     (if ttl \<le> 0 \<or> value = None \<or> revision \<noteq> l1_revision c then (False, c)
      else let (found, c) = get_at key t c
           in if found \<noteq> None then (False, c) else (True, l1_set key value ttl t' c))"

definition l1_clear :: "'v l1_cache \<Rightarrow> 'v l1_cache" where
  "l1_clear c = c\<lparr>l1_revision := Suc (l1_revision c), l1_data := []\<rparr>"

definition l1_reset :: "nat \<Rightarrow> 'v l1_cache \<Rightarrow> 'v l1_cache" where
  "l1_reset m c = c\<lparr>l1_revision := Suc (l1_revision c), l1_data := [], l1_maxsize := max 1 m\<rparr>"

section \<open>Operations and their answers\<close>

datatype 'v l1_op =
    Get string
  | Multi_get "string list"
  | Revision
  | Set string "'v option" int
  | Set_if_unchanged string "'v option" int nat int
  | Del string
  | Clear_all
  | Size
  | Reset_to nat

datatype 'v l1_out = O_value "'v option" | O_values "'v option list" | O_num nat | O_bool bool | O_unit

fun l1_step :: "'v l1_op \<Rightarrow> int \<Rightarrow> 'v l1_cache \<Rightarrow> 'v l1_out \<times> 'v l1_cache" where
  "l1_step (Get k) t c = (let (v, c) = l1_get k t c in (O_value v, c))"
| "l1_step (Multi_get ks) t c = (let (vs, c) = l1_multi_get ks t c in (O_values vs, c))"
| "l1_step Revision t c = (O_num (l1_revision c), c)"
| "l1_step (Set k v ttl) t c = (O_unit, l1_set k v ttl t c)"
| "l1_step (Set_if_unchanged k v ttl r t') t c = (let (b, c) = l1_set_if_unchanged k v ttl r t t' c in (O_bool b, c))"
| "l1_step (Del k) t c = (O_unit, l1_delete k c)"
| "l1_step Clear_all t c = (O_unit, l1_clear c)"
| "l1_step Size t c = (O_num (length (l1_data c)), c)"
| "l1_step (Reset_to m) t c = (O_unit, l1_reset m c)"

fun l1_run :: "('v l1_op \<times> int) list \<Rightarrow> 'v l1_cache \<Rightarrow> 'v l1_out list \<times> 'v l1_cache" where
  "l1_run [] c = ([], c)"
| "l1_run ((p, t) # ps) c = (let (o1, c) = l1_step p t c; (os, c) = l1_run ps c in (o1 # os, c))"

section \<open>A map that may forget\<close>

text \<open>
  What a cache promises.  The specification remembers for each key what was last written and until when it may be
  shown, and how many invalidations there were.  An answer is nothing, or what is remembered and not overdue.
\<close>

record 'v memory =
  remembered :: "string \<Rightarrow> (int \<times> 'v) option"
  invalidations :: nat

definition may_answer :: "'v memory \<Rightarrow> string \<Rightarrow> int \<Rightarrow> 'v option \<Rightarrow> bool" where
  "may_answer a k t v \<longleftrightarrow> (case v of None \<Rightarrow> True | Some x \<Rightarrow> \<exists>d. remembered a k = Some (d, x) \<and> t < d)"

definition remember :: "string \<Rightarrow> 'v \<Rightarrow> int \<Rightarrow> 'v memory \<Rightarrow> 'v memory" where
  "remember k v d a = a\<lparr>remembered := (remembered a)(k \<mapsto> (d, v))\<rparr>"

definition forget :: "string \<Rightarrow> 'v memory \<Rightarrow> 'v memory" where
  "forget k a = a\<lparr>remembered := (remembered a)(k := None), invalidations := Suc (invalidations a)\<rparr>"

definition forget_all :: "'v memory \<Rightarrow> 'v memory" where
  "forget_all a = a\<lparr>remembered := Map.empty, invalidations := Suc (invalidations a)\<rparr>"

inductive memory_step :: "'v l1_op \<Rightarrow> int \<Rightarrow> 'v l1_out \<Rightarrow> 'v memory \<Rightarrow> 'v memory \<Rightarrow> bool" where
  get: "may_answer a k t v \<Longrightarrow> memory_step (Get k) t (O_value v) a a"
| multi_get: "list_all2 (\<lambda>k v. may_answer a k t v) ks vs \<Longrightarrow> memory_step (Multi_get ks) t (O_values vs) a a"
| revision: "memory_step Revision t (O_num (invalidations a)) a a"
| set_value: "0 < ttl \<Longrightarrow> memory_step (Set k (Some v) ttl) t O_unit a (remember k v (t + ttl) a)"
| set_nothing: "ttl \<le> 0 \<or> v = None \<Longrightarrow> memory_step (Set k v ttl) t O_unit a (forget k a)"
| filled: "0 < ttl \<Longrightarrow> r = invalidations a \<Longrightarrow>
    memory_step (Set_if_unchanged k (Some v) ttl r t') t (O_bool True) a (remember k v (t' + ttl) a)"
| not_filled: "memory_step (Set_if_unchanged k v ttl r t') t (O_bool False) a a"
| del: "memory_step (Del k) t O_unit a (forget k a)"
| clear_all: "memory_step Clear_all t O_unit a (forget_all a)"
| count: "memory_step Size t (O_num n) a a"
| reset_to: "memory_step (Reset_to m) t O_unit a (forget_all a)"

inductive memory_run :: "('v l1_op \<times> int) list \<Rightarrow> 'v l1_out list \<Rightarrow> 'v memory \<Rightarrow> 'v memory \<Rightarrow> bool" where
  none: "memory_run [] [] a a"
| step: "memory_step p t r a b \<Longrightarrow> memory_run ps rs b c \<Longrightarrow> memory_run ((p, t) # ps) (r # rs) a c"

section \<open>Simulation\<close>

definition l1_wf :: "'v l1_cache \<Rightarrow> bool" where
  "l1_wf c \<longleftrightarrow> distinct (map fst (l1_data c)) \<and> 1 \<le> l1_maxsize c \<and> length (l1_data c) \<le> l1_maxsize c"

definition simulates :: "'v l1_cache \<Rightarrow> 'v memory \<Rightarrow> bool" where
  "simulates c a \<longleftrightarrow> l1_wf c \<and> l1_revision c = invalidations a \<and> map_of (l1_data c) \<subseteq>\<^sub>m remembered a"

lemma evict_drop: "evict m xs = drop (length xs - m) xs"
proof (induction xs)
  case (Cons x xs)
  show ?case
  proof (cases "m < Suc (length xs)")
    case True
    then have "length (x # xs) - m = Suc (length xs - m)" by simp
    with Cons True show ?thesis by simp
  qed simp
qed simp

lemma map_of_filter_key: "map_of (filter (\<lambda>e. fst e \<noteq> k) xs) = (map_of xs)(k := None)"
  by (induction xs) (auto simp: fun_eq_iff)

lemma distinct_filter_snoc: "distinct (map fst xs) \<Longrightarrow> distinct (map fst (filter (\<lambda>e. fst e \<noteq> k) xs @ [(k, v)]))"
  by (auto simp: distinct_map_filter)

lemma map_of_filter_snoc: "map_of (filter (\<lambda>e. fst e \<noteq> k) xs @ [(k, v)]) = (map_of xs)(k \<mapsto> v)"
  by (auto simp: fun_eq_iff map_add_def map_of_filter_key split: option.splits)

lemma map_of_drop:
  assumes "distinct (map fst xs)"
  shows "map_of (drop n xs) \<subseteq>\<^sub>m map_of xs"
  unfolding map_le_def
proof
  fix k assume "k \<in> dom (map_of (drop n xs))"
  then obtain v where v: "map_of (drop n xs) k = Some v" by auto
  then have "(k, v) \<in> set xs" by (meson in_set_dropD map_of_SomeD)
  with assms v show "map_of (drop n xs) k = map_of xs k" by simp
qed

lemma length_filter_key: "k \<in> fst ` set xs \<Longrightarrow> length (filter (\<lambda>e. fst e \<noteq> k) xs) < length xs"
  by (auto intro!: length_filter_less)

lemma simulates_pop: "simulates c a \<Longrightarrow> simulates (l1_pop k c) a"
  by (auto simp: simulates_def l1_wf_def l1_pop_def map_of_filter_key distinct_map_filter map_le_def
      intro: le_trans[OF length_filter_le])

lemma simulates_touch:
  assumes "simulates c a" and "map_of (l1_data c) k = Some item"
  shows "simulates (l1_put_last k item c) a"
proof -
  have "k \<in> fst ` set (l1_data c)" using assms(2) by (metis domI dom_map_of_conv_image_fst)
  then have "length (filter (\<lambda>e. fst e \<noteq> k) (l1_data c)) < length (l1_data c)" by (rule length_filter_key)
  moreover have "map_of (filter (\<lambda>e. fst e \<noteq> k) (l1_data c) @ [(k, item)]) = map_of (l1_data c)"
    unfolding map_of_filter_snoc using assms(2) by auto
  ultimately show ?thesis
    using assms(1) distinct_filter_snoc[of "l1_data c" k item]
    by (simp add: simulates_def l1_wf_def l1_put_last_def del: map_of_append map_append distinct_append)
qed

lemma simulates_get_at:
  assumes "simulates c a" and "get_at k t c = (v, c')"
  shows "simulates c' a \<and> may_answer a k t v"
proof (cases "map_of (l1_data c) k")
  case (Some item)
  obtain d x where item: "item = (d, x)" by (cases item)
  have "remembered a k = Some (d, x)"
    using assms(1) Some item unfolding simulates_def map_le_def by (metis domI)
  with assms Some item simulates_pop[OF assms(1)] simulates_touch[OF assms(1) Some] show ?thesis
    by (auto simp: get_at_def may_answer_def split: if_splits)
qed (use assms in \<open>auto simp: get_at_def may_answer_def\<close>)

lemma simulates_multi_get:
  "simulates c a \<Longrightarrow> l1_multi_get ks t c = (vs, c') \<Longrightarrow> simulates c' a \<and> list_all2 (\<lambda>k v. may_answer a k t v) ks vs"
proof (induction ks arbitrary: c vs)
  case (Cons k ks)
  obtain v d where g: "get_at k t c = (v, d)" by (cases "get_at k t c")
  obtain ws where w: "l1_multi_get ks t d = (ws, c')" "vs = v # ws" using Cons.prems g by (auto split: prod.splits)
  from simulates_get_at[OF Cons.prems(1) g] Cons.IH[OF _ w(1)] w(2) show ?case by simp
qed simp

lemma simulates_delete: "simulates c a \<Longrightarrow> simulates (l1_delete k c) (forget k a)"
  by (auto simp: simulates_def l1_wf_def l1_delete_def l1_pop_def forget_def map_of_filter_key distinct_map_filter map_le_def
      intro: le_trans[OF length_filter_le])

lemma simulates_set:
  assumes "simulates c a"
  shows "simulates (l1_set k v ttl t c) (if ttl \<le> 0 \<or> v = None then forget k a else remember k (the v) (t + ttl) a)"
proof (cases "ttl \<le> 0 \<or> v = None")
  case True
  with simulates_delete[OF assms] show ?thesis by (auto simp: l1_set_def)
next
  case False
  then obtain x where x: "v = Some x" "0 < ttl" by auto
  define d where "d = filter (\<lambda>e. fst e \<noteq> k) (l1_data c) @ [(k, t + ttl, x)]"
  define e where "e = drop (length d - l1_maxsize c) d"
  have dist: "distinct (map fst d)" unfolding d_def using assms by (intro distinct_filter_snoc) (simp add: simulates_def l1_wf_def)
  have "map_of d \<subseteq>\<^sub>m (remembered a)(k \<mapsto> (t + ttl, x))"
    unfolding d_def map_of_filter_snoc using assms by (auto simp: simulates_def map_le_def)
  then have le: "map_of e \<subseteq>\<^sub>m (remembered a)(k \<mapsto> (t + ttl, x))"
    unfolding e_def by (rule map_le_trans[OF map_of_drop[OF dist]])
  have "length e \<le> l1_maxsize c" by (simp add: e_def)
  moreover have "distinct (map fst e)" unfolding e_def using dist by (metis distinct_drop drop_map)
  moreover have "l1_set k v ttl t c = c\<lparr>l1_data := e\<rparr>"
    using x by (simp add: l1_set_def l1_put_last_def evict_drop Let_def e_def d_def del: drop_append)
  ultimately show ?thesis using assms x le by (simp add: simulates_def l1_wf_def remember_def)
qed

lemma simulation_step:
  assumes "simulates c a" and "l1_step p t c = (r, c')"
  shows "\<exists>b. memory_step p t r a b \<and> simulates c' b"
proof (cases p)
  case (Set k v ttl)
  show ?thesis
  proof (cases "ttl \<le> 0 \<or> v = None")
    case True
    with assms Set simulates_set[OF assms(1), of k v ttl t] show ?thesis by (auto intro: memory_step.set_nothing)
  next
    case False
    then obtain x where "v = Some x" "0 < ttl" by auto
    with assms Set simulates_set[OF assms(1), of k v ttl t] show ?thesis by (auto intro: memory_step.set_value)
  qed
next
  case (Set_if_unchanged k v ttl rev t')
  show ?thesis
  proof (cases "ttl \<le> 0 \<or> v = None \<or> rev \<noteq> l1_revision c")
    case True
    with assms Set_if_unchanged show ?thesis by (auto simp: l1_set_if_unchanged_def intro: memory_step.not_filled)
  next
    case False
    obtain w d where g: "get_at k t c = (w, d)" by (cases "get_at k t c")
    note sd = simulates_get_at[OF assms(1) g]
    show ?thesis
    proof (cases w)
      case None
      from False obtain x where x: "v = Some x" "0 < ttl" "rev = invalidations a" using assms(1) by (auto simp: simulates_def)
      then have "simulates (l1_set k v ttl t' d) (remember k x (t' + ttl) a)" using simulates_set[of d a k v ttl t'] sd by auto
      with assms Set_if_unchanged False g None x show ?thesis
        by (intro exI[of _ "remember k x (t' + ttl) a"]) (auto simp: l1_set_if_unchanged_def simulates_def intro: memory_step.filled)
    next
      case (Some y)
      with assms Set_if_unchanged False g sd show ?thesis
        by (auto simp: l1_set_if_unchanged_def intro: memory_step.not_filled)
    qed
  qed
next
  case (Get k)
  with assms show ?thesis
    by (auto simp: l1_get_def split: prod.splits dest!: simulates_get_at[OF assms(1)] intro: memory_step.get)
next
  case (Multi_get ks)
  with assms show ?thesis
    by (auto split: prod.splits dest!: simulates_multi_get[OF assms(1)] intro: memory_step.multi_get)
next
  case Revision
  with assms show ?thesis by (auto simp: simulates_def intro: memory_step.revision)
next
  case (Del k)
  with assms simulates_delete show ?thesis by (auto intro: memory_step.del)
next
  case Clear_all
  with assms show ?thesis
    by (auto simp: simulates_def l1_wf_def l1_clear_def forget_all_def intro!: exI[of _ "forget_all a"] memory_step.clear_all)
next
  case Size
  with assms show ?thesis by (auto intro: memory_step.count)
next
  case (Reset_to m)
  with assms show ?thesis
    by (auto simp: simulates_def l1_wf_def l1_reset_def forget_all_def intro!: exI[of _ "forget_all a"] memory_step.reset_to)
qed

text \<open>C26: The cache refines a map that may forget.  Every sequence of operations at any times is answered as the
  specification allows: a value is shown only if it was the last one written under its key, nothing was deleted or
  cleared since, and it is not overdue; a backfill happens only if no invalidation came between; and the cache
  stays well formed, with distinct keys and never more entries than its bound.\<close>

theorem cache_refines_memory:
  assumes "simulates c a"
  shows "\<exists>b. memory_run ops (fst (l1_run ops c)) a b \<and> simulates (snd (l1_run ops c)) b
    \<and> length (l1_data (snd (l1_run ops c))) \<le> l1_maxsize (snd (l1_run ops c))"
proof -
  have "\<exists>b. memory_run ops (fst (l1_run ops c)) a b \<and> simulates (snd (l1_run ops c)) b"
    using assms
  proof (induction ops arbitrary: c a)
    case Nil
    then show ?case by (auto intro: memory_run.none)
  next
    case (Cons p ops)
    obtain op t where p: "p = (op, t)" by (cases p)
    obtain r d where r: "l1_step op t c = (r, d)" by (cases "l1_step op t c")
    from simulation_step[OF Cons.prems r] obtain b where b: "memory_step op t r a b" "simulates d b" by blast
    from Cons.IH[OF b(2)] obtain e where "memory_run ops (fst (l1_run ops d)) b e" "simulates (snd (l1_run ops d)) e" by blast
    with b(1) r p show ?case by (auto simp: case_prod_unfold Let_def intro: memory_run.step)
  qed
  then show ?thesis by (auto simp: simulates_def l1_wf_def)
qed

section \<open>Recently used entries stay\<close>

fun op_keys :: "'v l1_op \<Rightarrow> string set" where
  "op_keys (Get k) = {k}"
| "op_keys (Multi_get ks) = set ks"
| "op_keys (Set k v ttl) = {k}"
| "op_keys (Set_if_unchanged k v ttl r t') = {k}"
| "op_keys (Del k) = {k}"
| "op_keys _ = {}"

text \<open>Operations that do not write or remove the entry of a key.\<close>

fun spares :: "string \<Rightarrow> 'v l1_op \<Rightarrow> bool" where
  "spares k (Set j v ttl) \<longleftrightarrow> j \<noteq> k"
| "spares k (Set_if_unchanged j v ttl r t') \<longleftrightarrow> j \<noteq> k"
| "spares k (Del j) \<longleftrightarrow> j \<noteq> k"
| "spares k Clear_all \<longleftrightarrow> False"
| "spares k (Reset_to m) \<longleftrightarrow> False"
| "spares k _ \<longleftrightarrow> True"

definition recent :: "string \<Rightarrow> int \<times> 'v \<Rightarrow> string set \<Rightarrow> 'v l1_cache \<Rightarrow> bool" where
  "recent k item K c \<longleftrightarrow> distinct (map fst (l1_data c))
     \<and> (\<exists>xs ys. l1_data c = xs @ (k, item) # ys \<and> fst ` set ys \<subseteq> K - {k})"

lemma recent_mono: "recent k item K c \<Longrightarrow> K \<subseteq> K' \<Longrightarrow> recent k item K' c"
  unfolding recent_def by blast

lemma recent_lookup: "recent k item K c \<Longrightarrow> map_of (l1_data c) k = Some item"
  unfolding recent_def by auto

lemma recent_pop: "recent k item K c \<Longrightarrow> j \<noteq> k \<Longrightarrow> recent k item K (l1_pop j c)"
proof -
  assume r: "recent k item K c" and j: "j \<noteq> k"
  then obtain xs ys where xy: "l1_data c = xs @ (k, item) # ys" "fst ` set ys \<subseteq> K - {k}" and d: "distinct (map fst (l1_data c))"
    unfolding recent_def by blast
  have "l1_data (l1_pop j c) = filter (\<lambda>e. fst e \<noteq> j) xs @ (k, item) # filter (\<lambda>e. fst e \<noteq> j) ys"
    using xy(1) j by (simp add: l1_pop_def)
  moreover have "fst ` set (filter (\<lambda>e. fst e \<noteq> j) ys) \<subseteq> K - {k}" using xy(2) by auto
  moreover have "distinct (map fst (l1_data (l1_pop j c)))" using d by (simp add: l1_pop_def distinct_map_filter)
  ultimately show ?thesis unfolding recent_def by blast
qed

lemma recent_put: "recent k item K c \<Longrightarrow> j \<noteq> k \<Longrightarrow> recent k item (insert j K) (l1_put_last j e c)"
proof -
  assume r: "recent k item K c" and j: "j \<noteq> k"
  then obtain xs ys where xy: "l1_data c = xs @ (k, item) # ys" "fst ` set ys \<subseteq> K - {k}" and d: "distinct (map fst (l1_data c))"
    unfolding recent_def by blast
  have "l1_data (l1_put_last j e c) = filter (\<lambda>e. fst e \<noteq> j) xs @ (k, item) # (filter (\<lambda>e. fst e \<noteq> j) ys @ [(j, e)])"
    using xy(1) j by (simp add: l1_put_last_def)
  moreover have "fst ` set (filter (\<lambda>e. fst e \<noteq> j) ys @ [(j, e)]) \<subseteq> insert j K - {k}" using xy(2) j by auto
  moreover have "distinct (map fst (l1_data (l1_put_last j e c)))" unfolding l1_put_last_def using distinct_filter_snoc[OF d, of j e] by simp
  ultimately show ?thesis unfolding recent_def by blast
qed

lemma recent_touch: "recent k item K c \<Longrightarrow> recent k item K (l1_put_last k item c)"
proof -
  assume "recent k item K c"
  then have "distinct (map fst (l1_data (l1_put_last k item c)))"
    unfolding recent_def l1_put_last_def using distinct_filter_snoc[of "l1_data c" k item] by simp
  moreover have "l1_data (l1_put_last k item c) = filter (\<lambda>e. fst e \<noteq> k) (l1_data c) @ (k, item) # []"
    by (simp add: l1_put_last_def)
  ultimately show ?thesis
    unfolding recent_def by (intro conjI exI[of _ "filter (\<lambda>e. fst e \<noteq> k) (l1_data c)"] exI[of _ "[]"]) simp_all
qed

lemma recent_get_at:
  assumes "recent k (d, v) K c" and "t < d" and "get_at j t c = (w, c')"
  shows "recent k (d, v) (insert j K) c' \<and> (j = k \<longrightarrow> w = Some v)"
proof (cases "j = k")
  case True
  with assms recent_lookup[OF assms(1)] recent_touch[OF assms(1)] show ?thesis
    by (auto simp: get_at_def intro: recent_mono)
next
  case False
  then show ?thesis
    using assms recent_pop[OF assms(1) False] recent_put[OF assms(1) False]
    by (auto simp: get_at_def intro: recent_mono split: option.splits prod.splits if_splits)
qed

lemma recent_multi_get:
  "recent k (d, v) K c \<Longrightarrow> t < d \<Longrightarrow> l1_multi_get js t c = (ws, c') \<Longrightarrow> recent k (d, v) (set js \<union> K) c'"
proof (induction js arbitrary: c ws K)
  case (Cons j js)
  obtain w e where g: "get_at j t c = (w, e)" by (cases "get_at j t c")
  obtain us where u: "l1_multi_get js t e = (us, c')" using Cons.prems(3) g by (auto split: prod.splits)
  from recent_get_at[OF Cons.prems(1,2) g] Cons.IH[OF _ Cons.prems(2) u, of "insert j K"] show ?case
    by (auto intro: recent_mono)
qed simp

lemma recent_evict:
  assumes "recent k item K c" and "finite K" and "card (K - {k}) < m"
  shows "recent k item K (c\<lparr>l1_data := evict m (l1_data c)\<rparr>)"
proof -
  from assms(1) obtain xs ys where xy: "l1_data c = xs @ (k, item) # ys" "fst ` set ys \<subseteq> K - {k}" and d: "distinct (map fst (l1_data c))"
    unfolding recent_def by blast
  have "distinct (map fst ys)" using d xy(1) by simp
  then have "length ys = card (fst ` set ys)" by (metis distinct_card length_map list.set_map)
  also have "\<dots> \<le> card (K - {k})" using xy(2) assms(2) by (intro card_mono) auto
  finally have "length ys < m" using assms(3) by simp
  then have "length (l1_data c) - m \<le> length xs" using xy(1) by simp
  then have "evict m (l1_data c) = drop (length (l1_data c) - m) xs @ (k, item) # ys" using xy(1) by (simp add: evict_drop)
  moreover have "distinct (map fst (evict m (l1_data c)))" unfolding evict_drop using d by (metis distinct_drop drop_map)
  ultimately show ?thesis unfolding recent_def using xy(2) by auto
qed

lemma recent_set:
  assumes "recent k item K c" and "j \<noteq> k" and "finite K" and "card (insert j K - {k}) < l1_maxsize c"
  shows "recent k item (insert j K) (l1_set j v ttl t c)"
proof (cases "ttl \<le> 0 \<or> v = None")
  case True
  have "recent k item K (c\<lparr>l1_revision := Suc (l1_revision c)\<rparr>)" using assms(1) by (simp add: recent_def)
  with recent_pop[OF this assms(2)] True show ?thesis by (auto simp: l1_set_def l1_delete_def intro: recent_mono)
next
  case False
  then obtain x where x: "v = Some x" "0 < ttl" by auto
  have "recent k item (insert j K) (l1_put_last j (t + ttl, x) c)" by (rule recent_put[OF assms(1,2)])
  from recent_evict[OF this _ assms(4)] assms(3) x show ?thesis by (simp add: l1_set_def Let_def l1_put_last_def)
qed

lemma get_at_maxsize: "get_at j t c = (w, c') \<Longrightarrow> l1_maxsize c' = l1_maxsize c"
  by (auto simp: get_at_def l1_pop_def l1_put_last_def split: option.splits prod.splits if_splits)

lemma l1_set_maxsize: "l1_maxsize (l1_set j v ttl t c) = l1_maxsize c"
  by (simp add: l1_set_def l1_delete_def l1_pop_def l1_put_last_def Let_def)

lemma multi_get_maxsize: "l1_multi_get js t c = (ws, c') \<Longrightarrow> l1_maxsize c' = l1_maxsize c"
  by (induction js arbitrary: c ws) (auto split: prod.splits dest: get_at_maxsize)

lemma recent_step:
  assumes "recent k (d, v) K c" and "spares k p" and "t < d" and "finite K" and "card (op_keys p \<union> K - {k}) < l1_maxsize c"
    and "l1_step p t c = (r, c')"
  shows "recent k (d, v) (op_keys p \<union> K) c' \<and> l1_maxsize c' = l1_maxsize c"
proof (cases p)
  case (Get j)
  with assms show ?thesis by (auto simp: l1_get_def split: prod.splits dest: recent_get_at get_at_maxsize)
next
  case (Multi_get js)
  with assms show ?thesis by (auto split: prod.splits dest: recent_multi_get multi_get_maxsize)
next
  case (Set j w ttl)
  with assms recent_set[OF assms(1), of j w ttl t] show ?thesis by (auto simp: l1_set_maxsize)
next
  case (Set_if_unchanged j w ttl rev t')
  obtain x e where g: "get_at j t c = (x, e)" by (cases "get_at j t c")
  have "recent k (d, v) (insert j K) e" using recent_get_at[OF assms(1,3) g] by simp
  with Set_if_unchanged assms g recent_set[of k "(d, v)" "insert j K" e j w ttl t'] get_at_maxsize[OF g]
  show ?thesis by (auto simp: l1_set_if_unchanged_def l1_set_maxsize intro: recent_mono split: if_splits)
next
  case (Del j)
  have "recent k (d, v) K (c\<lparr>l1_revision := Suc (l1_revision c)\<rparr>)" using assms(1) by (simp add: recent_def)
  with recent_pop[OF this, of j] assms Del show ?thesis by (auto simp: l1_delete_def l1_pop_def intro: recent_mono)
qed (use assms in auto)

text \<open>The cache evicts only what was not used recently.  After a value was written with a positive lifetime, as long as
  nobody writes, deletes or clears its entry, its lifetime lasts, and fewer other keys than the cache has room for
  have been asked for or written, reading the key returns the value.\<close>

theorem recent_entries_stay:
  assumes "l1_wf c" and "0 < ttl" and "c' = snd (l1_run ops (l1_set k (Some v) ttl t c))"
    and "\<forall>(p, u) \<in> set ops. spares k p \<and> u < t + ttl"
    and "card ((\<Union>(p, u) \<in> set ops. op_keys p) - {k}) < l1_maxsize c" and "u < t + ttl"
  shows "fst (l1_get k u c') = Some v"
proof -
  let ?c = "l1_set k (Some v) ttl t c" and ?item = "(t + ttl, v)"
  have start: "recent k ?item {} ?c"
  proof -
    have "recent k ?item {} (l1_put_last k ?item c)"
      using assms(1) distinct_filter_snoc[of "l1_data c" k ?item]
      unfolding recent_def l1_wf_def l1_put_last_def by auto
    from recent_evict[OF this, of "l1_maxsize c"] assms(1,2) show ?thesis
      by (simp add: l1_set_def Let_def l1_put_last_def l1_wf_def)
  qed
  have "recent k ?item ((\<Union>(p, u) \<in> set ps. op_keys p) \<union> K) (snd (l1_run ps e))"
    if "recent k ?item K e" "\<forall>(p, u) \<in> set ps. spares k p \<and> u < t + ttl" "finite K"
      "card ((\<Union>(p, u) \<in> set ps. op_keys p) \<union> K - {k}) < l1_maxsize e" for ps K and e :: "'a l1_cache"
    using that
  proof (induction ps arbitrary: K e)
    case (Cons a ps)
    obtain p u where a: "a = (p, u)" by (cases a)
    obtain r f where f: "l1_step p u e = (r, f)" by (cases "l1_step p u e")
    have fin: "finite (op_keys q)" for q :: "'a l1_op" by (cases q) auto
    have sub: "op_keys p \<union> K - {k} \<subseteq> (\<Union>(p, u) \<in> set (a # ps). op_keys p) \<union> K - {k}" using a by auto
    have "card (op_keys p \<union> K - {k}) \<le> card ((\<Union>(p, u) \<in> set (a # ps). op_keys p) \<union> K - {k})"
      by (rule card_mono[OF _ sub]) (use Cons.prems(3) fin in \<open>auto split: prod.splits\<close>)
    then have "card (op_keys p \<union> K - {k}) < l1_maxsize e" using Cons.prems(4) by simp
    from recent_step[OF Cons.prems(1) _ _ Cons.prems(3) this f] Cons.prems(2) a
    have n: "recent k ?item (op_keys p \<union> K) f" "l1_maxsize f = l1_maxsize e" by auto
    have "(\<Union>(p, u) \<in> set ps. op_keys p) \<union> (op_keys p \<union> K) = (\<Union>(p, u) \<in> set (a # ps). op_keys p) \<union> K" using a by auto
    with Cons.IH[OF n(1)] Cons.prems fin n(2) a f show ?case by (simp add: case_prod_unfold Let_def)
  qed simp
  from this[OF start assms(4)] assms(5) have "recent k ?item ((\<Union>(p, u) \<in> set ops. op_keys p) \<union> {}) c'"
    unfolding assms(3) by (simp add: l1_set_maxsize)
  from recent_get_at[OF this assms(6)] show ?thesis by (cases "get_at k u c'") (auto simp: l1_get_def)
qed

definition cache0 :: "nat l1_cache" where "cache0 = \<lparr>l1_data = [], l1_maxsize = 2, l1_revision = 0\<rparr>"

lemma cache_refines_memory_witness:
  "\<exists>b. memory_run [(Set ''a'' (Some 1) 10, 0), (Get ''a'', 5), (Get ''a'', 10)] [O_unit, O_value (Some (1::nat)), O_value None]
     \<lparr>remembered = Map.empty, invalidations = 0\<rparr> b"
proof -
  have s: "simulates cache0 \<lparr>remembered = Map.empty, invalidations = 0\<rparr>"
    by (simp add: simulates_def l1_wf_def cache0_def)
  let ?ops = "[(Set ''a'' (Some 1) 10, 0), (Get ''a'', 5), (Get ''a'', 10)] :: (nat l1_op \<times> int) list"
  have e: "fst (l1_run ?ops cache0) = [O_unit, O_value (Some 1), O_value None]"
    by (simp add: l1_set_def l1_get_def get_at_def l1_put_last_def l1_pop_def cache0_def Let_def)
  from cache_refines_memory[OF s, of ?ops] show ?thesis unfolding e by fast
qed

lemma recent_entries_stay_witness:
  "fst (l1_get ''a'' 9 (snd (l1_run [(Set ''b'' (Some 2) 10, 1), (Get ''b'', 2)] (l1_set ''a'' (Some 1) 10 0 cache0)))) = Some 1"
proof -
  have w: "l1_wf cache0" by (simp add: l1_wf_def cache0_def)
  have "{''b''} - {''a''} = {''b''}" by auto
  then show ?thesis
    by (intro recent_entries_stay[OF w _ refl]) (simp_all add: cache0_def)
qed

end
