(* ===== verification/Exam.thy ===== *)
theory Exam
  imports Auth_Safety File_Store Content_Store "HOL-Library.Product_Lexorder"
begin

text \<open>
  Exams and competitions: making them, taking an attempt, handing it in to be graded, the certificate and the unlocked level
  or role that a passed attempt earns, and the leaderboard (\<open>app/modules/exam/service.py\<close>, \<open>repository.py\<close>,
  \<open>schemas.py\<close>, \<open>router.py\<close>, \<open>read_api.py\<close>).  Requests run one after another, each in a session that is rolled back
  when it raises; \<open>exam_inv\<close> is what they all keep.
\<close>

section \<open>Tables\<close>

record exam =
  ex_id :: uuid
  ex_type :: string
  ex_title :: string
  ex_subject :: string
  ex_difficulty :: int
  ex_description :: "string option"
  ex_pass_score :: int
  ex_time_limit_min :: int
  ex_is_published :: bool
  ex_unlock_level :: "string option"
  ex_unlock_role :: "string option"
  ex_starts_at :: "instant option"
  ex_ends_at :: "instant option"
  ex_created_at :: instant
  ex_updated_at :: instant

record exam_question =
  eq_id :: uuid
  eq_exam_id :: uuid
  eq_kind :: string
  eq_content :: string
  eq_options :: "(string \<times> string) list list"
  eq_answer :: string
  eq_analysis :: "string option"
  eq_difficulty :: int
  eq_score :: int
  eq_sort_order :: int

record exam_attempt =
  ea_id :: uuid
  ea_exam_id :: uuid
  ea_user_id :: uuid
  ea_status :: string
  ea_answers :: "(uuid \<times> string) list"
  ea_score :: int
  ea_passed :: bool
  ea_started_at :: instant
  ea_submitted_at :: "instant option"
  ea_time_spent_s :: int

record exam_certificate =
  ec_id :: uuid
  ec_exam_id :: uuid
  ec_user_id :: uuid
  ec_score :: int
  ec_passed :: bool
  ec_cert_no :: string
  ec_issued_at :: instant

text \<open>Exams share their database, and a transaction, with the accounts whose level they raise.\<close>

record exam_db = auth_db +
  exams :: "exam list"
  exam_questions :: "exam_question list"
  exam_attempts :: "exam_attempt list"
  exam_certificates :: "exam_certificate list"

definition exam_roll_back :: "'s exam_db_scheme \<Rightarrow> 's exam_db_scheme \<Rightarrow> 's exam_db_scheme" where
  "exam_roll_back before s = (roll_back before s)\<lparr>exams := exams before, exam_questions := exam_questions before,
     exam_attempts := exam_attempts before, exam_certificates := exam_certificates before\<rparr>"

definition exam_session :: "(string \<times> errcode) list \<Rightarrow> ('s exam_db_scheme, 'a) act \<Rightarrow> ('s exam_db_scheme, 'a) act" where
  "exam_session reg work s =
     (case work s of
        (Inr a, s') \<Rightarrow> (Inr a, s')
      | (Inl e, s') \<Rightarrow> (Inl (session_exc reg e), exam_roll_back s s'))"

section \<open>Making exams\<close>

record question_create =
  qc_kind :: string
  qc_content :: string
  qc_options :: "(string \<times> string) list list"
  qc_answer :: string
  qc_analysis :: "string option"
  qc_difficulty :: int
  qc_score :: int

record exam_create =
  xc_type :: string
  xc_title :: string
  xc_subject :: string
  xc_difficulty :: int
  xc_description :: "string option"
  xc_pass_score :: int
  xc_time_limit_min :: int
  xc_unlock_level :: "string option"
  xc_unlock_role :: "string option"
  xc_starts_at :: "instant option"
  xc_ends_at :: "instant option"
  xc_questions :: "question_create list"

text \<open>What the schemas accept.\<close>

definition opt_max :: "nat \<Rightarrow> string option \<Rightarrow> bool" where
  "opt_max n x \<longleftrightarrow> (case x of None \<Rightarrow> True | Some t \<Rightarrow> length t \<le> n)"

definition question_ok :: "question_create \<Rightarrow> bool" where
  "question_ok q \<longleftrightarrow>
     qc_kind q \<in> {''single'', ''judge''} \<and> qc_content q \<noteq> [] \<and> qc_answer q \<noteq> [] \<and> length (qc_answer q) \<le> 200
     \<and> opt_max 2000 (qc_analysis q) \<and> 1 \<le> qc_difficulty q \<and> qc_difficulty q \<le> 3 \<and> 1 \<le> qc_score q
     \<and> (qc_kind q = ''single'' \<longrightarrow> list_ex (\<lambda>opt. map_of opt ''key'' = Some (qc_answer q)) (qc_options q))"

definition exam_create_ok :: "exam_create \<Rightarrow> bool" where
  "exam_create_ok x \<longleftrightarrow>
     xc_type x \<in> {''exam'', ''competition''} \<and> xc_title x \<noteq> [] \<and> length (xc_title x) \<le> 200 \<and> length (xc_subject x) \<le> 50
     \<and> 1 \<le> xc_difficulty x \<and> xc_difficulty x \<le> 3 \<and> opt_max 2000 (xc_description x) \<and> 1 \<le> xc_pass_score x
     \<and> 1 \<le> xc_time_limit_min x \<and> xc_unlock_level x \<in> {None, Some ''local'', Some ''normal'', Some ''admin''}
     \<and> opt_max 20 (xc_unlock_role x)
     \<and> (case (xc_starts_at x, xc_ends_at x) of (Some a, Some b) \<Rightarrow> a < b | _ \<Rightarrow> True)
     \<and> list_all question_ok (xc_questions x) \<and> xc_questions x \<noteq> []
     \<and> xc_pass_score x \<le> sum_list (map qc_score (xc_questions x))"

definition exam_question_row :: "uuid \<Rightarrow> uuid \<Rightarrow> int \<Rightarrow> question_create \<Rightarrow> exam_question" where
  "exam_question_row i exam_id idx q =
     \<lparr>eq_id = i, eq_exam_id = exam_id, eq_kind = qc_kind q, eq_content = qc_content q, eq_options = qc_options q,
      eq_answer = qc_answer q, eq_analysis = qc_analysis q, eq_difficulty = qc_difficulty q, eq_score = qc_score q,
      eq_sort_order = idx\<rparr>"

fun add_questions :: "uuid \<Rightarrow> int \<Rightarrow> question_create list \<Rightarrow> ('s exam_db_scheme, unit) act" where
  "add_questions exam_id idx [] = retA ()"
| "add_questions exam_id idx (q # qs) =
     bindA (\<lambda>s. let (i, s) = fresh_pk s in (Inr i, s)) (\<lambda>i.
     seqA (\<lambda>s. if list_ex (\<lambda>x. eq_id x = i) (exam_questions s) then (Inl (IntegrityError True None), s)
               else (Inr (), s\<lparr>exam_questions := exam_questions s @ [exam_question_row i exam_id idx q]\<rparr>))
    (add_questions exam_id (idx + 1) qs))"

definition create_exam_ex :: "exam_create \<Rightarrow> ('s exam_db_scheme, uuid) act" where
  "create_exam_ex x s =
     (let (i, s) = fresh_pk s;
          e = \<lparr>ex_id = i, ex_type = xc_type x, ex_title = xc_title x, ex_subject = xc_subject x,
               ex_difficulty = xc_difficulty x, ex_description = xc_description x, ex_pass_score = xc_pass_score x,
               ex_time_limit_min = xc_time_limit_min x, ex_is_published = False, ex_unlock_level = xc_unlock_level x,
               ex_unlock_role = xc_unlock_role x, ex_starts_at = xc_starts_at x, ex_ends_at = xc_ends_at x,
               ex_created_at = now s, ex_updated_at = now s\<rparr>
      in if list_ex (\<lambda>x. ex_id x = i) (exams s) then (Inl (IntegrityError True None), s)
         else seqA (add_questions i 0 (xc_questions x)) (retA i) (s\<lparr>exams := exams s @ [e]\<rparr>))"

section \<open>Looking at exams\<close>

definition get_exam :: "uuid \<Rightarrow> 's exam_db_scheme \<Rightarrow> exam option" where
  "get_exam i s = find (\<lambda>e. ex_id e = i) (exams s)"

definition questions_of :: "uuid \<Rightarrow> 's exam_db_scheme \<Rightarrow> exam_question list" where
  "questions_of i s = filter (\<lambda>q. eq_exam_id q = i) (exam_questions s)"

definition get_with_questions_or_raise :: "uuid \<Rightarrow> ('s exam_db_scheme, exam) act" where
  "get_with_questions_or_raise i s = (optR (BizError (ExamErr EXAM_NOT_FOUND)) (get_exam i s), s)"

definition list_exams :: "nat \<Rightarrow> nat \<Rightarrow> string option \<Rightarrow> 's exam_db_scheme \<Rightarrow> exam list \<times> nat" where
  "list_exams page limit wanted s =
     (let rows = filter (\<lambda>e. ex_is_published e \<and> (wanted \<in> {None, Some []} \<or> Some (ex_type e) = wanted)) (exams s)
      in (take limit (drop ((page - 1) * limit) (sort_key (\<lambda>e. - uint (ex_id e)) rows)), length rows))"

section \<open>Taking exams\<close>

text \<open>
  \<open>str.upper\<close> on the first 256 characters: a sharp s becomes two letters; the micro sign and y with diaeresis, whose
  capitals lie outside and belong to no other of these characters, stay as they are.
\<close>

definition upper_char :: "char \<Rightarrow> string" where
  "upper_char c =
     (let n = of_char c :: nat
      in if (97 \<le> n \<and> n \<le> 122) \<or> (224 \<le> n \<and> n \<le> 254 \<and> n \<noteq> 247) then [char_of (n - 32)]
         else if n = 223 then ''SS'' else [c])"

definition upper :: "string \<Rightarrow> string" where
  "upper t = concat (map upper_char t)"

definition answer_right :: "(uuid \<times> string) list \<Rightarrow> exam_question \<Rightarrow> bool" where
  "answer_right answers q \<longleftrightarrow>
     (case map_of answers (eq_id q) of None \<Rightarrow> False | Some a \<Rightarrow> upper (py_strip a) = upper (py_strip (eq_answer q)))"

fun score_attempt :: "exam_question list \<Rightarrow> (uuid \<times> string) list \<Rightarrow> int \<times> (uuid \<times> bool) list" where
  "score_attempt [] answers = (0, [])"
| "score_attempt (q # qs) answers =
     (let (total, per_q) = score_attempt qs answers; correct = answer_right answers q
      in (if correct then eq_score q + total else total, (eq_id q, correct) # per_q))"

definition check_window :: "exam \<Rightarrow> instant \<Rightarrow> exc + unit" where
  "check_window e t =
     (if ex_starts_at e = None \<and> ex_ends_at e = None then Inr ()
      else if (case ex_starts_at e of Some a \<Rightarrow> t < a | None \<Rightarrow> False) then Inl (BizError (ExamErr EXAM_NOT_OPEN))
      else if (case ex_ends_at e of Some b \<Rightarrow> b < t | None \<Rightarrow> False) then Inl (BizError (ExamErr EXAM_NOT_OPEN))
      else Inr ())"

definition timed :: "exam \<Rightarrow> bool" where
  "timed e \<longleftrightarrow> ex_time_limit_min e \<noteq> 0 \<and> ex_starts_at e = None \<and> ex_ends_at e = None"

definition check_attempt_deadline :: "exam_attempt \<Rightarrow> exam \<Rightarrow> instant \<Rightarrow> exc + unit" where
  "check_attempt_deadline a e t =
     (if \<not> timed e then Inr ()
      else if ea_started_at a + seconds (60 * ex_time_limit_min e) < t then Inl (BizError (ExamErr EXAM_NOT_OPEN))
      else Inr ())"

definition unlocks :: "exam \<Rightarrow> bool" where
  "unlocks e \<longleftrightarrow> \<not> (ex_unlock_level e \<in> {None, Some []} \<and> ex_unlock_role e \<in> {None, Some []})"

definition passed_exists :: "uuid \<Rightarrow> uuid \<Rightarrow> 's exam_db_scheme \<Rightarrow> bool" where
  "passed_exists exam_id user_id s \<longleftrightarrow>
     list_ex (\<lambda>c. ec_exam_id c = exam_id \<and> ec_user_id c = user_id \<and> ec_passed c) (exam_certificates s)"

definition check_not_passed :: "exam \<Rightarrow> uuid \<Rightarrow> uuid \<Rightarrow> ('s exam_db_scheme, unit) act" where
  "check_not_passed e exam_id user_id s =
     (if unlocks e \<and> passed_exists exam_id user_id s then Inl (BizError (ExamErr EXAM_ALREADY_PASSED)) else Inr (), s)"

record attempt_start =
  as_attempt_id :: uuid
  as_questions :: "exam_question list"
  as_deadline :: "instant option"

text \<open>A question as it is shown: without its answer and analysis.\<close>

definition question_for_attempt :: "exam_question \<Rightarrow> exam_question" where
  "question_for_attempt q = q\<lparr>eq_answer := [], eq_analysis := None\<rparr>"

definition start_attempt :: "uuid \<Rightarrow> uuid \<Rightarrow> ('s exam_db_scheme, attempt_start) act" where
  "start_attempt exam_id user_id =
     bindA (get_with_questions_or_raise exam_id) (\<lambda>e.
     seqA (guardA (ex_is_published e) (BizError (ExamErr EXAM_NOT_PUBLISHED)))
    (seqA (\<lambda>s. (check_window e (now s), s))
    (seqA (check_not_passed e exam_id user_id)
    (\<lambda>s. let (i, s) = fresh_pk s;
             a = \<lparr>ea_id = i, ea_exam_id = exam_id, ea_user_id = user_id, ea_status = ''in_progress'', ea_answers = [],
                  ea_score = 0, ea_passed = False, ea_started_at = now s, ea_submitted_at = None, ea_time_spent_s = 0\<rparr>
         in if list_ex (\<lambda>x. ea_id x = i) (exam_attempts s) then (Inl (IntegrityError True None), s)
            else (Inr \<lparr>as_attempt_id = i,
                       as_questions = map question_for_attempt (sort_key eq_sort_order (questions_of exam_id s)),
                       as_deadline = if timed e then Some (now s + seconds (60 * ex_time_limit_min e)) else None\<rparr>,
                  s\<lparr>exam_attempts := exam_attempts s @ [a]\<rparr>)))))"

definition get_attempt :: "uuid \<Rightarrow> 's exam_db_scheme \<Rightarrow> exam_attempt option" where
  "get_attempt i s = find (\<lambda>a. ea_id a = i) (exam_attempts s)"

definition attempt_or_raise :: "uuid \<Rightarrow> ('s exam_db_scheme, exam_attempt) act" where
  "attempt_or_raise i s = (optR (BizError (ExamErr ATTEMPT_NOT_FOUND)) (get_attempt i s), s)"

definition update_attempt :: "uuid \<Rightarrow> (exam_attempt \<Rightarrow> exam_attempt) \<Rightarrow> 's exam_db_scheme \<Rightarrow> 's exam_db_scheme" where
  "update_attempt i g s = s\<lparr>exam_attempts := map (\<lambda>a. if ea_id a = i then g a else a) (exam_attempts s)\<rparr>"

definition submitted :: "(uuid \<times> string) list \<Rightarrow> int \<Rightarrow> bool \<Rightarrow> instant \<Rightarrow> exam_attempt \<Rightarrow> exam_attempt" where
  "submitted answers score passed t a =
     a\<lparr>ea_status := ''submitted'', ea_answers := answers, ea_score := score, ea_passed := passed,
       ea_submitted_at := Some t, ea_time_spent_s := sgn (t - ea_started_at a) * (\<bar>t - ea_started_at a\<bar> div 1000000)\<rparr>"

text \<open>A certificate number is the first half of a random one and unique.\<close>

definition issue_certificate :: "uuid \<Rightarrow> uuid \<Rightarrow> int \<Rightarrow> ('s exam_db_scheme, uuid) act" where
  "issue_certificate exam_id user_id score s =
     (let (no, s) = fresh_hex s;
          (i, s) = fresh_pk s;
          c = \<lparr>ec_id = i, ec_exam_id = exam_id, ec_user_id = user_id, ec_score = score, ec_passed = True,
               ec_cert_no = take 16 no, ec_issued_at = now s\<rparr>
      in if list_ex (\<lambda>x. ec_id x = i \<or> ec_cert_no x = ec_cert_no c) (exam_certificates s)
         then (Inl (IntegrityError True None), s)
         else (Inr i, s\<lparr>exam_certificates := exam_certificates s @ [c]\<rparr>))"

definition apply_unlock :: "auth_config \<Rightarrow> exam \<Rightarrow> uuid \<Rightarrow> ('s exam_db_scheme, unit) act" where
  "apply_unlock cf e user_id =
     (if \<not> unlocks e then retA ()
      else bindA (grant_exam_unlock cf user_id (ex_unlock_level e) (ex_unlock_role e)) (\<lambda>_. retA ()))"

record submit_result =
  sr_score :: int
  sr_passed :: bool
  sr_certificate :: "uuid option"

definition submit_attempt :: "auth_config \<Rightarrow> uuid \<Rightarrow> uuid \<Rightarrow> (uuid \<times> string) list \<Rightarrow> ('s exam_db_scheme, submit_result) act" where
  "submit_attempt cf attempt_id user_id answers =
     bindA (attempt_or_raise attempt_id) (\<lambda>a.
     seqA (guardA (ea_user_id a = user_id) (BizError (CommonErr common_err.FORBIDDEN)))
    (seqA (guardA (ea_status a \<noteq> ''submitted'') (BizError (ExamErr ATTEMPT_ALREADY_SUBMITTED)))
    (bindA (get_with_questions_or_raise (ea_exam_id a)) (\<lambda>e.
     seqA (\<lambda>s. (check_window e (now s), s))
    (seqA (\<lambda>s. (check_attempt_deadline a e (now s), s))
    (seqA (check_not_passed e (ea_exam_id a) user_id)
    (bindA (getA (\<lambda>s. fst (score_attempt (questions_of (ex_id e) s) answers))) (\<lambda>score.
     let passed = (ex_pass_score e \<le> score)
     in seqA (modA (\<lambda>s. update_attempt attempt_id (submitted answers score passed (now s)) s))
       (if \<not> passed then retA \<lparr>sr_score = score, sr_passed = False, sr_certificate = None\<rparr>
        else
          bindA (issue_certificate (ex_id e) user_id score) (\<lambda>c.
          seqA (apply_unlock cf e user_id)
         (seqA (writeA (enqueue_points_event user_id ''competition'' (''cert:'' @ uuid_str c)))
         (retA \<lparr>sr_score = score, sr_passed = True, sr_certificate = Some c\<rparr>))))))))))))"

section \<open>Results\<close>

definition list_certificates :: "uuid \<Rightarrow> 's exam_db_scheme \<Rightarrow> (exam_certificate \<times> string) list" where
  "list_certificates user_id s =
     sort_key (\<lambda>(c, _). - ec_issued_at c)
       (List.map_filter (\<lambda>c. map_option (\<lambda>e. (c, ex_title e)) (get_exam (ec_exam_id c) s))
         (filter (\<lambda>c. ec_user_id c = user_id) (exam_certificates s)))"

text \<open>By score downwards, then by the time of issue.\<close>

definition cert_key :: "exam_certificate \<Rightarrow> int \<times> int" where
  "cert_key c = (- ec_score c, ec_issued_at c)"

definition list_for_exam :: "uuid \<Rightarrow> 's exam_db_scheme \<Rightarrow> exam_certificate list" where
  "list_for_exam exam_id s = sort_key cert_key (filter (\<lambda>c. ec_exam_id c = exam_id) (exam_certificates s))"

fun first_of_each :: "uuid set \<Rightarrow> exam_certificate list \<Rightarrow> exam_certificate list" where
  "first_of_each seen [] = []"
| "first_of_each seen (c # cs) =
     (if ec_user_id c \<in> seen then first_of_each seen cs else c # first_of_each (insert (ec_user_id c) seen) cs)"

definition leaderboard :: "uuid \<Rightarrow> nat \<Rightarrow> nat \<Rightarrow> ('s exam_db_scheme, (uuid \<times> int) list \<times> nat) act" where
  "leaderboard exam_id offset limit =
     bindA (get_with_questions_or_raise exam_id) (\<lambda>e.
     if ex_type e \<noteq> ''competition'' then retA ([], 0)
     else
       bindA (getA (list_for_exam exam_id)) (\<lambda>rows.
       let winners = sort_key cert_key (first_of_each {} rows)
       in retA (map (\<lambda>c. (ec_user_id c, ec_score c)) (take limit (drop offset winners)), length winners)))"

section \<open>Requests\<close>

definition LEVEL_ORDER :: "string \<rightharpoonup> int" where
  "LEVEL_ORDER = [''local'' \<mapsto> 0, ''normal'' \<mapsto> 1, ''admin'' \<mapsto> 2]"

definition require_level :: "string \<Rightarrow> string \<Rightarrow> exc + unit" where
  "require_level min_level account_level =
     (case LEVEL_ORDER min_level of
        None \<Rightarrow> Inl (BizError (AuthErr ACCOUNT_LEVEL_INSUFFICIENT))
      | Some required \<Rightarrow>
          if (case LEVEL_ORDER account_level of None \<Rightarrow> 0 | Some n \<Rightarrow> n) < required
          then Inl (BizError (AuthErr ACCOUNT_LEVEL_INSUFFICIENT)) else Inr ())"

datatype exam_request =
    Create_exam string exam_create
  | Start_exam uuid string uuid
  | Submit_exam uuid uuid "(uuid \<times> string) list"
  | Exam_tick int

fun exam_handle :: "auth_config \<Rightarrow> (string \<times> errcode) list \<Rightarrow> exam_request \<Rightarrow> 's exam_db_scheme \<Rightarrow> 's exam_db_scheme" where
  "exam_handle cf reg (Create_exam level x) s =
     snd (exam_session reg (seqA (liftA (require_level ''admin'' level))
       (if exam_create_ok x then bindA (create_exam_ex x) (\<lambda>_. retA ()) else raiseA ValueError)) s)"
| "exam_handle cf reg (Start_exam user_id level exam_id) s =
     snd (exam_session reg (seqA (liftA (require_level ''normal'' level))
       (bindA (start_attempt exam_id user_id) (\<lambda>_. retA ()))) s)"
| "exam_handle cf reg (Submit_exam user_id attempt_id answers) s =
     snd (exam_session reg (bindA (submit_attempt cf attempt_id user_id answers) (\<lambda>_. retA ())) s)"
| "exam_handle cf reg (Exam_tick dt) s = s\<lparr>now := now s + dt\<rparr>"

fun exam_run :: "auth_config \<Rightarrow> (string \<times> errcode) list \<Rightarrow> exam_request list \<Rightarrow> 's exam_db_scheme \<Rightarrow> 's exam_db_scheme" where
  "exam_run cf reg [] s = s"
| "exam_run cf reg (r # rs) s = exam_run cf reg rs (exam_handle cf reg r s)"

definition has_normal_certification :: "uuid \<Rightarrow> 's exam_db_scheme \<Rightarrow> bool" where
  "has_normal_certification user_id s \<longleftrightarrow>
     list_ex (\<lambda>c. ec_user_id c = user_id \<and> ec_passed c
       \<and> list_ex (\<lambda>e. ex_id e = ec_exam_id c \<and> ex_type e = ''exam'' \<and> ex_unlock_level e = Some ''normal'') (exams s))
       (exam_certificates s)"

section \<open>What each operation does to the tables\<close>

definition same_exams :: "'s exam_db_scheme \<Rightarrow> 's exam_db_scheme \<Rightarrow> bool" where
  "same_exams s s' \<longleftrightarrow> exams s' = exams s \<and> exam_questions s' = exam_questions s
     \<and> exam_attempts s' = exam_attempts s \<and> exam_certificates s' = exam_certificates s \<and> now s' = now s"

interpretation ex: kept_relation same_exams
  by unfold_locales (auto simp: same_exams_def)

lemma more_eq_exam:
  assumes "auth_db.more s' = auth_db.more s"
  shows "exams s' = exams s" "exam_questions s' = exam_questions s" "exam_attempts s' = exam_attempts s"
    "exam_certificates s' = exam_certificates s"
  using assms by (cases s, cases s', simp)+

lemma core_more_exam:
  assumes "core_db.more s' = core_db.more s"
  shows "exams s' = exams s" "exam_questions s' = exam_questions s" "exam_attempts s' = exam_attempts s"
    "exam_certificates s' = exam_certificates s"
  using assms by (cases s, cases s', simp)+

lemmas notify_exams [simp] = core_more_exam[OF notify_frame(1)] core_more_exam[OF notify_frame(9)]
  core_more_exam[OF notify_frame(7)]

lemma same_exams_auth [simp]:
  fixes s :: "'s exam_db_scheme"
  shows "exams (update_user i f s) = exams s" "exam_questions (update_user i f s) = exam_questions s"
    "exam_attempts (update_user i f s) = exam_attempts s" "exam_certificates (update_user i f s) = exam_certificates s"
    "exams (set_role i r s) = exams s" "exam_questions (set_role i r s) = exam_questions s"
    "exam_attempts (set_role i r s) = exam_attempts s" "exam_certificates (set_role i r s) = exam_certificates s"
    "now (update_user i f s) = now s" "now (set_role i r s) = now s"
  by (simp_all add: update_user_def set_role_def)

lemma same_exams_seal: "same_exams (s :: 's exam_db_scheme) (snd (seal_upgrade cf i l r d s))"
  by (auto simp: seal_upgrade_def same_exams_def bump_token_version_def split: sum.splits)

lemma same_exams_apply: "same_exams (s :: 's exam_db_scheme) (snd (apply_upgrades cf i ul ur d s))"
proof -
  have fin: "same_exams s (snd (seal_upgrade cf i l r d (let s = (if b then set_account_level i l' s else s) in if c then set_role i r' s else s)))"
    for s :: "'s exam_db_scheme" and b c l l' r r'
    by (rule ex.trans[OF _ same_exams_seal]) (auto simp: same_exams_def Let_def set_account_level_def)
  show ?thesis
  proof (cases "get_level_and_role i s")
    case (Some p)
    then obtain level raw where "get_level_and_role i s = Some (level, raw)" by (cases p) auto
    then show ?thesis
      by (simp add: apply_upgrades_def Let_def fin[unfolded Let_def] ex.refl)
  qed (simp add: apply_upgrades_def ex.refl)
qed

lemma same_exams_unlock: "act_rel same_exams (apply_unlock cf e u :: ('s exam_db_scheme, unit) act)"
proof -
  have "act_rel same_exams (grant_exam_unlock cf u l r :: ('s exam_db_scheme, int) act)" for l r
    by (rule act_relI) (simp add: grant_exam_unlock_def ex.refl same_exams_apply)
  then show ?thesis
    unfolding apply_unlock_def by (intro ex.rules) auto
qed

lemma same_exams_points:
  "act_rel same_exams (writeA (enqueue_points_event u e r) :: ('s exam_db_scheme, unit) act)"
  by (rule act_relI)
    (auto simp: writeA_def same_exams_def ex.refl dest: enqueue_points_event_more core_more_exam[OF enqueue_points_event_more(1)]
      split: sum.splits)

lemma same_exams_session:
  assumes "exam_session reg work s = (r, s')" and "work s = (w, t)" and "now t = now s"
  shows "(\<exists>e. r = Inl (session_exc reg e) \<and> w = Inl e \<and> same_exams s s') \<or> (\<exists>a. r = Inr a \<and> w = Inr a \<and> s' = t)"
  using assms by (auto simp: exam_session_def exam_roll_back_def roll_back_def same_exams_def split: sum.splits)

lemma exam_ops [simp]:
  "now (snd (fresh_pk s)) = now s" "core_db.more (snd (fresh_pk s)) = core_db.more s"
  "now (snd (fresh_hex s)) = now s" "core_db.more (snd (fresh_hex s)) = core_db.more s"
  by (simp_all add: fresh_pk_def fresh_hex_def)

lemma add_questions_tables:
  "add_questions i n qs s = (r, s') \<Longrightarrow>
     now s' = now s \<and> exams s' = exams s \<and> exam_attempts s' = exam_attempts s \<and> exam_certificates s' = exam_certificates s
     \<and> (\<exists>new. exam_questions s' = exam_questions s @ new \<and> (\<forall>q\<in>set new. eq_exam_id q = i))"
proof (induction i n qs arbitrary: s r s' rule: add_questions.induct)
  case (2 i n q qs)
  from 2(2) show ?case
    by (auto simp: seqA_def bindA_def fresh_pk_def exam_question_row_def Let_def split: if_splits dest!: 2(1))
qed auto

lemma create_tables:
  assumes "create_exam_ex x s = (Inr i, s')"
  obtains e qs where "exams s' = exams s @ [e]" "ex_id e = i" "i \<notin> ex_id ` set (exams s)" "\<not> ex_is_published e"
    "exam_questions s' = exam_questions s @ qs" "\<forall>q\<in>set qs. eq_exam_id q = i"
    "exam_attempts s' = exam_attempts s" "exam_certificates s' = exam_certificates s" "now s' = now s"
proof -
  from assms obtain t e where t: "add_questions (pks s (pk_ix s)) 0 (xc_questions x) t = (Inr (), s')"
    and e: "exams t = exams s @ [e]" "ex_id e = pks s (pk_ix s)" "\<not> ex_is_published e" "exam_questions t = exam_questions s"
      "exam_attempts t = exam_attempts s" "exam_certificates t = exam_certificates s" "now t = now s"
    and i: "i = pks s (pk_ix s)" "i \<notin> ex_id ` set (exams s)"
    by (fastforce simp: create_exam_ex_def Let_def fresh_pk_def list_ex_iff split: if_splits)
  show thesis
    using add_questions_tables[OF t] e i that[of e] by fastforce
qed

lemma create_now: "now (snd (create_exam_ex x s)) = now s"
  by (auto simp: create_exam_ex_def Let_def fresh_pk_def bindA_def split: prod.splits sum.splits dest!: add_questions_tables)

lemma start_tables:
  assumes "start_attempt i u s = (Inr r, s')"
  obtains e a where "get_exam i s = Some e" "ex_is_published e" "check_window e (now s) = Inr ()"
    "unlocks e \<Longrightarrow> \<not> passed_exists i u s"
    "exam_attempts s' = exam_attempts s @ [a]" "ea_id a = as_attempt_id r" "ea_id a \<notin> ea_id ` set (exam_attempts s)"
    "ea_exam_id a = i" "ea_user_id a = u" "ea_status a = ''in_progress''" "\<not> ea_passed a" "ea_started_at a = now s"
    "exams s' = exams s" "exam_questions s' = exam_questions s" "exam_certificates s' = exam_certificates s" "now s' = now s"
  using assms
  by (fastforce simp: start_attempt_def get_with_questions_or_raise_def check_not_passed_def fresh_pk_def Let_def list_ex_iff
      seqA_def bindA_def split: if_splits option.splits sum.splits)

lemma start_now: "now (snd (start_attempt i u s)) = now s"
  by (auto simp: start_attempt_def get_with_questions_or_raise_def check_not_passed_def fresh_pk_def Let_def
      seqA_def bindA_def split: if_splits option.splits sum.splits)

lemma issue_tables:
  assumes "issue_certificate i u n s = (r, s')"
  shows "now s' = now s \<and> exams s' = exams s \<and> exam_questions s' = exam_questions s \<and> exam_attempts s' = exam_attempts s
    \<and> (case r of Inl e \<Rightarrow> exam_certificates s' = exam_certificates s
       | Inr j \<Rightarrow> \<exists>c. exam_certificates s' = exam_certificates s @ [c] \<and> ec_id c = j \<and> ec_exam_id c = i \<and> ec_user_id c = u
           \<and> ec_score c = n \<and> ec_passed c \<and> ec_issued_at c = now s)"
  using assms by (auto simp: issue_certificate_def Let_def fresh_pk_def fresh_hex_def split: if_splits)

definition awarded :: "submit_result \<Rightarrow> uuid \<Rightarrow> uuid \<Rightarrow> instant \<Rightarrow> exam_certificate list \<Rightarrow> bool" where
  "awarded r exam_id user_id t cs \<longleftrightarrow>
     (if sr_passed r
      then \<exists>c. cs = [c] \<and> sr_certificate r = Some (ec_id c) \<and> ec_exam_id c = exam_id \<and> ec_user_id c = user_id
             \<and> ec_score c = sr_score r \<and> ec_passed c \<and> ec_issued_at c = t
      else cs = [] \<and> sr_certificate r = None)"

lemma get_exam_id: "get_exam i s = Some e \<Longrightarrow> ex_id e = i \<and> e \<in> set (exams s)"
  by (auto simp: get_exam_def find_Some_iff)

lemma get_attempt_id: "get_attempt i s = Some a \<Longrightarrow> ea_id a = i \<and> a \<in> set (exam_attempts s)"
  by (auto simp: get_attempt_def find_Some_iff)

lemma submit_tables:
  fixes s :: "'a exam_db_scheme"
  assumes "submit_attempt cf i u answers s = (Inr r, s')"
  obtains a e cs where "get_attempt i s = Some a" "ea_user_id a = u" "ea_status a \<noteq> ''submitted''"
    "get_exam (ea_exam_id a) s = Some e" "check_window e (now s) = Inr ()" "check_attempt_deadline a e (now s) = Inr ()"
    "unlocks e \<Longrightarrow> \<not> passed_exists (ea_exam_id a) u s"
    "sr_score r = fst (score_attempt (questions_of (ex_id e) s) answers)" "sr_passed r \<longleftrightarrow> ex_pass_score e \<le> sr_score r"
    "exam_attempts s' = map (\<lambda>a. if ea_id a = i then submitted answers (sr_score r) (sr_passed r) (now s) a else a) (exam_attempts s)"
    "exam_certificates s' = exam_certificates s @ cs" "awarded r (ea_exam_id a) u (now s) cs"
    "exams s' = exams s" "exam_questions s' = exam_questions s" "now s' = now s"
proof -
  from assms obtain a e where a: "get_attempt i s = Some a" "ea_user_id a = u" "ea_status a \<noteq> ''submitted''"
      "get_exam (ea_exam_id a) s = Some e" "check_window e (now s) = Inr ()" "check_attempt_deadline a e (now s) = Inr ()"
      "unlocks e \<Longrightarrow> \<not> passed_exists (ea_exam_id a) u s"
    by (auto simp: submit_attempt_def attempt_or_raise_def get_with_questions_or_raise_def check_not_passed_def
        seqA_def bindA_def split: if_splits option.splits sum.splits)
  define score where "score = fst (score_attempt (questions_of (ex_id e) s) answers)"
  define passed where "passed \<longleftrightarrow> ex_pass_score e \<le> score"
  define s1 where "s1 = update_attempt i (submitted answers score passed (now s)) s"
  have s1: "exams s1 = exams s" "exam_questions s1 = exam_questions s" "exam_certificates s1 = exam_certificates s" "now s1 = now s"
    "exam_attempts s1 = map (\<lambda>a. if ea_id a = i then submitted answers score passed (now s) a else a) (exam_attempts s)"
    by (simp_all add: s1_def update_attempt_def)
  have id: "ex_id e = ea_exam_id a" using a(4) get_exam_id by blast
  show thesis
  proof (cases passed)
    case False
    then have "r = \<lparr>sr_score = score, sr_passed = False, sr_certificate = None\<rparr>" "s' = s1"
      using assms a by (simp_all add: submit_attempt_def attempt_or_raise_def get_with_questions_or_raise_def check_not_passed_def
        seqA_def bindA_def Let_def passed_def score_def s1_def split: if_splits)
    then show thesis using a s1 False id that[of a e "[]"] by (simp add: awarded_def passed_def score_def)
  next
    case True
    then have run: "(bindA (issue_certificate (ex_id e) u score) (\<lambda>c. seqA (apply_unlock cf e u)
         (seqA (writeA (enqueue_points_event u ''competition'' (''cert:'' @ uuid_str c)))
         (retA \<lparr>sr_score = score, sr_passed = True, sr_certificate = Some c\<rparr>)))) s1 = (Inr r, s')"
      using assms a by (simp add: submit_attempt_def attempt_or_raise_def get_with_questions_or_raise_def check_not_passed_def
        seqA_def bindA_def Let_def passed_def score_def s1_def split: if_splits)
    from run obtain c t where c: "issue_certificate (ex_id e) u score s1 = (Inr c, t)"
      and rest: "(seqA (apply_unlock cf e u)
         (seqA (writeA (enqueue_points_event u ''competition'' (''cert:'' @ uuid_str c)))
         (retA \<lparr>sr_score = score, sr_passed = True, sr_certificate = Some c\<rparr>))) t = (Inr r, s')" by (elim bindA_InrE)
    have "act_rel same_exams (seqA (apply_unlock cf e u)
         (seqA (writeA (enqueue_points_event u ''competition'' (''cert:'' @ uuid_str c)))
         (retA \<lparr>sr_score = score, sr_passed = True, sr_certificate = Some c\<rparr>)) :: ('a exam_db_scheme, submit_result) act)"
      by (intro ex.rules same_exams_unlock same_exams_points)
    then have "same_exams t s'" using rest unfolding act_rel_def by blast
    moreover have "r = \<lparr>sr_score = score, sr_passed = True, sr_certificate = Some c\<rparr>"
      using rest by (elim seqA_InrE) simp
    ultimately show thesis
      using issue_tables[OF c] a s1 True id that[of a e]
      by (auto simp: same_exams_def awarded_def passed_def score_def)
  qed
qed

text \<open>The score is the sum over the questions answered right.\<close>

lemma score_attempt_sum:
  "fst (score_attempt qs answers) = (\<Sum>q\<leftarrow>filter (answer_right answers) qs. eq_score q)"
  "snd (score_attempt qs answers) = map (\<lambda>q. (eq_id q, answer_right answers q)) qs"
  by (induction qs) (auto simp: Let_def split: prod.splits)

lemma score_attempt_bounds:
  "(\<And>q. q \<in> set qs \<Longrightarrow> 0 \<le> eq_score q) \<Longrightarrow>
     0 \<le> fst (score_attempt qs answers) \<and> fst (score_attempt qs answers) \<le> (\<Sum>q\<leftarrow>qs. eq_score q)"
  unfolding score_attempt_sum(1)
proof (induction qs)
  case (Cons q qs)
  have "0 \<le> eq_score q" by (rule Cons.prems) simp
  moreover have "0 \<le> (\<Sum>q\<leftarrow>filter (answer_right answers) qs. eq_score q) \<and>
      (\<Sum>q\<leftarrow>filter (answer_right answers) qs. eq_score q) \<le> (\<Sum>q\<leftarrow>qs. eq_score q)"
    by (rule Cons.IH) (rule Cons.prems, simp)
  ultimately show ?case by auto
qed simp

section \<open>What holds of the tables\<close>

definition attempt_ok :: "exam_attempt \<Rightarrow> 's exam_db_scheme \<Rightarrow> bool" where
  "attempt_ok a s \<longleftrightarrow>
     (\<exists>e\<in>set (exams s). ex_id e = ea_exam_id a
        \<and> (if ea_status a = ''submitted''
           then ea_score a = fst (score_attempt (questions_of (ex_id e) s) (ea_answers a))
                \<and> (ea_passed a \<longleftrightarrow> ex_pass_score e \<le> ea_score a)
           else \<not> ea_passed a))"

definition passes :: "'s exam_db_scheme \<Rightarrow> (uuid \<times> uuid \<times> int) multiset" where
  "passes s = mset (map (\<lambda>a. (ea_exam_id a, ea_user_id a, ea_score a)) (filter ea_passed (exam_attempts s)))"

definition awards :: "'s exam_db_scheme \<Rightarrow> (uuid \<times> uuid \<times> int) multiset" where
  "awards s = mset (map (\<lambda>c. (ec_exam_id c, ec_user_id c, ec_score c)) (exam_certificates s))"

definition exam_inv :: "'s exam_db_scheme \<Rightarrow> bool" where
  "exam_inv s \<longleftrightarrow>
     distinct (map ex_id (exams s)) \<and> distinct (map ea_id (exam_attempts s))
     \<and> (\<forall>a\<in>set (exam_attempts s). attempt_ok a s) \<and> awards s = passes s
     \<and> (\<forall>c\<in>set (exam_certificates s). ec_passed c)
     \<and> (\<forall>e\<in>set (exams s). unlocks e \<longrightarrow>
          distinct (map ec_user_id (filter (\<lambda>c. ec_exam_id c = ex_id e) (exam_certificates s))))"

lemma attempt_ok_same: "exams s' = exams s \<Longrightarrow> exam_questions s' = exam_questions s \<Longrightarrow> attempt_ok a s' = attempt_ok a s"
  by (simp add: attempt_ok_def questions_of_def)

lemma exam_inv_same: "same_exams s s' \<Longrightarrow> exam_inv s \<Longrightarrow> exam_inv s'"
  using attempt_ok_same[of s' s] by (simp add: exam_inv_def same_exams_def passes_def awards_def)

lemma awarded_exam:
  assumes "exam_inv s" and "c \<in> set (exam_certificates s)"
  shows "ec_exam_id c \<in> ex_id ` set (exams s)"
proof -
  have "(ec_exam_id c, ec_user_id c, ec_score c) \<in># awards s" using assms(2) by (simp add: awards_def image_iff) blast
  then have "(ec_exam_id c, ec_user_id c, ec_score c) \<in># passes s" using assms(1) by (simp add: exam_inv_def)
  then obtain a where "a \<in> set (exam_attempts s)" "ea_exam_id a = ec_exam_id c" by (auto simp: passes_def)
  moreover from this(1) assms(1) have "attempt_ok a s" by (simp add: exam_inv_def)
  ultimately show ?thesis unfolding attempt_ok_def by (metis imageI)
qed

lemma inv_create:
  assumes inv: "exam_inv s" and run: "create_exam_ex x s = (Inr i, s')"
  shows "exam_inv s'"
  using run
proof (rule create_tables)
  fix e qs
  assume t: "exams s' = exams s @ [e]" "ex_id e = i" "i \<notin> ex_id ` set (exams s)" "\<not> ex_is_published e"
    "exam_questions s' = exam_questions s @ qs" "\<forall>q\<in>set qs. eq_exam_id q = i"
    "exam_attempts s' = exam_attempts s" "exam_certificates s' = exam_certificates s"
  have q: "questions_of j s' = questions_of j s" if "j \<in> ex_id ` set (exams s)" for j
    using that t(3,6) by (auto simp: questions_of_def t(5) filter_empty_conv)
  have "attempt_ok a s'" if "a \<in> set (exam_attempts s)" for a
  proof -
    from that inv obtain d where "d \<in> set (exams s)" "ex_id d = ea_exam_id a"
      "if ea_status a = ''submitted''
       then ea_score a = fst (score_attempt (questions_of (ex_id d) s) (ea_answers a)) \<and> (ea_passed a \<longleftrightarrow> ex_pass_score d \<le> ea_score a)
       else \<not> ea_passed a" by (auto simp: exam_inv_def attempt_ok_def)
    moreover have "questions_of (ex_id d) s' = questions_of (ex_id d) s" using \<open>d \<in> set (exams s)\<close> by (intro q) simp
    ultimately show ?thesis using t(1) unfolding attempt_ok_def by (intro bexI[of _ d]) auto
  qed
  moreover have "filter (\<lambda>c. ec_exam_id c = i) (exam_certificates s) = []"
    using awarded_exam[OF inv] t(3) by (auto simp: filter_empty_conv)
  ultimately show ?thesis
    using inv t by (auto simp: exam_inv_def passes_def awards_def)
qed

lemma inv_start:
  assumes inv: "exam_inv s" and run: "start_attempt i u s = (Inr r, s')"
  shows "exam_inv s'"
  using run
proof (rule start_tables)
  fix e a
  assume t: "get_exam i s = Some e" "exam_attempts s' = exam_attempts s @ [a]" "ea_id a \<notin> ea_id ` set (exam_attempts s)"
    "ea_exam_id a = i" "ea_status a = ''in_progress''" "\<not> ea_passed a"
    "exams s' = exams s" "exam_questions s' = exam_questions s" "exam_certificates s' = exam_certificates s"
  have "attempt_ok a s'" using t get_exam_id[OF t(1)] unfolding attempt_ok_def by (intro bexI[of _ e]) auto
  moreover have "attempt_ok b s' \<longleftrightarrow> attempt_ok b s" for b using t by (intro attempt_ok_same)
  ultimately show ?thesis using inv t by (auto simp: exam_inv_def passes_def awards_def)
qed

lemma mset_replace:
  assumes "a \<in> set xs" and "distinct (map k xs)"
  shows "mset (filter P (map (\<lambda>x. if k x = k a then f x else x) xs))
       = mset (filter P (filter (\<lambda>x. k x \<noteq> k a) xs)) + (if P (f a) then {#f a#} else {#})"
  using assms
proof (induction xs)
  case (Cons x xs)
  show ?case
  proof (cases "k x = k a")
    case True
    with Cons.prems have "x = a" by (auto simp: image_iff)
    with Cons.prems have "k y \<noteq> k a" if "y \<in> set xs" for y using that by (auto simp: image_iff)
    then have "map (\<lambda>x. if k x = k a then f x else x) xs = xs" "filter (\<lambda>x. k x \<noteq> k a) xs = xs"
      by (auto intro: map_idI simp: filter_id_conv)
    with \<open>x = a\<close> show ?thesis by simp
  next
    case False
    with Cons show ?thesis by (auto split: if_splits)
  qed
qed simp

lemma inv_submit:
  assumes inv: "exam_inv s" and run: "submit_attempt cf i u answers s = (Inr r, s')"
  shows "exam_inv s'"
  using run
proof (rule submit_tables)
  fix a e cs
  let ?g = "submitted answers (sr_score r) (sr_passed r) (now s)"
  assume t: "get_attempt i s = Some a" "ea_user_id a = u" "ea_status a \<noteq> ''submitted''"
    "get_exam (ea_exam_id a) s = Some e" "unlocks e \<Longrightarrow> \<not> passed_exists (ea_exam_id a) u s"
    "sr_score r = fst (score_attempt (questions_of (ex_id e) s) answers)" "sr_passed r \<longleftrightarrow> ex_pass_score e \<le> sr_score r"
    "exam_attempts s' = map (\<lambda>a. if ea_id a = i then ?g a else a) (exam_attempts s)"
    "exam_certificates s' = exam_certificates s @ cs" "awarded r (ea_exam_id a) u (now s) cs"
    "exams s' = exams s" "exam_questions s' = exam_questions s"
  have a: "ea_id a = i" "a \<in> set (exam_attempts s)" using get_attempt_id[OF t(1)] by auto
  have e: "ex_id e = ea_exam_id a" "e \<in> set (exams s)" using get_exam_id[OF t(4)] by auto
  have g: "ea_id (?g b) = ea_id b" "ea_exam_id (?g b) = ea_exam_id b" "ea_user_id (?g b) = ea_user_id b"
    "ea_status (?g b) = ''submitted''" "ea_score (?g b) = sr_score r" "ea_passed (?g b) = sr_passed r" "ea_answers (?g b) = answers" for b
    by (simp_all add: submitted_def)
  have d: "distinct (map ea_id (exam_attempts s))" "distinct (map ex_id (exams s))" and
    ok: "\<And>b. b \<in> set (exam_attempts s) \<Longrightarrow> attempt_ok b s" using inv by (auto simp: exam_inv_def)
  have only: "b = a" if "b \<in> set (exam_attempts s)" "ea_id b = i" for b
    using that a d(1) by (auto simp: distinct_map inj_on_def)
  have "\<not> ea_passed a" using ok[OF a(2)] t(3) by (auto simp: attempt_ok_def)
  have 1: "distinct (map ea_id (exam_attempts s'))"
  proof -
    have "map ea_id (exam_attempts s') = map ea_id (exam_attempts s)" by (simp add: t(8) g(1))
    with d(1) show ?thesis by metis
  qed
  have 2: "attempt_ok b s'" if "b \<in> set (exam_attempts s')" for b
  proof -
    from that obtain b' where b': "b' \<in> set (exam_attempts s)" "b = (if ea_id b' = i then ?g b' else b')" by (auto simp: t(8))
    show ?thesis
    proof (cases "ea_id b' = i")
      case True
      with only b'(1) have "b' = a" by simp
      with True b'(2) show ?thesis using e t(6,7) g attempt_ok_same[OF t(11,12)]
        unfolding attempt_ok_def by (simp only: t(11) if_True) (intro bexI[of _ e], auto simp: questions_of_def t(12))
    next
      case False
      with b' ok attempt_ok_same[OF t(11,12)] show ?thesis by simp
    qed
  qed
  have "mset (filter ea_passed (exam_attempts s)) = mset (filter ea_passed (filter (\<lambda>x. ea_id x \<noteq> ea_id a) (exam_attempts s)))"
    using mset_replace[of a "exam_attempts s" ea_id ea_passed "\<lambda>x. x", OF a(2) d(1)] \<open>\<not> ea_passed a\<close> by simp
  moreover have "mset (filter ea_passed (exam_attempts s'))
      = mset (filter ea_passed (filter (\<lambda>x. ea_id x \<noteq> ea_id a) (exam_attempts s))) + (if sr_passed r then {#?g a#} else {#})"
    using mset_replace[of a "exam_attempts s" ea_id ea_passed ?g, OF a(2) d(1)] a(1) g(6) by (simp add: t(8))
  ultimately have m: "mset (filter ea_passed (exam_attempts s')) = mset (filter ea_passed (exam_attempts s)) + (if sr_passed r then {#?g a#} else {#})"
    by simp
  have 3: "awards s' = passes s'"
  proof -
    have "passes s' = passes s + (if sr_passed r then {#(ea_exam_id a, u, sr_score r)#} else {#})"
      using m by (simp add: passes_def mset_map submitted_def t(2))
    moreover have "awards s' = awards s + (if sr_passed r then {#(ea_exam_id a, u, sr_score r)#} else {#})"
      using t(10) by (auto simp: awards_def t(9) awarded_def split: if_splits)
    ultimately show ?thesis using inv by (simp add: exam_inv_def)
  qed
  have 4: "\<forall>c\<in>set (exam_certificates s'). ec_passed c"
    using t(10) inv by (auto simp: t(9) awarded_def exam_inv_def split: if_splits)
  have 5: "distinct (map ec_user_id (filter (\<lambda>c. ec_exam_id c = ex_id b) (exam_certificates s')))"
    if b: "b \<in> set (exams s)" "unlocks b" for b
  proof -
    have old: "distinct (map ec_user_id (filter (\<lambda>c. ec_exam_id c = ex_id b) (exam_certificates s)))"
      using inv b by (simp add: exam_inv_def)
    show ?thesis
    proof (cases "sr_passed r \<and> ex_id b = ea_exam_id a")
      case False
      then have "filter (\<lambda>c. ec_exam_id c = ex_id b) cs = []" using t(10) by (auto simp: awarded_def split: if_splits)
      then show ?thesis using old by (simp add: t(9))
    next
      case True
      then obtain c where c: "cs = [c]" "ec_exam_id c = ex_id b" "ec_user_id c = u" using t(10) by (auto simp: awarded_def)
      have "b = e" using True e b(1) d(2) by (auto simp: distinct_map inj_on_def)
      then have "\<not> passed_exists (ea_exam_id a) u s" using b(2) t(5) by simp
      then have "u \<notin> ec_user_id ` set (filter (\<lambda>c. ec_exam_id c = ex_id b) (exam_certificates s))"
        using True inv by (auto simp: passed_exists_def list_ex_iff exam_inv_def)
      then show ?thesis using old c by (simp add: t(9))
    qed
  qed
  show ?thesis unfolding exam_inv_def using 1 2 3 4 5 d(2) by (simp add: t(11))
qed

section \<open>Runs of requests\<close>

lemma exam_session_cases:
  assumes "snd (exam_session reg work s) = s'"
  obtains (raised) "exams s' = exams s" "exam_questions s' = exam_questions s" "exam_attempts s' = exam_attempts s"
      "exam_certificates s' = exam_certificates s"
    | (returned) a where "work s = (Inr a, s')"
  using assms by (auto simp: exam_session_def exam_roll_back_def split: prod.splits sum.splits)

lemma exam_handle_cases:
  fixes s :: "'a exam_db_scheme"
  assumes "exam_handle cf reg q s = s'"
  obtains (same) "exams s' = exams s" "exam_questions s' = exam_questions s" "exam_attempts s' = exam_attempts s"
      "exam_certificates s' = exam_certificates s"
    | (create) x i where "create_exam_ex x s = (Inr i, s')"
    | (start) i u r where "start_attempt i u s = (Inr r, s')"
    | (submit) i u answers r where "submit_attempt cf i u answers s = (Inr r, s')"
proof (cases q)
  case (Create_exam level x)
  with assms have "snd (exam_session reg (seqA (liftA (require_level ''admin'' level))
       (if exam_create_ok x then bindA (create_exam_ex x) (\<lambda>_. retA ()) else raiseA ValueError)) s) = s'" by simp
  then show thesis
  proof (cases rule: exam_session_cases)
    case raised
    then show thesis by (rule same)
  next
    case (returned a)
    then show thesis by (elim seqA_InrE) (auto split: if_splits elim!: bindA_InrE intro: create)
  qed
next
  case (Start_exam u level i)
  with assms have "snd (exam_session reg (seqA (liftA (require_level ''normal'' level))
       (bindA (start_attempt i u) (\<lambda>_. retA ()))) s) = s'" by simp
  then show thesis
  proof (cases rule: exam_session_cases)
    case raised
    then show thesis by (rule same)
  next
    case (returned a)
    then show thesis by (elim seqA_InrE) (auto elim!: bindA_InrE intro: start)
  qed
next
  case (Submit_exam u i answers)
  with assms have "snd (exam_session reg (bindA (submit_attempt cf i u answers) (\<lambda>_. retA ())) s) = s'" by simp
  then show thesis
  proof (cases rule: exam_session_cases)
    case raised
    then show thesis by (rule same)
  next
    case (returned a)
    then show thesis by (auto elim!: bindA_InrE intro: submit)
  qed
next
  case (Exam_tick dt)
  with assms have "s' = s\<lparr>now := now s + dt\<rparr>" by simp
  then show thesis by (intro same) simp_all
qed

lemma exam_inv_handle:
  assumes "exam_inv s"
  shows "exam_inv (exam_handle cf reg q s)"
proof -
  define s' where "s' = exam_handle cf reg q s"
  from s'_def[symmetric] have "exam_inv s'"
  proof (cases rule: exam_handle_cases)
    case same
    then have "exam_inv s' \<longleftrightarrow> exam_inv s"
      using attempt_ok_same[of s' s] by (simp add: exam_inv_def passes_def awards_def)
    with assms show ?thesis by simp
  next
    case (create x i)
    with assms show ?thesis by (rule inv_create)
  next
    case (start i u r)
    with assms show ?thesis by (rule inv_start)
  next
    case (submit i u answers r)
    with assms show ?thesis by (rule inv_submit)
  qed
  then show ?thesis by (simp add: s'_def)
qed

lemma exam_inv_run: "exam_inv s \<Longrightarrow> exam_inv (exam_run cf reg rs s)"
  by (induction cf reg rs s rule: exam_run.induct) (simp_all add: exam_inv_handle)

text \<open>What later requests leave of the tables.\<close>

definition attempt_stays :: "exam_attempt \<Rightarrow> exam_attempt \<Rightarrow> bool" where
  "attempt_stays a b \<longleftrightarrow> ea_id b = ea_id a \<and> ea_exam_id b = ea_exam_id a \<and> ea_user_id b = ea_user_id a
     \<and> ea_started_at b = ea_started_at a \<and> (ea_status a = ''submitted'' \<longrightarrow> b = a)"

definition exams_grow :: "'s exam_db_scheme \<Rightarrow> 's exam_db_scheme \<Rightarrow> bool" where
  "exams_grow s s' \<longleftrightarrow>
     (\<exists>xs. exams s' = exams s @ xs \<and> (\<forall>e\<in>set xs. \<not> ex_is_published e))
     \<and> (\<exists>bs cs. exam_attempts s' = bs @ cs \<and> list_all2 attempt_stays (exam_attempts s) bs
          \<and> (\<forall>c\<in>set cs. ea_exam_id c \<in> ex_id ` set (filter ex_is_published (exams s))))"

lemma attempt_stays_trans: "attempt_stays a b \<Longrightarrow> attempt_stays b c \<Longrightarrow> attempt_stays a c"
  by (auto simp: attempt_stays_def)

lemma list_attempt_stays_refl: "list_all2 attempt_stays xs xs"
  by (simp add: list.rel_refl attempt_stays_def)

lemma exams_growI:
  assumes "exams s' = exams s @ xs" and "\<forall>e\<in>set xs. \<not> ex_is_published e" and "exam_attempts s' = bs @ cs"
    and "list_all2 attempt_stays (exam_attempts s) bs"
    and "\<forall>c\<in>set cs. ea_exam_id c \<in> ex_id ` set (filter ex_is_published (exams s))"
  shows "exams_grow s s'"
  unfolding exams_grow_def using assms by blast

lemma exams_grow_same:
  assumes "exams s' = exams s @ xs" and "\<forall>e\<in>set xs. \<not> ex_is_published e" and "exam_attempts s' = exam_attempts s"
  shows "exams_grow s s'"
  by (rule exams_growI[OF assms(1,2), of "exam_attempts s" "[]"]) (simp_all add: assms list_attempt_stays_refl)

lemma exams_grow_trans:
  assumes "exams_grow a b" and "exams_grow b c"
  shows "exams_grow a c"
proof -
  from assms(1) obtain xs bs cs where b: "exams b = exams a @ xs" "\<forall>e\<in>set xs. \<not> ex_is_published e"
    "exam_attempts b = bs @ cs" "list_all2 attempt_stays (exam_attempts a) bs"
    "\<forall>x\<in>set cs. ea_exam_id x \<in> ex_id ` set (filter ex_is_published (exams a))" by (auto simp: exams_grow_def)
  from assms(2) obtain ys ds es where c: "exams c = exams b @ ys" "\<forall>e\<in>set ys. \<not> ex_is_published e"
    "exam_attempts c = ds @ es" "list_all2 attempt_stays (exam_attempts b) ds"
    "\<forall>x\<in>set es. ea_exam_id x \<in> ex_id ` set (filter ex_is_published (exams b))" by (auto simp: exams_grow_def)
  from c(4) b(3) obtain d1 d2 where d: "ds = d1 @ d2" "list_all2 attempt_stays bs d1" "list_all2 attempt_stays cs d2"
    by (auto simp: list_all2_append1)
  have pub: "filter ex_is_published (exams b) = filter ex_is_published (exams a)"
    using b(1,2) by (auto simp: filter_empty_conv)
  have "list_all2 attempt_stays (exam_attempts a) d1"
    by (rule list_all2_trans[OF _ b(4) d(2)]) (rule attempt_stays_trans)
  moreover have "ea_exam_id x \<in> ex_id ` set (filter ex_is_published (exams a))" if "x \<in> set (d2 @ es)" for x
  proof (cases "x \<in> set es")
    case True
    then show ?thesis using c(5) pub by simp
  next
    case False
    with that obtain n where n: "n < length d2" "x = d2 ! n" by (auto simp: in_set_conv_nth)
    with d(3) have "n < length cs" "attempt_stays (cs ! n) x" by (simp_all add: list_all2_conv_all_nth)
    then obtain y where "y \<in> set cs" "attempt_stays y x" by (meson nth_mem)
    then show ?thesis using b(5) by (simp add: attempt_stays_def)
  qed
  ultimately show ?thesis using b(1,2) c(1-3) d(1)
    by (intro exams_growI[of c a "xs @ ys" d1 "d2 @ es"]) auto
qed

interpretation eg: kept_relation exams_grow
proof
  show "exams_grow s s" for s :: "'a exam_db_scheme" by (rule exams_grow_same[of _ _ "[]"]) simp_all
qed (rule exams_grow_trans)

lemma exams_grow_handle:
  assumes inv: "exam_inv s"
  shows "exams_grow s (exam_handle cf reg q s)"
proof -
  define s' where "s' = exam_handle cf reg q s"
  from s'_def[symmetric] have "exams_grow s s'"
  proof (cases rule: exam_handle_cases)
    case same
    then show ?thesis by (intro exams_grow_same[of _ _ "[]"]) simp_all
  next
    case (create x i)
    then show ?thesis
      by (rule create_tables) (rule exams_grow_same, auto)
  next
    case (start i u r)
    then show ?thesis
    proof (rule start_tables)
      fix e a
      assume e: "get_exam i s = Some e" "ex_is_published e" "exam_attempts s' = exam_attempts s @ [a]" "ea_exam_id a = i"
        "exams s' = exams s"
      have "i \<in> ex_id ` set (filter ex_is_published (exams s))" using get_exam_id[OF e(1)] e(2) by auto
      then show ?thesis using e by (intro exams_growI[of _ _ "[]" "exam_attempts s" "[a]"]) (simp_all add: list_attempt_stays_refl)
    qed
  next
    case (submit i u answers r)
    then show ?thesis
    proof (rule submit_tables)
      fix a e cs
      let ?g = "submitted answers (sr_score r) (sr_passed r) (now s)"
      assume t: "get_attempt i s = Some a" "ea_status a \<noteq> ''submitted''" "exams s' = exams s"
        "exam_attempts s' = map (\<lambda>a. if ea_id a = i then ?g a else a) (exam_attempts s)"
      have a: "ea_id a = i" "a \<in> set (exam_attempts s)" using get_attempt_id[OF t(1)] by auto
      have "attempt_stays b (if ea_id b = i then ?g b else b)" if "b \<in> set (exam_attempts s)" for b
      proof -
        have "b = a" if "ea_id b = i" using that a \<open>b \<in> set (exam_attempts s)\<close> inv
          by (auto simp: exam_inv_def distinct_map inj_on_def)
        then show ?thesis using t(2) by (auto simp: attempt_stays_def submitted_def)
      qed
      then have "list_all2 attempt_stays (exam_attempts s) (exam_attempts s')"
        by (simp add: t(4) list_all2_map2 list_all2_same)
      then show ?thesis using t(3) by (intro exams_growI[of _ _ "[]" "exam_attempts s'" "[]"]) simp_all
    qed
  qed
  then show ?thesis by (simp add: s'_def)
qed

lemma exams_grow_run: "exam_inv s \<Longrightarrow> exams_grow s (exam_run cf reg rs s)"
proof (induction cf reg rs s rule: exam_run.induct)
  case (1 cf reg s)
  then show ?case by (simp add: eg.refl)
next
  case (2 cf reg r rs s)
  then show ?case using exams_grow_handle exam_inv_handle eg.trans by (metis exam_run.simps(2))
qed

section \<open>Properties\<close>

lemma find_distinct:
  "distinct (map k xs) \<Longrightarrow> x \<in> set xs \<Longrightarrow> find (\<lambda>y. k y = k x) xs = Some x"
  by (induction xs) (auto simp: image_iff)

text \<open>Handing in an attempt grades it: the score is the sum of the scores of the questions answered right, the attempt is
  passed exactly when the score reaches the pass mark, the attempt keeps the answers and the result, and a passed attempt, and no
  other, earns one certificate with that score.\<close>
theorem attempt_is_graded:
  fixes s :: "'a exam_db_scheme"
  assumes "submit_attempt cf i u answers s = (Inr r, s')"
  shows "\<exists>a e cs. get_attempt i s = Some a \<and> ea_user_id a = u \<and> ea_status a \<noteq> ''submitted''
     \<and> get_exam (ea_exam_id a) s = Some e
     \<and> sr_score r = (\<Sum>q\<leftarrow>filter (answer_right answers) (questions_of (ex_id e) s). eq_score q)
     \<and> (sr_passed r \<longleftrightarrow> ex_pass_score e \<le> sr_score r)
     \<and> get_attempt i s' = Some (submitted answers (sr_score r) (sr_passed r) (now s) a)
     \<and> exam_certificates s' = exam_certificates s @ cs \<and> awarded r (ea_exam_id a) u (now s) cs"
  using assms
proof (rule submit_tables)
  fix a e cs
  let ?g = "submitted answers (sr_score r) (sr_passed r) (now s)"
  assume t: "get_attempt i s = Some a" "ea_user_id a = u" "ea_status a \<noteq> ''submitted''"
    "get_exam (ea_exam_id a) s = Some e"
    "sr_score r = fst (score_attempt (questions_of (ex_id e) s) answers)" "sr_passed r \<longleftrightarrow> ex_pass_score e \<le> sr_score r"
    "exam_attempts s' = map (\<lambda>a. if ea_id a = i then ?g a else a) (exam_attempts s)"
    "exam_certificates s' = exam_certificates s @ cs" "awarded r (ea_exam_id a) u (now s) cs"
  have "find (\<lambda>a. ea_id a = i) (map (\<lambda>a. if ea_id a = i then ?g a else a) xs) = map_option ?g (find (\<lambda>a. ea_id a = i) xs)" for xs
    by (induction xs) (simp_all add: submitted_def)
  then have "get_attempt i s' = Some (?g a)" using t(1,7) by (simp add: get_attempt_def)
  then show ?thesis using t(1-6,8,9) score_attempt_sum(1)[of "questions_of (ex_id e) s" answers] by metis
qed

text \<open>C27: Certificates are earned: through every sequence of requests the certificates stay, one for one, the passed attempts with
  their exam, user and score; an attempt is passed exactly when the recount of its answers reaches the pass mark; and an exam that
  unlocks something is passed at most once by a user.\<close>
theorem certificates_are_earned:
  assumes "exam_inv s"
  shows "exam_inv (exam_run cf reg rs s)
     \<and> (\<forall>c\<in>set (exam_certificates (exam_run cf reg rs s)).
          \<exists>a\<in>set (exam_attempts (exam_run cf reg rs s)). \<exists>e\<in>set (exams (exam_run cf reg rs s)).
            ea_passed a \<and> ea_status a = ''submitted'' \<and> ea_user_id a = ec_user_id c \<and> ea_exam_id a = ec_exam_id c
            \<and> ea_score a = ec_score c \<and> ex_id e = ec_exam_id c \<and> ex_pass_score e \<le> ec_score c)"
proof (intro conjI ballI)
  define s' where "s' = exam_run cf reg rs s"
  show inv: "exam_inv (exam_run cf reg rs s)" using assms by (rule exam_inv_run)
  fix c assume c: "c \<in> set (exam_certificates (exam_run cf reg rs s))"
  have "(ec_exam_id c, ec_user_id c, ec_score c) \<in># awards s'" using c by (simp add: awards_def s'_def image_iff) blast
  then have "(ec_exam_id c, ec_user_id c, ec_score c) \<in># passes s'" using inv by (simp add: exam_inv_def s'_def)
  then obtain a where a: "a \<in> set (exam_attempts s')" "ea_passed a" "ea_exam_id a = ec_exam_id c"
    "ea_user_id a = ec_user_id c" "ea_score a = ec_score c" by (auto simp: passes_def)
  from a(1) inv have "attempt_ok a s'" by (simp add: exam_inv_def s'_def)
  then obtain e where "e \<in> set (exams s')" "ex_id e = ea_exam_id a" "ea_status a = ''submitted''" "ex_pass_score e \<le> ea_score a"
    using a(2) by (auto simp: attempt_ok_def split: if_splits)
  with a show "\<exists>a\<in>set (exam_attempts (exam_run cf reg rs s)). \<exists>e\<in>set (exams (exam_run cf reg rs s)).
            ea_passed a \<and> ea_status a = ''submitted'' \<and> ea_user_id a = ec_user_id c \<and> ea_exam_id a = ec_exam_id c
            \<and> ea_score a = ec_score c \<and> ex_id e = ec_exam_id c \<and> ex_pass_score e \<le> ec_score c"
    unfolding s'_def by metis
qed

lemma grown_attempt:
  assumes "exams_grow s s'" and "a \<in> set (exam_attempts s)" and "ea_status a = ''submitted''"
  shows "a \<in> set (exam_attempts s')"
proof -
  from assms(1) obtain bs cs where b: "exam_attempts s' = bs @ cs" "list_all2 attempt_stays (exam_attempts s) bs"
    by (auto simp: exams_grow_def)
  from assms(2) obtain n where n: "n < length (exam_attempts s)" "exam_attempts s ! n = a" by (auto simp: in_set_conv_nth)
  with b(2) have "n < length bs" "attempt_stays a (bs ! n)" by (auto simp: list_all2_conv_all_nth)
  with assms(3) b(1) show ?thesis by (metis UnI1 attempt_stays_def nth_mem set_append)
qed

text \<open>C28: An attempt is graded once: whatever requests come after it was handed in, its answers and its result stay, and handing it
  in again is refused.\<close>
theorem graded_once:
  assumes "exam_inv s" and "get_attempt i s = Some a" and "ea_status a = ''submitted''"
  shows "get_attempt i (exam_run cf reg rs s) = Some a
     \<and> submit_attempt cf i u answers (exam_run cf reg rs s)
         = (Inl (BizError (if u = ea_user_id a then ExamErr ATTEMPT_ALREADY_SUBMITTED else CommonErr common_err.FORBIDDEN)),
            exam_run cf reg rs s)"
proof -
  have "a \<in> set (exam_attempts (exam_run cf reg rs s))"
    by (rule grown_attempt[OF exams_grow_run[OF assms(1)]]) (use get_attempt_id[OF assms(2)] assms(3) in auto)
  then have "get_attempt i (exam_run cf reg rs s) = Some a"
    using find_distinct[of ea_id _ a] exam_inv_run[OF assms(1)] get_attempt_id[OF assms(2)]
    unfolding exam_inv_def get_attempt_def by metis
  then show ?thesis
    using assms(3) by (auto simp: submit_attempt_def attempt_or_raise_def seqA_def bindA_def)
qed

text \<open>An exam made over HTTP never opens: no request publishes an exam, so whatever the requests, the published exams are the
  ones that were published to begin with, and only those are ever attempted; starting any other that exists is refused.\<close>
theorem created_exams_never_open:
  assumes "exam_inv s"
  shows "filter ex_is_published (exams (exam_run cf reg rs s)) = filter ex_is_published (exams s)
     \<and> (\<forall>a\<in>set (drop (length (exam_attempts s)) (exam_attempts (exam_run cf reg rs s))).
          ea_exam_id a \<in> ex_id ` set (filter ex_is_published (exams s)))
     \<and> (\<forall>e\<in>set (exams (exam_run cf reg rs s)). ex_id e \<notin> ex_id ` set (filter ex_is_published (exams s)) \<longrightarrow>
          fst (start_attempt (ex_id e) u (exam_run cf reg rs s)) = Inl (BizError (ExamErr EXAM_NOT_PUBLISHED)))"
proof -
  define s' where "s' = exam_run cf reg rs s"
  have inv: "exam_inv s'" and "exams_grow s s'"
    using exam_inv_run[OF assms] exams_grow_run[OF assms] by (simp_all add: s'_def)
  from this(2) obtain xs bs cs where g: "exams s' = exams s @ xs" "\<forall>e\<in>set xs. \<not> ex_is_published e" "exam_attempts s' = bs @ cs"
    "list_all2 attempt_stays (exam_attempts s) bs"
    "\<forall>c\<in>set cs. ea_exam_id c \<in> ex_id ` set (filter ex_is_published (exams s))" by (auto simp: exams_grow_def)
  have pub: "filter ex_is_published (exams s') = filter ex_is_published (exams s)" using g(1,2) by (auto simp: filter_empty_conv)
  have "drop (length (exam_attempts s)) (exam_attempts s') = cs" using g(3) list_all2_lengthD[OF g(4)] by simp
  moreover have "fst (start_attempt (ex_id e) u s') = Inl (BizError (ExamErr EXAM_NOT_PUBLISHED))"
    if "e \<in> set (exams s')" "ex_id e \<notin> ex_id ` set (filter ex_is_published (exams s))" for e
  proof -
    have "e \<notin> set (filter ex_is_published (exams s'))" using that(2) pub by auto
    with that(1) have "\<not> ex_is_published e" by simp
    moreover have "get_exam (ex_id e) s' = Some e"
      using find_distinct[of ex_id "exams s'" e] inv that(1) by (simp add: exam_inv_def get_exam_def)
    ultimately show ?thesis by (simp add: start_attempt_def get_with_questions_or_raise_def seqA_def bindA_def)
  qed
  ultimately show ?thesis using pub g(5) unfolding s'_def by simp
qed

lemma first_of_each_set: "set (first_of_each S cs) \<subseteq> {c \<in> set cs. ec_user_id c \<notin> S}"
  by (induction S cs rule: first_of_each.induct) auto

lemma first_of_each_distinct: "distinct (map ec_user_id (first_of_each S cs))"
  using first_of_each_set by (induction S cs rule: first_of_each.induct) fastforce+

lemma first_of_each_users: "ec_user_id ` set (first_of_each S cs) = ec_user_id ` set cs - S"
  by (induction S cs rule: first_of_each.induct) auto

lemma first_of_each_least:
  assumes "sorted (map k cs)" and "c \<in> set (first_of_each S cs)" and "d \<in> set cs" and "ec_user_id d = ec_user_id c"
  shows "k c \<le> (k d :: 'k :: linorder)"
  using assms
proof (induction S cs rule: first_of_each.induct)
  case (2 S x cs)
  show ?case
  proof (cases "ec_user_id x \<in> S")
    case True
    with 2(4) have c: "c \<in> set (first_of_each S cs)" by simp
    then have "ec_user_id c \<notin> S" using first_of_each_set by fastforce
    with True 2(6) have "d \<noteq> x" by auto
    with 2 True c show ?thesis by simp
  next
    case False
    show ?thesis
    proof (cases "c = x")
      case True
      with 2(3,5) show ?thesis by auto
    next
      case F: False
      with False 2(4) have c: "c \<in> set (first_of_each (insert (ec_user_id x) S) cs)" by simp
      then have "ec_user_id c \<noteq> ec_user_id x" using first_of_each_set by fastforce
      with 2(5,6) have "d \<in> set cs" by auto
      with 2(2)[OF False _ c] 2(3,6) show ?thesis by simp
    qed
  qed
qed simp

text \<open>The leaderboard of a competition: every user with a certificate stands on it once, with the best score of all their
  certificates, in the order of the scores; a page is a slice of it and the total its length.\<close>
theorem leaderboard_is_best:
  assumes "get_exam i s = Some e" and "ex_type e = ''competition''"
  shows "\<exists>board. leaderboard i off lim s = (Inr (take lim (drop off board), length board), s)
     \<and> distinct (map fst board) \<and> sorted_wrt (\<lambda>p q. snd q \<le> snd p) board
     \<and> fst ` set board = {ec_user_id c | c. c \<in> set (exam_certificates s) \<and> ec_exam_id c = i}
     \<and> (\<forall>(u, n)\<in>set board. n = Max {ec_score c | c. c \<in> set (exam_certificates s) \<and> ec_exam_id c = i \<and> ec_user_id c = u})"
proof -
  define rows where "rows = list_for_exam i s"
  define winners where "winners = sort_key cert_key (first_of_each {} rows)"
  define board where "board = map (\<lambda>c. (ec_user_id c, ec_score c)) winners"
  have rows: "set rows = {c \<in> set (exam_certificates s). ec_exam_id c = i}" "sorted (map cert_key rows)"
    by (auto simp: rows_def list_for_exam_def)
  have "leaderboard i off lim s = (Inr (take lim (drop off board), length board), s)"
    using assms by (simp add: leaderboard_def get_with_questions_or_raise_def bindA_def Let_def board_def winners_def rows_def
        take_map drop_map)
  moreover have "distinct (map fst board)"
  proof -
    have "mset (map ec_user_id winners) = mset (map ec_user_id (first_of_each {} rows))" by (simp add: winners_def)
    then have "distinct (map ec_user_id winners)" using first_of_each_distinct by (metis mset_eq_imp_distinct_iff)
    then show ?thesis by (simp add: board_def comp_def)
  qed
  moreover have "sorted_wrt (\<lambda>p q. snd q \<le> snd p) board"
  proof -
    have "sorted_wrt (\<lambda>c d. cert_key c \<le> cert_key d) winners"
      using sorted_sort_key[of cert_key "first_of_each {} rows"] unfolding winners_def sorted_map by simp
    then show ?thesis unfolding board_def sorted_wrt_map
      by (rule sorted_wrt_mono_rel[rotated]) (auto simp: cert_key_def less_eq_prod_def split: if_splits)
  qed
  moreover have "fst ` set board = {ec_user_id c | c. c \<in> set (exam_certificates s) \<and> ec_exam_id c = i}"
  proof -
    have "fst ` set board = ec_user_id ` set (first_of_each {} rows)" by (simp add: board_def winners_def image_image)
    also have "\<dots> = ec_user_id ` set rows" by (simp add: first_of_each_users)
    finally show ?thesis by (auto simp: rows(1))
  qed
  moreover have "n = Max {ec_score c | c. c \<in> set (exam_certificates s) \<and> ec_exam_id c = i \<and> ec_user_id c = u}"
    if "(u, n) \<in> set board" for u n
  proof -
    let ?S = "{ec_score c | c. c \<in> set (exam_certificates s) \<and> ec_exam_id c = i \<and> ec_user_id c = u}"
    from that obtain c where c: "c \<in> set (first_of_each {} rows)" "ec_user_id c = u" "ec_score c = n"
      by (auto simp: board_def winners_def)
    then have "c \<in> set rows" using first_of_each_set by fastforce
    then have "n \<in> ?S" using c rows(1) by auto
    moreover have "m \<le> n" if "m \<in> ?S" for m
    proof -
      from that obtain d where d: "d \<in> set rows" "ec_user_id d = u" "ec_score d = m" by (auto simp: rows(1))
      have "cert_key c \<le> cert_key d" using first_of_each_least[OF rows(2) c(1) d(1)] c(2) d(2) by simp
      then show ?thesis using c(3) d(3) by (auto simp: cert_key_def less_eq_prod_def)
    qed
    moreover have "?S = ec_score ` {c \<in> set (exam_certificates s). ec_exam_id c = i \<and> ec_user_id c = u}" by auto
    then have "finite ?S" by simp
    ultimately show ?thesis by (intro Max_eqI[symmetric]) auto
  qed
  ultimately show ?thesis by blast
qed

section \<open>Witnesses\<close>

definition final0 :: exam where
  "final0 = \<lparr>ex_id = 100, ex_type = ''competition'', ex_title = ''Finals'', ex_subject = ''math'', ex_difficulty = 2,
     ex_description = None, ex_pass_score = 10, ex_time_limit_min = 30, ex_is_published = True, ex_unlock_level = None,
     ex_unlock_role = None, ex_starts_at = None, ex_ends_at = None, ex_created_at = 0, ex_updated_at = 0\<rparr>"

definition question0 :: exam_question where
  "question0 = \<lparr>eq_id = 7, eq_exam_id = 100, eq_kind = ''judge'', eq_content = ''True?'', eq_options = [], eq_answer = ''T'',
     eq_analysis = None, eq_difficulty = 1, eq_score = 10, eq_sort_order = 0\<rparr>"

definition attempt0 :: exam_attempt where
  "attempt0 = \<lparr>ea_id = 200, ea_exam_id = 100, ea_user_id = 1, ea_status = ''in_progress'', ea_answers = [], ea_score = 0,
     ea_passed = False, ea_started_at = 0, ea_submitted_at = None, ea_time_spent_s = 0\<rparr>"

definition exams0 :: exam_db where
  "exams0 = auth_db.extend auth0 (exam_db.fields [final0] [question0] [attempt0] [])"

definition exams1 :: exam_db where
  "exams1 = snd (submit_attempt cf0 200 1 [(7, '' t'')] exams0)"

lemma exams0_simps [simp]:
  "exams exams0 = [final0]" "exam_questions exams0 = [question0]" "exam_attempts exams0 = [attempt0]"
  "exam_certificates exams0 = []" "now exams0 = 0" "message_bus_enabled exams0 = False"
  by (simp_all add: exams0_def auth_db.defs exam_db.defs core_db.defs auth0_def)

lemma exams0_pks: "pks exams0 = of_nat" "pk_ix exams0 = 0"
  by (simp_all add: exams0_def auth_db.defs exam_db.defs core_db.defs auth0_def)

lemma exam_inv_exams0: "exam_inv exams0"
  by (simp add: exam_inv_def attempt_ok_def passes_def awards_def final0_def attempt0_def)

lemma exams0_submit:
  "\<exists>r. submit_attempt cf0 200 1 [(7, '' t'')] exams0 = (Inr r, exams1) \<and> sr_passed r \<and> sr_score r = 10"
proof -
  have right: "answer_right [(7, '' t'')] question0"
    by code_simp
  have "\<exists>r. fst (submit_attempt cf0 200 1 [(7, '' t'')] exams0) = Inr r \<and> sr_passed r \<and> sr_score r = 10"
    using right
    by (simp add: submit_attempt_def attempt_or_raise_def get_attempt_def get_with_questions_or_raise_def get_exam_def
        check_window_def check_attempt_deadline_def timed_def check_not_passed_def unlocks_def questions_of_def Let_def
        issue_certificate_def fresh_pk_def fresh_hex_def apply_unlock_def writeA_def enqueue_points_event_def enqueue_outbox_def
        update_attempt_def seqA_def bindA_def final0_def attempt0_def question0_def)
  then show ?thesis by (metis exams1_def prod.collapse)
qed

theorem attempt_is_graded_witness:
  "\<exists>r a. submit_attempt cf0 200 1 [(7, '' t'')] exams0 = (Inr r, exams1) \<and> sr_score r = 10
     \<and> get_attempt 200 exams1 = Some a \<and> ea_passed a \<and> length (exam_certificates exams1) = 1"
proof -
  from exams0_submit obtain r where r: "submit_attempt cf0 200 1 [(7, '' t'')] exams0 = (Inr r, exams1)" "sr_passed r" "sr_score r = 10"
    by blast
  from attempt_is_graded[OF r(1)] r show ?thesis by (auto simp: awarded_def submitted_def)
qed

theorem certificates_are_earned_witness:
  "\<exists>c e. exam_certificates exams1 = [c] \<and> e \<in> set (exams exams1) \<and> ex_id e = ec_exam_id c \<and> ex_pass_score e \<le> ec_score c"
proof -
  have run: "exam_run cf0 [] [Submit_exam 1 200 [(7, '' t'')]] exams0 = exams1"
    using exams0_submit by (auto simp: exam_session_def bindA_def)
  from exams0_submit have "\<exists>c. exam_certificates exams1 = [c]"
    by (auto elim!: submit_tables simp: awarded_def)
  with certificates_are_earned[OF exam_inv_exams0, of cf0 "[]" "[Submit_exam 1 200 [(7, '' t'')]]"] show ?thesis
    unfolding run by auto
qed

theorem graded_once_witness:
  "\<exists>a. get_attempt 200 exams1 = Some a \<and> ea_score a = 10
     \<and> get_attempt 200 (exam_run cf0 [] [Exam_tick 5, Submit_exam 1 200 []] exams1) = Some a"
proof -
  from exams0_submit obtain r where r: "submit_attempt cf0 200 1 [(7, '' t'')] exams0 = (Inr r, exams1)" "sr_score r = 10" by blast
  have inv: "exam_inv exams1" using inv_submit[OF exam_inv_exams0 r(1)] .
  from r have "exam_attempts exams1 = [submitted [(7, '' t'')] (sr_score r) (sr_passed r) 0 attempt0]"
    by (elim submit_tables) (simp add: attempt0_def)
  then obtain a where a: "get_attempt 200 exams1 = Some a" "ea_score a = 10" "ea_status a = ''submitted''"
    using r(2) by (simp add: get_attempt_def submitted_def attempt0_def)
  with graded_once[OF inv a(1,3), of cf0 "[]" "[Exam_tick 5, Submit_exam 1 200 []]"] show ?thesis by blast
qed

definition quiz0 :: exam_create where
  "quiz0 = \<lparr>xc_type = ''exam'', xc_title = ''Entry'', xc_subject = [], xc_difficulty = 1, xc_description = None, xc_pass_score = 5,
     xc_time_limit_min = 30, xc_unlock_level = Some ''normal'', xc_unlock_role = None, xc_starts_at = None, xc_ends_at = None,
     xc_questions = [\<lparr>qc_kind = ''judge'', qc_content = ''?'', qc_options = [], qc_answer = ''F'', qc_analysis = None,
       qc_difficulty = 1, qc_score = 5\<rparr>]\<rparr>"

theorem created_exams_never_open_witness:
  "let s = exam_run cf0 [] [Create_exam ''admin'' quiz0, Start_exam 1 ''normal'' 0] exams0
   in map ex_id (exams s) = [100, 0] \<and> exam_attempts s = [attempt0]
      \<and> fst (start_attempt 0 1 s) = Inl (BizError (ExamErr EXAM_NOT_PUBLISHED))"
proof -
  let ?rs = "[Create_exam ''admin'' quiz0, Start_exam 1 ''normal'' 0]"
  define s where "s = exam_run cf0 [] ?rs exams0"
  have s: "map ex_id (exams s) = [100, 0]" "exam_attempts s = [attempt0]"
    by (simp_all add: s_def exam_session_def exam_roll_back_def roll_back_def require_level_def LEVEL_ORDER_def exam_create_ok_def
        quiz0_def question_ok_def opt_max_def create_exam_ex_def fresh_pk_def Let_def exams0_pks seqA_def bindA_def final0_def
        exam_question_row_def question0_def start_attempt_def get_with_questions_or_raise_def get_exam_def)
  moreover have "0 \<notin> ex_id ` set (filter ex_is_published (exams exams0))" by (simp add: final0_def)
  moreover from s(1) obtain e where "e \<in> set (exams s)" "ex_id e = 0" by (metis list.set_intros(1) list.set_map imageE list.set_intros(2))
  ultimately have "fst (start_attempt 0 1 s) = Inl (BizError (ExamErr EXAM_NOT_PUBLISHED))"
    using created_exams_never_open[OF exam_inv_exams0, of cf0 "[]" ?rs 1] unfolding s_def by metis
  with s show ?thesis unfolding s_def Let_def by blast
qed

theorem leaderboard_is_best_witness:
  "\<exists>board. leaderboard 100 0 10 exams1 = (Inr (take 10 board, length board), exams1) \<and> fst ` set board = {1}"
proof -
  from exams0_submit obtain r where r: "submit_attempt cf0 200 1 [(7, '' t'')] exams0 = (Inr r, exams1)" "sr_passed r" by blast
  then have e: "get_exam 100 exams1 = Some final0" and "\<exists>c. exam_certificates exams1 = [c] \<and> ec_exam_id c = 100 \<and> ec_user_id c = 1"
    by (auto elim!: submit_tables simp: awarded_def get_exam_def final0_def get_attempt_def attempt0_def split: if_splits)
  then obtain c where c: "exam_certificates exams1 = [c]" "ec_exam_id c = 100" "ec_user_id c = 1" by blast
  have "ex_type final0 = ''competition''" by (simp add: final0_def)
  from leaderboard_is_best[OF e this, of 0 10] c show ?thesis by auto
qed

end
