(* ===== verification/Bloom.thy ===== *)
theory Bloom
  imports Prelude
begin

text \<open>
  The filter that keeps requests for identifiers nobody has away from the authority (\<open>core/bloom.py\<close>), and the two ways
  an identifier enters it: the end of every sign-up (\<open>auth/service_auth.py\<close>) and the full scan that sets the mark of
  completeness (\<open>auth/bloom_seed.py\<close>).  Redis may fail at any call, and may lose what it holds.  The number of bits and of positions, computed from logarithms, and the digest
  are parameters.
\<close>

section \<open>The bit map\<close>

text \<open>
  Redis holds the bits and, until it expires, the mark that the map is complete.  A pipeline without a transaction may break
  after some of its commands were carried out.  \<open>Disabled\<close> is the setting, \<open>Unreachable\<close> a client that cannot be had.
\<close>

datatype redis_call = Disabled | Unreachable | Breaks nat | Works

record bloom_cfg =
  bl_hash :: "string \<Rightarrow> nat \<times> nat"
  bl_m :: nat
  bl_k :: nat
  bl_seed_ttl :: int

record bloom_map =
  bl_bits :: "nat set"
  bl_seeded :: "instant option"

text \<open>\<open>blake2b\<close> gives two numbers of 64 bits; the second is made odd.\<close>

definition positions :: "bloom_cfg \<Rightarrow> string \<Rightarrow> nat list" where
  "positions cf key =
     (let (h1, h2) = bl_hash cf key; h2 = (if even h2 then h2 + 1 else h2)
      in map (\<lambda>i. (h1 + i * h2) mod bl_m cf) [0..<bl_k cf])"

definition set_bits :: "nat list \<Rightarrow> bloom_map \<Rightarrow> bloom_map" where
  "set_bits ps b = b\<lparr>bl_bits := bl_bits b \<union> set ps\<rparr>"

definition bloom_add :: "bloom_cfg \<Rightarrow> redis_call \<Rightarrow> string \<Rightarrow> bloom_map \<Rightarrow> bool \<times> bloom_map" where
  "bloom_add cf r key b =
     (case r of
        Works \<Rightarrow> (True, set_bits (positions cf key) b)
      | Breaks n \<Rightarrow> (False, set_bits (take n (positions cf key)) b)
      | _ \<Rightarrow> (False, b))"

definition ADD_CHUNK :: nat where "ADD_CHUNK = 1000"

fun add_chunks :: "bloom_cfg \<Rightarrow> redis_call list \<Rightarrow> string list list \<Rightarrow> bloom_map \<Rightarrow> nat \<times> bloom_map" where
  "add_chunks cf rs [] b = (0, b)"
| "add_chunks cf [] (c # cs) b = (0, b)"
| "add_chunks cf (r # rs) (c # cs) b =
     (case r of
        Works \<Rightarrow> (let (n, b) = add_chunks cf rs cs (set_bits (concat (map (positions cf) c)) b) in (length c + n, b))
      | Breaks n \<Rightarrow> (0, set_bits (take n (concat (map (positions cf) c))) b)
      | _ \<Rightarrow> (0, b))"

fun chunks :: "nat \<Rightarrow> 'a list \<Rightarrow> 'a list list" where
  "chunks n [] = []"
| "chunks n (x # xs) = (if n = 0 then [x # xs] else take n (x # xs) # chunks n (drop n (x # xs)))"

definition add_many :: "bloom_cfg \<Rightarrow> redis_call list \<Rightarrow> string list \<Rightarrow> bloom_map \<Rightarrow> nat \<times> bloom_map" where
  "add_many cf rs keys b =
     (if keys = [] \<or> Disabled \<in> set rs \<or> Unreachable \<in> set rs then (0, b)
      else add_chunks cf rs (chunks ADD_CHUNK keys) b)"

definition might_contain :: "bloom_cfg \<Rightarrow> redis_call \<Rightarrow> string \<Rightarrow> bloom_map \<Rightarrow> bool" where
  "might_contain cf r key b \<longleftrightarrow> r \<noteq> Works \<or> list_all (\<lambda>p. p \<in> bl_bits b) (positions cf key)"

definition mark_seeded :: "bloom_cfg \<Rightarrow> redis_call \<Rightarrow> instant \<Rightarrow> bloom_map \<Rightarrow> bool \<times> bloom_map" where
  "mark_seeded cf r t b =
     (if r = Works then (True, b\<lparr>bl_seeded := Some (t + seconds (max 1 (bl_seed_ttl cf)))\<rparr>) else (False, b))"

text \<open>Removing the mark does not ask for the setting.\<close>

definition unmark_seeded :: "redis_call \<Rightarrow> bloom_map \<Rightarrow> bool \<times> bloom_map" where
  "unmark_seeded r b = (if r = Works \<or> r = Disabled then (True, b\<lparr>bl_seeded := None\<rparr>) else (False, b))"

definition seeded :: "instant \<Rightarrow> bloom_map \<Rightarrow> bool" where
  "seeded t b \<longleftrightarrow> (case bl_seeded b of None \<Rightarrow> False | Some e \<Rightarrow> t < e)"

definition definitely_absent_many :: "bloom_cfg \<Rightarrow> redis_call \<Rightarrow> instant \<Rightarrow> string list \<Rightarrow> bloom_map \<Rightarrow> string set" where
  "definitely_absent_many cf r t keys b =
     (if keys = [] \<or> r \<noteq> Works \<or> \<not> seeded t b then {}
      else set (filter (\<lambda>key. list_ex (\<lambda>p. p \<notin> bl_bits b) (positions cf key)) keys))"

definition definitely_absent :: "bloom_cfg \<Rightarrow> redis_call \<Rightarrow> instant \<Rightarrow> string \<Rightarrow> bloom_map \<Rightarrow> bool" where
  "definitely_absent cf r t key b \<longleftrightarrow> definitely_absent_many cf r t [key] b \<noteq> {}"

section \<open>The accounts and the full scan\<close>

text \<open>
  The committed accounts, the sign-ups that have not committed yet, each with what \<open>add\<close> returned, and the scans that were
  started, each with its cursor and its count.  \<open>create_user_with_profile\<close> adds before the request commits, and whatever
  \<open>add\<close> returns, the account will be there.  A scan waits before it reads a page, before the one pipeline that adds it, and
  before it sets the mark; the start of the process and the daily task may run one each, so there may be several.  The scripts
  that create accounts (\<open>seed_users.py\<close>, \<open>create_admin.py\<close>, \<open>admin_ops.py\<close>) commit first, \<open>Script_account\<close>, and add after it,
  \<open>Script_add\<close>.
\<close>

datatype scan_at = Reading "uuid option" nat | Writing "uuid list" nat | Marking nat | Ended

record bloom_world =
  bw_now :: instant
  bw_map :: bloom_map
  bw_users :: "uuid list"
  bw_pending :: "(uuid \<times> bool) list"
  bw_scans :: "scan_at list"

definition PAGE :: nat where "PAGE = 1000"

definition scan_rows :: "uuid option \<Rightarrow> uuid list \<Rightarrow> uuid list" where
  "scan_rows cursor users =
     take PAGE (filter (\<lambda>u. case cursor of None \<Rightarrow> True | Some c \<Rightarrow> c < u) (sort_key (\<lambda>u. u) users))"

definition finish_scan :: "bloom_cfg \<Rightarrow> redis_call \<Rightarrow> instant \<Rightarrow> nat \<Rightarrow> bloom_map \<Rightarrow> bloom_map" where
  "finish_scan cf r t seen b = (if seen = 0 then b else snd (mark_seeded cf r t b))"

definition scan_page :: "bloom_cfg \<Rightarrow> redis_call \<Rightarrow> scan_at \<Rightarrow> bloom_world \<Rightarrow> scan_at \<times> bloom_map" where
  "scan_page cf r sc w =
     (case sc of
        Reading cursor seen \<Rightarrow>
          (let rows = scan_rows cursor (bw_users w) in if rows = [] then Marking seen else Writing rows seen, bw_map w)
      | Writing rows seen \<Rightarrow>
          (let (written, b) = add_many cf [r] (map uuid_str rows) (bw_map w)
           in (if written \<noteq> length rows then Ended
               else if length rows < PAGE then Marking (seen + length rows)
               else Reading (Some (last rows)) (seen + length rows), b))
      | Marking seen \<Rightarrow> (Ended, finish_scan cf r (bw_now w) seen (bw_map w))
      | Ended \<Rightarrow> (Ended, bw_map w))"

text \<open>
  \<open>Redis_loses kept m\<close>: of the bits only those in \<open>kept\<close> remain, and the mark only if \<open>m\<close>.  A restart without a stored copy
  is \<open>Redis_loses {} False\<close>, the eviction of the map \<open>Redis_loses {} True\<close>, that of the mark \<open>Redis_loses UNIV False\<close>.
\<close>

datatype bloom_event =
    Sign_up uuid redis_call
  | Commit_account uuid
  | Roll_back uuid
  | Script_account uuid
  | Script_add uuid redis_call
  | Delete_account uuid
  | Start_scan
  | Scan_turn nat redis_call
  | Stop_scan nat
  | Unmark redis_call
  | Redis_loses "nat set" bool
  | Bloom_tick nat

fun bloom_step :: "bloom_cfg \<Rightarrow> bloom_event \<Rightarrow> bloom_world \<Rightarrow> bloom_world" where
  "bloom_step cf (Sign_up u r) w =
     (let (ok, b) = bloom_add cf r (uuid_str u) (bw_map w) in w\<lparr>bw_pending := (u, ok) # bw_pending w, bw_map := b\<rparr>)"
| "bloom_step cf (Commit_account u) w =
     (if u \<in> fst ` set (bw_pending w)
      then w\<lparr>bw_users := bw_users w @ [u], bw_pending := filter (\<lambda>(v, _). v \<noteq> u) (bw_pending w)\<rparr> else w)"
| "bloom_step cf (Roll_back u) w = w\<lparr>bw_pending := filter (\<lambda>(v, _). v \<noteq> u) (bw_pending w)\<rparr>"
| "bloom_step cf (Script_account u) w = w\<lparr>bw_users := bw_users w @ [u]\<rparr>"
| "bloom_step cf (Script_add u r) w = w\<lparr>bw_map := snd (bloom_add cf r (uuid_str u) (bw_map w))\<rparr>"
| "bloom_step cf (Delete_account u) w = w\<lparr>bw_users := filter (\<lambda>v. v \<noteq> u) (bw_users w)\<rparr>"
| "bloom_step cf Start_scan w = w\<lparr>bw_scans := bw_scans w @ [Reading None 0]\<rparr>"
| "bloom_step cf (Scan_turn i r) w =
     (if i < length (bw_scans w)
      then (let (sc, b) = scan_page cf r (bw_scans w ! i) w in w\<lparr>bw_scans := (bw_scans w)[i := sc], bw_map := b\<rparr>) else w)"
| "bloom_step cf (Stop_scan i) w = w\<lparr>bw_scans := (bw_scans w)[i := Ended]\<rparr>"
| "bloom_step cf (Unmark r) w = w\<lparr>bw_map := snd (unmark_seeded r (bw_map w))\<rparr>"
| "bloom_step cf (Redis_loses kept m) w =
     w\<lparr>bw_map := \<lparr>bl_bits = bl_bits (bw_map w) \<inter> kept, bl_seeded = (if m then bl_seeded (bw_map w) else None)\<rparr>\<rparr>"
| "bloom_step cf (Bloom_tick n) w = w\<lparr>bw_now := bw_now w + int n\<rparr>"

fun bloom_run :: "bloom_cfg \<Rightarrow> bloom_event list \<Rightarrow> bloom_world \<Rightarrow> bloom_world" where
  "bloom_run cf [] w = w"
| "bloom_run cf (e # es) w = bloom_run cf es (bloom_step cf e w)"

section \<open>No false negatives\<close>

definition holds_all :: "bloom_cfg \<Rightarrow> uuid list \<Rightarrow> bloom_map \<Rightarrow> bool" where
  "holds_all cf us b \<longleftrightarrow> list_all (\<lambda>u. set (positions cf (uuid_str u)) \<subseteq> bl_bits b) us"

lemma set_bits_grow: "bl_bits b \<subseteq> bl_bits (set_bits ps b)" "bl_seeded (set_bits ps b) = bl_seeded b"
  by (auto simp: set_bits_def)

lemma bloom_add_grows:
  "bl_bits b \<subseteq> bl_bits (snd (bloom_add cf r key b)) \<and> bl_seeded (snd (bloom_add cf r key b)) = bl_seeded b"
  by (auto simp: bloom_add_def set_bits_def split: redis_call.splits)

lemma add_chunks_grows:
  "bl_bits b \<subseteq> bl_bits (snd (add_chunks cf rs cs b)) \<and> bl_seeded (snd (add_chunks cf rs cs b)) = bl_seeded b"
proof (induction cf rs cs b rule: add_chunks.induct)
  case (3 cf r rs c cs b)
  show ?case
  proof (cases r)
    case Works
    with 3[OF Works] show ?thesis by (auto simp: set_bits_def split: prod.splits)
  qed (auto simp: set_bits_def)
qed auto

lemma add_many_grows:
  "bl_bits b \<subseteq> bl_bits (snd (add_many cf rs keys b)) \<and> bl_seeded (snd (add_many cf rs keys b)) = bl_seeded b"
  using add_chunks_grows by (auto simp: add_many_def)

lemma holds_all_mono: "holds_all cf us b \<Longrightarrow> bl_bits b \<subseteq> bl_bits b' \<Longrightarrow> holds_all cf us b'"
  by (auto simp: holds_all_def list_all_iff)

lemma concat_chunks [simp]: "concat (chunks n xs) = xs"
  by (induction n xs rule: chunks.induct) auto

lemma add_chunks_all:
  "fst (add_chunks cf rs cs b) = length (concat cs) \<Longrightarrow> [] \<notin> set cs \<Longrightarrow>
     set (concat (map (positions cf) (concat cs))) \<subseteq> bl_bits (snd (add_chunks cf rs cs b))"
proof (induction cf rs cs b rule: add_chunks.induct)
  case (3 cf r rs c cs b)
  show ?case
  proof (cases r)
    case Works
    let ?b = "set_bits (concat (map (positions cf) c)) b"
    obtain n b' where nb: "add_chunks cf rs cs ?b = (n, b')" by (cases "add_chunks cf rs cs ?b")
    from 3(2) Works nb have "n = length (concat cs)" by simp
    with 3(1)[OF Works] 3(3) nb have "set (concat (map (positions cf) (concat cs))) \<subseteq> bl_bits b'" by simp
    moreover have "bl_bits ?b \<subseteq> bl_bits b'" using add_chunks_grows[of ?b cf rs cs] nb by simp
    ultimately show ?thesis using Works nb by (auto simp: set_bits_def)
  qed (use 3 in auto)
qed auto

lemma chunks_nonempty: "0 < n \<Longrightarrow> [] \<notin> set (chunks n xs)"
  by (induction n xs rule: chunks.induct) auto

text \<open>What \<open>add_many\<close> reports as written is there.\<close>

lemma add_many_all:
  assumes "fst (add_many cf rs keys b) = length keys"
  shows "\<forall>key\<in>set keys. set (positions cf key) \<subseteq> bl_bits (snd (add_many cf rs keys b))"
proof (cases "keys = [] \<or> Disabled \<in> set rs \<or> Unreachable \<in> set rs")
  case True
  with assms show ?thesis by (auto simp: add_many_def)
next
  case False
  have "[] \<notin> set (chunks ADD_CHUNK keys)" by (rule chunks_nonempty) (simp add: ADD_CHUNK_def)
  with assms False show ?thesis using add_chunks_all[of cf rs "chunks ADD_CHUNK keys" b] by (auto simp: add_many_def)
qed

text \<open>
  While the mark stands every account is recorded; so is every sign-up whose \<open>add\<close> worked; and for every scan the accounts
  it has passed are.
\<close>

fun scan_ok :: "bloom_cfg \<Rightarrow> uuid list \<Rightarrow> bloom_map \<Rightarrow> scan_at \<Rightarrow> bool" where
  "scan_ok cf us b (Reading None n) \<longleftrightarrow> True"
| "scan_ok cf us b (Reading (Some c) n) \<longleftrightarrow> holds_all cf (filter (\<lambda>u. u \<le> c) us) b"
| "scan_ok cf us b (Writing rows n) \<longleftrightarrow>
     rows \<noteq> [] \<and> holds_all cf (filter (\<lambda>u. u \<notin> set rows \<and> (length rows < PAGE \<or> u \<le> last rows)) us) b"
| "scan_ok cf us b (Marking n) \<longleftrightarrow> holds_all cf us b"
| "scan_ok cf us b Ended \<longleftrightarrow> True"

definition bloom_inv :: "bloom_cfg \<Rightarrow> bloom_world \<Rightarrow> bool" where
  "bloom_inv cf w \<longleftrightarrow>
     (seeded (bw_now w) (bw_map w) \<longrightarrow> holds_all cf (bw_users w) (bw_map w))
     \<and> list_all (\<lambda>(u, ok). ok \<longrightarrow> holds_all cf [u] (bw_map w)) (bw_pending w)
     \<and> list_all (scan_ok cf (bw_users w) (bw_map w)) (bw_scans w)"

text \<open>
  What the filter relies on.  An account becomes visible while the mark stands or a scan is on its way only if \<open>add\<close> had
  worked for it; no script creates one at such a time.  And Redis loses bits only together with the mark, and at no time at which a scan is on its way or a sign-up
  waits for its commit.
\<close>

definition no_scan :: "bloom_world \<Rightarrow> bool" where
  "no_scan w \<longleftrightarrow> list_all (\<lambda>sc. sc = Ended) (bw_scans w)"

definition recorded :: "bloom_event \<Rightarrow> bloom_world \<Rightarrow> bool" where
  "recorded e w \<longleftrightarrow>
     (case e of
        Commit_account u \<Rightarrow>
          list_all (\<lambda>(v, ok). v = u \<longrightarrow> ok) (bw_pending w) \<or> (\<not> seeded (bw_now w) (bw_map w) \<and> no_scan w)
      | Script_account u \<Rightarrow> \<not> seeded (bw_now w) (bw_map w) \<and> no_scan w
      | Redis_loses kept m \<Rightarrow>
          bl_bits (bw_map w) \<subseteq> kept
          \<or> (no_scan w \<and> bw_pending w = [] \<and> (\<not> m \<or> \<not> seeded (bw_now w) (bw_map w)))
      | _ \<Rightarrow> True)"

fun all_recorded :: "bloom_cfg \<Rightarrow> bloom_event list \<Rightarrow> bloom_world \<Rightarrow> bool" where
  "all_recorded cf [] w = True"
| "all_recorded cf (e # es) w = (recorded e w \<and> all_recorded cf es (bloom_step cf e w))"

lemma scan_rows_spec:
  fixes us :: "uuid list" and cursor :: "uuid option"
  defines "rows \<equiv> scan_rows cursor us"
  shows "set rows \<subseteq> set us"
    and "length rows < PAGE \<Longrightarrow> {u \<in> set us. case cursor of None \<Rightarrow> True | Some c \<Rightarrow> c < u} \<subseteq> set rows"
    and "rows \<noteq> [] \<Longrightarrow> {u \<in> set us. (case cursor of None \<Rightarrow> True | Some c \<Rightarrow> c < u) \<and> u \<le> last rows} \<subseteq> set rows"
proof -
  define xs where "xs = filter (\<lambda>u. case cursor of None \<Rightarrow> True | Some c \<Rightarrow> c < u) (sort_key (\<lambda>u. u) us)"
  have rows: "rows = take PAGE xs" by (simp add: rows_def scan_rows_def xs_def)
  have xs: "set xs = {u \<in> set us. case cursor of None \<Rightarrow> True | Some c \<Rightarrow> c < u}" "sorted xs"
    using sorted_sort_key[of "\<lambda>u. u" us] by (auto simp: xs_def intro: sorted_filter[of "\<lambda>u. u", simplified])
  show "set rows \<subseteq> set us" using set_take_subset[of PAGE xs] xs(1) by (auto simp: rows)
  show "length rows < PAGE \<Longrightarrow> {u \<in> set us. case cursor of None \<Rightarrow> True | Some c \<Rightarrow> c < u} \<subseteq> set rows"
    using xs(1) by (auto simp: rows min_def split: if_splits)
  assume ne: "rows \<noteq> []"
  have "u \<in> set rows" if "u \<in> set xs" "u < last rows" for u
  proof (rule ccontr)
    assume "u \<notin> set rows"
    with that(1) have "u \<in> set (drop PAGE xs)" by (metis Un_iff append_take_drop_id rows set_append)
    moreover have "last rows \<in> set (take PAGE xs)" using ne by (simp add: rows)
    ultimately have "last rows \<le> u" using xs(2) by (metis append_take_drop_id sorted_append)
    with that(2) show False by simp
  qed
  moreover have "last rows \<in> set rows" using ne by simp
  ultimately show "{u \<in> set us. (case cursor of None \<Rightarrow> True | Some c \<Rightarrow> c < u) \<and> u \<le> last rows} \<subseteq> set rows"
    using xs(1) by (auto simp: order_le_less)
qed

lemma holds_all_grow: "holds_all cf us b \<Longrightarrow> bl_bits b \<subseteq> bl_bits b' \<Longrightarrow> set vs \<subseteq> set us \<Longrightarrow> holds_all cf vs b'"
  by (auto simp: holds_all_def list_all_iff)

lemma seeded_eq: "bl_seeded b' = bl_seeded b \<Longrightarrow> seeded t b' = seeded t b"
  by (simp add: seeded_def)

lemma holds_all_iff: "holds_all cf us b \<longleftrightarrow> (\<forall>u\<in>set us. set (positions cf (uuid_str u)) \<subseteq> bl_bits b)"
  by (simp add: holds_all_def list_all_iff)

text \<open>Accounts that are recorded may come, any may go, and bits may be added.\<close>

lemma scan_ok_change:
  assumes "scan_ok cf us b sc" and "\<And>u. u \<in> set vs \<Longrightarrow> u \<in> set us \<or> holds_all cf [u] b'" and "bl_bits b \<subseteq> bl_bits b'"
  shows "scan_ok cf vs b' sc"
proof -
  have "holds_all cf (filter P vs) b'" if "holds_all cf (filter P us) b" for P
    using that assms(2,3) by (fastforce simp: holds_all_iff)
  moreover from this[of "\<lambda>_. True"] have "holds_all cf vs b'" if "holds_all cf us b" using that by simp
  ultimately show ?thesis using assms(1) by (cases "(cf, us, b, sc)" rule: scan_ok.cases) auto
qed

lemma scans_change:
  assumes "list_all (scan_ok cf us b) scs" and "\<And>u. u \<in> set vs \<Longrightarrow> u \<in> set us \<or> holds_all cf [u] b'" and "bl_bits b \<subseteq> bl_bits b'"
  shows "list_all (scan_ok cf vs b') scs"
  unfolding list_all_iff
proof
  fix sc assume "sc \<in> set scs"
  with assms(1) have "scan_ok cf us b sc" by (simp add: list_all_iff)
  then show "scan_ok cf vs b' sc" by (rule scan_ok_change) (use assms(2,3) in auto)
qed

lemma pending_grow:
  "list_all (\<lambda>(u, ok). ok \<longrightarrow> holds_all cf [u] b) ps \<Longrightarrow> bl_bits b \<subseteq> bl_bits b' \<Longrightarrow>
   list_all (\<lambda>(u, ok). ok \<longrightarrow> holds_all cf [u] b') ps"
  by (fastforce simp: list_all_iff holds_all_iff)

lemma scan_page_ok:
  assumes inv: "bloom_inv cf w" and sc: "scan_ok cf (bw_users w) (bw_map w) sc" and step: "scan_page cf r sc w = (sc', b)"
  shows "bl_bits (bw_map w) \<subseteq> bl_bits b" and "seeded (bw_now w) b \<Longrightarrow> holds_all cf (bw_users w) b"
    and "scan_ok cf (bw_users w) b sc'"
proof -
  have old: "seeded (bw_now w) (bw_map w) \<Longrightarrow> holds_all cf (bw_users w) (bw_map w)" using inv by (simp add: bloom_inv_def)
  have "bl_bits (bw_map w) \<subseteq> bl_bits b \<and> (seeded (bw_now w) b \<longrightarrow> holds_all cf (bw_users w) b) \<and> scan_ok cf (bw_users w) b sc'"
  proof (cases sc)
    case (Reading cursor n)
    define rows where "rows = scan_rows cursor (bw_users w)"
    from Reading step have b: "b = bw_map w" "sc' = (if rows = [] then Marking n else Writing rows n)"
      by (auto simp: scan_page_def rows_def Let_def split: if_splits)
    have "u \<in> set rows \<or> holds_all cf [u] b" if "u \<in> set (bw_users w)" "length rows < PAGE \<or> (rows \<noteq> [] \<and> u \<le> last rows)" for u
    proof (cases "case cursor of None \<Rightarrow> True | Some c \<Rightarrow> c < u")
      case True
      with that scan_rows_spec(2,3)[of cursor "bw_users w"] have "u \<in> set rows" unfolding rows_def by blast
      then show ?thesis ..
    next
      case False
      then obtain c where "cursor = Some c" "u \<le> c" by (auto split: option.splits)
      with sc Reading b(1) that(1) show ?thesis by (simp add: holds_all_iff)
    qed
    then have "scan_ok cf (bw_users w) b sc'" using b(2) by (cases "rows = []") (auto simp: holds_all_iff PAGE_def)
    with b(1) old show ?thesis by simp
  next
    case (Writing rows n)
    from sc Writing have ne: "rows \<noteq> []"
      and held: "u \<in> set (bw_users w) \<Longrightarrow> u \<notin> set rows \<Longrightarrow> length rows < PAGE \<or> u \<le> last rows \<Longrightarrow> holds_all cf [u] (bw_map w)" for u
      by (auto simp: holds_all_iff)
    obtain k b' where add: "add_many cf [r] (map uuid_str rows) (bw_map w) = (k, b')" by (cases "add_many cf [r] (map uuid_str rows) (bw_map w)")
    with step Writing have b: "b = b'" and sc': "sc' = (if k \<noteq> length rows then Ended else if length rows < PAGE then Marking (n + length rows)
        else Reading (Some (last rows)) (n + length rows))" by (simp_all add: scan_page_def)
    have grows: "bl_bits (bw_map w) \<subseteq> bl_bits b" "bl_seeded b = bl_seeded (bw_map w)"
      using add_many_grows[of "bw_map w" cf "[r]" "map uuid_str rows"] add b by simp_all
    have "holds_all cf rows b" if "k = length rows"
      using add_many_all[of cf "[r]" "map uuid_str rows" "bw_map w"] add b that by (simp add: holds_all_iff)
    then have "scan_ok cf (bw_users w) b sc'" using sc' held grows(1) by (fastforce simp: holds_all_iff)
    moreover have "seeded (bw_now w) b \<longrightarrow> holds_all cf (bw_users w) b"
      using old grows holds_all_mono[of cf "bw_users w" "bw_map w" b] seeded_eq[of b "bw_map w"] by auto
    ultimately show ?thesis using grows(1) by simp
  next
    case (Marking n)
    with step have "sc' = Ended" "b = finish_scan cf r (bw_now w) n (bw_map w)" by (simp_all add: scan_page_def)
    moreover from this(2) have "bl_bits b = bl_bits (bw_map w)" by (auto simp: finish_scan_def mark_seeded_def)
    ultimately show ?thesis using sc Marking by (simp add: holds_all_iff)
  next
    case Ended
    with step old show ?thesis by (auto simp: scan_page_def)
  qed
  then show "bl_bits (bw_map w) \<subseteq> bl_bits b" and "seeded (bw_now w) b \<Longrightarrow> holds_all cf (bw_users w) b"
    and "scan_ok cf (bw_users w) b sc'" by auto
qed

lemma inv_lose:
  assumes inv: "bloom_inv cf w" and "recorded (Redis_loses kept m) w"
  shows "bloom_inv cf (bloom_step cf (Redis_loses kept m) w)"
proof (cases "bl_bits (bw_map w) \<subseteq> kept")
  case True
  then have "bl_bits (bw_map w) \<inter> kept = bl_bits (bw_map w)" by blast
  then have same: "holds_all cf us (\<lparr>bl_bits = bl_bits (bw_map w) \<inter> kept, bl_seeded = d\<rparr>) = holds_all cf us (bw_map w)" for us d
    by (simp add: holds_all_iff)
  have "scan_ok cf us (\<lparr>bl_bits = bl_bits (bw_map w) \<inter> kept, bl_seeded = d\<rparr>) sc = scan_ok cf us (bw_map w) sc" for us d sc
    by (cases "(cf, us, bw_map w, sc)" rule: scan_ok.cases) (simp_all add: same)
  then have "scan_ok cf us (\<lparr>bl_bits = bl_bits (bw_map w) \<inter> kept, bl_seeded = d\<rparr>) = scan_ok cf us (bw_map w)" for us d
    by (intro ext)
  with inv show ?thesis by (auto simp: bloom_inv_def same seeded_def split: option.splits)
next
  case False
  with assms(2) have "no_scan w" "bw_pending w = []" "\<not> m \<or> \<not> seeded (bw_now w) (bw_map w)" by (simp_all add: recorded_def)
  then show ?thesis by (auto simp: bloom_inv_def no_scan_def list_all_iff seeded_def)
qed

lemma inv_commit:
  assumes inv: "bloom_inv cf w" and rec: "recorded (Commit_account u) w"
  shows "bloom_inv cf (bloom_step cf (Commit_account u) w)"
proof (cases "u \<in> fst ` set (bw_pending w)")
  case True
  have pend: "list_all (\<lambda>(v, ok). ok \<longrightarrow> holds_all cf [v] (bw_map w)) (filter (\<lambda>(v, _). v \<noteq> u) (bw_pending w))"
    using inv by (auto simp: bloom_inv_def list_all_iff)
  show ?thesis
  proof (cases "list_all (\<lambda>(v, ok). v = u \<longrightarrow> ok) (bw_pending w)")
    case ok: True
    from True obtain k where k: "(u, k) \<in> set (bw_pending w)" by auto
    with ok have k by (auto simp: list_all_iff)
    moreover have "list_all (\<lambda>(v, ok). ok \<longrightarrow> holds_all cf [v] (bw_map w)) (bw_pending w)" using inv by (simp add: bloom_inv_def)
    ultimately have u: "holds_all cf [u] (bw_map w)" using k unfolding list_all_iff by blast
    then have "holds_all cf (bw_users w @ [u]) (bw_map w)" if "holds_all cf (bw_users w) (bw_map w)"
      using that by (simp add: holds_all_iff)
    moreover have "list_all (scan_ok cf (bw_users w @ [u]) (bw_map w)) (bw_scans w)"
      by (rule scans_change[of cf "bw_users w" "bw_map w"]) (use inv u  in \<open>auto simp: bloom_inv_def\<close>)
    ultimately show ?thesis using True inv pend by (simp add: bloom_inv_def)
  next
    case False
    with rec have "\<not> seeded (bw_now w) (bw_map w)" "no_scan w" by (simp_all add: recorded_def)
    then show ?thesis using True pend by (auto simp: bloom_inv_def no_scan_def list_all_iff)
  qed
qed (use inv in simp)

lemma bits_added:
  assumes inv: "bloom_inv cf w" and g: "bl_bits (bw_map w) \<subseteq> bl_bits b" "seeded (bw_now w) b = seeded (bw_now w) (bw_map w)"
  shows "bloom_inv cf (w\<lparr>bw_map := b\<rparr>)"
proof -
  have "list_all (scan_ok cf (bw_users w) b) (bw_scans w)"
    by (rule scans_change[of cf "bw_users w" "bw_map w"]) (use inv g(1) in \<open>auto simp: bloom_inv_def\<close>)
  then show ?thesis
    using inv g pending_grow[of cf "bw_map w" "bw_pending w" b] holds_all_mono[of cf "bw_users w" "bw_map w" b]
    by (auto simp: bloom_inv_def)
qed

lemma inv_step:
  assumes inv: "bloom_inv cf w" and "recorded e w"
  shows "bloom_inv cf (bloom_step cf e w)"
proof (cases e)
  case (Sign_up u r)
  obtain ok b where add: "bloom_add cf r (uuid_str u) (bw_map w) = (ok, b)" by (cases "bloom_add cf r (uuid_str u) (bw_map w)")
  then have g: "bl_bits (bw_map w) \<subseteq> bl_bits b" "seeded (bw_now w) b = seeded (bw_now w) (bw_map w)"
    using bloom_add_grows[of "bw_map w" cf r "uuid_str u"] seeded_eq[of b "bw_map w" "bw_now w"] by simp_all
  have "ok \<longrightarrow> holds_all cf [u] b"
    using add by (auto simp: bloom_add_def set_bits_def holds_all_iff split: redis_call.splits)
  with bits_added[OF inv g] Sign_up add show ?thesis by (simp add: bloom_inv_def)
next
  case (Script_account u)
  with assms show ?thesis by (auto simp: bloom_inv_def recorded_def no_scan_def list_all_iff)
next
  case (Script_add u r)
  obtain ok b where add: "bloom_add cf r (uuid_str u) (bw_map w) = (ok, b)" by (cases "bloom_add cf r (uuid_str u) (bw_map w)")
  then have g: "bl_bits (bw_map w) \<subseteq> bl_bits b" "seeded (bw_now w) b = seeded (bw_now w) (bw_map w)"
    using bloom_add_grows[of "bw_map w" cf r "uuid_str u"] seeded_eq[of b "bw_map w" "bw_now w"] by simp_all
  with inv Script_add add show ?thesis using bits_added by simp
next
  case (Commit_account u)
  with assms inv_commit show ?thesis by blast
next
  case (Delete_account u)
  have "list_all (scan_ok cf (filter (\<lambda>v. v \<noteq> u) (bw_users w)) (bw_map w)) (bw_scans w)"
    by (rule scans_change[of cf "bw_users w" "bw_map w"]) (use inv  in \<open>auto simp: bloom_inv_def\<close>)
  with inv Delete_account show ?thesis by (auto simp: bloom_inv_def holds_all_iff)
next
  case (Scan_turn i r)
  show ?thesis
  proof (cases "i < length (bw_scans w)")
    case True
    obtain sc b where p: "scan_page cf r (bw_scans w ! i) w = (sc, b)" by (cases "scan_page cf r (bw_scans w ! i) w")
    have "scan_ok cf (bw_users w) (bw_map w) (bw_scans w ! i)" using inv True by (simp add: bloom_inv_def list_all_length)
    note ok = scan_page_ok[OF inv this p]
    have "list_all (scan_ok cf (bw_users w) b) (bw_scans w)"
      by (rule scans_change[of cf "bw_users w" "bw_map w"]) (use inv ok(1)  in \<open>auto simp: bloom_inv_def\<close>)
    with ok(3) have "list_all (scan_ok cf (bw_users w) b) ((bw_scans w)[i := sc])"
      by (auto simp: list_all_iff dest!: set_update_subset_insert[THEN subsetD])
    moreover have "list_all (\<lambda>(u, k). k \<longrightarrow> holds_all cf [u] b) (bw_pending w)"
      using inv ok(1) pending_grow by (auto simp: bloom_inv_def)
    ultimately show ?thesis using True Scan_turn p ok(2) by (simp add: bloom_inv_def)
  qed (use inv Scan_turn in simp)
next
  case (Unmark r)
  have "list_all (scan_ok cf (bw_users w) (snd (unmark_seeded r (bw_map w)))) (bw_scans w)"
    by (rule scans_change[of cf "bw_users w" "bw_map w"]) (use inv  in \<open>auto simp: bloom_inv_def unmark_seeded_def\<close>)
  with inv Unmark show ?thesis
    by (auto simp: bloom_inv_def unmark_seeded_def seeded_def holds_all_iff)
next
  case (Bloom_tick n)
  have "seeded (bw_now w + int n) b \<Longrightarrow> seeded (bw_now w) b" for b by (auto simp: seeded_def split: option.splits)
  with inv Bloom_tick show ?thesis by (auto simp: bloom_inv_def)
next
  case (Redis_loses kept m)
  with assms inv_lose show ?thesis by blast
next
  case (Stop_scan i)
  with inv show ?thesis by (auto simp: bloom_inv_def list_all_iff dest!: set_update_subset_insert[THEN subsetD])
qed (use inv in \<open>auto simp: bloom_inv_def list_all_iff\<close>)

lemma inv_run: "bloom_inv cf w \<Longrightarrow> all_recorded cf es w \<Longrightarrow> bloom_inv cf (bloom_run cf es w)"
  by (induction cf es w rule: bloom_run.induct) (simp_all add: inv_step)

definition bloom_start :: "uuid list \<Rightarrow> bloom_world" where
  "bloom_start us =
     \<lparr>bw_now = 0, bw_map = \<lparr>bl_bits = {}, bl_seeded = None\<rparr>, bw_users = us, bw_pending = [], bw_scans = []\<rparr>"

text \<open>C29: No account is taken for absent.  Take any sequence of sign-ups, commits, deletions, scans (several at a time, with Redis
  failing at any call), expiries and losses of data in Redis in which, whenever the mark stands or a scan is on its way, an account
  is committed only if \<open>add\<close> had worked for it and no script creates one, and in which Redis loses bits only together with the mark, while no scan is
  on its way and no sign-up waits for its commit.  Then no existing account is ever reported absent; and without a valid mark
  nobody is.\<close>
theorem members_never_rejected:
  assumes "all_recorded cf es (bloom_start us)"
  shows "let w = bloom_run cf es (bloom_start us)
     in (\<forall>u\<in>set (bw_users w). uuid_str u \<notin> definitely_absent_many cf r (bw_now w) keys (bw_map w))
        \<and> (\<not> seeded (bw_now w) (bw_map w) \<longrightarrow> definitely_absent_many cf r (bw_now w) keys (bw_map w) = {})"
proof -
  define w where "w = bloom_run cf es (bloom_start us)"
  have "bloom_inv cf w" unfolding w_def
    by (rule inv_run[OF _ assms]) (simp add: bloom_inv_def bloom_start_def seeded_def)
  then show ?thesis unfolding w_def[symmetric] Let_def
    by (auto simp: definitely_absent_many_def bloom_inv_def holds_all_def list_all_iff list_ex_iff)
qed

definition bloom0 :: bloom_cfg where
  "bloom0 = \<lparr>bl_hash = (\<lambda>key. (length (filter (\<lambda>c. c = CHR ''1'') key), 2)), bl_m = 97, bl_k = 2, bl_seed_ttl = 604800\<rparr>"

lemmas bloom_eval = bloom_start_def seeded_def bloom_add_def scan_page_def scan_rows_def PAGE_def add_many_def ADD_CHUNK_def
  set_bits_def finish_scan_def mark_seeded_def Let_def

text \<open>The scan as often as it takes for less than a page of accounts: read, write, mark.\<close>

definition full_scan :: "nat \<Rightarrow> bloom_event list" where
  "full_scan i = Start_scan # replicate 3 (Scan_turn i Works)"

definition loss_history :: "bloom_event list" where
  "loss_history = [Sign_up 1 (Breaks 1), Commit_account 1] @ full_scan 0 @ [Sign_up 17 Works, Commit_account 17, Redis_loses {} False]
     @ full_scan 1"

theorem members_never_rejected_witness:
  "let w = bloom_run bloom0 loss_history (bloom_start [])
   in bw_users w = [1, 17] \<and> seeded (bw_now w) (bw_map w)
      \<and> uuid_str 17 \<notin> definitely_absent_many bloom0 Works (bw_now w) [uuid_str 1, uuid_str 17] (bw_map w)"
proof -
  have ok: "all_recorded bloom0 loss_history (bloom_start [])" "bw_users (bloom_run bloom0 loss_history (bloom_start [])) = [1, 17]"
    "seeded (bw_now (bloom_run bloom0 loss_history (bloom_start []))) (bw_map (bloom_run bloom0 loss_history (bloom_start [])))"
    by (simp_all add: recorded_def no_scan_def bloom_eval bloom0_def loss_history_def full_scan_def numeral_nat)
  with members_never_rejected[OF ok(1), of Works "[uuid_str 1, uuid_str 17]"] show ?thesis by (simp add: Let_def)
qed

lemma bloom0_positions: "positions bloom0 (uuid_str 0) = [0, 3]" "positions bloom0 (uuid_str 17) = [2, 5]"
  by code_simp+

text \<open>An account whose \<open>add\<close> failed does not exist.  When Redis fails at the end of one sign-up while the mark stands, the
  account is there but reported absent, until a later full scan.\<close>
theorem failed_add_hides_account:
  "let w = bloom_run bloom0 (full_scan 0 @ [Sign_up 17 (Breaks 0), Commit_account 17]) (bloom_start [0])
     in 17 \<in> set (bw_users w) \<and> definitely_absent bloom0 Works (bw_now w) (uuid_str 17) (bw_map w)"
  by (simp add: bloom_eval full_scan_def numeral_nat bloom0_positions definitely_absent_def definitely_absent_many_def)

text \<open>Nor does one whose bits were lost at the wrong time.  A restart of Redis after a scan has written its page and before it sets
  the mark leaves a mark over an empty map; so does the eviction of the map while the mark stands.\<close>
theorem loss_hides_accounts:
  "list_all (\<lambda>es. let w = bloom_run bloom0 es (bloom_start [17])
       in bw_users w = [17] \<and> definitely_absent bloom0 Works (bw_now w) (uuid_str 17) (bw_map w))
     [[Start_scan, Scan_turn 0 Works, Scan_turn 0 Works, Redis_loses {} False, Scan_turn 0 Works],
      full_scan 0 @ [Redis_loses {} True]]"
  by (simp add: bloom_eval full_scan_def numeral_nat bloom0_positions definitely_absent_def definitely_absent_many_def)

end
