(* ===== verification/Snap_Cache.thy ===== *)
theory Snap_Cache
  imports Local_Cache
begin

text \<open>
  The cache of user snapshots (\<open>core/user_cache.py\<close>, the loader of \<open>auth/snapshot.py\<close>, the broadcasts of
  \<open>core/user_cache_events.py\<close>): Redis with a snapshot and an epoch, changed by optimistic transactions, and a cache in every
  process, emptied by messages that may be lost.  A system is a set of coroutines on any number of processes; each waits
  between two commands, and \<open>sys_step\<close> lets one of them go on, or lets the database, the messages or time move.  Readers of
  one process that miss share one run of the loader (\<open>core/singleflight.py\<close>), unless the setting says otherwise.
\<close>

section \<open>The state\<close>

text \<open>
  Everything is about the snapshot of one user.  A row is what the database holds of the user, the fields shown and the
  version that \<open>updated_at\<close> gives; \<open>None\<close> is no such user.  What Redis holds under the key is an envelope, or something that
  is no JSON or no JSON object.
\<close>

type_synonym 'd row = "('d \<times> int option) option"

datatype 'd raw = Not_json | Not_object | Envelope "int option" "'d option" bool

record snap_cfg =
  snap_key :: string
  l1_on :: bool
  singleflight_on :: bool

record 'd fill =
  fl_epoch :: int
  fl_sv :: int
  fl_data :: "'d option"
  fl_neg :: bool

text \<open>
  \<open>rows\<close> are the committed versions of the user, the current one last.  Redis holds the snapshot and the epoch;
  \<open>writes\<close> counts the changes of either key, which is what \<open>WATCH\<close> notices.  Every process has its cache and the invalidations
  that were published to it.  \<open>floor\<close> and \<open>l1_floor\<close> are not in the program: they say how many rows were superseded when
  Redis, and when the process, was last invalidated.
\<close>

record 'd world =
  rows :: "'d row list"
  snap :: "'d raw option"
  epoch :: "int option"
  writes :: nat
  clock :: int
  l1 :: "nat \<Rightarrow> (int option \<times> 'd) l1_cache"
  inbox :: "nat \<Rightarrow> nat list"
  floor_ix :: nat
  l1_floor :: "nat \<Rightarrow> nat"

text \<open>
  Where a coroutine stands: each constructor is a point at which it waits for Redis, for the database, or for its turn
  after a reply.  A read looks into the caches at most twice, once outside and once inside the loader.  \<open>Join\<close> is the turn to
  join or start a flight, \<open>Await k\<close> the wait for the loader that is task \<open>k\<close>, \<open>Leave k r\<close> the block that leaves the flight
  with a result or without one, \<open>Served k d\<close> the end of a reader that answered what task \<open>k\<close> loaded.  \<open>Failed\<close> is the end
  with an exception, or of a reader that was cancelled.
\<close>

datatype 'd pc =
    Look nat
  | Fetch nat nat
  | Fetched nat nat "'d raw option"
  | Epoch_get
  | Epoch_init
  | Epoch_reread
  | Load_row int
  | Watch "'d fill" nat
  | Get_epoch "'d fill" nat nat
  | Get_snap "'d fill" nat nat int
  | Check_snap "'d fill" nat nat int "'d raw option"
  | Execute "'d fill" nat nat nat
  | Executed "'d fill" nat
  | Answered "'d option"
  | Inval_exec
  | Inval_l1 nat
  | Inval_publish nat
  | Finished
  | Join
  | Await nat
  | Leave nat "'d option option"
  | Served nat "'d option"
  | Failed

text \<open>
  What is not decided by the state: whether a command to Redis or the database works, whether its reply arrives, what the
  filter of absent identifiers says, and the lifetime drawn for an entry of the process cache.
\<close>

record choice =
  ch_ok :: bool
  ch_reply :: bool
  ch_absent :: bool
  ch_ttl :: int

definition MAX_CAS_RETRY :: nat where "MAX_CAS_RETRY = 8"

definition epoch_value :: "'d world \<Rightarrow> int" where
  "epoch_value w = (case epoch w of None \<Rightarrow> 0 | Some e \<Rightarrow> e)"

definition set_l1 :: "nat \<Rightarrow> (int option \<times> 'd) l1_cache \<Rightarrow> 'd world \<Rightarrow> 'd world" where
  "set_l1 p c w = w\<lparr>l1 := (l1 w)(p := c)\<rparr>"

section \<open>Reading\<close>

text \<open>A miss outside leads to a flight, or into the loader of the reader's own; a miss in the loader leads on to the epoch.\<close>

definition missed :: "snap_cfg \<Rightarrow> nat \<Rightarrow> 'd pc" where
  "missed cf n = (case n of 0 \<Rightarrow> Epoch_get | Suc k \<Rightarrow> if singleflight_on cf then Join else Look k)"

text \<open>\<open>read_snap_state\<close>, up to the command and after its reply.\<close>

definition look :: "snap_cfg \<Rightarrow> nat \<Rightarrow> choice \<Rightarrow> nat \<Rightarrow> 'd world \<Rightarrow> 'd pc \<times> 'd world" where
  "look cf p ch n w =
     (if \<not> ch_ok ch then (missed cf n, w)
      else if \<not> l1_on cf then (Fetch n (l1_revision (l1 w p)), w)
      else case l1_get (snap_key cf) (clock w) (l1 w p) of
             (Some (sv, d), c) \<Rightarrow> (Answered (Some d), set_l1 p c w)
           | (None, c) \<Rightarrow> (Fetch n (l1_revision c), set_l1 p c w))"

definition fetched :: "snap_cfg \<Rightarrow> nat \<Rightarrow> choice \<Rightarrow> nat \<Rightarrow> nat \<Rightarrow> 'd raw option \<Rightarrow> 'd world \<Rightarrow> 'd pc \<times> 'd world" where
  "fetched cf p ch n revision raw w =
     (case raw of
        None \<Rightarrow> (if ch_absent ch then Answered None else missed cf n, w)
      | Some Not_json \<Rightarrow> (missed cf n, w)
      | Some Not_object \<Rightarrow> (missed cf n, w)
      | Some (Envelope sv data neg) \<Rightarrow>
          if neg then (Answered None, w)
          else (case data of
                  None \<Rightarrow> (missed cf n, w)
                | Some d \<Rightarrow>
                    (Answered (Some d),
                     if l1_on cf
                     then set_l1 p (snd (l1_set_if_unchanged (snap_key cf) (Some (sv, d)) (ch_ttl ch) revision
                                          (clock w) (clock w) (l1 w p))) w
                     else w)))"

text \<open>\<open>current_epoch\<close>: three commands, zero when one fails.  The first value is the time, set if there is none.\<close>

definition epoch_get :: "choice \<Rightarrow> 'd world \<Rightarrow> 'd pc \<times> 'd world" where
  "epoch_get ch w =
     (if \<not> ch_ok ch then Load_row 0 else case epoch w of None \<Rightarrow> Epoch_init | Some e \<Rightarrow> Load_row e, w)"

definition epoch_init :: "choice \<Rightarrow> 'd world \<Rightarrow> 'd pc \<times> 'd world" where
  "epoch_init ch w =
     (if ch_ok ch \<and> ch_reply ch then Epoch_reread else Load_row 0,
      if ch_ok ch \<and> epoch w = None then w\<lparr>epoch := Some (clock w), writes := Suc (writes w)\<rparr> else w)"

definition epoch_reread :: "choice \<Rightarrow> 'd world \<Rightarrow> 'd pc \<times> 'd world" where
  "epoch_reread ch w = (Load_row (if ch_ok ch then epoch_value w else 0), w)"

text \<open>\<open>_load_user_snapshot\<close> after the epoch: the row, and what of it is to be written.\<close>

definition load_row :: "choice \<Rightarrow> int \<Rightarrow> 'd world \<Rightarrow> 'd pc \<times> 'd world" where
  "load_row ch e w =
     (if \<not> ch_ok ch then Failed
      else case last (rows w) of
        None \<Rightarrow> Watch \<lparr>fl_epoch = e, fl_sv = 0, fl_data = None, fl_neg = True\<rparr> MAX_CAS_RETRY
      | Some (d, None) \<Rightarrow> Answered (Some d)
      | Some (d, Some v) \<Rightarrow> Watch \<lparr>fl_epoch = e, fl_sv = v, fl_data = Some d, fl_neg = False\<rparr> MAX_CAS_RETRY, w)"

section \<open>Writing\<close>

definition raw_of :: "'d fill \<Rightarrow> 'd raw" where
  "raw_of f = Envelope (Some (fl_sv f)) (fl_data f) (fl_neg f)"

text \<open>\<open>write_if_newer\<close>: \<open>WATCH\<close>, the two reads, the two conditions, the transaction, and then the process cache.\<close>

definition watch :: "choice \<Rightarrow> 'd fill \<Rightarrow> nat \<Rightarrow> 'd world \<Rightarrow> 'd pc \<times> 'd world" where
  "watch ch f n w =
     (case n of
        0 \<Rightarrow> Answered (fl_data f)
      | Suc k \<Rightarrow> if ch_ok ch then Get_epoch f k (writes w) else Answered (fl_data f), w)"

definition get_epoch :: "choice \<Rightarrow> 'd fill \<Rightarrow> nat \<Rightarrow> nat \<Rightarrow> 'd world \<Rightarrow> 'd pc \<times> 'd world" where
  "get_epoch ch f n m w = (if ch_ok ch then Get_snap f n m (epoch_value w) else Answered (fl_data f), w)"

definition get_snap :: "choice \<Rightarrow> 'd fill \<Rightarrow> nat \<Rightarrow> nat \<Rightarrow> int \<Rightarrow> 'd world \<Rightarrow> 'd pc \<times> 'd world" where
  "get_snap ch f n m cur w = (if ch_ok ch then Check_snap f n m cur (snap w) else Answered (fl_data f), w)"

definition newer :: "'d raw option \<Rightarrow> int \<Rightarrow> bool" where
  "newer raw sv \<longleftrightarrow> (case raw of Some (Envelope (Some cur_sv) _ _) \<Rightarrow> sv < cur_sv | _ \<Rightarrow> False)"

definition check_snap :: "nat \<Rightarrow> 'd fill \<Rightarrow> nat \<Rightarrow> nat \<Rightarrow> int \<Rightarrow> 'd raw option \<Rightarrow> 'd world \<Rightarrow> 'd pc \<times> 'd world" where
  "check_snap p f n m cur raw w =
     (if newer raw (fl_sv f) then Answered (fl_data f)
      else if cur \<noteq> fl_epoch f then Answered (fl_data f)
      else Execute f n m (l1_revision (l1 w p)), w)"

definition execute :: "choice \<Rightarrow> 'd fill \<Rightarrow> nat \<Rightarrow> nat \<Rightarrow> nat \<Rightarrow> 'd world \<Rightarrow> 'd pc \<times> 'd world" where
  "execute ch f n m revision w =
     (if \<not> ch_ok ch then (Answered (fl_data f), w)
      else if m \<noteq> writes w then (Watch f n, w)
      else (if ch_reply ch then Executed f revision else Answered (fl_data f),
            w\<lparr>snap := Some (raw_of f), writes := Suc (writes w)\<rparr>))"

definition executed :: "snap_cfg \<Rightarrow> nat \<Rightarrow> choice \<Rightarrow> 'd fill \<Rightarrow> nat \<Rightarrow> 'd world \<Rightarrow> 'd pc \<times> 'd world" where
  "executed cf p ch f revision w =
     (Answered (fl_data f),
      case fl_data f of
        None \<Rightarrow> w
      | Some d \<Rightarrow>
          if l1_on cf \<and> \<not> fl_neg f \<and> revision = l1_revision (l1 w p) then
            (let (existing, c) = l1_get (snap_key cf) (clock w) (l1 w p)
             in set_l1 p
                  (if (case existing of Some (Some sv, _) \<Rightarrow> fl_sv f < sv | Some (None, _) \<Rightarrow> fl_sv f < 0 | None \<Rightarrow> False) then c
                   else l1_set (snap_key cf) (Some (Some (fl_sv f), d)) (ch_ttl ch) (clock w) c) w)
          else w)"

section \<open>Invalidating\<close>

definition drop_l1 :: "snap_cfg \<Rightarrow> nat \<Rightarrow> nat \<Rightarrow> 'd world \<Rightarrow> 'd world" where
  "drop_l1 cf p g w =
     (set_l1 p (l1_delete (snap_key cf) (l1 w p)) w)\<lparr>l1_floor := (l1_floor w)(p := max g (l1_floor w p))\<rparr>"

text \<open>\<open>invalidate_user_snap\<close>: Redis at once, then the own process, then the others.\<close>

definition inval_exec :: "choice \<Rightarrow> 'd world \<Rightarrow> 'd pc \<times> 'd world" where
  "inval_exec ch w =
     (if \<not> ch_ok ch then (Finished, w)
      else (if ch_reply ch then Inval_l1 (length (rows w) - 1) else Finished,
            w\<lparr>epoch := Some (epoch_value w + 1), snap := None, writes := Suc (writes w), floor_ix := length (rows w) - 1\<rparr>))"

definition inval_l1 :: "snap_cfg \<Rightarrow> nat \<Rightarrow> nat \<Rightarrow> 'd world \<Rightarrow> 'd pc \<times> 'd world" where
  "inval_l1 cf p g w = (Inval_publish g, if l1_on cf then drop_l1 cf p g w else w)"

definition inval_publish :: "choice \<Rightarrow> nat \<Rightarrow> 'd world \<Rightarrow> 'd pc \<times> 'd world" where
  "inval_publish ch g w = (Finished, if ch_ok ch then w\<lparr>inbox := (\<lambda>q. inbox w q @ [g])\<rparr> else w)"

section \<open>The system\<close>

fun advance :: "snap_cfg \<Rightarrow> nat \<Rightarrow> choice \<Rightarrow> 'd pc \<Rightarrow> 'd world \<Rightarrow> 'd pc \<times> 'd world" where
  "advance cf p ch (Look n) w = look cf p ch n w"
| "advance cf p ch (Fetch n r) w = (if ch_ok ch then Fetched n r (snap w) else missed cf n, w)"
| "advance cf p ch (Fetched n r raw) w = fetched cf p ch n r raw w"
| "advance cf p ch Epoch_get w = epoch_get ch w"
| "advance cf p ch Epoch_init w = epoch_init ch w"
| "advance cf p ch Epoch_reread w = epoch_reread ch w"
| "advance cf p ch (Load_row e) w = load_row ch e w"
| "advance cf p ch (Watch f n) w = watch ch f n w"
| "advance cf p ch (Get_epoch f n m) w = get_epoch ch f n m w"
| "advance cf p ch (Get_snap f n m cur) w = get_snap ch f n m cur w"
| "advance cf p ch (Check_snap f n m cur raw) w = check_snap p f n m cur raw w"
| "advance cf p ch (Execute f n m r) w = execute ch f n m r w"
| "advance cf p ch (Executed f r) w = executed cf p ch f r w"
| "advance cf p ch Inval_exec w = inval_exec ch w"
| "advance cf p ch (Inval_l1 g) w = inval_l1 cf p g w"
| "advance cf p ch (Inval_publish g) w = inval_publish ch g w"
| "advance cf p ch (Answered d) w = (Answered d, w)"
| "advance cf p ch c w = (c, w)"

text \<open>
  A task: its process, what the process knew to be superseded when it began, and where it stands.  A flight is named by the
  task that runs its loader: every process has at most one in its table under the key of the user, and every flight
  has the count of those who wait for it.
\<close>

type_synonym 'd task = "nat \<times> nat \<times> 'd pc"

record 'd system =
  world_of :: "'d world"
  tasks :: "'d task list"
  flights :: "nat \<Rightarrow> nat option"
  refs :: "nat \<Rightarrow> int"

text \<open>\<open>singleflight.run\<close>: join the flight of the process or start one, wait for it, leave it.  The guard makes the turns whole.\<close>

fun task_done :: "'d pc \<Rightarrow> bool" where
  "task_done (Answered d) = True"
| "task_done Failed = True"
| "task_done _ = False"

definition move_to :: "nat \<Rightarrow> 'd pc \<Rightarrow> 'd task list \<Rightarrow> 'd task list" where
  "move_to i c ts = (case ts ! i of (p, g, _) \<Rightarrow> ts[i := (p, g, c)])"

definition join_flight :: "nat \<Rightarrow> nat \<Rightarrow> 'd system \<Rightarrow> 'd system" where
  "join_flight i p s =
     (case flights s p of
        None \<Rightarrow>
          (let k = length (tasks s)
           in s\<lparr>tasks := move_to i (Await k) (tasks s) @ [(p, l1_floor (world_of s) p, Look 0)],
                flights := (flights s)(p := Some k), refs := (refs s)(k := 1)\<rparr>)
      | Some k \<Rightarrow> s\<lparr>tasks := move_to i (Await k) (tasks s), refs := (refs s)(k := refs s k + 1)\<rparr>)"

definition await_flight :: "nat \<Rightarrow> nat \<Rightarrow> 'd system \<Rightarrow> 'd system" where
  "await_flight i k s =
     (case snd (snd (tasks s ! k)) of
        Answered d \<Rightarrow> s\<lparr>tasks := move_to i (Leave k (Some d)) (tasks s)\<rparr>
      | Failed \<Rightarrow> s\<lparr>tasks := move_to i (Leave k None) (tasks s)\<rparr>
      | _ \<Rightarrow> s)"

definition leave_flight :: "nat \<Rightarrow> nat \<Rightarrow> nat \<Rightarrow> 'd option option \<Rightarrow> 'd system \<Rightarrow> 'd system" where
  "leave_flight i p k r s =
     s\<lparr>tasks := move_to i (case r of Some d \<Rightarrow> Served k d | None \<Rightarrow> Failed) (tasks s),
       flights := (if refs s k - 1 \<le> 0 \<and> task_done (snd (snd (tasks s ! k))) \<and> flights s p = Some k
                   then (flights s)(p := None) else flights s),
       refs := (refs s)(k := refs s k - 1)\<rparr>"

text \<open>\<open>_on_task_done\<close>, after the loader that is task \<open>k\<close> has ended.\<close>

definition flight_done :: "nat \<Rightarrow> nat \<Rightarrow> 'd system \<Rightarrow> 'd system" where
  "flight_done k p s = (if refs s k \<le> 0 \<and> flights s p = Some k then s\<lparr>flights := (flights s)(p := None)\<rparr> else s)"

fun flight_step :: "nat \<Rightarrow> nat \<Rightarrow> 'd pc \<Rightarrow> 'd system \<Rightarrow> 'd system option" where
  "flight_step i p Join s = Some (join_flight i p s)"
| "flight_step i p (Await k) s = Some (await_flight i k s)"
| "flight_step i p (Leave k r) s = Some (leave_flight i p k r s)"
| "flight_step i p (Answered d) s = Some (flight_done i p s)"
| "flight_step i p Failed s = Some (flight_done i p s)"
| "flight_step i p _ s = None"

text \<open>
  A reader that is cancelled while it waits leaves its flight; the loader goes on without it.  Cancelled elsewhere, it is
  a task whose turn never comes again.
\<close>

definition cancel :: "nat \<Rightarrow> 'd system \<Rightarrow> 'd system" where
  "cancel i s =
     (if i < length (tasks s) then
        case snd (snd (tasks s ! i)) of
          Await k \<Rightarrow> s\<lparr>tasks := move_to i (Leave k None) (tasks s)\<rparr>
        | _ \<Rightarrow> s
      else s)"

datatype 'd event =
    Begin_read nat
  | Begin_invalidation nat
  | Run nat choice
  | Cancel nat
  | Commit "'d row"
  | Expire
  | Deliver nat
  | Lose nat
  | L1_other nat "(int option \<times> 'd) l1_op"
  | Tick nat
  | Restart

definition deliver :: "snap_cfg \<Rightarrow> nat \<Rightarrow> 'd world \<Rightarrow> 'd world" where
  "deliver cf p w =
     (case inbox w p of
        [] \<Rightarrow> w
      | g # gs \<Rightarrow> drop_l1 cf p g (w\<lparr>inbox := (inbox w)(p := gs)\<rparr>))"

fun sys_step :: "snap_cfg \<Rightarrow> 'd event \<Rightarrow> 'd system \<Rightarrow> 'd system" where
  "sys_step cf (Begin_read p) s = s\<lparr>tasks := tasks s @ [(p, l1_floor (world_of s) p, Look 1)]\<rparr>"
| "sys_step cf (Begin_invalidation p) s = s\<lparr>tasks := tasks s @ [(p, l1_floor (world_of s) p, Inval_exec)]\<rparr>"
| "sys_step cf (Run i ch) s =
     (if i < length (tasks s) then
        (case tasks s ! i of (p, g, pc) \<Rightarrow>
           case flight_step i p pc s of
             Some s' \<Rightarrow> s'
           | None \<Rightarrow> (case advance cf p ch pc (world_of s) of (pc', w) \<Rightarrow> s\<lparr>world_of := w, tasks := (tasks s)[i := (p, g, pc')]\<rparr>))
      else s)"
| "sys_step cf (Cancel i) s = cancel i s"
| "sys_step cf (Commit r) s = s\<lparr>world_of := (world_of s)\<lparr>rows := rows (world_of s) @ [r]\<rparr>\<rparr>"
| "sys_step cf Expire s = s\<lparr>world_of := (world_of s)\<lparr>snap := None\<rparr>\<rparr>"
| "sys_step cf (Deliver p) s = s\<lparr>world_of := deliver cf p (world_of s)\<rparr>"
| "sys_step cf (Lose p) s =
     s\<lparr>world_of := (world_of s)\<lparr>inbox := (inbox (world_of s))(p := tl (inbox (world_of s) p))\<rparr>\<rparr>"
| "sys_step cf (L1_other p op) s =
     (if snap_key cf \<in> op_keys op then s
      else s\<lparr>world_of := set_l1 p (snd (l1_step op (clock (world_of s)) (l1 (world_of s) p))) (world_of s)\<rparr>)"
| "sys_step cf (Tick n) s = s\<lparr>world_of := (world_of s)\<lparr>clock := clock (world_of s) + int n\<rparr>\<rparr>"
| "sys_step cf Restart s =
     s\<lparr>world_of := (world_of s)\<lparr>snap := None, epoch := None, writes := Suc (writes (world_of s))\<rparr>\<rparr>"

fun sys_run :: "snap_cfg \<Rightarrow> 'd event list \<Rightarrow> 'd system \<Rightarrow> 'd system" where
  "sys_run cf [] s = s"
| "sys_run cf (e # es) s = sys_run cf es (sys_step cf e s)"

section \<open>What a backfilled cache promises\<close>

text \<open>
  All that the protocol needs of the process cache: what it may still show under a key only shrinks, except for what is put
  there; removing the key leaves nothing and raises the count of invalidations; a backfill with an old count puts nothing.
\<close>

locale backfilled_cache =
  fixes entries :: "'c \<Rightarrow> 'v set"
    and revision :: "'c \<Rightarrow> nat"
    and get :: "int \<Rightarrow> 'c \<Rightarrow> 'v option \<times> 'c"
    and put :: "'v \<Rightarrow> int \<Rightarrow> int \<Rightarrow> 'c \<Rightarrow> 'c"
    and fill :: "'v \<Rightarrow> int \<Rightarrow> nat \<Rightarrow> int \<Rightarrow> int \<Rightarrow> 'c \<Rightarrow> bool \<times> 'c"
    and del :: "'c \<Rightarrow> 'c"
  assumes get: "get t c = (x, c') \<Longrightarrow> entries c' \<subseteq> entries c \<and> revision c' = revision c \<and> (\<forall>v. x = Some v \<longrightarrow> v \<in> entries c)"
    and put: "entries (put v ttl t c) \<subseteq> insert v (entries c) \<and> revision c \<le> revision (put v ttl t c)"
    and fill: "revision (snd (fill v ttl r t t' c)) = revision c
      \<and> entries (snd (fill v ttl r t t' c)) \<subseteq> (if r = revision c then insert v (entries c) else entries c)"
    and del: "entries (del c) = {} \<and> revision (del c) = Suc (revision c)"
begin

definition shows_only :: "('v \<Rightarrow> bool) \<Rightarrow> 'c \<Rightarrow> bool" where
  "shows_only P c \<longleftrightarrow> (\<forall>v\<in>entries c. P v)"

lemma get_shows:
  assumes "shows_only P c" and "get t c = (r, c')"
  shows "shows_only P c'" and "r = Some v \<Longrightarrow> P v" and "revision c' = revision c"
  using get[OF assms(2)] assms(1) by (auto simp: shows_only_def)

lemma put_shows: "shows_only P c \<Longrightarrow> P v \<Longrightarrow> shows_only P (put v ttl t c)" "revision c \<le> revision (put v ttl t c)"
  using put[of v ttl t c] by (auto simp: shows_only_def)

lemma fill_shows:
  assumes "shows_only P c" and "r = revision c \<Longrightarrow> P v"
  shows "shows_only P (snd (fill v ttl r t t' c))"
  using fill[of v ttl r t t' c] assms by (auto simp: shows_only_def split: if_splits)

lemma del_shows: "shows_only P (del c)" "revision (del c) = Suc (revision c)"
  using del by (simp_all add: shows_only_def)

lemma shows_mono: "shows_only P c \<Longrightarrow> (\<And>v. P v \<Longrightarrow> Q v) \<Longrightarrow> shows_only Q c"
  by (simp add: shows_only_def)

end

definition l1_entries :: "string \<Rightarrow> 'v l1_cache \<Rightarrow> 'v set" where
  "l1_entries k c = {v. \<exists>d. (k, d, v) \<in> set (l1_data c)}"

lemma evict_subset: "set (evict m xs) \<subseteq> set xs"
  by (induction m xs rule: evict.induct) auto

lemma l1_entries_get:
  assumes "l1_get k t c = (r, c')"
  shows "l1_entries j c' \<subseteq> l1_entries j c \<and> l1_revision c' = l1_revision c \<and> (\<forall>v. r = Some v \<longrightarrow> v \<in> l1_entries k c)"
  using assms by (auto simp: l1_get_def get_at_def l1_pop_def l1_put_last_def l1_entries_def split: option.splits if_splits
      dest!: map_of_SomeD) blast+

lemma l1_entries_pop: "l1_entries j (l1_pop k c) \<subseteq> l1_entries j c" "l1_entries k (l1_pop k c) = {}"
  by (auto simp: l1_pop_def l1_entries_def)

lemma l1_entries_set:
  "l1_entries j (l1_set k x ttl t c) \<subseteq> (if j = k then set_option x \<union> l1_entries j c else l1_entries j c)
   \<and> l1_revision c \<le> l1_revision (l1_set k x ttl t c) \<and> (0 < ttl \<and> x \<noteq> None \<longrightarrow> l1_revision (l1_set k x ttl t c) = l1_revision c)"
proof (cases "ttl \<le> 0 \<or> x = None")
  case True
  then show ?thesis by (auto simp: l1_set_def l1_delete_def l1_pop_def l1_entries_def)
next
  case False
  then show ?thesis
    using evict_subset[of "l1_maxsize c"] by (fastforce simp: l1_set_def Let_def l1_put_last_def l1_entries_def)
qed

lemma l1_entries_fill:
  assumes "l1_set_if_unchanged k x ttl r t t' c = (b, c')"
  shows "l1_revision c' = l1_revision c
     \<and> l1_entries j c' \<subseteq> (if j = k \<and> r = l1_revision c then set_option x \<union> l1_entries j c else l1_entries j c)"
proof -
  obtain f d where g: "get_at k t c = (f, d)" by (cases "get_at k t c")
  then have gg: "l1_entries j d \<subseteq> l1_entries j c" "l1_revision d = l1_revision c"
    using l1_entries_get[of k t c f d j] by (simp_all add: l1_get_def)
  show ?thesis
    using assms g gg l1_entries_set[of j k x ttl t' d] by (auto simp: l1_set_if_unchanged_def split: if_splits)
qed

interpretation pc: backfilled_cache "l1_entries k" l1_revision "l1_get k"
  "\<lambda>v ttl t. l1_set k (Some v) ttl t" "\<lambda>v ttl r t t'. l1_set_if_unchanged k (Some v) ttl r t t'" "l1_delete k" for k
proof
  fix v ttl r t t' and c :: "'a l1_cache"
  obtain b d where "l1_set_if_unchanged k (Some v) ttl r t t' c = (b, d)" by (cases "l1_set_if_unchanged k (Some v) ttl r t t' c")
  from l1_entries_fill[OF this, of k] this
  show "l1_revision (snd (l1_set_if_unchanged k (Some v) ttl r t t' c)) = l1_revision c
      \<and> l1_entries k (snd (l1_set_if_unchanged k (Some v) ttl r t t' c))
        \<subseteq> (if r = l1_revision c then insert v (l1_entries k c) else l1_entries k c)"
    by (auto split: if_splits)
next
  show "l1_get k t c = (x, c') \<Longrightarrow>
      l1_entries k c' \<subseteq> l1_entries k c \<and> l1_revision c' = l1_revision c \<and> (\<forall>v. x = Some v \<longrightarrow> v \<in> l1_entries k c)"
    for t x and c c' :: "'a l1_cache" by (rule l1_entries_get)
  show "l1_entries k (l1_set k (Some v) ttl t c) \<subseteq> insert v (l1_entries k c)
      \<and> l1_revision c \<le> l1_revision (l1_set k (Some v) ttl t c)" for v ttl t and c :: "'a l1_cache"
    using l1_entries_set[of k k "Some v" ttl t c] by simp
  show "l1_entries k (l1_delete k c) = {} \<and> l1_revision (l1_delete k c) = Suc (l1_revision c)" for c :: "'a l1_cache"
    by (simp add: l1_delete_def l1_entries_pop) (simp add: l1_pop_def)
qed

lemma l1_entries_multi:
  "l1_multi_get ks t c = (vs, c') \<Longrightarrow> l1_entries j c' \<subseteq> l1_entries j c \<and> l1_revision c' = l1_revision c"
proof (induction ks arbitrary: c vs c')
  case (Cons k ks)
  obtain v d where g: "get_at k t c = (v, d)" by (cases "get_at k t c")
  obtain us e where m: "l1_multi_get ks t d = (us, e)" by (cases "l1_multi_get ks t d")
  from Cons.prems g m have "c' = e" by simp
  with Cons.IH[OF m] l1_entries_get[of k t c v d j] g show ?case by (auto simp: l1_get_def)
qed simp

text \<open>Operations on other keys add nothing under this one, and the count of invalidations never falls.\<close>

lemma l1_entries_other:
  assumes "k \<notin> op_keys op"
  shows "l1_entries k (snd (l1_step op t c)) \<subseteq> l1_entries k c \<and> l1_revision c \<le> l1_revision (snd (l1_step op t c))"
proof (cases op)
  case (Get j)
  then show ?thesis using l1_entries_get[of j t c _ _ k] by (auto split: prod.splits)
next
  case (Multi_get js)
  then show ?thesis using l1_entries_multi[of js t c _ _ k] by (fastforce split: prod.splits)
next
  case (Set j x ttl)
  with assms show ?thesis using l1_entries_set[of k j x ttl t c] by simp
next
  case (Set_if_unchanged j x ttl r t')
  with assms show ?thesis using l1_entries_fill[of j x ttl r t t' c _ _ k] by (auto split: prod.splits)
next
  case (Del j)
  then show ?thesis by (auto simp: l1_delete_def l1_pop_def l1_entries_def)
qed (auto simp: l1_clear_def l1_reset_def l1_entries_def)

section \<open>What the system keeps\<close>

definition shows_row :: "'d raw \<Rightarrow> 'd row \<Rightarrow> bool" where
  "shows_row raw row \<longleftrightarrow>
     (case raw of
        Envelope sv data neg \<Rightarrow>
          if neg then row = None else (case data of None \<Rightarrow> True | Some d \<Rightarrow> row = Some (d, sv))
      | _ \<Rightarrow> True)"

definition answers_row :: "'d option \<Rightarrow> 'd row \<Rightarrow> bool" where
  "answers_row d row \<longleftrightarrow> map_option fst row = d"

text \<open>Some row that was committed as number \<open>g\<close> or later.\<close>

definition since :: "nat \<Rightarrow> 'd world \<Rightarrow> ('d row \<Rightarrow> bool) \<Rightarrow> bool" where
  "since g w P \<longleftrightarrow> list_ex P (drop g (rows w))"

definition l1_ok :: "snap_cfg \<Rightarrow> 'd world \<Rightarrow> nat \<Rightarrow> bool" where
  "l1_ok cf w p \<longleftrightarrow> pc.shows_only (snap_key cf) (\<lambda>(sv, d). since (l1_floor w p) w (\<lambda>row. row = Some (d, sv))) (l1 w p)"

definition world_ok :: "snap_cfg \<Rightarrow> 'd world \<Rightarrow> bool" where
  "world_ok cf w \<longleftrightarrow>
     floor_ix w < length (rows w) \<and> 0 \<le> clock w \<and> 0 \<le> epoch_value w
     \<and> (\<forall>p. l1_floor w p \<le> floor_ix w \<and> list_all (\<lambda>g. g \<le> floor_ix w) (inbox w p) \<and> l1_ok cf w p)
     \<and> (case snap w of None \<Rightarrow> True | Some raw \<Rightarrow> since (floor_ix w) w (shows_row raw))"

definition fill_ok :: "nat \<Rightarrow> 'd fill \<Rightarrow> 'd world \<Rightarrow> bool" where
  "fill_ok g f w \<longleftrightarrow>
     fl_neg f = (fl_data f = None) \<and> fl_epoch f \<le> epoch_value w
     \<and> since g w (shows_row (raw_of f))
     \<and> (fl_epoch f = epoch_value w \<longrightarrow> since (floor_ix w) w (shows_row (raw_of f)))"

fun pc_ok :: "nat \<Rightarrow> nat \<Rightarrow> 'd pc \<Rightarrow> 'd world \<Rightarrow> bool" where
  "pc_ok p g (Fetch n r) w \<longleftrightarrow> r \<le> l1_revision (l1 w p)"
| "pc_ok p g (Fetched n r (Some raw)) w \<longleftrightarrow>
     r \<le> l1_revision (l1 w p) \<and> since g w (shows_row raw)
     \<and> (r = l1_revision (l1 w p) \<longrightarrow> since (l1_floor w p) w (shows_row raw))"
| "pc_ok p g (Load_row e) w \<longleftrightarrow> e \<le> epoch_value w"
| "pc_ok p g (Watch f n) w \<longleftrightarrow> fill_ok g f w"
| "pc_ok p g (Get_epoch f n m) w \<longleftrightarrow> fill_ok g f w \<and> m \<le> writes w"
| "pc_ok p g (Get_snap f n m cur) w \<longleftrightarrow> fill_ok g f w \<and> m \<le> writes w \<and> (m = writes w \<longrightarrow> cur = epoch_value w)"
| "pc_ok p g (Check_snap f n m cur raw) w \<longleftrightarrow> fill_ok g f w \<and> m \<le> writes w \<and> (m = writes w \<longrightarrow> cur = epoch_value w)"
| "pc_ok p g (Execute f n m r) w \<longleftrightarrow>
     fill_ok g f w \<and> m \<le> writes w \<and> (m = writes w \<longrightarrow> fl_epoch f = epoch_value w) \<and> r \<le> l1_revision (l1 w p)"
| "pc_ok p g (Executed f r) w \<longleftrightarrow>
     fill_ok g f w \<and> r \<le> l1_revision (l1 w p)
     \<and> (r = l1_revision (l1 w p) \<longrightarrow> since (l1_floor w p) w (shows_row (raw_of f)))"
| "pc_ok p g (Answered d) w \<longleftrightarrow> since g w (answers_row d)"
| "pc_ok p g (Inval_l1 k) w \<longleftrightarrow> k \<le> floor_ix w"
| "pc_ok p g (Inval_publish k) w \<longleftrightarrow> k \<le> floor_ix w"
| "pc_ok p g _ w \<longleftrightarrow> True"

definition task_ok :: "'d world \<Rightarrow> 'd task \<Rightarrow> bool" where
  "task_ok w t \<longleftrightarrow> (case t of (p, g, c) \<Rightarrow> g \<le> l1_floor w p \<and> pc_ok p g c w)"

text \<open>How the world moves: nothing falls, the epoch only changes with a write, and a floor only with its epoch or count.\<close>

definition moves :: "'d world \<Rightarrow> 'd world \<Rightarrow> bool" where
  "moves w w' \<longleftrightarrow>
     (\<exists>rs. rows w' = rows w @ rs) \<and> epoch_value w \<le> epoch_value w' \<and> writes w \<le> writes w'
     \<and> (writes w' = writes w \<longrightarrow> epoch_value w' = epoch_value w)
     \<and> (epoch_value w' = epoch_value w \<longrightarrow> floor_ix w' = floor_ix w) \<and> floor_ix w \<le> floor_ix w'
     \<and> (\<forall>p. l1_floor w p \<le> l1_floor w' p \<and> l1_revision (l1 w p) \<le> l1_revision (l1 w' p)
          \<and> (l1_revision (l1 w' p) = l1_revision (l1 w p) \<longrightarrow> l1_floor w' p = l1_floor w p))"

lemma moves_refl [simp, intro]: "moves w w"
  by (simp add: moves_def)

lemma since_mono: "since g w P \<Longrightarrow> g' \<le> g \<Longrightarrow> (\<And>r. P r \<Longrightarrow> Q r) \<Longrightarrow> since g' w Q"
  unfolding since_def list_ex_iff by (metis set_drop_subset_set_drop subsetD)

lemma since_rows: "since g w P \<Longrightarrow> rows w' = rows w @ rs \<Longrightarrow> since g w' P"
  by (auto simp: since_def)

lemma since_cong: "rows w' = rows w \<Longrightarrow> since g w' P = since g w P"
  by (simp add: since_def)

lemma since_last: "g < length (rows w) \<Longrightarrow> P (last (rows w)) \<Longrightarrow> since g w P"
  unfolding since_def list_ex_iff by (metis drop_eq_Nil2 last_drop last_in_set not_less)

lemma since_moves: "moves w w' \<Longrightarrow> since g w P \<Longrightarrow> since g w' P"
  by (auto simp: moves_def intro: since_rows)

lemma fill_ok_moves:
  assumes "moves w w'" and "fill_ok g f w"
  shows "fill_ok g f w'"
proof -
  have "since (floor_ix w') w' (shows_row (raw_of f))" if "fl_epoch f = epoch_value w'"
  proof -
    from that assms have "epoch_value w' = epoch_value w" by (simp add: moves_def fill_ok_def)
    with that assms have "floor_ix w' = floor_ix w" "since (floor_ix w) w (shows_row (raw_of f))"
      by (simp_all add: moves_def fill_ok_def)
    with since_moves[OF assms(1)] show ?thesis by simp
  qed
  moreover have "fl_epoch f \<le> epoch_value w'" using assms by (simp add: moves_def fill_ok_def)
  ultimately show ?thesis using assms since_moves[OF assms(1)] by (auto simp: fill_ok_def)
qed

lemma pc_ok_moves:
  assumes m: "moves w w'" and ok: "pc_ok p g c w"
  shows "pc_ok p g c w'"
proof -
  have rev: "r \<le> l1_revision (l1 w' p)" if "r \<le> l1_revision (l1 w p)" for r
    using m that by (meson le_trans moves_def)
  have same: "since (l1_floor w' p) w' P"
    if "r \<le> l1_revision (l1 w p)" "r = l1_revision (l1 w p) \<longrightarrow> since (l1_floor w p) w P" "r = l1_revision (l1 w' p)" for r P
  proof -
    from that(1,3) m have "l1_revision (l1 w' p) = l1_revision (l1 w p)" by (metis le_antisym moves_def)
    with m that have "l1_floor w' p = l1_floor w p" "since (l1_floor w p) w P" by (auto simp: moves_def)
    with since_moves[OF m] show ?thesis by simp
  qed
  have ep: "e = epoch_value w'" if "k \<le> writes w" "k = writes w \<longrightarrow> e = epoch_value w" "k = writes w'" for k e
    using m that by (metis le_antisym moves_def)
  have wr: "k \<le> writes w'" if "k \<le> writes w" for k using m that by (simp add: moves_def)
  show ?thesis
  proof (cases c)
    case (Fetched n r raw)
    then show ?thesis using ok rev same since_moves[OF m] by (cases raw) auto
  next
    case (Inval_l1 k)
    then show ?thesis using ok m by (auto simp: moves_def)
  next
    case (Inval_publish k)
    then show ?thesis using ok m by (auto simp: moves_def)
  next
    case (Load_row e)
    then show ?thesis using ok m by (auto simp: moves_def)
  qed (use ok fill_ok_moves[OF m] since_moves[OF m] rev same ep wr in auto)
qed

lemma set_l1_simps [simp]:
  "rows (set_l1 p c w) = rows w" "snap (set_l1 p c w) = snap w" "epoch (set_l1 p c w) = epoch w" "writes (set_l1 p c w) = writes w"
  "clock (set_l1 p c w) = clock w" "inbox (set_l1 p c w) = inbox w" "floor_ix (set_l1 p c w) = floor_ix w"
  "l1_floor (set_l1 p c w) = l1_floor w" "l1 (set_l1 p c w) = (l1 w)(p := c)" "epoch_value (set_l1 p c w) = epoch_value w"
  "since g (set_l1 p c w) P = since g w P"
  by (simp_all add: set_l1_def epoch_value_def since_def)

lemma since_down: "since g w P \<Longrightarrow> g' \<le> g \<Longrightarrow> since g' w P"
  by (rule since_mono)

text \<open>An entry of the process cache that is recent enough.\<close>

definition entry_ok :: "'d world \<Rightarrow> nat \<Rightarrow> int option \<times> 'd \<Rightarrow> bool" where
  "entry_ok w p = (\<lambda>(sv, d). since (l1_floor w p) w (\<lambda>row. row = Some (d, sv)))"

lemma l1_ok_entry: "l1_ok cf w p \<longleftrightarrow> pc.shows_only (snap_key cf) (entry_ok w p) (l1 w p)"
  by (simp add: l1_ok_def entry_ok_def)

lemma set_l1_good:
  assumes "world_ok cf w" and "l1_revision (l1 w p) \<le> l1_revision c" and "pc.shows_only (snap_key cf) (entry_ok w p) c"
  shows "moves w (set_l1 p c w)" and "world_ok cf (set_l1 p c w)"
proof -
  show "moves w (set_l1 p c w)" using assms(2) by (simp add: moves_def)
  have "l1_ok cf (set_l1 p c w) q" for q
    using assms(1,3) by (cases "q = p") (simp_all add: l1_ok_def world_ok_def entry_ok_def)
  then show "world_ok cf (set_l1 p c w)" using assms(1) by (simp add: world_ok_def split: option.splits)
qed

lemma drop_l1_good:
  assumes w: "world_ok cf w" and "g \<le> floor_ix w"
  shows "moves w (drop_l1 cf p g w)" and "world_ok cf (drop_l1 cf p g w)"
proof -
  show "moves w (drop_l1 cf p g w)" by (simp add: moves_def drop_l1_def pc.del_shows(2) epoch_value_def)
  have "l1_ok cf (drop_l1 cf p g w) q" for q
  proof (cases "q = p")
    case True
    then show ?thesis by (simp add: l1_ok_def drop_l1_def pc.del_shows(1))
  next
    case False
    with w show ?thesis by (simp add: l1_ok_def drop_l1_def world_ok_def since_def)
  qed
  then show "world_ok cf (drop_l1 cf p g w)"
    using assms by (auto simp: world_ok_def drop_l1_def epoch_value_def since_def split: option.splits)
qed

definition good :: "snap_cfg \<Rightarrow> nat \<Rightarrow> nat \<Rightarrow> 'd world \<Rightarrow> 'd pc \<times> 'd world \<Rightarrow> bool" where
  "good cf p g w r \<longleftrightarrow> moves w (snd r) \<and> world_ok cf (snd r) \<and> pc_ok p g (fst r) (snd r)"

lemma goodI: "moves w w' \<Longrightarrow> world_ok cf w' \<Longrightarrow> pc_ok p g c w' \<Longrightarrow> good cf p g w (c, w')"
  by (simp add: good_def)

lemma good_stay: "world_ok cf w \<Longrightarrow> pc_ok p g c w \<Longrightarrow> good cf p g w (c, w)"
  by (simp add: good_def)

lemma pc_ok_missed [simp]: "pc_ok p g (missed cf n) w"
  by (cases n) (simp_all add: missed_def)

lemma entry_answers: "since g w (\<lambda>row. row = Some (d, sv)) \<Longrightarrow> since g w (answers_row (Some d))"
  by (erule since_mono) (auto simp: answers_row_def)

lemma shown_answers:
  "since g w (shows_row (Envelope sv (Some d) False)) \<Longrightarrow> since g w (answers_row (Some d))"
  "since g w (shows_row (Envelope sv data True)) \<Longrightarrow> since g w (answers_row None)"
  by (erule since_mono, simp, simp add: shows_row_def answers_row_def)+

lemma fill_answers: "fill_ok g f w \<Longrightarrow> since g w (answers_row (fl_data f))"
  unfolding fill_ok_def raw_of_def using shown_answers by (cases "fl_data f") auto

lemma look_good:
  assumes w: "world_ok cf w" and g: "g \<le> l1_floor w p"
  shows "good cf p g w (look cf p ch n w)"
proof (cases "ch_ok ch \<and> l1_on cf")
  case False
  with w show ?thesis by (auto simp: look_def intro!: good_stay)
next
  case True
  obtain x c where x: "l1_get (snap_key cf) (clock w) (l1 w p) = (x, c)" by (cases "l1_get (snap_key cf) (clock w) (l1 w p)")
  have ok: "pc.shows_only (snap_key cf) (entry_ok w p) (l1 w p)" using w by (simp add: world_ok_def l1_ok_entry)
  note s = pc.get_shows[OF ok x]
  have good: "moves w (set_l1 p c w)" "world_ok cf (set_l1 p c w)" using set_l1_good[OF w, of p c] s by simp_all
  show ?thesis
  proof (cases x)
    case None
    with True x good s(3) show ?thesis by (simp add: look_def good_def)
  next
    case (Some e)
    then obtain sv d where e: "e = (sv, d)" by (cases e)
    then have "since (l1_floor w p) w (\<lambda>row. row = Some (d, sv))" using s(2) Some by (simp add: entry_ok_def)
    then have "since g w (answers_row (Some d))" using g since_down entry_answers by metis
    with True x Some e good show ?thesis by (simp add: look_def good_def)
  qed
qed

lemma fetch_good:
  assumes w: "world_ok cf w" and g: "g \<le> l1_floor w p" and "r \<le> l1_revision (l1 w p)"
  shows "good cf p g w (if ch_ok ch then Fetched n r (snap w) else missed cf n, w)"
proof -
  have f: "l1_floor w p \<le> floor_ix w" "g \<le> floor_ix w" using w g by (auto simp: world_ok_def intro: le_trans)
  have "since g w (shows_row raw) \<and> since (l1_floor w p) w (shows_row raw)" if "snap w = Some raw" for raw
  proof -
    have "since (floor_ix w) w (shows_row raw)" using w that by (simp add: world_ok_def)
    with f since_down show ?thesis by blast
  qed
  with assms show ?thesis by (cases "snap w") (auto simp: good_def)
qed

lemma fetched_good:
  assumes w: "world_ok cf w" and g: "g \<le> l1_floor w p" and ok: "pc_ok p g (Fetched n r raw) w"
    and absent: "ch_absent ch \<Longrightarrow> last (rows w) = None"
  shows "good cf p g w (fetched cf p ch n r raw w)"
proof -
  have len: "g < length (rows w)" using w g by (meson le_less_trans world_ok_def)
  show ?thesis
  proof (cases raw)
    case None
    have "since g w (answers_row None)" if "ch_absent ch"
      using since_last[OF len, of "answers_row None"] absent that by (simp add: answers_row_def)
    with None w show ?thesis by (auto simp: fetched_def good_def)
  next
    case (Some r')
    show ?thesis
    proof (cases r')
      case Not_json
      with Some w show ?thesis by (simp add: fetched_def good_def)
    next
      case Not_object
      with Some w show ?thesis by (simp add: fetched_def good_def)
    next
      case (Envelope sv data neg)
      have s: "since g w (shows_row (Envelope sv data neg))"
        and l: "r = l1_revision (l1 w p) \<longrightarrow> since (l1_floor w p) w (shows_row (Envelope sv data neg))"
        using ok Some Envelope by simp_all
      show ?thesis
      proof (cases "neg \<or> data = None")
        case True
        with Some Envelope w s show ?thesis
          using shown_answers(2)[of g w sv data] by (auto simp: fetched_def good_def)
      next
        case False
        then obtain d where d: "data = Some d" "\<not> neg" by auto
        let ?c = "snd (l1_set_if_unchanged (snap_key cf) (Some (sv, d)) (ch_ttl ch) r (clock w) (clock w) (l1 w p))"
        have "entry_ok w p (sv, d)" if "r = l1_revision (l1 w p)"
          using l that d since_mono[of "l1_floor w p" w "shows_row (Envelope sv data neg)" "l1_floor w p" "\<lambda>row. row = Some (d, sv)"]
          by (simp add: entry_ok_def shows_row_def)
        then have "pc.shows_only (snap_key cf) (entry_ok w p) ?c"
          using w by (intro pc.fill_shows) (simp_all add: world_ok_def l1_ok_entry)
        moreover have "l1_revision ?c = l1_revision (l1 w p)"
          using pc.fill[of "snap_key cf" "(sv, d)" "ch_ttl ch" r "clock w" "clock w" "l1 w p"] by simp
        ultimately have "moves w (set_l1 p ?c w)" "world_ok cf (set_l1 p ?c w)" using set_l1_good[OF w] by simp_all
        moreover have "since g w (answers_row (Some d))" using shown_answers(1)[of g w sv d] s d by simp
        ultimately show ?thesis using Some Envelope d w by (simp add: fetched_def good_def)
      qed
    qed
  qed
qed

lemma epoch_init_good:
  assumes w: "world_ok cf w"
  shows "good cf p g w (epoch_init ch w)"
proof (cases "ch_ok ch \<and> epoch w = None")
  case True
  let ?w = "w\<lparr>epoch := Some (clock w), writes := Suc (writes w)\<rparr>"
  have "epoch_value w = 0" "epoch_value ?w = clock w" using True by (simp_all add: epoch_value_def)
  moreover have "0 \<le> clock w" using w by (simp add: world_ok_def)
  ultimately have "moves w ?w" by (auto simp: moves_def)
  moreover have "world_ok cf ?w"
    using w \<open>epoch_value ?w = clock w\<close> by (auto simp: world_ok_def l1_ok_def since_def split: option.splits)
  moreover have "0 \<le> epoch_value ?w" using \<open>epoch_value ?w = clock w\<close> \<open>0 \<le> clock w\<close> by simp
  ultimately show ?thesis using True by (auto simp: epoch_init_def good_def)
next
  case False
  with w show ?thesis by (auto simp: epoch_init_def good_def world_ok_def)
qed

lemma load_row_good:
  assumes w: "world_ok cf w" and g: "g \<le> l1_floor w p" and e: "e \<le> epoch_value w"
  shows "good cf p g w (load_row ch e w)"
proof (cases "ch_ok ch")
  case False
  with w show ?thesis by (simp add: load_row_def good_def)
next
  case True
  have "floor_ix w < length (rows w)" "l1_floor w p \<le> floor_ix w" using w by (simp_all add: world_ok_def)
  with g have l: "floor_ix w < length (rows w)" "g < length (rows w)" by simp_all
  have now: "since (floor_ix w) w P" "since g w P" if "P (last (rows w))" for P
    using that l by (simp_all add: since_last)
  show ?thesis
  proof (cases "last (rows w)")
    case None
    with now[of "shows_row (Envelope (Some 0) None True)"] w e show ?thesis
      by (simp add: load_row_def good_def fill_ok_def raw_of_def shows_row_def)
  next
    case (Some r)
    then obtain d v where r: "last (rows w) = Some (d, v)" by (cases r) auto
    show ?thesis
    proof (cases v)
      case None
      with r now[of "answers_row (Some d)"] w show ?thesis by (simp add: load_row_def good_def answers_row_def)
    next
      case (Some i)
      with r now[of "shows_row (Envelope (Some i) (Some d) False)"] w e show ?thesis
        by (simp add: load_row_def good_def fill_ok_def raw_of_def shows_row_def)
    qed
  qed
qed

lemma execute_good:
  assumes w: "world_ok cf w" and g: "g \<le> l1_floor w p" and ok: "pc_ok p g (Execute f n m r) w"
  shows "good cf p g w (execute ch f n m r w)"
proof (cases "ch_ok ch \<and> m = writes w")
  case True
  let ?w = "w\<lparr>snap := Some (raw_of f), writes := Suc (writes w)\<rparr>"
  have f: "fill_ok g f w" "fl_epoch f = epoch_value w" "r \<le> l1_revision (l1 w p)" using ok True by simp_all
  then have fresh: "since (floor_ix w) w (shows_row (raw_of f))" by (simp add: fill_ok_def)
  have ev: "epoch_value ?w = epoch_value w" by (simp add: epoch_value_def)
  then have mv: "moves w ?w" by (simp add: moves_def)
  moreover have "world_ok cf ?w"
    using w fresh ev by (auto simp: world_ok_def l1_ok_def since_def)
  moreover have "l1_floor w p \<le> floor_ix w" using w by (simp add: world_ok_def)
  then have "since (l1_floor w p) ?w (shows_row (raw_of f))" using since_down[OF fresh] by (simp add: since_def)
  moreover have "fill_ok g f ?w" using fill_ok_moves[OF mv f(1)] .
  ultimately show ?thesis using True f(3) fill_answers[of g f ?w] by (auto simp: execute_def good_def)
next
  case False
  with w ok fill_answers[of g f w] show ?thesis by (auto simp: execute_def good_def)
qed

lemma executed_good:
  assumes w: "world_ok cf w" and g: "g \<le> l1_floor w p" and ok: "pc_ok p g (Executed f r) w"
  shows "good cf p g w (executed cf p ch f r w)"
proof -
  have f: "fill_ok g f w" and s: "r = l1_revision (l1 w p) \<longrightarrow> since (l1_floor w p) w (shows_row (raw_of f))" using ok by simp_all
  have ans: "since g w (answers_row (fl_data f))" by (rule fill_answers[OF f])
  show ?thesis
  proof (cases "fl_data f \<noteq> None \<and> l1_on cf \<and> \<not> fl_neg f \<and> r = l1_revision (l1 w p)")
    case False
    with w ans show ?thesis by (auto simp: executed_def good_def split: option.splits)
  next
    case True
    then obtain d where d: "fl_data f = Some d" by auto
    obtain x c where x: "l1_get (snap_key cf) (clock w) (l1 w p) = (x, c)" by (cases "l1_get (snap_key cf) (clock w) (l1 w p)")
    have ok1: "pc.shows_only (snap_key cf) (entry_ok w p) (l1 w p)" using w by (simp add: world_ok_def l1_ok_entry)
    note gs = pc.get_shows[OF ok1 x]
    have "entry_ok w p (Some (fl_sv f), d)"
      using s True d since_mono[of "l1_floor w p" w "shows_row (raw_of f)" "l1_floor w p" "\<lambda>row. row = Some (d, Some (fl_sv f))"]
      by (simp add: entry_ok_def shows_row_def raw_of_def)
    then have "pc.shows_only (snap_key cf) (entry_ok w p) (l1_set (snap_key cf) (Some (Some (fl_sv f), d)) (ch_ttl ch) (clock w) c)"
      using gs(1) by (intro pc.put_shows(1))
    moreover have "l1_revision (l1 w p) \<le> l1_revision (l1_set (snap_key cf) (Some (Some (fl_sv f), d)) (ch_ttl ch) (clock w) c)"
      using pc.put_shows(2)[of c "snap_key cf" "(Some (fl_sv f), d)" "ch_ttl ch" "clock w"] gs(3) by simp
    ultimately have set: "moves w (set_l1 p c' w)" "world_ok cf (set_l1 p c' w)"
      if "c' = c \<or> c' = l1_set (snap_key cf) (Some (Some (fl_sv f), d)) (ch_ttl ch) (clock w) c" for c'
      using set_l1_good[OF w, of p c'] that gs(1,3) by auto
    have "\<exists>c'. (c' = c \<or> c' = l1_set (snap_key cf) (Some (Some (fl_sv f), d)) (ch_ttl ch) (clock w) c)
        \<and> executed cf p ch f r w = (Answered (fl_data f), set_l1 p c' w)"
      using True d x by (auto simp: executed_def Let_def)
    then obtain c' where "c' = c \<or> c' = l1_set (snap_key cf) (Some (Some (fl_sv f), d)) (ch_ttl ch) (clock w) c"
      and e: "executed cf p ch f r w = (Answered (fl_data f), set_l1 p c' w)" by blast
    with set ans show ?thesis by (simp add: good_def)
  qed
qed

lemma inval_exec_good:
  assumes w: "world_ok cf w"
  shows "good cf p g w (inval_exec ch w)"
proof (cases "ch_ok ch")
  case True
  let ?w = "w\<lparr>epoch := Some (epoch_value w + 1), snap := None, writes := Suc (writes w), floor_ix := length (rows w) - 1\<rparr>"
  have ev: "epoch_value ?w = epoch_value w + 1" by (simp add: epoch_value_def)
  have l: "floor_ix w < length (rows w)" using w by (simp add: world_ok_def)
  then have "moves w ?w" using ev by (auto simp: moves_def)
  moreover have "world_ok cf ?w"
  proof -
    have "h \<le> length (rows w) - 1" if "h \<le> floor_ix w" for h using that l by simp
    with w have "l1_floor w q \<le> length (rows w) - 1" "list_all (\<lambda>h. h \<le> length (rows w) - 1) (inbox w q)" for q
      by (auto simp: world_ok_def list_all_iff)
    with w l ev show ?thesis by (simp add: world_ok_def l1_ok_def since_def)
  qed
  ultimately show ?thesis using True by (simp add: inval_exec_def good_def)
next
  case False
  with w show ?thesis by (simp add: inval_exec_def good_def)
qed

lemma advance_good:
  assumes w: "world_ok cf w" and t: "task_ok w (p, g, c)"
    and absent: "ch_absent ch \<Longrightarrow> last (rows w) = None"
  shows "good cf p g w (advance cf p ch c w)"
proof -
  have g: "g \<le> l1_floor w p" and ok: "pc_ok p g c w" using t by (simp_all add: task_ok_def)
  show ?thesis
  proof (cases c)
    case (Look n)
    with look_good[OF w g] show ?thesis by simp
  next
    case (Fetch n r)
    with fetch_good[OF w g, of r ch n] ok show ?thesis by (simp split del: if_split)
  next
    case (Fetched n r raw)
    with fetched_good[OF w g _ absent] ok show ?thesis by simp
  next
    case Epoch_get
    with w show ?thesis by (auto simp: epoch_get_def good_def world_ok_def epoch_value_def split: option.splits)
  next
    case Epoch_init
    with epoch_init_good[OF w] show ?thesis by simp
  next
    case Epoch_reread
    with w show ?thesis by (auto simp: epoch_reread_def good_def world_ok_def)
  next
    case (Load_row e)
    with load_row_good[OF w g] ok show ?thesis by simp
  next
    case (Watch f n)
    with w ok fill_answers[of g f w] show ?thesis by (auto simp: watch_def good_def split: nat.splits)
  next
    case (Get_epoch f n m)
    with w ok fill_answers[of g f w] show ?thesis by (auto simp: get_epoch_def good_def)
  next
    case (Get_snap f n m cur)
    with w ok fill_answers[of g f w] show ?thesis by (auto simp: get_snap_def good_def)
  next
    case (Check_snap f n m cur raw)
    with w ok fill_answers[of g f w] show ?thesis by (auto simp: check_snap_def good_def)
  next
    case (Execute f n m r)
    with execute_good[OF w g] ok show ?thesis by simp
  next
    case (Executed f r)
    with executed_good[OF w g] ok show ?thesis by simp
  next
    case Inval_exec
    with inval_exec_good[OF w] show ?thesis by simp
  next
    case (Inval_l1 k)
    with w ok drop_l1_good[OF w, of k p] show ?thesis
      by (auto simp: inval_l1_def good_def drop_l1_def)
  next
    case (Inval_publish k)
    with w ok show ?thesis
      by (auto simp: inval_publish_def good_def moves_def world_ok_def l1_ok_def epoch_value_def since_def split: option.splits)
  qed (use w ok in \<open>simp_all add: good_def\<close>)
qed

section \<open>Runs\<close>

text \<open>A reader that waits, or has what it waited for, names a loader of its own process, and what it has is what that answered.\<close>

fun waits_ok :: "'d task list \<Rightarrow> 'd task \<Rightarrow> bool" where
  "waits_ok ts (p, g, Await k) \<longleftrightarrow> k < length ts \<and> fst (ts ! k) = p"
| "waits_ok ts (p, g, Leave k (Some d)) \<longleftrightarrow> k < length ts \<and> fst (ts ! k) = p \<and> snd (snd (ts ! k)) = Answered d"
| "waits_ok ts (p, g, Leave k None) \<longleftrightarrow> k < length ts \<and> fst (ts ! k) = p"
| "waits_ok ts (p, g, Served k d) \<longleftrightarrow> k < length ts \<and> fst (ts ! k) = p \<and> snd (snd (ts ! k)) = Answered d"
| "waits_ok ts _ \<longleftrightarrow> True"

definition flights_ok :: "'d task list \<Rightarrow> (nat \<Rightarrow> nat option) \<Rightarrow> bool" where
  "flights_ok ts fl \<longleftrightarrow>
     (\<forall>i j. i < j \<and> j < length ts \<and> fst (ts ! i) = fst (ts ! j) \<longrightarrow> fst (snd (ts ! i)) \<le> fst (snd (ts ! j)))
     \<and> (\<forall>p k. fl p = Some k \<longrightarrow> k < length ts \<and> fst (ts ! k) = p)
     \<and> list_all (waits_ok ts) ts"

definition sys_ok :: "snap_cfg \<Rightarrow> 'd system \<Rightarrow> bool" where
  "sys_ok cf s \<longleftrightarrow>
     world_ok cf (world_of s) \<and> list_all (task_ok (world_of s)) (tasks s) \<and> flights_ok (tasks s) (flights s)"

lemma waits_ok_mono:
  assumes "waits_ok ts t" and "length ts \<le> length ts'" and "\<And>k. k < length ts \<Longrightarrow> fst (ts' ! k) = fst (ts ! k)"
    and "\<And>k d. k < length ts \<Longrightarrow> snd (snd (ts ! k)) = Answered d \<Longrightarrow> snd (snd (ts' ! k)) = Answered d"
  shows "waits_ok ts' t"
  using assms by (cases "(ts, t)" rule: waits_ok.cases) auto

lemma flights_ok_append:
  assumes "flights_ok ts fl" and "waits_ok (ts @ [(p, g, c)]) (p, g, c)" and "\<And>h d. (p, h, d) \<in> set ts \<Longrightarrow> h \<le> g"
  shows "flights_ok (ts @ [(p, g, c)]) fl" and "flights_ok (ts @ [(p, g, c)]) (fl(p := Some (length ts)))"
proof -
  have "fst (snd (ts ! i)) \<le> g" if "i < length ts" "fst (ts ! i) = p" for i
    using assms(3)[of "fst (snd (ts ! i))" "snd (snd (ts ! i))"] nth_mem[OF that(1)] that(2) by (metis prod.collapse)
  moreover have "list_all (waits_ok (ts @ [(p, g, c)])) ts"
    using assms(1) by (auto simp: flights_ok_def list_all_iff nth_append intro: waits_ok_mono)
  ultimately show "flights_ok (ts @ [(p, g, c)]) fl" and "flights_ok (ts @ [(p, g, c)]) (fl(p := Some (length ts)))"
    using assms(1,2) unfolding flights_ok_def by (auto simp: nth_append less_Suc_eq)
qed

lemma flights_ok_move:
  assumes ok: "flights_ok ts fl" and i: "i < length ts" "ts ! i = (p, g, c)" and c: "\<And>d. c \<noteq> Answered d"
    and c': "waits_ok ts (p, g, c')" and fl: "\<And>q k. fl' q = Some k \<Longrightarrow> fl q = Some k"
  shows "flights_ok (ts[i := (p, g, c')]) fl'"
proof -
  have nth: "fst (ts[i := (p, g, c')] ! k) = fst (ts ! k)" "fst (snd (ts[i := (p, g, c')] ! k)) = fst (snd (ts ! k))"
    "snd (snd (ts ! k)) = Answered d \<Longrightarrow> snd (snd (ts[i := (p, g, c')] ! k)) = Answered d" for k d
    using i c by (cases "k = i"; simp)+
  have "waits_ok (ts[i := (p, g, c')]) t" if "waits_ok ts t" for t
    by (rule waits_ok_mono[OF that]) (simp_all add: nth)
  moreover have "list_all (waits_ok ts) (ts[i := (p, g, c')])"
    using ok c' by (auto simp: flights_ok_def list_all_iff dest!: set_update_subset_insert[THEN subsetD])
  ultimately have "list_all (waits_ok (ts[i := (p, g, c')])) (ts[i := (p, g, c')])" by (simp add: list_all_iff)
  with ok show ?thesis using fl by (fastforce simp: flights_ok_def nth)
qed

lemma advance_waits:
  assumes "flight_step i p c s = None" and "waits_ok ts (p, g, c)"
  shows "waits_ok ts (p, g, fst (advance cf p ch c w))"
  using assms
  by (cases c)
    (auto simp: look_def fetched_def missed_def epoch_get_def epoch_init_def epoch_reread_def load_row_def watch_def get_epoch_def
      get_snap_def check_snap_def execute_def executed_def inval_exec_def inval_l1_def inval_publish_def Let_def
      split: option.splits raw.splits nat.splits prod.splits)

text \<open>
  What the protocol relies on: Redis is not restarted, and the filter reports absent only who is absent.
\<close>

definition fair :: "'d event \<Rightarrow> 'd system \<Rightarrow> bool" where
  "fair e s \<longleftrightarrow>
     (case e of
        Restart \<Rightarrow> False
      | Run i ch \<Rightarrow> ch_absent ch \<longrightarrow> last (rows (world_of s)) = None
      | _ \<Rightarrow> True)"

fun all_fair :: "snap_cfg \<Rightarrow> 'd event list \<Rightarrow> 'd system \<Rightarrow> bool" where
  "all_fair cf [] s = True"
| "all_fair cf (e # es) s = (fair e s \<and> all_fair cf es (sys_step cf e s))"

lemma task_ok_moves: "moves w w' \<Longrightarrow> task_ok w t \<Longrightarrow> task_ok w' t"
proof -
  assume m: "moves w w'" and t: "task_ok w t"
  obtain p g c where [simp]: "t = (p, g, c)" by (cases t) auto
  from t have "g \<le> l1_floor w p" "pc_ok p g c w" by (simp_all add: task_ok_def)
  moreover have "l1_floor w p \<le> l1_floor w' p" using m by (simp add: moves_def)
  ultimately show "task_ok w' t" using pc_ok_moves[OF m] by (simp add: task_ok_def)
qed

lemma tasks_ok_moves: "moves w w' \<Longrightarrow> list_all (task_ok w) ts \<Longrightarrow> list_all (task_ok w') ts"
  unfolding list_all_iff using task_ok_moves by blast

lemma world_only:
  assumes "sys_ok cf s" and "moves (world_of s) w" and "world_ok cf w"
  shows "sys_ok cf (s\<lparr>world_of := w\<rparr>)"
  using assms tasks_ok_moves by (auto simp: sys_ok_def)

lemma deliver_good:
  assumes w: "world_ok cf w"
  shows "moves w (deliver cf p w)" and "world_ok cf (deliver cf p w)"
proof -
  have "moves w (deliver cf p w) \<and> world_ok cf (deliver cf p w)"
  proof (cases "inbox w p")
    case Nil
    with w show ?thesis by (simp add: deliver_def)
  next
    case (Cons g gs)
    let ?v = "w\<lparr>inbox := (inbox w)(p := gs)\<rparr>"
    have "list_all (\<lambda>h. h \<le> floor_ix w) (g # gs)" using w Cons by (metis world_ok_def)
    then have g: "g \<le> floor_ix ?v" and gs: "list_all (\<lambda>h. h \<le> floor_ix w) gs" by simp_all
    have v: "world_ok cf ?v" using w gs
      by (auto simp: world_ok_def l1_ok_def since_def epoch_value_def split: option.splits)
    have "moves w ?v" by (simp add: moves_def epoch_value_def)
    with drop_l1_good[OF v g, of p] Cons show ?thesis
      by (auto simp: deliver_def moves_def epoch_value_def)
  qed
  then show "moves w (deliver cf p w)" "world_ok cf (deliver cf p w)" by simp_all
qed

lemma list_all_move: "list_all P ts \<Longrightarrow> P x \<Longrightarrow> list_all P (ts[i := x])"
  by (auto simp: list_all_iff dest!: set_update_subset_insert[THEN subsetD])

lemma floors_below: "list_all (task_ok w) ts \<Longrightarrow> (p, h, d) \<in> set ts \<Longrightarrow> h \<le> l1_floor w p"
  by (auto simp: list_all_iff task_ok_def)

text \<open>The steps of a flight leave the world alone.\<close>

lemma moved_ok:
  assumes s: "sys_ok cf s" and i: "i < length (tasks s)" "tasks s ! i = (p, g, c)" and "\<And>d. c \<noteq> Answered d"
    and "waits_ok (tasks s) (p, g, c')" and "\<And>q k. fl q = Some k \<Longrightarrow> flights s q = Some k" and "\<And>w. pc_ok p g c' w"
  shows "sys_ok cf (s\<lparr>tasks := move_to i c' (tasks s), flights := fl, refs := n\<rparr>)"
proof -
  have "task_ok (world_of s) (p, g, c)" using s i by (metis list_all_length sys_ok_def)
  then have "task_ok (world_of s) (p, g, c')" using assms(7) by (simp add: task_ok_def)
  with assms flights_ok_move[of "tasks s" "flights s" i p g c c' fl] show ?thesis
    by (simp add: sys_ok_def move_to_def list_all_move)
qed

lemma join_ok:
  assumes s: "sys_ok cf s" and i: "i < length (tasks s)" "tasks s ! i = (p, g, Join)"
  shows "sys_ok cf (join_flight i p s)"
proof (cases "flights s p")
  case None
  let ?w = "world_of s" and ?k = "length (tasks s)"
  let ?ts = "tasks s @ [(p, l1_floor ?w p, Look 0)]" and ?fl = "(flights s)(p := Some ?k)"
  let ?s = "s\<lparr>tasks := ?ts, flights := ?fl\<rparr>"
  have ts: "list_all (task_ok ?w) (tasks s)" and fl: "flights_ok (tasks s) (flights s)" using s by (simp_all add: sys_ok_def)
  have "flights_ok ?ts ?fl" using flights_ok_append(2)[OF fl] floors_below[OF ts] by simp
  then have "sys_ok cf ?s" using s by (simp add: sys_ok_def task_ok_def)
  then have "sys_ok cf (?s\<lparr>tasks := move_to i (Await ?k) (tasks ?s), flights := ?fl, refs := (refs s)(?k := 1)\<rparr>)"
    by (rule moved_ok[where c = Join and p = p and g = g]) (use i in \<open>simp_all add: nth_append\<close>)
  with None i show ?thesis by (simp add: join_flight_def Let_def move_to_def nth_append list_update_append)
next
  case (Some k)
  then have "k < length (tasks s)" "fst (tasks s ! k) = p" using s by (simp_all add: sys_ok_def flights_ok_def)
  then have "sys_ok cf (s\<lparr>tasks := move_to i (Await k) (tasks s), flights := flights s, refs := (refs s)(k := refs s k + 1)\<rparr>)"
    by (intro moved_ok[OF s i]) simp_all
  with Some show ?thesis by (simp add: join_flight_def)
qed

lemma flight_step_ok:
  assumes s: "sys_ok cf s" and i: "i < length (tasks s)" "tasks s ! i = (p, g, c)" and step: "flight_step i p c s = Some s'"
  shows "sys_ok cf s'"
proof -
  have w: "waits_ok (tasks s) (p, g, c)" using s i by (metis flights_ok_def list_all_length sys_ok_def)
  have ended: "sys_ok cf (flight_done i p s)"
    using s by (auto simp: flight_done_def sys_ok_def flights_ok_def)
  have m: "sys_ok cf (s\<lparr>tasks := move_to i c' (tasks s)\<rparr>)"
    if "\<And>d. c \<noteq> Answered d" "waits_ok (tasks s) (p, g, c')" "\<And>w. pc_ok p g c' w" for c'
    using moved_ok[OF s i that(1,2) _ that(3), of "flights s" "refs s"] by simp
  show ?thesis
  proof (cases c)
    case Join
    with s i step join_ok show ?thesis by auto
  next
    case (Await k)
    with step s w m show ?thesis by (auto simp: await_flight_def split: pc.splits)
  next
    case (Leave k r)
    with step have "s' = leave_flight i p k r s" by simp
    moreover have "sys_ok cf (leave_flight i p k r s)"
      unfolding leave_flight_def by (rule moved_ok[OF s i]) (use Leave w in \<open>auto split: option.splits if_splits\<close>)
    ultimately show ?thesis by simp
  qed (use step ended in auto)
qed

lemma cancel_ok: "sys_ok cf s \<Longrightarrow> sys_ok cf (cancel i s)"
proof -
  assume s: "sys_ok cf s"
  show ?thesis
  proof (cases "\<exists>k. i < length (tasks s) \<and> snd (snd (tasks s ! i)) = Await k")
    case True
    then obtain p g k where i: "i < length (tasks s)" "tasks s ! i = (p, g, Await k)" by (metis prod.collapse)
    have "waits_ok (tasks s) (p, g, Await k)" using s i by (metis flights_ok_def list_all_length sys_ok_def)
    then have "sys_ok cf (s\<lparr>tasks := move_to i (Leave k None) (tasks s), flights := flights s, refs := refs s\<rparr>)"
      by (intro moved_ok[OF s i]) simp_all
    with i show ?thesis by (simp add: cancel_def)
  next
    case False
    with s show ?thesis by (auto simp: cancel_def split: pc.splits)
  qed
qed

lemma step_ok:
  assumes s: "sys_ok cf s" and f: "fair e s"
  shows "sys_ok cf (sys_step cf e s)"
proof -
  let ?w = "world_of s"
  have w: "world_ok cf ?w" and ts: "list_all (task_ok ?w) (tasks s)" and fl: "flights_ok (tasks s) (flights s)"
    using s by (simp_all add: sys_ok_def)
  have app: "flights_ok (tasks s @ [(p, l1_floor ?w p, c)]) (flights s)"
    if "waits_ok (tasks s @ [(p, l1_floor ?w p, c)]) (p, l1_floor ?w p, c)" for p c
    by (rule flights_ok_append(1)[OF fl that floors_below[OF ts]])
  show ?thesis
  proof (cases e)
    case (Begin_read p)
    with s app[of p "Look 1"] show ?thesis by (simp add: sys_ok_def task_ok_def)
  next
    case (Begin_invalidation p)
    with s app[of p Inval_exec] show ?thesis by (simp add: sys_ok_def task_ok_def)
  next
    case (Cancel i)
    with s cancel_ok show ?thesis by simp
  next
    case (Run i ch)
    show ?thesis
    proof (cases "i < length (tasks s)")
      case True
      obtain p g c where t: "tasks s ! i = (p, g, c)" by (cases "tasks s ! i") auto
      then have tok: "task_ok ?w (p, g, c)" using ts True by (metis list_all_length)
      obtain c' w' where a: "advance cf p ch c ?w = (c', w')" by (cases "advance cf p ch c ?w")
      have "last (rows ?w) = None" if "ch_absent ch" using f Run that by (simp add: fair_def)
      with advance_good[OF w tok, of ch] a have "good cf p g ?w (c', w')" by simp
      then have g: "moves ?w w'" "world_ok cf w'" "pc_ok p g c' w'" by (simp_all add: good_def)
      have "task_ok w' (p, g, c')" using task_ok_moves[OF g(1) tok] g(3) by (simp add: task_ok_def)
      then have ts': "list_all (task_ok w') ((tasks s)[i := (p, g, c')])"
        using tasks_ok_moves[OF g(1) ts] by (rule list_all_move[rotated])
      have wk: "waits_ok (tasks s) (p, g, c)" using fl t True by (metis flights_ok_def list_all_length)
      show ?thesis
      proof (cases "flight_step i p c s")
        case None
        have "\<And>d. c \<noteq> Answered d" using None by auto
        moreover have "waits_ok (tasks s) (p, g, c')" using advance_waits[OF None wk, of cf ch ?w] a by simp
        ultimately have "flights_ok ((tasks s)[i := (p, g, c')]) (flights s)" using flights_ok_move[OF fl True t] by simp
        with None True Run t a g(2) ts' show ?thesis by (simp add: sys_ok_def)
      next
        case (Some s')
        with flight_step_ok[OF s True t] True Run t show ?thesis by simp
      qed
    next
      case False
      with s Run show ?thesis by simp
    qed
  next
    case (Commit r)
    have "world_ok cf (?w\<lparr>rows := rows ?w @ [r]\<rparr>)"
    proof -
      have "since g (?w\<lparr>rows := rows ?w @ [r]\<rparr>) P" if "since g ?w P" for g P using that by (rule since_rows) simp
      then have "l1_ok cf (?w\<lparr>rows := rows ?w @ [r]\<rparr>) p" if "l1_ok cf ?w p" for p
        using that unfolding l1_ok_def by (auto elim!: pc.shows_mono)
      with w show ?thesis
        by (auto simp: world_ok_def epoch_value_def split: option.splits intro: since_rows)
    qed
    with s Commit show ?thesis by (simp add: world_only moves_def epoch_value_def)
  next
    case Expire
    have "world_ok cf (?w\<lparr>snap := None\<rparr>)" using w by (simp add: world_ok_def l1_ok_def since_def epoch_value_def)
    with s Expire show ?thesis by (simp add: world_only moves_def epoch_value_def)
  next
    case (Deliver p)
    with s w show ?thesis by (simp add: world_only deliver_good)
  next
    case (Lose p)
    let ?v = "?w\<lparr>inbox := (inbox ?w)(p := tl (inbox ?w p))\<rparr>"
    have "list_all (\<lambda>h. h \<le> floor_ix ?w) (tl (inbox ?w p))"
      using w by (cases "inbox ?w p") (auto simp: world_ok_def dest!: spec[of _ p])
    then have "world_ok cf ?v" using w
      by (auto simp: world_ok_def l1_ok_def since_def epoch_value_def split: option.splits)
    with s Lose show ?thesis by (simp add: world_only moves_def epoch_value_def)
  next
    case (L1_other p op)
    show ?thesis
    proof (cases "snap_key cf \<in> op_keys op")
      case False
      let ?c = "snd (l1_step op (clock ?w) (l1 ?w p))"
      have "l1_entries (snap_key cf) ?c \<subseteq> l1_entries (snap_key cf) (l1 ?w p)" "l1_revision (l1 ?w p) \<le> l1_revision ?c"
        using l1_entries_other[OF False, of "clock ?w" "l1 ?w p"] by simp_all
      moreover have "pc.shows_only (snap_key cf) (entry_ok ?w p) (l1 ?w p)" using w by (simp add: world_ok_def l1_ok_entry)
      ultimately have "moves ?w (set_l1 p ?c ?w)" "world_ok cf (set_l1 p ?c ?w)"
        using set_l1_good[OF w, of p ?c] by (auto simp: pc.shows_only_def)
      with s L1_other False show ?thesis by (simp add: world_only)
    qed (use s L1_other in simp)
  next
    case (Tick n)
    have "world_ok cf (?w\<lparr>clock := clock ?w + int n\<rparr>)"
      using w by (auto simp: world_ok_def l1_ok_def since_def epoch_value_def split: option.splits)
    with s Tick show ?thesis by (simp add: world_only moves_def epoch_value_def)
  next
    case Restart
    with f show ?thesis by (simp add: fair_def)
  qed
qed

lemma run_ok: "sys_ok cf s \<Longrightarrow> all_fair cf es s \<Longrightarrow> sys_ok cf (sys_run cf es s)"
  by (induction cf es s rule: sys_run.induct) (simp_all add: step_ok)

definition fresh_system :: "'d row list \<Rightarrow> (nat \<Rightarrow> nat) \<Rightarrow> 'd system" where
  "fresh_system rs m =
     \<lparr>world_of = \<lparr>rows = rs, snap = None, epoch = None, writes = 0, clock = 0,
        l1 = (\<lambda>p. \<lparr>l1_data = [], l1_maxsize = m p, l1_revision = 0\<rparr>), inbox = (\<lambda>_. []), floor_ix = 0, l1_floor = (\<lambda>_. 0)\<rparr>,
      tasks = [], flights = (\<lambda>_. None), refs = (\<lambda>_. 0)\<rparr>"

lemma fresh_ok: "rs \<noteq> [] \<Longrightarrow> sys_ok cf (fresh_system rs m)"
  by (simp add: sys_ok_def fresh_system_def world_ok_def l1_ok_def pc.shows_only_def l1_entries_def epoch_value_def flights_ok_def)

text \<open>With the setting off there are no flights.\<close>

fun in_flight :: "'d pc \<Rightarrow> bool" where
  "in_flight Join = True"
| "in_flight (Await k) = True"
| "in_flight (Leave k r) = True"
| "in_flight (Served k d) = True"
| "in_flight _ = False"

lemma advance_alone:
  assumes "\<not> singleflight_on cf" and "\<not> in_flight c"
  shows "\<not> in_flight (fst (advance cf p ch c w))"
  using assms
  by (cases c)
    (auto simp: look_def fetched_def missed_def epoch_get_def epoch_init_def epoch_reread_def load_row_def watch_def get_epoch_def
      get_snap_def check_snap_def execute_def executed_def inval_exec_def inval_l1_def inval_publish_def Let_def
      split: option.splits raw.splits nat.splits prod.splits)

definition all_alone :: "'d system \<Rightarrow> bool" where
  "all_alone s \<longleftrightarrow> list_all (\<lambda>(p, g, c). \<not> in_flight c) (tasks s)"

lemma step_alone:
  assumes off: "\<not> singleflight_on cf" and s: "all_alone s"
  shows "all_alone (sys_step cf e s)"
proof (cases e)
  case (Run i ch)
  show ?thesis
  proof (cases "i < length (tasks s)")
    case True
    obtain p g c where t: "tasks s ! i = (p, g, c)" by (cases "tasks s ! i") auto
    with s True have c: "\<not> in_flight c" by (metis (mono_tags, lifting) all_alone_def case_prodD list_all_length)
    show ?thesis
    proof (cases "flight_step i p c s")
      case None
      with s True t Run advance_alone[OF off c, of p ch "world_of s"] show ?thesis
        by (auto simp: all_alone_def split: prod.splits intro!: list_all_move)
    next
      case (Some s')
      with c have "s' = flight_done i p s" by (cases c) auto
      with Some s True t Run show ?thesis by (simp add: all_alone_def flight_done_def)
    qed
  qed (use s Run in simp)
next
  case (Cancel i)
  have "\<not> in_flight (snd (snd (tasks s ! i)))" if "i < length (tasks s)"
    using s that by (simp add: all_alone_def list_all_length split_beta)
  with s Cancel show ?thesis by (auto simp: cancel_def split: pc.splits)
qed (use s in \<open>simp_all add: all_alone_def\<close>)

lemma run_alone: "\<not> singleflight_on cf \<Longrightarrow> all_alone s \<Longrightarrow> all_alone (sys_run cf es s)"
  by (induction cf es s rule: sys_run.induct) (simp_all add: step_alone)

text \<open>
  How recent an answer is.  A reader that found the snapshot in a cache, or loaded it itself, or waited for a flight that
  began after it did, answers with a row that was not known to be superseded when it began; one that joined a flight
  under way answers with a row that was not known to be superseded when that flight began.
\<close>

definition answers_ok :: "snap_cfg \<Rightarrow> 'd world \<Rightarrow> 'd task list \<Rightarrow> nat \<Rightarrow> bool" where
  "answers_ok cf w ts i \<longleftrightarrow>
     (case ts ! i of
        (p, g, Answered d) \<Rightarrow> since g w (answers_row d)
      | (p, g, Served k d) \<Rightarrow>
          singleflight_on cf \<and> k < length ts \<and> fst (ts ! k) = p \<and> since (if i < k then g else fst (snd (ts ! k))) w (answers_row d)
      | _ \<Rightarrow> True)"

lemma sys_answers:
  assumes "sys_ok cf s" and alone: "singleflight_on cf \<or> all_alone s" and i: "i < length (tasks s)"
  shows "answers_ok cf (world_of s) (tasks s) i"
proof -
  let ?w = "world_of s" and ?ts = "tasks s"
  have ts: "list_all (task_ok ?w) ?ts" and fl: "flights_ok ?ts (flights s)" using assms(1) by (simp_all add: sys_ok_def)
  obtain p g c where t: "?ts ! i = (p, g, c)" by (cases "?ts ! i") auto
  show ?thesis
  proof (cases c)
    case (Answered d)
    have "task_ok ?w (p, g, c)" using ts i t by (metis list_all_length)
    with Answered t show ?thesis by (simp add: answers_ok_def task_ok_def)
  next
    case (Served k d)
    have "waits_ok ?ts (p, g, c)" using fl i t by (metis flights_ok_def list_all_length)
    with Served have k: "k < length ?ts" "fst (?ts ! k) = p" "snd (snd (?ts ! k)) = Answered d" by simp_all
    then obtain h where h: "?ts ! k = (p, h, Answered d)" by (metis prod.collapse)
    have "task_ok ?w (p, h, Answered d)" using ts k(1) h by (metis list_all_length)
    then have "since h ?w (answers_row d)" by (simp add: task_ok_def)
    moreover have "g \<le> h" if "i < k" using fl that k(1) t h unfolding flights_ok_def by (metis fst_conv snd_conv)
    ultimately have "since (if i < k then g else h) ?w (answers_row d)" using since_down by auto
    moreover have "singleflight_on cf"
      using alone i t Served by (auto simp: all_alone_def list_all_length dest!: spec[of _ i])
    ultimately show ?thesis using Served t h k(1) by (cases "i < k") (simp_all add: answers_ok_def)
  qed (simp_all add: answers_ok_def t)
qed

text \<open>C30: What was invalidated stays invalid.  However reads, fills, invalidations, changes of the user, expiries, cancelled readers,
  lost commands, replies and messages interleave between any number of processes, as long as Redis keeps its keys and the filter
  reports absent only who is absent: the snapshot in Redis shows a
  row that was current when the last invalidation ran, or a later one; the entry of a process cache shows one that was current
  at the last invalidation that reached the process, or a later one; and an answer is at least as recent as what the
  reader's process had been told was superseded when the read began, or, for a reader that joined a flight already under
  way in its process, when that flight began.  With \<open>singleflight_on\<close> off there are no flights.\<close>
theorem invalidated_stays_invalid:
  assumes "rs \<noteq> []" and "all_fair cf es (fresh_system rs m)"
  shows "let s = sys_run cf es (fresh_system rs m); w = world_of s
     in (case snap w of None \<Rightarrow> True | Some raw \<Rightarrow> since (floor_ix w) w (shows_row raw))
        \<and> (\<forall>(sv, d)\<in>l1_entries (snap_key cf) (l1 w p). since (l1_floor w p) w (\<lambda>row. row = Some (d, sv)))
        \<and> (\<forall>i<length (tasks s). answers_ok cf w (tasks s) i)"
proof -
  define s where "s = sys_run cf es (fresh_system rs m)"
  have ok: "sys_ok cf s" unfolding s_def by (rule run_ok[OF fresh_ok[OF assms(1)] assms(2)])
  then have w: "world_ok cf (world_of s)" by (simp add: sys_ok_def)
  have "case snap (world_of s) of None \<Rightarrow> True | Some raw \<Rightarrow> since (floor_ix (world_of s)) (world_of s) (shows_row raw)"
    using w by (simp add: world_ok_def)
  moreover have "\<forall>(sv, d)\<in>l1_entries (snap_key cf) (l1 (world_of s) p). since (l1_floor (world_of s) p) (world_of s) (\<lambda>row. row = Some (d, sv))"
    using w by (auto simp: world_ok_def l1_ok_def pc.shows_only_def)
  moreover have "singleflight_on cf \<or> all_alone s"
    using run_alone[of cf "fresh_system rs m" es] by (auto simp: s_def all_alone_def fresh_system_def)
  ultimately show ?thesis using sys_answers[OF ok] unfolding s_def[symmetric] Let_def by simp
qed

definition snap0 :: snap_cfg where "snap0 = \<lparr>snap_key = ''user:snap:1'', l1_on = True, singleflight_on = True\<rparr>"

definition fine :: choice where "fine = \<lparr>ch_ok = True, ch_reply = True, ch_absent = False, ch_ttl = 10\<rparr>"

text \<open>
  A reader that is task \<open>i\<close> and leads a flight, task \<open>Suc i\<close>, that goes all the way to the database, up to the loader's turn
  to write; and then through it, to the answer of the reader.
\<close>

definition reads_row :: "nat \<Rightarrow> nat \<Rightarrow> nat event list" where
  "reads_row p i = Begin_read p # replicate 4 (Run i fine) @ replicate 5 (Run (Suc i) fine)"

definition writes_back :: "nat \<Rightarrow> nat event list" where
  "writes_back i = replicate 6 (Run (Suc i) fine) @ replicate 2 (Run i fine)"

definition invalidates :: "nat \<Rightarrow> nat \<Rightarrow> nat event list" where
  "invalidates p i = Begin_invalidation p # replicate 3 (Run i fine)"

definition history0 :: "nat event list" where
  "history0 = invalidates 0 0 @ reads_row 1 1 @ writes_back 1 @ [Commit (Some (8, Some 20))] @ invalidates 0 3 @ [Deliver 1, Deliver 1]
     @ reads_row 1 4 @ writes_back 4"

definition system0 :: "nat system" where
  "system0 = fresh_system [Some (7, Some 10)] (\<lambda>_. 4)"

lemmas snap_eval = snap0_def fine_def reads_row_def writes_back_def invalidates_def system0_def fresh_system_def fair_def
  look_def fetched_def missed_def epoch_get_def epoch_init_def epoch_reread_def load_row_def watch_def get_epoch_def
  get_snap_def check_snap_def newer_def execute_def executed_def inval_exec_def inval_l1_def inval_publish_def deliver_def
  drop_l1_def raw_of_def set_l1_def epoch_value_def MAX_CAS_RETRY_def numeral_nat l1_get_def get_at_def l1_pop_def l1_put_last_def
  l1_set_def l1_delete_def l1_set_if_unchanged_def Let_def join_flight_def await_flight_def leave_flight_def flight_done_def
  move_to_def

theorem invalidated_stays_invalid_witness:
  "all_fair snap0 history0 system0
   \<and> snap (world_of (sys_run snap0 history0 system0)) = Some (Envelope (Some 20) (Some 8) False)
   \<and> floor_ix (world_of (sys_run snap0 history0 system0)) = 1
   \<and> since 1 (world_of (sys_run snap0 history0 system0)) (shows_row (Envelope (Some 20) (Some 8) False))
   \<and> tasks (sys_run snap0 history0 system0) ! 4 = (1, 1, Served 5 (Some 8))
   \<and> answers_ok snap0 (world_of (sys_run snap0 history0 system0)) (tasks (sys_run snap0 history0 system0)) 4"
proof -
  have ok: "all_fair snap0 history0 system0" by (simp add: history0_def snap_eval)
  moreover have run: "snap (world_of (sys_run snap0 history0 system0)) = Some (Envelope (Some 20) (Some 8) False)"
    "floor_ix (world_of (sys_run snap0 history0 system0)) = 1"
    by (simp_all add: history0_def snap_eval)
  moreover have "tasks (sys_run snap0 history0 system0) ! 4 = (1, 1, Served 5 (Some 8))"
    "4 < length (tasks (sys_run snap0 history0 system0))"
    by (simp_all add: history0_def snap_eval)
  ultimately show ?thesis
    using invalidated_stays_invalid[of "[Some (7, Some 10)]" snap0 history0 "\<lambda>_. 4"]
    by (simp add: Let_def system0_def)
qed

text \<open>A flight answers those who come too late for it.  A reader of process 0 begins after the user was changed and process 0
  itself has run the whole invalidation; no cache holds the old row any more, but a flight of the process that read it before the
  change is still under way.  The reader joins it and answers with the row it knew to be superseded.  Without the single flight
  the reader loads for itself, so this cannot be: by C30 every answer is then as recent as the reader's beginning.\<close>
theorem late_reader_shares_old_row:
  "\<exists>es. all_fair snap0 es system0
     \<and> (let s = sys_run snap0 es system0
         in snap (world_of s) = None \<and> floor_ix (world_of s) = 1 \<and> l1_floor (world_of s) 0 = 1
            \<and> tasks s ! 4 = (0, 1, Served 2 (Some 7)) \<and> \<not> since 1 (world_of s) (answers_row (Some 7)))"
proof -
  let ?es = "invalidates 1 0 @ reads_row 0 1 @ [Commit (Some (8, Some 20))] @ invalidates 0 3
     @ Begin_read 0 # replicate 4 (Run 4 fine) @ writes_back 1 @ replicate 2 (Run 4 fine)"
  have "all_fair snap0 ?es system0" by (simp add: snap_eval)
  moreover have "snap (world_of (sys_run snap0 ?es system0)) = None" "floor_ix (world_of (sys_run snap0 ?es system0)) = 1"
    "l1_floor (world_of (sys_run snap0 ?es system0)) 0 = 1" "tasks (sys_run snap0 ?es system0) ! 4 = (0, 1, Served 2 (Some 7))"
    "rows (world_of (sys_run snap0 ?es system0)) = [Some (7, Some 10), Some (8, Some 20)]"
    by (simp_all add: snap_eval)
  ultimately show ?thesis
    by (intro exI[of _ ?es]) (simp add: Let_def since_def answers_row_def)
qed

text \<open>A restart of Redis brings the invalidated back.  An invalidation that finds no epoch sets it to one, before the restart
  and after it alike; a reader that took its epoch and its row before the restart, and writes after the change and its
  invalidation, passes both conditions, and the superseded row is in the cache until it expires.\<close>
theorem restart_revives:
  "\<exists>es. let w = world_of (sys_run snap0 es system0)
     in filter (\<lambda>e. e = Restart) es = [Restart] \<and> floor_ix w = 1
        \<and> snap w = Some (Envelope (Some 10) (Some 7) False)
        \<and> \<not> since (floor_ix w) w (shows_row (Envelope (Some 10) (Some 7) False))"
proof -
  let ?es = "invalidates 0 0 @ reads_row 1 1 @ [Restart, Commit (Some (8, Some 20))] @ invalidates 0 3 @ [Deliver 1] @ writes_back 1"
  have "filter (\<lambda>e. e = Restart) ?es = [Restart]" by (simp add: snap_eval)
  moreover have "floor_ix (world_of (sys_run snap0 ?es system0)) = 1"
    "snap (world_of (sys_run snap0 ?es system0)) = Some (Envelope (Some 10) (Some 7) False)"
    "rows (world_of (sys_run snap0 ?es system0)) = [Some (7, Some 10), Some (8, Some 20)]"
    by (simp_all add: snap_eval)
  ultimately show ?thesis
    by (intro exI[of _ ?es]) (simp add: Let_def since_def shows_row_def)
qed

section \<open>Reading many at once\<close>

text \<open>
  What a reply of Redis says, for one user read alone and for one of many: \<open>read_snaps_state\<close> asks the filter before it
  asks Redis, and looks into the parsed reply outside its exception handler.
\<close>

datatype 'd verdict = Says_absent | Unknown | Found 'd | Breaks_off

definition read_reply :: "bool \<Rightarrow> 'd raw option \<Rightarrow> 'd verdict" where
  "read_reply absent raw =
     (case raw of
        None \<Rightarrow> if absent then Says_absent else Unknown
      | Some (Envelope sv data neg) \<Rightarrow>
          if neg then Says_absent else (case data of None \<Rightarrow> Unknown | Some d \<Rightarrow> Found d)
      | _ \<Rightarrow> Unknown)"

definition batch_reply :: "bool \<Rightarrow> 'd raw option \<Rightarrow> 'd verdict" where
  "batch_reply absent raw =
     (if absent then Says_absent
      else case raw of
             None \<Rightarrow> Unknown
           | Some Not_json \<Rightarrow> Unknown
           | Some Not_object \<Rightarrow> Breaks_off
           | Some (Envelope sv data neg) \<Rightarrow>
               if neg then Says_absent else (case data of None \<Rightarrow> Unknown | Some d \<Rightarrow> Found d))"

lemma fetched_reply:
  "fst (fetched cf p ch n r raw w) =
     (case read_reply (ch_absent ch) raw of Says_absent \<Rightarrow> Answered None | Found d \<Rightarrow> Answered (Some d) | _ \<Rightarrow> missed cf n)"
  by (auto simp: fetched_def read_reply_def split: option.splits raw.splits)

text \<open>Reading many at once is reading each alone, except twice: a cached user whom the filter does not know is found
  alone and absent among many, and a reply that is JSON but no object is a miss alone and breaks off the whole batch.\<close>
theorem batch_reads_alike:
  "batch_reply absent raw = read_reply absent raw
   \<longleftrightarrow> \<not> (absent \<and> raw \<noteq> None \<and> read_reply absent raw \<noteq> Says_absent) \<and> \<not> (\<not> absent \<and> raw = Some Not_object)"
  by (auto simp: batch_reply_def read_reply_def split: option.splits raw.splits)

section \<open>Source versions\<close>

text \<open>\<open>int(timestamp) * 1000000 + microsecond\<close>: the first part is cut towards zero.\<close>

definition version_of_updated_at :: "instant \<Rightarrow> int" where
  "version_of_updated_at t = sgn t * (\<bar>t\<bar> div 1000000) * 1000000 + t mod 1000000"

lemma version_of_updated_at_exact: "0 \<le> t \<Longrightarrow> version_of_updated_at t = t"
  by (simp add: version_of_updated_at_def sgn_if)

end
