(* ===== verification/Forum_Store.thy ===== *)
theory Forum_Store
  imports Content_Store Exam "HOL-Library.AList" "HOL-Library.Product_Lexorder"
begin

text \<open>
  The database of the community (\<open>app/modules/content/models.py\<close>, \<open>comment/models.py\<close>, \<open>interaction/models.py\<close>,
  \<open>feed/models.py\<close>): boards with their applications and bans, content items with likes, comments and favourites, the history of
  views, follows, reports, and the time line that is written ahead; the generic repository (\<open>core/db/repository.py\<close>) as far
  as they use it; and the session of a request.  The levels and names of accounts are what the snapshots of the authentication
  service say; exams and columns are tables of other modules in the same database.
\<close>

section \<open>Tables\<close>

record content_like =
  like_content_id :: uuid
  like_user_id :: uuid
  like_created_at :: instant

record content_comment =
  cm_id :: uuid
  cm_content_id :: uuid
  cm_user_id :: uuid
  cm_content :: string
  cm_floor_number :: int
  cm_parent_id :: "uuid option"
  cm_like_count :: int
  cm_created_at :: instant
  cm_deleted_at :: "instant option"

record comment_like =
  cml_comment_id :: uuid
  cml_user_id :: uuid
  cml_created_at :: instant

record favorite =
  fav_content_id :: uuid
  fav_user_id :: uuid
  fav_created_at :: instant

record view_log =
  vl_id :: uuid
  vl_user_id :: uuid
  vl_content_id :: uuid
  vl_viewed_at :: instant

record board_application =
  ba_id :: uuid
  ba_applicant_id :: uuid
  ba_title :: string
  ba_description :: string
  ba_reason :: string
  ba_slug :: string
  ba_status :: string
  ba_reviewer_id :: "uuid option"
  ba_review_note :: "string option"
  ba_created_at :: instant
  ba_reviewed_at :: "instant option"

record board_ban =
  bb_id :: uuid
  bb_board_id :: uuid
  bb_user_id :: uuid
  bb_created_by :: uuid
  bb_reason :: string
  bb_expires_at :: instant
  bb_created_at :: instant

text \<open>\<open>UserFollow\<close> and \<open>BoardFollow\<close> have the same columns: who follows whom or what.\<close>

record follow =
  fw_id :: uuid
  fw_follower_id :: uuid
  fw_target_id :: uuid
  fw_created_at :: instant
  fw_deleted_at :: "instant option"

record report =
  rpt_id :: uuid
  rpt_type :: string
  rpt_target_id :: string
  rpt_target_title :: string
  rpt_reporter_id :: "uuid option"
  rpt_reporter_name :: string
  rpt_reason :: string
  rpt_status :: string

text \<open>An item of the time line of \<open>fi_user_id\<close>; the score, a float, is left out.\<close>

record feed_item =
  fi_id :: uuid
  fi_user_id :: uuid
  fi_item_type :: string
  fi_source_id :: uuid
  fi_author_id :: "uuid option"
  fi_board_id :: "uuid option"
  fi_title :: string
  fi_content_preview :: string
  fi_url :: string
  fi_created_at :: instant

record fanout_state =
  fs_source :: string
  fs_last_created_at :: instant
  fs_last_id :: "uuid option"

text \<open>Of a column only what content asks for.\<close>

record column_row =
  col_id :: uuid
  col_title :: string
  col_owner_id :: uuid

datatype counter = Like_count | Comment_count | Bookmark_count

text \<open>What becomes of a command sent to Redis.\<close>

datatype redis_reply = Replies | Unreached | Reply_lost

record forum_db = content_db +
  counters_write_through :: bool
  content_likes :: "content_like list"
  content_comments :: "content_comment list"
  content_comment_likes :: "comment_like list"
  interaction_favorites :: "favorite list"
  interaction_view_logs :: "view_log list"
  board_applications :: "board_application list"
  board_bans :: "board_ban list"
  user_follows :: "follow list"
  board_follows :: "follow list"
  reports :: "report list"
  feed_items :: "feed_item list"
  feed_fanout_state :: "fanout_state list"
  forum_exams :: "exam list"
  forum_certificates :: "exam_certificate list"
  columns :: "column_row list"
  account_level_of :: "uuid \<rightharpoonup> string"
  display_name_of :: "uuid \<rightharpoonup> string"
  pending_counts :: "((counter \<times> uuid) \<times> int) list"
  redis_replies :: "nat \<Rightarrow> redis_reply"
  redis_ix :: nat
  last_corrected :: "uuid set"
  repeated_total :: nat

section \<open>The session\<close>

text \<open>
  \<open>get_session\<close> and the sessions of the jobs: what Redis was told, the variables of the process and the identifiers drawn
  stay when the database is rolled back.
\<close>

definition forum_roll_back :: "'s forum_db_scheme \<Rightarrow> 's forum_db_scheme \<Rightarrow> 's forum_db_scheme" where
  "forum_roll_back before s =
     before\<lparr>cache_fx := cache_fx s, pk_ix := pk_ix s, hex_ix := hex_ix s, pending_counts := pending_counts s,
       redis_ix := redis_ix s, last_corrected := last_corrected s, repeated_total := repeated_total s\<rparr>"

definition forum_session ::
    "(string \<times> errcode) list \<Rightarrow> ('s forum_db_scheme, 'a) act \<Rightarrow> ('s forum_db_scheme, 'a) act" where
  "forum_session reg work s =
     (case work s of
        (Inr a, s') \<Rightarrow> (Inr a, s')
      | (Inl e, s') \<Rightarrow> (Inl (session_exc reg e), forum_roll_back s s'))"

definition redis_call :: "'s forum_db_scheme \<Rightarrow> redis_reply \<times> 's forum_db_scheme" where
  "redis_call s = (redis_replies s (redis_ix s), s\<lparr>redis_ix := Suc (redis_ix s)\<rparr>)"

definition emitA :: "cache_effect \<Rightarrow> ('s core_db_scheme, unit) act" where
  "emitA e = modA (emit_fx e)"

text \<open>\<open>check_owner\<close> on what the row found has in its column.\<close>

definition check_row_owner :: "current_user \<Rightarrow> uuid option option \<Rightarrow> permission \<Rightarrow> 'r rbac_db_scheme \<Rightarrow> exc + bool" where
  "check_row_owner cur row p rb =
     (case row of
        None \<Rightarrow> Inl (BizError (CommonErr common_err.FORBIDDEN))
      | Some owner_id \<Rightarrow> check_owner_id cur owner_id p rb)"

section \<open>Items and their counters\<close>

text \<open>\<open>AsyncRepository.get\<close> leaves out what is deleted; an update sets \<open>updated_at\<close> unless it says otherwise.\<close>

definition item_by_id :: "uuid \<Rightarrow> 's content_db_scheme \<Rightarrow> content_item option" where
  "item_by_id i s = find (\<lambda>c. ci_id c = i) (content_items s)"

definition active_item :: "uuid \<Rightarrow> 's content_db_scheme \<Rightarrow> content_item option" where
  "active_item i s = find (\<lambda>c. ci_id c = i \<and> ci_deleted_at c = None) (content_items s)"

definition write_item :: "uuid \<Rightarrow> (content_item \<Rightarrow> content_item) \<Rightarrow> 's content_db_scheme \<Rightarrow> 's content_db_scheme" where
  "write_item i f s = s\<lparr>content_items := map (\<lambda>c. if ci_id c = i then f c else c) (content_items s)\<rparr>"

definition update_item :: "uuid \<Rightarrow> (content_item \<Rightarrow> content_item) \<Rightarrow> 's content_db_scheme \<Rightarrow> 's content_db_scheme" where
  "update_item i f s = write_item i (\<lambda>c. f c\<lparr>ci_updated_at := now s\<rparr>) s"

definition get_item_or_raise :: "uuid \<Rightarrow> ('s content_db_scheme, content_item) act" where
  "get_item_or_raise i s = (optR (BizError (ContentErr content_err.CONTENT_NOT_FOUND)) (active_item i s), s)"

text \<open>The row stays locked until the end of the transaction; requests here run one after another.\<close>

definition lock_active :: "uuid \<Rightarrow> ('s content_db_scheme, unit) act" where
  "lock_active i s = (if active_item i s = None then Inl (BizError (ContentErr content_err.CONTENT_NOT_FOUND)) else Inr (), s)"

fun counter_of :: "counter \<Rightarrow> content_item \<Rightarrow> int" where
  "counter_of Like_count c = ci_like_count c"
| "counter_of Comment_count c = ci_comment_count c"
| "counter_of Bookmark_count c = ci_bookmark_count c"

fun set_counter :: "counter \<Rightarrow> int \<Rightarrow> content_item \<Rightarrow> content_item" where
  "set_counter Like_count n c = c\<lparr>ci_like_count := n\<rparr>"
| "set_counter Comment_count n c = c\<lparr>ci_comment_count := n\<rparr>"
| "set_counter Bookmark_count n c = c\<lparr>ci_bookmark_count := n\<rparr>"

text \<open>The rows that a counter counts.\<close>

definition like_rows :: "uuid \<Rightarrow> 's forum_db_scheme \<Rightarrow> content_like list" where
  "like_rows i s = filter (\<lambda>k. like_content_id k = i) (content_likes s)"

definition comment_rows :: "uuid \<Rightarrow> 's forum_db_scheme \<Rightarrow> content_comment list" where
  "comment_rows i s = filter (\<lambda>m. cm_content_id m = i \<and> cm_deleted_at m = None) (content_comments s)"

definition favorite_rows :: "uuid \<Rightarrow> 's forum_db_scheme \<Rightarrow> favorite list" where
  "favorite_rows i s = filter (\<lambda>f. fav_content_id f = i) (interaction_favorites s)"

definition comment_like_rows :: "uuid \<Rightarrow> 's forum_db_scheme \<Rightarrow> comment_like list" where
  "comment_like_rows i s = filter (\<lambda>k. cml_comment_id k = i) (content_comment_likes s)"

fun real_count :: "counter \<Rightarrow> uuid \<Rightarrow> 's forum_db_scheme \<Rightarrow> int" where
  "real_count Like_count i s = int (length (like_rows i s))"
| "real_count Comment_count i s = int (length (comment_rows i s))"
| "real_count Bookmark_count i s = int (length (favorite_rows i s))"

section \<open>An empty community\<close>

definition forum0 :: forum_db where
  "forum0 = content_db.extend (points_db.extend (points_db0\<lparr>message_bus_enabled := False\<rparr>) (content_db.fields False [] []))
     (forum_db.fields True [] [] [] [] [] [] [] [] [] [] [] [] [] [] [] Map.empty Map.empty [] (\<lambda>_. Replies) 0 {} 0)"

lemma forum0_simps [simp]:
  "now forum0 = 0" "pks forum0 = of_nat" "pk_ix forum0 = 0" "message_bus_enabled forum0 = False" "content_events_enabled forum0 = False"
  "boards forum0 = []" "content_items forum0 = []" "counters_write_through forum0 = True"
  "content_likes forum0 = []" "content_comments forum0 = []" "content_comment_likes forum0 = []" "interaction_favorites forum0 = []"
  "interaction_view_logs forum0 = []" "board_applications forum0 = []" "board_bans forum0 = []" "user_follows forum0 = []"
  "board_follows forum0 = []" "reports forum0 = []" "feed_items forum0 = []" "feed_fanout_state forum0 = []" "forum_exams forum0 = []"
  "forum_certificates forum0 = []" "columns forum0 = []" "account_level_of forum0 = Map.empty" "display_name_of forum0 = Map.empty"
  "pending_counts forum0 = []" "redis_replies forum0 = (\<lambda>_. Replies)" "redis_ix forum0 = 0" "last_corrected forum0 = {}"
  "repeated_total forum0 = 0"
  by (simp_all add: forum0_def points_db.defs content_db.defs forum_db.defs points_db0_def core_db.defs db0_def)

end
