(* ===== verification/Content_Counters.thy ===== *)
theory Content_Counters
  imports Forum_Store
begin

text \<open>
  The counters of content items and comments (\<open>app/modules/content/counters.py\<close>, \<open>comment/counters.py\<close>, \<open>core/counters.py\<close>,
  \<open>content/tasks.py\<close>): written with the row they count or, with the setting switched off, collected in Redis and flushed; and
  the reconciliation that recounts the rows window by window, with what it repairs.
\<close>

section \<open>Counters\<close>

text \<open>\<open>write_through_bump\<close>: one \<open>UPDATE ... RETURNING\<close>; deleted items count on.\<close>

definition write_through_bump :: "uuid \<Rightarrow> counter \<Rightarrow> int \<Rightarrow> ('s forum_db_scheme, int) act" where
  "write_through_bump i f delta s =
     (case item_by_id i s of
        None \<Rightarrow> (Inl (BizError (ContentErr content_err.CONTENT_NOT_FOUND)), s)
      | Some c \<Rightarrow>
          (Inr (max (counter_of f c + delta) 0),
           update_item i (\<lambda>c. set_counter f (max (counter_of f c + delta) 0) c) s))"

text \<open>\<open>core/counters.py\<close>: the differences that are still in Redis, under \<open>count:{field}|{id}\<close>.\<close>

definition pending_of :: "counter \<times> uuid \<Rightarrow> ((counter \<times> uuid) \<times> int) list \<Rightarrow> int" where
  "pending_of k p = (case map_of p k of None \<Rightarrow> 0 | Some n \<Rightarrow> n)"

definition incrby :: "counter \<times> uuid \<Rightarrow> int \<Rightarrow> ((counter \<times> uuid) \<times> int) list \<Rightarrow> ((counter \<times> uuid) \<times> int) list" where
  "incrby k delta p =
     (if k \<in> fst ` set p then map (\<lambda>(k', n). (k', if k' = k then n + delta else n)) p else p @ [(k, delta)])"

definition bump_counter :: "counter \<Rightarrow> uuid \<Rightarrow> int \<Rightarrow> 's forum_db_scheme \<Rightarrow> bool \<times> 's forum_db_scheme" where
  "bump_counter f i delta s =
     (let (r, s) = redis_call s
      in case r of
           Replies \<Rightarrow> (True, s\<lparr>pending_counts := incrby (f, i) delta (pending_counts s)\<rparr>)
         | Unreached \<Rightarrow> (False, s)
         | Reply_lost \<Rightarrow> (False, s\<lparr>pending_counts := incrby (f, i) delta (pending_counts s)\<rparr>))"

definition pending_delta :: "counter \<Rightarrow> uuid \<Rightarrow> 's forum_db_scheme \<Rightarrow> int \<times> 's forum_db_scheme" where
  "pending_delta f i s =
     (let (r, s) = redis_call s in (if r = Replies then pending_of (f, i) (pending_counts s) else 0, s))"

definition bump_content_counter :: "uuid \<Rightarrow> counter \<Rightarrow> int \<Rightarrow> ('s forum_db_scheme, int) act" where
  "bump_content_counter i f delta s =
     (if counters_write_through s then write_through_bump i f delta s
      else case item_by_id i s of
             None \<Rightarrow> (Inl (BizError (ContentErr content_err.CONTENT_NOT_FOUND)), s)
           | Some c \<Rightarrow>
               let (in_redis, s) = bump_counter f i delta s
               in if in_redis then (let (n, s) = pending_delta f i s in (Inr (counter_of f c + n), s))
                  else write_through_bump i f delta s)"

definition read_count :: "uuid \<Rightarrow> counter \<Rightarrow> ('s forum_db_scheme, int) act" where
  "read_count i f s =
     (case item_by_id i s of
        None \<Rightarrow> (Inl (BizError (ContentErr content_err.CONTENT_NOT_FOUND)), s)
      | Some c \<Rightarrow>
          if counters_write_through s then (Inr (counter_of f c), s)
          else (let (n, s) = pending_delta f i s in (Inr (counter_of f c + n), s)))"

text \<open>
  \<open>drain_counters\<close> takes the keys in the order of the scan; a command that fails ends the scan, and a value whose reply is
  lost is gone.
\<close>

fun drain_keys ::
    "(counter \<times> uuid) list \<Rightarrow> 's forum_db_scheme \<Rightarrow> ((counter \<times> uuid) \<times> int) list \<times> 's forum_db_scheme" where
  "drain_keys [] s = ([], s)"
| "drain_keys (k # ks) s =
     (let (r, s) = redis_call s; n = pending_of k (pending_counts s); s' = s\<lparr>pending_counts := AList.delete k (pending_counts s)\<rparr>
      in case r of
           Unreached \<Rightarrow> ([], s)
         | Reply_lost \<Rightarrow> ([], s')
         | Replies \<Rightarrow> (let (kns, s'') = drain_keys ks s' in (if n \<noteq> 0 then (k, n) # kns else kns, s'')))"

definition drain_counters :: "'s forum_db_scheme \<Rightarrow> ((counter \<times> uuid) \<times> int) list \<times> 's forum_db_scheme" where
  "drain_counters s = drain_keys (map fst (pending_counts s)) s"

text \<open>The number of rows updated; a difference for a row that is gone is dropped.\<close>

fun flush_each :: "((counter \<times> uuid) \<times> int) list \<Rightarrow> 's forum_db_scheme \<Rightarrow> nat \<times> 's forum_db_scheme" where
  "flush_each [] s = (0, s)"
| "flush_each (((f, i), delta) # kns) s =
     (let hit = item_by_id i s \<noteq> None;
          (n, s) = flush_each kns (update_item i (\<lambda>c. set_counter f (max (counter_of f c + delta) 0) c) s)
      in ((if hit then 1 else 0) + n, s))"

definition flush_counters :: "'s forum_db_scheme \<Rightarrow> nat \<times> 's forum_db_scheme" where
  "flush_counters s = (let (drained, s) = drain_counters s in flush_each drained s)"

section \<open>Reconciliation\<close>

fun has_pending_delta_of :: "counter list \<Rightarrow> uuid \<Rightarrow> 's forum_db_scheme \<Rightarrow> bool \<times> 's forum_db_scheme" where
  "has_pending_delta_of [] i s = (False, s)"
| "has_pending_delta_of (f # fs) i s =
     (let (n, s) = pending_delta f i s in if n \<noteq> 0 then (True, s) else has_pending_delta_of fs i s)"

definition has_pending_delta :: "uuid \<Rightarrow> 's forum_db_scheme \<Rightarrow> bool \<times> 's forum_db_scheme" where
  "has_pending_delta = has_pending_delta_of [Like_count, Comment_count, Bookmark_count]"

text \<open>\<open>comment/counters.py\<close>\<close>

definition comment_real_like :: "uuid \<Rightarrow> 's forum_db_scheme \<Rightarrow> int" where
  "comment_real_like j s = int (length (comment_like_rows j s))"

definition reconcile_comment_likes :: "uuid list \<Rightarrow> 's forum_db_scheme \<Rightarrow> nat \<times> 's forum_db_scheme" where
  "reconcile_comment_likes is s =
     (let wrong = (\<lambda>m. cm_content_id m \<in> set is \<and> cm_like_count m \<noteq> comment_real_like (cm_id m) s)
      in (length (filter wrong (content_comments s)),
          s\<lparr>content_comments :=
              map (\<lambda>m. if wrong m then m\<lparr>cm_like_count := comment_real_like (cm_id m) s\<rparr> else m) (content_comments s)\<rparr>))"

text \<open>A row of the window: what the counters say and what the rows say, read by one query.\<close>

type_synonym counts = "int \<times> int \<times> int"

definition counts_of :: "content_item \<Rightarrow> counts" where
  "counts_of c = (ci_like_count c, ci_comment_count c, ci_bookmark_count c)"

definition real_counts :: "uuid \<Rightarrow> 's forum_db_scheme \<Rightarrow> counts" where
  "real_counts i s = (real_count Like_count i s, real_count Comment_count i s, real_count Bookmark_count i s)"

definition reconcile_window :: "nat \<Rightarrow> bool \<Rightarrow> uuid \<Rightarrow> 's forum_db_scheme \<Rightarrow> (uuid \<times> counts \<times> counts) list" where
  "reconcile_window batch_size only_unconverged last_id s =
     map (\<lambda>c. (ci_id c, counts_of c, real_counts (ci_id c) s))
       (take batch_size (sort_key ci_id
         (filter (\<lambda>c. last_id < ci_id c \<and> (only_unconverged \<longrightarrow> ci_counts_reconciled_at c = None)) (content_items s))))"

definition set_counts :: "counts \<Rightarrow> content_item \<Rightarrow> content_item" where
  "set_counts n c = (case n of (l, m, b) \<Rightarrow> c\<lparr>ci_like_count := l, ci_comment_count := m, ci_bookmark_count := b\<rparr>)"

definition correct_item :: "uuid \<Rightarrow> counts \<Rightarrow> 's forum_db_scheme \<Rightarrow> 's forum_db_scheme" where
  "correct_item i n s = write_item i (\<lambda>c. (set_counts n c)\<lparr>ci_counts_reconciled_at := Some (now s)\<rparr>) s"

text \<open>The rows found equal, the rows put right and the state.\<close>

fun reconcile_rows ::
    "(uuid \<times> counts \<times> counts) list \<Rightarrow> 's forum_db_scheme \<Rightarrow> uuid list \<times> uuid list \<times> 's forum_db_scheme" where
  "reconcile_rows [] s = ([], [], s)"
| "reconcile_rows ((i, current, real) # rows) s =
     (if real = current then (let (con, cor, s) = reconcile_rows rows s in (i # con, cor, s))
      else
        let (skip, s) = has_pending_delta i s
        in if skip then reconcile_rows rows s
           else (let (con, cor, s) = reconcile_rows rows (correct_item i real s) in (con, i # cor, s)))"

lemma pending_delta_items [simp]:
  "content_items (snd (pending_delta f i s)) = content_items s"
  by (simp add: pending_delta_def redis_call_def Let_def)

lemma has_pending_of_items: "content_items (snd (has_pending_delta_of fs i s)) = content_items s"
  by (induction fs arbitrary: s) (auto simp: Let_def pending_delta_def redis_call_def split: prod.splits)

lemma has_pending_items [simp]: "content_items (snd (has_pending_delta i s)) = content_items s"
  unfolding has_pending_delta_def by (rule has_pending_of_items)

lemma write_item_ids:
  "(\<And>c. ci_id (f c) = ci_id c) \<Longrightarrow> map ci_id (content_items (write_item i f s)) = map ci_id (content_items s)"
  by (simp add: write_item_def)

lemma set_counts_id [simp]: "ci_id (set_counts n c) = ci_id c"
  by (simp add: set_counts_def split: prod.splits)

lemma correct_item_ids [simp]: "map ci_id (content_items (correct_item i n s)) = map ci_id (content_items s)"
  by (simp add: correct_item_def write_item_ids)

lemma reconcile_rows_ids: "map ci_id (content_items (snd (snd (reconcile_rows rows s)))) = map ci_id (content_items s)"
proof (induction rows s rule: reconcile_rows.induct)
  case (1 s)
  then show ?case by simp
next
  case (2 i current real rows s)
  obtain skip t where p: "has_pending_delta i s = (skip, t)" by fastforce
  have t: "content_items t = content_items s" using has_pending_items[of i s] p by simp
  show ?case using 2 p t by (auto simp: Let_def split: prod.splits)
qed

lemma reconcile_comments_items [simp]: "content_items (snd (reconcile_comment_likes is s)) = content_items s"
  by (simp add: reconcile_comment_likes_def Let_def)

lemma window_last:
  assumes "reconcile_window b u last_id s \<noteq> []"
  shows "fst (last (reconcile_window b u last_id s)) \<in> {i \<in> set (map ci_id (content_items s)). last_id < i}"
proof -
  have "last (reconcile_window b u last_id s) \<in> set (reconcile_window b u last_id s)" using assms by simp
  then show ?thesis by (auto simp: reconcile_window_def dest!: in_set_takeD)
qed

definition beyond :: "uuid \<Rightarrow> 's forum_db_scheme \<Rightarrow> nat" where
  "beyond last_id s = card {i \<in> set (map ci_id (content_items s)). last_id < i}"

lemma beyond_less:
  assumes "i \<in> {i \<in> set (map ci_id (content_items s)). last_id < i}" and "map ci_id (content_items t) = map ci_id (content_items s)"
  shows "beyond i t < beyond last_id s"
  unfolding beyond_def assms(2) by (rule psubset_card_mono) (use assms(1) in auto)

text \<open>
  The loop over the windows: the number of rows read, those found equal, those put right.  It ends because every window moves
  the mark to a later row.
\<close>

function reconcile_loop ::
    "nat \<Rightarrow> bool \<Rightarrow> uuid \<Rightarrow> 's forum_db_scheme \<Rightarrow> nat \<times> uuid list \<times> uuid list \<times> 's forum_db_scheme" where
  "reconcile_loop b u last_id s =
     (let rows = reconcile_window b u last_id s
      in if rows = [] then (0, [], [], s)
         else
           let (con, cor, t) = reconcile_rows rows (snd (reconcile_comment_likes (map fst rows) s));
               (n, con', cor', t') = reconcile_loop b u (fst (last rows)) t
           in (length rows + n, con @ con', cor @ cor', t'))"
  by pat_completeness auto
termination
proof (relation "measure (\<lambda>(b, u, last_id, s). beyond last_id s)")
  fix b u and last_id :: uuid and s :: "'s forum_db_scheme" and rows x con y cor t
  assume rows: "rows = reconcile_window b u last_id s" "rows \<noteq> []"
    and x: "x = reconcile_rows rows (snd (reconcile_comment_likes (map fst rows) s))" "(con, y) = x" "(cor, t) = y"
  have "map ci_id (content_items t) = map ci_id (content_items s)"
    using reconcile_rows_ids[of rows "snd (reconcile_comment_likes (map fst rows) s)"] x by (metis reconcile_comments_items snd_conv)
  then have "beyond (fst (last rows)) t < beyond last_id s"
    using beyond_less[OF window_last[of b u last_id s]] rows by blast
  then show "((b, u, fst (last rows), t), b, u, last_id, s) \<in> measure (\<lambda>(b, u, last_id, s). beyond last_id s)" by simp
qed simp

declare reconcile_loop.simps [simp del]

definition mark_converged :: "uuid list \<Rightarrow> 's forum_db_scheme \<Rightarrow> 's forum_db_scheme" where
  "mark_converged is s =
     s\<lparr>content_items :=
         map (\<lambda>c. if ci_id c \<in> set is then c\<lparr>ci_counts_reconciled_at := Some (now s)\<rparr> else c) (content_items s)\<rparr>"

definition record_oscillation :: "uuid set \<Rightarrow> 's forum_db_scheme \<Rightarrow> 's forum_db_scheme" where
  "record_oscillation corrected s =
     s\<lparr>repeated_total := repeated_total s + card (corrected \<inter> last_corrected s), last_corrected := corrected\<rparr>"

definition reconcile_counts :: "nat \<Rightarrow> bool \<Rightarrow> 's forum_db_scheme \<Rightarrow> (nat \<times> nat) \<times> 's forum_db_scheme" where
  "reconcile_counts batch_size only_unconverged s =
     (let (scanned, con, cor, s) = reconcile_loop batch_size only_unconverged 0 s
      in ((scanned, length cor), record_oscillation (set cor) (mark_converged con s)))"

text \<open>The jobs of \<open>content/tasks.py\<close>, each in a session of its own; the batches have the default size.\<close>

definition flush_content_counters :: "'s forum_db_scheme \<Rightarrow> 's forum_db_scheme" where
  "flush_content_counters s = snd (flush_counters s)"

definition reconcile_content_counts :: "'s forum_db_scheme \<Rightarrow> 's forum_db_scheme" where
  "reconcile_content_counts s = snd (reconcile_counts 500 True s)"

definition reconcile_content_counts_full :: "'s forum_db_scheme \<Rightarrow> 's forum_db_scheme" where
  "reconcile_content_counts_full s = snd (reconcile_counts 500 False s)"

section \<open>What a reconciliation repairs\<close>

text \<open>Everything but the counters and the marks of the reconciliation.\<close>

definition bare_item :: "content_item \<Rightarrow> content_item" where
  "bare_item c = (set_counts (0, 0, 0) c)\<lparr>ci_counts_reconciled_at := None\<rparr>"

definition bare_comment :: "content_comment \<Rightarrow> content_comment" where
  "bare_comment m = m\<lparr>cm_like_count := 0\<rparr>"

definition recounts :: "'s forum_db_scheme \<Rightarrow> 's forum_db_scheme \<Rightarrow> bool" where
  "recounts s t \<longleftrightarrow> counters_write_through t = counters_write_through s \<and> content_likes t = content_likes s \<and> interaction_favorites t = interaction_favorites s
     \<and> content_comment_likes t = content_comment_likes s \<and> pending_counts t = pending_counts s
     \<and> map bare_comment (content_comments t) = map bare_comment (content_comments s)
     \<and> map bare_item (content_items t) = map bare_item (content_items s)"

lemma recounts_refl [simp]: "recounts s s"
  by (simp add: recounts_def)

lemma recounts_trans: "recounts s t \<Longrightarrow> recounts t r \<Longrightarrow> recounts s r"
  by (simp add: recounts_def)

lemma bare_comment_fields [simp]:
  "cm_content_id (bare_comment m) = cm_content_id m" "cm_deleted_at (bare_comment m) = cm_deleted_at m" "cm_id (bare_comment m) = cm_id m"
  by (simp_all add: bare_comment_def)

lemma bare_item_id [simp]: "ci_id (bare_item c) = ci_id c"
  by (simp add: bare_item_def)

lemma filter_length_map:
  assumes "map g xs = map g ys" and "\<And>x. P (g x) = P x"
  shows "length (filter P xs) = length (filter P ys)"
proof -
  have "length (filter P zs) = length (filter P (map g zs))" for zs
    by (induction zs) (auto simp: assms(2))
  then show ?thesis using assms(1) by metis
qed

lemma recounts_real:
  assumes "recounts s t"
  shows "real_counts i t = real_counts i s" and "comment_real_like j t = comment_real_like j s"
    and "map ci_id (content_items t) = map ci_id (content_items s)"
proof -
  have "length (comment_rows i t) = length (comment_rows i s)"
    unfolding comment_rows_def by (rule filter_length_map[where g = bare_comment]) (use assms in \<open>simp_all add: recounts_def\<close>)
  then show "real_counts i t = real_counts i s"
    using assms by (simp add: real_counts_def recounts_def like_rows_def favorite_rows_def)
  show "comment_real_like j t = comment_real_like j s"
    using assms by (simp add: comment_real_like_def comment_like_rows_def recounts_def)
  have "map ci_id (map bare_item (content_items t)) = map ci_id (map bare_item (content_items s))"
    using assms by (simp add: recounts_def)
  then show "map ci_id (content_items t) = map ci_id (content_items s)" by (simp add: comp_def)
qed

lemma item_by_id_some: "item_by_id i s = Some c \<Longrightarrow> c \<in> set (content_items s) \<and> ci_id c = i"
  by (auto simp: item_by_id_def find_Some_iff)

lemma find_key:
  assumes "distinct (map k xs)" and "x \<in> set xs"
  shows "find (\<lambda>y. k y = k x) xs = Some x"
  using assms by (induction xs) (auto simp: image_iff)

lemma item_by_id_mem:
  "distinct (map ci_id (content_items s)) \<Longrightarrow> c \<in> set (content_items s) \<Longrightarrow> item_by_id (ci_id c) s = Some c"
  by (simp add: item_by_id_def find_key)

lemma find_map_key:
  assumes "\<And>x. k (f x) = k x"
  shows "find (\<lambda>y. k y = j) (map (\<lambda>x. if k x = i then f x else x) xs) =
    map_option (\<lambda>x. if i = j then f x else x) (find (\<lambda>y. k y = j) xs)"
  by (induction xs) (auto simp: assms)

lemma item_by_id_write:
  "(\<And>c. ci_id (f c) = ci_id c) \<Longrightarrow>
     item_by_id j (write_item i f s) = map_option (\<lambda>c. if i = j then f c else c) (item_by_id j s)"
  by (simp add: item_by_id_def write_item_def find_map_key)

lemma no_pending_delta:
  "pending_counts s = [] \<Longrightarrow> pending_delta f i s = (0, s\<lparr>redis_ix := Suc (redis_ix s)\<rparr>)"
  by (simp add: pending_delta_def redis_call_def pending_of_def Let_def)

lemma no_pending_of:
  "pending_counts s = [] \<Longrightarrow> has_pending_delta_of fs i s = (False, s\<lparr>redis_ix := length fs + redis_ix s\<rparr>)"
  by (induction fs arbitrary: s) (simp_all add: no_pending_delta)

lemma no_pending:
  "pending_counts s = [] \<Longrightarrow> has_pending_delta i s = (False, s\<lparr>redis_ix := 3 + redis_ix s\<rparr>)"
  unfolding has_pending_delta_def by (subst no_pending_of) simp_all

lemma correct_recounts: "recounts s (correct_item i n s)"
  by (simp add: recounts_def correct_item_def write_item_def bare_item_def set_counts_def split: prod.splits)

lemma correct_item_by_id:
  "item_by_id j (correct_item i n s) =
     map_option (\<lambda>c. if i = j then (set_counts n c)\<lparr>ci_counts_reconciled_at := Some (now s)\<rparr> else c) (item_by_id j s)"
  by (simp add: correct_item_def item_by_id_write)

lemma counts_of_set [simp]: "counts_of (set_counts n c) = n" "counts_of (c\<lparr>ci_counts_reconciled_at := r\<rparr>) = counts_of c"
  by (simp_all add: counts_of_def set_counts_def split: prod.splits)

lemma recounts_redis [simp]: "recounts s (t\<lparr>redis_ix := n\<rparr>) = recounts s t"
  by (simp add: recounts_def)

lemma item_by_id_redis [simp]: "item_by_id i (s\<lparr>redis_ix := n\<rparr>) = item_by_id i s"
  by (simp add: item_by_id_def)

lemma not_False: "\<not> False" by simp

lemma rows_corrected:
  assumes "reconcile_rows rows s = (con, cor, t)" and "pending_counts s = []" and "distinct (map fst rows)"
    and "\<And>i cur real. (i, cur, real) \<in> set rows \<Longrightarrow> \<exists>c. item_by_id i s = Some c \<and> counts_of c = cur"
  shows "recounts s t \<and> (\<forall>j. j \<notin> fst ` set rows \<longrightarrow> item_by_id j t = item_by_id j s)
    \<and> (\<forall>(i, cur, real)\<in>set rows. \<exists>c. item_by_id i t = Some c \<and> counts_of c = real)
    \<and> con = map fst (filter (\<lambda>(i, cur, real). real = cur) rows)
    \<and> cor = map fst (filter (\<lambda>(i, cur, real). real \<noteq> cur) rows)
    \<and> (\<forall>i\<in>set cor. \<exists>c. item_by_id i t = Some c \<and> ci_counts_reconciled_at c \<noteq> None)"
  using assms
proof (induction rows s arbitrary: con cor t rule: reconcile_rows.induct)
  case (1 s)
  then show ?case by simp
next
  case (2 i current real rows s)
  show ?case
  proof (cases "real = current")
    case True
    obtain con' cor' where r: "reconcile_rows rows s = (con', cor', t)" "con = i # con'" "cor = cor'"
      using 2(4) True by (auto simp: split: prod.splits)
    have d: "distinct (map fst rows)" and i: "i \<notin> fst ` set rows" using 2(6) by auto
    note ih = "2.IH"(1)[OF True r(1) 2(5) d 2(7)[OF list.set_intros(2)], simplified]
    obtain c where c: "item_by_id i s = Some c" "counts_of c = current" using 2(7)[of i current real] by auto
    have "item_by_id i t = Some c" using ih i c(1) by simp
    with c(2) True have "\<exists>c. item_by_id i t = Some c \<and> counts_of c = real" by blast
    then show ?thesis using ih r(2,3) True by (simp add: i)
  next
    case False
    obtain n where n: "has_pending_delta i s = (False, s\<lparr>redis_ix := n\<rparr>)" by (rule that[OF no_pending[OF 2(5)]])
    let ?s = "s\<lparr>redis_ix := n\<rparr>" and ?u = "correct_item i real (s\<lparr>redis_ix := n\<rparr>)"
    obtain con' cor' where r: "reconcile_rows rows ?u = (con', cor', t)" "con = con'" "cor = i # cor'"
      using 2(4) False n by (auto simp: split: prod.splits)
    have u: "recounts s ?u" using correct_recounts[of ?s i real] by (simp add: recounts_def)
    have at: "item_by_id j ?u = (if j = i then map_option (\<lambda>c. (set_counts real c)\<lparr>ci_counts_reconciled_at := Some (now s)\<rparr>) (item_by_id j s)
        else item_by_id j s)" for j
      by (cases "item_by_id j s") (auto simp: correct_item_by_id)
    have ex: "\<exists>c. item_by_id j ?u = Some c \<and> counts_of c = cur" if "(j, cur, re) \<in> set rows" for j cur re
    proof -
      have "j \<noteq> i" using 2(6) that by force
      then show ?thesis using 2(7)[of j cur re] that by (auto simp: at)
    qed
    have pend: "pending_counts ?u = []" using u 2(5) by (simp add: recounts_def)
    have d: "distinct (map fst rows)" using 2(6) by auto
    have ih: "recounts ?u t \<and> (\<forall>j. j \<notin> fst ` set rows \<longrightarrow> item_by_id j t = item_by_id j ?u)
      \<and> (\<forall>(i, cur, real)\<in>set rows. \<exists>c. item_by_id i t = Some c \<and> counts_of c = real)
      \<and> con' = map fst (filter (\<lambda>(i, cur, real). real = cur) rows)
      \<and> cor' = map fst (filter (\<lambda>(i, cur, real). real \<noteq> cur) rows)
      \<and> (\<forall>i\<in>set cor'. \<exists>c. item_by_id i t = Some c \<and> ci_counts_reconciled_at c \<noteq> None)"
      by (rule "2.IH"(3)[OF False refl n[symmetric] not_False r(1) pend d]) (erule ex)
    have "i \<notin> fst ` set rows" using 2(6) by auto
    then have i: "item_by_id i t = item_by_id i ?u" using ih by blast
    obtain c where "item_by_id i s = Some c" using 2(7)[of i current real] by auto
    then have "\<exists>c. item_by_id i t = Some c \<and> counts_of c = real" "\<exists>c. item_by_id i t = Some c \<and> ci_counts_reconciled_at c \<noteq> None"
      using i by (simp_all add: at)
    moreover have "item_by_id j t = item_by_id j s" if "j \<notin> fst ` set ((i, current, real) # rows)" for j
      using ih that by (auto simp: at)
    moreover have "recounts s t" using recounts_trans[OF u] ih by blast
    ultimately show ?thesis using ih r(2,3) False by simp
  qed
qed

definition scanned :: "bool \<Rightarrow> uuid \<Rightarrow> 's forum_db_scheme \<Rightarrow> uuid set" where
  "scanned u last_id s =
     {i. last_id < i \<and> (\<exists>c. item_by_id i s = Some c \<and> (u \<longrightarrow> ci_counts_reconciled_at c = None))}"

definition ids_distinct :: "'s content_db_scheme \<Rightarrow> bool" where
  "ids_distinct s \<longleftrightarrow> distinct (map ci_id (content_items s))"

definition comment_right :: "'s forum_db_scheme \<Rightarrow> content_comment \<Rightarrow> bool" where
  "comment_right s m \<longleftrightarrow> cm_like_count m = comment_real_like (cm_id m) s"

lemma sorted_take_last:
  fixes k :: "'a \<Rightarrow> 'k::linorder"
  assumes "sorted (map k xs)" and "distinct (map k xs)" and "x \<in> set xs" and "x \<notin> set (take b xs)" and "0 < b"
  shows "take b xs \<noteq> []" and "k (last (take b xs)) < k x"
proof -
  show ne: "take b xs \<noteq> []" using assms(3,5) by (cases xs) (auto simp: take_Cons')
  have x: "x \<in> set (drop b xs)" using assms(3,4) by (metis UnE append_take_drop_id set_append)
  have "sorted (map k (take b xs) @ map k (drop b xs))" "distinct (map k (take b xs) @ map k (drop b xs))"
    using assms(1,2) by (metis append_take_drop_id map_append)+
  then have "k (last (take b xs)) \<le> k x" "k (last (take b xs)) \<noteq> k x"
    using x last_in_set[OF ne] by (auto simp: sorted_append)
  then show "k (last (take b xs)) < k x" by simp
qed

lemma sorted_le_last: "sorted xs \<Longrightarrow> x \<in> set xs \<Longrightarrow> x \<le> last xs"
  by (induction xs) auto

lemma window_facts:
  assumes "ids_distinct s" and "rows = reconcile_window b u last_id s" and "0 < b"
  shows "distinct (map fst rows)"
    and "(i, cur, real) \<in> set rows \<Longrightarrow> i \<in> scanned u last_id s \<and> (\<exists>c. item_by_id i s = Some c \<and> counts_of c = cur) \<and> real = real_counts i s"
    and "i \<in> scanned u last_id s \<Longrightarrow> i \<in> fst ` set rows \<or> rows \<noteq> [] \<and> fst (last rows) < i"
    and "i \<in> fst ` set rows \<Longrightarrow> i \<le> fst (last rows)"
proof -
  define P where "P = (\<lambda>c :: content_item. last_id < ci_id c \<and> (u \<longrightarrow> ci_counts_reconciled_at c = None))"
  define xs where "xs = sort_key ci_id (filter P (content_items s))"
  have rows: "rows = map (\<lambda>c. (ci_id c, counts_of c, real_counts (ci_id c) s)) (take b xs)"
    by (simp add: assms(2) reconcile_window_def xs_def P_def)
  have d: "distinct (map ci_id xs)" and so: "sorted (map ci_id xs)"
    using assms(1) by (auto simp: xs_def ids_distinct_def distinct_map inj_on_def)
  have "sorted (map fst rows)" using sorted_wrt_take[OF so, of b] by (simp add: rows comp_def flip: take_map)
  then show "i \<le> fst (last rows)" if "i \<in> fst ` set rows"
    using sorted_le_last[of "map fst rows" i] that by (cases "rows = []") (simp_all add: last_map)
  show "distinct (map fst rows)" using d by (simp add: rows comp_def flip: take_map)
  show "i \<in> scanned u last_id s \<and> (\<exists>c. item_by_id i s = Some c \<and> counts_of c = cur) \<and> real = real_counts i s"
    if "(i, cur, real) \<in> set rows"
  proof -
    from that obtain c where c: "c \<in> set xs" "i = ci_id c" "cur = counts_of c" "real = real_counts i s"
      by (auto simp: rows dest: in_set_takeD)
    then have "c \<in> set (content_items s)" "P c" by (auto simp: xs_def)
    then have "item_by_id i s = Some c" using item_by_id_mem assms(1) c(2) by (simp add: ids_distinct_def)
    with c \<open>P c\<close> show ?thesis by (auto simp: scanned_def P_def)
  qed
  show "i \<in> fst ` set rows \<or> rows \<noteq> [] \<and> fst (last rows) < i" if "i \<in> scanned u last_id s"
  proof -
    from that obtain c where c: "item_by_id i s = Some c" "P c" "ci_id c = i"
      by (auto simp: scanned_def P_def dest: item_by_id_some)
    then have x: "c \<in> set xs" using item_by_id_some[OF c(1)] by (simp add: xs_def)
    show ?thesis
    proof (cases "c \<in> set (take b xs)")
      case True
      then show ?thesis using c(3) by (force simp: rows)
    next
      case False
      note l = sorted_take_last[OF so d x False assms(3)]
      then show ?thesis using c(3) by (simp add: rows last_map)
    qed
  qed
qed

lemma comments_reconciled:
  assumes "t = snd (reconcile_comment_likes is s)"
  shows "recounts s t" and "m \<in> set (content_comments t) \<Longrightarrow> comment_right s m \<or> m \<in> set (content_comments s)"
    and "m \<in> set (content_comments t) \<Longrightarrow> cm_content_id m \<in> set is \<Longrightarrow> comment_right s m"
    and "item_by_id i t = item_by_id i s" and "content_items t = content_items s"
    and "now t = now s"
proof -
  have t: "content_comments t = map (\<lambda>m. if cm_content_id m \<in> set is \<and> cm_like_count m \<noteq> comment_real_like (cm_id m) s
      then m\<lparr>cm_like_count := comment_real_like (cm_id m) s\<rparr> else m) (content_comments s)"
    "t = s\<lparr>content_comments := content_comments t\<rparr>"
    by (simp_all add: assms reconcile_comment_likes_def Let_def)
  show "recounts s t" by (subst t(2)) (simp add: recounts_def t(1) bare_comment_def)
  show "comment_right s m \<or> m \<in> set (content_comments s)" if "m \<in> set (content_comments t)"
    using that unfolding t(1) by (auto simp: comment_right_def split: if_splits)
  show "comment_right s m" if "m \<in> set (content_comments t)" "cm_content_id m \<in> set is"
    using that unfolding t(1) by (auto simp: comment_right_def split: if_splits)
  show "item_by_id i t = item_by_id i s" "content_items t = content_items s" by (simp_all add: assms item_by_id_def)
  show "now t = now s" by (simp add: assms reconcile_comment_likes_def Let_def)
qed

lemma has_pending_of_comments: "content_comments (snd (has_pending_delta_of fs i s)) = content_comments s"
  by (induction fs arbitrary: s) (auto simp: Let_def pending_delta_def redis_call_def split: prod.splits)

lemma reconcile_rows_comments: "content_comments (snd (snd (reconcile_rows rows s))) = content_comments s"
proof (induction rows s rule: reconcile_rows.induct)
  case (1 s)
  then show ?case by simp
next
  case (2 i current real rows s)
  obtain skip t where p: "has_pending_delta i s = (skip, t)" by fastforce
  have "content_comments t = content_comments s"
    using has_pending_of_comments[of "[Like_count, Comment_count, Bookmark_count]" i s] p unfolding has_pending_delta_def by simp
  then show ?case using 2 p by (auto simp: Let_def correct_item_def write_item_def split: prod.splits)
qed

lemma scanned_cong:
  "(\<And>j. last_id < j \<Longrightarrow> item_by_id j t = item_by_id j s) \<Longrightarrow> scanned u last_id t = scanned u last_id s"
  by (auto simp: scanned_def)

lemma recounts_distinct: "recounts s t \<Longrightarrow> ids_distinct t = ids_distinct s"
  by (simp add: ids_distinct_def recounts_real(3))

lemma recounts_right: "recounts s t \<Longrightarrow> comment_right t m = comment_right s m"
  by (simp add: comment_right_def recounts_real(2))

lemma split_ids:
  "set (map fst (filter (\<lambda>(i, cur, real). real = cur) rows)) \<union> set (map fst (filter (\<lambda>(i, cur, real). real \<noteq> cur) rows))
     = fst ` set rows"
  by (induction rows) auto

lemma split_wrong:
  "i \<in> set (map fst (filter (\<lambda>(i, cur, real). real \<noteq> cur) rows)) \<Longrightarrow> \<exists>cur real. (i, cur, real) \<in> set rows \<and> real \<noteq> cur"
  by auto blast

text \<open>What the loop has done when it is through, from the mark \<open>last_id\<close> on.\<close>

definition loop_done ::
    "bool \<Rightarrow> uuid \<Rightarrow> 's forum_db_scheme \<Rightarrow> nat \<times> uuid list \<times> uuid list \<times> 's forum_db_scheme \<Rightarrow> bool" where
  "loop_done u last_id s r \<longleftrightarrow> (case r of (n, con, cor, t) \<Rightarrow>
     recounts s t
     \<and> (\<forall>i\<in>scanned u last_id s. \<exists>c. item_by_id i t = Some c \<and> counts_of c = real_counts i s)
     \<and> (\<forall>i. i \<notin> scanned u last_id s \<longrightarrow> item_by_id i t = item_by_id i s)
     \<and> (\<forall>m\<in>set (content_comments t). comment_right s m
          \<or> m \<in> set (content_comments s) \<and> cm_content_id m \<notin> scanned u last_id s)
     \<and> set con \<union> set cor = scanned u last_id s
     \<and> (\<forall>i\<in>set cor. (\<exists>c. item_by_id i s = Some c \<and> counts_of c \<noteq> real_counts i s)
          \<and> (\<exists>c. item_by_id i t = Some c \<and> ci_counts_reconciled_at c \<noteq> None)))"

lemma loop_repairs:
  assumes "ids_distinct s" and "pending_counts s = []" and "0 < b"
  shows "loop_done u last_id s (reconcile_loop b u last_id s)"
  using assms
proof (induction b u last_id s rule: reconcile_loop.induct)
  case (1 b u last_id s)
  define rows where "rows = reconcile_window b u last_id s"
  note w = window_facts[OF "1.prems"(1) rows_def "1.prems"(3)]
  show ?case
  proof (cases "rows = []")
    case True
    have "scanned u last_id s = {}" using w(3) True by auto
    then show ?thesis using True by (subst reconcile_loop.simps) (simp add: rows_def loop_done_def)
  next
    case False
    define s1 where "s1 = snd (reconcile_comment_likes (map fst rows) s)"
    note c1 = comments_reconciled[OF s1_def]
    obtain con cor t where r: "reconcile_rows rows s1 = (con, cor, t)" by (metis prod_cases3)
    obtain n con' cor' t' where l: "reconcile_loop b u (fst (last rows)) t = (n, con', cor', t')" by (metis prod_cases4)
    have res: "reconcile_loop b u last_id s = (length rows + n, con @ con', cor @ cor', t')"
      using False r l by (subst reconcile_loop.simps) (simp add: rows_def[symmetric] s1_def[symmetric])
    have p1: "pending_counts s1 = []" using c1(1) "1.prems"(2) by (simp add: recounts_def)
    have rc: "recounts s1 t \<and> (\<forall>j. j \<notin> fst ` set rows \<longrightarrow> item_by_id j t = item_by_id j s1)
      \<and> (\<forall>(i, cur, real)\<in>set rows. \<exists>c. item_by_id i t = Some c \<and> counts_of c = real)
      \<and> con = map fst (filter (\<lambda>(i, cur, real). real = cur) rows)
      \<and> cor = map fst (filter (\<lambda>(i, cur, real). real \<noteq> cur) rows)
      \<and> (\<forall>i\<in>set cor. \<exists>c. item_by_id i t = Some c \<and> ci_counts_reconciled_at c \<noteq> None)"
      by (rule rows_corrected[OF r p1 w(1)]) (use w(2) c1(4) in auto)
    have st: "recounts s t" using recounts_trans[OF c1(1)] rc by blast
    have rowids: "fst ` set rows \<subseteq> scanned u last_id s" using w(2) by force
    define m where "m = fst (last rows)"
    have "m \<in> fst ` set rows" using last_in_set[OF False] by (simp add: m_def)
    then have m: "m \<in> scanned u last_id s" using rowids by blast
    then have lm: "last_id < m" by (simp add: scanned_def)
    have below: "i \<le> m" if "i \<in> fst ` set rows" for i using w(4)[OF that] by (simp add: m_def)
    have kept: "item_by_id j t = item_by_id j s" if "m < j" for j
    proof -
      have "j \<notin> fst ` set rows" using below that by (meson leD)
      with rc have "item_by_id j t = item_by_id j s1" by blast
      then show ?thesis using c1(4) by simp
    qed
    have sc: "scanned u m t = scanned u m s" by (rule scanned_cong) (rule kept)
    have split: "scanned u last_id s = fst ` set rows \<union> scanned u m s"
    proof
      show "scanned u last_id s \<subseteq> fst ` set rows \<union> scanned u m s"
      proof
        fix i assume i: "i \<in> scanned u last_id s"
        show "i \<in> fst ` set rows \<union> scanned u m s"
          using w(3)[OF i] i by (simp add: m_def scanned_def) blast
      qed
      show "fst ` set rows \<union> scanned u m s \<subseteq> scanned u last_id s"
      proof (rule Un_least[OF rowids])
        show "scanned u m s \<subseteq> scanned u last_id s"
          using lm order.strict_trans by (auto simp: scanned_def)
      qed
    qed
    have disj: "fst ` set rows \<inter> scanned u m s = {}" 
    proof -
      have "i \<notin> scanned u m s" if "i \<in> fst ` set rows" for i
        using below[OF that] by (simp add: scanned_def not_less)
      then show ?thesis by blast
    qed
    have d: "ids_distinct t" "pending_counts t = []"
      using "1.prems"(1,2) st by (simp_all add: recounts_distinct[OF st]) (simp add: recounts_def)
    have IH: "loop_done u m t (n, con', cor', t')"
      using "1.IH"[OF rows_def False r[symmetric, unfolded s1_def] refl refl d "1.prems"(3)] l by (simp add: m_def)
    have tt: "recounts t t'" "\<forall>i\<in>scanned u m s. \<exists>c. item_by_id i t' = Some c \<and> counts_of c = real_counts i s"
      "\<forall>i. i \<notin> scanned u m s \<longrightarrow> item_by_id i t' = item_by_id i t"
      "\<forall>x\<in>set (content_comments t'). comment_right s x \<or> x \<in> set (content_comments t) \<and> cm_content_id x \<notin> scanned u m s"
      "set con' \<union> set cor' = scanned u m s"
      using IH by (simp_all add: loop_done_def sc recounts_real(1)[OF st] recounts_right[OF st])
    have cor_t: "\<forall>i\<in>set cor'. (\<exists>c. item_by_id i t = Some c \<and> counts_of c \<noteq> real_counts i s)
        \<and> (\<exists>c. item_by_id i t' = Some c \<and> ci_counts_reconciled_at c \<noteq> None)"
      using IH by (simp add: loop_done_def recounts_real(1)[OF st])
    have con: "con = map fst (filter (\<lambda>(i, cur, real). real = cur) rows)"
      and cor: "cor = map fst (filter (\<lambda>(i, cur, real). real \<noteq> cur) rows)"
      and righted: "\<And>i cur real. (i, cur, real) \<in> set rows \<Longrightarrow> \<exists>c. item_by_id i t = Some c \<and> counts_of c = real"
      and fixed: "\<And>i. i \<in> set cor \<Longrightarrow> \<exists>c. item_by_id i t = Some c \<and> ci_counts_reconciled_at c \<noteq> None"
      and same: "\<And>i. i \<notin> fst ` set rows \<Longrightarrow> item_by_id i t = item_by_id i s"
      using rc c1(4) by (simp, simp, fastforce, simp, simp)
    have con_ids: "set con \<union> set cor = fst ` set rows" unfolding con cor by (rule split_ids)
    have later: "item_by_id i t' = item_by_id i t" if "i \<in> fst ` set rows" for i using tt(3) disj that by blast
    have early: "item_by_id i t = item_by_id i s" if "i \<in> scanned u m s" for i
      using kept that by (simp add: scanned_def)
    have "\<exists>c. item_by_id i t' = Some c \<and> counts_of c = real_counts i s" if i: "i \<in> scanned u last_id s" for i
    proof (cases "i \<in> fst ` set rows")
      case True
      then obtain cur real where x: "(i, cur, real) \<in> set rows" by auto
      then have "\<exists>c. item_by_id i t = Some c \<and> counts_of c = real" by (rule righted)
      with w(2)[OF x] later[OF True] show ?thesis by simp
    next
      case False
      with i split tt(2) show ?thesis by blast
    qed
    moreover have "item_by_id i t' = item_by_id i s" if i: "i \<notin> scanned u last_id s" for i
    proof -
      from i split have "i \<notin> fst ` set rows" "i \<notin> scanned u m s" by blast+
      with same[of i] tt(3) show ?thesis by simp
    qed
    moreover have "comment_right s x \<or> x \<in> set (content_comments s) \<and> cm_content_id x \<notin> scanned u last_id s"
      if x: "x \<in> set (content_comments t')" for x
    proof -
      have ct: "content_comments t = content_comments s1" using reconcile_rows_comments[of rows s1] r by simp
      consider "comment_right s x" | "x \<in> set (content_comments s1)" "cm_content_id x \<notin> scanned u m s"
        using tt(4) x ct by auto
      then show ?thesis
      proof cases
        case 2
        then show ?thesis using c1(2,3)[of x] split by auto
      qed simp
    qed
    moreover have "set (con @ con') \<union> set (cor @ cor') = scanned u last_id s"
      using con_ids tt(5) split by auto
    moreover have "(\<exists>c. item_by_id i s = Some c \<and> counts_of c \<noteq> real_counts i s)
        \<and> (\<exists>c. item_by_id i t' = Some c \<and> ci_counts_reconciled_at c \<noteq> None)" if i: "i \<in> set (cor @ cor')" for i
    proof (cases "i \<in> set cor")
      case True
      then obtain cur real where x: "(i, cur, real) \<in> set rows" "real \<noteq> cur"
        using split_wrong[OF True[unfolded cor]] by (elim exE conjE)
      have "item_by_id i t' = item_by_id i t" using x(1) by (intro later) (simp add: rev_image_eqI)
      with fixed[OF True] w(2)[OF x(1)] x(2) show ?thesis by metis
    next
      case False
      with i have c: "i \<in> set cor'" by simp
      with tt(5) have "i \<in> scanned u m s" by blast
      then have "item_by_id i t = item_by_id i s" by (rule early)
      then show ?thesis using bspec[OF cor_t c] by simp
    qed
    ultimately show ?thesis using recounts_trans[OF st tt(1)] by (simp add: res loop_done_def)
  qed
qed

lemma mark_recounts: "recounts s (mark_converged is s)"
  by (simp add: recounts_def mark_converged_def bare_item_def set_counts_def comp_def if_distrib cong: if_cong)

lemma mark_by_id:
  "item_by_id i (mark_converged is s) =
     map_option (\<lambda>c. if i \<in> set is then c\<lparr>ci_counts_reconciled_at := Some (now s)\<rparr> else c) (item_by_id i s)"
proof -
  have "find (\<lambda>c. ci_id c = i) (map (\<lambda>c. if ci_id c \<in> A then f c else c) cs) =
      map_option (\<lambda>c. if i \<in> A then f c else c) (find (\<lambda>c. ci_id c = i) cs)"
    if "\<And>c. ci_id (f c) = ci_id c" for A and f :: "content_item \<Rightarrow> content_item" and cs
    by (induction cs) (auto simp: that)
  then show ?thesis by (simp add: item_by_id_def mark_converged_def)
qed

lemma mark_comments [simp]: "content_comments (mark_converged is s) = content_comments s"
  by (simp add: mark_converged_def)

lemma oscillation_frame [simp]:
  "content_items (record_oscillation c s) = content_items s" "content_comments (record_oscillation c s) = content_comments s"
  "item_by_id i (record_oscillation c s) = item_by_id i s" "recounts s (record_oscillation c t) = recounts s t"
  by (simp_all add: record_oscillation_def item_by_id_def recounts_def)

lemma reconcile_done:
  assumes "ids_distinct s" and "pending_counts s = []" and "0 < b" and "reconcile_counts b u s = ((n, k), t)"
  shows "recounts s t"
    and "i \<in> scanned u 0 s \<Longrightarrow>
      \<exists>c. item_by_id i t = Some c \<and> counts_of c = real_counts i s \<and> ci_counts_reconciled_at c \<noteq> None"
    and "i \<notin> scanned u 0 s \<Longrightarrow> item_by_id i t = item_by_id i s"
    and "m \<in> set (content_comments t) \<Longrightarrow> cm_content_id m \<in> scanned u 0 s \<Longrightarrow> comment_right s m"
    and "m \<in> set (content_comments t) \<Longrightarrow> comment_right s m \<or> m \<in> set (content_comments s)"
    and "0 < k \<Longrightarrow> \<exists>i c. i \<in> scanned u 0 s \<and> item_by_id i s = Some c \<and> counts_of c \<noteq> real_counts i s"
    and "scanned u 0 s = {} \<Longrightarrow> n = 0"
proof -
  obtain con cor r where l: "reconcile_loop b u 0 s = (n, con, cor, r)" and k: "k = length cor"
    and t: "t = record_oscillation (set cor) (mark_converged con r)"
    using assms(4) by (auto simp: reconcile_counts_def split: prod.splits)
  have "loop_done u 0 s (n, con, cor, r)" using loop_repairs[OF assms(1-3), of u 0] by (simp add: l)
  then have d: "recounts s r" "\<And>i. i \<in> scanned u 0 s \<Longrightarrow> \<exists>c. item_by_id i r = Some c \<and> counts_of c = real_counts i s"
    "\<And>i. i \<notin> scanned u 0 s \<Longrightarrow> item_by_id i r = item_by_id i s"
    "\<And>m. m \<in> set (content_comments r) \<Longrightarrow> comment_right s m \<or> m \<in> set (content_comments s) \<and> cm_content_id m \<notin> scanned u 0 s"
    "set con \<union> set cor = scanned u 0 s"
    "\<And>i. i \<in> set cor \<Longrightarrow> \<exists>c. item_by_id i s = Some c \<and> counts_of c \<noteq> real_counts i s"
    "\<And>i. i \<in> set cor \<Longrightarrow> \<exists>c. item_by_id i r = Some c \<and> ci_counts_reconciled_at c \<noteq> None"
    unfolding loop_done_def by simp_all
  show "recounts s t" using recounts_trans[OF d(1) mark_recounts] by (simp add: t)
  show "\<exists>c. item_by_id i t = Some c \<and> counts_of c = real_counts i s \<and> ci_counts_reconciled_at c \<noteq> None"
    if i: "i \<in> scanned u 0 s" for i
  proof -
    obtain c where c: "item_by_id i r = Some c" "counts_of c = real_counts i s" using d(2)[OF i] by blast
    moreover have "i \<notin> set con \<Longrightarrow> ci_counts_reconciled_at c \<noteq> None" using d(5) d(7)[of i] i c(1) by auto
    ultimately show ?thesis by (auto simp: t mark_by_id)
  qed
  show "item_by_id i t = item_by_id i s" if i: "i \<notin> scanned u 0 s" for i
  proof -
    have "i \<notin> set con" using i d(5) by blast
    then show ?thesis using d(3)[OF i] by (cases "item_by_id i s") (simp_all add: t mark_by_id)
  qed
  show "comment_right s m" if "m \<in> set (content_comments t)" "cm_content_id m \<in> scanned u 0 s" for m
    using d(4)[of m] that by (auto simp: t)
  show "comment_right s m \<or> m \<in> set (content_comments s)" if "m \<in> set (content_comments t)"
    using d(4)[of m] that by (auto simp: t)
  show "\<exists>i c. i \<in> scanned u 0 s \<and> item_by_id i s = Some c \<and> counts_of c \<noteq> real_counts i s" if "0 < k"
  proof -
    have "cor \<noteq> []" using that k by auto
    then obtain i where i: "i \<in> set cor" by (cases cor) auto
    with d(5,6) show ?thesis by blast
  qed
  show "n = 0" if none: "scanned u 0 s = {}"
  proof -
    have "reconcile_window b u 0 s = []"
    proof (rule ccontr)
      assume "reconcile_window b u 0 s \<noteq> []"
      then have "hd (reconcile_window b u 0 s) \<in> set (reconcile_window b u 0 s)" by simp
      moreover obtain i cur real where "hd (reconcile_window b u 0 s) = (i, cur, real)" by (metis prod_cases3)
      ultimately have "i \<in> scanned u 0 s" using window_facts(2)[OF assms(1) refl assms(3)] by metis
      with none show False by blast
    qed
    then show ?thesis using l by (subst (asm) reconcile_loop.simps) simp
  qed
qed

text \<open>C31: Reconciling repairs.  Whatever the counters held before, a full pass in windows of any size ends, leaves everything but
  the counters and its marks alone, and afterwards each counter of each item is the number of its likes, undeleted comments
  and favourites, and each comment on an item counts its own likes; a second pass, full or incremental, corrects nothing,
  and an incremental pass has nothing left to read.  Differences still in Redis are out of the way.\<close>
theorem reconcile_repairs:
  assumes "ids_distinct s" and "0 \<notin> set (map ci_id (content_items s))" and "pending_counts s = []" and "0 < b" and "0 < b'"
  shows "let ((n, k), t) = reconcile_counts b False s
     in recounts s t \<and> (\<forall>c\<in>set (content_items t). counts_of c = real_counts (ci_id c) t)
        \<and> (\<forall>m\<in>set (content_comments t). cm_content_id m \<in> ci_id ` set (content_items t) \<longrightarrow> cm_like_count m = comment_real_like (cm_id m) t)
        \<and> snd (fst (reconcile_counts b' u t)) = 0
        \<and> fst (reconcile_counts b' True t) = (0, 0)"
proof -
  obtain n k t where r: "reconcile_counts b False s = ((n, k), t)" by (metis prod.collapse)
  note d = reconcile_done[OF assms(1,3,4) r]
  have dt: "ids_distinct t" "pending_counts t = []"
    using assms(1,3) d(1) by (simp_all add: recounts_distinct[OF d(1)]) (simp add: recounts_def)
  have ids: "map ci_id (content_items t) = map ci_id (content_items s)" by (rule recounts_real(3)[OF d(1)])
  have at: "ci_id c \<in> scanned False 0 s" if c: "c \<in> set (content_items t)" for c
  proof -
    have "ci_id c \<in> set (map ci_id (content_items s))" using c unfolding ids[symmetric] by simp
    then obtain c' where "c' \<in> set (content_items s)" "ci_id c' = ci_id c" by auto
    moreover have "ci_id c \<noteq> 0" using \<open>ci_id c \<in> _\<close> assms(2) by metis
    ultimately show ?thesis using item_by_id_mem[of s c'] assms(1) by (simp add: scanned_def ids_distinct_def word_gt_0)
  qed
  have right: "counts_of c = real_counts (ci_id c) t \<and> ci_counts_reconciled_at c \<noteq> None" if c: "c \<in> set (content_items t)" for c
    using d(2)[OF at[OF c]] item_by_id_mem[of t c] c dt(1) by (simp add: ids_distinct_def recounts_real(1)[OF d(1)])
  have "cm_like_count m = comment_real_like (cm_id m) t"
    if "m \<in> set (content_comments t)" "cm_content_id m \<in> ci_id ` set (content_items t)" for m
    using d(4)[OF that(1)] at that(2) by (auto simp: comment_right_def recounts_real(2)[OF d(1)])
  moreover have none: "scanned True 0 t = {}"
    using right by (auto simp: scanned_def dest!: item_by_id_some)
  moreover have "snd (fst (reconcile_counts b'' u' t)) = 0" if "0 < b''" for b'' u'
  proof -
    obtain n' k' t' where r': "reconcile_counts b'' u' t = ((n', k'), t')" by (metis prod.collapse)
    have "\<not> 0 < k'"
      using reconcile_done(6)[OF dt that r'] right item_by_id_some[of _ t] by blast
    then show ?thesis using r' by simp
  qed
  moreover have "fst (fst (reconcile_counts b' True t)) = 0"
  proof -
    obtain n' k' t' where r': "reconcile_counts b' True t = ((n', k'), t')" by (metis prod.collapse)
    show ?thesis using reconcile_done(7)[OF dt assms(5) r' none] r' by simp
  qed
  ultimately show ?thesis using r d(1) right assms(5) by (auto simp: prod_eq_iff)
qed

definition drifted :: forum_db where
  "drifted = forum0\<lparr>content_items := [(qa_content_item 1 9 2 3 ''t'' ''e'' ''b'' 0)\<lparr>ci_like_count := 5\<rparr>]\<rparr>"

lemma drifted_length: "length (content_items drifted) = 1"
  by (simp add: drifted_def)

theorem reconcile_repairs_witness:
  "counts_of (hd (content_items drifted)) = (5, 0, 0)
   \<and> map counts_of (content_items (snd (reconcile_counts 500 False drifted))) = [(0, 0, 0)]
   \<and> snd (fst (reconcile_counts 500 False (snd (reconcile_counts 500 False drifted)))) = 0"
proof -
  have ok: "ids_distinct drifted" "0 \<notin> set (map ci_id (content_items drifted))" "pending_counts drifted = []"
    by (simp_all add: drifted_def ids_distinct_def qa_content_item_def)
  obtain n k t where r: "reconcile_counts 500 False drifted = ((n, k), t)" by (metis prod.collapse)
  note rep = reconcile_repairs[OF ok, of 500 500 False, unfolded r Let_def prod.case, simplified]
  have "real_counts i t = (0, 0, 0)" for i
    unfolding recounts_real(1)[OF conjunct1[OF rep]]
    by (simp add: drifted_def real_counts_def like_rows_def comment_rows_def favorite_rows_def)
  with rep have z: "\<forall>c\<in>set (content_items t). counts_of c = (0, 0, 0)" by simp
  have "map ci_id (content_items t) = map ci_id (content_items drifted)" by (rule recounts_real(3)[OF conjunct1[OF rep]])
  then have "length (content_items t) = 1" by (metis length_map drifted_length)
  with z have "map counts_of (content_items t) = [(0, 0, 0)]" by (cases "content_items t") auto
  with rep show ?thesis by (simp add: r) (simp add: drifted_def counts_of_def qa_content_item_def)
qed

end
