(* ===== verification/Boards.thy ===== *)
theory Boards
  imports Content_Counters
begin

text \<open>
  Boards (\<open>app/modules/content/service.py\<close>, \<open>content/repository.py\<close>, \<open>content/boards\<close>): creating and editing them with the
  version check of \<open>update_cas\<close>, applications for a board with their review and waiting time, bans, and who may post; the
  requests as a state machine, what each keeps, and the two properties.
\<close>

section \<open>Boards\<close>

definition board_by_id :: "uuid \<Rightarrow> 's content_db_scheme \<Rightarrow> board option" where
  "board_by_id i s = find (\<lambda>b. bd_id b = i) (boards s)"

definition board_slug_taken :: "string \<Rightarrow> 's content_db_scheme \<Rightarrow> bool" where
  "board_slug_taken slug s = list_ex (\<lambda>b. bd_slug b = slug) (boards s)"

definition board_or_raise :: "uuid \<Rightarrow> errcode \<Rightarrow> ('s content_db_scheme, board) act" where
  "board_or_raise i e s = (optR (BizError e) (board_by_id i s), s)"

definition get_board_ex :: "uuid \<Rightarrow> ('s content_db_scheme, board) act" where
  "get_board_ex i = board_or_raise i (BoardErr board_err.BOARD_NOT_FOUND)"

definition slug_chars :: "string \<Rightarrow> bool" where
  "slug_chars t \<longleftrightarrow> list_all (\<lambda>c. c \<in> set ''abcdefghijklmnopqrstuvwxyz0123456789-'') t"

record board_create =
  bc_slug :: string
  bc_title :: string
  bc_description :: string
  bc_parent_id :: "uuid option"
  bc_require_certified :: bool
  bc_daily_post_limit :: int
  bc_is_public :: bool

definition board_create_ok :: "board_create \<Rightarrow> bool" where
  "board_create_ok x \<longleftrightarrow> length (bc_slug x) \<in> {1..50} \<and> slug_chars (bc_slug x) \<and> length (bc_title x) \<in> {1..100}
     \<and> length (bc_description x) \<le> 500 \<and> 0 \<le> bc_daily_post_limit x"

text \<open>The parent of a board is a foreign key.\<close>

definition parent_exists :: "uuid option \<Rightarrow> 's content_db_scheme \<Rightarrow> bool" where
  "parent_exists p s \<longleftrightarrow> (case p of None \<Rightarrow> True | Some i \<Rightarrow> board_by_id i s \<noteq> None)"

definition create_board_ex :: "board_create \<Rightarrow> uuid option \<Rightarrow> ('s content_db_scheme, board) act" where
  "create_board_ex x owner_id =
     bindA (getA (board_slug_taken (bc_slug x))) (\<lambda>taken.
     seqA (guardA (\<not> taken) (BizError (BoardErr board_err.SLUG_CONFLICT)))
     (\<lambda>s. let (i, s) = fresh_pk s;
              b = (new_board i (bc_slug x) (bc_title x) (bc_description x) (now s))
                    \<lparr>bd_owner_id := owner_id, bd_parent_id := bc_parent_id x, bd_require_certified := bc_require_certified x,
                     bd_daily_post_limit := bc_daily_post_limit x, bd_is_public := bc_is_public x\<rparr>
          in if \<not> parent_exists (bc_parent_id x) s then (Inl (IntegrityError False None), s)
             else case insert_board b s of Inl e \<Rightarrow> (Inl e, s) | Inr s' \<Rightarrow> (Inr b, s')))"

definition list_boards :: "'s content_db_scheme \<Rightarrow> board list" where
  "list_boards s = sort_key bd_id (boards s)"

text \<open>\<open>ensure_by_slug\<close>: an insert that does nothing where the slug exists, and a second look.\<close>

definition ensure_by_slug :: "string \<Rightarrow> ('s content_db_scheme, uuid) act" where
  "ensure_by_slug slug s =
     (case find (\<lambda>b. bd_slug b = slug) (boards s) of
        Some b \<Rightarrow> (Inr (bd_id b), s)
      | None \<Rightarrow>
          let (i, s) = fresh_pk s
          in case insert_board (new_board i slug slug ''auto-created for blog publish'' (now s)) s of
               Inl e \<Rightarrow> (Inl e, s)
             | Inr s \<Rightarrow> (optR (BizError (CommonErr common_err.INTERNAL_ERROR))
                          (map_option bd_id (find (\<lambda>b. bd_slug b = slug) (boards s))), s))"

section \<open>Changing a board\<close>

text \<open>
  What the patch sets: a field that is not sent is \<open>None\<close>, and only the parent may be sent as null.  The version is that of the
  client, if it sent one.
\<close>

record board_update =
  bu_title :: "string option"
  bu_description :: "string option"
  bu_parent_id :: "uuid option option"
  bu_require_certified :: "bool option"
  bu_daily_post_limit :: "int option"
  bu_is_public :: "bool option"
  bu_version :: "int option"

definition is_set :: "'a option \<Rightarrow> ('a \<Rightarrow> bool) \<Rightarrow> bool" where
  "is_set v ok \<longleftrightarrow> (case v of None \<Rightarrow> True | Some x \<Rightarrow> ok x)"

definition board_update_ok :: "board_update \<Rightarrow> bool" where
  "board_update_ok p \<longleftrightarrow> is_set (bu_title p) (\<lambda>t. length t \<in> {1..100}) \<and> is_set (bu_description p) (\<lambda>t. length t \<le> 500)
     \<and> is_set (bu_daily_post_limit p) (\<lambda>n. 0 \<le> n) \<and> is_set (bu_version p) (\<lambda>v. 1 \<le> v)"

definition or_old :: "'a option \<Rightarrow> 'a \<Rightarrow> 'a" where
  "or_old v old = (case v of None \<Rightarrow> old | Some x \<Rightarrow> x)"

definition patched :: "board_update \<Rightarrow> board \<Rightarrow> board" where
  "patched p b = b\<lparr>bd_title := or_old (bu_title p) (bd_title b), bd_description := or_old (bu_description p) (bd_description b),
     bd_parent_id := or_old (bu_parent_id p) (bd_parent_id b),
     bd_require_certified := or_old (bu_require_certified p) (bd_require_certified b),
     bd_daily_post_limit := or_old (bu_daily_post_limit p) (bd_daily_post_limit b),
     bd_is_public := or_old (bu_is_public p) (bd_is_public b)\<rparr>"

definition sets_nothing :: "board_update \<Rightarrow> bool" where
  "sets_nothing p \<longleftrightarrow> bu_title p = None \<and> bu_description p = None \<and> bu_parent_id p = None \<and> bu_require_certified p = None
     \<and> bu_daily_post_limit p = None \<and> bu_is_public p = None"

text \<open>\<open>update_cas\<close>: one \<open>UPDATE\<close> with the version in its condition, where one is expected.\<close>

definition cas_hit :: "uuid \<Rightarrow> int option \<Rightarrow> board \<Rightarrow> bool" where
  "cas_hit i expected b \<longleftrightarrow> bd_id b = i \<and> is_set expected (\<lambda>v. bd_version b = v)"

definition cas_edit :: "uuid \<Rightarrow> int option \<Rightarrow> (board \<Rightarrow> board) \<Rightarrow> instant \<Rightarrow> board \<Rightarrow> board" where
  "cas_edit i expected f t b =
     (if cas_hit i expected b then (f b)\<lparr>bd_version := bd_version b + 1, bd_updated_at := t\<rparr> else b)"

definition update_cas :: "uuid \<Rightarrow> int option \<Rightarrow> (board \<Rightarrow> board) \<Rightarrow> ('s content_db_scheme, board) act" where
  "update_cas i expected f s =
     (case find (cas_hit i expected) (boards s) of
        None \<Rightarrow> (Inl (BizError (CommonErr common_err.VERSION_CONFLICT)), s)
      | Some b \<Rightarrow> (Inr (cas_edit i expected f (now s) b), s\<lparr>boards := map (cas_edit i expected f (now s)) (boards s)\<rparr>))"

text \<open>\<open>_version_snapshot\<close>: the identifier, the version, the slug and the title as they are now.\<close>

type_synonym board_snapshot = "uuid \<times> (int \<times> string \<times> string) option"

definition version_snapshot :: "uuid \<Rightarrow> 's content_db_scheme \<Rightarrow> board_snapshot" where
  "version_snapshot i s = (i, map_option (\<lambda>b. (bd_version b, bd_slug b, bd_title b)) (board_by_id i s))"

definition assert_board_owner :: "board \<Rightarrow> uuid \<Rightarrow> bool \<Rightarrow> exc + unit" where
  "assert_board_owner b user_id is_admin =
     guardR (bd_owner_id b = Some user_id \<or> is_admin) (BizError (BoardErr board_err.NOT_BOARD_OWNER))"

definition update_board_ex :: "uuid \<Rightarrow> uuid \<Rightarrow> board_update \<Rightarrow> bool \<Rightarrow> ('s content_db_scheme, board) act" where
  "update_board_ex board_id owner_id p is_admin =
     bindA (get_board_ex board_id) (\<lambda>b.
     seqA (liftA (assert_board_owner b owner_id is_admin))
    (if bu_version p = None \<and> sets_nothing p then retA b
     else
       bindA (getA (parent_exists (or_old (bu_parent_id p) None))) (\<lambda>parent.
       seqA (guardA (parent \<or> \<not> is_set (bu_version p) (\<lambda>v. bd_version b = v)) (IntegrityError False None))
         (update_cas board_id (bu_version p) (patched p)))))"

text \<open>\<open>owner_update_board\<close>: a conflict is answered with the current values.\<close>

definition owner_update_board ::
    "current_user \<Rightarrow> 'r rbac_db_scheme \<Rightarrow> uuid \<Rightarrow> board_update \<Rightarrow> ('s content_db_scheme, board_snapshot + board) act" where
  "owner_update_board cur rb board_id p =
     bindA (\<lambda>s. (check_row_owner cur (map_option bd_owner_id (board_by_id board_id s)) board_owner_manage rb, s)) (\<lambda>delegated.
     \<lambda>s. case update_board_ex board_id (cu_id cur) p delegated s of
           (Inl e, s') \<Rightarrow>
             if e = BizError (CommonErr common_err.VERSION_CONFLICT) then (Inr (Inl (version_snapshot board_id s')), s') else (Inl e, s')
         | (Inr b, s') \<Rightarrow> (Inr (Inr b), s'))"

section \<open>Applications\<close>

definition COOLDOWN :: int where "COOLDOWN = 24 * 3600000000"

text \<open>The seconds of \<open>Retry-After\<close>, rounded up.\<close>

definition retry_after :: "instant \<Rightarrow> instant \<Rightarrow> int" where
  "retry_after until t = max 1 ((until - t + 999999) div 1000000)"

definition assert_reapply_allowed :: "instant option \<Rightarrow> errcode \<Rightarrow> instant \<Rightarrow> exc + unit" where
  "assert_reapply_allowed reviewed_at e t =
     (case reviewed_at of None \<Rightarrow> Inr () | Some r \<Rightarrow> guardR (r + COOLDOWN \<le> t) (BizError e))"

record application_create =
  ac_title :: string
  ac_description :: string
  ac_reason :: string
  ac_slug :: string

definition application_ok :: "application_create \<Rightarrow> bool" where
  "application_ok x \<longleftrightarrow> length (ac_title x) \<in> {1..100} \<and> length (ac_description x) \<in> {1..300} \<and> length (ac_reason x) \<in> {1..500}
     \<and> length (ac_slug x) \<in> {1..50} \<and> slug_chars (ac_slug x)"

definition has_pending :: "uuid \<Rightarrow> string \<Rightarrow> 's forum_db_scheme \<Rightarrow> bool" where
  "has_pending applicant slug s =
     list_ex (\<lambda>a. ba_applicant_id a = applicant \<and> ba_slug a = slug \<and> ba_status a = ''pending'') (board_applications s)"

definition application_slug_taken :: "string \<Rightarrow> 's forum_db_scheme \<Rightarrow> bool" where
  "application_slug_taken slug s = list_ex (\<lambda>a. ba_slug a = slug \<and> ba_status a \<noteq> ''rejected'') (board_applications s)"

text \<open>\<open>ORDER BY reviewed_at DESC\<close>: what was never reviewed sorts first.\<close>

definition latest_rejected :: "uuid \<Rightarrow> string \<Rightarrow> 's forum_db_scheme \<Rightarrow> board_application option" where
  "latest_rejected applicant slug s =
     (let xs = sort_key (\<lambda>a. case ba_reviewed_at a of None \<Rightarrow> (0, 0) | Some t \<Rightarrow> (1 :: int, - t))
                 (filter (\<lambda>a. ba_applicant_id a = applicant \<and> ba_slug a = slug \<and> ba_status a = ''rejected'') (board_applications s))
      in case xs of [] \<Rightarrow> None | a # _ \<Rightarrow> Some a)"

text \<open>The primary key and the partial unique index: one application that is not rejected for a slug.\<close>

definition insert_application :: "board_application \<Rightarrow> 's forum_db_scheme \<Rightarrow> exc + 's forum_db_scheme" where
  "insert_application a s =
     (if list_ex (\<lambda>x. ba_id x = ba_id a
          \<or> (ba_status a \<noteq> ''rejected'' \<and> ba_status x \<noteq> ''rejected'' \<and> ba_slug x = ba_slug a)) (board_applications s)
      then Inl (IntegrityError True None)
      else Inr (s\<lparr>board_applications := board_applications s @ [a]\<rparr>))"

definition submit_application :: "uuid \<Rightarrow> application_create \<Rightarrow> ('s forum_db_scheme, board_application) act" where
  "submit_application applicant x =
     bindA (getA (\<lambda>s. s)) (\<lambda>s.
     seqA (guardA (\<not> has_pending applicant (ac_slug x) s) (BizError (BoardErr board_err.APPLICATION_PENDING_EXISTS)))
    (seqA (guardA (\<not> application_slug_taken (ac_slug x) s) (BizError (BoardErr board_err.SLUG_CONFLICT)))
    (seqA (guardA (\<not> board_slug_taken (ac_slug x) s) (BizError (BoardErr board_err.SLUG_CONFLICT)))
    (seqA (liftA (case latest_rejected applicant (ac_slug x) s of
                    None \<Rightarrow> Inr ()
                  | Some a \<Rightarrow> assert_reapply_allowed (ba_reviewed_at a) (BoardErr board_err.APPLICATION_COOLDOWN) (now s)))
    (\<lambda>s. let (i, s) = fresh_pk s;
             a = \<lparr>ba_id = i, ba_applicant_id = applicant, ba_title = ac_title x, ba_description = ac_description x,
                  ba_reason = ac_reason x, ba_slug = ac_slug x, ba_status = ''pending'', ba_reviewer_id = None,
                  ba_review_note = None, ba_created_at = now s, ba_reviewed_at = None\<rparr>
         in case insert_application a s of
              Inl e \<Rightarrow> (Inl (BizError (BoardErr board_err.SLUG_CONFLICT)), s)
            | Inr s' \<Rightarrow> (Inr a, s'))))))"

definition list_my_board_applications :: "uuid \<Rightarrow> 's forum_db_scheme \<Rightarrow> board_application list" where
  "list_my_board_applications applicant s =
     rev (sort_key ba_id (filter (\<lambda>a. ba_applicant_id a = applicant) (board_applications s)))"

definition application_by_id :: "uuid \<Rightarrow> 's forum_db_scheme \<Rightarrow> board_application option" where
  "application_by_id i s = find (\<lambda>a. ba_id a = i) (board_applications s)"

definition reviewed :: "bool \<Rightarrow> uuid \<Rightarrow> string option \<Rightarrow> instant \<Rightarrow> board_application \<Rightarrow> board_application" where
  "reviewed approve reviewer remark t a =
     a\<lparr>ba_status := (if approve then ''approved'' else ''rejected''), ba_reviewer_id := Some reviewer, ba_review_note := remark,
       ba_reviewed_at := Some t\<rparr>"

text \<open>The record of the review is written by the authentication service, which may refuse: then the request fails.\<close>

definition review_board_application ::
    "exc + unit \<Rightarrow> uuid \<Rightarrow> uuid \<Rightarrow> bool \<Rightarrow> string option \<Rightarrow> ('s forum_db_scheme, board_application) act" where
  "review_board_application audit i reviewer approve remark =
     bindA (\<lambda>s. (optR (BizError (BoardErr board_err.APPLICATION_NOT_FOUND)) (application_by_id i s), s)) (\<lambda>a.
     seqA (guardA (ba_status a = ''pending'') (BizError (BoardErr board_err.APPLICATION_ALREADY_REVIEWED)))
    (bindA (getA (board_slug_taken (ba_slug a))) (\<lambda>taken.
     seqA (guardA (\<not> (approve \<and> taken)) (BizError (BoardErr board_err.SLUG_CONFLICT)))
    (bindA (getA now) (\<lambda>t.
     seqA (modA (\<lambda>s. s\<lparr>board_applications :=
             map (\<lambda>x. if ba_id x = i then reviewed approve reviewer remark t x else x) (board_applications s)\<rparr>))
    (seqA (if approve
           then bindA (create_board_ex \<lparr>bc_slug = ba_slug a, bc_title = ba_title a, bc_description = ba_description a,
                         bc_parent_id = None, bc_require_certified = False, bc_daily_post_limit = 0, bc_is_public = True\<rparr>
                         (Some (ba_applicant_id a))) (\<lambda>_. retA ())
           else retA ())
    (seqA (liftA audit)
    (retA (reviewed approve reviewer remark t a)))))))))"

section \<open>Bans\<close>

definition active_ban :: "uuid \<Rightarrow> uuid \<Rightarrow> instant \<Rightarrow> 's forum_db_scheme \<Rightarrow> board_ban option" where
  "active_ban board_id user_id t s =
     find (\<lambda>b. bb_board_id b = board_id \<and> bb_user_id b = user_id \<and> t < bb_expires_at b) (board_bans s)"

definition is_banned :: "uuid \<Rightarrow> uuid \<Rightarrow> 's forum_db_scheme \<Rightarrow> bool" where
  "is_banned board_id user_id s \<longleftrightarrow> active_ban board_id user_id (now s) s \<noteq> None"

record ban_request =
  br_user_id :: uuid
  br_reason :: string
  br_hours :: int

definition ban_request_ok :: "ban_request \<Rightarrow> bool" where
  "ban_request_ok x \<longleftrightarrow> length (br_reason x) \<le> 200 \<and> 1 \<le> br_hours x \<and> br_hours x \<le> 168"

definition ban_user :: "board \<Rightarrow> uuid \<Rightarrow> ban_request \<Rightarrow> bool \<Rightarrow> ('s forum_db_scheme, unit) act" where
  "ban_user b actor x is_admin =
     seqA (liftA (assert_board_owner b actor is_admin))
    (bindA (getA (is_banned (bd_id b) (br_user_id x))) (\<lambda>already.
     seqA (guardA (\<not> already) (BizError (BoardErr board_err.ALREADY_BANNED)))
     (\<lambda>s. let (i, s) = fresh_pk s
          in if list_ex (\<lambda>y. bb_id y = i) (board_bans s) then (Inl (IntegrityError True None), s)
             else (Inr (), s\<lparr>board_bans := board_bans s @ [\<lparr>bb_id = i, bb_board_id = bd_id b, bb_user_id = br_user_id x,
                    bb_created_by = actor, bb_reason = br_reason x, bb_expires_at = now s + br_hours x * 3600000000,
                    bb_created_at = now s\<rparr>]\<rparr>))))"

definition unban_user :: "board \<Rightarrow> uuid \<Rightarrow> uuid \<Rightarrow> bool \<Rightarrow> ('s forum_db_scheme, unit) act" where
  "unban_user b actor target is_admin =
     seqA (liftA (assert_board_owner b actor is_admin))
     (modA (\<lambda>s. s\<lparr>board_bans := filter (\<lambda>x. \<not> (bb_board_id x = bd_id b \<and> bb_user_id x = target)) (board_bans s)\<rparr>))"

definition ban_or_unban ::
    "current_user \<Rightarrow> 'r rbac_db_scheme \<Rightarrow> uuid \<Rightarrow> (board \<Rightarrow> bool \<Rightarrow> ('s forum_db_scheme, unit) act) \<Rightarrow> ('s forum_db_scheme, unit) act" where
  "ban_or_unban cur rb board_id f =
     bindA (\<lambda>s. (check_row_owner cur (map_option bd_owner_id (board_by_id board_id s)) board_owner_manage rb, s)) (\<lambda>delegated.
     bindA (get_board_ex board_id) (\<lambda>b. f b delegated))"

section \<open>Who may post\<close>

definition holds_normal_certificate :: "uuid \<Rightarrow> 's forum_db_scheme \<Rightarrow> bool" where
  "holds_normal_certificate user_id s \<longleftrightarrow>
     list_ex (\<lambda>c. ec_user_id c = user_id \<and> ec_passed c
       \<and> list_ex (\<lambda>e. ex_id e = ec_exam_id c \<and> ex_type e = ''exam'' \<and> ex_unlock_level e = Some ''normal'') (forum_exams s))
       (forum_certificates s)"

text \<open>Midnight, in UTC.\<close>

definition day_start :: "instant \<Rightarrow> instant" where
  "day_start t = t - t mod 86400000000"

definition count_daily_discussions :: "uuid \<Rightarrow> uuid \<Rightarrow> instant \<Rightarrow> 's content_db_scheme \<Rightarrow> nat" where
  "count_daily_discussions author_id board_id since s =
     length (filter (\<lambda>c. ci_author_id c = Some author_id \<and> ci_board_id c = board_id \<and> ci_content_type c = ''discussion''
       \<and> since \<le> ci_created_at c \<and> ci_deleted_at c = None) (content_items s))"

definition check_post_allowed :: "uuid \<Rightarrow> uuid \<Rightarrow> ('s forum_db_scheme, unit) act" where
  "check_post_allowed board_id user_id =
     bindA (get_board_ex board_id) (\<lambda>b.
     bindA (getA (\<lambda>s. s)) (\<lambda>s.
     seqA (guardA (bd_status b = ''active'') (BizError (BoardErr board_err.BOARD_INACTIVE)))
    (seqA (guardA (bd_is_public b \<or> account_level_of s user_id \<in> {Some ''normal'', Some ''admin''})
            (BizError (BoardErr board_err.BOARD_NOT_PUBLIC)))
    (seqA (guardA (\<not> is_banned (bd_id b) user_id s) (BizError (BoardErr board_err.BOARD_BANNED)))
    (seqA (guardA (bd_require_certified b \<longrightarrow> holds_normal_certificate user_id s)
            (BizError (BoardErr board_err.CERTIFICATION_REQUIRED)))
    (guardA (\<not> (0 < bd_daily_post_limit b
         \<and> bd_daily_post_limit b \<le> int (count_daily_discussions user_id board_id (day_start (now s)) s)))
       (BizError (BoardErr board_err.DAILY_POST_LIMIT_REACHED))))))))"

section \<open>Requests\<close>

datatype board_request =
    Create_board board_create
  | Update_board current_user uuid board_update
  | Apply uuid application_create
  | Review_application "exc + unit" uuid uuid bool "string option"
  | Ban current_user uuid ban_request
  | Unban current_user uuid uuid
  | Board_tick nat

definition valid_or :: "bool \<Rightarrow> ('s, 'a) act \<Rightarrow> ('s, unit) act" where
  "valid_or ok m = seqA (guardA ok RequestValidationError) (bindA m (\<lambda>_. retA ()))"

fun board_work :: "'r rbac_db_scheme \<Rightarrow> board_request \<Rightarrow> ('s forum_db_scheme, unit) act" where
  "board_work rb (Create_board x) = valid_or (board_create_ok x) (create_board_ex x None)"
| "board_work rb (Update_board cur i p) = valid_or (board_update_ok p) (owner_update_board cur rb i p)"
| "board_work rb (Apply u x) = valid_or (application_ok x) (submit_application u x)"
| "board_work rb (Review_application audit i reviewer approve remark) =
     valid_or (case remark of None \<Rightarrow> True | Some t \<Rightarrow> length t \<le> 300) (review_board_application audit i reviewer approve remark)"
| "board_work rb (Ban cur i x) =
     valid_or (ban_request_ok x) (ban_or_unban cur rb i (\<lambda>b delegated. ban_user b (cu_id cur) x delegated))"
| "board_work rb (Unban cur i u) =
     valid_or True (ban_or_unban cur rb i (\<lambda>b delegated. unban_user b (cu_id cur) u delegated))"
| "board_work rb (Board_tick n) = modA (\<lambda>s. s\<lparr>now := now s + int n\<rparr>)"

definition board_handle ::
    "(string \<times> errcode) list \<Rightarrow> 'r rbac_db_scheme \<Rightarrow> board_request \<Rightarrow> 's forum_db_scheme \<Rightarrow> 's forum_db_scheme" where
  "board_handle reg rb r s = snd (forum_session reg (board_work rb r) s)"

fun board_run ::
    "(string \<times> errcode) list \<Rightarrow> 'r rbac_db_scheme \<Rightarrow> board_request list \<Rightarrow> 's forum_db_scheme \<Rightarrow> 's forum_db_scheme" where
  "board_run reg rb [] s = s"
| "board_run reg rb (r # rs) s = board_run reg rb rs (board_handle reg rb r s)"

section \<open>What the requests keep\<close>

text \<open>An earlier application for the same slug by the same person was rejected at least a day before.\<close>

definition cooled :: "board_application \<Rightarrow> board_application \<Rightarrow> bool" where
  "cooled a b \<longleftrightarrow> (ba_applicant_id a = ba_applicant_id b \<and> ba_slug a = ba_slug b \<longrightarrow>
     ba_status a = ''rejected'' \<and> (\<exists>r. ba_reviewed_at a = Some r \<and> r + COOLDOWN \<le> ba_created_at b))"

definition board_inv :: "'s forum_db_scheme \<Rightarrow> bool" where
  "board_inv s \<longleftrightarrow> distinct (map bd_id (boards s)) \<and> distinct (map bd_slug (boards s))
     \<and> distinct (map ba_id (board_applications s))
     \<and> distinct (map ba_slug (filter (\<lambda>a. ba_status a \<noteq> ''rejected'') (board_applications s)))
     \<and> (\<forall>a\<in>set (board_applications s). ba_status a \<in> {''pending'', ''approved'', ''rejected''}
          \<and> (ba_status a = ''rejected'' \<longrightarrow> ba_reviewed_at a \<noteq> None)
          \<and> (ba_status a = ''approved'' \<longrightarrow> (\<exists>b\<in>set (boards s). bd_slug b = ba_slug a \<and> bd_owner_id b = Some (ba_applicant_id a))))
     \<and> sorted_wrt cooled (board_applications s)"

text \<open>What happens to one board: it stays, its version does not fall, slug and owner never change.\<close>

definition board_later :: "board \<Rightarrow> board \<Rightarrow> bool" where
  "board_later b b' \<longleftrightarrow> bd_id b' = bd_id b \<and> bd_slug b' = bd_slug b \<and> bd_owner_id b' = bd_owner_id b \<and> bd_version b \<le> bd_version b'"

definition boards_grow :: "'s forum_db_scheme \<Rightarrow> 's forum_db_scheme \<Rightarrow> bool" where
  "boards_grow s s' \<longleftrightarrow> (\<forall>b\<in>set (boards s). \<exists>b'\<in>set (boards s'). board_later b b')"

lemma board_later_refl [simp]: "board_later b b"
  by (simp add: board_later_def)

lemma board_later_trans: "board_later a b \<Longrightarrow> board_later b c \<Longrightarrow> board_later a c"
  by (auto simp: board_later_def)

lemma create_board_effect:
  assumes "create_board_ex x owner s = (Inr b, s')"
  shows "\<exists>n. s' = s\<lparr>pk_ix := n, boards := boards s @ [b]\<rparr> \<and> bd_slug b = bc_slug x \<and> bd_owner_id b = owner
    \<and> bd_slug b \<notin> bd_slug ` set (boards s) \<and> bd_id b \<notin> bd_id ` set (boards s)"
  using assms
  by (auto simp: create_board_ex_def Let_def fresh_pk_def insert_board_def new_board_def list_ex_iff split: if_splits)

lemma update_cas_effect:
  assumes "update_cas i v f s = (Inr b, s')"
  shows "s' = s\<lparr>boards := map (cas_edit i v f (now s)) (boards s)\<rparr>" and "\<exists>b\<in>set (boards s). cas_hit i v b"
  using assms by (auto simp: update_cas_def find_Some_iff split: option.splits)

lemma update_board_effect:
  assumes "update_board_ex i u p adm s = (Inr b, s')"
  shows "s' = s \<or> s' = s\<lparr>boards := map (cas_edit i (bu_version p) (patched p) (now s)) (boards s)\<rparr>"
proof -
  from assms obtain b0 where "if bu_version p = None \<and> sets_nothing p then retA b0 s = (Inr b, s')
      else update_cas i (bu_version p) (patched p) s = (Inr b, s')"
    by (auto simp: update_board_ex_def get_board_ex_def board_or_raise_def split: if_splits elim!: bindA_InrE)
  then show ?thesis using update_cas_effect(1)[of i "bu_version p" "patched p" s b s'] by (auto split: if_splits)
qed

lemma update_board_raises: "update_board_ex i u p adm s = (Inl e, s') \<Longrightarrow> s' = s"
  by (auto simp: update_board_ex_def get_board_ex_def board_or_raise_def update_cas_def bindA_def
      split: if_splits sum.splits prod.splits option.splits)

lemma owner_update_effect:
  assumes "owner_update_board cur rb i p s = (Inr b, s')"
  shows "s' = s \<or> s' = s\<lparr>boards := map (cas_edit i (bu_version p) (patched p) (now s)) (boards s)\<rparr>"
proof -
  obtain adm where "(case update_board_ex i (cu_id cur) p adm s of
      (Inl e, t) \<Rightarrow> if e = BizError (CommonErr common_err.VERSION_CONFLICT) then (Inr (Inl (version_snapshot i t)), t) else (Inl e, t)
    | (Inr b, t) \<Rightarrow> (Inr (Inr b), t)) = (Inr b, s')"
    using assms unfolding owner_update_board_def by (elim bindA_InrE) (auto split: prod.splits)
  moreover obtain r t where u: "update_board_ex i (cu_id cur) p adm s = (r, t)" by fastforce
  ultimately have t: "t = s'" by (auto split: sum.splits if_splits)
  show ?thesis
  proof (cases r)
    case (Inl e)
    then have "t = s" using update_board_raises u by blast
    with t show ?thesis by simp
  next
    case (Inr b')
    show ?thesis by (rule update_board_effect[OF u[unfolded Inr t]])
  qed
qed

lemma patched_keeps [simp]:
  "bd_id (patched p b) = bd_id b" "bd_slug (patched p b) = bd_slug b" "bd_owner_id (patched p b) = bd_owner_id b"
  "bd_version (patched p b) = bd_version b"
  by (simp_all add: patched_def)

lemma grow_append: "boards s' = boards s @ bs \<Longrightarrow> boards_grow s s'"
  unfolding boards_grow_def using board_later_refl by (metis Un_iff set_append)

lemma grow_map: "boards s' = map f (boards s) \<Longrightarrow> (\<And>b. board_later b (f b)) \<Longrightarrow> boards_grow s s'"
  by (auto simp: boards_grow_def)

lemma grow_trans: "boards_grow s t \<Longrightarrow> boards_grow t r \<Longrightarrow> boards_grow s r"
  unfolding boards_grow_def by (meson board_later_trans)

definition same_people :: "(board \<Rightarrow> board) \<Rightarrow> bool" where
  "same_people f \<longleftrightarrow> (\<forall>b. bd_id (f b) = bd_id b \<and> bd_slug (f b) = bd_slug b \<and> bd_owner_id (f b) = bd_owner_id b)"

lemma inv_edit:
  assumes "board_inv s" and "same_people f"
  shows "board_inv (s\<lparr>boards := map f (boards s)\<rparr>)"
proof -
  have "map bd_id (map f (boards s)) = map bd_id (boards s)" "map bd_slug (map f (boards s)) = map bd_slug (boards s)"
    using assms(2) by (simp_all add: same_people_def)
  with assms show ?thesis by (auto simp: board_inv_def same_people_def simp del: map_map)
qed

lemma inv_new_board:
  assumes "board_inv s" and "bd_slug b \<notin> bd_slug ` set (boards s)" and "bd_id b \<notin> bd_id ` set (boards s)"
  shows "board_inv (s\<lparr>boards := boards s @ [b]\<rparr>)"
  using assms by (auto simp: board_inv_def)

lemma inv_frame:
  "boards s' = boards s \<Longrightarrow> board_applications s' = board_applications s \<Longrightarrow> board_inv s' = board_inv s"
  by (simp add: board_inv_def)

lemma sorted_wrt_snoc: "sorted_wrt P (xs @ [x]) \<longleftrightarrow> sorted_wrt P xs \<and> (\<forall>y\<in>set xs. P y x)"
  by (simp add: sorted_wrt_append)

lemma latest_rejected_bound:
  assumes "a \<in> set (board_applications s)" and "ba_applicant_id a = u" and "ba_slug a = slug" and "ba_status a = ''rejected''"
    and "ba_reviewed_at a = Some r"
  shows "\<exists>b. latest_rejected u slug s = Some b \<and> (ba_reviewed_at b = None \<or> (\<exists>r'. ba_reviewed_at b = Some r' \<and> r \<le> r'))"
proof -
  define key where "key = (\<lambda>a :: board_application. case ba_reviewed_at a of None \<Rightarrow> (0, 0) | Some t \<Rightarrow> (1 :: int, - t))"
  define xs where "xs = sort_key key (filter (\<lambda>a. ba_applicant_id a = u \<and> ba_slug a = slug \<and> ba_status a = ''rejected'') (board_applications s))"
  have a: "a \<in> set xs" using assms by (simp add: xs_def)
  then obtain b ys where xs: "xs = b # ys" by (cases xs) auto
  have "sorted (map key xs)" by (simp add: xs_def)
  with a xs have "key b \<le> key a" by auto
  moreover have "latest_rejected u slug s = Some b" using xs by (simp add: latest_rejected_def xs_def key_def)
  ultimately show ?thesis using assms(5) by (auto simp: key_def less_eq_prod_def split: option.splits)
qed

lemma latest_rejected_mem:
  assumes "latest_rejected u slug s = Some c"
  shows "c \<in> set (board_applications s) \<and> ba_status c = ''rejected''"
proof -
  define xs where "xs = sort_key (\<lambda>a :: board_application. case ba_reviewed_at a of None \<Rightarrow> (0, 0) | Some t \<Rightarrow> (1 :: int, - t))
    (filter (\<lambda>a. ba_applicant_id a = u \<and> ba_slug a = slug \<and> ba_status a = ''rejected'') (board_applications s))"
  have "c \<in> set xs" using assms by (auto simp: latest_rejected_def xs_def[symmetric] split: list.splits)
  then show ?thesis by (simp add: xs_def)
qed

lemma apply_effect:
  assumes "submit_application u x s = (Inr a, s')"
  shows "\<exists>n. s' = s\<lparr>pk_ix := n, board_applications := board_applications s @ [a]\<rparr>"
    and "ba_status a = ''pending''" "ba_slug a = ac_slug x" "ba_applicant_id a = u" "ba_created_at a = now s"
    and "ba_id a \<notin> ba_id ` set (board_applications s)"
    and "\<not> application_slug_taken (ac_slug x) s"
    and "latest_rejected u (ac_slug x) s = Some b \<Longrightarrow> ba_reviewed_at b = Some r \<Longrightarrow> r + COOLDOWN \<le> now s"
  using assms
  by (auto simp: submit_application_def Let_def fresh_pk_def insert_application_def list_ex_iff assert_reapply_allowed_def guardR_def
      bindA_def split: if_splits sum.splits prod.splits option.splits)

lemma inv_apply:
  assumes inv: "board_inv s" and run: "submit_application u x s = (Inr a, s')"
  shows "board_inv s'"
proof -
  note e = apply_effect[OF run]
  obtain n where s': "s' = s\<lparr>pk_ix := n, board_applications := board_applications s @ [a]\<rparr>" using e(1) by blast
  have free: "ba_slug b \<noteq> ac_slug x \<or> ba_status b = ''rejected''" if "b \<in> set (board_applications s)" for b
    using e(7) that by (auto simp: application_slug_taken_def list_ex_iff)
  have cool: "cooled b a" if b: "b \<in> set (board_applications s)" for b
  proof (cases "ba_applicant_id b = u \<and> ba_slug b = ac_slug x")
    case True
    with free[OF b] have rej: "ba_status b = ''rejected''" by blast
    then obtain r where r: "ba_reviewed_at b = Some r" using inv b by (auto simp: board_inv_def)
    obtain c where c: "latest_rejected u (ac_slug x) s = Some c" "ba_reviewed_at c = None \<or> (\<exists>r'. ba_reviewed_at c = Some r' \<and> r \<le> r')"
      using latest_rejected_bound[OF b _ _ rej r, of u "ac_slug x"] True by blast
    have "c \<in> set (board_applications s) \<and> ba_status c = ''rejected''"
      by (rule latest_rejected_mem[OF c(1)])
    then have "ba_reviewed_at c \<noteq> None" using inv by (auto simp: board_inv_def)
    then obtain r' where "ba_reviewed_at c = Some r'" "r \<le> r'" using c(2) by auto
    with e(8)[OF c(1)] have "r + COOLDOWN \<le> now s" by fastforce
    with rej r e(5) show ?thesis by (simp add: cooled_def)
  next
    case False
    with e(3,4) show ?thesis by (auto simp: cooled_def)
  qed
  have "ba_slug a \<notin> ba_slug ` set (filter (\<lambda>a. ba_status a \<noteq> ''rejected'') (board_applications s))"
    using free e(3) by auto
  with inv cool e(2,6) show ?thesis unfolding s' by (auto simp: board_inv_def sorted_wrt_snoc)
qed

lemma review_effect:
  assumes "review_board_application audit i reviewer approve remark s = (Inr r, s')"
  obtains a where "application_by_id i s = Some a" and "ba_status a = ''pending''"
    and "\<not> approve \<Longrightarrow> s' = s\<lparr>board_applications :=
        map (\<lambda>x. if ba_id x = i then reviewed approve reviewer remark (now s) x else x) (board_applications s)\<rparr>"
    and "approve \<Longrightarrow> \<exists>n b. s' = s\<lparr>board_applications :=
        map (\<lambda>x. if ba_id x = i then reviewed approve reviewer remark (now s) x else x) (board_applications s),
        pk_ix := n, boards := boards s @ [b]\<rparr>
      \<and> bd_slug b = ba_slug a \<and> bd_owner_id b = Some (ba_applicant_id a)
      \<and> bd_slug b \<notin> bd_slug ` set (boards s) \<and> bd_id b \<notin> bd_id ` set (boards s)"
proof -
  define t where "t = s\<lparr>board_applications :=
      map (\<lambda>x. if ba_id x = i then reviewed approve reviewer remark (now s) x else x) (board_applications s)\<rparr>"
  obtain a b where a: "application_by_id i s = Some a" "ba_status a = ''pending''"
    and no: "\<not> approve \<Longrightarrow> s' = t"
    and yes: "approve \<Longrightarrow> create_board_ex \<lparr>bc_slug = ba_slug a, bc_title = ba_title a, bc_description = ba_description a,
      bc_parent_id = None, bc_require_certified = False, bc_daily_post_limit = 0, bc_is_public = True\<rparr>
      (Some (ba_applicant_id a)) t = (Inr b, s')"
    using assms unfolding review_board_application_def t_def
    by (cases approve) (auto split: if_splits elim!: bindA_InrE)
  have "\<exists>n b. s' = t\<lparr>pk_ix := n, boards := boards t @ [b]\<rparr> \<and> bd_slug b = ba_slug a \<and> bd_owner_id b = Some (ba_applicant_id a)
      \<and> bd_slug b \<notin> bd_slug ` set (boards t) \<and> bd_id b \<notin> bd_id ` set (boards t)" if approve
    using create_board_effect[OF yes[OF that]] by auto
  then show thesis using that[OF a] no by (auto simp: t_def)
qed

lemma inv_reviewed:
  assumes inv: "board_inv s" and a: "application_by_id i s = Some a" "ba_status a = ''pending''"
    and board: "approve \<Longrightarrow> \<exists>b\<in>set bs. bd_slug b = ba_slug a \<and> bd_owner_id b = Some (ba_applicant_id a)"
    and bs: "set (boards s) \<subseteq> set bs" "distinct (map bd_id bs)" "distinct (map bd_slug bs)"
  and s': "boards s' = bs"
    "board_applications s' = map (\<lambda>x. if ba_id x = i then reviewed approve reviewer remark t x else x) (board_applications s)"
  shows "board_inv s'"
proof -
  let ?f = "\<lambda>x. if ba_id x = i then reviewed approve reviewer remark t x else x"
  have am: "a \<in> set (board_applications s)" "ba_id a = i" using a(1) by (auto simp: application_by_id_def find_Some_iff)
  have only: "x = a" if "x \<in> set (board_applications s)" "ba_id x = i" for x
    using inv that am by (auto simp: board_inv_def distinct_map inj_on_def)
  have ids: "map ba_id (map ?f (board_applications s)) = map ba_id (board_applications s)"
    by (simp add: reviewed_def)
  have cooled: "cooled x y \<Longrightarrow> x \<in> set (board_applications s) \<Longrightarrow> cooled (?f x) (?f y)" for x y
    using a(2) only[of x] by (auto simp: cooled_def reviewed_def)
  have sw: "sorted_wrt cooled (map ?f (board_applications s))"
    unfolding sorted_wrt_map
    by (rule sorted_wrt_mono_rel[where P = cooled]) (use inv cooled in \<open>auto simp: board_inv_def\<close>)
  have sl: "distinct (map ba_slug (filter (\<lambda>a. ba_status a \<noteq> ''rejected'') (map ?f xs)))"
    if "distinct (map ba_slug (filter (\<lambda>a. ba_status a \<noteq> ''rejected'') xs))" "set xs \<subseteq> set (board_applications s)" for xs
  proof -
    have sub: "set (map ba_slug (filter (\<lambda>a. ba_status a \<noteq> ''rejected'') (map ?f ys)))
        \<subseteq> set (map ba_slug (filter (\<lambda>a. ba_status a \<noteq> ''rejected'') ys))" if "set ys \<subseteq> set (board_applications s)" for ys
      using that only a(2) by (auto simp: reviewed_def split: if_splits)
    from that show ?thesis
    proof (induction xs)
      case (Cons x xs)
      have x: "x \<in> set (board_applications s)" "set xs \<subseteq> set (board_applications s)" using Cons.prems(2) by auto
      have ih: "distinct (map ba_slug (filter (\<lambda>a. ba_status a \<noteq> ''rejected'') (map ?f xs)))"
        using Cons by (auto split: if_splits)
      show ?case
      proof (cases "ba_status (?f x) \<noteq> ''rejected''")
        case True
        have "ba_status x \<noteq> ''rejected''" using True only[OF x(1)] a(2) by (auto split: if_splits)
        then have "ba_slug x \<notin> set (map ba_slug (filter (\<lambda>a. ba_status a \<noteq> ''rejected'') xs))" using Cons.prems(1) by simp
        then have "ba_slug x \<notin> set (map ba_slug (filter (\<lambda>a. ba_status a \<noteq> ''rejected'') (map ?f xs)))" using sub[OF x(2)] by blast
        moreover have "ba_slug (?f x) = ba_slug x" by (simp add: reviewed_def)
        ultimately show ?thesis using ih True by simp
      next
        case False
        then show ?thesis using ih by simp
      qed
    qed simp
  qed
  have st: "ba_status (?f x) \<in> {''pending'', ''approved'', ''rejected''} \<and> (ba_status (?f x) = ''rejected'' \<longrightarrow> ba_reviewed_at (?f x) \<noteq> None)
      \<and> (ba_status (?f x) = ''approved'' \<longrightarrow> (\<exists>b\<in>set bs. bd_slug b = ba_slug (?f x) \<and> bd_owner_id b = Some (ba_applicant_id (?f x))))"
    if x: "x \<in> set (board_applications s)" for x
  proof (cases "ba_id x = i")
    case True
    then show ?thesis using board only[OF x] by (simp add: reviewed_def)
  next
    case False
    have "ba_status x \<in> {''pending'', ''approved'', ''rejected''} \<and> (ba_status x = ''rejected'' \<longrightarrow> ba_reviewed_at x \<noteq> None)
      \<and> (ba_status x = ''approved'' \<longrightarrow> (\<exists>b\<in>set (boards s). bd_slug b = ba_slug x \<and> bd_owner_id b = Some (ba_applicant_id x)))"
      using inv x unfolding board_inv_def by blast
    then show ?thesis using bs(1) False by (simp only: if_False) blast
  qed
  have "\<forall>x\<in>set (map ?f (board_applications s)). ba_status x \<in> {''pending'', ''approved'', ''rejected''}
      \<and> (ba_status x = ''rejected'' \<longrightarrow> ba_reviewed_at x \<noteq> None)
      \<and> (ba_status x = ''approved'' \<longrightarrow> (\<exists>b\<in>set bs. bd_slug b = ba_slug x \<and> bd_owner_id b = Some (ba_applicant_id x)))"
    using st unfolding set_map by blast
  moreover have "distinct (map ba_id (board_applications s))"
    "distinct (map ba_slug (filter (\<lambda>a. ba_status a \<noteq> ''rejected'') (board_applications s)))"
    using inv unfolding board_inv_def by blast+
  ultimately show ?thesis unfolding board_inv_def s' ids
    using bs(2,3) sw sl[of "board_applications s"] by blast
qed

text \<open>What of a request that returns is left: a relation between the state before and after.\<close>

definition board_kept :: "'s forum_db_scheme \<Rightarrow> 's forum_db_scheme \<Rightarrow> bool" where
  "board_kept s s' \<longleftrightarrow> (board_inv s \<longrightarrow> board_inv s') \<and> boards_grow s s'"

lemma board_kept_frame: "boards s' = boards s \<Longrightarrow> board_applications s' = board_applications s \<Longrightarrow> board_kept s s'"
  by (simp add: board_kept_def inv_frame[of s' s] grow_append[of s' s "[]"])

lemma board_kept_edit:
  assumes "s' = s \<or> s' = s\<lparr>boards := map (cas_edit i v (patched p) t) (boards s)\<rparr>"
  shows "board_kept s s'"
  using assms
proof
  assume s': "s' = s\<lparr>boards := map (cas_edit i v (patched p) t) (boards s)\<rparr>"
  have "same_people (cas_edit i v (patched p) t)" by (simp add: same_people_def cas_edit_def)
  then have "board_inv s \<longrightarrow> board_inv s'" using inv_edit s' by blast
  moreover have "boards_grow s s'" by (rule grow_map[of s' "cas_edit i v (patched p) t"]) (simp_all add: s' cas_edit_def board_later_def)
  ultimately show ?thesis by (simp add: board_kept_def)
qed (simp add: board_kept_frame)

lemma board_kept_new:
  assumes "board_applications s' = board_applications s" and "boards s' = boards s @ [b]"
    and "bd_slug b \<notin> bd_slug ` set (boards s)" and "bd_id b \<notin> bd_id ` set (boards s)"
  shows "board_kept s s'"
  unfolding board_kept_def
proof
  show "boards_grow s s'" by (rule grow_append[OF assms(2)])
  show "board_inv s \<longrightarrow> board_inv s'"
    using inv_new_board[of s b] assms inv_frame[of s' "s\<lparr>boards := boards s @ [b]\<rparr>"] by simp
qed

lemma board_kept_apply: "submit_application u x s = (Inr a, s') \<Longrightarrow> board_kept s s'"
  using inv_apply[of s u x a s'] apply_effect(1)[of u x s a s'] grow_append[of s' s "[]"] by (auto simp: board_kept_def)

lemma board_kept_review:
  assumes "review_board_application audit i reviewer approve remark s = (Inr r, s')"
  shows "board_kept s s'"
proof -
  obtain a where a: "application_by_id i s = Some a" "ba_status a = ''pending''"
    and no: "\<not> approve \<Longrightarrow> s' = s\<lparr>board_applications :=
        map (\<lambda>x. if ba_id x = i then reviewed approve reviewer remark (now s) x else x) (board_applications s)\<rparr>"
    and yes: "approve \<Longrightarrow> \<exists>n b. s' = s\<lparr>board_applications :=
        map (\<lambda>x. if ba_id x = i then reviewed approve reviewer remark (now s) x else x) (board_applications s),
        pk_ix := n, boards := boards s @ [b]\<rparr>
      \<and> bd_slug b = ba_slug a \<and> bd_owner_id b = Some (ba_applicant_id a)
      \<and> bd_slug b \<notin> bd_slug ` set (boards s) \<and> bd_id b \<notin> bd_id ` set (boards s)"
    using review_effect[OF assms] by blast
  show ?thesis
  proof (cases approve)
    case True
    then obtain n b where s': "s' = s\<lparr>board_applications :=
        map (\<lambda>x. if ba_id x = i then reviewed approve reviewer remark (now s) x else x) (board_applications s),
        pk_ix := n, boards := boards s @ [b]\<rparr>"
      and b: "bd_slug b = ba_slug a" "bd_owner_id b = Some (ba_applicant_id a)"
      "bd_slug b \<notin> bd_slug ` set (boards s)" "bd_id b \<notin> bd_id ` set (boards s)" using yes by blast
    have "board_inv s'" if "board_inv s"
      by (rule inv_reviewed[OF that a, where bs = "boards s @ [b]" and approve = approve and reviewer = reviewer and remark = remark and t = "now s"])
        (use b that in \<open>auto simp: s' board_inv_def\<close>)
    moreover have "boards_grow s s'" by (rule grow_append[where bs = "[b]"]) (simp add: s')
    ultimately show ?thesis by (simp add: board_kept_def)
  next
    case False
    have "board_inv s'" if "board_inv s"
      by (rule inv_reviewed[OF that a, where bs = "boards s" and approve = approve and reviewer = reviewer and remark = remark and t = "now s"])
        (use False that no in \<open>auto simp: board_inv_def\<close>)
    moreover have "boards_grow s s'" by (rule grow_append[where bs = "[]"]) (simp add: no[OF False])
    ultimately show ?thesis by (simp add: board_kept_def)
  qed
qed

lemma board_kept_work:
  assumes "board_work rb r s = (Inr u, s')"
  shows "board_kept s s'"
proof (cases r)
  case (Create_board x)
  then obtain b where b: "create_board_ex x None s = (Inr b, s')" using assms by (auto simp: valid_or_def split: if_splits)
  show ?thesis using create_board_effect[OF b] board_kept_new[of s' s b] by auto
next
  case (Update_board cur i p)
  then obtain b where b: "owner_update_board cur rb i p s = (Inr b, s')" using assms by (auto simp: valid_or_def split: if_splits)
  show ?thesis by (rule board_kept_edit[OF owner_update_effect[OF b]])
next
  case (Apply u x)
  then show ?thesis using assms board_kept_apply by (auto simp: valid_or_def split: if_splits)
next
  case (Review_application audit i reviewer approve remark)
  then obtain a where "review_board_application audit i reviewer approve remark s = (Inr a, s')"
    using assms by (auto simp: valid_or_def split: if_splits option.splits)
  then show ?thesis by (rule board_kept_review)
next
  case (Ban cur i x)
  then have "boards s' = boards s \<and> board_applications s' = board_applications s" using assms
    by (auto simp: valid_or_def ban_or_unban_def get_board_ex_def board_or_raise_def ban_user_def Let_def fresh_pk_def split: if_splits)
  then show ?thesis by (simp add: board_kept_frame)
next
  case (Unban cur i x)
  then have "boards s' = boards s \<and> board_applications s' = board_applications s" using assms
    by (auto simp: valid_or_def ban_or_unban_def get_board_ex_def board_or_raise_def unban_user_def split: if_splits)
  then show ?thesis by (simp add: board_kept_frame)
next
  case (Board_tick n)
  then show ?thesis using assms by (auto intro: board_kept_frame)
qed

lemma board_kept_handle: "board_kept s (board_handle reg rb r s)"
  using board_kept_work[of rb r s] by (cases "board_work rb r s")
    (auto simp: board_handle_def forum_session_def forum_roll_back_def intro!: board_kept_frame split: sum.splits)

lemma board_kept_run: "board_kept s (board_run reg rb rs s)"
proof (induction rs arbitrary: s)
  case Nil
  show ?case by (simp add: board_kept_frame)
next
  case (Cons r rs)
  from board_kept_handle[of s reg rb r] Cons[of "board_handle reg rb r s"] show ?case
    by (auto simp: board_kept_def dest: grow_trans)
qed

section \<open>Properties\<close>

text \<open>C32: Boards, applications and the waiting time.  Whatever is created, changed, applied for, reviewed, banned, in any order and
  refused or not: no two boards share a slug; a slug has at most one application that is not rejected; whoever was approved owns
  the board of that slug; and between two applications of one person for one slug the earlier was rejected at least 24 hours
  before the later.\<close>
theorem boards_and_applications:
  assumes "boards s = []" and "board_applications s = []"
  shows "let t = board_run reg rb rs s
     in distinct (map bd_slug (boards t))
        \<and> distinct (map ba_slug (filter (\<lambda>a. ba_status a \<noteq> ''rejected'') (board_applications t)))
        \<and> (\<forall>a\<in>set (board_applications t). ba_status a = ''approved'' \<longrightarrow>
             (\<exists>b\<in>set (boards t). bd_slug b = ba_slug a \<and> bd_owner_id b = Some (ba_applicant_id a)))
        \<and> (\<forall>i j a b. i < j \<and> j < length (board_applications t) \<and> a = board_applications t ! i \<and> b = board_applications t ! j
             \<and> ba_applicant_id a = ba_applicant_id b \<and> ba_slug a = ba_slug b \<longrightarrow>
             ba_status a = ''rejected'' \<and> (\<exists>r. ba_reviewed_at a = Some r \<and> r + 24 * 3600000000 \<le> ba_created_at b))"
proof -
  have "board_inv s" using assms by (simp add: board_inv_def)
  then have inv: "board_inv (board_run reg rb rs s)" using board_kept_run by (auto simp: board_kept_def)
  then have "sorted_wrt cooled (board_applications (board_run reg rb rs s))" by (simp add: board_inv_def)
  then have "cooled (board_applications (board_run reg rb rs s) ! i) (board_applications (board_run reg rb rs s) ! j)"
    if "i < j" "j < length (board_applications (board_run reg rb rs s))" for i j
    using that by (simp add: sorted_wrt_iff_nth_less)
  then have c: "\<forall>i j a b. i < j \<and> j < length (board_applications t) \<and> a = board_applications t ! i \<and> b = board_applications t ! j
             \<and> ba_applicant_id a = ba_applicant_id b \<and> ba_slug a = ba_slug b \<longrightarrow>
             ba_status a = ''rejected'' \<and> (\<exists>r. ba_reviewed_at a = Some r \<and> r + 24 * 3600000000 \<le> ba_created_at b)"
    if "t = board_run reg rb rs s" for t
    unfolding that cooled_def COOLDOWN_def by blast
  show ?thesis using inv c[OF refl] unfolding Let_def board_inv_def by blast
qed

definition applicant0 :: current_user where
  "applicant0 = \<lparr>cu_id = 7, cu_account_level = ''normal'', cu_role = ''member'', cu_active_roles = None, cu_email = None, cu_phone = None\<rparr>"

definition apply0 :: application_create where
  "apply0 = \<lparr>ac_title = ''t'', ac_description = ''d'', ac_reason = ''r'', ac_slug = ''go''\<rparr>"

definition board_requests0 :: "board_request list" where
  "board_requests0 = [Apply 7 apply0, Review_application (Inr ()) 0 3 False None, Apply 7 apply0, Board_tick 86400000000,
     Apply 7 apply0, Review_application (Inr ()) 1 3 True None]"

lemmas board_eval = bindA_def board_by_id_def get_board_ex_def board_or_raise_def board_requests0_def apply0_def board_handle_def forum_session_def forum_roll_back_def valid_or_def
  application_ok_def slug_chars_def submit_application_def has_pending_def application_slug_taken_def board_slug_taken_def
  latest_rejected_def assert_reapply_allowed_def COOLDOWN_def insert_application_def review_board_application_def
  application_by_id_def reviewed_def create_board_ex_def parent_exists_def insert_board_def new_board_def fresh_pk_def Let_def

theorem boards_and_applications_witness:
  "let t = board_run [] rbac_db0 board_requests0 forum0
   in map ba_status (board_applications t) = [''rejected'', ''approved''] \<and> map bd_slug (boards t) = [''go'']
      \<and> (\<exists>b. b \<in> set (boards t) \<and> bd_slug b = ''go'' \<and> bd_owner_id b = Some 7)"
proof -
  define t where "t = board_run [] rbac_db0 board_requests0 forum0"
  have a: "map (\<lambda>a. (ba_status a, ba_slug a, ba_applicant_id a)) (board_applications t) = [(''rejected'', ''go'', 7), (''approved'', ''go'', 7)]"
    and b: "map bd_slug (boards t) = [''go'']"
    by (simp_all add: t_def board_eval)
  have "(''approved'', ''go'', 7) \<in> set (map (\<lambda>a. (ba_status a, ba_slug a, ba_applicant_id a)) (board_applications t))"
    unfolding a by simp
  then obtain x where x: "x \<in> set (board_applications t)" "ba_status x = ''approved''" "ba_slug x = ''go''" "ba_applicant_id x = 7"
    by auto
  have "\<exists>b\<in>set (boards t). bd_slug b = ba_slug x \<and> bd_owner_id b = Some (ba_applicant_id x)"
    using boards_and_applications[of forum0 "[]" rbac_db0 board_requests0] x(1,2) unfolding Let_def t_def[symmetric] by simp
  moreover have "map ba_status (board_applications t) = [''rejected'', ''approved'']"
    using arg_cong[OF a, of "map fst"] by (simp add: comp_def)
  ultimately show ?thesis using x(3,4) b unfolding Let_def t_def[symmetric] by auto
qed

text \<open>C33: A stale edit is never applied.  Once an edit of a board with version \<open>v\<close> went through, any later edit that still carries
  \<open>v\<close>, whatever requests came in between, by whoever may edit the board, changes nothing and is answered with the current values
  and a newer version.\<close>
theorem stale_edit_refused:
  assumes inv: "board_inv s" and first: "update_board_ex i u p adm s = (Inr b, s1)" and v: "bu_version p = Some v"
    and s2: "s2 = board_run reg rb rs s1" and stale: "bu_version p' = Some v"
    and may: "check_row_owner cur (map_option bd_owner_id (board_by_id i s2)) board_owner_manage rb' = Inr delegated"
  shows "\<exists>v' slug title. owner_update_board cur rb' i p' s2 = (Inr (Inl (i, Some (v', slug, title))), s2) \<and> v < v'"
proof -
  have "update_cas i (bu_version p) (patched p) s = (Inr b, s1)"
    using first v by (auto simp: update_board_ex_def get_board_ex_def board_or_raise_def split: if_splits elim!: bindA_InrE)
  note cas = update_cas_effect[OF this]
  obtain b0 where b0: "b0 \<in> set (boards s)" "bd_id b0 = i" "bd_version b0 = v"
    using cas(2) v by (auto simp: cas_hit_def is_set_def)
  define b1 where "b1 = cas_edit i (bu_version p) (patched p) (now s) b0"
  have b1: "b1 \<in> set (boards s1)" "bd_id b1 = i" "bd_version b1 = v + 1"
    using b0 v by (auto simp: cas(1) b1_def cas_edit_def cas_hit_def is_set_def)
  have k1: "board_kept s s1" by (rule board_kept_edit[OF update_board_effect[OF first]])
  have k2: "board_kept s1 s2" unfolding s2 by (rule board_kept_run)
  then obtain b2 where b2: "b2 \<in> set (boards s2)" "bd_id b2 = i" "v < bd_version b2"
    using b1 unfolding board_kept_def boards_grow_def board_later_def by force
  have d: "distinct (map bd_id (boards s2))" using inv k1 k2 by (simp add: board_kept_def board_inv_def)
  have at: "board_by_id i s2 = Some b2" using find_key[OF d b2(1)] b2(2) by (simp add: board_by_id_def)
  have miss: "\<not> cas_hit i (Some v) x" if "x \<in> set (boards s2)" for x
    using that d b2 by (auto simp: cas_hit_def is_set_def distinct_map inj_on_def)
  then have none: "find (cas_hit i (Some v)) (boards s2) = None" by (simp add: find_None_iff)
  have own: "assert_board_owner b2 (cu_id cur) delegated = Inr ()"
    using may at by (auto simp: check_row_owner_def check_owner_id_def assert_board_owner_def split: if_splits)
  have "\<not> is_set (Some v) (\<lambda>v. bd_version b2 = v)" using b2(3) by (simp add: is_set_def)
  then have "update_board_ex i (cu_id cur) p' delegated s2 = (Inl (BizError (CommonErr common_err.VERSION_CONFLICT)), s2)"
    using at own none stale by (simp add: update_board_ex_def get_board_ex_def board_or_raise_def bindA_def update_cas_def)
  then show ?thesis using may at b2(3) by (simp add: owner_update_board_def bindA_def version_snapshot_def)
qed

definition board0 :: board where
  "board0 = (new_board 5 ''go'' ''t'' ''d'' 0)\<lparr>bd_owner_id := Some 7\<rparr>"

definition rename0 :: "string \<Rightarrow> board_update" where
  "rename0 t = \<lparr>bu_title = Some t, bu_description = None, bu_parent_id = None, bu_require_certified = None,
     bu_daily_post_limit = None, bu_is_public = None, bu_version = Some 1\<rparr>"

theorem stale_edit_refused_witness:
  "\<exists>v' slug title. owner_update_board applicant0 rbac_db0 5 (rename0 ''b'')
     (snd (update_board_ex 5 7 (rename0 ''a'') False (forum0\<lparr>boards := [board0]\<rparr>)))
     = (Inr (Inl (5, Some (v', slug, title))), snd (update_board_ex 5 7 (rename0 ''a'') False (forum0\<lparr>boards := [board0]\<rparr>))) \<and> 1 < v'"
proof -
  let ?s = "forum0\<lparr>boards := [board0]\<rparr>"
  have inv: "board_inv ?s" by (simp add: board_inv_def)
  obtain b s1 where run: "update_board_ex 5 7 (rename0 ''a'') False ?s = (Inr b, s1)" and s1: "map bd_owner_id (boards s1) = [Some 7]"
      "map bd_id (boards s1) = [5]"
    by (simp add: update_board_ex_def get_board_ex_def board_or_raise_def board_by_id_def assert_board_owner_def board0_def new_board_def bindA_def
        rename0_def parent_exists_def or_old_def update_cas_def cas_hit_def cas_edit_def is_set_def patched_def sets_nothing_def)
  have "check_row_owner applicant0 (map_option bd_owner_id (board_by_id 5 s1)) board_owner_manage rbac_db0 = Inr False"
    using s1 by (auto simp: board_by_id_def check_row_owner_def check_owner_id_def applicant0_def map_eq_Cons_conv)
  note stale = stale_edit_refused[OF inv run _ refl, where v = 1 and p' = "rename0 ''b''" and reg = "[]" and rb = rbac_db0 and rb' = rbac_db0 and rs = "[]",
      unfolded board_run.simps, OF _ _ this]
  show ?thesis unfolding run snd_conv by (rule stale) (simp_all add: rename0_def)
qed

end
