(* ===== verification/Content_Items.thy ===== *)
theory Content_Items
  imports Boards
begin

text \<open>
  What is done with content: items (\<open>app/modules/content/service.py\<close>, \<open>content/router.py\<close>), reports of them
  (\<open>admin/reports_writer.py\<close>), publication from a blog, comments (\<open>app/modules/comment/service.py\<close>), favourites and the history of
  views (\<open>app/modules/interaction/service.py\<close>), with the texts derived from what was sent; and the lists.
\<close>

section \<open>Texts\<close>

text \<open>The first substitution of \<open>_excerpt_of\<close>, \<open><[^>]+>\<close> by a space, and the second, a run of white space by a space.\<close>

function blank_tags :: "string \<Rightarrow> string" where
  "blank_tags [] = []"
| "blank_tags (c # cs) =
     (let body = takeWhile (\<lambda>d. d \<noteq> CHR ''>'') cs; rest = dropWhile (\<lambda>d. d \<noteq> CHR ''>'') cs
      in if c = CHR ''<'' \<and> body \<noteq> [] \<and> rest \<noteq> [] then CHR '' '' # blank_tags (tl rest) else c # blank_tags cs)"
  by pat_completeness auto
termination
proof (relation "measure length", goal_cases)
  case (2 c cs body rest)
  then have "length rest \<le> length cs" by (simp add: length_dropWhile_le)
  with 2 show ?case by (cases rest) auto
qed auto

function blank_runs :: "string \<Rightarrow> string" where
  "blank_runs [] = []"
| "blank_runs (c # cs) = (if py_space c then CHR '' '' # blank_runs (dropWhile py_space cs) else c # blank_runs cs)"
  by pat_completeness auto
termination by (relation "measure length") (auto simp: less_Suc_eq_le length_dropWhile_le)

definition excerpt_of :: "string \<Rightarrow> string" where
  "excerpt_of content =
     (let t = py_strip (blank_runs (blank_tags content))
      in if length t \<le> 150 then t else py_rstrip (take 150 t) @ ''...'')"

lemma length_py_rstrip: "length (py_rstrip t) \<le> length t"
  unfolding py_rstrip_def by (metis length_dropWhile_le length_rev)

lemma excerpt_fits: "length (excerpt_of t) \<le> 153"
proof -
  have "length (py_rstrip (take 150 u)) \<le> 150" for u
    using length_py_rstrip[of "take 150 u"] by (rule order_trans) simp
  then show ?thesis by (simp add: excerpt_of_def Let_def)
qed

definition reading_time :: "string \<Rightarrow> int" where
  "reading_time content = (if content = [] then 0 else max 1 (int (length content) div 300))"

text \<open>\<open>json.dumps(..., ensure_ascii=False)\<close> of a list of strings.\<close>

definition json_char :: "char \<Rightarrow> string" where
  "json_char c =
     (let n = of_char c :: nat; hex = ''0123456789abcdef''
      in if c = CHR 0x22 \<or> n = 92 then [char_of (92 :: nat), c]
         else if n = 8 then [char_of (92 :: nat), CHR ''b''] else if n = 9 then [char_of (92 :: nat), CHR ''t'']
         else if n = 10 then [char_of (92 :: nat), CHR ''n''] else if n = 12 then [char_of (92 :: nat), CHR ''f'']
         else if n = 13 then [char_of (92 :: nat), CHR ''r'']
         else if n < 32 then char_of (92 :: nat) # ''u00'' @ [hex ! (n div 16), hex ! (n mod 16)] else [c])"

definition json_string :: "string \<Rightarrow> string" where
  "json_string t = CHR 0x22 # concat (map json_char t) @ [CHR 0x22]"

fun json_items :: "string list \<Rightarrow> string" where
  "json_items [] = []"
| "json_items [t] = json_string t"
| "json_items (t # ts) = json_string t @ '', '' @ json_items ts"

definition json_dumps :: "string list \<Rightarrow> string" where
  "json_dumps ts = ''['' @ json_items ts @ '']''"

section \<open>Writing and removing items\<close>

text \<open>An operation that returns a new state or raises.\<close>

definition storeA :: "('s \<Rightarrow> exc + 's) \<Rightarrow> ('s, unit) act" where
  "storeA f s = (case f s of Inl e \<Rightarrow> (Inl e, s) | Inr s' \<Rightarrow> (Inr (), s'))"

definition CONTENT_TYPES :: "string list" where
  "CONTENT_TYPES = [''discussion'', ''article'', ''column_post'', ''blog_post'', ''qa'']"

record item_create =
  ic_content_type :: string
  ic_board_id :: uuid
  ic_title :: string
  ic_content :: string
  ic_summary :: "string option"
  ic_cover :: "string option"
  ic_tags :: "string list"
  ic_slug :: "string option"
  ic_publisher :: "string option"
  ic_department :: "string option"
  ic_keywords :: "string list"
  ic_column_id :: "uuid option"
  ic_qa_question_id :: "uuid option"
  ic_status :: string
  ic_is_pinned :: bool
  ic_is_featured :: bool

definition item_create_ok :: "item_create \<Rightarrow> bool" where
  "item_create_ok x \<longleftrightarrow> length (ic_title x) \<in> {1..200} \<and> length (ic_content x) \<in> {1..200000}
     \<and> is_set (ic_summary x) (\<lambda>t. length t \<le> 300) \<and> is_set (ic_cover x) (\<lambda>t. length t \<le> 2000)
     \<and> is_set (ic_slug x) (\<lambda>t. length t \<in> {1..200} \<and> slug_chars t) \<and> is_set (ic_publisher x) (\<lambda>t. length t \<le> 100)
     \<and> is_set (ic_department x) (\<lambda>t. length t \<le> 100) \<and> ic_status x \<in> {''draft'', ''pending'', ''published''}"

definition content_slug_taken :: "string \<Rightarrow> 's content_db_scheme \<Rightarrow> bool" where
  "content_slug_taken slug s = list_ex (\<lambda>c. ci_slug c = Some slug) (content_items s)"

definition require_unique_slug :: "string option \<Rightarrow> ('s content_db_scheme, unit) act" where
  "require_unique_slug slug =
     (case slug of None \<Rightarrow> retA ()
      | Some t \<Rightarrow> bindA (getA (content_slug_taken t)) (\<lambda>taken.
          guardA (t = [] \<or> \<not> taken) (BizError (ContentErr content_err.SLUG_TAKEN))))"

definition column_exists :: "uuid option \<Rightarrow> 's forum_db_scheme \<Rightarrow> bool" where
  "column_exists c s \<longleftrightarrow> (case c of None \<Rightarrow> False | Some i \<Rightarrow> list_ex (\<lambda>r. col_id r = i) (columns s))"

definition new_item :: "uuid \<Rightarrow> uuid \<Rightarrow> item_create \<Rightarrow> instant \<Rightarrow> content_item" where
  "new_item i author_id x t =
     \<lparr>ci_id = i, ci_content_type = ic_content_type x, ci_board_id = ic_board_id x, ci_author_id = Some author_id,
      ci_publisher = ic_publisher x, ci_department = ic_department x,
      ci_column_id = (if ic_content_type x = ''column_post'' then ic_column_id x else None),
      ci_slug = (if ic_content_type x = ''article'' then ic_slug x else None),
      ci_qa_question_id = (if ic_content_type x = ''qa'' then ic_qa_question_id x else None),
      ci_title = ic_title x, ci_excerpt = excerpt_of (ic_content x), ci_content = ic_content x, ci_summary = ic_summary x,
      ci_cover = ic_cover x, ci_keywords = (if ic_keywords x = [] then None else Some (json_dumps (ic_keywords x))),
      ci_lang = None, ci_tags = json_dumps (ic_tags x),
      ci_status = (if ic_content_type x = ''discussion'' then ''published'' else ic_status x),
      ci_is_pinned = ic_is_pinned x, ci_is_featured = ic_is_featured x, ci_view_count = 0, ci_like_count = 0,
      ci_comment_count = 0, ci_bookmark_count = 0, ci_forward_count = 0, ci_counts_reconciled_at = None, ci_version = 1,
      ci_created_at = t, ci_updated_at = t, ci_published_at = None, ci_deleted_at = None\<rparr>"

definition content_event :: "uuid \<Rightarrow> string \<Rightarrow> string option \<Rightarrow> ('s content_db_scheme, unit) act" where
  "content_event i status action s =
     storeA (\<lambda>s. bindR (enqueue_content_event (content_events_enabled s) i status action s) (\<lambda>(_, s). Inr s)) s"

definition points_event :: "uuid \<Rightarrow> string \<Rightarrow> string \<Rightarrow> ('s core_db_scheme, unit) act" where
  "points_event user_id event ref_id = storeA (enqueue_points_event user_id event ref_id)"

definition add_item :: "(uuid \<Rightarrow> instant \<Rightarrow> content_item) \<Rightarrow> ('s content_db_scheme, content_item) act" where
  "add_item f s = (let (i, s) = fresh_pk s; c = f i (now s)
     in case insert_content_item c s of Inl e \<Rightarrow> (Inl e, s) | Inr s' \<Rightarrow> (Inr c, s'))"

definition create_item :: "uuid \<Rightarrow> item_create \<Rightarrow> ('s forum_db_scheme, content_item) act" where
  "create_item author_id x =
     seqA (guardA (ic_content_type x \<in> set CONTENT_TYPES) (BizError (ContentErr content_err.UNSUPPORTED_TYPE)))
    (seqA (if ic_content_type x \<in> {''discussion'', ''column_post'', ''blog_post'', ''qa''}
           then check_post_allowed (ic_board_id x) author_id else retA ())
    (bindA (board_or_raise (ic_board_id x) (ContentErr content_err.BOARD_NOT_FOUND)) (\<lambda>_.
     bindA (getA (column_exists (ic_column_id x))) (\<lambda>column.
     seqA (guardA (ic_content_type x = ''column_post'' \<longrightarrow> column) (BizError (ContentErr content_err.COLUMN_NOT_FOUND)))
    (seqA (if ic_content_type x = ''article'' then require_unique_slug (ic_slug x) else retA ())
    (bindA (add_item (\<lambda>i t. new_item i author_id x t)) (\<lambda>c.
     seqA (content_event (ci_id c) (ci_status c) None)
    (seqA (points_event author_id ''post'' (''item:'' @ uuid_str (ci_id c)))
    (seqA (emitA (Bump ''content''))
    (retA c))))))))))"

text \<open>\<open>create_content_item\<close>: who may write which kind.\<close>

definition forbidA :: "bool \<Rightarrow> ('s, unit) act" where
  "forbidA c = guardA (\<not> c) (BizError (CommonErr common_err.FORBIDDEN))"

definition allowA :: "permission \<Rightarrow> current_user \<Rightarrow> 'r rbac_db_scheme \<Rightarrow> ('s, unit) act" where
  "allowA p cur rb = bindA (liftA (RequirePermission p cur rb)) (\<lambda>_. retA ())"

definition check_column_owner :: "current_user \<Rightarrow> 'r rbac_db_scheme \<Rightarrow> uuid option \<Rightarrow> ('s forum_db_scheme, unit) act" where
  "check_column_owner cur rb column =
     (case column of None \<Rightarrow> retA ()
      | Some i \<Rightarrow>
          bindA (getA (\<lambda>s. find (\<lambda>r. col_id r = i) (columns s))) (\<lambda>r.
            case r of None \<Rightarrow> forbidA True
            | Some c \<Rightarrow> bindA (liftA (check_owner_id cur (Some (col_owner_id c)) column_owner_publish rb)) (\<lambda>_. retA ())))"

definition create_content_item :: "current_user \<Rightarrow> 'r rbac_db_scheme \<Rightarrow> item_create \<Rightarrow> ('s forum_db_scheme, content_item) act" where
  "create_content_item cur rb x =
     seqA (allowA content_create cur rb)
    (seqA (guardA (item_create_ok x) RequestValidationError)
    (seqA (forbidA (ic_content_type x \<in> {''blog_post'', ''qa''}))
    (seqA (forbidA (ic_content_type x = ''article'' \<and> \<not> user_has_permission cur articles_publish rb))
    (seqA (if ic_content_type x = ''column_post''
           then seqA (forbidA (\<not> user_has_permission cur columns_publish rb)) (check_column_owner cur rb (ic_column_id x))
           else retA ())
    (seqA (forbidA ((ic_is_pinned x \<or> ic_is_featured x) \<and> \<not> user_has_permission cur admin_content_review rb))
    (create_item (cu_id cur) x))))))"

definition delete_item :: "uuid \<Rightarrow> ('s forum_db_scheme, uuid) act" where
  "delete_item i =
     bindA (get_item_or_raise i) (\<lambda>c.
     seqA (modA (\<lambda>s. update_item i (\<lambda>c. c\<lparr>ci_deleted_at := Some (now s)\<rparr>) s))
    (seqA (emitA (Invalidate ''content:item'' [uuid_str i]))
    (seqA (content_event i (ci_status c) (Some CONTENT_ACTION_DELETED))
    (seqA (modA (\<lambda>s. s\<lparr>feed_items := filter (\<lambda>f. fi_source_id f \<noteq> i) (feed_items s)\<rparr>))
    (seqA (emitA (Bump ''content''))
    (retA (or_old (ci_author_id c) 0)))))))"

definition delete_content_item :: "current_user \<Rightarrow> 'r rbac_db_scheme \<Rightarrow> uuid \<Rightarrow> ('s forum_db_scheme, unit) act" where
  "delete_content_item cur rb i =
     bindA (\<lambda>s. (check_row_owner cur (map_option ci_author_id (active_item i s)) content_owner_delete rb, s)) (\<lambda>_.
     bindA (delete_item i) (\<lambda>_. retA ()))"

section \<open>Likes, forwards, views and reports\<close>

definition one_like :: "uuid \<Rightarrow> uuid \<Rightarrow> 's forum_db_scheme \<Rightarrow> content_like option" where
  "one_like i user_id s = find (\<lambda>k. like_content_id k = i \<and> like_user_id k = user_id) (content_likes s)"

definition like_item :: "uuid \<Rightarrow> uuid \<Rightarrow> ('s forum_db_scheme, int) act" where
  "like_item i user_id =
     seqA (lock_active i)
    (bindA (getA (one_like i user_id)) (\<lambda>existing.
     if existing \<noteq> None then read_count i Like_count
     else
       seqA (modA (\<lambda>s. s\<lparr>content_likes := content_likes s
               @ [\<lparr>like_content_id = i, like_user_id = user_id, like_created_at = now s\<rparr>]\<rparr>))
      (seqA (points_event user_id ''like'' (''item:'' @ uuid_str i))
      (bump_content_counter i Like_count 1))))"

definition unlike_item :: "uuid \<Rightarrow> uuid \<Rightarrow> ('s forum_db_scheme, int) act" where
  "unlike_item i user_id =
     seqA (lock_active i)
    (bindA (getA (one_like i user_id)) (\<lambda>existing.
     if existing = None then read_count i Like_count
     else
       seqA (modA (\<lambda>s. s\<lparr>content_likes :=
               filter (\<lambda>k. \<not> (like_content_id k = i \<and> like_user_id k = user_id)) (content_likes s)\<rparr>))
      (bump_content_counter i Like_count (- 1))))"

definition forward_item :: "uuid \<Rightarrow> ('s forum_db_scheme, int) act" where
  "forward_item i =
     bindA (get_item_or_raise i) (\<lambda>c.
     seqA (modA (update_item i (\<lambda>c. c\<lparr>ci_forward_count := ci_forward_count c + 1\<rparr>)))
     (retA (ci_forward_count c + 1)))"

text \<open>\<open>bump_item_view\<close> counts for a deleted item too, and for one that is not there it does nothing.\<close>

definition bump_item_view :: "uuid \<Rightarrow> ('s forum_db_scheme, unit) act" where
  "bump_item_view i = modA (update_item i (\<lambda>c. c\<lparr>ci_view_count := ci_view_count c + 1\<rparr>))"

definition comment_body :: "uuid \<Rightarrow> 's forum_db_scheme \<Rightarrow> exc + string" where
  "comment_body j s = optR (BizError (CommentErr comment_err.COMMENT_NOT_FOUND))
     (map_option cm_content (find (\<lambda>m. cm_id m = j) (content_comments s)))"

definition create_if_absent :: "string \<Rightarrow> string \<Rightarrow> string \<Rightarrow> uuid option \<Rightarrow> string \<Rightarrow> string \<Rightarrow> ('s forum_db_scheme, bool) act" where
  "create_if_absent target_kind target_id target_title reporter_id reporter_name reason =
     bindA (getA (\<lambda>s. reporter_id \<noteq> None \<and> list_ex (\<lambda>r. rpt_reporter_id r = reporter_id \<and> rpt_type r = target_kind
         \<and> rpt_target_id r = target_id \<and> rpt_status r = ''pending'') (reports s))) (\<lambda>already.
     if already then retA False
     else (\<lambda>s. let (i, s) = fresh_pk s
           in if list_ex (\<lambda>r. rpt_id r = i) (reports s) then (Inl (IntegrityError True None), s)
              else (Inr True, s\<lparr>reports := reports s @ [\<lparr>rpt_id = i, rpt_type = target_kind, rpt_target_id = target_id,
                     rpt_target_title = target_title, rpt_reporter_id = reporter_id, rpt_reporter_name = reporter_name,
                     rpt_reason = reason, rpt_status = ''pending''\<rparr>]\<rparr>)))"

definition report_content :: "uuid \<Rightarrow> string \<Rightarrow> uuid \<Rightarrow> string \<Rightarrow> ('s forum_db_scheme, unit) act" where
  "report_content user_id target_type target_id reason =
     bindA (if target_type = ''post'' then bindA (get_item_or_raise target_id) (\<lambda>c. retA (ci_title c))
            else if target_type = ''comment'' then (\<lambda>s. (comment_body target_id s, s))
            else raiseA (BizError (ContentErr content_err.UNSUPPORTED_TYPE))) (\<lambda>title.
     bindA (getA (\<lambda>s. or_old (display_name_of s user_id) [])) (\<lambda>name.
     bindA (create_if_absent target_type (uuid_str target_id) (take 200 title) (Some user_id) name (take 500 reason)) (\<lambda>_.
     retA ())))"

definition report_content_target :: "current_user \<Rightarrow> string \<Rightarrow> uuid \<Rightarrow> string \<Rightarrow> ('s forum_db_scheme, unit) act" where
  "report_content_target cur target_type target_id reason =
     seqA (guardA (target_type \<in> {''post'', ''comment''} \<and> length reason \<in> {1..200}) RequestValidationError)
     (report_content (cu_id cur) target_type target_id reason)"

section \<open>Publishing from a blog\<close>

record blog_post =
  bp_slug :: "string option"
  bp_title :: string
  bp_content :: string
  bp_summary :: "string option"
  bp_cover :: "string option"
  bp_tags :: "string list"

text \<open>What counts as nothing: a missing text or an empty one.\<close>

definition truthy :: "string option \<Rightarrow> string option" where
  "truthy v = (if v = Some [] then None else v)"

definition or_else :: "string option \<Rightarrow> string option \<Rightarrow> string option" where
  "or_else v w = (if truthy v = None then w else v)"

definition republished :: "uuid \<Rightarrow> blog_post \<Rightarrow> instant \<Rightarrow> content_item \<Rightarrow> content_item" where
  "republished board_id p t c =
     c\<lparr>ci_title := bp_title p, ci_content := bp_content p, ci_excerpt := excerpt_of (bp_content p),
       ci_summary := or_else (bp_summary p) (ci_summary c), ci_cover := or_else (bp_cover p) (ci_cover c),
       ci_tags := json_dumps (bp_tags p), ci_content_type := ''blog_post'', ci_board_id := board_id,
       ci_status := ''published'', ci_published_at := Some (or_old (ci_published_at c) t)\<rparr>"

definition blog_item :: "uuid \<Rightarrow> uuid \<Rightarrow> uuid \<Rightarrow> blog_post \<Rightarrow> instant \<Rightarrow> content_item" where
  "blog_item i owner_id board_id p t =
     \<lparr>ci_id = i, ci_content_type = ''blog_post'', ci_board_id = board_id, ci_author_id = Some owner_id,
      ci_publisher = None, ci_department = None, ci_column_id = None, ci_slug = truthy (bp_slug p), ci_qa_question_id = None,
      ci_title = bp_title p, ci_excerpt = excerpt_of (bp_content p), ci_content = bp_content p, ci_summary = bp_summary p,
      ci_cover = bp_cover p, ci_keywords = None, ci_lang = None, ci_tags = json_dumps (bp_tags p), ci_status = ''published'',
      ci_is_pinned = False, ci_is_featured = False, ci_view_count = 0, ci_like_count = 0,
      ci_comment_count = 0, ci_bookmark_count = 0, ci_forward_count = 0, ci_counts_reconciled_at = None, ci_version = 1,
      ci_created_at = t, ci_updated_at = t, ci_published_at = Some t, ci_deleted_at = None\<rparr>"

text \<open>The item with the slug among those not deleted, whoever wrote it; nothing is sent to the database where nothing changes.\<close>

definition item_by_slug :: "string option \<Rightarrow> 's content_db_scheme \<Rightarrow> content_item option" where
  "item_by_slug slug s =
     (if truthy slug = None then None else find (\<lambda>c. ci_slug c = slug \<and> ci_deleted_at c = None) (content_items s))"

definition publish_blog_item :: "uuid \<Rightarrow> uuid \<Rightarrow> blog_post \<Rightarrow> ('s forum_db_scheme, uuid) act" where
  "publish_blog_item owner_id board_id p =
     bindA (getA (item_by_slug (bp_slug p))) (\<lambda>existing.
       case existing of
         Some c \<Rightarrow>
           seqA (modA (\<lambda>s. if republished board_id p (now s) c = c then s
                           else update_item (ci_id c) (republished board_id p (now s)) s))
          (seqA (emitA (Invalidate ''content:item'' [uuid_str (ci_id c)]))
          (seqA (content_event (ci_id c) ''published'' None)
          (retA (ci_id c))))
       | None \<Rightarrow>
           bindA (add_item (\<lambda>i t. blog_item i owner_id board_id p t)) (\<lambda>c.
           seqA (content_event (ci_id c) (ci_status c) None)
          (seqA (points_event owner_id ''post'' (''item:'' @ uuid_str (ci_id c)))
          (seqA (emitA (Bump ''content''))
          (retA (ci_id c))))))"

text \<open>What the blog calls with the category and the post it read from a file.\<close>

definition publish_blog :: "uuid \<Rightarrow> string \<Rightarrow> blog_post \<Rightarrow> ('s forum_db_scheme, uuid) act" where
  "publish_blog owner_id category p = bindA (ensure_by_slug category) (\<lambda>b. publish_blog_item owner_id b p)"

section \<open>Comments\<close>

definition comment_of :: "uuid \<Rightarrow> uuid \<Rightarrow> 's forum_db_scheme \<Rightarrow> content_comment option" where
  "comment_of i j s =
     find (\<lambda>m. cm_id m = j \<and> cm_content_id m = i \<and> cm_deleted_at m = None) (content_comments s)"

definition assert_comment_in_item :: "uuid \<Rightarrow> uuid \<Rightarrow> ('s forum_db_scheme, content_comment) act" where
  "assert_comment_in_item i j s = (optR (BizError (CommentErr comment_err.COMMENT_NOT_FOUND)) (comment_of i j s), s)"

definition floors_of :: "uuid \<Rightarrow> 's forum_db_scheme \<Rightarrow> int list" where
  "floors_of i s = map cm_floor_number (filter (\<lambda>m. cm_content_id m = i) (content_comments s))"

definition max_floor_number :: "uuid \<Rightarrow> 's forum_db_scheme \<Rightarrow> int option" where
  "max_floor_number i s = (case floors_of i s of [] \<Rightarrow> None | n # ns \<Rightarrow> Some (foldr max ns n))"

definition insert_comment :: "content_comment \<Rightarrow> 's forum_db_scheme \<Rightarrow> exc + 's forum_db_scheme" where
  "insert_comment m s =
     (if list_ex (\<lambda>x. cm_id x = cm_id m) (content_comments s) then Inl (IntegrityError True None)
      else Inr (s\<lparr>content_comments := content_comments s @ [m]\<rparr>))"

definition check_parent :: "uuid \<Rightarrow> uuid option \<Rightarrow> ('s forum_db_scheme, unit) act" where
  "check_parent i parent = (case parent of None \<Rightarrow> retA () | Some j \<Rightarrow> bindA (assert_comment_in_item i j) (\<lambda>_. retA ()))"

definition create_comment :: "uuid \<Rightarrow> uuid \<Rightarrow> string \<Rightarrow> uuid option \<Rightarrow> ('s forum_db_scheme, content_comment) act" where
  "create_comment i user_id text parent =
     seqA (lock_active i)
    (seqA (check_parent i parent)
    (bindA (getA (max_floor_number i)) (\<lambda>top.
     bindA (\<lambda>s. let (j, s) = fresh_pk s;
                   m = \<lparr>cm_id = j, cm_content_id = i, cm_user_id = user_id, cm_content = text,
                        cm_floor_number = or_old top 0 + 1, cm_parent_id = parent, cm_like_count = 0, cm_created_at = now s,
                        cm_deleted_at = None\<rparr>
               in case insert_comment m s of Inl e \<Rightarrow> (Inl e, s) | Inr s' \<Rightarrow> (Inr m, s')) (\<lambda>m.
     bindA (bump_content_counter i Comment_count 1) (\<lambda>_.
     seqA (points_event user_id ''comment'' (''comment:'' @ uuid_str (cm_id m)))
     (retA m))))))"

definition bump_like_count :: "uuid \<Rightarrow> int \<Rightarrow> ('s forum_db_scheme, int) act" where
  "bump_like_count j delta s =
     (case find (\<lambda>m. cm_id m = j) (content_comments s) of
        None \<Rightarrow> (Inl (BizError (CommentErr comment_err.COMMENT_NOT_FOUND)), s)
      | Some m \<Rightarrow>
          (Inr (max (cm_like_count m + delta) 0),
           s\<lparr>content_comments := map (\<lambda>m. if cm_id m = j then m\<lparr>cm_like_count := max (cm_like_count m + delta) 0\<rparr> else m)
               (content_comments s)\<rparr>))"

definition one_comment_like :: "uuid \<Rightarrow> uuid \<Rightarrow> 's forum_db_scheme \<Rightarrow> comment_like option" where
  "one_comment_like j user_id s = find (\<lambda>k. cml_comment_id k = j \<and> cml_user_id k = user_id) (content_comment_likes s)"

definition like_comment :: "uuid \<Rightarrow> uuid \<Rightarrow> uuid \<Rightarrow> ('s forum_db_scheme, int) act" where
  "like_comment i j user_id =
     seqA (lock_active i)
    (bindA (assert_comment_in_item i j) (\<lambda>m.
     bindA (getA (one_comment_like j user_id)) (\<lambda>existing.
     if existing \<noteq> None then retA (cm_like_count m)
     else
       seqA (modA (\<lambda>s. s\<lparr>content_comment_likes := content_comment_likes s
               @ [\<lparr>cml_comment_id = j, cml_user_id = user_id, cml_created_at = now s\<rparr>]\<rparr>))
      (seqA (points_event user_id ''like'' (''comment:'' @ uuid_str j))
      (bump_like_count j 1)))))"

definition unlike_comment :: "uuid \<Rightarrow> uuid \<Rightarrow> uuid \<Rightarrow> ('s forum_db_scheme, int) act" where
  "unlike_comment i j user_id =
     seqA (lock_active i)
    (bindA (assert_comment_in_item i j) (\<lambda>m.
     bindA (getA (one_comment_like j user_id)) (\<lambda>existing.
     if existing = None then retA (cm_like_count m)
     else
       seqA (modA (\<lambda>s. s\<lparr>content_comment_likes :=
               filter (\<lambda>k. \<not> (cml_comment_id k = j \<and> cml_user_id k = user_id)) (content_comment_likes s)\<rparr>))
      (bump_like_count j (- 1)))))"

text \<open>
  \<open>delete_comment\<close> looks the comment up without a lock; the rest of it is \<open>remove_comment\<close>.
\<close>

definition remove_comment :: "uuid \<Rightarrow> uuid \<Rightarrow> ('s forum_db_scheme, unit) act" where
  "remove_comment i j =
     seqA (modA (\<lambda>s. s\<lparr>content_comments :=
             map (\<lambda>m. if cm_id m = j then m\<lparr>cm_deleted_at := Some (now s)\<rparr> else m) (content_comments s)\<rparr>))
    (bindA (bump_content_counter i Comment_count (- 1)) (\<lambda>_. retA ()))"

definition delete_comment :: "uuid \<Rightarrow> uuid \<Rightarrow> ('s forum_db_scheme, unit) act" where
  "delete_comment i j = bindA (assert_comment_in_item i j) (\<lambda>m. remove_comment i (cm_id m))"

definition active_comment :: "uuid \<Rightarrow> 's forum_db_scheme \<Rightarrow> content_comment option" where
  "active_comment j s = find (\<lambda>m. cm_id m = j \<and> cm_deleted_at m = None) (content_comments s)"

definition delete_content_comment :: "current_user \<Rightarrow> 'r rbac_db_scheme \<Rightarrow> uuid \<Rightarrow> uuid \<Rightarrow> ('s forum_db_scheme, unit) act" where
  "delete_content_comment cur rb i j =
     bindA (\<lambda>s. (check_row_owner cur (map_option (\<lambda>m. Some (cm_user_id m)) (active_comment j s)) content_owner_delete rb, s)) (\<lambda>_.
     delete_comment i j)"

definition create_content_comment ::
    "current_user \<Rightarrow> 'r rbac_db_scheme \<Rightarrow> uuid \<Rightarrow> string \<Rightarrow> uuid option \<Rightarrow> ('s forum_db_scheme, content_comment) act" where
  "create_content_comment cur rb i text parent =
     seqA (allowA content_comment_create cur rb)
    (seqA (guardA (length text \<in> {1..2000}) RequestValidationError)
    (create_comment i (cu_id cur) text parent))"

text \<open>A page of comments with whether the viewer likes each, in the order of the floors.\<close>

definition page_of :: "nat \<Rightarrow> nat \<Rightarrow> 'a list \<Rightarrow> 'a list" where
  "page_of page limit xs = take limit (drop ((page - 1) * limit) xs)"

definition list_comments ::
    "uuid \<Rightarrow> nat \<Rightarrow> nat \<Rightarrow> uuid option \<Rightarrow> ('s forum_db_scheme, (content_comment \<times> bool) list \<times> nat) act" where
  "list_comments i page limit viewer =
     bindA (get_item_or_raise i) (\<lambda>_. getA (\<lambda>s.
       (map (\<lambda>m. (m, case viewer of None \<Rightarrow> False | Some u \<Rightarrow> one_comment_like (cm_id m) u s \<noteq> None))
          (page_of page limit (sort_key cm_floor_number (comment_rows i s))),
        length (comment_rows i s))))"

section \<open>Favourites and history\<close>

definition is_favorited :: "uuid \<Rightarrow> uuid \<Rightarrow> 's forum_db_scheme \<Rightarrow> bool" where
  "is_favorited user_id i s \<longleftrightarrow> list_ex (\<lambda>f. fav_content_id f = i \<and> fav_user_id f = user_id) (interaction_favorites s)"

definition NOT_THERE :: exc where
  "NOT_THERE = BizError (InteractionErr interaction_err.CONTENT_NOT_FOUND)"

definition bookmark_count :: "uuid \<Rightarrow> ('s forum_db_scheme, int) act" where
  "bookmark_count i s = (optR NOT_THERE (map_option ci_bookmark_count (active_item i s)), s)"

definition current_bookmark_count :: "uuid \<Rightarrow> ('s forum_db_scheme, int) act" where
  "current_bookmark_count i =
     bindA (bookmark_count i) (\<lambda>base s.
       if counters_write_through s then (Inr (max 0 base), s)
       else (let (n, s) = pending_delta Bookmark_count i s in (Inr (max 0 (base + n)), s)))"

definition bump_bookmark_count :: "uuid \<Rightarrow> int \<Rightarrow> ('s forum_db_scheme, int) act" where
  "bump_bookmark_count i delta s =
     (case active_item i s of
        None \<Rightarrow> (Inl NOT_THERE, s)
      | Some c \<Rightarrow> (Inr (max (ci_bookmark_count c + delta) 0),
          update_item i (\<lambda>c. c\<lparr>ci_bookmark_count := max (ci_bookmark_count c + delta) 0\<rparr>) s))"

definition bump_bookmark :: "uuid \<Rightarrow> int \<Rightarrow> ('s forum_db_scheme, int) act" where
  "bump_bookmark i delta s =
     (let (in_redis, s) = (if counters_write_through s then (False, s) else bump_counter Bookmark_count i delta s)
      in if in_redis then current_bookmark_count i s else bump_bookmark_count i delta s)"

text \<open>A favourite with the primary key that exists already is not inserted; the content is a foreign key.\<close>

definition add_favorite :: "uuid \<Rightarrow> uuid \<Rightarrow> ('s forum_db_scheme, bool \<times> int) act" where
  "add_favorite user_id i =
     bindA (current_bookmark_count i) (\<lambda>count.
     bindA (getA (is_favorited user_id i)) (\<lambda>already.
     if already then retA (True, count)
     else
       seqA (modA (\<lambda>s. s\<lparr>interaction_favorites := interaction_favorites s
               @ [\<lparr>fav_content_id = i, fav_user_id = user_id, fav_created_at = now s\<rparr>]\<rparr>))
      (bindA (bump_bookmark i 1) (\<lambda>n. retA (True, n)))))"

definition remove_favorite :: "uuid \<Rightarrow> uuid \<Rightarrow> ('s forum_db_scheme, bool \<times> int) act" where
  "remove_favorite user_id i =
     bindA (current_bookmark_count i) (\<lambda>count.
     bindA (getA (is_favorited user_id i)) (\<lambda>there.
     if \<not> there then retA (False, count)
     else
       seqA (modA (\<lambda>s. s\<lparr>interaction_favorites :=
               filter (\<lambda>f. \<not> (fav_content_id f = i \<and> fav_user_id f = user_id)) (interaction_favorites s)\<rparr>))
      (bindA (bump_bookmark i (- 1)) (\<lambda>n. retA (False, n)))))"

definition content_viewer_state :: "uuid option \<Rightarrow> uuid \<Rightarrow> ('s forum_db_scheme, bool \<times> bool \<times> int \<times> int) act" where
  "content_viewer_state viewer i s =
     (optR NOT_THERE (map_option (\<lambda>c.
        (case viewer of None \<Rightarrow> (False, False, ci_like_count c, ci_bookmark_count c)
         | Some u \<Rightarrow> (one_like i u s \<noteq> None, is_favorited u i s, ci_like_count c, ci_bookmark_count c)))
        (active_item i s)), s)"

definition record_view :: "uuid \<Rightarrow> uuid \<Rightarrow> ('s forum_db_scheme, instant) act" where
  "record_view user_id i =
     seqA (\<lambda>s. (if active_item i s = None then Inl NOT_THERE else Inr (), s))
     (\<lambda>s. if list_ex (\<lambda>v. vl_user_id v = user_id \<and> vl_content_id v = i) (interaction_view_logs s)
          then (Inr (now s), s\<lparr>interaction_view_logs :=
                  map (\<lambda>v. if vl_user_id v = user_id \<and> vl_content_id v = i then v\<lparr>vl_viewed_at := now s\<rparr> else v)
                    (interaction_view_logs s)\<rparr>)
          else (let (j, s) = fresh_pk s
                in if list_ex (\<lambda>v. vl_id v = j) (interaction_view_logs s) then (Inl (IntegrityError True None), s)
                   else (Inr (now s), s\<lparr>interaction_view_logs := interaction_view_logs s
                           @ [\<lparr>vl_id = j, vl_user_id = user_id, vl_content_id = i, vl_viewed_at = now s\<rparr>]\<rparr>)))"

definition purge_stale_view_logs :: "nat \<Rightarrow> 's forum_db_scheme \<Rightarrow> nat \<times> 's forum_db_scheme" where
  "purge_stale_view_logs retention_days s =
     (let old = (\<lambda>v :: view_log. vl_viewed_at v < now s - int retention_days * 86400000000)
      in (length (filter old (interaction_view_logs s)),
          s\<lparr>interaction_view_logs := filter (\<lambda>v. \<not> old v) (interaction_view_logs s)\<rparr>))"

text \<open>The lists leave out what was deleted; the newest comes first.\<close>

definition newest_first :: "('a \<Rightarrow> instant) \<Rightarrow> ('a \<Rightarrow> uuid) \<Rightarrow> 'a list \<Rightarrow> 'a list" where
  "newest_first t i xs = rev (sort_key (\<lambda>x. (t x, i x)) xs)"

definition list_favorites :: "uuid \<Rightarrow> nat \<Rightarrow> nat \<Rightarrow> 's forum_db_scheme \<Rightarrow> (favorite \<times> content_item) list \<times> nat" where
  "list_favorites user_id page limit s =
     (let mine = filter (\<lambda>f. fav_user_id f = user_id \<and> active_item (fav_content_id f) s \<noteq> None) (interaction_favorites s)
      in (map (\<lambda>f. (f, the (active_item (fav_content_id f) s)))
            (page_of page limit (newest_first fav_created_at fav_content_id mine)), length mine))"

definition list_history :: "uuid \<Rightarrow> nat \<Rightarrow> nat \<Rightarrow> 's forum_db_scheme \<Rightarrow> (view_log \<times> content_item) list \<times> nat" where
  "list_history user_id page limit s =
     (let mine = filter (\<lambda>v. vl_user_id v = user_id \<and> active_item (vl_content_id v) s \<noteq> None) (interaction_view_logs s)
      in (map (\<lambda>v. (v, the (active_item (vl_content_id v) s)))
            (page_of page limit (newest_first vl_viewed_at vl_id mine)), length mine))"

text \<open>The published items of a board, a kind, an author.\<close>

definition published_for :: "uuid option \<Rightarrow> string option \<Rightarrow> uuid option \<Rightarrow> content_item \<Rightarrow> bool" where
  "published_for board_id content_type author_id c \<longleftrightarrow> ci_status c = ''published''
     \<and> is_set board_id (\<lambda>b. ci_board_id c = b) \<and> is_set (truthy content_type) (\<lambda>t. ci_content_type c = t)
     \<and> is_set author_id (\<lambda>a. ci_author_id c = Some a) \<and> ci_deleted_at c = None"

definition list_published ::
    "uuid option \<Rightarrow> string option \<Rightarrow> uuid option \<Rightarrow> nat \<Rightarrow> nat \<Rightarrow> 's content_db_scheme \<Rightarrow> content_item list" where
  "list_published board_id content_type author_id page limit s =
     page_of page limit (rev (sort_key (\<lambda>c. (ci_is_pinned c, ci_id c)) (filter (published_for board_id content_type author_id) (content_items s))))"

definition count_published :: "uuid option \<Rightarrow> string option \<Rightarrow> uuid option \<Rightarrow> 's content_db_scheme \<Rightarrow> nat" where
  "count_published board_id content_type author_id s = length (filter (published_for board_id content_type author_id) (content_items s))"

end
