(* ===== verification/Content_Books.thy ===== *)
theory Content_Books
  imports Content_Items
begin

text \<open>
  The requests of the community as a state machine, and what they keep: the counters of items and comments agree with their rows,
  and the floors of comments have no gap.  Operations that touch no row, operations that add or remove one and settle its counter,
  then the requests; two defects that the invariant brings out stand at the end.
\<close>

section \<open>Requests\<close>

datatype forum_request =
    Create_item current_user item_create
  | Delete_item current_user uuid
  | Like_item current_user uuid
  | Unlike_item current_user uuid
  | Forward_item current_user uuid
  | View_item uuid
  | Report_target current_user string uuid string
  | Publish_blog uuid string blog_post
  | Publish_question uuid uuid string string string
  | Create_comment current_user uuid string "uuid option"
  | Like_comment current_user uuid uuid
  | Unlike_comment current_user uuid uuid
  | Delete_comment current_user uuid uuid
  | Add_favorite current_user uuid
  | Remove_favorite current_user uuid
  | Record_view current_user uuid
  | Purge_views nat
  | On_boards board_request
  | Flush_counters
  | Reconcile nat bool

definition ignoreA :: "('s, 'a) act \<Rightarrow> ('s, unit) act" where
  "ignoreA m = bindA m (\<lambda>_. retA ())"

fun forum_work :: "'r rbac_db_scheme \<Rightarrow> forum_request \<Rightarrow> ('s forum_db_scheme, unit) act" where
  "forum_work rb (Create_item cur x) = ignoreA (create_content_item cur rb x)"
| "forum_work rb (Delete_item cur i) = delete_content_item cur rb i"
| "forum_work rb (Like_item cur i) = seqA (allowA content_like cur rb) (ignoreA (like_item i (cu_id cur)))"
| "forum_work rb (Unlike_item cur i) = seqA (allowA content_like cur rb) (ignoreA (unlike_item i (cu_id cur)))"
| "forum_work rb (Forward_item cur i) = seqA (allowA content_forward cur rb) (ignoreA (forward_item i))"
| "forum_work rb (View_item i) = bump_item_view i"
| "forum_work rb (Report_target cur target_kind i reason) = report_content_target cur target_kind i reason"
| "forum_work rb (Publish_blog owner_id category p) = ignoreA (publish_blog owner_id category p)"
| "forum_work rb (Publish_question author_id q title body excerpt) = storeA (publish_qa_item author_id q title body excerpt)"
| "forum_work rb (Create_comment cur i text parent) = ignoreA (create_content_comment cur rb i text parent)"
| "forum_work rb (Like_comment cur i j) = seqA (allowA content_like cur rb) (ignoreA (like_comment i j (cu_id cur)))"
| "forum_work rb (Unlike_comment cur i j) = seqA (allowA content_like cur rb) (ignoreA (unlike_comment i j (cu_id cur)))"
| "forum_work rb (Delete_comment cur i j) = delete_content_comment cur rb i j"
| "forum_work rb (Add_favorite cur i) = seqA (allowA interaction_favorite cur rb) (ignoreA (add_favorite (cu_id cur) i))"
| "forum_work rb (Remove_favorite cur i) = seqA (allowA interaction_favorite cur rb) (ignoreA (remove_favorite (cu_id cur) i))"
| "forum_work rb (Record_view cur i) = seqA (allowA interaction_history cur rb) (ignoreA (record_view (cu_id cur) i))"
| "forum_work rb (Purge_views n) = modA (\<lambda>s. snd (purge_stale_view_logs n s))"
| "forum_work rb (On_boards r) = board_work rb r"
| "forum_work rb Flush_counters = modA flush_content_counters"
| "forum_work rb (Reconcile b only_unconverged) = modA (\<lambda>s. snd (reconcile_counts b only_unconverged s))"

definition forum_handle ::
    "(string \<times> errcode) list \<Rightarrow> 'r rbac_db_scheme \<Rightarrow> forum_request \<Rightarrow> 's forum_db_scheme \<Rightarrow> 's forum_db_scheme" where
  "forum_handle reg rb r s = snd (forum_session reg (forum_work rb r) s)"

fun forum_run ::
    "(string \<times> errcode) list \<Rightarrow> 'r rbac_db_scheme \<Rightarrow> forum_request list \<Rightarrow> 's forum_db_scheme \<Rightarrow> 's forum_db_scheme" where
  "forum_run reg rb [] s = s"
| "forum_run reg rb (r # rs) s = forum_run reg rb rs (forum_handle reg rb r s)"

section \<open>What the counters say\<close>

text \<open>The books are right: each counter is the number of its rows, each row belongs to something, floors are numbered one by one.\<close>

definition rows_unique :: "'s forum_db_scheme \<Rightarrow> bool" where
  "rows_unique s \<longleftrightarrow> distinct (map (\<lambda>k. (like_content_id k, like_user_id k)) (content_likes s))
     \<and> distinct (map (\<lambda>f. (fav_content_id f, fav_user_id f)) (interaction_favorites s))
     \<and> distinct (map (\<lambda>k. (cml_comment_id k, cml_user_id k)) (content_comment_likes s))"

definition rows_attached :: "'s forum_db_scheme \<Rightarrow> bool" where
  "rows_attached s \<longleftrightarrow> like_content_id ` set (content_likes s) \<subseteq> ci_id ` set (content_items s)
     \<and> fav_content_id ` set (interaction_favorites s) \<subseteq> ci_id ` set (content_items s)
     \<and> cm_content_id ` set (content_comments s) \<subseteq> ci_id ` set (content_items s)
     \<and> cml_comment_id ` set (content_comment_likes s) \<subseteq> cm_id ` set (content_comments s)"

definition counters_right :: "'s forum_db_scheme \<Rightarrow> bool" where
  "counters_right s \<longleftrightarrow> (\<forall>c\<in>set (content_items s). counts_of c = real_counts (ci_id c) s)
     \<and> (\<forall>m\<in>set (content_comments s). cm_like_count m = comment_real_like (cm_id m) s)"

definition floors_right :: "'s forum_db_scheme \<Rightarrow> bool" where
  "floors_right s \<longleftrightarrow> (\<forall>i. floors_of i s = [1..int (length (floors_of i s))])"

definition forum_ok :: "'s forum_db_scheme \<Rightarrow> bool" where
  "forum_ok s \<longleftrightarrow> counters_write_through s \<and> pending_counts s = [] \<and> ids_distinct s \<and> distinct (map cm_id (content_comments s))
     \<and> rows_unique s \<and> rows_attached s \<and> counters_right s \<and> floors_right s"

text \<open>Who follows whom stays, and the time lines may lose rows.\<close>

definition feed_less :: "'s forum_db_scheme \<Rightarrow> 's forum_db_scheme \<Rightarrow> bool" where
  "feed_less s t \<longleftrightarrow> user_follows t = user_follows s \<and> board_follows t = board_follows s
     \<and> (\<exists>P. feed_items t = filter P (feed_items s))"

lemma feed_less_same [simp]:
  "user_follows t = user_follows s \<Longrightarrow> board_follows t = board_follows s \<Longrightarrow> feed_items t = feed_items s \<Longrightarrow> feed_less s t"
  unfolding feed_less_def by (auto intro: exI[of _ "\<lambda>_. True"])

lemma feed_less_trans: "feed_less a b \<Longrightarrow> feed_less b c \<Longrightarrow> feed_less a c"
  unfolding feed_less_def by (metis filter_filter)

lemma feed_less_filter [simp]: "feed_less s (s\<lparr>feed_items := filter P (feed_items s)\<rparr>)"
  by (auto simp: feed_less_def)

text \<open>What the rest of the state looks like does not matter.\<close>

definition same_rows :: "'s forum_db_scheme \<Rightarrow> 's forum_db_scheme \<Rightarrow> bool" where
  "same_rows s t \<longleftrightarrow> counters_write_through t = counters_write_through s \<and> pending_counts t = pending_counts s
     \<and> content_likes t = content_likes s \<and> content_comments t = content_comments s
     \<and> content_comment_likes t = content_comment_likes s \<and> interaction_favorites t = interaction_favorites s
     \<and> map (\<lambda>c. (ci_id c, counts_of c)) (content_items t) = map (\<lambda>c. (ci_id c, counts_of c)) (content_items s)
     \<and> feed_less s t"

lemma same_rows_refl [simp]: "same_rows s s"
  by (simp add: same_rows_def)

lemma same_rows_trans: "same_rows a b \<Longrightarrow> same_rows b c \<Longrightarrow> same_rows a c"
  by (auto simp: same_rows_def intro: feed_less_trans)

text \<open>The same with differences still to be written: what each counter is short of.\<close>

definition books :: "(counter \<Rightarrow> uuid \<Rightarrow> int) \<Rightarrow> (uuid \<Rightarrow> int) \<Rightarrow> 's forum_db_scheme \<Rightarrow> bool" where
  "books owed owed_likes s \<longleftrightarrow> counters_write_through s \<and> pending_counts s = [] \<and> ids_distinct s
     \<and> distinct (map cm_id (content_comments s)) \<and> rows_unique s \<and> rows_attached s \<and> floors_right s
     \<and> (\<forall>c\<in>set (content_items s). \<forall>f. counter_of f c + owed f (ci_id c) = real_count f (ci_id c) s)
     \<and> (\<forall>m\<in>set (content_comments s). cm_like_count m + owed_likes (cm_id m) = comment_real_like (cm_id m) s)"

definition owe :: "counter \<Rightarrow> uuid \<Rightarrow> int \<Rightarrow> counter \<Rightarrow> uuid \<Rightarrow> int" where
  "owe f i d g j = (if g = f \<and> j = i then d else 0)"

lemma counts_iff: "counts_of c = real_counts i s \<longleftrightarrow> (\<forall>f. counter_of f c = real_count f i s)"
proof
  assume "counts_of c = real_counts i s"
  then show "\<forall>f. counter_of f c = real_count f i s"
    by (intro allI, case_tac f) (simp_all add: counts_of_def real_counts_def)
next
  assume "\<forall>f. counter_of f c = real_count f i s"
  then have "counter_of Like_count c = real_count Like_count i s" "counter_of Comment_count c = real_count Comment_count i s"
    "counter_of Bookmark_count c = real_count Bookmark_count i s" by blast+
  then show "counts_of c = real_counts i s" by (simp add: counts_of_def real_counts_def)
qed

lemma forum_ok_books: "forum_ok s \<longleftrightarrow> books (\<lambda>_ _. 0) (\<lambda>_. 0) s"
  by (auto simp: forum_ok_def books_def counters_right_def counts_iff)

lemma real_count_rows:
  assumes "content_likes t = content_likes s" and "content_comments t = content_comments s"
    and "interaction_favorites t = interaction_favorites s"
  shows "real_count f i t = real_count f i s"
  by (cases f) (simp_all add: assms like_rows_def comment_rows_def favorite_rows_def)

lemma counter_of_counts: "counts_of c = counts_of c' \<longleftrightarrow> (\<forall>f. counter_of f c = counter_of f c')"
proof
  assume "\<forall>f. counter_of f c = counter_of f c'"
  then have "counter_of Like_count c = counter_of Like_count c'" "counter_of Comment_count c = counter_of Comment_count c'"
    "counter_of Bookmark_count c = counter_of Bookmark_count c'" by blast+
  then show "counts_of c = counts_of c'" by (simp add: counts_of_def)
next
  assume "counts_of c = counts_of c'"
  then show "\<forall>f. counter_of f c = counter_of f c'" by (intro allI, case_tac f) (simp_all add: counts_of_def)
qed

lemma books_same:
  assumes st: "same_rows s t" and b: "books owed owed_likes s"
  shows "books owed owed_likes t"
proof -
  have m: "map (\<lambda>c. (ci_id c, counts_of c)) (content_items t) = map (\<lambda>c. (ci_id c, counts_of c)) (content_items s)"
    using st by (simp add: same_rows_def)
  have ids: "map ci_id (content_items t) = map ci_id (content_items s)" using arg_cong[OF m, of "map fst"] by (simp add: comp_def)
  have im: "ci_id ` set (content_items t) = ci_id ` set (content_items s)" using arg_cong[OF ids, of set] by simp
  have rc: "real_count f i t = real_count f i s" for f i using st by (intro real_count_rows) (simp_all add: same_rows_def)
  have "counter_of f c + owed f (ci_id c) = real_count f (ci_id c) t" if c: "c \<in> set (content_items t)" for c f
  proof -
    have "(ci_id c, counts_of c) \<in> set (map (\<lambda>c. (ci_id c, counts_of c)) (content_items t))" using c by simp
    then obtain c' where c': "c' \<in> set (content_items s)" "ci_id c = ci_id c'" "counts_of c = counts_of c'" unfolding m by auto
    then show ?thesis using b rc by (metis books_def counter_of_counts)
  qed
  then show ?thesis
    using b st im ids
    by (simp add: books_def same_rows_def ids_distinct_def rows_unique_def rows_attached_def floors_right_def floors_of_def
        comment_real_like_def comment_like_rows_def)
qed

lemma books_cong: "(\<And>f i. o1 f i = o2 f i) \<Longrightarrow> (\<And>j. l1 j = l2 j) \<Longrightarrow> books o1 l1 s = books o2 l2 s"
  by (simp add: books_def)

text \<open>Writing the difference.\<close>

lemma counter_of_set: "counter_of f (set_counter g n c) = (if f = g then n else counter_of f c)"
  by (cases f; cases g) simp_all

lemma set_counter_id [simp]: "ci_id (set_counter f n c) = ci_id c"
  by (cases f) simp_all

lemma counter_of_updated [simp]: "counter_of f (c\<lparr>ci_updated_at := t\<rparr>) = counter_of f c"
  by (cases f) simp_all

lemma real_count_nonneg: "0 \<le> real_count f i s"
  by (cases f) simp_all

lemma books_bump:
  assumes b: "books (owe f i d) l s"
  shows "books (\<lambda>_ _. 0) l (update_item i (\<lambda>c. set_counter f (max (counter_of f c + d) 0) c) s)"
proof -
  define t where "t = update_item i (\<lambda>c. set_counter f (max (counter_of f c + d) 0) c) s"
  have rows: "content_likes t = content_likes s" "content_comments t = content_comments s"
    "interaction_favorites t = interaction_favorites s" "content_comment_likes t = content_comment_likes s"
    "counters_write_through t = counters_write_through s" "pending_counts t = pending_counts s"
    by (simp_all add: t_def update_item_def write_item_def)
  have items: "content_items t =
      map (\<lambda>c. if ci_id c = i then (set_counter f (max (counter_of f c + d) 0) c)\<lparr>ci_updated_at := now s\<rparr> else c) (content_items s)"
    by (simp add: t_def update_item_def write_item_def)
  have ids: "map ci_id (content_items t) = map ci_id (content_items s)" by (simp add: items)
  have im: "ci_id ` set (content_items t) = ci_id ` set (content_items s)" using arg_cong[OF ids, of set] by simp
  have "counter_of g c = real_count g (ci_id c) t" if c: "c \<in> set (content_items t)" for c g
  proof -
    obtain c0 where c0: "c0 \<in> set (content_items s)"
      "c = (if ci_id c0 = i then (set_counter f (max (counter_of f c0 + d) 0) c0)\<lparr>ci_updated_at := now s\<rparr> else c0)"
      using c unfolding items by auto
    have id: "ci_id c = ci_id c0" using c0(2) by simp
    have "counter_of h c0 + owe f i d h (ci_id c0) = real_count h (ci_id c0) s" for h using b c0(1) by (simp add: books_def)
    from this[of g] this[of f] have "counter_of g c = real_count g (ci_id c0) s"
      using real_count_nonneg[of f i s] by (simp add: c0(2) counter_of_set owe_def split: if_splits)
    then show ?thesis using real_count_rows[OF rows(1-3)] id by simp
  qed
  moreover have "ids_distinct t" "rows_unique t" "rows_attached t" "floors_right t"
    using b ids im rows by (simp_all add: books_def ids_distinct_def rows_unique_def rows_attached_def floors_right_def floors_of_def)
  moreover have "comment_real_like j t = comment_real_like j s" for j using rows by (simp add: comment_real_like_def comment_like_rows_def)
  ultimately show ?thesis using b rows unfolding t_def[symmetric] books_def by simp
qed

lemma length_filter_without:
  assumes "distinct (map k xs)"
  shows "length (filter P xs) = length (filter P (filter (\<lambda>x. k x \<noteq> a) xs)) + (if \<exists>x\<in>set xs. k x = a \<and> P x then 1 else 0)"
  using assms
proof (induction xs)
  case (Cons x xs)
  then have IH: "length (filter P xs) = length (filter P (filter (\<lambda>x. k x \<noteq> a) xs)) + (if \<exists>x\<in>set xs. k x = a \<and> P x then 1 else 0)"
    and nx: "k x \<notin> k ` set xs" by simp_all
  show ?case
  proof (cases "k x = a")
    case True
    have na: "k y \<noteq> a" if "y \<in> set xs" for y using that nx True by (metis imageI)
    then have "filter (\<lambda>x. k x \<noteq> a) xs = xs" "\<not> (\<exists>x\<in>set xs. k x = a \<and> P x)" by (auto simp: filter_id_conv)
    then show ?thesis using True IH by simp
  next
    case False
    then show ?thesis using IH by simp
  qed
qed simp

section \<open>Operations that touch no row\<close>

interpretation rows: kept_relation "same_rows :: 's forum_db_scheme \<Rightarrow> 's forum_db_scheme \<Rightarrow> bool"
  by unfold_locales (rule same_rows_refl, rule same_rows_trans)

lemma same_rows_core:
  fixes s t :: "'s forum_db_scheme"
  assumes "core_db.more t = core_db.more s"
  shows "same_rows s t"
proof -
  have "content_db.more t = content_db.more s" "content_items t = content_items s" using more_eq_tables[OF assms] by simp_all
  then show ?thesis unfolding same_rows_def by (cases s, cases t) simp
qed

lemma rows_storeA:
  assumes "\<And>s t. f s = Inr t \<Longrightarrow> same_rows s t"
  shows "act_rel same_rows (storeA f)"
  by (rule act_relI) (auto simp: storeA_def dest: assms split: sum.splits)

lemma rows_points [simp]: "act_rel same_rows (points_event u e r :: ('s forum_db_scheme, unit) act)"
  unfolding points_event_def by (rule rows_storeA) (rule same_rows_core, erule enqueue_points_event_more)

lemma rows_content [simp]: "act_rel same_rows (content_event i st a :: ('s forum_db_scheme, unit) act)"
  by (rule act_relI)
    (auto simp: content_event_def storeA_def bindR_def split: sum.splits prod.splits
      intro: same_rows_core dest!: enqueue_content_event_more(1))

lemma rows_emit [simp]: "act_rel same_rows (emitA e :: ('s forum_db_scheme, unit) act)"
  unfolding emitA_def by (rule rows.mod) (simp add: same_rows_def emit_fx_def)

lemma rows_update:
  assumes "\<And>c. ci_id (f c) = ci_id c \<and> counts_of (f c) = counts_of c"
  shows "same_rows s (update_item i f s)"
  using assms by (simp add: same_rows_def update_item_def write_item_def counts_of_def)

lemma fresh_pk_rows [simp]: "same_rows s (s\<lparr>pk_ix := n\<rparr>)"
  by (simp add: same_rows_def)

lemma rows_boards [simp]:
  "same_rows s (s\<lparr>boards := bs\<rparr>)" "same_rows s (s\<lparr>board_applications := as\<rparr>)" "same_rows s (s\<lparr>board_bans := ns\<rparr>)"
  "same_rows s (s\<lparr>pk_ix := n, boards := bs\<rparr>)" "same_rows s (s\<lparr>pk_ix := n, board_applications := as\<rparr>)"
  "same_rows s (s\<lparr>pk_ix := n, board_bans := ns\<rparr>)" "same_rows s (s\<lparr>now := t\<rparr>)" "same_rows s (s\<lparr>reports := rs\<rparr>)"
  "same_rows s (s\<lparr>pk_ix := n, reports := rs\<rparr>)" "same_rows s (s\<lparr>feed_items := filter P (feed_items s)\<rparr>)" "same_rows s (s\<lparr>interaction_view_logs := vs\<rparr>)"
  "same_rows s (s\<lparr>pk_ix := n, interaction_view_logs := vs\<rparr>)"
  by (simp_all add: same_rows_def)

lemma rows_create_board [simp]: "act_rel same_rows (create_board_ex x u :: ('s forum_db_scheme, board) act)"
proof -
  have "same_rows s (snd (create_board_ex x u s))" for s :: "'s forum_db_scheme"
    by (auto simp: create_board_ex_def Let_def fresh_pk_def insert_board_def split: sum.splits)
  then show ?thesis by (rule act_relI)
qed

lemma rows_update_board [simp]: "act_rel same_rows (update_board_ex i u p adm :: ('s forum_db_scheme, board) act)"
proof (rule act_relI)
  fix s :: "'s forum_db_scheme"
  obtain r t where u: "update_board_ex i u p adm s = (r, t)" by fastforce
  show "same_rows s (snd (update_board_ex i u p adm s))"
  proof (cases r)
    case (Inl e)
    then show ?thesis using update_board_raises u by fastforce
  next
    case (Inr b)
    then show ?thesis using update_board_effect[OF u[unfolded Inr]] u by auto
  qed
qed

lemma rows_owner_update [simp]:
  "act_rel same_rows (owner_update_board cur rb i p :: ('s forum_db_scheme, board_snapshot + board) act)"
proof -
  have "same_rows s (snd (case update_board_ex i (cu_id cur) p d s of
      (Inl e, s') \<Rightarrow> if e = BizError (CommonErr common_err.VERSION_CONFLICT) then (Inr (Inl (version_snapshot i s')), s') else (Inl e, s')
    | (Inr b, s') \<Rightarrow> (Inr (Inr b), s')))" for d and s :: "'s forum_db_scheme"
    using act_rel_snd[OF rows_update_board[of i "cu_id cur" p d], of s] by (auto split: prod.splits sum.splits)
  then show ?thesis unfolding owner_update_board_def by (intro rows.bind act_relI) auto
qed

lemma rows_board_steps [simp]:
  "act_rel same_rows (get_board_ex i :: ('s forum_db_scheme, board) act)"
  "act_rel same_rows (board_or_raise i e :: ('s forum_db_scheme, board) act)"
  "act_rel same_rows (check_post_allowed i u :: ('s forum_db_scheme, unit) act)"
  "act_rel same_rows (submit_application u x :: ('s forum_db_scheme, board_application) act)"
  "act_rel same_rows (review_board_application audit i u ok remark :: ('s forum_db_scheme, board_application) act)"
  "act_rel same_rows (ban_user b u q adm :: ('s forum_db_scheme, unit) act)"
  "act_rel same_rows (unban_user b u v adm :: ('s forum_db_scheme, unit) act)"
proof -
  show b: "act_rel same_rows (board_or_raise i e :: ('s forum_db_scheme, board) act)" for i e
    by (rule act_relI) (simp add: board_or_raise_def)
  then show g: "act_rel same_rows (get_board_ex i :: ('s forum_db_scheme, board) act)" for i
    by (simp add: get_board_ex_def)
  show "act_rel same_rows (check_post_allowed i u :: ('s forum_db_scheme, unit) act)"
    unfolding check_post_allowed_def by (intro rows.rules g)
  show "act_rel same_rows (submit_application u x :: ('s forum_db_scheme, board_application) act)"
    unfolding submit_application_def
    by (intro rows.rules act_relI) (auto simp: Let_def fresh_pk_def insert_application_def split: sum.splits)
  show "act_rel same_rows (review_board_application audit i u ok remark :: ('s forum_db_scheme, board_application) act)"
    unfolding review_board_application_def by (intro rows.rules rows_create_board rows.mod) (auto intro!: act_relI)
  show "act_rel same_rows (ban_user b u q adm :: ('s forum_db_scheme, unit) act)"
    unfolding ban_user_def by (intro rows.rules act_relI) (auto simp: Let_def fresh_pk_def)
  show "act_rel same_rows (unban_user b u v adm :: ('s forum_db_scheme, unit) act)"
    unfolding unban_user_def by (intro rows.rules rows.mod) auto
qed

lemma rows_valid: "act_rel same_rows m \<Longrightarrow> act_rel same_rows (valid_or ok m)"
  unfolding valid_or_def by (intro rows.rules)

lemma rows_ban_or_unban:
  fixes f :: "board \<Rightarrow> bool \<Rightarrow> ('s forum_db_scheme, unit) act"
  assumes "\<And>b d. act_rel same_rows (f b d)"
  shows "act_rel same_rows (ban_or_unban cur rb i f)"
proof -
  have "act_rel same_rows (\<lambda>s :: 's forum_db_scheme.
      (check_row_owner cur (map_option bd_owner_id (board_by_id i s)) board_owner_manage rb, s))"
    by (rule act_relI) simp
  then show ?thesis unfolding ban_or_unban_def by (intro rows.bind rows_board_steps assms)
qed

lemma rows_board_work: "act_rel same_rows (board_work rb r :: ('s forum_db_scheme, unit) act)"
proof (cases r)
  case (Board_tick n)
  then show ?thesis by (simp only: board_work.simps) (intro rows.mod rows_boards)
qed (simp_all only: board_work.simps, (intro rows_valid rows_ban_or_unban rows_board_steps rows_create_board rows_owner_update)+)

section \<open>Operations on rows\<close>

lemma books_likes:
  assumes b: "books (\<lambda>_ _. 0) l s" and i: "i \<in> ci_id ` set (content_items s)" and n: "one_like i u s = None"
  shows "books (owe Like_count i 1) l (s\<lparr>content_likes := content_likes s @ [\<lparr>like_content_id = i, like_user_id = u, like_created_at = t\<rparr>]\<rparr>)"
    (is "books _ _ ?t")
proof -
  have r: "real_count f j ?t = real_count f j s + owe Like_count i 1 f j" for f j
    by (cases f) (simp_all add: owe_def like_rows_def comment_rows_def favorite_rows_def)
  have "(i, u) \<notin> (\<lambda>k. (like_content_id k, like_user_id k)) ` set (content_likes s)"
    using n by (auto simp: one_like_def find_None_iff)
  then show ?thesis
    using b i r
    by (simp add: books_def ids_distinct_def rows_unique_def rows_attached_def floors_right_def floors_of_def
        comment_real_like_def comment_like_rows_def)
qed

lemma books_unlikes:
  assumes b: "books (\<lambda>_ _. 0) l s" and there: "one_like i u s \<noteq> None"
  shows "books (owe Like_count i (- 1)) l
    (s\<lparr>content_likes := filter (\<lambda>k. \<not> (like_content_id k = i \<and> like_user_id k = u)) (content_likes s)\<rparr>)" (is "books _ _ ?t")
proof -
  let ?k = "\<lambda>k. (like_content_id k, like_user_id k)"
  have fl: "filter (\<lambda>k. \<not> (like_content_id k = i \<and> like_user_id k = u)) (content_likes s) = filter (\<lambda>k. ?k k \<noteq> (i, u)) (content_likes s)"
    by simp
  have d: "distinct (map ?k (content_likes s))" using b by (simp add: books_def rows_unique_def)
  have ex: "(\<exists>k\<in>set (content_likes s). ?k k = (i, u) \<and> like_content_id k = j) \<longleftrightarrow> j = i" for j
    using there by (auto simp: one_like_def find_None_iff)
  have "length (like_rows j s) = length (like_rows j ?t) + (if j = i then 1 else 0)" for j
    unfolding like_rows_def
    using length_filter_without[OF d, of "\<lambda>k. like_content_id k = j" "(i, u)"] unfolding ex by simp
  then have r: "real_count f j ?t = real_count f j s + owe Like_count i (- 1) f j" for f j
    by (cases f) (simp_all add: owe_def comment_rows_def favorite_rows_def)
  have "distinct (map ?k (content_likes ?t))" using distinct_filter[of "map ?k (content_likes s)"] d by (simp add: distinct_map_filter)
  then show ?thesis
    using b r
    by (auto simp: books_def ids_distinct_def rows_unique_def rows_attached_def floors_right_def floors_of_def
        comment_real_like_def comment_like_rows_def)
qed

lemma books_favorites:
  assumes b: "books (\<lambda>_ _. 0) l s" and i: "i \<in> ci_id ` set (content_items s)" and n: "\<not> is_favorited u i s"
  shows "books (owe Bookmark_count i 1) l
    (s\<lparr>interaction_favorites := interaction_favorites s @ [\<lparr>fav_content_id = i, fav_user_id = u, fav_created_at = t\<rparr>]\<rparr>)" (is "books _ _ ?t")
proof -
  have r: "real_count f j ?t = real_count f j s + owe Bookmark_count i 1 f j" for f j
    by (cases f) (simp_all add: owe_def like_rows_def comment_rows_def favorite_rows_def)
  have "(i, u) \<notin> (\<lambda>k. (fav_content_id k, fav_user_id k)) ` set (interaction_favorites s)"
    using n by (auto simp: is_favorited_def list_ex_iff)
  then show ?thesis
    using b i r
    by (simp add: books_def ids_distinct_def rows_unique_def rows_attached_def floors_right_def floors_of_def
        comment_real_like_def comment_like_rows_def)
qed

lemma books_unfavorites:
  assumes b: "books (\<lambda>_ _. 0) l s" and there: "is_favorited u i s"
  shows "books (owe Bookmark_count i (- 1)) l
    (s\<lparr>interaction_favorites := filter (\<lambda>k. \<not> (fav_content_id k = i \<and> fav_user_id k = u)) (interaction_favorites s)\<rparr>)" (is "books _ _ ?t")
proof -
  let ?k = "\<lambda>k. (fav_content_id k, fav_user_id k)"
  have d: "distinct (map ?k (interaction_favorites s))" using b by (simp add: books_def rows_unique_def)
  have ex: "(\<exists>k\<in>set (interaction_favorites s). ?k k = (i, u) \<and> fav_content_id k = j) \<longleftrightarrow> j = i" for j
    using there by (auto simp: is_favorited_def list_ex_iff)
  have "length (favorite_rows j s) = length (favorite_rows j ?t) + (if j = i then 1 else 0)" for j
    unfolding favorite_rows_def
    using length_filter_without[OF d, of "\<lambda>k. fav_content_id k = j" "(i, u)"] unfolding ex by simp
  then have r: "real_count f j ?t = real_count f j s + owe Bookmark_count i (- 1) f j" for f j
    by (cases f) (simp_all add: owe_def comment_rows_def like_rows_def)
  have "distinct (map ?k (interaction_favorites ?t))" using d by (simp add: distinct_map_filter)
  then show ?thesis
    using b r
    by (auto simp: books_def ids_distinct_def rows_unique_def rows_attached_def floors_right_def floors_of_def
        comment_real_like_def comment_like_rows_def)
qed

text \<open>Likes of comments.\<close>

lemma books_comment_likes:
  assumes b: "books o1 (\<lambda>_. 0) s" and j: "j \<in> cm_id ` set (content_comments s)" and n: "one_comment_like j u s = None"
  shows "books o1 (\<lambda>k. if k = j then 1 else 0)
    (s\<lparr>content_comment_likes := content_comment_likes s @ [\<lparr>cml_comment_id = j, cml_user_id = u, cml_created_at = t\<rparr>]\<rparr>)"
    (is "books _ _ ?t")
proof -
  have r: "real_count f k ?t = real_count f k s" for f k by (rule real_count_rows) simp_all
  have "(j, u) \<notin> (\<lambda>k. (cml_comment_id k, cml_user_id k)) ` set (content_comment_likes s)"
    using n by (auto simp: one_comment_like_def find_None_iff)
  then show ?thesis
    using b j r
    by (simp add: books_def ids_distinct_def rows_unique_def rows_attached_def floors_right_def floors_of_def
        comment_real_like_def comment_like_rows_def)
qed

lemma books_comment_unlikes:
  assumes b: "books o1 (\<lambda>_. 0) s" and there: "one_comment_like j u s \<noteq> None"
  shows "books o1 (\<lambda>k. if k = j then - 1 else 0)
    (s\<lparr>content_comment_likes := filter (\<lambda>k. \<not> (cml_comment_id k = j \<and> cml_user_id k = u)) (content_comment_likes s)\<rparr>)"
    (is "books _ _ ?t")
proof -
  let ?k = "\<lambda>k. (cml_comment_id k, cml_user_id k)"
  have r: "real_count f k ?t = real_count f k s" for f k by (rule real_count_rows) simp_all
  have d: "distinct (map ?k (content_comment_likes s))" using b by (simp add: books_def rows_unique_def)
  have ex: "(\<exists>k\<in>set (content_comment_likes s). ?k k = (j, u) \<and> cml_comment_id k = h) \<longleftrightarrow> h = j" for h
    using there by (auto simp: one_comment_like_def find_None_iff)
  have "length (comment_like_rows h s) = length (comment_like_rows h ?t) + (if h = j then 1 else 0)" for h
    unfolding comment_like_rows_def
    using length_filter_without[OF d, of "\<lambda>k. cml_comment_id k = h" "(j, u)"] unfolding ex by simp
  then have cr: "comment_real_like h ?t = comment_real_like h s + (if h = j then - 1 else 0)" for h
    by (simp add: comment_real_like_def)
  have "distinct (map ?k (content_comment_likes ?t))" using d by (simp add: distinct_map_filter)
  then show ?thesis
    using b r cr
    by (auto simp: books_def ids_distinct_def rows_unique_def rows_attached_def floors_right_def floors_of_def)
qed

lemma comments_map:
  assumes "\<And>m. cm_id (g m) = cm_id m \<and> cm_content_id (g m) = cm_content_id m \<and> cm_floor_number (g m) = cm_floor_number m"
  shows "map cm_id (map g cs) = map cm_id cs" "cm_content_id ` set (map g cs) = cm_content_id ` set cs"
    "cm_id ` set (map g cs) = cm_id ` set cs"
    "map cm_floor_number (filter (\<lambda>m. cm_content_id m = i) (map g cs)) = map cm_floor_number (filter (\<lambda>m. cm_content_id m = i) cs)"
proof -
  show "map cm_id (map g cs) = map cm_id cs" by (simp add: assms)
  then show "cm_id ` set (map g cs) = cm_id ` set cs" by (metis list.set_map)
  show "cm_content_id ` set (map g cs) = cm_content_id ` set cs" by (simp add: assms image_image)
  show "map cm_floor_number (filter (\<lambda>m. cm_content_id m = i) (map g cs)) = map cm_floor_number (filter (\<lambda>m. cm_content_id m = i) cs)"
    by (induction cs) (simp_all add: assms)
qed

lemma books_comments:
  assumes b: "books o1 l s"
    and g: "\<And>m. cm_id (g m) = cm_id m \<and> cm_content_id (g m) = cm_content_id m \<and> cm_floor_number (g m) = cm_floor_number m"
    and o2: "\<And>c f. c \<in> set (content_items s) \<Longrightarrow> counter_of f c + o2 f (ci_id c) = real_count f (ci_id c) (s\<lparr>content_comments := map g (content_comments s)\<rparr>)"
    and l2: "\<And>m. m \<in> set (content_comments s) \<Longrightarrow> cm_like_count (g m) + l2 (cm_id m) = cm_like_count m + l (cm_id m)"
  shows "books o2 l2 (s\<lparr>content_comments := map g (content_comments s)\<rparr>)"
proof -
  note cm = comments_map[OF g]
  show ?thesis
    using b o2 l2
    by (simp add: books_def ids_distinct_def rows_unique_def rows_attached_def floors_right_def floors_of_def
        comment_real_like_def comment_like_rows_def cm[unfolded map_map comp_def] g comp_def del: list.set_map)
      (simp add: cm(2,3)[unfolded list.set_map] g image_image)
qed

lemma attached_zero:
  assumes "rows_attached s"
  shows "i \<notin> ci_id ` set (content_items s) \<Longrightarrow> real_count f i s = 0"
    and "j \<notin> cm_id ` set (content_comments s) \<Longrightarrow> comment_real_like j s = 0"
proof -
  assume i: "i \<notin> ci_id ` set (content_items s)"
  have "like_rows i s = []" "comment_rows i s = []" "favorite_rows i s = []"
    using assms i by (auto simp: rows_attached_def like_rows_def comment_rows_def favorite_rows_def filter_empty_conv)
  then show "real_count f i s = 0" by (cases f) simp_all
next
  assume "j \<notin> cm_id ` set (content_comments s)"
  then have "comment_like_rows j s = []" using assms by (auto simp: rows_attached_def comment_like_rows_def filter_empty_conv)
  then show "comment_real_like j s = 0" by (simp add: comment_real_like_def)
qed

lemma books_add_item:
  assumes b: "books (\<lambda>_ _. 0) l s" and i: "ci_id c \<notin> ci_id ` set (content_items s)" and z: "\<And>f. counter_of f c = 0"
  shows "books (\<lambda>_ _. 0) l (s\<lparr>content_items := content_items s @ [c]\<rparr>)" (is "books _ _ ?t")
proof -
  have r: "real_count f j ?t = real_count f j s" for f j by (rule real_count_rows) simp_all
  have zero: "real_count f (ci_id c) s = 0" for f using b i attached_zero(1)[of s "ci_id c" f] by (simp add: books_def)
  have rest: "ids_distinct ?t" "rows_unique ?t" "rows_attached ?t" "floors_right ?t" "counters_write_through ?t" "pending_counts ?t = []"
    using b i by (auto simp: books_def ids_distinct_def rows_unique_def rows_attached_def floors_right_def floors_of_def)
  show ?thesis
    using b z zero r rest unfolding books_def
    by (auto simp: comment_real_like_def comment_like_rows_def)
qed

text \<open>A comment with the next floor.\<close>

lemma foldr_max: "foldr max xs (x :: int) = Max (insert x (set xs))"
proof (induction xs)
  case (Cons y ys)
  have "Max (insert x (insert y (set ys))) = Max (insert y (insert x (set ys)))" by (simp only: insert_commute)
  also have "\<dots> = max y (Max (insert x (set ys)))" by (rule Max_insert) simp_all
  finally show ?case using Cons by simp
qed simp

lemma next_floor:
  assumes "floors_of i s = [1..int n]"
  shows "or_old (max_floor_number i s) 0 = int n"
proof (cases n)
  case 0
  then show ?thesis using assms by (simp add: max_floor_number_def or_old_def)
next
  case (Suc m)
  then have "floors_of i s = 1 # [2..int n]" using assms by (simp add: upto.simps[of 1])
  moreover have "Max (insert 1 {2..int n}) = int n" using Suc by (intro Max_eqI) auto
  ultimately show ?thesis by (simp add: max_floor_number_def or_old_def foldr_max)
qed

lemma books_add_comment:
  assumes b: "books (\<lambda>_ _. 0) (\<lambda>_. 0) s" and i: "cm_content_id m \<in> ci_id ` set (content_items s)"
    and j: "cm_id m \<notin> cm_id ` set (content_comments s)" and z: "cm_like_count m = 0" and live: "cm_deleted_at m = None"
    and fl: "cm_floor_number m = or_old (max_floor_number (cm_content_id m) s) 0 + 1"
  shows "books (owe Comment_count (cm_content_id m) 1) (\<lambda>_. 0) (s\<lparr>content_comments := content_comments s @ [m]\<rparr>)" (is "books _ _ ?t")
proof -
  let ?i = "cm_content_id m"
  have r: "real_count f k ?t = real_count f k s + owe Comment_count ?i 1 f k" for f k
    by (cases f) (simp_all add: owe_def like_rows_def comment_rows_def favorite_rows_def live)
  have fl_old: "floors_of k s = [1..int (length (floors_of k s))]" for k using b by (simp add: books_def floors_right_def)
  have fl_new: "floors_of k ?t = (if k = ?i then floors_of k s @ [int (length (floors_of k s)) + 1] else floors_of k s)" for k
    using next_floor[OF fl_old[of ?i]] fl by (simp add: floors_of_def)
  have "[1..int (length (floors_of ?i s)) + 1] = [1..int (length (floors_of ?i s))] @ [int (length (floors_of ?i s)) + 1]"
    by (simp add: upto_rec2)
  then have e: "[1..int (length (floors_of ?i s)) + 1] = floors_of ?i s @ [int (length (floors_of ?i s)) + 1]"
    unfolding fl_old[of ?i, symmetric] .
  have "floors_of k ?t = [1..int (length (floors_of k ?t))]" for k
  proof (cases "k = ?i")
    case True
    then show ?thesis using e by (simp add: fl_new add.commute)
  next
    case False
    then show ?thesis using fl_old[of k] by (simp add: fl_new)
  qed
  then have "floors_right ?t" by (simp add: floors_right_def)
  moreover have "comment_real_like (cm_id m) s = 0" using b j attached_zero(2)[of s "cm_id m"] by (simp add: books_def)
  ultimately show ?thesis
    using b i j z r
    by (auto simp: books_def ids_distinct_def rows_unique_def rows_attached_def comment_real_like_def comment_like_rows_def)
qed

lemma books_drop_comment:
  assumes b: "books (\<lambda>_ _. 0) l s" and m: "m \<in> set (content_comments s)" "cm_id m = j" "cm_content_id m = i" "cm_deleted_at m = None"
  shows "books (owe Comment_count i (- 1)) l
    (s\<lparr>content_comments := map (\<lambda>m. if cm_id m = j then m\<lparr>cm_deleted_at := Some t\<rparr> else m) (content_comments s)\<rparr>)"
proof (rule books_comments[OF b])
  fix c f assume c: "c \<in> set (content_items s)"
  let ?g = "\<lambda>m :: content_comment. if cm_id m = j then m\<lparr>cm_deleted_at := Some t\<rparr> else m"
  let ?t = "s\<lparr>content_comments := map ?g (content_comments s)\<rparr>"
  have d: "distinct (map cm_id (content_comments s))" using b by (simp add: books_def)
  have only: "x = m" if "x \<in> set (content_comments s)" "cm_id x = j" for x
    using d m(1,2) that by (auto simp: distinct_map inj_on_def)
  have ex: "(\<exists>x\<in>set (content_comments s). cm_id x = j \<and> cm_content_id x = k \<and> cm_deleted_at x = None) \<longleftrightarrow> k = i" for k
  proof
    assume "\<exists>x\<in>set (content_comments s). cm_id x = j \<and> cm_content_id x = k \<and> cm_deleted_at x = None"
    then obtain x where x: "x \<in> set (content_comments s)" "cm_id x = j" "cm_content_id x = k" by blast
    with only[OF x(1,2)] m(3) show "k = i" by simp
  next
    assume "k = i"
    with m show "\<exists>x\<in>set (content_comments s). cm_id x = j \<and> cm_content_id x = k \<and> cm_deleted_at x = None"
      by (intro bexI[of _ m] conjI) simp_all
  qed
  have "length (filter P (map ?g cs)) = length (filter P (filter (\<lambda>m. cm_id m \<noteq> j) cs))"
    if "\<And>m. P (m\<lparr>cm_deleted_at := Some t\<rparr>) = False" for P cs
    by (induction cs) (auto simp: that)
  then have "length (comment_rows k s) = length (comment_rows k ?t) + (if k = i then 1 else 0)" for k
    unfolding comment_rows_def
    using length_filter_without[OF d, of "\<lambda>m. cm_content_id m = k \<and> cm_deleted_at m = None" j] unfolding ex by simp
  then have "real_count f k ?t = real_count f k s + owe Comment_count i (- 1) f k" for k
    by (cases f) (simp_all add: owe_def like_rows_def favorite_rows_def)
  then show "counter_of f c + owe Comment_count i (- 1) f (ci_id c) = real_count f (ci_id c) ?t"
    using b c by (simp add: books_def)
qed simp_all

lemma books_bump_comment:
  assumes b: "books o1 (\<lambda>k. if k = j then d else 0) s"
  shows "books o1 (\<lambda>_. 0) (s\<lparr>content_comments :=
    map (\<lambda>m. if cm_id m = j then m\<lparr>cm_like_count := max (cm_like_count m + d) 0\<rparr> else m) (content_comments s)\<rparr>)"
proof (rule books_comments[OF b])
  fix m assume m: "m \<in> set (content_comments s)"
  have "cm_like_count m + (if cm_id m = j then d else 0) = comment_real_like (cm_id m) s" using b m by (simp add: books_def)
  moreover have "0 \<le> comment_real_like (cm_id m) s" by (simp add: comment_real_like_def)
  ultimately show "cm_like_count (if cm_id m = j then m\<lparr>cm_like_count := max (cm_like_count m + d) 0\<rparr> else m) + 0
      = cm_like_count m + (if cm_id m = j then d else 0)"
    by (auto split: if_splits)
next
  fix c f assume "c \<in> set (content_items s)"
  moreover have "length (filter P (map (\<lambda>m. if cm_id m = j then m\<lparr>cm_like_count := max (cm_like_count m + d) 0\<rparr> else m) cs)) = length (filter P cs)"
    if "\<And>m n. P (m\<lparr>cm_like_count := n\<rparr>) = P m" for P and cs :: "content_comment list"
    by (induction cs) (auto simp: that)
  then have "real_count f k (s\<lparr>content_comments :=
      map (\<lambda>m. if cm_id m = j then m\<lparr>cm_like_count := max (cm_like_count m + d) 0\<rparr> else m) (content_comments s)\<rparr>) = real_count f k s" for k
    by (cases f) (simp_all add: like_rows_def comment_rows_def favorite_rows_def)
  ultimately show "counter_of f c + o1 f (ci_id c) = real_count f (ci_id c) (s\<lparr>content_comments :=
      map (\<lambda>m. if cm_id m = j then m\<lparr>cm_like_count := max (cm_like_count m + d) 0\<rparr> else m) (content_comments s)\<rparr>)"
    using b by (simp add: books_def)
qed simp_all

lemma books_reconcile:
  assumes ok: "forum_ok s" and r: "reconcile_counts b u s = (nk, t)"
  shows "forum_ok t"
proof (cases "b = 0")
  case True
  then have "reconcile_loop b u 0 s = (0, [], [], s)"
    by (subst reconcile_loop.simps) (simp add: reconcile_window_def)
  then have "t = record_oscillation {} (mark_converged [] s)" using r by (auto simp: reconcile_counts_def)
  then have "same_rows s t" by (simp add: same_rows_def record_oscillation_def mark_converged_def)
  then show ?thesis using ok books_same by (simp add: forum_ok_books)
next
  case False
  have ok': "counters_write_through s" "pending_counts s = []" "ids_distinct s" "distinct (map cm_id (content_comments s))"
    "rows_unique s" "rows_attached s" "counters_right s" "floors_right s" using ok by (simp_all add: forum_ok_def)
  obtain n k where nk: "nk = (n, k)" by fastforce
  note d = reconcile_done[OF ok'(3,2) _ r[unfolded nk]]
  have rec: "recounts s t" using d(1) False by simp
  note real = recounts_real[OF rec]
  have items: "ids_distinct t" using ok'(3) real(3) by (simp add: ids_distinct_def)
  have right: "counts_of c = real_counts (ci_id c) t" if c: "c \<in> set (content_items t)" for c
  proof -
    have at: "item_by_id (ci_id c) t = Some c" using c items item_by_id_mem by (simp add: ids_distinct_def)
    show ?thesis
    proof (cases "ci_id c \<in> scanned u 0 s")
      case True
      then obtain c' where "item_by_id (ci_id c) t = Some c'" "counts_of c' = real_counts (ci_id c) s"
        using d(2)[of "ci_id c"] \<open>b \<noteq> 0\<close> by auto
      then show ?thesis using at real(1) by simp
    next
      case False
      then have "item_by_id (ci_id c) s = Some c" using d(3) \<open>b \<noteq> 0\<close> at by simp
      then have "c \<in> set (content_items s)" using item_by_id_some by blast
      then show ?thesis using ok'(7) real(1) by (simp add: counters_right_def)
    qed
  qed
  have likes: "cm_like_count m = comment_real_like (cm_id m) t" if "m \<in> set (content_comments t)" for m
    using d(5)[OF _ that] False ok'(7) real(2) by (auto simp: comment_right_def counters_right_def)
  have cm: "map bare_comment (content_comments t) = map bare_comment (content_comments s)" using rec by (simp add: recounts_def)
  have cids: "map cm_id (content_comments t) = map cm_id (content_comments s)"
    using arg_cong[OF cm, of "map cm_id"] by (simp add: comp_def)
  have cis: "map cm_content_id (content_comments t) = map cm_content_id (content_comments s)"
    using arg_cong[OF cm, of "map cm_content_id"] by (simp add: comp_def)
  have bare: "map cm_floor_number (filter (\<lambda>m. cm_content_id m = i) cs)
      = map cm_floor_number (filter (\<lambda>m. cm_content_id m = i) (map bare_comment cs))" for i cs
    by (induction cs) (simp_all add: bare_comment_def)
  have fl: "floors_of i t = floors_of i s" for i
    unfolding floors_of_def bare[of i "content_comments t"] bare[of i "content_comments s"] cm ..
  have rows: "content_likes t = content_likes s" "interaction_favorites t = interaction_favorites s"
    "content_comment_likes t = content_comment_likes s" "pending_counts t = pending_counts s"
    using rec by (simp_all add: recounts_def)
  have ims: "ci_id ` set (content_items t) = ci_id ` set (content_items s)"
    "cm_id ` set (content_comments t) = cm_id ` set (content_comments s)"
    "cm_content_id ` set (content_comments t) = cm_content_id ` set (content_comments s)"
    using arg_cong[OF real(3), of set] arg_cong[OF cids, of set] arg_cong[OF cis, of set] by simp_all
  have wt: "counters_write_through t = counters_write_through s" using rec by (simp add: recounts_def)
  show ?thesis
    using ok' items right likes cids fl rows ims wt
    by (simp add: forum_ok_def counters_right_def floors_right_def rows_unique_def rows_attached_def)
qed

section \<open>Each request keeps the books\<close>

lemma settle:
  assumes "books (owe f i d) l s" and "bump_content_counter i f d s = (Inr n, t)"
  shows "books (\<lambda>_ _. 0) l t"
proof -
  have "counters_write_through s" using assms(1) by (simp add: books_def)
  then have "t = update_item i (\<lambda>c. set_counter f (max (counter_of f c + d) 0) c) s"
    using assms(2) by (auto simp: bump_content_counter_def write_through_bump_def split: option.splits)
  then show ?thesis using books_bump[OF assms(1)] by simp
qed

lemma event_books: "points_event u e r s = (x, t) \<Longrightarrow> books o1 l s \<Longrightarrow> books o1 l t"
  using act_relD[OF rows_points] books_same by blast

lemma read_count_state: "counters_write_through s \<Longrightarrow> read_count i f s = (x, t) \<Longrightarrow> t = s"
  by (auto simp: read_count_def split: option.splits)

lemma active_item_mem: "active_item i s = Some c \<Longrightarrow> c \<in> set (content_items s) \<and> ci_id c = i \<and> ci_deleted_at c = None"
  by (auto simp: active_item_def find_Some_iff)

lemma lock_active_Inr: "lock_active i s = (Inr u, t) \<Longrightarrow> t = s \<and> i \<in> ci_id ` set (content_items s)"
  by (auto simp: lock_active_def dest!: active_item_mem split: if_splits)

lemma allowA_Inr: "allowA p cur rb s = (Inr u, t) \<Longrightarrow> t = s"
  by (auto simp: allowA_def bindA_def split: sum.splits)

lemma forum_like:
  assumes ok: "forum_ok s" and run: "like_item i u s = (Inr n, t)"
  shows "forum_ok t"
proof -
  have wt: "counters_write_through s" and b: "books (\<lambda>_ _. 0) (\<lambda>_. 0) s"
    using ok by (simp_all add: forum_ok_books) (simp add: forum_ok_def forum_ok_books[symmetric])
  obtain x s0 where l: "lock_active i s = (Inr x, s0)"
    and r: "(if one_like i u s0 \<noteq> None then read_count i Like_count s0 = (Inr n, t)
        else bindA (points_event u ''like'' (''item:'' @ uuid_str i)) (\<lambda>_. bump_content_counter i Like_count 1)
               (s0\<lparr>content_likes := content_likes s0 @ [\<lparr>like_content_id = i, like_user_id = u, like_created_at = now s0\<rparr>]\<rparr>) = (Inr n, t))"
    using run by (auto simp: like_item_def split: if_splits)
  have s0: "s0 = s" and mem: "i \<in> ci_id ` set (content_items s)" using lock_active_Inr[OF l] by simp_all
  show ?thesis
  proof (cases "one_like i u s = None")
    case False
    then show ?thesis using r s0 ok read_count_state[OF wt] by auto
  next
    case True
    note b1 = books_likes[OF b mem True, of "now s"]
    show ?thesis using r[unfolded s0] True
      by (auto simp: forum_ok_books elim!: bindA_InrE intro: settle[OF event_books[OF _ b1]])
  qed
qed

lemma forum_unlike:
  assumes ok: "forum_ok s" and run: "unlike_item i u s = (Inr n, t)"
  shows "forum_ok t"
proof -
  have wt: "counters_write_through s" and b: "books (\<lambda>_ _. 0) (\<lambda>_. 0) s"
    using ok by (simp_all add: forum_ok_books) (simp add: forum_ok_def forum_ok_books[symmetric])
  obtain x s0 where l: "lock_active i s = (Inr x, s0)"
    and r: "if one_like i u s0 = None then read_count i Like_count s0 = (Inr n, t)
        else bump_content_counter i Like_count (- 1)
               (s0\<lparr>content_likes := filter (\<lambda>k. \<not> (like_content_id k = i \<and> like_user_id k = u)) (content_likes s0)\<rparr>) = (Inr n, t)"
    using run by (auto simp: unlike_item_def split: if_splits)
  have s0: "s0 = s" using lock_active_Inr[OF l] by simp
  show ?thesis
  proof (cases "one_like i u s = None")
    case True
    then show ?thesis using r s0 ok read_count_state[OF wt] by auto
  next
    case False
    with r s0 show ?thesis using settle[OF books_unlikes[OF b False]] by (simp add: forum_ok_books)
  qed
qed

lemma current_bookmark_state: "counters_write_through s \<Longrightarrow> current_bookmark_count i s = (Inr n, t) \<Longrightarrow> t = s \<and> i \<in> ci_id ` set (content_items s)"
  by (auto simp: current_bookmark_count_def bookmark_count_def dest!: active_item_mem split: option.splits)

lemma bump_bookmark_settles:
  assumes "books (owe Bookmark_count i d) l s" and "bump_bookmark i d s = (Inr n, t)"
  shows "books (\<lambda>_ _. 0) l t"
proof -
  have "counters_write_through s" using assms(1) by (simp add: books_def)
  then have "t = update_item i (\<lambda>c. set_counter Bookmark_count (max (counter_of Bookmark_count c + d) 0) c) s"
    using assms(2) by (auto simp: bump_bookmark_def bump_bookmark_count_def split: option.splits)
  then show ?thesis using books_bump[OF assms(1)] by simp
qed

lemma forum_favorite:
  assumes ok: "forum_ok s" and run: "add_favorite u i s = (Inr n, t)"
  shows "forum_ok t"
proof -
  have wt: "counters_write_through s" and b: "books (\<lambda>_ _. 0) (\<lambda>_. 0) s"
    using ok by (simp_all add: forum_ok_books) (simp add: forum_ok_def forum_ok_books[symmetric])
  obtain c s0 where l: "current_bookmark_count i s = (Inr c, s0)"
    and r: "if is_favorited u i s0 then t = s0
        else \<exists>n. bump_bookmark i 1 (s0\<lparr>interaction_favorites := interaction_favorites s0
               @ [\<lparr>fav_content_id = i, fav_user_id = u, fav_created_at = now s0\<rparr>]\<rparr>) = (Inr n, t)"
    using run by (auto simp: add_favorite_def split: if_splits)
  have s0: "s0 = s" and mem: "i \<in> ci_id ` set (content_items s)" using current_bookmark_state[OF wt l] by simp_all
  show ?thesis
  proof (cases "is_favorited u i s")
    case True
    then show ?thesis using r s0 ok by auto
  next
    case False
    with r s0 show ?thesis using bump_bookmark_settles[OF books_favorites[OF b mem False]] by (auto simp: forum_ok_books)
  qed
qed

lemma forum_unfavorite:
  assumes ok: "forum_ok s" and run: "remove_favorite u i s = (Inr n, t)"
  shows "forum_ok t"
proof -
  have wt: "counters_write_through s" and b: "books (\<lambda>_ _. 0) (\<lambda>_. 0) s"
    using ok by (simp_all add: forum_ok_books) (simp add: forum_ok_def forum_ok_books[symmetric])
  obtain c s0 where l: "current_bookmark_count i s = (Inr c, s0)"
    and r: "if \<not> is_favorited u i s0 then t = s0
        else \<exists>n. bump_bookmark i (- 1) (s0\<lparr>interaction_favorites :=
               filter (\<lambda>f. \<not> (fav_content_id f = i \<and> fav_user_id f = u)) (interaction_favorites s0)\<rparr>) = (Inr n, t)"
    using run by (auto simp: remove_favorite_def split: if_splits)
  have s0: "s0 = s" using current_bookmark_state[OF wt l] by simp
  show ?thesis
  proof (cases "is_favorited u i s")
    case False
    then show ?thesis using r s0 ok by auto
  next
    case True
    with r s0 show ?thesis using bump_bookmark_settles[OF books_unfavorites[OF b True]] by (auto simp: forum_ok_books)
  qed
qed

lemma comment_of_mem: "comment_of i j s = Some m \<Longrightarrow>
    m \<in> set (content_comments s) \<and> cm_id m = j \<and> cm_content_id m = i \<and> cm_deleted_at m = None"
  by (auto simp: comment_of_def find_Some_iff)

lemma assert_comment_Inr: "assert_comment_in_item i j s = (Inr m, t) \<Longrightarrow> t = s \<and> comment_of i j s = Some m"
  by (auto simp: assert_comment_in_item_def optR_def split: option.splits)

lemma bump_like_settles:
  assumes "books o1 (\<lambda>k. if k = j then d else 0) s" and "bump_like_count j d s = (Inr n, t)"
  shows "books o1 (\<lambda>_. 0) t"
  using books_bump_comment[OF assms(1)] assms(2) by (auto simp: bump_like_count_def split: option.splits)

lemma forum_like_comment:
  assumes ok: "forum_ok s" and run: "like_comment i j u s = (Inr n, t)"
  shows "forum_ok t"
proof -
  have b: "books (\<lambda>_ _. 0) (\<lambda>_. 0) s" using ok by (simp add: forum_ok_books)
  obtain x s0 m s1 where l: "lock_active i s = (Inr x, s0)" and m: "assert_comment_in_item i j s0 = (Inr m, s1)"
    and r: "if one_comment_like j u s1 \<noteq> None then t = s1
        else bindA (points_event u ''like'' (''comment:'' @ uuid_str j)) (\<lambda>_. bump_like_count j 1)
               (s1\<lparr>content_comment_likes := content_comment_likes s1 @ [\<lparr>cml_comment_id = j, cml_user_id = u, cml_created_at = now s1\<rparr>]\<rparr>) = (Inr n, t)"
    using run by (auto simp: like_comment_def split: if_splits)
  have s: "s0 = s" "s1 = s" and mem: "j \<in> cm_id ` set (content_comments s)"
    using lock_active_Inr[OF l] assert_comment_Inr[OF m] by (auto dest!: comment_of_mem)
  show ?thesis
  proof (cases "one_comment_like j u s = None")
    case False
    then show ?thesis using r s ok by auto
  next
    case True
    note b1 = books_comment_likes[OF b mem True, of "now s"]
    show ?thesis using r[unfolded s] True
      by (auto simp: forum_ok_books elim!: bindA_InrE intro: bump_like_settles[OF event_books[OF _ b1]])
  qed
qed

lemma forum_unlike_comment:
  assumes ok: "forum_ok s" and run: "unlike_comment i j u s = (Inr n, t)"
  shows "forum_ok t"
proof -
  have b: "books (\<lambda>_ _. 0) (\<lambda>_. 0) s" using ok by (simp add: forum_ok_books)
  obtain x s0 m s1 where l: "lock_active i s = (Inr x, s0)" and m: "assert_comment_in_item i j s0 = (Inr m, s1)"
    and r: "if one_comment_like j u s1 = None then t = s1
        else bump_like_count j (- 1)
               (s1\<lparr>content_comment_likes := filter (\<lambda>k. \<not> (cml_comment_id k = j \<and> cml_user_id k = u)) (content_comment_likes s1)\<rparr>) = (Inr n, t)"
    using run by (auto simp: unlike_comment_def split: if_splits)
  have s: "s0 = s" "s1 = s" using lock_active_Inr[OF l] assert_comment_Inr[OF m] by simp_all
  show ?thesis
  proof (cases "one_comment_like j u s = None")
    case True
    then show ?thesis using r s ok by auto
  next
    case False
    with r s show ?thesis using bump_like_settles[OF books_comment_unlikes[OF b False]] by (simp add: forum_ok_books)
  qed
qed

lemma insert_comment_Inr:
  "insert_comment m s = Inr t \<Longrightarrow> t = s\<lparr>content_comments := content_comments s @ [m]\<rparr> \<and> cm_id m \<notin> cm_id ` set (content_comments s)"
  by (auto simp: insert_comment_def list_ex_iff split: if_splits)

lemma parent_state: "check_parent i parent s = (Inr u, t) \<Longrightarrow> t = s"
  by (auto simp: check_parent_def split: option.splits dest!: assert_comment_Inr)

lemma forum_comment:
  assumes ok: "forum_ok s" and run: "create_comment i u text parent s = (Inr m, t)"
  shows "forum_ok t"
proof -
  have b: "books (\<lambda>_ _. 0) (\<lambda>_. 0) s" using ok by (simp add: forum_ok_books)
  from run[unfolded create_comment_def seqA_def] obtain x s0 where l: "lock_active i s = (Inr x, s0)"
    and r0: "bindA (check_parent i parent) (\<lambda>_. bindA (getA (max_floor_number i)) (\<lambda>top.
       bindA (\<lambda>s. let (j, s) = fresh_pk s;
                   m = \<lparr>cm_id = j, cm_content_id = i, cm_user_id = u, cm_content = text,
                        cm_floor_number = or_old top 0 + 1, cm_parent_id = parent, cm_like_count = 0, cm_created_at = now s,
                        cm_deleted_at = None\<rparr>
               in case insert_comment m s of Inl e \<Rightarrow> (Inl e, s) | Inr s' \<Rightarrow> (Inr m, s')) (\<lambda>m.
       bindA (bump_content_counter i Comment_count 1) (\<lambda>_.
       bindA (points_event u ''comment'' (''comment:'' @ uuid_str (cm_id m))) (\<lambda>_. retA m))))) s0 = (Inr m, t)"
    by (rule bindA_InrE)
  have s: "s0 = s" and mem: "i \<in> ci_id ` set (content_items s)" using lock_active_Inr[OF l] by simp_all
  let ?s = "s\<lparr>pk_ix := Suc (pk_ix s)\<rparr>"
  have bs: "books (\<lambda>_ _. 0) (\<lambda>_. 0) ?s" using books_same[OF fresh_pk_rows b] .
  obtain c s2 n s3 where ins: "insert_comment c ?s = Inr s2" and c: "cm_content_id c = i" "cm_like_count c = 0" "cm_deleted_at c = None"
      "cm_floor_number c = or_old (max_floor_number i s) 0 + 1"
    and bump: "bump_content_counter i Comment_count 1 s2 = (Inr n, s3)"
    and pts: "points_event u ''comment'' (''comment:'' @ uuid_str (cm_id c)) s3 = (Inr (), t)"
    using r0 unfolding s
    by (auto simp: Let_def fresh_pk_def split: sum.splits elim!: bindA_InrE dest!: parent_state)
  note i2 = insert_comment_Inr[OF ins]
  have same: "max_floor_number i ?s = max_floor_number i s" by (simp add: max_floor_number_def floors_of_def)
  have "books (owe Comment_count i 1) (\<lambda>_. 0) s2"
    using books_add_comment[OF bs, of c] i2 c mem same by simp
  then show ?thesis using event_books[OF pts] settle[OF _ bump] by (simp add: forum_ok_books)
qed

lemma forum_delete_comment:
  assumes ok: "forum_ok s" and m: "comment_of i j s = Some m" and run: "remove_comment i j s = (Inr u, t)"
  shows "forum_ok t"
proof -
  have b: "books (\<lambda>_ _. 0) (\<lambda>_. 0) s" using ok by (simp add: forum_ok_books)
  note mm = comment_of_mem[OF m]
  have "books (owe Comment_count i (- 1)) (\<lambda>_. 0)
    (s\<lparr>content_comments := map (\<lambda>m. if cm_id m = j then m\<lparr>cm_deleted_at := Some (now s)\<rparr> else m) (content_comments s)\<rparr>)"
    using books_drop_comment[OF b, of m] mm by simp
  moreover obtain n where "bump_content_counter i Comment_count (- 1)
    (s\<lparr>content_comments := map (\<lambda>m. if cm_id m = j then m\<lparr>cm_deleted_at := Some (now s)\<rparr> else m) (content_comments s)\<rparr>) = (Inr n, t)"
    using run by (auto simp: remove_comment_def)
  ultimately show ?thesis using settle by (simp add: forum_ok_books)
qed

section \<open>New items\<close>

lemma insert_item_Inr:
  "insert_content_item c s = Inr t \<Longrightarrow> t = s\<lparr>content_items := content_items s @ [c]\<rparr> \<and> ci_id c \<notin> ci_id ` set (content_items s)"
  by (auto simp: insert_content_item_def list_ex_iff split: if_splits)

lemma counter_zero: "ci_like_count c = 0 \<Longrightarrow> ci_comment_count c = 0 \<Longrightarrow> ci_bookmark_count c = 0 \<Longrightarrow> counter_of f c = 0"
  by (cases f) simp_all

lemma forum_insert:
  assumes "forum_ok s" and "insert_content_item c s = Inr t" and "\<And>f. counter_of f c = 0"
  shows "forum_ok t"
  using books_add_item[of "\<lambda>_. 0" s c] insert_item_Inr[OF assms(2)] assms by (simp add: forum_ok_books)

lemma forum_same: "same_rows s t \<Longrightarrow> forum_ok s \<Longrightarrow> forum_ok t"
  using books_same by (simp add: forum_ok_books)

lemma forum_add_item:
  assumes ok: "forum_ok s" and run: "add_item g s = (Inr c, t)" and z: "\<And>i t f. counter_of f (g i t) = 0"
  shows "forum_ok t"
proof -
  have "forum_ok (s\<lparr>pk_ix := Suc (pk_ix s)\<rparr>)" using forum_same[OF fresh_pk_rows ok] .
  moreover obtain i t' where "insert_content_item (g i t') (s\<lparr>pk_ix := Suc (pk_ix s)\<rparr>) = Inr t"
    using run by (auto simp: add_item_def fresh_pk_def Let_def split: sum.splits)
  ultimately show ?thesis by (rule forum_insert) (rule z)
qed

text \<open>An operation that keeps the books, whether or not it raises; the ones that add a row must end well.\<close>

definition keeps :: "('s forum_db_scheme, 'a) act \<Rightarrow> bool" where
  "keeps m \<longleftrightarrow> (\<forall>s a t. forum_ok s \<longrightarrow> m s = (Inr a, t) \<longrightarrow> forum_ok t)"

lemma keepsD: "keeps m \<Longrightarrow> forum_ok s \<Longrightarrow> m s = (Inr a, t) \<Longrightarrow> forum_ok t"
  by (simp add: keeps_def)

lemma keeps_rows: "act_rel same_rows m \<Longrightarrow> keeps m"
  by (auto simp: keeps_def dest: act_relD forum_same)

lemma keeps_bind: "keeps m \<Longrightarrow> (\<And>a. keeps (f a)) \<Longrightarrow> keeps (bindA m f)"
  unfolding keeps_def by (blast elim: bindA_InrE)

lemma keeps_seq: "keeps m \<Longrightarrow> keeps f \<Longrightarrow> keeps (seqA m f)"
  unfolding seqA_def by (rule keeps_bind)

lemma keeps_read: "keeps (retA a)" "keeps (raiseA e)" "keeps (getA g)" "keeps (guardA c e)" "keeps (liftA r)"
  by (simp_all add: keeps_rows rows.read)

lemma keeps_if: "keeps m \<Longrightarrow> keeps n \<Longrightarrow> keeps (if c then m else n)"
  by simp

lemma keeps_opt: "keeps m \<Longrightarrow> (\<And>x. keeps (n x)) \<Longrightarrow> keeps (case v of None \<Rightarrow> m | Some x \<Rightarrow> n x)"
  by (cases v) simp_all

lemmas keeps_rules = keeps_read keeps_bind keeps_seq keeps_if keeps_opt

lemma keeps_ops:
  "keeps (like_item i u)" "keeps (unlike_item i u)" "keeps (add_favorite u i)" "keeps (remove_favorite u i)"
  "keeps (like_comment i j u)" "keeps (unlike_comment i j u)" "keeps (create_comment i u text parent)"
  "keeps (delete_comment i j)"
proof -
  show "keeps (delete_comment i j)"
    unfolding keeps_def
  proof (intro allI impI)
    fix s a t assume ok: "forum_ok s" and run: "delete_comment i j s = (Inr a, t)"
    then obtain m s0 where m: "assert_comment_in_item i j s = (Inr m, s0)" and r: "remove_comment i (cm_id m) s0 = (Inr a, t)"
      unfolding delete_comment_def by (elim bindA_InrE)
    note mm = assert_comment_Inr[OF m]
    then have "cm_id m = j" using comment_of_mem by blast
    with mm r have "remove_comment i j s = (Inr a, t)" by simp
    then show "forum_ok t" by (rule forum_delete_comment[OF ok conjunct2[OF mm]])
  qed
qed (auto simp: keeps_def intro: forum_like forum_unlike forum_favorite forum_unfavorite forum_like_comment forum_unlike_comment forum_comment)

lemma new_items_zero [simp]:
  "counter_of f (new_item i a x t) = 0" "counter_of f (blog_item i o1 b p t) = 0"
  "counter_of f (qa_content_item i b a q tt e c t) = 0"
  by (cases f; simp add: new_item_def blog_item_def qa_content_item_def)+

lemma keeps_add_item: "(\<And>i t f. counter_of f (g i t) = 0) \<Longrightarrow> keeps (add_item g)"
  unfolding keeps_def by (blast intro: forum_add_item)

lemma rows_mod: "(\<And>s. same_rows s (h s)) \<Longrightarrow> act_rel same_rows (modA h :: ('s forum_db_scheme, unit) act)"
  by (rule rows.mod)

lemma rows_update_item:
  "(\<And>s c. ci_id (f s c) = ci_id c \<and> counts_of (f s c) = counts_of c) \<Longrightarrow>
     act_rel same_rows (modA (\<lambda>s. update_item i (f s) s) :: ('s forum_db_scheme, unit) act)"
  by (intro rows_mod rows_update) blast

lemma rows_simple [simp]:
  "act_rel same_rows (get_item_or_raise i :: ('s forum_db_scheme, content_item) act)"
  "act_rel same_rows (allowA p cur rb :: ('s forum_db_scheme, unit) act)"
  "act_rel same_rows (forbidA c :: ('s forum_db_scheme, unit) act)"
  "act_rel same_rows (require_unique_slug sl :: ('s forum_db_scheme, unit) act)"
  "act_rel same_rows (check_column_owner cur rb col :: ('s forum_db_scheme, unit) act)"
  "act_rel same_rows (ensure_by_slug category :: ('s forum_db_scheme, uuid) act)"
proof -
  show "act_rel same_rows (get_item_or_raise i :: ('s forum_db_scheme, content_item) act)"
    by (rule act_relI) (simp add: get_item_or_raise_def)
  show "act_rel same_rows (allowA p cur rb :: ('s forum_db_scheme, unit) act)"
    unfolding allowA_def by (intro rows.bind rows.read)
  show f: "act_rel same_rows (forbidA c :: ('s forum_db_scheme, unit) act)" for c
    unfolding forbidA_def by (rule rows.read)
  show "act_rel same_rows (require_unique_slug sl :: ('s forum_db_scheme, unit) act)"
    unfolding require_unique_slug_def by (intro rows.opt rows.bind rows.read)
  show "act_rel same_rows (check_column_owner cur rb col :: ('s forum_db_scheme, unit) act)"
    unfolding check_column_owner_def by (intro rows.opt rows.bind rows.read f)
  show "act_rel same_rows (ensure_by_slug category :: ('s forum_db_scheme, uuid) act)"
    by (rule act_relI) (auto simp: ensure_by_slug_def Let_def fresh_pk_def insert_board_def split: option.splits)
qed

lemma rows_ops:
  "act_rel same_rows (delete_item i :: ('s forum_db_scheme, uuid) act)"
  "act_rel same_rows (forward_item i :: ('s forum_db_scheme, int) act)"
  "act_rel same_rows (bump_item_view i :: ('s forum_db_scheme, unit) act)"
  "act_rel same_rows (create_if_absent k i' ti ri rn re :: ('s forum_db_scheme, bool) act)"
  "act_rel same_rows (record_view u i :: ('s forum_db_scheme, instant) act)"
proof -
  show "act_rel same_rows (delete_item i :: ('s forum_db_scheme, uuid) act)"
    unfolding delete_item_def
    by (intro rows.rules rows_simple rows_update_item rows_emit rows_content rows_mod rows_boards) (simp add: counts_of_def)
  show "act_rel same_rows (forward_item i :: ('s forum_db_scheme, int) act)"
    unfolding forward_item_def by (intro rows.rules rows_simple rows_update_item) (simp add: counts_of_def)
  show "act_rel same_rows (bump_item_view i :: ('s forum_db_scheme, unit) act)"
    unfolding bump_item_view_def by (intro rows_update_item) (simp add: counts_of_def)
  show "act_rel same_rows (create_if_absent k i' ti ri rn re :: ('s forum_db_scheme, bool) act)"
    unfolding create_if_absent_def by (intro rows.rules act_relI) (auto simp: Let_def fresh_pk_def)
  show "act_rel same_rows (record_view u i :: ('s forum_db_scheme, instant) act)"
    unfolding record_view_def by (intro rows.rules act_relI) (auto simp: Let_def fresh_pk_def)
qed

lemma rows_report: "act_rel same_rows (report_content u k i r :: ('s forum_db_scheme, unit) act)"
proof -
  have "act_rel same_rows (\<lambda>s :: 's forum_db_scheme. (comment_body i s, s))" by (rule act_relI) simp
  then show ?thesis unfolding report_content_def by (intro rows.rules rows_simple rows_ops)
qed

lemma keeps_create_item: "keeps (create_item a x)"
  unfolding create_item_def
  by (intro keeps_rules keeps_rows[OF rows_board_steps(3)] keeps_rows[OF rows_board_steps(2)] keeps_rows[OF rows_simple(4)]
      keeps_add_item keeps_rows[OF rows_content] keeps_rows[OF rows_points] keeps_rows[OF rows_emit] new_items_zero)

lemma keeps_publish: "keeps (publish_blog_item o1 b p)"
proof -
  have "act_rel same_rows (modA (\<lambda>s. if republished b p (now s) c = c then s else update_item (ci_id c) (republished b p (now s)) s)
      :: ('s forum_db_scheme, unit) act)" for c
    by (intro rows_mod) (simp add: rows_update republished_def counts_of_def)
  then show ?thesis
    unfolding publish_blog_item_def
    by (intro keeps_rules keeps_add_item keeps_rows[OF rows_content] keeps_rows[OF rows_points] keeps_rows[OF rows_emit]
        new_items_zero keeps_rows)
qed

lemma keeps_question: "keeps (storeA (publish_qa_item a q ti bo ex))"
  unfolding keeps_def
proof (intro allI impI)
  fix s :: "'s forum_db_scheme" and u t
  assume ok: "forum_ok s" and run: "storeA (publish_qa_item a q ti bo ex) s = (Inr u, t)"
  then have "publish_qa_item a q ti bo ex s = Inr t" by (auto simp: storeA_def split: sum.splits)
  then obtain b s1 s2 x s3 where e: "ensure_qa_board s = Inr (b, s1)"
    and i: "insert_content_item (qa_content_item (pks s1 (pk_ix s1)) b a q ti ex bo (now s1)) (s1\<lparr>pk_ix := Suc (pk_ix s1)\<rparr>) = Inr s2"
    and ev: "enqueue_content_event (content_events_enabled s2) (pks s1 (pk_ix s1)) ''published'' None s2 = Inr (x, s3)"
    and t: "t = emit_fx (Bump ''content'') s3"
    by (auto simp: publish_qa_item_def Let_def fresh_pk_def qa_content_item_def elim!: bindR_InrE)
  have "same_rows s s1" using e
    by (auto simp: ensure_qa_board_def Let_def fresh_pk_def insert_board_def split: option.splits if_splits)
  then have "same_rows s (s1\<lparr>pk_ix := Suc (pk_ix s1)\<rparr>)" by (rule same_rows_trans) simp
  then have "forum_ok s2" using forum_insert[OF forum_same[OF _ ok] i] by simp
  moreover have "same_rows s2 s3" by (rule same_rows_core) (rule enqueue_content_event_more(1)[OF ev])
  moreover have "same_rows s3 t" by (simp add: t same_rows_def emit_fx_def)
  ultimately show "forum_ok t" using forum_same by blast
qed

lemma flush_nothing:
  assumes "pending_counts s = []"
  shows "flush_content_counters s = s"
  using assms by (simp add: flush_content_counters_def flush_counters_def drain_counters_def)

lemma keeps_jobs: "keeps (modA flush_content_counters)" "keeps (modA (\<lambda>s. snd (reconcile_counts b u s)))"
proof -
  show "keeps (modA flush_content_counters)" by (auto simp: keeps_def flush_nothing forum_ok_def)
  show "keeps (modA (\<lambda>s. snd (reconcile_counts b u s)))"
    unfolding keeps_def
  proof (intro allI impI)
    fix s :: "'s forum_db_scheme" and x t
    assume ok: "forum_ok s" and run: "modA (\<lambda>s. snd (reconcile_counts b u s)) s = (Inr x, t)"
    obtain nk r where r: "reconcile_counts b u s = (nk, r)" by fastforce
    with run have "t = r" by simp
    with books_reconcile[OF ok r] show "forum_ok t" by simp
  qed
qed

lemma keeps_owner:
  "(\<And>u. keeps (f u)) \<Longrightarrow> keeps (bindA (\<lambda>s. (g s, s)) f)"
  by (rule keeps_bind) (auto simp: keeps_def)

lemmas keeps_leaves = rows_simple[THEN keeps_rows] rows_ops[THEN keeps_rows] rows_report[THEN keeps_rows]
  rows_board_work[THEN keeps_rows]

lemma keeps_ignore: "keeps m \<Longrightarrow> keeps (ignoreA m)"
  unfolding ignoreA_def by (intro keeps_bind keeps_read)

lemma keeps_routes:
  "keeps (create_content_item cur rb x)" "keeps (delete_content_item cur rb i)" "keeps (report_content_target cur k i r)"
  "keeps (publish_blog o1 category p)" "keeps (create_content_comment cur rb i text parent)"
  "keeps (delete_content_comment cur rb i j)"
  unfolding create_content_item_def delete_content_item_def report_content_target_def publish_blog_def
    create_content_comment_def delete_content_comment_def
  by (intro keeps_rules keeps_owner keeps_ops keeps_create_item keeps_publish keeps_leaves)+

lemma keeps_work: "keeps (forum_work rb r)"
proof (cases r)
  case (Purge_views n)
  have "act_rel same_rows (modA (\<lambda>s. snd (purge_stale_view_logs n s)) :: ('s forum_db_scheme, unit) act)"
    by (intro rows_mod) (simp add: purge_stale_view_logs_def Let_def)
  with Purge_views show ?thesis by (simp only: forum_work.simps) (rule keeps_rows)
qed (simp_all only: forum_work.simps,
  (intro keeps_ignore keeps_seq keeps_ops keeps_routes keeps_question keeps_jobs keeps_leaves)+)

section \<open>With counters written at once Redis holds none\<close>

definition no_backlog :: "'s forum_db_scheme \<Rightarrow> 's forum_db_scheme \<Rightarrow> bool" where
  "no_backlog s t \<longleftrightarrow> counters_write_through t = counters_write_through s
     \<and> (counters_write_through s \<and> pending_counts s = [] \<longrightarrow> pending_counts t = []) \<and> feed_less s t"

interpretation quietly: kept_relation "no_backlog :: 's forum_db_scheme \<Rightarrow> 's forum_db_scheme \<Rightarrow> bool"
  by unfold_locales (auto simp: no_backlog_def intro: feed_less_trans)

text \<open>The tables of \<open>feed_less\<close> with the setting and with what is pending.\<close>

definition quiet_part where
  "quiet_part s = (counters_write_through s, user_follows s, board_follows s, feed_items s)"

lemma quiet_part_simps [simp]:
  "quiet_part (s\<lparr>content_items := x1\<rparr>) = quiet_part s" "quiet_part (s\<lparr>redis_ix := x2\<rparr>) = quiet_part s"
  "quiet_part (s\<lparr>pending_counts := x3\<rparr>) = quiet_part s" "quiet_part (s\<lparr>redis_ix := x2, pending_counts := x3\<rparr>) = quiet_part s"
  "quiet_part (s\<lparr>content_comments := x4\<rparr>) = quiet_part s" "quiet_part (update_item i f s) = quiet_part s"
  "quiet_part (write_item i f s) = quiet_part s" "quiet_part (snd (redis_call s)) = quiet_part s"
  "quiet_part (s\<lparr>last_corrected := x5\<rparr>) = quiet_part s" "quiet_part (s\<lparr>repeated_total := x6\<rparr>) = quiet_part s"
  "quiet_part (s\<lparr>content_items := x1, repeated_total := x6, last_corrected := x5\<rparr>) = quiet_part s"
  by (simp_all add: quiet_part_def update_item_def write_item_def redis_call_def)

lemma no_backlog_part:
  "quiet_part t = quiet_part s \<Longrightarrow> (counters_write_through s \<Longrightarrow> pending_counts s = [] \<Longrightarrow> pending_counts t = []) \<Longrightarrow> no_backlog s t"
  by (auto simp: quiet_part_def no_backlog_def)

lemma quiet_rows: "act_rel same_rows m \<Longrightarrow> act_rel no_backlog m"
  by (auto simp: act_rel_def same_rows_def no_backlog_def)

lemma quiet_mod: "(\<And>s. no_backlog s (h s)) \<Longrightarrow> act_rel no_backlog (modA h :: ('s forum_db_scheme, unit) act)"
  by (rule quietly.mod)

lemma quiet_tables [simp]:
  "no_backlog s (s\<lparr>content_likes := x1\<rparr>)" "no_backlog s (s\<lparr>content_comments := x2\<rparr>)" "no_backlog s (s\<lparr>content_comment_likes := x3\<rparr>)"
  "no_backlog s (s\<lparr>interaction_favorites := x4\<rparr>)" "no_backlog s (update_item i f s)" "no_backlog s (s\<lparr>pk_ix := n, content_items := x5\<rparr>)"
  "no_backlog s (s\<lparr>pk_ix := n, content_comments := x2\<rparr>)" "no_backlog s (s\<lparr>pk_ix := n\<rparr>)" "no_backlog s s"
  by (simp_all add: no_backlog_def update_item_def write_item_def)

lemma quiet_counts [simp]:
  "act_rel no_backlog (read_count i f :: ('s forum_db_scheme, int) act)"
  "act_rel no_backlog (bump_content_counter i f d :: ('s forum_db_scheme, int) act)"
  "act_rel no_backlog (current_bookmark_count i :: ('s forum_db_scheme, int) act)"
  "act_rel no_backlog (bump_bookmark i d :: ('s forum_db_scheme, int) act)"
  "act_rel no_backlog (bump_like_count i d :: ('s forum_db_scheme, int) act)"
  "act_rel no_backlog (lock_active i :: ('s forum_db_scheme, unit) act)"
  "act_rel no_backlog (assert_comment_in_item i j :: ('s forum_db_scheme, content_comment) act)"
  "act_rel no_backlog (add_item g :: ('s forum_db_scheme, content_item) act)"
proof -
  have w: "no_backlog s (snd (write_through_bump i f d s))" for s :: "'s forum_db_scheme" and f
    by (simp add: write_through_bump_def split: option.splits)
  have r: "counters_write_through (snd (redis_call s)) = counters_write_through s"
    "pending_counts (snd (redis_call s)) = pending_counts s" for s :: "'s forum_db_scheme"
    by (simp_all add: redis_call_def)
  have p: "no_backlog s (snd (pending_delta f i s))" for s :: "'s forum_db_scheme" and f
    by (simp add: pending_delta_def redis_call_def Let_def no_backlog_def)
  have off: "no_backlog s t" if "\<not> counters_write_through s" "quiet_part t = quiet_part s" for s t :: "'s forum_db_scheme"
    using that by (auto intro: no_backlog_part)
  have wt: "quiet_part (snd (write_through_bump i f d s)) = quiet_part s"
    "quiet_part (snd (pending_delta f i s)) = quiet_part s"
    "quiet_part (snd (bump_counter f i d s)) = quiet_part s"
    "quiet_part (snd (bump_bookmark_count i d s)) = quiet_part s"
    for s :: "'s forum_db_scheme" and f
    by (auto simp: write_through_bump_def pending_delta_def redis_call_def bump_counter_def bump_bookmark_count_def Let_def
        split: option.splits redis_reply.splits)
  show "act_rel no_backlog (read_count i f :: ('s forum_db_scheme, int) act)"
    by (rule act_relI) (auto simp: read_count_def Let_def split_beta p split: option.splits)
  show "act_rel no_backlog (bump_content_counter i f d :: ('s forum_db_scheme, int) act)"
  proof (rule act_relI)
    fix s :: "'s forum_db_scheme"
    show "no_backlog s (snd (bump_content_counter i f d s))"
      by (cases "counters_write_through s")
        (simp_all add: bump_content_counter_def Let_def split_beta w wt off split: option.splits)
  qed
  show c: "act_rel no_backlog (current_bookmark_count i :: ('s forum_db_scheme, int) act)"
    by (rule act_relI) (auto simp: current_bookmark_count_def bookmark_count_def bindA_def Let_def split_beta p split: sum.splits)
  show "act_rel no_backlog (bump_bookmark i d :: ('s forum_db_scheme, int) act)"
  proof (rule act_relI)
    fix s :: "'s forum_db_scheme"
    have "no_backlog s (snd (bump_bookmark_count i d s))" by (simp add: bump_bookmark_count_def split: option.splits)
    moreover have "quiet_part (snd (current_bookmark_count i t)) = quiet_part t" for t :: "'s forum_db_scheme"
      by (auto simp: current_bookmark_count_def bookmark_count_def bindA_def Let_def split_beta wt split: sum.splits)
    ultimately show "no_backlog s (snd (bump_bookmark i d s))"
      by (cases "counters_write_through s") (simp_all add: bump_bookmark_def Let_def split_beta wt off)
  qed
  show "act_rel no_backlog (bump_like_count i d :: ('s forum_db_scheme, int) act)"
    by (rule act_relI) (simp add: bump_like_count_def split: option.splits)
  show "act_rel no_backlog (lock_active i :: ('s forum_db_scheme, unit) act)"
    by (rule act_relI) (simp add: lock_active_def)
  show "act_rel no_backlog (assert_comment_in_item i j :: ('s forum_db_scheme, content_comment) act)"
    by (rule act_relI) (simp add: assert_comment_in_item_def)
  show "act_rel no_backlog (add_item g :: ('s forum_db_scheme, content_item) act)"
    by (rule act_relI) (auto simp: add_item_def fresh_pk_def Let_def insert_content_item_def)
qed

lemmas quiet_leaves = quiet_rows[OF rows_points] quiet_rows[OF rows_content] quiet_rows[OF rows_emit]
  rows_simple[THEN quiet_rows] rows_ops[THEN quiet_rows] quiet_rows[OF rows_report] quiet_rows[OF rows_board_work]
  quiet_counts rows_board_steps[THEN quiet_rows]

lemma quiet_ops:
  "act_rel no_backlog (like_item i u :: ('s forum_db_scheme, int) act)"
  "act_rel no_backlog (unlike_item i u :: ('s forum_db_scheme, int) act)"
  "act_rel no_backlog (add_favorite u i :: ('s forum_db_scheme, bool \<times> int) act)"
  "act_rel no_backlog (remove_favorite u i :: ('s forum_db_scheme, bool \<times> int) act)"
  "act_rel no_backlog (like_comment i j u :: ('s forum_db_scheme, int) act)"
  "act_rel no_backlog (unlike_comment i j u :: ('s forum_db_scheme, int) act)"
  "act_rel no_backlog (delete_comment i j :: ('s forum_db_scheme, unit) act)"
  "act_rel no_backlog (create_item a x :: ('s forum_db_scheme, content_item) act)"
  unfolding like_item_def unlike_item_def add_favorite_def remove_favorite_def like_comment_def unlike_comment_def
    delete_comment_def remove_comment_def create_item_def
  by (intro quietly.bind quietly.seq quietly.cond quietly.read quiet_leaves quiet_mod quiet_tables)+

lemma quiet_comment: "act_rel no_backlog (create_comment i u text parent :: ('s forum_db_scheme, content_comment) act)"
proof -
  have ins: "act_rel no_backlog (\<lambda>s :: 's forum_db_scheme. let (j, s) = fresh_pk s;
                   m = \<lparr>cm_id = j, cm_content_id = i, cm_user_id = u, cm_content = text,
                        cm_floor_number = or_old top 0 + 1, cm_parent_id = parent, cm_like_count = 0, cm_created_at = now s,
                        cm_deleted_at = None\<rparr>
               in case insert_comment m s of Inl e \<Rightarrow> (Inl e, s) | Inr s' \<Rightarrow> (Inr m, s'))" for top
    by (rule act_relI) (auto simp: fresh_pk_def Let_def insert_comment_def)
  have par: "act_rel no_backlog (check_parent i parent :: ('s forum_db_scheme, unit) act)"
    unfolding check_parent_def by (intro quietly.opt quietly.bind quietly.read quiet_leaves)
  show ?thesis unfolding create_comment_def
    by (intro quietly.bind quietly.seq quietly.read quiet_leaves par ins)
qed

lemma quiet_publish:
  "act_rel no_backlog (publish_blog_item o1 b p :: ('s forum_db_scheme, uuid) act)"
  "act_rel no_backlog (storeA (publish_qa_item a q ti bo ex) :: ('s forum_db_scheme, unit) act)"
proof -
  have "act_rel no_backlog (modA (\<lambda>s. if republished b p (now s) c = c then s else update_item (ci_id c) (republished b p (now s)) s)
      :: ('s forum_db_scheme, unit) act)" for c
    by (rule quiet_mod) simp
  then show "act_rel no_backlog (publish_blog_item o1 b p :: ('s forum_db_scheme, uuid) act)"
    unfolding publish_blog_item_def
    by (intro quietly.bind quietly.seq quietly.read quietly.opt quiet_leaves)
  have "no_backlog s t" if "publish_qa_item a q ti bo ex s = Inr t" for s t :: "'s forum_db_scheme"
    using publish_qa_item_frame(5)[OF that] unfolding no_backlog_def by (cases s, cases t) simp
  then show "act_rel no_backlog (storeA (publish_qa_item a q ti bo ex) :: ('s forum_db_scheme, unit) act)"
    by (intro act_relI) (auto simp: storeA_def split: sum.splits)
qed

lemma quiet_ignore: "act_rel no_backlog m \<Longrightarrow> act_rel no_backlog (ignoreA m :: ('s forum_db_scheme, unit) act)"
  unfolding ignoreA_def by (intro quietly.bind quietly.read)

lemma quiet_owner:
  "(\<And>u. act_rel no_backlog (f u)) \<Longrightarrow> act_rel no_backlog (bindA (\<lambda>s. (g s, s)) f :: ('s forum_db_scheme, 'a) act)"
  by (rule quietly.bind) (auto intro: act_relI)

lemma quiet_routes:
  "act_rel no_backlog (create_content_item cur rb x :: ('s forum_db_scheme, content_item) act)"
  "act_rel no_backlog (delete_content_item cur rb i :: ('s forum_db_scheme, unit) act)"
  "act_rel no_backlog (report_content_target cur k i r :: ('s forum_db_scheme, unit) act)"
  "act_rel no_backlog (publish_blog o1 category p :: ('s forum_db_scheme, uuid) act)"
  "act_rel no_backlog (create_content_comment cur rb i text parent :: ('s forum_db_scheme, content_comment) act)"
  "act_rel no_backlog (delete_content_comment cur rb i j :: ('s forum_db_scheme, unit) act)"
  unfolding create_content_item_def delete_content_item_def report_content_target_def publish_blog_def
    create_content_comment_def delete_content_comment_def
  by (intro quiet_owner quietly.bind quietly.seq quietly.cond quietly.read quiet_leaves quiet_ops quiet_comment quiet_publish)+

lemma quiet_reconcile: "no_backlog s (snd (reconcile_counts b u s))"
proof -
  have hp: "quiet_part (snd (has_pending_delta i s)) = quiet_part s
      \<and> pending_counts (snd (has_pending_delta i s)) = pending_counts s" for i and s :: "'a forum_db_scheme"
  proof -
    have "quiet_part (snd (has_pending_delta_of fs i s)) = quiet_part s
      \<and> pending_counts (snd (has_pending_delta_of fs i s)) = pending_counts s" for fs
      by (induction fs arbitrary: s) (auto simp: Let_def pending_delta_def redis_call_def split_beta)
    then show ?thesis by (simp only: has_pending_delta_def)
  qed
  have rows: "quiet_part (snd (snd (reconcile_rows rows s))) = quiet_part s
      \<and> pending_counts (snd (snd (reconcile_rows rows s))) = pending_counts s" for rows and s :: "'a forum_db_scheme"
  proof (induction rows arbitrary: s)
    case (Cons x rows)
    obtain i cur real where x: "x = (i, cur, real)" by (metis prod_cases3)
    obtain skip t where p: "has_pending_delta i s = (skip, t)" by fastforce
    have t: "quiet_part t = quiet_part s \<and> pending_counts t = pending_counts s" using hp[of i s] p by simp
    show ?case by (simp add: x p Let_def split_beta Cons.IH t correct_item_def write_item_def)
  qed simp
  have "quiet_part (snd (snd (snd (reconcile_loop b u l s)))) = quiet_part s
      \<and> pending_counts (snd (snd (snd (reconcile_loop b u l s)))) = pending_counts s" for l
  proof (induction b u l s rule: reconcile_loop.induct)
    case (1 b u l s)
    define rows where "rows = reconcile_window b u l s"
    show ?case
    proof (cases "rows = []")
      case True
      then show ?thesis by (simp add: reconcile_loop.simps[of b u l s] rows_def)
    next
      case False
      define s1 where "s1 = snd (reconcile_comment_likes (map fst rows) s)"
      obtain con cor t where r: "reconcile_rows rows s1 = (con, cor, t)" by (metis prod_cases3)
      obtain n con' cor' t' where l: "reconcile_loop b u (fst (last rows)) t = (n, con', cor', t')" by (metis prod_cases4)
      have "reconcile_loop b u l s = (length rows + n, con @ con', cor @ cor', t')"
        using False r l by (subst reconcile_loop.simps) (simp add: rows_def[symmetric] s1_def[symmetric])
      moreover have "quiet_part t' = quiet_part t \<and> pending_counts t' = pending_counts t"
        using "1.IH"[OF rows_def False, of "(con, cor, t)" con "(cor, t)" cor t] r l by (simp add: s1_def)
      ultimately show ?thesis using rows[of rows s1] r by (simp add: s1_def reconcile_comment_likes_def Let_def)
    qed
  qed
  then show ?thesis
    by (intro no_backlog_part) (auto simp: reconcile_counts_def Let_def split_beta mark_converged_def record_oscillation_def)
qed

lemma quiet_work: "act_rel no_backlog (forum_work rb r :: ('s forum_db_scheme, unit) act)"
proof (cases r)
  case (Purge_views n)
  have "act_rel no_backlog (modA (\<lambda>s. snd (purge_stale_view_logs n s)) :: ('s forum_db_scheme, unit) act)"
    by (rule quiet_mod) (simp add: purge_stale_view_logs_def Let_def no_backlog_def)
  with Purge_views show ?thesis by (simp only: forum_work.simps)
next
  case Flush_counters
  have drained: "quiet_part (snd (drain_keys ks s)) = quiet_part s" for ks and s :: "'s forum_db_scheme"
    by (induction ks arbitrary: s) (auto simp: redis_call_def Let_def split_beta split: redis_reply.splits)
  have flushed: "quiet_part (snd (flush_each ks s)) = quiet_part s" for ks and s :: "'s forum_db_scheme"
    by (induction ks s rule: flush_each.induct) (auto simp: Let_def split_beta update_item_def write_item_def)
  have "no_backlog s (flush_content_counters s)" for s :: "'s forum_db_scheme"
    by (cases "pending_counts s = []", simp add: flush_nothing no_backlog_def, rule no_backlog_part)
      (simp_all add: flush_content_counters_def flush_counters_def drain_counters_def split_beta drained flushed)
  then have "act_rel no_backlog (modA flush_content_counters :: ('s forum_db_scheme, unit) act)" by (rule quiet_mod)
  with Flush_counters show ?thesis by (simp only: forum_work.simps)
next
  case (Reconcile b u)
  have "act_rel no_backlog (modA (\<lambda>s. snd (reconcile_counts b u s)) :: ('s forum_db_scheme, unit) act)"
    by (rule quiet_mod) (rule quiet_reconcile)
  with Reconcile show ?thesis by (simp only: forum_work.simps)
qed (simp_all only: forum_work.simps,
  (intro quiet_ignore quietly.seq quiet_leaves quiet_ops quiet_comment quiet_publish quiet_routes)+)

lemma forum_ok_handle:
  assumes "forum_ok s"
  shows "forum_ok (forum_handle reg rb r s)"
proof -
  obtain x t where w: "forum_work rb r s = (x, t)" by fastforce
  show ?thesis
  proof (cases x)
    case (Inr u)
    then show ?thesis using keepsD[OF keeps_work assms] w by (simp add: forum_handle_def forum_session_def)
  next
    case (Inl e)
    have "no_backlog s t" using act_relD[OF quiet_work w] .
    then have "pending_counts t = []" using assms by (simp add: no_backlog_def forum_ok_def)
    then have "same_rows s (forum_roll_back s t)" using assms by (simp add: same_rows_def forum_roll_back_def forum_ok_def)
    then show ?thesis using forum_same[OF _ assms] w Inl by (simp add: forum_handle_def forum_session_def)
  qed
qed

lemma forum_ok_run: "forum_ok s \<Longrightarrow> forum_ok (forum_run reg rb rs s)"
  by (induction rs arbitrary: s) (simp_all add: forum_ok_handle)

section \<open>Properties\<close>

text \<open>C34: Counters written with the row count right.  From an empty community, after any requests, posts, likes, comments, favourites,
  deletions, blogs, questions, boards, reconciliations, in any order and refused or not: each item's numbers of likes, comments and
  favourites are those of its rows, deleted comments not counted, each comment's likes too, and the floors of an item are numbered
  1, 2, 3 and so on, deleted comments included.\<close>
theorem counters_match:
  assumes "counters_write_through s" and "pending_counts s = []" and "content_items s = []" and "content_comments s = []"
    and "content_likes s = []" and "content_comment_likes s = []" and "interaction_favorites s = []"
  shows "let t = forum_run reg rb rs s
     in (\<forall>c\<in>set (content_items t). ci_like_count c = int (length (like_rows (ci_id c) t))
            \<and> ci_comment_count c = int (length (comment_rows (ci_id c) t))
            \<and> ci_bookmark_count c = int (length (favorite_rows (ci_id c) t)))
        \<and> (\<forall>m\<in>set (content_comments t). cm_like_count m = int (length (comment_like_rows (cm_id m) t)))
        \<and> (\<forall>i. map cm_floor_number (filter (\<lambda>m. cm_content_id m = i) (content_comments t))
              = [1..int (length (filter (\<lambda>m. cm_content_id m = i) (content_comments t)))])"
proof -
  have "forum_ok s"
    using assms by (simp add: forum_ok_def ids_distinct_def rows_unique_def rows_attached_def counters_right_def floors_right_def floors_of_def)
  then have "forum_ok (forum_run reg rb rs s)" by (rule forum_ok_run)
  then have "counters_right (forum_run reg rb rs s)" "floors_right (forum_run reg rb rs s)" by (simp_all add: forum_ok_def)
  then show ?thesis
    by (simp add: Let_def counters_right_def counts_of_def real_counts_def comment_real_like_def floors_right_def floors_of_def)
qed

text \<open>A comment deleted twice counts twice.  \<open>delete_comment\<close> takes no lock: when two requests have both found the comment before
  either writes, both writes go through and the counter ends one below the number of comments.\<close>
theorem comment_deleted_twice:
  assumes ok: "forum_ok s" and m: "comment_of i j s = Some m"
  shows "\<exists>s1 s2 c. remove_comment i (cm_id m) s = (Inr (), s1) \<and> comment_of i j s1 = None
     \<and> remove_comment i (cm_id m) s1 = (Inr (), s2) \<and> item_by_id i s2 = Some c
     \<and> ci_comment_count c = max (int (length (comment_rows i s2)) - 1) 0"
proof -
  note mm = comment_of_mem[OF m]
  let ?g = "\<lambda>s :: 'a forum_db_scheme. s\<lparr>content_comments := map (\<lambda>m. if cm_id m = j then m\<lparr>cm_deleted_at := Some (now s)\<rparr> else m) (content_comments s)\<rparr>"
  let ?b = "update_item i (\<lambda>c. set_counter Comment_count (max (counter_of Comment_count c - 1) 0) c)"
  have run: "remove_comment i j r = (Inr (), ?b (?g r))" if "item_by_id i r \<noteq> None" "counters_write_through r" for r :: "'a forum_db_scheme"
    using that by (auto simp: remove_comment_def bindA_def bump_content_counter_def write_through_bump_def item_by_id_def split: option.splits)
  have ids: "i \<in> ci_id ` set (content_items s)" "ids_distinct s" "counters_write_through s"
    using ok mm by (auto simp: forum_ok_def rows_attached_def)
  then obtain c where c: "item_by_id i s = Some c" "c \<in> set (content_items s)" "ci_id c = i"
    using item_by_id_mem by (fastforce simp: ids_distinct_def)
  have upd: "item_by_id i (?b (?g r)) = map_option (\<lambda>c. c\<lparr>ci_comment_count := max (ci_comment_count c - 1) 0, ci_updated_at := now r\<rparr>) (item_by_id i r)"
    for r :: "'a forum_db_scheme"
    by (simp add: update_item_def item_by_id_write) (simp add: item_by_id_def)
  define s1 where "s1 = ?b (?g s)"
  define s2 where "s2 = ?b (?g s1)"
  have r1: "remove_comment i j s = (Inr (), s1)" using run ids(3) c(1) by (simp add: s1_def)
  have wt1: "counters_write_through s1" using ids(3) by (simp add: s1_def update_item_def write_item_def)
  have i1: "item_by_id i s1 = Some (c\<lparr>ci_comment_count := max (ci_comment_count c - 1) 0, ci_updated_at := now s\<rparr>)"
    unfolding s1_def upd c(1) by simp
  have r2: "remove_comment i j s1 = (Inr (), s2)" using run[of s1] wt1 i1 by (simp add: s2_def)
  have ok1: "forum_ok s1" using forum_delete_comment[OF ok m r1] .
  have cs: "content_comments s1 = content_comments (?g s)" by (simp add: s1_def update_item_def write_item_def)
  have dead: "cm_deleted_at x \<noteq> None" if "x \<in> set (content_comments s1)" "cm_id x = j" for x
  proof -
    have "x \<in> (\<lambda>m. if cm_id m = j then m\<lparr>cm_deleted_at := Some (now s)\<rparr> else m) ` set (content_comments s)"
      using that(1) unfolding cs by simp
    then obtain y where y: "x = (if cm_id y = j then y\<lparr>cm_deleted_at := Some (now s)\<rparr> else y)" by (rule imageE)
    show ?thesis using that(2) unfolding y by (cases "cm_id y = j") simp_all
  qed
  then have gone: "comment_of i j s1 = None" unfolding comment_of_def find_None_iff by blast
  have "int (length (comment_rows i s1)) = max (ci_comment_count c - 1) 0"
  proof -
    have "c\<lparr>ci_comment_count := max (ci_comment_count c - 1) 0, ci_updated_at := now s\<rparr> \<in> set (content_items s1)"
      using item_by_id_some[OF i1] by blast
    then show ?thesis using ok1 c(3) by (auto simp: forum_ok_def counters_right_def counts_of_def real_counts_def)
  qed
  moreover have "comment_rows i s2 = comment_rows i s1"
  proof -
    have same: "filter (\<lambda>m. cm_content_id m = i \<and> cm_deleted_at m = None)
        (map (\<lambda>m. if cm_id m = j then m\<lparr>cm_deleted_at := Some t\<rparr> else m) cs)
        = filter (\<lambda>m. cm_content_id m = i \<and> cm_deleted_at m = None) cs"
      if "\<And>m. m \<in> set cs \<Longrightarrow> cm_id m = j \<Longrightarrow> cm_deleted_at m \<noteq> None" for t cs
      using that by (induction cs) auto
    have "content_comments s2 = map (\<lambda>m. if cm_id m = j then m\<lparr>cm_deleted_at := Some (now s1)\<rparr> else m) (content_comments s1)"
      by (simp add: s2_def update_item_def write_item_def)
    then show ?thesis unfolding comment_rows_def by (simp only:) (rule same, rule dead)
  qed
  moreover have "item_by_id i s2 = Some (c\<lparr>ci_comment_count := max (max (ci_comment_count c - 1) 0 - 1) 0, ci_updated_at := now s1\<rparr>)"
    unfolding s2_def upd i1 by simp
  ultimately show ?thesis using r1 r2 gone mm by (intro exI[of _ s1] exI[of _ s2]) (simp add: max_def)
qed

text \<open>C35: A blog takes over what has its slug.  When an item that is not deleted has the slug of a post published from a blog, the
  publication does the same whoever makes it: title and text of that item, be it an article of somebody else, are replaced, it
  becomes a blog post, and its author stays.\<close>
theorem blog_takes_over:
  assumes ok: "forum_ok s" and there: "item_by_slug (bp_slug p) s = Some c"
  shows "publish_blog_item owner_id b p s = publish_blog_item other_id b p s
     \<and> (\<forall>i t. publish_blog_item owner_id b p s = (Inr i, t) \<longrightarrow>
          (\<exists>c'. i = ci_id c \<and> item_by_id i t = Some c' \<and> ci_title c' = bp_title p \<and> ci_content c' = bp_content p
            \<and> ci_content_type c' = ''blog_post'' \<and> ci_author_id c' = ci_author_id c))"
proof -
  have d: "ids_distinct s" using ok by (simp add: forum_ok_def)
  have "\<exists>c'. i = ci_id c \<and> item_by_id i t = Some c' \<and> ci_title c' = bp_title p \<and> ci_content c' = bp_content p
      \<and> ci_content_type c' = ''blog_post'' \<and> ci_author_id c' = ci_author_id c"
    if run: "publish_blog_item owner_id b p s = (Inr i, t)" for i t
  proof -
  have c: "c \<in> set (content_items s)" using there by (auto simp: item_by_slug_def find_Some_iff split: if_splits)
  then have at: "item_by_id (ci_id c) s = Some c" using item_by_id_mem d by (simp add: ids_distinct_def)
  define s1 where "s1 = (if republished b p (now s) c = c then s else update_item (ci_id c) (republished b p (now s)) s)"
  define s2 where "s2 = emit_fx (Invalidate ''content:item'' [uuid_str (ci_id c)]) s1"
  have i: "i = ci_id c" and ev: "content_event (ci_id c) ''published'' None s2 = (Inr (), t)"
    using run there by (auto simp: publish_blog_item_def s1_def s2_def emitA_def)
  have id: "ci_id (republished b p (now s) x) = ci_id x" for x by (simp add: republished_def)
  have "\<exists>c'. item_by_id (ci_id c) s1 = Some c' \<and> ci_title c' = bp_title p \<and> ci_content c' = bp_content p
      \<and> ci_content_type c' = ''blog_post'' \<and> ci_author_id c' = ci_author_id c"
  proof (cases "republished b p (now s) c = c")
    case True
    have "ci_title (republished b p (now s) c) = bp_title p" "ci_content (republished b p (now s) c) = bp_content p"
      "ci_content_type (republished b p (now s) c) = ''blog_post''" by (simp_all add: republished_def)
    then show ?thesis using at by (simp add: s1_def True)
  next
    case False
    have "item_by_id (ci_id c) s1 = Some (republished b p (now s) c\<lparr>ci_updated_at := now s\<rparr>)"
      using at False by (simp add: s1_def update_item_def item_by_id_write id)
    then show ?thesis by (simp add: republished_def)
  qed
  moreover have "content_items t = content_items s1"
  proof -
    obtain x where x: "enqueue_content_event (content_events_enabled s2) (ci_id c) ''published'' None s2 = Inr (x, t)"
      using ev by (auto simp: content_event_def storeA_def bindR_def split: sum.splits prod.splits)
    have "content_items t = content_items s2" by (rule more_eq_tables(5)[OF enqueue_content_event_more(1)[OF x]])
    then show ?thesis by (simp add: s2_def emit_fx_def)
  qed
  ultimately have "\<exists>c'. item_by_id (ci_id c) t = Some c' \<and> ci_title c' = bp_title p \<and> ci_content c' = bp_content p
      \<and> ci_content_type c' = ''blog_post'' \<and> ci_author_id c' = ci_author_id c" unfolding item_by_id_def by (simp only:)
  then show ?thesis unfolding i by blast
  qed
  moreover have "publish_blog_item owner_id b p s = publish_blog_item other_id b p s" using there by (simp add: publish_blog_item_def)
  ultimately show ?thesis by blast
qed

section \<open>Witnesses\<close>

definition rbac_forum :: rbac_db where
  "rbac_forum = rbac_db0\<lparr>role_permissions :=
     [\<lparr>rp_role_name = ''normal:member'', rp_permission = ''content.like'', rp_enabled = True, rp_created_at = 0\<rparr>,
      \<lparr>rp_role_name = ''normal:member'', rp_permission = ''content.comment_create'', rp_enabled = True, rp_created_at = 0\<rparr>]\<rparr>"

definition post0 :: blog_post where
  "post0 = \<lparr>bp_slug = Some ''go'', bp_title = ''t'', bp_content = ''c'', bp_summary = None, bp_cover = None, bp_tags = []\<rparr>"

definition forum_requests0 :: "forum_request list" where
  "forum_requests0 = [Publish_blog 9 ''blog'' post0, Like_item applicant0 1, Create_comment applicant0 1 ''hi'' None]"

lemma rbac_forum_grants:
  "allowA content_like applicant0 rbac_forum = retA ()" "allowA content_comment_create applicant0 rbac_forum = retA ()"
proof -
  have "role_closure [composite_role ''normal'' ''member''] = [''normal:member'']"
    by (simp add: role_closure_def composite_role_def KNOWN_ROLES_def juniors_def ROLE_INHERITANCE_def)
  then have "valid_roles applicant0 = [''normal:member'']"
    by (simp add: valid_roles_def applicant0_def starts_with_def)
  then have "user_has_permission applicant0 content_like rbac_forum" "user_has_permission applicant0 content_comment_create rbac_forum"
    by (simp_all add: user_has_permission_def role_has_permission_def has_permission_def rbac_forum_def)
  then show "allowA content_like applicant0 rbac_forum = retA ()" "allowA content_comment_create applicant0 rbac_forum = retA ()"
    by (simp_all add: allowA_def RequirePermission_def bindA_def fun_eq_iff)
qed

lemma applicant0_id [simp]: "cu_id applicant0 = 7"
  by (simp add: applicant0_def)

lemmas forum_eval = bindA_def forum_handle_def forum_session_def ignoreA_def publish_blog_def ensure_by_slug_def insert_board_def
  new_board_def fresh_pk_def Let_def publish_blog_item_def item_by_slug_def truthy_def post0_def add_item_def blog_item_def
  insert_content_item_def content_event_def storeA_def enqueue_content_event_def points_event_def enqueue_points_event_def
  enqueue_outbox_def emitA_def emit_fx_def rbac_forum_grants like_item_def lock_active_def active_item_def one_like_def
  bump_content_counter_def write_through_bump_def item_by_id_def update_item_def write_item_def
  create_content_comment_def create_comment_def check_parent_def max_floor_number_def floors_of_def or_old_def insert_comment_def

theorem counters_match_witness:
  "let t = forum_run [] rbac_forum forum_requests0 forum0
   in map (\<lambda>c. (ci_id c, ci_like_count c, ci_comment_count c)) (content_items t) = [(1, 1, 1)]
      \<and> length (like_rows 1 t) = 1 \<and> length (comment_rows 1 t) = 1"
proof -
  define t where "t = forum_run [] rbac_forum forum_requests0 forum0"
  have e: "map ci_id (content_items t) = [1]" "length (like_rows 1 t) = 1" "length (comment_rows 1 t) = 1"
    by (simp_all add: t_def forum_requests0_def forum_eval like_rows_def comment_rows_def)
  then obtain c where c: "content_items t = [c]" "ci_id c = 1" by (auto simp: map_eq_Cons_conv)
  have "ci_like_count c = int (length (like_rows (ci_id c) t)) \<and> ci_comment_count c = int (length (comment_rows (ci_id c) t))"
    using counters_match[of forum0 "[]" rbac_forum forum_requests0] c(1) unfolding Let_def t_def[symmetric] by simp
  then show ?thesis using e c unfolding Let_def t_def[symmetric] by simp
qed

definition comment0 :: "uuid \<Rightarrow> int \<Rightarrow> content_comment" where
  "comment0 j n = \<lparr>cm_id = j, cm_content_id = 1, cm_user_id = 7, cm_content = ''hi'', cm_floor_number = n, cm_parent_id = None,
     cm_like_count = 0, cm_created_at = 0, cm_deleted_at = None\<rparr>"

definition forum1 :: forum_db where
  "forum1 = forum0\<lparr>content_items := [(qa_content_item 1 9 7 3 ''t'' ''e'' ''b'' 0)\<lparr>ci_slug := Some ''go'', ci_comment_count := 2\<rparr>],
     content_comments := [comment0 2 1, comment0 3 2]\<rparr>"

lemma forum1_ok: "forum_ok forum1"
proof -
  have "floors_of i forum1 = (if i = 1 then [1, 2] else [])" for i by (simp add: floors_of_def forum1_def comment0_def)
  moreover have "[1..2 :: int] = [1, 2]" by (simp add: upto_rec1)
  ultimately have "floors_right forum1" by (simp add: floors_right_def)
  then show ?thesis
    by (simp add: forum_ok_def ids_distinct_def rows_unique_def rows_attached_def counters_right_def)
      (simp add: forum1_def comment0_def qa_content_item_def counts_of_def real_counts_def like_rows_def comment_rows_def favorite_rows_def
        comment_real_like_def comment_like_rows_def)
qed

theorem comment_deleted_twice_witness:
  "\<exists>s1 s2 c. remove_comment 1 2 forum1 = (Inr (), s1) \<and> comment_of 1 2 s1 = None
     \<and> remove_comment 1 2 s1 = (Inr (), s2) \<and> item_by_id 1 s2 = Some c
     \<and> ci_comment_count c = max (int (length (comment_rows 1 s2)) - 1) 0"
  using comment_deleted_twice[OF forum1_ok, of 1 2 "comment0 2 1"] by (simp add: comment_of_def forum1_def comment0_def)

theorem blog_takes_over_witness:
  "\<exists>c'. item_by_id 1 (snd (publish_blog_item 8 0 post0 forum1)) = Some c' \<and> ci_content c' = ''c''
     \<and> ci_content_type c' = ''blog_post'' \<and> ci_author_id c' = Some 7"
proof -
  obtain t where t: "publish_blog_item 8 0 post0 forum1 = (Inr 1, t)"
    by (simp add: publish_blog_item_def item_by_slug_def truthy_def post0_def forum1_def qa_content_item_def republished_def
        bindA_def content_event_def storeA_def enqueue_content_event_def emitA_def emit_fx_def update_item_def write_item_def)
  have "item_by_slug (bp_slug post0) forum1 = Some (hd (content_items forum1))"
    by (simp add: item_by_slug_def truthy_def post0_def forum1_def qa_content_item_def)
  from blog_takes_over[OF forum1_ok this, of 8 0 8] t show ?thesis
    by (auto simp: post0_def forum1_def qa_content_item_def)
qed

end
