(* ===== verification/Feed_Store.thy ===== *)
theory Feed_Store
  imports Content_Books
begin

text \<open>
  What the time lines are made of: follows (\<open>app/modules/interaction/repository.py\<close>), entries of the sources
  (\<open>app/modules/feed/feed.py\<close>, \<open>content/feed_api.py\<close>, \<open>app/contracts/feed.py\<close>), and the rules that hide an entry
  (\<open>app/modules/admin/moderation/engine.py\<close>).
\<close>

section \<open>Follows\<close>

text \<open>\<open>UserFollowRepository\<close> and \<open>BoardFollowRepository\<close> do the same with their tables: a row that was marked deleted comes back.\<close>

definition get_pair :: "uuid \<Rightarrow> uuid \<Rightarrow> follow list \<Rightarrow> follow option" where
  "get_pair i j rows = find (\<lambda>f. fw_follower_id f = i \<and> fw_target_id f = j) rows"

definition set_deleted :: "uuid \<Rightarrow> uuid \<Rightarrow> instant option \<Rightarrow> follow list \<Rightarrow> follow list" where
  "set_deleted i j d rows = map (\<lambda>f. if fw_follower_id f = i \<and> fw_target_id f = j then f\<lparr>fw_deleted_at := d\<rparr> else f) rows"

definition new_follow :: "uuid \<Rightarrow> uuid \<Rightarrow> uuid \<Rightarrow> instant \<Rightarrow> follow" where
  "new_follow k i j t = \<lparr>fw_id = k, fw_follower_id = i, fw_target_id = j, fw_created_at = t, fw_deleted_at = None\<rparr>"

text \<open>Whether this is a new follow or one that came back; the identifier is for a new row.\<close>

definition follow_rows :: "uuid \<Rightarrow> uuid \<Rightarrow> uuid \<Rightarrow> instant \<Rightarrow> follow list \<Rightarrow> exc + bool \<times> follow list" where
  "follow_rows k i j t rows =
     (case get_pair i j rows of
        None \<Rightarrow> if list_ex (\<lambda>f. fw_id f = k) rows then Inl (IntegrityError True None) else Inr (True, rows @ [new_follow k i j t])
      | Some f \<Rightarrow> if fw_deleted_at f \<noteq> None then Inr (True, set_deleted i j None rows) else Inr (False, rows))"

definition unfollow_rows :: "uuid \<Rightarrow> uuid \<Rightarrow> instant \<Rightarrow> follow list \<Rightarrow> bool \<times> follow list" where
  "unfollow_rows i j t rows =
     (case get_pair i j rows of
        None \<Rightarrow> (False, rows)
      | Some f \<Rightarrow> if fw_deleted_at f \<noteq> None then (False, rows) else (True, set_deleted i j (Some t) rows))"

definition targets_of :: "uuid \<Rightarrow> follow list \<Rightarrow> uuid list" where
  "targets_of i rows = map fw_target_id (filter (\<lambda>f. fw_follower_id f = i \<and> fw_deleted_at f = None) rows)"

definition followers_of :: "uuid \<Rightarrow> nat \<Rightarrow> follow list \<Rightarrow> uuid list" where
  "followers_of j limit rows = take limit (map fw_follower_id (filter (\<lambda>f. fw_target_id f = j \<and> fw_deleted_at f = None) rows))"

definition list_bigv_author_ids :: "nat \<Rightarrow> follow list \<Rightarrow> uuid list" where
  "list_bigv_author_ids threshold rows =
     filter (\<lambda>j. threshold < length (filter (\<lambda>f. fw_target_id f = j \<and> fw_deleted_at f = None) rows))
       (remdups (map fw_target_id (filter (\<lambda>f. fw_deleted_at f = None) rows)))"

definition get_following_ids :: "uuid \<Rightarrow> 's forum_db_scheme \<Rightarrow> uuid list" where
  "get_following_ids i s = targets_of i (user_follows s)"

definition get_followed_board_ids :: "uuid \<Rightarrow> 's forum_db_scheme \<Rightarrow> uuid list" where
  "get_followed_board_ids i s = targets_of i (board_follows s)"

definition is_following_user :: "uuid \<Rightarrow> uuid \<Rightarrow> 's forum_db_scheme \<Rightarrow> bool" where
  "is_following_user i j s \<longleftrightarrow> list_ex (\<lambda>f. fw_follower_id f = i \<and> fw_target_id f = j \<and> fw_deleted_at f = None) (user_follows s)"

definition list_following_users :: "uuid \<Rightarrow> 's forum_db_scheme \<Rightarrow> (uuid \<times> string) list" where
  "list_following_users i s =
     map (\<lambda>j. (j, case display_name_of s j of None \<Rightarrow> uuid_str j | Some n \<Rightarrow> n)) (get_following_ids i s)"

definition list_followed_boards :: "uuid \<Rightarrow> 's forum_db_scheme \<Rightarrow> (uuid \<times> string) list" where
  "list_followed_boards i s =
     map (\<lambda>j. (j, case board_by_id j s of None \<Rightarrow> [] | Some b \<Rightarrow> bd_title b)) (get_followed_board_ids i s)"

section \<open>Entries and where they come from\<close>

text \<open>\<open>FeedItem\<close>; the score, a float, and the name of the author are left out.\<close>

record entry =
  en_type :: string
  en_id :: uuid
  en_author :: "uuid option"
  en_board :: "uuid option"
  en_title :: string
  en_preview :: string
  en_url :: string
  en_time :: instant

definition FOLLOW_SOURCES :: "string list" where
  "FOLLOW_SOURCES = [''discussion'', ''column'', ''qa'', ''project'', ''blog'']"

definition HOT_SOURCES :: "string list" where
  "HOT_SOURCES = [''discussion'', ''article'', ''column'', ''qa'', ''project'', ''blog'']"

definition fetch_discussion :: "content_item \<Rightarrow> entry" where
  "fetch_discussion c =
     \<lparr>en_type = ''discussion'', en_id = ci_id c, en_author = ci_author_id c, en_board = Some (ci_board_id c), en_title = ci_title c,
      en_preview = excerpt_of (if ci_excerpt c = [] then ci_content c else ci_excerpt c),
      en_url = ''/content/posts/'' @ uuid_str (ci_id c), en_time = ci_created_at c\<rparr>"

definition fetch_blog :: "content_item \<Rightarrow> entry" where
  "fetch_blog c =
     \<lparr>en_type = ''blog'', en_id = ci_id c, en_author = ci_author_id c, en_board = Some (ci_board_id c), en_title = ci_title c,
      en_preview = excerpt_of (if ci_excerpt c = [] then ci_content c else ci_excerpt c),
      en_url = (case truthy (ci_slug c) of Some slug \<Rightarrow> ''/blog/posts/'' @ slug
                | None \<Rightarrow> ''/content/boards/'' @ uuid_str (ci_board_id c)),
      en_time = ci_created_at c\<rparr>"

definition published_item :: "string \<Rightarrow> content_item \<Rightarrow> bool" where
  "published_item t c \<longleftrightarrow> ci_content_type c = t \<and> ci_status c = ''published'' \<and> ci_deleted_at c = None"

text \<open>
  The visible rows of a source.  Columns, questions, projects and articles have tables of their own; \<open>others\<close> are the visible
  ones among them.
\<close>

definition source_entries :: "(string \<Rightarrow> entry list) \<Rightarrow> string \<Rightarrow> 's content_db_scheme \<Rightarrow> entry list" where
  "source_entries others name s =
     (if name = ''discussion'' then map fetch_discussion (filter (published_item ''discussion'') (content_items s))
      else if name = ''blog'' then map fetch_blog (filter (published_item ''blog_post'') (content_items s))
      else others name)"

text \<open>Authors and boards; nothing is asked of articles, and boards count for discussions only.\<close>

definition wanted :: "string \<Rightarrow> uuid list option \<Rightarrow> uuid list \<Rightarrow> entry \<Rightarrow> bool" where
  "wanted name authors board_ids e \<longleftrightarrow>
     (case authors of
        None \<Rightarrow> True
      | Some as \<Rightarrow> name = ''article'' \<or> (case en_author e of None \<Rightarrow> False | Some a \<Rightarrow> a \<in> set as)
          \<or> (name = ''discussion'' \<and> (case en_board e of None \<Rightarrow> False | Some b \<Rightarrow> b \<in> set board_ids)))"

type_synonym cursor = "instant \<times> uuid"

definition en_key :: "entry \<Rightarrow> cursor" where
  "en_key e = (en_time e, en_id e)"

definition below :: "cursor option \<Rightarrow> entry \<Rightarrow> bool" where
  "below c e \<longleftrightarrow> (case c of None \<Rightarrow> True | Some k \<Rightarrow> en_key e < k)"

definition above :: "instant \<Rightarrow> uuid option \<Rightarrow> entry \<Rightarrow> bool" where
  "above t i e \<longleftrightarrow> (case i of None \<Rightarrow> t < en_time e | Some j \<Rightarrow> (t, j) < en_key e)"

text \<open>Newest first; what is equal keeps its order, as Python's sort does with \<open>reverse=True\<close>.\<close>

definition recent_first :: "entry list \<Rightarrow> entry list" where
  "recent_first es = rev (sort_key en_key (rev es))"

definition fetch_source ::
    "(string \<Rightarrow> entry list) \<Rightarrow> string \<Rightarrow> uuid list option \<Rightarrow> uuid list \<Rightarrow> cursor option \<Rightarrow> nat \<Rightarrow> 's content_db_scheme \<Rightarrow> entry list" where
  "fetch_source others name authors board_ids c limit s =
     take limit (recent_first (filter (\<lambda>e. wanted name authors board_ids e \<and> below c e) (source_entries others name s)))"

definition fetch_after ::
    "(string \<Rightarrow> entry list) \<Rightarrow> string \<Rightarrow> instant \<Rightarrow> uuid option \<Rightarrow> nat \<Rightarrow> 's content_db_scheme \<Rightarrow> entry list" where
  "fetch_after others name t i limit s = take limit (sort_key en_key (filter (above t i) (source_entries others name s)))"

section \<open>Moderation\<close>

record rule =
  ru_pattern :: string
  ru_is_regex :: bool
  ru_action :: string

text \<open>
  \<open>str.lower\<close> and the regular expressions are parameters: whether a pattern is found, where it is well-formed.
\<close>

definition match_rule :: "(string \<Rightarrow> string) \<Rightarrow> (string \<Rightarrow> string \<Rightarrow> bool option) \<Rightarrow> rule \<Rightarrow> string \<Rightarrow> bool" where
  "match_rule low search r lowered \<longleftrightarrow>
     ru_pattern r \<noteq> [] \<and> (if ru_is_regex r then search (ru_pattern r) lowered = Some True
       else (\<exists>k\<in>set [0..<Suc (length lowered)]. take (length (low (ru_pattern r))) (drop k lowered) = low (ru_pattern r)))"

definition should_hide :: "(string \<Rightarrow> string) \<Rightarrow> (string \<Rightarrow> string \<Rightarrow> bool option) \<Rightarrow> rule list \<Rightarrow> string \<Rightarrow> bool" where
  "should_hide low search rules text \<longleftrightarrow>
     text \<noteq> [] \<and> list_ex (\<lambda>r. match_rule low search r (low text) \<and> ru_action r = ''hide'') rules"

definition entry_hidden :: "(string \<Rightarrow> string) \<Rightarrow> (string \<Rightarrow> string \<Rightarrow> bool option) \<Rightarrow> rule list \<Rightarrow> entry \<Rightarrow> bool" where
  "entry_hidden low search rules e = should_hide low search rules (en_title e @ '' '' @ en_preview e)"

end
