(* ===== verification/Feed_Pages.thy ===== *)
theory Feed_Pages
  imports Feed_Store
begin

text \<open>
  Reading a time line (\<open>app/modules/feed/service.py\<close>): pages collected batch by batch from the rows written ahead and from the
  sources.  \<open>scan\<close> is the interface between a page and what it is collected from; the cursors of its pages lead through everything
  that is not hidden, each entry once.
\<close>

section \<open>A page\<close>

text \<open>
  \<open>_collect_page\<close>: batch after batch in the order of the merged sources.  The kept entries, whether there was any candidate, how
  many were read, and the last one read.
\<close>

definition ident :: "entry \<Rightarrow> string \<times> uuid" where
  "ident e = (en_type e, en_id e)"

fun add_visible :: "nat \<Rightarrow> entry list \<Rightarrow> entry list \<Rightarrow> entry list" where
  "add_visible limit vis [] = vis"
| "add_visible limit vis (e # es) =
     (if ident e \<in> ident ` set vis then add_visible limit vis es
      else if limit < length (vis @ [e]) then vis @ [e] else add_visible limit (vis @ [e]) es)"

text \<open>The sizes of the batches are positive; without that the loop would read nothing.\<close>

function collect ::
    "nat \<Rightarrow> nat \<Rightarrow> (entry \<Rightarrow> bool) \<Rightarrow> (cursor option \<Rightarrow> nat \<Rightarrow> entry list) \<Rightarrow> nat \<Rightarrow> nat \<Rightarrow> entry list \<Rightarrow> bool \<Rightarrow> cursor option
      \<Rightarrow> cursor option \<Rightarrow> entry list \<times> bool \<times> nat \<times> cursor option" where
  "collect limit max_scanned hidden fetch batch_size nread vis has scan last_scanned =
     (let n = min batch_size (max_scanned - nread); candidates = fetch scan n
      in if limit < length vis \<or> max_scanned \<le> nread \<or> candidates = [] \<or> n = 0 then (vis, has, nread, last_scanned)
         else
           let batch = take n (recent_first candidates);
               nread' = nread + length batch;
               vis' = add_visible limit vis (filter (\<lambda>e. \<not> hidden e) batch);
               l = Some (en_key (last batch))
           in if length candidates < n then (vis', True, nread', l)
              else collect limit max_scanned hidden fetch (min (batch_size * 2) 100) nread' vis' True l l)"
  by pat_completeness auto
termination
  by (relation "measure (\<lambda>(limit, max_scanned, hidden, fetch, batch_size, nread, vis, has, scan, l). max_scanned - nread)")
    (auto simp: recent_first_def)

declare collect.simps [simp del]

definition MAX_SCANNED :: "nat \<Rightarrow> nat" where
  "MAX_SCANNED limit = max 200 (limit * 10)"

text \<open>The kept entries, whether there was a candidate, and where to go on when too much was hidden.\<close>

definition collect_page ::
    "(cursor option \<Rightarrow> nat \<Rightarrow> entry list) \<Rightarrow> cursor option \<Rightarrow> nat \<Rightarrow> (entry \<Rightarrow> bool) \<Rightarrow> entry list \<times> bool \<times> cursor option" where
  "collect_page fetch before limit hidden =
     (let (vis, has, nread, l) = collect limit (MAX_SCANNED limit) hidden fetch (limit + 1) 0 [] False before None
      in (vis, has, if MAX_SCANNED limit \<le> nread \<and> length vis \<le> limit then l else None))"

definition finish_page :: "entry list \<Rightarrow> nat \<Rightarrow> cursor option \<Rightarrow> entry list \<times> cursor option" where
  "finish_page vis limit continuation =
     (let page = take limit vis
      in if page = [] then ([], continuation)
         else (page, if limit < length vis then Some (en_key (last page)) else continuation))"

text \<open>The rows written ahead, as entries.\<close>

definition row_entry :: "feed_item \<Rightarrow> entry" where
  "row_entry f =
     \<lparr>en_type = fi_item_type f, en_id = fi_source_id f, en_author = fi_author_id f, en_board = fi_board_id f, en_title = fi_title f,
      en_preview = fi_content_preview f, en_url = fi_url f, en_time = fi_created_at f\<rparr>"

definition load_materialized_page :: "uuid \<Rightarrow> cursor option \<Rightarrow> nat \<Rightarrow> 's forum_db_scheme \<Rightarrow> entry list" where
  "load_materialized_page user_id c limit s =
     take limit (recent_first (filter (below c) (map row_entry (filter (\<lambda>f. fi_user_id f = user_id) (feed_items s)))))"

definition realtime_supplement ::
    "(string \<Rightarrow> entry list) \<Rightarrow> uuid list \<Rightarrow> uuid list \<Rightarrow> cursor option \<Rightarrow> nat \<Rightarrow> 's forum_db_scheme \<Rightarrow> entry list" where
  "realtime_supplement others authors board_ids c limit s =
     concat (map (\<lambda>name.
       if authors = [] \<and> (name \<noteq> ''discussion'' \<or> board_ids = []) then []
       else fetch_source others name (Some authors) (if name = ''discussion'' then board_ids else []) c limit s) FOLLOW_SOURCES)"

definition materialized_fetch ::
    "(string \<Rightarrow> entry list) \<Rightarrow> uuid \<Rightarrow> uuid list \<Rightarrow> uuid list \<Rightarrow> 's forum_db_scheme \<Rightarrow> cursor option \<Rightarrow> nat \<Rightarrow> entry list" where
  "materialized_fetch others user_id authors board_ids s c n =
     load_materialized_page user_id c n s
       @ (if authors \<noteq> [] \<or> board_ids \<noteq> [] then realtime_supplement others authors board_ids c n s else [])"

text \<open>\<open>None\<close> is the order to fall back on the sources.\<close>

definition materialized_timeline ::
    "(string \<Rightarrow> entry list) \<Rightarrow> (entry \<Rightarrow> bool) \<Rightarrow> uuid list \<Rightarrow> uuid \<Rightarrow> cursor option \<Rightarrow> nat \<Rightarrow> 's forum_db_scheme
      \<Rightarrow> (entry list \<times> cursor option) option" where
  "materialized_timeline others hidden bigv user_id before limit s =
     (let following = get_following_ids user_id s; board_ids = get_followed_board_ids user_id s;
          authors = filter (\<lambda>a. a \<in> set following) bigv
      in if following = [] \<and> board_ids = [] then Some ([], None)
         else
           let (vis, has, continuation) = collect_page (materialized_fetch others user_id authors board_ids s) before limit hidden
           in if \<not> has \<and> before = None then None else Some (finish_page vis limit continuation))"

definition realtime_fetch ::
    "(string \<Rightarrow> entry list) \<Rightarrow> string list \<Rightarrow> (uuid list \<times> uuid list) option \<Rightarrow> 's forum_db_scheme \<Rightarrow> cursor option \<Rightarrow> nat \<Rightarrow> entry list" where
  "realtime_fetch others names follow s c n =
     concat (map (\<lambda>name. fetch_source others name (map_option fst follow)
       (if name = ''discussion'' then (case follow of None \<Rightarrow> [] | Some (_, bs) \<Rightarrow> bs) else []) c n s) names)"

definition realtime_timeline ::
    "(string \<Rightarrow> entry list) \<Rightarrow> (entry \<Rightarrow> bool) \<Rightarrow> uuid option \<Rightarrow> bool \<Rightarrow> cursor option \<Rightarrow> nat \<Rightarrow> 's forum_db_scheme
      \<Rightarrow> entry list \<times> cursor option" where
  "realtime_timeline others hidden user_id follow_mode before limit s =
     (let follow = (if follow_mode then map_option (\<lambda>u. (get_following_ids u s, get_followed_board_ids u s)) user_id else None)
      in if follow = Some ([], []) then ([], None)
         else
           let names = (if follow = None then HOT_SOURCES else FOLLOW_SOURCES);
               (vis, _, continuation) = collect_page (realtime_fetch others names follow s) before limit hidden
           in finish_page vis limit continuation)"

definition get_timeline ::
    "(string \<Rightarrow> entry list) \<Rightarrow> (entry \<Rightarrow> bool) \<Rightarrow> uuid list \<Rightarrow> uuid option \<Rightarrow> bool \<Rightarrow> cursor option \<Rightarrow> nat \<Rightarrow> 's forum_db_scheme
      \<Rightarrow> entry list \<times> cursor option" where
  "get_timeline others hidden bigv user_id follow_mode before limit s =
     (case (if follow_mode then user_id else None) of
        None \<Rightarrow> realtime_timeline others hidden user_id follow_mode before limit s
      | Some u \<Rightarrow>
          case materialized_timeline others hidden bigv u before limit s of
            Some page \<Rightarrow> page
          | None \<Rightarrow> realtime_timeline others hidden user_id follow_mode before limit s)"

section \<open>Sorted lists of keys\<close>

lemma sort_cong: "mset xs = mset ys \<Longrightarrow> sort xs = sort ys" for xs :: "'a::linorder list"
  by (metis mset_sort properties_for_sort sorted_sort)

lemma map_recent_first: "map en_key (recent_first es) = rev (sort (map en_key es))"
proof -
  have "sort (map en_key es) = map en_key (sort_key en_key (rev es))"
    by (rule properties_for_sort) simp_all
  then show ?thesis by (simp add: recent_first_def rev_map)
qed

lemma recent_first_facts [simp]: "set (recent_first es) = set es" "length (recent_first es) = length es"
  by (simp_all add: recent_first_def)

lemma recent_first_Nil [simp]: "recent_first es = [] \<longleftrightarrow> es = []" "recent_first [] = []"
  by (metis length_0_conv recent_first_facts(2)) (simp add: recent_first_def)

lemma insert_small:
  fixes zs :: "'a::linorder list"
  assumes "n \<le> length (filter (\<lambda>z. x \<le> z) zs)"
  shows "take n (rev (sort (x # zs))) = take n (rev (sort zs))"
proof -
  define ls gs where "ls = filter (\<lambda>z. \<not> x \<le> z) (sort zs)" and "gs = filter (\<lambda>z. x \<le> z) (sort zs)"
  have g: "mset gs = mset (filter (\<lambda>z. x \<le> z) zs)" by (simp add: gs_def)
  have m: "mset zs = mset ls + mset gs" by (simp add: ls_def gs_def)
  have s: "sorted ls" "sorted gs" by (simp_all add: ls_def gs_def sorted_wrt_filter)
  have z: "sort zs = ls @ gs"
    by (rule properties_for_sort) (use m s in \<open>auto simp: sorted_append ls_def gs_def\<close>)
  have x: "sort (x # zs) = ls @ x # gs"
    by (rule properties_for_sort) (use m s in \<open>auto simp: sorted_append ls_def gs_def\<close>)
  have "n \<le> length gs" using assms g by (metis size_mset)
  then show ?thesis unfolding z x by simp
qed

lemma insert_smalls:
  fixes zs :: "'a::linorder list"
  assumes "\<forall>x\<in>set ds. n \<le> length (filter (\<lambda>z. x \<le> z) zs)"
  shows "take n (rev (sort (ds @ zs))) = take n (rev (sort zs))"
  using assms
proof (induction ds)
  case (Cons d ds)
  then have "n \<le> length (filter (\<lambda>z. d \<le> z) (ds @ zs))" by (simp add: trans_le_add2)
  with insert_small[OF this] Cons show ?case by simp
qed simp

lemma take_rsort:
  fixes xs ys :: "'a::linorder list"
  shows "take n (rev (sort (take n (rev (sort xs)) @ ys))) = take n (rev (sort (xs @ ys)))"
proof -
  define ts ds where "ts = take n (rev (sort xs))" and "ds = drop n (rev (sort xs))"
  have "mset (ds @ ts @ ys) = mset (xs @ ys)"
    unfolding ts_def ds_def by (metis append_take_drop_id mset_append mset_rev mset_sort union_assoc union_commute)
  then have e: "sort (ds @ ts @ ys) = sort (xs @ ys)" by (rule sort_cong)
  have "sorted_wrt (\<ge>) (ts @ ds)" by (simp add: ts_def ds_def sorted_wrt_rev)
  then have b: "\<forall>x\<in>set ds. filter (\<lambda>z. x \<le> z) ts = ts" by (auto simp: sorted_wrt_append intro!: filter_True)
  have "\<forall>x\<in>set ds. n \<le> length (filter (\<lambda>z. x \<le> z) (ts @ ys))"
  proof
    fix x assume x: "x \<in> set ds"
    then have "ds \<noteq> []" by auto
    then have "length ts = n" by (auto simp: ds_def ts_def)
    with b x show "n \<le> length (filter (\<lambda>z. x \<le> z) (ts @ ys))" by simp
  qed
  from insert_smalls[OF this] show ?thesis unfolding e by (simp add: ts_def)
qed

lemma take_rsort_concat:
  fixes xss :: "'a::linorder list list"
  shows "take n (rev (sort (ys @ concat (map (\<lambda>xs. take n (rev (sort xs))) xss)))) = take n (rev (sort (ys @ concat xss)))"
proof (induction xss arbitrary: ys)
  case (Cons xs xss)
  define zs where "zs = concat (map (\<lambda>xs. take n (rev (sort xs))) xss)"
  have front: "sort (us @ vs @ ws) = sort (vs @ us @ ws)" for us vs ws :: "'a list"
    by (rule sort_cong) (simp add: ac_simps)
  have "take n (rev (sort (ys @ take n (rev (sort xs)) @ zs))) = take n (rev (sort (take n (rev (sort xs)) @ ys @ zs)))"
    by (simp only: front)
  also have "\<dots> = take n (rev (sort (xs @ ys @ zs)))" by (rule take_rsort)
  also have "\<dots> = take n (rev (sort ((ys @ xs) @ zs)))" by (simp only: front[of xs] append_assoc)
  also have "\<dots> = take n (rev (sort ((ys @ xs) @ concat xss)))" unfolding zs_def by (rule Cons)
  finally show ?case by (simp add: zs_def)
qed simp

lemma descending_eq:
  fixes xs ys :: "'a::linorder list"
  assumes "sorted_wrt (>) xs" "sorted_wrt (>) ys" "set xs = set ys"
  shows "xs = ys"
proof -
  have "sorted_wrt (<) (rev xs)" "sorted_wrt (<) (rev ys)" using assms(1,2) by (simp_all add: sorted_wrt_rev)
  then have "rev xs = rev ys" using assms(3) by (metis strict_sorted_equal set_rev)
  then show ?thesis by simp
qed

text \<open>The first occurrences of what is not in a set.\<close>

fun firsts :: "'a set \<Rightarrow> 'a list \<Rightarrow> 'a list" where
  "firsts S [] = []"
| "firsts S (x # xs) = (if x \<in> S then firsts S xs else x # firsts (insert x S) xs)"

lemma set_firsts: "set (firsts S xs) = set xs - S"
  by (induction S xs rule: firsts.induct) auto

lemma firsts_descending: "sorted_wrt (\<ge>) xs \<Longrightarrow> sorted_wrt (>) (firsts S xs)" for xs :: "'a::linorder list"
proof (induction S xs rule: firsts.induct)
  case (2 S x xs)
  then show ?case by (auto simp: set_firsts less_le)
qed simp

section \<open>What a page holds\<close>

text \<open>
  The keys of what is not hidden below a cursor, newest first, each once; and when the keys tell entries apart: rows that show the
  same thing have one key, and are hidden together.
\<close>

definition listing :: "(entry \<Rightarrow> bool) \<Rightarrow> entry list \<Rightarrow> cursor option \<Rightarrow> cursor list" where
  "listing hidden es c = rev (sorted_list_of_set (en_key ` set (filter (\<lambda>e. \<not> hidden e \<and> below c e) es)))"

definition told_apart :: "(entry \<Rightarrow> bool) \<Rightarrow> entry list \<Rightarrow> bool" where
  "told_apart hidden es \<longleftrightarrow>
     (\<forall>e\<in>set es. \<forall>f\<in>set es. (en_key e = en_key f \<longleftrightarrow> ident e = ident f) \<and> (ident e = ident f \<longrightarrow> hidden e = hidden f))"

text \<open>The interface between a page and the sources: a batch has the newest keys below the cursor.\<close>

locale scan =
  fixes fetch :: "cursor option \<Rightarrow> nat \<Rightarrow> entry list" and everything :: "entry list"
  assumes fetch_keys: "map en_key (take n (recent_first (fetch c n))) = take n (rev (sort (map en_key (filter (below c) everything))))"
    and fetch_known: "set (fetch c n) \<subseteq> set everything"

definition below_key :: "cursor option \<Rightarrow> cursor \<Rightarrow> bool" where
  "below_key c k \<longleftrightarrow> (case c of None \<Rightarrow> True | Some x \<Rightarrow> k < x)"

lemma below_key_iff: "below c e \<longleftrightarrow> below_key c (en_key e)"
  by (simp add: below_def below_key_def split: option.splits)

lemma listing_facts:
  "set (listing hidden es c) = {en_key e |e. e \<in> set es \<and> \<not> hidden e \<and> below c e}" "sorted_wrt (>) (listing hidden es c)"
  by (auto simp: listing_def sorted_wrt_rev)

lemma listing_below: "listing hidden es c = filter (below_key c) (listing hidden es None)"
  by (rule descending_eq) (auto simp: listing_facts sorted_wrt_filter below_key_iff, auto simp: below_key_def)

text \<open>What is listed at a cursor or above it.\<close>

definition upto_key :: "cursor option \<Rightarrow> cursor list \<Rightarrow> cursor list" where
  "upto_key c ks = filter (\<lambda>k. \<not> below_key c k) ks"

lemma descending_split:
  assumes "sorted_wrt (>) ks"
  shows "upto_key c ks @ filter (below_key c) ks = ks"
  using assms
proof (induction ks)
  case (Cons k ks)
  show ?case
  proof (cases "below_key c k")
    case True
    have "below_key c x" if "x \<in> set ks" for x
    proof (cases c)
      case (Some y)
      have "x < k" using Cons.prems that by simp
      moreover have "k < y" using True Some by (simp add: below_key_def)
      ultimately show ?thesis using Some by (simp add: below_key_def)
    qed (simp add: below_key_def)
    with True show ?thesis by (simp add: upto_key_def filter_empty_conv filter_True)
  qed (use Cons in \<open>simp add: upto_key_def\<close>)
qed (simp add: upto_key_def)

lemma add_visible_keys:
  assumes "length vis \<le> limit" and "\<forall>e\<in>set vis \<union> set es. \<forall>f\<in>set vis \<union> set es. en_key e = en_key f \<longleftrightarrow> ident e = ident f"
  shows "map en_key (add_visible limit vis es)
    = take (Suc limit) (map en_key vis @ firsts (en_key ` set vis) (map en_key es))"
  using assms
proof (induction es arbitrary: vis)
  case (Cons e es)
  have i: "ident e \<in> ident ` set vis \<longleftrightarrow> en_key e \<in> en_key ` set vis"
    using Cons.prems(2) by (simp add: image_iff)
  show ?case
  proof (cases "ident e \<in> ident ` set vis")
    case True
    then show ?thesis using i Cons.IH[OF Cons.prems(1)] Cons.prems(2) by simp
  next
    case False
    show ?thesis
    proof (cases "limit < length (vis @ [e])")
      case True
      with Cons.prems(1) have "limit = length vis" by simp
      with False i show ?thesis by simp
    next
      case room: False
      have "map en_key (add_visible limit (vis @ [e]) es)
          = take (Suc limit) (map en_key (vis @ [e]) @ firsts (en_key ` set (vis @ [e])) (map en_key es))"
        by (rule Cons.IH) (use room Cons.prems(2) in auto)
      with False i room show ?thesis by simp
    qed
  qed
qed simp

lemma add_visible_set: "set (add_visible limit vis es) \<subseteq> set vis \<union> set es"
  by (induction limit vis es rule: add_visible.induct) auto

context scan
begin

lemma batch_facts:
  assumes n: "0 < n" and some: "fetch c n \<noteq> []" and b: "b = take n (recent_first (fetch c n))"
  shows "b \<noteq> []" "set b \<subseteq> set everything" "\<forall>e\<in>set b. below_key c (en_key e)" "sorted_wrt (\<ge>) (map en_key b)"
    and "\<forall>e\<in>set everything. below_key c (en_key e) \<longrightarrow> en_key e \<in> en_key ` set b \<or> en_key e < en_key (last b)"
    and "length (fetch c n) < n \<Longrightarrow> \<forall>e\<in>set everything. below_key c (en_key e) \<longrightarrow> en_key e \<in> en_key ` set b"
proof -
  define ks where "ks = rev (sort (map en_key (filter (below c) everything)))"
  have k: "map en_key b = take n ks" unfolding ks_def b by (rule fetch_keys)
  have s: "sorted_wrt (\<ge>) ks" by (simp add: ks_def sorted_wrt_rev)
  have ks: "x \<in> set ks \<longleftrightarrow> (\<exists>e\<in>set everything. x = en_key e \<and> below_key c x)" for x
    by (auto simp: ks_def below_key_iff)
  show ne: "b \<noteq> []" using n some unfolding b by simp
  show "set b \<subseteq> set everything" unfolding b using fetch_known[of c n] set_take_subset[of n "recent_first (fetch c n)"] by auto
  show "\<forall>e\<in>set b. below_key c (en_key e)"
  proof
    fix e assume "e \<in> set b"
    then have "en_key e \<in> set (take n ks)" unfolding k[symmetric] by simp
    then show "below_key c (en_key e)" using ks by (metis in_set_takeD)
  qed
  show "sorted_wrt (\<ge>) (map en_key b)" unfolding k by (rule sorted_wrt_take[OF s])
  have split: "en_key e \<in> set (take n ks) \<or> en_key e \<in> set (drop n ks)"
    if "e \<in> set everything" "below_key c (en_key e)" for e
    using that ks by (metis append_take_drop_id set_append Un_iff)
  have last: "en_key (last b) = last (take n ks)" using k ne by (metis last_map)
  have ap: "sorted_wrt (\<ge>) (take n ks @ drop n ks)" using s by simp
  have "x \<le> last (take n ks)" if "x \<in> set (drop n ks)" for x
  proof -
    have "take n ks \<noteq> []" using k ne by (metis map_is_Nil_conv)
    with ap that show ?thesis unfolding sorted_wrt_append by simp
  qed
  then show "\<forall>e\<in>set everything. below_key c (en_key e) \<longrightarrow> en_key e \<in> en_key ` set b \<or> en_key e < en_key (last b)"
  proof (intro ballI impI)
    fix e assume e: "e \<in> set everything" "below_key c (en_key e)"
    have m: "en_key ` set b = set (take n ks)" using k by (metis set_map)
    have l: "last (take n ks) \<in> set (take n ks)" using k ne by (metis last_in_set map_is_Nil_conv)
    show "en_key e \<in> en_key ` set b \<or> en_key e < en_key (last b)"
      using split[OF e] \<open>\<And>x. x \<in> set (drop n ks) \<Longrightarrow> x \<le> last (take n ks)\<close> l unfolding m last by (metis le_less)
  qed
  assume few: "length (fetch c n) < n"
  have "length (take n ks) = length (fetch c n)"
    using few unfolding k[symmetric] b by simp
  with few have "take n ks = ks" by simp
  then have "drop n ks = []" by (metis append_take_drop_id append_self_conv)
  then show "\<forall>e\<in>set everything. below_key c (en_key e) \<longrightarrow> en_key e \<in> en_key ` set b"
    using split k by (metis empty_iff empty_set set_map)
qed

lemma none_left:
  assumes "0 < n" and "fetch c n = []" and "e \<in> set everything"
  shows "\<not> below_key c (en_key e)"
proof
  assume "below_key c (en_key e)"
  then have "e \<in> set (filter (below c) everything)" using assms(3) by (simp add: below_key_iff)
  moreover have "take n (rev (sort (map en_key (filter (below c) everything)))) = []"
    using fetch_keys[of n c] assms(2) by simp
  then have "set (map en_key (filter (below c) everything)) = {}" using assms(1) by (metis less_nat_zero_code set_empty set_rev set_sort take_eq_Nil)
  ultimately show False by auto
qed

lemma listed_step:
  assumes n: "0 < n" and some: "fetch c n \<noteq> []" and b: "b = take n (recent_first (fetch c n))"
    and apart: "told_apart hidden everything"
    and L: "L = listing hidden everything before" and sub: "\<And>k. below_key c k \<Longrightarrow> below_key before k"
    and vis: "map en_key vis = take (Suc limit) (upto_key c L)" "length vis \<le> limit" "set vis \<subseteq> set everything"
  shows "map en_key (add_visible limit vis (filter (\<lambda>e. \<not> hidden e) b)) = take (Suc limit) (upto_key (Some (en_key (last b))) L)"
proof -
  define es where "es = filter (\<lambda>e. \<not> hidden e) b"
  note bf = batch_facts[OF n some b]
  have last: "last b \<in> set b" using bf(1) by simp
  have all: "map en_key vis = upto_key c L"
    using vis(1,2) by (metis Suc_n_not_le_n length_map length_take min.absorb_iff2 min_def take_all_iff linorder_linear le_Suc_eq)
  have sL: "sorted_wrt (>) L" by (simp add: L listing_facts)
  have es: "set es \<subseteq> set everything" using bf(2) by (auto simp: es_def)
  have "map en_key (add_visible limit vis es) = take (Suc limit) (map en_key vis @ firsts (en_key ` set vis) (map en_key es))"
  proof (rule add_visible_keys[OF vis(2)])
    have "set vis \<union> set es \<subseteq> set everything" using vis(3) es by blast
    then show "\<forall>e\<in>set vis \<union> set es. \<forall>f\<in>set vis \<union> set es. (en_key e = en_key f) = (ident e = ident f)"
      using apart unfolding told_apart_def by blast
  qed
  also have "map en_key vis @ firsts (en_key ` set vis) (map en_key es) = upto_key (Some (en_key (last b))) L"
  proof (rule descending_eq)
    have d: "sorted_wrt (>) (firsts (en_key ` set vis) (map en_key es))"
    proof (rule firsts_descending)
      show "sorted_wrt (\<ge>) (map en_key es)" using bf(4) unfolding es_def by (simp add: sorted_wrt_map sorted_wrt_filter)
    qed
    have up: "sorted_wrt (>) (map en_key vis)" using sL unfolding all upto_key_def by (rule sorted_wrt_filter)
    have sep: "y < x" if "x \<in> set (map en_key vis)" "y \<in> en_key ` set es" for x y
    proof -
      have "\<not> below_key c x" using that(1) unfolding all by (simp add: upto_key_def)
      moreover have "below_key c y" using that(2) bf(3) by (auto simp: es_def)
      ultimately show ?thesis by (cases c) (auto simp only: below_key_def option.case not_less intro: less_le_trans)
    qed
    show "sorted_wrt (>) (map en_key vis @ firsts (en_key ` set vis) (map en_key es))"
      unfolding sorted_wrt_append using up d sep by (simp add: set_firsts)
    show "sorted_wrt (>) (upto_key (Some (en_key (last b))) L)" using sL unfolding upto_key_def by (rule sorted_wrt_filter)
    have "x \<in> set (upto_key c L) \<or> x \<in> en_key ` set es \<longleftrightarrow> x \<in> set L \<and> \<not> x < en_key (last b)" for x
    proof -
      have bl: "below_key c (en_key (last b))" using bf(3) last by blast
      have up: "\<not> x < en_key (last b)" if "\<not> below_key c x"
      proof (cases c)
        case (Some y)
        then have "en_key (last b) < y" "\<not> x < y" using bl that by (simp_all add: below_key_def)
        then show ?thesis by (meson less_trans)
      qed (use that in \<open>simp add: below_key_def\<close>)
      have low: "en_key (last b) \<le> en_key e" if "e \<in> set b" for e
        using bf(4) that bf(1) by (induction b) (auto split: if_splits)
      have mem: "x \<in> set L \<longleftrightarrow> (\<exists>e\<in>set everything. x = en_key e \<and> \<not> hidden e \<and> below_key before x)"
        unfolding L listing_facts by (auto simp: below_key_iff)
      have es_mem: "x \<in> en_key ` set es \<longleftrightarrow> (\<exists>e\<in>set b. x = en_key e \<and> \<not> hidden e)" by (auto simp: es_def)
      have old: "x \<in> en_key ` set es" if old: "x \<in> set L" "below_key c x" "\<not> x < en_key (last b)"
      proof -
        obtain e where e: "e \<in> set everything" "x = en_key e" "\<not> hidden e" using old(1) mem by blast
        then obtain f where f: "f \<in> set b" "en_key f = en_key e" using bf(5) old(2,3) by (metis imageE)
        have "f \<in> set everything" using f(1) bf(2) by blast
        then have "hidden f = hidden e" using apart e(1) f(2) unfolding told_apart_def by metis
        with e f es_mem show ?thesis by metis
      qed
      have new: "x \<in> set L \<and> \<not> x < en_key (last b)" if new: "x \<in> en_key ` set es"
      proof -
        obtain e where e: "e \<in> set b" "x = en_key e" "\<not> hidden e" using new es_mem by blast
        then have "below_key before x" "e \<in> set everything" using bf(2,3) sub by auto
        with e low[OF e(1)] mem show ?thesis by (metis leD)
      qed
      show ?thesis using up old new unfolding upto_key_def set_filter by blast
    qed
    then show "set (map en_key vis @ firsts (en_key ` set vis) (map en_key es)) = set (upto_key (Some (en_key (last b))) L)"
      unfolding all[symmetric] by (auto simp only: set_append set_firsts upto_key_def below_key_def option.case set_filter list.set_map)
  qed
  finally show ?thesis by (simp only: es_def)
qed

end

text \<open>Where a scan stands: at the cursor it started from, or at the key of an entry that it read.\<close>

definition stands :: "entry list \<Rightarrow> cursor option \<Rightarrow> nat \<Rightarrow> cursor option \<Rightarrow> cursor option \<Rightarrow> bool" where
  "stands es before nread z c \<longleftrightarrow>
     (z = None \<and> nread = 0 \<and> c = before)
     \<or> (\<exists>e\<in>set es. z = Some (en_key e) \<and> c = Some (en_key e) \<and> below_key before (en_key e))"

lemma stands_below: "stands es before nread z c \<Longrightarrow> below_key c k \<Longrightarrow> below_key before k"
  by (auto simp: stands_def below_key_def split: option.splits dest: less_trans simp del: less_prod_def)

context scan
begin

lemma last_least:
  assumes "0 < n" "fetch c n \<noteq> []" "b = take n (recent_first (fetch c n))" "e \<in> set b"
  shows "en_key (last b) \<le> en_key e"
  using batch_facts(1,4)[OF assms(1-3)] assms(4) by (induction b) (auto split: if_splits)

lemma collect_listed:
  assumes "collect limit maxs hidden fetch bs nread vis has c z = (vis', has', nread', z')"
    and "told_apart hidden everything" and "0 < bs" and "stands everything before nread z c"
    and "map en_key vis = take (Suc limit) (upto_key c (listing hidden everything before))" and "set vis \<subseteq> set everything"
  shows "\<exists>c'. stands everything before nread' z' c' \<and> set vis' \<subseteq> set everything
      \<and> map en_key vis' = take (Suc limit) (upto_key c' (listing hidden everything before))
      \<and> (length vis' \<le> limit \<longrightarrow> nread' < maxs \<longrightarrow> (\<forall>e\<in>set everything. \<not> below_key c' (en_key e)))"
  using assms
proof (induction limit maxs hidden fetch\<equiv>fetch bs nread vis has c z rule: collect.induct)
  case (1 limit maxs hidden bs nread vis has c z)
  define n where "n = min bs (maxs - nread)"
  define b where "b = take n (recent_first (fetch c n))"
  define vis1 where "vis1 = add_visible limit vis (filter (\<lambda>e. \<not> hidden e) b)"
  define l where "l = Some (en_key (last b))"
  define L where "L = listing hidden everything before"
  show ?case
  proof (cases "limit < length vis \<or> maxs \<le> nread \<or> fetch c n = [] \<or> n = 0")
    case True
    then have r: "(vis', has', nread', z') = (vis, has, nread, z)"
      using 1(2) by (subst (asm) collect.simps) (simp add: n_def Let_def split: if_splits)
    have "\<forall>e\<in>set everything. \<not> below_key c (en_key e)" if "length vis \<le> limit" "nread < maxs"
    proof -
      have "0 < n" using that 1(4) by (simp add: n_def)
      with True that none_left show ?thesis by auto
    qed
    then show ?thesis using r 1(5-7) by auto
  next
    case False
    then have n0: "0 < n" and some: "fetch c n \<noteq> []" and len: "length vis \<le> limit" by auto
    note bf = batch_facts[OF n0 some b_def]
    have st: "below_key before k" if "below_key c k" for k using stands_below[OF 1(5) that] .
    have m1: "map en_key vis1 = take (Suc limit) (upto_key l L)" unfolding vis1_def l_def
      by (rule listed_step[OF n0 some b_def 1(3) L_def st 1(6)[folded L_def] len 1(7)])
    have s1: "set vis1 \<subseteq> set everything"
      using add_visible_set[of limit vis "filter (\<lambda>e. \<not> hidden e) b"] 1(7) bf(2) unfolding vis1_def by auto
    have lb: "last b \<in> set b" using bf(1) by simp
    have st1: "stands everything before (nread + length b) l l"
      using lb bf(2,3) st unfolding stands_def l_def by blast
    have r: "(if length (fetch c n) < n then (vis1, True, nread + length b, l)
         else collect limit maxs hidden fetch (min (bs * 2) 100) (nread + length b) vis1 True l l) = (vis', has', nread', z')"
      using 1(2) False by (subst (asm) collect.simps) (simp add: n_def[symmetric] b_def[symmetric] vis1_def l_def Let_def split: if_splits)
    show ?thesis
    proof (cases "length (fetch c n) < n")
      case True
      have "\<not> below_key l (en_key e)" if "e \<in> set everything" for e
      proof
        assume b: "below_key l (en_key e)"
        then have lt: "en_key e < en_key (last b)" by (simp add: l_def below_key_def)
        moreover have "below_key c (en_key (last b))" using bf(3) lb by blast
        ultimately have "below_key c (en_key e)" by (cases c) (auto simp only: below_key_def option.case intro: less_trans)
        then have "en_key e \<in> en_key ` set b" using bf(6)[OF True] that by blast
        then obtain f where "en_key e = en_key f" "f \<in> set b" by (rule imageE)
        then show False using last_least[OF n0 some b_def, of f] lt by simp
      qed
      then show ?thesis using r True st1 s1 m1 unfolding L_def by auto
    next
      case more: False
      have "0 < min (bs * 2) 100" using 1(4) by simp
      have rest: "collect limit maxs hidden fetch (min (bs * 2) 100) (nread + length b) vis1 True l l = (vis', has', nread', z')"
        using r more by simp
      have go: "\<not> (limit < length vis \<or> maxs \<le> nread \<or> fetch c n = [] \<or> n = 0)" using False .
      show ?thesis
        by (rule "1.hyps"(1)[OF n_def refl go b_def refl vis1_def l_def more rest 1(3) \<open>0 < min (bs * 2) 100\<close> st1 m1[unfolded L_def] s1])
    qed
  qed
qed

end

lemma fewer_after:
  fixes ks :: "'a::linorder list"
  assumes "take n (rev (sort ks)) \<noteq> []"
  shows "length (filter (\<lambda>k. k < last (take n (rev (sort ks)))) ks) + length (take n (rev (sort ks))) \<le> length ks"
proof -
  define zs where "zs = rev (sort ks)"
  have s: "sorted_wrt (\<ge>) (take n zs)" unfolding zs_def by (rule sorted_wrt_take) (simp add: sorted_wrt_rev)
  have t: "take n zs = butlast (take n zs) @ [last (take n zs)]" using assms by (simp add: zs_def)
  have "\<not> x < last (take n zs)" if "x \<in> set (take n zs)" for x
  proof -
    have "sorted_wrt (\<ge>) (butlast (take n zs) @ [last (take n zs)])" using s t by metis
    moreover have "x \<in> set (butlast (take n zs)) \<or> x = last (take n zs)" using that by (subst (asm) t) auto
    ultimately show ?thesis by (auto simp: sorted_wrt_append)
  qed
  then have "filter (\<lambda>k. k < last (take n zs)) (take n zs) = []" by (simp add: filter_empty_conv)
  then have "filter (\<lambda>k. k < last (take n zs)) zs = filter (\<lambda>k. k < last (take n zs)) (drop n zs)"
    by (metis append_Nil append_take_drop_id filter_append)
  then have "length (filter (\<lambda>k. k < last (take n zs)) zs) \<le> length (drop n zs)" by (metis length_filter_le)
  moreover have "length (filter (\<lambda>k. k < last (take n zs)) ks) = length (filter (\<lambda>k. k < last (take n zs)) zs)"
    by (metis mset_filter mset_rev mset_sort size_mset zs_def)
  moreover have "length zs = length ks" by (simp add: zs_def)
  moreover have "length (take n zs) + length (drop n zs) = length zs" by (metis append_take_drop_id length_append)
  ultimately show ?thesis unfolding zs_def[symmetric] by linarith
qed

context scan
begin

text \<open>A scan reads no entry twice.\<close>

lemma collect_reads:
  assumes "collect limit maxs hidden fetch bs nread vis has c z = (vis', has', nread', z')"
  shows "nread' \<le> nread + length (filter (below c) everything)"
  using assms
proof (induction limit maxs hidden fetch\<equiv>fetch bs nread vis has c z rule: collect.induct)
  case (1 limit maxs hidden bs nread vis has c z)
  define n where "n = min bs (maxs - nread)"
  define b where "b = take n (recent_first (fetch c n))"
  define vis1 where "vis1 = add_visible limit vis (filter (\<lambda>e. \<not> hidden e) b)"
  define l where "l = Some (en_key (last b))"
  show ?case
  proof (cases "limit < length vis \<or> maxs \<le> nread \<or> fetch c n = [] \<or> n = 0")
    case True
    then show ?thesis using 1(2) by (subst (asm) collect.simps) (simp add: n_def Let_def split: if_splits)
  next
    case False
    define ks where "ks = map en_key (filter (below c) everything)"
    have keys: "map en_key b = take n (rev (sort ks))" unfolding b_def ks_def by (rule fetch_keys)
    have "b \<noteq> []" using False by (simp add: b_def)
    then have ne: "take n (rev (sort ks)) \<noteq> []" and lb: "en_key (last b) = last (take n (rev (sort ks)))"
      unfolding keys[symmetric] by (simp_all add: last_map)
    have bc: "below_key c (en_key (last b))"
    proof -
      have "en_key (last b) \<in> set ks" unfolding lb using last_in_set[OF ne] by (metis in_set_takeD set_rev set_sort)
      then show ?thesis by (auto simp: ks_def below_key_iff)
    qed
    have lk: "length (filter (below l) everything) = length (filter (\<lambda>k. k < last (take n (rev (sort ks)))) ks)"
    proof -
      have "below l e \<longleftrightarrow> below c e \<and> en_key e < en_key (last b)" for e
        using bc unfolding l_def below_key_iff by (cases c) (auto simp only: below_key_def option.case intro: less_trans)
      then have "below l = (\<lambda>e. below c e \<and> en_key e < en_key (last b))" by (intro ext)
      then have "filter (below l) everything = filter (\<lambda>e. en_key e < en_key (last b)) (filter (below c) everything)"
        by (simp add: filter_filter)
      then show ?thesis unfolding ks_def lb[symmetric, unfolded ks_def] by (simp add: filter_map comp_def)
    qed
    have "length b = length (take n (rev (sort ks)))" by (metis keys length_map)
    then have less: "length (filter (below l) everything) + length b \<le> length (filter (below c) everything)"
      using fewer_after[OF ne] unfolding lk by (simp add: ks_def)
    have r: "(if length (fetch c n) < n then (vis1, True, nread + length b, l)
         else collect limit maxs hidden fetch (min (bs * 2) 100) (nread + length b) vis1 True l l) = (vis', has', nread', z')"
      using 1(2) False by (subst (asm) collect.simps) (simp add: n_def[symmetric] b_def[symmetric] vis1_def l_def Let_def split: if_splits)
    show ?thesis
    proof (cases "length (fetch c n) < n")
      case True
      with r less show ?thesis by simp
    next
      case more: False
      have rest: "collect limit maxs hidden fetch (min (bs * 2) 100) (nread + length b) vis1 True l l = (vis', has', nread', z')"
        using r more by simp
      have "nread' \<le> nread + length b + length (filter (below l) everything)"
        by (rule "1.hyps"(1)[OF n_def refl False b_def refl vis1_def l_def more rest])
      with less show ?thesis by simp
    qed
  qed
qed

text \<open>So a page is full, or the last, where there is less than the limit of the scan.\<close>

lemma page_full:
  assumes r: "collect_page fetch c limit hidden = (vis, has, go_on)" and f: "finish_page vis limit go_on = (page, next_cursor)"
    and few: "length everything < MAX_SCANNED limit"
  shows "next_cursor = None \<or> length page = limit"
proof -
  obtain nread z where col: "collect limit (MAX_SCANNED limit) hidden fetch (limit + 1) 0 [] False c None = (vis, has, nread, z)"
    and go: "go_on = (if MAX_SCANNED limit \<le> nread \<and> length vis \<le> limit then z else None)"
    using r by (auto simp: collect_page_def split: prod.splits)
  have "nread \<le> length (filter (below c) everything)" using collect_reads[OF col] by simp
  with few have "nread < MAX_SCANNED limit" by (meson le_less_trans length_filter_le)
  with go have "go_on = None" by simp
  then show ?thesis using f by (auto simp: finish_page_def Let_def min_def split: if_splits)
qed

end

lemma below_key_Some: "below_key (Some x) = (\<lambda>k. k < x)"
  by (auto simp: below_key_def)

lemma take_append_le: "n \<le> length xs \<Longrightarrow> take n (xs @ ys) = take n xs"
  by simp

lemma descending_rest:
  assumes "sorted_wrt (>) ks" and "take n ks \<noteq> []"
  shows "take n ks @ filter (below_key (Some (last (take n ks)))) ks = ks"
proof -
  define k where "k = last (take n ks)"
  have s: "sorted_wrt (>) (take n ks @ drop n ks)" using assms(1) by simp
  have "k \<in> set (take n ks)" using assms(2) unfolding k_def by (rule last_in_set)
  then have d: "\<forall>x\<in>set (drop n ks). x < k" using s unfolding sorted_wrt_append by blast
  have u: "\<forall>x\<in>set (take n ks). \<not> x < k"
  proof
    fix x assume x: "x \<in> set (take n ks)"
    have t: "take n ks = butlast (take n ks) @ [k]" using assms(2) by (simp add: k_def)
    have w: "sorted_wrt (>) (butlast (take n ks) @ [k])" by (subst t[symmetric]) (rule sorted_wrt_take[OF assms(1)])
    have "x \<in> set (butlast (take n ks) @ [k])" by (subst t[symmetric]) (rule x)
    then have "x = k \<or> k < x" using w unfolding sorted_wrt_append by auto
    then show "\<not> x < k" by auto
  qed
  have "filter (\<lambda>x. x < k) (take n ks @ drop n ks) = drop n ks"
    unfolding filter_append using d u by (simp add: filter_empty_conv filter_True del: append_take_drop_id)
  then show ?thesis unfolding below_key_Some k_def[symmetric] append_take_drop_id by simp
qed

context scan
begin

lemma page_listed:
  assumes r: "collect_page fetch before limit hidden = (vis, has, go_on)" and f: "finish_page vis limit go_on = (page, next_cursor)"
    and apart: "told_apart hidden everything" and l: "0 < limit"
  shows "(next_cursor = None \<and> map en_key page = listing hidden everything before)
    \<or> (\<exists>e\<in>set everything. next_cursor = Some (en_key e) \<and> below_key before (en_key e)
        \<and> map en_key page @ listing hidden everything next_cursor = listing hidden everything before)"
proof -
  define L where "L = listing hidden everything before"
  obtain nread z where c: "collect limit (MAX_SCANNED limit) hidden fetch (limit + 1) 0 [] False before None = (vis, has, nread, z)"
    and go: "go_on = (if MAX_SCANNED limit \<le> nread \<and> length vis \<le> limit then z else None)"
    using r by (auto simp: collect_page_def split: prod.splits)
  have sL: "sorted_wrt (>) L" by (simp add: L_def listing_facts)
  have "upto_key before L = []" by (auto simp: L_def upto_key_def filter_empty_conv listing_facts below_key_iff)
  then obtain c' where st: "stands everything before nread z c'" and sub: "set vis \<subseteq> set everything"
    and keys: "map en_key vis = take (Suc limit) (upto_key c' L)"
    and ended: "length vis \<le> limit \<longrightarrow> nread < MAX_SCANNED limit \<longrightarrow> (\<forall>e\<in>set everything. \<not> below_key c' (en_key e))"
    using collect_listed[OF c apart, of before] by (auto simp: stands_def L_def)
  have later: "listing hidden everything (Some (en_key e)) = filter (below_key (Some (en_key e))) L"
    if "below_key before (en_key e)" for e
  proof -
    have "below_key before k" if "below_key (Some (en_key e)) k" for k
      using that \<open>below_key before (en_key e)\<close> by (cases before) (auto simp only: below_key_def option.case intro: less_trans)
    then have "filter (below_key (Some (en_key e))) (filter (below_key before) ks) = filter (below_key (Some (en_key e))) ks" for ks
      by (auto simp: filter_filter intro!: filter_cong)
    then show ?thesis unfolding L_def by (subst (1 2) listing_below) simp
  qed
  show ?thesis
  proof (cases "limit < length vis")
    case True
    define e where "e = last (take limit vis)"
    have ne: "take limit vis \<noteq> []" using True l by auto
    have "e \<in> set (take limit vis)" using ne by (simp add: e_def)
    then have mem: "e \<in> set everything" and vise: "e \<in> set vis" using sub set_take_subset[of limit vis] by auto
    have p: "page = take limit vis" "next_cursor = Some (en_key e)" using f True ne by (auto simp: finish_page_def Let_def e_def)
    have kp: "map en_key page = take limit L"
    proof -
      have "map en_key page = take limit (upto_key c' L)" unfolding p(1) take_map[symmetric] keys by simp
      moreover have "limit \<le> length (upto_key c' L)" using True keys by (metis length_map length_take min.strict_boundedE less_or_eq_imp_le)
      ultimately show ?thesis using descending_split[OF sL, of c'] by (metis append_eq_conv_conj take_append_le)
    qed
    have k: "en_key e = last (take limit L)" unfolding kp[symmetric] e_def p(1) using ne by (simp add: last_map)
    have bk: "below_key before (en_key e)"
    proof -
      have "en_key e \<in> set (take limit L)" unfolding kp[symmetric] p(1) using \<open>e \<in> set (take limit vis)\<close> by simp
      then have "en_key e \<in> set L" by (rule in_set_takeD)
      then show ?thesis by (auto simp: L_def listing_facts below_key_iff)
    qed
    have "map en_key page @ filter (below_key (Some (en_key e))) L = L" unfolding kp k
      by (rule descending_rest[OF sL]) (use kp ne p in auto)
    then show ?thesis using mem p(2) bk later[OF bk] by (auto simp: L_def)
  next
    case False
    then have p: "page = vis" "next_cursor = go_on" using f using False by (auto simp: finish_page_def Let_def split: if_splits)
    have "length (take (Suc limit) (upto_key c' L)) \<le> limit" unfolding keys[symmetric] using False by simp
    then have all: "map en_key vis = upto_key c' L" using keys by simp
    have whole: "upto_key c' L @ filter (below_key c') L = L" by (rule descending_split[OF sL])
    show ?thesis
    proof (cases "nread < MAX_SCANNED limit")
      case True
      then have "filter (below_key c') L = []" using ended False by (auto simp: filter_empty_conv L_def listing_facts)
      then have "map en_key vis = L" using all whole by simp
      then show ?thesis using p go True by (simp add: L_def)
    next
      case full: False
      moreover have "0 < MAX_SCANNED limit" by (simp add: MAX_SCANNED_def)
      ultimately obtain e where e: "e \<in> set everything" "z = Some (en_key e)" "c' = Some (en_key e)" "below_key before (en_key e)"
        using st by (auto simp: stands_def)
      then show ?thesis using p go full False all whole later[OF e(4)] by (auto simp: L_def)
    qed
  qed
qed

end

section \<open>Page after page\<close>

text \<open>What a reader sees who follows the cursors to the end; \<open>None\<close> where \<open>n\<close> pages are not enough.\<close>

fun read_pages :: "nat \<Rightarrow> (cursor option \<Rightarrow> entry list \<times> cursor option) \<Rightarrow> cursor option \<Rightarrow> entry list option" where
  "read_pages 0 page c = None"
| "read_pages (Suc n) page c =
     (case page c of
        (es, None) \<Rightarrow> Some es
      | (es, Some k) \<Rightarrow> map_option (\<lambda>fs. es @ fs) (read_pages n page (Some k)))"

definition page_from ::
    "(cursor option \<Rightarrow> nat \<Rightarrow> entry list) \<Rightarrow> nat \<Rightarrow> (entry \<Rightarrow> bool) \<Rightarrow> cursor option \<Rightarrow> entry list \<times> cursor option" where
  "page_from fetch limit hidden c = (let (vis, _, go_on) = collect_page fetch c limit hidden in finish_page vis limit go_on)"

lemma fewer_below:
  assumes "e \<in> set es" and "below_key c (en_key e)"
  shows "length (filter (below (Some (en_key e))) es) < length (filter (below c) es)"
proof -
  have "filter (below (Some (en_key e))) es = filter (below (Some (en_key e))) (filter (below c) es)"
  proof -
    have "below c f" if "below (Some (en_key e)) f" for f
      using that assms(2) unfolding below_key_iff by (cases c) (auto simp only: below_key_def option.case intro: less_trans)
    then show ?thesis by (auto simp: filter_filter intro!: filter_cong)
  qed
  also have "length \<dots> < length (filter (below c) es)"
    by (rule length_filter_less[of e]) (use assms in \<open>auto simp: below_key_iff below_key_def\<close>)
  finally show ?thesis .
qed

context scan
begin

lemma pages_listed:
  assumes "told_apart hidden everything" and "0 < limit" and "\<And>c. c \<noteq> None \<Longrightarrow> page c = page_from fetch limit hidden c"
    and "page c = page_from fetch limit hidden c" and "length (filter (below c) everything) < n"
  shows "\<exists>es. read_pages n page c = Some es \<and> map en_key es = listing hidden everything c"
  using assms(4,5)
proof (induction n arbitrary: c)
  case (Suc n)
  obtain vis has go_on where v: "collect_page fetch c limit hidden = (vis, has, go_on)" by (metis prod_cases3)
  obtain es k where f: "finish_page vis limit go_on = (es, k)" by fastforce
  have p: "page c = (es, k)" using Suc.prems(1) v f by (simp add: page_from_def)
  from page_listed[OF v f assms(1,2)] show ?case
  proof (elim disjE bexE conjE)
    assume "k = None" "map en_key es = listing hidden everything c"
    with p show ?thesis by simp
  next
    fix e
    assume e: "e \<in> set everything" "below_key c (en_key e)" and k: "k = Some (en_key e)"
      and split: "map en_key es @ listing hidden everything k = listing hidden everything c"
    have "\<exists>fs. read_pages n page k = Some fs \<and> map en_key fs = listing hidden everything k"
      by (rule Suc.IH) (use assms(3) k fewer_below[OF e] Suc.prems(2) in simp_all)
    then obtain fs where "read_pages n page k = Some fs" "map en_key fs = listing hidden everything k" by blast
    with p k split show ?thesis by auto
  qed
qed simp

lemma first_candidates:
  assumes "collect_page fetch None limit hidden = (vis, has, go_on)"
  shows "has \<longleftrightarrow> everything \<noteq> []"
proof -
  have n0: "0 < min (limit + 1) (MAX_SCANNED limit - 0)" by (simp add: MAX_SCANNED_def)
  have keep: "fst (snd (collect l m h f b r vs True c z))" for l m h f b r vs c z
  proof (induction l m h f b r vs "True" c z rule: collect.induct)
    case (1 l m h f b r vs c z)
    show ?case by (subst collect.simps) (use 1 in \<open>simp add: Let_def\<close>)
  qed
  have e: "fetch None (min (limit + 1) (MAX_SCANNED limit - 0)) = [] \<longleftrightarrow> everything = []"
  proof
    assume "fetch None (min (limit + 1) (MAX_SCANNED limit - 0)) = []"
    from none_left[OF n0 this] show "everything = []" by (cases everything) (auto simp: below_key_def)
  next
    assume "everything = []"
    then show "fetch None (min (limit + 1) (MAX_SCANNED limit - 0)) = []" using fetch_known by auto
  qed
  have "has = fst (snd (collect limit (MAX_SCANNED limit) hidden fetch (limit + 1) 0 [] False None None))"
    using assms by (auto simp: collect_page_def split: prod.splits)
  also have "\<dots> \<longleftrightarrow> everything \<noteq> []"
    by (subst collect.simps) (use e n0 keep in \<open>simp add: Let_def\<close>)
  finally show ?thesis .
qed

end

section \<open>The sources of the two time lines\<close>

definition realtime_entries ::
    "(string \<Rightarrow> entry list) \<Rightarrow> string list \<Rightarrow> (uuid list \<times> uuid list) option \<Rightarrow> 's forum_db_scheme \<Rightarrow> entry list" where
  "realtime_entries others names follow s =
     concat (map (\<lambda>name. filter (wanted name (map_option fst follow)
       (if name = ''discussion'' then (case follow of None \<Rightarrow> [] | Some (_, bs) \<Rightarrow> bs) else [])) (source_entries others name s)) names)"

definition materialized_entries ::
    "(string \<Rightarrow> entry list) \<Rightarrow> uuid \<Rightarrow> uuid list \<Rightarrow> uuid list \<Rightarrow> 's forum_db_scheme \<Rightarrow> entry list" where
  "materialized_entries others user_id authors board_ids s =
     map row_entry (filter (\<lambda>f. fi_user_id f = user_id) (feed_items s))
     @ concat (map (\<lambda>name. if authors = [] \<and> (name \<noteq> ''discussion'' \<or> board_ids = []) then []
         else filter (wanted name (Some authors) (if name = ''discussion'' then board_ids else [])) (source_entries others name s))
         FOLLOW_SOURCES)"

lemma merged_keys:
  "map en_key (take n (recent_first (concat (map (\<lambda>es. take n (recent_first (filter (below c) es))) ess))))
    = take n (rev (sort (map en_key (filter (below c) (concat ess)))))"
proof -
  have "map en_key (take n (recent_first (concat (map (\<lambda>es. take n (recent_first (filter (below c) es))) ess))))
      = take n (rev (sort ([] @ concat (map (\<lambda>xs. take n (rev (sort xs))) (map (\<lambda>es. map en_key (filter (below c) es)) ess)))))"
    by (simp add: take_map[symmetric] map_recent_first map_concat comp_def)
  also have "\<dots> = take n (rev (sort ([] @ concat (map (\<lambda>es. map en_key (filter (below c) es)) ess))))"
    by (rule take_rsort_concat)
  finally show ?thesis by (simp add: map_concat filter_concat comp_def)
qed

lemma merged_known: "set (concat (map (\<lambda>es. take n (recent_first (filter (below c) es))) ess)) \<subseteq> set (concat ess)"
  by (auto dest!: in_set_takeD)

lemma fetch_source_alt:
  "fetch_source others name authors board_ids c n s
    = take n (recent_first (filter (below c) (filter (wanted name authors board_ids) (source_entries others name s))))"
  by (simp add: fetch_source_def)

lemma realtime_fetch_merged:
  "realtime_fetch others names follow s c n
    = concat (map (\<lambda>es. take n (recent_first (filter (below c) es)))
        (map (\<lambda>name. filter (wanted name (map_option fst follow)
          (if name = ''discussion'' then (case follow of None \<Rightarrow> [] | Some (_, bs) \<Rightarrow> bs) else [])) (source_entries others name s)) names))"
  unfolding realtime_fetch_def fetch_source_alt by (simp add: comp_def)

lemma materialized_fetch_merged:
  "materialized_fetch others user_id authors board_ids s c n
    = concat (map (\<lambda>es. take n (recent_first (filter (below c) es)))
        (map row_entry (filter (\<lambda>f. fi_user_id f = user_id) (feed_items s))
         # map (\<lambda>name. if authors = [] \<and> (name \<noteq> ''discussion'' \<or> board_ids = []) then []
             else filter (wanted name (Some authors) (if name = ''discussion'' then board_ids else [])) (source_entries others name s))
             FOLLOW_SOURCES))"
  unfolding materialized_fetch_def realtime_supplement_def load_materialized_page_def fetch_source_alt
  by (auto simp: comp_def FOLLOW_SOURCES_def)

interpretation realtime: scan "realtime_fetch others names follow s" "realtime_entries others names follow s" for others names follow s
  by unfold_locales (simp_all only: realtime_fetch_merged realtime_entries_def merged_keys merged_known)

lemma materialized_entries_concat:
  "materialized_entries others user_id authors board_ids s
    = concat (map row_entry (filter (\<lambda>f. fi_user_id f = user_id) (feed_items s))
         # map (\<lambda>name. if authors = [] \<and> (name \<noteq> ''discussion'' \<or> board_ids = []) then []
             else filter (wanted name (Some authors) (if name = ''discussion'' then board_ids else [])) (source_entries others name s))
             FOLLOW_SOURCES)"
  by (simp add: materialized_entries_def)

interpretation materialized: scan "materialized_fetch others user_id authors board_ids s"
    "materialized_entries others user_id authors board_ids s" for others user_id authors board_ids s
  by unfold_locales (simp_all only: materialized_fetch_merged materialized_entries_concat merged_keys merged_known)

text \<open>The entries that a time line is made of.\<close>

definition bigv_followed :: "uuid list \<Rightarrow> uuid \<Rightarrow> 's forum_db_scheme \<Rightarrow> uuid list" where
  "bigv_followed bigv user_id s = filter (\<lambda>a. a \<in> set (get_following_ids user_id s)) bigv"

definition timeline_entries ::
    "(string \<Rightarrow> entry list) \<Rightarrow> uuid list \<Rightarrow> uuid option \<Rightarrow> bool \<Rightarrow> 's forum_db_scheme \<Rightarrow> entry list" where
  "timeline_entries others bigv user_id follow_mode s =
     (case (if follow_mode then user_id else None) of
        None \<Rightarrow> realtime_entries others HOT_SOURCES None s
      | Some u \<Rightarrow> materialized_entries others u (bigv_followed bigv u s) (get_followed_board_ids u s) s)"

definition follows_any :: "uuid \<Rightarrow> 's forum_db_scheme \<Rightarrow> bool" where
  "follows_any user_id s \<longleftrightarrow> get_following_ids user_id s \<noteq> [] \<or> get_followed_board_ids user_id s \<noteq> []"

text \<open>Where a reader of what is written ahead has something to read.\<close>

definition has_timeline :: "(string \<Rightarrow> entry list) \<Rightarrow> uuid list \<Rightarrow> uuid option \<Rightarrow> bool \<Rightarrow> 's forum_db_scheme \<Rightarrow> bool" where
  "has_timeline others bigv user_id follow_mode s \<longleftrightarrow>
     (case (if follow_mode then user_id else None) of
        None \<Rightarrow> True
      | Some u \<Rightarrow> follows_any u s \<and> timeline_entries others bigv user_id follow_mode s \<noteq> [])"

lemma hot_page:
  assumes "(if follow_mode then user_id else None) = None"
  shows "get_timeline others hidden bigv user_id follow_mode c limit s
    = page_from (realtime_fetch others HOT_SOURCES None s) limit hidden c"
  using assms by (auto simp: get_timeline_def realtime_timeline_def page_from_def Let_def split: if_splits)

lemma materialized_page:
  assumes "follows_any u s" and "c \<noteq> None \<or> timeline_entries others bigv (Some u) True s \<noteq> []"
  shows "get_timeline others hidden bigv (Some u) True c limit s
    = page_from (materialized_fetch others u (bigv_followed bigv u s) (get_followed_board_ids u s) s) limit hidden c"
proof -
  define fetch where "fetch = materialized_fetch others u (bigv_followed bigv u s) (get_followed_board_ids u s) s"
  obtain vis has go_on where v: "collect_page fetch c limit hidden = (vis, has, go_on)" by (metis prod_cases3)
  have "has \<or> c \<noteq> None"
    using assms(2) materialized.first_candidates[of others u "bigv_followed bigv u s" "get_followed_board_ids u s" s limit hidden vis has go_on]
      v unfolding fetch_def timeline_entries_def by (cases c) auto
  then have "materialized_timeline others hidden bigv u c limit s = Some (finish_page vis limit go_on)"
    using assms(1) v unfolding materialized_timeline_def fetch_def bigv_followed_def follows_any_def by (auto simp: Let_def)
  then show ?thesis using v unfolding get_timeline_def page_from_def fetch_def by simp
qed

lemma nothing_ahead:
  assumes "follows_any u s" and "timeline_entries others bigv (Some u) True s = []"
  shows "get_timeline others hidden bigv (Some u) True None limit s
      = page_from (realtime_fetch others FOLLOW_SOURCES (Some (get_following_ids u s, get_followed_board_ids u s)) s) limit hidden None"
    and "get_timeline others hidden bigv (Some u) True (Some k) limit s = ([], None)"
proof -
  define fetch where "fetch = materialized_fetch others u (bigv_followed bigv u s) (get_followed_board_ids u s) s"
  obtain vis has go_on where v: "collect_page fetch None limit hidden = (vis, has, go_on)" by (metis prod_cases3)
  have "\<not> has"
    using assms(2) materialized.first_candidates[of others u "bigv_followed bigv u s" "get_followed_board_ids u s" s limit hidden vis has go_on]
      v unfolding fetch_def timeline_entries_def by auto
  then have "materialized_timeline others hidden bigv u None limit s = None"
    using assms(1) v unfolding materialized_timeline_def fetch_def bigv_followed_def follows_any_def by (auto simp: Let_def)
  then show "get_timeline others hidden bigv (Some u) True None limit s
      = page_from (realtime_fetch others FOLLOW_SOURCES (Some (get_following_ids u s, get_followed_board_ids u s)) s) limit hidden None"
    using assms(1) unfolding get_timeline_def realtime_timeline_def page_from_def follows_any_def by (auto simp: Let_def split: prod.splits)
  have none: "fetch c n = []" for c n
    using assms(2) materialized.fetch_known[of others u "bigv_followed bigv u s" "get_followed_board_ids u s" s c n]
    unfolding fetch_def timeline_entries_def by simp
  have "collect_page fetch (Some k) limit hidden = ([], False, None)"
    unfolding collect_page_def by (subst collect.simps) (simp add: none Let_def)
  then show "get_timeline others hidden bigv (Some u) True (Some k) limit s = ([], None)"
    unfolding materialized_page[OF assms(1), of "Some k", simplified] fetch_def[symmetric] by (simp add: page_from_def finish_page_def)
qed

section \<open>Properties\<close>

text \<open>C36: Following the cursors to the end, a reader sees every entry of the time line that is not hidden exactly once, newest first, and
  the cursors do end: across all sources, however many rows show the same entry, however many are hidden, and whatever the size of
  the pages.  The keys tell the entries apart, and a reader of what is written ahead has something to read there; for one who has
  not see C37.
\<close>

theorem timeline_read_through:
  assumes "0 < limit" and "told_apart hidden (timeline_entries others bigv user_id follow_mode s)"
    and "has_timeline others bigv user_id follow_mode s"
    and "length (timeline_entries others bigv user_id follow_mode s) < n"
  shows "\<exists>es. read_pages n (\<lambda>c. get_timeline others hidden bigv user_id follow_mode c limit s) None = Some es
    \<and> map en_key es
      = rev (sorted_list_of_set (en_key ` set (filter (\<lambda>e. \<not> hidden e) (timeline_entries others bigv user_id follow_mode s))))"
proof -
  define page where "page = (\<lambda>c. get_timeline others hidden bigv user_id follow_mode c limit s)"
  define es where "es = timeline_entries others bigv user_id follow_mode s"
  have n: "length (filter (below None) es) < n" using assms(4) by (simp add: es_def below_def)
  have l: "listing hidden es None = rev (sorted_list_of_set (en_key ` set (filter (\<lambda>e. \<not> hidden e) es)))"
    by (simp add: listing_def below_def)
  have "\<exists>fs. read_pages n page None = Some fs \<and> map en_key fs = listing hidden es None"
  proof (cases "if follow_mode then user_id else None")
    case None
    then have e: "es = realtime_entries others HOT_SOURCES None s" by (simp add: es_def timeline_entries_def)
    show ?thesis unfolding e
      by (rule realtime.pages_listed) (use assms(1,2) n None in \<open>simp_all add: page_def e es_def[symmetric] hot_page\<close>)
  next
    case (Some u)
    then have m: "follow_mode" "user_id = Some u" by (simp_all split: if_splits)
    then have e: "es = materialized_entries others u (bigv_followed bigv u s) (get_followed_board_ids u s) s"
      by (simp add: es_def timeline_entries_def)
    have p: "page c = page_from (materialized_fetch others u (bigv_followed bigv u s) (get_followed_board_ids u s) s) limit hidden c" for c
      unfolding page_def m(2) using assms(3) m materialized_page[of u s c others bigv hidden limit] by (simp add: has_timeline_def)
    show ?thesis unfolding e
      by (rule materialized.pages_listed) (use assms(1,2) n p in \<open>simp_all add: e es_def[symmetric]\<close>)
  qed
  then show ?thesis unfolding l unfolding page_def es_def .
qed

text \<open>The entries of those he follows, as the sources have them now.\<close>

definition followed_entries :: "(string \<Rightarrow> entry list) \<Rightarrow> uuid \<Rightarrow> 's forum_db_scheme \<Rightarrow> entry list" where
  "followed_entries others user_id s =
     realtime_entries others FOLLOW_SOURCES (Some (get_following_ids user_id s, get_followed_board_ids user_id s)) s"

text \<open>C37: The fallback has one page.  Take a reader who follows somebody or a board, for whom no row is written ahead and for whom
  the live supplement has nothing either (no entry of an author over the cap whom he follows, none of a board he follows).  His
  first page shows the newest of what the sources have of those he follows and is not hidden, a full page where the scan does not
  meet its limit: what it shows and what lies below its cursor is all of it.  But its cursor leads to an empty page without a
  cursor, so what lies below it he never sees.\<close>

theorem fallback_has_one_page:
  assumes "0 < limit" and "follows_any u s" and "timeline_entries others bigv (Some u) True s = []"
    and "told_apart hidden (followed_entries others u s)"
  shows "\<exists>es k. get_timeline others hidden bigv (Some u) True None limit s = (es, k) \<and> length es \<le> limit
    \<and> map en_key es @ (if k = None then [] else listing hidden (followed_entries others u s) k)
        = listing hidden (followed_entries others u s) None
    \<and> (length (followed_entries others u s) < MAX_SCANNED limit
        \<longrightarrow> map en_key es = take limit (listing hidden (followed_entries others u s) None))
    \<and> (k = None \<or> get_timeline others hidden bigv (Some u) True k limit s = ([], None))
    \<and> read_pages (Suc (Suc n)) (\<lambda>c. get_timeline others hidden bigv (Some u) True c limit s) None = Some es"
proof -
  define page where "page = (\<lambda>c. get_timeline others hidden bigv (Some u) True c limit s)"
  define R where "R = followed_entries others u s"
  define fetch where "fetch = realtime_fetch others FOLLOW_SOURCES (Some (get_following_ids u s, get_followed_board_ids u s)) s"
  obtain vis has go_on where v: "collect_page fetch None limit hidden = (vis, has, go_on)" by (metis prod_cases3)
  obtain es k where f: "finish_page vis limit go_on = (es, k)" by fastforce
  have p: "page None = (es, k)"
    using v f unfolding page_def nothing_ahead(1)[OF assms(2,3)] fetch_def[symmetric] by (simp add: page_from_def)
  have l: "length es \<le> limit" using f by (auto simp: finish_page_def Let_def split: if_splits)
  have e: "page (Some c) = ([], None)" for c unfolding page_def by (rule nothing_ahead(2)[OF assms(2,3)])
  have keys: "map en_key es @ (if k = None then [] else listing hidden R k) = listing hidden R None"
    using realtime.page_listed[OF v[unfolded fetch_def] f assms(4)[unfolded followed_entries_def] assms(1)]
    unfolding R_def followed_entries_def by auto
  have "map en_key es = take limit (listing hidden R None)" if "length R < MAX_SCANNED limit"
  proof -
    have "k = None \<or> length es = limit"
      using realtime.page_full[OF v[unfolded fetch_def] f] that unfolding R_def followed_entries_def by simp
    then show ?thesis using l unfolding keys[symmetric] by auto
  qed
  moreover have "read_pages (Suc (Suc n)) page None = Some es" using p e by (cases k) auto
  moreover have "k = None \<or> page k = ([], None)" using e by (cases k) auto
  ultimately show ?thesis using p l keys unfolding page_def R_def by blast
qed

section \<open>Witnesses\<close>

definition forum2 :: forum_db where
  "forum2 = forum0\<lparr>content_items := [blog_item 101 2 9 post0 10, blog_item 102 2 9 post0 20], user_follows := [new_follow 50 1 2 0]\<rparr>"

definition forum3 :: forum_db where
  "forum3 = forum2\<lparr>feed_items := [\<lparr>fi_id = 60, fi_user_id = 1, fi_item_type = ''blog'', fi_source_id = 102, fi_author_id = Some 2,
     fi_board_id = Some 9, fi_title = ''t'', fi_content_preview = ''c'', fi_url = ''/blog/posts/go'', fi_created_at = 20\<rparr>]\<rparr>"

lemma forum2_simps [simp]:
  "get_following_ids 1 forum2 = [2]" "get_followed_board_ids 1 forum2 = []" "feed_items forum2 = []"
  "get_following_ids 1 forum3 = [2]" "get_followed_board_ids 1 forum3 = []"
  by (simp_all add: get_following_ids_def get_followed_board_ids_def targets_of_def forum2_def forum3_def new_follow_def)

lemma sources2 [simp]:
  "source_entries (\<lambda>_. []) name forum3
    = (if name = ''blog'' then [fetch_blog (blog_item 101 2 9 post0 10), fetch_blog (blog_item 102 2 9 post0 20)] else [])"
  "source_entries (\<lambda>_. []) name forum2
    = (if name = ''blog'' then [fetch_blog (blog_item 101 2 9 post0 10), fetch_blog (blog_item 102 2 9 post0 20)] else [])"
  by (simp_all add: source_entries_def forum3_def forum2_def published_item_def blog_item_def)

theorem timeline_read_through_witness:
  "\<exists>es. read_pages 4 (\<lambda>c. get_timeline (\<lambda>_. []) (\<lambda>_. False) [2] (Some 1) True c 1 forum3) None = Some es
     \<and> map en_key es = [(20, 102), (10, 101)]"
proof -
  have t: "timeline_entries (\<lambda>_. []) [2] (Some 1) True forum3 = row_entry (hd (feed_items forum3))
      # [fetch_blog (blog_item 101 2 9 post0 10), fetch_blog (blog_item 102 2 9 post0 20)]"
    by (simp add: timeline_entries_def materialized_entries_def bigv_followed_def FOLLOW_SOURCES_def wanted_def fetch_blog_def blog_item_def)
      (simp add: forum3_def)
  have a: "told_apart (\<lambda>_. False) (timeline_entries (\<lambda>_. []) [2] (Some 1) True forum3)"
    unfolding t told_apart_def by (simp add: forum3_def ident_def en_key_def fetch_blog_def blog_item_def row_entry_def)
  have h: "has_timeline (\<lambda>_. []) [2] (Some 1) True forum3"
    by (simp add: has_timeline_def follows_any_def t)
  have k: "rev (sorted_list_of_set (en_key ` set (filter (\<lambda>e. \<not> False) (timeline_entries (\<lambda>_. []) [2] (Some 1) True forum3))))
      = [(20, 102), (10, 101)]"
    unfolding t by (simp add: forum3_def en_key_def fetch_blog_def blog_item_def row_entry_def insert_Diff_if)
  show ?thesis
    using timeline_read_through[OF _ a h, of 1 4] unfolding k by (simp add: t)
qed

theorem fallback_has_one_page_witness:
  "\<exists>es k. get_timeline (\<lambda>_. []) (\<lambda>_. False) [] (Some 1) True None 1 forum2 = (es, k)
     \<and> map en_key es = [(20, 102)]
     \<and> listing (\<lambda>_. False) (followed_entries (\<lambda>_. []) 1 forum2) None = [(20, 102), (10, 101)]
     \<and> read_pages 7 (\<lambda>c. get_timeline (\<lambda>_. []) (\<lambda>_. False) [] (Some 1) True c 1 forum2) None = Some es"
proof -
  have t: "followed_entries (\<lambda>_. []) 1 forum2 = [fetch_blog (blog_item 101 2 9 post0 10), fetch_blog (blog_item 102 2 9 post0 20)]"
    by (simp add: followed_entries_def realtime_entries_def FOLLOW_SOURCES_def wanted_def fetch_blog_def blog_item_def)
  have k: "listing (\<lambda>_. False) (followed_entries (\<lambda>_. []) 1 forum2) None = [(20, 102), (10, 101)]"
    unfolding listing_def t by (simp add: below_def en_key_def fetch_blog_def blog_item_def)
  have a: "told_apart (\<lambda>_. False) (followed_entries (\<lambda>_. []) 1 forum2)"
    unfolding t told_apart_def by (simp add: ident_def en_key_def fetch_blog_def blog_item_def)
  have "timeline_entries (\<lambda>_. []) [] (Some 1) True forum2 = []"
    by (simp add: timeline_entries_def materialized_entries_def bigv_followed_def FOLLOW_SOURCES_def)
  moreover have "follows_any 1 forum2" by (simp add: follows_any_def)
  moreover have "length (followed_entries (\<lambda>_. []) 1 forum2) < MAX_SCANNED 1" by (simp add: t MAX_SCANNED_def)
  ultimately show ?thesis
    using fallback_has_one_page[OF _ _ _ a, of 1 "[]" 5] k by (auto simp: numeral_nat)
qed

end
