(* ===== verification/Feed_Fanout.thy ===== *)
theory Feed_Fanout
  imports Feed_Pages
begin

text \<open>
  Writing time lines ahead (\<open>app/modules/feed/fanout.py\<close>, \<open>app/modules/interaction/service.py\<close>,
  \<open>app/flows/feed_backfill_body.py\<close>): follows with the entries that come and go with them, the job that writes new entries to
  followers from a watermark per source, and the command that goes back and fills all time lines again; what a time line may hold
  over any sequence of requests, and what the command reaches.
\<close>

section \<open>Writing ahead\<close>

text \<open>One row of an \<open>INSERT ... ON CONFLICT ON CONSTRAINT uq_feed_item DO NOTHING\<close>.\<close>

definition feed_row :: "uuid \<Rightarrow> uuid \<Rightarrow> uuid option \<Rightarrow> entry \<Rightarrow> feed_item" where
  "feed_row k user_id author e =
     \<lparr>fi_id = k, fi_user_id = user_id, fi_item_type = en_type e, fi_source_id = en_id e, fi_author_id = author,
      fi_board_id = en_board e, fi_title = en_title e, fi_content_preview = en_preview e, fi_url = en_url e,
      fi_created_at = en_time e\<rparr>"

definition insert_feed_row :: "feed_item \<Rightarrow> feed_item list \<Rightarrow> exc + feed_item list" where
  "insert_feed_row f rows =
     (if list_ex (\<lambda>g. fi_user_id g = fi_user_id f \<and> fi_item_type g = fi_item_type f \<and> fi_source_id g = fi_source_id f) rows
      then Inr rows
      else if list_ex (\<lambda>g. fi_id g = fi_id f) rows then Inl (IntegrityError True None) else Inr (rows @ [f]))"

fun add_feed_rows :: "(uuid \<times> uuid option \<times> entry) list \<Rightarrow> ('s forum_db_scheme, unit) act" where
  "add_feed_rows [] s = (Inr (), s)"
| "add_feed_rows ((user_id, author, e) # vs) s =
     (let (k, s) = fresh_pk s
      in case insert_feed_row (feed_row k user_id author e) (feed_items s) of
           Inl x \<Rightarrow> (Inl x, s)
         | Inr rows \<Rightarrow> add_feed_rows vs (s\<lparr>feed_items := rows\<rparr>))"

text \<open>One follower more than the cap is enough to see that it is passed; then nobody is written to on that side.\<close>

definition audience :: "nat \<Rightarrow> uuid option \<Rightarrow> follow list \<Rightarrow> uuid list" where
  "audience cap j rows =
     (let us = (case j of None \<Rightarrow> [] | Some j \<Rightarrow> remdups (followers_of j (Suc cap) rows))
      in if cap < length us then [] else us)"

definition fanout_item :: "nat \<Rightarrow> entry \<Rightarrow> ('s forum_db_scheme, nat) act" where
  "fanout_item cap e s =
     (let us = sort (remdups (audience cap (en_author e) (user_follows s) @ audience cap (en_board e) (board_follows s)))
      in if us = [] then (Inr 0, s)
         else bindA (add_feed_rows (map (\<lambda>u. (u, en_author e, e)) us)) (\<lambda>_. retA (length us)) s)"

fun fanout_items :: "nat \<Rightarrow> entry list \<Rightarrow> ('s forum_db_scheme, unit) act" where
  "fanout_items cap [] = retA ()"
| "fanout_items cap (e # es) = bindA (fanout_item cap e) (\<lambda>_. fanout_items cap es)"

text \<open>A source that was never looked at starts now.\<close>

definition load_state :: "string \<Rightarrow> ('s forum_db_scheme, fanout_state) act" where
  "load_state name s =
     (case find (\<lambda>w. fs_source w = name) (feed_fanout_state s) of
        Some w \<Rightarrow> (Inr w, s)
      | None \<Rightarrow> let w = \<lparr>fs_source = name, fs_last_created_at = now s, fs_last_id = None\<rparr>
                in (Inr w, s\<lparr>feed_fanout_state := feed_fanout_state s @ [w]\<rparr>))"

definition move_state :: "string \<Rightarrow> entry \<Rightarrow> 's forum_db_scheme \<Rightarrow> 's forum_db_scheme" where
  "move_state name e s =
     s\<lparr>feed_fanout_state := map (\<lambda>w. if fs_source w = name then w\<lparr>fs_last_created_at := en_time e, fs_last_id := Some (en_id e)\<rparr>
       else w) (feed_fanout_state s)\<rparr>"

definition fanout_source :: "(string \<Rightarrow> entry list) \<Rightarrow> nat \<Rightarrow> nat \<Rightarrow> string \<Rightarrow> ('s forum_db_scheme, nat) act" where
  "fanout_source others cap per_source_limit name =
     bindA (load_state name) (\<lambda>w.
     bindA (getA (fetch_after others name (fs_last_created_at w) (fs_last_id w) per_source_limit)) (\<lambda>items.
     if items = [] then retA 0
     else seqA (fanout_items cap items) (seqA (modA (move_state name (last items))) (retA (length items)))))"

fun fanout_sources :: "(string \<Rightarrow> entry list) \<Rightarrow> nat \<Rightarrow> nat \<Rightarrow> string list \<Rightarrow> ('s forum_db_scheme, nat) act" where
  "fanout_sources others cap n [] = retA 0"
| "fanout_sources others cap n (name # names) =
     bindA (fanout_source others cap n name) (\<lambda>i. bindA (fanout_sources others cap n names) (\<lambda>j. retA (i + j)))"

definition fanout_batch :: "(string \<Rightarrow> entry list) \<Rightarrow> nat \<Rightarrow> nat \<Rightarrow> ('s forum_db_scheme, nat) act" where
  "fanout_batch others cap per_source_limit = fanout_sources others cap per_source_limit FOLLOW_SOURCES"

text \<open>The authors over the cap are read from a cache that may be a minute old, so they are an argument.\<close>

definition backfill_author ::
    "(string \<Rightarrow> entry list) \<Rightarrow> uuid list \<Rightarrow> uuid \<Rightarrow> uuid \<Rightarrow> nat \<Rightarrow> ('s forum_db_scheme, nat) act" where
  "backfill_author others bigv follower_id author_id limit s =
     (if author_id \<in> set bigv then (Inr 0, s)
      else
        let values = concat (map (\<lambda>name. map (\<lambda>e. (follower_id, Some (or_old (en_author e) author_id), e))
                       (fetch_source others name (Some [author_id]) [] None limit s)) FOLLOW_SOURCES)
        in bindA (add_feed_rows values) (\<lambda>_. retA (length values)) s)"

definition backfill_board :: "(string \<Rightarrow> entry list) \<Rightarrow> uuid \<Rightarrow> uuid \<Rightarrow> nat \<Rightarrow> ('s forum_db_scheme, nat) act" where
  "backfill_board others follower_id board_id limit s =
     (let items = fetch_source others ''discussion'' (Some []) [board_id] None limit s
      in bindA (add_feed_rows (map (\<lambda>e. (follower_id, en_author e, e)) items)) (\<lambda>_. retA (length items)) s)"

definition remove_author_items :: "uuid \<Rightarrow> uuid \<Rightarrow> uuid list \<Rightarrow> 's forum_db_scheme \<Rightarrow> 's forum_db_scheme" where
  "remove_author_items follower_id author_id keep_boards s =
     s\<lparr>feed_items := filter (\<lambda>f. \<not> (fi_user_id f = follower_id \<and> fi_author_id f = Some author_id
         \<and> (case fi_board_id f of None \<Rightarrow> True | Some b \<Rightarrow> b \<notin> set keep_boards))) (feed_items s)\<rparr>"

definition remove_board_items :: "uuid \<Rightarrow> uuid \<Rightarrow> uuid list \<Rightarrow> 's forum_db_scheme \<Rightarrow> 's forum_db_scheme" where
  "remove_board_items follower_id board_id keep_authors s =
     s\<lparr>feed_items := filter (\<lambda>f. \<not> (fi_user_id f = follower_id \<and> fi_board_id f = Some board_id
         \<and> (case fi_author_id f of None \<Rightarrow> True | Some a \<Rightarrow> a \<notin> set keep_authors))) (feed_items s)\<rparr>"

definition count_materialized :: "uuid \<Rightarrow> 's forum_db_scheme \<Rightarrow> nat" where
  "count_materialized user_id s = length (filter (\<lambda>f. fi_user_id f = user_id) (feed_items s))"

section \<open>Following\<close>

definition add_user_follow :: "uuid \<Rightarrow> uuid \<Rightarrow> ('s forum_db_scheme, bool) act" where
  "add_user_follow i j s =
     (let (k, s) = (if get_pair i j (user_follows s) = None then fresh_pk s else (0, s))
      in case follow_rows k i j (now s) (user_follows s) of
           Inl x \<Rightarrow> (Inl x, s)
         | Inr (created, rows) \<Rightarrow> (Inr created, s\<lparr>user_follows := rows\<rparr>))"

definition add_board_follow :: "uuid \<Rightarrow> uuid \<Rightarrow> ('s forum_db_scheme, bool) act" where
  "add_board_follow i j s =
     (let (k, s) = (if get_pair i j (board_follows s) = None then fresh_pk s else (0, s))
      in case follow_rows k i j (now s) (board_follows s) of
           Inl x \<Rightarrow> (Inl x, s)
         | Inr (created, rows) \<Rightarrow> (Inr created, s\<lparr>board_follows := rows\<rparr>))"

definition invalidate_follow_cache :: "uuid \<Rightarrow> ('s core_db_scheme, unit) act" where
  "invalidate_follow_cache i =
     seqA (emitA (Invalidate ''follow:following'' [uuid_str i])) (emitA (Invalidate ''follow:boards'' [uuid_str i]))"

definition follow_user ::
    "(string \<Rightarrow> entry list) \<Rightarrow> uuid list \<Rightarrow> nat \<Rightarrow> uuid \<Rightarrow> uuid \<Rightarrow> ('s forum_db_scheme, unit) act" where
  "follow_user others bigv limit i j =
     seqA (guardA (i \<noteq> j) (BizError (FollowErr follow_err.CANNOT_FOLLOW_SELF)))
    (bindA (getA (\<lambda>s. display_name_of s j)) (\<lambda>target.
     seqA (guardA (target \<noteq> None) (BizError (FollowErr follow_err.TARGET_NOT_FOUND)))
    (bindA (add_user_follow i j) (\<lambda>created.
     seqA (if created \<and> 0 < limit then bindA (backfill_author others bigv i j limit) (\<lambda>_. retA ()) else retA ())
     (invalidate_follow_cache i)))))"

definition unfollow_user :: "uuid \<Rightarrow> uuid \<Rightarrow> ('s forum_db_scheme, unit) act" where
  "unfollow_user i j =
     seqA (guardA (i \<noteq> j) (BizError (FollowErr follow_err.CANNOT_FOLLOW_SELF)))
    (bindA (getA (\<lambda>s. unfollow_rows i j (now s) (user_follows s))) (\<lambda>(changed, rows).
     if \<not> changed then retA ()
     else
       seqA (modA (\<lambda>s. s\<lparr>user_follows := rows\<rparr>))
      (seqA (modA (\<lambda>s. remove_author_items i j (get_followed_board_ids i s) s))
      (invalidate_follow_cache i))))"

definition follow_board :: "(string \<Rightarrow> entry list) \<Rightarrow> nat \<Rightarrow> uuid \<Rightarrow> uuid \<Rightarrow> ('s forum_db_scheme, unit) act" where
  "follow_board others limit i j =
     bindA (getA (board_by_id j)) (\<lambda>target.
     seqA (guardA (target \<noteq> None) (BizError (FollowErr follow_err.TARGET_NOT_FOUND)))
    (bindA (add_board_follow i j) (\<lambda>created.
     seqA (if created \<and> 0 < limit then bindA (backfill_board others i j limit) (\<lambda>_. retA ()) else retA ())
     (invalidate_follow_cache i))))"

definition unfollow_board :: "uuid \<Rightarrow> uuid \<Rightarrow> ('s forum_db_scheme, unit) act" where
  "unfollow_board i j =
     bindA (getA (\<lambda>s. unfollow_rows i j (now s) (board_follows s))) (\<lambda>(changed, rows).
     if \<not> changed then retA ()
     else
       seqA (modA (\<lambda>s. s\<lparr>board_follows := rows\<rparr>))
      (seqA (modA (\<lambda>s. remove_board_items i j (get_following_ids i s) s))
      (invalidate_follow_cache i)))"

section \<open>Filling the time lines again\<close>

definition EARLIEST :: instant where
  "EARLIEST = 0"

text \<open>The time to start from, where the text given is one: none is the earliest.\<close>

definition rewind_watermarks :: "instant \<Rightarrow> 's forum_db_scheme \<Rightarrow> 's forum_db_scheme" where
  "rewind_watermarks since s =
     (let missing = filter (\<lambda>name. \<not> list_ex (\<lambda>w. fs_source w = name) (feed_fanout_state s)) FOLLOW_SOURCES
      in s\<lparr>feed_fanout_state :=
             map (\<lambda>w. if fs_source w \<in> set FOLLOW_SOURCES then w\<lparr>fs_last_created_at := since, fs_last_id := None\<rparr> else w)
               (feed_fanout_state s)
             @ map (\<lambda>name. \<lparr>fs_source = name, fs_last_created_at = since, fs_last_id = None\<rparr>) missing\<rparr>)"

text \<open>\<open>None\<close> would be a loop that does not end.  What is written and how many batches there were.\<close>

partial_function (option) backfill_loop ::
    "(string \<Rightarrow> entry list) \<Rightarrow> nat \<Rightarrow> nat \<Rightarrow> nat option \<Rightarrow> nat \<Rightarrow> nat \<Rightarrow> 's forum_db_scheme
      \<Rightarrow> ((exc + nat \<times> nat) \<times> 's forum_db_scheme) option" where
  "backfill_loop others cap per max_batches written batches s =
     (case fanout_batch others cap per s of
        (Inl x, s') \<Rightarrow> Some (Inl x, s')
      | (Inr n, s') \<Rightarrow>
          if n = 0 then Some (Inr (written, batches), s')
          else if max_batches \<noteq> None \<and> the max_batches \<le> Suc batches then Some (Inr (written + n, Suc batches), s')
          else backfill_loop others cap per max_batches (written + n) (Suc batches) s')"

text \<open>
  A session of its own is closed without a commit, which takes back what was written; one that was handed over is left as it is.
\<close>

definition backfill_size :: "int option \<Rightarrow> int" where
  "backfill_size batch_size = (case batch_size of None \<Rightarrow> 500 | Some n \<Rightarrow> if n = 0 then 500 else n)"

definition backfill_feed ::
    "(string \<Rightarrow> entry list) \<Rightarrow> nat \<Rightarrow> bool \<Rightarrow> instant option \<Rightarrow> int option \<Rightarrow> nat option \<Rightarrow> 's forum_db_scheme
      \<Rightarrow> ((exc + nat \<times> nat) \<times> 's forum_db_scheme) option" where
  "backfill_feed others cap owned since batch_size max_batches s =
     (if backfill_size batch_size \<le> 0 then Some (Inl ValueError, s)
      else map_option (\<lambda>(r, s'). (r, if owned then forum_roll_back s s' else s'))
             (backfill_loop others cap (nat (backfill_size batch_size)) max_batches 0 0 (rewind_watermarks (or_old since EARLIEST) s)))"

section \<open>The requests\<close>

datatype feed_request =
    Follow_user "uuid list" uuid uuid
  | Unfollow_user uuid uuid
  | Follow_board uuid uuid
  | Unfollow_board uuid uuid
  | Fanout_job nat
  | Forum forum_request

fun feed_work ::
    "(string \<Rightarrow> entry list) \<Rightarrow> nat \<Rightarrow> nat \<Rightarrow> 'r rbac_db_scheme \<Rightarrow> feed_request \<Rightarrow> ('s forum_db_scheme, unit) act" where
  "feed_work others cap limit rb (Follow_user bigv i j) = follow_user others bigv limit i j"
| "feed_work others cap limit rb (Unfollow_user i j) = unfollow_user i j"
| "feed_work others cap limit rb (Follow_board i j) = follow_board others limit i j"
| "feed_work others cap limit rb (Unfollow_board i j) = unfollow_board i j"
| "feed_work others cap limit rb (Fanout_job n) = ignoreA (fanout_batch others cap n)"
| "feed_work others cap limit rb (Forum r) = forum_work rb r"

text \<open>Each request may see other rows of the tables that are not modelled.\<close>

definition feed_handle ::
    "(string \<times> errcode) list \<Rightarrow> nat \<Rightarrow> nat \<Rightarrow> 'r rbac_db_scheme \<Rightarrow> (string \<Rightarrow> entry list) \<times> feed_request \<Rightarrow> 's forum_db_scheme
      \<Rightarrow> 's forum_db_scheme" where
  "feed_handle reg cap limit rb x s = snd (forum_session reg (feed_work (fst x) cap limit rb (snd x)) s)"

fun feed_run ::
    "(string \<times> errcode) list \<Rightarrow> nat \<Rightarrow> nat \<Rightarrow> 'r rbac_db_scheme \<Rightarrow> ((string \<Rightarrow> entry list) \<times> feed_request) list \<Rightarrow> 's forum_db_scheme
      \<Rightarrow> 's forum_db_scheme" where
  "feed_run reg cap limit rb [] s = s"
| "feed_run reg cap limit rb (x # xs) s = feed_run reg cap limit rb xs (feed_handle reg cap limit rb x s)"

section \<open>What a time line may hold\<close>

text \<open>
  Every row is by an author whom its reader follows, or of a board that he follows; and no two rows of a reader show the same thing.
\<close>

definition follows_now :: "follow list \<Rightarrow> (uuid \<times> uuid) set" where
  "follows_now rows = (\<lambda>f. (fw_follower_id f, fw_target_id f)) ` {f \<in> set rows. fw_deleted_at f = None}"

definition wanted_row :: "(uuid \<times> uuid) set \<Rightarrow> (uuid \<times> uuid) set \<Rightarrow> feed_item \<Rightarrow> bool" where
  "wanted_row us bs f \<longleftrightarrow>
     (case fi_author_id f of None \<Rightarrow> False | Some a \<Rightarrow> (fi_user_id f, a) \<in> us)
     \<or> (case fi_board_id f of None \<Rightarrow> False | Some b \<Rightarrow> (fi_user_id f, b) \<in> bs)"

definition feed_key :: "feed_item \<Rightarrow> uuid \<times> string \<times> uuid" where
  "feed_key f = (fi_user_id f, fi_item_type f, fi_source_id f)"

definition feed_ok :: "'s forum_db_scheme \<Rightarrow> bool" where
  "feed_ok s \<longleftrightarrow> (\<forall>f\<in>set (feed_items s). wanted_row (follows_now (user_follows s)) (follows_now (board_follows s)) f)
     \<and> distinct (map feed_key (feed_items s))"

lemma wanted_mono: "wanted_row us bs f \<Longrightarrow> us \<subseteq> us' \<Longrightarrow> bs \<subseteq> bs' \<Longrightarrow> wanted_row us' bs' f"
  by (auto simp: wanted_row_def split: option.splits)

lemma targets_now: "j \<in> set (targets_of i rows) \<longleftrightarrow> (i, j) \<in> follows_now rows"
  by (auto simp: targets_of_def follows_now_def)

lemma followers_now: "i \<in> set (followers_of j n rows) \<Longrightarrow> (i, j) \<in> follows_now rows"
  by (auto simp: followers_of_def follows_now_def dest!: in_set_takeD)

lemma audience_now: "i \<in> set (audience cap j rows) \<Longrightarrow> \<exists>k. j = Some k \<and> (i, k) \<in> follows_now rows"
  by (auto simp: audience_def Let_def split: option.splits if_splits dest: followers_now)

lemma feed_ok_less: "feed_ok s \<Longrightarrow> feed_less s s' \<Longrightarrow> feed_ok s'"
  unfolding feed_less_def feed_ok_def by (auto simp: distinct_map inj_on_def)

text \<open>Follow rows: what a change of them does to who follows whom.\<close>

lemma follows_now_simps [simp]:
  "follows_now [] = {}" "follows_now (rows @ rows') = follows_now rows \<union> follows_now rows'"
  "follows_now (f # rows) = (if fw_deleted_at f = None then insert (fw_follower_id f, fw_target_id f) (follows_now rows) else follows_now rows)"
  by (auto simp: follows_now_def)

lemma get_pair_Cons:
  "get_pair i j (f # rows) = (if fw_follower_id f = i \<and> fw_target_id f = j then Some f else get_pair i j rows)"
  by (simp add: get_pair_def)

lemma set_deleted_Cons:
  "set_deleted i j d (f # rows)
    = (if fw_follower_id f = i \<and> fw_target_id f = j then f\<lparr>fw_deleted_at := d\<rparr> else f) # set_deleted i j d rows"
  by (simp add: set_deleted_def)

lemma set_deleted_now: "follows_now (set_deleted i j (Some t) rows) = follows_now rows - {(i, j)}"
proof (induction rows)
  case (Cons f rows)
  show ?case
    by (cases "fw_follower_id f = i \<and> fw_target_id f = j"; cases "fw_deleted_at f = None")
      (simp_all only: set_deleted_Cons Cons.IH follows_now_simps if_True if_False de_Morgan_conj, auto)
qed (simp add: set_deleted_def)

lemma set_restored_now:
  "follows_now (set_deleted i j None rows) = (if get_pair i j rows = None then follows_now rows else insert (i, j) (follows_now rows))"
proof (induction rows)
  case (Cons f rows)
  show ?case
    by (cases "fw_follower_id f = i \<and> fw_target_id f = j"; cases "fw_deleted_at f = None")
      (simp_all only: set_deleted_Cons get_pair_Cons Cons.IH follows_now_simps if_True if_False de_Morgan_conj, auto)
qed (simp add: set_deleted_def get_pair_def)

lemma follow_rows_now:
  assumes "follow_rows k i j t rows = Inr (created, rows')"
  shows "follows_now rows' = insert (i, j) (follows_now rows)"
proof (cases "get_pair i j rows")
  case None
  then have "rows' = rows @ [new_follow k i j t]" using assms by (auto simp: follow_rows_def split: if_splits)
  then show ?thesis by (simp add: new_follow_def)
next
  case (Some f)
  show ?thesis
  proof (cases "fw_deleted_at f = None")
    case True
    have "(i, j) \<in> follows_now rows" using Some True by (induction rows) (auto simp: get_pair_def split: if_splits)
    with True show ?thesis using assms Some by (auto simp: follow_rows_def)
  next
    case False
    then have "rows' = set_deleted i j None rows" using assms Some by (simp add: follow_rows_def)
    then show ?thesis using Some by (simp add: set_restored_now)
  qed
qed

lemma unfollow_rows_now:
  assumes "unfollow_rows i j t rows = (True, rows')"
  shows "follows_now rows' = follows_now rows - {(i, j)}"
proof -
  have "rows' = set_deleted i j (Some t) rows" using assms by (auto simp: unfollow_rows_def split: option.splits if_splits)
  then show ?thesis by (simp add: set_deleted_now)
qed

section \<open>Operations that keep it\<close>

text \<open>The follows stay and the time lines stay right.\<close>

definition keeps_feed :: "'s forum_db_scheme \<Rightarrow> 's forum_db_scheme \<Rightarrow> bool" where
  "keeps_feed s t \<longleftrightarrow> user_follows t = user_follows s \<and> board_follows t = board_follows s \<and> (feed_ok s \<longrightarrow> feed_ok t)"

interpretation fe: kept_relation "keeps_feed :: 's forum_db_scheme \<Rightarrow> 's forum_db_scheme \<Rightarrow> bool"
  by unfold_locales (auto simp: keeps_feed_def)

lemma keeps_feed_same:
  "user_follows t = user_follows s \<Longrightarrow> board_follows t = board_follows s \<Longrightarrow> feed_items t = feed_items s \<Longrightarrow> keeps_feed s t"
  by (simp add: keeps_feed_def feed_ok_def)

lemma insert_feed_row_ok:
  assumes "insert_feed_row f rows = Inr rows'"
  shows "rows' = (if feed_key f \<in> feed_key ` set rows then rows else rows @ [f])"
proof -
  have "feed_key f \<in> feed_key ` set rows
      \<longleftrightarrow> list_ex (\<lambda>g. fi_user_id g = fi_user_id f \<and> fi_item_type g = fi_item_type f \<and> fi_source_id g = fi_source_id f) rows"
    unfolding feed_key_def list_ex_iff image_iff by (auto, metis)
  then show ?thesis using assms by (auto simp: insert_feed_row_def split: if_splits)
qed

lemma wanted_feed_row: "wanted_row us bs (feed_row k u a e) = wanted_row us bs (feed_row 0 u a e)"
  by (cases a; cases "en_board e") (simp_all add: wanted_row_def feed_row_def)

lemma add_feed_rows_keeps:
  assumes "\<forall>(u, a, e)\<in>set vs. wanted_row (follows_now (user_follows s)) (follows_now (board_follows s)) (feed_row 0 u a e)"
  shows "keeps_feed s (snd (add_feed_rows vs s))"
  using assms
proof (induction vs arbitrary: s)
  case (Cons v vs)
  obtain u a e where v: "v = (u, a, e)" by (metis prod_cases3)
  define k where "k = pks s (pk_ix s)"
  show ?case
  proof (cases "insert_feed_row (feed_row k u a e) (feed_items s)")
    case (Inl x)
    then show ?thesis by (simp add: v fresh_pk_def k_def keeps_feed_same)
  next
    case (Inr rows)
    define t where "t = s\<lparr>pk_ix := Suc (pk_ix s), feed_items := rows\<rparr>"
    have w: "wanted_row (follows_now (user_follows s)) (follows_now (board_follows s)) (feed_row k u a e)"
      using Cons.prems v by (subst wanted_feed_row) simp
    have "feed_ok t" if "feed_ok s"
      using that w unfolding insert_feed_row_ok[OF Inr] t_def feed_ok_def by auto
    then have "keeps_feed s t" by (simp add: keeps_feed_def t_def)
    moreover have "keeps_feed t (snd (add_feed_rows vs t))"
      by (rule Cons.IH) (use Cons.prems in \<open>simp add: t_def\<close>)
    ultimately have "keeps_feed s (snd (add_feed_rows vs t))" by (rule fe.trans)
    then show ?thesis using Inr v by (simp add: fresh_pk_def k_def t_def)
  qed
qed (simp add: fe.refl)

lemma fanout_item_keeps: "act_rel keeps_feed (fanout_item cap e :: ('s forum_db_scheme, nat) act)"
proof (rule act_relI)
  fix s :: "'s forum_db_scheme"
  define us where "us = sort (remdups (audience cap (en_author e) (user_follows s) @ audience cap (en_board e) (board_follows s)))"
  have "wanted_row (follows_now (user_follows s)) (follows_now (board_follows s)) (feed_row 0 u (en_author e) e)" if "u \<in> set us" for u
    using that by (auto simp: us_def wanted_row_def feed_row_def dest!: audience_now)
  then have "keeps_feed s (snd (add_feed_rows (map (\<lambda>u. (u, en_author e, e)) us) s))" by (intro add_feed_rows_keeps) auto
  then show "keeps_feed s (snd (fanout_item cap e s))"
    by (auto simp: fanout_item_def us_def[symmetric] Let_def fe.refl bindA_def split: prod.splits sum.splits)
qed

lemma fanout_items_keeps: "act_rel keeps_feed (fanout_items cap es :: ('s forum_db_scheme, unit) act)"
proof (induction es)
  case (Cons e es)
  then show ?case unfolding fanout_items.simps by (intro fe.bind fanout_item_keeps)
qed (simp only: fanout_items.simps fe.read)

lemma fanout_source_keeps: "act_rel keeps_feed (fanout_source others cap n name :: ('s forum_db_scheme, nat) act)"
proof -
  have "act_rel keeps_feed (load_state name :: ('s forum_db_scheme, fanout_state) act)"
    by (rule act_relI) (auto simp: load_state_def Let_def keeps_feed_same split: option.splits)
  then show ?thesis unfolding fanout_source_def
    by (intro fe.bind fe.seq fe.cond fe.read fanout_items_keeps fe.mod) (auto simp: move_state_def keeps_feed_same)
qed

lemma fanout_batch_keeps: "act_rel keeps_feed (fanout_batch others cap n :: ('s forum_db_scheme, nat) act)"
proof -
  have "act_rel keeps_feed (fanout_sources others cap n names :: ('s forum_db_scheme, nat) act)" for names
  proof (induction names)
    case (Cons name names)
    then show ?case unfolding fanout_sources.simps by (intro fe.bind fanout_source_keeps fe.read)
  qed (simp only: fanout_sources.simps fe.read)
  then show ?thesis by (simp add: fanout_batch_def)
qed

lemma feed_ok_follow:
  assumes "feed_ok s" and "follows_now (user_follows s) \<subseteq> follows_now (user_follows t)"
    and "follows_now (board_follows s) \<subseteq> follows_now (board_follows t)" and "feed_items t = feed_items s"
  shows "feed_ok t"
  using assms by (auto simp: feed_ok_def intro: wanted_mono)

lemma backfill_author_keeps:
  assumes "(i, j) \<in> follows_now (user_follows s)"
  shows "keeps_feed s (snd (backfill_author others bigv i j limit s))"
proof -
  define vs where "vs = concat (map (\<lambda>name. map (\<lambda>e. (i, Some (or_old (en_author e) j), e))
                       (fetch_source others name (Some [j]) [] None limit s)) FOLLOW_SOURCES)"
  have "or_old (en_author e) j = j" if e: "e \<in> set (fetch_source others name (Some [j]) [] None limit s)" and n: "name \<in> set FOLLOW_SOURCES"
    for e name
  proof -
    have "wanted name (Some [j]) [] e" using e by (auto simp: fetch_source_alt dest!: in_set_takeD)
    moreover have "name \<noteq> ''article''" using n by (auto simp: FOLLOW_SOURCES_def)
    ultimately show ?thesis by (auto simp: wanted_def or_old_def split: option.splits)
  qed
  then have "\<forall>(u, a, e)\<in>set vs. wanted_row (follows_now (user_follows s)) (follows_now (board_follows s)) (feed_row 0 u a e)"
    using assms by (auto simp: vs_def wanted_row_def feed_row_def)
  from add_feed_rows_keeps[OF this] show ?thesis
    by (auto simp: backfill_author_def vs_def[symmetric] Let_def fe.refl bindA_def split: prod.splits sum.splits)
qed

lemma backfill_board_keeps:
  assumes "(i, j) \<in> follows_now (board_follows s)"
  shows "keeps_feed s (snd (backfill_board others i j limit s))"
proof -
  define items where "items = fetch_source others ''discussion'' (Some []) [j] None limit s"
  have "en_board e = Some j" if "e \<in> set items" for e
  proof -
    have "wanted ''discussion'' (Some []) [j] e" using that by (auto simp: items_def fetch_source_alt dest!: in_set_takeD)
    then show ?thesis by (auto simp: wanted_def split: option.splits)
  qed
  then have "\<forall>(u, a, e)\<in>set (map (\<lambda>e. (i, en_author e, e)) items).
      wanted_row (follows_now (user_follows s)) (follows_now (board_follows s)) (feed_row 0 u a e)"
    using assms by (auto simp: wanted_row_def feed_row_def)
  from add_feed_rows_keeps[OF this] show ?thesis
    by (auto simp: backfill_board_def items_def[symmetric] Let_def fe.refl bindA_def split: prod.splits sum.splits)
qed

text \<open>What returns leaves the time lines right.\<close>

definition feed_safe :: "('s forum_db_scheme, 'a) act \<Rightarrow> bool" where
  "feed_safe m \<longleftrightarrow> (\<forall>s a t. feed_ok s \<longrightarrow> m s = (Inr a, t) \<longrightarrow> feed_ok t)"

lemma feed_safe_keeps: "act_rel keeps_feed m \<Longrightarrow> feed_safe m"
  by (auto simp: act_rel_def feed_safe_def keeps_feed_def)

lemma invalidate_keeps: "act_rel keeps_feed (invalidate_follow_cache i :: ('s forum_db_scheme, unit) act)"
  unfolding invalidate_follow_cache_def emitA_def by (intro fe.seq fe.mod) (simp_all add: keeps_feed_same emit_fx_def)

lemma add_user_follow_effect:
  assumes "add_user_follow i j s = (Inr created, t)"
  shows "follows_now (user_follows t) = insert (i, j) (follows_now (user_follows s))" "board_follows t = board_follows s"
    "feed_items t = feed_items s"
  using assms by (auto simp: add_user_follow_def fresh_pk_def Let_def split: sum.splits if_splits dest: follow_rows_now)

lemma add_board_follow_effect:
  assumes "add_board_follow i j s = (Inr created, t)"
  shows "follows_now (board_follows t) = insert (i, j) (follows_now (board_follows s))" "user_follows t = user_follows s"
    "feed_items t = feed_items s"
  using assms by (auto simp: add_board_follow_def fresh_pk_def Let_def split: sum.splits if_splits dest: follow_rows_now)

lemma then_invalidate:
  assumes "seqA m (invalidate_follow_cache i) s = (Inr (), t)" and "feed_ok s" and "keeps_feed s (snd (m s))"
  shows "feed_ok t"
proof -
  obtain u where m: "m s = (Inr (), u)" and i: "invalidate_follow_cache i u = (Inr (), t)" using assms(1) by (rule seqA_InrE)
  have "keeps_feed u t" using act_relD[OF invalidate_keeps i] .
  with assms(2,3) m show ?thesis by (simp add: keeps_feed_def)
qed

lemma follow_user_safe: "feed_safe (follow_user others bigv limit i j :: ('s forum_db_scheme, unit) act)"
  unfolding feed_safe_def
proof (intro allI impI)
  fix s t :: "'s forum_db_scheme" and a
  assume ok: "feed_ok s" and run: "follow_user others bigv limit i j s = (Inr a, t)"
  then obtain created s1 where f: "add_user_follow i j s = (Inr created, s1)"
    and r: "seqA (if created \<and> 0 < limit then bindA (backfill_author others bigv i j limit) (\<lambda>_. retA ()) else retA ())
      (invalidate_follow_cache i) s1 = (Inr (), t)"
    by (auto simp: follow_user_def split: if_splits)
  note e = add_user_follow_effect[OF f]
  have ok1: "feed_ok s1" by (rule feed_ok_follow[OF ok]) (use e in auto)
  have "keeps_feed s1 (snd (backfill_author others bigv i j limit s1))" by (rule backfill_author_keeps) (simp add: e)
  then show "feed_ok t" by (intro then_invalidate[OF r ok1]) (auto simp: fe.refl bindA_def split: prod.splits sum.splits)
qed

lemma follow_board_safe: "feed_safe (follow_board others limit i j :: ('s forum_db_scheme, unit) act)"
  unfolding feed_safe_def
proof (intro allI impI)
  fix s t :: "'s forum_db_scheme" and a
  assume ok: "feed_ok s" and run: "follow_board others limit i j s = (Inr a, t)"
  then obtain created s1 where f: "add_board_follow i j s = (Inr created, s1)"
    and r: "seqA (if created \<and> 0 < limit then bindA (backfill_board others i j limit) (\<lambda>_. retA ()) else retA ())
      (invalidate_follow_cache i) s1 = (Inr (), t)"
    by (auto simp: follow_board_def split: if_splits)
  note e = add_board_follow_effect[OF f]
  have ok1: "feed_ok s1" by (rule feed_ok_follow[OF ok]) (use e in auto)
  have "keeps_feed s1 (snd (backfill_board others i j limit s1))" by (rule backfill_board_keeps) (simp add: e)
  then show "feed_ok t" by (intro then_invalidate[OF r ok1]) (auto simp: fe.refl bindA_def split: prod.splits sum.splits)
qed

text \<open>Rows that were there because of the author stay if they are there because of the board, and the other way round.\<close>

lemma remove_author_ok:
  assumes "feed_ok s" and "unfollow_rows i j t (user_follows s) = (True, rows)"
  shows "feed_ok (remove_author_items i j (get_followed_board_ids i s) (s\<lparr>user_follows := rows\<rparr>))"
  using assms(1) unfolding feed_ok_def
  by (auto simp: remove_author_items_def unfollow_rows_now[OF assms(2)] get_followed_board_ids_def targets_now wanted_row_def distinct_map
      inj_on_def split: option.splits)

lemma remove_board_ok:
  assumes "feed_ok s" and "unfollow_rows i j t (board_follows s) = (True, rows)"
  shows "feed_ok (remove_board_items i j (get_following_ids i s) (s\<lparr>board_follows := rows\<rparr>))"
  using assms(1) unfolding feed_ok_def
  by (auto simp: remove_board_items_def unfollow_rows_now[OF assms(2)] get_following_ids_def targets_now wanted_row_def distinct_map
      inj_on_def split: option.splits)

lemma unfollow_user_safe: "feed_safe (unfollow_user i j :: ('s forum_db_scheme, unit) act)"
  unfolding feed_safe_def
proof (intro allI impI)
  fix s t :: "'s forum_db_scheme" and a
  assume ok: "feed_ok s" and run: "unfollow_user i j s = (Inr a, t)"
  obtain changed rows where u: "unfollow_rows i j (now s) (user_follows s) = (changed, rows)" by fastforce
  show "feed_ok t"
  proof (cases changed)
    case True
    then have "invalidate_follow_cache i (remove_author_items i j (get_followed_board_ids i s) (s\<lparr>user_follows := rows\<rparr>)) = (Inr a, t)"
      using run u by (auto simp: unfollow_user_def get_followed_board_ids_def split: if_splits)
    with act_relD[OF invalidate_keeps this] remove_author_ok[OF ok] u True show ?thesis by (simp add: keeps_feed_def)
  qed (use run u ok in \<open>auto simp: unfollow_user_def split: if_splits\<close>)
qed

lemma unfollow_board_safe: "feed_safe (unfollow_board i j :: ('s forum_db_scheme, unit) act)"
  unfolding feed_safe_def
proof (intro allI impI)
  fix s t :: "'s forum_db_scheme" and a
  assume ok: "feed_ok s" and run: "unfollow_board i j s = (Inr a, t)"
  obtain changed rows where u: "unfollow_rows i j (now s) (board_follows s) = (changed, rows)" by fastforce
  show "feed_ok t"
  proof (cases changed)
    case True
    then have "invalidate_follow_cache i (remove_board_items i j (get_following_ids i s) (s\<lparr>board_follows := rows\<rparr>)) = (Inr a, t)"
      using run u by (auto simp: unfollow_board_def get_following_ids_def split: if_splits)
    with act_relD[OF invalidate_keeps this] remove_board_ok[OF ok] u True show ?thesis by (simp add: keeps_feed_def)
  qed (use run u ok in \<open>auto simp: unfollow_board_def split: if_splits\<close>)
qed

lemma forum_work_less: "feed_safe (forum_work rb r :: ('s forum_db_scheme, unit) act)"
  unfolding feed_safe_def
proof (intro allI impI)
  fix s t :: "'s forum_db_scheme" and a
  assume "feed_ok s" "forum_work rb r s = (Inr a, t)"
  with act_relD[OF quiet_work this(2)] show "feed_ok t" by (auto simp: no_backlog_def intro: feed_ok_less)
qed

lemma feed_work_safe: "feed_safe (feed_work others cap limit rb x :: ('s forum_db_scheme, unit) act)"
proof (cases x)
  case (Fanout_job n)
  have "act_rel keeps_feed (ignoreA (fanout_batch others cap n) :: ('s forum_db_scheme, unit) act)"
    unfolding ignoreA_def by (intro fe.bind fanout_batch_keeps fe.read)
  then show ?thesis unfolding Fanout_job feed_work.simps by (rule feed_safe_keeps)
qed (simp_all add: follow_user_safe unfollow_user_safe follow_board_safe unfollow_board_safe forum_work_less)

lemma feed_ok_handle:
  assumes "feed_ok s"
  shows "feed_ok (feed_handle reg cap limit rb x s)"
proof -
  obtain r t where w: "feed_work (fst x) cap limit rb (snd x) s = (r, t)" by fastforce
  show ?thesis
  proof (cases r)
    case (Inl e)
    then show ?thesis using w assms by (simp add: feed_handle_def forum_session_def forum_roll_back_def feed_ok_def)
  next
    case (Inr a)
    have "feed_ok t" using feed_work_safe[of "fst x" cap limit rb "snd x"] assms w Inr unfolding feed_safe_def by blast
    then show ?thesis using w Inr by (simp add: feed_handle_def forum_session_def)
  qed
qed

lemma feed_ok_run: "feed_ok s \<Longrightarrow> feed_ok (feed_run reg cap limit rb xs s)"
  by (induction xs arbitrary: s) (simp_all add: feed_ok_handle)

section \<open>What the fan-out reaches\<close>

text \<open>The identifiers still to be drawn before the \<open>n\<close>-th are different and in no row.\<close>

definition rows_fresh :: "nat \<Rightarrow> 's forum_db_scheme \<Rightarrow> bool" where
  "rows_fresh n s \<longleftrightarrow> inj_on (pks s) {pk_ix s..<n} \<and> (\<forall>f\<in>set (feed_items s). fi_id f \<notin> pks s ` {pk_ix s..<n})"

text \<open>What the fan-out leaves alone, and that no row goes.\<close>

definition fanned :: "'s forum_db_scheme \<Rightarrow> 's forum_db_scheme \<Rightarrow> bool" where
  "fanned s t \<longleftrightarrow> content_items t = content_items s \<and> user_follows t = user_follows s \<and> board_follows t = board_follows s
     \<and> now t = now s \<and> (\<forall>n. rows_fresh n s \<longrightarrow> rows_fresh n t) \<and> feed_key ` set (feed_items s) \<subseteq> feed_key ` set (feed_items t)"

lemma fanned_refl [simp]: "fanned s s"
  by (simp add: fanned_def)

lemma fanned_trans: "fanned a b \<Longrightarrow> fanned b c \<Longrightarrow> fanned a c"
  unfolding fanned_def by (simp, elim conjE, erule subset_trans)

lemma add_feed_rows_reaches:
  assumes "rows_fresh n s" and "pk_ix s + length vs \<le> n"
  shows "\<exists>t. add_feed_rows vs s = (Inr (), t) \<and> fanned s t \<and> feed_fanout_state t = feed_fanout_state s
    \<and> pk_ix t = pk_ix s + length vs \<and> (\<forall>(u, a, e)\<in>set vs. (u, en_type e, en_id e) \<in> feed_key ` set (feed_items t))"
  using assms
proof (induction vs arbitrary: s)
  case (Cons v vs)
  obtain u a e where v: "v = (u, a, e)" by (metis prod_cases3)
  define f where "f = feed_row (pks s (pk_ix s)) u a e"
  have idf: "fi_id f = pks s (pk_ix s)" by (simp add: f_def feed_row_def)
  have "fi_id f \<in> pks s ` {pk_ix s..<n}" unfolding idf using Cons.prems(2) by simp
  then have "fi_id f \<notin> fi_id ` set (feed_items s)" using Cons.prems(1) unfolding rows_fresh_def by (metis imageE)
  then have "\<not> list_ex (\<lambda>g. fi_id g = fi_id f) (feed_items s)" unfolding list_ex_iff by (metis image_eqI)
  then have "\<exists>rows. insert_feed_row f (feed_items s) = Inr rows" by (simp add: insert_feed_row_def)
  then obtain rows where ins: "insert_feed_row f (feed_items s) = Inr rows" ..
  note rows = insert_feed_row_ok[OF ins]
  define s1 where "s1 = s\<lparr>pk_ix := Suc (pk_ix s), feed_items := rows\<rparr>"
  have fresh: "rows_fresh m s1" if m: "rows_fresh m s" for m
  proof -
    have "inj_on (pks s) {Suc (pk_ix s)..<m}" using m unfolding rows_fresh_def by (elim conjE inj_on_subset) auto
    moreover have "fi_id g \<notin> pks s ` {Suc (pk_ix s)..<m}" if "g \<in> set rows" for g
    proof (cases "g = f")
      case True
      have "pks s (pk_ix s) \<noteq> pks s k" if "k \<in> {Suc (pk_ix s)..<m}" for k
        using that m unfolding rows_fresh_def by (auto dest: inj_onD)
      then show ?thesis unfolding True idf by blast
    next
      case False
      then have "g \<in> set (feed_items s)" using that rows by (auto split: if_splits)
      then show ?thesis using m by (force simp: rows_fresh_def)
    qed
    ultimately show ?thesis by (simp add: rows_fresh_def s1_def)
  qed
  moreover have "feed_key f \<in> feed_key ` set rows" "feed_key ` set (feed_items s) \<subseteq> feed_key ` set rows"
    using rows by auto
  ultimately have s1: "rows_fresh n s1" "fanned s s1" "feed_key f \<in> feed_key ` set (feed_items s1)"
    using fresh[OF Cons.prems(1)] fresh by (simp_all add: fanned_def) (simp_all add: s1_def)
  have "pk_ix s1 + length vs \<le> n" using Cons.prems(2) by (simp add: s1_def)
  from Cons.IH[OF s1(1) this] obtain t where t: "add_feed_rows vs s1 = (Inr (), t)" "fanned s1 t" "feed_fanout_state t = feed_fanout_state s1"
    "pk_ix t = pk_ix s1 + length vs" "\<forall>(u, a, e)\<in>set vs. (u, en_type e, en_id e) \<in> feed_key ` set (feed_items t)" by blast
  have "(u, en_type e, en_id e) = feed_key f" by (simp add: f_def feed_row_def feed_key_def)
  then have "(u, en_type e, en_id e) \<in> feed_key ` set (feed_items t)" using s1(3) t(2) by (auto simp: fanned_def)
  moreover have "add_feed_rows (v # vs) s = (Inr (), t)"
    using ins t(1) by (simp add: v fresh_pk_def f_def s1_def)
  ultimately show ?case using t fanned_trans[OF s1(2) t(2)] by (auto simp: v s1_def)
qed simp

definition reader_of :: "nat \<Rightarrow> entry \<Rightarrow> 's forum_db_scheme \<Rightarrow> uuid \<Rightarrow> bool" where
  "reader_of cap e s u \<longleftrightarrow> u \<in> set (audience cap (en_author e) (user_follows s)) \<or> u \<in> set (audience cap (en_board e) (board_follows s))"

definition delivered :: "nat \<Rightarrow> entry \<Rightarrow> 's forum_db_scheme \<Rightarrow> bool" where
  "delivered cap e s \<longleftrightarrow> (\<forall>u. reader_of cap e s u \<longrightarrow> (u, en_type e, en_id e) \<in> feed_key ` set (feed_items s))"

lemma delivered_fanned: "delivered cap e s \<Longrightarrow> fanned s t \<Longrightarrow> delivered cap e t"
  unfolding delivered_def reader_of_def fanned_def by auto

lemma audience_cap: "length (audience cap j rows) \<le> cap"
  by (auto simp: audience_def Let_def)

lemma fanout_item_reaches:
  assumes "rows_fresh m s" and "pk_ix s + 2 * cap \<le> m"
  shows "\<exists>n t. fanout_item cap e s = (Inr n, t) \<and> fanned s t \<and> feed_fanout_state t = feed_fanout_state s \<and> delivered cap e t
    \<and> pk_ix t \<le> pk_ix s + 2 * cap"
proof -
  define us where "us = sort (remdups (audience cap (en_author e) (user_follows s) @ audience cap (en_board e) (board_follows s)))"
  have us: "u \<in> set us \<longleftrightarrow> reader_of cap e s u" for u by (auto simp: us_def reader_of_def)
  have len: "length us \<le> 2 * cap"
    using audience_cap[of cap "en_author e" "user_follows s"] audience_cap[of cap "en_board e" "board_follows s"]
      length_remdups_leq[of "audience cap (en_author e) (user_follows s) @ audience cap (en_board e) (board_follows s)"]
    unfolding us_def by simp
  show ?thesis
  proof (cases "us = []")
    case True
    then have "delivered cap e s" using us by (auto simp: delivered_def)
    with True show ?thesis by (simp add: fanout_item_def us_def[symmetric] Let_def)
  next
    case False
    obtain t where t: "add_feed_rows (map (\<lambda>u. (u, en_author e, e)) us) s = (Inr (), t)" "fanned s t"
      "feed_fanout_state t = feed_fanout_state s" "\<forall>u\<in>set us. (u, en_type e, en_id e) \<in> feed_key ` set (feed_items t)"
      "pk_ix t = pk_ix s + length us"
      using add_feed_rows_reaches[OF assms(1), of "map (\<lambda>u. (u, en_author e, e)) us"] assms(2) len by auto
    have "reader_of cap e t u \<longleftrightarrow> u \<in> set us" for u using t(2) us by (simp add: reader_of_def fanned_def)
    then have "delivered cap e t" using t(4) by (simp add: delivered_def)
    with False t len show ?thesis by (simp add: fanout_item_def us_def[symmetric] Let_def bindA_def)
  qed
qed

lemma fanout_items_reach:
  assumes "rows_fresh m s" and "pk_ix s + 2 * cap * length es \<le> m"
  shows "\<exists>t. fanout_items cap es s = (Inr (), t) \<and> fanned s t \<and> feed_fanout_state t = feed_fanout_state s
    \<and> pk_ix t \<le> pk_ix s + 2 * cap * length es
    \<and> (\<forall>e\<in>set es. delivered cap e t)"
  using assms
proof (induction es arbitrary: s)
  case (Cons e es)
  obtain n s1 where 1: "fanout_item cap e s = (Inr n, s1)" "fanned s s1" "feed_fanout_state s1 = feed_fanout_state s" "delivered cap e s1"
    "pk_ix s1 \<le> pk_ix s + 2 * cap"
    using fanout_item_reaches[OF Cons.prems(1), of cap e] Cons.prems(2) by auto
  have "rows_fresh m s1" "pk_ix s1 + 2 * cap * length es \<le> m" using 1(2,5) Cons.prems by (simp_all add: fanned_def)
  from Cons.IH[OF this] obtain t where 2: "fanout_items cap es s1 = (Inr (), t)" "fanned s1 t" "feed_fanout_state t = feed_fanout_state s1"
    "pk_ix t \<le> pk_ix s1 + 2 * cap * length es" "\<forall>e\<in>set es. delivered cap e t" by blast
  have "fanout_items cap (e # es) s = (Inr (), t)" using 1(1) 2(1) by (simp add: bindA_def)
  then show ?case using 1 2 fanned_trans[OF 1(2) 2(2)] delivered_fanned[OF 1(4) 2(2)] by auto
qed simp

text \<open>The watermark of a source; what is above it is still to be written.\<close>

definition watermark :: "string \<Rightarrow> 's forum_db_scheme \<Rightarrow> instant \<times> uuid option" where
  "watermark name s =
     (case find (\<lambda>w. fs_source w = name) (feed_fanout_state s) of
        None \<Rightarrow> (now s, None) | Some w \<Rightarrow> (fs_last_created_at w, fs_last_id w))"

definition ahead_of :: "instant \<times> uuid option \<Rightarrow> entry \<Rightarrow> bool" where
  "ahead_of w e \<longleftrightarrow> above (fst w) (snd w) e"

definition remaining :: "(string \<Rightarrow> entry list) \<Rightarrow> string \<Rightarrow> 's forum_db_scheme \<Rightarrow> entry list" where
  "remaining others name s = filter (ahead_of (watermark name s)) (source_entries others name s)"

definition keys_tell :: "(string \<Rightarrow> entry list) \<Rightarrow> 's forum_db_scheme \<Rightarrow> bool" where
  "keys_tell others s \<longleftrightarrow> (\<forall>name\<in>set FOLLOW_SOURCES. distinct (map en_key (source_entries others name s)))"

lemma source_entries_fanned: "fanned s t \<Longrightarrow> source_entries others name t = source_entries others name s"
  by (simp add: source_entries_def fanned_def)

lemma fanned_state [simp]: "fanned s (s\<lparr>feed_fanout_state := ws\<rparr>)"
  by (simp add: fanned_def rows_fresh_def)

lemma find_append: "find P (xs @ ys) = (case find P xs of None \<Rightarrow> find P ys | Some x \<Rightarrow> Some x)"
  by (induction xs) auto

lemma load_state_watermark:
  assumes "load_state name s = (Inr w, t)"
  shows "(fs_last_created_at w, fs_last_id w) = watermark name s" "watermark x t = watermark x s" "fanned s t"
    "find (\<lambda>w. fs_source w = name) (feed_fanout_state t) \<noteq> None"
  using assms by (auto simp: load_state_def watermark_def Let_def find_append split: option.splits if_splits)

lemma find_moved:
  "find (\<lambda>w. fs_source w = x) (map (\<lambda>w. if fs_source w = name then w\<lparr>fs_last_created_at := t, fs_last_id := i\<rparr> else w) ws)
    = map_option (\<lambda>w. if x = name then w\<lparr>fs_last_created_at := t, fs_last_id := i\<rparr> else w) (find (\<lambda>w. fs_source w = x) ws)"
  by (induction ws) auto

lemma move_state_watermark:
  assumes "find (\<lambda>w. fs_source w = name) (feed_fanout_state s) \<noteq> None"
  shows "watermark x (move_state name e s) = (if x = name then (en_time e, Some (en_id e)) else watermark x s)" "fanned s (move_state name e s)"
proof -
  show "watermark x (move_state name e s) = (if x = name then (en_time e, Some (en_id e)) else watermark x s)"
    using assms by (cases "find (\<lambda>w. fs_source w = x) (feed_fanout_state s)") (auto simp: watermark_def move_state_def find_moved)
  show "fanned s (move_state name e s)" by (simp add: move_state_def)
qed

text \<open>What a batch takes are the oldest; the last of them parts what was written from what remains.\<close>

lemma batch_parts:
  assumes "distinct (map en_key es)" and b: "b = take n (sort_key en_key (filter P es))" and "b \<noteq> []"
    and up: "\<forall>e f. P e \<longrightarrow> en_key e < en_key f \<longrightarrow> P f"
  shows "filter P es \<noteq> []" "set b \<subseteq> set (filter P es)"
    and "e \<in> set (filter P es) \<Longrightarrow> e \<in> set b \<or> en_key (last b) < en_key e"
    and "length (filter (\<lambda>e. en_key (last b) < en_key e) es) + length b = length (filter P es)"
proof -
  define fs where "fs = sort_key en_key (filter P es)"
  show "filter P es \<noteq> []" using assms(2,3) by auto
  show "set b \<subseteq> set (filter P es)" using set_take_subset[of n fs] by (simp add: b fs_def)
  have "distinct (map en_key (filter P es))" using assms(1) by (simp add: distinct_map inj_on_def)
  then have d: "distinct (map en_key fs)"
    unfolding fs_def by (metis distinct_map distinct_sort set_sort)
  have "sorted (map en_key fs)" by (simp add: fs_def)
  with d have s: "sorted_wrt (<) (map en_key fs)" by (simp add: strict_sorted_iff)
  have parts: "fs = b @ drop n fs" by (simp add: b fs_def)
  have lb: "last b \<in> set b" using assms(3) by simp
  have "sorted_wrt (<) (map en_key b @ map en_key (drop n fs))" using s parts by (metis map_append)
  then have gt: "en_key (last b) < en_key e" if "e \<in> set (drop n fs)" for e
    using that lb by (auto simp: sorted_wrt_append)
  have le: "\<not> en_key (last b) < en_key e" if "e \<in> set b" for e
  proof -
    have "sorted (map en_key b)" using \<open>sorted (map en_key fs)\<close> parts by (metis map_append sorted_append)
    then have "en_key e \<le> en_key (last b)" using that assms(3) by (induction b) (auto split: if_splits)
    then show ?thesis by simp
  qed
  show "e \<in> set (filter P es) \<Longrightarrow> e \<in> set b \<or> en_key (last b) < en_key e"
    using gt arg_cong[OF parts, of set] by (auto simp: fs_def)
  have "P (last b)" using lb \<open>set b \<subseteq> set (filter P es)\<close> by auto
  then have "filter (\<lambda>e. en_key (last b) < en_key e) es = filter (\<lambda>e. en_key (last b) < en_key e) (filter P es)"
    using up by (auto simp: filter_filter intro!: filter_cong)
  then have "length (filter (\<lambda>e. en_key (last b) < en_key e) es) = length (filter (\<lambda>e. en_key (last b) < en_key e) fs)"
    unfolding fs_def by (metis filter_sort length_sort)
  also have "filter (\<lambda>e. en_key (last b) < en_key e) fs = drop n fs"
  proof -
    have "filter (\<lambda>e. en_key (last b) < en_key e) b = []" using le by (auto simp: filter_empty_conv)
    moreover have "filter (\<lambda>e. en_key (last b) < en_key e) (drop n fs) = drop n fs" using gt by (simp add: filter_True)
    ultimately show ?thesis using arg_cong[OF parts, of "filter (\<lambda>e. en_key (last b) < en_key e)"] by simp
  qed
  finally have "length (filter (\<lambda>e. en_key (last b) < en_key e) es) = length (drop n fs)" .
  moreover have "length b + length (drop n fs) = length fs" using arg_cong[OF parts, of length] by (simp only: length_append)
  ultimately have "length (filter (\<lambda>e. en_key (last b) < en_key e) es) + length b = length fs" by linarith
  then show "length (filter (\<lambda>e. en_key (last b) < en_key e) es) + length b = length (filter P es)" by (simp add: fs_def)
qed

lemma ahead_up: "\<forall>e f. ahead_of w e \<longrightarrow> en_key e < en_key f \<longrightarrow> ahead_of w f"
  by (auto simp: ahead_of_def above_def en_key_def split: option.splits)

lemma remaining_same: "watermark x t = watermark x s \<Longrightarrow> fanned s t \<Longrightarrow> remaining others x t = remaining others x s"
  by (simp add: remaining_def source_entries_fanned)

lemma fanout_source_reaches:
  assumes fresh: "rows_fresh m s" and room: "pk_ix s + 2 * cap * length (remaining others name s) \<le> m" and d: "distinct (map en_key (source_entries others name s))" and per: "0 < per"
  shows "\<exists>n t. fanout_source others cap per name s = (Inr n, t) \<and> fanned s t \<and> pk_ix t \<le> pk_ix s + 2 * cap * n \<and> (\<forall>x. x \<noteq> name \<longrightarrow> watermark x t = watermark x s)
    \<and> (n = 0 \<longrightarrow> remaining others name s = []) \<and> length (remaining others name t) + n = length (remaining others name s)
    \<and> (\<forall>e\<in>set (remaining others name s). e \<in> set (remaining others name t) \<or> delivered cap e t)"
proof -
  have "\<exists>w s1. load_state name s = (Inr w, s1)"
    by (cases "find (\<lambda>w. fs_source w = name) (feed_fanout_state s)") (simp_all add: load_state_def Let_def)
  then obtain w s1 where w: "load_state name s = (Inr w, s1)" by blast
  note lw = load_state_watermark[OF w]
  define es where "es = source_entries others name s"
  define b where "b = take per (sort_key en_key (filter (ahead_of (watermark name s)) es))"
  have fetch: "fetch_after others name (fs_last_created_at w) (fs_last_id w) per s1 = b"
    by (simp add: fetch_after_def b_def es_def source_entries_fanned[OF lw(3)] ahead_of_def[abs_def] lw(1)[symmetric])
  have rem: "remaining others name s = filter (ahead_of (watermark name s)) es" by (simp add: remaining_def es_def)
  show ?thesis
  proof (cases "b = []")
    case True
    then have "remaining others name s = []" using per unfolding b_def rem
      by (metis less_nat_zero_code set_empty set_sort take_eq_Nil)
    moreover have "pk_ix s1 = pk_ix s" using w by (auto simp: load_state_def Let_def split: option.splits)
    moreover have "fanout_source others cap per name s = (Inr 0, s1)"
      by (simp add: fanout_source_def bindA_def w fetch True)
    ultimately show ?thesis using lw remaining_same[OF lw(2,3)] by auto
  next
    case False
    note bp = batch_parts[OF d[folded es_def] b_def False ahead_up]
    have "length b \<le> length (remaining others name s)" using bp(4) by (simp add: rem)
    then have "2 * cap * length b \<le> 2 * cap * length (remaining others name s)" by (rule mult_le_mono2)
    then have "pk_ix s + 2 * cap * length b \<le> m" using room by linarith
    moreover have ix: "pk_ix s1 = pk_ix s" using w by (auto simp: load_state_def Let_def split: option.splits)
    ultimately have "rows_fresh m s1" "pk_ix s1 + 2 * cap * length b \<le> m" using fresh lw(3) room by (simp_all add: fanned_def)
    from fanout_items_reach[OF this] obtain s2 where s2: "fanout_items cap b s1 = (Inr (), s2)" "fanned s1 s2"
      "feed_fanout_state s2 = feed_fanout_state s1" "\<forall>e\<in>set b. delivered cap e s2" "pk_ix s2 \<le> pk_ix s1 + 2 * cap * length b" by blast
    define t where "t = move_state name (last b) s2"
    have known: "find (\<lambda>w. fs_source w = name) (feed_fanout_state s2) \<noteq> None" using lw(4) s2(3) by simp
    note mw = move_state_watermark[OF known]
    have run: "fanout_source others cap per name s = (Inr (length b), t)"
      using False by (simp add: fanout_source_def bindA_def w fetch s2(1) t_def)
    have ft: "fanned s t" unfolding t_def by (rule fanned_trans[OF lw(3) fanned_trans[OF s2(2) mw(2)]])
    have w2: "watermark x s2 = watermark x s" for x
    proof -
      have "watermark x s2 = watermark x s1" using s2(2,3) by (simp add: watermark_def fanned_def cong: option.case_cong)
      then show ?thesis using lw(2)[of x] by simp
    qed
    have wt: "watermark x t = (if x = name then (en_time (last b), Some (en_id (last b))) else watermark x s)" for x
      unfolding t_def mw(1) w2 ..
    have remt: "remaining others name t = filter (\<lambda>e. en_key (last b) < en_key e) es"
      unfolding remaining_def source_entries_fanned[OF ft] es_def[symmetric] wt
      by (intro filter_cong) (simp_all add: ahead_of_def above_def en_key_def)
    have "e \<in> set (remaining others name t) \<or> delivered cap e t" if "e \<in> set (remaining others name s)" for e
    proof -
      have "e \<in> set b \<or> en_key (last b) < en_key e" using bp(3) that unfolding rem by blast
      moreover have "e \<in> set es" using that by (simp add: rem)
      moreover have "delivered cap e t" if "e \<in> set b" using s2(4) that delivered_fanned mw(2) unfolding t_def by blast
      ultimately show ?thesis unfolding remt by auto
    qed
    moreover have "length (remaining others name t) + length b = length (remaining others name s)" using bp(4) by (simp add: remt rem)
    moreover have "pk_ix t \<le> pk_ix s + 2 * cap * length b" using s2(5) ix by (simp add: t_def move_state_def)
    ultimately show ?thesis using run ft wt False by auto
  qed
qed

definition total_remaining :: "(string \<Rightarrow> entry list) \<Rightarrow> string list \<Rightarrow> 's forum_db_scheme \<Rightarrow> nat" where
  "total_remaining others names s = sum_list (map (\<lambda>x. length (remaining others x s)) names)"

lemma fanout_sources_reach:
  assumes "rows_fresh k s" and "pk_ix s + 2 * cap * total_remaining others names s \<le> k" and "\<forall>x\<in>set names. distinct (map en_key (source_entries others x s))" and "0 < per" and "distinct names"
  shows "\<exists>n t. fanout_sources others cap per names s = (Inr n, t) \<and> fanned s t \<and> pk_ix t \<le> pk_ix s + 2 * cap * n
    \<and> (\<forall>x. x \<notin> set names \<longrightarrow> watermark x t = watermark x s)
    \<and> (n = 0 \<longrightarrow> (\<forall>x\<in>set names. remaining others x s = []))
    \<and> total_remaining others names t + n = total_remaining others names s
    \<and> (\<forall>x\<in>set names. \<forall>e\<in>set (remaining others x s). e \<in> set (remaining others x t) \<or> delivered cap e t)"
  using assms
proof (induction names arbitrary: s)
  case (Cons name names)
  note prems = Cons.prems
  have sum: "total_remaining others (name # names) s = length (remaining others name s) + total_remaining others names s"
    by (simp add: total_remaining_def)
  have "pk_ix s + 2 * cap * length (remaining others name s) \<le> k" using prems(2) unfolding sum by (simp add: distrib_left)
  then obtain n s1 where 1: "fanout_source others cap per name s = (Inr n, s1)" "fanned s s1" "\<forall>x. x \<noteq> name \<longrightarrow> watermark x s1 = watermark x s"
    "n = 0 \<longrightarrow> remaining others name s = []" "length (remaining others name s1) + n = length (remaining others name s)"
    "\<forall>e\<in>set (remaining others name s). e \<in> set (remaining others name s1) \<or> delivered cap e s1" "pk_ix s1 \<le> pk_ix s + 2 * cap * n"
    using fanout_source_reaches[OF prems(1), of cap others name per] prems(3,4) by auto
  have fresh: "rows_fresh k s1" using 1(2) prems(1) by (simp add: fanned_def)
  have keys: "\<forall>x\<in>set names. distinct (map en_key (source_entries others x s1))"
    using prems(3) source_entries_fanned[OF 1(2)] by simp
  have dist: "distinct names" "name \<notin> set names" using prems(5) by simp_all
  have same: "remaining others x s1 = remaining others x s" if "x \<in> set names" for x
    by (rule remaining_same[OF _ 1(2)]) (use 1(3) that dist(2) in auto)
  have tot: "total_remaining others names s1 = total_remaining others names s"
    using same by (simp add: total_remaining_def cong: map_cong)
  have "n \<le> length (remaining others name s)" using 1(5) by simp
  then have "2 * cap * n \<le> 2 * cap * length (remaining others name s)" by (rule mult_le_mono2)
  then have room: "pk_ix s1 + 2 * cap * total_remaining others names s1 \<le> k"
    using prems(2) 1(7) unfolding sum tot distrib_left by linarith
  obtain m t where 2: "fanout_sources others cap per names s1 = (Inr m, t)" "fanned s1 t" "\<forall>x. x \<notin> set names \<longrightarrow> watermark x t = watermark x s1"
    "m = 0 \<longrightarrow> (\<forall>x\<in>set names. remaining others x s1 = [])" "total_remaining others names t + m = total_remaining others names s1"
    "\<forall>x\<in>set names. \<forall>e\<in>set (remaining others x s1). e \<in> set (remaining others x t) \<or> delivered cap e t"
    "pk_ix t \<le> pk_ix s1 + 2 * cap * m"
    using Cons.IH[OF fresh room keys prems(4) dist(1)] by auto
  have same_t: "remaining others name t = remaining others name s1"
    by (rule remaining_same[OF _ 2(2)]) (use 2(3) dist(2) in auto)
  have "fanout_sources others cap per (name # names) s = (Inr (n + m), t)" using 1(1) 2(1) by (simp add: bindA_def)
  moreover have "total_remaining others (name # names) t + (n + m) = total_remaining others (name # names) s"
    using 1(5) 2(5) tot same_t by (simp add: total_remaining_def)
  moreover have "\<forall>x\<in>set (name # names). \<forall>e\<in>set (remaining others x s). e \<in> set (remaining others x t) \<or> delivered cap e t"
    using 1(6) 2(6) same same_t delivered_fanned[OF _ 2(2)] by auto
  moreover have "n + m = 0 \<longrightarrow> (\<forall>x\<in>set (name # names). remaining others x s = [])" using 1(4) 2(4) same by auto
  moreover have "pk_ix t \<le> pk_ix s + 2 * cap * (n + m)" using 1(7) 2(7) by (simp add: distrib_left)
  ultimately show ?case using fanned_trans[OF 1(2) 2(2)] 1(3) 2(3) by auto
qed (simp add: total_remaining_def)

lemma backfill_loop_reaches:
  assumes "rows_fresh m s" and "pk_ix s + 2 * cap * total_remaining others FOLLOW_SOURCES s \<le> m" and "keys_tell others s" and "0 < per"
  shows "\<exists>k t. backfill_loop others cap per None written batches s
        = Some (Inr (written + total_remaining others FOLLOW_SOURCES s, k), t)
    \<and> fanned s t \<and> (\<forall>x\<in>set FOLLOW_SOURCES. \<forall>e\<in>set (remaining others x s). delivered cap e t)"
  using assms
proof (induction "total_remaining others FOLLOW_SOURCES s" arbitrary: s written batches rule: less_induct)
  case less
  have d: "distinct FOLLOW_SOURCES" by (simp add: FOLLOW_SOURCES_def)
  obtain n s1 where 1: "fanout_batch others cap per s = (Inr n, s1)" "fanned s s1" "n = 0 \<longrightarrow> (\<forall>x\<in>set FOLLOW_SOURCES. remaining others x s = [])"
    "total_remaining others FOLLOW_SOURCES s1 + n = total_remaining others FOLLOW_SOURCES s"
    "\<forall>x\<in>set FOLLOW_SOURCES. \<forall>e\<in>set (remaining others x s). e \<in> set (remaining others x s1) \<or> delivered cap e s1"
    "pk_ix s1 \<le> pk_ix s + 2 * cap * n"
    using fanout_sources_reach[OF less.prems(1,2) less.prems(3)[unfolded keys_tell_def] less.prems(4) d]
    unfolding fanout_batch_def by auto
  show ?case
  proof (cases "n = 0")
    case True
    then have "backfill_loop others cap per None written batches s = Some (Inr (written, batches), s1)"
      using 1(1) by (subst backfill_loop.simps) simp
    moreover have "total_remaining others FOLLOW_SOURCES s = 0" using 1(3) True by (simp add: total_remaining_def)
    ultimately show ?thesis using 1(2,3) True by auto
  next
    case False
    have "total_remaining others FOLLOW_SOURCES s1 < total_remaining others FOLLOW_SOURCES s" using 1(4) False by simp
    moreover have "pk_ix s1 + 2 * cap * total_remaining others FOLLOW_SOURCES s1 \<le> m"
      using less.prems(2) 1(6) unfolding 1(4)[symmetric] distrib_left by linarith
    moreover have "rows_fresh m s1" "keys_tell others s1"
      using 1(2) less.prems(1,3) source_entries_fanned[OF 1(2)] by (simp_all add: fanned_def keys_tell_def)
    ultimately obtain k t where 2: "backfill_loop others cap per None (written + n) (Suc batches) s1
          = Some (Inr (written + n + total_remaining others FOLLOW_SOURCES s1, k), t)"
      "fanned s1 t" "\<forall>x\<in>set FOLLOW_SOURCES. \<forall>e\<in>set (remaining others x s1). delivered cap e t"
      using less.hyps[of s1 "written + n" "Suc batches"] less.prems(4) by blast
    have "backfill_loop others cap per None written batches s = backfill_loop others cap per None (written + n) (Suc batches) s1"
      using 1(1) False by (subst backfill_loop.simps) simp
    moreover have "written + n + total_remaining others FOLLOW_SOURCES s1 = written + total_remaining others FOLLOW_SOURCES s"
      using 1(4) by simp
    moreover have "\<forall>x\<in>set FOLLOW_SOURCES. \<forall>e\<in>set (remaining others x s). delivered cap e t"
      using 1(5) 2(3) delivered_fanned[OF _ 2(2)] by blast
    ultimately show ?thesis using 2(1) fanned_trans[OF 1(2) 2(2)] by auto
  qed
qed

lemma rewind_facts:
  "x \<in> set FOLLOW_SOURCES \<Longrightarrow> watermark x (rewind_watermarks since s) = (since, None)" "fanned s (rewind_watermarks since s)"
  "source_entries others x (rewind_watermarks since s) = source_entries others x s"
proof -
  have m: "find (\<lambda>w. fs_source w = x) (map (\<lambda>w. if fs_source w \<in> S then w\<lparr>fs_last_created_at := since, fs_last_id := None\<rparr> else w) ws)
    = map_option (\<lambda>w. if x \<in> S then w\<lparr>fs_last_created_at := since, fs_last_id := None\<rparr> else w) (find (\<lambda>w. fs_source w = x) ws)" for S ws
    by (induction ws) auto
  have n: "find (\<lambda>w. fs_source w = x) (map (\<lambda>name. \<lparr>fs_source = name, fs_last_created_at = since, fs_last_id = None\<rparr>) names)
    = (if x \<in> set names then Some \<lparr>fs_source = x, fs_last_created_at = since, fs_last_id = None\<rparr> else None)" for names
    by (induction names) auto
  have e: "list_ex (\<lambda>w. fs_source w = x) ws \<longleftrightarrow> find (\<lambda>w. fs_source w = x) ws \<noteq> None" for ws
    by (induction ws) auto
  show "watermark x (rewind_watermarks since s) = (since, None)" if "x \<in> set FOLLOW_SOURCES"
    using that by (auto simp: watermark_def rewind_watermarks_def Let_def find_append m n e split: option.splits)
  show "fanned s (rewind_watermarks since s)" by (simp add: rewind_watermarks_def Let_def)
  show "source_entries others x (rewind_watermarks since s) = source_entries others x s"
    by (simp add: source_entries_def rewind_watermarks_def Let_def)
qed

lemma backfill_run:
  fixes since :: "instant option"
  assumes "rows_fresh n s" and "pk_ix s + 2 * cap * length (concat (map (\<lambda>x. source_entries others x s) FOLLOW_SOURCES)) \<le> n"
    and "keys_tell others s" and "0 < backfill_size batch_size"
  defines "from \<equiv> or_old since EARLIEST"
  obtains k t where "\<And>owned. backfill_feed others cap owned since batch_size None s
        = Some (Inr (length (filter (\<lambda>e. from < en_time e) (concat (map (\<lambda>x. source_entries others x s) FOLLOW_SOURCES))), k),
            if owned then forum_roll_back s t else t)"
    "fanned s t" "\<forall>x\<in>set FOLLOW_SOURCES. \<forall>e\<in>set (source_entries others x s). from < en_time e \<longrightarrow> delivered cap e t"
proof -
  define s0 where "s0 = rewind_watermarks from s"
  have rem: "remaining others x s0 = filter (\<lambda>e. from < en_time e) (source_entries others x s)" if "x \<in> set FOLLOW_SOURCES" for x
    using that by (simp add: remaining_def s0_def rewind_facts ahead_of_def[abs_def] above_def[abs_def])
  have fresh: "rows_fresh n s0" "keys_tell others s0" using assms(1,3) rewind_facts(2)[of s "from"]
    by (simp_all add: s0_def fanned_def keys_tell_def rewind_facts(3))
  have n: "total_remaining others FOLLOW_SOURCES s0
      = length (filter (\<lambda>e. from < en_time e) (concat (map (\<lambda>x. source_entries others x s) FOLLOW_SOURCES)))"
    using rem by (simp add: total_remaining_def filter_concat length_concat comp_def cong: map_cong)
  have *: "2 * cap * total_remaining others FOLLOW_SOURCES s0 \<le> 2 * cap * length (concat (map (\<lambda>x. source_entries others x s) FOLLOW_SOURCES))"
    unfolding n by (intro mult_le_mono2 length_filter_le)
  have room: "pk_ix s0 + 2 * cap * total_remaining others FOLLOW_SOURCES s0 \<le> n"
  proof -
    have "pk_ix s0 = pk_ix s" by (simp add: s0_def rewind_watermarks_def Let_def)
    with * assms(2) show ?thesis by linarith
  qed
  obtain k t where t: "backfill_loop others cap (nat (backfill_size batch_size)) None 0 0 s0
        = Some (Inr (total_remaining others FOLLOW_SOURCES s0, k), t)"
    "fanned s0 t" "\<forall>x\<in>set FOLLOW_SOURCES. \<forall>e\<in>set (remaining others x s0). delivered cap e t"
    using backfill_loop_reaches[OF fresh(1) room fresh(2), of "nat (backfill_size batch_size)" 0 0] assms(4) by auto
  show thesis
  proof (rule that)
    show "backfill_feed others cap owned since batch_size None s
        = Some (Inr (length (filter (\<lambda>e. from < en_time e) (concat (map (\<lambda>x. source_entries others x s) FOLLOW_SOURCES))), k),
            if owned then forum_roll_back s t else t)" for owned
      using t(1) assms(4) unfolding n[symmetric] by (simp add: backfill_feed_def s0_def assms(5))
    show "fanned s t" using fanned_trans[OF rewind_facts(2) t(2)[unfolded s0_def]] .
    show "\<forall>x\<in>set FOLLOW_SOURCES. \<forall>e\<in>set (source_entries others x s). from < en_time e \<longrightarrow> delivered cap e t"
      using t(3) rem by auto
  qed
qed

section \<open>Properties\<close>

text \<open>C38: A time line holds what its reader asked for.  After any sequence of requests of the community (follows, unfollows, posts,
  deletions, and all others) and runs of the fan-out, refused or not, each row written ahead is by an author whom its reader
  follows or of a board that he follows, and no two rows of a reader show the same thing.\<close>

theorem time_lines_are_wanted:
  assumes "feed_items s = []"
  shows "let t = feed_run reg cap limit rb xs s
    in (\<forall>f. f \<in> set (feed_items t) \<longrightarrow>
          (\<exists>a. fi_author_id f = Some a \<and> a \<in> set (get_following_ids (fi_user_id f) t))
          \<or> (\<exists>b. fi_board_id f = Some b \<and> b \<in> set (get_followed_board_ids (fi_user_id f) t)))
      \<and> distinct (map (\<lambda>f. (fi_user_id f, fi_item_type f, fi_source_id f)) (feed_items t))"
proof -
  define t where "t = feed_run reg cap limit rb xs s"
  have ok: "feed_ok t" unfolding t_def by (rule feed_ok_run) (simp add: feed_ok_def assms(1))
  have "(\<exists>a. fi_author_id f = Some a \<and> a \<in> set (get_following_ids (fi_user_id f) t))
      \<or> (\<exists>b. fi_board_id f = Some b \<and> b \<in> set (get_followed_board_ids (fi_user_id f) t))" if "f \<in> set (feed_items t)" for f
    using ok that by (auto simp: feed_ok_def wanted_row_def get_following_ids_def get_followed_board_ids_def targets_now split: option.splits)
  moreover have "distinct (map (\<lambda>f. (fi_user_id f, fi_item_type f, fi_source_id f)) (feed_items t))"
    using ok by (simp add: feed_ok_def feed_key_def[abs_def])
  ultimately show ?thesis by (simp add: t_def[symmetric])
qed

text \<open>C39: Filling the time lines again ends and reaches everybody.  On a session that is handed over, the loop returns after it has
  written every visible entry later than the start to each follower of its author and of its board, unless there are more of them than
  the cap; the number that it reports is the number of those entries.\<close>

theorem backfill_reaches:
  assumes "rows_fresh n s" and "pk_ix s + 2 * cap * length (concat (map (\<lambda>x. source_entries others x s) FOLLOW_SOURCES)) \<le> n"
    and "keys_tell others s" and "0 < backfill_size batch_size"
  shows "\<exists>k t. backfill_feed others cap False since batch_size None s
        = Some (Inr (length (filter (\<lambda>e. or_old since EARLIEST < en_time e) (concat (map (\<lambda>x. source_entries others x s) FOLLOW_SOURCES))), k), t)
    \<and> (\<forall>name e u. name \<in> set FOLLOW_SOURCES \<longrightarrow> e \<in> set (source_entries others name s) \<longrightarrow> or_old since EARLIEST < en_time e
        \<longrightarrow> u \<in> set (audience cap (en_author e) (user_follows s)) \<union> set (audience cap (en_board e) (board_follows s))
        \<longrightarrow> (\<exists>f. f \<in> set (feed_items t) \<and> fi_user_id f = u \<and> fi_item_type f = en_type e \<and> fi_source_id f = en_id e))"
proof -
  obtain k t where run: "\<And>owned. backfill_feed others cap owned since batch_size None s
        = Some (Inr (length (filter (\<lambda>e. or_old since EARLIEST < en_time e) (concat (map (\<lambda>x. source_entries others x s) FOLLOW_SOURCES))), k),
            if owned then forum_roll_back s t else t)"
    and f: "fanned s t" and d: "\<forall>x\<in>set FOLLOW_SOURCES. \<forall>e\<in>set (source_entries others x s). or_old since EARLIEST < en_time e \<longrightarrow> delivered cap e t"
    using backfill_run[OF assms, where since = since] by blast
  have "\<exists>f. f \<in> set (feed_items t) \<and> fi_user_id f = u \<and> fi_item_type f = en_type e \<and> fi_source_id f = en_id e"
    if "name \<in> set FOLLOW_SOURCES" "e \<in> set (source_entries others name s)" "or_old since EARLIEST < en_time e"
      "u \<in> set (audience cap (en_author e) (user_follows s)) \<union> set (audience cap (en_board e) (board_follows s))" for name e u
  proof -
    have "delivered cap e t" using d that by blast
    then have "(u, en_type e, en_id e) \<in> feed_key ` set (feed_items t)"
      using that(4) f by (auto simp: delivered_def reader_of_def fanned_def)
    then show ?thesis by (auto simp: feed_key_def)
  qed
  then show ?thesis using run[of False] by simp
qed

text \<open>C40: Run as the command it is documented to be, filling the time lines does nothing.  With a session of its own it reports
  as many entries as on a session handed over, and leaves time lines and watermarks as they were: it never commits.\<close>

theorem backfill_is_lost:
  assumes "rows_fresh n s" and "pk_ix s + 2 * cap * length (concat (map (\<lambda>x. source_entries others x s) FOLLOW_SOURCES)) \<le> n"
    and "keys_tell others s" and "0 < backfill_size batch_size"
  shows "\<exists>i k t u. backfill_feed others cap False since batch_size None s = Some (Inr (i, k), t)
    \<and> backfill_feed others cap True since batch_size None s = Some (Inr (i, k), u)
    \<and> i = length (filter (\<lambda>e. or_old since EARLIEST < en_time e) (concat (map (\<lambda>x. source_entries others x s) FOLLOW_SOURCES)))
    \<and> feed_items u = feed_items s \<and> feed_fanout_state u = feed_fanout_state s"
proof -
  obtain k t where run: "\<And>owned. backfill_feed others cap owned since batch_size None s
        = Some (Inr (length (filter (\<lambda>e. or_old since EARLIEST < en_time e) (concat (map (\<lambda>x. source_entries others x s) FOLLOW_SOURCES))), k),
            if owned then forum_roll_back s t else t)"
    and "fanned s t" and "\<forall>x\<in>set FOLLOW_SOURCES. \<forall>e\<in>set (source_entries others x s). or_old since EARLIEST < en_time e \<longrightarrow> delivered cap e t"
    using backfill_run[OF assms, where since = since] by blast
  define i where "i = length (filter (\<lambda>e. or_old since EARLIEST < en_time e) (concat (map (\<lambda>x. source_entries others x s) FOLLOW_SOURCES)))"
  have "backfill_feed others cap False since batch_size None s = Some (Inr (i, k), t)"
    "backfill_feed others cap True since batch_size None s = Some (Inr (i, k), forum_roll_back s t)"
    by (simp_all only: run i_def if_True if_False)
  moreover have "feed_items (forum_roll_back s t) = feed_items s" "feed_fanout_state (forum_roll_back s t) = feed_fanout_state s"
    by (simp_all add: forum_roll_back_def)
  ultimately show ?thesis unfolding i_def[symmetric] by blast
qed

section \<open>Witnesses\<close>

text \<open>A reader follows the author of two posts; and the same with nothing written ahead.\<close>

definition feed0 :: forum_db where
  "feed0 = forum0\<lparr>content_items := [blog_item 101 2 9 post0 10, blog_item 102 2 9 post0 20], display_name_of := [2 \<mapsto> ''b'']\<rparr>"

lemma feed0_sources:
  "source_entries (\<lambda>_. []) name (feed0\<lparr>pk_ix := n, user_follows := fs\<rparr>)
    = (if name = ''blog'' then [fetch_blog (blog_item 101 2 9 post0 10), fetch_blog (blog_item 102 2 9 post0 20)] else [])"
  by (simp add: source_entries_def feed0_def published_item_def blog_item_def)

lemma feed0_simps: "user_follows feed0 = []" "feed_items feed0 = []" "display_name_of feed0 = [2 \<mapsto> ''b'']" "pk_ix feed0 = 0" "pks feed0 = of_nat" "now feed0 = 0"
  by (simp_all add: feed0_def)

lemma feed0_fetch:
  "fetch_source (\<lambda>_. []) name (Some [2]) [] None 50 (feed0\<lparr>pk_ix := n, user_follows := fs\<rparr>)
    = (if name = ''blog'' then [fetch_blog (blog_item 102 2 9 post0 20), fetch_blog (blog_item 101 2 9 post0 10)] else [])"
  by (simp add: fetch_source_def feed0_sources wanted_def below_def recent_first_def en_key_def fetch_blog_def blog_item_def)

lemma feed0_followed:
  "feed_run [] 2000 50 rbac_db0 [((\<lambda>_. []), Follow_user [] 1 2)] feed0
    = feed0\<lparr>pk_ix := 3, user_follows := [new_follow 0 1 2 0],
        feed_items := [feed_row 1 1 (Some 2) (fetch_blog (blog_item 102 2 9 post0 20)), feed_row 2 1 (Some 2) (fetch_blog (blog_item 101 2 9 post0 10))],
        cache_fx := cache_fx feed0 @ [Invalidate ''follow:following'' [uuid_str 1], Invalidate ''follow:boards'' [uuid_str 1]]\<rparr>"
proof -
  have a: "add_user_follow 1 2 feed0 = (Inr True, feed0\<lparr>pk_ix := Suc 0, user_follows := [new_follow 0 1 2 0]\<rparr>)"
    by (simp add: add_user_follow_def get_pair_def fresh_pk_def follow_rows_def feed0_simps Let_def)
  have b: "backfill_author (\<lambda>_. []) [] 1 2 50 (feed0\<lparr>pk_ix := Suc 0, user_follows := [new_follow 0 1 2 0]\<rparr>)
    = (Inr 2, feed0\<lparr>pk_ix := 3, user_follows := [new_follow 0 1 2 0], feed_items :=
        [feed_row 1 1 (Some 2) (fetch_blog (blog_item 102 2 9 post0 20)), feed_row 2 1 (Some 2) (fetch_blog (blog_item 101 2 9 post0 10))]\<rparr>)"
    by (simp add: backfill_author_def feed0_fetch FOLLOW_SOURCES_def Let_def bindA_def fresh_pk_def insert_feed_row_def feed_row_def
        feed0_simps fetch_blog_def blog_item_def or_old_def)
  show ?thesis
    by (simp add: feed_handle_def forum_session_def follow_user_def bindA_def feed0_simps a b invalidate_follow_cache_def emitA_def emit_fx_def)
qed

theorem time_lines_are_wanted_witness:
  "let t = feed_run [] 2000 50 rbac_db0 [((\<lambda>_. []), Follow_user [] 1 2)] feed0
   in map fi_source_id (feed_items t) = [102, 101] \<and> 2 \<in> set (get_following_ids 1 t)"
proof -
  define t where "t = feed_run [] 2000 50 rbac_db0 [((\<lambda>_. []), Follow_user [] 1 2)] feed0"
  have e: "feed_items t = [feed_row 1 1 (Some 2) (fetch_blog (blog_item 102 2 9 post0 20)), feed_row 2 1 (Some 2) (fetch_blog (blog_item 101 2 9 post0 10))]"
    unfolding t_def feed0_followed by simp
  then obtain f g where f: "feed_items t = [f, g]" "fi_user_id f = 1" "fi_author_id f = Some 2" "fi_source_id f = 102" "fi_source_id g = 101"
    by (simp add: feed_row_def fetch_blog_def blog_item_def)
  have "get_followed_board_ids 1 t = []"
    unfolding t_def feed0_followed by (simp add: get_followed_board_ids_def targets_of_def feed0_def)
  moreover have "feed_items feed0 = []" by (simp add: feed0_simps)
  ultimately show ?thesis
    using time_lines_are_wanted[of feed0 "[]" 2000 50 rbac_db0 "[((\<lambda>_. []), Follow_user [] 1 2)]"] f
    unfolding Let_def t_def[symmetric] by auto
qed

lemma forum2_fresh: "rows_fresh 4 forum2" "keys_tell (\<lambda>_. []) forum2"
proof -
  have "{0 :: nat..<4} = {0, 1, 2, 3}" by auto
  then show "rows_fresh 4 forum2" by (simp add: rows_fresh_def forum2_def inj_on_def)
  show "keys_tell (\<lambda>_. []) forum2" by (simp add: keys_tell_def fetch_blog_def blog_item_def en_key_def)
qed

lemma forum2_entries:
  "concat (map (\<lambda>x. source_entries (\<lambda>_. []) x forum2) FOLLOW_SOURCES)
    = [fetch_blog (blog_item 101 2 9 post0 10), fetch_blog (blog_item 102 2 9 post0 20)]" "pk_ix forum2 = 0"
  by (simp add: FOLLOW_SOURCES_def) (simp add: forum2_def)

theorem backfill_reaches_witness:
  "\<exists>k t f. backfill_feed (\<lambda>_. []) 1 False (Some 15) None None forum2 = Some (Inr (1, k), t)
     \<and> f \<in> set (feed_items t) \<and> fi_user_id f = 1 \<and> fi_source_id f = 102"
proof -
  have "1 \<in> set (audience 1 (Some 2) (user_follows forum2))"
    by (simp add: audience_def followers_of_def forum2_def new_follow_def Let_def)
  then show ?thesis
    using backfill_reaches[OF forum2_fresh(1) _ forum2_fresh(2), of 1 None "Some 15"]
    unfolding forum2_entries
    by (simp add: backfill_size_def or_old_def fetch_blog_def blog_item_def FOLLOW_SOURCES_def) blast
qed

theorem backfill_is_lost_witness:
  "\<exists>k t. backfill_feed (\<lambda>_. []) 1 True None None None forum2 = Some (Inr (2, k), t) \<and> feed_items t = [] \<and> feed_fanout_state t = []"
  using backfill_is_lost[OF forum2_fresh(1) _ forum2_fresh(2), of 1 None None] unfolding forum2_entries
  by (auto simp: backfill_size_def or_old_def fetch_blog_def blog_item_def EARLIEST_def forum2_def)

end
