(* ===== verification/Spec2Isabelle.thy ===== *)
theory Spec2Isabelle
  imports Outbox_Relay Worker Points_Engine Qa Rbac_Service Auth_Attempts Auth_Upgrades File_Contents Plugins Local_Cache Exam Bloom Snap_Cache Feed_Fanout
begin

text \<open>
  A model of the server of LKM, a service for schools written in Python: one program of request handlers, workers and jobs over
  PostgreSQL, Redis and a message bus, and beside it a service for accounts.  The theories here translate the code that decides
  something; paths are below \<open>src\<close>.  The source of each definition is in the map of the manifest.

  \<^bold>\<open>How the code is read.\<close>  A table is a list of records, or a map where its rows are found by a unique key; a database is a record of
  tables that grows by extension: \<open>core_db\<close> (outbox, clock, identifiers to be drawn), \<open>points_db\<close>, \<open>content_db\<close>, \<open>forum_db\<close> for
  the application, \<open>auth_db\<close> and \<open>exam_db\<close> for accounts, \<open>file_db\<close>, \<open>rbac_db\<close>.  An operation returns a value or an exception
  with the state it leaves (\<open>act\<close> in \<open>Actions\<close>, sums in \<open>Prelude\<close>); the session around it (\<open>get_session\<close>,
  \<open>forum_session\<close>, \<open>get_auth_session\<close>) decides what stays of that state after an exception.  Text is a list of characters,
  an identifier a word of 128 bits, an instant an integer of microseconds, drawn identifiers and secrets come from a sequence
  given with the state.  Libraries (hashes, signatures, scanners, stores of objects, regular expressions) are parameters, and
  what is relied on of them is a named hypothesis of the theorems that need it.

  \<^bold>\<open>Foundations.\<close>
  \<^item> \<open>Prelude\<close>: results, loops that stop at the first exception, the text of an identifier; \<open>Actions\<close>: operations over a state and
    \<open>kept_relation\<close>, the interface of the relations between states that families of operations keep.
  \<^item> \<open>Errors\<close> (\<open>core/err.py\<close>, every \<open>errors.py\<close>): the codes, the registry filled at start-up, exceptions and answers; each code
    is registered once, with one status.

  \<^bold>\<open>Events.\<close>
  \<^item> \<open>Event_Contract\<close> (\<open>core/event_contract.py\<close>, \<open>core/bus/topics.py\<close>): topics, contracts, checks of payloads and handlers, and
    which accepted handlers cannot be called.
  \<^item> \<open>Outbox_Store\<close>, \<open>Outbox_Relay\<close> (\<open>core/db/outbox.py\<close>, \<open>core/outbox_relay.py\<close>): events queued in the transaction of the
    request; any number of relays that claim, publish and settle them, crashing anywhere, as a step relation.  No event is lost, a stale
    relay settles nothing, and polling empties the queue.
  \<^item> \<open>Worker\<close> (\<open>core/worker.py\<close>, \<open>core/task_registry.py\<close>): dispatch of an event to its subscriptions, acknowledgement, dead letters.

  \<^bold>\<open>Points and questions.\<close>
  \<^item> \<open>Points_Store\<close>, \<open>Points_Engine\<close> (\<open>app/modules/points\<close>): ledger and balances, rewards that may be repeated, counters,
    achievements, daily tasks, check-in, leaderboard.  The balance is the sum of the ledger; what was paid is not paid again.
  \<^item> \<open>Qa\<close> (\<open>app/modules/qa\<close>): questions whose bounty is held in escrow.  \<open>points_port\<close> is what questions ask of points.  Every point
    of a bounty is held, paid or returned, and expiry settles all that is due.

  \<^bold>\<open>Roles and accounts.\<close>
  \<^item> \<open>Rbac_Roles\<close>, \<open>Rbac_Service\<close> (\<open>core/rbac_roles.py\<close>, \<open>app/modules/rbac\<close>): the hierarchy with its closure
    (\<open>role_hierarchy\<close>), separation of duties, permissions and the seed.
  \<^item> \<open>Auth_Store\<close>, \<open>Auth_Sessions\<close>, \<open>Auth_Authz\<close> (\<open>auth\<close>): accounts, logins, codes, tokens and their rotation, upgrades, admission.
    \<open>Auth_Safety\<close>, \<open>Auth_Attempts\<close>, \<open>Auth_Upgrades\<close>: what holds over any sequence of requests: ended sessions stay ended, a
    refresh token works once, failures count, the verdict through the seam is that of the tables.
  \<^item> \<open>Exam\<close> (\<open>app/modules/exam\<close>): exams, attempts, certificates and what they unlock in the accounts.

  \<^bold>\<open>Files.\<close>  \<open>File_Store\<close>, \<open>File_Library\<close> (\<open>app/modules/files\<close>): the library over a store of objects in which every call may
  fail.  \<open>File_Safety\<close> keeps the identity of documents and their versions; \<open>File_Contents\<close> shows that contents stay under
  the name of their hash unless the audit of a rejection is refused, where one is lost.

  \<^bold>\<open>Community.\<close>
  \<^item> \<open>Content_Store\<close>, \<open>Forum_Store\<close>: the tables of \<open>app/modules/content\<close>, \<open>comment\<close>, \<open>interaction\<close>, \<open>feed\<close>, and the session.
  \<^item> \<open>Content_Counters\<close>: counters written with the row or collected in Redis, and their reconciliation; \<open>Boards\<close>: boards, applications,
    bans; \<open>Content_Items\<close>: items, comments, favourites, publication from a blog.
  \<^item> \<open>Content_Books\<close>: all requests of these as one machine, and the invariant that counters are the numbers of their rows.
  \<^item> \<open>Feed_Store\<close>, \<open>Feed_Pages\<close>: follows, and the pages of a time line merged from rows written ahead and from the sources (\<open>scan\<close>):
    the cursors lead through every visible entry once; a reader with nothing written ahead gets one page of the sources.
  \<^item> \<open>Feed_Fanout\<close>: follows, the fan-out, and the command that fills time lines again.  A time line holds only what its reader
    asked for; the command ends and reaches every follower, but the session that it opens itself is never committed.

  \<^bold>\<open>Start-up and caches.\<close>
  \<^item> \<open>Plugins\<close> (\<open>core/plugins\<close>): manifests, the order of installation, the registry; accepted exactly if an order exists.
  \<^item> \<open>Local_Cache\<close> (\<open>core/local_cache.py\<close>): refines a plain memory that may forget.  \<open>Snap_Cache\<close> (\<open>core/user_cache.py\<close>):
    one snapshot through Redis and process caches with interleaved readers and invalidations (\<open>backfilled_cache\<close>); readers of
    a process share one run of the loader (\<open>core/singleflight.py\<close>), so one that comes late may answer with what was invalidated.
    \<open>Bloom\<close> (\<open>core/bloom.py\<close>, \<open>auth/bloom_seed.py\<close>): the filter never rejects a member if additions work while it counts, and if
    Redis loses bits only with the mark and outside a scan or sign-up; what happens otherwise is shown too.

  \<^bold>\<open>How the components meet.\<close>  Handlers queue events in \<open>core_db\<close>; the relay publishes what \<open>Outbox_Store\<close> holds, and
  \<open>Event_Contract\<close> says that a worker takes it.  Content and questions queue point events that \<open>Points_Engine\<close> consumes;
  questions call points directly, over \<open>points_port\<close>.  Exams raise the levels of \<open>Auth_Authz\<close>; roles of an account become permissions by
  \<open>Rbac_Service\<close>, which every handler asks.  Questions and blogs write content items.

  \<^bold>\<open>Kinds of lemmas.\<close>  Each theory first shows what its operations do on every branch, then what they keep, then the properties; those that
  speak of sequences take any list of requests, refused or not.  Theorems with hypotheses are followed by a witness that applies them.
  Some properties prove defects: what is proved there is the behaviour of the code, and the manifest lists it under its findings.

  \<^bold>\<open>Bounds and fuel.\<close>  The check of the role hierarchy recurses to depth 1000, Python's limit; the roles are fewer.  \<open>ids_fresh\<close>
  asks that the next identifiers differ.  The polls of the relay, the pages of lists and time lines, and the batches of jobs
  take a number of rounds, and the theorems say how many suffice (one per row, entry or batch).  The loops of closure, installation, expiry,
  reconciliation, filling of time lines, the search for a free name and the collection of a page are total functions, or proved to return.

  \<^bold>\<open>Not modelled.\<close>  Requests run one after another, except relays, snapshots, the bloom scans and the deletion of a comment, where the
  interleaving is explicit.  Left out everywhere: widths of columns and 32-bit overflow of counters, texts of messages, characters beyond 255,
  surrogate keys nobody reads, logs and metrics, floats (scores, the clock of the caches), pools and threads.  Left out as parts:
  articles, columns, the git side of blogs, projects, notifications, administration, treehole and starhope, search, second factors,
  passkeys, OAuth, recovery, cached query results, the lease of the relay, configuration, the web interface and migrations; they are
  tables with display logic that repeats what is modelled, or wrappers of external programs.
\<close>

end
